(* ===== verification/Builra_Prelude.thy ===== *)
theory Builra_Prelude
  imports Main "HOL-Library.Word" "HOL-Library.Monad_Syntax"
begin

text \<open>
  Shared vocabulary of the development: the names of the model's basic types, the vector and
  deque operations of the C++ standard library that the sources use (\<^verbatim>\<open>push_back\<close>,
  \<^verbatim>\<open>back\<close>, \<^verbatim>\<open>pop_back\<close>, \<^verbatim>\<open>erase\<close>), and the lemmas on
  lists, options and maps that the component theories share.

  A vector or deque is a list whose first element is the front.  A function that may hit an
  assertion failure, an \<^verbatim>\<open>abort()\<close>, a null or dangling pointer, or an
  out-of-bounds access returns an \<open>option\<close>, and \<open>None\<close> is that fault.
\<close>

section \<open>Types\<close>

text \<open>A \<^verbatim>\<open>KeyType\<close> wraps a \<^verbatim>\<open>std::string\<close>; a \<^verbatim>\<open>ValueType\<close> is a byte vector.\<close>

type_synonym KeyType = string
type_synonym ValueType = "8 word list"

text \<open>
  A \<^verbatim>\<open>KeyID\<close> is the address of an interned key string.  The model uses the
  position of the string in the interning table as its address.
\<close>

type_synonym KeyID = nat

section \<open>Vectors\<close>

text \<open>\<^verbatim>\<open>v.erase(v.begin() + i)\<close>\<close>

definition erase_at :: "nat \<Rightarrow> 'a list \<Rightarrow> 'a list" where
  "erase_at i xs = take i xs @ drop (Suc i) xs"

lemma length_erase_at [simp]: "i < length xs \<Longrightarrow> length (erase_at i xs) = length xs - 1"
  by (simp add: erase_at_def)

lemma erase_at_append [simp]: "erase_at (length xs) (xs @ y # ys) = xs @ ys"
  by (simp add: erase_at_def)

lemma erase_at_map: "erase_at i (map f xs) = map f (erase_at i xs)"
  by (simp add: erase_at_def take_map drop_map)

lemma erase_at_zip:
  "length xs = length ys \<Longrightarrow> zip (erase_at i xs) (erase_at i ys) = erase_at i (zip xs ys)"
  by (simp add: erase_at_def take_zip drop_zip)

lemma set_erase_at_subset: "set (erase_at i xs) \<subseteq> set xs"
  by (auto simp: erase_at_def dest: in_set_takeD in_set_dropD)

lemma erase_at_conv: "i < length xs \<Longrightarrow> xs = take i xs @ (xs ! i) # drop (Suc i) xs"
  by (rule id_take_nth_drop)

section \<open>Options\<close>

lemma bind_eq_Some_iff [simp]:
  "(Option.bind x f = Some y) \<longleftrightarrow> (\<exists>z. x = Some z \<and> f z = Some y)"
  by (cases x) auto

section \<open>The collections of the development\<close>

named_theorems step_defs "the definitions of the single operations of a component"
named_theorems frame_simps "what an operation leaves unchanged"

end
