(* ===== verification/Dependency_Keys.thy ===== *)
theory Dependency_Keys
  imports Builra_Prelude
begin

text \<open>
  The class \<^verbatim>\<open>DependencyKeyIDs\<close> of
  \<^verbatim>\<open>include/builra/Core/DependencyKeyIDs.h\<close>: a sequence of dependency keys, each
  with an order-only and a single-use flag, stored as two parallel vectors with the flags packed
  into the low bits of a byte.  The theory models every operation on that representation and
  shows that it implements a plain list of (key, order-only, single-use) triples; the locale
  \<open>dependency_seq\<close> is the contract the build engine relies on.
\<close>

unbundle bit_operations_syntax

section \<open>The representation\<close>

record DependencyKeyIDs =
  keys :: "KeyID list"
  flags :: "8 word list"

record KeyIDAndFlags =
  kf_keyID :: KeyID
  kf_orderOnly :: bool
  kf_singleUse :: bool

definition no_dependencies :: DependencyKeyIDs where
  "no_dependencies = \<lparr>keys = [], flags = []\<rparr>"

text \<open>\<^verbatim>\<open>(flags[index] >> 1) & 1\<close> and \<^verbatim>\<open>flags[index] & 1\<close>\<close>

definition singleUse :: "DependencyKeyIDs \<Rightarrow> nat \<Rightarrow> bool" where
  "singleUse d i = ((drop_bit 1 (flags d ! i)) AND 1 \<noteq> 0)"

definition orderOnly :: "DependencyKeyIDs \<Rightarrow> nat \<Rightarrow> bool" where
  "orderOnly d i = ((flags d ! i) AND 1 \<noteq> 0)"

text \<open>\<^verbatim>\<open>(singleUseFlag << 1) | orderOnlyFlag\<close>\<close>

definition pack_flags :: "bool \<Rightarrow> bool \<Rightarrow> 8 word" where
  "pack_flags orderOnlyFlag singleUseFlag =
     (push_bit 1 (of_bool singleUseFlag)) OR of_bool orderOnlyFlag"

definition clear_deps :: "DependencyKeyIDs \<Rightarrow> DependencyKeyIDs" where
  "clear_deps d = d\<lparr>keys := [], flags := []\<rparr>"

definition size_deps :: "DependencyKeyIDs \<Rightarrow> nat" where
  "size_deps d = length (keys d)"

definition empty_deps :: "DependencyKeyIDs \<Rightarrow> bool" where
  "empty_deps d = (keys d = [])"

definition subscript :: "DependencyKeyIDs \<Rightarrow> nat \<Rightarrow> KeyIDAndFlags" where
  "subscript d n = \<lparr>kf_keyID = keys d ! n, kf_orderOnly = orderOnly d n, kf_singleUse = singleUse d n\<rparr>"

text \<open>
  \<^verbatim>\<open>vector::resize\<close> truncates, or fills with default elements: the bogus key id 0
  and the flag byte 0.
\<close>

definition resize_deps :: "nat \<Rightarrow> DependencyKeyIDs \<Rightarrow> DependencyKeyIDs" where
  "resize_deps n d =
     d\<lparr>keys := take n (keys d) @ replicate (n - length (keys d)) 0,
       flags := take n (flags d) @ replicate (n - length (flags d)) 0\<rparr>"

definition set_dep :: "DependencyKeyIDs \<Rightarrow> nat \<Rightarrow> KeyID \<Rightarrow> bool \<Rightarrow> bool \<Rightarrow> DependencyKeyIDs" where
  "set_dep d n k oo su =
     d\<lparr>keys := (keys d)[n := k], flags := (flags d)[n := pack_flags oo su]\<rparr>"

definition push_back_dep :: "DependencyKeyIDs \<Rightarrow> KeyID \<Rightarrow> bool \<Rightarrow> bool \<Rightarrow> DependencyKeyIDs" where
  "push_back_dep d k oo su =
     d\<lparr>keys := keys d @ [k], flags := flags d @ [pack_flags oo su]\<rparr>"

definition append_deps :: "DependencyKeyIDs \<Rightarrow> DependencyKeyIDs \<Rightarrow> DependencyKeyIDs" where
  "append_deps d rhs = d\<lparr>keys := keys d @ keys rhs, flags := flags d @ flags rhs\<rparr>"

text \<open>The loop of \<^verbatim>\<open>cleanSingleUseDependencies\<close> runs from the last index to the first.\<close>

fun clean_loop :: "nat \<Rightarrow> DependencyKeyIDs \<Rightarrow> DependencyKeyIDs" where
  "clean_loop 0 d = d"
| "clean_loop (Suc index) d =
     clean_loop index
       (if singleUse d index
        then d\<lparr>keys := erase_at index (keys d), flags := erase_at index (flags d)\<rparr>
        else d)"

definition cleanSingleUseDependencies :: "DependencyKeyIDs \<Rightarrow> DependencyKeyIDs" where
  "cleanSingleUseDependencies d =
     (if size_deps d > 0 then clean_loop (size_deps d) d else d)"

text \<open>What a range-based loop from \<^verbatim>\<open>begin()\<close> to \<^verbatim>\<open>end()\<close> visits.\<close>

definition deps_list :: "DependencyKeyIDs \<Rightarrow> KeyIDAndFlags list" where
  "deps_list d = map (subscript d) [0..<size_deps d]"

section \<open>The representation invariant and the list view\<close>

definition wf_deps :: "DependencyKeyIDs \<Rightarrow> bool" where
  "wf_deps d = (length (flags d) = length (keys d))"

definition unpack :: "KeyID \<times> 8 word \<Rightarrow> KeyIDAndFlags" where
  "unpack kf = \<lparr>kf_keyID = fst kf, kf_orderOnly = (snd kf AND 1 \<noteq> 0),
                kf_singleUse = (drop_bit 1 (snd kf) AND 1 \<noteq> 0)\<rparr>"

lemma deps_list_zip: "wf_deps d \<Longrightarrow> deps_list d = map unpack (zip (keys d) (flags d))"
  by (rule nth_equalityI)
    (auto simp: deps_list_def wf_deps_def size_deps_def subscript_def unpack_def
       orderOnly_def singleUse_def)

lemma unpack_pack [simp]:
  "unpack (k, pack_flags oo su) = \<lparr>kf_keyID = k, kf_orderOnly = oo, kf_singleUse = su\<rparr>"
  by (cases oo; cases su; simp add: unpack_def pack_flags_def)

lemma length_deps_list [simp]: "length (deps_list d) = size_deps d"
  by (simp add: deps_list_def)

lemma nth_deps_list: "i < size_deps d \<Longrightarrow> deps_list d ! i = subscript d i"
  by (simp add: deps_list_def)

lemma wf_deps_intros [simp]:
  "wf_deps no_dependencies"
  "wf_deps d \<Longrightarrow> wf_deps (push_back_dep d k oo su)"
  "wf_deps d \<Longrightarrow> wf_deps e \<Longrightarrow> wf_deps (append_deps d e)"
  "wf_deps (clear_deps d)"
  "wf_deps d \<Longrightarrow> wf_deps (set_dep d n k oo su)"
  "wf_deps d \<Longrightarrow> wf_deps (resize_deps n d)"
  by (auto simp: wf_deps_def no_dependencies_def push_back_dep_def append_deps_def
      clear_deps_def set_dep_def resize_deps_def)

lemma deps_list_no_dependencies [simp]: "deps_list no_dependencies = []"
  by (simp add: deps_list_def no_dependencies_def size_deps_def)

lemma deps_list_clear [simp]: "deps_list (clear_deps d) = []"
  by (simp add: deps_list_def clear_deps_def size_deps_def)

lemma deps_list_push_back [simp]:
  "wf_deps d \<Longrightarrow>
   deps_list (push_back_dep d k oo su) =
     deps_list d @ [\<lparr>kf_keyID = k, kf_orderOnly = oo, kf_singleUse = su\<rparr>]"
  by (simp add: deps_list_zip) (simp add: wf_deps_def push_back_dep_def)

lemma deps_list_append [simp]:
  "wf_deps d \<Longrightarrow> wf_deps e \<Longrightarrow> deps_list (append_deps d e) = deps_list d @ deps_list e"
  by (simp add: deps_list_zip) (simp add: wf_deps_def append_deps_def)

lemma deps_list_set_dep:
  assumes "wf_deps d" "n < size_deps d"
  shows "deps_list (set_dep d n k oo su) =
    (deps_list d)[n := \<lparr>kf_keyID = k, kf_orderOnly = oo, kf_singleUse = su\<rparr>]"
proof -
  have "zip ((keys d)[n := k]) ((flags d)[n := pack_flags oo su]) =
      (zip (keys d) (flags d))[n := (k, pack_flags oo su)]"
    by (simp add: update_zip)
  then show ?thesis
    using assms by (simp add: deps_list_zip) (simp add: set_dep_def map_update)
qed

section \<open>Cleaning the single-use dependencies\<close>

lemma clean_loop_filter:
  assumes "wf_deps d" "n \<le> size_deps d"
  shows "wf_deps (clean_loop n d) \<and>
    deps_list (clean_loop n d) =
      filter (\<lambda>e. \<not> kf_singleUse e) (take n (deps_list d)) @ drop n (deps_list d)"
  using assms
proof (induction n arbitrary: d)
  case 0
  then show ?case by simp
next
  case (Suc n)
  let ?d = "if singleUse d n
            then d\<lparr>keys := erase_at n (keys d), flags := erase_at n (flags d)\<rparr> else d"
  have n: "n < size_deps d" using Suc.prems by simp
  have wf: "wf_deps ?d" using Suc.prems n by (simp add: wf_deps_def size_deps_def)
  have view: "deps_list ?d =
      (if singleUse d n then take n (deps_list d) @ drop (Suc n) (deps_list d) else deps_list d)"
    using Suc.prems(1) wf
    by (simp add: deps_list_zip wf_deps_def erase_at_zip flip: erase_at_map)
      (simp add: erase_at_def)
  have size: "n \<le> size_deps ?d" using n by (auto simp: size_deps_def)
  have nth: "deps_list d ! n = subscript d n" using n by (rule nth_deps_list)
  have tk: "take (Suc n) (deps_list d) = take n (deps_list d) @ [subscript d n]"
    using n nth by (simp add: take_Suc_conv_app_nth)
  have dr: "drop n (deps_list d) = subscript d n # drop (Suc n) (deps_list d)"
    using n nth by (metis Cons_nth_drop_Suc length_deps_list)
  show ?case
    using Suc.IH [OF wf size] n dr
    by (auto simp: view tk subscript_def)
qed

lemma clean_refines:
  assumes "wf_deps d"
  shows "deps_list (cleanSingleUseDependencies d) = filter (\<lambda>e. \<not> kf_singleUse e) (deps_list d)"
    and "wf_deps (cleanSingleUseDependencies d)"
  using clean_loop_filter [OF assms order_refl] assms
  by (auto simp: cleanSingleUseDependencies_def deps_list_def)

section \<open>The contract\<close>

locale dependency_seq =
  fixes emp :: "'d"
    and push :: "'d \<Rightarrow> KeyID \<Rightarrow> bool \<Rightarrow> bool \<Rightarrow> 'd"
    and app :: "'d \<Rightarrow> 'd \<Rightarrow> 'd"
    and clean :: "'d \<Rightarrow> 'd"
    and view :: "'d \<Rightarrow> KeyIDAndFlags list"
    and invar :: "'d \<Rightarrow> bool"
  assumes invar_emp: "invar emp"
    and invar_push: "invar d \<Longrightarrow> invar (push d k oo su)"
    and invar_app: "invar d \<Longrightarrow> invar e \<Longrightarrow> invar (app d e)"
    and invar_clean: "invar d \<Longrightarrow> invar (clean d)"
    and view_emp: "view emp = []"
    and view_push: "invar d \<Longrightarrow>
      view (push d k oo su) = view d @ [\<lparr>kf_keyID = k, kf_orderOnly = oo, kf_singleUse = su\<rparr>]"
    and view_app: "invar d \<Longrightarrow> invar e \<Longrightarrow> view (app d e) = view d @ view e"
    and view_clean: "invar d \<Longrightarrow> view (clean d) = filter (\<lambda>e. \<not> kf_singleUse e) (view d)"
begin

definition push_all :: "KeyIDAndFlags list \<Rightarrow> 'd \<Rightarrow> 'd" where
  "push_all es d = fold (\<lambda>e d. push d (kf_keyID e) (kf_orderOnly e) (kf_singleUse e)) es d"

lemma push_all_view: "invar d \<Longrightarrow> invar (push_all es d) \<and> view (push_all es d) = view d @ es"
  unfolding push_all_def
  by (induction es arbitrary: d) (auto simp: invar_push view_push)

lemma clean_push_all_single_use:
  assumes "invar d" "\<forall>e \<in> set es. kf_singleUse e"
  shows "view (clean (push_all es d)) = view (clean d)"
  using assms push_all_view [OF assms(1), of es]
  by (auto simp: view_clean filter_empty_conv)

lemma clean_app: "invar d \<Longrightarrow> invar e \<Longrightarrow> view (clean (app d e)) = view (clean d) @ view (clean e)"
  by (simp add: view_clean view_app invar_app)

lemma clean_idem: "invar d \<Longrightarrow> view (clean (clean d)) = view (clean d)"
  by (simp add: view_clean invar_clean)

end

interpretation dk: dependency_seq no_dependencies push_back_dep append_deps
  cleanSingleUseDependencies deps_list wf_deps
  by unfold_locales (simp_all add: clean_refines)

end
