(* ===== verification/Engine_Types.thy ===== *)
theory Engine_Types
  imports Dependency_Keys
begin

text \<open>
  The data of the build engine, \<^verbatim>\<open>lib/Core/BuildEngine.cpp\<close> and
  \<^verbatim>\<open>include/builra/Core/BuildEngine.h\<close>: rules, results, tasks, the requests in
  the engine's queues and the engine object itself.

  References into the engine's tables are the tables' keys: a \<^verbatim>\<open>RuleInfo*\<close> is
  the \<open>KeyID\<close> under which \<^verbatim>\<open>ruleInfos\<close> holds it and a
  \<^verbatim>\<open>Task*\<close> or \<^verbatim>\<open>TaskInfo*\<close> is the number of the task, which
  grows by one with each task the engine creates.  The tracing object and the mutexes are left
  out; the rest of \<^verbatim>\<open>BuildEngineImpl\<close> is the record \<open>engine\<close>.
\<close>

section \<open>Rules, results and requests\<close>

type_synonym Epoch = nat
type_synonym Timestamp = nat
type_synonym CommandSignature = "64 word"
type_synonym InputID = "64 word"
type_synonym TaskRef = nat

definition kMaximumInputID :: InputID where
  "kMaximumInputID = not 0xFF"

definition kMustFollowInputID :: InputID where
  "kMustFollowInputID = not 0"

record Rule =
  rule_key :: KeyType
  rule_signature :: CommandSignature

record Result =
  res_value :: ValueType
  res_signature :: CommandSignature
  res_computedAt :: Epoch
  res_builtAt :: Epoch
  res_dependencies :: DependencyKeyIDs
  res_start :: Timestamp
  res_end :: Timestamp

definition empty_result :: Result where
  "empty_result = \<lparr>res_value = [], res_signature = 0, res_computedAt = 0, res_builtAt = 0,
     res_dependencies = no_dependencies, res_start = 0, res_end = 0\<rparr>"

datatype StatusKind = StatusIsScanning | StatusIsUpToDate | StatusIsComplete
datatype CycleAction = ForceBuild | SupplyPriorValue
datatype RunReason = NeverBuilt | SignatureChanged | InvalidValue | InputRebuilt | Forced

record TaskInputRequest =
  tir_taskInfo :: "TaskRef option"
  tir_inputID :: InputID
  tir_inputRuleInfo :: KeyID
  tir_orderOnly :: bool
  tir_forcePriorValue :: bool
  tir_singleUse :: bool

record RuleScanRequest =
  rsr_ruleInfo :: KeyID
  rsr_inputIndex :: nat
  rsr_inputRuleInfo :: "KeyID option"
  rsr_orderOnly :: bool
  rsr_singleUse :: bool

record RuleScanRecord =
  pausedInputRequests :: "TaskInputRequest list"
  deferredScanRequests :: "RuleScanRequest list"

definition new_scan_record :: RuleScanRecord where
  "new_scan_record = \<lparr>pausedInputRequests = [], deferredScanRequests = []\<rparr>"

section \<open>The state of a rule\<close>

datatype StateKind =
    Incomplete
  | IsScanning
  | NeedsToRun
  | DoesNotNeedToRun
  | InProgressWaiting
  | InProgressComputing
  | Complete

text \<open>The code compares states by the number of the enumerator, \<^verbatim>\<open>int(state)\<close>.\<close>

primrec state_number :: "StateKind \<Rightarrow> nat" where
  "state_number Incomplete = 0"
| "state_number IsScanning = 1"
| "state_number NeedsToRun = 2"
| "state_number DoesNotNeedToRun = 3"
| "state_number InProgressWaiting = 4"
| "state_number InProgressComputing = 5"
| "state_number Complete = 6"

lemma state_number_inj: "state_number a = state_number b \<longleftrightarrow> a = b"
  by (cases a; cases b; simp)

instantiation StateKind :: linorder
begin

definition less_eq_StateKind :: "StateKind \<Rightarrow> StateKind \<Rightarrow> bool" where
  "less_eq_StateKind a b = (state_number a \<le> state_number b)"

definition less_StateKind :: "StateKind \<Rightarrow> StateKind \<Rightarrow> bool" where
  "less_StateKind a b = (state_number a < state_number b)"

instance
  by standard (auto simp: less_eq_StateKind_def less_StateKind_def state_number_inj)

end

text \<open>The union \<^verbatim>\<open>inProgressInfo\<close>: its scan record, its task, or null.\<close>

datatype InProgressInfo =
    NoInfo
  | PendingScanRecord RuleScanRecord
  | PendingTaskInfo TaskRef

record RuleInfo =
  ri_keyID :: KeyID
  ri_rule :: Rule
  ri_inProgressInfo :: InProgressInfo
  ri_result :: Result
  ri_state :: StateKind
  ri_wasForced :: bool

definition new_RuleInfo :: "KeyID \<Rightarrow> Rule \<Rightarrow> RuleInfo" where
  "new_RuleInfo keyID rule = \<lparr>ri_keyID = keyID, ri_rule = rule, ri_inProgressInfo = NoInfo,
     ri_result = empty_result, ri_state = Incomplete, ri_wasForced = False\<rparr>"

definition isScanning :: "RuleInfo \<Rightarrow> bool" where
  "isScanning ri = (ri_state ri = IsScanning)"

definition isInProgressWaiting :: "RuleInfo \<Rightarrow> bool" where
  "isInProgressWaiting ri = (ri_state ri = InProgressWaiting)"

definition isInProgressComputing :: "RuleInfo \<Rightarrow> bool" where
  "isInProgressComputing ri = (ri_state ri = InProgressComputing)"

definition isInProgress :: "RuleInfo \<Rightarrow> bool" where
  "isInProgress ri = (isInProgressWaiting ri \<or> isInProgressComputing ri)"

definition isComplete :: "Epoch \<Rightarrow> RuleInfo \<Rightarrow> bool" where
  "isComplete epoch ri = (ri_state ri = Complete \<and> res_builtAt (ri_result ri) = epoch)"

definition isScanned :: "Epoch \<Rightarrow> RuleInfo \<Rightarrow> bool" where
  "isScanned epoch ri =
     (if ri_state ri = Complete then isComplete epoch ri else ri_state ri > IsScanning)"

text \<open>\<^verbatim>\<open>getPendingScanRecord\<close> asserts that the rule is scanning, \<^verbatim>\<open>getPendingTaskInfo\<close> that it is in progress.\<close>

definition getPendingScanRecord :: "RuleInfo \<Rightarrow> RuleScanRecord option" where
  "getPendingScanRecord ri =
     (if isScanning ri then
        case ri_inProgressInfo ri of PendingScanRecord r \<Rightarrow> Some r | _ \<Rightarrow> None
      else None)"

definition getPendingTaskInfo :: "RuleInfo \<Rightarrow> TaskRef option" where
  "getPendingTaskInfo ri =
     (if isInProgress ri then
        case ri_inProgressInfo ri of PendingTaskInfo t \<Rightarrow> Some t | _ \<Rightarrow> None
      else None)"

definition setComputing :: "Timestamp \<Rightarrow> RuleInfo \<Rightarrow> RuleInfo option" where
  "setComputing now ri =
     (if isInProgressWaiting ri
      then Some (ri\<lparr>ri_state := InProgressComputing,
                    ri_result := (ri_result ri)\<lparr>res_start := now\<rparr>\<rparr>)
      else None)"

definition setComplete :: "Epoch \<Rightarrow> Timestamp \<Rightarrow> RuleInfo \<Rightarrow> RuleInfo" where
  "setComplete epoch now ri =
     ri\<lparr>ri_state := Complete,
        ri_result := (ri_result ri)\<lparr>res_builtAt := epoch, res_end := now\<rparr>\<rparr>"

definition setCancelled :: "RuleInfo \<Rightarrow> RuleInfo" where
  "setCancelled ri = ri\<lparr>ri_state := Incomplete\<rparr>"

section \<open>Tasks\<close>

text \<open>\<open>'ts\<close> is the private state of the client's task object.\<close>

record 'ts TaskInfo =
  ti_task :: 'ts
  ti_requestedBy :: "TaskInputRequest list"
  ti_deferredScanRequests :: "RuleScanRequest list"
  ti_forRuleInfo :: KeyID
  ti_waitCount :: nat
  ti_discoveredDependencies :: DependencyKeyIDs

definition new_TaskInfo :: "'ts \<Rightarrow> KeyID \<Rightarrow> 'ts TaskInfo" where
  "new_TaskInfo task rid = \<lparr>ti_task = task, ti_requestedBy = [], ti_deferredScanRequests = [],
     ti_forRuleInfo = rid, ti_waitCount = 0, ti_discoveredDependencies = no_dependencies\<rparr>"

section \<open>The engine and its client\<close>

text \<open>
  What the engine tells its client: the delegate's and the rules' notifications and the
  callbacks it invokes on tasks, in order.
\<close>

datatype event =
    EvStatus KeyType StatusKind
  | EvNeedsToRun KeyType RunReason "KeyType option"
  | EvError string
  | EvCycleDetected "KeyType list"
  | EvStart TaskRef
  | EvProvidePriorValue TaskRef ValueType
  | EvProvideValue TaskRef InputID KeyType ValueType
  | EvInputsAvailable TaskRef
  | EvBuildCancelled nat
  | EvCancelAllJobs

record ('ts, 'db) engine =
  keyTable :: "KeyType list"
  db :: "'db option"
  executionQueue :: bool
  currentEpoch :: Epoch
  buildCancelled :: bool
  buildRunning :: bool
  cancellationDelegates :: "nat list"
  inputRequests :: "TaskInputRequest list"
  finishedInputRequests :: "TaskInputRequest list"
  ruleInfosToScan :: "RuleScanRequest list"
  ruleInfos :: "KeyID \<Rightarrow> RuleInfo option"
  taskInfos :: "TaskRef \<Rightarrow> 'ts TaskInfo option"
  nextTask :: TaskRef
  readyTaskInfos :: "TaskRef list"
  numOutstandingUnfinishedTasks :: nat
  finishedTaskInfos :: "TaskRef list"
  clock :: Timestamp
  events :: "event list"

definition new_engine :: "('ts, 'db) engine" where
  "new_engine = \<lparr>keyTable = [], db = None, executionQueue = False, currentEpoch = 0,
     buildCancelled = False, buildRunning = False, cancellationDelegates = [],
     inputRequests = [], finishedInputRequests = [], ruleInfosToScan = [],
     ruleInfos = Map.empty, taskInfos = Map.empty, nextTask = 0, readyTaskInfos = [],
     numOutstandingUnfinishedTasks = 0, finishedTaskInfos = [], clock = 0, events = []\<rparr>"

text \<open>The calls a task may make on its \<^verbatim>\<open>TaskInterface\<close>.\<close>

datatype task_call =
    CallRequest KeyType InputID
  | CallRequestSingleUse KeyType InputID
  | CallMustFollow KeyType
  | CallDiscoveredDependency KeyType
  | CallComplete ValueType bool

text \<open>
  The client: the delegate, the rules and the tasks are virtual classes whose overriders are
  not part of the engine, and so is the database.  They are parameters of the model.  A task
  callback takes the task's private state and returns the new one with the calls the callback
  makes, in order.  A database operation returns an error message on failure;
  \<open>db_lookupRuleResult\<close> may intern keys through the engine's
  \<^verbatim>\<open>BuildDBDelegate\<close> interface, so it takes the key table and returns it.
\<close>

record ('ts, 'db) client =
  lookupRule :: "KeyType \<Rightarrow> Rule"
  isResultValid :: "Rule \<Rightarrow> ValueType \<Rightarrow> bool"
  createTask :: "Rule \<Rightarrow> 'ts"
  task_start :: "'ts \<Rightarrow> 'ts \<times> task_call list"
  task_providePriorValue :: "ValueType \<Rightarrow> 'ts \<Rightarrow> 'ts \<times> task_call list"
  task_provideValue :: "InputID \<Rightarrow> KeyType \<Rightarrow> ValueType \<Rightarrow> 'ts \<Rightarrow> 'ts \<times> task_call list"
  task_inputsAvailable :: "'ts \<Rightarrow> 'ts \<times> task_call list"
  shouldResolveCycle :: "KeyType list \<Rightarrow> KeyType \<Rightarrow> CycleAction \<Rightarrow> bool"
  db_buildStarted :: "'db \<Rightarrow> 'db \<times> string option"
  db_buildComplete :: "'db \<Rightarrow> 'db"
  db_getCurrentEpoch :: "'db \<Rightarrow> Epoch \<times> bool"
  db_setCurrentIteration :: "'db \<Rightarrow> Epoch \<Rightarrow> 'db \<times> string option"
  db_lookupRuleResult :: "'db \<Rightarrow> KeyType list \<Rightarrow> KeyID \<Rightarrow> KeyType \<Rightarrow> KeyType list \<times> Result option \<times> string"
  db_setRuleResult :: "'db \<Rightarrow> KeyType list \<Rightarrow> KeyID \<Rightarrow> Rule \<Rightarrow> Result \<Rightarrow> 'db \<times> string option"

section \<open>Access to the tables\<close>

definition upd_rule :: "KeyID \<Rightarrow> (RuleInfo \<Rightarrow> RuleInfo) \<Rightarrow> ('ts, 'db) engine \<Rightarrow> ('ts, 'db) engine" where
  "upd_rule rid f s = s\<lparr>ruleInfos := (ruleInfos s)(rid := map_option f (ruleInfos s rid))\<rparr>"

definition upd_task :: "TaskRef \<Rightarrow> ('ts TaskInfo \<Rightarrow> 'ts TaskInfo) \<Rightarrow> ('ts, 'db) engine \<Rightarrow> ('ts, 'db) engine" where
  "upd_task t f s = s\<lparr>taskInfos := (taskInfos s)(t := map_option f (taskInfos s t))\<rparr>"

definition emit :: "event \<Rightarrow> ('ts, 'db) engine \<Rightarrow> ('ts, 'db) engine" where
  "emit e s = s\<lparr>events := events s @ [e]\<rparr>"

end
