(* ===== verification/Engine_Skeleton.thy ===== *)
theory Engine_Skeleton
  imports Engine_Types
begin

text \<open>
  The skeleton of an engine: what its bookkeeping invariant speaks about.  Of a rule it keeps
  the state and the in-progress information, of a task its rule, the requests that wait for it
  and its wait count; of the queues it keeps the input requests, the finished input requests,
  the ready and the finished tasks.  The invariant relates them: a task's wait count is the
  number of its requests that are on their way, wherever they are queued; a rule is in progress
  exactly while it has its task; the ready queue holds exactly the tasks that wait for nothing;
  the number of outstanding tasks is the number of computing ones.

  The invariant takes what the code holds in its hands between two queue operations: the request
  \<open>H\<close> just taken from a queue, the tasks \<open>E\<close> that are being started and the number \<open>k\<close> of
  tasks that compute but are not yet counted as outstanding (or are no longer).
\<close>

section \<open>Sums over finite maps\<close>

definition msum :: "('v \<Rightarrow> nat) \<Rightarrow> ('k \<Rightarrow> 'v option) \<Rightarrow> nat" where
  "msum f m = (\<Sum>x\<in>dom m. f (the (m x)))"

lemma msum_new:
  assumes "finite (dom m)" "m k = None"
  shows "msum f (m(k \<mapsto> v)) = msum f m + f v"
proof -
  have "(\<Sum>x\<in>dom m. f (the ((m(k \<mapsto> v)) x))) = (\<Sum>x\<in>dom m. f (the (m x)))"
    by (rule sum.cong) (use assms in \<open>auto simp: domIff\<close>)
  then show ?thesis
    using assms by (simp add: msum_def domIff del: fun_upd_apply) simp
qed

lemma msum_del:
  assumes "finite (dom m)" "m k = Some v"
  shows "msum f (m(k := None)) + f v = msum f m"
proof -
  have eq: "m = (m(k := None))(k \<mapsto> v)" using assms(2) by auto
  have "msum f m = msum f ((m(k := None))(k \<mapsto> v))" using eq by metis
  also have "\<dots> = msum f (m(k := None)) + f v"
    by (rule msum_new) (use assms in auto)
  finally show ?thesis by simp
qed

lemma msum_upd:
  assumes "finite (dom m)" "m k = Some v0"
  shows "msum f (m(k \<mapsto> v)) + f v0 = msum f m + f v"
proof -
  have "msum f (m(k \<mapsto> v)) = msum f (m(k := None)) + f v"
    using msum_new [of "m(k := None)" k f v] assms by simp
  then show ?thesis using msum_del [OF assms, of f] by simp
qed

lemma msum_upd_same:
  assumes "finite (dom m)" "m k = Some v0" "f v = f v0"
  shows "msum f (m(k \<mapsto> v)) = msum f m"
  using msum_upd [OF assms(1,2), of f v] assms(3) by simp

lemma msum_ge: "finite (dom m) \<Longrightarrow> m k = Some v \<Longrightarrow> f v \<le> msum f m"
  using msum_del [of m k v f] by simp

section \<open>Skeletons\<close>

record skel =
  k_rules :: "KeyID \<Rightarrow> (StateKind \<times> InProgressInfo) option"
  k_tasks :: "TaskRef \<Rightarrow> (KeyID \<times> TaskInputRequest list \<times> nat) option"
  k_next :: TaskRef
  k_input :: "TaskInputRequest list"
  k_fin :: "TaskInputRequest list"
  k_ready :: "TaskRef list"
  k_num :: nat
  k_done :: "TaskRef list"

definition skel_of :: "('ts, 'db) engine \<Rightarrow> skel" where
  "skel_of s = \<lparr>
     k_rules = (\<lambda>r. map_option (\<lambda>ri. (ri_state ri, ri_inProgressInfo ri)) (ruleInfos s r)),
     k_tasks = (\<lambda>t. map_option (\<lambda>ti. (ti_forRuleInfo ti, ti_requestedBy ti, ti_waitCount ti)) (taskInfos s t)),
     k_next = nextTask s, k_input = inputRequests s, k_fin = finishedInputRequests s,
     k_ready = readyTaskInfos s, k_num = numOutstandingUnfinishedTasks s,
     k_done = finishedTaskInfos s\<rparr>"

text \<open>The number of requests of task \<open>t\<close> in a list, in a rule's scan record, and overall.\<close>

definition reqs :: "TaskRef \<Rightarrow> TaskInputRequest list \<Rightarrow> nat" where
  "reqs t xs = count_list (map tir_taskInfo xs) (Some t)"

lemma reqs_simps [simp]:
  "reqs t [] = 0"
  "reqs t (x # xs) = (if tir_taskInfo x = Some t then 1 else 0) + reqs t xs"
  "reqs t (xs @ ys) = reqs t xs + reqs t ys"
  by (auto simp: reqs_def)

definition paused :: "TaskRef \<Rightarrow> StateKind \<times> InProgressInfo \<Rightarrow> nat" where
  "paused t v = (case v of
      (IsScanning, PendingScanRecord rec) \<Rightarrow> reqs t (pausedInputRequests rec)
    | _ \<Rightarrow> 0)"

lemma paused_not_scanning [simp]: "st \<noteq> IsScanning \<Longrightarrow> paused t (st, i) = 0"
  by (cases st) (auto simp: paused_def)

lemma paused_no_record [simp]:
  "paused t (st, NoInfo) = 0" "paused t (st, PendingTaskInfo u) = 0"
  by (cases st; simp add: paused_def)+

lemma paused_record [simp]:
  "paused t (IsScanning, PendingScanRecord rec) = reqs t (pausedInputRequests rec)"
  by (simp add: paused_def)

definition awaited :: "TaskRef \<Rightarrow> KeyID \<times> TaskInputRequest list \<times> nat \<Rightarrow> nat" where
  "awaited t v = (case v of (_, by, _) \<Rightarrow> reqs t by)"

lemma awaited_simp [simp]: "awaited t (r, by, w) = reqs t by"
  by (simp add: awaited_def)

definition outstanding :: "TaskInputRequest list \<Rightarrow> skel \<Rightarrow> TaskRef \<Rightarrow> nat" where
  "outstanding H K t = reqs t H + reqs t (k_input K) + reqs t (k_fin K)
     + msum (paused t) (k_rules K) + msum (awaited t) (k_tasks K)"

definition waits :: "skel \<Rightarrow> TaskRef \<Rightarrow> nat" where
  "waits K t = (case k_tasks K t of None \<Rightarrow> 0 | Some (_, _, w) \<Rightarrow> w)"

definition in_progress :: "StateKind \<Rightarrow> bool" where
  "in_progress st = (st = InProgressWaiting \<or> st = InProgressComputing)"

definition computing :: "skel \<Rightarrow> TaskRef set" where
  "computing K = {t. \<exists>r by w. k_tasks K t = Some (r, by, w) \<and>
                         k_rules K r = Some (InProgressComputing, PendingTaskInfo t)}"

section \<open>The invariant\<close>

definition rules_inv :: "skel \<Rightarrow> bool" where
  "rules_inv K = (\<forall>r st i. k_rules K r = Some (st, i) \<longrightarrow> in_progress st \<longrightarrow>
     (\<exists>t by w. i = PendingTaskInfo t \<and> k_tasks K t = Some (r, by, w)))"

definition tasks_inv :: "skel \<Rightarrow> bool" where
  "tasks_inv K = (\<forall>t r by w. k_tasks K t = Some (r, by, w) \<longrightarrow>
     t < k_next K \<and>
     (\<exists>st. k_rules K r = Some (st, PendingTaskInfo t) \<and> in_progress st \<and>
           (st = InProgressComputing \<longrightarrow> w = 0)))"

definition waits_inv :: "TaskInputRequest list \<Rightarrow> skel \<Rightarrow> bool" where
  "waits_inv H K = (\<forall>t. outstanding H K t = waits K t)"

definition ready_inv :: "TaskRef set \<Rightarrow> skel \<Rightarrow> bool" where
  "ready_inv E K = (distinct (k_ready K) \<and>
     (\<forall>t r by w. k_tasks K t = Some (r, by, w) \<longrightarrow> t \<notin> E \<longrightarrow>
        (t \<in> set (k_ready K) \<longleftrightarrow> w = 0 \<and> k_rules K r = Some (InProgressWaiting, PendingTaskInfo t))) \<and>
     (\<forall>t \<in> set (k_ready K). k_tasks K t \<noteq> None \<and> t \<notin> E))"

definition done_inv :: "nat \<Rightarrow> skel \<Rightarrow> bool" where
  "done_inv k K = (k_num K + k = card (computing K) \<and>
     distinct (k_done K) \<and> set (k_done K) \<subseteq> computing K)"

definition skel_inv :: "TaskInputRequest list \<Rightarrow> TaskRef set \<Rightarrow> nat \<Rightarrow> skel \<Rightarrow> bool" where
  "skel_inv H E k K = (finite (dom (k_rules K)) \<and> finite (dom (k_tasks K)) \<and>
     rules_inv K \<and> tasks_inv K \<and> waits_inv H K \<and> ready_inv E K \<and> done_inv k K)"

lemmas skel_inv_defs = skel_inv_def rules_inv_def tasks_inv_def waits_inv_def ready_inv_def
  done_inv_def

lemma finite_computing: "finite (dom (k_tasks K)) \<Longrightarrow> finite (computing K)"
  by (erule finite_subset [rotated]) (auto simp: computing_def)

lemma queue_frame [simp]:
  "rules_inv (K\<lparr>k_input := x\<rparr>) = rules_inv K" "rules_inv (K\<lparr>k_fin := x\<rparr>) = rules_inv K"
  "rules_inv (K\<lparr>k_ready := y\<rparr>) = rules_inv K" "rules_inv (K\<lparr>k_done := y\<rparr>) = rules_inv K"
  "rules_inv (K\<lparr>k_num := n\<rparr>) = rules_inv K"
  "tasks_inv (K\<lparr>k_input := x\<rparr>) = tasks_inv K" "tasks_inv (K\<lparr>k_fin := x\<rparr>) = tasks_inv K"
  "tasks_inv (K\<lparr>k_ready := y\<rparr>) = tasks_inv K" "tasks_inv (K\<lparr>k_done := y\<rparr>) = tasks_inv K"
  "tasks_inv (K\<lparr>k_num := n\<rparr>) = tasks_inv K"
  "ready_inv E (K\<lparr>k_input := x\<rparr>) = ready_inv E K" "ready_inv E (K\<lparr>k_fin := x\<rparr>) = ready_inv E K"
  "ready_inv E (K\<lparr>k_done := y\<rparr>) = ready_inv E K" "ready_inv E (K\<lparr>k_num := n\<rparr>) = ready_inv E K"
  "computing (K\<lparr>k_input := x\<rparr>) = computing K" "computing (K\<lparr>k_fin := x\<rparr>) = computing K"
  "computing (K\<lparr>k_ready := y\<rparr>) = computing K" "computing (K\<lparr>k_done := y\<rparr>) = computing K"
  "computing (K\<lparr>k_num := n\<rparr>) = computing K"
  "done_inv k (K\<lparr>k_input := x\<rparr>) = done_inv k K" "done_inv k (K\<lparr>k_fin := x\<rparr>) = done_inv k K"
  "done_inv k (K\<lparr>k_ready := y\<rparr>) = done_inv k K"
  "waits_inv H (K\<lparr>k_ready := y\<rparr>) = waits_inv H K" "waits_inv H (K\<lparr>k_done := y\<rparr>) = waits_inv H K"
  "waits_inv H (K\<lparr>k_num := n\<rparr>) = waits_inv H K"
  by (simp_all add: rules_inv_def tasks_inv_def ready_inv_def computing_def done_inv_def
      waits_inv_def outstanding_def waits_def)

section \<open>The moves of the engine on skeletons\<close>

text \<open>A rule that is neither scanning nor in progress changes to another such state.\<close>

definition idle :: "StateKind \<Rightarrow> bool" where
  "idle st = (st \<noteq> IsScanning \<and> \<not> in_progress st)"

lemma skel_inv_task:
  assumes "skel_inv H E k K" "k_tasks K t = Some (r, by, w)"
  obtains st where "t < k_next K" "k_rules K r = Some (st, PendingTaskInfo t)" "in_progress st"
    "st = InProgressComputing \<Longrightarrow> w = 0"
  using assms unfolding skel_inv_def tasks_inv_def by blast

lemma skel_inv_in_progress:
  assumes "skel_inv H E k K" "k_rules K r = Some (st, i)" "in_progress st"
  obtains t "by" w where "i = PendingTaskInfo t" "k_tasks K t = Some (r, by, w)"
  using assms unfolding skel_inv_def rules_inv_def by blast

lemma skel_inv_ready:
  "skel_inv H E k K \<Longrightarrow> k_tasks K t = Some (r, by, w) \<Longrightarrow> t \<notin> E \<Longrightarrow>
   (t \<in> set (k_ready K)) = (w = 0 \<and> k_rules K r = Some (InProgressWaiting, PendingTaskInfo t))"
  unfolding skel_inv_def ready_inv_def by blast

text \<open>What the tasks' rules look like is all that three parts of the invariant see of the rules.\<close>

lemma task_rules_cong:
  assumes "\<And>t r by w. k_tasks K t = Some (r, by, w) \<Longrightarrow> R r = k_rules K r"
  shows "tasks_inv (K\<lparr>k_rules := R\<rparr>) = tasks_inv K"
    and "ready_inv E (K\<lparr>k_rules := R\<rparr>) = ready_inv E K"
    and "computing (K\<lparr>k_rules := R\<rparr>) = computing K"
proof -
  show "tasks_inv (K\<lparr>k_rules := R\<rparr>) = tasks_inv K"
    unfolding tasks_inv_def by (intro all_cong1 imp_cong) (simp, frule assms, simp)
  show "ready_inv E (K\<lparr>k_rules := R\<rparr>) = ready_inv E K"
    unfolding ready_inv_def 
    by (intro arg_cong2 [where f = "(\<and>)"] all_cong1 imp_cong ball_cong) (simp_all, frule assms, simp)
  show "computing (K\<lparr>k_rules := R\<rparr>) = computing K"
    unfolding computing_def 
    by (intro Collect_cong ex_cong1 conj_cong) (simp, frule assms, simp)
qed

text \<open>A rule that is not in progress changes to a state that is not in progress and keeps its paused requests.\<close>

lemma skel_inv_rule:
  assumes inv: "skel_inv H E k K"
    and old: "k_rules K r = None \<or> (\<exists>st i. k_rules K r = Some (st, i) \<and> \<not> in_progress st \<and>
                (\<forall>t. paused t (st, i) = paused t v))"
    and new: "\<not> in_progress (fst v)" "k_rules K r = None \<Longrightarrow> \<forall>t. paused t v = 0"
  shows "skel_inv H E k (K\<lparr>k_rules := (k_rules K)(r \<mapsto> v)\<rparr>)"
proof -
  let ?K = "K\<lparr>k_rules := (k_rules K)(r \<mapsto> v)\<rparr>"
  obtain st' i' where v: "v = (st', i')" by (cases v)
  have fin: "finite (dom (k_rules K))" using inv by (simp add: skel_inv_def)
  have same: "((k_rules K)(r \<mapsto> v)) ra = k_rules K ra" if "k_tasks K t = Some (ra, by, w)" for t ra "by" w
    using inv that by (rule skel_inv_task) (use old in auto)
  have ms: "msum (paused t) ((k_rules K)(r \<mapsto> v)) = msum (paused t) (k_rules K)" for t
    using old new(2) fin by (auto simp: msum_new intro: msum_upd_same)
  have "rules_inv ?K" using inv new v by (auto simp: skel_inv_def rules_inv_def)
  moreover have "waits_inv H ?K"
    using inv by (simp add: skel_inv_def waits_inv_def outstanding_def waits_def ms)
  ultimately show ?thesis
    using inv task_rules_cong [of K "(k_rules K)(r \<mapsto> v)", OF same]
    by (simp add: skel_inv_def done_inv_def)
qed

text \<open>A scan ends: the paused requests return to the input queue.\<close>

lemma skel_inv_finish_scan:
  assumes inv: "skel_inv H E k K"
    and scanning: "k_rules K r = Some (IsScanning, PendingScanRecord rec)"
    and new: "idle st'"
  shows "skel_inv H E k (K\<lparr>k_rules := (k_rules K)(r \<mapsto> (st', i')),
                           k_input := k_input K @ pausedInputRequests rec\<rparr>)"
proof -
  let ?K = "K\<lparr>k_rules := (k_rules K)(r \<mapsto> (st', i')), k_input := k_input K @ pausedInputRequests rec\<rparr>"
  have fin: "finite (dom (k_rules K))" using inv by (simp add: skel_inv_def)
  have same: "((k_rules K)(r \<mapsto> (st', i'))) ra = k_rules K ra" if "k_tasks K t = Some (ra, by, w)" for t ra "by" w
    using inv that by (rule skel_inv_task) (use scanning in \<open>auto simp: in_progress_def\<close>)
  have ms: "msum (paused t) ((k_rules K)(r \<mapsto> (st', i'))) + reqs t (pausedInputRequests rec)
      = msum (paused t) (k_rules K)" for t
    using msum_upd [OF fin scanning, of "paused t" "(st', i')"] new by (simp add: idle_def)
  have "rules_inv ?K" using inv new by (auto simp: skel_inv_def rules_inv_def idle_def)
  moreover have "waits_inv H ?K"
    unfolding waits_inv_def
  proof
    fix t
    have "outstanding H K t = waits K t" using inv by (simp add: skel_inv_def waits_inv_def)
    then show "outstanding H ?K t = waits ?K t"
      using ms [of t] by (simp add: outstanding_def waits_def)
  qed
  moreover have "ready_inv E ?K" "tasks_inv ?K" "done_inv k ?K"
    using inv task_rules_cong [of K "(k_rules K)(r \<mapsto> (st', i'))", OF same]
    by (simp_all add: skel_inv_def done_inv_def)
  ultimately show ?thesis using inv by (simp add: skel_inv_def)
qed


text \<open>Requests move between the hand, the input queue and the finished queue.\<close>

lemma skel_inv_rearrange:
  assumes "skel_inv H E k K"
    and "\<And>t. reqs t H' + reqs t xs + reqs t ys = reqs t H + reqs t (k_input K) + reqs t (k_fin K)"
  shows "skel_inv H' E k (K\<lparr>k_input := xs, k_fin := ys\<rparr>)"
  using assms by (simp add: skel_inv_def waits_inv_def outstanding_def waits_def)

lemma tasks_frame:
  assumes "k_tasks K t = Some (r, by, w)"
  shows "rules_inv K \<Longrightarrow> rules_inv (K\<lparr>k_tasks := (k_tasks K)(t \<mapsto> (r, by', w'))\<rparr>)"
    and "computing (K\<lparr>k_tasks := (k_tasks K)(t \<mapsto> (r, by', w'))\<rparr>) = computing K"
proof -
  show "rules_inv K \<Longrightarrow> rules_inv (K\<lparr>k_tasks := (k_tasks K)(t \<mapsto> (r, by', w'))\<rparr>)"
    unfolding rules_inv_def by (simp, metis Pair_inject assms option.inject)
  show "computing (K\<lparr>k_tasks := (k_tasks K)(t \<mapsto> (r, by', w'))\<rparr>) = computing K"
    using assms by (auto simp: computing_def split: if_splits)
qed

text \<open>A task's list of waiting requests or its wait count changes, with the queues.\<close>

lemma skel_inv_task_upd:
  assumes inv: "skel_inv H E k K"
    and t: "k_tasks K t = Some (r, by, w)"
    and count: "\<And>u. reqs u H' + reqs u xs + reqs u ys + reqs u by' + (if u = t then w else 0)
      = reqs u H + reqs u (k_input K) + reqs u (k_fin K) + reqs u by + (if u = t then w' else 0)"
    and comp: "k_rules K r = Some (InProgressComputing, PendingTaskInfo t) \<Longrightarrow> w' = 0"
    and ready: "ready_inv E (K\<lparr>k_tasks := (k_tasks K)(t \<mapsto> (r, by', w')), k_ready := zs\<rparr>)"
  shows "skel_inv H' E k (K\<lparr>k_tasks := (k_tasks K)(t \<mapsto> (r, by', w')), k_input := xs, k_fin := ys, k_ready := zs\<rparr>)"
    (is "skel_inv H' E k ?K")
proof -
  let ?T = "(k_tasks K)(t \<mapsto> (r, by', w'))"
  have fin: "finite (dom (k_tasks K))" and wi: "\<And>u. outstanding H K u = waits K u"
    using inv by (simp_all add: skel_inv_def waits_inv_def)
  have "waits_inv H' ?K"
    unfolding waits_inv_def
  proof
    fix u
    have "msum (awaited u) ?T + reqs u by = msum (awaited u) (k_tasks K) + reqs u by'"
      using msum_upd [OF fin t, of "awaited u" "(r, by', w')"] by simp
    then show "outstanding H' ?K u = waits ?K u"
      using wi [of u] count [of u] t by (auto simp: outstanding_def waits_def split: if_splits)
  qed
  moreover have "tasks_inv ?K"
    using inv comp t unfolding skel_inv_def tasks_inv_def
    by (auto split: if_splits) (metis option.inject prod.inject)+
  moreover have "done_inv k ?K"
    using inv tasks_frame(2) [OF t] by (simp add: skel_inv_def done_inv_def)
  moreover have "rules_inv ?K"
    using inv tasks_frame(1) [OF t] by (simp add: skel_inv_def)
  moreover have "ready_inv E ?K" using ready by (simp add: ready_inv_def)
  ultimately show ?thesis using inv by (simp add: skel_inv_def)
qed

text \<open>A task is registered for a rule that needs to run.\<close>

lemma skel_inv_register:
  assumes inv: "skel_inv H E k K" and r: "k_rules K r = Some (st, i)" "idle st"
    and n: "n = k_next K"
  shows "skel_inv H (insert n E) k (K\<lparr>k_rules := (k_rules K)(r \<mapsto> (InProgressWaiting, PendingTaskInfo n)),
     k_tasks := (k_tasks K)(n \<mapsto> (r, [], 0)), k_next := Suc n\<rparr>)"
    (is "skel_inv H _ k ?K")
proof -
  have fins: "finite (dom (k_rules K))" "finite (dom (k_tasks K))" using inv by (simp_all add: skel_inv_def)
  have none: "k_tasks K n = None"
  proof (cases "k_tasks K n")
    case (Some v)
    then show ?thesis using inv n by (cases v) (auto elim: skel_inv_task)
  qed
  have ne: "ra \<noteq> r" if "k_tasks K t = Some (ra, by, w)" for t ra "by" w
    using inv that by (rule skel_inv_task) (use r in \<open>auto simp: idle_def\<close>)
  have comp: "computing ?K = computing K"
    using none ne r by (auto simp: computing_def idle_def in_progress_def) blast
  have "rules_inv ?K"
    using inv none unfolding skel_inv_def rules_inv_def by (auto, metis option.distinct(1))
  moreover have "tasks_inv ?K"
    using inv ne n unfolding skel_inv_def tasks_inv_def by (auto simp: in_progress_def intro: less_SucI)
  moreover have "waits_inv H ?K"
    unfolding waits_inv_def
  proof
    fix u
    have "outstanding H K u = waits K u" using inv by (simp add: skel_inv_def waits_inv_def)
    moreover have "msum (paused u) ((k_rules K)(r \<mapsto> (InProgressWaiting, PendingTaskInfo n))) = msum (paused u) (k_rules K)"
      using fins(1) r(1) by (rule msum_upd_same) (use r(2) in \<open>simp add: idle_def\<close>)
    moreover have "msum (awaited u) ((k_tasks K)(n \<mapsto> (r, [], 0))) = msum (awaited u) (k_tasks K)"
      using msum_new [OF fins(2) none, of "awaited u" "(r, [], 0)"] by simp
    ultimately show "outstanding H ?K u = waits ?K u"
      using none by (simp add: outstanding_def waits_def)
  qed
  moreover have "ready_inv (insert n E) ?K"
    using inv ne none unfolding skel_inv_def ready_inv_def by (auto split: if_splits)
  moreover have "done_inv k ?K" using inv comp by (simp add: skel_inv_def done_inv_def)
  ultimately show ?thesis using inv by (simp add: skel_inv_def)
qed


text \<open>The first ready task starts to compute.\<close>

lemma skel_inv_computing:
  assumes inv: "skel_inv H E k K" and ready: "k_ready K = t # zs"
    and t: "k_tasks K t = Some (r, by, w)"
  shows "skel_inv H E (Suc k) (K\<lparr>k_rules := (k_rules K)(r \<mapsto> (InProgressComputing, PendingTaskInfo t)), k_ready := zs\<rparr>)"
    (is "skel_inv H E _ ?K")
proof -
  have fins: "finite (dom (k_rules K))" "finite (dom (k_tasks K))" using inv by (simp_all add: skel_inv_def)
  have tE: "t \<notin> E" "t \<notin> set zs" "distinct zs" using inv ready by (simp_all add: skel_inv_def ready_inv_def)
  have st: "k_rules K r = Some (InProgressWaiting, PendingTaskInfo t)" and w: "w = 0"
    using skel_inv_ready [OF inv t tE(1)] ready by simp_all
  have uniq: "ra = r \<longleftrightarrow> u = t" if u: "k_tasks K u = Some (ra, by', w')" for u ra by' w'
    using inv u by (rule skel_inv_task) (use st t u in auto)
  have comp: "computing ?K = insert t (computing K)" "t \<notin> computing K"
  proof -
    show "computing ?K = insert t (computing K)"
      using t by (auto simp: computing_def) (use uniq in blast)+
    show "t \<notin> computing K" using st t by (simp add: computing_def)
  qed
  have "rules_inv ?K" using inv t by (auto simp: skel_inv_def rules_inv_def)
  moreover have "tasks_inv ?K"
    unfolding tasks_inv_def
  proof (intro allI impI)
    fix u ra by' w' assume u: "k_tasks ?K u = Some (ra, by', w')"
    then have "k_tasks K u = Some (ra, by', w')" by simp
    from skel_inv_task [OF inv this] obtain st' where
      "u < k_next K" "k_rules K ra = Some (st', PendingTaskInfo u)" "in_progress st'"
      "st' = InProgressComputing \<Longrightarrow> w' = 0" by blast
    then show "u < k_next ?K \<and> (\<exists>st. k_rules ?K ra = Some (st, PendingTaskInfo u) \<and> in_progress st \<and>
        (st = InProgressComputing \<longrightarrow> w' = 0))"
      using uniq [of u ra by' w'] u t w by (auto simp: in_progress_def)
  qed
  moreover have "waits_inv H ?K"
  proof -
    have "msum (paused u) ((k_rules K)(r \<mapsto> (InProgressComputing, PendingTaskInfo t))) = msum (paused u) (k_rules K)" for u
      using fins(1) st by (rule msum_upd_same) simp
    then show ?thesis
      using inv by (simp add: skel_inv_def waits_inv_def outstanding_def waits_def)
  qed
  moreover have "ready_inv E ?K"
    unfolding ready_inv_def
  proof (intro conjI allI impI ballI)
    show "distinct (k_ready ?K)" using tE by simp
  next
    fix u ra by' w' assume u: "k_tasks ?K u = Some (ra, by', w')" and E: "u \<notin> E"
    have "(u \<in> set (k_ready K)) = (w' = 0 \<and> k_rules K ra = Some (InProgressWaiting, PendingTaskInfo u))"
      using skel_inv_ready [OF inv _ E] u by simp
    then show "(u \<in> set (k_ready ?K)) = (w' = 0 \<and> k_rules ?K ra = Some (InProgressWaiting, PendingTaskInfo u))"
      using uniq [of u ra by' w'] u ready tE by auto
  qed (use inv ready in \<open>auto simp: skel_inv_def ready_inv_def\<close>)
  moreover have "done_inv (Suc k) ?K"
    using inv comp finite_computing [OF fins(2)] by (auto simp: skel_inv_def done_inv_def)
  ultimately show ?thesis using inv by (simp add: skel_inv_def)
qed

lemma skel_inv_num: "skel_inv H E (Suc k) K \<Longrightarrow> skel_inv H E k (K\<lparr>k_num := Suc (k_num K)\<rparr>)"
  by (simp add: skel_inv_def done_inv_def)

text \<open>A computing task reports its completion.\<close>

lemma skel_inv_done:
  "skel_inv H E k K \<Longrightarrow> t \<in> computing K \<Longrightarrow> t \<notin> set (k_done K) \<Longrightarrow>
   skel_inv H E k (K\<lparr>k_done := k_done K @ [t]\<rparr>)"
  by (simp add: skel_inv_def done_inv_def)

text \<open>A finished task is deleted and the requests that waited for it are released.\<close>

lemma skel_inv_release:
  assumes inv: "skel_inv H E 0 K" and d: "k_done K = ds @ [t]"
    and t: "k_tasks K t = Some (r, by, w)"
  shows "skel_inv H E 0 (K\<lparr>k_rules := (k_rules K)(r \<mapsto> (Complete, NoInfo)), k_tasks := (k_tasks K)(t := None),
     k_fin := k_fin K @ by, k_num := k_num K - 1, k_done := ds\<rparr>)"
    (is "skel_inv H E 0 ?K")
proof -
  have fins: "finite (dom (k_rules K))" "finite (dom (k_tasks K))" using inv by (simp_all add: skel_inv_def)
  have "t \<in> computing K" using inv d by (simp add: skel_inv_def done_inv_def)
  then have st: "k_rules K r = Some (InProgressComputing, PendingTaskInfo t)"
    using t by (auto simp: computing_def)
  have w: "w = 0" using inv t by (rule skel_inv_task) (use st in auto)
  have uniq: "ra = r \<longleftrightarrow> u = t" if u: "k_tasks K u = Some (ra, by', w')" for u ra by' w'
    using inv u by (rule skel_inv_task) (use st t u in auto)
  have comp: "computing ?K = computing K - {t}" "t \<in> computing K"
    using \<open>t \<in> computing K\<close> uniq by (auto simp: computing_def) blast
  have "rules_inv ?K"
    unfolding rules_inv_def
  proof (intro allI impI)
    fix ra st' i assume a: "k_rules ?K ra = Some (st', i)" "in_progress st'"
    then have ra: "ra \<noteq> r" by (auto simp: in_progress_def)
    then obtain u by' w' where "i = PendingTaskInfo u" "k_tasks K u = Some (ra, by', w')"
      using skel_inv_in_progress [OF inv, of ra st' i] a by auto
    then show "\<exists>t by w. i = PendingTaskInfo t \<and> k_tasks ?K t = Some (ra, by, w)"
      using ra t by auto
  qed
  moreover have "tasks_inv ?K"
    unfolding tasks_inv_def
  proof (intro allI impI)
    fix u ra by' w' assume u: "k_tasks ?K u = Some (ra, by', w')"
    then have "u \<noteq> t" and u': "k_tasks K u = Some (ra, by', w')" by (auto split: if_splits)
    then have "ra \<noteq> r" using uniq by blast
    then show "u < k_next ?K \<and> (\<exists>st. k_rules ?K ra = Some (st, PendingTaskInfo u) \<and> in_progress st \<and>
        (st = InProgressComputing \<longrightarrow> w' = 0))"
      using skel_inv_task [OF inv u'] by simp metis
  qed
  moreover have "waits_inv H ?K"
    unfolding waits_inv_def
  proof
    fix u
    have "outstanding H K u = waits K u" using inv by (simp add: skel_inv_def waits_inv_def)
    moreover have "msum (paused u) ((k_rules K)(r \<mapsto> (Complete, NoInfo))) = msum (paused u) (k_rules K)"
      using fins(1) st by (rule msum_upd_same) simp
    moreover have "msum (awaited u) ((k_tasks K)(t := None)) + reqs u by = msum (awaited u) (k_tasks K)"
      using msum_del [OF fins(2) t, of "awaited u"] by simp
    ultimately show "outstanding H ?K u = waits ?K u"
      using t w by (cases "u = t") (simp_all add: outstanding_def waits_def)
  qed
  moreover have "ready_inv E ?K"
    unfolding ready_inv_def
  proof (intro conjI allI impI ballI)
    fix u ra by' w' assume u: "k_tasks ?K u = Some (ra, by', w')" and E: "u \<notin> E"
    then have "u \<noteq> t" and u': "k_tasks K u = Some (ra, by', w')" by (auto split: if_splits)
    then have "ra \<noteq> r" using uniq by blast
    then show "(u \<in> set (k_ready ?K)) = (w' = 0 \<and> k_rules ?K ra = Some (InProgressWaiting, PendingTaskInfo u))"
      using skel_inv_ready [OF inv u' E] by simp
  next
    fix u assume "u \<in> set (k_ready ?K)"
    then have u: "k_tasks K u \<noteq> None" "u \<notin> E" "u \<in> set (k_ready K)"
      using inv by (auto simp: skel_inv_def ready_inv_def)
    have "u \<noteq> t" using u st t skel_inv_ready [OF inv t] by auto
    then show "k_tasks ?K u \<noteq> None" "u \<notin> E" using u by auto
  qed (use inv in \<open>simp add: skel_inv_def ready_inv_def\<close>)
  moreover have "done_inv 0 ?K"
    using inv comp d finite_computing [OF fins(2)]
    by (auto simp: skel_inv_def done_inv_def card_Diff_singleton)
  ultimately show ?thesis using inv by (simp add: skel_inv_def)
qed

end
