(* ===== verification/Engine_Ops.thy ===== *)
theory Engine_Ops
  imports Engine_Types
begin

text \<open>
  The operations of the build engine on single rules and tasks
  (\<^verbatim>\<open>lib/Core/BuildEngine.cpp\<close>): key interning and the rule table, the calls of
  the task interface, scanning and demanding a rule, and the processing of one scan request.
  An operation returns \<open>None\<close> where the code would fail an assertion, call
  \<^verbatim>\<open>abort()\<close> or follow a null or dangling pointer.
\<close>

section \<open>Keys and rules\<close>

text \<open>
  The interning table: a \<^verbatim>\<open>StringMap\<close> entry never moves, and its address is the
  key's id.
\<close>

primrec position :: "'a \<Rightarrow> 'a list \<Rightarrow> nat" where
  "position x [] = 0"
| "position x (y # ys) = (if x = y then 0 else Suc (position x ys))"

definition getKeyID :: "KeyType \<Rightarrow> ('ts, 'db) engine \<Rightarrow> KeyID \<times> ('ts, 'db) engine" where
  "getKeyID key s =
     (let i = position key (keyTable s) in
      (i, if i < length (keyTable s) then s else s\<lparr>keyTable := keyTable s @ [key]\<rparr>))"

definition getKeyForID :: "KeyID \<Rightarrow> ('ts, 'db) engine \<Rightarrow> KeyType option" where
  "getKeyForID i s = (if i < length (keyTable s) then Some (keyTable s ! i) else None)"

definition duplicate_rule_message :: "KeyType \<Rightarrow> string" where
  "duplicate_rule_message key =
     ''attempt to register duplicate rule '' @ [CHR 0x22] @ key @ [CHR 0x22, CHR 0x0A]"

definition addRule ::
  "('ts, 'db) client \<Rightarrow> KeyID \<Rightarrow> Rule \<Rightarrow> ('ts, 'db) engine \<Rightarrow> ('ts, 'db) engine" where
  "addRule W keyID rule s =
     (case ruleInfos s keyID of
        Some ri \<Rightarrow>
          (emit (EvError (duplicate_rule_message (rule_key (ri_rule ri)))) s)\<lparr>buildCancelled := True\<rparr>
      | None \<Rightarrow>
          (let s1 = s\<lparr>ruleInfos := (ruleInfos s)(keyID \<mapsto> new_RuleInfo keyID rule)\<rparr> in
           (case db s of
              None \<Rightarrow> s1
            | Some d \<Rightarrow>
                (case db_lookupRuleResult W d (keyTable s) keyID (rule_key rule) of
                   (table, result, message) \<Rightarrow>
                     (let s2 = s1\<lparr>keyTable := table\<rparr>;
                          s3 = (case result of None \<Rightarrow> s2
                                | Some r \<Rightarrow> upd_rule keyID (\<lambda>ri. ri\<lparr>ri_result := r\<rparr>) s2)
                      in if message = [] then s3
                         else (emit (EvError message) s3)\<lparr>buildCancelled := True\<rparr>)))))"

definition addRule_public ::
  "('ts, 'db) client \<Rightarrow> Rule \<Rightarrow> ('ts, 'db) engine \<Rightarrow> ('ts, 'db) engine" where
  "addRule_public W rule s = (case getKeyID (rule_key rule) s of (i, s1) \<Rightarrow> addRule W i rule s1)"

definition getRuleInfoForKey ::
  "('ts, 'db) client \<Rightarrow> KeyType \<Rightarrow> ('ts, 'db) engine \<Rightarrow> KeyID \<times> ('ts, 'db) engine" where
  "getRuleInfoForKey W key s =
     (case getKeyID key s of (keyID, s1) \<Rightarrow>
        (keyID, if ruleInfos s1 keyID \<noteq> None then s1
                else addRule W keyID (lookupRule W key) s1))"

definition getRuleInfoForKeyID ::
  "('ts, 'db) client \<Rightarrow> KeyID \<Rightarrow> ('ts, 'db) engine \<Rightarrow> ('ts, 'db) engine option" where
  "getRuleInfoForKeyID W keyID s =
     (if ruleInfos s keyID \<noteq> None then Some s
      else do { key \<leftarrow> getKeyForID keyID s;
                Some (addRule W keyID (lookupRule W key) s) })"

section \<open>The calls of the task interface\<close>

definition addTaskInputRequest ::
  "('ts, 'db) client \<Rightarrow> TaskRef \<Rightarrow> KeyType \<Rightarrow> InputID \<Rightarrow> bool \<Rightarrow> bool
   \<Rightarrow> ('ts, 'db) engine \<Rightarrow> ('ts, 'db) engine option" where
  "addTaskInputRequest W t key inputID oo su s =
     do { ti \<leftarrow> taskInfos s t;
          ri \<leftarrow> ruleInfos s (ti_forRuleInfo ti);
          if \<not> isInProgressWaiting ri then None
          else case getRuleInfoForKey W key s of (rid, s1) \<Rightarrow>
            Some (upd_task t (\<lambda>ti. ti\<lparr>ti_waitCount := ti_waitCount ti + 1\<rparr>)
              (s1\<lparr>inputRequests := inputRequests s1 @
                 [\<lparr>tir_taskInfo = Some t, tir_inputID = inputID, tir_inputRuleInfo = rid,
                   tir_orderOnly = oo, tir_forcePriorValue = False, tir_singleUse = su\<rparr>]\<rparr>)) }"

definition reject_call :: "string \<Rightarrow> ('ts, 'db) engine \<Rightarrow> ('ts, 'db) engine" where
  "reject_call message s = (emit (EvError message) s)\<lparr>buildCancelled := True\<rparr>"

definition taskNeedsInput ::
  "('ts, 'db) client \<Rightarrow> TaskRef \<Rightarrow> KeyType \<Rightarrow> InputID \<Rightarrow> ('ts, 'db) engine \<Rightarrow> ('ts, 'db) engine option" where
  "taskNeedsInput W t key inputID s =
     (if inputID > kMaximumInputID
      then Some (reject_call ''attempt to use reserved input ID'' s)
      else addTaskInputRequest W t key inputID False False s)"

definition taskNeedsSingleUseInput ::
  "('ts, 'db) client \<Rightarrow> TaskRef \<Rightarrow> KeyType \<Rightarrow> InputID \<Rightarrow> ('ts, 'db) engine \<Rightarrow> ('ts, 'db) engine option" where
  "taskNeedsSingleUseInput W t key inputID s =
     (if inputID > kMaximumInputID
      then Some (reject_call ''attempt to use reserved input ID'' s)
      else addTaskInputRequest W t key inputID False True s)"

definition taskMustFollow ::
  "('ts, 'db) client \<Rightarrow> TaskRef \<Rightarrow> KeyType \<Rightarrow> ('ts, 'db) engine \<Rightarrow> ('ts, 'db) engine option" where
  "taskMustFollow W t key s = addTaskInputRequest W t key kMustFollowInputID True False s"

definition taskDiscoveredDependency ::
  "TaskRef \<Rightarrow> KeyType \<Rightarrow> ('ts, 'db) engine \<Rightarrow> ('ts, 'db) engine option" where
  "taskDiscoveredDependency t key s =
     do { ti \<leftarrow> taskInfos s t;
          ri \<leftarrow> ruleInfos s (ti_forRuleInfo ti);
          if \<not> isInProgressComputing ri
          then Some (reject_call ''invalid state for adding discovered dependency'' s)
          else case getKeyID key s of (dependencyID, s1) \<Rightarrow>
            Some (upd_task t (\<lambda>ti. ti\<lparr>ti_discoveredDependencies :=
                    push_back_dep (ti_discoveredDependencies ti) dependencyID False False\<rparr>) s1) }"

definition taskIsComplete ::
  "TaskRef \<Rightarrow> ValueType \<Rightarrow> bool \<Rightarrow> ('ts, 'db) engine \<Rightarrow> ('ts, 'db) engine option" where
  "taskIsComplete t val forceChange s =
     do { ti \<leftarrow> taskInfos s t;
          ri \<leftarrow> ruleInfos s (ti_forRuleInfo ti);
          if \<not> isInProgressComputing ri
          then Some (reject_call ''invalid state for marking task complete'' s)
          else if getPendingTaskInfo ri \<noteq> Some t then None
          else let s1 = upd_rule (ti_forRuleInfo ti)
                     (\<lambda>ri. let r = (ri_result ri)\<lparr>res_signature := rule_signature (ri_rule ri)\<rparr> in
                        ri\<lparr>ri_result :=
                          (if \<not> forceChange \<and> val = res_value r then r
                           else r\<lparr>res_value := val, res_computedAt := currentEpoch s\<rparr>)\<rparr>) s
               in Some (s1\<lparr>finishedTaskInfos := finishedTaskInfos s1 @ [t]\<rparr>) }"

fun perform_call ::
  "('ts, 'db) client \<Rightarrow> TaskRef \<Rightarrow> task_call \<Rightarrow> ('ts, 'db) engine \<Rightarrow> ('ts, 'db) engine option" where
  "perform_call W t (CallRequest key inputID) s = taskNeedsInput W t key inputID s"
| "perform_call W t (CallRequestSingleUse key inputID) s = taskNeedsSingleUseInput W t key inputID s"
| "perform_call W t (CallMustFollow key) s = taskMustFollow W t key s"
| "perform_call W t (CallDiscoveredDependency key) s = taskDiscoveredDependency t key s"
| "perform_call W t (CallComplete val forceChange) s = taskIsComplete t val forceChange s"

fun perform_calls ::
  "('ts, 'db) client \<Rightarrow> TaskRef \<Rightarrow> task_call list \<Rightarrow> ('ts, 'db) engine \<Rightarrow> ('ts, 'db) engine option" where
  "perform_calls W t [] s = Some s"
| "perform_calls W t (c # cs) s =
     do { s1 \<leftarrow> perform_call W t c s; perform_calls W t cs s1 }"

text \<open>A virtual call on the task object, with the interface calls it makes.\<close>

definition run_callback ::
  "('ts, 'db) client \<Rightarrow> TaskRef \<Rightarrow> ('ts \<Rightarrow> 'ts \<times> task_call list)
   \<Rightarrow> ('ts, 'db) engine \<Rightarrow> ('ts, 'db) engine option" where
  "run_callback W t callback s =
     do { ti \<leftarrow> taskInfos s t;
          case callback (ti_task ti) of (task', calls) \<Rightarrow>
            perform_calls W t calls (upd_task t (\<lambda>ti. ti\<lparr>ti_task := task'\<rparr>) s) }"

section \<open>Scanning\<close>

definition needs_to_run ::
  "KeyID \<Rightarrow> KeyType \<Rightarrow> RunReason \<Rightarrow> ('ts, 'db) engine \<Rightarrow> ('ts, 'db) engine" where
  "needs_to_run rid key reason s =
     emit (EvNeedsToRun key reason None) (upd_rule rid (\<lambda>ri. ri\<lparr>ri_state := NeedsToRun\<rparr>) s)"

definition clean_result :: "RuleInfo \<Rightarrow> RuleInfo" where
  "clean_result ri = ri\<lparr>ri_result := (ri_result ri)
     \<lparr>res_dependencies := cleanSingleUseDependencies (res_dependencies (ri_result ri))\<rparr>\<rparr>"

definition scanRule ::
  "('ts, 'db) client \<Rightarrow> KeyID \<Rightarrow> ('ts, 'db) engine \<Rightarrow> (bool \<times> ('ts, 'db) engine) option" where
  "scanRule W rid s =
     do { ri0 \<leftarrow> ruleInfos s rid;
          if isScanned (currentEpoch s) ri0 then Some (True, s)
          else if isScanning ri0 then Some (False, s)
          else
            let ri = (clean_result ri0)\<lparr>ri_wasForced := False\<rparr>;
                key = rule_key (ri_rule ri);
                s1 = emit (EvStatus key StatusIsScanning) (upd_rule rid (\<lambda>_. ri) s)
            in if res_builtAt (ri_result ri) = 0 then
                 Some (True, needs_to_run rid key NeverBuilt s1)
               else if rule_signature (ri_rule ri) \<noteq> res_signature (ri_result ri) then
                 Some (True, needs_to_run rid key SignatureChanged s1)
               else if \<not> isResultValid W (ri_rule ri) (res_value (ri_result ri)) then
                 Some (True, needs_to_run rid key InvalidValue s1)
               else if empty_deps (res_dependencies (ri_result ri)) then
                 Some (True, upd_rule rid (\<lambda>ri. ri\<lparr>ri_state := DoesNotNeedToRun\<rparr>) s1)
               else
                 let s2 = upd_rule rid (\<lambda>ri. ri\<lparr>ri_state := IsScanning,
                            ri_inProgressInfo := PendingScanRecord new_scan_record\<rparr>) s1
                 in Some (False, s2\<lparr>ruleInfosToScan := ruleInfosToScan s2 @
                      [\<lparr>rsr_ruleInfo = rid, rsr_inputIndex = 0, rsr_inputRuleInfo = None,
                        rsr_orderOnly = False, rsr_singleUse = False\<rparr>]\<rparr>) }"

definition finishScanRequest ::
  "KeyID \<Rightarrow> StateKind \<Rightarrow> ('ts, 'db) engine \<Rightarrow> ('ts, 'db) engine option" where
  "finishScanRequest rid newState s =
     do { ri \<leftarrow> ruleInfos s rid;
          scanRecord \<leftarrow> getPendingScanRecord ri;
          let s1 = s\<lparr>ruleInfosToScan := ruleInfosToScan s @ deferredScanRequests scanRecord,
                     inputRequests := inputRequests s @ pausedInputRequests scanRecord\<rparr>;
          Some (upd_rule rid (\<lambda>ri. ri\<lparr>ri_inProgressInfo := NoInfo, ri_state := newState\<rparr>) s1) }"

section \<open>Demanding a rule\<close>

text \<open>
  Creating and registering the task of a rule: the part of \<^verbatim>\<open>demandRule\<close> before
  the first callback.
\<close>

definition register_task ::
  "('ts, 'db) client \<Rightarrow> KeyID \<Rightarrow> Rule \<Rightarrow> ('ts, 'db) engine \<Rightarrow> ('ts, 'db) engine" where
  "register_task W rid rule s =
     upd_rule rid
       (\<lambda>ri. ri\<lparr>ri_state := InProgressWaiting, ri_inProgressInfo := PendingTaskInfo (nextTask s),
               ri_result := (ri_result ri)
                 \<lparr>res_dependencies := clear_deps (res_dependencies (ri_result ri))\<rparr>\<rparr>)
       (s\<lparr>taskInfos := (taskInfos s)(nextTask s \<mapsto> new_TaskInfo (createTask W rule) rid),
          nextTask := Suc (nextTask s)\<rparr>)"

definition demandRule ::
  "('ts, 'db) client \<Rightarrow> KeyID \<Rightarrow> ('ts, 'db) engine \<Rightarrow> (bool \<times> ('ts, 'db) engine) option" where
  "demandRule W rid s =
     do { ri \<leftarrow> ruleInfos s rid;
          if \<not> isScanned (currentEpoch s) ri then None
          else if isComplete (currentEpoch s) ri then Some (True, s)
          else if isInProgress ri then Some (False, s)
          else if ri_state ri = DoesNotNeedToRun then
            Some (True, emit (EvStatus (rule_key (ri_rule ri)) StatusIsUpToDate)
                          (upd_rule rid (setComplete (currentEpoch s) (clock s)) s))
          else if ri_state ri \<noteq> NeedsToRun then None
          else
            let t = nextTask s; s1 = register_task W rid (ri_rule ri) s in
            do { s2 \<leftarrow> run_callback W t (task_start W) (emit (EvStart t) s1);
                 ri2 \<leftarrow> ruleInfos s2 rid;
                 s3 \<leftarrow> (if res_builtAt (ri_result ri2) \<noteq> 0 \<and>
                           rule_signature (ri_rule ri2) = res_signature (ri_result ri2)
                        then run_callback W t (task_providePriorValue W (res_value (ri_result ri2)))
                               (emit (EvProvidePriorValue t (res_value (ri_result ri2))) s2)
                        else Some s2);
                 ti \<leftarrow> taskInfos s3 t;
                 Some (False, if ti_waitCount ti = 0
                              then s3\<lparr>readyTaskInfos := readyTaskInfos s3 @ [t]\<rparr> else s3) } }"

section \<open>Processing a scan request\<close>

definition defer_on_scan ::
  "KeyID \<Rightarrow> RuleScanRequest \<Rightarrow> ('ts, 'db) engine \<Rightarrow> ('ts, 'db) engine option" where
  "defer_on_scan rid request s =
     do { ri \<leftarrow> ruleInfos s rid;
          record \<leftarrow> getPendingScanRecord ri;
          Some (upd_rule rid (\<lambda>ri. ri\<lparr>ri_inProgressInfo := PendingScanRecord
                  (record\<lparr>deferredScanRequests := deferredScanRequests record @ [request]\<rparr>)\<rparr>) s) }"

definition defer_on_task ::
  "KeyID \<Rightarrow> RuleScanRequest \<Rightarrow> ('ts, 'db) engine \<Rightarrow> ('ts, 'db) engine option" where
  "defer_on_task rid request s =
     do { ri \<leftarrow> ruleInfos s rid;
          t \<leftarrow> getPendingTaskInfo ri;
          _ \<leftarrow> taskInfos s t;
          Some (upd_task t (\<lambda>ti. ti\<lparr>ti_deferredScanRequests :=
                  ti_deferredScanRequests ti @ [request]\<rparr>) s) }"

text \<open>The lookup of the next input, when the request does not hold it yet.\<close>

definition load_scan_input ::
  "('ts, 'db) client \<Rightarrow> RuleScanRequest \<Rightarrow> ('ts, 'db) engine
   \<Rightarrow> (KeyID \<times> RuleScanRequest \<times> ('ts, 'db) engine) option" where
  "load_scan_input W request s =
     (case rsr_inputRuleInfo request of
        Some input \<Rightarrow> Some (input, request, s)
      | None \<Rightarrow>
          do { ri \<leftarrow> ruleInfos s (rsr_ruleInfo request);
               let d = res_dependencies (ri_result ri);
               if rsr_inputIndex request < size_deps d then
                 do { let kf = subscript d (rsr_inputIndex request);
                      s1 \<leftarrow> getRuleInfoForKeyID W (kf_keyID kf) s;
                      Some (kf_keyID kf,
                            request\<lparr>rsr_inputRuleInfo := Some (kf_keyID kf),
                                    rsr_orderOnly := kf_orderOnly kf,
                                    rsr_singleUse := kf_singleUse kf\<rparr>, s1) }
               else None })"

text \<open>
  One round of the loop over the inputs: it ends the processing of the request
  (\<open>Inl\<close>) or goes on with the next input (\<open>Inr\<close>).
\<close>

definition scan_one_input ::
  "('ts, 'db) client \<Rightarrow> RuleScanRequest \<Rightarrow> ('ts, 'db) engine
   \<Rightarrow> (('ts, 'db) engine + RuleScanRequest \<times> ('ts, 'db) engine) option" where
  "scan_one_input W request0 s0 =
     do { (input, request, s) \<leftarrow> load_scan_input W request0 s0;
          (scanned, s1) \<leftarrow> scanRule W input s;
          if \<not> scanned then do { s2 \<leftarrow> defer_on_scan input request s1; Some (Inl s2) }
          else do {
            (available, s2) \<leftarrow> demandRule W input s1;
            if \<not> available then do { s3 \<leftarrow> defer_on_task input request s2; Some (Inl s3) }
            else do {
              ri \<leftarrow> ruleInfos s2 (rsr_ruleInfo request);
              inputRi \<leftarrow> ruleInfos s2 input;
              if \<not> rsr_orderOnly request \<and>
                 res_builtAt (ri_result ri) < res_computedAt (ri_result inputRi) then
                do { s3 \<leftarrow> finishScanRequest (rsr_ruleInfo request) NeedsToRun s2;
                     Some (Inl (emit (EvNeedsToRun (rule_key (ri_rule ri)) InputRebuilt
                                  (Some (rule_key (ri_rule inputRi)))) s3)) }
              else
                Some (Inr (request\<lparr>rsr_inputIndex := rsr_inputIndex request + 1,
                                   rsr_inputRuleInfo := None, rsr_orderOnly := False,
                                   rsr_singleUse := False\<rparr>, s2)) } } }"

text \<open>
  The loop makes one round per remaining input; its bound is the number of dependencies of the
  rule when the request is taken up, which no round changes.
\<close>

fun scan_inputs ::
  "nat \<Rightarrow> ('ts, 'db) client \<Rightarrow> RuleScanRequest \<Rightarrow> ('ts, 'db) engine \<Rightarrow> ('ts, 'db) engine option" where
  "scan_inputs 0 W request s = None"
| "scan_inputs (Suc n) W request s =
     do { r \<leftarrow> scan_one_input W request s;
          (case r of
             Inl s1 \<Rightarrow> Some s1
           | Inr (request1, s1) \<Rightarrow>
               do { ri \<leftarrow> ruleInfos s1 (rsr_ruleInfo request1);
                    if rsr_inputIndex request1 \<noteq> size_deps (res_dependencies (ri_result ri))
                    then scan_inputs n W request1 s1
                    else finishScanRequest (rsr_ruleInfo request1) DoesNotNeedToRun s1 }) }"

definition processRuleScanRequest ::
  "('ts, 'db) client \<Rightarrow> RuleScanRequest \<Rightarrow> ('ts, 'db) engine \<Rightarrow> ('ts, 'db) engine option" where
  "processRuleScanRequest W request s =
     do { ri \<leftarrow> ruleInfos s (rsr_ruleInfo request);
          if \<not> (isScanning ri \<or> ri_wasForced ri) then None
          else if \<not> isScanning ri then Some s
          else scan_inputs (size_deps (res_dependencies (ri_result ri))) W request s }"

section \<open>Wait counts\<close>

text \<open>An underflow of the unsigned wait count counts as a fault.\<close>

definition decrementTaskWaitCount ::
  "TaskRef \<Rightarrow> ('ts, 'db) engine \<Rightarrow> ('ts, 'db) engine option" where
  "decrementTaskWaitCount t s =
     do { ti \<leftarrow> taskInfos s t;
          if ti_waitCount ti = 0 then None
          else let s1 = upd_task t (\<lambda>ti. ti\<lparr>ti_waitCount := ti_waitCount ti - 1\<rparr>) s in
               Some (if ti_waitCount ti - 1 = 0
                     then s1\<lparr>readyTaskInfos := readyTaskInfos s1 @ [t]\<rparr> else s1) }"

end
