(* ===== verification/Engine_Cycle.thy ===== *)
theory Engine_Cycle
  imports Engine_Ops "HOL-Library.While_Combinator" "HOL-Library.Char_ord" "HOL-Library.List_Lexorder"
begin

text \<open>
  Cycles in the build engine (\<^verbatim>\<open>findCycle\<close>, \<^verbatim>\<open>breakCycle\<close> and
  \<^verbatim>\<open>resolveCycle\<close> of \<^verbatim>\<open>lib/Core/BuildEngine.cpp\<close>).  When the engine has
  tasks but no work, it builds the graph of who waits for whom, searches it from the requested
  key for a cycle and asks the delegate to break it.

  The graph maps a rule to the rules that wait for it; a rule is named by its key id.  The
  unordered tables are visited in the order of their keys; the predecessor lists are sorted
  afterwards, as in the code.
\<close>

section \<open>The graph\<close>

type_synonym graph = "KeyID \<Rightarrow> KeyID list"

definition add_edge :: "KeyID \<Rightarrow> KeyID \<Rightarrow> graph \<Rightarrow> graph" where
  "add_edge a b g = g(a := g a @ [b])"

text \<open>The rule a task computes; a dangling task pointer is a fault.\<close>

definition rule_of_task :: "('ts, 'db) engine \<Rightarrow> TaskRef \<Rightarrow> KeyID option" where
  "rule_of_task s t = map_option ti_forRuleInfo (taskInfos s t)"

definition requester_rule :: "('ts, 'db) engine \<Rightarrow> TaskInputRequest \<Rightarrow> KeyID option" where
  "requester_rule s request = Option.bind (tir_taskInfo request) (rule_of_task s)"

definition task_successors :: "('ts, 'db) engine \<Rightarrow> 'ts TaskInfo \<Rightarrow> KeyID list option" where
  "task_successors s ti =
     do { rs \<leftarrow> those (map (requester_rule s) (ti_requestedBy ti));
          Some (rs @ map rsr_ruleInfo (ti_deferredScanRequests ti)) }"

text \<open>
  \<^verbatim>\<open>successorGraph.insert\<close> keeps an entry that is already there; the absent entry and
  the empty list of successors are not told apart here, and a rule has one task at a time.
\<close>

fun task_graph :: "('ts, 'db) engine \<Rightarrow> TaskRef list \<Rightarrow> graph \<Rightarrow> graph option" where
  "task_graph s [] g = Some g"
| "task_graph s (t # ts) g =
     (case taskInfos s t of
        None \<Rightarrow> task_graph s ts g
      | Some ti \<Rightarrow>
          do { succs \<leftarrow> task_successors s ti;
               task_graph s ts (if g (ti_forRuleInfo ti) = [] then g(ti_forRuleInfo ti := succs) else g) })"

fun paused_edges :: "('ts, 'db) engine \<Rightarrow> TaskInputRequest list \<Rightarrow> graph \<Rightarrow> graph option" where
  "paused_edges s [] g = Some g"
| "paused_edges s (r # rs) g =
     (case tir_taskInfo r of
        None \<Rightarrow> paused_edges s rs g
      | Some t \<Rightarrow> do { w \<leftarrow> rule_of_task s t;
                       paused_edges s rs (add_edge (tir_inputRuleInfo r) w g) })"

text \<open>
  The deferred requests of a record: an edge each, and the records of the deferred rules that
  are still scanning are visited next.
\<close>

fun deferred_edges ::
  "('ts, 'db) engine \<Rightarrow> RuleScanRequest list \<Rightarrow> graph \<Rightarrow> KeyID list \<Rightarrow> (graph \<times> KeyID list) option" where
  "deferred_edges s [] g active = Some (g, active)"
| "deferred_edges s (r # rs) g active =
     do { input \<leftarrow> rsr_inputRuleInfo r;
          ri \<leftarrow> ruleInfos s (rsr_ruleInfo r);
          if \<not> (isScanning ri \<or> ri_wasForced ri) then None
          else deferred_edges s rs (add_edge input (rsr_ruleInfo r) g)
                 (if isScanning ri then active @ [rsr_ruleInfo r] else active) }"

definition scanning_rules :: "('ts, 'db) engine \<Rightarrow> KeyID list" where
  "scanning_rules s =
     filter (\<lambda>r. case ruleInfos s r of None \<Rightarrow> False | Some ri \<Rightarrow> isScanning ri) [0..<length (keyTable s)]"

text \<open>The work list of scan records, each named by its rule; the last element is taken first.\<close>

function scan_record_graph ::
  "('ts, 'db) engine \<Rightarrow> KeyID list \<Rightarrow> KeyID list \<Rightarrow> graph \<Rightarrow> graph option" where
  "scan_record_graph s active visited g =
     (if active = [] then Some g
      else let r = last active; rest = butlast active in
        if r \<in> set visited then scan_record_graph s rest visited g
        else if r \<notin> set (scanning_rules s) then None
        else (case Option.bind (ruleInfos s r) getPendingScanRecord of
                None \<Rightarrow> None
              | Some record \<Rightarrow>
                  (case paused_edges s (pausedInputRequests record) g of
                     None \<Rightarrow> None
                   | Some g1 \<Rightarrow>
                       (case deferred_edges s (deferredScanRequests record) g1 rest of
                          None \<Rightarrow> None
                        | Some (g2, active2) \<Rightarrow> scan_record_graph s active2 (r # visited) g2))))"
  by pat_completeness auto

lemma filter_unvisited_shrinks:
  assumes "r \<in> set xs" "r \<notin> set visited"
  shows "length (filter (\<lambda>x. x \<noteq> r \<and> x \<notin> set visited) xs) < length (filter (\<lambda>x. x \<notin> set visited) xs)"
proof -
  let ?ys = "filter (\<lambda>x. x \<notin> set visited) xs"
  have "length (filter (\<lambda>x. x \<noteq> r) ?ys) < length ?ys"
    by (rule length_filter_less [of r]) (use assms in auto)
  then show ?thesis by (simp add: conj_commute)
qed

termination scan_record_graph
proof (relation "measures [\<lambda>(s, active, visited, g). length (filter (\<lambda>x. x \<notin> set visited) (scanning_rules s)),
                          \<lambda>(s, active, visited, g). length active]", goal_cases)
  case 1
  then show ?case by simp
next
  case 2
  then show ?case by simp
next
  case (3 s active visited g r rest)
  then show ?case using filter_unvisited_shrinks [of r "scanning_rules s" visited] by simp
qed

definition successorGraph :: "('ts, 'db) engine \<Rightarrow> graph option" where
  "successorGraph s =
     do { g \<leftarrow> task_graph s [0..<nextTask s] (\<lambda>_. []);
          scan_record_graph s (scanning_rules s) [] g }"

text \<open>The inverted graph, each list sorted by the rules' keys.\<close>

definition rule_name :: "('ts, 'db) engine \<Rightarrow> KeyID \<Rightarrow> KeyType" where
  "rule_name s r = (case ruleInfos s r of None \<Rightarrow> [] | Some ri \<Rightarrow> rule_key (ri_rule ri))"

definition predecessorGraph :: "('ts, 'db) engine \<Rightarrow> graph \<Rightarrow> graph" where
  "predecessorGraph s g succ =
     sort_key (rule_name s)
       (concat (map (\<lambda>node. map (\<lambda>_. node) (filter (\<lambda>x. x = succ) (g node)))
                    [0..<length (keyTable s)]))"

section \<open>The search\<close>

text \<open>
  The state of the depth-first search: whether the cycle is found, the stack of work items
  (node, index of its next predecessor; top first), \<^verbatim>\<open>cycleList\<close> and
  \<^verbatim>\<open>cycleItems\<close>.
\<close>

type_synonym dfs = "bool \<times> (KeyID \<times> nat) list \<times> KeyID list \<times> KeyID set"

fun dfs_step :: "graph \<Rightarrow> dfs \<Rightarrow> dfs" where
  "dfs_step preds (found, [], cycleList, cycleItems) = (found, [], cycleList, cycleItems)"
| "dfs_step preds (found, (node, i) # stack, cycleList, cycleItems) =
     (let entered = (i = 0);
          cycleList1 = (if entered then cycleList @ [node] else cycleList);
          cycleItems1 = (if entered then insert node cycleItems else cycleItems)
      in if entered \<and> node \<in> cycleItems then (True, (node, i) # stack, cycleList1, cycleItems1)
         else if i \<noteq> length (preds node) then
           (False, (preds node ! i, 0) # (node, Suc i) # stack, cycleList1, cycleItems1)
         else (False, stack, butlast cycleList1, cycleItems1 - {node}))"

definition dfs_running :: "dfs \<Rightarrow> bool" where
  "dfs_running st = (case st of (found, stack, _, _) \<Rightarrow> \<not> found \<and> stack \<noteq> [])"

definition search_cycle :: "graph \<Rightarrow> KeyID \<Rightarrow> KeyID list option" where
  "search_cycle preds root =
     map_option (\<lambda>(_, _, cycleList, _). cycleList)
       (while_option dfs_running (dfs_step preds) (False, [(root, 0)], [], {}))"

definition findCycle ::
  "('ts, 'db) client \<Rightarrow> KeyType \<Rightarrow> ('ts, 'db) engine \<Rightarrow> (KeyID list \<times> ('ts, 'db) engine) option" where
  "findCycle W buildKey s =
     do { g \<leftarrow> successorGraph s;
          let (root, s1) = getRuleInfoForKey W buildKey s;
          c \<leftarrow> search_cycle (predecessorGraph s g) root;
          Some (c, s1) }"

section \<open>Breaking a cycle\<close>

fun find_index :: "('a \<Rightarrow> bool) \<Rightarrow> 'a list \<Rightarrow> nat option" where
  "find_index P [] = None"
| "find_index P (x # xs) = (if P x then Some 0 else map_option Suc (find_index P xs))"

definition findRuleScanRequestForRule :: "RuleScanRequest list \<Rightarrow> KeyID \<Rightarrow> nat option" where
  "findRuleScanRequestForRule requests rid = find_index (\<lambda>r. rsr_ruleInfo r = rid) requests"

definition findTaskInputRequestForRule ::
  "('ts, 'db) engine \<Rightarrow> TaskInputRequest list \<Rightarrow> KeyID \<Rightarrow> nat option" where
  "findTaskInputRequestForRule s requests rid =
     find_index (\<lambda>r. requester_rule s r = Some rid) requests"

definition force_build ::
  "KeyID \<Rightarrow> KeyType \<Rightarrow> ('ts, 'db) engine \<Rightarrow> ('ts, 'db) engine option" where
  "force_build rid key s =
     do { let s1 = (case findRuleScanRequestForRule (ruleInfosToScan s) rid of
                      None \<Rightarrow> s
                    | Some i \<Rightarrow> s\<lparr>ruleInfosToScan := erase_at i (ruleInfosToScan s)\<rparr>);
          s2 \<leftarrow> finishScanRequest rid NeedsToRun s1;
          Some (upd_rule rid (\<lambda>ri. ri\<lparr>ri_wasForced := True\<rparr>)
                  (emit (EvNeedsToRun key Forced None) s2)) }"

definition supply_prior_value ::
  "TaskRef \<Rightarrow> 'ts TaskInfo \<Rightarrow> nat \<Rightarrow> ('ts, 'db) engine \<Rightarrow> ('ts, 'db) engine" where
  "supply_prior_value t ti i s =
     upd_task t (\<lambda>ti. ti\<lparr>ti_requestedBy := erase_at i (ti_requestedBy ti)\<rparr>)
       (s\<lparr>finishedInputRequests := finishedInputRequests s @
            [(ti_requestedBy ti ! i)\<lparr>tir_forcePriorValue := True\<rparr>]\<rparr>)"

text \<open>The reverse walk over the cycle; the head of the list is the element under the iterator.\<close>

fun break_walk ::
  "('ts, 'db) client \<Rightarrow> KeyType list \<Rightarrow> KeyID list \<Rightarrow> ('ts, 'db) engine
   \<Rightarrow> (bool \<times> ('ts, 'db) engine) option" where
  "break_walk W cycle [] s = Some (False, s)"
| "break_walk W cycle (r # rest) s0 =
     (case getRuleInfoForKey W (rule_name s0 r) s0 of (rid, s) \<Rightarrow>
      do { ri \<leftarrow> ruleInfos s rid;
           if isScanning ri then
             (if \<not> shouldResolveCycle W cycle (rule_key (ri_rule ri)) ForceBuild then Some (False, s)
              else do { s1 \<leftarrow> force_build rid (rule_key (ri_rule ri)) s; Some (True, s1) })
           else if isInProgressWaiting ri \<and> res_builtAt (ri_result ri) \<noteq> 0 then
             do { t \<leftarrow> getPendingTaskInfo ri;
                  ti \<leftarrow> taskInfos s t;
                  (case rest of
                     [] \<Rightarrow> None
                   | next # _ \<Rightarrow>
                       (case getRuleInfoForKey W (rule_name s next) s of (nextRid, s1) \<Rightarrow>
                          (case findTaskInputRequestForRule s1 (ti_requestedBy ti) nextRid of
                             None \<Rightarrow> break_walk W cycle rest s1
                           | Some i \<Rightarrow>
                               if \<not> shouldResolveCycle W cycle (rule_key (ri_rule ri)) SupplyPriorValue
                               then Some (False, s1)
                               else Some (True, supply_prior_value t ti i s1)))) }
           else break_walk W cycle rest s })"

definition breakCycle ::
  "('ts, 'db) client \<Rightarrow> KeyID list \<Rightarrow> ('ts, 'db) engine \<Rightarrow> (bool \<times> ('ts, 'db) engine) option" where
  "breakCycle W cycleList s = break_walk W (map (rule_name s) cycleList) (rev cycleList) s"

definition resolveCycle ::
  "('ts, 'db) client \<Rightarrow> KeyType \<Rightarrow> ('ts, 'db) engine \<Rightarrow> (bool \<times> ('ts, 'db) engine) option" where
  "resolveCycle W buildKey s =
     do { (cycleList, s1) \<leftarrow> findCycle W buildKey s;
          if cycleList = [] then None
          else do {
            (broken, s2) \<leftarrow> breakCycle W cycleList s1;
            if broken then Some (True, s2)
            else Some (False, emit (EvCycleDetected (map (rule_name s2) cycleList)) s2) } }"

end
