(* ===== verification/Engine_Loop.thy ===== *)
theory Engine_Loop
  imports Engine_Cycle
begin

text \<open>
  The main loop of the build engine, \<^verbatim>\<open>executeTasks\<close>, with
  \<^verbatim>\<open>cancelRemainingTasks\<close>, and the client entry points around it
  (\<^verbatim>\<open>build\<close>, \<^verbatim>\<open>cancelBuild\<close>, \<^verbatim>\<open>resetForBuild\<close>,
  \<^verbatim>\<open>attachDB\<close>, the cancellation delegates).

  The loop is a small-step machine: a configuration is the phase the loop is in, the flag
  \<^verbatim>\<open>didWork\<close> and the engine; a step takes one item from the queue of the phase, or
  moves to the next phase when the queue is empty.  The other threads (the jobs of the tasks,
  and the client that cancels) act between two steps of the loop; they reach the engine through
  \<^verbatim>\<open>taskIsComplete\<close>, \<^verbatim>\<open>taskDiscoveredDependency\<close> and
  \<^verbatim>\<open>cancelBuild\<close>.  A wait on the condition variable is a step that changes nothing,
  which covers the notified and the spurious wake-up.
\<close>

section \<open>One item of each queue\<close>

text \<open>\<^verbatim>\<open>ruleInfosToScan\<close> is taken from the back.\<close>

definition scan_item :: "('ts, 'db) client \<Rightarrow> ('ts, 'db) engine \<Rightarrow> ('ts, 'db) engine option" where
  "scan_item W s =
     processRuleScanRequest W (last (ruleInfosToScan s))
       (s\<lparr>ruleInfosToScan := butlast (ruleInfosToScan s)\<rparr>)"

definition pause_input_request ::
  "TaskInputRequest \<Rightarrow> ('ts, 'db) engine \<Rightarrow> ('ts, 'db) engine option" where
  "pause_input_request request s =
     do { ri \<leftarrow> ruleInfos s (tir_inputRuleInfo request);
          record \<leftarrow> getPendingScanRecord ri;
          Some (upd_rule (tir_inputRuleInfo request)
                  (\<lambda>ri. ri\<lparr>ri_inProgressInfo := PendingScanRecord
                     (record\<lparr>pausedInputRequests := pausedInputRequests record @ [request]\<rparr>)\<rparr>) s) }"

definition record_dependency ::
  "TaskRef \<Rightarrow> TaskInputRequest \<Rightarrow> ('ts, 'db) engine \<Rightarrow> ('ts, 'db) engine option" where
  "record_dependency t request s =
     do { ti \<leftarrow> taskInfos s t;
          _ \<leftarrow> ruleInfos s (ti_forRuleInfo ti);
          inputRi \<leftarrow> ruleInfos s (tir_inputRuleInfo request);
          Some (upd_rule (ti_forRuleInfo ti)
                  (\<lambda>ri. ri\<lparr>ri_result := (ri_result ri)\<lparr>res_dependencies :=
                     push_back_dep (res_dependencies (ri_result ri)) (ri_keyID inputRi)
                       (tir_orderOnly request) (tir_singleUse request)\<rparr>\<rparr>) s) }"

definition await_input ::
  "TaskInputRequest \<Rightarrow> ('ts, 'db) engine \<Rightarrow> ('ts, 'db) engine option" where
  "await_input request s =
     do { inputRi \<leftarrow> ruleInfos s (tir_inputRuleInfo request);
          t \<leftarrow> getPendingTaskInfo inputRi;
          _ \<leftarrow> taskInfos s t;
          Some (upd_task t (\<lambda>ti. ti\<lparr>ti_requestedBy := ti_requestedBy ti @ [request]\<rparr>) s) }"

text \<open>\<^verbatim>\<open>inputRequests\<close> is taken from the front, so that dependencies are recorded in request order.\<close>

definition process_input_request ::
  "('ts, 'db) client \<Rightarrow> TaskInputRequest \<Rightarrow> ('ts, 'db) engine \<Rightarrow> ('ts, 'db) engine option" where
  "process_input_request W request s =
     do { (scanned, s1) \<leftarrow> scanRule W (tir_inputRuleInfo request) s;
          if \<not> scanned then pause_input_request request s1
          else do {
            (available, s2) \<leftarrow> demandRule W (tir_inputRuleInfo request) s1;
            (case tir_taskInfo request of
               None \<Rightarrow> Some s2
             | Some t \<Rightarrow>
                 do { s3 \<leftarrow> record_dependency t request s2;
                      if available
                      then Some (s3\<lparr>finishedInputRequests := finishedInputRequests s3 @ [request]\<rparr>)
                      else await_input request s3 }) } }"

definition input_item :: "('ts, 'db) client \<Rightarrow> ('ts, 'db) engine \<Rightarrow> ('ts, 'db) engine option" where
  "input_item W s =
     process_input_request W (hd (inputRequests s)) (s\<lparr>inputRequests := tl (inputRequests s)\<rparr>)"

definition process_finished_input ::
  "('ts, 'db) client \<Rightarrow> TaskInputRequest \<Rightarrow> ('ts, 'db) engine \<Rightarrow> ('ts, 'db) engine option" where
  "process_finished_input W request s =
     do { t \<leftarrow> tir_taskInfo request;
          ri \<leftarrow> ruleInfos s (tir_inputRuleInfo request);
          if \<not> (isComplete (currentEpoch s) ri \<or> tir_forcePriorValue request \<or> tir_orderOnly request)
          then None
          else do {
            s1 \<leftarrow> (if tir_orderOnly request
                   then (if tir_inputID request = kMustFollowInputID then Some s else None)
                   else run_callback W t
                          (task_provideValue W (tir_inputID request) (rule_key (ri_rule ri))
                             (res_value (ri_result ri)))
                          (emit (EvProvideValue t (tir_inputID request) (rule_key (ri_rule ri))
                             (res_value (ri_result ri))) s));
            decrementTaskWaitCount t s1 } }"

definition finished_input_item ::
  "('ts, 'db) client \<Rightarrow> ('ts, 'db) engine \<Rightarrow> ('ts, 'db) engine option" where
  "finished_input_item W s =
     process_finished_input W (last (finishedInputRequests s))
       (s\<lparr>finishedInputRequests := butlast (finishedInputRequests s)\<rparr>)"

definition process_ready_task ::
  "('ts, 'db) client \<Rightarrow> TaskRef \<Rightarrow> ('ts, 'db) engine \<Rightarrow> ('ts, 'db) engine option" where
  "process_ready_task W t s =
     do { ti \<leftarrow> taskInfos s t;
          ri \<leftarrow> ruleInfos s (ti_forRuleInfo ti);
          if getPendingTaskInfo ri \<noteq> Some t then None
          else do {
            ri1 \<leftarrow> setComputing (clock s) ri;
            s1 \<leftarrow> run_callback W t (task_inputsAvailable W)
                   (emit (EvInputsAvailable t) (upd_rule (ti_forRuleInfo ti) (\<lambda>_. ri1) s));
            Some (s1\<lparr>numOutstandingUnfinishedTasks := Suc (numOutstandingUnfinishedTasks s1)\<rparr>) } }"

definition ready_item :: "('ts, 'db) client \<Rightarrow> ('ts, 'db) engine \<Rightarrow> ('ts, 'db) engine option" where
  "ready_item W s =
     process_ready_task W (hd (readyTaskInfos s)) (s\<lparr>readyTaskInfos := tl (readyTaskInfos s)\<rparr>)"

text \<open>The dummy requests that bring the discovered dependencies up to date.\<close>

fun request_discovered ::
  "('ts, 'db) client \<Rightarrow> KeyIDAndFlags list \<Rightarrow> ('ts, 'db) engine \<Rightarrow> ('ts, 'db) engine option" where
  "request_discovered W [] s = Some s"
| "request_discovered W (d # ds) s =
     do { s1 \<leftarrow> getRuleInfoForKeyID W (kf_keyID d) s;
          request_discovered W ds
            (s1\<lparr>inputRequests := inputRequests s1 @
               [\<lparr>tir_taskInfo = None, tir_inputID = 0, tir_inputRuleInfo = kf_keyID d,
                 tir_orderOnly = kf_orderOnly d, tir_forcePriorValue = False,
                 tir_singleUse = kf_singleUse d\<rparr>]\<rparr>) }"

definition complete_rule ::
  "KeyID \<Rightarrow> 'ts TaskInfo \<Rightarrow> ('ts, 'db) engine \<Rightarrow> ('ts, 'db) engine" where
  "complete_rule rid ti s =
     (let s1 = upd_rule rid (\<lambda>ri. setComplete (currentEpoch s) (clock s) (ri\<lparr>ri_inProgressInfo := NoInfo\<rparr>)) s;
          s2 = emit (EvStatus (case ruleInfos s rid of None \<Rightarrow> [] | Some ri \<Rightarrow> rule_key (ri_rule ri))
                       StatusIsComplete) s1
      in upd_rule rid (\<lambda>ri. ri\<lparr>ri_result := (ri_result ri)\<lparr>res_dependencies :=
           append_deps (res_dependencies (ri_result ri)) (ti_discoveredDependencies ti)\<rparr>\<rparr>) s2)"

text \<open>The database write: the new engine, and whether it succeeded.\<close>

definition store_result ::
  "('ts, 'db) client \<Rightarrow> RuleInfo \<Rightarrow> ('ts, 'db) engine \<Rightarrow> bool \<times> ('ts, 'db) engine" where
  "store_result W ri s =
     (case db s of
        None \<Rightarrow> (True, s)
      | Some d \<Rightarrow>
          (case db_setRuleResult W d (keyTable s) (ri_keyID ri) (ri_rule ri) (ri_result ri) of
             (d', None) \<Rightarrow> (True, s\<lparr>db := Some d'\<rparr>)
           | (d', Some message) \<Rightarrow> (False, emit (EvError message) (s\<lparr>db := Some d'\<rparr>))))"

definition decrement_outstanding :: "('ts, 'db) engine \<Rightarrow> ('ts, 'db) engine option" where
  "decrement_outstanding s =
     (if numOutstandingUnfinishedTasks s = 0 then None
      else Some (s\<lparr>numOutstandingUnfinishedTasks := numOutstandingUnfinishedTasks s - 1\<rparr>))"

text \<open>Waking up the requests that wait for the task, and deleting it.\<close>

definition release_task ::
  "TaskRef \<Rightarrow> ('ts, 'db) engine \<Rightarrow> ('ts, 'db) engine option" where
  "release_task t s =
     do { ti \<leftarrow> taskInfos s t;
          s1 \<leftarrow> decrement_outstanding
                 (s\<lparr>ruleInfosToScan := ruleInfosToScan s @ ti_deferredScanRequests ti,
                    finishedInputRequests := finishedInputRequests s @ ti_requestedBy ti\<rparr>);
          Some (s1\<lparr>taskInfos := (taskInfos s1)(t := None)\<rparr>) }"

text \<open>
  One finished task: the flag is false when the database write failed and the build is
  cancelled.
\<close>

definition process_finished_task ::
  "('ts, 'db) client \<Rightarrow> TaskRef \<Rightarrow> ('ts, 'db) engine \<Rightarrow> (bool \<times> ('ts, 'db) engine) option" where
  "process_finished_task W t s =
     do { ti \<leftarrow> taskInfos s t;
          ri \<leftarrow> ruleInfos s (ti_forRuleInfo ti);
          if getPendingTaskInfo ri \<noteq> Some t \<or> \<not> isInProgressComputing ri then None
          else do {
            s1 \<leftarrow> request_discovered W (deps_list (ti_discoveredDependencies ti))
                   (complete_rule (ti_forRuleInfo ti) ti s);
            ri1 \<leftarrow> ruleInfos s1 (ti_forRuleInfo ti);
            (case store_result W ri1 s1 of
               (True, s2) \<Rightarrow> do { s3 \<leftarrow> release_task t s2; Some (True, s3) }
             | (False, s2) \<Rightarrow> do { s3 \<leftarrow> decrement_outstanding s2; Some (False, s3) }) } }"

definition finished_task_item ::
  "('ts, 'db) client \<Rightarrow> ('ts, 'db) engine \<Rightarrow> (bool \<times> ('ts, 'db) engine) option" where
  "finished_task_item W s =
     process_finished_task W (last (finishedTaskInfos s))
       (s\<lparr>finishedTaskInfos := butlast (finishedTaskInfos s)\<rparr>)"

section \<open>Cancelling the remaining tasks\<close>

fun cancel_tasks :: "TaskRef list \<Rightarrow> ('ts, 'db) engine \<Rightarrow> ('ts, 'db) engine option" where
  "cancel_tasks [] s = Some s"
| "cancel_tasks (t # ts) s =
     (case taskInfos s t of
        None \<Rightarrow> cancel_tasks ts s
      | Some ti \<Rightarrow>
          do { ri \<leftarrow> ruleInfos s (ti_forRuleInfo ti);
               if getPendingTaskInfo ri \<noteq> Some t then None
               else cancel_tasks ts
                      (upd_rule (ti_forRuleInfo ti)
                         (\<lambda>ri. setCancelled (ri\<lparr>ri_inProgressInfo := NoInfo\<rparr>)) s) })"

definition cancel_scans :: "('ts, 'db) engine \<Rightarrow> ('ts, 'db) engine" where
  "cancel_scans s =
     s\<lparr>ruleInfos := (\<lambda>r. map_option (\<lambda>ri. if isScanning ri then setCancelled ri else ri) (ruleInfos s r))\<rparr>"

definition clear_queues :: "('ts, 'db) engine \<Rightarrow> ('ts, 'db) engine" where
  "clear_queues s =
     s\<lparr>ruleInfosToScan := [], inputRequests := [], finishedInputRequests := [],
       readyTaskInfos := [], finishedTaskInfos := [], taskInfos := Map.empty\<rparr>"

text \<open>One round of the loop that drains the running tasks; it asserts that no task finishes twice.\<close>

definition drain_finished :: "('ts, 'db) engine \<Rightarrow> ('ts, 'db) engine option" where
  "drain_finished s =
     (if length (finishedTaskInfos s) \<le> numOutstandingUnfinishedTasks s
      then Some (s\<lparr>numOutstandingUnfinishedTasks :=
                     numOutstandingUnfinishedTasks s - length (finishedTaskInfos s),
                   finishedTaskInfos := []\<rparr>)
      else None)"

definition cancel_finish :: "('ts, 'db) engine \<Rightarrow> ('ts, 'db) engine option" where
  "cancel_finish s =
     do { s1 \<leftarrow> cancel_tasks [0..<nextTask s] s; Some (clear_queues (cancel_scans s1)) }"

section \<open>The loop\<close>

datatype phase =
    PhTop
  | PhScan
  | PhInput
  | PhFinishedInput
  | PhReady
  | PhFinishedTask
  | PhWait
  | PhNoWork
  | PhCancel
  | PhReturn bool

type_synonym ('ts, 'db) config = "phase \<times> bool \<times> ('ts, 'db) engine"

definition after_item :: "phase \<Rightarrow> ('ts, 'db) engine option \<Rightarrow> ('ts, 'db) config option" where
  "after_item ph r = map_option (\<lambda>s. (ph, True, s)) r"

fun executeTasks_step ::
  "('ts, 'db) client \<Rightarrow> KeyType \<Rightarrow> ('ts, 'db) config \<Rightarrow> ('ts, 'db) config option" where
  "executeTasks_step W buildKey (PhTop, didWork, s) =
     Some (if buildCancelled s then PhCancel else PhScan, False, s)"
| "executeTasks_step W buildKey (PhScan, didWork, s) =
     (if ruleInfosToScan s \<noteq> [] then after_item PhScan (scan_item W s)
      else Some (PhInput, didWork, s))"
| "executeTasks_step W buildKey (PhInput, didWork, s) =
     (if inputRequests s \<noteq> [] then after_item PhInput (input_item W s)
      else Some (PhFinishedInput, didWork, s))"
| "executeTasks_step W buildKey (PhFinishedInput, didWork, s) =
     (if finishedInputRequests s \<noteq> [] then after_item PhFinishedInput (finished_input_item W s)
      else Some (PhReady, didWork, s))"
| "executeTasks_step W buildKey (PhReady, didWork, s) =
     (if readyTaskInfos s \<noteq> [] then after_item PhReady (ready_item W s)
      else Some (PhFinishedTask, didWork, s))"
| "executeTasks_step W buildKey (PhFinishedTask, didWork, s) =
     (if finishedTaskInfos s \<noteq> []
      then map_option (\<lambda>(ok, s1). (if ok then PhFinishedTask else PhCancel, True, s1))
             (finished_task_item W s)
      else Some (PhWait, didWork, s))"
| "executeTasks_step W buildKey (PhWait, didWork, s) =
     (if didWork \<or> numOutstandingUnfinishedTasks s \<noteq> 0 then Some (PhTop, True, s)
      else Some (PhNoWork, False, s))"
| "executeTasks_step W buildKey (PhNoWork, didWork, s) =
     (if \<exists>t \<in> set [0..<nextTask s]. taskInfos s t \<noteq> None
      then map_option (\<lambda>(resolved, s1). (if resolved then PhTop else PhCancel, False, s1))
             (resolveCycle W buildKey s)
      else Some (PhReturn True, False, s))"
| "executeTasks_step W buildKey (PhCancel, didWork, s) =
     (if numOutstandingUnfinishedTasks s \<noteq> 0
      then map_option (\<lambda>s1. (PhCancel, didWork, s1)) (drain_finished s)
      else map_option (\<lambda>s1. (PhReturn False, didWork, s1)) (cancel_finish s))"
| "executeTasks_step W buildKey (PhReturn b, didWork, s) = Some (PhReturn b, didWork, s)"

definition executeTasks_start ::
  "('ts, 'db) client \<Rightarrow> KeyType \<Rightarrow> ('ts, 'db) engine \<Rightarrow> ('ts, 'db) config" where
  "executeTasks_start W buildKey s =
     (case getRuleInfoForKey W buildKey (s\<lparr>finishedInputRequests := []\<rparr>) of (rid, s1) \<Rightarrow>
        (PhTop, False,
         s1\<lparr>inputRequests := inputRequests s1 @
              [\<lparr>tir_taskInfo = None, tir_inputID = 0, tir_inputRuleInfo = rid,
                tir_orderOnly = False, tir_forcePriorValue = False, tir_singleUse = False\<rparr>]\<rparr>))"

text \<open>
  Running the loop on its own, for a client whose tasks complete in their callbacks: at most
  \<open>fuel\<close> steps, until the loop returns.
\<close>

fun run_loop ::
  "nat \<Rightarrow> ('ts, 'db) client \<Rightarrow> KeyType \<Rightarrow> ('ts, 'db) config \<Rightarrow> (bool \<times> ('ts, 'db) engine) option" where
  "run_loop fuel W buildKey (PhReturn b, didWork, s) = Some (b, s)"
| "run_loop 0 W buildKey c = None"
| "run_loop (Suc fuel) W buildKey c =
     do { c1 \<leftarrow> executeTasks_step W buildKey c; run_loop fuel W buildKey c1 }"

section \<open>Entry points\<close>

definition cancelBuild :: "('ts, 'db) engine \<Rightarrow> ('ts, 'db) engine" where
  "cancelBuild s =
     (let s1 = (if buildCancelled s then s
                else s\<lparr>events := events s @ map EvBuildCancelled (cancellationDelegates s)\<rparr>);
          s2 = s1\<lparr>buildCancelled := True\<rparr>
      in if executionQueue s2 then emit EvCancelAllJobs s2 else s2)"

definition resetForBuild :: "('ts, 'db) engine \<Rightarrow> ('ts, 'db) engine" where
  "resetForBuild s = s\<lparr>buildCancelled := False\<rparr>"

definition addCancellationDelegate :: "nat \<Rightarrow> ('ts, 'db) engine \<Rightarrow> ('ts, 'db) engine" where
  "addCancellationDelegate del s =
     (if buildCancelled s then emit (EvBuildCancelled del) s
      else s\<lparr>cancellationDelegates := List.insert del (cancellationDelegates s)\<rparr>)"

definition removeCancellationDelegate :: "nat \<Rightarrow> ('ts, 'db) engine \<Rightarrow> ('ts, 'db) engine" where
  "removeCancellationDelegate del s =
     s\<lparr>cancellationDelegates := removeAll del (cancellationDelegates s)\<rparr>"

text \<open>The three preconditions of \<^verbatim>\<open>attachDB\<close> are assertions.\<close>

definition attachDB ::
  "('ts, 'db) client \<Rightarrow> 'db \<Rightarrow> ('ts, 'db) engine \<Rightarrow> (bool \<times> ('ts, 'db) engine) option" where
  "attachDB W database s =
     (if db s \<noteq> None \<or> currentEpoch s \<noteq> 0 \<or>
         (\<exists>r \<in> set [0..<length (keyTable s)]. ruleInfos s r \<noteq> None) then None
      else case db_getCurrentEpoch W database of (epoch, success) \<Rightarrow>
        Some (success, s\<lparr>db := Some database, currentEpoch := epoch\<rparr>))"

text \<open>
  \<^verbatim>\<open>build\<close> up to the call of \<^verbatim>\<open>executeTasks\<close>: the flag tells whether the
  call is made, otherwise the empty value is returned.
\<close>

definition db_close :: "('ts, 'db) client \<Rightarrow> ('ts, 'db) engine \<Rightarrow> ('ts, 'db) engine" where
  "db_close W s = s\<lparr>db := map_option (db_buildComplete W) (db s)\<rparr>"

definition build_open ::
  "('ts, 'db) client \<Rightarrow> ('ts, 'db) engine \<Rightarrow> bool \<times> ('ts, 'db) engine" where
  "build_open W s =
     (case db s of
        None \<Rightarrow> (True, s)
      | Some d \<Rightarrow>
          (case db_buildStarted W d of
             (d', None) \<Rightarrow> (True, s\<lparr>db := Some d'\<rparr>)
           | (d', Some message) \<Rightarrow> (False, emit (EvError message) (s\<lparr>db := Some d'\<rparr>))))"

definition build_begin ::
  "('ts, 'db) client \<Rightarrow> ('ts, 'db) engine \<Rightarrow> bool \<times> ('ts, 'db) engine" where
  "build_begin W s =
     (if buildRunning s then (False, emit (EvError ''build engine busy'') s)
      else case build_open W (s\<lparr>buildRunning := True\<rparr>) of
        (False, s1) \<Rightarrow> (False, s1\<lparr>buildRunning := False\<rparr>)
      | (True, s1) \<Rightarrow>
          if buildCancelled s1 then (False, (db_close W s1)\<lparr>buildRunning := False\<rparr>)
          else (True, s1\<lparr>executionQueue := True, currentEpoch := Suc (currentEpoch s1)\<rparr>))"

text \<open>The scope exits of \<^verbatim>\<open>build\<close>, in reverse order of their declaration.\<close>

definition build_exit :: "('ts, 'db) client \<Rightarrow> ('ts, 'db) engine \<Rightarrow> ('ts, 'db) engine" where
  "build_exit W s = (db_close W (s\<lparr>executionQueue := False\<rparr>))\<lparr>buildRunning := False\<rparr>"

definition write_iteration ::
  "('ts, 'db) client \<Rightarrow> ('ts, 'db) engine \<Rightarrow> bool \<times> ('ts, 'db) engine" where
  "write_iteration W s =
     (case db s of
        None \<Rightarrow> (True, s)
      | Some d \<Rightarrow>
          (case db_setCurrentIteration W d (currentEpoch s) of
             (d', None) \<Rightarrow> (True, s\<lparr>db := Some d'\<rparr>)
           | (d', Some message) \<Rightarrow> (False, emit (EvError message) (s\<lparr>db := Some d'\<rparr>))))"

text \<open>
  \<^verbatim>\<open>build\<close> from the return of \<^verbatim>\<open>executeTasks\<close> on; the final assertion
  that no task is left and the rule is complete is a fault of the model.
\<close>

definition build_end ::
  "('ts, 'db) client \<Rightarrow> KeyType \<Rightarrow> bool \<Rightarrow> ('ts, 'db) engine \<Rightarrow> (ValueType \<times> ('ts, 'db) engine) option" where
  "build_end W key success s =
     (case write_iteration W s of
        (False, s1) \<Rightarrow> Some ([], build_exit W s1)
      | (True, s1) \<Rightarrow>
          if \<not> success then Some ([], build_exit W s1)
          else case getRuleInfoForKey W key s1 of (rid, s2) \<Rightarrow>
            do { ri \<leftarrow> ruleInfos s2 rid;
                 if (\<forall>t \<in> set [0..<nextTask s2]. taskInfos s2 t = None) \<and> isComplete (currentEpoch s2) ri
                 then Some (res_value (ri_result ri), build_exit W s2)
                 else None })"

definition build ::
  "nat \<Rightarrow> ('ts, 'db) client \<Rightarrow> KeyType \<Rightarrow> ('ts, 'db) engine \<Rightarrow> (ValueType \<times> ('ts, 'db) engine) option" where
  "build fuel W key s =
     (case build_begin W s of
        (False, s1) \<Rightarrow> Some ([], s1)
      | (True, s1) \<Rightarrow>
          do { (success, s2) \<leftarrow> run_loop fuel W key (executeTasks_start W key s1);
               build_end W key success s2 })"

section \<open>Interleaving with the other threads\<close>

text \<open>
  A task reports its completion once: the code does not check it (there is a FIXME at the top of
  \<^verbatim>\<open>taskIsComplete\<close>), so it is an obligation of the client, and the rule
  \<open>complete\<close> has it as its premise.
\<close>

inductive engine_step ::
  "('ts, 'db) client \<Rightarrow> KeyType \<Rightarrow> ('ts, 'db) config \<Rightarrow> ('ts, 'db) config \<Rightarrow> bool"
  for W :: "('ts, 'db) client" and buildKey :: KeyType where
  loop: "executeTasks_step W buildKey c = Some c' \<Longrightarrow> engine_step W buildKey c c'"
| complete: "t \<notin> set (finishedTaskInfos s) \<Longrightarrow> taskIsComplete t val forceChange s = Some s' \<Longrightarrow>
    engine_step W buildKey (ph, didWork, s) (ph, didWork, s')"
| discovered: "taskDiscoveredDependency t key s = Some s' \<Longrightarrow>
    engine_step W buildKey (ph, didWork, s) (ph, didWork, s')"
| cancel: "engine_step W buildKey (ph, didWork, s) (ph, didWork, cancelBuild s)"
| tick: "engine_step W buildKey (ph, didWork, s) (ph, didWork, s\<lparr>clock := clock s + n\<rparr>)"

inductive engine_reach ::
  "('ts, 'db) client \<Rightarrow> KeyType \<Rightarrow> ('ts, 'db) engine \<Rightarrow> ('ts, 'db) config \<Rightarrow> bool"
  for W :: "('ts, 'db) client" and buildKey :: KeyType and s0 :: "('ts, 'db) engine" where
  start: "engine_reach W buildKey s0 (executeTasks_start W buildKey s0)"
| step: "engine_reach W buildKey s0 c \<Longrightarrow> engine_step W buildKey c c' \<Longrightarrow> engine_reach W buildKey s0 c'"

end
