(* ===== verification/Engine_Calls.thy ===== *)
theory Engine_Calls
  imports Engine_Skeleton Engine_Loop
begin

text \<open>
  The engine's bookkeeping invariant under the calls a task makes on its interface and under
  the callbacks that make them.  A call made by a task leaves every other task, the rules'
  states and the remaining queues as they are (\<open>callback_frame\<close>), and keeps the invariant.
\<close>

section \<open>The invariant of an engine\<close>

definition engine_inv ::
  "TaskInputRequest list \<Rightarrow> TaskRef set \<Rightarrow> nat \<Rightarrow> ('ts, 'db) engine \<Rightarrow> bool" where
  "engine_inv H E k s = skel_inv H E k (skel_of s)"

lemma skel_of_simps [simp]:
  "k_rules (skel_of s) r = map_option (\<lambda>ri. (ri_state ri, ri_inProgressInfo ri)) (ruleInfos s r)"
  "k_tasks (skel_of s) t = map_option (\<lambda>ti. (ti_forRuleInfo ti, ti_requestedBy ti, ti_waitCount ti)) (taskInfos s t)"
  "k_next (skel_of s) = nextTask s" "k_input (skel_of s) = inputRequests s"
  "k_fin (skel_of s) = finishedInputRequests s" "k_ready (skel_of s) = readyTaskInfos s"
  "k_num (skel_of s) = numOutstandingUnfinishedTasks s" "k_done (skel_of s) = finishedTaskInfos s"
  by (simp_all add: skel_of_def)

lemma skel_of_frame [simp]:
  "skel_of (emit e s) = skel_of s"
  "skel_of (s\<lparr>events := ev\<rparr>) = skel_of s"
  "skel_of (s\<lparr>buildCancelled := b\<rparr>) = skel_of s"
  "skel_of (s\<lparr>keyTable := kt\<rparr>) = skel_of s"
  "skel_of (s\<lparr>clock := c\<rparr>) = skel_of s"
  "skel_of (s\<lparr>db := d\<rparr>) = skel_of s"
  "skel_of (s\<lparr>ruleInfosToScan := q\<rparr>) = skel_of s"
  by (simp_all add: skel_of_def emit_def)

lemma skel_of_queues [simp]:
  "skel_of (s\<lparr>inputRequests := q\<rparr>) = (skel_of s)\<lparr>k_input := q\<rparr>"
  "skel_of (s\<lparr>finishedInputRequests := q\<rparr>) = (skel_of s)\<lparr>k_fin := q\<rparr>"
  "skel_of (s\<lparr>readyTaskInfos := ts\<rparr>) = (skel_of s)\<lparr>k_ready := ts\<rparr>"
  "skel_of (s\<lparr>numOutstandingUnfinishedTasks := n\<rparr>) = (skel_of s)\<lparr>k_num := n\<rparr>"
  "skel_of (s\<lparr>finishedTaskInfos := ts\<rparr>) = (skel_of s)\<lparr>k_done := ts\<rparr>"
  by (simp_all add: skel_of_def)

lemma skel_of_upd_rule:
  "ruleInfos s r = Some ri \<Longrightarrow>
   skel_of (upd_rule r f s) =
     (skel_of s)\<lparr>k_rules := (k_rules (skel_of s))(r \<mapsto> (ri_state (f ri), ri_inProgressInfo (f ri)))\<rparr>"
  by (auto simp: skel_of_def upd_rule_def fun_eq_iff)

lemma skel_of_upd_rule_inert [simp]:
  assumes "\<And>ri. ri_state (f ri) = ri_state ri" "\<And>ri. ri_inProgressInfo (f ri) = ri_inProgressInfo ri"
  shows "skel_of (upd_rule r f s) = skel_of s"
  using assms by (auto simp: skel_of_def upd_rule_def fun_eq_iff map_option.compositionality comp_def)

lemma skel_of_upd_task:
  "taskInfos s t = Some ti \<Longrightarrow>
   skel_of (upd_task t f s) =
     (skel_of s)\<lparr>k_tasks := (k_tasks (skel_of s))
        (t \<mapsto> (ti_forRuleInfo (f ti), ti_requestedBy (f ti), ti_waitCount (f ti)))\<rparr>"
  by (auto simp: skel_of_def upd_task_def fun_eq_iff)

lemma skel_of_upd_task_inert [simp]:
  assumes "\<And>ti. ti_forRuleInfo (f ti) = ti_forRuleInfo ti" "\<And>ti. ti_requestedBy (f ti) = ti_requestedBy ti"
    "\<And>ti. ti_waitCount (f ti) = ti_waitCount ti"
  shows "skel_of (upd_task t f s) = skel_of s"
  using assms by (auto simp: skel_of_def upd_task_def fun_eq_iff map_option.compositionality comp_def)

section \<open>What a call leaves unchanged\<close>

definition same_rule :: "RuleInfo \<Rightarrow> RuleInfo \<Rightarrow> bool" where
  "same_rule a b = (ri_keyID b = ri_keyID a \<and> ri_rule b = ri_rule a \<and>
     ri_inProgressInfo b = ri_inProgressInfo a \<and> ri_state b = ri_state a \<and>
     ri_wasForced b = ri_wasForced a \<and>
     res_builtAt (ri_result b) = res_builtAt (ri_result a) \<and>
     res_dependencies (ri_result b) = res_dependencies (ri_result a))"

definition same_task :: "'ts TaskInfo \<Rightarrow> 'ts TaskInfo \<Rightarrow> bool" where
  "same_task a b = (ti_forRuleInfo b = ti_forRuleInfo a \<and> ti_requestedBy b = ti_requestedBy a \<and>
     ti_deferredScanRequests b = ti_deferredScanRequests a \<and> ti_waitCount a \<le> ti_waitCount b)"

definition callback_frame :: "TaskRef \<Rightarrow> ('ts, 'db) engine \<Rightarrow> ('ts, 'db) engine \<Rightarrow> bool" where
  "callback_frame t s s' =
     (nextTask s' = nextTask s \<and> readyTaskInfos s' = readyTaskInfos s \<and>
      numOutstandingUnfinishedTasks s' = numOutstandingUnfinishedTasks s \<and>
      finishedInputRequests s' = finishedInputRequests s \<and> ruleInfosToScan s' = ruleInfosToScan s \<and>
      currentEpoch s' = currentEpoch s \<and> clock s' = clock s \<and>
      (\<exists>new. inputRequests s' = inputRequests s @ new) \<and>
      (\<forall>r ri. ruleInfos s r = Some ri \<longrightarrow> (\<exists>ri'. ruleInfos s' r = Some ri' \<and> same_rule ri ri')) \<and>
      (\<forall>r ri. ruleInfos s r = None \<longrightarrow> ruleInfos s' r = Some ri \<longrightarrow>
          ri_state ri = Incomplete \<and> ri_inProgressInfo ri = NoInfo) \<and>
      (\<forall>u. u \<noteq> t \<longrightarrow> taskInfos s' u = taskInfos s u) \<and>
      (\<forall>ti. taskInfos s t = Some ti \<longrightarrow> (\<exists>ti'. taskInfos s' t = Some ti' \<and> same_task ti ti')))"

lemma same_rule_refl [simp]: "same_rule a a"
  by (simp add: same_rule_def)

lemma same_task_refl [simp]: "same_task a a"
  by (simp add: same_task_def)

lemma callback_frame_refl [simp]: "callback_frame t s s"
  by (simp add: callback_frame_def)

lemma callback_frame_emit [simp]: "callback_frame t s (emit e s)"
  by (simp add: callback_frame_def emit_def)

lemma callback_frame_rule:
  assumes "callback_frame t s s'" "ruleInfos s r = Some ri"
  obtains ri' where "ruleInfos s' r = Some ri'" "same_rule ri ri'"
  using assms unfolding callback_frame_def by blast

lemma callback_frame_task:
  assumes "callback_frame t s s'" "taskInfos s t = Some ti"
  obtains ti' where "taskInfos s' t = Some ti'" "same_task ti ti'"
  using assms unfolding callback_frame_def by blast

lemma callback_frame_trans:
  assumes 1: "callback_frame t s s'" and 2: "callback_frame t s' s''"
  shows "callback_frame t s s''"
proof -
  have "\<exists>ri'. ruleInfos s'' r = Some ri' \<and> same_rule ri ri'" if "ruleInfos s r = Some ri" for r ri
    using 1 that
  proof (rule callback_frame_rule)
    fix ri1 assume a: "ruleInfos s' r = Some ri1" "same_rule ri ri1"
    from 2 a(1) show ?thesis
      by (rule callback_frame_rule) (use a(2) in \<open>simp add: same_rule_def\<close>)
  qed
  moreover have "\<exists>ti'. taskInfos s'' t = Some ti' \<and> same_task ti ti'" if "taskInfos s t = Some ti" for ti
    using 1 that
  proof (rule callback_frame_task)
    fix ti1 assume a: "taskInfos s' t = Some ti1" "same_task ti ti1"
    from 2 a(1) show ?thesis
      by (rule callback_frame_task) (use a(2) in \<open>simp add: same_task_def\<close>)
  qed
  moreover have "ri_state ri = Incomplete \<and> ri_inProgressInfo ri = NoInfo"
    if "ruleInfos s r = None" "ruleInfos s'' r = Some ri" for r ri
  proof (cases "ruleInfos s' r")
    case None
    then show ?thesis using 2 that(2) unfolding callback_frame_def by blast
  next
    case (Some ri1)
    then have "ri_state ri1 = Incomplete \<and> ri_inProgressInfo ri1 = NoInfo"
      using 1 that(1) unfolding callback_frame_def by blast
    with 2 Some show ?thesis
      by (elim callback_frame_rule) (use that(2) in \<open>auto simp: same_rule_def\<close>)
  qed
  moreover have "nextTask s'' = nextTask s \<and> readyTaskInfos s'' = readyTaskInfos s \<and>
      numOutstandingUnfinishedTasks s'' = numOutstandingUnfinishedTasks s \<and>
      finishedInputRequests s'' = finishedInputRequests s \<and> ruleInfosToScan s'' = ruleInfosToScan s \<and>
      currentEpoch s'' = currentEpoch s \<and> clock s'' = clock s \<and>
      (\<exists>new. inputRequests s'' = inputRequests s @ new) \<and>
      (\<forall>u. u \<noteq> t \<longrightarrow> taskInfos s'' u = taskInfos s u)"
    using 1 2 unfolding callback_frame_def by (metis append.assoc)
  ultimately show ?thesis unfolding callback_frame_def by blast
qed

section \<open>Registering rules\<close>

lemma addRule_frame:
  shows "taskInfos (addRule W keyID rule s) = taskInfos s"
    and "nextTask (addRule W keyID rule s) = nextTask s"
    and "inputRequests (addRule W keyID rule s) = inputRequests s"
    and "finishedInputRequests (addRule W keyID rule s) = finishedInputRequests s"
    and "ruleInfosToScan (addRule W keyID rule s) = ruleInfosToScan s"
    and "readyTaskInfos (addRule W keyID rule s) = readyTaskInfos s"
    and "numOutstandingUnfinishedTasks (addRule W keyID rule s) = numOutstandingUnfinishedTasks s"
    and "finishedTaskInfos (addRule W keyID rule s) = finishedTaskInfos s"
    and "currentEpoch (addRule W keyID rule s) = currentEpoch s"
    and "clock (addRule W keyID rule s) = clock s"
  by (auto simp: addRule_def emit_def Let_def upd_rule_def split: option.splits prod.splits)

lemma addRule_rules:
  shows "r \<noteq> keyID \<Longrightarrow> ruleInfos (addRule W keyID rule s) r = ruleInfos s r"
    and "ruleInfos s keyID = Some ri \<Longrightarrow> ruleInfos (addRule W keyID rule s) keyID = Some ri"
    and "ruleInfos s keyID = None \<Longrightarrow> \<exists>ri. ruleInfos (addRule W keyID rule s) keyID = Some ri \<and>
           ri_state ri = Incomplete \<and> ri_inProgressInfo ri = NoInfo \<and> ri_keyID ri = keyID \<and> ri_rule ri = rule"
  by (auto simp: addRule_def emit_def Let_def upd_rule_def new_RuleInfo_def split: option.splits prod.splits)

lemma addRule_callback_frame: "callback_frame t s (addRule W keyID rule s)"
proof -
  have "\<exists>ri'. ruleInfos (addRule W keyID rule s) r = Some ri' \<and> same_rule ri ri'"
    if "ruleInfos s r = Some ri" for r ri
    using that addRule_rules(1) [of r keyID W rule s] addRule_rules(2) [of s keyID ri W rule]
    by (cases "r = keyID") auto
  moreover have "ri_state ri = Incomplete \<and> ri_inProgressInfo ri = NoInfo"
    if "ruleInfos s r = None" "ruleInfos (addRule W keyID rule s) r = Some ri" for r ri
    using that addRule_rules(1) [of r keyID W rule s] addRule_rules(3) [of s keyID W rule]
    by (cases "r = keyID") auto
  ultimately show ?thesis by (simp add: callback_frame_def addRule_frame)
qed

lemma addRule_inv: "engine_inv H E k s \<Longrightarrow> engine_inv H E k (addRule W keyID rule s)"
proof (cases "ruleInfos s keyID")
  case (Some ri)
  then show "engine_inv H E k s \<Longrightarrow> ?thesis"
    by (simp add: engine_inv_def addRule_def)
next
  case None
  have "skel_of (addRule W keyID rule s) =
      (skel_of s)\<lparr>k_rules := (k_rules (skel_of s))(keyID \<mapsto> (Incomplete, NoInfo))\<rparr>"
    using None addRule_rules(1) [of _ keyID W rule s] addRule_rules(3) [OF None, of W rule]
    by (auto simp: skel_of_def addRule_frame fun_eq_iff)
  then show "engine_inv H E k s \<Longrightarrow> ?thesis"
    unfolding engine_inv_def
    by (simp del: skel_of_simps) (rule skel_inv_rule, simp_all add: None in_progress_def)
qed

lemma getKeyID_frame [simp]: "callback_frame t s (snd (getKeyID key s))"
  by (simp add: getKeyID_def Let_def callback_frame_def)

lemma getKeyID_skel [simp]: "skel_of (snd (getKeyID key s)) = skel_of s"
  by (simp add: getKeyID_def Let_def)

lemma getRuleInfoForKey_snd:
  "snd (getRuleInfoForKey W key s) =
     (let s1 = snd (getKeyID key s); i = fst (getKeyID key s) in
      if ruleInfos s1 i \<noteq> None then s1 else addRule W i (lookupRule W key) s1)"
  by (simp add: getRuleInfoForKey_def split_def)

lemma getRuleInfoForKey_frame: "callback_frame t s (snd (getRuleInfoForKey W key s))"
  by (simp add: getRuleInfoForKey_snd Let_def callback_frame_trans [OF getKeyID_frame addRule_callback_frame])

lemma getRuleInfoForKey_inv:
  assumes "engine_inv H E k s"
  shows "engine_inv H E k (snd (getRuleInfoForKey W key s))"
proof -
  have "engine_inv H E k (snd (getKeyID key s))" using assms by (simp add: engine_inv_def)
  then show ?thesis by (simp add: getRuleInfoForKey_snd Let_def addRule_inv)
qed

lemma getRuleInfoForKeyID_frame:
  "getRuleInfoForKeyID W keyID s = Some s' \<Longrightarrow> callback_frame t s s'"
  by (auto simp: getRuleInfoForKeyID_def addRule_callback_frame split: if_splits)

lemma getRuleInfoForKeyID_inv:
  "getRuleInfoForKeyID W keyID s = Some s' \<Longrightarrow> engine_inv H E k s \<Longrightarrow> engine_inv H E k s'"
  by (auto simp: getRuleInfoForKeyID_def addRule_inv split: if_splits)

section \<open>The calls\<close>

text \<open>
  A waiting task may make requests while it is being started or while it still waits for
  something; a computing task completes at most once.
\<close>

definition call_ok :: "TaskRef set \<Rightarrow> ('ts, 'db) engine \<Rightarrow> TaskRef \<Rightarrow> bool" where
  "call_ok E s t = (\<forall>ti ri. taskInfos s t = Some ti \<longrightarrow> ruleInfos s (ti_forRuleInfo ti) = Some ri \<longrightarrow>
     isInProgressWaiting ri \<longrightarrow> t \<in> E \<or> 0 < ti_waitCount ti)"

definition is_complete_call :: "task_call \<Rightarrow> bool" where
  "is_complete_call c = (case c of CallComplete _ _ \<Rightarrow> True | _ \<Rightarrow> False)"

definition completions :: "task_call list \<Rightarrow> nat" where
  "completions cs = length (filter is_complete_call cs)"

definition may_complete :: "('ts, 'db) engine \<Rightarrow> TaskRef \<Rightarrow> nat \<Rightarrow> bool" where
  "may_complete s t n =
     (t \<in> computing (skel_of s) \<longrightarrow> n \<le> (if t \<in> set (finishedTaskInfos s) then 0 else 1))"

lemma computing_iff:
  "t \<in> computing (skel_of s) \<longleftrightarrow>
   (\<exists>ti ri. taskInfos s t = Some ti \<and> ruleInfos s (ti_forRuleInfo ti) = Some ri \<and>
            ri_state ri = InProgressComputing \<and> ri_inProgressInfo ri = PendingTaskInfo t)"
  by (auto simp: computing_def)

lemma frame_task_rule:
  assumes "callback_frame t s s'" "taskInfos s t = Some ti" "ruleInfos s (ti_forRuleInfo ti) = Some ri"
  obtains ti' ri' where "taskInfos s' t = Some ti'" "same_task ti ti'"
    "ruleInfos s' (ti_forRuleInfo ti') = Some ri'" "same_rule ri ri'"
proof -
  obtain ti' where ti': "taskInfos s' t = Some ti'" "same_task ti ti'"
    using assms(1,2) by (rule callback_frame_task)
  obtain ri' where "ruleInfos s' (ti_forRuleInfo ti) = Some ri'" "same_rule ri ri'"
    using assms(1,3) by (rule callback_frame_rule)
  then show thesis using that ti' by (simp add: same_task_def)
qed

lemma frame_computing:
  assumes "callback_frame t s s'" "taskInfos s t = Some ti" "ruleInfos s (ti_forRuleInfo ti) = Some ri"
  shows "t \<in> computing (skel_of s') \<longleftrightarrow> t \<in> computing (skel_of s)"
  using assms by (rule frame_task_rule) (use assms(2,3) in \<open>simp add: computing_iff same_rule_def\<close>)

lemma frame_call_ok:
  assumes "callback_frame t s s'" "taskInfos s t = Some ti" "ruleInfos s (ti_forRuleInfo ti) = Some ri"
    and "call_ok E s t"
  shows "call_ok E s' t"
  using assms(1-3) by (rule frame_task_rule)
    (use assms(2-4) in \<open>auto simp: call_ok_def same_task_def same_rule_def isInProgressWaiting_def\<close>)

lemma addTaskInputRequest_Some:
  assumes "addTaskInputRequest W t key inputID oo su s = Some s'"
  obtains ti ri q where "taskInfos s t = Some ti" "ruleInfos s (ti_forRuleInfo ti) = Some ri"
    "isInProgressWaiting ri"
    "q = \<lparr>tir_taskInfo = Some t, tir_inputID = inputID,
           tir_inputRuleInfo = fst (getRuleInfoForKey W key s), tir_orderOnly = oo,
           tir_forcePriorValue = False, tir_singleUse = su\<rparr>"
    "s' = upd_task t (\<lambda>ti. ti\<lparr>ti_waitCount := ti_waitCount ti + 1\<rparr>)
       ((snd (getRuleInfoForKey W key s))
          \<lparr>inputRequests := inputRequests (snd (getRuleInfoForKey W key s)) @ [q]\<rparr>)"
    "tir_taskInfo q = Some t"
  using assms by (auto simp: addTaskInputRequest_def split_def split: if_splits)

lemma addTaskInputRequest_frame:
  assumes "addTaskInputRequest W t key inputID oo su s = Some s'"
  shows "callback_frame t s s'" and "finishedTaskInfos s' = finishedTaskInfos s"
proof -
  let ?s1 = "snd (getRuleInfoForKey W key s)"
  from assms obtain q where s': "s' = upd_task t (\<lambda>ti. ti\<lparr>ti_waitCount := ti_waitCount ti + 1\<rparr>)
      (?s1\<lparr>inputRequests := inputRequests ?s1 @ [q]\<rparr>)"
    by (rule addTaskInputRequest_Some)
  have "callback_frame t ?s1 s'"
    unfolding s' by (auto simp: callback_frame_def upd_task_def same_task_def)
  then show "callback_frame t s s'"
    using getRuleInfoForKey_frame callback_frame_trans by blast
  show "finishedTaskInfos s' = finishedTaskInfos s"
    unfolding s' by (simp add: upd_task_def getRuleInfoForKey_snd Let_def addRule_frame getKeyID_def)
qed

lemma addTaskInputRequest_inv:
  assumes call: "addTaskInputRequest W t key inputID oo su s = Some s'"
    and inv: "engine_inv H E k s" and ok: "call_ok E s t"
  shows "engine_inv H E k s'"
proof -
  let ?s1 = "snd (getRuleInfoForKey W key s)"
  let ?f = "\<lambda>ti. ti\<lparr>ti_waitCount := ti_waitCount ti + 1\<rparr>"
  from call obtain ti ri q where ti: "taskInfos s t = Some ti"
    and ri: "ruleInfos s (ti_forRuleInfo ti) = Some ri" "isInProgressWaiting ri"
    and q: "tir_taskInfo q = Some t"
    and s': "s' = upd_task t ?f (?s1\<lparr>inputRequests := inputRequests ?s1 @ [q]\<rparr>)"
    by (rule addTaskInputRequest_Some)
  have ti1: "taskInfos ?s1 t = Some ti"
    using ti by (simp add: getRuleInfoForKey_snd Let_def addRule_frame getKeyID_def)
  obtain ri1 where ri1: "ruleInfos ?s1 (ti_forRuleInfo ti) = Some ri1" "same_rule ri ri1"
    using getRuleInfoForKey_frame ri(1) by (rule callback_frame_rule)
  have inv1: "skel_inv H E k (skel_of ?s1)"
    using getRuleInfoForKey_inv [OF inv] by (simp add: engine_inv_def)
  let ?K = "skel_of ?s1" let ?r = "ti_forRuleInfo ti" let ?w = "ti_waitCount ti"
  have kt: "k_tasks ?K t = Some (?r, ti_requestedBy ti, ?w)" using ti1 by simp
  have waiting: "k_rules ?K ?r = Some (InProgressWaiting, ri_inProgressInfo ri1)"
    using ri1 ri(2) by (simp add: same_rule_def isInProgressWaiting_def)
  have tE: "t \<in> E \<or> 0 < ?w" using ok ti ri by (auto simp: call_ok_def)
  have not_ready: "t \<notin> set (k_ready ?K)"
    using tE skel_inv_ready [OF inv1 kt] inv1 by (auto simp: skel_inv_def ready_inv_def)
  have ready: "ready_inv E (?K\<lparr>k_tasks := (k_tasks ?K)(t \<mapsto> (?r, ti_requestedBy ti, ?w + 1)), k_ready := k_ready ?K\<rparr>)"
    using inv1 not_ready unfolding skel_inv_def ready_inv_def by (auto simp del: skel_of_simps)
  have "skel_inv H E k (?K\<lparr>k_tasks := (k_tasks ?K)(t \<mapsto> (?r, ti_requestedBy ti, ?w + 1)),
      k_input := k_input ?K @ [q], k_fin := k_fin ?K, k_ready := k_ready ?K\<rparr>)"
    by (rule skel_inv_task_upd [OF inv1 kt _ _ ready]) (use q waiting in auto)
  moreover have "skel_of s' = ?K\<lparr>k_tasks := (k_tasks ?K)(t \<mapsto> (?r, ti_requestedBy ti, ?w + 1)),
      k_input := k_input ?K @ [q], k_fin := k_fin ?K, k_ready := k_ready ?K\<rparr>"
    unfolding s' using ti1 by (subst skel_of_upd_task) (auto simp: skel_of_def)
  ultimately show ?thesis by (simp add: engine_inv_def)
qed

lemma reject_call_frame [simp]:
  "callback_frame t s (reject_call m s)" "skel_of (reject_call m s) = skel_of s"
  "finishedTaskInfos (reject_call m s) = finishedTaskInfos s"
  by (simp_all add: reject_call_def callback_frame_def emit_def skel_of_def)

lemma upd_task_inert_frame:
  assumes "\<And>ti. same_task ti (f ti)"
  shows "callback_frame t s (upd_task t f s)"
  using assms by (simp add: callback_frame_def upd_task_def)

lemma taskDiscoveredDependency_frame:
  assumes "taskDiscoveredDependency t key s = Some s'"
  shows "callback_frame t s s'" "skel_of s' = skel_of s" "finishedTaskInfos s' = finishedTaskInfos s"
proof -
  let ?s1 = "snd (getKeyID key s)"
  let ?f = "\<lambda>ti. ti\<lparr>ti_discoveredDependencies :=
             push_back_dep (ti_discoveredDependencies ti) (fst (getKeyID key s)) False False\<rparr>"
  have upd: "callback_frame t s (upd_task t ?f ?s1)" "skel_of (upd_task t ?f ?s1) = skel_of s"
    "finishedTaskInfos (upd_task t ?f ?s1) = finishedTaskInfos s"
  proof -
    show "callback_frame t s (upd_task t ?f ?s1)"
      by (rule callback_frame_trans [OF getKeyID_frame]) (rule upd_task_inert_frame, simp add: same_task_def)
    show "skel_of (upd_task t ?f ?s1) = skel_of s" by simp
    show "finishedTaskInfos (upd_task t ?f ?s1) = finishedTaskInfos s"
      by (simp add: upd_task_def getKeyID_def Let_def)
  qed
  from assms consider "s' = reject_call ''invalid state for adding discovered dependency'' s"
    | "s' = upd_task t ?f ?s1"
    by (auto simp: taskDiscoveredDependency_def split_def split: if_splits)
  then show "callback_frame t s s'" "skel_of s' = skel_of s" "finishedTaskInfos s' = finishedTaskInfos s"
    by (cases; simp add: upd)+
qed

lemma taskIsComplete_cases:
  assumes "taskIsComplete t val forceChange s = Some s'"
  obtains (rejected) "s' = reject_call ''invalid state for marking task complete'' s"
    | (finished) ti ri where "taskInfos s t = Some ti" "ruleInfos s (ti_forRuleInfo ti) = Some ri"
        "ri_state ri = InProgressComputing" "ri_inProgressInfo ri = PendingTaskInfo t"
        "callback_frame t s s'" "skel_of s' = (skel_of s)\<lparr>k_done := k_done (skel_of s) @ [t]\<rparr>"
proof -
  from assms obtain ti ri where ti: "taskInfos s t = Some ti" and ri: "ruleInfos s (ti_forRuleInfo ti) = Some ri"
    by (auto simp: taskIsComplete_def)
  show thesis
  proof (cases "isInProgressComputing ri")
    case False
    then show thesis using assms ti ri rejected by (simp add: taskIsComplete_def)
  next
    case True
    then have pend: "getPendingTaskInfo ri = Some t"
      using assms ti ri by (auto simp: taskIsComplete_def split: if_splits)
    then have info: "ri_inProgressInfo ri = PendingTaskInfo t"
      by (auto simp: getPendingTaskInfo_def split: if_splits InProgressInfo.splits)
    let ?g = "\<lambda>ri. let r = (ri_result ri)\<lparr>res_signature := rule_signature (ri_rule ri)\<rparr> in
                        ri\<lparr>ri_result :=
                          (if \<not> forceChange \<and> val = res_value r then r
                           else r\<lparr>res_value := val, res_computedAt := currentEpoch s\<rparr>)\<rparr>"
    have s': "s' = (upd_rule (ti_forRuleInfo ti) ?g s)\<lparr>finishedTaskInfos :=
        finishedTaskInfos (upd_rule (ti_forRuleInfo ti) ?g s) @ [t]\<rparr>"
      using assms ti ri True pend by (simp add: taskIsComplete_def Let_def)
    have "skel_of (upd_rule (ti_forRuleInfo ti) ?g s) = skel_of s"
      by (rule skel_of_upd_rule_inert) (simp_all add: Let_def)
    then have skel: "skel_of s' = (skel_of s)\<lparr>k_done := k_done (skel_of s) @ [t]\<rparr>"
      unfolding s' by (simp add: upd_rule_def)
    have "callback_frame t s s'"
      unfolding s' callback_frame_def upd_rule_def using ri
      by (auto simp: same_rule_def Let_def)
    then show thesis
      using finished ti ri True info skel by (simp add: isInProgressComputing_def)
  qed
qed

lemma taskIsComplete_inv:
  assumes "taskIsComplete t val forceChange s = Some s'" "engine_inv H E k s"
    and "t \<in> computing (skel_of s) \<Longrightarrow> t \<notin> set (finishedTaskInfos s)"
  shows "engine_inv H E k s'" "callback_frame t s s'"
    "set (finishedTaskInfos s') \<subseteq> insert t (set (finishedTaskInfos s))"
  using assms(1)
proof (atomize (full), cases rule: taskIsComplete_cases)
  case rejected
  then show "engine_inv H E k s' \<and> callback_frame t s s' \<and> set (finishedTaskInfos s') \<subseteq> insert t (set (finishedTaskInfos s))"
    using assms(2) by (auto simp: engine_inv_def)
next
  case (finished ti ri)
  then have t: "t \<in> computing (skel_of s)" by (simp add: computing_iff)
  have "finishedTaskInfos s' = finishedTaskInfos s @ [t]"
    using arg_cong [OF finished(6), of k_done] by simp
  then show "engine_inv H E k s' \<and> callback_frame t s s' \<and> set (finishedTaskInfos s') \<subseteq> insert t (set (finishedTaskInfos s))"
    using finished(5,6) skel_inv_done [of H E k "skel_of s" t] assms(2) assms(3) [OF t] t
    by (simp add: engine_inv_def)
qed

lemma perform_call_inv:
  assumes call: "perform_call W t c s = Some s'"
    and inv: "engine_inv H E k s" and ok: "call_ok E s t"
    and once: "may_complete s t (if is_complete_call c then 1 else 0)"
  shows "engine_inv H E k s'" "callback_frame t s s'"
    "set (finishedTaskInfos s') \<subseteq> (if is_complete_call c then {t} else {}) \<union> set (finishedTaskInfos s)"
proof (atomize (full), cases c)
  case (CallComplete val f)
  then have "t \<in> computing (skel_of s) \<Longrightarrow> t \<notin> set (finishedTaskInfos s)"
    using once by (auto simp: may_complete_def is_complete_call_def)
  then show "engine_inv H E k s' \<and> callback_frame t s s' \<and>
      set (finishedTaskInfos s') \<subseteq> (if is_complete_call c then {t} else {}) \<union> set (finishedTaskInfos s)"
    using CallComplete call taskIsComplete_inv [of t val f s s' H E k] inv
    by (simp add: is_complete_call_def)
next
  case (CallDiscoveredDependency key)
  then show "engine_inv H E k s' \<and> callback_frame t s s' \<and>
      set (finishedTaskInfos s') \<subseteq> (if is_complete_call c then {t} else {}) \<union> set (finishedTaskInfos s)"
    using taskDiscoveredDependency_frame [of t key s s'] call inv
    by (simp add: is_complete_call_def engine_inv_def)
qed (use call inv ok in \<open>auto simp: is_complete_call_def taskNeedsInput_def taskNeedsSingleUseInput_def taskMustFollow_def
      engine_inv_def [symmetric] addTaskInputRequest_frame
      intro: addTaskInputRequest_inv split: if_splits\<close>, (simp add: engine_inv_def)+)

lemma engine_inv_task_rule:
  assumes "engine_inv H E k s" "taskInfos s t = Some ti"
  obtains ri where "ruleInfos s (ti_forRuleInfo ti) = Some ri" "ri_inProgressInfo ri = PendingTaskInfo t"
    "isInProgress ri"
proof -
  have "k_tasks (skel_of s) t = Some (ti_forRuleInfo ti, ti_requestedBy ti, ti_waitCount ti)"
    using assms(2) by simp
  with assms(1) show thesis
    unfolding engine_inv_def
    by (rule skel_inv_task)
      (use that in \<open>auto simp: in_progress_def isInProgress_def isInProgressWaiting_def isInProgressComputing_def\<close>)
qed

lemma completions_Cons [simp]:
  "completions (c # cs) = (if is_complete_call c then 1 else 0) + completions cs"
  by (simp add: completions_def)

lemma completions_Nil [simp]: "completions [] = 0"
  by (simp add: completions_def)

lemma perform_calls_inv:
  assumes "perform_calls W t cs s = Some s'" "engine_inv H E k s" "taskInfos s t = Some ti"
    and "call_ok E s t" "may_complete s t (completions cs)"
  shows "engine_inv H E k s' \<and> callback_frame t s s'"
  using assms
proof (induction cs arbitrary: s ti)
  case Nil
  then show ?case by simp
next
  case (Cons c cs)
  then obtain s1 where s1: "perform_call W t c s = Some s1" and rest: "perform_calls W t cs s1 = Some s'"
    by auto
  have "may_complete s t (if is_complete_call c then 1 else 0)"
    using Cons.prems(5) by (auto simp: may_complete_def split: if_splits)
  note step = perform_call_inv [OF s1 Cons.prems(2,4) this]
  obtain ri where ri: "ruleInfos s (ti_forRuleInfo ti) = Some ri"
    using Cons.prems(2,3) by (rule engine_inv_task_rule)
  obtain ti1 where ti1: "taskInfos s1 t = Some ti1"
    using step(2) Cons.prems(3) by (rule callback_frame_task)
  have ok: "call_ok E s1 t" using step(2) Cons.prems(3) ri Cons.prems(4) by (rule frame_call_ok)
  have "may_complete s1 t (completions cs)"
    using Cons.prems(5) frame_computing [OF step(2) Cons.prems(3) ri] step(3)
    by (auto simp: may_complete_def split: if_splits)
  with Cons.IH [OF rest step(1) ti1 ok] show ?case
    using step(2) callback_frame_trans by blast
qed

lemma upd_task_state [simp]:
  "engine_inv H E k (upd_task t (\<lambda>ti. ti\<lparr>ti_task := x\<rparr>) s) = engine_inv H E k s"
  "callback_frame t s (upd_task t (\<lambda>ti. ti\<lparr>ti_task := x\<rparr>) s)"
  "finishedTaskInfos (upd_task t (\<lambda>ti. ti\<lparr>ti_task := x\<rparr>) s) = finishedTaskInfos s"
  by (simp add: engine_inv_def, rule upd_task_inert_frame, simp_all add: same_task_def upd_task_def)

lemma run_callback_inv:
  assumes run: "run_callback W t cb s = Some s'" and inv: "engine_inv H E k s" and ok: "call_ok E s t"
    and once: "t \<in> computing (skel_of s) \<Longrightarrow>
        t \<notin> set (finishedTaskInfos s) \<and> (\<forall>x. completions (snd (cb x)) \<le> 1)"
  shows "engine_inv H E k s' \<and> callback_frame t s s'"
proof -
  from run obtain ti where ti: "taskInfos s t = Some ti" by (auto simp: run_callback_def)
  let ?s2 = "upd_task t (\<lambda>ti'. ti'\<lparr>ti_task := fst (cb (ti_task ti))\<rparr>) s"
  have calls: "perform_calls W t (snd (cb (ti_task ti))) ?s2 = Some s'"
    using run ti by (simp add: run_callback_def split_def)
  obtain ri where ri: "ruleInfos s (ti_forRuleInfo ti) = Some ri"
    using inv ti by (rule engine_inv_task_rule)
  have frame: "callback_frame t s ?s2" by simp
  have ti2: "taskInfos ?s2 t = Some (ti\<lparr>ti_task := fst (cb (ti_task ti))\<rparr>)"
    using ti by (simp add: upd_task_def)
  have "may_complete ?s2 t (completions (snd (cb (ti_task ti))))"
    using once frame_computing [OF frame ti ri] by (auto simp: may_complete_def)
  from perform_calls_inv [OF calls _ ti2 frame_call_ok [OF frame ti ri ok] this, of H k] inv
  show ?thesis using callback_frame_trans [OF frame] by simp
qed

end
