(* ===== verification/Engine_Inv.thy ===== *)
theory Engine_Inv
  imports Engine_Calls
begin

text \<open>
  The engine's bookkeeping invariant under its own operations: scanning and demanding rules,
  processing one item of each queue, breaking cycles and cancelling.  For each operation there
  is first a rule that lists its outcomes (\<open>scanRule_cases\<close>, \<open>demandRule_cases\<close>,
  \<open>scan_one_input_cases\<close>), which the other invariants use as well.
\<close>


section \<open>Scanning and demanding\<close>

lemma scanRule_cases:
  assumes "scanRule W rid s = Some (b, s')"
  obtains (known) ri where "ruleInfos s rid = Some ri" "s' = s" "b = isScanned (currentEpoch s) ri"
      "b \<or> isScanning ri"
    | (fresh) ri ri' ev q where "ruleInfos s rid = Some ri" "\<not> isScanned (currentEpoch s) ri" "\<not> isScanning ri"
        "s' = s\<lparr>ruleInfos := (ruleInfos s)(rid \<mapsto> ri'), events := ev, ruleInfosToScan := ruleInfosToScan s @ q\<rparr>"
        "ri_keyID ri' = ri_keyID ri" "ri_rule ri' = ri_rule ri"
        "ri_result ri' = ri_result (clean_result ri)" "\<not> ri_wasForced ri'"
        "if b then ri_state ri' \<in> {NeedsToRun, DoesNotNeedToRun} \<and> ri_inProgressInfo ri' = ri_inProgressInfo ri \<and> q = []
         else ri_state ri' = IsScanning \<and> ri_inProgressInfo ri' = PendingScanRecord new_scan_record \<and>
              \<not> empty_deps (res_dependencies (ri_result ri')) \<and>
              q = [\<lparr>rsr_ruleInfo = rid, rsr_inputIndex = 0, rsr_inputRuleInfo = None,
                        rsr_orderOnly = False, rsr_singleUse = False\<rparr>]"
        "ri_state ri' = NeedsToRun \<or> res_builtAt (ri_result ri') \<noteq> 0 \<and>
           rule_signature (ri_rule ri') = res_signature (ri_result ri') \<and>
           isResultValid W (ri_rule ri') (res_value (ri_result ri')) \<and>
           (b \<longrightarrow> empty_deps (res_dependencies (ri_result ri')))"
proof -
  from assms obtain ri where ri: "ruleInfos s rid = Some ri" by (auto simp: scanRule_def)
  show thesis
  proof (cases "isScanned (currentEpoch s) ri \<or> isScanning ri")
    case True
    then show thesis using assms ri known by (auto simp: scanRule_def split: if_splits)
  next
    case False
    define ri' ev where "ri' = the (ruleInfos s' rid)" and "ev = events s'"
    let ?q = "if b then [] else [\<lparr>rsr_ruleInfo = rid, rsr_inputIndex = 0, rsr_inputRuleInfo = None,
                        rsr_orderOnly = False, rsr_singleUse = False\<rparr>]"
    have "s' = s\<lparr>ruleInfos := (ruleInfos s)(rid \<mapsto> ri'), events := ev, ruleInfosToScan := ruleInfosToScan s @ ?q\<rparr> \<and>
      ri_keyID ri' = ri_keyID ri \<and> ri_rule ri' = ri_rule ri \<and>
      ri_result ri' = ri_result (clean_result ri) \<and> \<not> ri_wasForced ri' \<and>
      (if b then ri_state ri' \<in> {NeedsToRun, DoesNotNeedToRun} \<and> ri_inProgressInfo ri' = ri_inProgressInfo ri \<and> ?q = []
       else ri_state ri' = IsScanning \<and> ri_inProgressInfo ri' = PendingScanRecord new_scan_record \<and>
            \<not> empty_deps (res_dependencies (ri_result ri')) \<and> ?q = ?q) \<and>
      (ri_state ri' = NeedsToRun \<or> res_builtAt (ri_result ri') \<noteq> 0 \<and>
           rule_signature (ri_rule ri') = res_signature (ri_result ri') \<and>
           isResultValid W (ri_rule ri') (res_value (ri_result ri')) \<and>
           (b \<longrightarrow> empty_deps (res_dependencies (ri_result ri'))))"
      using assms ri False
      unfolding ri'_def ev_def
      by (auto simp: scanRule_def Let_def needs_to_run_def upd_rule_def emit_def clean_result_def split: if_splits)
    then show thesis using fresh [where ri' = ri' and ev = ev and q = ?q] ri False by (cases b) auto
  qed
qed

lemma not_scanned_idle:
  "\<not> isScanned ep ri \<Longrightarrow> \<not> isScanning ri \<Longrightarrow> idle (ri_state ri)"
  by (cases "ri_state ri")
    (auto simp: isScanned_def isScanning_def isComplete_def idle_def in_progress_def less_StateKind_def)

lemma scanRule_inv:
  assumes "scanRule W rid s = Some (b, s')" "engine_inv H E k s"
  shows "engine_inv H E k s'"
  using assms(1)
proof (cases rule: scanRule_cases)
  case known
  then show ?thesis using assms(2) by simp
next
  case (fresh ri ri' ev q)
  have "skel_of s' = (skel_of s)\<lparr>k_rules := (k_rules (skel_of s))(rid \<mapsto> (ri_state ri', ri_inProgressInfo ri'))\<rparr>"
    unfolding fresh(4) by (auto simp: skel_of_def fun_eq_iff)
  moreover have "skel_inv H E k ((skel_of s)\<lparr>k_rules := (k_rules (skel_of s))(rid \<mapsto> (ri_state ri', ri_inProgressInfo ri'))\<rparr>)"
  proof (rule skel_inv_rule)
    show "skel_inv H E k (skel_of s)" using assms(2) by (simp add: engine_inv_def)
    show "k_rules (skel_of s) rid = None \<or> (\<exists>st i. k_rules (skel_of s) rid = Some (st, i) \<and> \<not> in_progress st \<and>
        (\<forall>t. paused t (st, i) = paused t (ri_state ri', ri_inProgressInfo ri')))"
      using fresh(1,9) not_scanned_idle [OF fresh(2,3)]
      by (auto simp: idle_def new_scan_record_def split: if_splits)
  qed (use fresh in \<open>auto simp: in_progress_def split: if_splits\<close>)
  ultimately show ?thesis by (simp add: engine_inv_def)
qed

lemma finishScanRequest_Some:
  assumes "finishScanRequest rid st s = Some s'"
  obtains ri rec where "ruleInfos s rid = Some ri" "isScanning ri" "ri_inProgressInfo ri = PendingScanRecord rec"
    "s' = s\<lparr>ruleInfosToScan := ruleInfosToScan s @ deferredScanRequests rec,
           inputRequests := inputRequests s @ pausedInputRequests rec,
           ruleInfos := (ruleInfos s)(rid \<mapsto> ri\<lparr>ri_inProgressInfo := NoInfo, ri_state := st\<rparr>)\<rparr>"
  using assms
  by (auto simp: finishScanRequest_def getPendingScanRecord_def upd_rule_def Let_def
      split: if_splits InProgressInfo.splits)

lemma finishScanRequest_inv:
  assumes "finishScanRequest rid st s = Some s'" "engine_inv H E k s" "idle st"
  shows "engine_inv H E k s'"
proof -
  from assms(1) obtain ri rec where r: "ruleInfos s rid = Some ri" "isScanning ri" "ri_inProgressInfo ri = PendingScanRecord rec"
    "s' = s\<lparr>ruleInfosToScan := ruleInfosToScan s @ deferredScanRequests rec,
           inputRequests := inputRequests s @ pausedInputRequests rec,
           ruleInfos := (ruleInfos s)(rid \<mapsto> ri\<lparr>ri_inProgressInfo := NoInfo, ri_state := st\<rparr>)\<rparr>"
    by (rule finishScanRequest_Some)
  have "skel_of s' = (skel_of s)\<lparr>k_rules := (k_rules (skel_of s))(rid \<mapsto> (st, NoInfo)),
     k_input := k_input (skel_of s) @ pausedInputRequests rec\<rparr>"
    unfolding r(4) by (auto simp: skel_of_def fun_eq_iff)
  with skel_inv_finish_scan [of H E k "skel_of s" rid rec st NoInfo] r assms(2,3)
  show ?thesis by (simp add: engine_inv_def isScanning_def)
qed

text \<open>A task leaves the set of tasks that are being started.\<close>

lemma skel_inv_started:
  assumes inv: "skel_inv H (insert t E) k K" and t: "t \<notin> E" "k_tasks K t = Some (r, by, w)"
    and r: "k_rules K r = Some (InProgressWaiting, PendingTaskInfo t)"
  shows "skel_inv H E k (K\<lparr>k_ready := (if w = 0 then k_ready K @ [t] else k_ready K)\<rparr>)"
proof -
  let ?R = "if w = 0 then k_ready K @ [t] else k_ready K"
  have not_ready: "t \<notin> set (k_ready K)" using inv by (auto simp: skel_inv_def ready_inv_def)
  have "(u \<in> set ?R) = (w' = 0 \<and> k_rules K ra = Some (InProgressWaiting, PendingTaskInfo u))"
    if u: "k_tasks K u = Some (ra, by', w')" "u \<notin> E" for u ra by' w'
  proof (cases "u = t")
    case True
    then show ?thesis using u t r not_ready by simp
  next
    case False
    then show ?thesis using skel_inv_ready [OF inv u(1)] u(2) by simp
  qed
  moreover have "distinct ?R" using inv not_ready by (simp add: skel_inv_def ready_inv_def)
  moreover have "k_tasks K u \<noteq> None \<and> u \<notin> E" if "u \<in> set ?R" for u
  proof (cases "u = t")
    case False
    then have "u \<in> set (k_ready K)" using that by (simp split: if_splits)
    then show ?thesis using inv by (simp add: skel_inv_def ready_inv_def)
  qed (use t in simp)
  ultimately have "ready_inv E (K\<lparr>k_ready := ?R\<rparr>)"
    unfolding ready_inv_def by (intro conjI allI impI ballI) (simp_all del: set_append)
  then show ?thesis using inv by (simp add: skel_inv_def)
qed

lemma engine_inv_next_fresh:
  assumes "engine_inv H E k s"
  shows "taskInfos s (nextTask s) = None"
proof (cases "taskInfos s (nextTask s)")
  case (Some ti)
  then have "k_tasks (skel_of s) (nextTask s) = Some (ti_forRuleInfo ti, ti_requestedBy ti, ti_waitCount ti)" by simp
  then show ?thesis
    using skel_inv_task [of H E k "skel_of s"] assms unfolding engine_inv_def by fastforce
qed

text \<open>The four ways of \<^verbatim>\<open>demandRule\<close>: available, in progress, up to date, started.\<close>

lemma demandRule_cases:
  assumes "demandRule W rid s = Some (b, s')"
  obtains (available) ri where "ruleInfos s rid = Some ri" "isComplete (currentEpoch s) ri" "b" "s' = s"
    | (busy) ri where "ruleInfos s rid = Some ri" "isInProgress ri" "\<not> b" "s' = s"
    | (upToDate) ri ev where "ruleInfos s rid = Some ri" "ri_state ri = DoesNotNeedToRun" "b"
        "s' = s\<lparr>ruleInfos := (ruleInfos s)(rid \<mapsto> setComplete (currentEpoch s) (clock s) ri), events := ev\<rparr>"
    | (started) ri s2 s3 ti where "ruleInfos s rid = Some ri" "ri_state ri = NeedsToRun" "\<not> b"
        "run_callback W (nextTask s) (task_start W)
           (emit (EvStart (nextTask s)) (register_task W rid (ri_rule ri) s)) = Some s2"
        "s3 = s2 \<or> (\<exists>v. run_callback W (nextTask s) (task_providePriorValue W v)
           (emit (EvProvidePriorValue (nextTask s) v) s2) = Some s3)"
        "taskInfos s3 (nextTask s) = Some ti"
        "s' = s3\<lparr>readyTaskInfos := (if ti_waitCount ti = 0 then readyTaskInfos s3 @ [nextTask s] else readyTaskInfos s3)\<rparr>"
proof -
  from assms obtain ri where ri: "ruleInfos s rid = Some ri" "isScanned (currentEpoch s) ri"
    by (auto simp: demandRule_def split: if_splits)
  consider "isComplete (currentEpoch s) ri"
    | "\<not> isComplete (currentEpoch s) ri" "isInProgress ri"
    | "\<not> isComplete (currentEpoch s) ri" "\<not> isInProgress ri" "ri_state ri = DoesNotNeedToRun"
    | "\<not> isComplete (currentEpoch s) ri" "\<not> isInProgress ri" "ri_state ri = NeedsToRun"
    using assms ri by (auto simp: demandRule_def split: if_splits)
  then show thesis
  proof cases
    case 1
    then have "b" "s' = s" using assms ri by (simp_all add: demandRule_def)
    with ri 1 show thesis by (intro available)
  next
    case 2
    then have "\<not> b" "s' = s" using assms ri by (simp_all add: demandRule_def)
    with ri 2 show thesis by (intro busy)
  next
    case 3
    then have "b" "s' = s\<lparr>ruleInfos := (ruleInfos s)(rid \<mapsto> setComplete (currentEpoch s) (clock s) ri),
        events := events s @ [EvStatus (rule_key (ri_rule ri)) StatusIsUpToDate]\<rparr>"
      using assms ri by (simp_all add: demandRule_def upd_rule_def emit_def)
    with ri 3 show thesis by (intro upToDate)
  next
    case 4
    let ?t = "nextTask s"
    from assms ri 4 obtain s2 s3 ti where "\<not> b"
      "run_callback W ?t (task_start W) (emit (EvStart ?t) (register_task W rid (ri_rule ri) s)) = Some s2"
      "s3 = s2 \<or> (\<exists>v. run_callback W ?t (task_providePriorValue W v) (emit (EvProvidePriorValue ?t v) s2) = Some s3)"
      "taskInfos s3 ?t = Some ti"
      "s' = (if ti_waitCount ti = 0 then s3\<lparr>readyTaskInfos := readyTaskInfos s3 @ [?t]\<rparr> else s3)"
      by (simp add: demandRule_def Let_def) (metis (no_types, lifting) option.inject)
    with ri 4 show thesis by (intro started [of ri s2 s3 ti]) simp_all
  qed
qed

lemma register_task_inv:
  assumes inv: "engine_inv H {} k s" and ri: "ruleInfos s rid = Some ri" "ri_state ri = NeedsToRun"
  shows "engine_inv H {nextTask s} k (register_task W rid rule s)"
proof -
  let ?n = "nextTask s"
  have "skel_of (register_task W rid rule s) = (skel_of s)\<lparr>
      k_rules := (k_rules (skel_of s))(rid \<mapsto> (InProgressWaiting, PendingTaskInfo ?n)),
      k_tasks := (k_tasks (skel_of s))(?n \<mapsto> (rid, [], 0)), k_next := Suc ?n\<rparr>"
    using ri by (auto simp: register_task_def upd_rule_def skel_of_def new_TaskInfo_def fun_eq_iff)
  moreover have "skel_inv H (insert ?n {}) k ((skel_of s)\<lparr>
      k_rules := (k_rules (skel_of s))(rid \<mapsto> (InProgressWaiting, PendingTaskInfo ?n)),
      k_tasks := (k_tasks (skel_of s))(?n \<mapsto> (rid, [], 0)), k_next := Suc ?n\<rparr>)"
    by (rule skel_inv_register [where st = NeedsToRun and i = "ri_inProgressInfo ri"])
      (use inv ri in \<open>simp_all add: engine_inv_def idle_def in_progress_def\<close>)
  ultimately show ?thesis by (simp add: engine_inv_def)
qed

definition waiting_task :: "TaskRef \<Rightarrow> ('ts, 'db) engine \<Rightarrow> bool" where
  "waiting_task t s = (\<exists>ti ri. taskInfos s t = Some ti \<and> ruleInfos s (ti_forRuleInfo ti) = Some ri \<and>
     ri_state ri = InProgressWaiting \<and> ri_inProgressInfo ri = PendingTaskInfo t)"

lemma waiting_task_frame:
  assumes "callback_frame t s s'" "waiting_task t s"
  shows "waiting_task t s'"
proof -
  from assms(2) obtain ti ri where t: "taskInfos s t = Some ti" "ruleInfos s (ti_forRuleInfo ti) = Some ri"
    "ri_state ri = InProgressWaiting" "ri_inProgressInfo ri = PendingTaskInfo t"
    by (auto simp: waiting_task_def)
  show ?thesis using assms(1) t(1,2)
    by (rule frame_task_rule) (use t(3,4) in \<open>auto simp: waiting_task_def same_rule_def\<close>)
qed

lemma waiting_not_computing: "waiting_task t s \<Longrightarrow> t \<notin> computing (skel_of s)"
  by (auto simp: waiting_task_def computing_iff)

lemma waiting_callback:
  assumes "run_callback W t cb s = Some s'" "engine_inv H E k s" "t \<in> E" "waiting_task t s"
  shows "engine_inv H E k s' \<and> callback_frame t s s' \<and> waiting_task t s'"
proof -
  have "engine_inv H E k s' \<and> callback_frame t s s'"
    using assms(1,2)
    by (rule run_callback_inv) (use assms(3) waiting_not_computing [OF assms(4)] in \<open>auto simp: call_ok_def\<close>)
  then show ?thesis using assms(4) waiting_task_frame by blast
qed

lemma engine_inv_emit [simp]: "engine_inv H E k (emit e s) = engine_inv H E k s"
  by (simp add: engine_inv_def)

lemma waiting_task_emit [simp]: "waiting_task t (emit e s) = waiting_task t s"
  by (simp add: waiting_task_def emit_def)

lemma demandRule_started:
  assumes inv: "engine_inv H {} k s" and ri: "ruleInfos s rid = Some ri" "ri_state ri = NeedsToRun"
    and s2: "run_callback W (nextTask s) (task_start W)
           (emit (EvStart (nextTask s)) (register_task W rid (ri_rule ri) s)) = Some s2"
    and s3: "s3 = s2 \<or> (\<exists>v. run_callback W (nextTask s) (task_providePriorValue W v)
           (emit (EvProvidePriorValue (nextTask s) v) s2) = Some s3)"
  shows "engine_inv H {nextTask s} k s3 \<and> waiting_task (nextTask s) s3 \<and>
    callback_frame (nextTask s) (register_task W rid (ri_rule ri) s) s3"
proof -
  let ?t = "nextTask s" let ?s1 = "register_task W rid (ri_rule ri) s"
  have "waiting_task ?t ?s1"
    using ri(1) by (simp add: waiting_task_def register_task_def upd_rule_def new_TaskInfo_def)
  with waiting_callback [OF s2, of H "{?t}" k] register_task_inv [OF inv ri]
  have 2: "engine_inv H {?t} k s2" "callback_frame ?t (emit (EvStart ?t) ?s1) s2" "waiting_task ?t s2" by simp_all
  have f2: "callback_frame ?t ?s1 s2" using callback_frame_emit 2(2) by (rule callback_frame_trans)
  from s3 show ?thesis
  proof
    assume "s3 = s2" then show ?thesis using 2 f2 by simp
  next
    assume "\<exists>v. run_callback W ?t (task_providePriorValue W v) (emit (EvProvidePriorValue ?t v) s2) = Some s3"
    then obtain v where "run_callback W ?t (task_providePriorValue W v) (emit (EvProvidePriorValue ?t v) s2) = Some s3" ..
    from waiting_callback [OF this, of H "{?t}" k] 2
    have 3: "engine_inv H {?t} k s3" "callback_frame ?t (emit (EvProvidePriorValue ?t v) s2) s3" "waiting_task ?t s3" by simp_all
    have "callback_frame ?t s2 s3" using callback_frame_emit 3(2) by (rule callback_frame_trans)
    then show ?thesis using 3 f2 callback_frame_trans by blast
  qed
qed

lemma demandRule_inv:
  assumes d: "demandRule W rid s = Some (b, s')" and inv: "engine_inv H {} k s"
  shows "engine_inv H {} k s'"
  using d
proof (cases rule: demandRule_cases)
  case available
  then show ?thesis using inv by simp
next
  case busy
  then show ?thesis using inv by simp
next
  case (upToDate ri ev)
  have "skel_of s' = (skel_of s)\<lparr>k_rules := (k_rules (skel_of s))(rid \<mapsto> (Complete, ri_inProgressInfo ri))\<rparr>"
    unfolding upToDate(4) by (auto simp: skel_of_def setComplete_def fun_eq_iff)
  moreover have "skel_inv H {} k ((skel_of s)\<lparr>k_rules := (k_rules (skel_of s))(rid \<mapsto> (Complete, ri_inProgressInfo ri))\<rparr>)"
    by (rule skel_inv_rule) (use inv upToDate in \<open>auto simp: engine_inv_def in_progress_def\<close>)
  ultimately show ?thesis by (simp add: engine_inv_def)
next
  case (started ri s2 s3 ti)
  let ?t = "nextTask s"
  have 3: "engine_inv H {?t} k s3" "waiting_task ?t s3"
    using demandRule_started [OF inv started(1,2,4,5)] by simp_all
  have "skel_inv H {} k ((skel_of s3)\<lparr>k_ready := (if ti_waitCount ti = 0 then k_ready (skel_of s3) @ [?t] else k_ready (skel_of s3))\<rparr>)"
    by (rule skel_inv_started) (use 3 started(6) in \<open>auto simp: engine_inv_def waiting_task_def\<close>)
  then show ?thesis unfolding started(7) by (simp add: engine_inv_def split: if_splits)
qed

section \<open>Scan requests\<close>

lemma defer_on_scan_inv:
  assumes "defer_on_scan rid request s = Some s'" "engine_inv H E k s"
  shows "engine_inv H E k s'"
proof -
  from assms(1) obtain ri rec where r: "ruleInfos s rid = Some ri" "isScanning ri" "ri_inProgressInfo ri = PendingScanRecord rec"
    "s' = upd_rule rid (\<lambda>ri. ri\<lparr>ri_inProgressInfo := PendingScanRecord
                  (rec\<lparr>deferredScanRequests := deferredScanRequests rec @ [request]\<rparr>)\<rparr>) s"
    by (auto simp: defer_on_scan_def getPendingScanRecord_def split: if_splits InProgressInfo.splits)
  show ?thesis
    unfolding engine_inv_def r(4) skel_of_upd_rule [OF r(1)]
    by (rule skel_inv_rule) (use r assms(2) in \<open>auto simp: engine_inv_def isScanning_def in_progress_def\<close>)
qed

lemma defer_on_task_inv:
  "defer_on_task rid request s = Some s' \<Longrightarrow> engine_inv H E k s \<Longrightarrow> engine_inv H E k s'"
  by (auto simp: defer_on_task_def engine_inv_def)

lemma load_scan_input_inv:
  "load_scan_input W request s = Some (i, request', s') \<Longrightarrow> engine_inv H E k s \<Longrightarrow> engine_inv H E k s'"
  by (auto simp: load_scan_input_def Let_def getRuleInfoForKeyID_inv split: option.splits if_splits)

lemma idle_simps [simp]:
  "idle Incomplete" "idle NeedsToRun" "idle DoesNotNeedToRun" "idle Complete" "\<not> idle IsScanning"
  "\<not> idle InProgressWaiting" "\<not> idle InProgressComputing"
  by (simp_all add: idle_def in_progress_def)

text \<open>
  The operations that make up a round of the scan loop, and a rule to show that what they keep is
  kept by the whole loop.
\<close>

lemma scan_one_input_cases:
  assumes "scan_one_input W request0 s0 = Some r"
  obtains (scanning) i request s s1 s2 where "load_scan_input W request0 s0 = Some (i, request, s)"
      "scanRule W i s = Some (False, s1)" "defer_on_scan i request s1 = Some s2" "r = Inl s2"
    | (building) i request s s1 s2 s3 where "load_scan_input W request0 s0 = Some (i, request, s)"
      "scanRule W i s = Some (True, s1)" "demandRule W i s1 = Some (False, s2)"
      "defer_on_task i request s2 = Some s3" "r = Inl s3"
    | (rebuilt) i request s s1 s2 s3 ri iri where "load_scan_input W request0 s0 = Some (i, request, s)"
      "scanRule W i s = Some (True, s1)" "demandRule W i s1 = Some (True, s2)"
      "ruleInfos s2 (rsr_ruleInfo request) = Some ri" "ruleInfos s2 i = Some iri"
      "\<not> rsr_orderOnly request" "res_builtAt (ri_result ri) < res_computedAt (ri_result iri)"
      "finishScanRequest (rsr_ruleInfo request) NeedsToRun s2 = Some s3"
      "r = Inl (emit (EvNeedsToRun (rule_key (ri_rule ri)) InputRebuilt (Some (rule_key (ri_rule iri)))) s3)"
    | (unchanged) i request s s1 s2 ri iri where "load_scan_input W request0 s0 = Some (i, request, s)"
      "scanRule W i s = Some (True, s1)" "demandRule W i s1 = Some (True, s2)"
      "ruleInfos s2 (rsr_ruleInfo request) = Some ri" "ruleInfos s2 i = Some iri"
      "rsr_orderOnly request \<or> res_computedAt (ri_result iri) \<le> res_builtAt (ri_result ri)"
      "r = Inr (request\<lparr>rsr_inputIndex := rsr_inputIndex request + 1, rsr_inputRuleInfo := None,
                        rsr_orderOnly := False, rsr_singleUse := False\<rparr>, s2)"
proof -
  from assms obtain i request s b s1 where l: "load_scan_input W request0 s0 = Some (i, request, s)"
    and sc: "scanRule W i s = Some (b, s1)"
    by (auto simp: scan_one_input_def)
  show thesis
  proof (cases b)
    case False
    with assms l sc obtain s2 where "defer_on_scan i request s1 = Some s2" "r = Inl s2"
      by (auto simp: scan_one_input_def)
    with l sc False show thesis by (intro scanning) simp_all
  next
    case True
    with assms l sc obtain c s2 where d: "demandRule W i s1 = Some (c, s2)" by (auto simp: scan_one_input_def)
    show thesis
    proof (cases c)
      case False
      with assms l sc True d obtain s3 where "defer_on_task i request s2 = Some s3" "r = Inl s3"
        by (auto simp: scan_one_input_def)
      with l sc d True False show thesis by (intro building) simp_all
    next
      case c: True
      with assms l sc True d obtain ri iri where ri: "ruleInfos s2 (rsr_ruleInfo request) = Some ri" "ruleInfos s2 i = Some iri"
        by (auto simp: scan_one_input_def)
      show thesis
      proof (cases "\<not> rsr_orderOnly request \<and> res_builtAt (ri_result ri) < res_computedAt (ri_result iri)")
        case newer: True
        with assms l sc True d c ri obtain s3 where "finishScanRequest (rsr_ruleInfo request) NeedsToRun s2 = Some s3"
          "r = Inl (emit (EvNeedsToRun (rule_key (ri_rule ri)) InputRebuilt (Some (rule_key (ri_rule iri)))) s3)"
          by (auto simp: scan_one_input_def)
        with l sc d True c ri newer show thesis by (intro rebuilt) simp_all
      next
        case older: False
        with assms l sc True d c ri have "r = Inr (request\<lparr>rsr_inputIndex := rsr_inputIndex request + 1, rsr_inputRuleInfo := None,
                        rsr_orderOnly := False, rsr_singleUse := False\<rparr>, s2)"
          by (simp add: scan_one_input_def)
        with l sc d True c ri older show thesis by (intro unchanged [OF l]) auto
      qed
    qed
  qed
qed

lemma scan_inputs_invariant:
  assumes "scan_inputs n W request s = Some s'" "I s"
    and "\<And>q s i q' s'. I s \<Longrightarrow> load_scan_input W q s = Some (i, q', s') \<Longrightarrow> I s'"
    and "\<And>s i b s'. I s \<Longrightarrow> scanRule W i s = Some (b, s') \<Longrightarrow> I s'"
    and "\<And>s i b s'. I s \<Longrightarrow> demandRule W i s = Some (b, s') \<Longrightarrow> I s'"
    and "\<And>s i q s'. I s \<Longrightarrow> defer_on_scan i q s = Some s' \<Longrightarrow> I s'"
    and "\<And>s i q s'. I s \<Longrightarrow> defer_on_task i q s = Some s' \<Longrightarrow> I s'"
    and "\<And>s i st s'. I s \<Longrightarrow> st = NeedsToRun \<or> st = DoesNotNeedToRun \<Longrightarrow>
           finishScanRequest i st s = Some s' \<Longrightarrow> I s'"
    and "\<And>s e. I s \<Longrightarrow> I (emit e s)"
  shows "I s'"
proof -
  have one: "I (case r of Inl s' \<Rightarrow> s' | Inr (_, s') \<Rightarrow> s')"
    if "scan_one_input W q s = Some r" "I s" for q s r
    using that(1)
  proof (cases rule: scan_one_input_cases)
    case scanning
    then show ?thesis using that(2) assms(3,4,6) by (metis sum.case(1))
  next
    case building
    then show ?thesis using that(2) assms(3,4,5,7) by (metis sum.case(1))
  next
    case (rebuilt i request s s1 s2 s3 ri iri)
    then have "I s3" using that(2) assms(3,4,5,8) by metis
    then show ?thesis using rebuilt(9) assms(9) by simp
  next
    case (unchanged i request s s1 s2 ri iri)
    then have "I s2" using that(2) assms(3,4,5) by metis
    then show ?thesis using unchanged(7) by simp
  qed
  show ?thesis
    using assms(1,2)
  proof (induction n arbitrary: request s)
    case (Suc n)
    then obtain r where r: "scan_one_input W request s = Some r" by auto
    note Ir = one [OF r Suc.prems(2)]
    show ?case
    proof (cases r)
      case (Inl s1)
      then show ?thesis using Ir r Suc.prems(1) by simp
    next
      case (Inr p)
      then show ?thesis using Ir r Suc.prems(1) Suc.IH [of "fst p" "snd p"] assms(8) [of "snd p" DoesNotNeedToRun]
        by (auto simp: split_def split: if_splits)
    qed
  qed simp
qed

lemma scan_inputs_inv:
  assumes "scan_inputs n W request s = Some s'" "engine_inv H {} k s"
  shows "engine_inv H {} k s'"
  using assms
  by (rule scan_inputs_invariant [where I = "engine_inv H {} k"])
    (auto intro: load_scan_input_inv scanRule_inv demandRule_inv defer_on_scan_inv defer_on_task_inv finishScanRequest_inv)

lemma processRuleScanRequest_inv:
  "processRuleScanRequest W request s = Some s' \<Longrightarrow> engine_inv H {} k s \<Longrightarrow> engine_inv H {} k s'"
  by (auto simp: processRuleScanRequest_def scan_inputs_inv split: if_splits)

section \<open>The items of the queues\<close>

text \<open>A request is in hand while it is being processed.\<close>

lemma engine_inv_rearrange:
  assumes "engine_inv H E k s"
    and "\<And>t. reqs t H' + reqs t xs + reqs t ys = reqs t H + reqs t (inputRequests s) + reqs t (finishedInputRequests s)"
  shows "engine_inv H' E k (s\<lparr>inputRequests := xs, finishedInputRequests := ys\<rparr>)"
  using skel_inv_rearrange [of H E k "skel_of s" H' xs ys] assms by (simp add: engine_inv_def)

lemma engine_inv_hand:
  "engine_inv H E k s \<Longrightarrow> inputRequests s = q # xs \<Longrightarrow> engine_inv (q # H) E k (s\<lparr>inputRequests := xs\<rparr>)"
  "engine_inv H E k s \<Longrightarrow> finishedInputRequests s = ys @ [q] \<Longrightarrow> engine_inv (q # H) E k (s\<lparr>finishedInputRequests := ys\<rparr>)"
  using engine_inv_rearrange [of H E k s "q # H" xs "finishedInputRequests s"]
    engine_inv_rearrange [of H E k s "q # H" "inputRequests s" ys] by simp_all

lemma engine_inv_drop_dummy:
  "tir_taskInfo q = None \<Longrightarrow> engine_inv (q # H) E k s = engine_inv H E k s"
  by (simp add: engine_inv_def skel_inv_def waits_inv_def outstanding_def)

lemma engine_inv_finished_request:
  "engine_inv (q # H) E k s \<Longrightarrow>
   engine_inv H E k (s\<lparr>finishedInputRequests := finishedInputRequests s @ [q]\<rparr>)"
  using engine_inv_rearrange [of "q # H" E k s H "inputRequests s" "finishedInputRequests s @ [q]"] by simp

lemma skel_inv_pause:
  assumes inv: "skel_inv (q # H) E k K" and old: "k_rules K r = Some (IsScanning, PendingScanRecord rec)"
  shows "skel_inv H E k (K\<lparr>k_rules := (k_rules K)(r \<mapsto>
    (IsScanning, PendingScanRecord (rec\<lparr>pausedInputRequests := pausedInputRequests rec @ [q]\<rparr>)))\<rparr>)"
    (is "skel_inv H E k (K\<lparr>k_rules := ?R\<rparr>)")
proof -
  have fin: "finite (dom (k_rules K))" using inv by (simp add: skel_inv_def)
  have same: "?R ra = k_rules K ra" if "k_tasks K t = Some (ra, by, w)" for t ra "by" w
    using inv that by (rule skel_inv_task) (use old in \<open>auto simp: in_progress_def\<close>)
  have ms: "msum (paused t) ?R = msum (paused t) (k_rules K) + reqs t [q]" for t
    using msum_upd [OF fin old, of "paused t"
        "(IsScanning, PendingScanRecord (rec\<lparr>pausedInputRequests := pausedInputRequests rec @ [q]\<rparr>))"]
    by simp
  have "rules_inv (K\<lparr>k_rules := ?R\<rparr>)"
    using inv by (auto simp: skel_inv_def rules_inv_def in_progress_def)
  moreover have "waits_inv H (K\<lparr>k_rules := ?R\<rparr>)"
    unfolding waits_inv_def
  proof
    fix t
    have "outstanding (q # H) K t = waits K t" using inv by (simp add: skel_inv_def waits_inv_def)
    then show "outstanding H (K\<lparr>k_rules := ?R\<rparr>) t = waits (K\<lparr>k_rules := ?R\<rparr>) t"
      by (simp add: outstanding_def waits_def ms)
  qed
  ultimately show ?thesis
    using inv task_rules_cong [of K ?R, OF same] by (simp add: skel_inv_def done_inv_def)
qed

lemma pause_input_request_inv:
  assumes "pause_input_request q s = Some s'" "engine_inv (q # H) E k s"
  shows "engine_inv H E k s'"
proof -
  let ?r = "tir_inputRuleInfo q"
  from assms(1) obtain ri rec where r: "ruleInfos s ?r = Some ri" "isScanning ri" "ri_inProgressInfo ri = PendingScanRecord rec"
    "s' = upd_rule ?r (\<lambda>ri. ri\<lparr>ri_inProgressInfo := PendingScanRecord
                  (rec\<lparr>pausedInputRequests := pausedInputRequests rec @ [q]\<rparr>)\<rparr>) s"
    by (auto simp: pause_input_request_def getPendingScanRecord_def split: if_splits InProgressInfo.splits)
  then show ?thesis
    using skel_inv_pause [of q H E k "skel_of s" ?r rec] assms(2)
    by (simp add: engine_inv_def isScanning_def skel_of_upd_rule [OF r(1)])
qed

lemma record_dependency_inv:
  "record_dependency t q s = Some s' \<Longrightarrow> engine_inv H E k s' = engine_inv H E k s"
  by (auto simp: record_dependency_def engine_inv_def)

lemma await_input_inv:
  assumes "await_input q s = Some s'" "engine_inv (q # H) E k s"
  shows "engine_inv H E k s'"
proof -
  from assms(1) obtain t ti where t: "taskInfos s t = Some ti"
    "s' = upd_task t (\<lambda>ti. ti\<lparr>ti_requestedBy := ti_requestedBy ti @ [q]\<rparr>) s"
    by (auto simp: await_input_def)
  let ?K = "skel_of s" let ?r = "ti_forRuleInfo ti" let ?w = "ti_waitCount ti"
  have inv: "skel_inv (q # H) E k ?K" using assms(2) by (simp add: engine_inv_def)
  have kt: "k_tasks ?K t = Some (?r, ti_requestedBy ti, ?w)" using t by simp
  have "skel_inv H E k (?K\<lparr>k_tasks := (k_tasks ?K)(t \<mapsto> (?r, ti_requestedBy ti @ [q], ?w)),
      k_input := k_input ?K, k_fin := k_fin ?K, k_ready := k_ready ?K\<rparr>)"
  proof (rule skel_inv_task_upd [OF inv kt])
    show "k_rules ?K ?r = Some (InProgressComputing, PendingTaskInfo t) \<Longrightarrow> ?w = 0"
      using inv kt by (rule skel_inv_task) (auto simp del: skel_of_simps)
    show "ready_inv E (?K\<lparr>k_tasks := (k_tasks ?K)(t \<mapsto> (?r, ti_requestedBy ti @ [q], ?w)), k_ready := k_ready ?K\<rparr>)"
      using inv kt unfolding skel_inv_def ready_inv_def
      by (auto simp del: skel_of_simps)
  qed auto
  then show ?thesis unfolding t(2) engine_inv_def skel_of_upd_task [OF t(1)] by (simp add: skel_of_def)
qed

lemma process_input_request_cases:
  assumes "process_input_request W q s = Some s'"
  obtains (scanning) s1 where "scanRule W (tir_inputRuleInfo q) s = Some (False, s1)" "pause_input_request q s1 = Some s'"
    | (dummy) s1 b where "scanRule W (tir_inputRuleInfo q) s = Some (True, s1)"
        "demandRule W (tir_inputRuleInfo q) s1 = Some (b, s')" "tir_taskInfo q = None"
    | (available) s1 s2 s3 t where "scanRule W (tir_inputRuleInfo q) s = Some (True, s1)"
        "demandRule W (tir_inputRuleInfo q) s1 = Some (True, s2)" "tir_taskInfo q = Some t"
        "record_dependency t q s2 = Some s3"
        "s' = s3\<lparr>finishedInputRequests := finishedInputRequests s3 @ [q]\<rparr>"
    | (awaiting) s1 s2 s3 t where "scanRule W (tir_inputRuleInfo q) s = Some (True, s1)"
        "demandRule W (tir_inputRuleInfo q) s1 = Some (False, s2)" "tir_taskInfo q = Some t"
        "record_dependency t q s2 = Some s3" "await_input q s3 = Some s'"
proof -
  from assms obtain b s1 where sc: "scanRule W (tir_inputRuleInfo q) s = Some (b, s1)"
    by (auto simp: process_input_request_def)
  show thesis
  proof (cases b)
    case False
    then show thesis using assms sc scanning by (simp add: process_input_request_def)
  next
    case True
    with assms sc obtain c s2 where d: "demandRule W (tir_inputRuleInfo q) s1 = Some (c, s2)"
      by (auto simp: process_input_request_def)
    show thesis
    proof (cases "tir_taskInfo q")
      case None
      with assms sc True d have "s' = s2" by (simp add: process_input_request_def)
      with None sc True d show thesis by (intro dummy) simp_all
    next
      case (Some t)
      with assms sc True d obtain s3 where s3: "record_dependency t q s2 = Some s3"
        by (auto simp: process_input_request_def)
      show thesis
      proof (cases c)
        case c: True
        with assms sc True d Some s3 have "s' = s3\<lparr>finishedInputRequests := finishedInputRequests s3 @ [q]\<rparr>"
          by (simp add: process_input_request_def)
        with sc True d c Some s3 show thesis by (intro available) simp_all
      next
        case c: False
        with assms sc True d Some s3 have "await_input q s3 = Some s'" by (simp add: process_input_request_def)
        with sc True d c Some s3 show thesis by (intro awaiting) simp_all
      qed
    qed
  qed
qed

lemma process_input_request_inv:
  assumes "process_input_request W q s = Some s'" and inv: "engine_inv (q # H) {} k s"
  shows "engine_inv H {} k s'"
  using assms(1)
proof (cases rule: process_input_request_cases)
  case scanning
  then show ?thesis using inv scanRule_inv pause_input_request_inv by blast
next
  case dummy
  then show ?thesis using inv scanRule_inv demandRule_inv engine_inv_drop_dummy by blast
next
  case (available s1 s2 s3 t)
  then have "engine_inv (q # H) {} k s2" using inv scanRule_inv demandRule_inv by blast
  then have "engine_inv (q # H) {} k s3" using record_dependency_inv available(4) by blast
  then show ?thesis using available(5) engine_inv_finished_request by blast
next
  case (awaiting s1 s2 s3 t)
  then have "engine_inv (q # H) {} k s2" using inv scanRule_inv demandRule_inv by blast
  then have "engine_inv (q # H) {} k s3" using record_dependency_inv awaiting(4) by blast
  then show ?thesis using awaiting(5) await_input_inv by blast
qed

lemma hand_waits:
  assumes "engine_inv (q # H) E k s" "tir_taskInfo q = Some t" "taskInfos s t = Some ti"
  shows "0 < ti_waitCount ti"
proof -
  have "outstanding (q # H) (skel_of s) t = waits (skel_of s) t"
    using assms(1) by (simp add: engine_inv_def skel_inv_def waits_inv_def del: skel_of_simps)
  moreover have "waits (skel_of s) t = ti_waitCount ti" using assms(3) by (simp add: waits_def)
  moreover have "0 < outstanding (q # H) (skel_of s) t" using assms(2) by (simp add: outstanding_def)
  ultimately show ?thesis by simp
qed

lemma hand_task:
  assumes "engine_inv (q # H) E k s" "tir_taskInfo q = Some t"
  shows "\<exists>ti. taskInfos s t = Some ti"
proof (rule ccontr)
  assume "\<not> ?thesis"
  then have "waits (skel_of s) t = 0" by (simp add: waits_def)
  moreover have "outstanding (q # H) (skel_of s) t = waits (skel_of s) t"
    using assms(1) by (simp add: engine_inv_def skel_inv_def waits_inv_def del: skel_of_simps)
  moreover have "0 < outstanding (q # H) (skel_of s) t" using assms(2) by (simp add: outstanding_def)
  ultimately show False by simp
qed

text \<open>A task somebody waits for an answer to is still waiting.\<close>

lemma hand_waiting:
  assumes "engine_inv (q # H) E k s" "tir_taskInfo q = Some t"
  shows "waiting_task t s"
proof -
  obtain ti where ti: "taskInfos s t = Some ti" using hand_task [OF assms] ..
  have w: "0 < ti_waitCount ti" using assms ti by (rule hand_waits)
  have "k_tasks (skel_of s) t = Some (ti_forRuleInfo ti, ti_requestedBy ti, ti_waitCount ti)" using ti by simp
  with assms(1) show ?thesis
    unfolding engine_inv_def
    by (rule skel_inv_task) (use ti w in \<open>auto simp: waiting_task_def in_progress_def\<close>)
qed

lemma skel_inv_decrement:
  assumes inv: "skel_inv (q # H) {} k K" and q: "tir_taskInfo q = Some t"
    and kt: "k_tasks K t = Some (r, by, Suc w)"
    and kr: "k_rules K r = Some (InProgressWaiting, PendingTaskInfo t)"
  shows "skel_inv H {} k (K\<lparr>k_tasks := (k_tasks K)(t \<mapsto> (r, by, w)), k_input := k_input K, k_fin := k_fin K,
    k_ready := (if w = 0 then k_ready K @ [t] else k_ready K)\<rparr>)"
proof (rule skel_inv_task_upd [OF inv kt])
  let ?R = "if w = 0 then k_ready K @ [t] else k_ready K" let ?T = "(k_tasks K)(t \<mapsto> (r, by, w))"
  have not_ready: "t \<notin> set (k_ready K)" using skel_inv_ready [OF inv kt] by simp
  have "(u \<in> set ?R) = (w' = 0 \<and> k_rules K ra = Some (InProgressWaiting, PendingTaskInfo u))"
    if u: "?T u = Some (ra, by', w')" for u ra by' w'
  proof (cases "u = t")
    case True
    then show ?thesis using u kr not_ready by simp
  next
    case False
    then show ?thesis using skel_inv_ready [OF inv, of u ra by' w'] u by simp
  qed
  moreover have "distinct ?R" using inv not_ready by (simp add: skel_inv_def ready_inv_def)
  moreover have "?T u \<noteq> None" if "u \<in> set ?R" for u
  proof (cases "u = t")
    case False
    then have "u \<in> set (k_ready K)" using that by (simp split: if_splits)
    then show ?thesis using inv False by (simp add: skel_inv_def ready_inv_def)
  qed simp
  ultimately show "ready_inv {} (K\<lparr>k_tasks := ?T, k_ready := ?R\<rparr>)"
    unfolding ready_inv_def by (intro conjI allI impI ballI) (simp_all del: set_append fun_upd_apply)
qed (use q kr in auto)

lemma decrementTaskWaitCount_inv:
  assumes "decrementTaskWaitCount t s = Some s'" "engine_inv (q # H) {} k s" "tir_taskInfo q = Some t"
  shows "engine_inv H {} k s'"
proof -
  from assms(1) obtain ti w where ti: "taskInfos s t = Some ti" "ti_waitCount ti = Suc w"
    "s' = (upd_task t (\<lambda>ti. ti\<lparr>ti_waitCount := ti_waitCount ti - 1\<rparr>) s)
            \<lparr>readyTaskInfos := (if w = 0 then readyTaskInfos s @ [t] else readyTaskInfos s)\<rparr>"
    by (auto simp: decrementTaskWaitCount_def Let_def upd_task_def gr0_conv_Suc split: if_splits)
  obtain ri where r: "ruleInfos s (ti_forRuleInfo ti) = Some ri" "ri_state ri = InProgressWaiting"
    "ri_inProgressInfo ri = PendingTaskInfo t"
    using hand_waiting [OF assms(2,3)] ti(1) by (auto simp: waiting_task_def)
  let ?K = "skel_of s" let ?r = "ti_forRuleInfo ti" let ?by = "ti_requestedBy ti"
  have "skel_of s' = ?K\<lparr>k_tasks := (k_tasks ?K)(t \<mapsto> (?r, ?by, w)), k_input := k_input ?K, k_fin := k_fin ?K,
      k_ready := (if w = 0 then k_ready ?K @ [t] else k_ready ?K)\<rparr>"
    unfolding ti(3) using ti(1,2) by (auto simp: skel_of_def upd_task_def fun_eq_iff)
  moreover have "skel_inv H {} k (?K\<lparr>k_tasks := (k_tasks ?K)(t \<mapsto> (?r, ?by, w)), k_input := k_input ?K, k_fin := k_fin ?K,
      k_ready := (if w = 0 then k_ready ?K @ [t] else k_ready ?K)\<rparr>)"
    by (rule skel_inv_decrement [where q = q]) (use assms(2,3) ti r in \<open>simp_all add: engine_inv_def\<close>)
  ultimately show ?thesis by (simp add: engine_inv_def)
qed

lemma process_finished_input_inv:
  assumes "process_finished_input W q s = Some s'" and inv: "engine_inv (q # H) {} k s"
  shows "engine_inv H {} k s'"
proof -
  from assms(1) obtain t e s1 where t: "tir_taskInfo q = Some t" and d: "decrementTaskWaitCount t s1 = Some s'"
    and s1: "s1 = s \<or> (\<exists>cb. run_callback W t cb (emit e s) = Some s1)"
    by (auto simp: process_finished_input_def split: if_splits)
  have w: "waiting_task t s" using inv t by (rule hand_waiting)
  have ok: "call_ok {} (emit e s) t"
    using hand_waits [OF inv t] by (auto simp: call_ok_def emit_def)
  have "engine_inv (q # H) {} k s1"
    using s1 run_callback_inv [of W t _ "emit e s" s1 "q # H" "{}" k] inv ok waiting_not_computing [OF w]
    by auto
  then show ?thesis using d t decrementTaskWaitCount_inv by blast
qed

text \<open>The obligation of a task: \<open>inputsAvailable\<close> reports completion at most once.\<close>

definition completes_once :: "('ts, 'db) client \<Rightarrow> bool" where
  "completes_once W = (\<forall>x. completions (snd (task_inputsAvailable W x)) \<le> 1)"

lemma ready_item_inv:
  assumes item: "ready_item W s = Some s'" and inv: "engine_inv H {} k s" and ne: "readyTaskInfos s \<noteq> []"
    and W: "completes_once W"
  shows "engine_inv H {} k s'"
proof -
  obtain t zs where rd: "readyTaskInfos s = t # zs" using ne by (cases "readyTaskInfos s") auto
  from item rd obtain ti ri ri1 s2 where ti: "taskInfos s t = Some ti"
    and ri: "ruleInfos s (ti_forRuleInfo ti) = Some ri" "getPendingTaskInfo ri = Some t"
    and ri1: "setComputing (clock s) ri = Some ri1"
    and run: "run_callback W t (task_inputsAvailable W) (emit (EvInputsAvailable t)
                (upd_rule (ti_forRuleInfo ti) (\<lambda>_. ri1) (s\<lparr>readyTaskInfos := zs\<rparr>))) = Some s2"
    and s': "s' = s2\<lparr>numOutstandingUnfinishedTasks := Suc (numOutstandingUnfinishedTasks s2)\<rparr>"
    by (auto simp: ready_item_def process_ready_task_def split: if_splits)
  let ?s1 = "upd_rule (ti_forRuleInfo ti) (\<lambda>_. ri1) (s\<lparr>readyTaskInfos := zs\<rparr>)"
  let ?K = "skel_of s"
  have st1: "ri_state ri1 = InProgressComputing" "ri_inProgressInfo ri1 = PendingTaskInfo t"
    and st: "ri_state ri = InProgressWaiting"
    using ri1 ri(2) by (auto simp: setComputing_def getPendingTaskInfo_def isInProgressWaiting_def
        split: if_splits InProgressInfo.splits)
  have "skel_of ?s1 = ?K\<lparr>k_rules := (k_rules ?K)(ti_forRuleInfo ti \<mapsto> (InProgressComputing, PendingTaskInfo t)), k_ready := zs\<rparr>"
    using ri(1) st1 by (subst skel_of_upd_rule) (auto simp: skel_of_def)
  moreover have "skel_inv H {} (Suc k) (?K\<lparr>k_rules := (k_rules ?K)(ti_forRuleInfo ti \<mapsto> (InProgressComputing, PendingTaskInfo t)), k_ready := zs\<rparr>)"
    by (rule skel_inv_computing) (use inv rd ti in \<open>simp_all add: engine_inv_def\<close>)
  ultimately have inv1: "engine_inv H {} (Suc k) (emit (EvInputsAvailable t) ?s1)" by (simp add: engine_inv_def)
  have "t \<notin> computing ?K" using ti ri(1) st by (auto simp: computing_iff)
  then have "t \<notin> set (finishedTaskInfos s)"
    using inv by (auto simp: engine_inv_def skel_inv_def done_inv_def)
  then have fin: "t \<notin> set (finishedTaskInfos (emit (EvInputsAvailable t) ?s1))"
    by (simp add: emit_def upd_rule_def)
  have "call_ok {} (emit (EvInputsAvailable t) ?s1) t"
    using ti ri(1) st1 by (auto simp: call_ok_def emit_def upd_rule_def isInProgressWaiting_def)
  with run_callback_inv [OF run inv1] fin W have "engine_inv H {} (Suc k) s2"
    by (simp add: completes_once_def)
  then show ?thesis unfolding s' using skel_inv_num [of H "{}" k "skel_of s2"] by (simp add: engine_inv_def)
qed

section \<open>Finished tasks\<close>

text \<open>Rules that are looked up for the first time, and dummy requests.\<close>

definition add_fresh :: "KeyID list \<Rightarrow> (KeyID \<Rightarrow> (StateKind \<times> InProgressInfo) option) \<Rightarrow> KeyID \<Rightarrow> (StateKind \<times> InProgressInfo) option" where
  "add_fresh ks R = fold (\<lambda>r m. if m r = None then m(r \<mapsto> (Incomplete, NoInfo)) else m) ks R"

lemma skel_inv_fresh: "skel_inv H E k K \<Longrightarrow> skel_inv H E k (K\<lparr>k_rules := add_fresh ks (k_rules K)\<rparr>)"
proof (induction ks arbitrary: K)
  case Nil
  then show ?case by (simp add: add_fresh_def)
next
  case (Cons r ks)
  have "skel_inv H E k (K\<lparr>k_rules := if k_rules K r = None then (k_rules K)(r \<mapsto> (Incomplete, NoInfo)) else k_rules K\<rparr>)"
    using Cons.prems skel_inv_rule [of H E k K r "(Incomplete, NoInfo)"] by (simp add: in_progress_def)
  from Cons.IH [OF this] show ?case by (simp add: add_fresh_def)
qed

lemma skel_inv_dummies:
  "\<forall>q \<in> set ds. tir_taskInfo q = None \<Longrightarrow> skel_inv H E k K \<Longrightarrow> skel_inv H E k (K\<lparr>k_input := k_input K @ ds\<rparr>)"
proof -
  assume ds: "\<forall>q \<in> set ds. tir_taskInfo q = None" and inv: "skel_inv H E k K"
  have "reqs t ds = 0" for t using ds by (induction ds) auto
  then show ?thesis using skel_inv_rearrange [OF inv, of H "k_input K @ ds" "k_fin K"] by simp
qed

lemma skel_unchanged:
  "(skel_of s)\<lparr>k_rules := \<lambda>r. map_option (\<lambda>ri. (ri_state ri, ri_inProgressInfo ri)) (ruleInfos s r)\<rparr> = skel_of s"
  "(skel_of s)\<lparr>k_input := inputRequests s\<rparr> = skel_of s"
  by (simp_all add: skel_of_def)

lemma addRule_skel:
  "ruleInfos s i = None \<Longrightarrow> skel_of (addRule W i rule s) =
     (skel_of s)\<lparr>k_rules := (k_rules (skel_of s))(i \<mapsto> (Incomplete, NoInfo))\<rparr>"
  using addRule_rules(1) [of _ i W rule s] addRule_rules(3) [of s i W rule]
  by (auto simp: skel_of_def addRule_frame fun_eq_iff)

lemma getRuleInfoForKeyID_skel:
  "getRuleInfoForKeyID W i s = Some s' \<Longrightarrow> skel_of s' = (skel_of s)\<lparr>k_rules := add_fresh [i] (k_rules (skel_of s))\<rparr>"
  by (cases "ruleInfos s i") (auto simp: getRuleInfoForKeyID_def add_fresh_def addRule_skel skel_unchanged)

lemma request_discovered_skel:
  assumes "request_discovered W ds s = Some s'"
  shows "\<exists>qs. (\<forall>q \<in> set qs. tir_taskInfo q = None) \<and>
    skel_of s' = (skel_of s)\<lparr>k_rules := add_fresh (map kf_keyID ds) (k_rules (skel_of s)), k_input := k_input (skel_of s) @ qs\<rparr>"
  using assms
proof (induction ds arbitrary: s)
  case Nil
  then show ?case by (intro exI [of _ "[]"]) (simp add: add_fresh_def skel_unchanged)
next
  case (Cons d ds)
  let ?q = "\<lparr>tir_taskInfo = None, tir_inputID = 0, tir_inputRuleInfo = kf_keyID d,
                 tir_orderOnly = kf_orderOnly d, tir_forcePriorValue = False, tir_singleUse = kf_singleUse d\<rparr>"
  from Cons.prems obtain s1 where s1: "getRuleInfoForKeyID W (kf_keyID d) s = Some s1"
    and rest: "request_discovered W ds (s1\<lparr>inputRequests := inputRequests s1 @ [?q]\<rparr>) = Some s'"
    by auto
  define s2 where "s2 = s1\<lparr>inputRequests := inputRequests s1 @ [?q]\<rparr>"
  have sk1: "skel_of s1 = (skel_of s)\<lparr>k_rules := add_fresh [kf_keyID d] (k_rules (skel_of s))\<rparr>"
    using s1 by (rule getRuleInfoForKeyID_skel)
  have "inputRequests s1 = k_input (skel_of s)" using arg_cong [OF sk1, of k_input] by simp
  then have sk2: "skel_of s2 = (skel_of s)\<lparr>k_rules := add_fresh [kf_keyID d] (k_rules (skel_of s)),
      k_input := k_input (skel_of s) @ [?q]\<rparr>"
    unfolding s2_def by (simp add: sk1 del: skel_of_simps)
  obtain qs where qs: "\<forall>q \<in> set qs. tir_taskInfo q = None"
    and sk: "skel_of s' = (skel_of s2)\<lparr>k_rules := add_fresh (map kf_keyID ds) (k_rules (skel_of s2)),
       k_input := k_input (skel_of s2) @ qs\<rparr>"
    using Cons.IH [OF rest] unfolding s2_def by blast
  then show ?case
    by (intro exI [of _ "?q # qs"]) (simp add: sk2 add_fresh_def del: skel_of_simps)
qed

lemma store_result_skel:
  "store_result W ri s = (b, s') \<Longrightarrow> skel_of s' = skel_of s"
  by (auto simp: store_result_def split: option.splits prod.splits)

lemma complete_rule_skel:
  assumes "ruleInfos s r = Some ri"
  shows "skel_of (complete_rule r ti s) = (skel_of s)\<lparr>k_rules := (k_rules (skel_of s))(r \<mapsto> (Complete, NoInfo))\<rparr>"
  using assms by (auto simp: complete_rule_def Let_def upd_rule_def emit_def setComplete_def skel_of_def fun_eq_iff)

lemma release_task_skel:
  assumes "release_task t s = Some s'"
  shows "\<exists>r by w. k_tasks (skel_of s) t = Some (r, by, w) \<and>
    skel_of s' = (skel_of s)\<lparr>k_tasks := (k_tasks (skel_of s))(t := None), k_fin := k_fin (skel_of s) @ by,
      k_num := k_num (skel_of s) - 1\<rparr>"
  using assms by (auto simp: release_task_def decrement_outstanding_def skel_of_def fun_eq_iff split: if_splits)

lemma finished_task_item_cases:
  assumes "finished_task_item W s = Some (b, s')" "finishedTaskInfos s = ds @ [t]"
  obtains ti ri s1 ri1 s2 where "taskInfos s t = Some ti" "ruleInfos s (ti_forRuleInfo ti) = Some ri"
    "ri_state ri = InProgressComputing" "ri_inProgressInfo ri = PendingTaskInfo t"
    "request_discovered W (deps_list (ti_discoveredDependencies ti))
       (complete_rule (ti_forRuleInfo ti) ti (s\<lparr>finishedTaskInfos := ds\<rparr>)) = Some s1"
    "ruleInfos s1 (ti_forRuleInfo ti) = Some ri1" "store_result W ri1 s1 = (b, s2)"
    "b \<Longrightarrow> release_task t s2 = Some s'" "\<not> b \<Longrightarrow> decrement_outstanding s2 = Some s'"
proof -
  from assms obtain ti ri s1 ri1 where a: "taskInfos s t = Some ti" "ruleInfos s (ti_forRuleInfo ti) = Some ri"
    "getPendingTaskInfo ri = Some t" "isInProgressComputing ri"
    "request_discovered W (deps_list (ti_discoveredDependencies ti))
       (complete_rule (ti_forRuleInfo ti) ti (s\<lparr>finishedTaskInfos := ds\<rparr>)) = Some s1"
    "ruleInfos s1 (ti_forRuleInfo ti) = Some ri1"
    by (auto simp: finished_task_item_def process_finished_task_def split: if_splits)
  obtain c s2 where st: "store_result W ri1 s1 = (c, s2)" by (cases "store_result W ri1 s1")
  have "c = b" "b \<Longrightarrow> release_task t s2 = Some s'" "\<not> b \<Longrightarrow> decrement_outstanding s2 = Some s'"
    using assms a st by (auto simp: finished_task_item_def process_finished_task_def split: bool.splits)
  moreover have "ri_state ri = InProgressComputing" "ri_inProgressInfo ri = PendingTaskInfo t"
    using a(3,4) by (auto simp: getPendingTaskInfo_def isInProgressComputing_def split: if_splits InProgressInfo.splits)
  ultimately show thesis using a st by (intro that) simp_all
qed

lemma finished_task_item_inv:
  assumes item: "finished_task_item W s = Some (True, s')" and inv: "engine_inv H {} 0 s"
    and ne: "finishedTaskInfos s \<noteq> []"
  shows "engine_inv H {} 0 s'"
proof -
  obtain ds t where d: "finishedTaskInfos s = ds @ [t]" using ne by (cases "finishedTaskInfos s" rule: rev_cases) auto
  from item d obtain ti ri s1 ri1 s2 where ti: "taskInfos s t = Some ti"
    and ri: "ruleInfos s (ti_forRuleInfo ti) = Some ri"
    and s1: "request_discovered W (deps_list (ti_discoveredDependencies ti))
       (complete_rule (ti_forRuleInfo ti) ti (s\<lparr>finishedTaskInfos := ds\<rparr>)) = Some s1"
    and s2: "store_result W ri1 s1 = (True, s2)" and s': "release_task t s2 = Some s'"
    by (rule finished_task_item_cases) auto
  let ?r = "ti_forRuleInfo ti" let ?by = "ti_requestedBy ti" let ?K = "skel_of s"
  define ks where "ks = map kf_keyID (deps_list (ti_discoveredDependencies ti))"
  let ?L = "?K\<lparr>k_rules := (k_rules ?K)(?r \<mapsto> (Complete, NoInfo)), k_tasks := (k_tasks ?K)(t := None),
     k_fin := k_fin ?K @ ?by, k_num := k_num ?K - 1, k_done := ds\<rparr>"
  have K0: "skel_inv H {} 0 ?L"
    by (rule skel_inv_release) (use inv d ti in \<open>simp_all add: engine_inv_def\<close>)
  have "skel_of (complete_rule ?r ti (s\<lparr>finishedTaskInfos := ds\<rparr>)) =
      ?K\<lparr>k_rules := (k_rules ?K)(?r \<mapsto> (Complete, NoInfo)), k_done := ds\<rparr>"
    using complete_rule_skel [of "s\<lparr>finishedTaskInfos := ds\<rparr>" ?r ri ti] ri by (simp del: skel_of_simps)
  with request_discovered_skel [OF s1] store_result_skel [OF s2] obtain qs where
    qs: "\<forall>q \<in> set qs. tir_taskInfo q = None" and sk2: "skel_of s2 =
      ?K\<lparr>k_rules := add_fresh ks ((k_rules ?K)(?r \<mapsto> (Complete, NoInfo))), k_done := ds, k_input := k_input ?K @ qs\<rparr>"
    unfolding ks_def by (auto simp del: skel_of_simps)
  from release_task_skel [OF s'] obtain r "by" w where
    "k_tasks (skel_of s2) t = Some (r, by, w)" and sk': "skel_of s' = (skel_of s2)\<lparr>k_tasks := (k_tasks (skel_of s2))(t := None),
       k_fin := k_fin (skel_of s2) @ by, k_num := k_num (skel_of s2) - 1\<rparr>" by blast
  then have "by = ?by" using ti unfolding sk2 by simp
  then have "skel_of s' = (?L\<lparr>k_rules := add_fresh ks (k_rules ?L)\<rparr>)\<lparr>k_input := k_input (?L\<lparr>k_rules := add_fresh ks (k_rules ?L)\<rparr>) @ qs\<rparr>"
    unfolding sk' sk2 by (simp del: skel_of_simps)
  then show ?thesis
    unfolding engine_inv_def using skel_inv_dummies [OF qs skel_inv_fresh [OF K0]] by (simp del: skel_of_simps)
qed

section \<open>Breaking cycles\<close>

lemma force_build_inv:
  "force_build r key s = Some s' \<Longrightarrow> engine_inv H E k s \<Longrightarrow> engine_inv H E k s'"
proof -
  assume f: "force_build r key s = Some s'" and inv: "engine_inv H E k s"
  define s1 where "s1 = (case findRuleScanRequestForRule (ruleInfosToScan s) r of
                      None \<Rightarrow> s | Some i \<Rightarrow> s\<lparr>ruleInfosToScan := erase_at i (ruleInfosToScan s)\<rparr>)"
  from f obtain s2 where s2: "finishScanRequest r NeedsToRun s1 = Some s2"
    and s': "s' = upd_rule r (\<lambda>ri. ri\<lparr>ri_wasForced := True\<rparr>) (emit (EvNeedsToRun key Forced None) s2)"
    unfolding s1_def by (auto simp: force_build_def Let_def)
  have "engine_inv H E k s1" using inv by (simp add: s1_def engine_inv_def split: option.splits)
  then have "engine_inv H E k s2" using finishScanRequest_inv [OF s2] by simp
  then show ?thesis unfolding s' by (simp add: engine_inv_def)
qed

lemma reqs_erase_at:
  "i < length xs \<Longrightarrow> reqs t (erase_at i xs) + reqs t [xs ! i] = reqs t xs"
  using arg_cong [OF erase_at_conv [of i xs], of "reqs t"] by (simp add: erase_at_def)

lemma supply_prior_value_inv:
  assumes inv: "engine_inv H E k s" and ti: "taskInfos s t = Some ti" and i: "i < length (ti_requestedBy ti)"
  shows "engine_inv H E k (supply_prior_value t ti i s)"
proof -
  let ?K = "skel_of s" let ?r = "ti_forRuleInfo ti" let ?w = "ti_waitCount ti" let ?by = "ti_requestedBy ti"
  let ?q = "(?by ! i)\<lparr>tir_forcePriorValue := True\<rparr>"
  have K: "skel_inv H E k ?K" using inv by (simp add: engine_inv_def)
  have kt: "k_tasks ?K t = Some (?r, ?by, ?w)" using ti by simp
  have "skel_inv H E k (?K\<lparr>k_tasks := (k_tasks ?K)(t \<mapsto> (?r, erase_at i ?by, ?w)),
      k_input := k_input ?K, k_fin := k_fin ?K @ [?q], k_ready := k_ready ?K\<rparr>)"
  proof (rule skel_inv_task_upd [OF K kt])
    show "k_rules ?K ?r = Some (InProgressComputing, PendingTaskInfo t) \<Longrightarrow> ?w = 0"
      using K kt by (rule skel_inv_task) (auto simp del: skel_of_simps)
    show "ready_inv E (?K\<lparr>k_tasks := (k_tasks ?K)(t \<mapsto> (?r, erase_at i ?by, ?w)), k_ready := k_ready ?K\<rparr>)"
      using K kt unfolding skel_inv_def ready_inv_def by (auto simp del: skel_of_simps)
    show "reqs u H + reqs u (k_input ?K) + reqs u (k_fin ?K @ [?q]) + reqs u (erase_at i ?by) + (if u = t then ?w else 0) =
        reqs u H + reqs u (k_input ?K) + reqs u (k_fin ?K) + reqs u ?by + (if u = t then ?w else 0)" for u
      using reqs_erase_at [OF i, of u] by simp
  qed
  then show ?thesis
    unfolding engine_inv_def supply_prior_value_def using ti
    by (subst skel_of_upd_task) (auto simp: skel_of_def)
qed

lemma find_index_bound: "find_index P xs = Some i \<Longrightarrow> i < length xs \<and> P (xs ! i)"
  by (induction xs arbitrary: i) (auto split: if_splits)

lemma getRuleInfoForKey_tasks: "taskInfos (snd (getRuleInfoForKey W key s)) = taskInfos s"
  by (simp add: getRuleInfoForKey_snd Let_def addRule_frame getKeyID_def)

lemma break_walk_invariant:
  assumes "break_walk W cyc rs s = Some (b, s')" "I s"
    and looked_up: "\<And>s key. I s \<Longrightarrow> I (snd (getRuleInfoForKey W key s))"
    and forced: "\<And>s r key s'. I s \<Longrightarrow> force_build r key s = Some s' \<Longrightarrow> I s'"
    and supplied: "\<And>s t ti i. I s \<Longrightarrow> taskInfos s t = Some ti \<Longrightarrow> i < length (ti_requestedBy ti) \<Longrightarrow>
      I (supply_prior_value t ti i s)"
  shows "I s'"
  using assms(1,2)
proof (induction rs arbitrary: s)
  case (Cons r rest)
  let ?g = "getRuleInfoForKey W (rule_name s r) s"
  have inv1: "I (snd ?g)" using Cons.prems(2) by (rule looked_up)
  from Cons.prems(1) obtain ri where ri: "ruleInfos (snd ?g) (fst ?g) = Some ri"
    by (auto simp: split_def)
  consider (scanning) "isScanning ri" | (waiting) "\<not> isScanning ri" "isInProgressWaiting ri \<and> res_builtAt (ri_result ri) \<noteq> 0"
    | (other) "\<not> isScanning ri" "\<not> (isInProgressWaiting ri \<and> res_builtAt (ri_result ri) \<noteq> 0)" by blast
  then show ?case
  proof cases
    case scanning
    then show ?thesis using Cons.prems(1) ri inv1
      by (auto simp: split_def forced split: if_splits)
  next
    case waiting
    with Cons.prems(1) ri obtain t ti nxt rest' where t: "getPendingTaskInfo ri = Some t" "taskInfos (snd ?g) t = Some ti"
      and rest: "rest = nxt # rest'"
      by (cases rest) (auto simp: split_def)
    let ?h = "getRuleInfoForKey W (rule_name (snd ?g) nxt) (snd ?g)"
    have inv2: "I (snd ?h)" using inv1 by (rule looked_up)
    show ?thesis
    proof (cases "findTaskInputRequestForRule (snd ?h) (ti_requestedBy ti) (fst ?h)")
      case None
      then show ?thesis using Cons.prems(1) ri waiting t rest inv2 Cons.IH [of "snd ?h"] by (simp add: split_def)
    next
      case (Some i)
      then have "i < length (ti_requestedBy ti)" by (simp add: findTaskInputRequestForRule_def find_index_bound)
      with Some show ?thesis using Cons.prems(1) ri waiting t rest inv2
        by (auto simp: split_def getRuleInfoForKey_tasks supplied split: if_splits)
    qed
  next
    case other
    then have "break_walk W cyc rest (snd ?g) = Some (b, s')"
      using Cons.prems(1) ri by (auto simp: split_def split: if_splits)
    then show ?thesis using inv1 Cons.IH [of "snd ?g"] by blast
  qed
qed simp

lemma break_walk_inv:
  assumes "break_walk W cyc rs s = Some (b, s')" "engine_inv H E k s"
  shows "engine_inv H E k s'"
  using assms by (rule break_walk_invariant) (fact getRuleInfoForKey_inv force_build_inv supply_prior_value_inv
      | erule (1) force_build_inv [rotated])+

lemma resolveCycle_inv:
  assumes "resolveCycle W key s = Some (b, s')" "engine_inv H E k s"
  shows "engine_inv H E k s'"
proof -
  from assms(1) obtain c s1 b1 s2 where "findCycle W key s = Some (c, s1)" and b: "breakCycle W c s1 = Some (b1, s2)"
    and s': "s' = s2 \<or> (\<exists>e. s' = emit e s2)"
    by (auto simp: resolveCycle_def split: if_splits)
  then have "s1 = snd (getRuleInfoForKey W key s)" by (auto simp: findCycle_def split_def Let_def)
  then have "engine_inv H E k s1" using assms(2) getRuleInfoForKey_inv by blast
  then have "engine_inv H E k s2" using b break_walk_inv unfolding breakCycle_def by blast
  then show ?thesis using s' by auto
qed

end
