(* ===== verification/Engine_Safety.thy ===== *)
theory Engine_Safety
  imports Engine_Inv
begin

text \<open>
  The invariant of the engine's loop.  A configuration of \<^verbatim>\<open>executeTasks\<close>
  satisfies \<open>config_inv\<close> at every point the loop can reach, whatever the other threads
  do between its steps, provided that a task completes at most once and that the database accepts
  the results; the properties of the loop follow from it.
\<close>


section \<open>Cancellation\<close>

lemma cancel_tasks_skel:
  assumes "cancel_tasks ts s = Some s'"
  shows "skel_of s' = (skel_of s)\<lparr>k_rules := (\<lambda>r.
     if \<exists>t \<in> set ts. \<exists>by w. k_tasks (skel_of s) t = Some (r, by, w) then Some (Incomplete, NoInfo)
     else k_rules (skel_of s) r)\<rparr>"
  using assms
proof (induction ts arbitrary: s)
  case Nil
  then show ?case by (simp add: skel_unchanged)
next
  case (Cons t ts)
  show ?case
  proof (cases "taskInfos s t")
    case None
    then show ?thesis using Cons by simp
  next
    case (Some ti)
    let ?f = "\<lambda>ri. setCancelled (ri\<lparr>ri_inProgressInfo := NoInfo\<rparr>)"
    let ?s1 = "upd_rule (ti_forRuleInfo ti) ?f s"
    from Cons.prems Some obtain ri where ri: "ruleInfos s (ti_forRuleInfo ti) = Some ri"
      and rest: "cancel_tasks ts ?s1 = Some s'" by (auto split: if_splits)
    have sk1: "skel_of ?s1 = (skel_of s)\<lparr>k_rules := (k_rules (skel_of s))(ti_forRuleInfo ti \<mapsto> (Incomplete, NoInfo))\<rparr>"
      using skel_of_upd_rule [OF ri, of ?f] by (simp add: setCancelled_def)
    have kt: "k_tasks (skel_of s) t = Some (ti_forRuleInfo ti, ti_requestedBy ti, ti_waitCount ti)" using Some by simp
    show ?thesis
      unfolding Cons.IH [OF rest] sk1
      by (simp add: kt del: skel_of_simps)
        (rule arg_cong [where f = "\<lambda>R. (skel_of s)\<lparr>k_rules := R\<rparr>"], auto simp del: skel_of_simps)
  qed
qed

definition quiescent :: "('ts, 'db) engine \<Rightarrow> bool" where
  "quiescent s = (taskInfos s = Map.empty \<and> ruleInfosToScan s = [] \<and> inputRequests s = [] \<and>
     finishedInputRequests s = [] \<and> readyTaskInfos s = [] \<and> finishedTaskInfos s = [] \<and>
     numOutstandingUnfinishedTasks s = 0)"

definition all_idle :: "('ts, 'db) engine \<Rightarrow> bool" where
  "all_idle s = (\<forall>r ri. ruleInfos s r = Some ri \<longrightarrow> idle (ri_state ri))"

lemma msum_zero: "(\<And>x v. m x = Some v \<Longrightarrow> f v = 0) \<Longrightarrow> msum f m = 0"
  by (auto simp: msum_def intro!: sum.neutral)

lemma quiescent_inv:
  assumes "quiescent s" "all_idle s" "finite (dom (ruleInfos s))"
  shows "engine_inv [] {} 0 s"
proof -
  have "computing (skel_of s) = {}" using assms(1) by (simp add: computing_def quiescent_def)
  moreover have "msum (paused t) (k_rules (skel_of s)) = 0" for t
    using assms(2) by (intro msum_zero) (auto simp: all_idle_def idle_def)
  moreover have "msum (awaited t) (k_tasks (skel_of s)) = 0" for t
    using assms(1) by (intro msum_zero) (auto simp: quiescent_def)
  moreover have "finite (dom (k_rules (skel_of s)))" using assms(3) by (simp add: dom_def)
  moreover have "finite (dom (k_tasks (skel_of s)))" using assms(1) by (simp add: dom_def quiescent_def)
  ultimately show ?thesis
    using assms(1,2)
    by (auto simp: engine_inv_def skel_inv_defs quiescent_def all_idle_def idle_def in_progress_def
        outstanding_def waits_def)
qed

lemma cancel_finish_idle:
  assumes fin: "cancel_finish s = Some s'" and inv: "engine_inv H E k s"
    and num: "numOutstandingUnfinishedTasks s = 0"
  shows "quiescent s' \<and> all_idle s'"
proof -
  from fin obtain s1 where s1: "cancel_tasks [0..<nextTask s] s = Some s1" and s': "s' = clear_queues (cancel_scans s1)"
    by (auto simp: cancel_finish_def)
  note sk = cancel_tasks_skel [OF s1]
  have "numOutstandingUnfinishedTasks s1 = 0" using arg_cong [OF sk, of k_num] num by simp
  then have "quiescent s'" by (simp add: s' quiescent_def clear_queues_def cancel_scans_def)
  moreover have "idle (ri_state ri)" if ri: "ruleInfos s' r = Some ri" for r ri
  proof -
    from ri obtain ri1 where ri1: "ruleInfos s1 r = Some ri1"
      and st: "ri_state ri = (if isScanning ri1 then Incomplete else ri_state ri1)"
      by (auto simp: s' clear_queues_def cancel_scans_def setCancelled_def)
    have "\<not> in_progress (ri_state ri1)"
    proof
      assume ip: "in_progress (ri_state ri1)"
      have k1: "k_rules (skel_of s1) r = Some (ri_state ri1, ri_inProgressInfo ri1)" using ri1 by simp
      then have k0: "k_rules (skel_of s) r = Some (ri_state ri1, ri_inProgressInfo ri1)"
        and none: "\<not> (\<exists>t \<in> set [0..<nextTask s]. \<exists>by w. k_tasks (skel_of s) t = Some (r, by, w))"
        using ip unfolding sk by (auto simp: in_progress_def simp del: skel_of_simps split: if_splits)
      obtain t "by" w where "k_tasks (skel_of s) t = Some (r, by, w)"
        using inv k0 ip unfolding engine_inv_def by (rule skel_inv_in_progress)
      moreover from this have "t < nextTask s"
        using inv skel_inv_task unfolding engine_inv_def by (metis skel_of_simps(3))
      ultimately show False using none by auto
    qed
    then show ?thesis using st by (auto simp: idle_def isScanning_def in_progress_def)
  qed
  ultimately show ?thesis by (auto simp: all_idle_def)
qed

lemma cancel_tasks_dom: "cancel_tasks ts s = Some s1 \<Longrightarrow> dom (ruleInfos s1) = dom (ruleInfos s)"
proof (induction ts arbitrary: s)
  case (Cons t ts)
  show ?case
  proof (cases "taskInfos s t")
    case None
    then show ?thesis using Cons by simp
  next
    case (Some ti)
    let ?s1 = "upd_rule (ti_forRuleInfo ti) (\<lambda>ri. setCancelled (ri\<lparr>ri_inProgressInfo := NoInfo\<rparr>)) s"
    from Cons.prems Some have "cancel_tasks ts ?s1 = Some s1" by (auto split: if_splits)
    moreover have "dom (ruleInfos ?s1) = dom (ruleInfos s)" by (auto simp: upd_rule_def dom_def)
    ultimately show ?thesis using Cons.IH by blast
  qed
qed simp

lemma cancel_finish_finite:
  assumes "cancel_finish s = Some s'" "finite (dom (ruleInfos s))"
  shows "finite (dom (ruleInfos s'))"
proof -
  from assms(1) obtain s1 where s1: "cancel_tasks [0..<nextTask s] s = Some s1" "s' = clear_queues (cancel_scans s1)"
    by (auto simp: cancel_finish_def)
  have "dom (ruleInfos s') = dom (ruleInfos s1)"
    unfolding s1(2) by (auto simp: clear_queues_def cancel_scans_def dom_def)
  then show ?thesis using assms(2) cancel_tasks_dom [OF s1(1)] by simp
qed

lemma drain_finished_inv:
  assumes "drain_finished s = Some s'" "engine_inv H E k s"
  shows "engine_inv H E (k + length (finishedTaskInfos s)) s'"
  using assms by (auto simp: drain_finished_def engine_inv_def skel_inv_def done_inv_def split: if_splits)

section \<open>The loop\<close>

text \<open>The database contract the loop relies on: a result can be written.\<close>

definition db_writes_ok :: "('ts, 'db) client \<Rightarrow> bool" where
  "db_writes_ok W = (\<forall>d table i rule result. snd (db_setRuleResult W d table i rule result) = None)"

lemma finished_task_item_ok:
  assumes "finished_task_item W s = Some (b, s')" "db_writes_ok W" "finishedTaskInfos s \<noteq> []"
  shows b
proof -
  obtain ds t where d: "finishedTaskInfos s = ds @ [t]" using assms(3) by (cases "finishedTaskInfos s" rule: rev_cases) auto
  from assms(1) d show ?thesis
  proof (rule finished_task_item_cases)
    fix ri1 s1 s2 assume "store_result W ri1 s1 = (b, s2)"
    moreover have "\<exists>d'. db_setRuleResult W d kt i r v = (d', None)" for d kt i r v
      using assms(2) unfolding db_writes_ok_def by (metis prod.collapse)
    ultimately show b by (auto simp: store_result_def split: option.splits prod.splits) (metis option.distinct(1) prod.inject)+
  qed
qed

text \<open>
  What is drained when nothing was done so far in this round of the loop.  Other threads add to
  \<^verbatim>\<open>finishedTaskInfos\<close> only.
\<close>

fun drained :: "phase \<Rightarrow> ('ts, 'db) engine \<Rightarrow> bool" where
  "drained PhInput s = (ruleInfosToScan s = [])"
| "drained PhFinishedInput s = (ruleInfosToScan s = [] \<and> inputRequests s = [])"
| "drained PhReady s = (ruleInfosToScan s = [] \<and> inputRequests s = [] \<and> finishedInputRequests s = [])"
| "drained PhFinishedTask s = (ruleInfosToScan s = [] \<and> inputRequests s = [] \<and> finishedInputRequests s = [] \<and>
     readyTaskInfos s = [])"
| "drained PhWait s = (ruleInfosToScan s = [] \<and> inputRequests s = [] \<and> finishedInputRequests s = [] \<and>
     readyTaskInfos s = [])"
| "drained PhNoWork s = (ruleInfosToScan s = [] \<and> inputRequests s = [] \<and> finishedInputRequests s = [] \<and>
     readyTaskInfos s = [] \<and> numOutstandingUnfinishedTasks s = 0)"
| "drained ph s = True"

definition config_inv :: "('ts, 'db) config \<Rightarrow> bool" where
  "config_inv c = (case c of (ph, didWork, s) \<Rightarrow>
     (case ph of PhCancel \<Rightarrow> \<exists>k. engine_inv [] {} k s
      | PhReturn b \<Rightarrow> engine_inv [] {} 0 s \<and> quiescent s \<and> (\<not> b \<longrightarrow> all_idle s)
      | _ \<Rightarrow> engine_inv [] {} 0 s \<and> (\<not> didWork \<or> ph = PhNoWork \<longrightarrow> drained ph s)))"

lemma scan_item_inv:
  "scan_item W s = Some s' \<Longrightarrow> engine_inv [] {} k s \<Longrightarrow> engine_inv [] {} k s'"
  by (auto simp: scan_item_def engine_inv_def intro: processRuleScanRequest_inv [unfolded engine_inv_def])

lemma input_item_inv:
  assumes "input_item W s = Some s'" "engine_inv [] {} k s" "inputRequests s \<noteq> []"
  shows "engine_inv [] {} k s'"
proof -
  obtain q xs where q: "inputRequests s = q # xs" using assms(3) by (cases "inputRequests s") auto
  with assms(1) have "process_input_request W q (s\<lparr>inputRequests := xs\<rparr>) = Some s'" by (simp add: input_item_def)
  then show ?thesis using engine_inv_hand(1) [OF assms(2) q] by (rule process_input_request_inv)
qed

lemma finished_input_item_inv:
  assumes "finished_input_item W s = Some s'" "engine_inv [] {} k s" "finishedInputRequests s \<noteq> []"
  shows "engine_inv [] {} k s'"
proof -
  obtain q ys where q: "finishedInputRequests s = ys @ [q]" using assms(3) by (cases "finishedInputRequests s" rule: rev_cases) auto
  with assms(1) have "process_finished_input W q (s\<lparr>finishedInputRequests := ys\<rparr>) = Some s'"
    by (simp add: finished_input_item_def)
  then show ?thesis using engine_inv_hand(2) [OF assms(2) q] by (rule process_finished_input_inv)
qed

lemma engine_inv_finite: "engine_inv H E k s \<Longrightarrow> finite (dom (ruleInfos s))"
  by (simp add: engine_inv_def skel_inv_def dom_def)

lemma idle_engine_quiescent:
  assumes "engine_inv [] {} 0 s" "drained PhNoWork s" "\<forall>t \<in> set [0..<nextTask s]. taskInfos s t = None"
  shows "quiescent s"
proof -
  have none: "taskInfos s t = None" for t
  proof (cases "taskInfos s t")
    case (Some ti)
    then have "k_tasks (skel_of s) t = Some (ti_forRuleInfo ti, ti_requestedBy ti, ti_waitCount ti)" by simp
    then have "t < nextTask s" using assms(1) skel_inv_task unfolding engine_inv_def by (metis skel_of_simps(3))
    then show ?thesis using assms(3) by simp
  qed
  then have "computing (skel_of s) = {}" by (simp add: computing_def)
  then have "finishedTaskInfos s = []" using assms(1) by (simp add: engine_inv_def skel_inv_def done_inv_def)
  then show ?thesis using assms(2) none by (auto simp: quiescent_def)
qed

lemma loop_step_inv:
  assumes step: "executeTasks_step W key (ph, d, s) = Some c'" and inv: "config_inv (ph, d, s)"
    and W: "completes_once W" "db_writes_ok W"
  shows "config_inv c'"
proof (cases ph)
  case PhTop
  then show ?thesis using step inv by (auto simp: config_inv_def)
next
  case PhScan
  then show ?thesis using step inv
    by (auto simp: config_inv_def after_item_def split: if_splits intro: scan_item_inv)
next
  case PhInput
  then show ?thesis using step inv
    by (auto simp: config_inv_def after_item_def split: if_splits intro: input_item_inv)
next
  case PhFinishedInput
  then show ?thesis using step inv
    by (auto simp: config_inv_def after_item_def split: if_splits intro: finished_input_item_inv)
next
  case PhReady
  then show ?thesis using step inv W(1)
    by (auto simp: config_inv_def after_item_def split: if_splits intro: ready_item_inv)
next
  case PhFinishedTask
  then show ?thesis using step inv finished_task_item_ok [OF _ W(2)]
    by (auto simp: config_inv_def split: if_splits intro: finished_task_item_inv)
next
  case PhWait
  then show ?thesis using step inv by (auto simp: config_inv_def split: if_splits)
next
  case PhNoWork
  then have inv0: "engine_inv [] {} 0 s" "drained PhNoWork s" using inv by (simp_all add: config_inv_def)
  show ?thesis
  proof (cases "\<exists>t \<in> set [0..<nextTask s]. taskInfos s t \<noteq> None")
    case True
    then obtain b s1 where "resolveCycle W key s = Some (b, s1)" "c' = (if b then PhTop else PhCancel, False, s1)"
      using step PhNoWork by (auto simp del: set_upt)
    then show ?thesis using resolveCycle_inv inv0(1) by (fastforce simp: config_inv_def)
  next
    case False
    then have "c' = (PhReturn True, False, s)" using step PhNoWork by (simp del: set_upt)
    then show ?thesis using False inv0 idle_engine_quiescent [OF inv0] by (simp add: config_inv_def del: set_upt)
  qed
next
  case PhCancel
  then obtain k where k: "engine_inv [] {} k s" using inv by (auto simp: config_inv_def)
  show ?thesis
  proof (cases "numOutstandingUnfinishedTasks s = 0")
    case False
    then obtain s1 where "drain_finished s = Some s1" "c' = (PhCancel, d, s1)" using step PhCancel by auto
    then show ?thesis using drain_finished_inv [OF _ k] by (auto simp: config_inv_def)
  next
    case True
    then obtain s1 where s1: "cancel_finish s = Some s1" "c' = (PhReturn False, d, s1)" using step PhCancel by auto
    have "quiescent s1 \<and> all_idle s1" using s1(1) k True by (rule cancel_finish_idle)
    moreover have "finite (dom (ruleInfos s1))" using s1(1) engine_inv_finite [OF k] by (rule cancel_finish_finite)
    ultimately show ?thesis using s1(2) quiescent_inv by (auto simp: config_inv_def)
  qed
next
  case (PhReturn b)
  then show ?thesis using step inv by simp
qed

text \<open>The steps of the other threads.\<close>

lemma config_inv_frame:
  assumes "config_inv (ph, d, s)" "\<And>H E k. engine_inv H E k s \<Longrightarrow> engine_inv H E k s'"
    and "ruleInfosToScan s' = ruleInfosToScan s" "inputRequests s' = inputRequests s"
      "finishedInputRequests s' = finishedInputRequests s" "readyTaskInfos s' = readyTaskInfos s"
      "numOutstandingUnfinishedTasks s' = numOutstandingUnfinishedTasks s"
    and "\<And>b. ph = PhReturn b \<Longrightarrow> quiescent s \<Longrightarrow> quiescent s' \<and> (all_idle s \<longrightarrow> all_idle s')"
  shows "config_inv (ph, d, s')"
  using assms by (cases ph) (auto simp: config_inv_def)

lemma complete_step_inv:
  assumes "taskIsComplete t v f s = Some s'" "t \<notin> set (finishedTaskInfos s)" "config_inv (ph, d, s)"
  shows "config_inv (ph, d, s')"
proof (rule config_inv_frame [OF assms(3)])
  show "engine_inv H E k s \<Longrightarrow> engine_inv H E k s'" for H E k
    using taskIsComplete_inv [OF assms(1)] assms(2) by blast
  show "quiescent s' \<and> (all_idle s \<longrightarrow> all_idle s')" if "quiescent s"
    using assms(1) that by (simp add: taskIsComplete_def quiescent_def)
  have "callback_frame t s s' \<and> inputRequests s' = inputRequests s"
    using assms(1)
  proof (cases rule: taskIsComplete_cases)
    case rejected
    then show ?thesis by (simp, simp add: reject_call_def emit_def)
  next
    case finished
    have "k_input (skel_of s') = inputRequests s" unfolding finished(6) by simp
    then show ?thesis using finished(5) by simp
  qed
  then show "ruleInfosToScan s' = ruleInfosToScan s" "inputRequests s' = inputRequests s"
      "finishedInputRequests s' = finishedInputRequests s" "readyTaskInfos s' = readyTaskInfos s"
      "numOutstandingUnfinishedTasks s' = numOutstandingUnfinishedTasks s"
    by (simp_all add: callback_frame_def)
qed

lemma discovered_step_inv:
  assumes "taskDiscoveredDependency t key s = Some s'" "config_inv (ph, d, s)"
  shows "config_inv (ph, d, s')"
proof (rule config_inv_frame [OF assms(2)])
  note fr = taskDiscoveredDependency_frame [OF assms(1)]
  show "engine_inv H E k s \<Longrightarrow> engine_inv H E k s'" for H E k using fr by (simp add: engine_inv_def)
  show "quiescent s' \<and> (all_idle s \<longrightarrow> all_idle s')" if "quiescent s"
    using assms(1) that by (simp add: taskDiscoveredDependency_def quiescent_def)
  show "inputRequests s' = inputRequests s" using arg_cong [OF fr(2), of k_input] by simp
  show "ruleInfosToScan s' = ruleInfosToScan s"
      "finishedInputRequests s' = finishedInputRequests s" "readyTaskInfos s' = readyTaskInfos s"
      "numOutstandingUnfinishedTasks s' = numOutstandingUnfinishedTasks s"
    using fr(1) by (simp_all add: callback_frame_def)
qed

lemma cancelBuild_frame:
  "skel_of (cancelBuild s) = skel_of s" "ruleInfosToScan (cancelBuild s) = ruleInfosToScan s"
  "ruleInfos (cancelBuild s) = ruleInfos s" "taskInfos (cancelBuild s) = taskInfos s"
  "inputRequests (cancelBuild s) = inputRequests s"
  "finishedInputRequests (cancelBuild s) = finishedInputRequests s" "readyTaskInfos (cancelBuild s) = readyTaskInfos s"
  "numOutstandingUnfinishedTasks (cancelBuild s) = numOutstandingUnfinishedTasks s"
  "finishedTaskInfos (cancelBuild s) = finishedTaskInfos s" "currentEpoch (cancelBuild s) = currentEpoch s"
  by (simp_all add: cancelBuild_def Let_def emit_def)

lemma engine_step_inv:
  assumes "engine_step W key c c'" "config_inv c" "completes_once W" "db_writes_ok W"
  shows "config_inv c'"
  using assms
proof cases
  case loop
  then show ?thesis using loop_step_inv assms(2-4) by (cases c) blast
next
  case complete
  then show ?thesis using complete_step_inv assms(2) by blast
next
  case discovered
  then show ?thesis using discovered_step_inv assms(2) by blast
next
  case (cancel ph d s)
  show ?thesis unfolding cancel(2)
    by (rule config_inv_frame [where s = s])
      (use assms(2) cancel(1) in \<open>simp_all add: cancelBuild_frame engine_inv_def quiescent_def all_idle_def\<close>)
next
  case (tick ph d s n)
  show ?thesis unfolding tick(2)
    by (rule config_inv_frame [where s = s])
      (use assms(2) tick(1) in \<open>simp_all add: engine_inv_def quiescent_def all_idle_def\<close>)
qed

lemma start_inv:
  assumes "quiescent s" "engine_inv [] {} 0 s"
  shows "config_inv (executeTasks_start W key s)"
proof -
  let ?s0 = "s\<lparr>finishedInputRequests := []\<rparr>"
  let ?g = "getRuleInfoForKey W key ?s0"
  have "?s0 = s" using assms(1) by (simp add: quiescent_def)
  then have "engine_inv [] {} 0 (snd ?g)" using assms(2) getRuleInfoForKey_inv by metis
  then have "engine_inv [] {} 0 ((snd ?g)\<lparr>inputRequests := inputRequests (snd ?g) @
      [\<lparr>tir_taskInfo = None, tir_inputID = 0, tir_inputRuleInfo = fst ?g,
                tir_orderOnly = False, tir_forcePriorValue = False, tir_singleUse = False\<rparr>]\<rparr>)"
    using engine_inv_rearrange [of "[]" "{}" 0 "snd ?g" "[]" "inputRequests (snd ?g) @
        [\<lparr>tir_taskInfo = None, tir_inputID = 0, tir_inputRuleInfo = fst ?g,
          tir_orderOnly = False, tir_forcePriorValue = False, tir_singleUse = False\<rparr>]" "finishedInputRequests (snd ?g)"]
    by simp
  then show ?thesis by (simp add: executeTasks_start_def split_def config_inv_def)
qed

lemma engine_reach_inv:
  assumes "engine_reach W key s0 c" "quiescent s0" "engine_inv [] {} 0 s0" "completes_once W" "db_writes_ok W"
  shows "config_inv c"
  using assms(1)
proof induction
  case start
  then show ?case using assms(2,3) by (rule start_inv)
next
  case (step c c')
  then show ?case using engine_step_inv assms(4,5) by blast
qed
end
