(* ===== verification/Engine_Progress.thy ===== *)
theory Engine_Progress
  imports Engine_Safety
begin

text \<open>
  How the rules of an engine evolve during a build.  A rule only moves forward: a rule that is
  complete in the current build never changes again, a rule in progress stays in progress until it
  is complete, a scanned rule stays scanned, and the recorded result of a rule does not change
  while the rule is scanned.  A request is never lost: until its rule is in progress or complete it
  is in the input queue or paused in the rule's scan record.
\<close>


section \<open>How a rule advances\<close>

definition advance :: "Epoch \<Rightarrow> RuleInfo \<Rightarrow> RuleInfo \<Rightarrow> bool" where
  "advance ep a b = (ri_keyID b = ri_keyID a \<and> ri_rule b = ri_rule a \<and>
     (isComplete ep a \<longrightarrow> b = a) \<and>
     (isInProgress a \<longrightarrow> isInProgress b \<or> isComplete ep b) \<and>
     (isInProgressComputing a \<longrightarrow> isInProgressComputing b \<or> isComplete ep b) \<and>
     (isScanned ep a \<longrightarrow> isScanned ep b) \<and>
     (isScanning a \<longrightarrow> isScanning b \<and> ri_result b = ri_result a \<or> isScanned ep b) \<and>
     (ri_state a = DoesNotNeedToRun \<longrightarrow>
        ri_state b = DoesNotNeedToRun \<and> ri_result b = ri_result a \<or> isComplete ep b))"

lemma advance_refl [simp]: "advance ep a a"
  by (simp add: advance_def)

lemma advance_trans: "advance ep a b \<Longrightarrow> advance ep b c \<Longrightarrow> advance ep a c"
  unfolding advance_def by (metis)

text \<open>A request is pending in the input queue or in the scan record of the rule it asks for.\<close>

definition pending :: "KeyID \<Rightarrow> ('ts, 'db) engine \<Rightarrow> TaskInputRequest \<Rightarrow> bool" where
  "pending r s q = (q \<in> set (inputRequests s) \<or>
     (\<exists>ri rec. ruleInfos s r = Some ri \<and> isScanning ri \<and> ri_inProgressInfo ri = PendingScanRecord rec \<and>
        q \<in> set (pausedInputRequests rec)))"

definition rules_advance :: "('ts, 'db) engine \<Rightarrow> ('ts, 'db) engine \<Rightarrow> bool" where
  "rules_advance s s' = (currentEpoch s' = currentEpoch s \<and>
     (\<forall>r ri. ruleInfos s r = Some ri \<longrightarrow> (\<exists>ri'. ruleInfos s' r = Some ri' \<and> advance (currentEpoch s) ri ri')))"

definition evolves :: "('ts, 'db) engine \<Rightarrow> ('ts, 'db) engine \<Rightarrow> bool" where
  "evolves s s' = (rules_advance s s' \<and> (\<forall>r q. pending r s q \<longrightarrow> pending r s' q))"

lemma rules_advance_refl [simp]: "rules_advance s s"
  by (simp add: rules_advance_def)

lemma rules_advance_trans:
  assumes "rules_advance s s'" "rules_advance s' s''"
  shows "rules_advance s s''"
proof -
  have "\<exists>ri''. ruleInfos s'' r = Some ri'' \<and> advance (currentEpoch s) ri ri''" if ri: "ruleInfos s r = Some ri" for r ri
  proof -
    obtain ri' where ri': "ruleInfos s' r = Some ri'" "advance (currentEpoch s) ri ri'"
      using assms(1) ri unfolding rules_advance_def by blast
    then obtain ri'' where "ruleInfos s'' r = Some ri''" "advance (currentEpoch s') ri' ri''"
      using assms(2) unfolding rules_advance_def by blast
    then show ?thesis using ri'(2) assms(1) advance_trans unfolding rules_advance_def by metis
  qed
  then show ?thesis using assms unfolding rules_advance_def by simp
qed

lemma evolves_refl [simp]: "evolves s s"
  by (simp add: evolves_def)

lemma evolves_trans: "evolves s s' \<Longrightarrow> evolves s' s'' \<Longrightarrow> evolves s s''"
  using rules_advance_trans unfolding evolves_def by blast

lemmas evolves_alt = evolves_def rules_advance_def

lemma evolves_rule:
  assumes "evolves s s'" "ruleInfos s r = Some ri"
  obtains ri' where "ruleInfos s' r = Some ri'" "advance (currentEpoch s) ri ri'"
  using assms unfolding evolves_alt by blast

text \<open>Rules are only added, requests are only added.\<close>

lemma evolves_extend:
  assumes "currentEpoch s' = currentEpoch s" "\<And>r ri. ruleInfos s r = Some ri \<Longrightarrow> ruleInfos s' r = Some ri"
    and "set (inputRequests s) \<subseteq> set (inputRequests s')"
  shows "evolves s s'"
proof -
  have "pending r s' q" if "pending r s q" for r q
    using that assms(2,3) unfolding pending_def by blast
  then show ?thesis using assms(1,2) unfolding evolves_alt by fastforce
qed

text \<open>One rule changes.\<close>

lemma evolves_upd:
  assumes ep: "currentEpoch s' = currentEpoch s" and rules: "ruleInfos s' = (ruleInfos s)(r \<mapsto> b)"
    and a: "ruleInfos s r = Some a" "advance (currentEpoch s) a b"
    and reqs: "set (inputRequests s) \<subseteq> set (inputRequests s')"
    and rec: "\<And>rec. isScanning a \<Longrightarrow> ri_inProgressInfo a = PendingScanRecord rec \<Longrightarrow>
       set (pausedInputRequests rec) \<subseteq> set (inputRequests s') \<or>
       (\<exists>rec'. isScanning b \<and> ri_inProgressInfo b = PendingScanRecord rec' \<and>
          set (pausedInputRequests rec) \<subseteq> set (pausedInputRequests rec'))"
  shows "evolves s s'"
proof -
  have "pending ra s' q" if "pending ra s q" for ra q
  proof (cases "ra = r")
    case True
    then show ?thesis using that a(1) rules reqs rec unfolding pending_def by fastforce
  next
    case False
    then show ?thesis using that rules reqs unfolding pending_def by auto
  qed
  then show ?thesis using ep rules a unfolding evolves_alt by auto
qed

lemma evolves_emit [simp]: "evolves s (emit e s)"
  by (rule evolves_extend) (simp_all add: emit_def)

lemmas state_defs = isComplete_def isInProgress_def isInProgressWaiting_def isInProgressComputing_def
  isScanned_def isScanning_def less_StateKind_def

section \<open>The operations\<close>

lemma addRule_evolves: "evolves s (addRule W i rule s)"
proof (rule evolves_extend)
  show "ruleInfos s r = Some ri \<Longrightarrow> ruleInfos (addRule W i rule s) r = Some ri" for r ri
    using addRule_rules(1) [of r i W rule s] addRule_rules(2) [of s i ri W rule] by (cases "r = i") auto
qed (simp_all add: addRule_frame)

lemma getRuleInfoForKey_evolves: "evolves s (snd (getRuleInfoForKey W key s))"
proof -
  have "evolves s (snd (getKeyID key s))" by (rule evolves_extend) (simp_all add: getKeyID_def Let_def)
  then show ?thesis
    by (simp add: getRuleInfoForKey_snd Let_def evolves_trans [OF _ addRule_evolves])
qed

lemma getRuleInfoForKeyID_evolves: "getRuleInfoForKeyID W i s = Some s' \<Longrightarrow> evolves s s'"
  by (auto simp: getRuleInfoForKeyID_def addRule_evolves split: if_splits)

lemma addTaskInputRequest_evolves:
  assumes "addTaskInputRequest W t key i oo su s = Some s'"
  shows "evolves s s'"
  using assms
proof (rule addTaskInputRequest_Some)
  fix q let ?s1 = "snd (getRuleInfoForKey W key s)"
  assume s': "s' = upd_task t (\<lambda>ti. ti\<lparr>ti_waitCount := ti_waitCount ti + 1\<rparr>)
       (?s1\<lparr>inputRequests := inputRequests ?s1 @ [q]\<rparr>)"
  have "evolves ?s1 s'" by (rule evolves_extend) (auto simp: s' upd_task_def)
  then show ?thesis using getRuleInfoForKey_evolves evolves_trans by blast
qed

lemma taskIsComplete_evolves:
  assumes "taskIsComplete t v f s = Some s'"
  shows "evolves s s'"
proof -
  from assms obtain ti ri where ti: "taskInfos s t = Some ti" and ri: "ruleInfos s (ti_forRuleInfo ti) = Some ri"
    by (auto simp: taskIsComplete_def)
  show ?thesis
  proof (cases "isInProgressComputing ri")
    case False
    then have "s' = reject_call ''invalid state for marking task complete'' s"
      using assms ti ri by (simp add: taskIsComplete_def)
    then show ?thesis by (simp add: reject_call_def evolves_extend emit_def)
  next
    case True
    define b where "b = the (ruleInfos s' (ti_forRuleInfo ti))"
    have st: "ri_state ri = InProgressComputing" using True by (simp add: isInProgressComputing_def)
    have s': "currentEpoch s' = currentEpoch s" "inputRequests s' = inputRequests s"
      "ruleInfos s' = (ruleInfos s)(ti_forRuleInfo ti \<mapsto> b)" "ri_state b = InProgressComputing"
      "ri_keyID b = ri_keyID ri" "ri_rule b = ri_rule ri"
      using assms ti ri True st unfolding b_def
      by (auto simp: taskIsComplete_def upd_rule_def Let_def split: if_splits)
    have "advance (currentEpoch s) ri b" using st s'(4-6) by (simp add: advance_def state_defs)
    then show ?thesis using s' ri st by (intro evolves_upd [OF _ s'(3)]) (auto simp: isScanning_def)
  qed
qed

lemma taskDiscoveredDependency_evolves:
  assumes "taskDiscoveredDependency t key s = Some s'"
  shows "evolves s s'"
  using assms
  by (intro evolves_extend)
    (auto simp: taskDiscoveredDependency_def reject_call_def emit_def upd_task_def getKeyID_def Let_def split: if_splits)

lemma perform_call_evolves: "perform_call W t c s = Some s' \<Longrightarrow> evolves s s'"
  by (cases c) (auto simp: taskNeedsInput_def taskNeedsSingleUseInput_def taskMustFollow_def
      addTaskInputRequest_evolves taskIsComplete_evolves taskDiscoveredDependency_evolves
      reject_call_def evolves_extend emit_def split: if_splits)

lemma perform_calls_evolves: "perform_calls W t cs s = Some s' \<Longrightarrow> evolves s s'"
  by (induction cs arbitrary: s) (auto dest: perform_call_evolves intro: evolves_trans)

lemma upd_task_evolves [simp]: "evolves s (upd_task t f s)"
  by (rule evolves_extend) (simp_all add: upd_task_def)

lemma run_callback_evolves: "run_callback W t cb s = Some s' \<Longrightarrow> evolves s s'"
  by (auto simp: run_callback_def split_def dest: perform_calls_evolves intro: evolves_trans [OF upd_task_evolves])

lemma scanRule_evolves:
  assumes "scanRule W r s = Some (b, s')"
  shows "evolves s s'"
  using assms
proof (cases rule: scanRule_cases)
  case (fresh ri ri' ev q)
  have "advance (currentEpoch s) ri ri'"
    using fresh(2,3,5,6,9) by (auto simp: advance_def state_defs split: if_splits)
  then show ?thesis
    using fresh by (intro evolves_upd [where r = r and a = ri and b = ri']) auto
qed simp

lemma finishScanRequest_evolves:
  assumes "finishScanRequest r st s = Some s'" "st = NeedsToRun \<or> st = DoesNotNeedToRun"
  shows "evolves s s'"
proof -
  from assms(1) obtain ri rec where r: "ruleInfos s r = Some ri" "isScanning ri" "ri_inProgressInfo ri = PendingScanRecord rec"
    "s' = s\<lparr>ruleInfosToScan := ruleInfosToScan s @ deferredScanRequests rec,
           inputRequests := inputRequests s @ pausedInputRequests rec,
           ruleInfos := (ruleInfos s)(r \<mapsto> ri\<lparr>ri_inProgressInfo := NoInfo, ri_state := st\<rparr>)\<rparr>"
    by (rule finishScanRequest_Some)
  have "advance (currentEpoch s) ri (ri\<lparr>ri_inProgressInfo := NoInfo, ri_state := st\<rparr>)"
    using r(2) assms(2) by (auto simp: advance_def state_defs)
  then show ?thesis
    using r by (intro evolves_upd [where r = r and a = ri and b = "ri\<lparr>ri_inProgressInfo := NoInfo, ri_state := st\<rparr>"]) auto
qed

lemma register_task_evolves:
  assumes "ruleInfos s r = Some ri" "ri_state ri = NeedsToRun"
  shows "evolves s (register_task W r rule s)"
  using assms
  by (intro evolves_upd [where r = r and a = ri and b = "the (ruleInfos (register_task W r rule s) r)"])
    (auto simp: register_task_def upd_rule_def advance_def state_defs)

lemma demandRule_evolves:
  assumes "demandRule W r s = Some (b, s')"
  shows "evolves s s'"
  using assms
proof (cases rule: demandRule_cases)
  case (upToDate ri ev)
  then show ?thesis
    by (intro evolves_upd [where r = r and a = ri and b = "setComplete (currentEpoch s) (clock s) ri"])
      (auto simp: setComplete_def advance_def state_defs)
next
  case (started ri s2 s3 ti)
  have "evolves s s2"
    using register_task_evolves [OF started(1,2)] run_callback_evolves [OF started(4)]
    by (meson evolves_trans evolves_emit)
  moreover have "evolves s2 s3"
    using started(5) run_callback_evolves by (metis evolves_emit evolves_refl evolves_trans)
  moreover have "evolves s3 s'" unfolding started(7) by (rule evolves_extend) simp_all
  ultimately show ?thesis using evolves_trans by blast
qed simp_all

lemma scan_record_evolves:
  assumes "ruleInfos s r = Some ri" "getPendingScanRecord ri = Some rec"
    and "set (pausedInputRequests rec) \<subseteq> set (pausedInputRequests rec')"
  shows "evolves s (upd_rule r (\<lambda>ri. ri\<lparr>ri_inProgressInfo := PendingScanRecord rec'\<rparr>) s)"
  using assms
  by (intro evolves_upd [where r = r and a = ri and b = "ri\<lparr>ri_inProgressInfo := PendingScanRecord rec'\<rparr>"])
    (auto simp: getPendingScanRecord_def upd_rule_def advance_def state_defs split: if_splits InProgressInfo.splits)

lemma defer_on_scan_evolves: "defer_on_scan r q s = Some s' \<Longrightarrow> evolves s s'"
  by (auto simp: defer_on_scan_def intro!: scan_record_evolves)

lemma defer_on_task_evolves: "defer_on_task r q s = Some s' \<Longrightarrow> evolves s s'"
  by (auto simp: defer_on_task_def)

lemma load_scan_input_evolves: "load_scan_input W q s = Some (i, q', s') \<Longrightarrow> evolves s s'"
  by (auto simp: load_scan_input_def Let_def getRuleInfoForKeyID_evolves split: option.splits if_splits)

lemma scan_inputs_evolves:
  assumes "scan_inputs n W request s = Some s'"
  shows "evolves s s'"
  using assms evolves_refl
  by (rule scan_inputs_invariant [where I = "evolves s"])
    (blast intro: evolves_trans load_scan_input_evolves scanRule_evolves demandRule_evolves defer_on_scan_evolves
      defer_on_task_evolves finishScanRequest_evolves evolves_emit)+

lemma scan_item_evolves: "scan_item W s = Some s' \<Longrightarrow> evolves s s'"
proof -
  assume item: "scan_item W s = Some s'"
  let ?s = "s\<lparr>ruleInfosToScan := butlast (ruleInfosToScan s)\<rparr>"
  have "evolves s ?s" by (rule evolves_extend) simp_all
  moreover have "evolves ?s s'"
    using item by (auto simp: scan_item_def processRuleScanRequest_def dest: scan_inputs_evolves split: if_splits)
  ultimately show ?thesis by (rule evolves_trans)
qed

lemma pause_input_request_evolves: "pause_input_request q s = Some s' \<Longrightarrow> evolves s s'"
  by (auto simp: pause_input_request_def intro!: scan_record_evolves)

lemma record_dependency_evolves:
  assumes "record_dependency t q s = Some s'" "waiting_task t s"
  shows "evolves s s'"
proof -
  from assms obtain ti ri where ti: "taskInfos s t = Some ti" "ruleInfos s (ti_forRuleInfo ti) = Some ri"
    "ri_state ri = InProgressWaiting" by (auto simp: waiting_task_def)
  from assms(1) ti(1,2) show ?thesis
    by (intro evolves_upd [where r = "ti_forRuleInfo ti" and a = ri and b = "the (ruleInfos s' (ti_forRuleInfo ti))"])
      (use ti(3) in \<open>auto simp: record_dependency_def upd_rule_def advance_def state_defs\<close>)
qed

lemma await_input_evolves: "await_input q s = Some s' \<Longrightarrow> evolves s s'"
  by (auto simp: await_input_def)

lemma process_input_request_evolves:
  assumes "process_input_request W q s = Some s'" and inv: "engine_inv (q # H) {} k s"
  shows "evolves s s'"
  using assms(1)
proof (cases rule: process_input_request_cases)
  case scanning
  then show ?thesis using scanRule_evolves pause_input_request_evolves evolves_trans by blast
next
  case dummy
  then show ?thesis using scanRule_evolves demandRule_evolves evolves_trans by blast
next
  case (available s1 s2 s3 t)
  have "waiting_task t s2"
    using scanRule_inv [OF available(1) inv] demandRule_inv [OF available(2)] hand_waiting available(3) by blast
  then have "evolves s2 s3" using available(4) record_dependency_evolves by blast
  with scanRule_evolves [OF available(1)] demandRule_evolves [OF available(2)]
  have "evolves s s3" using evolves_trans by blast
  moreover have "evolves s3 s'" unfolding available(5) by (rule evolves_extend) simp_all
  ultimately show ?thesis by (rule evolves_trans)
next
  case (awaiting s1 s2 s3 t)
  have "waiting_task t s2"
    using scanRule_inv [OF awaiting(1) inv] demandRule_inv [OF awaiting(2)] hand_waiting awaiting(3) by blast
  then have "evolves s2 s3" using awaiting(4) record_dependency_evolves by blast
  with scanRule_evolves [OF awaiting(1)] demandRule_evolves [OF awaiting(2)] await_input_evolves [OF awaiting(5)]
  show ?thesis using evolves_trans by blast
qed

lemma finished_input_item_evolves: "finished_input_item W s = Some s' \<Longrightarrow> evolves s s'"
proof -
  assume item: "finished_input_item W s = Some s'"
  let ?s = "s\<lparr>finishedInputRequests := butlast (finishedInputRequests s)\<rparr>"
  have 1: "evolves s ?s" by (rule evolves_extend) simp_all
  from item obtain t e s1 where d: "decrementTaskWaitCount t s1 = Some s'"
    and "s1 = ?s \<or> (\<exists>cb. run_callback W t cb (emit e ?s) = Some s1)"
    by (auto simp: finished_input_item_def process_finished_input_def split: if_splits)
  then have "evolves ?s s1" using run_callback_evolves evolves_emit evolves_refl evolves_trans by metis
  moreover have "evolves s1 s'"
    using d by (intro evolves_extend) (auto simp: decrementTaskWaitCount_def Let_def upd_task_def split: if_splits)
  ultimately show ?thesis using 1 evolves_trans by blast
qed

lemma ready_item_evolves: "ready_item W s = Some s' \<Longrightarrow> evolves s s'"
proof -
  assume item: "ready_item W s = Some s'"
  let ?s = "s\<lparr>readyTaskInfos := tl (readyTaskInfos s)\<rparr>"
  have 1: "evolves s ?s" by (rule evolves_extend) simp_all
  from item obtain t r ri ri1 s1 where ri: "ruleInfos ?s r = Some ri" "setComputing (clock s) ri = Some ri1"
    and run: "run_callback W t (task_inputsAvailable W) (emit (EvInputsAvailable t) (upd_rule r (\<lambda>_. ri1) ?s)) = Some s1"
    and s': "s' = s1\<lparr>numOutstandingUnfinishedTasks := Suc (numOutstandingUnfinishedTasks s1)\<rparr>"
    by (auto simp: ready_item_def process_ready_task_def split: if_splits)
  have "evolves ?s (upd_rule r (\<lambda>_. ri1) ?s)"
    using ri by (intro evolves_upd [where r = r and a = ri and b = ri1])
      (auto simp: upd_rule_def setComputing_def advance_def state_defs split: if_splits)
  moreover have "evolves (upd_rule r (\<lambda>_. ri1) ?s) s1" using run_callback_evolves [OF run] evolves_emit evolves_trans by blast
  moreover have "evolves s1 s'" unfolding s' by (rule evolves_extend) simp_all
  ultimately show ?thesis using 1 evolves_trans by blast
qed

lemma request_discovered_evolves: "request_discovered W ds s = Some s' \<Longrightarrow> evolves s s'"
proof (induction ds arbitrary: s)
  case (Cons d ds)
  then obtain s1 q where s1: "getRuleInfoForKeyID W (kf_keyID d) s = Some s1"
    and rest: "request_discovered W ds (s1\<lparr>inputRequests := inputRequests s1 @ [q]\<rparr>) = Some s'" by auto
  have "evolves s1 (s1\<lparr>inputRequests := inputRequests s1 @ [q]\<rparr>)" by (rule evolves_extend) auto
  then show ?case using getRuleInfoForKeyID_evolves [OF s1] Cons.IH [OF rest] evolves_trans by blast
qed simp

lemma complete_rule_evolves:
  assumes "ruleInfos s r = Some ri" "ri_state ri = InProgressComputing"
  shows "evolves s (complete_rule r ti s)"
  using assms
  by (intro evolves_upd [where r = r and a = ri and b = "the (ruleInfos (complete_rule r ti s) r)"])
    (auto simp: complete_rule_def Let_def upd_rule_def emit_def setComplete_def advance_def state_defs)

lemma finished_task_item_evolves:
  assumes "finished_task_item W s = Some (b, s')" "finishedTaskInfos s \<noteq> []"
  shows "evolves s s'"
proof -
  obtain ds t where d: "finishedTaskInfos s = ds @ [t]" using assms(2) by (cases "finishedTaskInfos s" rule: rev_cases) auto
  from assms(1) d show ?thesis
  proof (rule finished_task_item_cases)
    let ?s = "s\<lparr>finishedTaskInfos := ds\<rparr>"
    fix ti ri s1 ri1 s2
    assume ri: "ruleInfos s (ti_forRuleInfo ti) = Some ri" "ri_state ri = InProgressComputing"
      and s1: "request_discovered W (deps_list (ti_discoveredDependencies ti)) (complete_rule (ti_forRuleInfo ti) ti ?s) = Some s1"
      and s2: "store_result W ri1 s1 = (b, s2)"
      and s': "b \<Longrightarrow> release_task t s2 = Some s'" "\<not> b \<Longrightarrow> decrement_outstanding s2 = Some s'"
    have 1: "evolves s ?s" by (rule evolves_extend) simp_all
    have 2: "evolves ?s (complete_rule (ti_forRuleInfo ti) ti ?s)"
      using complete_rule_evolves [of ?s "ti_forRuleInfo ti" ri ti] ri by simp
    have 3: "evolves s1 s2"
      using s2 by (intro evolves_extend) (auto simp: store_result_def emit_def split: option.splits prod.splits)
    have "evolves s2 s'"
      using s' by (cases b; intro evolves_extend)
        (auto simp: release_task_def decrement_outstanding_def split: if_splits)
    then show ?thesis using 1 2 3 request_discovered_evolves [OF s1] evolves_trans by blast
  qed
qed

lemma force_build_evolves:
  assumes "force_build r key s = Some s'"
  shows "evolves s s'"
proof -
  define s1 where "s1 = (case findRuleScanRequestForRule (ruleInfosToScan s) r of
                      None \<Rightarrow> s | Some i \<Rightarrow> s\<lparr>ruleInfosToScan := erase_at i (ruleInfosToScan s)\<rparr>)"
  from assms obtain s2 where s2: "finishScanRequest r NeedsToRun s1 = Some s2"
    and s': "s' = upd_rule r (\<lambda>ri. ri\<lparr>ri_wasForced := True\<rparr>) (emit (EvNeedsToRun key Forced None) s2)"
    unfolding s1_def by (auto simp: force_build_def Let_def)
  have 1: "evolves s s1" unfolding s1_def by (rule evolves_extend) (auto split: option.splits)
  have 2: "evolves s1 s2" using s2 by (rule finishScanRequest_evolves) simp
  obtain ri2 where ri2: "ruleInfos s2 r = Some ri2" "ri_state ri2 = NeedsToRun"
    using s2 by (rule finishScanRequest_Some) auto
  have "evolves s2 s'"
    using ri2 by (intro evolves_upd [where r = r and a = ri2 and b = "ri2\<lparr>ri_wasForced := True\<rparr>"])
      (auto simp: s' upd_rule_def emit_def advance_def state_defs)
  then show ?thesis using 1 2 evolves_trans by blast
qed

lemma break_walk_evolves:
  assumes "break_walk W cyc rs s = Some (b, s')"
  shows "evolves s s'"
  using assms evolves_refl
proof (rule break_walk_invariant [where I = "evolves s"])
  show "evolves s s1 \<Longrightarrow> evolves s (snd (getRuleInfoForKey W key s1))" for s1 key
    using getRuleInfoForKey_evolves evolves_trans by blast
  show "evolves s s1 \<Longrightarrow> force_build r key s1 = Some s2 \<Longrightarrow> evolves s s2" for s1 r key s2
    using force_build_evolves evolves_trans by blast
  have "evolves s1 (supply_prior_value t ti i s1)" for s1 :: "('a, 'b) engine" and t ti i
    by (rule evolves_extend) (simp_all add: supply_prior_value_def upd_task_def)
  then show "evolves s s1 \<Longrightarrow> evolves s (supply_prior_value t ti i s1)" for s1 t ti i
    using evolves_trans by blast
qed

lemma resolveCycle_evolves:
  assumes "resolveCycle W key s = Some (b, s')"
  shows "evolves s s'"
proof -
  from assms obtain c s1 b1 s2 where "findCycle W key s = Some (c, s1)" and b: "breakCycle W c s1 = Some (b1, s2)"
    and s': "s' = s2 \<or> (\<exists>e. s' = emit e s2)"
    by (auto simp: resolveCycle_def split: if_splits)
  then have "s1 = snd (getRuleInfoForKey W key s)" by (auto simp: findCycle_def split_def Let_def)
  then have "evolves s s1" using getRuleInfoForKey_evolves by blast
  moreover have "evolves s1 s2" using b break_walk_evolves unfolding breakCycle_def by blast
  moreover have "evolves s2 s'" using s' by auto
  ultimately show ?thesis using evolves_trans by blast
qed

section \<open>The requested key\<close>

text \<open>
  The key to build is asked for by a dummy request, or it is in progress or complete.
\<close>

definition root_ok :: "KeyID \<Rightarrow> ('ts, 'db) engine \<Rightarrow> bool" where
  "root_ok r s = ((\<exists>q. tir_inputRuleInfo q = r \<and> tir_taskInfo q = None \<and> pending r s q) \<or>
     (\<exists>ri. ruleInfos s r = Some ri \<and> (isInProgress ri \<or> isComplete (currentEpoch s) ri)))"

lemma root_ok_evolves:
  assumes "root_ok r s" "evolves s s'"
  shows "root_ok r s'"
proof -
  from assms(1) consider q where "tir_inputRuleInfo q = r" "tir_taskInfo q = None" "pending r s q"
    | ri where "ruleInfos s r = Some ri" "isInProgress ri \<or> isComplete (currentEpoch s) ri"
    unfolding root_ok_def by blast
  then show ?thesis
  proof cases
    case 1
    then show ?thesis using assms(2) unfolding evolves_alt root_ok_def by blast
  next
    case (2 ri)
    obtain ri' where "ruleInfos s' r = Some ri'" "advance (currentEpoch s) ri ri'"
      using assms(2) 2(1) by (rule evolves_rule)
    moreover have "currentEpoch s' = currentEpoch s" using assms(2) by (simp add: evolves_alt)
    ultimately show ?thesis using 2(2) unfolding root_ok_def advance_def by metis
  qed
qed

text \<open>What the answer of \<^verbatim>\<open>demandRule\<close> means.\<close>

lemma demandRule_result:
  assumes d: "demandRule W r s = Some (b, s')" and inv: "engine_inv H {} k s"
  shows "\<exists>ri. ruleInfos s' r = Some ri \<and> (if b then isComplete (currentEpoch s') ri else isInProgress ri)"
  using d
proof (cases rule: demandRule_cases)
  case (started ri s2 s3 ti)
  let ?t = "nextTask s" let ?s1 = "register_task W r (ri_rule ri) s"
  have fr: "callback_frame ?t ?s1 s3" using demandRule_started [OF inv started(1,2,4,5)] by simp
  have "\<exists>x. ruleInfos ?s1 r = Some x \<and> isInProgress x"
    using started(1) by (simp add: register_task_def upd_rule_def isInProgress_def isInProgressWaiting_def)
  then obtain x where x: "ruleInfos ?s1 r = Some x" "isInProgress x" by blast
  obtain y where "ruleInfos s3 r = Some y" "same_rule x y" using fr x(1) by (rule callback_frame_rule)
  then show ?thesis
    using x(2) started(3,7) by (auto simp: same_rule_def isInProgress_def isInProgressWaiting_def isInProgressComputing_def)
qed (auto simp: setComplete_def isComplete_def)

lemma input_item_root_ok:
  assumes item: "input_item W s = Some s'" and inv: "engine_inv [] {} k s" and ne: "inputRequests s \<noteq> []"
    and root: "root_ok r s"
  shows "root_ok r s'"
proof -
  obtain q xs where q: "inputRequests s = q # xs" using ne by (cases "inputRequests s") auto
  let ?s = "s\<lparr>inputRequests := xs\<rparr>"
  have p: "process_input_request W q ?s = Some s'" using item q by (simp add: input_item_def)
  have ev: "evolves ?s s'" using p engine_inv_hand(1) [OF inv q] by (rule process_input_request_evolves)
  show ?thesis
  proof (cases "tir_inputRuleInfo q = r \<and> tir_taskInfo q = None")
    case False
    then have "root_ok r ?s" using root q unfolding root_ok_def pending_def by auto
    then show ?thesis using ev by (rule root_ok_evolves)
  next
    case True
    from p show ?thesis
    proof (cases rule: process_input_request_cases)
      case (scanning s1)
      then have "pending r s' q"
        using True by (auto simp: pause_input_request_def pending_def upd_rule_def getPendingScanRecord_def isScanning_def
            split: if_splits InProgressInfo.splits)
      then show ?thesis using True unfolding root_ok_def by blast
    next
      case (dummy s1 b)
      have "engine_inv (q # []) {} k s1" using dummy(1) engine_inv_hand(1) [OF inv q] by (rule scanRule_inv)
      from demandRule_result [OF dummy(2) this] True show ?thesis
        unfolding root_ok_def by (auto split: if_splits)
    qed (use True in auto)
  qed
qed

lemma input_item_evolves:
  assumes "input_item W s = Some s'" "engine_inv [] {} k s" "inputRequests s = q # xs"
  shows "evolves (s\<lparr>inputRequests := xs\<rparr>) s'"
proof -
  have "process_input_request W q (s\<lparr>inputRequests := xs\<rparr>) = Some s'" using assms(1,3) by (simp add: input_item_def)
  then show ?thesis using engine_inv_hand(1) [OF assms(2,3)] by (rule process_input_request_evolves)
qed

section \<open>The loop\<close>

definition progresses :: "('ts, 'db) engine \<Rightarrow> ('ts, 'db) engine \<Rightarrow> bool" where
  "progresses s s' = (rules_advance s s' \<and> (\<forall>r. root_ok r s \<longrightarrow> root_ok r s'))"

lemma evolves_progresses: "evolves s s' \<Longrightarrow> progresses s s'"
  using root_ok_evolves unfolding progresses_def evolves_def by blast

lemma input_item_progresses:
  assumes "input_item W s = Some s'" "engine_inv [] {} k s" "inputRequests s \<noteq> []"
  shows "progresses s s'"
proof -
  obtain q xs where q: "inputRequests s = q # xs" using assms(3) by (cases "inputRequests s") auto
  have "rules_advance (s\<lparr>inputRequests := xs\<rparr>) s'"
    using input_item_evolves [OF assms(1,2) q] unfolding evolves_def by blast
  then have "rules_advance s s'" unfolding rules_advance_def by simp
  then show ?thesis using input_item_root_ok [OF assms] unfolding progresses_def by blast
qed

lemma loop_step_progresses:
  assumes step: "executeTasks_step W key (ph, d, s) = Some (ph', d', s')" and inv: "config_inv (ph, d, s)"
  shows "ph' = PhReturn False \<and> ph = PhCancel \<or> progresses s s'"
proof (cases ph)
  case PhTop
  then show ?thesis using step by (simp add: evolves_progresses)
next
  case PhScan
  then show ?thesis using step
    by (auto simp: after_item_def evolves_progresses scan_item_evolves split: if_splits)
next
  case PhInput
  then show ?thesis using step inv
    by (auto simp: config_inv_def after_item_def evolves_progresses intro: input_item_progresses split: if_splits)
next
  case PhFinishedInput
  then show ?thesis using step
    by (auto simp: after_item_def evolves_progresses finished_input_item_evolves split: if_splits)
next
  case PhReady
  then show ?thesis using step
    by (auto simp: after_item_def evolves_progresses ready_item_evolves split: if_splits)
next
  case PhFinishedTask
  then show ?thesis using step
    by (auto simp: evolves_progresses finished_task_item_evolves split: if_splits)
next
  case PhWait
  then show ?thesis using step by (auto simp: evolves_progresses split: if_splits)
next
  case PhNoWork
  show ?thesis
  proof (cases "\<exists>t \<in> set [0..<nextTask s]. taskInfos s t \<noteq> None")
    case True
    then obtain b where "resolveCycle W key s = Some (b, s')"
      using step PhNoWork by (auto simp del: set_upt split: if_splits)
    then show ?thesis using resolveCycle_evolves evolves_progresses by blast
  next
    case False
    then have "s' = s" using step PhNoWork by (simp del: set_upt)
    then show ?thesis by (simp add: evolves_progresses)
  qed
next
  case PhCancel
  show ?thesis
  proof (cases "numOutstandingUnfinishedTasks s = 0")
    case True
    then show ?thesis using step PhCancel by auto
  next
    case False
    then have "drain_finished s = Some s'" using step PhCancel by auto
    then have "evolves s s'" by (intro evolves_extend) (auto simp: drain_finished_def split: if_splits)
    then show ?thesis by (simp add: evolves_progresses)
  qed
next
  case (PhReturn b)
  then show ?thesis using step by (simp add: evolves_progresses)
qed

lemma cancelBuild_evolves: "evolves s (cancelBuild s)"
  by (rule evolves_extend) (simp_all add: cancelBuild_frame)

lemma engine_step_progresses:
  assumes "engine_step W key (ph, d, s) (ph', d', s')" "config_inv (ph, d, s)"
  shows "ph' = PhReturn False \<and> ph = PhCancel \<or> progresses s s'"
  using assms(1)
proof cases
  case loop
  then show ?thesis using loop_step_progresses assms(2) by blast
next
  case complete
  then show ?thesis using taskIsComplete_evolves evolves_progresses by blast
next
  case discovered
  then show ?thesis using taskDiscoveredDependency_evolves evolves_progresses by blast
next
  case cancel
  then show ?thesis using cancelBuild_evolves evolves_progresses by blast
next
  case (tick n)
  then have "evolves s s'" by (intro evolves_extend) simp_all
  then show ?thesis using evolves_progresses by blast
qed

lemma start_root_ok:
  assumes "executeTasks_start W key s0 = (ph, d, s)"
  shows "root_ok (position key (keyTable s0)) s" "currentEpoch s = currentEpoch s0"
proof -
  let ?g = "getRuleInfoForKey W key (s0\<lparr>finishedInputRequests := []\<rparr>)"
  have "fst ?g = position key (keyTable s0)"
    by (simp add: getRuleInfoForKey_def split_def getKeyID_def Let_def)
  then show "root_ok (position key (keyTable s0)) s"
    using assms by (auto simp: executeTasks_start_def split_def root_ok_def pending_def
        intro!: exI [of _ "\<lparr>tir_taskInfo = None, tir_inputID = 0, tir_inputRuleInfo = fst ?g,
                tir_orderOnly = False, tir_forcePriorValue = False, tir_singleUse = False\<rparr>"])
  have "currentEpoch (snd ?g) = currentEpoch s0"
    using getRuleInfoForKey_evolves [of "s0\<lparr>finishedInputRequests := []\<rparr>" W key] by (simp add: evolves_alt)
  then show "currentEpoch s = currentEpoch s0"
    using assms by (auto simp: executeTasks_start_def split_def)
qed

lemma engine_step_return_stuck:
  "engine_step W key (PhReturn b, d, s) (ph', d', s') \<Longrightarrow> ph' = PhReturn b"
  by (auto elim: engine_step.cases)

lemma engine_reach_root:
  assumes "engine_reach W key s0 (ph, d, s)" "quiescent s0" "engine_inv [] {} 0 s0" "completes_once W" "db_writes_ok W"
  shows "ph \<noteq> PhReturn False \<longrightarrow> root_ok (position key (keyTable s0)) s \<and> currentEpoch s = currentEpoch s0"
  using assms(1)
proof (induction "(ph, d, s)" arbitrary: ph d s)
  case start
  then show ?case using start_root_ok [of W key s0] by metis
next
  case (step c ph d s)
  obtain ph0 d0 s1 where c: "c = (ph0, d0, s1)" by (cases c)
  have inv: "config_inv (ph0, d0, s1)" using engine_reach_inv [OF _ assms(2-5)] step(1) c by blast
  have IH: "ph0 \<noteq> PhReturn False \<longrightarrow> root_ok (position key (keyTable s0)) s1 \<and> currentEpoch s1 = currentEpoch s0"
    using step(2) c by blast
  have st: "engine_step W key (ph0, d0, s1) (ph, d, s)" using step(3) c by simp
  show ?case
  proof
    assume "ph \<noteq> PhReturn False"
    then have "progresses s1 s" "ph0 \<noteq> PhReturn False"
      using engine_step_progresses [OF st inv] engine_step_return_stuck [of W key False d0 s1 ph d s] st by auto
    then show "root_ok (position key (keyTable s0)) s \<and> currentEpoch s = currentEpoch s0"
      using IH unfolding progresses_def rules_advance_def by simp
  qed
qed
end
