(* ===== verification/Engine_Scan.thy ===== *)
theory Engine_Scan
  imports Engine_Progress
begin

text \<open>
  Why the engine may skip a rule.  A rule gets the state \<open>DoesNotNeedToRun\<close> only after every
  recorded dependency was brought up to date in this build and none of them, unless it is
  order-only, was computed after the rule was last built.  A scan is interrupted whenever an input
  is not ready, and resumed from a request in one of three places; the invariant says that the
  inputs a request has passed stay as they were found.
\<close>

section \<open>The invariant\<close>

definition validated :: "('ts, 'db) client \<Rightarrow> RuleInfo \<Rightarrow> bool" where
  "validated W ri = (res_builtAt (ri_result ri) \<noteq> 0 \<and> rule_signature (ri_rule ri) = res_signature (ri_result ri) \<and>
     isResultValid W (ri_rule ri) (res_value (ri_result ri)))"

text \<open>The dependency has been built in this build, and was not computed after the rule was built.\<close>

definition input_settled :: "('ts, 'db) engine \<Rightarrow> RuleInfo \<Rightarrow> KeyIDAndFlags \<Rightarrow> bool" where
  "input_settled s ri kf = (\<exists>rj. ruleInfos s (kf_keyID kf) = Some rj \<and> isComplete (currentEpoch s) rj \<and>
     (kf_orderOnly kf \<or> res_computedAt (ri_result rj) \<le> res_builtAt (ri_result ri)))"

definition settled :: "('ts, 'db) engine \<Rightarrow> RuleInfo \<Rightarrow> nat \<Rightarrow> bool" where
  "settled s ri n = (n \<le> size_deps (res_dependencies (ri_result ri)) \<and>
     (\<forall>j < n. input_settled s ri (subscript (res_dependencies (ri_result ri)) j)))"

definition in_scan :: "('ts, 'db) engine \<Rightarrow> RuleScanRequest \<Rightarrow> bool" where
  "in_scan s q = (q \<in> set (ruleInfosToScan s) \<or>
     (\<exists>r ri rec. ruleInfos s r = Some ri \<and> isScanning ri \<and> ri_inProgressInfo ri = PendingScanRecord rec \<and>
        q \<in> set (deferredScanRequests rec)) \<or>
     (\<exists>t ti. taskInfos s t = Some ti \<and> q \<in> set (ti_deferredScanRequests ti)))"

definition scan_ok :: "('ts, 'db) client \<Rightarrow> ('ts, 'db) engine \<Rightarrow> RuleScanRequest \<Rightarrow> bool" where
  "scan_ok W s q = (\<exists>ri. ruleInfos s (rsr_ruleInfo q) = Some ri \<and>
     (isScanned (currentEpoch s) ri \<or>
      isScanning ri \<and> validated W ri \<and> settled s ri (rsr_inputIndex q) \<and>
      rsr_inputIndex q < size_deps (res_dependencies (ri_result ri)) \<and>
      (\<forall>i. rsr_inputRuleInfo q = Some i \<longrightarrow>
         kf_keyID (subscript (res_dependencies (ri_result ri)) (rsr_inputIndex q)) = i \<and>
         kf_orderOnly (subscript (res_dependencies (ri_result ri)) (rsr_inputIndex q)) = rsr_orderOnly q)))"

definition skip_ok :: "KeyID set \<Rightarrow> ('ts, 'db) client \<Rightarrow> ('ts, 'db) engine \<Rightarrow> bool" where
  "skip_ok D W s = (\<forall>r ri. ruleInfos s r = Some ri \<longrightarrow> r \<notin> D \<longrightarrow> ri_state ri = DoesNotNeedToRun \<longrightarrow>
     validated W ri \<and> settled s ri (size_deps (res_dependencies (ri_result ri))))"

definition scan_inv :: "KeyID set \<Rightarrow> ('ts, 'db) client \<Rightarrow> ('ts, 'db) engine \<Rightarrow> bool" where
  "scan_inv D W s = ((\<forall>q. in_scan s q \<longrightarrow> scan_ok W s q) \<and> skip_ok D W s)"

section \<open>What evolution keeps\<close>

lemma input_settled_evolves: "input_settled s ri kf \<Longrightarrow> evolves s s' \<Longrightarrow> input_settled s' ri kf"
  unfolding input_settled_def evolves_alt advance_def by metis

lemma settled_evolves: "settled s ri n \<Longrightarrow> evolves s s' \<Longrightarrow> settled s' ri n"
  unfolding settled_def using input_settled_evolves by blast

lemma settled_result: "ri_result ri' = ri_result ri \<Longrightarrow> settled s ri' n = settled s ri n"
  by (simp add: settled_def input_settled_def)

lemma validated_result: "ri_result ri' = ri_result ri \<Longrightarrow> ri_rule ri' = ri_rule ri \<Longrightarrow> validated W ri' = validated W ri"
  by (simp add: validated_def)

lemma scan_ok_evolves:
  assumes "scan_ok W s q" "evolves s s'"
  shows "scan_ok W s' q"
proof -
  from assms(1) obtain ri where ri: "ruleInfos s (rsr_ruleInfo q) = Some ri" and
    c: "isScanned (currentEpoch s) ri \<or>
      isScanning ri \<and> validated W ri \<and> settled s ri (rsr_inputIndex q) \<and>
      rsr_inputIndex q < size_deps (res_dependencies (ri_result ri)) \<and>
      (\<forall>i. rsr_inputRuleInfo q = Some i \<longrightarrow>
         kf_keyID (subscript (res_dependencies (ri_result ri)) (rsr_inputIndex q)) = i \<and>
         kf_orderOnly (subscript (res_dependencies (ri_result ri)) (rsr_inputIndex q)) = rsr_orderOnly q)"
    unfolding scan_ok_def by blast
  obtain ri' where ri': "ruleInfos s' (rsr_ruleInfo q) = Some ri'" "advance (currentEpoch s) ri ri'"
    using assms(2) ri by (rule evolves_rule)
  have ep: "currentEpoch s' = currentEpoch s" using assms(2) by (simp add: evolves_alt)
  from c show ?thesis
  proof
    assume "isScanned (currentEpoch s) ri"
    then show ?thesis using ri' ep by (auto simp: scan_ok_def advance_def)
  next
    assume sc: "isScanning ri \<and> validated W ri \<and> settled s ri (rsr_inputIndex q) \<and>
      rsr_inputIndex q < size_deps (res_dependencies (ri_result ri)) \<and>
      (\<forall>i. rsr_inputRuleInfo q = Some i \<longrightarrow>
         kf_keyID (subscript (res_dependencies (ri_result ri)) (rsr_inputIndex q)) = i \<and>
         kf_orderOnly (subscript (res_dependencies (ri_result ri)) (rsr_inputIndex q)) = rsr_orderOnly q)"
    then consider "isScanned (currentEpoch s) ri'" | "isScanning ri'" "ri_result ri' = ri_result ri" "ri_rule ri' = ri_rule ri"
      using ri'(2) unfolding advance_def by blast
    then show ?thesis
    proof cases
      case 1
      then show ?thesis using ri'(1) ep by (auto simp: scan_ok_def)
    next
      case 2
      have "settled s' ri' (rsr_inputIndex q)"
        using sc settled_evolves [OF _ assms(2)] settled_result [OF 2(2)] by blast
      then show ?thesis using ri'(1) 2 sc validated_result [OF 2(2,3), of W] by (auto simp: scan_ok_def)
    qed
  qed
qed

text \<open>Most operations bring no new request and no new rule that need not run.\<close>

definition scan_frame :: "('ts, 'db) engine \<Rightarrow> ('ts, 'db) engine \<Rightarrow> bool" where
  "scan_frame s s' = (evolves s s' \<and> (\<forall>q. in_scan s' q \<longrightarrow> in_scan s q) \<and>
     (\<forall>r ri'. ruleInfos s' r = Some ri' \<longrightarrow> ri_state ri' = DoesNotNeedToRun \<longrightarrow>
        (\<exists>ri. ruleInfos s r = Some ri \<and> ri_state ri = DoesNotNeedToRun)))"

lemma scan_frame_refl [simp]: "scan_frame s s"
  by (simp add: scan_frame_def)

lemma scan_frame_trans: "scan_frame s s' \<Longrightarrow> scan_frame s' s'' \<Longrightarrow> scan_frame s s''"
  unfolding scan_frame_def using evolves_trans by blast

lemma skip_ok_evolves:
  assumes "skip_ok D W s" "evolves s s'"
    and "\<And>r ri'. ruleInfos s' r = Some ri' \<Longrightarrow> ri_state ri' = DoesNotNeedToRun \<Longrightarrow>
        (\<exists>ri. ruleInfos s r = Some ri \<and> ri_state ri = DoesNotNeedToRun) \<or>
        validated W ri' \<and> settled s' ri' (size_deps (res_dependencies (ri_result ri')))"
  shows "skip_ok D W s'"
  unfolding skip_ok_def
proof (intro allI impI)
  fix r ri' assume ri': "ruleInfos s' r = Some ri'" "ri_state ri' = DoesNotNeedToRun" and r: "r \<notin> D"
  show "validated W ri' \<and> settled s' ri' (size_deps (res_dependencies (ri_result ri')))"
    using assms(3) [OF ri']
  proof
    assume "\<exists>ri. ruleInfos s r = Some ri \<and> ri_state ri = DoesNotNeedToRun"
    then obtain ri where ri: "ruleInfos s r = Some ri" "ri_state ri = DoesNotNeedToRun" by blast
    have "advance (currentEpoch s) ri ri'" using assms(2) ri(1) by (rule evolves_rule) (use ri'(1) in simp)
    then have "ri_result ri' = ri_result ri" "ri_rule ri' = ri_rule ri"
      using ri(2) ri'(2) by (auto simp: advance_def isComplete_def)
    then show ?thesis
      using assms(1) ri r settled_evolves [OF _ assms(2)] settled_result [of ri' ri s'] validated_result [of ri' ri W]
      unfolding skip_ok_def by metis
  qed
qed

lemma scan_frame_inv: "scan_inv D W s \<Longrightarrow> scan_frame s s' \<Longrightarrow> scan_inv D W s'"
proof -
  assume inv: "scan_inv D W s" and fr: "scan_frame s s'"
  then have evo: "evolves s s'" by (simp add: scan_frame_def)
  have "skip_ok D W s'"
    by (rule skip_ok_evolves [OF _ evo]) (use inv fr in \<open>auto simp: scan_inv_def scan_frame_def\<close>)
  moreover have "scan_ok W s' q" if "in_scan s' q" for q
    using that inv fr scan_ok_evolves [OF _ evo] unfolding scan_inv_def scan_frame_def by blast
  ultimately show "scan_inv D W s'" by (simp add: scan_inv_def)
qed

lemma scan_frameI:
  assumes "evolves s s'" "set (ruleInfosToScan s') \<subseteq> set (ruleInfosToScan s)"
    and rules: "\<And>r ri'. ruleInfos s' r = Some ri' \<Longrightarrow> ri_state ri' = IsScanning \<or> ri_state ri' = DoesNotNeedToRun \<Longrightarrow>
      \<exists>ri. ruleInfos s r = Some ri \<and> ri_state ri = ri_state ri' \<and>
        (\<forall>rec'. ri_inProgressInfo ri' = PendingScanRecord rec' \<longrightarrow>
          (\<exists>rec. ri_inProgressInfo ri = PendingScanRecord rec \<and> deferredScanRequests rec' = deferredScanRequests rec) \<or>
          deferredScanRequests rec' = [])"
    and tasks: "\<And>t ti'. taskInfos s' t = Some ti' \<Longrightarrow> ti_deferredScanRequests ti' = [] \<or>
      (\<exists>ti. taskInfos s t = Some ti \<and> ti_deferredScanRequests ti = ti_deferredScanRequests ti')"
  shows "scan_frame s s'"
proof -
  have "in_scan s q" if "in_scan s' q" for q
    using that unfolding in_scan_def [of s']
  proof (elim disjE exE conjE)
    assume "q \<in> set (ruleInfosToScan s')"
    then show ?thesis using assms(2) by (auto simp: in_scan_def)
  next
    fix r ri' rec' assume "ruleInfos s' r = Some ri'" "isScanning ri'" "ri_inProgressInfo ri' = PendingScanRecord rec'"
      "q \<in> set (deferredScanRequests rec')"
    then show ?thesis using rules [of r ri'] by (fastforce simp: in_scan_def isScanning_def)
  next
    fix t ti' assume t: "taskInfos s' t = Some ti'" and q: "q \<in> set (ti_deferredScanRequests ti')"
    from tasks [OF t] q obtain ti where "taskInfos s t = Some ti" "q \<in> set (ti_deferredScanRequests ti)" by auto
    then show ?thesis unfolding in_scan_def by blast
  qed
  then show ?thesis using assms(1) rules unfolding scan_frame_def by fastforce
qed

text \<open>The rules and tasks are the same up to what the scan does not look at.\<close>

lemma scan_frame_same:
  assumes "evolves s s'" "ruleInfosToScan s' = ruleInfosToScan s" "ruleInfos s' = ruleInfos s"
    and "\<And>t ti'. taskInfos s' t = Some ti' \<Longrightarrow> ti_deferredScanRequests ti' = [] \<or>
      (\<exists>ti. taskInfos s t = Some ti \<and> ti_deferredScanRequests ti = ti_deferredScanRequests ti')"
  shows "scan_frame s s'"
  using assms(1) by (rule scan_frameI) (use assms in auto)

lemma scan_frame_emit [simp]: "scan_frame s (emit e s)"
  using evolves_emit by (rule scan_frame_same) (auto simp: emit_def)

lemma callback_scan_frame:
  assumes fr: "callback_frame t s s'" and ev: "evolves s s'" and t: "taskInfos s t = Some ti"
  shows "scan_frame s s'"
  using ev
proof (rule scan_frameI)
  show "set (ruleInfosToScan s') \<subseteq> set (ruleInfosToScan s)" using fr by (simp add: callback_frame_def)
next
  fix r ri' assume ri': "ruleInfos s' r = Some ri'" "ri_state ri' = IsScanning \<or> ri_state ri' = DoesNotNeedToRun"
  show "\<exists>ri. ruleInfos s r = Some ri \<and> ri_state ri = ri_state ri' \<and>
        (\<forall>rec'. ri_inProgressInfo ri' = PendingScanRecord rec' \<longrightarrow>
          (\<exists>rec. ri_inProgressInfo ri = PendingScanRecord rec \<and> deferredScanRequests rec' = deferredScanRequests rec) \<or>
          deferredScanRequests rec' = [])"
  proof (cases "ruleInfos s r")
    case None
    then show ?thesis using fr ri' by (auto simp: callback_frame_def)
  next
    case (Some ri)
    from fr Some show ?thesis by (rule callback_frame_rule) (use ri'(1) Some in \<open>auto simp: same_rule_def\<close>)
  qed
next
  fix u ti' assume u: "taskInfos s' u = Some ti'"
  show "ti_deferredScanRequests ti' = [] \<or>
      (\<exists>ti. taskInfos s u = Some ti \<and> ti_deferredScanRequests ti = ti_deferredScanRequests ti')"
  proof (cases "u = t")
    case True
    from fr t show ?thesis by (rule callback_frame_task) (use u t True in \<open>auto simp: same_task_def\<close>)
  next
    case False
    then show ?thesis using fr u by (auto simp: callback_frame_def)
  qed
qed

section \<open>The operations\<close>

lemma addRule_scan_frame: "scan_frame s (addRule W i rule s)"
  using addRule_evolves
proof (rule scan_frameI)
  fix r ri' assume ri': "ruleInfos (addRule W i rule s) r = Some ri'" "ri_state ri' = IsScanning \<or> ri_state ri' = DoesNotNeedToRun"
  have "ruleInfos s r = Some ri'"
  proof (cases "ruleInfos s r")
    case None
    then show ?thesis using ri' addRule_rules(1) [of r i W rule s] addRule_rules(3) [of s r W rule] by (cases "r = i") auto
  next
    case (Some ri)
    then show ?thesis using ri'(1) addRule_evolves [of s W i rule] addRule_rules(1) [of r i W rule s]
        addRule_rules(2) [of s r ri W rule] by (cases "r = i") auto
  qed
  then show "\<exists>ri. ruleInfos s r = Some ri \<and> ri_state ri = ri_state ri' \<and>
        (\<forall>rec'. ri_inProgressInfo ri' = PendingScanRecord rec' \<longrightarrow>
          (\<exists>rec. ri_inProgressInfo ri = PendingScanRecord rec \<and> deferredScanRequests rec' = deferredScanRequests rec) \<or>
          deferredScanRequests rec' = [])" by auto
qed (auto simp: addRule_frame)

lemma getKeyID_scan_frame: "scan_frame s (snd (getKeyID key s))"
  by (rule scan_frame_same) (auto simp: getKeyID_def Let_def intro: evolves_extend split: if_splits)

lemma getRuleInfoForKey_scan_frame: "scan_frame s (snd (getRuleInfoForKey W key s))"
  by (simp add: getRuleInfoForKey_snd Let_def getKeyID_scan_frame scan_frame_trans [OF getKeyID_scan_frame addRule_scan_frame])

lemma getRuleInfoForKeyID_scan_frame: "getRuleInfoForKeyID W i s = Some s' \<Longrightarrow> scan_frame s s'"
  by (auto simp: getRuleInfoForKeyID_def addRule_scan_frame split: if_splits)

lemma finish_scan_frame:
  assumes "finishScanRequest r NeedsToRun s = Some s'"
  shows "scan_frame s s'"
proof -
  have ev: "evolves s s'" using assms by (rule finishScanRequest_evolves) simp
  from assms obtain ri rec where r: "ruleInfos s r = Some ri" "isScanning ri" "ri_inProgressInfo ri = PendingScanRecord rec"
    "s' = s\<lparr>ruleInfosToScan := ruleInfosToScan s @ deferredScanRequests rec,
           inputRequests := inputRequests s @ pausedInputRequests rec,
           ruleInfos := (ruleInfos s)(r \<mapsto> ri\<lparr>ri_inProgressInfo := NoInfo, ri_state := NeedsToRun\<rparr>)\<rparr>"
    by (rule finishScanRequest_Some)
  then show ?thesis
    using ev by (auto simp: scan_frame_def in_scan_def isScanning_def split: if_splits)
qed

lemma register_task_scan_frame:
  assumes "ruleInfos s r = Some ri" "ri_state ri = NeedsToRun"
  shows "scan_frame s (register_task W r rule s)"
  using register_task_evolves [OF assms]
proof (rule scan_frameI)
  show "set (ruleInfosToScan (register_task W r rule s)) \<subseteq> set (ruleInfosToScan s)"
    by (simp add: register_task_def upd_rule_def)
qed (auto simp: register_task_def upd_rule_def new_TaskInfo_def split: if_splits)

lemma demandRule_scan_frame:
  assumes d: "demandRule W r s = Some (b, s')" and inv: "engine_inv H {} k s"
  shows "scan_frame s s'"
  using d
proof (cases rule: demandRule_cases)
  case (upToDate ri ev)
  then show ?thesis
    using demandRule_evolves [OF d]
    by (intro scan_frameI) (auto simp: setComplete_def split: if_splits)
next
  case (started ri s2 s3 ti)
  let ?t = "nextTask s" let ?s1 = "register_task W r (ri_rule ri) s"
  have "callback_frame ?t ?s1 s3" using demandRule_started [OF inv started(1,2,4,5)] by simp
  moreover have "evolves ?s1 s3"
  proof -
    have "evolves ?s1 s2" using run_callback_evolves [OF started(4)] evolves_emit evolves_trans by blast
    moreover have "evolves s2 s3" using started(5) run_callback_evolves by (metis evolves_emit evolves_refl evolves_trans)
    ultimately show ?thesis by (rule evolves_trans)
  qed
  moreover have "taskInfos ?s1 ?t = Some (new_TaskInfo (createTask W (ri_rule ri)) r)"
    by (simp add: register_task_def upd_rule_def)
  ultimately have "scan_frame ?s1 s3" by (rule callback_scan_frame)
  moreover have "scan_frame s3 s'" unfolding started(7) by (rule scan_frame_same) (auto intro: evolves_extend)
  ultimately show ?thesis using register_task_scan_frame [OF started(1,2)] scan_frame_trans by blast
qed simp_all

text \<open>\<^verbatim>\<open>scanRule\<close> may enqueue the first request of a rule, or find that the rule need not run.\<close>

lemma scanRule_scan_inv:
  assumes sc: "scanRule W r s = Some (b, s')" and inv: "scan_inv D W s"
  shows "scan_inv D W s'"
  using sc
proof (cases rule: scanRule_cases)
  case (fresh ri ri' ev q0)
  have evo: "evolves s s'" using sc by (rule scanRule_evolves)
  have rules: "ruleInfos s' = (ruleInfos s)(r \<mapsto> ri')" and ep: "currentEpoch s' = currentEpoch s"
    using fresh(4) by simp_all
  have old: "in_scan s q \<or> q \<in> set q0" if "in_scan s' q" for q
    using that fresh(4,9) by (auto simp: in_scan_def isScanning_def new_scan_record_def split: if_splits)
  have new: "scan_ok W s' q" if q: "q \<in> set q0" for q
  proof -
    have nb: "\<not> b" and q': "q = \<lparr>rsr_ruleInfo = r, rsr_inputIndex = 0, rsr_inputRuleInfo = None,
        rsr_orderOnly = False, rsr_singleUse = False\<rparr>" using q fresh(9) by (auto split: if_splits)
    have "isScanning ri'" "\<not> empty_deps (res_dependencies (ri_result ri'))" "validated W ri'"
      using nb fresh(9,10) by (auto simp: isScanning_def validated_def)
    then show ?thesis
      using rules q' by (auto simp: scan_ok_def settled_def empty_deps_def size_deps_def)
  qed
  have "skip_ok D W s'"
    using inv [unfolded scan_inv_def, THEN conjunct2] evo
  proof (rule skip_ok_evolves)
    fix ra x assume x: "ruleInfos s' ra = Some x" "ri_state x = DoesNotNeedToRun"
    show "(\<exists>ri. ruleInfos s ra = Some ri \<and> ri_state ri = DoesNotNeedToRun) \<or>
        validated W x \<and> settled s' x (size_deps (res_dependencies (ri_result x)))"
    proof (cases "ra = r")
      case True
      then have "x = ri'" using x(1) rules by simp
      then have "empty_deps (res_dependencies (ri_result x))" "validated W x"
        using x(2) fresh(9,10) by (auto simp: validated_def split: if_splits)
      then show ?thesis by (simp add: settled_def empty_deps_def size_deps_def)
    qed (use x rules in auto)
  qed
  then show ?thesis
    using old new inv scan_ok_evolves [OF _ evo] unfolding scan_inv_def by blast
qed (use inv in simp)

definition scan_passed :: "('ts, 'db) client \<Rightarrow> ('ts, 'db) engine \<Rightarrow> KeyID \<Rightarrow> nat \<Rightarrow> bool" where
  "scan_passed W s r n = (\<exists>ri. ruleInfos s r = Some ri \<and>
     (isScanned (currentEpoch s) ri \<or> isScanning ri \<and> validated W ri \<and> settled s ri n))"

lemma not_scanned_scanning: "isScanning ri \<Longrightarrow> \<not> isScanned ep ri"
  by (simp add: state_defs)

lemma finish_scan_passed:
  assumes fin: "finishScanRequest r DoesNotNeedToRun s = Some s'" and inv: "scan_inv D W s"
    and passed: "scan_passed W s r n" and all: "\<And>ri. ruleInfos s r = Some ri \<Longrightarrow> n = size_deps (res_dependencies (ri_result ri))"
  shows "scan_inv D W s'"
proof -
  have evo: "evolves s s'" using fin by (rule finishScanRequest_evolves) simp
  from fin obtain ri rec where r: "ruleInfos s r = Some ri" "isScanning ri" "ri_inProgressInfo ri = PendingScanRecord rec"
    "s' = s\<lparr>ruleInfosToScan := ruleInfosToScan s @ deferredScanRequests rec,
           inputRequests := inputRequests s @ pausedInputRequests rec,
           ruleInfos := (ruleInfos s)(r \<mapsto> ri\<lparr>ri_inProgressInfo := NoInfo, ri_state := DoesNotNeedToRun\<rparr>)\<rparr>"
    by (rule finishScanRequest_Some)
  have ok: "validated W ri" "settled s ri (size_deps (res_dependencies (ri_result ri)))"
    using passed r(1,2) all [OF r(1)] not_scanned_scanning by (auto simp: scan_passed_def)
  have old: "in_scan s q" if "in_scan s' q" for q
    using that r by (auto simp: in_scan_def isScanning_def split: if_splits)
  have "skip_ok D W s'"
    using inv [unfolded scan_inv_def, THEN conjunct2] evo
  proof (rule skip_ok_evolves)
    fix ra x assume x: "ruleInfos s' ra = Some x" "ri_state x = DoesNotNeedToRun"
    show "(\<exists>ri. ruleInfos s ra = Some ri \<and> ri_state ri = DoesNotNeedToRun) \<or>
        validated W x \<and> settled s' x (size_deps (res_dependencies (ri_result x)))"
    proof (cases "ra = r")
      case True
      then have x': "ri_result x = ri_result ri" "ri_rule x = ri_rule ri" using x(1) r(4) by auto
      then show ?thesis
        using ok settled_evolves [OF ok(2) evo] settled_result [of x ri s'] validated_result [of x ri W] by simp
    qed (use x r in auto)
  qed
  then show ?thesis using old inv scan_ok_evolves [OF _ evo] unfolding scan_inv_def by blast
qed

lemma defer_on_scan_scan_inv:
  assumes d: "defer_on_scan r q s = Some s'" and inv: "scan_inv D W s" and q: "scan_ok W s q"
  shows "scan_inv D W s'"
proof -
  have evo: "evolves s s'" using d by (rule defer_on_scan_evolves)
  from d obtain ri rec where r: "ruleInfos s r = Some ri" "isScanning ri" "ri_inProgressInfo ri = PendingScanRecord rec"
    "s' = upd_rule r (\<lambda>ri. ri\<lparr>ri_inProgressInfo := PendingScanRecord
                  (rec\<lparr>deferredScanRequests := deferredScanRequests rec @ [q]\<rparr>)\<rparr>) s"
    by (auto simp: defer_on_scan_def getPendingScanRecord_def split: if_splits InProgressInfo.splits)
  have old: "in_scan s q' \<or> q' = q" if "in_scan s' q'" for q'
    using that r by (auto simp: in_scan_def upd_rule_def split: if_splits)
  have "skip_ok D W s'"
    using inv [unfolded scan_inv_def, THEN conjunct2] evo
    by (rule skip_ok_evolves) (use r in \<open>auto simp: upd_rule_def isScanning_def split: if_splits\<close>)
  then show ?thesis using old q inv scan_ok_evolves [OF _ evo] unfolding scan_inv_def by blast
qed

lemma defer_on_task_scan_inv:
  assumes d: "defer_on_task r q s = Some s'" and inv: "scan_inv D W s" and q: "scan_ok W s q"
  shows "scan_inv D W s'"
proof -
  have evo: "evolves s s'" using d by (rule defer_on_task_evolves)
  from d obtain t where t: "s' = upd_task t (\<lambda>ti. ti\<lparr>ti_deferredScanRequests := ti_deferredScanRequests ti @ [q]\<rparr>) s"
    by (auto simp: defer_on_task_def)
  have old: "in_scan s q' \<or> q' = q" if "in_scan s' q'" for q'
    using that t by (auto simp: in_scan_def upd_task_def split: if_splits)
  have "skip_ok D W s'"
    using inv [unfolded scan_inv_def, THEN conjunct2] evo
    by (rule skip_ok_evolves) (use t in \<open>auto simp: upd_task_def\<close>)
  then show ?thesis using old q inv scan_ok_evolves [OF _ evo] unfolding scan_inv_def by blast
qed

lemma load_scan_input_scan:
  assumes l: "load_scan_input W q s = Some (i, q', s')" and inv: "scan_inv D W s" and q: "scan_ok W s q"
  shows "scan_inv D W s'" "scan_ok W s' q'" "rsr_inputRuleInfo q' = Some i" "rsr_ruleInfo q' = rsr_ruleInfo q"
    "rsr_inputIndex q' = rsr_inputIndex q"
proof -
  have "scan_frame s s'"
    using l by (auto simp: load_scan_input_def Let_def getRuleInfoForKeyID_scan_frame split: option.splits if_splits)
  then show "scan_inv D W s'" using inv scan_frame_inv by blast
  show i: "rsr_inputRuleInfo q' = Some i" "rsr_ruleInfo q' = rsr_ruleInfo q" "rsr_inputIndex q' = rsr_inputIndex q"
    using l by (auto simp: load_scan_input_def Let_def split: option.splits if_splits)
  have evo: "evolves s s'" using l by (rule load_scan_input_evolves)
  have "scan_ok W s q'"
    using l q by (auto simp: load_scan_input_def Let_def scan_ok_def split: option.splits if_splits)
  then show "scan_ok W s' q'" using evo by (rule scan_ok_evolves)
qed

section \<open>The scan loop\<close>

lemma scan_passed_input:
  assumes ok: "scan_ok W s q" and q: "rsr_inputRuleInfo q = Some i"
    and ri: "ruleInfos s (rsr_ruleInfo q) = Some ri" and iri: "ruleInfos s i = Some iri" "isComplete (currentEpoch s) iri"
    and older: "rsr_orderOnly q \<or> res_computedAt (ri_result iri) \<le> res_builtAt (ri_result ri)"
  shows "scan_passed W s (rsr_ruleInfo q) (rsr_inputIndex q + 1)"
proof (cases "isScanned (currentEpoch s) ri")
  case True
  then show ?thesis using ri by (simp add: scan_passed_def)
next
  case False
  let ?d = "res_dependencies (ri_result ri)" let ?n = "rsr_inputIndex q"
  from ok ri False have sc: "isScanning ri" "validated W ri" "settled s ri ?n" "?n < size_deps ?d"
    "kf_keyID (subscript ?d ?n) = i" "kf_orderOnly (subscript ?d ?n) = rsr_orderOnly q"
    using q by (auto simp: scan_ok_def)
  have "input_settled s ri (subscript ?d ?n)" using sc(5,6) iri older by (simp add: input_settled_def)
  then have "settled s ri (?n + 1)" using sc(3,4) by (auto simp: settled_def less_Suc_eq)
  then show ?thesis using ri sc(1,2) by (simp add: scan_passed_def)
qed

lemma scan_passed_ok:
  assumes "scan_passed W s r n" "ruleInfos s r = Some ri" "n \<noteq> size_deps (res_dependencies (ri_result ri))"
    and "rsr_ruleInfo q = r" "rsr_inputIndex q = n" "rsr_inputRuleInfo q = None"
  shows "scan_ok W s q"
  using assms by (auto simp: scan_passed_def scan_ok_def settled_def)

lemma scan_one_input_scan:
  assumes one: "scan_one_input W q s = Some r" and inv: "engine_inv H {} k s" "scan_inv D W s" "scan_ok W s q"
  shows "case r of Inl s' \<Rightarrow> scan_inv D W s'
    | Inr (q', s') \<Rightarrow> engine_inv H {} k s' \<and> scan_inv D W s' \<and> scan_passed W s' (rsr_ruleInfo q') (rsr_inputIndex q') \<and>
        rsr_inputRuleInfo q' = None"
  using one
proof (cases rule: scan_one_input_cases)
  case (scanning i q1 s1 s2 s3)
  note l = load_scan_input_scan [OF scanning(1) inv(2,3)]
  have "scan_inv D W s2" using scanning(2) l(1) by (rule scanRule_scan_inv)
  moreover have "scan_ok W s2 q1" using l(2) scanRule_evolves [OF scanning(2)] by (rule scan_ok_evolves)
  ultimately show ?thesis using scanning(3,4) defer_on_scan_scan_inv by fastforce
next
  case (building i q1 s1 s2 s3 s4)
  note l = load_scan_input_scan [OF building(1) inv(2,3)]
  have e2: "engine_inv H {} k s2" using building(1,2) inv(1) load_scan_input_inv scanRule_inv by blast
  have "scan_inv D W s3"
    using scanRule_scan_inv [OF building(2) l(1)] demandRule_scan_frame [OF building(3) e2] by (rule scan_frame_inv)
  moreover have "scan_ok W s3 q1"
    using l(2) evolves_trans [OF scanRule_evolves [OF building(2)] demandRule_evolves [OF building(3)]] by (rule scan_ok_evolves)
  ultimately show ?thesis using building(4,5) defer_on_task_scan_inv by fastforce
next
  case (rebuilt i q1 s1 s2 s3 s4 ri iri)
  note l = load_scan_input_scan [OF rebuilt(1) inv(2,3)]
  have e2: "engine_inv H {} k s2" using rebuilt(1,2) inv(1) load_scan_input_inv scanRule_inv by blast
  have "scan_inv D W s3"
    using scanRule_scan_inv [OF rebuilt(2) l(1)] demandRule_scan_frame [OF rebuilt(3) e2] by (rule scan_frame_inv)
  then have "scan_inv D W s4" using finish_scan_frame [OF rebuilt(8)] by (rule scan_frame_inv)
  then show ?thesis using rebuilt(9) scan_frame_inv [OF _ scan_frame_emit] by simp
next
  case (unchanged i q1 s1 s2 s3 ri iri)
  note l = load_scan_input_scan [OF unchanged(1) inv(2,3)]
  have e2: "engine_inv H {} k s2" using unchanged(1,2) inv(1) load_scan_input_inv scanRule_inv by blast
  have e3: "engine_inv H {} k s3" using unchanged(3) e2 by (rule demandRule_inv)
  have inv3: "scan_inv D W s3"
    using scanRule_scan_inv [OF unchanged(2) l(1)] demandRule_scan_frame [OF unchanged(3) e2] by (rule scan_frame_inv)
  have "isComplete (currentEpoch s3) iri" using demandRule_result [OF unchanged(3) e2] unchanged(5) by simp
  moreover have "scan_ok W s3 q1"
    using l(2) evolves_trans [OF scanRule_evolves [OF unchanged(2)] demandRule_evolves [OF unchanged(3)]] by (rule scan_ok_evolves)
  ultimately have "scan_passed W s3 (rsr_ruleInfo q1) (rsr_inputIndex q1 + 1)"
    using scan_passed_input [OF _ l(3) unchanged(4,5)] unchanged(6) by blast
  then show ?thesis using unchanged(7) e3 inv3 by simp
qed

lemma scan_inputs_scan:
  assumes "scan_inputs n W q s = Some s'" "engine_inv H {} k s" "scan_inv D W s" "scan_ok W s q"
  shows "scan_inv D W s'"
  using assms
proof (induction n arbitrary: q s)
  case (Suc n)
  then obtain r where r: "scan_one_input W q s = Some r" by auto
  note one = scan_one_input_scan [OF r Suc.prems(2-4)]
  show ?case
  proof (cases r)
    case (Inl s1)
    then show ?thesis using one r Suc.prems(1) by simp
  next
    case (Inr p)
    obtain q1 s1 where p: "p = (q1, s1)" by (cases p)
    have o: "engine_inv H {} k s1" "scan_inv D W s1" "scan_passed W s1 (rsr_ruleInfo q1) (rsr_inputIndex q1)"
      "rsr_inputRuleInfo q1 = None" using one Inr p by simp_all
    from Suc.prems(1) r Inr p obtain ri where ri: "ruleInfos s1 (rsr_ruleInfo q1) = Some ri"
      and rest: "(if rsr_inputIndex q1 \<noteq> size_deps (res_dependencies (ri_result ri)) then scan_inputs n W q1 s1
                  else finishScanRequest (rsr_ruleInfo q1) DoesNotNeedToRun s1) = Some s'" by auto
    show ?thesis
    proof (cases "rsr_inputIndex q1 = size_deps (res_dependencies (ri_result ri))")
      case True
      with rest have "finishScanRequest (rsr_ruleInfo q1) DoesNotNeedToRun s1 = Some s'" by simp
      then show ?thesis using o(2,3) by (rule finish_scan_passed) (use ri True in simp)
    next
      case False
      then show ?thesis using rest Suc.IH [OF _ o(1,2)] scan_passed_ok [OF o(3) ri False] o(4) by simp
    qed
  qed
qed simp

lemma scan_item_scan_inv:
  assumes item: "scan_item W s = Some s'" and ne: "ruleInfosToScan s \<noteq> []" and inv: "engine_inv H {} k s" "scan_inv D W s"
  shows "scan_inv D W s'"
proof -
  let ?q = "last (ruleInfosToScan s)" let ?s = "s\<lparr>ruleInfosToScan := butlast (ruleInfosToScan s)\<rparr>"
  have "?q \<in> set (ruleInfosToScan s)" using ne by simp
  then have "scan_ok W s ?q" using inv(2) by (auto simp: scan_inv_def in_scan_def)
  then have q: "scan_ok W ?s ?q" by (rule scan_ok_evolves) (auto intro: evolves_extend)
  have "scan_frame s ?s" by (rule scan_frameI) (auto intro: evolves_extend dest: in_set_butlastD)
  then have s: "scan_inv D W ?s" using inv(2) scan_frame_inv by blast
  have e: "engine_inv H {} k ?s" using inv(1) by (simp add: engine_inv_def)
  show ?thesis
    using item s scan_inputs_scan [OF _ e s q]
    by (auto simp: scan_item_def processRuleScanRequest_def split: if_splits)
qed

section \<open>The other queues\<close>

lemma pause_scan_frame: "pause_input_request q s = Some s' \<Longrightarrow> scan_frame s s'"
  by (rule scan_frameI [OF pause_input_request_evolves])
    (auto simp: pause_input_request_def upd_rule_def getPendingScanRecord_def isScanning_def split: if_splits InProgressInfo.splits)

lemma record_scan_frame:
  assumes "record_dependency t q s = Some s'" "waiting_task t s"
  shows "scan_frame s s'"
  using record_dependency_evolves [OF assms]
  by (rule scan_frameI) (use assms in \<open>auto simp: record_dependency_def waiting_task_def upd_rule_def split: if_splits\<close>)

lemma await_scan_frame: "await_input q s = Some s' \<Longrightarrow> scan_frame s s'"
  by (rule scan_frame_same [OF await_input_evolves]) (auto simp: await_input_def upd_task_def split: if_splits)

lemma process_input_request_scan_inv:
  assumes "process_input_request W q s = Some s'" and inv: "engine_inv (q # H) {} k s" "scan_inv D W s"
  shows "scan_inv D W s'"
  using assms(1)
proof (cases rule: process_input_request_cases)
  case scanning
  then show ?thesis using scanRule_scan_inv inv(2) pause_scan_frame scan_frame_inv by blast
next
  case (dummy s1 b)
  have "engine_inv (q # H) {} k s1" using dummy(1) inv(1) by (rule scanRule_inv)
  then show ?thesis
    using scanRule_scan_inv [OF dummy(1) inv(2)] demandRule_scan_frame [OF dummy(2)] scan_frame_inv by blast
next
  case (available s1 s2 s3 t)
  have e1: "engine_inv (q # H) {} k s1" using available(1) inv(1) by (rule scanRule_inv)
  have w: "waiting_task t s2" using demandRule_inv [OF available(2) e1] hand_waiting available(3) by blast
  have "scan_frame s3 s'" unfolding available(5) by (rule scan_frame_same) (auto intro: evolves_extend)
  then have "scan_frame s1 s'"
    using demandRule_scan_frame [OF available(2) e1] record_scan_frame [OF available(4) w] scan_frame_trans by blast
  then show ?thesis using scanRule_scan_inv [OF available(1) inv(2)] scan_frame_inv by blast
next
  case (awaiting s1 s2 s3 t)
  have e1: "engine_inv (q # H) {} k s1" using awaiting(1) inv(1) by (rule scanRule_inv)
  have w: "waiting_task t s2" using demandRule_inv [OF awaiting(2) e1] hand_waiting awaiting(3) by blast
  have "scan_frame s1 s'"
    using demandRule_scan_frame [OF awaiting(2) e1] record_scan_frame [OF awaiting(4) w] await_scan_frame [OF awaiting(5)]
      scan_frame_trans by blast
  then show ?thesis using scanRule_scan_inv [OF awaiting(1) inv(2)] scan_frame_inv by blast
qed

lemma input_item_scan_inv:
  assumes item: "input_item W s = Some s'" and inv: "engine_inv [] {} k s" "scan_inv D W s" and ne: "inputRequests s \<noteq> []"
  shows "scan_inv D W s'"
proof -
  obtain q xs where q: "inputRequests s = q # xs" using ne by (cases "inputRequests s") auto
  let ?s = "s\<lparr>inputRequests := xs\<rparr>"
  have p: "process_input_request W q ?s = Some s'" using item q by (simp add: input_item_def)
  have "scan_inv D W ?s" using inv(2) by (simp add: scan_inv_def scan_ok_def skip_ok_def settled_def input_settled_def in_scan_def)
  then show ?thesis using p engine_inv_hand(1) [OF inv(1) q] process_input_request_scan_inv by blast
qed

lemma reject_call_scan_frame: "scan_frame s (reject_call m s)"
  by (rule scan_frame_same) (auto simp: reject_call_def emit_def intro: evolves_extend)

lemma perform_call_scan_frame:
  assumes "perform_call W t c s = Some s'"
  shows "scan_frame s s'"
proof -
  have evo: "evolves s s'" using assms by (rule perform_call_evolves)
  have add: "scan_frame s s'" if "addTaskInputRequest W t key i oo su s = Some s'" for key i oo su
    using that by (rule addTaskInputRequest_Some) (use callback_scan_frame [OF addTaskInputRequest_frame(1) [OF that] evo] in blast)
  show ?thesis
  proof (cases c)
    case (CallDiscoveredDependency key)
    with assms have d: "taskDiscoveredDependency t key s = Some s'" by simp
    then obtain ti where "taskInfos s t = Some ti" by (auto simp: taskDiscoveredDependency_def)
    then show ?thesis using callback_scan_frame [OF taskDiscoveredDependency_frame(1) [OF d] evo] by blast
  next
    case (CallComplete v f)
    with assms have "taskIsComplete t v f s = Some s'" by simp
    then show ?thesis
    proof (cases rule: taskIsComplete_cases)
      case (finished ti ri)
      then show ?thesis using callback_scan_frame [OF _ evo] by blast
    qed (simp add: reject_call_scan_frame)
  qed (use assms add reject_call_scan_frame in \<open>auto simp: taskNeedsInput_def taskNeedsSingleUseInput_def taskMustFollow_def split: if_splits\<close>)
qed

lemma perform_calls_scan_frame: "perform_calls W t cs s = Some s' \<Longrightarrow> scan_frame s s'"
proof (induction cs arbitrary: s)
  case (Cons c cs)
  then obtain s1 where "perform_call W t c s = Some s1" "perform_calls W t cs s1 = Some s'" by auto
  then show ?case using perform_call_scan_frame Cons.IH scan_frame_trans by blast
qed simp

lemma upd_task_scan_frame:
  "(\<And>ti. ti_deferredScanRequests (f ti) = ti_deferredScanRequests ti) \<Longrightarrow> scan_frame s (upd_task t f s)"
  by (rule scan_frame_same [OF upd_task_evolves]) (auto simp: upd_task_def split: if_splits)

lemma run_callback_scan_frame: "run_callback W t cb s = Some s' \<Longrightarrow> scan_frame s s'"
proof -
  assume "run_callback W t cb s = Some s'"
  then obtain cs x where "perform_calls W t cs (upd_task t (\<lambda>ti. ti\<lparr>ti_task := x\<rparr>) s) = Some s'"
    by (auto simp: run_callback_def split_def)
  then have "scan_frame (upd_task t (\<lambda>ti. ti\<lparr>ti_task := x\<rparr>) s) s'" by (rule perform_calls_scan_frame)
  moreover have "scan_frame s (upd_task t (\<lambda>ti. ti\<lparr>ti_task := x\<rparr>) s)" by (rule upd_task_scan_frame) simp
  ultimately show ?thesis using scan_frame_trans by blast
qed

lemma finished_input_item_scan_frame: "finished_input_item W s = Some s' \<Longrightarrow> scan_frame s s'"
proof -
  assume item: "finished_input_item W s = Some s'"
  let ?s = "s\<lparr>finishedInputRequests := butlast (finishedInputRequests s)\<rparr>"
  have 1: "scan_frame s ?s" by (rule scan_frame_same) (auto intro: evolves_extend)
  from item obtain t e s1 where d: "decrementTaskWaitCount t s1 = Some s'"
    and "s1 = ?s \<or> (\<exists>cb. run_callback W t cb (emit e ?s) = Some s1)"
    by (auto simp: finished_input_item_def process_finished_input_def split: if_splits)
  then have 2: "scan_frame ?s s1" using run_callback_scan_frame scan_frame_emit scan_frame_refl scan_frame_trans by metis
  have "evolves s1 s'"
    using d by (intro evolves_extend) (auto simp: decrementTaskWaitCount_def Let_def upd_task_def split: if_splits)
  then have "scan_frame s1 s'"
    by (rule scan_frame_same) (use d in \<open>auto simp: decrementTaskWaitCount_def Let_def upd_task_def split: if_splits\<close>)
  then show ?thesis using 1 2 scan_frame_trans by blast
qed

lemma ready_item_scan_frame: "ready_item W s = Some s' \<Longrightarrow> scan_frame s s'"
proof -
  assume item: "ready_item W s = Some s'"
  let ?s = "s\<lparr>readyTaskInfos := tl (readyTaskInfos s)\<rparr>"
  have 1: "scan_frame s ?s" by (rule scan_frame_same) (auto intro: evolves_extend)
  from item obtain t r ri ri1 s1 where ri: "ruleInfos ?s r = Some ri" "setComputing (clock s) ri = Some ri1"
    and run: "run_callback W t (task_inputsAvailable W) (emit (EvInputsAvailable t) (upd_rule r (\<lambda>_. ri1) ?s)) = Some s1"
    and s': "s' = s1\<lparr>numOutstandingUnfinishedTasks := Suc (numOutstandingUnfinishedTasks s1)\<rparr>"
    by (auto simp: ready_item_def process_ready_task_def split: if_splits)
  have "evolves ?s (upd_rule r (\<lambda>_. ri1) ?s)"
    using ri by (intro evolves_upd [where r = r and a = ri and b = ri1])
      (auto simp: upd_rule_def setComputing_def advance_def state_defs split: if_splits)
  then have 2: "scan_frame ?s (upd_rule r (\<lambda>_. ri1) ?s)"
    by (rule scan_frameI) (use ri in \<open>auto simp: upd_rule_def setComputing_def split: if_splits\<close>)
  have 3: "scan_frame (upd_rule r (\<lambda>_. ri1) ?s) s1"
    using run_callback_scan_frame [OF run] scan_frame_emit scan_frame_trans by blast
  have "scan_frame s1 s'" unfolding s' by (rule scan_frame_same) (auto intro: evolves_extend)
  then show ?thesis using 1 2 3 scan_frame_trans by blast
qed

lemma request_discovered_scan_frame: "request_discovered W ds s = Some s' \<Longrightarrow> scan_frame s s'"
proof (induction ds arbitrary: s)
  case (Cons d ds)
  then obtain s1 q where s1: "getRuleInfoForKeyID W (kf_keyID d) s = Some s1"
    and rest: "request_discovered W ds (s1\<lparr>inputRequests := inputRequests s1 @ [q]\<rparr>) = Some s'" by auto
  have "scan_frame s1 (s1\<lparr>inputRequests := inputRequests s1 @ [q]\<rparr>)" by (rule scan_frame_same) (auto intro: evolves_extend)
  then show ?case using getRuleInfoForKeyID_scan_frame [OF s1] Cons.IH [OF rest] scan_frame_trans by blast
qed simp

lemma release_task_scan_frame:
  assumes "release_task t s = Some s'"
  shows "scan_frame s s'"
proof -
  have "evolves s s'"
    using assms by (intro evolves_extend) (auto simp: release_task_def decrement_outstanding_def split: if_splits)
  then show ?thesis
    using assms by (auto simp: scan_frame_def in_scan_def release_task_def decrement_outstanding_def split: if_splits)
qed

lemma finished_task_item_scan_frame:
  assumes "finished_task_item W s = Some (True, s')" "finishedTaskInfos s \<noteq> []"
  shows "scan_frame s s'"
proof -
  obtain ds t where d: "finishedTaskInfos s = ds @ [t]" using assms(2) by (cases "finishedTaskInfos s" rule: rev_cases) auto
  from assms(1) d show ?thesis
  proof (rule finished_task_item_cases)
    let ?s = "s\<lparr>finishedTaskInfos := ds\<rparr>"
    fix ti ri s1 ri1 s2
    assume ri: "ruleInfos s (ti_forRuleInfo ti) = Some ri" "ri_state ri = InProgressComputing"
      and s1: "request_discovered W (deps_list (ti_discoveredDependencies ti)) (complete_rule (ti_forRuleInfo ti) ti ?s) = Some s1"
      and s2: "store_result W ri1 s1 = (True, s2)" and s': "True \<Longrightarrow> release_task t s2 = Some s'"
    have 1: "scan_frame s ?s" by (rule scan_frame_same) (auto intro: evolves_extend)
    have "evolves ?s (complete_rule (ti_forRuleInfo ti) ti ?s)"
      using complete_rule_evolves [of ?s "ti_forRuleInfo ti" ri ti] ri by simp
    then have 2: "scan_frame ?s (complete_rule (ti_forRuleInfo ti) ti ?s)"
      by (rule scan_frameI) (use ri in \<open>auto simp: complete_rule_def Let_def upd_rule_def emit_def setComplete_def split: if_splits\<close>)
    have "evolves s1 s2"
      using s2 by (intro evolves_extend) (auto simp: store_result_def emit_def split: option.splits prod.splits)
    then have 3: "scan_frame s1 s2"
      by (rule scan_frame_same) (use s2 in \<open>auto simp: store_result_def emit_def split: option.splits prod.splits\<close>)
    show ?thesis
      using 1 2 3 request_discovered_scan_frame [OF s1] release_task_scan_frame [OF s' [OF TrueI]] scan_frame_trans by blast
  qed
qed

lemma force_build_scan_frame:
  assumes "force_build r key s = Some s'"
  shows "scan_frame s s'"
proof -
  define s1 where "s1 = (case findRuleScanRequestForRule (ruleInfosToScan s) r of
                      None \<Rightarrow> s | Some i \<Rightarrow> s\<lparr>ruleInfosToScan := erase_at i (ruleInfosToScan s)\<rparr>)"
  from assms obtain s2 where s2: "finishScanRequest r NeedsToRun s1 = Some s2"
    and s': "s' = upd_rule r (\<lambda>ri. ri\<lparr>ri_wasForced := True\<rparr>) (emit (EvNeedsToRun key Forced None) s2)"
    unfolding s1_def by (auto simp: force_build_def Let_def)
  have "evolves s s1" unfolding s1_def by (rule evolves_extend) (auto split: option.splits)
  then have 1: "scan_frame s s1"
    by (rule scan_frameI) (auto simp: s1_def dest: subsetD [OF set_erase_at_subset] split: option.splits)
  have 2: "scan_frame s1 s2" using s2 by (rule finish_scan_frame)
  obtain ri2 where ri2: "ruleInfos s2 r = Some ri2" "ri_state ri2 = NeedsToRun"
    using s2 by (rule finishScanRequest_Some) auto
  have "evolves s2 s'"
    using ri2 by (intro evolves_upd [where r = r and a = ri2 and b = "ri2\<lparr>ri_wasForced := True\<rparr>"])
      (auto simp: s' upd_rule_def emit_def advance_def state_defs)
  then have "scan_frame s2 s'"
    by (rule scan_frameI) (use ri2 in \<open>auto simp: s' upd_rule_def emit_def split: if_splits\<close>)
  then show ?thesis using 1 2 scan_frame_trans by blast
qed

lemma resolveCycle_scan_frame:
  assumes "resolveCycle W key s = Some (b, s')"
  shows "scan_frame s s'"
proof -
  from assms obtain c s1 b1 s2 where "findCycle W key s = Some (c, s1)" and b: "breakCycle W c s1 = Some (b1, s2)"
    and s': "s' = s2 \<or> (\<exists>e. s' = emit e s2)"
    by (auto simp: resolveCycle_def split: if_splits)
  then have "s1 = snd (getRuleInfoForKey W key s)" by (auto simp: findCycle_def split_def Let_def)
  then have 1: "scan_frame s s1" using getRuleInfoForKey_scan_frame by blast
  have "scan_frame s1 s2"
    using b [unfolded breakCycle_def] scan_frame_refl
  proof (rule break_walk_invariant [where I = "scan_frame s1"])
    have "scan_frame x (supply_prior_value t ti i x)" for x :: "('a, 'b) engine" and t ti i
    proof (rule scan_frame_same)
      show "evolves x (supply_prior_value t ti i x)"
        by (rule evolves_extend) (simp_all add: supply_prior_value_def upd_task_def)
    qed (auto simp: supply_prior_value_def upd_task_def split: if_splits)
    then show "scan_frame s1 x \<Longrightarrow> scan_frame s1 (supply_prior_value t ti i x)" for x t ti i
      using scan_frame_trans by blast
  qed (use getRuleInfoForKey_scan_frame force_build_scan_frame scan_frame_trans in blast)+
  moreover have "scan_frame s2 s'" using s' by auto
  ultimately show ?thesis using 1 scan_frame_trans by blast
qed

section \<open>The loop\<close>

lemma loop_step_scan_inv:
  assumes step: "executeTasks_step W key (ph, d, s) = Some (ph', d', s')" and inv: "config_inv (ph, d, s)" "scan_inv D W s"
    and ph': "ph' \<noteq> PhReturn False" and W: "db_writes_ok W"
  shows "scan_inv D W s'"
proof (cases ph)
  case PhScan
  then show ?thesis using step inv
    by (auto simp: config_inv_def after_item_def split: if_splits intro: scan_item_scan_inv)
next
  case PhInput
  then show ?thesis using step inv
    by (auto simp: config_inv_def after_item_def split: if_splits intro: input_item_scan_inv)
next
  case PhFinishedInput
  then show ?thesis using step inv(2)
    by (auto simp: after_item_def split: if_splits intro: scan_frame_inv finished_input_item_scan_frame)
next
  case PhReady
  then show ?thesis using step inv(2)
    by (auto simp: after_item_def split: if_splits intro: scan_frame_inv ready_item_scan_frame)
next
  case PhFinishedTask
  show ?thesis
  proof (cases "finishedTaskInfos s = []")
    case True
    then show ?thesis using step PhFinishedTask inv(2) by simp
  next
    case False
    then obtain b where b: "finished_task_item W s = Some (b, s')" using step PhFinishedTask by auto
    then have "b" using W False by (rule finished_task_item_ok)
    then show ?thesis using b False finished_task_item_scan_frame scan_frame_inv inv(2) by fastforce
  qed
next
  case PhNoWork
  show ?thesis
  proof (cases "\<exists>t \<in> set [0..<nextTask s]. taskInfos s t \<noteq> None")
    case True
    then obtain b where "resolveCycle W key s = Some (b, s')"
      using step PhNoWork by (auto simp del: set_upt split: if_splits)
    then show ?thesis using resolveCycle_scan_frame scan_frame_inv inv(2) by blast
  next
    case False
    then have "s' = s" using step PhNoWork by (simp del: set_upt)
    then show ?thesis using inv(2) by simp
  qed
next
  case PhCancel
  then have "drain_finished s = Some s'" using step ph' by (auto split: if_splits)
  moreover from this have "evolves s s'" by (intro evolves_extend) (auto simp: drain_finished_def split: if_splits)
  ultimately have "scan_frame s s'" by (intro scan_frame_same) (auto simp: drain_finished_def split: if_splits)
  then show ?thesis using inv(2) scan_frame_inv by blast
qed (use step inv(2) in \<open>auto split: if_splits\<close>)

lemma engine_step_scan_inv:
  assumes "engine_step W key (ph, d, s) (ph', d', s')" "config_inv (ph, d, s)" "scan_inv D W s" "ph' \<noteq> PhReturn False" "db_writes_ok W"
  shows "scan_inv D W s'"
  using assms(1)
proof cases
  case loop
  then show ?thesis using loop_step_scan_inv assms(2-5) by blast
next
  case (complete t v f)
  then show ?thesis using perform_call_scan_frame [of W t "CallComplete v f" s s'] scan_frame_inv assms(3) by simp
next
  case (discovered t k)
  then show ?thesis using perform_call_scan_frame [of W t "CallDiscoveredDependency k" s s'] scan_frame_inv assms(3) by simp
next
  case cancel
  have "scan_frame s s'" unfolding cancel
    by (rule scan_frame_same [OF cancelBuild_evolves]) (simp_all add: cancelBuild_frame)
  then show ?thesis using scan_frame_inv assms(3) by blast
next
  case (tick n)
  have "scan_frame s s'" unfolding tick by (rule scan_frame_same) (auto intro: evolves_extend)
  then show ?thesis using scan_frame_inv assms(3) by blast
qed

text \<open>
  A rested engine without a rule that is being scanned.  A mark \<open>DoesNotNeedToRun\<close> that an earlier build
  left on a rule is exempt: the code does not look at such a rule again.
\<close>

definition none_scanning :: "('ts, 'db) engine \<Rightarrow> bool" where
  "none_scanning s = (\<forall>r ri. ruleInfos s r = Some ri \<longrightarrow> \<not> isScanning ri)"

definition marked :: "('ts, 'db) engine \<Rightarrow> KeyID set" where
  "marked s = {r. \<exists>ri. ruleInfos s r = Some ri \<and> ri_state ri = DoesNotNeedToRun}"

lemma start_scan_inv:
  assumes "quiescent s0" "none_scanning s0" "executeTasks_start W key s0 = (ph, d, s)"
  shows "scan_inv (marked s0) W s"
proof -
  have q: "s0\<lparr>finishedInputRequests := []\<rparr> = s0" using assms(1) by (simp add: quiescent_def)
  let ?s1 = "snd (getRuleInfoForKey W key s0)"
  have "scan_inv (marked s0) W s0"
    using assms(1,2) by (auto simp: scan_inv_def in_scan_def skip_ok_def marked_def none_scanning_def quiescent_def)
  then have "scan_inv (marked s0) W ?s1" using getRuleInfoForKey_scan_frame scan_frame_inv by blast
  moreover have "scan_frame ?s1 s"
    using assms(3) q by (intro scan_frame_same evolves_extend) (auto simp: executeTasks_start_def split_def)
  ultimately show ?thesis using scan_frame_inv by blast
qed

end
