(* ===== verification/Engine_Skip.thy ===== *)
theory Engine_Skip
  imports Engine_Scan
begin

text \<open>
  What a skipped rule was skipped on.  The engine may decide to skip a rule and mark it complete inside one
  step of its loop, so the decision is not seen between two steps.  The invariant of this theory follows
  the records of the rules from the start of the build instead: a rule keeps the record it had, or was
  first given, until it is run or skipped; and a rule that is complete in this build was announced as
  complete when its task finished, or was skipped on that record and with up-to-date dependencies.
\<close>

section \<open>Records\<close>

text \<open>The result that a rule starts out with when it is first looked up.\<close>

definition first_record :: "('ts, 'db) client \<Rightarrow> KeyID \<Rightarrow> Rule \<Rightarrow> Result \<Rightarrow> bool" where
  "first_record W r rule res \<longleftrightarrow>
     res = empty_result \<or> (\<exists>d table. fst (snd (db_lookupRuleResult W d table r (rule_key rule))) = Some res)"

definition recorded :: "('ts, 'db) client \<Rightarrow> ('ts, 'db) engine \<Rightarrow> KeyID \<Rightarrow> Rule \<Rightarrow> Result \<Rightarrow> bool" where
  "recorded W s0 r rule res \<longleftrightarrow>
     (case ruleInfos s0 r of Some ri \<Rightarrow> res = ri_result ri | None \<Rightarrow> first_record W r rule res)"

definition cleaned :: "Result \<Rightarrow> Result" where
  "cleaned res = res\<lparr>res_dependencies := cleanSingleUseDependencies (res_dependencies res)\<rparr>"

text \<open>The engine told the client, after the first \<open>n\<close> events, that the task of the rule is complete.\<close>

definition announced :: "nat \<Rightarrow> ('ts, 'db) engine \<Rightarrow> Rule \<Rightarrow> bool" where
  "announced n s rule \<longleftrightarrow> EvStatus (rule_key rule) StatusIsComplete \<in> set (drop n (events s))"

text \<open>
  Events are only appended, and so are keys: looking up a result may intern the keys of the dependencies,
  which hands out new ids and keeps the old ones.
\<close>

definition keys_grow :: "('ts, 'db) client \<Rightarrow> bool" where
  "keys_grow W \<longleftrightarrow> (\<forall>d table i key. \<exists>ks. fst (db_lookupRuleResult W d table i key) = table @ ks)"

definition grows :: "('ts, 'db) client \<Rightarrow> ('ts, 'db) engine \<Rightarrow> ('ts, 'db) engine \<Rightarrow> bool" where
  "grows W s s' \<longleftrightarrow>
     (\<exists>es. events s' = events s @ es) \<and> (keys_grow W \<longrightarrow> (\<exists>ks. keyTable s' = keyTable s @ ks))"

lemma grows_refl [simp]: "grows W s s"
  by (simp add: grows_def)

lemma grows_trans: "grows W s s' \<Longrightarrow> grows W s' s'' \<Longrightarrow> grows W s s''"
  unfolding grows_def by force

lemma announced_grows: "announced n s rule \<Longrightarrow> grows W s s' \<Longrightarrow> announced n s' rule"
  unfolding announced_def grows_def by auto

lemma announced_later: "announced (length (events s')) s'' rule \<Longrightarrow> grows W s s' \<Longrightarrow> announced (length (events s)) s'' rule"
  unfolding announced_def grows_def using set_drop_subset_set_drop [of "length (events s)" "length (events s')" "events s''"] by auto

text \<open>What all operations but the two that decide on skipping do with a record.\<close>

definition rule_kept :: "('ts, 'db) client \<Rightarrow> ('ts, 'db) engine \<Rightarrow> ('ts, 'db) engine \<Rightarrow> KeyID \<Rightarrow> RuleInfo \<Rightarrow> bool" where
  "rule_kept W s s' r ri' \<longleftrightarrow>
     isInProgress ri' \<or> ri_state ri' = NeedsToRun \<or>
     (case ruleInfos s r of
        None \<Rightarrow> ri_state ri' = Incomplete \<and> first_record W r (ri_rule ri') (ri_result ri')
      | Some ri \<Rightarrow> ri_state ri' = ri_state ri \<and> ri_result ri' = ri_result ri \<and> ri_rule ri' = ri_rule ri) \<or>
     isComplete (currentEpoch s') ri' \<and> announced (length (events s)) s' (ri_rule ri')"

definition kept :: "('ts, 'db) client \<Rightarrow> ('ts, 'db) engine \<Rightarrow> ('ts, 'db) engine \<Rightarrow> bool" where
  "kept W s s' \<longleftrightarrow> grows W s s' \<and> currentEpoch s' = currentEpoch s \<and> (\<forall>r. ruleInfos s r \<noteq> None \<longrightarrow> ruleInfos s' r \<noteq> None) \<and>
     (\<forall>r ri'. ruleInfos s' r = Some ri' \<longrightarrow> rule_kept W s s' r ri')"

lemma rule_kept_same: "ruleInfos s r = Some ri' \<Longrightarrow> rule_kept W s s' r ri'"
  by (simp add: rule_kept_def)

lemma kept_refl [simp]: "kept W s s"
  by (simp add: kept_def rule_kept_same)

lemma rule_kept_trans:
  assumes k: "rule_kept W s1 s2 r ri2" and g: "grows W s s1" "grows W s1 s2" and e: "currentEpoch s2 = currentEpoch s1"
    and n: "ruleInfos s1 r = None \<Longrightarrow> ruleInfos s r = None"
    and k1: "\<And>ri1. ruleInfos s1 r = Some ri1 \<Longrightarrow> rule_kept W s s1 r ri1"
  shows "rule_kept W s s2 r ri2"
proof (cases "ruleInfos s1 r")
  case None
  then show ?thesis using k n announced_later [OF _ g(1)] unfolding rule_kept_def by auto
next
  case (Some ri1)
  show ?thesis
  proof (cases "ri_state ri2 = ri_state ri1 \<and> ri_result ri2 = ri_result ri1 \<and> ri_rule ri2 = ri_rule ri1")
    case True
    then show ?thesis using k1 [OF Some] announced_grows [OF _ g(2)] e
      unfolding rule_kept_def by (auto simp: state_defs split: option.splits)
  next
    case False
    then show ?thesis using k Some announced_later [OF _ g(1)] unfolding rule_kept_def by auto
  qed
qed

lemma kept_trans: "kept W s s1 \<Longrightarrow> kept W s1 s2 \<Longrightarrow> kept W s s2"
proof -
  assume 1: "kept W s s1" and 2: "kept W s1 s2"
  then have g: "grows W s s1" "grows W s1 s2" and e: "currentEpoch s2 = currentEpoch s1" "currentEpoch s1 = currentEpoch s" by (simp_all add: kept_def)
  have "rule_kept W s s2 r ri2" if "ruleInfos s2 r = Some ri2" for r ri2
    by (rule rule_kept_trans [OF _ g e(1)]) (use 1 2 that in \<open>auto simp: kept_def\<close>)
  moreover have "ruleInfos s r \<noteq> None \<longrightarrow> ruleInfos s2 r \<noteq> None" for r using 1 2 by (simp add: kept_def)
  ultimately show ?thesis using grows_trans [OF g] e by (simp add: kept_def)
qed

lemma kept_same: "ruleInfos s' = ruleInfos s \<Longrightarrow> currentEpoch s' = currentEpoch s \<Longrightarrow> grows W s s' \<Longrightarrow> kept W s s'"
  by (simp add: kept_def rule_kept_same)

lemma kept_upd:
  assumes "ruleInfos s' = (ruleInfos s)(r \<mapsto> ri')" "currentEpoch s' = currentEpoch s" "grows W s s'" "rule_kept W s s' r ri'"
  shows "kept W s s'"
  using assms by (auto simp: kept_def rule_kept_same)

lemma kept_emit [simp]: "kept W s (emit e s)"
  by (rule kept_same) (simp_all add: emit_def grows_def)

lemma kept_upd_task [simp]: "kept W s (upd_task t f s)"
  by (rule kept_same) (simp_all add: upd_task_def grows_def)

lemma rule_kept_progress: "isInProgress ri' \<Longrightarrow> rule_kept W s s' r ri'"
  by (simp add: rule_kept_def)

section \<open>The operations that keep the records\<close>

lemma getKeyID_kept: "kept W s (snd (getKeyID key s))"
  by (rule kept_same) (auto simp: getKeyID_def Let_def grows_def)

lemma addRule_kept: "kept W s (addRule W i rule s)"
proof (cases "ruleInfos s i")
  case None
  obtain ri' where "ruleInfos (addRule W i rule s) = (ruleInfos s)(i \<mapsto> ri')" "ri_state ri' = Incomplete" "ri_rule ri' = rule"
    "first_record W i rule (ri_result ri')"
  proof (cases "db s")
    case None
    then show thesis using \<open>ruleInfos s i = None\<close> that [of "new_RuleInfo i rule"]
      by (simp add: addRule_def Let_def new_RuleInfo_def first_record_def)
  next
    case (Some d)
    obtain table result msg where l: "db_lookupRuleResult W d (keyTable s) i (rule_key rule) = (table, result, msg)"
      by (cases "db_lookupRuleResult W d (keyTable s) i (rule_key rule)")
    then have "result = Some res \<Longrightarrow> first_record W i rule res" for res
      unfolding first_record_def by (metis fst_conv snd_conv)
    then show thesis using Some l \<open>ruleInfos s i = None\<close>
        that [of "case result of None \<Rightarrow> new_RuleInfo i rule | Some res \<Rightarrow> (new_RuleInfo i rule)\<lparr>ri_result := res\<rparr>"]
      by (auto simp: addRule_def Let_def new_RuleInfo_def upd_rule_def emit_def first_record_def fun_eq_iff split: option.splits)
  qed
  moreover have "keys_grow W \<Longrightarrow> db_lookupRuleResult W d (keyTable s) i (rule_key rule) = (table, x) \<Longrightarrow> \<exists>ks. table = keyTable s @ ks" for d table x
    unfolding keys_grow_def by (metis fst_conv)
  then have "grows W s (addRule W i rule s)"
    by (auto simp: grows_def addRule_def Let_def upd_rule_def emit_def split: option.splits prod.splits)
  ultimately show ?thesis using None by (intro kept_upd) (auto simp: rule_kept_def addRule_frame)
next
  case (Some ri)
  then show ?thesis by (intro kept_same) (simp_all add: addRule_def emit_def grows_def)
qed

lemma getRuleInfoForKey_kept: "kept W s (snd (getRuleInfoForKey W key s))"
  by (simp add: getRuleInfoForKey_snd Let_def getKeyID_kept kept_trans [OF getKeyID_kept addRule_kept])

lemma getRuleInfoForKeyID_kept: "getRuleInfoForKeyID W i s = Some s' \<Longrightarrow> kept W s s'"
  by (auto simp: getRuleInfoForKeyID_def addRule_kept split: if_splits)

lemma finish_scan_kept: "finishScanRequest r NeedsToRun s = Some s' \<Longrightarrow> kept W s s'"
  by (erule finishScanRequest_Some) (auto intro!: kept_upd simp: rule_kept_def grows_def)

lemma register_task_kept: "ruleInfos s r = Some ri \<Longrightarrow> kept W s (register_task W r rule s)"
  by (rule kept_upd) (auto simp: register_task_def upd_rule_def grows_def rule_kept_def state_defs)

lemma reject_call_kept: "kept W s (reject_call m s)"
  by (rule kept_same) (auto simp: reject_call_def emit_def grows_def)

lemma perform_call_kept:
  assumes "perform_call W t c s = Some s'"
  shows "kept W s s'"
proof -
  have add: "kept W s s'" if "addTaskInputRequest W t key i oo su s = Some s'" for key i oo su
  proof -
    let ?s1 = "snd (getRuleInfoForKey W key s)"
    from that obtain q where s': "s' = upd_task t (\<lambda>ti. ti\<lparr>ti_waitCount := ti_waitCount ti + 1\<rparr>)
        (?s1\<lparr>inputRequests := inputRequests ?s1 @ [q]\<rparr>)"
      by (rule addTaskInputRequest_Some)
    have "kept W ?s1 s'" unfolding s' by (rule kept_same) (simp_all add: upd_task_def grows_def)
    then show ?thesis using getRuleInfoForKey_kept kept_trans by blast
  qed
  show ?thesis
  proof (cases c)
    case (CallDiscoveredDependency key)
    with assms have "s' = reject_call ''invalid state for adding discovered dependency'' s \<or> (\<exists>f. s' = upd_task t f (snd (getKeyID key s)))"
      by (auto simp: taskDiscoveredDependency_def split_def split: if_splits)
    then show ?thesis using reject_call_kept kept_trans [OF getKeyID_kept kept_upd_task] by blast
  next
    case (CallComplete v f)
    then consider "s' = reject_call ''invalid state for marking task complete'' s"
      | r ri res d where "ruleInfos s r = Some ri" "isInProgress ri" "s' = s\<lparr>ruleInfos := (ruleInfos s)(r \<mapsto> ri\<lparr>ri_result := res\<rparr>), finishedTaskInfos := d\<rparr>"
      using assms by (fastforce simp: taskIsComplete_def Let_def upd_rule_def isInProgress_def split: if_splits)
    then show ?thesis
    proof cases
      case 2
      then show ?thesis by (intro kept_upd) (auto simp: grows_def rule_kept_def state_defs)
    qed (simp add: reject_call_kept)
  qed (use assms add reject_call_kept in \<open>auto simp: taskNeedsInput_def taskNeedsSingleUseInput_def taskMustFollow_def split: if_splits\<close>)
qed

lemma perform_calls_kept: "perform_calls W t cs s = Some s' \<Longrightarrow> kept W s s'"
proof (induction cs arbitrary: s)
  case (Cons c cs)
  then obtain s1 where "perform_call W t c s = Some s1" "perform_calls W t cs s1 = Some s'" by auto
  then show ?case using perform_call_kept Cons.IH kept_trans by blast
qed simp

lemma run_callback_kept: "run_callback W t cb s = Some s' \<Longrightarrow> kept W s s'"
  using perform_calls_kept kept_trans [OF kept_upd_task] by (fastforce simp: run_callback_def split_def)

lemma started_kept:
  assumes "ruleInfos s r = Some ri"
    and "run_callback W t cb (emit e (register_task W r rule s)) = Some s2"
    and "s3 = s2 \<or> (\<exists>v. run_callback W t (task_providePriorValue W v) (emit (EvProvidePriorValue t v) s2) = Some s3)"
  shows "kept W s s3"
proof -
  have "kept W s s2" using assms(1,2) register_task_kept run_callback_kept kept_emit kept_trans by meson
  moreover have "kept W s2 s3" using assms(3) run_callback_kept kept_emit kept_refl kept_trans by metis
  ultimately show ?thesis by (rule kept_trans)
qed

lemma defer_on_scan_kept: "defer_on_scan r q s = Some s' \<Longrightarrow> kept W s s'"
  by (rule kept_upd [where r = r and ri' = "the (ruleInfos s' r)"])
    (auto simp: defer_on_scan_def upd_rule_def grows_def rule_kept_def split: option.splits)

lemma defer_on_task_kept: "defer_on_task r q s = Some s' \<Longrightarrow> kept W s s'"
  by (auto simp: defer_on_task_def)

lemma load_scan_input_kept: "load_scan_input W q s = Some (i, q', s') \<Longrightarrow> kept W s s'"
  by (auto simp: load_scan_input_def Let_def getRuleInfoForKeyID_kept split: option.splits if_splits)

lemma pause_kept: "pause_input_request q s = Some s' \<Longrightarrow> kept W s s'"
  by (rule kept_upd [where r = "tir_inputRuleInfo q" and ri' = "the (ruleInfos s' (tir_inputRuleInfo q))"])
    (auto simp: pause_input_request_def upd_rule_def grows_def rule_kept_def split: option.splits)

lemma record_kept: "record_dependency t q s = Some s' \<Longrightarrow> waiting_task t s \<Longrightarrow> kept W s s'"
  by (rule kept_upd [where r = "ti_forRuleInfo (the (taskInfos s t))" and ri' = "the (ruleInfos s' (ti_forRuleInfo (the (taskInfos s t))))"])
    (auto simp: record_dependency_def waiting_task_def upd_rule_def grows_def rule_kept_def state_defs)

lemma await_kept: "await_input q s = Some s' \<Longrightarrow> kept W s s'"
  by (auto simp: await_input_def)

lemma finished_input_item_kept: "finished_input_item W s = Some s' \<Longrightarrow> kept W s s'"
proof -
  assume item: "finished_input_item W s = Some s'"
  let ?s = "s\<lparr>finishedInputRequests := butlast (finishedInputRequests s)\<rparr>"
  have 1: "kept W s ?s" by (rule kept_same) (simp_all add: grows_def)
  from item obtain t e s1 where d: "decrementTaskWaitCount t s1 = Some s'"
    and "s1 = ?s \<or> (\<exists>cb. run_callback W t cb (emit e ?s) = Some s1)"
    by (auto simp: finished_input_item_def process_finished_input_def split: if_splits)
  then have "kept W ?s s1" using run_callback_kept kept_emit kept_refl kept_trans by metis
  moreover have "kept W s1 s'"
    by (rule kept_same) (use d in \<open>auto simp: decrementTaskWaitCount_def Let_def upd_task_def grows_def split: if_splits\<close>)
  ultimately show ?thesis using 1 kept_trans by blast
qed

lemma ready_item_kept: "ready_item W s = Some s' \<Longrightarrow> kept W s s'"
proof -
  assume item: "ready_item W s = Some s'"
  let ?s = "s\<lparr>readyTaskInfos := tl (readyTaskInfos s)\<rparr>"
  from item obtain t r ri ri1 s1 where ri: "ruleInfos ?s r = Some ri" "setComputing (clock s) ri = Some ri1"
    and run: "run_callback W t (task_inputsAvailable W) (emit (EvInputsAvailable t) (upd_rule r (\<lambda>_. ri1) ?s)) = Some s1"
    and s': "s' = s1\<lparr>numOutstandingUnfinishedTasks := Suc (numOutstandingUnfinishedTasks s1)\<rparr>"
    by (auto simp: ready_item_def process_ready_task_def split: if_splits)
  have "kept W s (upd_rule r (\<lambda>_. ri1) ?s)"
    using ri by (intro kept_upd) (auto simp: upd_rule_def setComputing_def grows_def rule_kept_def state_defs split: if_splits)
  moreover have "kept W (upd_rule r (\<lambda>_. ri1) ?s) s1" using run_callback_kept [OF run] kept_emit kept_trans by blast
  moreover have "kept W s1 s'" unfolding s' by (rule kept_same) (simp_all add: grows_def)
  ultimately show ?thesis using kept_trans by blast
qed

lemma request_discovered_kept: "request_discovered W ds s = Some s' \<Longrightarrow> kept W s s'"
proof (induction ds arbitrary: s)
  case (Cons d ds)
  then obtain s1 q where s1: "getRuleInfoForKeyID W (kf_keyID d) s = Some s1"
    and rest: "request_discovered W ds (s1\<lparr>inputRequests := inputRequests s1 @ [q]\<rparr>) = Some s'" by auto
  have "kept W s1 (s1\<lparr>inputRequests := inputRequests s1 @ [q]\<rparr>)" by (rule kept_same) (simp_all add: grows_def)
  then show ?case using getRuleInfoForKeyID_kept [OF s1] Cons.IH [OF rest] kept_trans by blast
qed simp

lemma complete_rule_kept: "ruleInfos s r = Some ri \<Longrightarrow> kept W s (complete_rule r ti s)"
  by (rule kept_upd [where r = r and ri' = "the (ruleInfos (complete_rule r ti s) r)"])
    (auto simp: complete_rule_def Let_def upd_rule_def emit_def setComplete_def grows_def rule_kept_def isComplete_def announced_def)

lemma finished_task_item_kept:
  assumes "finished_task_item W s = Some (True, s')" "finishedTaskInfos s \<noteq> []"
  shows "kept W s s'"
proof -
  obtain ds t where d: "finishedTaskInfos s = ds @ [t]" using assms(2) by (cases "finishedTaskInfos s" rule: rev_cases) auto
  from assms(1) d show ?thesis
  proof (rule finished_task_item_cases)
    let ?s = "s\<lparr>finishedTaskInfos := ds\<rparr>"
    fix ti ri s1 ri1 s2
    assume ri: "ruleInfos s (ti_forRuleInfo ti) = Some ri" "ri_state ri = InProgressComputing"
      and s1: "request_discovered W (deps_list (ti_discoveredDependencies ti)) (complete_rule (ti_forRuleInfo ti) ti ?s) = Some s1"
      and s2: "store_result W ri1 s1 = (True, s2)" and s': "True \<Longrightarrow> release_task t s2 = Some s'"
    have "kept W s ?s" by (rule kept_same) (simp_all add: grows_def)
    moreover have "kept W ?s (complete_rule (ti_forRuleInfo ti) ti ?s)" using ri(1) by (intro complete_rule_kept) simp
    moreover have "kept W s1 s2"
      by (rule kept_same) (use s2 in \<open>auto simp: store_result_def emit_def grows_def split: option.splits prod.splits\<close>)
    moreover have "kept W s2 s'"
      by (rule kept_same) (use s' [OF TrueI] in \<open>auto simp: release_task_def decrement_outstanding_def grows_def split: if_splits\<close>)
    ultimately show ?thesis using request_discovered_kept [OF s1] kept_trans by blast
  qed
qed

lemma force_build_kept:
  assumes "force_build r key s = Some s'"
  shows "kept W s s'"
proof -
  define s1 where "s1 = (case findRuleScanRequestForRule (ruleInfosToScan s) r of
                      None \<Rightarrow> s | Some i \<Rightarrow> s\<lparr>ruleInfosToScan := erase_at i (ruleInfosToScan s)\<rparr>)"
  from assms obtain s2 where s2: "finishScanRequest r NeedsToRun s1 = Some s2"
    and s': "s' = upd_rule r (\<lambda>ri. ri\<lparr>ri_wasForced := True\<rparr>) (emit (EvNeedsToRun key Forced None) s2)"
    unfolding s1_def by (auto simp: force_build_def Let_def)
  have "kept W s s1" by (rule kept_same) (auto simp: s1_def grows_def split: option.splits)
  moreover obtain ri2 where "ruleInfos s2 r = Some ri2" "ri_state ri2 = NeedsToRun"
    using s2 by (rule finishScanRequest_Some) auto
  then have "kept W s2 s'"
    by (intro kept_upd [where r = r and ri' = "ri2\<lparr>ri_wasForced := True\<rparr>"]) (auto simp: s' upd_rule_def emit_def grows_def rule_kept_def)
  ultimately show ?thesis using finish_scan_kept [OF s2] kept_trans by blast
qed

lemma resolveCycle_kept:
  assumes "resolveCycle W key s = Some (b, s')"
  shows "kept W s s'"
proof -
  from assms obtain c s1 b1 s2 where "findCycle W key s = Some (c, s1)" and b: "breakCycle W c s1 = Some (b1, s2)"
    and s': "s' = s2 \<or> (\<exists>e. s' = emit e s2)"
    by (auto simp: resolveCycle_def split: if_splits)
  then have "s1 = snd (getRuleInfoForKey W key s)" by (auto simp: findCycle_def split_def Let_def)
  then have 1: "kept W s s1" using getRuleInfoForKey_kept by blast
  have "kept W s1 s2"
    using b [unfolded breakCycle_def] kept_refl
  proof (rule break_walk_invariant [where I = "kept W s1"])
    have "kept W x (supply_prior_value t ti i x)" for x :: "('a, 'b) engine" and t ti i
      by (rule kept_same) (simp_all add: supply_prior_value_def upd_task_def grows_def)
    then show "kept W s1 x \<Longrightarrow> kept W s1 (supply_prior_value t ti i x)" for x t ti i using kept_trans by blast
  qed (use getRuleInfoForKey_kept force_build_kept kept_trans in blast)+
  moreover have "kept W s2 s'" using s' by auto
  ultimately show ?thesis using 1 kept_trans by blast
qed

section \<open>The invariant\<close>

text \<open>The rules that were marked as not needing to run, or complete, before this build began.\<close>

definition exempt :: "('ts, 'db) engine \<Rightarrow> KeyID set" where
  "exempt s0 = {r. \<exists>ri. ruleInfos s0 r = Some ri \<and> (ri_state ri = DoesNotNeedToRun \<or> isComplete (currentEpoch s0) ri)}"

text \<open>A rule that was skipped on the record \<open>old\<close>.\<close>

definition skipped_on :: "('ts, 'db) client \<Rightarrow> ('ts, 'db) engine \<Rightarrow> RuleInfo \<Rightarrow> Result \<Rightarrow> bool" where
  "skipped_on W s ri old \<longleftrightarrow>
     validated W (ri\<lparr>ri_result := cleaned old\<rparr>) \<and>
     settled s (ri\<lparr>ri_result := cleaned old\<rparr>) (size_deps (res_dependencies (cleaned old))) \<and>
     ri_result ri = (cleaned old)\<lparr>res_builtAt := currentEpoch s, res_end := res_end (ri_result ri)\<rparr>"

definition record_ok :: "('ts, 'db) client \<Rightarrow> ('ts, 'db) engine \<Rightarrow> ('ts, 'db) engine \<Rightarrow> KeyID \<Rightarrow> RuleInfo \<Rightarrow> bool" where
  "record_ok W s0 s r ri \<longleftrightarrow>
     (\<not> isScanned (currentEpoch s) ri \<and> \<not> isScanning ri \<longrightarrow> recorded W s0 r (ri_rule ri) (ri_result ri)) \<and>
     (isScanning ri \<or> ri_state ri = DoesNotNeedToRun \<longrightarrow> (\<exists>old. recorded W s0 r (ri_rule ri) old \<and> ri_result ri = cleaned old)) \<and>
     (isComplete (currentEpoch s) ri \<longrightarrow>
        announced (length (events s0)) s (ri_rule ri) \<or> (\<exists>old. recorded W s0 r (ri_rule ri) old \<and> skipped_on W s ri old))"

definition record_inv :: "('ts, 'db) client \<Rightarrow> ('ts, 'db) engine \<Rightarrow> ('ts, 'db) engine \<Rightarrow> bool" where
  "record_inv W s0 s \<longleftrightarrow> grows W s0 s \<and> (\<forall>r. ruleInfos s0 r \<noteq> None \<longrightarrow> ruleInfos s r \<noteq> None) \<and>
     (\<forall>r ri. ruleInfos s r = Some ri \<longrightarrow> r \<notin> exempt s0 \<longrightarrow> record_ok W s0 s r ri)"

lemma record_invD: "record_inv W s0 s \<Longrightarrow> ruleInfos s r = Some ri \<Longrightarrow> r \<notin> exempt s0 \<Longrightarrow> record_ok W s0 s r ri"
  by (simp add: record_inv_def)

lemma record_okD:
  assumes "record_ok W s0 s r ri"
  shows "\<not> isScanned (currentEpoch s) ri \<Longrightarrow> \<not> isScanning ri \<Longrightarrow> recorded W s0 r (ri_rule ri) (ri_result ri)"
    and "isScanning ri \<or> ri_state ri = DoesNotNeedToRun \<Longrightarrow> \<exists>old. recorded W s0 r (ri_rule ri) old \<and> ri_result ri = cleaned old"
    and "isComplete (currentEpoch s) ri \<Longrightarrow>
      announced (length (events s0)) s (ri_rule ri) \<or> (\<exists>old. recorded W s0 r (ri_rule ri) old \<and> skipped_on W s ri old)"
  using assms unfolding record_ok_def by blast+

lemma skipped_on_evolves:
  assumes "skipped_on W s ri old" "evolves s s'" "ri_result ri' = ri_result ri" "ri_rule ri' = ri_rule ri"
  shows "skipped_on W s' ri' old"
proof -
  have e: "currentEpoch s' = currentEpoch s" using assms(2) by (simp add: evolves_alt)
  have "settled s' (ri\<lparr>ri_result := cleaned old\<rparr>) (size_deps (res_dependencies (cleaned old)))"
    using assms(1,2) settled_evolves unfolding skipped_on_def by blast
  then show ?thesis using assms e settled_result [of "ri'\<lparr>ri_result := cleaned old\<rparr>" "ri\<lparr>ri_result := cleaned old\<rparr>" s']
    by (simp add: skipped_on_def validated_def)
qed

lemma record_ok_same:
  assumes "record_ok W s0 s r ri" "evolves s s'" "grows W s s'"
    and "ri_state ri' = ri_state ri" "ri_result ri' = ri_result ri" "ri_rule ri' = ri_rule ri"
  shows "record_ok W s0 s' r ri'"
proof -
  have "currentEpoch s' = currentEpoch s" using assms(2) by (simp add: evolves_alt)
  moreover have "skipped_on W s' ri' old" if "skipped_on W s ri old" for old using skipped_on_evolves [OF that assms(2,5,6)] .
  ultimately show ?thesis
    using assms(1,4-6) announced_grows [OF _ assms(3)] unfolding record_ok_def by (simp add: state_defs) blast
qed

lemma record_upd:
  assumes "record_inv W s0 s" "evolves s s'" "grows W s s'" "ruleInfos s' = (ruleInfos s)(r \<mapsto> ri')"
    and "r \<notin> exempt s0 \<Longrightarrow> record_ok W s0 s' r ri'"
  shows "record_inv W s0 s'"
proof -
  have "record_ok W s0 s' x rx" if "ruleInfos s' x = Some rx" "x \<notin> exempt s0" for x rx
  proof (cases "x = r")
    case False
    then have "record_ok W s0 s x rx" using that assms(1,4) by (simp add: record_inv_def)
    then show ?thesis by (rule record_ok_same [OF _ assms(2,3)]) simp_all
  qed (use that assms(4,5) in simp)
  then show ?thesis using assms(1,3,4) grows_trans unfolding record_inv_def by auto
qed

lemma kept_record:
  assumes "record_inv W s0 s" "kept W s s'" "evolves s s'"
  shows "record_inv W s0 s'"
proof -
  have g: "grows W s s'" "grows W s0 s" using assms(1,2) by (simp_all add: kept_def record_inv_def)
  have "record_ok W s0 s' r ri'" if ri': "ruleInfos s' r = Some ri'" and r: "r \<notin> exempt s0" for r ri'
  proof -
    from assms(2) ri' have "rule_kept W s s' r ri'" by (simp add: kept_def)
    then consider (busy) "isInProgress ri' \<or> ri_state ri' = NeedsToRun"
      | (new) "ruleInfos s r = None" "ri_state ri' = Incomplete" "first_record W r (ri_rule ri') (ri_result ri')"
      | (same) ri where "ruleInfos s r = Some ri" "ri_state ri' = ri_state ri" "ri_result ri' = ri_result ri" "ri_rule ri' = ri_rule ri"
      | (ran) "isComplete (currentEpoch s') ri'" "announced (length (events s)) s' (ri_rule ri')"
      unfolding rule_kept_def by (auto split: option.splits)
    then show ?thesis
    proof cases
      case busy
      then show ?thesis by (auto simp: record_ok_def state_defs less_StateKind_def)
    next
      case new
      then have "ruleInfos s0 r = None" using assms(1) by (auto simp: record_inv_def)
      then show ?thesis using new by (simp add: record_ok_def recorded_def state_defs)
    next
      case same
      then have "record_ok W s0 s r ri" using assms(1) r by (simp add: record_inv_def)
      then show ?thesis using same(2-4) by (rule record_ok_same [OF _ assms(3) g(1)])
    next
      case ran
      then show ?thesis using announced_later [OF _ g(2)] by (auto simp: record_ok_def state_defs)
    qed
  qed
  then show ?thesis using assms(1,2) grows_trans [OF g(2,1)] by (auto simp: record_inv_def kept_def)
qed

section \<open>The decisions\<close>

lemma events_simps:
  "events (emit e s) = events s @ [e]" "events (upd_rule r f s) = events s"
  "events (needs_to_run r key reason s) = events s @ [EvNeedsToRun key reason None]"
  "keyTable (emit e s) = keyTable s" "keyTable (upd_rule r f s) = keyTable s" "keyTable (needs_to_run r key reason s) = keyTable s"
  by (simp_all add: emit_def upd_rule_def needs_to_run_def)

lemma scanRule_grows: "scanRule W r s = Some (b, s') \<Longrightarrow> grows W s s'"
  by (auto simp: scanRule_def Let_def events_simps grows_def split: if_splits)

lemma scanRule_record:
  assumes sc: "scanRule W r s = Some (b, s')" and inv: "record_inv W s0 s"
  shows "record_inv W s0 s'"
  using sc
proof (cases rule: scanRule_cases)
  case (fresh ri ri' ev q0)
  have "record_ok W s0 s' r ri'" if "r \<notin> exempt s0"
  proof -
    have "recorded W s0 r (ri_rule ri) (ri_result ri)"
      using record_okD(1) [OF record_invD [OF inv fresh(1) that] fresh(2,3)] .
    moreover have "ri_result ri' = cleaned (ri_result ri)" using fresh(7) by (simp add: clean_result_def cleaned_def)
    ultimately show ?thesis using fresh(6,9) by (cases b) (auto simp: record_ok_def state_defs less_StateKind_def)
  qed
  then show ?thesis
    using record_upd [OF inv scanRule_evolves [OF sc] scanRule_grows [OF sc], of r ri'] fresh(4) by simp
qed (use inv in simp)

lemma demandRule_record:
  assumes d: "demandRule W r s = Some (b, s')" and inv: "record_inv W s0 s" "scan_inv (marked s0) W s"
  shows "record_inv W s0 s'"
  using d
proof (cases rule: demandRule_cases)
  case (upToDate ri ev)
  let ?ri = "setComplete (currentEpoch s) (clock s) ri"
  have evo: "evolves s s'" using d by (rule demandRule_evolves)
  have g: "grows W s s'" using d upToDate(1,2)
    by (auto simp: demandRule_def emit_def upd_rule_def grows_def state_defs split: if_splits)
  have "record_ok W s0 s' r ?ri" if r: "r \<notin> exempt s0"
  proof -
    obtain old where old: "recorded W s0 r (ri_rule ri) old" "ri_result ri = cleaned old"
      using record_okD(2) [OF record_invD [OF inv(1) upToDate(1) r]] upToDate(2) by blast
    have "r \<notin> marked s0" using r by (auto simp: exempt_def marked_def)
    then have v: "validated W ri" "settled s ri (size_deps (res_dependencies (ri_result ri)))"
      using inv(2) upToDate(1,2) by (auto simp: scan_inv_def skip_ok_def)
    let ?ro = "?ri\<lparr>ri_result := cleaned old\<rparr>"
    have "settled s' ?ro (size_deps (res_dependencies (cleaned old)))"
      using settled_evolves [OF v(2) evo] settled_result [of ?ro ri s'] old(2) by simp
    moreover have "validated W ?ro" using v(1) old(2) by (simp add: validated_def setComplete_def)
    ultimately have "skipped_on W s' ?ri old" using old(2) upToDate(4) by (simp add: skipped_on_def setComplete_def)
    then show ?thesis using old(1) upToDate(4) by (auto simp: record_ok_def state_defs setComplete_def)
  qed
  then show ?thesis using record_upd [OF inv(1) evo g, of r ?ri] upToDate(4) by simp
next
  case (started ri s2 s3 ti)
  have "kept W s s3" using started_kept [OF started(1,4,5)] .
  moreover have "kept W s3 s'" unfolding started(7) by (rule kept_same) (simp_all add: grows_def)
  ultimately have "kept W s s'" by (rule kept_trans)
  then show ?thesis using kept_record [OF inv(1)] demandRule_evolves [OF d] by blast
qed (use inv in simp_all)

lemma finish_scan_record:
  assumes "finishScanRequest r DoesNotNeedToRun s = Some s'" "record_inv W s0 s"
  shows "record_inv W s0 s'"
proof -
  have evo: "evolves s s'" using assms(1) by (rule finishScanRequest_evolves) simp
  from assms(1) obtain ri rec where r: "ruleInfos s r = Some ri" "isScanning ri" "ri_inProgressInfo ri = PendingScanRecord rec"
    "s' = s\<lparr>ruleInfosToScan := ruleInfosToScan s @ deferredScanRequests rec,
           inputRequests := inputRequests s @ pausedInputRequests rec,
           ruleInfos := (ruleInfos s)(r \<mapsto> ri\<lparr>ri_inProgressInfo := NoInfo, ri_state := DoesNotNeedToRun\<rparr>)\<rparr>"
    by (rule finishScanRequest_Some)
  have "record_ok W s0 s' r (ri\<lparr>ri_inProgressInfo := NoInfo, ri_state := DoesNotNeedToRun\<rparr>)" if "r \<notin> exempt s0"
    using record_okD(2) [OF record_invD [OF assms(2) r(1) that]] r(2) by (simp add: record_ok_def state_defs less_StateKind_def)
  moreover have "grows W s s'" using r(4) by (simp add: grows_def)
  ultimately show ?thesis using record_upd [OF assms(2) evo] r(4) by simp
qed

lemma scan_one_input_record:
  assumes one: "scan_one_input W q s = Some r" and inv: "engine_inv H {} k s" "scan_inv (marked s0) W s" "scan_ok W s q" "record_inv W s0 s"
  shows "case r of Inl s' \<Rightarrow> record_inv W s0 s' | Inr (q', s') \<Rightarrow> record_inv W s0 s'"
proof -
  have load: "record_inv W s0 s1 \<and> scan_inv (marked s0) W s1" if "load_scan_input W q s = Some (i, q1, s1)" for i q1 s1
    using kept_record [OF inv(4) load_scan_input_kept [OF that] load_scan_input_evolves [OF that]] load_scan_input_scan(1) [OF that inv(2,3)] by simp
  have scan: "record_inv W s0 s2 \<and> scan_inv (marked s0) W s2"
    if "load_scan_input W q s = Some (i, q1, s1)" "scanRule W i s1 = Some (b, s2)" for i q1 s1 b s2
    using load [OF that(1)] scanRule_record [OF that(2)] scanRule_scan_inv [OF that(2)] by blast
  have demand: "record_inv W s0 s3"
    if "load_scan_input W q s = Some (i, q1, s1)" "scanRule W i s1 = Some (b, s2)" "demandRule W i s2 = Some (c, s3)" for i q1 s1 b s2 c s3
    using scan [OF that(1,2)] demandRule_record [OF that(3)] by blast
  from one show ?thesis
  proof (cases rule: scan_one_input_cases)
    case (scanning i q1 s1 s2 s3)
    then show ?thesis using kept_record [OF _ defer_on_scan_kept defer_on_scan_evolves] scan by fastforce
  next
    case (building i q1 s1 s2 s3 s4)
    then show ?thesis using kept_record [OF _ defer_on_task_kept defer_on_task_evolves] demand by fastforce
  next
    case (rebuilt i q1 s1 s2 s3 s4 ri iri)
    have "record_inv W s0 s4"
      using kept_record [OF demand [OF rebuilt(1-3)] finish_scan_kept [OF rebuilt(8)]] finishScanRequest_evolves [OF rebuilt(8)] by simp
    then show ?thesis using rebuilt(9) kept_record [OF _ kept_emit evolves_emit] by simp
  next
    case (unchanged i q1 s1 s2 s3 ri iri)
    then show ?thesis using demand by simp
  qed
qed

lemma scan_inputs_record:
  assumes "scan_inputs n W q s = Some s'" "engine_inv H {} k s" "scan_inv (marked s0) W s" "scan_ok W s q" "record_inv W s0 s"
  shows "record_inv W s0 s'"
  using assms
proof (induction n arbitrary: q s)
  case (Suc n)
  then obtain r where r: "scan_one_input W q s = Some r" by auto
  note one = scan_one_input_scan [OF r Suc.prems(2-4)] scan_one_input_record [OF r Suc.prems(2-5)]
  show ?case
  proof (cases r)
    case (Inl s1)
    then show ?thesis using one(2) r Suc.prems(1) by simp
  next
    case (Inr p)
    obtain q1 s1 where p: "p = (q1, s1)" by (cases p)
    have o: "engine_inv H {} k s1" "scan_inv (marked s0) W s1" "scan_passed W s1 (rsr_ruleInfo q1) (rsr_inputIndex q1)"
      "rsr_inputRuleInfo q1 = None" "record_inv W s0 s1" using one Inr p by simp_all
    from Suc.prems(1) r Inr p obtain ri where ri: "ruleInfos s1 (rsr_ruleInfo q1) = Some ri"
      and rest: "(if rsr_inputIndex q1 \<noteq> size_deps (res_dependencies (ri_result ri)) then scan_inputs n W q1 s1
                  else finishScanRequest (rsr_ruleInfo q1) DoesNotNeedToRun s1) = Some s'" by auto
    show ?thesis
    proof (cases "rsr_inputIndex q1 = size_deps (res_dependencies (ri_result ri))")
      case True
      then show ?thesis using rest finish_scan_record o(5) by simp
    next
      case False
      then show ?thesis using rest Suc.IH [OF _ o(1,2) _ o(5)] scan_passed_ok [OF o(3) ri False] o(4) by simp
    qed
  qed
qed simp

section \<open>Keys and events are never taken back\<close>

lemma kept_grows: "kept W s s' \<Longrightarrow> grows W s s'"
  by (simp add: kept_def)

lemma demandRule_grows:
  assumes d: "demandRule W r s = Some (b, s')"
  shows "grows W s s'"
  using d
proof (cases rule: demandRule_cases)
  case (upToDate ri ev)
  from d upToDate(1,2) show ?thesis by (auto simp: demandRule_def events_simps grows_def state_defs split: if_splits)
next
  case (started ri s2 s3 ti)
  have "grows W s s3" using kept_grows [OF started_kept [OF started(1,4,5)]] .
  moreover have "grows W s3 s'" unfolding started(7) by (simp add: grows_def)
  ultimately show ?thesis by (rule grows_trans)
qed simp_all

lemma finishScanRequest_grows: "finishScanRequest r st s = Some s' \<Longrightarrow> grows W s s'"
  by (erule finishScanRequest_Some) (simp add: grows_def)

lemma scan_one_input_grows:
  assumes "scan_one_input W q s = Some r"
  shows "case r of Inl s' \<Rightarrow> grows W s s' | Inr (q', s') \<Rightarrow> grows W s s'"
proof -
  have demand: "grows W s s3"
    if "load_scan_input W q s = Some (i, q1, s1)" "scanRule W i s1 = Some (b, s2)" "demandRule W i s2 = Some (c, s3)" for i q1 s1 b s2 c s3
    using kept_grows [OF load_scan_input_kept [OF that(1)]] scanRule_grows [OF that(2)] demandRule_grows [OF that(3)] grows_trans by blast
  from assms show ?thesis
  proof (cases rule: scan_one_input_cases)
    case (scanning i q1 s1 s2 s3)
    have "grows W s s3"
      using kept_grows [OF load_scan_input_kept [OF scanning(1)]] scanRule_grows [OF scanning(2)] kept_grows [OF defer_on_scan_kept [OF scanning(3)]]
        grows_trans by blast
    then show ?thesis using scanning(4) by simp
  next
    case (building i q1 s1 s2 s3 s4)
    have "grows W s s4" using demand [OF building(1-3)] kept_grows [OF defer_on_task_kept [OF building(4)]] by (rule grows_trans)
    then show ?thesis using building(5) by simp
  next
    case (rebuilt i q1 s1 s2 s3 s4 ri iri)
    have "grows W s s4" using demand [OF rebuilt(1-3)] finishScanRequest_grows [OF rebuilt(8)] by (rule grows_trans)
    then show ?thesis using rebuilt(9) grows_trans kept_grows [OF kept_emit] by fastforce
  next
    case (unchanged i q1 s1 s2 s3 ri iri)
    then show ?thesis using demand by simp
  qed
qed

lemma scan_inputs_grows: "scan_inputs n W q s = Some s' \<Longrightarrow> grows W s s'"
proof (induction n arbitrary: q s)
  case (Suc n)
  then obtain r where r: "scan_one_input W q s = Some r" by auto
  note one = scan_one_input_grows [OF r]
  show ?case
  proof (cases r)
    case (Inr p)
    obtain q1 s1 where p: "p = (q1, s1)" by (cases p)
    then have "scan_inputs n W q1 s1 = Some s' \<or> finishScanRequest (rsr_ruleInfo q1) DoesNotNeedToRun s1 = Some s'"
      using r Inr Suc.prems by (auto split: if_splits)
    then have "grows W s1 s'" using Suc.IH finishScanRequest_grows by blast
    then show ?thesis using one Inr p grows_trans by auto
  qed (use one r Suc.prems in simp)
qed simp

lemma process_input_request_grows:
  assumes "process_input_request W q s = Some s'"
  shows "grows W s s'"
proof -
  have depend: "grows W s2 s3" if "record_dependency t q s2 = Some s3" for t s2 s3
    using that by (auto simp: record_dependency_def events_simps grows_def)
  from assms show ?thesis
  proof (cases rule: process_input_request_cases)
    case scanning
    then show ?thesis using scanRule_grows kept_grows pause_kept grows_trans by blast
  next
    case dummy
    then show ?thesis using scanRule_grows demandRule_grows grows_trans by blast
  next
    case (available s1 s2 s3 t)
    have "grows W s3 s'" unfolding available(5) by (simp add: grows_def)
    then show ?thesis using scanRule_grows demandRule_grows depend available(1,2,4) grows_trans by meson
  next
    case (awaiting s1 s2 s3 t)
    then show ?thesis using scanRule_grows demandRule_grows depend kept_grows await_kept grows_trans by meson
  qed
qed

lemma cancel_tasks_grows: "cancel_tasks ts s = Some s' \<Longrightarrow> grows W s s'"
proof (induction ts arbitrary: s)
  case (Cons t ts)
  then obtain s1 where "cancel_tasks ts s1 = Some s'" "s1 = s \<or> (\<exists>r f. s1 = upd_rule r f s)" by (auto split: option.splits if_splits)
  moreover from this(2) have "grows W s s1" by (auto simp: grows_def events_simps)
  ultimately show ?case using Cons.IH grows_trans by blast
qed simp

lemma loop_step_grows:
  assumes step: "executeTasks_step W key (ph, d, s) = Some (ph', d', s')" and W: "db_writes_ok W"
  shows "grows W s s'"
proof (cases ph)
  case PhScan
  have "grows W s s'" if "scan_item W s = Some s'"
    using that scan_inputs_grows [of _ W _ "s\<lparr>ruleInfosToScan := butlast (ruleInfosToScan s)\<rparr>" s']
    by (auto simp: scan_item_def processRuleScanRequest_def grows_def split: if_splits)
  then show ?thesis using step PhScan by (auto simp: after_item_def split: if_splits)
next
  case PhInput
  have "grows W s s'" if "input_item W s = Some s'"
    using process_input_request_grows [OF that [unfolded input_item_def]] by (simp add: grows_def)
  then show ?thesis using step PhInput by (auto simp: after_item_def split: if_splits)
next
  case PhFinishedInput
  then show ?thesis using step kept_grows [OF finished_input_item_kept] by (auto simp: after_item_def split: if_splits)
next
  case PhReady
  then show ?thesis using step kept_grows [OF ready_item_kept] by (auto simp: after_item_def split: if_splits)
next
  case PhFinishedTask
  show ?thesis
  proof (cases "finishedTaskInfos s = []")
    case False
    then obtain b where b: "finished_task_item W s = Some (b, s')" using step PhFinishedTask by auto
    then have "b" using W False by (rule finished_task_item_ok)
    then show ?thesis using kept_grows [OF finished_task_item_kept] b False by auto
  qed (use step PhFinishedTask in simp)
next
  case PhNoWork
  show ?thesis
  proof (cases "\<exists>t \<in> set [0..<nextTask s]. taskInfos s t \<noteq> None")
    case True
    then obtain b where "resolveCycle W key s = Some (b, s')" using step PhNoWork by (auto simp del: set_upt split: if_splits)
    then show ?thesis using kept_grows resolveCycle_kept by blast
  qed (use step PhNoWork in \<open>simp del: set_upt\<close>)
next
  case PhCancel
  have "grows W s s'" if fin: "cancel_finish s = Some s'"
  proof -
    from fin obtain s1 where s1: "cancel_tasks [0..<nextTask s] s = Some s1" "s' = clear_queues (cancel_scans s1)"
      by (auto simp: cancel_finish_def)
    from cancel_tasks_grows [OF s1(1)] show ?thesis by (simp add: s1(2) cancel_scans_def clear_queues_def grows_def)
  qed
  then show ?thesis using step PhCancel by (auto simp: drain_finished_def grows_def split: if_splits)
qed (use step in \<open>auto split: if_splits\<close>)

lemma engine_reach_interned:
  assumes "engine_reach W key s0 (ph, d, s)" "db_writes_ok W" "quiescent s0"
  shows "grows W (snd (getRuleInfoForKey W key s0)) s"
  using assms(1)
proof (induction "(ph, d, s)" arbitrary: ph d s)
  case start
  have "s0\<lparr>finishedInputRequests := []\<rparr> = s0" using assms(3) by (simp add: quiescent_def)
  then show ?case using start by (auto simp: executeTasks_start_def split_def grows_def)
next
  case (step c ph d s)
  obtain ph0 d0 s1 where c: "c = (ph0, d0, s1)" by (cases c)
  have "engine_step W key (ph0, d0, s1) (ph, d, s)" using step(3) c by simp
  then have "grows W s1 s"
  proof cases
    case loop
    then show ?thesis using loop_step_grows assms(2) by blast
  next
    case (complete t v f)
    then show ?thesis using kept_grows [OF perform_call_kept [of W t "CallComplete v f"]] by simp
  next
    case (discovered t k)
    then show ?thesis using kept_grows [OF perform_call_kept [of W t "CallDiscoveredDependency k"]] by simp
  next
    case cancel
    then show ?thesis by (auto simp: cancelBuild_def Let_def emit_def grows_def)
  qed (simp add: grows_def)
  then show ?case using step(2) c grows_trans by blast
qed

section \<open>The loop\<close>

lemma record_inv_frame:
  "ruleInfos s' = ruleInfos s \<Longrightarrow> currentEpoch s' = currentEpoch s \<Longrightarrow> events s' = events s \<Longrightarrow> keyTable s' = keyTable s \<Longrightarrow>
   record_inv W s0 s' = record_inv W s0 s"
  by (simp add: record_inv_def record_ok_def grows_def announced_def skipped_on_def settled_def input_settled_def)

lemma scan_item_record:
  assumes item: "scan_item W s = Some s'" and ne: "ruleInfosToScan s \<noteq> []"
    and inv: "engine_inv H {} k s" "scan_inv (marked s0) W s" "record_inv W s0 s"
  shows "record_inv W s0 s'"
proof -
  let ?q = "last (ruleInfosToScan s)" let ?s = "s\<lparr>ruleInfosToScan := butlast (ruleInfosToScan s)\<rparr>"
  have "?q \<in> set (ruleInfosToScan s)" using ne by simp
  then have "scan_ok W s ?q" using inv(2) by (auto simp: scan_inv_def in_scan_def)
  then have q: "scan_ok W ?s ?q" by (rule scan_ok_evolves) (auto intro: evolves_extend)
  have "scan_frame s ?s" by (rule scan_frameI) (auto intro: evolves_extend dest: in_set_butlastD)
  then have s: "scan_inv (marked s0) W ?s" using inv(2) scan_frame_inv by blast
  have r: "record_inv W s0 ?s" using inv(3) record_inv_frame [of ?s s] by simp
  have e: "engine_inv H {} k ?s" using inv(1) by (simp add: engine_inv_def)
  show ?thesis
    using item r scan_inputs_record [OF _ e s q r]
    by (auto simp: scan_item_def processRuleScanRequest_def split: if_splits)
qed

lemma process_input_request_record:
  assumes "process_input_request W q s = Some s'" and inv: "engine_inv (q # H) {} k s" "scan_inv (marked s0) W s" "record_inv W s0 s"
  shows "record_inv W s0 s'"
proof -
  have scan: "record_inv W s0 s1 \<and> scan_inv (marked s0) W s1 \<and> engine_inv (q # H) {} k s1"
    if "scanRule W (tir_inputRuleInfo q) s = Some (b, s1)" for b s1
    using scanRule_record [OF that inv(3)] scanRule_scan_inv [OF that inv(2)] scanRule_inv [OF that inv(1)] by simp
  have demand: "record_inv W s0 s2" "tir_taskInfo q = Some t \<Longrightarrow> waiting_task t s2"
    if "scanRule W (tir_inputRuleInfo q) s = Some (True, s1)" "demandRule W (tir_inputRuleInfo q) s1 = Some (b, s2)" for b s1 s2 t
    using scan [OF that(1)] demandRule_record [OF that(2)] demandRule_inv [OF that(2)] hand_waiting by blast+
  have depend: "record_inv W s0 s3" if "record_inv W s0 s2" "record_dependency t q s2 = Some s3" "waiting_task t s2" for s2 s3 t
    using kept_record [OF that(1) record_kept [OF that(2,3)] record_dependency_evolves [OF that(2,3)]] .
  from assms(1) show ?thesis
  proof (cases rule: process_input_request_cases)
    case scanning
    then show ?thesis using scan kept_record [OF _ pause_kept pause_input_request_evolves] by blast
  next
    case dummy
    then show ?thesis using demand(1) by blast
  next
    case (available s1 s2 s3 t)
    have "record_inv W s0 s3" using depend demand available by blast
    then show ?thesis using available(5) record_inv_frame [of s' s3] by simp
  next
    case (awaiting s1 s2 s3 t)
    have "record_inv W s0 s3" using depend demand awaiting by blast
    then show ?thesis using kept_record [OF _ await_kept await_input_evolves] awaiting(5) by blast
  qed
qed

lemma input_item_record:
  assumes item: "input_item W s = Some s'" and inv: "engine_inv [] {} k s" "scan_inv (marked s0) W s" "record_inv W s0 s"
    and ne: "inputRequests s \<noteq> []"
  shows "record_inv W s0 s'"
proof -
  obtain q xs where q: "inputRequests s = q # xs" using ne by (cases "inputRequests s") auto
  let ?s = "s\<lparr>inputRequests := xs\<rparr>"
  have p: "process_input_request W q ?s = Some s'" using item q by (simp add: input_item_def)
  have "scan_inv (marked s0) W ?s" using inv(2) by (simp add: scan_inv_def scan_ok_def skip_ok_def settled_def input_settled_def in_scan_def)
  moreover have "record_inv W s0 ?s" using inv(3) record_inv_frame [of ?s s] by simp
  ultimately show ?thesis using p engine_inv_hand(1) [OF inv(1) q] process_input_request_record by blast
qed

lemma loop_step_record:
  assumes step: "executeTasks_step W key (ph, d, s) = Some (ph', d', s')" and inv: "config_inv (ph, d, s)" "scan_inv (marked s0) W s" "record_inv W s0 s"
    and ph': "ph' \<noteq> PhReturn False" and W: "db_writes_ok W"
  shows "record_inv W s0 s'"
proof (cases ph)
  case PhScan
  then show ?thesis using step inv
    by (auto simp: config_inv_def after_item_def split: if_splits intro: scan_item_record)
next
  case PhInput
  then show ?thesis using step inv
    by (auto simp: config_inv_def after_item_def split: if_splits intro: input_item_record)
next
  case PhFinishedInput
  then show ?thesis using step inv(3) kept_record [OF inv(3) finished_input_item_kept finished_input_item_evolves]
    by (auto simp: after_item_def split: if_splits)
next
  case PhReady
  then show ?thesis using step inv(3) kept_record [OF inv(3) ready_item_kept ready_item_evolves]
    by (auto simp: after_item_def split: if_splits)
next
  case PhFinishedTask
  show ?thesis
  proof (cases "finishedTaskInfos s = []")
    case True
    then show ?thesis using step PhFinishedTask inv(3) by simp
  next
    case False
    then obtain b where b: "finished_task_item W s = Some (b, s')" using step PhFinishedTask by auto
    then have "b" using W False by (rule finished_task_item_ok)
    then show ?thesis using kept_record [OF inv(3) finished_task_item_kept finished_task_item_evolves] b False by auto
  qed
next
  case PhNoWork
  show ?thesis
  proof (cases "\<exists>t \<in> set [0..<nextTask s]. taskInfos s t \<noteq> None")
    case True
    then obtain b where b: "resolveCycle W key s = Some (b, s')"
      using step PhNoWork by (auto simp del: set_upt split: if_splits)
    show ?thesis using kept_record [OF inv(3) resolveCycle_kept [OF b] resolveCycle_evolves [OF b]] .
  next
    case False
    then have "s' = s" using step PhNoWork by (simp del: set_upt)
    then show ?thesis using inv(3) by simp
  qed
next
  case PhCancel
  then have "drain_finished s = Some s'" using step ph' by (auto split: if_splits)
  then have "record_inv W s0 s' = record_inv W s0 s" by (intro record_inv_frame) (auto simp: drain_finished_def split: if_splits)
  then show ?thesis using inv(3) by simp
qed (use step inv(3) in \<open>auto split: if_splits\<close>)

lemma engine_step_record:
  assumes "engine_step W key (ph, d, s) (ph', d', s')" "config_inv (ph, d, s)" "scan_inv (marked s0) W s" "record_inv W s0 s"
    "ph' \<noteq> PhReturn False" "db_writes_ok W"
  shows "record_inv W s0 s'"
  using assms(1)
proof cases
  case loop
  then show ?thesis using loop_step_record assms(2-6) by blast
next
  case (complete t v f)
  then have c: "perform_call W t (CallComplete v f) s = Some s'" by simp
  show ?thesis using kept_record [OF assms(4) perform_call_kept [OF c] perform_call_evolves [OF c]] .
next
  case (discovered t k)
  then have c: "perform_call W t (CallDiscoveredDependency k) s = Some s'" by simp
  show ?thesis using kept_record [OF assms(4) perform_call_kept [OF c] perform_call_evolves [OF c]] .
next
  case cancel
  have "kept W s s'" unfolding cancel
    by (rule kept_same) (auto simp: cancelBuild_def Let_def emit_def grows_def)
  then show ?thesis using kept_record [OF assms(4)] cancelBuild_evolves cancel by blast
next
  case (tick n)
  then show ?thesis using record_inv_frame [of s' s] assms(4) by simp
qed

lemma start_record_inv:
  assumes "quiescent s0" "none_scanning s0" "executeTasks_start W key s0 = (ph, d, s)"
  shows "record_inv W s0 s"
proof -
  have q: "s0\<lparr>finishedInputRequests := []\<rparr> = s0" using assms(1) by (simp add: quiescent_def)
  let ?s1 = "snd (getRuleInfoForKey W key s0)"
  have "record_inv W s0 s0"
    using assms(2) by (auto simp: record_inv_def record_ok_def recorded_def exempt_def none_scanning_def)
  then have "record_inv W s0 ?s1" using kept_record getRuleInfoForKey_kept getRuleInfoForKey_evolves by blast
  moreover have "record_inv W s0 s = record_inv W s0 ?s1"
    using assms(3) q by (intro record_inv_frame) (auto simp: executeTasks_start_def split_def)
  ultimately show ?thesis by simp
qed

lemma engine_reach_skip_inv:
  assumes "engine_reach W key s0 (ph, d, s)" "quiescent s0" "engine_inv [] {} 0 s0" "none_scanning s0"
    and "completes_once W" "db_writes_ok W" "ph \<noteq> PhReturn False"
  shows "scan_inv (marked s0) W s \<and> record_inv W s0 s"
  using assms(1,7)
proof (induction "(ph, d, s)" arbitrary: ph d s)
  case start
  then show ?case using start_scan_inv [OF assms(2,4)] start_record_inv [OF assms(2,4)] by metis
next
  case (step c ph d s)
  obtain ph0 d0 s1 where c: "c = (ph0, d0, s1)" by (cases c)
  have inv: "config_inv (ph0, d0, s1)" using engine_reach_inv [OF _ assms(2,3,5,6)] step(1) c by blast
  have st: "engine_step W key (ph0, d0, s1) (ph, d, s)" using step(3) c by simp
  then have "ph0 \<noteq> PhReturn False" using step(4) engine_step_return_stuck by blast
  then have i: "scan_inv (marked s0) W s1" "record_inv W s0 s1" using step(2) c by blast+
  show ?case using engine_step_scan_inv [OF st inv i(1) step(4) assms(6)] engine_step_record [OF st inv i step(4) assms(6)] by simp
qed

end
