(* ===== verification/Cycle_Search.thy ===== *)
theory Cycle_Search
  imports Engine_Cycle
begin

text \<open>
  The depth-first search of \<^verbatim>\<open>findCycle\<close>.  It keeps no set of finished nodes, so it
  walks every path from the root; it ends because the nodes of the path are distinct, and it
  finds a cycle exactly when one can be reached from the root.
\<close>

section \<open>Walks\<close>

fun walk :: "graph \<Rightarrow> KeyID list \<Rightarrow> bool" where
  "walk preds [] = True"
| "walk preds [x] = True"
| "walk preds (x # y # zs) = (y \<in> set (preds x) \<and> walk preds (y # zs))"

lemma walk_snoc: "walk preds (xs @ [x, y]) \<longleftrightarrow> walk preds (xs @ [x]) \<and> y \<in> set (preds x)"
  by (induction preds xs rule: walk.induct) auto

lemma walk_Cons: "walk preds (x # xs) \<longleftrightarrow> xs = [] \<or> (hd xs \<in> set (preds x) \<and> walk preds xs)"
  by (cases xs) auto

text \<open>No walk from \<open>c\<close> repeats a node or meets the path \<open>P\<close>.\<close>

definition free_from :: "graph \<Rightarrow> KeyID list \<Rightarrow> KeyID \<Rightarrow> bool" where
  "free_from preds P c = (\<forall>w. walk preds (c # w) \<longrightarrow> distinct (P @ c # w))"

lemma free_from_node:
  assumes "n \<notin> set P" "distinct P" "\<And>c. c \<in> set (preds n) \<Longrightarrow> free_from preds (P @ [n]) c"
  shows "free_from preds P n"
  unfolding free_from_def
proof (intro allI impI)
  fix w assume w: "walk preds (n # w)"
  show "distinct (P @ n # w)"
  proof (cases w)
    case Nil
    then show ?thesis using assms by simp
  next
    case (Cons c u)
    then have "free_from preds (P @ [n]) c" "walk preds (c # u)" using w assms(3) by auto
    then show ?thesis using Cons unfolding free_from_def by fastforce
  qed
qed

section \<open>The invariant of the search\<close>

text \<open>
  The stack holds the path from the root, top first; an entry below the top has visited its
  children up to the one the next entry stands for.
\<close>

fun stack_ok :: "graph \<Rightarrow> KeyID \<Rightarrow> (KeyID \<times> nat) list \<Rightarrow> bool" where
  "stack_ok preds root [] = True"
| "stack_ok preds root [(n, i)] = (n = root)"
| "stack_ok preds root ((n, i) # (m, j) # st) =
     (0 < j \<and> j \<le> length (preds m) \<and> n = preds m ! (j - 1) \<and>
      (\<forall>k < j - 1. free_from preds (rev (map fst ((m, j) # st))) (preds m ! k)) \<and>
      stack_ok preds root ((m, j) # st))"

definition path_of :: "(KeyID \<times> nat) list \<Rightarrow> KeyID list" where
  "path_of st = rev (map fst st)"

definition entered :: "(KeyID \<times> nat) list \<Rightarrow> (KeyID \<times> nat) list" where
  "entered st = (case st of (n, 0) # rest \<Rightarrow> rest | _ \<Rightarrow> st)"

definition dfs_inv :: "graph \<Rightarrow> KeyID \<Rightarrow> dfs \<Rightarrow> bool" where
  "dfs_inv preds root st = (case st of (found, stack, cycleList, cycleItems) \<Rightarrow>
     if found then (\<exists>p x. cycleList = p @ [x] \<and> x \<in> set p \<and> distinct p \<and> walk preds (p @ [x]) \<and> hd p = root)
     else stack_ok preds root stack \<and> cycleList = path_of (entered stack) \<and> cycleItems = set cycleList \<and>
          distinct cycleList \<and>
          (case stack of [] \<Rightarrow> free_from preds [] root
           | (n, i) # rest \<Rightarrow> i \<le> length (preds n) \<and>
               (\<forall>k < i. free_from preds (path_of stack) (preds n ! k))))"

lemma stack_ok_walk:
  "stack_ok preds root st \<Longrightarrow> st \<noteq> [] \<Longrightarrow> walk preds (path_of st) \<and> hd (path_of st) = root"
proof (induction preds root st rule: stack_ok.induct)
  case (3 preds root n i m j st)
  then have IH: "walk preds (path_of ((m, j) # st))" "hd (path_of ((m, j) # st)) = root" by simp_all
  have "n \<in> set (preds m)" using 3(2) by (auto intro!: nth_mem)
  then have "walk preds (path_of ((n, i) # (m, j) # st))"
    using IH(1) walk_snoc [of preds "rev (map fst st)" m n] by (simp add: path_of_def)
  moreover have "hd (path_of ((n, i) # (m, j) # st)) = root"
    using IH(2) by (simp add: path_of_def hd_append split: if_splits)
  ultimately show ?case by simp
qed (simp_all add: path_of_def)

lemma stack_ok_top: "stack_ok preds root ((n, i) # st) \<Longrightarrow> stack_ok preds root ((n, i') # st)"
  by (cases st) auto

lemma stack_ok_pop: "stack_ok preds root (e # st) \<Longrightarrow> stack_ok preds root st"
  by (cases e; cases st) auto

lemma dfs_inv_start: "dfs_inv preds root (False, [(root, 0)], [], {})"
  by (simp add: dfs_inv_def path_of_def entered_def)

lemma dfs_inv_step:
  assumes inv: "dfs_inv preds root (False, (n, i) # rest, cl, items)"
  shows "dfs_inv preds root (dfs_step preds (False, (n, i) # rest, cl, items))"
proof -
  let ?st = "(n, i) # rest"
  from inv have ok: "stack_ok preds root ?st" and cl: "cl = path_of (entered ?st)" and items: "items = set cl"
    and dist: "distinct cl" and i: "i \<le> length (preds n)"
    and kids: "\<forall>k < i. free_from preds (path_of ?st) (preds n ! k)"
    unfolding dfs_inv_def by auto
  define cl1 where "cl1 = (if i = 0 then cl @ [n] else cl)"
  have cl1: "cl1 = path_of ?st" using cl by (cases i) (simp_all add: cl1_def path_of_def entered_def)
  have w: "walk preds (path_of ?st)" "hd (path_of ?st) = root" using stack_ok_walk [OF ok] by simp_all
  show ?thesis
  proof (cases "i = 0 \<and> n \<in> items")
    case True
    then have "dfs_step preds (False, ?st, cl, items) = (True, ?st, cl @ [n], insert n items)"
      by simp
    moreover have "cl \<noteq> []" using True items by auto
    moreover have "hd cl = root" using \<open>cl \<noteq> []\<close> True w(2) cl1 unfolding cl1_def by (metis hd_append2)
    moreover have "walk preds (cl @ [n])" using True w(1) cl1 cl1_def by simp
    ultimately show ?thesis using True items dist by (auto simp: dfs_inv_def)
  next
    case False
    have dist1: "distinct cl1" using False dist items by (auto simp: cl1_def)
    define items1 where "items1 = (if i = 0 then insert n items else items)"
    have items1: "items1 = set cl1" using items by (simp add: items1_def cl1_def)
    show ?thesis
    proof (cases "i = length (preds n)")
      case True
      have step: "dfs_step preds (False, ?st, cl, items) = (False, rest, butlast cl1, items1 - {n})"
        using False True by (simp add: cl1_def items1_def)
      have p: "path_of ?st = path_of rest @ [n]" by (simp add: path_of_def)
      have nP: "n \<notin> set (path_of rest)" "distinct (path_of rest)" using dist1 cl1 p by simp_all
      have free: "free_from preds (path_of rest) n"
        using nP
      proof (rule free_from_node)
        fix c assume "c \<in> set (preds n)"
        then obtain k where "k < length (preds n)" "preds n ! k = c" by (auto simp: in_set_conv_nth)
        then show "free_from preds (path_of rest @ [n]) c" using kids True p by auto
      qed
      have "entered rest = rest \<and> (case rest of [] \<Rightarrow> free_from preds [] root
           | (m, j) # _ \<Rightarrow> j \<le> length (preds m) \<and> (\<forall>k < j. free_from preds (path_of rest) (preds m ! k)))"
      proof (cases rest)
        case Nil
        then show ?thesis using ok free by (simp add: entered_def path_of_def)
      next
        case (Cons e st)
        obtain m j where e: "e = (m, j)" by (cases e)
        have o: "0 < j" "j \<le> length (preds m)" "n = preds m ! (j - 1)"
          "\<forall>k < j - 1. free_from preds (path_of rest) (preds m ! k)"
          using ok Cons e by (simp_all add: path_of_def)
        have "free_from preds (path_of rest) (preds m ! k)" if "k < j" for k
          using o(3,4) free that by (cases "k = j - 1") auto
        then show ?thesis using Cons e o by (auto simp: entered_def split: nat.splits)
      qed
      moreover have "butlast cl1 = path_of rest" "items1 - {n} = set (path_of rest)"
        using cl1 items1 p nP by auto
      ultimately show ?thesis
        using step stack_ok_pop [OF ok] nP(2) by (auto simp: dfs_inv_def)
    next
      case notall: False
      let ?c = "preds n ! i"
      have step: "dfs_step preds (False, ?st, cl, items) = (False, (?c, 0) # (n, Suc i) # rest, cl1, items1)"
        using False notall by (simp add: cl1_def items1_def Let_def)
      have "stack_ok preds root ((?c, 0) # (n, Suc i) # rest)"
        using stack_ok_top [OF ok, of "Suc i"] kids i notall by (simp add: path_of_def)
      moreover have "path_of (entered ((?c, 0) # (n, Suc i) # rest)) = cl1"
        using cl1 by (simp add: entered_def path_of_def)
      ultimately show ?thesis unfolding step dfs_inv_def using items1 dist1 by simp
    qed
  qed
qed

section \<open>Termination\<close>

text \<open>
  The entry at depth \<open>d\<close> counts with the weight \<open>B ^ (N - d)\<close> for each child it still has to
  visit, where \<open>B\<close> exceeds every node's number of predecessors.
\<close>

fun weight :: "graph \<Rightarrow> nat \<Rightarrow> nat \<Rightarrow> (KeyID \<times> nat) list \<Rightarrow> nat" where
  "weight preds B N [] = 0"
| "weight preds B N ((n, i) # rest) =
     (length (preds n) + 1 - i) * B ^ (N - length rest) + weight preds B N rest"

definition dfs_measure :: "graph \<Rightarrow> nat \<Rightarrow> nat \<Rightarrow> dfs \<Rightarrow> nat" where
  "dfs_measure preds B N st = (case st of (found, stack, _, _) \<Rightarrow>
     if found then 0 else Suc (weight preds B N stack))"

definition within :: "KeyID set \<Rightarrow> dfs \<Rightarrow> bool" where
  "within A st = (case st of (_, stack, _, _) \<Rightarrow> fst ` set stack \<subseteq> A)"

locale finite_graph =
  fixes preds :: graph and A :: "KeyID set" and root :: KeyID
  assumes finite_nodes: "finite A" and root_node: "root \<in> A"
    and closed: "x \<in> A \<Longrightarrow> set (preds x) \<subseteq> A"
begin

definition bound :: nat where
  "bound = Suc (Suc (Max ((\<lambda>n. length (preds n)) ` A)))"

lemma degree_bound: "n \<in> A \<Longrightarrow> length (preds n) + 1 < bound"
  using finite_nodes by (auto simp: bound_def intro: le_imp_less_Suc Max_ge)

lemma dfs_step_decreases:
  assumes inv: "dfs_inv preds root (False, (n, i) # rest, cl, items)" and A: "within A (False, (n, i) # rest, cl, items)"
  shows "within A (dfs_step preds (False, (n, i) # rest, cl, items)) \<and>
    dfs_measure preds bound (Suc (card A)) (dfs_step preds (False, (n, i) # rest, cl, items))
      < dfs_measure preds bound (Suc (card A)) (False, (n, i) # rest, cl, items)"
proof -
  let ?N = "Suc (card A)" let ?st = "(n, i) # rest"
  have i: "i \<le> length (preds n)" and cl: "cl = path_of (entered ?st)" and items: "items = set cl" and dist: "distinct cl"
    using inv unfolding dfs_inv_def by auto
  have nA: "n \<in> A" "fst ` set rest \<subseteq> A" using A by (auto simp: within_def)
  have pos: "0 < bound" by (simp add: bound_def)
  show ?thesis
  proof (cases "i = 0 \<and> n \<in> items")
    case True
    then show ?thesis using A by (auto simp: dfs_measure_def within_def)
  next
    case False
    show ?thesis
    proof (cases "i = length (preds n)")
      case True
      then have "dfs_step preds (False, ?st, cl, items) = (False, rest, butlast (if i = 0 then cl @ [n] else cl),
          (if i = 0 then insert n items else items) - {n})"
        using False by (simp add: Let_def)
      moreover have "weight preds bound ?N rest < weight preds bound ?N ?st" using True pos by simp
      ultimately show ?thesis using nA(2) by (simp add: dfs_measure_def within_def)
    next
      case notall: False
      let ?c = "preds n ! i"
      have lt: "i < length (preds n)" using i notall by simp
      then have cA: "?c \<in> A" using closed [OF nA(1)] nth_mem by blast
      have "distinct (map fst ?st)"
        using False dist cl items by (cases i) (auto simp: entered_def path_of_def)
      moreover have "set (map fst ?st) \<subseteq> A" using nA by auto
      ultimately have "length ?st \<le> card A" using finite_nodes by (metis card_mono distinct_card length_map)
      then have exp: "?N - length rest = Suc (?N - Suc (length rest))" by simp
      let ?p = "bound ^ (?N - Suc (length rest))"
      have "(length (preds ?c) + 1) * ?p < bound * ?p"
        using degree_bound [OF cA] pos by (intro mult_strict_right_mono) simp_all
      moreover have "(length (preds n) + 1 - i) * (bound * ?p) = bound * ?p + (length (preds n) + 1 - Suc i) * (bound * ?p)"
        using lt by (simp add: Suc_diff_le)
      ultimately have "weight preds bound ?N ((?c, 0) # (n, Suc i) # rest) < weight preds bound ?N ?st"
        using exp by simp
      moreover have "dfs_step preds (False, ?st, cl, items) = (False, (?c, 0) # (n, Suc i) # rest,
          if i = 0 then cl @ [n] else cl, if i = 0 then insert n items else items)"
        using False notall by (simp add: Let_def)
      ultimately show ?thesis using cA nA by (simp add: dfs_measure_def within_def)
    qed
  qed
qed

lemma search_terminates:
  "\<exists>st. while_option dfs_running (dfs_step preds) (False, [(root, 0)], [], {}) = Some st \<and> dfs_inv preds root st \<and> \<not> dfs_running st"
proof -
  let ?P = "\<lambda>st. dfs_inv preds root st \<and> within A st"
  have step: "?P (dfs_step preds st) \<and>
      dfs_measure preds bound (Suc (card A)) (dfs_step preds st) < dfs_measure preds bound (Suc (card A)) st"
    if P: "?P st" and running: "dfs_running st" for st
  proof -
    obtain found stack cl items where st: "st = (found, stack, cl, items)" by (cases st)
    obtain n i rest where f: "\<not> found" and stack: "stack = (n, i) # rest"
      using running st by (cases stack) (auto simp: dfs_running_def)
    show ?thesis
      using P st f stack dfs_inv_step [of preds root n i rest cl items] dfs_step_decreases [of n i rest cl items]
      by simp
  qed
  have init: "?P (False, [(root, 0)], [], {})" using dfs_inv_start root_node by (simp add: within_def)
  from measure_while_option_Some [of ?P dfs_running "dfs_step preds" "dfs_measure preds bound (Suc (card A))", OF step init]
  obtain st where w: "while_option dfs_running (dfs_step preds) (False, [(root, 0)], [], {}) = Some st" by blast
  moreover have "?P st"
    by (rule while_option_rule [where P = ?P, OF _ w init]) (use step in blast)
  moreover have "\<not> dfs_running st" using while_option_stop [OF w] .
  ultimately show ?thesis by blast
qed

lemma search_correct:
  "\<exists>c. search_cycle preds root = Some c \<and>
     (c = [] \<longrightarrow> free_from preds [] root) \<and>
     (c \<noteq> [] \<longrightarrow> hd c = root \<and> walk preds c \<and> distinct (butlast c) \<and> last c \<in> set (butlast c))"
proof -
  obtain st where st: "while_option dfs_running (dfs_step preds) (False, [(root, 0)], [], {}) = Some st"
    "dfs_inv preds root st" "\<not> dfs_running st" using search_terminates by blast
  obtain found stack cl items where st': "st = (found, stack, cl, items)" by (cases st)
  then have c: "search_cycle preds root = Some cl" using st(1) by (simp add: search_cycle_def)
  show ?thesis
  proof (cases found)
    case True
    then obtain p x where "cl = p @ [x]" "x \<in> set p" "distinct p" "walk preds (p @ [x])" "hd p = root"
      using st(2) st' by (auto simp: dfs_inv_def)
    then show ?thesis using c by (cases p) auto
  next
    case False
    then have "stack = []" using st(3) st' by (simp add: dfs_running_def)
    then show ?thesis using c st(2) st' False by (simp add: dfs_inv_def path_of_def entered_def)
  qed
qed

end

section \<open>The search of the engine\<close>

lemma predecessorGraph_nodes: "set (predecessorGraph s g r) \<subseteq> {..<length (keyTable s)}"
  by (auto simp: predecessorGraph_def)

interpretation pg: finite_graph "predecessorGraph s g" "insert root {..<length (keyTable s)}" root for s g root
  using predecessorGraph_nodes by unfold_locales (fastforce)+

text \<open>
  C7.  The search of \<^verbatim>\<open>findCycle\<close> ends, and its answer is right.  An empty list means
  that no walk from the requested rule along the waiting relation repeats a rule.  A non-empty list
  is, as the documentation of \<^verbatim>\<open>cycleDetected\<close> says, a walk that starts at the requested
  rule, visits distinct rules, and ends with a rule that it visited before.
\<close>

theorem findCycle_correct:
  assumes "successorGraph s = Some g"
  shows "\<exists>c s1. findCycle W key s = Some (c, s1) \<and>
    (let preds = predecessorGraph s g; root = fst (getRuleInfoForKey W key s) in
     (c = [] \<longleftrightarrow> (\<forall>w. walk preds (root # w) \<longrightarrow> distinct (root # w))) \<and>
     (c \<noteq> [] \<longrightarrow> hd c = root \<and> walk preds c \<and> distinct (butlast c) \<and> last c \<in> set (butlast c)))"
proof -
  let ?r = "fst (getRuleInfoForKey W key s)"
  obtain c where c: "search_cycle (predecessorGraph s g) ?r = Some c"
    and nil: "c = [] \<longrightarrow> free_from (predecessorGraph s g) [] ?r"
    and cyc: "c \<noteq> [] \<longrightarrow> hd c = ?r \<and> walk (predecessorGraph s g) c \<and> distinct (butlast c) \<and> last c \<in> set (butlast c)"
    using pg.search_correct [of s g ?r] by blast
  have "c = [] \<longleftrightarrow> (\<forall>w. walk (predecessorGraph s g) (?r # w) \<longrightarrow> distinct (?r # w))"
  proof
    assume free: "\<forall>w. walk (predecessorGraph s g) (?r # w) \<longrightarrow> distinct (?r # w)"
    show "c = []"
    proof (rule ccontr)
      assume ne: "c \<noteq> []"
      then have "c = ?r # tl c" "walk (predecessorGraph s g) c" using cyc by (metis list.collapse)+
      then have "distinct c" using free by metis
      moreover have "c = butlast c @ [last c]" using ne by simp
      ultimately have "last c \<notin> set (butlast c)" by (metis distinct_append insert_disjoint(2) list.set_intros(1) disjoint_iff)
      then show False using cyc ne by simp
    qed
  qed (use nil in \<open>simp add: free_from_def\<close>)
  then show ?thesis
    using assms c cyc by (intro exI [of _ c] exI [of _ "snd (getRuleInfoForKey W key s)"]) (simp add: findCycle_def split_def Let_def)
qed

text \<open>An engine whose only rule waits for itself.\<close>

definition self_request :: TaskInputRequest where
  "self_request = \<lparr>tir_taskInfo = Some 0, tir_inputID = 0, tir_inputRuleInfo = 0, tir_orderOnly = False,
     tir_forcePriorValue = False, tir_singleUse = False\<rparr>"

definition self_cycle :: "(unit, unit) engine" where
  "self_cycle = new_engine\<lparr>keyTable := [''a''], nextTask := 1,
     ruleInfos := [0 \<mapsto> (new_RuleInfo 0 \<lparr>rule_key = ''a'', rule_signature = 0\<rparr>)
       \<lparr>ri_state := InProgressWaiting, ri_inProgressInfo := PendingTaskInfo 0\<rparr>],
     taskInfos := [0 \<mapsto> (new_TaskInfo () 0)\<lparr>ti_requestedBy := [self_request], ti_waitCount := 1\<rparr>]\<rparr>"

theorem findCycle_correct_witness:
  "\<forall>W. \<exists>g c s1. successorGraph self_cycle = Some g \<and> findCycle W ''a'' self_cycle = Some (c, s1) \<and> c \<noteq> [] \<and>
     hd c = 0 \<and> walk (predecessorGraph self_cycle g) c \<and> last c \<in> set (butlast c)"
proof
  fix W :: "(unit, unit) client"
  define g :: graph where "g = (\<lambda>_. [])(0 := [0])"
  have g: "successorGraph self_cycle = Some g"
    by (simp add: successorGraph_def scan_record_graph.simps self_cycle_def scanning_rules_def new_engine_def
        new_RuleInfo_def isScanning_def new_TaskInfo_def task_successors_def requester_rule_def self_request_def
        rule_of_task_def g_def)
  have root: "fst (getRuleInfoForKey W ''a'' self_cycle) = 0"
    by (simp add: getRuleInfoForKey_def getKeyID_def self_cycle_def new_engine_def)
  have "walk (predecessorGraph self_cycle g) [0, 0]"
    by (simp add: predecessorGraph_def g_def self_cycle_def new_engine_def)
  then have "\<not> (\<forall>w. walk (predecessorGraph self_cycle g) (0 # w) \<longrightarrow> distinct (0 # w))"
    by (metis distinct_length_2_or_more)
  with findCycle_correct [OF g, of W "''a''"] g root
  show "\<exists>g c s1. successorGraph self_cycle = Some g \<and> findCycle W ''a'' self_cycle = Some (c, s1) \<and> c \<noteq> [] \<and>
     hd c = 0 \<and> walk (predecessorGraph self_cycle g) c \<and> last c \<in> set (butlast c)"
    by (auto simp: Let_def)
qed
end
