(* ===== verification/Engine_Properties.thy ===== *)
theory Engine_Properties
  imports Engine_Skip Cycle_Search
begin

text \<open>
  The properties of the build engine.  The runs that the witnesses use are computed from the
  definitions, with \<open>sample_client\<close> for the client.
\<close>


section \<open>Running the loop\<close>

text \<open>A number of steps of the loop on its own.\<close>

fun steps :: "nat \<Rightarrow> ('ts, 'db) client \<Rightarrow> KeyType \<Rightarrow> ('ts, 'db) config \<Rightarrow> ('ts, 'db) config option" where
  "steps 0 W key c = Some c"
| "steps (Suc n) W key c = Option.bind (executeTasks_step W key c) (steps n W key)"

lemma loop_reach:
  "engine_reach W key s0 c \<Longrightarrow> executeTasks_step W key c = Some c' \<Longrightarrow> engine_reach W key s0 c'"
  by (erule engine_reach.step) (rule engine_step.loop)

lemma steps_reach:
  "steps n W key c = Some c' \<Longrightarrow> engine_reach W key s0 c \<Longrightarrow> engine_reach W key s0 c'"
proof (induction n arbitrary: c)
  case (Suc n)
  then obtain c1 where "executeTasks_step W key c = Some c1" "steps n W key c1 = Some c'" by auto
  then show ?case using Suc.IH Suc.prems(2) loop_reach by blast
qed simp

lemma run_loop_Suc:
  "run_loop (Suc n) W key (ph, d, s) = (case ph of PhReturn b \<Rightarrow> Some (b, s)
     | _ \<Rightarrow> do { c1 \<leftarrow> executeTasks_step W key (ph, d, s); run_loop n W key c1 })"
  by (cases ph) simp_all

lemma run_loop_reach:
  "run_loop n W key (ph, d, s) = Some (b, s') \<Longrightarrow> engine_reach W key s0 (ph, d, s) \<Longrightarrow>
   \<exists>d'. engine_reach W key s0 (PhReturn b, d', s')"
proof (induction n arbitrary: ph d s)
  case 0
  then show ?case by (cases ph) auto
next
  case (Suc n)
  show ?case
  proof (cases "\<exists>b'. ph = PhReturn b'")
    case True
    then show ?thesis using Suc.prems by auto
  next
    case False
    with Suc.prems(1) obtain ph1 d1 s1 where "executeTasks_step W key (ph, d, s) = Some (ph1, d1, s1)"
      "run_loop n W key (ph1, d1, s1) = Some (b, s')"
      by (cases ph) (auto simp: run_loop_Suc)
    then show ?thesis using Suc.IH Suc.prems(2) loop_reach by blast
  qed
qed

section \<open>A client\<close>

text \<open>
  A client for concrete runs: the task of \<open>r\<close> asks for \<open>i\<close>, every other task asks for nothing;
  a task completes at once, with a value one byte longer than its input's.
\<close>

definition sample_client :: "(string \<times> ValueType, unit) client" where
  "sample_client = \<lparr>
     lookupRule = (\<lambda>k. \<lparr>rule_key = k, rule_signature = 0\<rparr>),
     isResultValid = (\<lambda>_ _. True),
     createTask = (\<lambda>r. (rule_key r, [])),
     task_start = (\<lambda>ts. (ts, if fst ts = ''r'' then [CallRequest ''i'' 0] else [])),
     task_providePriorValue = (\<lambda>v ts. (ts, [])),
     task_provideValue = (\<lambda>i k v ts. ((fst ts, v), [])),
     task_inputsAvailable = (\<lambda>ts. (ts, [CallComplete (1 # snd ts) False])),
     shouldResolveCycle = (\<lambda>_ _ _. False),
     db_buildStarted = (\<lambda>d. (d, None)),
     db_buildComplete = id,
     db_getCurrentEpoch = (\<lambda>_. (0, True)),
     db_setCurrentIteration = (\<lambda>d e. (d, None)),
     db_lookupRuleResult = (\<lambda>d table i k. (table, None, [])),
     db_setRuleResult = (\<lambda>d table i r res. (d, None))\<rparr>"

lemma sample_client_ok: "completes_once sample_client" "db_writes_ok sample_client"
  by (simp_all add: completes_once_def db_writes_ok_def sample_client_def is_complete_call_def)

lemma new_engine_rested: "quiescent new_engine" "engine_inv [] {} 0 new_engine"
proof -
  show "quiescent new_engine" by (simp add: quiescent_def new_engine_def)
  then show "engine_inv [] {} 0 new_engine"
    by (rule quiescent_inv) (simp_all add: all_idle_def new_engine_def)
qed

definition sample_start :: "(string \<times> ValueType, unit) engine" where
  "sample_start = new_engine\<lparr>currentEpoch := 1\<rparr>"

lemma sample_start_rested: "quiescent sample_start" "engine_inv [] {} 0 sample_start"
  using new_engine_rested by (simp_all add: sample_start_def quiescent_def engine_inv_def skel_of_def)

lemma sample_reach:
  "map_option P (steps n sample_client ''r'' (executeTasks_start sample_client ''r'' sample_start)) = Some v \<Longrightarrow>
   \<exists>c. engine_reach sample_client ''r'' sample_start c \<and> P c = v"
  using steps_reach [OF _ engine_reach.start] by blast

section \<open>Safety of the loop\<close>

text \<open>
  C1.  At every configuration that \<^verbatim>\<open>executeTasks\<close> can reach from a rested engine,
  with any interleaving of completions, discovered dependencies and cancellation from other
  threads, the engine's bookkeeping is consistent: each task's wait count is the number of its
  requests that are queued, paused or awaited anywhere; a rule is in progress exactly while it has
  its task; the ready queue holds exactly the waiting tasks that wait for nothing, once each; the
  number of outstanding tasks is the number of computing rules, and the finished queue holds
  computing tasks, once each; a round that did no work has left the earlier queues empty.
\<close>

theorem executeTasks_invariant:
  assumes "engine_reach W key s0 c" "quiescent s0" "engine_inv [] {} 0 s0"
    and "completes_once W" "db_writes_ok W"
  shows "config_inv c"
  using assms by (rule engine_reach_inv)

theorem executeTasks_invariant_witness:
  "\<exists>c. engine_reach sample_client ''r'' sample_start c \<and> fst c = PhReturn True \<and> config_inv c"
proof -
  have "map_option fst (steps 60 sample_client ''r'' (executeTasks_start sample_client ''r'' sample_start))
      = Some (PhReturn True)" by code_simp
  from sample_reach [OF this] obtain c where "engine_reach sample_client ''r'' sample_start c" "fst c = PhReturn True"
    by blast
  then show ?thesis
    using executeTasks_invariant sample_start_rested sample_client_ok by blast
qed

lemma returned_complete:
  assumes "engine_reach W key s0 (PhReturn True, d, s)" "quiescent s0" "engine_inv [] {} 0 s0"
    and "completes_once W" "db_writes_ok W"
  shows "quiescent s \<and> (\<exists>ri. ruleInfos s (position key (keyTable s0)) = Some ri \<and>
           (isComplete (currentEpoch s0) ri \<or> isScanning ri))"
proof -
  let ?r = "position key (keyTable s0)"
  have inv: "config_inv (PhReturn True, d, s)" using assms by (rule engine_reach_inv)
  then have q: "quiescent s" and k: "engine_inv [] {} 0 s" by (simp_all add: config_inv_def)
  have "root_ok ?r s" "currentEpoch s = currentEpoch s0" using engine_reach_root [OF assms] by simp_all
  then consider (pending) t where "pending ?r s t"
    | (busy) ri where "ruleInfos s ?r = Some ri" "isInProgress ri \<or> isComplete (currentEpoch s0) ri"
    unfolding root_ok_def by metis
  then have "\<exists>ri. ruleInfos s ?r = Some ri \<and> (isComplete (currentEpoch s0) ri \<or> isScanning ri)"
  proof cases
    case pending
    then show ?thesis using q by (auto simp: pending_def quiescent_def)
  next
    case (busy ri)
    have "\<not> isInProgress ri"
      using k busy(1) q by (auto simp: engine_inv_def skel_inv_def rules_inv_def quiescent_def in_progress_def isInProgress_def
          isInProgressWaiting_def isInProgressComputing_def)
    then show ?thesis using busy by blast
  qed
  then show ?thesis using q by simp
qed

text \<open>
  C2.  When \<^verbatim>\<open>executeTasks\<close> returns true, nothing is left: no task, no queued scan,
  input or finished request, no ready or finished task, no outstanding one.  The rule of the
  requested key is complete in this build, unless it is still being scanned.  (The exception is
  real, as a cycle among scanned rules shows below; the code asserts completeness at this point.)
\<close>

theorem executeTasks_success:
  assumes "engine_reach W key s0 (PhReturn True, d, s)" "quiescent s0" "engine_inv [] {} 0 s0"
    and "completes_once W" "db_writes_ok W"
  shows "quiescent s \<and> (\<exists>ri. ruleInfos s (position key (keyTable s0)) = Some ri \<and>
           (isComplete (currentEpoch s0) ri \<or> isScanning ri))"
  using returned_complete [OF assms] .

theorem executeTasks_success_witness:
  "\<exists>d s. engine_reach sample_client ''r'' sample_start (PhReturn True, d, s) \<and> quiescent s \<and>
     (\<exists>ri. ruleInfos s 0 = Some ri \<and> (isComplete 1 ri \<or> isScanning ri))"
proof -
  have "map_option fst (steps 60 sample_client ''r'' (executeTasks_start sample_client ''r'' sample_start))
      = Some (PhReturn True)" by code_simp
  from sample_reach [OF this] obtain d s where
    "engine_reach sample_client ''r'' sample_start (PhReturn True, d, s)" by fastforce
  with executeTasks_success [OF this sample_start_rested sample_client_ok]
  show ?thesis by (auto simp: sample_start_def new_engine_def)
qed

text \<open>
  C3.  When \<^verbatim>\<open>executeTasks\<close> returns false, by cancellation or an unresolved cycle,
  every task and every queue is gone, no task is outstanding, and no rule is left scanning or in
  progress: the next build starts from a consistent engine.
\<close>

theorem executeTasks_cancelled:
  assumes "engine_reach W key s0 (PhReturn False, d, s)" "quiescent s0" "engine_inv [] {} 0 s0"
    and "completes_once W" "db_writes_ok W"
  shows "quiescent s \<and> engine_inv [] {} 0 s \<and>
    (\<forall>r ri. ruleInfos s r = Some ri \<longrightarrow> \<not> isScanning ri \<and> \<not> isInProgress ri)"
proof -
  have "config_inv (PhReturn False, d, s)" using assms by (rule engine_reach_inv)
  then show ?thesis
    by (auto simp: config_inv_def all_idle_def idle_def in_progress_def isScanning_def isInProgress_def
        isInProgressWaiting_def isInProgressComputing_def)
qed

lemma sample_cancel_reach:
  "\<exists>d s. engine_reach sample_client ''r'' sample_start (PhReturn False, d, s)"
proof -
  let ?c0 = "executeTasks_start sample_client ''r'' sample_start"
  obtain ph d s where c0: "?c0 = (ph, d, s)" by (cases ?c0)
  have 1: "engine_reach sample_client ''r'' sample_start (ph, d, cancelBuild s)"
    using engine_reach.start [of sample_client "''r''" sample_start] c0
    by (metis engine_reach.step engine_step.cancel)
  have "map_option fst (steps 4 sample_client ''r'' (case ?c0 of (ph, d, s) \<Rightarrow> (ph, d, cancelBuild s))) = Some (PhReturn False)"
    by code_simp
  then obtain d' s' where "steps 4 sample_client ''r'' (ph, d, cancelBuild s) = Some (PhReturn False, d', s')"
    unfolding c0 by auto
  with 1 show ?thesis using steps_reach by blast
qed

theorem executeTasks_cancelled_witness:
  "\<exists>d s. engine_reach sample_client ''r'' sample_start (PhReturn False, d, s) \<and> quiescent s \<and>
    (\<forall>r ri. ruleInfos s r = Some ri \<longrightarrow> \<not> isScanning ri \<and> \<not> isInProgress ri)"
  using sample_cancel_reach executeTasks_cancelled [OF _ sample_start_rested sample_client_ok] by blast

text \<open>
  C4.  A task is ready only when it has everything: whenever a task is in the ready queue (the
  queue \<^verbatim>\<open>inputsAvailable\<close> is called from), its wait count is zero, its rule is waiting
  for it, and no request of it is in the input queue, in the finished queue, paused in a scan
  record or waiting for another task.
\<close>

theorem ready_task_has_inputs:
  assumes "engine_reach W key s0 (ph, d, s)" "quiescent s0" "engine_inv [] {} 0 s0"
    and "completes_once W" "db_writes_ok W"
    and "t \<in> set (readyTaskInfos s)"
  shows "\<exists>ti ri. taskInfos s t = Some ti \<and> ti_waitCount ti = 0 \<and>
    ruleInfos s (ti_forRuleInfo ti) = Some ri \<and> isInProgressWaiting ri \<and> getPendingTaskInfo ri = Some t \<and>
    (\<forall>q \<in> set (inputRequests s) \<union> set (finishedInputRequests s). tir_taskInfo q \<noteq> Some t) \<and>
    (\<forall>u tu. taskInfos s u = Some tu \<longrightarrow> (\<forall>q \<in> set (ti_requestedBy tu). tir_taskInfo q \<noteq> Some t)) \<and>
    (\<forall>r rj rec. ruleInfos s r = Some rj \<longrightarrow> getPendingScanRecord rj = Some rec \<longrightarrow>
       (\<forall>q \<in> set (pausedInputRequests rec). tir_taskInfo q \<noteq> Some t))"
proof -
  have "config_inv (ph, d, s)" using assms(1-5) by (rule engine_reach_inv)
  then obtain k where inv: "skel_inv [] {} k (skel_of s)"
    by (cases ph) (auto simp: config_inv_def engine_inv_def)
  obtain ti where ti: "taskInfos s t = Some ti"
    using inv assms(6) by (auto simp: skel_inv_def ready_inv_def)
  then have kt: "k_tasks (skel_of s) t = Some (ti_forRuleInfo ti, ti_requestedBy ti, ti_waitCount ti)" by simp
  have w: "ti_waitCount ti = 0" and
    kr: "k_rules (skel_of s) (ti_forRuleInfo ti) = Some (InProgressWaiting, PendingTaskInfo t)"
    using skel_inv_ready [OF inv kt] assms(6) by simp_all
  then obtain ri where ri: "ruleInfos s (ti_forRuleInfo ti) = Some ri" "ri_state ri = InProgressWaiting"
    "ri_inProgressInfo ri = PendingTaskInfo t" by auto
  have "outstanding [] (skel_of s) t = 0"
    using inv ti w by (simp add: skel_inv_def waits_inv_def waits_def)
  then have z: "reqs t (inputRequests s) = 0" "reqs t (finishedInputRequests s) = 0"
    "msum (paused t) (k_rules (skel_of s)) = 0" "msum (awaited t) (k_tasks (skel_of s)) = 0"
    by (simp_all add: outstanding_def)
  have fin: "finite (dom (k_rules (skel_of s)))" "finite (dom (k_tasks (skel_of s)))" using inv by (simp_all add: skel_inv_def)
  have none: "tir_taskInfo q \<noteq> Some t" if "reqs t qs = 0" "q \<in> set qs" for q qs
    using that by (induction qs) auto
  have "\<forall>q \<in> set (ti_requestedBy tu). tir_taskInfo q \<noteq> Some t" if "taskInfos s u = Some tu" for u tu
    using msum_ge [OF fin(2), of u "(ti_forRuleInfo tu, ti_requestedBy tu, ti_waitCount tu)" "awaited t"] that z(4)
    by (intro ballI none) simp_all
  moreover have "\<forall>q \<in> set (pausedInputRequests rec). tir_taskInfo q \<noteq> Some t"
    if "ruleInfos s r = Some rj" "getPendingScanRecord rj = Some rec" for r rj rec
    using msum_ge [OF fin(1), of r "(IsScanning, PendingScanRecord rec)" "paused t"] that z(3)
    by (intro ballI none) (auto simp: getPendingScanRecord_def isScanning_def split: if_splits InProgressInfo.splits)
  moreover have "isInProgressWaiting ri" "getPendingTaskInfo ri = Some t"
    using ri by (simp_all add: isInProgressWaiting_def getPendingTaskInfo_def isInProgress_def)
  ultimately show ?thesis
    using ti w ri(1) none [OF z(1)] none [OF z(2)] by blast
qed

theorem ready_task_has_inputs_witness:
  "\<exists>ph d s ti. engine_reach sample_client ''r'' sample_start (ph, d, s) \<and>
     1 \<in> set (readyTaskInfos s) \<and> taskInfos s 1 = Some ti \<and> ti_waitCount ti = 0 \<and>
     (\<forall>q \<in> set (inputRequests s) \<union> set (finishedInputRequests s). tir_taskInfo q \<noteq> Some 1)"
proof -
  have "map_option (\<lambda>(ph, d, s). readyTaskInfos s) (steps 4 sample_client ''r'' (executeTasks_start sample_client ''r'' sample_start))
      = Some [1]" by code_simp
  from sample_reach [OF this] obtain ph d s where
    r: "engine_reach sample_client ''r'' sample_start (ph, d, s)" and "readyTaskInfos s = [1]" by auto
  then have t: "1 \<in> set (readyTaskInfos s)" by simp
  from ready_task_has_inputs [OF r sample_start_rested sample_client_ok t] r t show ?thesis by blast
qed

lemma steps_star: "steps n W key c = Some c' \<Longrightarrow> (engine_step W key)\<^sup>*\<^sup>* c c'"
proof (induction n arbitrary: c)
  case (Suc n)
  then obtain c1 where "executeTasks_step W key c = Some c1" "steps n W key c1 = Some c'" by auto
  then show ?case using Suc.IH engine_step.loop by (metis converse_rtranclp_into_rtranclp)
qed simp

text \<open>
  C5.  The engine skips a rule only with reason.  Take a rule that is complete in this build although the
  engine did not announce, in this build, that the rule's task completed.  Then the record that the rule had when the build began, or
  that the database gave for it when it was first looked up, says that it has been built before with the
  same signature; its client accepts the recorded value; every recorded dependency that is not single-use
  is complete in this build and, unless it is order-only, was not computed after the rule was last built;
  and the rule keeps value and time of computation.  This holds at every moment of the build, also when the
  decision to skip and the completion fall into one step of the loop.  The build starts from an engine at
  rest whose bookkeeping is consistent and in which no rule is being scanned (an earlier build leaves a
  rule being scanned only when its rules wait for each other in a cycle), and by then the rule itself was neither complete in this
  epoch nor marked as not needing to run.
\<close>

theorem skipped_rule_up_to_date:
  assumes "engine_reach W key s0 (ph, d, s)" "quiescent s0" "engine_inv [] {} 0 s0" "none_scanning s0"
    and "completes_once W" "db_writes_ok W" "ph \<noteq> PhReturn False"
    and ri: "ruleInfos s r = Some ri" "isComplete (currentEpoch s) ri"
    and ran: "\<not> announced (length (events s0)) s (ri_rule ri)"
    and before: "\<forall>ri0. ruleInfos s0 r = Some ri0 \<longrightarrow> ri_state ri0 \<noteq> DoesNotNeedToRun \<and> \<not> isComplete (currentEpoch s0) ri0"
  shows "\<exists>old. recorded W s0 r (ri_rule ri) old \<and> res_builtAt old \<noteq> 0 \<and>
    rule_signature (ri_rule ri) = res_signature old \<and> isResultValid W (ri_rule ri) (res_value old) \<and>
    (\<forall>kf \<in> set (deps_list (cleanSingleUseDependencies (res_dependencies old))).
       \<exists>rj. ruleInfos s (kf_keyID kf) = Some rj \<and> isComplete (currentEpoch s) rj \<and>
         (kf_orderOnly kf \<or> res_computedAt (ri_result rj) \<le> res_builtAt old)) \<and>
    res_value (ri_result ri) = res_value old \<and> res_computedAt (ri_result ri) = res_computedAt old"
proof -
  have "record_inv W s0 s" using engine_reach_skip_inv [OF assms(1-7)] by simp
  moreover have "r \<notin> exempt s0" using before by (auto simp: exempt_def)
  ultimately have "record_ok W s0 s r ri" using record_invD ri(1) by blast
  from record_okD(3) [OF this ri(2)] ran obtain old where old: "recorded W s0 r (ri_rule ri) old" "skipped_on W s ri old" by blast
  then have "ri_result ri = (cleaned old)\<lparr>res_builtAt := currentEpoch s, res_end := res_end (ri_result ri)\<rparr>"
    by (simp add: skipped_on_def)
  then have "res_value (ri_result ri) = res_value old \<and> res_computedAt (ri_result ri) = res_computedAt old"
    by (metis (no_types, lifting) cleaned_def Result.select_convs Result.surjective Result.update_convs)
  then show ?thesis using old
    by (intro exI [of _ old]) (auto simp: skipped_on_def validated_def settled_def input_settled_def deps_list_def cleaned_def)
qed

text \<open>An engine after a build of \<open>r\<close>, which used \<open>i\<close>.\<close>

definition built_rule :: "KeyID \<Rightarrow> KeyType \<Rightarrow> ValueType \<Rightarrow> KeyID list \<Rightarrow> RuleInfo" where
  "built_rule i key v ds = (new_RuleInfo i \<lparr>rule_key = key, rule_signature = 0\<rparr>)
     \<lparr>ri_state := Complete,
      ri_result := \<lparr>res_value = v, res_signature = 0, res_computedAt = 1, res_builtAt = 1,
        res_dependencies = \<lparr>keys = ds, flags = map (\<lambda>_. 0) ds\<rparr>, res_start = 0, res_end = 0\<rparr>\<rparr>"

definition built_engine :: "(string \<times> ValueType, unit) engine" where
  "built_engine = new_engine\<lparr>currentEpoch := 2, keyTable := [''r'', ''i''],
     ruleInfos := [0 \<mapsto> built_rule 0 ''r'' [1, 1] [1], 1 \<mapsto> built_rule 1 ''i'' [1] []]\<rparr>"

lemma built_engine_rested: "quiescent built_engine" "engine_inv [] {} 0 built_engine" "none_scanning built_engine"
proof -
  show q: "quiescent built_engine" by (simp add: quiescent_def built_engine_def new_engine_def)
  show "engine_inv [] {} 0 built_engine"
    by (rule quiescent_inv [OF q]) (auto simp: all_idle_def idle_def in_progress_def built_engine_def new_engine_def built_rule_def split: if_splits)
  show "none_scanning built_engine" by (auto simp: none_scanning_def built_engine_def built_rule_def isScanning_def split: if_splits)
qed

theorem skipped_rule_up_to_date_witness:
  "\<exists>d s ri rj. engine_reach sample_client ''r'' built_engine (PhReturn True, d, s) \<and> ruleInfos s 0 = Some ri \<and>
     isComplete (currentEpoch s) ri \<and> \<not> announced (length (events built_engine)) s (ri_rule ri) \<and>
     ruleInfos s 1 = Some rj \<and> isComplete (currentEpoch s) rj \<and>
     res_value (ri_result ri) = [1, 1] \<and> res_computedAt (ri_result ri) = 1 \<and> res_computedAt (ri_result rj) \<le> 1"
proof -
  let ?P = "\<lambda>(ph, d, s). (ph, currentEpoch s, events s, map_option (\<lambda>ri. (ri_state ri, res_builtAt (ri_result ri), rule_key (ri_rule ri))) (ruleInfos s 0))"
  have "map_option ?P (steps 60 sample_client ''r'' (executeTasks_start sample_client ''r'' built_engine))
      = Some (PhReturn True, 2, [EvStatus ''r'' StatusIsScanning, EvStatus ''i'' StatusIsScanning, EvStatus ''i'' StatusIsUpToDate,
          EvStatus ''r'' StatusIsUpToDate], Some (Complete, 2, ''r''))" by code_simp
  then obtain c where c: "steps 60 sample_client ''r'' (executeTasks_start sample_client ''r'' built_engine) = Some c"
    "?P c = (PhReturn True, 2, [EvStatus ''r'' StatusIsScanning, EvStatus ''i'' StatusIsScanning, EvStatus ''i'' StatusIsUpToDate,
          EvStatus ''r'' StatusIsUpToDate], Some (Complete, 2, ''r''))" by blast
  then obtain d s where c': "c = (PhReturn True, d, s)" by (cases c) auto
  then have r: "engine_reach sample_client ''r'' built_engine (PhReturn True, d, s)"
    using steps_reach [OF c(1) engine_reach.start] by simp
  from c(2) c' obtain ri where ri: "ruleInfos s 0 = Some ri" "isComplete (currentEpoch s) ri" "rule_key (ri_rule ri) = ''r''"
    by (auto simp: isComplete_def)
  have ran: "\<not> announced (length (events built_engine)) s (ri_rule ri)"
    using c(2) c' ri(3) by (auto simp: announced_def built_engine_def new_engine_def)
  have old: "ruleInfos built_engine 0 = Some (built_rule 0 ''r'' [1, 1] [1])" by (simp add: built_engine_def)
  have "\<forall>ri0. ruleInfos built_engine 0 = Some ri0 \<longrightarrow> ri_state ri0 \<noteq> DoesNotNeedToRun \<and> \<not> isComplete (currentEpoch built_engine) ri0"
    by (simp add: old isComplete_def) (simp add: built_rule_def built_engine_def)
  note before = this
  have "deps_list (cleanSingleUseDependencies \<lparr>keys = [1], flags = [0]\<rparr>) = [\<lparr>kf_keyID = 1, kf_orderOnly = False, kf_singleUse = False\<rparr>]"
    by code_simp
  note deps = this [unfolded One_nat_def]
  from skipped_rule_up_to_date [OF r built_engine_rested sample_client_ok _ ri(1,2) ran before] obtain rj where
    "ruleInfos s 1 = Some rj" "isComplete (currentEpoch s) rj" "res_computedAt (ri_result rj) \<le> 1"
    "res_value (ri_result ri) = [1, 1]" "res_computedAt (ri_result ri) = 1"
    by (auto simp: recorded_def old built_rule_def deps)
  then show ?thesis using r ri(1,2) ran by blast
qed

text \<open>
  C6.  A result is final for the build: once a rule is complete in the current build, nothing the
  loop or another thread does before the loop returns changes the rule's record in any way.  In
  particular a rule is computed at most once per build.
\<close>

theorem complete_rule_final:
  assumes "engine_reach W key s0 (ph, d, s)" "quiescent s0" "engine_inv [] {} 0 s0"
    and "completes_once W" "db_writes_ok W"
    and "(engine_step W key)\<^sup>*\<^sup>* (ph, d, s) (ph', d', s')" "ph' \<noteq> PhReturn False"
    and "ruleInfos s r = Some ri" "isComplete (currentEpoch s) ri"
  shows "ruleInfos s' r = Some ri"
proof -
  have "engine_reach W key s0 (ph', d', s') \<and> (ph' \<noteq> PhReturn False \<longrightarrow> rules_advance s s')"
    using assms(6)
  proof (induction "(ph', d', s')" arbitrary: ph' d' s' rule: rtranclp_induct)
    case base
    then show ?case using assms(1) by simp
  next
    case (step c)
    obtain ph1 d1 s1 where c: "c = (ph1, d1, s1)" by (cases c)
    have r1: "engine_reach W key s0 (ph1, d1, s1)" and a1: "ph1 \<noteq> PhReturn False \<longrightarrow> rules_advance s s1"
      using step(3) c by auto
    have st: "engine_step W key (ph1, d1, s1) (ph', d', s')" using step(2) c by simp
    have "config_inv (ph1, d1, s1)" using r1 assms(2-5) by (rule engine_reach_inv)
    then have "ph' = PhReturn False \<or> progresses s1 s'" using engine_step_progresses [OF st] by blast
    moreover have "ph1 = PhReturn False \<longrightarrow> ph' = PhReturn False" using st engine_step_return_stuck by blast
    ultimately show ?case
      using engine_reach.step [OF r1 st] a1 rules_advance_trans unfolding progresses_def by blast
  qed
  then have "rules_advance s s'" using assms(7) by blast
  then show ?thesis using assms(8,9) unfolding rules_advance_def advance_def by fastforce
qed

theorem complete_rule_final_witness:
  "\<exists>ph d s ph' d' s' ri. engine_reach sample_client ''r'' sample_start (ph, d, s) \<and>
     ruleInfos s 1 = Some ri \<and> isComplete (currentEpoch s) ri \<and> ph' = PhReturn True \<and>
     (engine_step sample_client ''r'')\<^sup>*\<^sup>* (ph, d, s) (ph', d', s') \<and> ruleInfos s' 1 = Some ri"
proof -
  let ?c0 = "executeTasks_start sample_client ''r'' sample_start"
  let ?P = "\<lambda>(ph, d, s). case ruleInfos s 1 of None \<Rightarrow> False | Some ri \<Rightarrow> isComplete (currentEpoch s) ri"
  have "(case steps 9 sample_client ''r'' ?c0 of None \<Rightarrow> None
      | Some c \<Rightarrow> Some (?P c, map_option fst (steps 40 sample_client ''r'' c))) = Some (True, Some (PhReturn True))"
    by code_simp
  then obtain c where c: "steps 9 sample_client ''r'' ?c0 = Some c" "?P c"
    "map_option fst (steps 40 sample_client ''r'' c) = Some (PhReturn True)" by (auto split: option.splits)
  obtain ph d s where c': "c = (ph, d, s)" by (cases c)
  obtain d' s' where e: "steps 40 sample_client ''r'' (ph, d, s) = Some (PhReturn True, d', s')" using c(3) c' by auto
  have r: "engine_reach sample_client ''r'' sample_start (ph, d, s)" using steps_reach [OF c(1) engine_reach.start] c' by simp
  have st: "(engine_step sample_client ''r'')\<^sup>*\<^sup>* (ph, d, s) (PhReturn True, d', s')" using e by (rule steps_star)
  obtain ri where ri: "ruleInfos s 1 = Some ri" "isComplete (currentEpoch s) ri" using c(2) c' by (auto split: option.splits)
  from complete_rule_final [OF r sample_start_rested sample_client_ok st _ ri] r ri st show ?thesis by blast
qed

section \<open>Faults of the code\<close>

text \<open>Two rules that each discover the other as a dependency.\<close>

definition mutual_client :: "(string \<times> ValueType, unit) client" where
  "mutual_client = sample_client\<lparr>task_start := (\<lambda>ts. (ts, [])),
     task_inputsAvailable := (\<lambda>ts. (ts, [CallDiscoveredDependency (if fst ts = ''a'' then ''b'' else ''a''),
       CallComplete [1] False]))\<rparr>"

text \<open>
  A cycle among rules that are only being scanned is not found.  After a first build in which
  \<open>a\<close> and \<open>b\<close> discovered each other, the second build of \<open>a\<close> scans \<open>a\<close>, defers it on \<open>b\<close>, and
  defers \<open>b\<close> on \<open>a\<close>.  No task exists, so the loop takes the absence of work for success: it
  returns true with both rules still scanning, and the assertion at the end of
  \<^verbatim>\<open>build\<close> that the requested rule is complete fails.
\<close>

theorem scan_cycle_undetected:
  "(case build 100 mutual_client ''a'' new_engine of None \<Rightarrow> None
    | Some (v1, s1) \<Rightarrow>
      (case run_loop 100 mutual_client ''a'' (executeTasks_start mutual_client ''a'' (snd (build_begin mutual_client s1))) of
         None \<Rightarrow> None
       | Some (ok, s2) \<Rightarrow>
           Some (v1, ok, map_option ri_state (ruleInfos s2 0), map_option ri_state (ruleInfos s2 1),
                 Option.is_none (build_end mutual_client ''a'' ok s2))))
   = Some ([1], True, Some IsScanning, Some IsScanning, True)"
  by code_simp

text \<open>
  The task of \<open>r\<close> asks for \<open>i\<close> and, once it has it, for \<open>j\<close>, whose value it returns; \<open>v\<close> is the
  value of \<open>j\<close>, and \<open>ok\<close> tells whether the stored value of \<open>j\<close> is accepted.
\<close>

definition chained_client :: "8 word \<Rightarrow> bool \<Rightarrow> (string \<times> ValueType, unit) client" where
  "chained_client v ok = sample_client\<lparr>isResultValid := (\<lambda>r _. rule_key r = ''j'' \<longrightarrow> ok),
     task_provideValue := (\<lambda>i k x ts. if k = ''i'' then (ts, [CallRequest ''j'' 1]) else ((fst ts, x), [])),
     task_inputsAvailable := (\<lambda>ts. (ts, [CallComplete (if fst ts = ''j'' then [v] else snd ts) False]))\<rparr>"

definition cancelled_at :: "nat \<Rightarrow> (string \<times> ValueType, unit) client \<Rightarrow> KeyType \<Rightarrow>
    (string \<times> ValueType, unit) engine \<Rightarrow> (ValueType \<times> (string \<times> ValueType, unit) engine) option" where
  "cancelled_at n W key s =
     do { (ph, d, s1) \<leftarrow> steps n W key (executeTasks_start W key (snd (build_begin W s)));
          (ok, s2) \<leftarrow> run_loop 100 W key (ph, d, cancelBuild s1);
          build_end W key ok s2 }"

text \<open>
  A cancelled rule may be taken for up to date.  The comment in
  \<^verbatim>\<open>cancelRemainingTasks\<close> says that cancelling a task \<open>will force it to rerun in a later
  build\<close>.  But \<^verbatim>\<open>demandRule\<close> has cleared the rule's dependencies, the task has
  recorded some of them again, and \<^verbatim>\<open>setCancelled\<close> keeps the time of the last build:
  the next scan sees only the dependencies recorded so far.  Here \<open>j\<close> changes from 1 to 2; an
  undisturbed build gives 2; a build cancelled while \<open>r\<close> has its first input, and then the same
  build again, gives the stale value 1.
\<close>

theorem cancelled_rule_stale:
  "(case build 200 (chained_client 1 True) ''r'' new_engine of None \<Rightarrow> None
    | Some (v1, s1) \<Rightarrow>
      (case cancelled_at 25 (chained_client 2 False) ''r'' s1 of None \<Rightarrow> None
       | Some (v2, s2) \<Rightarrow>
           Some (v1, map_option fst (build 200 (chained_client 2 False) ''r'' s1), v2,
                 map_option fst (build 200 (chained_client 2 False) ''r'' (resetForBuild s2)))))
   = Some ([1], Some [2], [], Some [1])"
  by code_simp

text \<open>A database that refuses every result.\<close>

definition readonly_client :: "(string \<times> ValueType, unit) client" where
  "readonly_client = sample_client\<lparr>db_setRuleResult := (\<lambda>d table i r res. (d, Some ''readonly''))\<rparr>"

text \<open>
  When the database refuses a result, the engine runs into an assertion instead of failing the
  build.  The rule of the finished task is already complete and has no task any more, but the task
  is still registered when \<^verbatim>\<open>cancelRemainingTasks\<close> asserts, for every task, that it is
  the pending task of a rule in progress.
\<close>

theorem database_failure_asserts:
  "(case steps 8 readonly_client ''i'' (executeTasks_start readonly_client ''i'' (sample_start\<lparr>db := Some ()\<rparr>)) of
      None \<Rightarrow> None
    | Some (ph, d, s) \<Rightarrow> Some (ph, numOutstandingUnfinishedTasks s, last (events s),
        Option.is_none (executeTasks_step readonly_client ''i'' (ph, d, s))))
   = Some (PhCancel, 0, EvError ''readonly'', True)"
  by code_simp

section \<open>Functional behaviour of the operations\<close>

text \<open>
  The decision of \<^verbatim>\<open>scanRule\<close> on a rule that is neither scanned nor being scanned.
  The rule needs to run if it was never built, if its signature changed or if the client rejects
  the stored value; otherwise it need not run if it has no dependency left after the single-use
  ones are dropped; otherwise it is scanned.  The answer is whether the decision is made.
\<close>

theorem scanRule_decision:
  assumes ri: "ruleInfos s r = Some ri" and st: "\<not> isScanned (currentEpoch s) ri" "\<not> isScanning ri"
    and wf: "wf_deps (res_dependencies (ri_result ri))"
  shows "\<exists>b s' ri'. scanRule W r s = Some (b, s') \<and> ruleInfos s' r = Some ri' \<and>
    deps_list (res_dependencies (ri_result ri')) =
      filter (\<lambda>kf. \<not> kf_singleUse kf) (deps_list (res_dependencies (ri_result ri))) \<and>
    ri_state ri' =
      (if res_builtAt (ri_result ri) = 0 \<or> rule_signature (ri_rule ri) \<noteq> res_signature (ri_result ri) \<or>
          \<not> isResultValid W (ri_rule ri) (res_value (ri_result ri)) then NeedsToRun
       else if \<forall>kf \<in> set (deps_list (res_dependencies (ri_result ri))). kf_singleUse kf then DoesNotNeedToRun
       else IsScanning) \<and>
    b = (ri_state ri' \<noteq> IsScanning)"
proof -
  let ?d = "cleanSingleUseDependencies (res_dependencies (ri_result ri))"
  have clean: "deps_list ?d = filter (\<lambda>kf. \<not> kf_singleUse kf) (deps_list (res_dependencies (ri_result ri)))"
    using wf by (rule clean_refines(1))
  have empty: "empty_deps ?d \<longleftrightarrow> (\<forall>kf \<in> set (deps_list (res_dependencies (ri_result ri))). kf_singleUse kf)"
  proof -
    have "empty_deps ?d \<longleftrightarrow> deps_list ?d = []" by (simp add: empty_deps_def deps_list_def size_deps_def)
    then show ?thesis unfolding clean by (simp add: filter_empty_conv)
  qed
  show ?thesis
    using ri st clean empty
    by (auto simp: scanRule_def Let_def clean_result_def needs_to_run_def upd_rule_def emit_def)
qed

theorem scanRule_decision_witness:
  "\<exists>b s' ri'. scanRule sample_client 0 built_engine = Some (b, s') \<and> ruleInfos s' 0 = Some ri' \<and>
     ri_state ri' = IsScanning \<and> \<not> b"
  using scanRule_decision [of built_engine 0 "built_rule 0 ''r'' [1, 1] [1]" sample_client]
  by (auto simp: built_engine_def built_rule_def new_engine_def new_RuleInfo_def state_defs wf_deps_def sample_client_def
      deps_list_def size_deps_def subscript_def singleUse_def)

text \<open>
  Completing a task.  The result takes the rule's signature; if the value is new, or the task
  forces a change, it is stored with the current epoch; otherwise value and time of computation
  stay, so that dependents do not rerun.  Nothing else about the rule changes, no other rule is
  touched, and the task joins the finished queue.
\<close>

theorem taskIsComplete_result:
  assumes ti: "taskInfos s t = Some ti" and ri: "ruleInfos s (ti_forRuleInfo ti) = Some ri"
    and st: "isInProgressComputing ri" "ri_inProgressInfo ri = PendingTaskInfo t"
  shows "\<exists>s' ri'. taskIsComplete t v force s = Some s' \<and>
    finishedTaskInfos s' = finishedTaskInfos s @ [t] \<and>
    ruleInfos s' = (ruleInfos s)(ti_forRuleInfo ti \<mapsto> ri') \<and>
    res_signature (ri_result ri') = rule_signature (ri_rule ri) \<and>
    res_value (ri_result ri') = v \<and>
    res_computedAt (ri_result ri') =
      (if force \<or> v \<noteq> res_value (ri_result ri) then currentEpoch s else res_computedAt (ri_result ri)) \<and>
    ri_state ri' = ri_state ri \<and> res_builtAt (ri_result ri') = res_builtAt (ri_result ri) \<and>
    res_dependencies (ri_result ri') = res_dependencies (ri_result ri)"
  using assms
  by (auto simp: taskIsComplete_def getPendingTaskInfo_def isInProgress_def upd_rule_def Let_def)

theorem taskIsComplete_result_witness:
  "\<exists>c s' ri'. engine_reach sample_client ''r'' sample_start c \<and>
     taskIsComplete 1 [5] False (snd (snd c)) = Some s' \<and> ruleInfos s' 1 = Some ri' \<and>
     res_value (ri_result ri') = [5] \<and> res_computedAt (ri_result ri') = 1"
proof -
  let ?P = "\<lambda>(ph, d, s). (currentEpoch s, map_option ti_forRuleInfo (taskInfos s 1),
     map_option (\<lambda>ri. (ri_state ri, ri_inProgressInfo ri, res_value (ri_result ri) = [5])) (ruleInfos s 1))"
  have "map_option ?P (steps 7 sample_client ''r'' (executeTasks_start sample_client ''r'' sample_start))
      = Some (1, Some 1, Some (InProgressComputing, PendingTaskInfo 1, False))" by code_simp
  from sample_reach [OF this] obtain ph d s ti ri where
    r: "engine_reach sample_client ''r'' sample_start (ph, d, s)" and ep: "currentEpoch s = 1"
    and t: "taskInfos s 1 = Some ti" "ti_forRuleInfo ti = 1"
    and ri: "ruleInfos s 1 = Some ri" "ri_state ri = InProgressComputing" "ri_inProgressInfo ri = PendingTaskInfo 1"
      "res_value (ri_result ri) \<noteq> [5]" by auto
  from taskIsComplete_result [OF t(1), of ri "[5]" False] t(2) ri ep r show ?thesis
    by (intro exI [of _ "(ph, d, s)"]) (auto simp: isInProgressComputing_def)
qed

text \<open>A key's position in the interning table.\<close>

lemma position_le: "position x xs \<le> length xs"
  by (induction xs) auto

lemma position_lt: "position x xs < length xs \<longleftrightarrow> x \<in> set xs"
  by (induction xs) auto

lemma nth_position: "x \<in> set xs \<Longrightarrow> xs ! position x xs = x"
  by (induction xs) auto

lemma position_append: "position x (xs @ ys) = (if x \<in> set xs then position x xs else length xs + position x ys)"
  by (induction xs) auto

lemma getKeyID_table:
  "keyTable (snd (getKeyID key s)) = (if key \<in> set (keyTable s) then keyTable s else keyTable s @ [key])"
  "fst (getKeyID key s) = position key (keyTable (snd (getKeyID key s)))"
  "key \<in> set (keyTable (snd (getKeyID key s)))"
proof -
  show T: "keyTable (snd (getKeyID key s)) = (if key \<in> set (keyTable s) then keyTable s else keyTable s @ [key])"
    by (simp add: getKeyID_def Let_def position_lt)
  show "fst (getKeyID key s) = position key (keyTable (snd (getKeyID key s)))"
    by (simp add: T getKeyID_def Let_def position_append) (metis le_antisym linorder_not_less position_le position_lt)
  show "key \<in> set (keyTable (snd (getKeyID key s)))" by (simp add: T)
qed

lemma getKeyID_back: "getKeyForID (fst (getKeyID key s)) (snd (getKeyID key s)) = Some key"
  using getKeyID_table(3) [of key s] unfolding getKeyForID_def getKeyID_table(2) by (simp add: position_lt nth_position)

lemma getRuleInfoForKey_known:
  assumes "getRuleInfoForKey W key s = (rid, s1)" "ruleInfos s1 rid = Some ri" "ri_state ri \<noteq> Incomplete"
  shows "rid = fst (getKeyID key s) \<and> s1 = snd (getKeyID key s)"
proof (cases "ruleInfos (snd (getKeyID key s)) (fst (getKeyID key s))")
  case None
  then show ?thesis using assms addRule_rules(3) [OF None, of W "lookupRule W key"]
    by (auto simp: getRuleInfoForKey_def split_def)
qed (use assms(1) in \<open>auto simp: getRuleInfoForKey_def split_def\<close>)

text \<open>
  Key interning.  The id that \<^verbatim>\<open>getKeyID\<close> returns for a key leads back to the
  key; asking again gives the same id and changes nothing; every id handed out before keeps its
  key; and two keys that were interned one after the other have the same id only if they are the
  same key.
\<close>

theorem getKeyID_roundtrip:
  "getKeyForID (fst (getKeyID key s)) (snd (getKeyID key s)) = Some key \<and>
   getKeyID key (snd (getKeyID key s)) = getKeyID key s \<and>
   (getKeyForID i s = Some k \<longrightarrow> getKeyForID i (snd (getKeyID key s)) = Some k) \<and>
   (fst (getKeyID key2 (snd (getKeyID key s))) = fst (getKeyID key s) \<longleftrightarrow> key2 = key)"
proof -
  let ?T = "keyTable (snd (getKeyID key s))"
  note T = getKeyID_table(1) and i = getKeyID_table(2) [of key s] and mem = getKeyID_table(3) [of key s]
  have twice: "getKeyID key (snd (getKeyID key s)) = getKeyID key s"
  proof -
    have "position key ?T < length ?T" using mem by (simp add: position_lt)
    then show ?thesis unfolding getKeyID_def [of key "snd (getKeyID key s)"] Let_def
      by (simp add: i [symmetric])
  qed
  have "fst (getKeyID key2 (snd (getKeyID key s))) = position key2 ?T"
    by (simp add: getKeyID_def Let_def)
  moreover have "position key2 ?T = position key ?T \<longleftrightarrow> key2 = key"
    using mem by (metis nth_position position_lt)
  ultimately have inj: "fst (getKeyID key2 (snd (getKeyID key s))) = fst (getKeyID key s) \<longleftrightarrow> key2 = key"
    by (simp add: i)
  have "getKeyForID i (snd (getKeyID key s)) = Some k" if "getKeyForID i s = Some k"
    using that unfolding getKeyForID_def T by (auto simp: nth_append split: if_splits)
  then show ?thesis using getKeyID_back twice inj by blast
qed

theorem getKeyID_roundtrip_witness:
  "getKeyForID 0 (snd (getKeyID ''b'' (snd (getKeyID ''a'' (new_engine :: (nat, nat) engine))))) = Some ''a''"
proof -
  have "getKeyForID 0 (snd (getKeyID ''a'' (new_engine :: (nat, nat) engine))) = Some ''a''" by code_simp
  then show ?thesis using getKeyID_roundtrip [of "''b''" "snd (getKeyID ''a'' new_engine)" 0 "''a''" "''b''"] by blast
qed

lemma build_frames:
  "ruleInfos (build_exit W s) = ruleInfos s" "taskInfos (build_exit W s) = taskInfos s"
  "skel_of (build_exit W s) = skel_of s" "quiescent (build_exit W s) = quiescent s"
  "ruleInfos (snd (write_iteration W s)) = ruleInfos s" "skel_of (snd (write_iteration W s)) = skel_of s"
  "quiescent (snd (write_iteration W s)) = quiescent s"
  "\<not> buildRunning (build_exit W s)" "\<not> executionQueue (build_exit W s)"
  by (auto simp: build_exit_def db_close_def skel_of_def quiescent_def write_iteration_def emit_def split: option.splits prod.splits)

lemma build_begin_rested:
  assumes "quiescent s" "engine_inv [] {} 0 s" "build_begin W s = (b, s')"
  shows "quiescent s'" "engine_inv [] {} 0 s'" "\<not> b \<Longrightarrow> \<not> buildRunning s \<Longrightarrow> \<not> buildRunning s'"
  using assms
  by (auto simp: build_begin_def build_open_def db_close_def quiescent_def engine_inv_def skel_of_def emit_def
      split: if_splits option.splits prod.splits bool.splits)

lemma rested_frames:
  "quiescent (build_exit W s) = quiescent s" "engine_inv H E k (build_exit W s) = engine_inv H E k s"
  "quiescent (snd (write_iteration W s)) = quiescent s" "engine_inv H E k (snd (write_iteration W s)) = engine_inv H E k s"
  "quiescent (snd (getKeyID key s)) = quiescent s" "engine_inv H E k (snd (getKeyID key s)) = engine_inv H E k s"
  by (simp_all add: build_frames engine_inv_def) (simp_all add: quiescent_def getKeyID_def Let_def)

lemma engine_frames:
  "keyTable (snd (write_iteration W s)) = keyTable s" "currentEpoch (snd (write_iteration W s)) = currentEpoch s"
  "nextTask (snd (write_iteration W s)) = nextTask s" "taskInfos (snd (write_iteration W s)) = taskInfos s"
  "keyTable (build_exit W s) = keyTable s" "currentEpoch (build_exit W s) = currentEpoch s"
  by (auto simp: write_iteration_def build_exit_def db_close_def emit_def split: option.splits prod.splits)

text \<open>When the loop has returned true, the requested rule is known under the id it got at the start.\<close>

lemma returned_root:
  assumes reach: "engine_reach W key s1 (PhReturn True, d, s2)" and s1: "quiescent s1" "engine_inv [] {} 0 s1"
    and W: "completes_once W" "db_writes_ok W" "keys_grow W"
  obtains ri where "ruleInfos s2 (position key (keyTable s1)) = Some ri" "isComplete (currentEpoch s1) ri \<or> isScanning ri"
    "position key (keyTable s2) = position key (keyTable s1)" "getKeyForID (position key (keyTable s1)) s2 = Some key"
    "currentEpoch s2 = currentEpoch s1"
proof -
  let ?r = "position key (keyTable s1)"
  obtain ri where ri: "ruleInfos s2 ?r = Some ri" "isComplete (currentEpoch s1) ri \<or> isScanning ri"
    using returned_complete [OF reach s1 W(1,2)] by blast
  have ep: "currentEpoch s2 = currentEpoch s1" using engine_reach_root [OF reach s1 W(1,2)] by simp
  obtain ks where ks: "keyTable s2 = keyTable (snd (getRuleInfoForKey W key s1)) @ ks"
    using engine_reach_interned [OF reach W(2) s1(1)] W(3) by (auto simp: grows_def)
  have "grows W (snd (getKeyID key s1)) (snd (getRuleInfoForKey W key s1))"
    by (simp add: getRuleInfoForKey_snd Let_def kept_grows [OF addRule_kept])
  then obtain ks1 where "keyTable (snd (getRuleInfoForKey W key s1)) = keyTable (snd (getKeyID key s1)) @ ks1"
    using W(3) by (auto simp: grows_def)
  then have t: "keyTable s2 = keyTable (snd (getKeyID key s1)) @ ks1 @ ks" using ks by simp
  have mem: "key \<in> set (keyTable (snd (getKeyID key s1)))" by (rule getKeyID_table(3))
  have r: "?r = position key (keyTable (snd (getKeyID key s1)))" using getKeyID_table(2) [of key s1] by (simp add: getKeyID_def Let_def)
  have p: "position key (keyTable s2) = ?r" using t mem r by (simp add: position_append)
  moreover have "getKeyForID ?r s2 = Some key"
    using p t mem position_lt [of key "keyTable s2"] nth_position [of key "keyTable s2"] by (simp add: getKeyForID_def)
  ultimately show ?thesis using that ri ep by blast
qed

text \<open>
  C8.  A build leaves the engine ready for the next one, whatever the outcome and however the other threads
  interleave.  If \<^verbatim>\<open>build\<close> gives up at the beginning, the engine is at rest as before.
  Otherwise, whenever \<^verbatim>\<open>executeTasks\<close> returns, the rest of \<^verbatim>\<open>build\<close> fails its
  assertion only if the requested rule is still being scanned, in a cycle of rules that wait for each other; in all other cases it
  returns, with no task, no queued request and no job queue left, with the engine not running and its
  bookkeeping consistent, and the value it returns is that of the requested rule, which is complete in this
  build, if the loop succeeded and the database took the iteration, and empty otherwise.  The database only
  appends to the key table.
\<close>

theorem build_rests:
  assumes "quiescent s" "engine_inv [] {} 0 s" "\<not> buildRunning s" "\<not> executionQueue s" "build_begin W s = (started, s1)"
    and W: "completes_once W" "db_writes_ok W" "keys_grow W"
  shows "(\<not> started \<longrightarrow> quiescent s1 \<and> engine_inv [] {} 0 s1 \<and> \<not> buildRunning s1 \<and> \<not> executionQueue s1) \<and>
    (\<forall>ok d s2. started \<longrightarrow> engine_reach W key s1 (PhReturn ok, d, s2) \<longrightarrow>
       (let r = position key (keyTable s1) in
        case build_end W key ok s2 of
          None \<Rightarrow> ok \<and> (\<exists>ri. ruleInfos s2 r = Some ri \<and> isScanning ri)
        | Some (v, s') \<Rightarrow>
            quiescent s' \<and> engine_inv [] {} 0 s' \<and> \<not> buildRunning s' \<and> \<not> executionQueue s' \<and>
            (if ok \<and> fst (write_iteration W s2)
             then \<exists>ri. getKeyForID r s' = Some key \<and> ruleInfos s' r = Some ri \<and> isComplete (currentEpoch s1) ri \<and> v = res_value (ri_result ri)
             else v = [])))"
proof (intro conjI impI allI)
  note s1 = build_begin_rested [OF assms(1,2,5)]
  assume n: "\<not> started"
  then show "quiescent s1" "engine_inv [] {} 0 s1" "\<not> buildRunning s1" using s1 assms(3) by simp_all
  show "\<not> executionQueue s1"
    using assms(4,5) n by (auto simp: build_begin_def build_open_def db_close_def emit_def split: if_splits option.splits prod.splits bool.splits)
next
  note s1 = build_begin_rested(1,2) [OF assms(1,2,5)]
  fix ok d s2
  assume reach: "engine_reach W key s1 (PhReturn ok, d, s2)"
  have "config_inv (PhReturn ok, d, s2)" using reach s1 W(1,2) by (rule engine_reach_inv)
  then have s2: "engine_inv [] {} 0 s2" "quiescent s2" by (simp_all add: config_inv_def)
  obtain w s3 where w: "write_iteration W s2 = (w, s3)" by force
  then have s3: "s3 = snd (write_iteration W s2)" "w = fst (write_iteration W s2)" by simp_all
  show "let r = position key (keyTable s1) in
        case build_end W key ok s2 of
          None \<Rightarrow> ok \<and> (\<exists>ri. ruleInfos s2 r = Some ri \<and> isScanning ri)
        | Some (v, s') \<Rightarrow>
            quiescent s' \<and> engine_inv [] {} 0 s' \<and> \<not> buildRunning s' \<and> \<not> executionQueue s' \<and>
            (if ok \<and> fst (write_iteration W s2)
             then \<exists>ri. getKeyForID r s' = Some key \<and> ruleInfos s' r = Some ri \<and> isComplete (currentEpoch s1) ri \<and> v = res_value (ri_result ri)
             else v = [])"
  proof (cases "w \<and> ok")
    case False
    then have "build_end W key ok s2 = Some ([], build_exit W s3)" using w by (cases w) (auto simp: build_end_def)
    then show ?thesis using s2 s3 False by (auto simp: rested_frames build_frames)
  next
    case True
    let ?r = "position key (keyTable s1)"
    obtain ri where ri: "ruleInfos s2 ?r = Some ri" "isComplete (currentEpoch s1) ri \<or> isScanning ri"
      and k: "position key (keyTable s2) = ?r" "getKeyForID ?r s2 = Some key" "currentEpoch s2 = currentEpoch s1"
      using returned_root [of W key s1 d s2] reach s1 W True by auto
    have "key \<in> set (keyTable s2)" using k(1,2) by (metis getKeyForID_def nth_mem option.distinct(1) option.inject)
    then have id: "getKeyID key s3 = (?r, s3)"
      using k(1) s3(1) position_lt [of key "keyTable s2"] by (simp add: getKeyID_def Let_def engine_frames)
    have g: "getRuleInfoForKey W key s3 = (?r, s3)" using id ri(1) s3(1) by (simp add: getRuleInfoForKey_def build_frames)
    have f: "\<forall>t \<in> set [0..<nextTask s3]. taskInfos s3 t = None" "ruleInfos s3 ?r = Some ri" "currentEpoch s3 = currentEpoch s1"
      using s2(2) ri(1) k(3) s3(1) by (simp_all add: engine_frames build_frames quiescent_def del: set_upt)
    have e: "build_end W key ok s2 = (if isComplete (currentEpoch s1) ri then Some (res_value (ri_result ri), build_exit W s3) else None)"
      using True f(1) unfolding build_end_def w by (simp add: g f(2,3) del: set_upt)
    then show ?thesis using ri s2 s3 True k(2)
      by (auto simp: Let_def rested_frames build_frames engine_frames getKeyForID_def)
  qed
qed

theorem build_rests_witness:
  "\<exists>s1 d s2 v s'. build_begin sample_client new_engine = (True, s1) \<and> engine_reach sample_client ''r'' s1 (PhReturn True, d, s2) \<and>
     build_end sample_client ''r'' True s2 = Some (v, s') \<and> quiescent s' \<and> \<not> buildRunning s' \<and>
     (\<exists>ri. getKeyForID 0 s' = Some ''r'' \<and> ruleInfos s' 0 = Some ri \<and> v = res_value (ri_result ri))"
proof -
  let ?s1 = "snd (build_begin sample_client new_engine)"
  have b: "build_begin sample_client new_engine = (True, ?s1)" by (simp add: build_begin_def build_open_def new_engine_def)
  have "(case steps 60 sample_client ''r'' (executeTasks_start sample_client ''r'' ?s1) of None \<Rightarrow> None
      | Some (ph, d, s2) \<Rightarrow> Some (ph, map_option fst (build_end sample_client ''r'' True s2))) = Some (PhReturn True, Some [1, 1])"
    by code_simp
  then obtain d s2 v s' where st: "steps 60 sample_client ''r'' (executeTasks_start sample_client ''r'' ?s1) = Some (PhReturn True, d, s2)"
    and e: "build_end sample_client ''r'' True s2 = Some (v, s')" by (auto split: option.splits)
  have r: "engine_reach sample_client ''r'' ?s1 (PhReturn True, d, s2)" using steps_reach [OF st engine_reach.start] .
  have w: "fst (write_iteration sample_client s2)" by (simp add: write_iteration_def sample_client_def split: option.splits)
  have "keys_grow sample_client" by (simp add: keys_grow_def sample_client_def)
  have "\<not> buildRunning new_engine" "\<not> executionQueue new_engine" "position ''r'' (keyTable ?s1) = 0"
    by (simp_all add: new_engine_def build_begin_def build_open_def)
  note n = this
  from build_rests [OF new_engine_rested n(1,2) b sample_client_ok \<open>keys_grow sample_client\<close>, of "''r''"] r e w
  have "quiescent s'" "\<not> buildRunning s'" "\<exists>ri. getKeyForID 0 s' = Some ''r'' \<and> ruleInfos s' 0 = Some ri \<and> v = res_value (ri_result ri)"
    unfolding Let_def n(3) by fastforce+
  then show ?thesis using b r e by blast
qed

end
