(* ===== verification/Ninja_Lexer.thy ===== *)
theory Ninja_Lexer
  imports Builra_Prelude "HOL-Library.Sublist"
begin

text \<open>
  The lexer for Ninja manifests (\<^verbatim>\<open>lib/Ninja/Lexer.cpp\<close>,
  \<^verbatim>\<open>include/builra/Ninja/Lexer.h\<close>).  The position in the buffer is the rest of the
  buffer; a token carries its text.  The code handles characters as \<^verbatim>\<open>int\<close>, with -1
  for the end of the file; \<^verbatim>\<open>char\<close> is signed, so that the byte 255 is -1 as well: both
  are \<open>None\<close>.  Lines and columns are natural numbers.  A lexer operation returns \<open>None\<close> where the
  code reads behind the end of the buffer.
\<close>

section \<open>Tokens and the state of the lexer\<close>

datatype TokenKind =
    TColon | TComment | TEndOfFile | TEquals | TIndentation | TIdentifier | TKWBuild | TKWDefault
  | TKWInclude | TKWPool | TKWRule | TKWSubninja | TNewline | TPipe | TPipePipe | TString | TUnknown

definition getKindName :: "TokenKind \<Rightarrow> string" where
  "getKindName k =
     (case k of
        TColon \<Rightarrow> ''Colon'' | TComment \<Rightarrow> ''Comment'' | TEndOfFile \<Rightarrow> ''EndOfFile'' | TEquals \<Rightarrow> ''Equals''
      | TIdentifier \<Rightarrow> ''Identifier'' | TIndentation \<Rightarrow> ''Indentation'' | TKWBuild \<Rightarrow> ''KWBuild''
      | TKWDefault \<Rightarrow> ''KWDefault'' | TKWInclude \<Rightarrow> ''KWInclude'' | TKWPool \<Rightarrow> ''KWPool''
      | TKWRule \<Rightarrow> ''KWRule'' | TKWSubninja \<Rightarrow> ''KWSubninja'' | TNewline \<Rightarrow> ''Newline'' | TPipe \<Rightarrow> ''Pipe''
      | TPipePipe \<Rightarrow> ''PipePipe'' | TString \<Rightarrow> ''String'' | TUnknown \<Rightarrow> ''Unknown'')"

record Token =
  tok_kind :: TokenKind
  tok_text :: string
  tok_line :: nat
  tok_column :: nat

datatype LexingMode = ModeNone | ModeIdentifierSpecific | ModePathString | ModeVariableString

record Lexer =
  lx_rest :: string
  lx_line :: nat
  lx_column :: nat
  lx_mode :: LexingMode

definition new_lexer :: "string \<Rightarrow> Lexer" where
  "new_lexer buffer = \<lparr>lx_rest = buffer, lx_line = 1, lx_column = 0, lx_mode = ModeNone\<rparr>"

definition setMode :: "LexingMode \<Rightarrow> Lexer \<Rightarrow> Lexer" where
  "setMode m lx = lx\<lparr>lx_mode := m\<rparr>"

abbreviation LF :: char where "LF \<equiv> CHR 0x0A"
abbreviation CRET :: char where "CRET \<equiv> CHR 0x0D"

definition char_value :: "char \<Rightarrow> char option" where
  "char_value c = (if c = CHR 0xFF then None else Some c)"

definition peekNextChar :: "Lexer \<Rightarrow> char option" where
  "peekNextChar lx = (case lx_rest lx of [] \<Rightarrow> None | c # _ \<Rightarrow> char_value c)"

text \<open>A line feed and a carriage return next to each other, in either order, are one newline.\<close>

definition getNextChar :: "Lexer \<Rightarrow> char option \<times> Lexer" where
  "getNextChar lx =
     (case lx_rest lx of
        [] \<Rightarrow> (None, lx)
      | c # cs \<Rightarrow>
          if c = LF \<or> c = CRET
          then (Some LF,
                lx\<lparr>lx_rest := (if cs \<noteq> [] \<and> hd cs = (if c = LF then CRET else LF) then tl cs else cs),
                   lx_line := Suc (lx_line lx), lx_column := 0\<rparr>)
          else (char_value c, lx\<lparr>lx_rest := cs, lx_column := Suc (lx_column lx)\<rparr>))"

definition skipChar :: "Lexer \<Rightarrow> Lexer" where
  "skipChar lx = snd (getNextChar lx)"

definition isspace :: "char \<Rightarrow> bool" where
  "isspace c = (c \<in> {CHR 0x09, CHR 0x0A, CHR 0x0B, CHR 0x0C, CHR 0x0D, CHR 0x20})"

definition isNonNewlineSpace :: "char \<Rightarrow> bool" where
  "isNonNewlineSpace c = (isspace c \<and> c \<noteq> LF \<and> c \<noteq> CRET)"

definition isSimpleIdentifierChar :: "char \<Rightarrow> bool" where
  "isSimpleIdentifierChar c =
     (c \<in> set ''abcdefghijklmnopqrstuvwxyzABCDEFGHIJKLMNOPQRSTUVWXYZ0123456789_-'')"

definition isIdentifierChar :: "char \<Rightarrow> bool" where
  "isIdentifierChar c =
     (c \<in> set ''abcdefghijklmnopqrstuvwxyzABCDEFGHIJKLMNOPQRSTUVWXYZ0123456789_.-'')"

lemma skipChar_length: "lx_rest lx \<noteq> [] \<Longrightarrow> length (lx_rest (skipChar lx)) < length (lx_rest lx)"
  by (cases "lx_rest lx") (auto simp: skipChar_def getNextChar_def)

lemma suffix_tl_Cons: "suffix (tl xs) (x # xs)"
  by (simp add: suffix_ConsI suffix_tl)

lemma skipChar_suffix: "suffix (lx_rest (skipChar lx)) (lx_rest lx)"
  by (simp add: skipChar_def getNextChar_def suffix_tl_Cons suffix_ConsI split: list.splits)

lemma skipChar_length_le: "length (lx_rest (skipChar lx)) \<le> length (lx_rest lx)"
  using skipChar_suffix suffix_length_le by blast

lemma peek_not_empty: "peekNextChar lx = Some c \<Longrightarrow> lx_rest lx \<noteq> [] \<and> hd (lx_rest lx) = c \<and> c \<noteq> CHR 0xFF"
  by (auto simp: peekNextChar_def char_value_def split: list.splits if_splits)

section \<open>The scanning loops\<close>

text \<open>Consuming characters while they satisfy a test.\<close>

function skip_while :: "(char \<Rightarrow> bool) \<Rightarrow> Lexer \<Rightarrow> Lexer" where
  "skip_while P lx =
     (case peekNextChar lx of Some c \<Rightarrow> if P c then skip_while P (skipChar lx) else lx | None \<Rightarrow> lx)"
  by pat_completeness auto
termination
  by (relation "measure (\<lambda>(P, lx). length (lx_rest lx))") (auto dest: peek_not_empty intro: skipChar_length)

declare skip_while.simps [simp del]

definition skipToEndOfLine :: "Lexer \<Rightarrow> Lexer" where
  "skipToEndOfLine lx = skip_while (\<lambda>c. c \<noteq> LF \<and> c \<noteq> CRET) lx"

definition setTokenKind :: "Lexer \<Rightarrow> Lexer \<Rightarrow> TokenKind \<Rightarrow> Token" where
  "setTokenKind start lx kind =
     \<lparr>tok_kind = kind, tok_text = take (length (lx_rest start) - length (lx_rest lx)) (lx_rest start),
      tok_line = lx_line start, tok_column = lx_column start\<rparr>"

text \<open>The comparison with \<open>subninja\<close> looks at seven characters only, as in the code.\<close>

definition identifier_kind :: "string \<Rightarrow> TokenKind" where
  "identifier_kind w =
     (if w = ''rule'' then TKWRule
      else if w = ''pool'' then TKWPool
      else if w = ''build'' then TKWBuild
      else if w = ''default'' then TKWDefault
      else if w = ''include'' then TKWInclude
      else if length w = 8 \<and> take 7 w = ''subninj'' then TKWSubninja
      else TIdentifier)"

definition setIdentifierTokenKind :: "Lexer \<Rightarrow> Lexer \<Rightarrow> Token" where
  "setIdentifierTokenKind start lx =
     setTokenKind start lx (identifier_kind (take (length (lx_rest start) - length (lx_rest lx)) (lx_rest start)))"

definition lexIdentifier :: "Lexer \<Rightarrow> Lexer \<Rightarrow> Token \<times> Lexer" where
  "lexIdentifier start lx =
     (let lx1 = skip_while isIdentifierChar lx in
      (if lx_mode lx1 = ModeIdentifierSpecific then setTokenKind start lx1 TIdentifier
       else setIdentifierTokenKind start lx1, lx1))"

lemma skip_while_length: "length (lx_rest (skip_while P lx)) \<le> length (lx_rest lx)"
proof (induction P lx rule: skip_while.induct)
  case (1 P lx)
  then show ?case
    using skipChar_length_le [of lx] by (subst skip_while.simps) (auto split: option.splits)
qed

text \<open>A dollar sign, the character behind it and, if that is a newline, the blanks behind it.\<close>

definition path_escape :: "Lexer \<Rightarrow> Lexer" where
  "path_escape lx =
     (case getNextChar (skipChar lx) of (d, lx1) \<Rightarrow>
        if d = Some LF then skip_while isNonNewlineSpace lx1 else lx1)"

lemma path_escape_length:
  assumes "lx_rest lx \<noteq> []"
  shows "length (lx_rest (path_escape lx)) < length (lx_rest lx)"
proof -
  obtain d lx1 where n: "getNextChar (skipChar lx) = (d, lx1)" by force
  then have "lx1 = skipChar (skipChar lx)" by (simp add: skipChar_def [of "skipChar lx"])
  then have "length (lx_rest lx1) < length (lx_rest lx)"
    using skipChar_length [OF assms] skipChar_length_le [of "skipChar lx"] by simp
  then show ?thesis using n skip_while_length [of isNonNewlineSpace lx1] by (simp add: path_escape_def)
qed

function path_loop :: "Lexer \<Rightarrow> Lexer" where
  "path_loop lx =
     (case peekNextChar lx of
        None \<Rightarrow> lx
      | Some c \<Rightarrow>
          if c = CHR ''$'' then path_loop (path_escape lx)
          else if isspace c \<or> c = CHR '':'' \<or> c = CHR ''|'' then lx
          else path_loop (skipChar lx))"
  by pat_completeness auto
termination
proof (relation "measure (\<lambda>lx. length (lx_rest lx))", goal_cases)
  case (2 lx c)
  then show ?case by (auto dest: peek_not_empty intro: path_escape_length)
next
  case (3 lx c)
  then show ?case by (auto dest: peek_not_empty intro: skipChar_length)
qed simp

declare path_loop.simps [simp del]

definition lexPathString :: "Lexer \<Rightarrow> Lexer \<Rightarrow> Token \<times> Lexer" where
  "lexPathString start lx = (let lx1 = path_loop lx in (setTokenKind start lx1 TString, lx1))"

function variable_loop :: "Lexer \<Rightarrow> Lexer" where
  "variable_loop lx =
     (case peekNextChar lx of
        None \<Rightarrow> lx
      | Some c \<Rightarrow>
          if c = CHR ''$'' then variable_loop (skipChar (skipChar lx))
          else if c = LF \<or> c = CRET then lx
          else variable_loop (skipChar lx))"
  by pat_completeness auto
termination
proof (relation "measure (\<lambda>lx. length (lx_rest lx))", goal_cases)
  case (2 lx c)
  then show ?case using skipChar_length [of lx] skipChar_length_le [of "skipChar lx"] by (auto dest: peek_not_empty)
next
  case (3 lx c)
  then show ?case by (auto dest: peek_not_empty intro: skipChar_length)
qed simp

declare variable_loop.simps [simp del]

definition lexVariableString :: "Lexer \<Rightarrow> Lexer \<Rightarrow> Token \<times> Lexer" where
  "lexVariableString start lx = (let lx1 = variable_loop lx in (setTokenKind start lx1 TString, lx1))"

text \<open>
  The blanks and escaped newlines before a token.  At a dollar sign that is the last character of
  the buffer, the second test reads the character behind it.
\<close>

definition newline_escape :: "string \<Rightarrow> bool option" where
  "newline_escape rest =
     (if length rest \<noteq> 1 \<and> rest ! 1 = LF then Some True
      else if length rest \<noteq> 2 then
        (if length rest \<le> 1 then None
         else Some (rest ! 1 = CRET \<and> rest ! 2 = LF))
      else Some False)"

function skip_leading :: "Lexer \<Rightarrow> Lexer option" where
  "skip_leading lx =
     (case peekNextChar lx of
        None \<Rightarrow> Some lx
      | Some c \<Rightarrow>
          if c = CHR ''$'' \<and> lx_column lx \<noteq> 0 then
            do { esc \<leftarrow> newline_escape (lx_rest lx);
                 if esc then skip_leading (skipChar (skipChar lx)) else Some lx }
          else if isNonNewlineSpace c then skip_leading (skipChar lx)
          else Some lx)"
  by pat_completeness auto
termination
proof (relation "measure (\<lambda>lx. length (lx_rest lx))", goal_cases)
  case (2 lx c)
  then show ?case using skipChar_length [of lx] skipChar_length_le [of "skipChar lx"] by (auto dest: peek_not_empty)
next
  case (3 lx c)
  then show ?case by (auto dest: peek_not_empty intro: skipChar_length)
qed simp

declare skip_leading.simps [simp del]

section \<open>One token\<close>

definition lex_symbol :: "Lexer \<Rightarrow> char \<Rightarrow> Token \<times> Lexer" where
  "lex_symbol start c =
     (let lx = skipChar start in
      if c = CHR '':'' then (setTokenKind start lx TColon, lx)
      else if c = CHR ''='' then (setTokenKind start lx TEquals, lx)
      else if c = CHR ''#'' then (let lx1 = skipToEndOfLine lx in (setTokenKind start lx1 TComment, lx1))
      else if c = CHR ''|'' then
        (if peekNextChar lx = Some (CHR ''|'')
         then (let lx1 = skipChar lx in (setTokenKind start lx1 TPipePipe, lx1))
         else (setTokenKind start lx TPipe, lx))
      else if isIdentifierChar c then lexIdentifier start lx
      else (setTokenKind start lx TUnknown, lx))"

definition lex_token :: "Lexer \<Rightarrow> Token \<times> Lexer" where
  "lex_token start =
     (case peekNextChar start of
        None \<Rightarrow> (setTokenKind start start TEndOfFile, start)
      | Some c \<Rightarrow>
          if c = LF \<or> c = CRET then (let lx = skipChar start in (setTokenKind start lx TNewline, lx))
          else if lx_mode start = ModeVariableString then lexVariableString start start
          else if lx_mode start = ModePathString \<and> c \<noteq> CHR '':'' \<and> c \<noteq> CHR ''|'' then lexPathString start start
          else lex_symbol start c)"

definition at_indentation :: "Lexer \<Rightarrow> bool" where
  "at_indentation lx = (case peekNextChar lx of Some c \<Rightarrow> isNonNewlineSpace c \<and> lx_column lx = 0 | None \<Rightarrow> False)"

definition lex :: "Lexer \<Rightarrow> (Token \<times> Lexer) option" where
  "lex lx =
     (if at_indentation lx
      then (let lx1 = skip_while isNonNewlineSpace (skipChar lx) in Some (setTokenKind lx lx1 TIndentation, lx1))
      else map_option lex_token (skip_leading lx))"

section \<open>What a token takes from the input\<close>

text \<open>Every operation keeps the mode and leaves a rest of the input.\<close>

lemma skipChar_mode [simp]: "lx_mode (skipChar lx) = lx_mode lx"
  by (simp add: skipChar_def getNextChar_def split: list.splits)

lemma skip_while_facts:
  "suffix (lx_rest (skip_while P lx)) (lx_rest lx) \<and> lx_mode (skip_while P lx) = lx_mode lx"
proof (induction P lx rule: skip_while.induct)
  case (1 P lx)
  then show ?case
    using suffix_order.trans [OF _ skipChar_suffix [of lx]] by (subst (1 2) skip_while.simps) (auto split: option.splits)
qed

lemma path_escape_facts:
  "suffix (lx_rest (path_escape lx)) (lx_rest lx) \<and> lx_mode (path_escape lx) = lx_mode lx"
proof -
  obtain d lx1 where n: "getNextChar (skipChar lx) = (d, lx1)" by force
  then have lx1: "lx1 = skipChar (skipChar lx)" by (simp add: skipChar_def [of "skipChar lx"])
  then have "suffix (lx_rest lx1) (lx_rest lx)" "lx_mode lx1 = lx_mode lx"
    using suffix_order.trans [OF skipChar_suffix skipChar_suffix] by simp_all
  then show ?thesis using n skip_while_facts [of isNonNewlineSpace lx1] by (auto simp: path_escape_def intro: suffix_order.trans)
qed

lemma path_loop_facts: "suffix (lx_rest (path_loop lx)) (lx_rest lx) \<and> lx_mode (path_loop lx) = lx_mode lx"
proof (induction lx rule: path_loop.induct)
  case (1 lx)
  then show ?case
    using suffix_order.trans [OF _ skipChar_suffix [of lx]] suffix_order.trans [OF _ path_escape_facts [of lx, THEN conjunct1]] path_escape_facts [of lx]
    by (subst (1 2) path_loop.simps) (auto split: option.splits)
qed

lemma variable_loop_facts: "suffix (lx_rest (variable_loop lx)) (lx_rest lx) \<and> lx_mode (variable_loop lx) = lx_mode lx"
proof (induction lx rule: variable_loop.induct)
  case (1 lx)
  then show ?case
    using suffix_order.trans [OF _ skipChar_suffix [of lx]]
      suffix_order.trans [OF _ suffix_order.trans [OF skipChar_suffix [of "skipChar lx"] skipChar_suffix [of lx]]]
    by (subst (1 2) variable_loop.simps) (auto split: option.splits)
qed

text \<open>The first round of a string loop takes at least one character.\<close>

lemma path_loop_shorter:
  assumes "peekNextChar lx = Some c" "\<not> isspace c" "c \<noteq> CHR '':''" "c \<noteq> CHR ''|''"
  shows "length (lx_rest (path_loop lx)) < length (lx_rest lx)"
proof -
  have ne: "lx_rest lx \<noteq> []" using assms(1) peek_not_empty by blast
  have "length (lx_rest (path_loop lx2)) \<le> length (lx_rest lx2)" for lx2
    using path_loop_facts suffix_length_le by blast
  then show ?thesis
    using assms path_escape_length [OF ne] skipChar_length [OF ne] by (subst path_loop.simps) (auto intro: le_less_trans)
qed

lemma variable_loop_shorter:
  assumes "peekNextChar lx = Some c" "c \<noteq> LF" "c \<noteq> CRET"
  shows "length (lx_rest (variable_loop lx)) < length (lx_rest lx)"
proof -
  have ne: "lx_rest lx \<noteq> []" using assms(1) peek_not_empty by blast
  have "length (lx_rest (variable_loop lx2)) \<le> length (lx_rest lx2)" for lx2
    using variable_loop_facts suffix_length_le by blast
  then show ?thesis
    using assms skipChar_length [OF ne] skipChar_length_le [of "skipChar lx"]
    by (subst variable_loop.simps) (auto intro: le_less_trans order.trans)
qed

text \<open>A token: its text is what was read from its start, and it is empty only at the end of the file.\<close>

definition token_of :: "Lexer \<Rightarrow> Token \<Rightarrow> Lexer \<Rightarrow> bool" where
  "token_of start t lx = (lx_rest start = tok_text t @ lx_rest lx \<and> lx_mode lx = lx_mode start \<and>
     (tok_kind t = TEndOfFile \<longleftrightarrow> tok_text t = []))"

lemma token_ofI:
  assumes "suffix (lx_rest lx) (lx_rest start)" "lx_mode lx = lx_mode start"
    "length (lx_rest lx) < length (lx_rest start)" "kind \<noteq> TEndOfFile"
  shows "token_of start (setTokenKind start lx kind) lx"
  using assms by (auto simp: token_of_def setTokenKind_def suffix_def)

lemma skipChar_twice_suffix: "suffix (lx_rest (skipChar (skipChar lx))) (lx_rest lx)"
  using suffix_order.trans [OF skipChar_suffix skipChar_suffix] .

lemma identifier_kind_not_eof: "identifier_kind w \<noteq> TEndOfFile"
  by (simp add: identifier_kind_def)

lemma lex_symbol_token:
  assumes "lx_rest start \<noteq> []" "lex_symbol start c = (t, lx)"
  shows "token_of start t lx"
proof -
  let ?lx = "skipChar start"
  note s = skipChar_suffix [of start] skipChar_length [OF assms(1)]
  have after: "suffix (lx_rest lx1) (lx_rest start) \<and> length (lx_rest lx1) < length (lx_rest start)"
    if "suffix (lx_rest lx1) (lx_rest ?lx)" for lx1
    using that s suffix_order.trans suffix_length_le by (metis le_less_trans)
  note w = after [OF skip_while_facts [of _ ?lx, THEN conjunct1]] and w2 = after [OF skipChar_suffix [of ?lx]]
  show ?thesis
    using assms(2) s w w2 skip_while_facts [of _ ?lx]
    by (auto simp: lex_symbol_def Let_def skipToEndOfLine_def lexIdentifier_def setIdentifierTokenKind_def
        identifier_kind_not_eof intro!: token_ofI split: if_splits)
qed

lemma lex_token_token:
  assumes "lex_token start = (t, lx)" "\<And>c. peekNextChar start = Some c \<Longrightarrow> \<not> isNonNewlineSpace c"
  shows "token_of start t lx"
proof (cases "peekNextChar start")
  case None
  then show ?thesis using assms(1) by (auto simp: lex_token_def token_of_def setTokenKind_def)
next
  case (Some c)
  have ne: "lx_rest start \<noteq> []" using Some peek_not_empty by blast
  consider "c = LF \<or> c = CRET" | "c \<noteq> LF" "c \<noteq> CRET" "lx_mode start = ModeVariableString"
    | "c \<noteq> LF" "c \<noteq> CRET" "lx_mode start = ModePathString" "c \<noteq> CHR '':''" "c \<noteq> CHR ''|''"
    | "c \<noteq> LF" "c \<noteq> CRET" "lex_symbol start c = (t, lx)"
    using assms(1) Some by (auto simp: lex_token_def split: if_splits)
  then show ?thesis
  proof cases
    case 1
    then show ?thesis using assms(1) Some skipChar_suffix [of start] skipChar_length [OF ne]
      by (auto simp: lex_token_def Let_def intro!: token_ofI)
  next
    case 2
    then show ?thesis using assms(1) Some variable_loop_facts [of start] variable_loop_shorter [OF Some]
      by (auto simp: lex_token_def Let_def lexVariableString_def intro!: token_ofI)
  next
    case 3
    then have "\<not> isspace c" using assms(2) [OF Some] by (simp add: isNonNewlineSpace_def)
    then show ?thesis using 3 assms(1) Some path_loop_facts [of start] path_loop_shorter [OF Some]
      by (auto simp: lex_token_def Let_def lexPathString_def intro!: token_ofI)
  next
    case 4
    then show ?thesis using lex_symbol_token [OF ne] by simp
  qed
qed

text \<open>What may stand before a token: blanks and escaped newlines.\<close>

inductive leading :: "string \<Rightarrow> bool" where
  none: "leading []"
| blank: "isNonNewlineSpace c \<Longrightarrow> leading s \<Longrightarrow> leading (c # s)"
| escape: "nl \<in> {[LF], [LF, CRET], [CRET, LF]} \<Longrightarrow> leading s \<Longrightarrow> leading (CHR ''$'' # nl @ s)"

lemma skipChar_plain: "lx_rest lx = c # cs \<Longrightarrow> c \<noteq> LF \<Longrightarrow> c \<noteq> CRET \<Longrightarrow> lx_rest (skipChar lx) = cs"
  by (simp add: skipChar_def getNextChar_def)

lemma skipChar_newline:
  "lx_rest lx = c # cs \<Longrightarrow> c = LF \<or> c = CRET \<Longrightarrow>
   lx_rest (skipChar lx) = (if cs \<noteq> [] \<and> hd cs = (if c = LF then CRET else LF) then tl cs else cs)"
  by (auto simp: skipChar_def getNextChar_def)

lemma newline_escape_rest:
  assumes "lx_rest lx = CHR ''$'' # cs" "newline_escape (lx_rest lx) = Some True"
  shows "\<exists>nl \<in> {[LF], [LF, CRET], [CRET, LF]}. lx_rest lx = CHR ''$'' # nl @ lx_rest (skipChar (skipChar lx))"
proof -
  have s: "lx_rest (skipChar lx) = cs" using assms(1) by (rule skipChar_plain) simp_all
  show ?thesis
  proof (cases "cs \<noteq> [] \<and> hd cs = LF")
    case True
    then obtain ds where "cs = LF # ds" by (cases cs) auto
    then show ?thesis using assms(1) s skipChar_newline [of "skipChar lx" LF ds] by (cases ds) auto
  next
    case False
    then have "\<not> (length (lx_rest lx) \<noteq> 1 \<and> lx_rest lx ! 1 = LF)"
      using assms(1) by (cases cs) auto
    then have "2 < length (lx_rest lx) \<and> lx_rest lx ! 1 = CRET \<and> lx_rest lx ! 2 = LF"
      using assms(2) unfolding newline_escape_def by (simp split: if_splits)
    then have c: "2 \<le> length cs" "cs ! 0 = CRET" "cs ! 1 = LF" using assms(1) by auto
    then obtain a b ds where "cs = a # b # ds" by (metis One_nat_def Suc_1 Suc_le_length_iff)
    with c have "cs = CRET # LF # ds" by simp
    then show ?thesis using assms(1) s skipChar_newline [of "skipChar lx" CRET "LF # ds"] by auto
  qed
qed

lemma skip_leading_facts:
  "skip_leading lx = Some lx1 \<Longrightarrow> (\<exists>ws. leading ws \<and> lx_rest lx = ws @ lx_rest lx1) \<and> lx_mode lx1 = lx_mode lx \<and>
   (\<forall>c. peekNextChar lx1 = Some c \<longrightarrow> \<not> isNonNewlineSpace c)"
proof (induction lx rule: skip_leading.induct)
  case (1 lx)
  show ?case
  proof (cases "peekNextChar lx")
    case None
    then show ?thesis using 1(3) leading.none by (auto simp: skip_leading.simps [of lx])
  next
    case (Some c)
    then obtain cs where r: "lx_rest lx = c # cs" using peek_not_empty [OF Some] by (cases "lx_rest lx") auto
    consider (esc) "c = CHR ''$''" "lx_column lx \<noteq> 0" "newline_escape (lx_rest lx) = Some True"
      | (blank) "isNonNewlineSpace c" "\<not> (c = CHR ''$'' \<and> lx_column lx \<noteq> 0)"
      | (stop) "lx1 = lx" "\<not> isNonNewlineSpace c"
      using 1(3) Some by (auto simp: skip_leading.simps [of lx] isNonNewlineSpace_def isspace_def split: if_splits)
    then show ?thesis
    proof cases
      case esc
      then have "skip_leading (skipChar (skipChar lx)) = Some lx1" using 1(3) Some by (simp add: skip_leading.simps [of lx])
      with 1(1) [OF Some _ esc(3)] esc obtain ws where ws: "leading ws" "lx_rest (skipChar (skipChar lx)) = ws @ lx_rest lx1"
        "lx_mode lx1 = lx_mode lx" "\<forall>c. peekNextChar lx1 = Some c \<longrightarrow> \<not> isNonNewlineSpace c" by auto
      obtain nl where nl: "nl \<in> {[LF], [LF, CRET], [CRET, LF]}" "lx_rest lx = CHR ''$'' # nl @ lx_rest (skipChar (skipChar lx))"
        using newline_escape_rest [of lx cs] r esc(1,3) by blast
      have "leading (CHR ''$'' # nl @ ws)" using nl(1) ws(1) by (rule leading.escape)
      then show ?thesis using nl(2) ws by (intro conjI exI [of _ "CHR ''$'' # nl @ ws"]) auto
    next
      case blank
      then have "c \<noteq> CHR ''$''" by (auto simp: isNonNewlineSpace_def isspace_def)
      with blank have "skip_leading (skipChar lx) = Some lx1" using 1(3) Some by (simp add: skip_leading.simps [of lx])
      with 1(2) [OF Some blank(2,1)] obtain ws where ws: "leading ws" "lx_rest (skipChar lx) = ws @ lx_rest lx1"
        "lx_mode lx1 = lx_mode lx" "\<forall>c. peekNextChar lx1 = Some c \<longrightarrow> \<not> isNonNewlineSpace c" by auto
      have "lx_rest (skipChar lx) = cs" using r blank by (intro skipChar_plain) (auto simp: isNonNewlineSpace_def)
      then show ?thesis using r ws leading.blank [OF blank(1) ws(1)] by (intro conjI exI [of _ "c # ws"]) auto
    next
      case stop
      then show ?thesis using leading.none Some by auto
    qed
  qed
qed

lemma lex_facts:
  assumes "lex lx = Some (t, lx1)"
  shows "\<exists>ws. leading ws \<and> lx_rest lx = ws @ tok_text t @ lx_rest lx1 \<and> lx_mode lx1 = lx_mode lx \<and>
    (tok_kind t = TEndOfFile \<longleftrightarrow> tok_text t = [])"
proof (cases "at_indentation lx")
  case True
  then obtain c where c: "peekNextChar lx = Some c" by (auto simp: at_indentation_def split: option.splits)
  have t: "t = setTokenKind lx lx1 TIndentation" "lx1 = skip_while isNonNewlineSpace (skipChar lx)"
    using assms True by (auto simp: lex_def Let_def)
  have ne: "lx_rest lx \<noteq> []" using c peek_not_empty by blast
  have "token_of lx t lx1" unfolding t(1)
    using skip_while_facts [of isNonNewlineSpace "skipChar lx"] skipChar_suffix [of lx] skipChar_length [OF ne]
      skip_while_length [of isNonNewlineSpace "skipChar lx"] suffix_order.trans
    by (intro token_ofI) (auto simp: t(2))
  then show ?thesis using leading.none by (auto simp: token_of_def intro: exI [of _ "[]"])
next
  case False
  then obtain start where s: "skip_leading lx = Some start" "lex_token start = (t, lx1)"
    using assms by (auto simp: lex_def)
  from skip_leading_facts [OF s(1)] obtain ws where ws: "leading ws" "lx_rest lx = ws @ lx_rest start" "lx_mode start = lx_mode lx"
    "\<And>c. peekNextChar start = Some c \<Longrightarrow> \<not> isNonNewlineSpace c" by auto
  have "token_of start t lx1" using s(2) ws(4) by (rule lex_token_token)
  then show ?thesis using ws by (auto simp: token_of_def)
qed

lemma lex_suffix: "lex lx = Some (t, lx1) \<Longrightarrow> suffix (lx_rest lx1) (lx_rest lx)"
  using lex_facts [of lx t lx1] by (auto simp: suffix_def)

text \<open>
  Lexing loses no text: what a call of \<^verbatim>\<open>lex\<close> consumes is a stretch of blanks and
  escaped newlines followed by exactly the text of the token, in every mode; the mode does not change,
  and only the end-of-file token is empty, so that a lexer that is called again and again reaches the
  end of the file.
\<close>

theorem lex_consumes_token:
  assumes "lex lx = Some (t, lx1)"
  shows "\<exists>ws. leading ws \<and> lx_rest lx = ws @ tok_text t @ lx_rest lx1 \<and> lx_mode lx1 = lx_mode lx \<and>
    (tok_kind t = TEndOfFile \<longleftrightarrow> tok_text t = [])"
  using assms by (rule lex_facts)

theorem lex_consumes_token_witness:
  "\<exists>t lx1. lex (new_lexer ''build a: cc b'') = Some (t, lx1) \<and> tok_kind t = TKWBuild \<and> lx_rest lx1 = '' a: cc b''"
proof -
  have "map_option (\<lambda>(t, lx1). (tok_kind t, tok_text t)) (lex (new_lexer ''build a: cc b'')) = Some (TKWBuild, ''build'')" by code_simp
  then obtain t lx1 where l: "lex (new_lexer ''build a: cc b'') = Some (t, lx1)" "tok_kind t = TKWBuild" "tok_text t = ''build''" by auto
  from lex_consumes_token [OF l(1)] obtain ws where ws: "leading ws" "''build a: cc b'' = ws @ ''build'' @ lx_rest lx1"
    using l(3) by (auto simp: new_lexer_def)
  from ws(1) have "ws = []" using ws(2) by (cases rule: leading.cases) (auto simp: isNonNewlineSpace_def isspace_def)
  then show ?thesis using l ws(2) by auto
qed

lemma newline_escape_total: "newline_escape rest = None \<Longrightarrow> length rest \<le> 1"
  by (auto simp: newline_escape_def split: if_splits)

lemma skip_leading_total: "skip_leading lx = None \<Longrightarrow> suffix ''$'' (lx_rest lx)"
proof (induction lx rule: skip_leading.induct)
  case (1 lx)
  from 1(3) obtain c where c: "peekNextChar lx = Some c"
    by (cases "peekNextChar lx") (auto simp: skip_leading.simps [of lx])
  note r = peek_not_empty [OF c]
  consider (esc) "c = CHR ''$'' \<and> lx_column lx \<noteq> 0" "newline_escape (lx_rest lx) = None"
    | (skip) "c = CHR ''$'' \<and> lx_column lx \<noteq> 0" "newline_escape (lx_rest lx) = Some True" "skip_leading (skipChar (skipChar lx)) = None"
    | (blank) "\<not> (c = CHR ''$'' \<and> lx_column lx \<noteq> 0)" "isNonNewlineSpace c" "skip_leading (skipChar lx) = None"
    using 1(3) c by (cases "newline_escape (lx_rest lx)") (auto simp: skip_leading.simps [of lx] split: if_splits)
  then show ?case
  proof cases
    case esc
    then have "lx_rest lx = ''$''" using newline_escape_total [OF esc(2)] r by (cases "lx_rest lx") auto
    then show ?thesis by simp
  next
    case skip
    from 1(1) [OF c skip(1,2)] skip have "suffix ''$'' (lx_rest (skipChar (skipChar lx)))" by simp
    then show ?thesis using skipChar_suffix [of lx] skipChar_suffix [of "skipChar lx"] by (meson suffix_order.trans)
  next
    case blank
    from 1(2) [OF c blank] show ?thesis using skipChar_suffix [of lx] by (meson suffix_order.trans)
  qed
qed

lemma lex_total:
  assumes "\<not> suffix ''$'' (lx_rest lx)"
  shows "\<exists>t lx1. lex lx = Some (t, lx1) \<and> \<not> suffix ''$'' (lx_rest lx1)"
proof -
  obtain t lx1 where l: "lex lx = Some (t, lx1)"
  proof (cases "at_indentation lx")
    case True
    then show thesis using that by (simp add: lex_def Let_def)
  next
    case False
    obtain start where "skip_leading lx = Some start" using assms skip_leading_total [of lx] by (cases "skip_leading lx") auto
    then show thesis using False that by (cases "lex_token start") (simp add: lex_def)
  qed
  then show ?thesis using assms suffix_order.trans [OF _ lex_suffix [OF l]] by blast
qed

text \<open>
  A call of \<^verbatim>\<open>lex\<close> reads behind the end of the buffer only where the buffer ends in
  a dollar sign; on every other buffer each call returns a token.
\<close>

theorem lex_within_buffer:
  assumes "\<not> suffix ''$'' (lx_rest lx)"
  shows "\<exists>t lx1. lex lx = Some (t, lx1) \<and> \<not> suffix ''$'' (lx_rest lx1)"
  using assms by (rule lex_total)

theorem lex_within_buffer_witness:
  "\<exists>t lx1. lex (new_lexer ''rule $x'') = Some (t, lx1) \<and> \<not> suffix ''$'' (lx_rest lx1)"
  using lex_within_buffer [of "new_lexer ''rule $x''"] by (simp add: new_lexer_def suffix_def)

text \<open>
  Three inputs on which the lexer departs from the Ninja language: a dollar sign at the end of the
  buffer is read past, an identifier of eight letters that starts with \<open>subninj\<close> is the keyword, and
  the byte 255 ends the file although text follows it.
\<close>

theorem lexer_departures:
  "map_option (\<lambda>(t, lx). lex lx) (lex (new_lexer ''a $'')) = Some None \<and>
   map_option (\<lambda>(t, lx). (tok_kind t, tok_text t)) (lex (new_lexer ''subninjX f'')) = Some (TKWSubninja, ''subninjX'') \<and>
   map_option (\<lambda>(t, lx). (tok_kind t, lx_rest lx)) (lex (new_lexer (CHR 0xFF # ''build''))) = Some (TEndOfFile, CHR 0xFF # ''build'')"
  by (intro conjI; code_simp)

end
