(* ===== verification/Ninja_Parser.thy ===== *)
theory Ninja_Parser
  imports Ninja_Lexer
begin

text \<open>
  The parser for Ninja manifests (\<^verbatim>\<open>lib/Ninja/Parser.cpp\<close>).  The delegate
  \<^verbatim>\<open>ParseActions\<close> is modelled by the sequence of calls it receives; the handle that
  \<^verbatim>\<open>actOnBegin...Decl\<close> returns and the later calls pass back is always that of the last
  declaration begun, and is left out.  The parser never looks at the delegate, so that the calls do
  not depend on it.  A parser function returns \<open>None\<close> where an assertion of the code fails or the
  lexer reads behind its buffer.
\<close>

section \<open>Tokens and calls\<close>

datatype 't ParseAction =
    OnError string 't
  | OnBeginManifest string
  | OnEndManifest
  | OnBindingDecl 't 't
  | OnDefaultDecl "'t list"
  | OnIncludeDecl bool 't
  | OnBeginBuildDecl 't "'t list" "'t list" nat nat
  | OnBuildBindingDecl 't 't
  | OnEndBuildDecl 't
  | OnBeginPoolDecl 't
  | OnPoolBindingDecl 't 't
  | OnEndPoolDecl 't
  | OnBeginRuleDecl 't
  | OnRuleBindingDecl 't 't
  | OnEndRuleDecl 't

record Parser =
  ps_lexer :: Lexer
  ps_tok :: Token
  ps_calls :: "Token ParseAction list"

abbreviation ps_kind :: "Parser \<Rightarrow> TokenKind" where
  "ps_kind p \<equiv> tok_kind (ps_tok p)"

definition call :: "Token ParseAction \<Rightarrow> Parser \<Rightarrow> Parser" where
  "call a p = p\<lparr>ps_calls := ps_calls p @ [a]\<rparr>"

definition error_at :: "string \<Rightarrow> Token \<Rightarrow> Parser \<Rightarrow> Parser" where
  "error_at message at p = call (OnError message at) p"

definition perror :: "string \<Rightarrow> Parser \<Rightarrow> Parser" where
  "perror message p = error_at message (ps_tok p) p"

definition setParserMode :: "LexingMode \<Rightarrow> Parser \<Rightarrow> Parser" where
  "setParserMode m p = p\<lparr>ps_lexer := setMode m (ps_lexer p)\<rparr>"

definition lex_into :: "Parser \<Rightarrow> Parser option" where
  "lex_into p = map_option (\<lambda>(t, lx). p\<lparr>ps_lexer := lx, ps_tok := t\<rparr>) (lex (ps_lexer p))"

text \<open>
  The size of what is left to parse: two for every character and one for a token that is not the end
  of the file.  No call of the lexer increases it, and a call that consumes a proper token decreases it.
\<close>

definition left :: "Parser \<Rightarrow> nat" where
  "left p = 2 * length (lx_rest (ps_lexer p)) + (if ps_kind p = TEndOfFile then 0 else 1)"

lemma lex_rest_shorter:
  assumes "lex lx = Some (t, lx1)"
  shows "length (lx_rest lx1) + (if tok_kind t = TEndOfFile then 0 else 1) \<le> length (lx_rest lx)"
proof -
  from lex_facts [OF assms] obtain ws where "lx_rest lx = ws @ tok_text t @ lx_rest lx1"
    "tok_kind t = TEndOfFile \<longleftrightarrow> tok_text t = []" by blast
  then show ?thesis by (cases "tok_text t") auto
qed

lemma lex_into_left:
  assumes "lex_into p = Some p1"
  shows "left p1 \<le> left p" "ps_kind p \<noteq> TEndOfFile \<Longrightarrow> left p1 < left p"
    "length (lx_rest (ps_lexer p1)) + (if ps_kind p1 = TEndOfFile then 0 else 1) \<le> length (lx_rest (ps_lexer p))"
  using assms lex_rest_shorter [of "ps_lexer p"] by (fastforce simp: lex_into_def left_def split: if_splits)+

function getNextNonCommentToken :: "Parser \<Rightarrow> Parser option" where
  "getNextNonCommentToken p =
     do { p1 \<leftarrow> lex_into p; if ps_kind p1 = TComment then getNextNonCommentToken p1 else Some p1 }"
  by pat_completeness auto
termination
  by (relation "measure (\<lambda>p. length (lx_rest (ps_lexer p)))") (auto dest: lex_into_left(3))

declare getNextNonCommentToken.simps [simp del]

definition consumeToken :: "Parser \<Rightarrow> Parser option" where
  "consumeToken p = getNextNonCommentToken p"

definition consumeExpectedToken :: "TokenKind \<Rightarrow> Parser \<Rightarrow> (Token \<times> Parser) option" where
  "consumeExpectedToken kind p =
     (if ps_kind p = kind then do { p1 \<leftarrow> getNextNonCommentToken p; Some (ps_tok p, p1) } else None)"

definition consumeIfToken :: "TokenKind \<Rightarrow> Parser \<Rightarrow> (bool \<times> Parser) option" where
  "consumeIfToken kind p =
     (if ps_kind p = kind then do { p1 \<leftarrow> getNextNonCommentToken p; Some (True, p1) } else Some (False, p))"

function skipToNewline :: "Parser \<Rightarrow> Parser option" where
  "skipToNewline p =
     (if ps_kind p \<noteq> TNewline \<and> ps_kind p \<noteq> TEndOfFile
      then do { p1 \<leftarrow> lex_into p; skipToNewline p1 } else Some p)"
  by pat_completeness auto
termination
  by (relation "measure left") (auto dest: lex_into_left(2))

declare skipToNewline.simps [simp del]

definition skipPastEOL :: "Parser \<Rightarrow> Parser option" where
  "skipPastEOL p = do { p1 \<leftarrow> skipToNewline p; consumeToken p1 }"

text \<open>Every operation of the parser eats: it never increases what is left, and a proper token is consumed.\<close>

definition eats :: "Parser \<Rightarrow> Parser \<Rightarrow> bool" where
  "eats p p1 \<longleftrightarrow> left p1 \<le> left p \<and> (ps_kind p \<noteq> TEndOfFile \<longrightarrow> left p1 < left p)"

lemma eats_trans: "eats p p1 \<Longrightarrow> left p2 \<le> left p1 \<Longrightarrow> eats p p2"
  by (auto simp: eats_def)

lemma eats_left: "eats p p1 \<Longrightarrow> left p1 \<le> left p"
  by (simp add: eats_def)

lemma eats_less: "eats p p1 \<Longrightarrow> ps_kind p \<noteq> TEndOfFile \<Longrightarrow> left p1 < left p"
  by (simp add: eats_def)

lemma left_call [simp]: "left (call a p) = left p" "ps_kind (call a p) = ps_kind p"
    "ps_lexer (call a p) = ps_lexer p" "ps_tok (call a p) = ps_tok p"
  by (simp_all add: call_def left_def)

lemma left_perror [simp]: "left (perror m p) = left p" "ps_kind (perror m p) = ps_kind p"
    "ps_lexer (perror m p) = ps_lexer p" "ps_tok (perror m p) = ps_tok p"
  by (simp_all add: perror_def error_at_def)

lemma left_setParserMode [simp]: "left (setParserMode m p) = left p" "ps_kind (setParserMode m p) = ps_kind p"
    "ps_tok (setParserMode m p) = ps_tok p"
  by (simp_all add: setParserMode_def setMode_def left_def)

lemma eats_wrap [simp]:
  "eats (call a p) p1 = eats p p1" "eats (perror e p) p1 = eats p p1" "eats (setParserMode m p) p1 = eats p p1"
  by (simp_all add: eats_def)

lemma getNext_eats: "getNextNonCommentToken p = Some p1 \<Longrightarrow> eats p p1"
proof (induction p arbitrary: p1 rule: getNextNonCommentToken.induct)
  case (1 p)
  then obtain q where q: "lex_into p = Some q" "(if ps_kind q = TComment then getNextNonCommentToken q else Some q) = Some p1"
    by (auto simp: getNextNonCommentToken.simps [of p])
  have "eats p q" using lex_into_left [OF q(1)] by (simp add: eats_def)
  moreover have "left p1 \<le> left q" using q 1(1) [OF q(1)] eats_left by (auto split: if_splits)
  ultimately show ?case by (rule eats_trans)
qed

lemma consumeExpected_eats: "consumeExpectedToken k p = Some (t, p1) \<Longrightarrow> eats p p1 \<and> t = ps_tok p \<and> ps_kind p = k"
  by (auto simp: consumeExpectedToken_def getNext_eats split: if_splits)

lemma consumeIf_left: "consumeIfToken k p = Some (b, p1) \<Longrightarrow> left p1 \<le> left p"
  by (auto simp: consumeIfToken_def getNext_eats eats_left split: if_splits)

lemma skipToNewline_left: "skipToNewline p = Some p1 \<Longrightarrow> left p1 \<le> left p \<and> (p1 \<noteq> p \<longrightarrow> eats p p1)"
proof (induction p arbitrary: p1 rule: skipToNewline.induct)
  case (1 p)
  show ?case
  proof (cases "ps_kind p \<noteq> TNewline \<and> ps_kind p \<noteq> TEndOfFile")
    case True
    then obtain q where q: "lex_into p = Some q" "skipToNewline q = Some p1"
      using 1(2) by (auto simp: skipToNewline.simps [of p])
    have "eats p q" using lex_into_left [OF q(1)] by (simp add: eats_def)
    then show ?thesis using 1(1) [OF True q] eats_trans eats_left by blast
  qed (use 1(2) in \<open>auto simp: skipToNewline.simps [of p]\<close>)
qed

lemma skipPastEOL_eats: "skipPastEOL p = Some p1 \<Longrightarrow> eats p p1"
  using skipToNewline_left getNext_eats eats_trans eats_left
  by (fastforce simp: skipPastEOL_def consumeToken_def)

section \<open>Declarations\<close>

function parse_strings :: "Token list \<Rightarrow> Parser \<Rightarrow> (Token list \<times> Parser) option" where
  "parse_strings names p =
     (if ps_kind p = TString
      then do { (t, p1) \<leftarrow> consumeExpectedToken TString p; parse_strings (names @ [t]) p1 }
      else Some (names, p))"
  by pat_completeness auto
termination
  by (relation "measure (\<lambda>(names, p). left p)") (auto dest: consumeExpected_eats intro: eats_less)

declare parse_strings.simps [simp del]

definition parseBindingInternal :: "Parser \<Rightarrow> ((Token \<times> Token) option \<times> Parser) option" where
  "parseBindingInternal p =
     (if ps_kind p \<noteq> TIdentifier then
        do { p1 \<leftarrow> skipPastEOL (setParserMode ModeNone (perror ''expected variable name'' p)); Some (None, p1) }
      else
        do { (name, p1) \<leftarrow> consumeExpectedToken TIdentifier p;
             if ps_kind p1 \<noteq> TEquals then
               do { p2 \<leftarrow> skipPastEOL (setParserMode ModeNone (perror ''expected '=' token'' p1)); Some (None, p2) }
             else
               do { (_, p2) \<leftarrow> consumeExpectedToken TEquals (setParserMode ModeVariableString p1);
                    let p3 = setParserMode ModeNone p2;
                    if ps_kind p3 = TNewline then
                      do { (value, p4) \<leftarrow> consumeExpectedToken TNewline p3;
                           Some (Some (name, value\<lparr>tok_kind := TString, tok_text := []\<rparr>), p4) }
                    else if ps_kind p3 \<noteq> TString then
                      do { p4 \<leftarrow> skipPastEOL (perror ''expected variable value'' p3); Some (None, p4) }
                    else
                      do { (value, p4) \<leftarrow> consumeExpectedToken TString p3;
                           (newline, p5) \<leftarrow> consumeIfToken TNewline p4;
                           if newline then Some (Some (name, value), p5)
                           else do { p6 \<leftarrow> skipPastEOL (perror ''expected newline token'' p5); Some (None, p6) } } } })"

definition parseBindingDecl :: "Parser \<Rightarrow> Parser option" where
  "parseBindingDecl p =
     do { (binding, p1) \<leftarrow> parseBindingInternal p;
          Some (case binding of Some (name, value) \<Rightarrow> call (OnBindingDecl name value) p1 | None \<Rightarrow> p1) }"

definition parseDefaultDecl :: "Parser \<Rightarrow> Parser option" where
  "parseDefaultDecl p =
     do { (_, p1) \<leftarrow> consumeExpectedToken TKWDefault (setParserMode ModePathString p);
          (names, p2) \<leftarrow> parse_strings [] p1;
          let p3 = setParserMode ModeNone p2;
          if names = [] then skipPastEOL (perror ''expected target path string'' p3)
          else
            do { (newline, p4) \<leftarrow> consumeIfToken TNewline p3;
                 if newline then Some (call (OnDefaultDecl names) p4)
                 else skipPastEOL (perror ''expected newline token'' p4) } }"

definition parseIncludeDecl :: "Parser \<Rightarrow> Parser option" where
  "parseIncludeDecl p =
     (let isInclude = (ps_kind p = TKWInclude) in
      do { (_, p1) \<leftarrow> consumeExpectedToken (if isInclude then TKWInclude else TKWSubninja)
                        (setParserMode ModePathString p);
           let p2 = setParserMode ModeNone p1;
           if ps_kind p2 \<noteq> TString then skipPastEOL (perror ''expected path string'' p2)
           else
             do { (path, p3) \<leftarrow> consumeExpectedToken TString p2;
                  (newline, p4) \<leftarrow> consumeIfToken TNewline p3;
                  if newline then Some (call (OnIncludeDecl isInclude path) p4)
                  else skipPastEOL (perror ''expected newline token'' p4) } })"

text \<open>The specifiers return whether they succeeded.\<close>

definition parseBuildSpecifier :: "Parser \<Rightarrow> (bool \<times> Parser) option" where
  "parseBuildSpecifier p =
     do { (_, p1) \<leftarrow> consumeExpectedToken TKWBuild (setParserMode ModePathString p);
          if ps_kind p1 \<noteq> TString then
            Some (False, setParserMode ModeNone (perror ''expected output path string'' p1))
          else
            do { (outputs, p2) \<leftarrow> parse_strings [] p1;
                 if ps_kind p2 \<noteq> TColon then
                   Some (False, setParserMode ModeNone (perror ''expected ':' token'' p2))
                 else
                   do { (_, p3) \<leftarrow> consumeExpectedToken TColon (setParserMode ModeIdentifierSpecific p2);
                        let p4 = setParserMode ModePathString p3;
                        if ps_kind p4 \<noteq> TIdentifier then
                          Some (False, setParserMode ModeNone (perror ''expected rule name identifier'' p4))
                        else
                          do { (name, p5) \<leftarrow> consumeExpectedToken TIdentifier p4;
                               (explicit, p6) \<leftarrow> parse_strings [] p5;
                               (pipe, p7) \<leftarrow> consumeIfToken TPipe p6;
                               (implicit, p8) \<leftarrow> (if pipe then parse_strings explicit p7 else Some (explicit, p7));
                               (pipepipe, p9) \<leftarrow> consumeIfToken TPipePipe p8;
                               (inputs, p10) \<leftarrow> (if pipepipe then parse_strings implicit p9 else Some (implicit, p9));
                               (newline, p11) \<leftarrow> consumeIfToken TNewline (setParserMode ModeNone p10);
                               if newline then
                                 Some (True, call (OnBeginBuildDecl name outputs inputs (length explicit)
                                                     (length implicit - length explicit)) p11)
                               else Some (False, perror ''expected newline token'' p11) } } } }"

definition parsePoolSpecifier :: "Parser \<Rightarrow> (bool \<times> Parser) option" where
  "parsePoolSpecifier p =
     do { (_, p1) \<leftarrow> consumeExpectedToken TKWPool (setParserMode ModeIdentifierSpecific p);
          let p2 = setParserMode ModeNone p1;
          if ps_kind p2 \<noteq> TIdentifier then Some (False, perror ''expected pool name identifier'' p2)
          else
            do { (name, p3) \<leftarrow> consumeExpectedToken TIdentifier p2;
                 (newline, p4) \<leftarrow> consumeIfToken TNewline p3;
                 if newline then Some (True, call (OnBeginPoolDecl name) p4)
                 else Some (False, perror ''expected newline token'' p4) } }"

definition parseRuleSpecifier :: "Parser \<Rightarrow> (bool \<times> Parser) option" where
  "parseRuleSpecifier p =
     do { (_, p1) \<leftarrow> consumeExpectedToken TKWRule (setParserMode ModeIdentifierSpecific p);
          let p2 = setParserMode ModeNone p1;
          if ps_kind p2 \<noteq> TIdentifier then Some (False, perror ''expected rule name identifier'' p2)
          else
            do { (name, p3) \<leftarrow> consumeExpectedToken TIdentifier p2;
                 (newline, p4) \<leftarrow> consumeIfToken TNewline p3;
                 if newline then Some (True, call (OnBeginRuleDecl name) p4)
                 else Some (False, perror ''expected newline token'' p4) } }"

lemma eats_less_proper: "eats p p1 \<Longrightarrow> ps_kind p1 \<noteq> TEndOfFile \<Longrightarrow> left p1 < left p"
  unfolding eats_def left_def by (cases "ps_kind p = TEndOfFile") (auto, presburger)

section \<open>A calculus for the parser functions\<close>

text \<open>
  \<open>wp ok m Q\<close>: the outcome of \<open>m\<close> satisfies \<open>Q\<close>, and \<open>m\<close> has an outcome if \<open>ok\<close> holds.  \<open>near ok start p\<close>
  collects what every operation keeps of the state \<open>start\<close> it started in: nothing is left over that was
  not left before, only errors have been reported and, if \<open>ok\<close> holds, the rest of the buffer does not
  end in a dollar sign.
\<close>

definition wp :: "bool \<Rightarrow> 'a option \<Rightarrow> ('a \<Rightarrow> bool) \<Rightarrow> bool" where
  "wp ok m Q \<longleftrightarrow> (case m of None \<Rightarrow> \<not> ok | Some r \<Rightarrow> Q r)"

lemma wp_simps [simp]:
  "wp ok (Some r) Q = Q r" "wp ok None Q = (\<not> ok)"
  by (simp_all add: wp_def)

lemma wp_bind [simp]: "wp ok (Option.bind m f) Q = wp ok m (\<lambda>r. wp ok (f r) Q)"
  by (cases m) simp_all

lemma wp_prod [simp]: "wp ok (case r of (a, b) \<Rightarrow> f a b) Q = (case r of (a, b) \<Rightarrow> wp ok (f a b) Q)"
  by (cases r) simp

lemma wp_if [simp]: "wp ok (if b then m else n) Q = ((b \<longrightarrow> wp ok m Q) \<and> (\<not> b \<longrightarrow> wp ok n Q))"
  by simp

lemma wp_mono: "wp ok m P \<Longrightarrow> (\<And>r. P r \<Longrightarrow> Q r) \<Longrightarrow> wp ok m Q"
  by (cases m) simp_all

lemma wpD: "wp ok m Q \<Longrightarrow> m = Some r \<Longrightarrow> Q r"
  by simp

lemma wp_total: "wp True m Q \<Longrightarrow> \<exists>r. m = Some r \<and> Q r"
  by (cases m) simp_all

definition safe :: "Parser \<Rightarrow> bool" where
  "safe p \<longleftrightarrow> \<not> suffix ''$'' (lx_rest (ps_lexer p))"

abbreviation ps_mode :: "Parser \<Rightarrow> LexingMode" where
  "ps_mode p \<equiv> lx_mode (ps_lexer p)"

fun is_error :: "Token ParseAction \<Rightarrow> bool" where
  "is_error (OnError m t) = True"
| "is_error _ = False"

definition near :: "bool \<Rightarrow> Parser \<Rightarrow> Parser \<Rightarrow> bool" where
  "near ok start p \<longleftrightarrow> left p \<le> left start \<and> (ok \<longrightarrow> safe p) \<and> (\<exists>es. ps_calls p = ps_calls start @ es \<and> list_all is_error es)"

lemma near_refl: "(ok \<Longrightarrow> safe p) \<Longrightarrow> near ok p p"
  by (auto simp: near_def)

lemma near_trans: "near ok start p \<Longrightarrow> near ok p p1 \<Longrightarrow> near ok start p1"
  by (fastforce simp: near_def)

lemma near_perror [simp]: "near ok start p \<Longrightarrow> near ok start (perror m p)"
  by (auto simp: near_def perror_def error_at_def call_def safe_def left_def)

lemma near_setParserMode [simp]: "near ok start (setParserMode m p) = near ok start p"
  by (simp add: near_def setParserMode_def setMode_def safe_def left_def)

lemma mode_simps [simp]:
  "ps_mode (setParserMode m p) = m" "ps_mode (perror e p) = ps_mode p" "ps_mode (call a p) = ps_mode p"
  by (simp_all add: setParserMode_def setMode_def perror_def error_at_def call_def)

text \<open>The rule of one call of the lexer, and those of the operations above it.\<close>

lemma wp_lex_into:
  assumes "near ok start p"
    and "\<And>p1. near ok start p1 \<Longrightarrow> eats p p1 \<Longrightarrow> ps_mode p1 = ps_mode p \<Longrightarrow>
      lex_into p = Some p1 \<Longrightarrow> Q p1"
  shows "wp ok (lex_into p) Q"
proof (cases "lex (ps_lexer p)")
  case None
  then have "\<not> safe p" using lex_total [of "ps_lexer p"] by (auto simp: safe_def)
  then show ?thesis using None assms(1) by (simp add: lex_into_def near_def)
next
  case (Some r)
  then obtain t lx where l: "lex (ps_lexer p) = Some (t, lx)" by (cases r) auto
  then have i: "lex_into p = Some (p\<lparr>ps_lexer := lx, ps_tok := t\<rparr>)" (is "_ = Some ?p1") by (simp add: lex_into_def)
  have "lx_mode lx = ps_mode p" using lex_facts [OF l] by blast
  moreover have "near ok start ?p1"
    using assms(1) lex_into_left(1) [OF i] suffix_order.trans [OF _ lex_suffix [OF l]] by (auto simp: near_def safe_def)
  ultimately show ?thesis using assms(2) [of ?p1] lex_into_left [OF i] i by (simp add: eats_def)
qed

lemma wp_getNext:
  "near ok start p \<Longrightarrow> (\<And>p1. near ok start p1 \<Longrightarrow> eats p p1 \<Longrightarrow> ps_mode p1 = ps_mode p \<Longrightarrow> ps_kind p1 \<noteq> TComment \<Longrightarrow> Q p1) \<Longrightarrow>
   wp ok (getNextNonCommentToken p) Q"
proof (induction p rule: getNextNonCommentToken.induct)
  case (1 p)
  have "wp ok (lex_into p) (\<lambda>p1. wp ok (if ps_kind p1 = TComment then getNextNonCommentToken p1 else Some p1) Q)"
  proof (rule wp_lex_into [OF 1(2)])
    fix p1
    assume p1: "near ok start p1" "eats p p1" "ps_mode p1 = ps_mode p" "lex_into p = Some p1"
    show "wp ok (if ps_kind p1 = TComment then getNextNonCommentToken p1 else Some p1) Q"
    proof (cases "ps_kind p1 = TComment")
      case True
      have "wp ok (getNextNonCommentToken p1) Q"
      proof (rule 1(1) [OF p1(4) True p1(1)])
        fix q
        assume q: "near ok start q" "eats p1 q" "ps_mode q = ps_mode p1" "ps_kind q \<noteq> TComment"
        have "eats p q" using p1(2) q(2) by (blast intro: eats_trans eats_left)
        then show "Q q" using 1(3) q p1 by simp
      qed
      then show ?thesis using True by simp
    qed (use 1(3) p1 in simp)
  qed
  then show ?case by (simp add: getNextNonCommentToken.simps [of p])
qed


lemma wp_consumeToken:
  "near ok start p \<Longrightarrow> (\<And>p1. near ok start p1 \<Longrightarrow> eats p p1 \<Longrightarrow> ps_mode p1 = ps_mode p \<Longrightarrow> Q p1) \<Longrightarrow> wp ok (consumeToken p) Q"
  by (simp add: consumeToken_def wp_getNext)

lemma wp_consumeExpected:
  "near ok start p \<Longrightarrow> ps_kind p = k \<Longrightarrow> k \<noteq> TEndOfFile \<Longrightarrow>
   (\<And>p1. near ok start p1 \<Longrightarrow> left p1 < left p \<Longrightarrow> ps_mode p1 = ps_mode p \<Longrightarrow> Q (ps_tok p, p1)) \<Longrightarrow> wp ok (consumeExpectedToken k p) Q"
  by (auto simp: consumeExpectedToken_def eats_def intro: wp_getNext)

lemma wp_consumeIf:
  "near ok start p \<Longrightarrow> (ps_kind p = k \<Longrightarrow> k \<noteq> TEndOfFile) \<Longrightarrow>
   (\<And>b p1. near ok start p1 \<Longrightarrow> left p1 \<le> left p \<Longrightarrow> ps_mode p1 = ps_mode p \<Longrightarrow> Q (b, p1)) \<Longrightarrow> wp ok (consumeIfToken k p) Q"
  by (auto simp: consumeIfToken_def eats_def intro: wp_getNext)

lemma wp_skipToNewline:
  "near ok start p \<Longrightarrow> (\<And>p1. near ok start p1 \<Longrightarrow> (eats p p1 \<or> p1 = p) \<Longrightarrow> ps_mode p1 = ps_mode p \<Longrightarrow> Q p1) \<Longrightarrow> wp ok (skipToNewline p) Q"
proof (induction p rule: skipToNewline.induct)
  case (1 p)
  show ?case
  proof (cases "ps_kind p \<noteq> TNewline \<and> ps_kind p \<noteq> TEndOfFile")
    case True
    have "wp ok (lex_into p) (\<lambda>p1. wp ok (skipToNewline p1) Q)"
    proof (rule wp_lex_into [OF 1(2)])
      fix p1
      assume p1: "near ok start p1" "eats p p1" "ps_mode p1 = ps_mode p" "lex_into p = Some p1"
      show "wp ok (skipToNewline p1) Q"
        using 1(1) [OF True p1(4,1)] 1(3) p1 eats_trans eats_left by metis
    qed
    then show ?thesis using True by (simp add: skipToNewline.simps [of p])
  qed (use 1 in \<open>auto simp: skipToNewline.simps [of p]\<close>)
qed

lemma wp_skipPastEOL:
  assumes "near ok start p" "\<And>p1. near ok start p1 \<Longrightarrow> eats p p1 \<Longrightarrow> ps_mode p1 = ps_mode p \<Longrightarrow> Q p1"
  shows "wp ok (skipPastEOL p) Q"
  unfolding skipPastEOL_def wp_bind
  by (rule wp_skipToNewline [OF assms(1)], rule wp_consumeToken, assumption, rule assms(2))
    (auto simp: eats_def)

lemma wp_known: "wp ok m (\<lambda>r. m = Some r \<longrightarrow> Q r) \<Longrightarrow> wp ok m Q"
  by (cases m) simp_all

abbreviation all_strings :: "Token list \<Rightarrow> bool" where
  "all_strings ts \<equiv> list_all (\<lambda>t. tok_kind t = TString) ts"

lemma wp_parse_strings:
  "near ok start p \<Longrightarrow>
   (\<And>us p1. near ok start p1 \<Longrightarrow> left p1 \<le> left p \<Longrightarrow> ps_mode p1 = ps_mode p \<Longrightarrow> all_strings us \<Longrightarrow>
      (ps_kind p = TString \<Longrightarrow> us \<noteq> []) \<Longrightarrow> Q (ts @ us, p1)) \<Longrightarrow>
   wp ok (parse_strings ts p) Q"
proof (induction ts p rule: parse_strings.induct)
  case (1 ts p)
  show ?case
  proof (cases "ps_kind p = TString")
    case True
    have "wp ok (consumeExpectedToken TString p) (\<lambda>r. case r of (t, p1) \<Rightarrow> wp ok (parse_strings (ts @ [t]) p1) Q)"
    proof (rule wp_known, rule wp_consumeExpected [OF 1(2) True], simp, clarsimp)
      fix p1
      assume p1: "near ok start p1" "left p1 < left p" "ps_mode p1 = ps_mode p" "consumeExpectedToken TString p = Some (ps_tok p, p1)"
      show "wp ok (parse_strings (ts @ [ps_tok p]) p1) Q"
      proof (rule 1(1) [OF True p1(4) refl p1(1)])
        fix us q
        assume "near ok start q" "left q \<le> left p1" "ps_mode q = ps_mode p1" "all_strings us"
        then show "Q ((ts @ [ps_tok p]) @ us, q)" using 1(3) [of q "ps_tok p # us"] p1 True by simp
      qed
    qed
    then show ?thesis using True by (simp add: parse_strings.simps [of ts p])
  qed (use 1(2) 1(3) [of p "[]"] in \<open>simp add: parse_strings.simps [of ts p]\<close>)
qed

lemmas parser_rules = wp_consumeToken wp_consumeExpected wp_consumeIf wp_skipPastEOL wp_parse_strings

lemma wp_parseBindingInternal:
  assumes "near ok start p"
    and "\<And>b p1. near ok start p1 \<Longrightarrow> eats p p1 \<Longrightarrow> ps_mode p1 = ModeNone \<Longrightarrow>
      (\<And>n v. b = Some (n, v) \<Longrightarrow> tok_kind n = TIdentifier \<and> tok_kind v = TString) \<Longrightarrow> Q (b, p1)"
  shows "wp ok (parseBindingInternal p) Q"
  unfolding parseBindingInternal_def Let_def
  using assms(1) by (auto simp: eats_def intro!: parser_rules [where start = start] assms(2))

lemma wp_parseBuildSpecifier:
  assumes "near ok start p" "ps_kind p = TKWBuild"
    and "\<And>p1. near ok start p1 \<Longrightarrow> left p1 < left p \<Longrightarrow> ps_mode p1 = ModeNone \<Longrightarrow> Q (False, p1)"
    and "\<And>name outs ins m n p1. near ok start p1 \<Longrightarrow> left p1 < left p \<Longrightarrow> ps_mode p1 = ModeNone \<Longrightarrow>
      all_strings outs \<Longrightarrow> outs \<noteq> [] \<Longrightarrow> all_strings ins \<Longrightarrow> m + n \<le> length ins \<Longrightarrow> Q (True, call (OnBeginBuildDecl name outs ins m n) p1)"
  shows "wp ok (parseBuildSpecifier p) Q"
  unfolding parseBuildSpecifier_def Let_def wp_bind wp_prod wp_if
  using assms(1,2)
  by - ((rule conjI impI allI parser_rules [where start = start] assms(3,4); (assumption | simp)?) | clarsimp)+

lemma wp_parsePoolSpecifier:
  assumes "near ok start p" "ps_kind p = TKWPool"
    and "\<And>p1. near ok start p1 \<Longrightarrow> left p1 < left p \<Longrightarrow> ps_mode p1 = ModeNone \<Longrightarrow> Q (False, p1)"
    and "\<And>name p1. near ok start p1 \<Longrightarrow> left p1 < left p \<Longrightarrow> ps_mode p1 = ModeNone \<Longrightarrow> Q (True, call (OnBeginPoolDecl name) p1)"
  shows "wp ok (parsePoolSpecifier p) Q"
  unfolding parsePoolSpecifier_def Let_def
  using assms(1,2) by (auto intro!: parser_rules [where start = start] assms(3,4))

lemma wp_parseRuleSpecifier:
  assumes "near ok start p" "ps_kind p = TKWRule"
    and "\<And>p1. near ok start p1 \<Longrightarrow> left p1 < left p \<Longrightarrow> ps_mode p1 = ModeNone \<Longrightarrow> Q (False, p1)"
    and "\<And>name p1. near ok start p1 \<Longrightarrow> left p1 < left p \<Longrightarrow> ps_mode p1 = ModeNone \<Longrightarrow> Q (True, call (OnBeginRuleDecl name) p1)"
  shows "wp ok (parseRuleSpecifier p) Q"
  unfolding parseRuleSpecifier_def Let_def
  using assms(1,2) by (auto intro!: parser_rules [where start = start] assms(3,4))

lemma parseBindingInternal_eats: "parseBindingInternal p = Some (b, p1) \<Longrightarrow> eats p p1"
  using wpD [OF wp_parseBindingInternal [of False p p "\<lambda>(b, p1). eats p p1"], of "(b, p1)"] by (simp add: near_refl)

section \<open>Declarations with bindings and the file\<close>

function skip_indented :: "Parser \<Rightarrow> Parser option" where
  "skip_indented p =
     do { p1 \<leftarrow> skipPastEOL p; if ps_kind p1 = TIndentation then skip_indented p1 else Some p1 }"
  by pat_completeness auto
termination
  by (relation "measure left") (auto dest!: skipPastEOL_eats intro: eats_less_proper)

declare skip_indented.simps [simp del]

definition binding_call :: "TokenKind \<Rightarrow> 't \<Rightarrow> 't \<Rightarrow> 't ParseAction" where
  "binding_call kind name value =
     (if kind = TKWBuild then OnBuildBindingDecl name value
      else if kind = TKWPool then OnPoolBindingDecl name value
      else OnRuleBindingDecl name value)"

definition end_call :: "TokenKind \<Rightarrow> 't \<Rightarrow> 't ParseAction" where
  "end_call kind startTok =
     (if kind = TKWBuild then OnEndBuildDecl startTok
      else if kind = TKWPool then OnEndPoolDecl startTok
      else OnEndRuleDecl startTok)"

function parse_bindings :: "TokenKind \<Rightarrow> Parser \<Rightarrow> Parser option" where
  "parse_bindings kind p =
     (if ps_kind p = TIndentation then
        do { (_, p1) \<leftarrow> consumeExpectedToken TIndentation (setParserMode ModeIdentifierSpecific p);
             if ps_kind p1 = TNewline then
               do { (_, p2) \<leftarrow> consumeExpectedToken TNewline (setParserMode ModeNone p1); parse_bindings kind p2 }
             else
               do { (binding, p2) \<leftarrow> parseBindingInternal p1;
                    parse_bindings kind
                      (case binding of Some (name, value) \<Rightarrow> call (binding_call kind name value) p2 | None \<Rightarrow> p2) } }
      else Some p)"
  by pat_completeness auto
termination
proof (relation "measure (\<lambda>(kind, p). left p)", goal_cases)
  case (2 kind p x t p1 y u p2)
  then show ?case by (auto dest!: consumeExpected_eats simp: eats_def)
next
  case (3 kind p x t p1 y b p2)
  then have "left p1 < left p" "left p2 \<le> left p1"
    using parseBindingInternal_eats by (auto dest!: consumeExpected_eats simp: eats_def)
  then show ?case by (auto split: option.splits)
qed simp

declare parse_bindings.simps [simp del]

definition parse_specifier :: "TokenKind \<Rightarrow> Parser \<Rightarrow> (bool \<times> Parser) option" where
  "parse_specifier kind p =
     (if kind = TKWBuild then parseBuildSpecifier p
      else if kind = TKWPool then parsePoolSpecifier p
      else if kind = TKWRule then parseRuleSpecifier p
      else None)"

definition parseParameterizedDecl :: "Parser \<Rightarrow> Parser option" where
  "parseParameterizedDecl p =
     do { (success, p1) \<leftarrow> parse_specifier (ps_kind p) p;
          if \<not> success then skip_indented p1
          else do { p2 \<leftarrow> parse_bindings (ps_kind p) p1; Some (call (end_call (ps_kind p) (ps_tok p)) p2) } }"

definition parseDecl :: "Parser \<Rightarrow> Parser option" where
  "parseDecl p =
     (case ps_kind p of
        TNewline \<Rightarrow> consumeToken p
      | TKWBuild \<Rightarrow> parseParameterizedDecl p
      | TKWRule \<Rightarrow> parseParameterizedDecl p
      | TKWPool \<Rightarrow> parseParameterizedDecl p
      | TKWDefault \<Rightarrow> parseDefaultDecl p
      | TKWInclude \<Rightarrow> parseIncludeDecl p
      | TKWSubninja \<Rightarrow> parseIncludeDecl p
      | TIdentifier \<Rightarrow> parseBindingDecl p
      | _ \<Rightarrow> skipPastEOL (perror ''unexpected token'' p))"

text \<open>
  What the parser promises its delegate: the calls for a declaration with bindings form a bracket, the
  other calls come outside of brackets, errors may come anywhere, and the tokens are of the kinds that
  the delegate asserts.  The state is the kind of the open bracket.
\<close>

abbreviation binding_tokens :: "Token \<Rightarrow> Token \<Rightarrow> bool" where
  "binding_tokens n v \<equiv> tok_kind n = TIdentifier \<and> tok_kind v = TString"

fun protocol_step :: "TokenKind option \<Rightarrow> Token ParseAction \<Rightarrow> TokenKind option option" where
  "protocol_step s (OnError m t) = Some s"
| "protocol_step s (OnBeginManifest m) = None"
| "protocol_step s OnEndManifest = None"
| "protocol_step s (OnBindingDecl n v) = (if s = None \<and> binding_tokens n v then Some None else None)"
| "protocol_step s (OnDefaultDecl ts) = (if s = None \<and> ts \<noteq> [] \<and> all_strings ts then Some None else None)"
| "protocol_step s (OnIncludeDecl b t) = (if s = None \<and> tok_kind t = TString then Some None else None)"
| "protocol_step s (OnBeginBuildDecl n outs ins m k) =
     (if s = None \<and> outs \<noteq> [] \<and> all_strings outs \<and> all_strings ins \<and> m + k \<le> length ins then Some (Some TKWBuild) else None)"
| "protocol_step s (OnBuildBindingDecl n v) = (if s = Some TKWBuild \<and> binding_tokens n v then Some s else None)"
| "protocol_step s (OnEndBuildDecl t) = (if s = Some TKWBuild then Some None else None)"
| "protocol_step s (OnBeginPoolDecl n) = (if s = None then Some (Some TKWPool) else None)"
| "protocol_step s (OnPoolBindingDecl n v) = (if s = Some TKWPool \<and> binding_tokens n v then Some s else None)"
| "protocol_step s (OnEndPoolDecl t) = (if s = Some TKWPool then Some None else None)"
| "protocol_step s (OnBeginRuleDecl n) = (if s = None then Some (Some TKWRule) else None)"
| "protocol_step s (OnRuleBindingDecl n v) = (if s = Some TKWRule \<and> binding_tokens n v then Some s else None)"
| "protocol_step s (OnEndRuleDecl t) = (if s = Some TKWRule then Some None else None)"

fun protocol :: "TokenKind option \<Rightarrow> Token ParseAction list \<Rightarrow> TokenKind option option" where
  "protocol s [] = Some s"
| "protocol s (a # as) = do { s1 \<leftarrow> protocol_step s a; protocol s1 as }"

lemma protocol_append: "protocol s (as @ bs) = do { s1 \<leftarrow> protocol s as; protocol s1 bs }"
  by (induction s as rule: protocol.induct) (auto simp del: bind_eq_Some_iff split: bind_splits)

lemma protocol_errors: "list_all is_error es \<Longrightarrow> protocol s es = Some s"
proof (induction es)
  case (Cons e es)
  then show ?case by (cases e) auto
qed simp

text \<open>The calls since \<open>start\<close> lead to the protocol state \<open>s\<close>.\<close>

definition within :: "bool \<Rightarrow> Parser \<Rightarrow> TokenKind option \<Rightarrow> Parser \<Rightarrow> bool" where
  "within ok start s p \<longleftrightarrow>
     (ok \<longrightarrow> safe p) \<and> (\<exists>as. ps_calls p = ps_calls start @ as \<and> protocol None as = Some s)"

lemma within_near:
  assumes "near ok p p1" "within ok start s p"
  shows "within ok start s p1"
proof -
  from assms obtain as es where "ps_calls p1 = ps_calls start @ as @ es" "protocol None as = Some s" "list_all is_error es"
    "ok \<longrightarrow> safe p1" by (auto simp: near_def within_def)
  then show ?thesis by (auto simp: within_def protocol_append protocol_errors)
qed

lemma within_call:
  assumes "within ok start s p" "protocol_step s a = Some t"
  shows "within ok start t (call a p)"
proof -
  from assms obtain as where "ps_calls (call a p) = ps_calls start @ as @ [a]" "protocol None as = Some s" "ok \<longrightarrow> safe p"
    by (auto simp: within_def call_def)
  then show ?thesis using assms(2) by (auto simp: within_def protocol_append safe_def)
qed

lemma within_refl: "(ok \<Longrightarrow> safe p) \<Longrightarrow> within ok p None p"
  by (simp add: within_def)

lemma within_safe: "within ok start s p \<Longrightarrow> ok \<Longrightarrow> safe p"
  by (simp add: within_def)


abbreviation parameterized :: "TokenKind \<Rightarrow> bool" where
  "parameterized k \<equiv> k = TKWBuild \<or> k = TKWPool \<or> k = TKWRule"

lemma wp_skip_indented:
  "near ok start p \<Longrightarrow> (\<And>p1. near ok start p1 \<Longrightarrow> left p1 \<le> left p \<Longrightarrow> ps_mode p1 = ps_mode p \<Longrightarrow> Q p1) \<Longrightarrow>
   wp ok (skip_indented p) Q"
proof (induction p rule: skip_indented.induct)
  case (1 p)
  have "wp ok (skipPastEOL p) (\<lambda>p1. wp ok (if ps_kind p1 = TIndentation then skip_indented p1 else Some p1) Q)"
  proof (rule wp_known, rule wp_skipPastEOL [OF 1(2)], intro impI)
    fix p1
    assume p1: "near ok start p1" "eats p p1" "ps_mode p1 = ps_mode p" "skipPastEOL p = Some p1"
    show "wp ok (if ps_kind p1 = TIndentation then skip_indented p1 else Some p1) Q"
      using 1(1) [OF p1(4) _ p1(1)] 1(3) p1 by (auto simp: eats_def)
  qed
  then show ?case by (simp add: skip_indented.simps [of p])
qed

lemma within_binding:
  "within ok start (Some kind) p \<Longrightarrow> parameterized kind \<Longrightarrow> near ok p p1 \<Longrightarrow>
   (\<And>n v. b = Some (n, v) \<Longrightarrow> tok_kind n = TIdentifier \<and> tok_kind v = TString) \<Longrightarrow>
   within ok start (Some kind) (case b of Some (n, v) \<Rightarrow> call (binding_call kind n v) p1 | None \<Rightarrow> p1)"
  by (auto simp: binding_call_def split: option.splits intro!: within_call within_near [of ok p p1])

lemma binding_frame [simp]:
  "left (case b of Some (n, v) \<Rightarrow> call (binding_call kind n v) p | None \<Rightarrow> p) = left p"
  "ps_mode (case b of Some (n, v) \<Rightarrow> call (binding_call kind n v) p | None \<Rightarrow> p) = ps_mode p"
  by (simp_all split: option.split)

lemma wp_parse_bindings:
  "parameterized kind \<Longrightarrow> within ok start (Some kind) p \<Longrightarrow> ps_mode p = ModeNone \<Longrightarrow>
   (\<And>p1. within ok start (Some kind) p1 \<Longrightarrow> left p1 \<le> left p \<Longrightarrow> ps_mode p1 = ModeNone \<Longrightarrow> Q p1) \<Longrightarrow>
   wp ok (parse_bindings kind p) Q"
proof (induction "left p" arbitrary: p rule: less_induct)
  case less
  have near: "near ok p (setParserMode m p)" for m using less(3) by (simp add: near_refl within_safe)
  have again: "wp ok (parse_bindings kind p2) Q"
    if "left p2 < left p" "within ok start (Some kind) p2" "ps_mode p2 = ModeNone" for p2
    using less(1) [OF that(1) less(2) that(2,3)] less(5) that by simp
  show ?case
  proof (cases "ps_kind p = TIndentation")
    case True
    then show ?thesis
      unfolding parse_bindings.simps [of kind p] using near [of ModeIdentifierSpecific]
      by (auto simp: eats_def intro!: parser_rules [where start = p] wp_parseBindingInternal [where start = p] again
          intro: within_near [OF _ less(3)] within_binding [OF less(3,2)])
  qed (use less in \<open>simp add: parse_bindings.simps [of kind p]\<close>)
qed

abbreviation continues :: "bool \<Rightarrow> Parser \<Rightarrow> Parser \<Rightarrow> (Parser \<Rightarrow> bool) \<Rightarrow> bool" where
  "continues ok start p Q \<equiv>
     (\<forall>p1. within ok start None p1 \<longrightarrow> left p1 < left p \<longrightarrow> ps_mode p1 = ModeNone \<longrightarrow> Q p1)"

lemma continue_near:
  "continues ok start p Q \<Longrightarrow> within ok start None p \<Longrightarrow> near ok p p1 \<Longrightarrow> left p1 < left p \<Longrightarrow> ps_mode p1 = ModeNone \<Longrightarrow> Q p1"
  using within_near by blast

lemma continue_call:
  "continues ok start p Q \<Longrightarrow> within ok start None p \<Longrightarrow> near ok p p1 \<Longrightarrow> left p1 < left p \<Longrightarrow> ps_mode p1 = ModeNone \<Longrightarrow>
   protocol_step None a = Some None \<Longrightarrow> Q (call a p1)"
  using within_call [OF within_near] by fastforce

lemma wp_parse_specifier:
  assumes "near ok p p" "parameterized (ps_kind p)"
    and "\<And>p1. near ok p p1 \<Longrightarrow> left p1 < left p \<Longrightarrow> ps_mode p1 = ModeNone \<Longrightarrow> Q (False, p1)"
    and "\<And>a p1. near ok p p1 \<Longrightarrow> left p1 < left p \<Longrightarrow> ps_mode p1 = ModeNone \<Longrightarrow>
      protocol_step None a = Some (Some (ps_kind p)) \<Longrightarrow> Q (True, call a p1)"
  shows "wp ok (parse_specifier (ps_kind p) p) Q"
  using assms(2)
proof (elim disjE)
  assume k: "ps_kind p = TKWBuild"
  show ?thesis using k assms(1) unfolding parse_specifier_def
    by (simp, intro wp_parseBuildSpecifier) (auto intro!: assms(3,4))
next
  assume k: "ps_kind p = TKWPool"
  show ?thesis using k assms(1) unfolding parse_specifier_def
    by (simp, intro wp_parsePoolSpecifier) (auto intro!: assms(3,4))
next
  assume k: "ps_kind p = TKWRule"
  show ?thesis using k assms(1) unfolding parse_specifier_def
    by (simp, intro wp_parseRuleSpecifier) (auto intro!: assms(3,4))
qed

lemma wp_parseParameterizedDecl:
  assumes w: "within ok start None p" and k: "parameterized (ps_kind p)" and c: "continues ok start p Q"
  shows "wp ok (parseParameterizedDecl p) Q"
proof -
  have near: "near ok p p" using w by (simp add: near_refl within_safe)
  have step: "protocol_step (Some (ps_kind p)) (end_call (ps_kind p) (ps_tok p)) = Some None"
    using k by (auto simp: end_call_def)
  show ?thesis unfolding parseParameterizedDecl_def wp_bind
  proof (rule wp_parse_specifier [OF near k])
    fix p1
    assume p1: "near ok p p1" "left p1 < left p" "ps_mode p1 = ModeNone"
    then show "wp ok (case (False, p1) of (success, p1) \<Rightarrow> if \<not> success then skip_indented p1
        else do { p2 \<leftarrow> parse_bindings (ps_kind p) p1; Some (call (end_call (ps_kind p) (ps_tok p)) p2) }) Q"
      using c within_near [OF _ w] by (auto intro!: wp_skip_indented [OF p1(1)])
  next
    fix a p1
    assume p1: "near ok p p1" "left p1 < left p" "ps_mode p1 = ModeNone" "protocol_step None a = Some (Some (ps_kind p))"
    have "within ok start (Some (ps_kind p)) (call a p1)" using within_near [OF p1(1) w] p1(4) by (rule within_call)
    then show "wp ok (case (True, call a p1) of (success, p1) \<Rightarrow> if \<not> success then skip_indented p1
        else do { p2 \<leftarrow> parse_bindings (ps_kind p) p1; Some (call (end_call (ps_kind p) (ps_tok p)) p2) }) Q"
      using c k p1 within_call [OF _ step] by (auto intro!: wp_parse_bindings)
  qed
qed

lemma wp_parseBindingDecl:
  assumes w: "within ok start None p" and k: "ps_kind p = TIdentifier" and c: "continues ok start p Q"
  shows "wp ok (parseBindingDecl p) Q"
proof -
  have near: "near ok p p" using w by (simp add: near_refl within_safe)
  have q: "Q (case b of Some (name, value) \<Rightarrow> call (OnBindingDecl name value) p1 | None \<Rightarrow> p1)"
    if "near ok p p1" "eats p p1" "ps_mode p1 = ModeNone" "\<And>n v. b = Some (n, v) \<Longrightarrow> binding_tokens n v" for b p1
  proof (cases b)
    case None
    then show ?thesis using that k continue_near [OF c w that(1)] by (simp add: eats_def)
  next
    case (Some nv)
    then obtain n v where "b = Some (n, v)" by (cases nv) auto
    then show ?thesis using that k continue_call [OF c w that(1)] by (simp add: eats_def)
  qed
  show ?thesis unfolding parseBindingDecl_def wp_bind wp_prod
    by (rule wp_parseBindingInternal [OF near], unfold prod.case wp_simps) (rule q)
qed

lemma wp_parseDefaultDecl:
  assumes w: "within ok start None p" and k: "ps_kind p = TKWDefault" and c: "continues ok start p Q"
  shows "wp ok (parseDefaultDecl p) Q"
proof -
  have near: "near ok p p" using w by (simp add: near_refl within_safe)
  show ?thesis unfolding parseDefaultDecl_def Let_def
    using near k by (auto simp: eats_def intro!: parser_rules [where start = p] continue_call [OF c w] intro: continue_near [OF c w])
qed

lemma wp_parseIncludeDecl:
  assumes w: "within ok start None p" and k: "ps_kind p = TKWInclude \<or> ps_kind p = TKWSubninja" and c: "continues ok start p Q"
  shows "wp ok (parseIncludeDecl p) Q"
proof -
  have near: "near ok p p" using w by (simp add: near_refl within_safe)
  show ?thesis unfolding parseIncludeDecl_def Let_def
    using near k by (auto simp: eats_def intro!: parser_rules [where start = p] continue_call [OF c w] intro: continue_near [OF c w])
qed

lemma wp_parseDecl:
  assumes w: "within ok start None p" and m: "ps_mode p = ModeNone" and k: "ps_kind p \<noteq> TEndOfFile" and c: "continues ok start p Q"
  shows "wp ok (parseDecl p) Q"
proof -
  have near: "near ok p p" using w by (simp add: near_refl within_safe)
  have unexpected: "wp ok (skipPastEOL (perror ''unexpected token'' p)) Q"
    using near m k c within_near [OF _ w] by (auto simp: eats_def intro!: wp_skipPastEOL [where start = p])
  have newline: "wp ok (consumeToken p) Q"
    using near m k c within_near [OF _ w] by (auto simp: eats_def intro!: wp_consumeToken [where start = p])
  show ?thesis
    using unexpected newline wp_parseParameterizedDecl [OF w _ c] wp_parseBindingDecl [OF w _ c]
      wp_parseDefaultDecl [OF w _ c] wp_parseIncludeDecl [OF w _ c] k
    by (cases "ps_kind p") (simp_all add: parseDecl_def)
qed

lemma parseDecl_left:
  "parseDecl p = Some p1 \<Longrightarrow> ps_mode p = ModeNone \<Longrightarrow> ps_kind p \<noteq> TEndOfFile \<Longrightarrow> left p1 < left p"
  using wpD [OF wp_parseDecl [of False p p "\<lambda>p1. left p1 < left p"]] by (simp add: within_refl)

text \<open>The loop asserts that no declaration leaves the lexer in a special mode.\<close>

function parse_decls :: "Parser \<Rightarrow> Parser option" where
  "parse_decls p =
     (if ps_kind p = TEndOfFile then Some p
      else if ps_mode p \<noteq> ModeNone then None
      else do { p1 \<leftarrow> parseDecl p; parse_decls p1 })"
  by pat_completeness auto
termination
  by (relation "measure left") (auto dest: parseDecl_left)

declare parse_decls.simps [simp del]

definition new_parser :: "string \<Rightarrow> Parser" where
  "new_parser data =
     \<lparr>ps_lexer = new_lexer data,
      ps_tok = \<lparr>tok_kind = TUnknown, tok_text = [], tok_line = 0, tok_column = 0\<rparr>,
      ps_calls = []\<rparr>"

definition parse_ninja :: "string \<Rightarrow> Token ParseAction list option" where
  "parse_ninja data =
     do { p1 \<leftarrow> getNextNonCommentToken (new_parser data);
          p2 \<leftarrow> parse_decls (call (OnBeginManifest ''<main>'') p1);
          Some (ps_calls (call OnEndManifest p2)) }"

lemma wp_parse_decls:
  "within ok start None p \<Longrightarrow> ps_mode p = ModeNone \<Longrightarrow> (\<And>p1. within ok start None p1 \<Longrightarrow> Q p1) \<Longrightarrow> wp ok (parse_decls p) Q"
proof (induction "left p" arbitrary: p rule: less_induct)
  case less
  then show ?case
    by (auto simp: parse_decls.simps [of p] intro!: wp_parseDecl [OF less(2)])
qed

lemma getNext_calls: "getNextNonCommentToken p = Some p1 \<Longrightarrow> ps_calls p1 = ps_calls p"
proof (induction p rule: getNextNonCommentToken.induct)
  case (1 p)
  then show ?case by (auto simp: getNextNonCommentToken.simps [of p] lex_into_def split: if_splits)
qed

lemma wp_parse_ninja:
  assumes "ok \<Longrightarrow> \<not> suffix ''$'' data"
  shows "wp ok (parse_ninja data) (\<lambda>calls. \<exists>mid. calls = OnBeginManifest ''<main>'' # mid @ [OnEndManifest] \<and> protocol None mid = Some None)"
proof -
  have n: "near ok (new_parser data) (new_parser data)"
    using assms by (intro near_refl) (simp add: safe_def new_parser_def new_lexer_def)
  show ?thesis
    unfolding parse_ninja_def wp_bind
  proof (rule wp_known, rule wp_getNext [OF n], intro impI)
    fix p1
    assume p1: "near ok (new_parser data) p1" "ps_mode p1 = ps_mode (new_parser data)" "getNextNonCommentToken (new_parser data) = Some p1"
    let ?start = "call (OnBeginManifest ''<main>'') p1"
    have "ps_calls ?start = [OnBeginManifest ''<main>'']" using getNext_calls [OF p1(3)] by (simp add: call_def new_parser_def)
    moreover have "ps_mode ?start = ModeNone" using p1(2) by (simp add: new_parser_def new_lexer_def)
    moreover have "within ok ?start None ?start" using p1(1) by (intro within_refl) (simp add: near_def safe_def)
    ultimately show "wp ok (parse_decls ?start) (\<lambda>p2. wp ok (Some (ps_calls (call OnEndManifest p2)))
        (\<lambda>calls. \<exists>mid. calls = OnBeginManifest ''<main>'' # mid @ [OnEndManifest] \<and> protocol None mid = Some None))"
      by (intro wp_parse_decls [where start = ?start]) (auto simp: within_def call_def)
  qed
qed

text \<open>
  C27.  On a file that does not end in a dollar sign the parser comes to an end without an assertion
  failure, whatever the file holds, and its calls obey the protocol of the delegate: the calls for a
  declaration with bindings form brackets, everything else comes between them, and every token handed
  out has the kind the delegate relies on.
\<close>

theorem parse_ninja_protocol:
  assumes "\<not> suffix ''$'' data"
  shows "\<exists>calls. parse_ninja data = Some (OnBeginManifest ''<main>'' # calls @ [OnEndManifest]) \<and> protocol None calls = Some None"
  using wp_total [OF wp_parse_ninja [of True data]] assms by blast

theorem parse_ninja_protocol_witness:
  "\<exists>calls. parse_ninja ''build'' = Some (OnBeginManifest ''<main>'' # calls @ [OnEndManifest]) \<and> protocol None calls = Some None"
  using parse_ninja_protocol [of "''build''"] by (simp add: suffix_def)

end
