(* ===== verification/Ninja_Print.thy ===== *)
theory Ninja_Print
  imports Ninja_Parser
begin

text \<open>
  A printer for Ninja manifests and the proof that the parser of \<^verbatim>\<open>lib/Ninja/Parser.cpp\<close>
  reads back what it prints: the lexer and its modes, the lookahead token and the mode switches of the
  parser work together so that every declaration reaches the delegate with its texts.
\<close>

section \<open>What the lexer does on printed text\<close>

definition advance :: "nat \<Rightarrow> string \<Rightarrow> Lexer \<Rightarrow> Lexer" where
  "advance n r lx = lx\<lparr>lx_rest := r, lx_column := lx_column lx + n\<rparr>"

lemma advance_simps [simp]:
  "lx_rest (advance n r lx) = r" "lx_column (advance n r lx) = lx_column lx + n"
  "lx_mode (advance n r lx) = lx_mode lx" "lx_line (advance n r lx) = lx_line lx"
  "advance m s (advance n r lx) = advance (n + m) s lx"
  by (simp_all add: advance_def add.assoc)

lemma advance_self: "lx_rest lx = r \<Longrightarrow> advance 0 r lx = lx"
  by (simp add: advance_def)

lemma skipChar_advance: "lx_rest lx = c # cs \<Longrightarrow> c \<noteq> LF \<Longrightarrow> c \<noteq> CRET \<Longrightarrow> skipChar lx = advance 1 cs lx"
  by (simp add: skipChar_def getNextChar_def advance_def)

lemma peek_Cons: "lx_rest lx = c # cs \<Longrightarrow> peekNextChar lx = (if c = CHR 0xFF then None else Some c)"
  by (simp add: peekNextChar_def char_value_def)

abbreviation plain :: "char \<Rightarrow> bool" where
  "plain c \<equiv> c \<noteq> LF \<and> c \<noteq> CRET \<and> c \<noteq> CHR 0xFF"

lemma skip_while_word:
  "lx_rest lx = w @ r \<Longrightarrow> \<forall>c\<in>set w. P c \<and> plain c \<Longrightarrow> (case r of [] \<Rightarrow> True | c # _ \<Rightarrow> \<not> P c) \<Longrightarrow>
   skip_while P lx = advance (length w) r lx"
proof (induction w arbitrary: lx)
  case Nil
  then show ?case
    by (cases r) (auto simp: skip_while.simps [of P lx] peekNextChar_def char_value_def advance_self split: option.split)
next
  case (Cons c w)
  have "skip_while P (advance 1 (w @ r) lx) = advance (length w) r (advance 1 (w @ r) lx)"
    using Cons(3,4) by (intro Cons(1)) auto
  then show ?case using Cons(2,3) by (simp add: skip_while.simps [of P lx] peek_Cons skipChar_advance)
qed

text \<open>A string template: a dollar sign comes with the character it escapes.\<close>

fun template :: "(char \<Rightarrow> bool) \<Rightarrow> string \<Rightarrow> bool" where
  "template P [] = True"
| "template P [c] = (c \<noteq> CHR ''$'' \<and> P c)"
| "template P (c # d # cs) =
     (if c = CHR ''$'' then d \<noteq> LF \<and> d \<noteq> CRET \<and> template P cs else P c \<and> template P (d # cs))"

lemma path_loop_stop:
  "(case lx_rest lx of [] \<Rightarrow> True | c # _ \<Rightarrow> c \<noteq> CHR ''$'' \<and> (isspace c \<or> c = CHR '':'' \<or> c = CHR ''|'')) \<Longrightarrow> path_loop lx = lx"
  by (cases "lx_rest lx") (auto simp: path_loop.simps [of lx] peekNextChar_def char_value_def)

lemma variable_loop_stop:
  "(case lx_rest lx of [] \<Rightarrow> True | c # _ \<Rightarrow> c = LF \<or> c = CRET) \<Longrightarrow> variable_loop lx = lx"
  by (cases "lx_rest lx") (auto simp: variable_loop.simps [of lx] peekNextChar_def char_value_def)

lemma path_loop_template:
  "template P w \<Longrightarrow> lx_rest lx = w @ r \<Longrightarrow>
   (\<And>c. P c \<Longrightarrow> plain c \<and> \<not> isspace c \<and> c \<noteq> CHR '':'' \<and> c \<noteq> CHR ''|'') \<Longrightarrow>
   (case r of [] \<Rightarrow> True | c # _ \<Rightarrow> c \<noteq> CHR ''$'' \<and> (isspace c \<or> c = CHR '':'' \<or> c = CHR ''|'')) \<Longrightarrow>
   path_loop lx = advance (length w) r lx"
proof (induction P w arbitrary: lx rule: template.induct)
  case (1 P)
  then show ?case using path_loop_stop [of lx] by (simp add: advance_self)
next
  case (2 P c)
  have "path_loop (advance 1 r lx) = advance 1 r lx"
    using 2(4) by (intro path_loop_stop) simp
  then show ?case using 2(1,2) 2(3) [of c] by (simp add: path_loop.simps [of lx] peek_Cons skipChar_advance)
next
  case (3 P c d cs)
  show ?case
  proof (cases "c = CHR ''$''")
    case True
    have e: "path_escape lx = advance 2 (cs @ r) lx"
      using 3(3,4) True by (auto simp: path_escape_def skipChar_advance getNextChar_def advance_def char_value_def)
    have "path_loop (advance 2 (cs @ r) lx) = advance (length cs) r (advance 2 (cs @ r) lx)"
      using 3(3,5,6) True by (intro 3(1)) auto
    then show ?thesis using True 3(4) e by (simp add: path_loop.simps [of lx] peek_Cons)
  next
    case False
    have "path_loop (advance 1 (d # cs @ r) lx) = advance (length (d # cs)) r (advance 1 (d # cs @ r) lx)"
      using 3(3,5,6) False by (intro 3(2)) auto
    then show ?thesis using False 3(3,4) 3(5) [of c] by (simp add: path_loop.simps [of lx] peek_Cons skipChar_advance)
  qed
qed

lemma variable_loop_template:
  "template P w \<Longrightarrow> lx_rest lx = w @ r \<Longrightarrow> (\<And>c. P c \<Longrightarrow> plain c) \<Longrightarrow>
   (case r of [] \<Rightarrow> True | c # _ \<Rightarrow> c = LF \<or> c = CRET) \<Longrightarrow>
   variable_loop lx = advance (length w) r lx"
proof (induction P w arbitrary: lx rule: template.induct)
  case (1 P)
  then show ?case using variable_loop_stop [of lx] by (simp add: advance_self)
next
  case (2 P c)
  have "variable_loop (advance 1 r lx) = advance 1 r lx"
    using 2(4) by (intro variable_loop_stop) simp
  then show ?case using 2(1,2) 2(3) [of c] by (simp add: variable_loop.simps [of lx] peek_Cons skipChar_advance)
next
  case (3 P c d cs)
  show ?case
  proof (cases "c = CHR ''$''")
    case True
    have e: "skipChar (skipChar lx) = advance 2 (cs @ r) lx"
      using 3(3,4) True by (simp add: skipChar_advance)
    have "variable_loop (advance 2 (cs @ r) lx) = advance (length cs) r (advance 2 (cs @ r) lx)"
      using 3(3,5,6) True by (intro 3(1)) auto
    then show ?thesis using True 3(4) e by (simp add: variable_loop.simps [of lx] peek_Cons)
  next
    case False
    have "variable_loop (advance 1 (d # cs @ r) lx) = advance (length (d # cs)) r (advance 1 (d # cs @ r) lx)"
      using 3(3,5,6) False by (intro 3(2)) auto
    then show ?thesis using False 3(3,4) 3(5) [of c] by (simp add: variable_loop.simps [of lx] peek_Cons skipChar_advance)
  qed
qed

lemma skip_leading_stop:
  assumes "lx_rest lx = c # r" "\<not> isNonNewlineSpace c" "c = CHR ''$'' \<Longrightarrow> r \<noteq> [] \<and> hd r \<noteq> LF \<and> hd r \<noteq> CRET"
  shows "skip_leading lx = Some lx"
proof (cases "c = CHR ''$''")
  case True
  then obtain d ds where "r = d # ds" "d \<noteq> LF" "d \<noteq> CRET" using assms(3) by (cases r) auto
  then have "newline_escape (lx_rest lx) = Some False" using assms(1) by (auto simp: newline_escape_def)
  then show ?thesis using assms(1,2) True by (simp add: skip_leading.simps [of lx] peek_Cons)
qed (use assms in \<open>simp add: skip_leading.simps [of lx] peek_Cons\<close>)

lemma lex_start:
  assumes "lx_rest lx = c # r" "\<not> isNonNewlineSpace c" "c = CHR ''$'' \<Longrightarrow> r \<noteq> [] \<and> hd r \<noteq> LF \<and> hd r \<noteq> CRET"
  shows "lex lx = Some (lex_token lx)"
  using assms skip_leading_stop [OF assms] by (auto simp: lex_def at_indentation_def peek_Cons)

lemma lex_blank:
  assumes "lx_rest lx = CHR '' '' # r" "lx_column lx \<noteq> 0"
  shows "lex lx = lex (advance 1 r lx)"
proof -
  have "skip_leading lx = skip_leading (advance 1 r lx)"
    using assms by (simp add: skip_leading.simps [of lx] peek_Cons isNonNewlineSpace_def isspace_def skipChar_advance)
  then show ?thesis using assms(2) by (simp add: lex_def at_indentation_def split: option.splits)
qed


text \<open>
  \<open>feeds m z r k w z1 r1\<close>: in mode \<open>m\<close>, at the start of a line iff \<open>z\<close>, the text \<open>r\<close> yields a token of
  kind \<open>k\<close> with text \<open>w\<close> and leaves \<open>r1\<close>, at the start of a line iff \<open>z1\<close>.
\<close>

definition feeds :: "LexingMode \<Rightarrow> bool \<Rightarrow> string \<Rightarrow> TokenKind \<Rightarrow> string \<Rightarrow> bool \<Rightarrow> string \<Rightarrow> bool" where
  "feeds m z r k w z1 r1 \<longleftrightarrow>
     (\<forall>lx. lx_mode lx = m \<longrightarrow> (lx_column lx = 0) = z \<longrightarrow> lx_rest lx = r \<longrightarrow>
       (\<exists>t lx1. lex lx = Some (t, lx1) \<and> tok_kind t = k \<and> tok_text t = w \<and> lx_mode lx1 = m \<and>
          (lx_column lx1 = 0) = z1 \<and> lx_rest lx1 = r1))"

abbreviation path_char :: "char \<Rightarrow> bool" where
  "path_char c \<equiv> plain c \<and> \<not> isspace c \<and> c \<noteq> CHR '':'' \<and> c \<noteq> CHR ''|''"

lemma feeds_blank:
  assumes "feeds m False r k w z1 r1"
  shows "feeds m False (CHR '' '' # r) k w z1 r1"
  unfolding feeds_def
proof (intro allI impI)
  fix lx :: Lexer
  assume "lx_mode lx = m" "(lx_column lx = 0) = False" "lx_rest lx = CHR '' '' # r"
  then show "\<exists>t lx1. lex lx = Some (t, lx1) \<and> tok_kind t = k \<and> tok_text t = w \<and> lx_mode lx1 = m \<and>
      (lx_column lx1 = 0) = z1 \<and> lx_rest lx1 = r1"
    using assms [unfolded feeds_def, rule_format, of "advance 1 r lx"] lex_blank [of lx r] by simp
qed

lemma feedsI:
  assumes "w \<noteq> []"
    and "\<And>lx :: Lexer. lx_mode lx = m \<Longrightarrow> lx_rest lx = w @ r \<Longrightarrow> (lx_column lx = 0) = z \<Longrightarrow>
      lex lx = Some (setTokenKind lx (advance (length w) r lx) k, advance (length w) r lx)"
  shows "feeds m z (w @ r) k w False r"
  unfolding feeds_def using assms by (auto simp: setTokenKind_def)

lemma identifier_plain: "isIdentifierChar c \<Longrightarrow> plain c \<and> \<not> isspace c \<and> c \<notin> set '':=#|$''"
  by (auto simp: isIdentifierChar_def isspace_def)

lemma feeds_identifier:
  assumes "w \<noteq> []" "\<forall>c\<in>set w. isIdentifierChar c" "case r of [] \<Rightarrow> True | c # _ \<Rightarrow> \<not> isIdentifierChar c"
    and m: "m = ModeNone \<or> m = ModeIdentifierSpecific"
  shows "feeds m z (w @ r) (if m = ModeIdentifierSpecific then TIdentifier else identifier_kind w) w False r"
  using assms(1)
proof (rule feedsI)
  fix lx :: Lexer
  assume lx: "lx_mode lx = m" "lx_rest lx = w @ r" "(lx_column lx = 0) = z"
  obtain c v where w: "w = c # v" using assms(1) by (cases w) auto
  have c: "plain c" "\<not> isspace c" "c \<notin> set '':=#|$''" "isIdentifierChar c"
    using identifier_plain [of c] assms(2) w by auto
  have "lex lx = Some (lex_token lx)" using lx(2) w c by (intro lex_start) (auto simp: isNonNewlineSpace_def)
  moreover have "skip_while isIdentifierChar (skipChar lx) = advance (length w) r lx"
    using lx(2) w c assms(2,3) identifier_plain skip_while_word [of "advance 1 (v @ r) lx" v r isIdentifierChar]
    by (simp add: skipChar_advance)
  then have "lex_token lx =
      (if m = ModeIdentifierSpecific then setTokenKind lx (advance (length w) r lx) TIdentifier
       else setIdentifierTokenKind lx (advance (length w) r lx), advance (length w) r lx)"
    using lx w c m by (auto simp: lex_token_def peek_Cons lex_symbol_def Let_def lexIdentifier_def)
  ultimately show "lex lx = Some (setTokenKind lx (advance (length w) r lx) (if m = ModeIdentifierSpecific then TIdentifier else identifier_kind w), advance (length w) r lx)"
    using lx w by (simp add: setIdentifierTokenKind_def)
qed

lemma template_head: "template P (c # v) \<Longrightarrow> P c \<and> c \<noteq> CHR ''$'' \<or> c = CHR ''$'' \<and> v \<noteq> [] \<and> hd v \<noteq> LF \<and> hd v \<noteq> CRET"
  by (cases v) (auto split: if_splits)

lemma feeds_path:
  assumes "w \<noteq> []" "template path_char w" "case r of [] \<Rightarrow> True | c # _ \<Rightarrow> c \<noteq> CHR ''$'' \<and> (isspace c \<or> c = CHR '':'' \<or> c = CHR ''|'')"
  shows "feeds ModePathString z (w @ r) TString w False r"
  using assms(1)
proof (rule feedsI)
  fix lx :: Lexer
  assume lx: "lx_mode lx = ModePathString" "lx_rest lx = w @ r" "(lx_column lx = 0) = z"
  obtain c v where w: "w = c # v" using assms(1) by (cases w) auto
  have h: "path_char c \<and> c \<noteq> CHR ''$'' \<or> c = CHR ''$'' \<and> v \<noteq> [] \<and> hd v \<noteq> LF \<and> hd v \<noteq> CRET"
    using template_head [of path_char c v] assms(2) w by simp
  have "\<not> isspace (CHR ''$'')" by (simp add: isspace_def)
  then have "path_char c" using h by (cases "c = CHR ''$''") simp_all
  then have c: "plain c" "\<not> isspace c" "c \<noteq> CHR '':''" "c \<noteq> CHR ''|''" by simp_all
  have "lex lx = Some (lex_token lx)"
  proof (rule lex_start)
    show "lx_rest lx = c # v @ r" using lx(2) w by simp
    show "\<not> isNonNewlineSpace c" using c by (simp add: isNonNewlineSpace_def)
    show "c = CHR ''$'' \<Longrightarrow> v @ r \<noteq> [] \<and> hd (v @ r) \<noteq> LF \<and> hd (v @ r) \<noteq> CRET" using h by simp
  qed
  moreover have "path_loop lx = advance (length w) r lx"
    using path_loop_template [OF assms(2) lx(2)] assms(3) by simp
  then have "lex_token lx = (setTokenKind lx (advance (length w) r lx) TString, advance (length w) r lx)"
    using lx w c by (auto simp: lex_token_def peek_Cons lexPathString_def Let_def)
  ultimately show "lex lx = Some (setTokenKind lx (advance (length w) r lx) TString, advance (length w) r lx)"
    by simp
qed

lemma feeds_variable:
  assumes "w \<noteq> []" "template plain w" "\<not> isspace (hd w)"
  shows "feeds ModeVariableString z (w @ LF # r) TString w False (LF # r)"
  using assms(1)
proof (rule feedsI)
  fix lx :: Lexer
  assume lx: "lx_mode lx = ModeVariableString" "lx_rest lx = w @ LF # r" "(lx_column lx = 0) = z"
  obtain c v where w: "w = c # v" using assms(1) by (cases w) auto
  have h: "plain c \<and> c \<noteq> CHR ''$'' \<or> c = CHR ''$'' \<and> v \<noteq> [] \<and> hd v \<noteq> LF \<and> hd v \<noteq> CRET"
    using template_head [of plain c v] assms(2) w by simp
  then have c: "plain c" "\<not> isspace c" using assms(3) w by auto
  have "lex lx = Some (lex_token lx)" using lx(2) w h c by (intro lex_start) (auto simp: isNonNewlineSpace_def)
  moreover have "variable_loop lx = advance (length w) (LF # r) lx"
    using variable_loop_template [OF assms(2) lx(2)] by simp
  then have "lex_token lx = (setTokenKind lx (advance (length w) (LF # r) lx) TString, advance (length w) (LF # r) lx)"
    using lx w c by (auto simp: lex_token_def peek_Cons lexVariableString_def Let_def)
  ultimately show "lex lx = Some (setTokenKind lx (advance (length w) (LF # r) lx) TString, advance (length w) (LF # r) lx)"
    by simp
qed


lemma newline_escape_lex: "lx_rest lx = LF # r \<Longrightarrow> lex lx = Some (lex_token lx)"
  by (rule lex_start) (auto simp: isNonNewlineSpace_def)

lemma feeds_newline:
  assumes "case r of [] \<Rightarrow> True | c # _ \<Rightarrow> c \<noteq> CRET"
  shows "feeds m z (LF # r) TNewline [LF] True r"
  unfolding feeds_def
proof (intro allI impI)
  fix lx :: Lexer
  assume lx: "lx_mode lx = m" "(lx_column lx = 0) = z" "lx_rest lx = LF # r"
  have "skipChar lx = lx\<lparr>lx_rest := r, lx_line := Suc (lx_line lx), lx_column := 0\<rparr>"
    using lx(3) assms by (cases r) (auto simp: skipChar_def getNextChar_def)
  then show "\<exists>t lx1. lex lx = Some (t, lx1) \<and> tok_kind t = TNewline \<and> tok_text t = [LF] \<and> lx_mode lx1 = m \<and>
      (lx_column lx1 = 0) = True \<and> lx_rest lx1 = r"
    using lx newline_escape_lex [OF lx(3)] by (simp add: lex_token_def peek_Cons Let_def setTokenKind_def)
qed

lemma feeds_symbolI:
  assumes "c \<in> set '':=|''"
    and "\<And>lx :: Lexer. lx_mode lx = m \<Longrightarrow> lx_rest lx = c # v @ r \<Longrightarrow>
      lex_token lx = (setTokenKind lx (advance (Suc (length v)) r lx) k, advance (Suc (length v)) r lx)"
  shows "feeds m z ((c # v) @ r) k (c # v) False r"
proof (rule feedsI)
  fix lx :: Lexer
  assume lx: "lx_mode lx = m" "lx_rest lx = (c # v) @ r"
  have "lex lx = Some (lex_token lx)"
    using lx(2) assms(1) by (intro lex_start [of lx c "v @ r"]) (auto simp: isNonNewlineSpace_def isspace_def)
  then show "lex lx = Some (setTokenKind lx (advance (length (c # v)) r lx) k, advance (length (c # v)) r lx)"
    using assms(2) lx by simp
qed simp

lemmas symbol_simps = lex_token_def peek_Cons lex_symbol_def Let_def skipChar_advance

lemma feeds_colon: "m \<noteq> ModeVariableString \<Longrightarrow> feeds m z (CHR '':'' # r) TColon '':'' False r"
  using feeds_symbolI [of "CHR '':''" m "[]" r TColon z] by (simp add: symbol_simps)

lemma feeds_equals: "m = ModeNone \<or> m = ModeIdentifierSpecific \<Longrightarrow> feeds m z (CHR ''='' # r) TEquals ''='' False r"
  using feeds_symbolI [of "CHR ''=''" m "[]" r TEquals z] by (auto simp: symbol_simps)

lemma feeds_pipe:
  assumes "m \<noteq> ModeVariableString" "case r of [] \<Rightarrow> True | c # _ \<Rightarrow> c \<noteq> CHR ''|''"
  shows "feeds m z (CHR ''|'' # r) TPipe ''|'' False r"
proof -
  have "peekNextChar (advance 1 r lx) \<noteq> Some (CHR ''|'')" for lx :: Lexer
    using assms(2) by (auto simp: peekNextChar_def char_value_def split: list.splits)
  then show ?thesis using feeds_symbolI [of "CHR ''|''" m "[]" r TPipe z] assms(1) by (simp add: symbol_simps)
qed

lemma feeds_pipepipe: "m \<noteq> ModeVariableString \<Longrightarrow> feeds m z (CHR ''|'' # CHR ''|'' # r) TPipePipe ''||'' False r"
  using feeds_symbolI [of "CHR ''|''" m "''|''" r TPipePipe z] by (simp add: symbol_simps)

lemma feeds_indentation:
  assumes "case r of [] \<Rightarrow> True | c # _ \<Rightarrow> \<not> isNonNewlineSpace c"
  shows "feeds m True (''  '' @ r) TIndentation ''  '' False r"
proof (rule feedsI)
  fix lx :: Lexer
  assume lx: "lx_rest lx = ''  '' @ r" "(lx_column lx = 0) = True"
  have b: "isNonNewlineSpace (CHR '' '')" by (simp add: isNonNewlineSpace_def isspace_def)
  have "skip_while isNonNewlineSpace (skipChar lx) = advance 2 r lx"
    using skip_while_word [of "advance 1 ('' '' @ r) lx" "'' ''" r isNonNewlineSpace] assms b lx(1) by (simp add: skipChar_advance)
  then show "lex lx = Some (setTokenKind lx (advance (length ''  '') r lx) TIndentation, advance (length ''  '') r lx)"
    using lx b by (simp add: lex_def at_indentation_def peek_Cons Let_def numeral_2_eq_2)
qed simp

lemma feeds_end: "feeds m z [] TEndOfFile [] z []"
  by (auto simp: feeds_def lex_def at_indentation_def peekNextChar_def skip_leading.simps lex_token_def setTokenKind_def)


section \<open>What the parser does on printed text\<close>

text \<open>
  \<open>looks p k w z r cs\<close>: the parser looks at a token of kind \<open>k\<close> with text \<open>w\<close>, \<open>r\<close> is left, at the start of
  a line iff \<open>z\<close>, and the calls so far, with the texts of their tokens, are \<open>cs\<close>.  \<open>opens m z r cs p\<close>: \<open>p\<close>
  has just read the first token of \<open>r\<close> in mode \<open>m\<close>.
\<close>

abbreviation texts :: "Parser \<Rightarrow> string ParseAction list" where
  "texts p \<equiv> map (map_ParseAction tok_text) (ps_calls p)"

definition looks :: "Parser \<Rightarrow> TokenKind \<Rightarrow> string \<Rightarrow> bool \<Rightarrow> string \<Rightarrow> string ParseAction list \<Rightarrow> bool" where
  "looks p k w z r cs \<longleftrightarrow>
     ps_kind p = k \<and> tok_text (ps_tok p) = w \<and> (lx_column (ps_lexer p) = 0) = z \<and> lx_rest (ps_lexer p) = r \<and> texts p = cs"

definition opens :: "LexingMode \<Rightarrow> bool \<Rightarrow> string \<Rightarrow> string ParseAction list \<Rightarrow> Parser \<Rightarrow> bool" where
  "opens m z r cs p \<longleftrightarrow>
     (\<exists>q. ps_mode q = m \<and> (lx_column (ps_lexer q) = 0) = z \<and> lx_rest (ps_lexer q) = r \<and> texts q = cs \<and>
        getNextNonCommentToken q = Some p)"

definition fine :: "string \<Rightarrow> bool" where
  "fine r \<longleftrightarrow> \<not> suffix ''$'' r"

lemma fine_last: "fine r \<longleftrightarrow> (r \<noteq> [] \<longrightarrow> last r \<noteq> CHR ''$'')"
  by (cases r rule: rev_cases) (auto simp: fine_def)

lemma fine_append [simp]: "fine (xs @ y # ys) = fine (y # ys)"
  by (simp add: fine_last)

lemma fine_Cons: "c \<noteq> CHR ''$'' \<Longrightarrow> fine (c # r) = fine r"
  by (simp add: fine_last)

lemma opens_looks:
  assumes "opens m z r cs p" "feeds m z r k w z1 r1" "k \<noteq> TComment"
  shows "looks p k w z1 r1 cs \<and> ps_mode p = m"
proof -
  from assms(1) obtain q where q: "ps_mode q = m" "(lx_column (ps_lexer q) = 0) = z" "lx_rest (ps_lexer q) = r" "texts q = cs"
    "getNextNonCommentToken q = Some p" by (auto simp: opens_def)
  with assms(2) obtain t lx1 where l: "lex (ps_lexer q) = Some (t, lx1)" "tok_kind t = k" "tok_text t = w" "lx_mode lx1 = m"
    "(lx_column lx1 = 0) = z1" "lx_rest lx1 = r1" by (auto simp: feeds_def)
  then have "p = q\<lparr>ps_lexer := lx1, ps_tok := t\<rparr>"
    using q(5) assms(3) by (simp add: getNextNonCommentToken.simps [of q] lex_into_def)
  then show ?thesis using l q(4) by (simp add: looks_def)
qed

lemma looks_setParserMode [simp]: "looks (setParserMode m p) k w z r cs = looks p k w z r cs"
  by (simp add: looks_def setParserMode_def setMode_def)

lemma looks_kind: "looks p k w z r cs \<Longrightarrow> ps_kind p = k"
  by (simp add: looks_def)

lemma getNext_call: "getNextNonCommentToken q = Some p \<Longrightarrow> getNextNonCommentToken (call a q) = Some (call a p)"
proof (induction q rule: getNextNonCommentToken.induct)
  case (1 q)
  then obtain q1 where q1: "lex_into q = Some q1" "(if ps_kind q1 = TComment then getNextNonCommentToken q1 else Some q1) = Some p"
    by (auto simp: getNextNonCommentToken.simps [of q])
  then have "lex_into (call a q) = Some (call a q1)" by (auto simp: lex_into_def call_def)
  then show ?case using q1 1(1) [OF q1(1)] by (simp add: getNextNonCommentToken.simps [of "call a q"] split: if_splits)
qed

lemma texts_call [simp]: "texts (call a p) = texts p @ [map_ParseAction tok_text a]"
  by (simp add: call_def)

lemma opens_call:
  assumes "opens m z r cs p"
  shows "opens m z r (cs @ [map_ParseAction tok_text a]) (call a p)"
proof -
  from assms obtain q where "ps_mode q = m" "(lx_column (ps_lexer q) = 0) = z" "lx_rest (ps_lexer q) = r" "texts q = cs"
    "getNextNonCommentToken q = Some p" by (auto simp: opens_def)
  then show ?thesis
    unfolding opens_def by (intro exI [of _ "call a q"]) (auto intro: getNext_call)
qed

lemma next_ok:
  assumes "looks p k w z r cs" "ps_mode p = m" "fine r"
  shows "\<exists>p1. getNextNonCommentToken p = Some p1 \<and> opens m z r cs p1"
proof -
  have "near True p p" using assms(1,3) by (intro near_refl) (simp add: safe_def looks_def fine_def)
  then have "wp True (getNextNonCommentToken p) (\<lambda>p1. True)" by (rule wp_getNext) simp
  then obtain p1 where "getNextNonCommentToken p = Some p1" by (auto dest: wp_total)
  then show ?thesis using assms(1,2) by (auto simp: opens_def looks_def)
qed

lemma expect_ok:
  "looks p k w z r cs \<Longrightarrow> ps_mode p = m \<Longrightarrow> fine r \<Longrightarrow>
   \<exists>t p1. consumeExpectedToken k p = Some (t, p1) \<and> tok_text t = w \<and> opens m z r cs p1"
  using next_ok [of p k w z r cs m] by (auto simp: consumeExpectedToken_def looks_def)

lemma expect_mode_ok:
  "looks p k w z r cs \<Longrightarrow> fine r \<Longrightarrow>
   \<exists>t p1. consumeExpectedToken k (setParserMode m p) = Some (t, p1) \<and> tok_text t = w \<and> opens m z r cs p1"
  by (rule expect_ok) simp_all

lemma yes_ok:
  "looks p k w z r cs \<Longrightarrow> ps_mode p = m \<Longrightarrow> fine r \<Longrightarrow> \<exists>p1. consumeIfToken k p = Some (True, p1) \<and> opens m z r cs p1"
  using next_ok [of p k w z r cs m] by (auto simp: consumeIfToken_def looks_def)

lemma no_ok: "ps_kind p \<noteq> k \<Longrightarrow> consumeIfToken k p = Some (False, p)"
  by (simp add: consumeIfToken_def)

text \<open>A list of paths, each with a blank before it.\<close>

definition spaced :: "string list \<Rightarrow> string" where
  "spaced ws = concat (map (\<lambda>w. CHR '' '' # w) ws)"

lemma spaced_simps [simp]: "spaced [] = []" "spaced (w # ws) = CHR '' '' # w @ spaced ws"
  by (simp_all add: spaced_def)

definition path_ok :: "string \<Rightarrow> bool" where
  "path_ok w \<longleftrightarrow> w \<noteq> [] \<and> template path_char w"

definition path_stop :: "string \<Rightarrow> bool" where
  "path_stop r \<longleftrightarrow> (case r of [] \<Rightarrow> True | c # _ \<Rightarrow> c \<noteq> CHR ''$'' \<and> (isspace c \<or> c = CHR '':'' \<or> c = CHR ''|''))"

lemma path_stop_simps [simp]:
  "path_stop (CHR '' '' # r)" "path_stop (LF # r)" "path_stop (CHR '':'' # r)" "path_stop (CHR ''|'' # r)"
  by (simp_all add: path_stop_def isspace_def)

lemma path_stop_spaced: "path_stop r \<Longrightarrow> path_stop (spaced ws @ r)"
  by (cases ws) simp_all

lemma feeds_spaced: "path_ok w \<Longrightarrow> path_stop r \<Longrightarrow> feeds ModePathString False (CHR '' '' # w @ spaced ws @ r) TString w False (spaced ws @ r)"
  using path_stop_spaced [of r ws] by (intro feeds_blank feeds_path) (simp_all add: path_ok_def path_stop_def)

lemma fine_spaced: "list_all path_ok ws \<Longrightarrow> r \<noteq> [] \<Longrightarrow> fine r \<Longrightarrow> fine (spaced ws @ r)"
  by (cases r) simp_all

lemma strings_ok:
  assumes "opens ModePathString False (spaced ws @ r) cs p" "list_all path_ok ws" "path_stop r" "r \<noteq> []" "fine r"
    and stop: "\<And>p. opens ModePathString False r cs p \<Longrightarrow> ps_kind p \<noteq> TString"
  shows "\<exists>us p1. parse_strings ts p = Some (ts @ us, p1) \<and> map tok_text us = ws \<and> opens ModePathString False r cs p1"
  using assms(1,2)
proof (induction ws arbitrary: ts p)
  case Nil
  then show ?case using stop by (simp add: parse_strings.simps [of ts p])
next
  case (Cons w ws)
  have l: "looks p TString w False (spaced ws @ r) cs" "ps_mode p = ModePathString"
    using Cons(2,3) assms(3) feeds_spaced [of w r ws] opens_looks [OF Cons(2)] by auto
  have "fine (spaced ws @ r)" using assms(4,5) Cons(3) by (intro fine_spaced) auto
  with expect_ok [OF l] obtain t p1 where t: "consumeExpectedToken TString p = Some (t, p1)" "tok_text t = w"
    "opens ModePathString False (spaced ws @ r) cs p1" by blast
  with Cons(1) [OF t(3), of "ts @ [t]"] Cons(3) obtain us p2 where "parse_strings (ts @ [t]) p1 = Some ((ts @ [t]) @ us, p2)"
    "map tok_text us = ws" "opens ModePathString False r cs p2" by auto
  then show ?case using t looks_kind [OF l(1)] by (intro exI [of _ "t # us"]) (simp add: parse_strings.simps [of ts p])
qed

text \<open>Bindings.\<close>

definition ident_ok :: "string \<Rightarrow> bool" where
  "ident_ok n \<longleftrightarrow> n \<noteq> [] \<and> list_all isIdentifierChar n"

definition value_ok :: "string \<Rightarrow> bool" where
  "value_ok v \<longleftrightarrow> template plain v \<and> (v = [] \<or> \<not> isspace (hd v))"

definition cont :: "string \<Rightarrow> bool" where
  "cont r \<longleftrightarrow> (case r of [] \<Rightarrow> True | c # _ \<Rightarrow> c \<noteq> CRET)"

definition print_binding :: "string \<times> string \<Rightarrow> string" where
  "print_binding b = fst b @ '' = '' @ snd b @ [LF]"

lemma opens_newline: "opens m z (LF # r) cs p \<Longrightarrow> cont r \<Longrightarrow> looks p TNewline [LF] True r cs \<and> ps_mode p = m"
  by (rule opens_looks [OF _ feeds_newline]) (simp_all add: cont_def)


lemma binding_ok:
  assumes l: "looks p TIdentifier n False ('' = '' @ v @ LF # r) cs" and m: "ps_mode p = ModeNone \<or> ps_mode p = ModeIdentifierSpecific"
    and v: "value_ok v" and r: "cont r" "fine r"
  shows "\<exists>t u p1. parseBindingInternal p = Some (Some (t, u), p1) \<and> tok_text t = n \<and> tok_text u = v \<and> opens ModeNone True r cs p1"
proof -
  have f: "fine (LF # r)" "fine ('' = '' @ v @ LF # r)" "fine (CHR '' '' # v @ LF # r)"
    using r(2) by (simp_all add: fine_last)
  from expect_ok [OF l refl f(2)] obtain t p1 where t: "consumeExpectedToken TIdentifier p = Some (t, p1)" "tok_text t = n"
    "opens (ps_mode p) False ('' = '' @ v @ LF # r) cs p1" by blast
  have l1: "looks p1 TEquals ''='' False (CHR '' '' # v @ LF # r) cs \<and> ps_mode p1 = ps_mode p"
    using m by (intro opens_looks [OF t(3)]) (auto intro!: feeds_blank feeds_equals)
  then have "looks (setParserMode ModeVariableString p1) TEquals ''='' False (CHR '' '' # v @ LF # r) cs" by simp
  from expect_ok [OF this _ f(3)] obtain e p2 where e: "consumeExpectedToken TEquals (setParserMode ModeVariableString p1) = Some (e, p2)"
    "opens ModeVariableString False (CHR '' '' # v @ LF # r) cs p2" by auto
  show ?thesis
  proof (cases "v = []")
    case True
    have l2: "looks (setParserMode ModeNone p2) TNewline [LF] True r cs"
      using opens_looks [OF e(2), of TNewline "[LF]" True r] True feeds_blank [OF feeds_newline] r(1) by (simp add: cont_def)
    from expect_ok [OF this _ r(2), of ModeNone] obtain u p3 where
      "consumeExpectedToken TNewline (setParserMode ModeNone p2) = Some (u, p3)" "opens ModeNone True r cs p3" by auto
    then show ?thesis
      using t e looks_kind [OF l] looks_kind [OF conjunct1 [OF l1]] looks_kind [OF l2] True by (simp add: parseBindingInternal_def Let_def)
  next
    case False
    have l2: "looks (setParserMode ModeNone p2) TString v False (LF # r) cs"
      using opens_looks [OF e(2) feeds_blank [OF feeds_variable]] False v by (simp add: value_ok_def)
    from expect_ok [OF this _ f(1), of ModeNone] obtain u p3 where u: "consumeExpectedToken TString (setParserMode ModeNone p2) = Some (u, p3)"
      "tok_text u = v" "opens ModeNone False (LF # r) cs p3" by auto
    from opens_newline [OF u(3) r(1)] yes_ok [OF _ _ r(2)] obtain p4 where "consumeIfToken TNewline p3 = Some (True, p4)"
      "opens ModeNone True r cs p4" by blast
    then show ?thesis
      using t e u looks_kind [OF l] looks_kind [OF conjunct1 [OF l1]] looks_kind [OF l2] by (simp add: parseBindingInternal_def Let_def)
  qed
qed

definition print_bindings :: "(string \<times> string) list \<Rightarrow> string" where
  "print_bindings bs = concat (map (\<lambda>b. ''  '' @ print_binding b) bs)"

definition starts :: "string \<Rightarrow> bool" where
  "starts r \<longleftrightarrow> (case r of [] \<Rightarrow> True | c # _ \<Rightarrow> isIdentifierChar c)"

lemma starts_cont: "starts r \<Longrightarrow> cont r"
  by (auto simp: starts_def cont_def isIdentifierChar_def split: list.splits)

lemma cont_bindings: "starts r \<Longrightarrow> cont (print_bindings bs @ r)"
  by (cases bs) (auto simp: print_bindings_def cont_def starts_cont [unfolded cont_def])

lemma fine_bindings: "fine r \<Longrightarrow> fine (print_bindings bs @ r)"
  by (induction bs) (auto simp: print_bindings_def print_binding_def fine_last)

lemma starts_kind:
  assumes "opens ModeNone True r cs p" "starts r"
  shows "ps_kind p \<noteq> TIndentation \<and> (r \<noteq> [] \<longrightarrow> ps_kind p \<noteq> TEndOfFile) \<and> (r = [] \<longrightarrow> ps_kind p = TEndOfFile)"
proof (cases r)
  case Nil
  then show ?thesis using opens_looks [OF assms(1), of TEndOfFile "[]" True "[]"] feeds_end by (auto simp: looks_def)
next
  case (Cons c cs')
  let ?w = "takeWhile isIdentifierChar r" and ?s = "dropWhile isIdentifierChar r"
  have "feeds ModeNone True (?w @ ?s) (identifier_kind ?w) ?w False ?s"
  proof -
    have "?w \<noteq> []" using assms(2) Cons by (simp add: starts_def)
    moreover have "\<forall>c\<in>set ?w. isIdentifierChar c" by (auto dest: set_takeWhileD)
    moreover have "case ?s of [] \<Rightarrow> True | c # _ \<Rightarrow> \<not> isIdentifierChar c"
      by (auto simp: dropWhile_eq_Cons_conv split: list.splits)
    ultimately show ?thesis using feeds_identifier [of ?w ?s ModeNone True] by simp
  qed
  moreover have "identifier_kind ?w \<noteq> TComment" by (simp add: identifier_kind_def)
  ultimately have "ps_kind p = identifier_kind ?w"
    using opens_looks [OF assms(1)] looks_kind by (metis takeWhile_dropWhile_id)
  then show ?thesis using Cons by (auto simp: identifier_kind_def)
qed

lemma map_binding_call: "map_ParseAction f (binding_call k n v) = binding_call k (f n) (f v)"
  by (simp add: binding_call_def)

lemma map_end_call: "map_ParseAction f (end_call k t) = end_call k (f t)"
  by (simp add: end_call_def)

lemma feeds_name:
  "ident_ok n \<Longrightarrow> feeds ModeIdentifierSpecific z (n @ CHR '' '' # r) TIdentifier n False (CHR '' '' # r)"
  using feeds_identifier [of n "CHR '' '' # r" ModeIdentifierSpecific z]
  by (auto simp: ident_ok_def list_all_iff isIdentifierChar_def)

lemma bindings_ok:
  assumes "opens ModeNone True (print_bindings bs @ r) cs p" "\<forall>(n, v)\<in>set bs. ident_ok n \<and> value_ok v" "starts r" "fine r"
  shows "\<exists>p1. parse_bindings kind p = Some p1 \<and> opens ModeNone True r (cs @ map (\<lambda>(n, v). binding_call kind n v) bs) p1"
  using assms(1,2)
proof (induction bs arbitrary: cs p)
  case Nil
  then show ?case using starts_kind [OF _ assms(3)] by (auto simp: parse_bindings.simps [of kind p] print_bindings_def)
next
  case (Cons b bs)
  obtain n v where b: "b = (n, v)" by force
  let ?rest = "print_bindings bs @ r"
  have ok: "ident_ok n" "value_ok v" using Cons(3) b by auto
  have r: "cont ?rest" "fine ?rest" using assms(3,4) by (simp_all add: cont_bindings fine_bindings)
  have o: "opens ModeNone True (''  '' @ n @ '' = '' @ v @ LF # ?rest) cs p"
    using Cons(2) b by (simp add: print_bindings_def print_binding_def)
  have l: "looks p TIndentation ''  '' False (n @ '' = '' @ v @ LF # ?rest) cs"
    using opens_looks [OF o feeds_indentation] ok(1) by (cases n) (auto simp: ident_ok_def isNonNewlineSpace_def dest: identifier_plain)
  have "fine (n @ '' = '' @ v @ LF # ?rest)" using r(2) by (simp add: fine_last)
  from expect_mode_ok [OF l this] obtain t p1 where
    p1: "consumeExpectedToken TIndentation (setParserMode ModeIdentifierSpecific p) = Some (t, p1)"
    "opens ModeIdentifierSpecific False (n @ '' = '' @ v @ LF # ?rest) cs p1" by blast
  have l1: "looks p1 TIdentifier n False ('' = '' @ v @ LF # ?rest) cs" "ps_mode p1 = ModeIdentifierSpecific"
    using opens_looks [OF p1(2), of TIdentifier n False "'' = '' @ v @ LF # ?rest"] feeds_name [OF ok(1), of False] by simp_all
  from binding_ok [OF l1(1) _ ok(2) r] l1(2) obtain u w p2 where p2: "parseBindingInternal p1 = Some (Some (u, w), p2)"
    "tok_text u = n" "tok_text w = v" "opens ModeNone True ?rest cs p2" by blast
  have "opens ModeNone True ?rest (cs @ [binding_call kind n v]) (call (binding_call kind u w) p2)"
    using opens_call [OF p2(4), of "binding_call kind u w"] p2(2,3) by (simp add: map_binding_call)
  from Cons(1) [OF this] Cons(3) b obtain p3 where "parse_bindings kind (call (binding_call kind u w) p2) = Some p3"
    "opens ModeNone True r (cs @ binding_call kind n v # map (\<lambda>(n, v). binding_call kind n v) bs) p3" by auto
  then show ?case using p1(1) p2(1) looks_kind [OF l] looks_kind [OF l1(1)] b by (simp add: parse_bindings.simps [of kind p])
qed

section \<open>Declarations\<close>

datatype ninja_decl =
    DBinding string string
  | DDefault "string list"
  | DInclude bool string
  | DBuild "string list" string "string list" "string list" "string list" "(string \<times> string) list"
  | DPool string "(string \<times> string) list"
  | DRule string "(string \<times> string) list"

fun print_decl :: "ninja_decl \<Rightarrow> string" where
  "print_decl (DBinding n v) = print_binding (n, v)"
| "print_decl (DDefault ws) = ''default'' @ spaced ws @ [LF]"
| "print_decl (DInclude b w) = (if b then ''include'' else ''subninja'') @ spaced [w] @ [LF]"
| "print_decl (DBuild outs rl es is os bs) =
     ''build'' @ spaced outs @ '': '' @ rl @ spaced es @ (if is = [] then [] else '' |'' @ spaced is) @
     (if os = [] then [] else '' ||'' @ spaced os) @ LF # print_bindings bs"
| "print_decl (DPool n bs) = ''pool '' @ n @ LF # print_bindings bs"
| "print_decl (DRule n bs) = ''rule '' @ n @ LF # print_bindings bs"

fun decl_calls :: "ninja_decl \<Rightarrow> string ParseAction list" where
  "decl_calls (DBinding n v) = [OnBindingDecl n v]"
| "decl_calls (DDefault ws) = [OnDefaultDecl ws]"
| "decl_calls (DInclude b w) = [OnIncludeDecl b w]"
| "decl_calls (DBuild outs rl es is os bs) =
     OnBeginBuildDecl rl outs (es @ is @ os) (length es) (length is) #
     map (\<lambda>(n, v). OnBuildBindingDecl n v) bs @ [OnEndBuildDecl ''build'']"
| "decl_calls (DPool n bs) = OnBeginPoolDecl n # map (\<lambda>(n, v). OnPoolBindingDecl n v) bs @ [OnEndPoolDecl ''pool'']"
| "decl_calls (DRule n bs) = OnBeginRuleDecl n # map (\<lambda>(n, v). OnRuleBindingDecl n v) bs @ [OnEndRuleDecl ''rule'']"

definition bindings_wf :: "(string \<times> string) list \<Rightarrow> bool" where
  "bindings_wf bs = list_all (\<lambda>(n, v). ident_ok n \<and> value_ok v) bs"

fun decl_ok :: "ninja_decl \<Rightarrow> bool" where
  "decl_ok (DBinding n v) = (ident_ok n \<and> identifier_kind n = TIdentifier \<and> value_ok v)"
| "decl_ok (DDefault ws) = (ws \<noteq> [] \<and> list_all path_ok ws)"
| "decl_ok (DInclude b w) = path_ok w"
| "decl_ok (DBuild outs rl es is os bs) =
     (outs \<noteq> [] \<and> list_all path_ok (outs @ es @ is @ os) \<and> ident_ok rl \<and> bindings_wf bs)"
| "decl_ok (DPool n bs) = (ident_ok n \<and> bindings_wf bs)"
| "decl_ok (DRule n bs) = (ident_ok n \<and> bindings_wf bs)"

lemma ident_chars [simp]: "\<not> isIdentifierChar (CHR '' '')" "\<not> isIdentifierChar LF" "\<not> isIdentifierChar (CHR '':'')"
  by (simp_all add: isIdentifierChar_def)

lemma opens_word:
  assumes "opens ModeNone True (w @ c # r) cs p" "ident_ok w" "\<not> isIdentifierChar c"
  shows "looks p (identifier_kind w) w False (c # r) cs \<and> ps_mode p = ModeNone"
proof -
  have "feeds ModeNone True (w @ c # r) (identifier_kind w) w False (c # r)"
    using feeds_identifier [of w "c # r" ModeNone True] assms(2,3) by (simp add: ident_ok_def list_all_iff)
  moreover have "identifier_kind w \<noteq> TComment" by (simp add: identifier_kind_def)
  ultimately show ?thesis using opens_looks [OF assms(1)] by blast
qed

lemma opens_name:
  assumes "opens ModeIdentifierSpecific False (CHR '' '' # w @ c # r) cs p" "ident_ok w" "\<not> isIdentifierChar c"
  shows "looks p TIdentifier w False (c # r) cs \<and> ps_mode p = ModeIdentifierSpecific"
  using opens_looks [OF assms(1), of TIdentifier w False "c # r"]
    feeds_blank [OF feeds_identifier [of w "c # r" ModeIdentifierSpecific False]] assms(2,3)
  by (simp add: ident_ok_def list_all_iff)

lemma binding_decl_ok:
  assumes "opens ModeNone True (print_decl (DBinding n v) @ r) cs p" "decl_ok (DBinding n v)" "cont r" "fine r"
  shows "\<exists>p1. parseDecl p = Some p1 \<and> opens ModeNone True r (cs @ decl_calls (DBinding n v)) p1"
proof -
  have l: "looks p TIdentifier n False ('' = '' @ v @ LF # r) cs" "ps_mode p = ModeNone"
    using opens_word [of n "CHR '' ''" "CHR ''='' # CHR '' '' # v @ LF # r"] assms(1,2) by (simp_all add: print_binding_def)
  from binding_ok [OF l(1) _ _ assms(3,4)] l(2) assms(2) obtain t u p1 where "parseBindingInternal p = Some (Some (t, u), p1)"
    "tok_text t = n" "tok_text u = v" "opens ModeNone True r cs p1" by auto
  then show ?thesis using looks_kind [OF l(1)] opens_call [of ModeNone True r cs p1 "OnBindingDecl t u"]
    by (simp add: parseDecl_def parseBindingDecl_def)
qed

lemma newline_stop: "opens ModePathString False (LF # r) cs p \<Longrightarrow> cont r \<Longrightarrow> ps_kind p \<noteq> TString"
  using opens_newline looks_kind by fastforce

lemma newline_ok:
  assumes "opens m z (LF # r) cs p" "cont r" "fine r"
  shows "\<exists>p1. consumeIfToken TNewline (setParserMode ModeNone p) = Some (True, p1) \<and> opens ModeNone True r cs p1"
  using opens_newline [OF assms(1,2)] assms(3) by (intro yes_ok [where w = "[LF]"]) simp_all

lemma default_decl_ok:
  assumes o: "opens ModeNone True (print_decl (DDefault ws) @ r) cs p" and ok: "decl_ok (DDefault ws)" and r: "cont r" "fine r"
  shows "\<exists>p1. parseDecl p = Some p1 \<and> opens ModeNone True r (cs @ decl_calls (DDefault ws)) p1"
proof -
  obtain v vs where ws: "ws = v # vs" using ok by (cases ws) auto
  have f: "fine (spaced ws @ LF # r)" using r(2) by (simp add: fine_last)
  have l: "looks p TKWDefault ''default'' False (spaced ws @ LF # r) cs"
    using opens_word [of "''default''" "CHR '' ''" "v @ spaced vs @ LF # r" cs p] o ws
    by (simp add: ident_ok_def isIdentifierChar_def identifier_kind_def)
  from expect_mode_ok [OF l f] obtain t p1 where p1: "consumeExpectedToken TKWDefault (setParserMode ModePathString p) = Some (t, p1)"
    "opens ModePathString False (spaced ws @ LF # r) cs p1" by blast
  from strings_ok [OF p1(2), of "[]"] ok r newline_stop obtain us p2 where p2: "parse_strings [] p1 = Some (us, p2)" "map tok_text us = ws"
    "opens ModePathString False (LF # r) cs p2" by (auto simp: fine_Cons)
  from newline_ok [OF p2(3) r] obtain p3 where "consumeIfToken TNewline (setParserMode ModeNone p2) = Some (True, p3)"
    "opens ModeNone True r cs p3" by blast
  then show ?thesis using looks_kind [OF l] p1(1) p2 ws opens_call [of ModeNone True r cs p3 "OnDefaultDecl us"]
    by (auto simp: parseDecl_def parseDefaultDecl_def Let_def)
qed

lemma include_decl_ok:
  assumes o: "opens ModeNone True (print_decl (DInclude b w) @ r) cs p" and ok: "decl_ok (DInclude b w)" and r: "cont r" "fine r"
  shows "\<exists>p1. parseDecl p = Some p1 \<and> opens ModeNone True r (cs @ decl_calls (DInclude b w)) p1"
proof -
  let ?k = "if b then TKWInclude else TKWSubninja"
  have f: "fine (spaced [w] @ LF # r)" "fine (LF # r)" using r(2) by (simp_all add: fine_last)
  have l: "looks p ?k (if b then ''include'' else ''subninja'') False (spaced [w] @ LF # r) cs"
    using opens_word [of "if b then ''include'' else ''subninja''" "CHR '' ''" "w @ LF # r" cs p] o
    by (simp add: ident_ok_def isIdentifierChar_def identifier_kind_def split: if_splits)
  from expect_mode_ok [OF l f(1)] obtain t p1 where p1: "consumeExpectedToken ?k (setParserMode ModePathString p) = Some (t, p1)"
    "opens ModePathString False (spaced [w] @ LF # r) cs p1" by blast
  have l1: "looks p1 TString w False (LF # r) cs"
    using opens_looks [OF p1(2)] feeds_spaced [of w "LF # r" "[]"] ok by simp
  from expect_mode_ok [OF l1 f(2), of ModeNone] obtain u p2 where p2: "consumeExpectedToken TString (setParserMode ModeNone p1) = Some (u, p2)"
    "tok_text u = w" "opens ModeNone False (LF # r) cs p2" by blast
  from yes_ok [of p2 TNewline "[LF]" True r cs ModeNone] opens_newline [OF p2(3) r(1)] r(2) obtain p3 where
    "consumeIfToken TNewline p2 = Some (True, p3)" "opens ModeNone True r cs p3" by auto
  then show ?thesis using looks_kind [OF l] looks_kind [OF l1] p1(1) p2 opens_call [of ModeNone True r cs p3 "OnIncludeDecl b u"]
    by (cases b) (simp_all add: parseDecl_def parseIncludeDecl_def Let_def)
qed


text \<open>The part that the three declarations with bindings share.\<close>

lemma parameterized_ok:
  assumes k: "parameterized (ps_kind p)" and spec: "parse_specifier (ps_kind p) p = Some (True, call a p1)"
    and o: "opens ModeNone True (print_bindings bs @ r) cs p1" and bs: "bindings_wf bs" and r: "starts r" "fine r"
  shows "\<exists>p2. parseDecl p = Some p2 \<and>
    opens ModeNone True r (cs @ map_ParseAction tok_text a # map (\<lambda>(n, v). binding_call (ps_kind p) n v) bs @
      [end_call (ps_kind p) (tok_text (ps_tok p))]) p2"
proof -
  from bindings_ok [OF opens_call [OF o, of a] _ r, of "ps_kind p"] bs obtain p2 where
    p2: "parse_bindings (ps_kind p) (call a p1) = Some p2"
    "opens ModeNone True r (cs @ map_ParseAction tok_text a # map (\<lambda>(n, v). binding_call (ps_kind p) n v) bs) p2"
    by (auto simp: bindings_wf_def list_all_iff)
  then show ?thesis using k spec opens_call [OF p2(2), of "end_call (ps_kind p) (ps_tok p)"]
    by (auto simp: parseDecl_def parseParameterizedDecl_def map_end_call)
qed

lemma pool_decl_ok:
  assumes o: "opens ModeNone True (print_decl (DPool n bs) @ r) cs p" and ok: "decl_ok (DPool n bs)" and r: "starts r" "fine r"
  shows "\<exists>p1. parseDecl p = Some p1 \<and> opens ModeNone True r (cs @ decl_calls (DPool n bs)) p1"
proof -
  let ?rest = "print_bindings bs @ r"
  have r1: "cont ?rest" "fine ?rest" using r by (simp_all add: cont_bindings fine_bindings)
  have f: "fine (CHR '' '' # n @ LF # ?rest)" "fine (LF # ?rest)" using r1(2) by (simp_all add: fine_last)
  have l: "looks p TKWPool ''pool'' False (CHR '' '' # n @ LF # ?rest) cs"
    using opens_word [of "''pool''" "CHR '' ''" "n @ LF # ?rest" cs p] o
    by (simp add: ident_ok_def isIdentifierChar_def identifier_kind_def)
  from expect_mode_ok [OF l f(1)] obtain t p1 where p1: "consumeExpectedToken TKWPool (setParserMode ModeIdentifierSpecific p) = Some (t, p1)"
    "opens ModeIdentifierSpecific False (CHR '' '' # n @ LF # ?rest) cs p1" by blast
  have l1: "looks p1 TIdentifier n False (LF # ?rest) cs" using opens_name [OF p1(2)] ok by simp
  from expect_mode_ok [OF l1 f(2), of ModeNone] obtain u p2 where p2: "consumeExpectedToken TIdentifier (setParserMode ModeNone p1) = Some (u, p2)"
    "tok_text u = n" "opens ModeNone False (LF # ?rest) cs p2" by blast
  from yes_ok [of p2 TNewline "[LF]" True ?rest cs ModeNone] opens_newline [OF p2(3) r1(1)] r1(2) obtain p3 where
    p3: "consumeIfToken TNewline p2 = Some (True, p3)" "opens ModeNone True ?rest cs p3" by auto
  have "parse_specifier (ps_kind p) p = Some (True, call (OnBeginPoolDecl u) p3)"
    using looks_kind [OF l] looks_kind [OF l1] p1(1) p2 p3 by (simp add: parse_specifier_def parsePoolSpecifier_def Let_def)
  from parameterized_ok [OF _ this p3(2) _ r] looks_kind [OF l] l ok p2(2) show ?thesis
    by (auto simp: binding_call_def end_call_def looks_def)
qed

lemma rule_decl_ok:
  assumes o: "opens ModeNone True (print_decl (DRule n bs) @ r) cs p" and ok: "decl_ok (DRule n bs)" and r: "starts r" "fine r"
  shows "\<exists>p1. parseDecl p = Some p1 \<and> opens ModeNone True r (cs @ decl_calls (DRule n bs)) p1"
proof -
  let ?rest = "print_bindings bs @ r"
  have r1: "cont ?rest" "fine ?rest" using r by (simp_all add: cont_bindings fine_bindings)
  have f: "fine (CHR '' '' # n @ LF # ?rest)" "fine (LF # ?rest)" using r1(2) by (simp_all add: fine_last)
  have l: "looks p TKWRule ''rule'' False (CHR '' '' # n @ LF # ?rest) cs"
    using opens_word [of "''rule''" "CHR '' ''" "n @ LF # ?rest" cs p] o
    by (simp add: ident_ok_def isIdentifierChar_def identifier_kind_def)
  from expect_mode_ok [OF l f(1)] obtain t p1 where p1: "consumeExpectedToken TKWRule (setParserMode ModeIdentifierSpecific p) = Some (t, p1)"
    "opens ModeIdentifierSpecific False (CHR '' '' # n @ LF # ?rest) cs p1" by blast
  have l1: "looks p1 TIdentifier n False (LF # ?rest) cs" using opens_name [OF p1(2)] ok by simp
  from expect_mode_ok [OF l1 f(2), of ModeNone] obtain u p2 where p2: "consumeExpectedToken TIdentifier (setParserMode ModeNone p1) = Some (u, p2)"
    "tok_text u = n" "opens ModeNone False (LF # ?rest) cs p2" by blast
  from yes_ok [of p2 TNewline "[LF]" True ?rest cs ModeNone] opens_newline [OF p2(3) r1(1)] r1(2) obtain p3 where
    p3: "consumeIfToken TNewline p2 = Some (True, p3)" "opens ModeNone True ?rest cs p3" by auto
  have "parse_specifier (ps_kind p) p = Some (True, call (OnBeginRuleDecl u) p3)"
    using looks_kind [OF l] looks_kind [OF l1] p1(1) p2 p3 by (simp add: parse_specifier_def parseRuleSpecifier_def Let_def)
  from parameterized_ok [OF _ this p3(2) _ r] looks_kind [OF l] l ok p2(2) show ?thesis
    by (auto simp: binding_call_def end_call_def looks_def)
qed


text \<open>The input lists of a build declaration: those behind a separator may be absent.\<close>

lemma optional_ok:
  assumes o: "opens ModePathString False ((if ws = [] then [] else sep @ spaced ws) @ r) cs p"
    and sep: "\<And>s. feeds ModePathString False (sep @ CHR '' '' # s) k w False (CHR '' '' # s)" "k \<noteq> TComment"
    and ws: "list_all path_ok ws" and r: "path_stop r" "r \<noteq> []" "fine r"
    and stop: "\<And>q. opens ModePathString False r cs q \<Longrightarrow> ps_kind q \<noteq> TString \<and> ps_kind q \<noteq> k"
  shows "\<exists>b p1 us p2. consumeIfToken k p = Some (b, p1) \<and> (if b then parse_strings ts p1 else Some (ts, p1)) = Some (ts @ us, p2) \<and>
    map tok_text us = ws \<and> opens ModePathString False r cs p2"
proof (cases ws)
  case Nil
  then show ?thesis using o stop [of p] by (intro exI [of _ False] exI [of _ p] exI [of _ "[]"]) (simp add: no_ok)
next
  case (Cons v vs)
  have l: "looks p k w False (spaced ws @ r) cs" "ps_mode p = ModePathString"
    using opens_looks [of ModePathString False "sep @ spaced ws @ r" cs p k w False "spaced ws @ r"] o sep Cons by simp_all
  have "fine (spaced ws @ r)" using ws r(2,3) by (rule fine_spaced)
  from yes_ok [OF l this] obtain p1 where p1: "consumeIfToken k p = Some (True, p1)" "opens ModePathString False (spaced ws @ r) cs p1" by blast
  from strings_ok [OF p1(2) ws r] stop obtain us p2 where "parse_strings ts p1 = Some (ts @ us, p2)" "map tok_text us = ws"
    "opens ModePathString False r cs p2" by blast
  then show ?thesis using p1(1) by auto
qed

definition order_only :: "string list \<Rightarrow> string \<Rightarrow> string" where
  "order_only ws r = (if ws = [] then [] else '' ||'' @ spaced ws) @ LF # r"

definition implicit_inputs :: "string list \<Rightarrow> string \<Rightarrow> string" where
  "implicit_inputs ws r = (if ws = [] then [] else '' |'' @ spaced ws) @ r"

lemma sep_feeds:
  "feeds ModePathString False ('' |'' @ CHR '' '' # s) TPipe ''|'' False (CHR '' '' # s)"
  "feeds ModePathString False ('' ||'' @ CHR '' '' # s) TPipePipe ''||'' False (CHR '' '' # s)"
  using feeds_blank [OF feeds_pipe [of ModePathString "CHR '' '' # s" False]]
    feeds_blank [OF feeds_pipepipe [of ModePathString False "CHR '' '' # s"]] by simp_all

lemma order_only_kind:
  "cont r \<Longrightarrow> opens ModePathString False (order_only ws r) cs q \<Longrightarrow> ps_kind q = (if ws = [] then TNewline else TPipePipe)"
  using opens_looks [of ModePathString False "order_only ws r" cs q TPipePipe "''||''" False "spaced ws @ LF # r"]
    opens_newline [of ModePathString False r cs q] sep_feeds(2)
  by (cases ws) (auto simp: order_only_def looks_def)

lemma implicit_kind:
  "cont r \<Longrightarrow> opens ModePathString False (implicit_inputs is (order_only ws r)) cs q \<Longrightarrow>
   ps_kind q = (if is = [] then if ws = [] then TNewline else TPipePipe else TPipe)"
  using opens_looks [of ModePathString False "implicit_inputs is (order_only ws r)" cs q TPipe "''|''" False "spaced is @ order_only ws r"]
    order_only_kind [of r ws cs q] sep_feeds(1)
  by (cases "is") (auto simp: implicit_inputs_def looks_def)

lemma lists_wf:
  assumes "fine r"
  shows "path_stop (order_only ws r)" "order_only ws r \<noteq> []" "fine (order_only ws r)"
    "path_stop (implicit_inputs is (order_only ws r))" "implicit_inputs is (order_only ws r) \<noteq> []" "fine (implicit_inputs is (order_only ws r))"
proof -
  show o: "path_stop (order_only ws r)" "order_only ws r \<noteq> []" "fine (order_only ws r)"
    using assms by (auto simp: order_only_def fine_last)
  then show "path_stop (implicit_inputs is (order_only ws r))" "implicit_inputs is (order_only ws r) \<noteq> []" "fine (implicit_inputs is (order_only ws r))"
    by (auto simp: implicit_inputs_def fine_last)
qed

lemma print_build:
  "print_decl (DBuild outs rl es is os bs) @ r =
     ''build'' @ spaced outs @ '': '' @ rl @ spaced es @ implicit_inputs is (order_only os (print_bindings bs @ r))"
  by (simp add: implicit_inputs_def order_only_def)

lemma inputs_ok:
  assumes o: "opens ModePathString False (spaced es @ implicit_inputs is (order_only os r)) cs p"
    and ok: "list_all path_ok (es @ is @ os)" and r: "cont r" "fine r"
  shows "\<exists>xs p6 b p7 ys p8 b2 p9 zs p10 p11. parse_strings [] p = Some (xs, p6) \<and> consumeIfToken TPipe p6 = Some (b, p7) \<and>
    (if b then parse_strings xs p7 else Some (xs, p7)) = Some (xs @ ys, p8) \<and> consumeIfToken TPipePipe p8 = Some (b2, p9) \<and>
    (if b2 then parse_strings (xs @ ys) p9 else Some (xs @ ys, p9)) = Some ((xs @ ys) @ zs, p10) \<and>
    consumeIfToken TNewline (setParserMode ModeNone p10) = Some (True, p11) \<and>
    map tok_text xs = es \<and> map tok_text ys = is \<and> map tok_text zs = os \<and> opens ModeNone True r cs p11"
proof -
  let ?oo = "order_only os r"
  let ?ii = "implicit_inputs is ?oo"
  note wf = lists_wf(1-3) [OF r(2), of os] lists_wf(4-6) [OF r(2), of "is" os]
  have ki: "ps_kind q \<noteq> TString" if "opens ModePathString False ?ii cs q" for q
    using implicit_kind [OF r(1) that] by simp
  have ko: "ps_kind q \<noteq> TString \<and> ps_kind q \<noteq> TPipe" if "opens ModePathString False ?oo cs q" for q
    using order_only_kind [OF r(1) that] by simp
  from strings_ok [OF o _ wf(4,5,6) ki, of "[]"] ok obtain xs p6 where
    p6: "parse_strings [] p = Some (xs, p6)" "map tok_text xs = es" "opens ModePathString False ?ii cs p6" by auto
  from optional_ok [OF p6(3) [unfolded implicit_inputs_def] sep_feeds(1) _ _ wf(1-3) ko, of xs] ok obtain b p7 ys p8 where
    p8: "consumeIfToken TPipe p6 = Some (b, p7)" "(if b then parse_strings xs p7 else Some (xs, p7)) = Some (xs @ ys, p8)"
    "map tok_text ys = is" "opens ModePathString False ?oo cs p8" by auto
  have nl: "ps_kind q \<noteq> TString \<and> ps_kind q \<noteq> TPipePipe" if "opens ModePathString False (LF # r) cs q" for q
    using looks_kind [OF conjunct1 [OF opens_newline [OF that r(1)]]] by simp
  from optional_ok [OF p8(4) [unfolded order_only_def] sep_feeds(2) _ _ _ _ _ nl, of "xs @ ys"] ok r(2) obtain b2 p9 zs p10 where
    p10: "consumeIfToken TPipePipe p8 = Some (b2, p9)" "(if b2 then parse_strings (xs @ ys) p9 else Some (xs @ ys, p9)) = Some ((xs @ ys) @ zs, p10)"
    "map tok_text zs = os" "opens ModePathString False (LF # r) cs p10" by (auto simp: fine_Cons)
  from newline_ok [OF p10(4) r] obtain p11 where p11: "consumeIfToken TNewline (setParserMode ModeNone p10) = Some (True, p11)"
    "opens ModeNone True r cs p11" by blast
  show ?thesis using p6(1,2) p8(1-3) p10(1-3) p11 by blast
qed

lemma build_decl_ok:
  assumes o: "opens ModeNone True (print_decl (DBuild outs rl es is os bs) @ r) cs p" and ok: "decl_ok (DBuild outs rl es is os bs)"
    and r: "starts r" "fine r"
  shows "\<exists>p1. parseDecl p = Some p1 \<and> opens ModeNone True r (cs @ decl_calls (DBuild outs rl es is os bs)) p1"
proof -
  let ?rest = "print_bindings bs @ r"
  let ?oo = "order_only os ?rest"
  let ?ii = "implicit_inputs is ?oo"
  obtain v vs where outs: "outs = v # vs" using ok by (cases outs) auto
  have r1: "cont ?rest" "fine ?rest" using r by (simp_all add: cont_bindings fine_bindings)
  note wf = lists_wf(1-3) [OF r1(2), of os] lists_wf(4-6) [OF r1(2), of "is" os]
  have f: "fine (spaced es @ ?ii)" "fine (CHR '' '' # rl @ spaced es @ ?ii)" "fine (CHR '':'' # CHR '' '' # rl @ spaced es @ ?ii)"
      "fine (spaced outs @ CHR '':'' # CHR '' '' # rl @ spaced es @ ?ii)"
    using wf(5,6) by (auto simp: fine_last)
  have l: "looks p TKWBuild ''build'' False (spaced outs @ CHR '':'' # CHR '' '' # rl @ spaced es @ ?ii) cs"
    using opens_word [of "''build''" "CHR '' ''" "v @ spaced vs @ CHR '':'' # CHR '' '' # rl @ spaced es @ ?ii" cs p] o outs
    unfolding print_build by (simp add: ident_ok_def isIdentifierChar_def identifier_kind_def)
  from expect_mode_ok [OF l f(4)] obtain t p1 where p1: "consumeExpectedToken TKWBuild (setParserMode ModePathString p) = Some (t, p1)"
    "opens ModePathString False (spaced outs @ CHR '':'' # CHR '' '' # rl @ spaced es @ ?ii) cs p1" by blast
  have colon: "looks q TColon '':'' False (CHR '' '' # rl @ spaced es @ ?ii) cs"
    if "opens ModePathString False (CHR '':'' # CHR '' '' # rl @ spaced es @ ?ii) cs q" for q
    using opens_looks [OF that feeds_colon] by simp
  have k1: "ps_kind p1 = TString"
    using opens_looks [OF p1(2), of TString v False "spaced vs @ CHR '':'' # CHR '' '' # rl @ spaced es @ ?ii"] feeds_spaced [of v] ok outs
    by (auto simp: looks_def)
  from strings_ok [OF p1(2), of "[]"] ok f(3) colon looks_kind obtain us p2 where p2: "parse_strings [] p1 = Some (us, p2)"
    "map tok_text us = outs" "opens ModePathString False (CHR '':'' # CHR '' '' # rl @ spaced es @ ?ii) cs p2" by fastforce
  note l2 = colon [OF p2(3)]
  from expect_mode_ok [OF l2 f(2), of ModeIdentifierSpecific] obtain c p3 where
    p3: "consumeExpectedToken TColon (setParserMode ModeIdentifierSpecific p2) = Some (c, p3)"
    "opens ModeIdentifierSpecific False (CHR '' '' # rl @ spaced es @ ?ii) cs p3" by blast
  obtain h s where h: "spaced es @ ?ii = h # s" using wf(5) by (cases "spaced es @ ?ii") auto
  have "path_stop (h # s)" using path_stop_spaced [OF wf(4), of es] h by simp
  then have "\<not> isIdentifierChar h" using identifier_plain [of h] by (auto simp: path_stop_def)
  then have l3: "looks p3 TIdentifier rl False (spaced es @ ?ii) cs"
    using opens_name [of rl h s cs p3] p3(2) ok unfolding h by simp
  from expect_mode_ok [OF l3 f(1), of ModePathString] obtain n p5 where
    p5: "consumeExpectedToken TIdentifier (setParserMode ModePathString p3) = Some (n, p5)" "tok_text n = rl"
    "opens ModePathString False (spaced es @ ?ii) cs p5" by blast
  from inputs_ok [OF p5(3) _ r1] ok obtain xs p6 b p7 ys p8 b2 p9 zs p10 p11 where
    inputs: "parse_strings [] p5 = Some (xs, p6)" "consumeIfToken TPipe p6 = Some (b, p7)"
    "(if b then parse_strings xs p7 else Some (xs, p7)) = Some (xs @ ys, p8)" "consumeIfToken TPipePipe p8 = Some (b2, p9)"
    "(if b2 then parse_strings (xs @ ys) p9 else Some (xs @ ys, p9)) = Some ((xs @ ys) @ zs, p10)"
    "consumeIfToken TNewline (setParserMode ModeNone p10) = Some (True, p11)"
    and lists: "map tok_text xs = es" "map tok_text ys = is" "map tok_text zs = os" and p11: "opens ModeNone True ?rest cs p11" by auto
  have "parse_specifier (ps_kind p) p = Some (True, call (OnBeginBuildDecl n us (xs @ ys @ zs) (length xs) (length ys)) p11)"
    using looks_kind [OF l] k1 looks_kind [OF l2] looks_kind [OF l3] p1(1) p2(1) p3(1) p5(1) inputs
    by (simp add: parse_specifier_def parseBuildSpecifier_def Let_def)
  from parameterized_ok [OF _ this p11 _ r] looks_kind [OF l] l ok p2(2) p5(2) lists show ?thesis
    by (auto simp: binding_call_def end_call_def looks_def)
qed


section \<open>Files\<close>

lemma decl_parsed:
  assumes "opens ModeNone True (print_decl d @ r) cs p" "decl_ok d" "starts r" "fine r"
  shows "\<exists>p1. parseDecl p = Some p1 \<and> opens ModeNone True r (cs @ decl_calls d) p1"
proof (cases d)
  case (DBinding n v)
  show ?thesis using binding_decl_ok [of n v r cs p] assms starts_cont DBinding by blast
next
  case (DDefault ws)
  show ?thesis using default_decl_ok [of ws r cs p] assms starts_cont DDefault by blast
next
  case (DInclude b w)
  show ?thesis using include_decl_ok [of b w r cs p] assms starts_cont DInclude by blast
next
  case (DBuild outs rl es "is" os bs)
  show ?thesis using build_decl_ok [of outs rl es "is" os bs r cs p] assms DBuild by blast
next
  case (DPool n bs)
  show ?thesis using pool_decl_ok [of n bs r cs p] assms DPool by blast
next
  case (DRule n bs)
  show ?thesis using rule_decl_ok [of n bs r cs p] assms DRule by blast
qed

definition print_ninja :: "ninja_decl list \<Rightarrow> string" where
  "print_ninja ds = concat (map print_decl ds)"

lemma print_decl_starts:
  assumes "decl_ok d"
  shows "\<exists>c s. print_decl d = c # s \<and> isIdentifierChar c"
proof (cases d)
  case (DBinding n v)
  then show ?thesis using assms by (cases n) (auto simp: print_binding_def ident_ok_def)
qed (simp_all add: isIdentifierChar_def)

lemma fine_print_decl: "fine r \<Longrightarrow> fine (print_decl d @ r)"
proof (cases d)
  case (DBuild outs rl es "is" os bs)
  assume "fine r"
  then have "fine (implicit_inputs is (order_only os (print_bindings bs @ r)))" "implicit_inputs is (order_only os (print_bindings bs @ r)) \<noteq> []"
    by (simp_all add: lists_wf fine_bindings)
  then show ?thesis unfolding DBuild print_build by (auto simp: fine_last)
next
  case (DPool n bs)
  assume "fine r"
  then show ?thesis using fine_bindings [of r bs] by (auto simp: DPool fine_last split: if_splits)
next
  case (DRule n bs)
  assume "fine r"
  then show ?thesis using fine_bindings [of r bs] by (auto simp: DRule fine_last split: if_splits)
qed (auto simp: fine_last print_binding_def)

lemma print_ninja_wf: "list_all decl_ok ds \<Longrightarrow> starts (print_ninja ds) \<and> fine (print_ninja ds)"
proof (induction ds)
  case Nil
  then show ?case by (simp add: print_ninja_def starts_def fine_last)
next
  case (Cons d ds)
  then show ?case using print_decl_starts [of d] fine_print_decl [of "print_ninja ds" d] by (auto simp: print_ninja_def starts_def)
qed

lemma opens_mode: "opens m z r cs p \<Longrightarrow> ps_mode p = m \<and> texts p = cs"
proof -
  assume "opens m z r cs p"
  then obtain q where q: "ps_mode q = m" "texts q = cs" "getNextNonCommentToken q = Some p" by (auto simp: opens_def)
  have "wp False (getNextNonCommentToken q) (\<lambda>p. ps_mode p = ps_mode q)" by (rule wp_getNext [of False q q]) (simp_all add: near_def)
  then show ?thesis using q getNext_calls [OF q(3)] by simp
qed

lemma decls_parsed:
  assumes "opens ModeNone True (print_ninja ds) cs p" "list_all decl_ok ds"
  shows "\<exists>p1. parse_decls p = Some p1 \<and> texts p1 = cs @ concat (map decl_calls ds)"
  using assms
proof (induction ds arbitrary: cs p)
  case Nil
  then have "ps_kind p = TEndOfFile" using starts_kind [of "[]" cs p] by (simp add: print_ninja_def starts_def)
  then show ?case using opens_mode [OF Nil(1)] by (simp add: parse_decls.simps [of p])
next
  case (Cons d ds)
  have o: "opens ModeNone True (print_decl d @ print_ninja ds) cs p" using Cons(2) by (simp add: print_ninja_def)
  have w: "starts (print_ninja ds)" "fine (print_ninja ds)" "starts (print_ninja (d # ds))" using print_ninja_wf [of ds] print_ninja_wf [of "d # ds"] Cons(3) by simp_all
  from decl_parsed [OF o _ w(1,2)] Cons(3) obtain p1 where p1: "parseDecl p = Some p1" "opens ModeNone True (print_ninja ds) (cs @ decl_calls d) p1" by auto
  have "ps_kind p \<noteq> TEndOfFile" using starts_kind [OF Cons(2) w(3)] print_decl_starts [of d] Cons(3) by (auto simp: print_ninja_def)
  then show ?case using p1 Cons(1) [OF p1(2)] Cons(3) opens_mode [OF o] by (simp add: parse_decls.simps [of p])
qed

text \<open>
  C26.  Parsing inverts printing: for every list of declarations over well-formed names, paths and values
  (escapes included), the parser calls its delegate with exactly these declarations, in order, with
  their texts, the numbers of explicit and implicit inputs, and no error.
\<close>

theorem parse_print_ninja:
  assumes "list_all decl_ok ds"
  shows "map_option (map (map_ParseAction tok_text)) (parse_ninja (print_ninja ds)) =
    Some (OnBeginManifest ''<main>'' # concat (map decl_calls ds) @ [OnEndManifest])"
proof -
  let ?p = "new_parser (print_ninja ds)"
  have "looks ?p TUnknown [] True (print_ninja ds) []" "ps_mode ?p = ModeNone"
    by (simp_all add: new_parser_def new_lexer_def looks_def)
  from next_ok [OF this] print_ninja_wf [OF assms] obtain p1 where p1: "getNextNonCommentToken ?p = Some p1" "opens ModeNone True (print_ninja ds) [] p1" by auto
  from opens_call [OF p1(2), of "OnBeginManifest ''<main>''"] have "opens ModeNone True (print_ninja ds) [OnBeginManifest ''<main>''] (call (OnBeginManifest ''<main>'') p1)" by simp
  from decls_parsed [OF this assms] p1(1) show ?thesis by (auto simp: parse_ninja_def)
qed

theorem parse_print_ninja_witness:
  "map_option (map (map_ParseAction tok_text)) (parse_ninja (print_ninja [DRule ''cc'' [(''command'', ''cc $in'')], DBuild [''a''] ''cc'' [''b''] [''c''] [] []])) =
    Some [OnBeginManifest ''<main>'', OnBeginRuleDecl ''cc'', OnRuleBindingDecl ''command'' ''cc $in'', OnEndRuleDecl ''rule'',
      OnBeginBuildDecl ''cc'' [''a''] [''b'', ''c''] 1 1, OnEndBuildDecl ''build'', OnEndManifest]"
proof -
  have "list_all decl_ok [DRule ''cc'' [(''command'', ''cc $in'')], DBuild [''a''] ''cc'' [''b''] [''c''] [] []]" by code_simp
  from parse_print_ninja [OF this] show ?thesis by simp
qed

end
