(* ===== verification/Support_Path.thy ===== *)
theory Support_Path
  imports Builra_Prelude
begin

text \<open>
  The path functions of the support library (\<^verbatim>\<open>lib/toolchain/Support/Path.cpp\<close>) that the
  sources call, for POSIX paths.
\<close>

section \<open>POSIX paths\<close>

abbreviation SLASH :: char where "SLASH \<equiv> CHR ''/''"

definition is_net :: "string \<Rightarrow> bool" where
  "is_net p \<longleftrightarrow> length p > 2 \<and> p ! 0 = SLASH \<and> p ! 1 = SLASH \<and> p ! 2 \<noteq> SLASH"

definition root_name :: "string \<Rightarrow> string" where
  "root_name p = (if is_net p then take 2 p @ takeWhile (\<lambda>c. c \<noteq> SLASH) (drop 2 p) else [])"

definition root_directory :: "string \<Rightarrow> string" where
  "root_directory p =
     (if is_net p then take 1 (drop (length (root_name p)) p)
      else if p \<noteq> [] \<and> hd p = SLASH then ''/'' else [])"

definition relative_path :: "string \<Rightarrow> string" where
  "relative_path p = drop (length (root_name p) + length (root_directory p)) p"

definition append_component :: "string \<Rightarrow> string \<Rightarrow> string" where
  "append_component p component =
     (if p \<noteq> [] \<and> last p = SLASH then p @ dropWhile (\<lambda>c. c = SLASH) component
      else if (component \<noteq> [] \<and> hd component = SLASH) \<or> p = [] \<or> root_name component \<noteq> [] then p @ component
      else p @ ''/'' @ component)"

definition is_absolute :: "string \<Rightarrow> bool" where
  "is_absolute p \<longleftrightarrow> root_directory p \<noteq> []"

definition make_absolute :: "string \<Rightarrow> string \<Rightarrow> string" where
  "make_absolute current_directory p =
     (if root_directory p \<noteq> [] then p
      else append_component
             (append_component
               (append_component (append_component [] (root_name p)) (root_directory current_directory))
               (relative_path current_directory))
             (relative_path p))"

section \<open>Absolute paths\<close>

lemma root_directory_rest:
  assumes "root_directory p \<noteq> []"
  shows "\<exists>s. drop (length (root_name p)) p = SLASH # s"
proof (cases "is_net p")
  case True
  then have "length (root_name p) = 2 + length (takeWhile (\<lambda>c. c \<noteq> SLASH) (drop 2 p))" by (auto simp: root_name_def is_net_def)
  then have d: "drop (length (root_name p)) p = dropWhile (\<lambda>c. c \<noteq> SLASH) (drop 2 p)"
    by (metis add.commute drop_drop dropWhile_eq_drop)
  have "drop (length (root_name p)) p \<noteq> []" using assms True by (auto simp: root_directory_def)
  then show ?thesis unfolding d using hd_dropWhile by (cases "dropWhile (\<lambda>c. c \<noteq> SLASH) (drop 2 p)") (auto simp: dropWhile_eq_Cons_conv)
next
  case False
  then show ?thesis using assms by (cases p) (auto simp: root_directory_def root_name_def split: if_splits)
qed

lemma root_name_append:
  assumes "root_name p = r" "r = [] \<Longrightarrow> s = [] \<or> hd s \<noteq> SLASH"
  shows "root_name (r @ SLASH # s) = r \<and> root_directory (r @ SLASH # s) \<noteq> []"
proof (cases "is_net p")
  case False
  then have "r = []" using assms(1) by (simp add: root_name_def)
  moreover have "\<not> is_net (SLASH # s)" using assms(2) \<open>r = []\<close> by (cases s) (auto simp: is_net_def)
  ultimately show ?thesis by (simp add: root_name_def root_directory_def)
next
  case True
  then obtain x xs where p: "p = SLASH # SLASH # x # xs" "x \<noteq> SLASH"
    by (cases p; cases "tl p"; cases "tl (tl p)") (auto simp: is_net_def)
  have r: "r = SLASH # SLASH # x # takeWhile (\<lambda>c. c \<noteq> SLASH) xs" using assms(1) True p by (simp add: root_name_def)
  have n: "is_net (r @ SLASH # s)" unfolding r using p(2) by (simp add: is_net_def)
  have "takeWhile (\<lambda>c. c \<noteq> SLASH) (takeWhile (\<lambda>c. c \<noteq> SLASH) xs @ SLASH # s) = takeWhile (\<lambda>c. c \<noteq> SLASH) xs"
    by (subst takeWhile_append2) (auto dest: set_takeWhileD)
  then have "root_name (r @ SLASH # s) = r" using n p(2) by (simp add: root_name_def r)
  then show ?thesis using n by (simp add: root_directory_def)
qed

lemma root_directory_slash: "root_directory p \<noteq> [] \<Longrightarrow> root_directory p = ''/''"
  using root_directory_rest [of p] by (auto simp: root_directory_def split: if_splits)

lemma append_component_prefix: "\<exists>t. append_component p c = p @ t"
  by (simp add: append_component_def)

lemma append_after_slash: "append_component (r @ ''/'') c = r @ SLASH # dropWhile (\<lambda>c. c = SLASH) c"
  by (simp add: append_component_def)

lemma drop_slashes_head: "s = dropWhile (\<lambda>c. c = SLASH) c \<Longrightarrow> s = [] \<or> hd s \<noteq> SLASH"
  using hd_dropWhile [of "\<lambda>c. c = SLASH" c] by (cases s) (auto simp: dropWhile_eq_Cons_conv)

lemma make_absolute_absolute:
  assumes "is_absolute dir"
  shows "is_absolute (make_absolute dir p)"
proof (cases "root_directory p = []")
  case True
  let ?s = "dropWhile (\<lambda>c. c = SLASH) (relative_path dir)"
  have "root_directory dir = ''/''" using assms by (auto simp: is_absolute_def dest: root_directory_slash)
  moreover have "append_component [] (root_name p) = root_name p" by (simp add: append_component_def)
  moreover have "append_component (root_name p) ''/'' = root_name p @ ''/''"
  proof (cases "is_net p")
    case net: True
    then obtain x xs where "p = SLASH # SLASH # x # xs" "x \<noteq> SLASH"
      by (cases p; cases "tl p"; cases "tl (tl p)") (auto simp: is_net_def)
    then obtain ys where ys: "root_name p = SLASH # SLASH # ys" "ys = x # takeWhile (\<lambda>c. c \<noteq> SLASH) xs"
      using net by (simp add: root_name_def)
    have "last ys \<in> set ys" using ys(2) last_in_set by blast
    then have "last (root_name p) \<noteq> SLASH" using ys \<open>x \<noteq> SLASH\<close> by (auto dest: set_takeWhileD)
    then show ?thesis by (simp add: append_component_def)
  qed (simp add: root_name_def append_component_def)
  ultimately have m: "make_absolute dir p = append_component (root_name p @ SLASH # ?s) (relative_path p)"
    using True by (simp add: make_absolute_def append_after_slash)
  have q: "root_name p = [] \<Longrightarrow> relative_path p = [] \<or> hd (relative_path p) \<noteq> SLASH"
    using True by (auto simp: relative_path_def root_directory_def root_name_def is_net_def split: if_splits)
  obtain t where "make_absolute dir p = root_name p @ SLASH # t" "root_name p = [] \<Longrightarrow> t = [] \<or> hd t \<noteq> SLASH"
  proof (cases ?s)
    case Nil
    have "make_absolute dir p = root_name p @ SLASH # dropWhile (\<lambda>c. c = SLASH) (relative_path p)"
      using m unfolding Nil append_after_slash .
    then show thesis using that drop_slashes_head by blast
  next
    case (Cons x xs)
    then have "x \<noteq> SLASH" by (simp add: dropWhile_eq_Cons_conv)
    moreover obtain u where "make_absolute dir p = (root_name p @ SLASH # x # xs) @ u"
      using m append_component_prefix [of "root_name p @ SLASH # x # xs"] unfolding Cons by metis
    ultimately show thesis using that [of "x # xs @ u"] by simp
  qed
  then show ?thesis using root_name_append [of p "root_name p" t] by (simp add: is_absolute_def)
qed (simp add: make_absolute_def is_absolute_def)

section \<open>Parent directories\<close>

definition last_separator :: "string \<Rightarrow> nat option" where
  "last_separator s = map_option (\<lambda>k. length s - Suc k) (if SLASH \<in> set s then Some (length (takeWhile (\<lambda>c. c \<noteq> SLASH) (rev s))) else None)"

definition filename_pos :: "string \<Rightarrow> nat" where
  "filename_pos s =
     (if s \<noteq> [] \<and> last s = SLASH then length s - 1
      else case last_separator s of
        None \<Rightarrow> 0
      | Some pos \<Rightarrow> if pos = 1 \<and> s ! 0 = SLASH then 0 else pos + 1)"

definition root_dir_start :: "string \<Rightarrow> nat option" where
  "root_dir_start s =
     (if length s > 3 \<and> s ! 0 = SLASH \<and> s ! 0 = s ! 1 \<and> s ! 2 \<noteq> SLASH
      then (if SLASH \<in> set (drop 2 s) then Some (2 + length (takeWhile (\<lambda>c. c \<noteq> SLASH) (drop 2 s))) else None)
      else if s \<noteq> [] \<and> hd s = SLASH then Some 0 else None)"

fun skip_separators :: "string \<Rightarrow> nat option \<Rightarrow> nat \<Rightarrow> nat" where
  "skip_separators p root 0 = 0"
| "skip_separators p root (Suc e) =
     (if (case root of None \<Rightarrow> True | Some r \<Rightarrow> Suc e > r) \<and> p ! e = SLASH then skip_separators p root e else Suc e)"

definition parent_path_end :: "string \<Rightarrow> nat" where
  "parent_path_end path =
     (let pos = filename_pos path;
          filename_was_sep = (path \<noteq> [] \<and> path ! pos = SLASH);
          root = root_dir_start path;
          end_pos = skip_separators path root pos
      in if root = Some end_pos \<and> \<not> filename_was_sep then end_pos + 1 else end_pos)"

definition parent_path :: "string \<Rightarrow> string" where
  "parent_path path = take (parent_path_end path) path"

lemma parent_path_examples:
  "parent_path ''/tmp/a/b'' = ''/tmp/a''" "parent_path ''/tmp'' = ''/''" "parent_path ''a'' = []"
  "parent_path ''dir/'' = ''dir''" "parent_path ''/'' = []"
  by code_simp+

section \<open>File names\<close>

text \<open>The last component of a path, by one step of the reverse iterator.\<close>

fun skip_trailing :: "string \<Rightarrow> nat option \<Rightarrow> nat \<Rightarrow> nat" where
  "skip_trailing p root 0 = 0"
| "skip_trailing p root (Suc e) = (if root \<noteq> Some e \<and> p ! e = SLASH then skip_trailing p root e else Suc e)"

definition path_filename :: "string \<Rightarrow> string" where
  "path_filename p =
     (let root = root_dir_start p;
          end_pos = skip_trailing p root (length p)
      in if p \<noteq> [] \<and> last p = SLASH \<and> (case root of None \<Rightarrow> True | Some r \<Rightarrow> end_pos - 1 > r) then ''.''
         else drop (filename_pos (take end_pos p)) (take end_pos p))"

definition stem :: "string \<Rightarrow> string" where
  "stem path =
     (let fname = path_filename path in
      if CHR ''.'' \<notin> set fname then fname
      else if fname = ''.'' \<or> fname = ''..'' then fname
      else rev (tl (dropWhile (\<lambda>c. c \<noteq> CHR ''.'') (rev fname))))"

lemma path_filename_examples:
  "path_filename ''/a/b.c'' = ''b.c''" "path_filename ''b.c'' = ''b.c''" "path_filename ''/'' = ''/''" "path_filename ''a/'' = ''.''"
  "stem ''/a/b.x.c'' = ''b.x''" "stem ''/a/..'' = ''..''"
  by code_simp+

end
