(* ===== verification/Ninja_Manifest.thy ===== *)
theory Ninja_Manifest
  imports Support_Path
begin

text \<open>
  The data of a Ninja manifest (\<^verbatim>\<open>include/builra/Ninja/Manifest.h\<close>,
  \<^verbatim>\<open>lib/Ninja/Manifest.cpp\<close>): scopes, nodes, pools, rules and commands, and the
  normalisation of paths that makes nodes unique.
\<close>

section \<open>Normalisation\<close>

text \<open>
  The loop works in place, on the part of the buffer behind the root name: \<open>src\<close> and \<open>dst\<close> are the two
  iterators, as offsets.
\<close>

fun move_back :: "char list \<Rightarrow> nat \<Rightarrow> nat" where
  "move_back buf 0 = 0"
| "move_back buf (Suc d) = (if buf ! Suc d = SLASH then Suc (Suc d) else move_back buf d)"

definition previous_directory :: "char list \<Rightarrow> nat \<Rightarrow> char list \<times> nat" where
  "previous_directory buf dst =
     (if dst \<le> 1 then (buf, dst)
      else let d = move_back buf (dst - 2) in if d = 0 then (buf[0 := SLASH], 1) else (buf, d))"

definition put_slash :: "char list \<Rightarrow> nat \<Rightarrow> char list \<times> nat" where
  "put_slash buf dst =
     (if dst = 0 \<or> buf ! (dst - 1) \<noteq> SLASH then (buf[dst := SLASH], Suc dst) else (buf, dst))"

lemma put_slash_length: "(b, d) = put_slash buf dst \<Longrightarrow> length b = length buf"
  by (auto simp: put_slash_def split: if_splits)

lemma previous_directory_length: "(b, d) = previous_directory buf dst \<Longrightarrow> length b = length buf"
  by (auto simp: previous_directory_def Let_def split: if_splits)

function normalize_loop :: "char list \<Rightarrow> nat \<Rightarrow> nat \<Rightarrow> char list \<times> nat" where
  "normalize_loop buf src dst =
     (if length buf \<le> src then (buf, dst)
      else if buf ! src \<noteq> SLASH then normalize_loop (buf[dst := buf ! src]) (src + 1) (dst + 1)
      else
        (case put_slash buf dst of (buf, dst) \<Rightarrow>
           if length buf \<le> src + 1 then (buf, dst)
           else if buf ! (src + 1) \<noteq> CHR ''.'' then normalize_loop buf (src + 1) dst
           else if length buf \<le> src + 2 then normalize_loop buf (src + 2) dst
           else if buf ! (src + 2) \<noteq> CHR ''.'' then
             (if buf ! (src + 2) = SLASH then normalize_loop buf (src + 2) dst
              else normalize_loop (buf[dst := buf ! (src + 1)]) (src + 2) (dst + 1))
           else if src + 3 < length buf \<and> buf ! (src + 3) \<noteq> SLASH then normalize_loop buf (src + 1) dst
           else
             (case previous_directory buf dst of (buf, dst) \<Rightarrow>
                if src + 3 < length buf then normalize_loop buf (src + 3) dst else (buf, dst))))"
  by pat_completeness auto
termination
  by (relation "measure (\<lambda>(buf, src, dst). length buf - src)")
    (auto dest!: put_slash_length previous_directory_length)

declare normalize_loop.simps [simp del]

definition normalize_path :: "string \<Rightarrow> string \<Rightarrow> string option" where
  "normalize_path workingDirectory path =
     (let tmp = make_absolute workingDirectory path in
      if tmp = [] \<or> \<not> is_absolute tmp then None
      else
        let rootNameLength = length (root_name tmp);
            (buf, dst) = normalize_loop (drop rootNameLength tmp) 0 0
        in Some (take rootNameLength tmp @ take dst buf))"


section \<open>The loop without the buffer\<close>

text \<open>
  What is written so far, last character first, and what is left to read.  As \<open>dst\<close> never overtakes
  \<open>src\<close>, working in place does no harm.
\<close>

definition slash :: "string \<Rightarrow> string" where
  "slash out = (if out = [] \<or> hd out \<noteq> SLASH then SLASH # out else out)"

definition up :: "string \<Rightarrow> string" where
  "up out =
     (if length out \<le> 1 then out
      else let r = dropWhile (\<lambda>c. c \<noteq> SLASH) (tl out) in if length r \<le> 1 then ''/'' else r)"

fun norm :: "string \<Rightarrow> string \<Rightarrow> string" where
  "norm out [] = out"
| "norm out (c # cs) =
     (if c \<noteq> SLASH then norm (c # out) cs
      else
        (case cs of
           [] \<Rightarrow> slash out
         | d # ds \<Rightarrow>
             if d \<noteq> CHR ''.'' then norm (slash out) cs
             else
               (case ds of
                  [] \<Rightarrow> slash out
                | e # es \<Rightarrow>
                    if e \<noteq> CHR ''.'' then (if e = SLASH then norm (slash out) ds else norm (d # slash out) ds)
                    else
                      (case es of
                         [] \<Rightarrow> up (slash out)
                       | f # fs \<Rightarrow> if f \<noteq> SLASH then norm (slash out) cs else norm (up (slash out)) es))))"

declare norm.simps(2) [simp del]

lemma take_update_Suc: "d < length buf \<Longrightarrow> rev (take (Suc d) (buf[d := c])) = c # rev (take d buf)"
  by (simp add: take_Suc_conv_app_nth)

lemma put_slash_norm:
  assumes "put_slash buf dst = (b, d)" "dst \<le> src" "src < length buf"
  shows "rev (take d b) = slash (rev (take dst buf))" "\<forall>k>src. drop k b = drop k buf" "d \<le> Suc src" "length b = length buf" "0 < d"
proof -
  have "hd (rev (take dst buf)) = buf ! (dst - 1)" if "dst > 0"
    using assms(2,3) that by (cases dst) (simp_all add: take_Suc_conv_app_nth)
  then show "rev (take d b) = slash (rev (take dst buf))" "\<forall>k>src. drop k b = drop k buf" "d \<le> Suc src" "length b = length buf" "0 < d"
    using assms take_update_Suc [of dst buf SLASH] by (auto simp: put_slash_def slash_def split: if_splits)
qed

lemma move_back_norm:
  "n < length buf \<Longrightarrow> rev (take (move_back buf n) buf) =
     (let r = dropWhile (\<lambda>c. c \<noteq> SLASH) (rev (take (Suc n) buf)) in if length r \<le> 1 then [] else r) \<and> move_back buf n \<le> Suc n"
  by (induction buf n rule: move_back.induct) (auto simp: take_Suc_conv_app_nth Let_def)

lemma previous_directory_norm:
  assumes "previous_directory buf dst = (b, d)" "dst \<le> length buf" "0 < dst"
  shows "rev (take d b) = up (rev (take dst buf))" "\<forall>k>0. drop k b = drop k buf" "d \<le> dst" "length b = length buf"
proof -
  obtain n where n: "dst = Suc n" using assms(3) by (cases dst) auto
  have t: "tl (rev (take dst buf)) = rev (take n buf)"
    using assms(2) n by (simp add: take_Suc_conv_app_nth)
  have "rev (take d b) = up (rev (take dst buf)) \<and> d \<le> dst"
  proof (cases n)
    case 0
    then show ?thesis using assms n by (auto simp: previous_directory_def up_def)
  next
    case (Suc m)
    let ?r = "dropWhile (\<lambda>c. c \<noteq> SLASH) (rev (take n buf))"
    have m: "rev (take (move_back buf m) buf) = (if length ?r \<le> 1 then [] else ?r)" "move_back buf m \<le> n"
      using move_back_norm [of m buf] assms(2) n Suc by (auto simp: Let_def)
    have u: "up (rev (take dst buf)) = (if length ?r \<le> 1 then ''/'' else ?r)"
      using assms(2) n Suc t by (simp add: up_def Let_def)
    have p: "previous_directory buf dst = (if move_back buf m = 0 then (buf[0 := SLASH], 1) else (buf, move_back buf m))"
      using n Suc by (simp add: previous_directory_def Let_def)
    show ?thesis
    proof (cases "move_back buf m = 0")
      case True
      then have "length ?r \<le> 1" using m(1) by (auto split: if_splits)
      then show ?thesis using assms(1,2) p u True n by (cases buf) auto
    next
      case False
      then have "\<not> length ?r \<le> 1" using m assms(2) n by (auto split: if_splits)
      then show ?thesis using assms(1) p u False m n by auto
    qed
  qed
  then show "rev (take d b) = up (rev (take dst buf))" "d \<le> dst" by simp_all
  show "\<forall>k>0. drop k b = drop k buf" "length b = length buf"
    using assms(1) by (auto simp: previous_directory_def Let_def split: if_splits)
qed


lemma drop_step: "k < length b \<Longrightarrow> drop k b = b ! k # drop (Suc k) b"
  by (simp add: Cons_nth_drop_Suc)

lemma drop_end: "length b \<le> k \<Longrightarrow> drop k b = []"
  by simp

lemma normalize_loop_norm:
  "dst \<le> src \<Longrightarrow> normalize_loop buf src dst = (b, d) \<Longrightarrow> rev (take d b) = norm (rev (take dst buf)) (drop src buf)"
proof (induction "length buf - src" arbitrary: buf src dst rule: less_induct)
  case less
  show ?case
  proof (cases "src < length buf \<and> buf ! src = SLASH")
    case False
    show ?thesis
    proof (cases "src < length buf")
      case True
      have "rev (take d b) = norm (rev (take (dst + 1) (buf[dst := buf ! src]))) (drop (src + 1) (buf[dst := buf ! src]))"
        using less(3) True False less(2) by (intro less(1)) (auto simp: normalize_loop.simps [of buf src dst])
      then show ?thesis
        using True False less(2) take_update_Suc [of dst buf "buf ! src"] by (simp add: drop_step [of src buf] norm.simps(2))
    qed (use less(3) in \<open>auto simp: normalize_loop.simps [of buf src dst]\<close>)
  next
    case True
    obtain b1 d1 where p: "put_slash buf dst = (b1, d1)" by force
    note f = put_slash_norm [OF p less(2) conjunct1 [OF True]]
    obtain b2 d2 where q: "previous_directory b1 d1 = (b2, d2)" by force
    have "d1 \<le> length b1" using f(3,4) True by simp
    note g = previous_directory_norm [OF q this f(5)]
    have n: "norm (rev (take dst buf)) (drop src buf) = norm (rev (take dst buf)) (SLASH # drop (Suc src) b1)"
      using True f(2) by (simp add: drop_step [of src buf])
    have ih: "rev (take d b) = norm (rev (take d3 b3)) (drop s3 b3)"
      if "normalize_loop b3 s3 d3 = (b, d)" "src < s3" "d3 \<le> s3" "length b3 = length buf" for b3 s3 d3
      using that True by (intro less(1)) auto
    note e = normalize_loop.simps [of buf src dst]
    consider (last) "length b1 \<le> src + 1"
      | (plain) "src + 1 < length b1" "b1 ! (src + 1) \<noteq> CHR ''.''"
      | (dot) "src + 1 < length b1" "b1 ! (src + 1) = CHR ''.''" "length b1 \<le> src + 2"
      | (skip) "src + 2 < length b1" "b1 ! (src + 1) = CHR ''.''" "b1 ! (src + 2) = SLASH"
      | (hidden) "src + 2 < length b1" "b1 ! (src + 1) = CHR ''.''" "b1 ! (src + 2) \<noteq> SLASH" "b1 ! (src + 2) \<noteq> CHR ''.''"
      | (dots) "src + 3 < length b1" "b1 ! (src + 1) = CHR ''.''" "b1 ! (src + 2) = CHR ''.''" "b1 ! (src + 3) \<noteq> SLASH"
      | (up) "src + 3 < length b1" "b1 ! (src + 1) = CHR ''.''" "b1 ! (src + 2) = CHR ''.''" "b1 ! (src + 3) = SLASH"
      | (top) "src + 3 = length b1" "b1 ! (src + 1) = CHR ''.''" "b1 ! (src + 2) = CHR ''.''"
      by linarith
    then show ?thesis
    proof cases
      case last
      then show ?thesis using less(3) True p f n by (simp add: e norm.simps(2))
    next
      case plain
      have "normalize_loop b1 (src + 1) d1 = (b, d)" using less(3) True p plain by (simp add: e)
      from ih [OF this] f(1,3-) plain show ?thesis unfolding n by (simp add: norm.simps(2) [of _ SLASH] drop_step [of "Suc src" b1])
    next
      case dot
      have "normalize_loop b1 (src + 2) d1 = (b, d)" using less(3) True p dot by (simp add: e)
      from ih [OF this] f(1,3-) dot show ?thesis unfolding n by (simp add: norm.simps(2) [of _ SLASH] drop_step [of "Suc src" b1])
    next
      case skip
      have "normalize_loop b1 (src + 2) d1 = (b, d)" using less(3) True p skip by (simp add: e)
      from ih [OF this] f(1,3-) skip show ?thesis unfolding n
        by (simp add: norm.simps(2) [of "rev (take dst buf)" SLASH] drop_step [of "Suc src" b1] drop_step [of "Suc (Suc src)" b1])
    next
      case hidden
      have "normalize_loop (b1[d1 := b1 ! (src + 1)]) (src + 2) (d1 + 1) = (b, d)" using less(3) True p hidden by (simp add: e)
      from ih [OF this] f(1,3-) hidden take_update_Suc [of d1 b1] show ?thesis unfolding n
        by (simp add: norm.simps(2) [of "rev (take dst buf)" SLASH] drop_step [of "Suc src" b1] drop_step [of "Suc (Suc src)" b1])
    next
      case dots
      have "normalize_loop b1 (src + 1) d1 = (b, d)" using less(3) True p dots by (simp add: e)
      from ih [OF this] f(1,3-) dots show ?thesis unfolding n
        by (simp add: norm.simps(2) [of "rev (take dst buf)" SLASH] drop_step [of "Suc src" b1] drop_step [of "Suc (Suc src)" b1]
          drop_step [of "Suc (Suc (Suc src))" b1] eval_nat_numeral)
    next
      case up
      have "normalize_loop b2 (src + 3) d2 = (b, d)" using less(3) True p q up g(4) by (simp add: e)
      from ih [OF this] f(1,3-) g up show ?thesis unfolding n
        by (simp add: norm.simps(2) [of "rev (take dst buf)" SLASH] drop_step [of "Suc src" b1] drop_step [of "Suc (Suc src)" b1]
          drop_step [of "Suc (Suc (Suc src))" b1] eval_nat_numeral)
    next
      case top
      have "(b2, d2) = (b, d)" using less(3) True p q top g(4) by (simp add: e)
      with f(1,3-) g(1) top show ?thesis unfolding n
        by (simp add: norm.simps(2) [of "rev (take dst buf)" SLASH] drop_step [of "Suc src" b1] drop_step [of "Suc (Suc src)" b1]
          eval_nat_numeral)
    qed
  qed
qed

section \<open>The reference: resolving components on a stack\<close>

fun splits :: "string \<Rightarrow> string list" where
  "splits [] = [[]]"
| "splits (c # cs) = (if c = SLASH then [] # splits cs else (c # hd (splits cs)) # tl (splits cs))"

fun resolve :: "string list \<Rightarrow> string list \<Rightarrow> string list" where
  "resolve st [] = st"
| "resolve st (w # ws) =
     (if w = '''' \<or> w = ''.'' then resolve st ws
      else if w = ''..'' then resolve (tl st) ws
      else resolve (w # st) ws)"

definition render :: "string list \<Rightarrow> string" where
  "render st = ''/'' @ concat (map (\<lambda>w. w @ ''/'') (rev st))"

text \<open>The separator behind the last name stays if the path ended in a separator, a dot or two dots.\<close>

definition canonical :: "string list \<Rightarrow> string \<Rightarrow> string" where
  "canonical st w = (if w \<in> {'''', ''.'', ''..''} then render st else butlast (render st))"

definition resolve_path :: "string \<Rightarrow> string" where
  "resolve_path p = canonical (resolve [] (splits (tl p))) (last (splits (tl p)))"

abbreviation no_slash :: "string \<Rightarrow> bool" where
  "no_slash w \<equiv> SLASH \<notin> set w"

definition names :: "string list \<Rightarrow> bool" where
  "names st \<longleftrightarrow> (\<forall>w\<in>set st. no_slash w \<and> w \<notin> {'''', ''.'', ''..''})"

lemma splits_not_empty [simp]: "splits cs \<noteq> []"
  by (cases cs) auto

lemma splits_join: "concat (map (\<lambda>w. SLASH # w) (splits cs)) = SLASH # cs"
proof (induction cs)
  case (Cons c cs)
  then show ?case by (cases "splits cs") auto
qed simp

lemma splits_no_slash: "w \<in> set (splits cs) \<Longrightarrow> no_slash w"
proof (induction cs arbitrary: w)
  case (Cons c cs)
  then show ?case by (cases "splits cs") (auto split: if_splits)
qed simp

lemma norm_word: "no_slash w \<Longrightarrow> norm out (w @ r) = norm (rev w @ out) r"
  by (induction w arbitrary: out) (auto simp: norm.simps(2))

lemma norm_slash:
  assumes w: "no_slash w" and r: "r = [] \<or> hd r = SLASH"
  shows "norm out (SLASH # w @ r) =
    (if w = '''' \<or> w = ''.'' then norm (slash out) r else if w = ''..'' then norm (up (slash out)) r else norm (rev w @ slash out) r)"
proof (cases w)
  case Nil
  then show ?thesis using r by (cases r) (auto simp: norm.simps(2) [of out SLASH])
next
  case (Cons d ds)
  show ?thesis
  proof (cases "d = CHR ''.''")
    case False
    then show ?thesis using Cons norm_word [OF w, of "slash out" r] by (simp add: norm.simps(2) [of out SLASH])
  next
    case d: True
    show ?thesis
    proof (cases ds)
      case Nil
      then show ?thesis using Cons d r by (cases r) (auto simp: norm.simps(2) [of out SLASH])
    next
      case (Cons e es)
      note ds = this
      show ?thesis
      proof (cases "e = CHR ''.''")
        case False
        have "e \<noteq> SLASH" "no_slash ds" using w \<open>w = d # ds\<close> ds by auto
        then show ?thesis using \<open>w = d # ds\<close> d ds False norm_word [of ds "d # slash out" r] by (simp add: norm.simps(2) [of out SLASH])
      next
        case e: True
        show ?thesis
        proof (cases es)
          case Nil
          then show ?thesis using \<open>w = d # ds\<close> d ds e r by (cases r) (auto simp: norm.simps(2) [of out SLASH])
        next
          case (Cons f fs)
          have "f \<noteq> SLASH" using w \<open>w = d # ds\<close> ds Cons by auto
          then show ?thesis using \<open>w = d # ds\<close> d ds e Cons norm_word [OF w, of "slash out" r] by (simp add: norm.simps(2) [of out SLASH])
        qed
      qed
    qed
  qed
qed

lemma render_Cons: "rev (render (w # st)) = SLASH # rev w @ rev (render st)"
  by (simp add: render_def)

lemma slash_render: "slash (rev (render st)) = rev (render st)"
proof (cases st)
  case Nil
  then show ?thesis by (simp add: slash_def render_def)
qed (simp add: slash_def render_Cons)

lemma slash_word: "w \<noteq> [] \<Longrightarrow> no_slash w \<Longrightarrow> slash (rev w @ rev (render st)) = rev (render (w # st))"
  by (cases w rule: rev_cases) (auto simp: slash_def render_Cons)

lemma up_render: "names st \<Longrightarrow> up (rev (render st)) = rev (render (tl st))"
proof (cases st)
  case Nil
  then show ?thesis by (simp add: up_def render_def)
next
  case (Cons w st')
  assume "names st"
  then have w: "no_slash w" "w \<noteq> []" using Cons by (auto simp: names_def)
  obtain t where t: "rev (render st') = SLASH # t" by (cases st') (simp_all add: render_def)
  have "dropWhile (\<lambda>c. c \<noteq> SLASH) (rev w @ SLASH # t) = SLASH # t"
    using w(1) by (subst dropWhile_append2) auto
  moreover have "render st' = ''/''" if "t = []" using t that by (simp add: rev_eq_Cons_iff)
  ultimately show ?thesis using Cons t by (simp add: up_def render_Cons Let_def)
qed

lemma butlast_render: "butlast (render (w # st)) = render st @ w"
  by (simp add: render_def butlast_append)

lemma norm_components:
  "ws \<noteq> [] \<Longrightarrow> \<forall>w\<in>set ws. no_slash w \<Longrightarrow> names st \<Longrightarrow> slash out = rev (render st) \<Longrightarrow>
   norm out (concat (map (\<lambda>w. SLASH # w) ws)) = rev (canonical (resolve st ws) (last ws))"
proof (induction ws arbitrary: st out)
  case (Cons w ws)
  let ?r = "concat (map (\<lambda>w. SLASH # w) ws)"
  have r: "?r = [] \<or> hd ?r = SLASH" by (cases ws) auto
  have w: "no_slash w" using Cons(3) by simp
  note n = norm_slash [OF w r, of out]
  have tl: "names (tl st)" using Cons(4) by (cases st) (auto simp: names_def)
  show ?case
  proof (cases "ws = []")
    case True
    then show ?thesis using n Cons(5) up_render [OF Cons(4)] by (auto simp: canonical_def butlast_render)
  next
    case False
    have "\<forall>w\<in>set ws. no_slash w" using Cons(3) by simp
    note ih = Cons(1) [OF False this]
    consider "w = '''' \<or> w = ''.''" | "w = ''..''" | "w \<notin> {'''', ''.'', ''..''}" by auto
    then show ?thesis
    proof cases
      case 1
      then show ?thesis using n False ih [OF Cons(4), of "slash out"] Cons(5) by (simp add: slash_render)
    next
      case 2
      then show ?thesis using n False ih [OF tl, of "up (slash out)"] Cons(5) up_render [OF Cons(4)] by (simp add: slash_render)
    next
      case 3
      have "names (w # st)" using 3 w Cons(4) by (simp add: names_def)
      from ih [OF this, of "rev w @ slash out"] 3 n False Cons(5) slash_word [of w st] w show ?thesis by simp
    qed
  qed
qed simp

lemma normalize_loop_resolves:
  assumes "normalize_loop (SLASH # s) 0 0 = (b, d)"
  shows "take d b = resolve_path (SLASH # s)"
proof -
  have "rev (take d b) = norm [] (SLASH # s)" using normalize_loop_norm [OF _ assms] by simp
  also have "\<dots> = rev (resolve_path (SLASH # s))"
    using norm_components [of "splits s" "[]" "[]"] splits_no_slash [of _ s]
    by (simp add: splits_join resolve_path_def names_def slash_def render_def)
  finally show ?thesis by simp
qed

lemma take_root_name: "take (length (root_name p)) p = root_name p"
proof (cases "is_net p")
  case True
  have "p = take 2 p @ takeWhile (\<lambda>c. c \<noteq> SLASH) (drop 2 p) @ dropWhile (\<lambda>c. c \<noteq> SLASH) (drop 2 p)" by simp
  then have "p = root_name p @ dropWhile (\<lambda>c. c \<noteq> SLASH) (drop 2 p)" using True by (simp add: root_name_def)
  then show ?thesis by (metis append_eq_conv_conj)
qed (simp add: root_name_def)

lemma normalize_path_components:
  "normalize_path workingDirectory path =
     (let tmp = make_absolute workingDirectory path in
      if is_absolute tmp then Some (root_name tmp @ resolve_path (drop (length (root_name tmp)) tmp)) else None)"
proof -
  let ?tmp = "make_absolute workingDirectory path"
  show ?thesis
  proof (cases "is_absolute ?tmp")
    case True
    then obtain s where s: "drop (length (root_name ?tmp)) ?tmp = SLASH # s"
      using root_directory_rest [of ?tmp] by (auto simp: is_absolute_def)
    then have "?tmp \<noteq> []" by auto
    moreover obtain b d where "normalize_loop (SLASH # s) 0 0 = (b, d)" by force
    ultimately show ?thesis
      using True s normalize_loop_resolves [of s b d] by (simp add: normalize_path_def take_root_name)
  qed (simp add: normalize_path_def)
qed

text \<open>
  C28.  Path normalisation, done in place in one pass, equals the reference that splits the path at
  its separators and resolves the components on a stack: empty components and dots are dropped, two
  dots remove the name before them and stop at the root, and the root name stays.  It fails exactly
  if the path cannot be made absolute.
\<close>

theorem normalize_path_resolves:
  "normalize_path workingDirectory path =
     (let tmp = make_absolute workingDirectory path in
      if is_absolute tmp then Some (root_name tmp @ resolve_path (drop (length (root_name tmp)) tmp)) else None)"
  by (rule normalize_path_components)

lemma resolve_names: "names ws \<Longrightarrow> resolve st (ws @ vs) = resolve (rev ws @ st) vs"
  by (induction ws arbitrary: st) (auto simp: names_def)

lemma splits_word: "no_slash w \<Longrightarrow> splits (w @ SLASH # r) = w # splits r"
  by (induction w) auto

lemma splits_single: "no_slash w \<Longrightarrow> splits w = [w]"
  by (induction w) auto

lemma splits_render: "names ws \<Longrightarrow> no_slash v \<Longrightarrow> splits (concat (map (\<lambda>w. w @ ''/'') ws) @ v) = ws @ [v]"
  by (induction ws) (auto simp: names_def splits_word splits_single)

lemma names_rev [simp]: "names (rev ws) = names ws"
  by (simp add: names_def)

lemma names_Cons: "names (w # st) \<longleftrightarrow> no_slash w \<and> w \<notin> {'''', ''.'', ''..''} \<and> names st"
  by (auto simp: names_def)

lemma resolve_wf: "names st \<Longrightarrow> \<forall>w\<in>set ws. no_slash w \<Longrightarrow> names (resolve st ws)"
proof (induction st ws rule: resolve.induct)
  case (2 st w ws)
  have "names (tl st)" using 2(4) by (cases st) (auto simp: names_def)
  then show ?case using 2 by (simp add: names_Cons)
qed simp

lemma resolve_last: "ws \<noteq> [] \<Longrightarrow> last ws \<notin> {'''', ''.'', ''..''} \<Longrightarrow> \<exists>st'. resolve st ws = last ws # st'"
  by (induction st ws rule: resolve.induct) (auto split: if_splits)

text \<open>Every normalised path has one of two shapes.\<close>

lemma resolve_path_cases:
  obtains st where "names st" "resolve_path p = render st"
  | st w where "names (w # st)" "resolve_path p = render st @ w"
proof -
  let ?ws = "splits (tl p)"
  have n: "names (resolve [] ?ws)" using splits_no_slash by (intro resolve_wf) (auto simp: names_def)
  show thesis
  proof (cases "last ?ws \<in> {'''', ''.'', ''..''}")
    case True
    then show thesis using that(1) [OF n] by (auto simp: resolve_path_def canonical_def)
  next
    case False
    with resolve_last [of ?ws "[]"] obtain st' where "resolve [] ?ws = last ?ws # st'" by auto
    then show thesis using that(2) [of "last ?ws" st'] n False by (simp add: resolve_path_def canonical_def butlast_render)
  qed
qed

lemma resolve_path_render: "names st \<Longrightarrow> resolve_path (render st) = render st"
  using splits_render [of "rev st" "[]"] resolve_names [of "rev st" "[]" "[[]]"]
  by (simp add: resolve_path_def render_def canonical_def)

lemma resolve_path_name: "names (w # st) \<Longrightarrow> resolve_path (render st @ w) = render st @ w"
  using splits_render [of "rev st" w] resolve_names [of "rev st" "[]" "[w]"] butlast_render [of w st]
  by (simp add: resolve_path_def render_def canonical_def names_def)

lemma resolve_path_idem: "resolve_path (resolve_path p) = resolve_path p"
  by (rule resolve_path_cases [of p]) (simp_all add: resolve_path_render resolve_path_name)

lemma render_head: "names st \<Longrightarrow> \<exists>s. render st = SLASH # s \<and> (s = [] \<or> hd s \<noteq> SLASH)"
proof (cases st rule: rev_cases)
  case (snoc st' w)
  assume "names st"
  then show ?thesis using snoc by (cases w) (auto simp: render_def names_def)
qed (simp add: render_def)

lemma resolve_path_head: "\<exists>s. resolve_path p = SLASH # s \<and> (s = [] \<or> hd s \<noteq> SLASH)"
proof (rule resolve_path_cases [of p])
  fix st w
  assume n: "names (w # st)" "resolve_path p = render st @ w"
  then have "names st" "w \<noteq> []" "no_slash w" by (auto simp: names_def)
  then obtain s where "render st = SLASH # s" "s = [] \<or> hd s \<noteq> SLASH" using render_head by blast
  then show ?thesis using n(2) \<open>w \<noteq> []\<close> \<open>no_slash w\<close> by (cases s; cases w) auto
qed (use render_head in auto)

text \<open>Normalisation is idempotent: a normalised path is its own normal form in every working directory.\<close>

theorem normalize_path_idempotent:
  assumes "normalize_path workingDirectory path = Some q"
  shows "normalize_path dir q = Some q"
proof -
  let ?tmp = "make_absolute workingDirectory path"
  let ?c = "resolve_path (drop (length (root_name ?tmp)) ?tmp)"
  from assms have a: "q = root_name ?tmp @ ?c" by (auto simp: normalize_path_components Let_def split: if_splits)
  obtain s where s: "?c = SLASH # s" "s = [] \<or> hd s \<noteq> SLASH" using resolve_path_head by blast
  have r: "root_name q = root_name ?tmp" "root_directory q \<noteq> []"
    using root_name_append [of ?tmp "root_name ?tmp" s] s unfolding a by auto
  then have "make_absolute dir q = q" "is_absolute q" by (simp_all add: make_absolute_def is_absolute_def)
  then show ?thesis using r a by (simp add: normalize_path_components resolve_path_idem)
qed

theorem normalize_path_idempotent_witness: "normalize_path ''/tmp'' ''/w/b'' = Some ''/w/b''"
proof -
  have "normalize_path ''/w'' ''a/.././b'' = Some ''/w/b''" by code_simp
  then show ?thesis by (rule normalize_path_idempotent)
qed

section \<open>Scopes, nodes, pools, rules and commands\<close>

text \<open>
  A scope points to its parent; as the parent does not change while a child is in use, a scope is the
  list of the frames from the scope itself to the root.  Rules and pools are identified by their
  position in the order of allocation, nodes by their canonical path; \<open>None\<close> is the null pointer.
\<close>

record Frame =
  fr_entries :: "string \<rightharpoonup> string"
  fr_rules :: "string \<rightharpoonup> nat"

type_synonym Scope = "Frame list"

definition empty_frame :: Frame where
  "empty_frame = \<lparr>fr_entries = Map.empty, fr_rules = Map.empty\<rparr>"

fun lookupBinding :: "Scope \<Rightarrow> string \<Rightarrow> string" where
  "lookupBinding [] name = []"
| "lookupBinding (f # parents) name =
     (case fr_entries f name of Some v \<Rightarrow> v | None \<Rightarrow> lookupBinding parents name)"

fun insertBinding :: "string \<Rightarrow> string \<Rightarrow> Scope \<Rightarrow> Scope" where
  "insertBinding name v [] = []"
| "insertBinding name v (f # parents) = f\<lparr>fr_entries := (fr_entries f)(name \<mapsto> v)\<rparr> # parents"

record Node =
  canonicalPath :: string
  screenPath :: string

record Pool =
  pool_name :: string
  pool_depth :: "32 word"

record NinjaRule =
  rule_name :: string
  rule_parameters :: "string \<rightharpoonup> string"

datatype DepsStyleKind = DepsNone | DepsGCC | DepsMSVC

record Command =
  cmd_rule :: nat
  cmd_outputs :: "string option list"
  cmd_inputs :: "string option list"
  numExplicitInputs :: nat
  numImplicitInputs :: nat
  cmd_parameters :: "string \<rightharpoonup> string"
  executionPool :: "nat option"
  commandString :: string
  cmd_description :: string
  depsFile :: string
  rspFile :: string
  rspFileContent :: string
  depsStyle :: DepsStyleKind
  isGenerator :: bool
  shouldRestat :: bool

text \<open>The constructor asserts that there is an output and that the counts fit.\<close>

definition new_command :: "nat \<Rightarrow> string option list \<Rightarrow> string option list \<Rightarrow> nat \<Rightarrow> nat \<Rightarrow> Command option" where
  "new_command rule outputs inputs n m =
     (if outputs \<noteq> [] \<and> n + m \<le> length inputs
      then Some \<lparr>cmd_rule = rule, cmd_outputs = outputs, cmd_inputs = inputs, numExplicitInputs = n, numImplicitInputs = m,
                 cmd_parameters = Map.empty, executionPool = None, commandString = [], cmd_description = [], depsFile = [],
                 rspFile = [], rspFileContent = [], depsStyle = DepsNone, isGenerator = False, shouldRestat = False\<rparr>
      else None)"

definition explicitInputs :: "Command \<Rightarrow> string option list" where
  "explicitInputs c = take (numExplicitInputs c) (cmd_inputs c)"

definition implicitInputs :: "Command \<Rightarrow> string option list" where
  "implicitInputs c = take (numImplicitInputs c) (drop (numExplicitInputs c) (cmd_inputs c))"

definition orderOnlyInputs :: "Command \<Rightarrow> string option list" where
  "orderOnlyInputs c = drop (numExplicitInputs c + numImplicitInputs c) (cmd_inputs c)"

definition getEffectiveDescription :: "Command \<Rightarrow> string" where
  "getEffectiveDescription c = (if cmd_description c = [] then commandString c else cmd_description c)"

definition isValidParameterName :: "string \<Rightarrow> bool" where
  "isValidParameterName name \<longleftrightarrow>
     name = ''command'' \<or> name = ''description'' \<or> name = ''deps'' \<or> name = ''depfile'' \<or> name = ''generator'' \<or>
     name = ''pool'' \<or> name = ''restat'' \<or> name = ''rspfile'' \<or> name = ''rspfile_content''"

record Manifest =
  mf_nodes :: "string \<rightharpoonup> Node"
  mf_commands :: "Command list"
  mf_pools :: "string \<rightharpoonup> nat"
  mf_defaultTargets :: "string list"
  mf_consolePool :: nat
  mf_phonyRule :: nat
  pool_heap :: "Pool list"
  rule_heap :: "NinjaRule list"

definition new_manifest :: Manifest where
  "new_manifest =
     \<lparr>mf_nodes = Map.empty, mf_commands = [], mf_pools = [''console'' \<mapsto> 0], mf_defaultTargets = [],
      mf_consolePool = 0, mf_phonyRule = 0, pool_heap = [\<lparr>pool_name = ''console'', pool_depth = 1\<rparr>],
      rule_heap = [\<lparr>rule_name = ''phony'', rule_parameters = Map.empty\<rparr>]\<rparr>"

definition new_rootScope :: Scope where
  "new_rootScope = [\<lparr>fr_entries = Map.empty, fr_rules = [''phony'' \<mapsto> 0]\<rparr>]"

definition findNode :: "string \<Rightarrow> string \<Rightarrow> Manifest \<Rightarrow> string option" where
  "findNode workingDirectory path0 m =
     (case normalize_path workingDirectory path0 of
        None \<Rightarrow> None
      | Some path \<Rightarrow> if mf_nodes m path = None then None else Some path)"

definition findOrCreateNode :: "string \<Rightarrow> string \<Rightarrow> Manifest \<Rightarrow> string option \<times> Manifest" where
  "findOrCreateNode workingDirectory path0 m =
     (case normalize_path workingDirectory path0 of
        None \<Rightarrow> (None, m)
      | Some path \<Rightarrow>
          (Some path,
           if mf_nodes m path = None
           then m\<lparr>mf_nodes := (mf_nodes m)(path \<mapsto> \<lparr>canonicalPath = path, screenPath = path0\<rparr>)\<rparr> else m))"

lemma inputs_partition:
  "new_command r outs ins n m = Some c \<Longrightarrow> cmd_inputs c = explicitInputs c @ implicitInputs c @ orderOnlyInputs c"
  by (auto simp: new_command_def explicitInputs_def implicitInputs_def orderOnlyInputs_def split: if_splits)
    (metis add.commute append_take_drop_id drop_drop)

lemma normalize_path_total: "is_absolute dir \<Longrightarrow> \<exists>x. normalize_path dir y = Some x"
  using make_absolute_absolute [of dir y] by (simp add: normalize_path_components Let_def)

text \<open>
  Nodes are unique up to path normalisation: looking a path up creates a node only if no other
  spelling of the path was seen before, keeps the spelling that came first, finds the same node for
  two spellings exactly if their normal forms agree, and touches no other node; with an absolute
  working directory there is always a node.
\<close>

theorem findOrCreateNode_unique:
  assumes "is_absolute dir" "findOrCreateNode dir p m = (n, m1)" "findOrCreateNode dir q m1 = (n', m2)"
  shows "n \<noteq> None \<and> findNode dir p m2 = n \<and> (n = n' \<longleftrightarrow> normalize_path dir p = normalize_path dir q) \<and>
    (\<forall>k. Some k \<noteq> n \<longrightarrow> mf_nodes m1 k = mf_nodes m k) \<and> mf_nodes m \<subseteq>\<^sub>m mf_nodes m1 \<and>
    (n = n' \<longrightarrow> m2 = m1) \<and> (\<forall>k. Some k = n \<longrightarrow> mf_nodes m k = None \<longrightarrow> mf_nodes m1 k = Some \<lparr>canonicalPath = k, screenPath = p\<rparr>)"
proof -
  note total = normalize_path_total [OF assms(1)]
  obtain x y where xy: "normalize_path dir p = Some x" "normalize_path dir q = Some y" using total by metis
  let ?put = "\<lambda>x p m. if mf_nodes m x = None then m\<lparr>mf_nodes := (mf_nodes m)(x \<mapsto> \<lparr>canonicalPath = x, screenPath = p\<rparr>)\<rparr> else m"
  have n: "n = Some x" "m1 = ?put x p m" "n' = Some y" "m2 = ?put y q m1"
    using assms(2,3) xy by (simp_all add: findOrCreateNode_def)
  show ?thesis unfolding findNode_def xy n by (auto simp: map_le_def)
qed

theorem findOrCreateNode_unique_witness:
  "\<exists>n m1 m2. findOrCreateNode ''/w'' ''b'' new_manifest = (n, m1) \<and> findOrCreateNode ''/w'' ''a/../b'' m1 = (n, m2) \<and> m2 = m1 \<and> n = Some ''/w/b''"
proof -
  obtain n m1 where 1: "findOrCreateNode ''/w'' ''b'' new_manifest = (n, m1)" by force
  obtain n' m2 where 2: "findOrCreateNode ''/w'' ''a/../b'' m1 = (n', m2)" by force
  have "is_absolute ''/w''" by code_simp
  note u = findOrCreateNode_unique [OF this 1 2]
  have "normalize_path ''/w'' ''b'' = Some ''/w/b''" "normalize_path ''/w'' ''a/../b'' = Some ''/w/b''" by code_simp+
  then have "n = n'" "n = Some ''/w/b''" using u 1 by (simp_all add: findOrCreateNode_def)
  then show ?thesis using 1 2 u by blast
qed

end
