(* ===== verification/Shell_Utility.thy ===== *)
theory Shell_Utility
  imports Builra_Prelude
begin

text \<open>
  Quoting of command lines (\<^verbatim>\<open>lib/Basic/ShellUtility.cpp\<close>), for POSIX shells and for
  Windows, against reference definitions of how a shell, or the start-up code of a Windows program,
  splits a command line into its arguments.
\<close>

abbreviation QUOTE :: char where "QUOTE \<equiv> CHR 0x27"
abbreviation DQUOTE :: char where "DQUOTE \<equiv> CHR 0x22"
abbreviation BSLASH :: char where "BSLASH \<equiv> CHR 0x5C"
abbreviation SPACE :: char where "SPACE \<equiv> CHR 0x20"

section \<open>POSIX\<close>

definition shell_whitelist :: string where
  "shell_whitelist = ''abcdefghijklmnopqrstuvwxyzABCDEFGHIJKLMNOPQRSTUVWXYZ1234567890-_/:@#%+=.,''"

definition escape_quotes :: "string \<Rightarrow> string" where
  "escape_quotes s = concat (map (\<lambda>c. if c = QUOTE then [QUOTE, BSLASH, QUOTE, QUOTE] else [c]) s)"

text \<open>\<open>pos\<close> is the first character that is not in the white list, the quotes are searched from there.\<close>

definition shellEscaped :: "string \<Rightarrow> string" where
  "shellEscaped s =
     (let pos = length (takeWhile (\<lambda>c. c \<in> set shell_whitelist) s) in
      if pos = length s then s
      else
        let singleQuotePos = pos + length (takeWhile (\<lambda>c. c \<noteq> QUOTE) (drop pos s)) in
        if singleQuotePos = length s then [QUOTE] @ s @ [QUOTE]
        else [QUOTE] @ take singleQuotePos s @ escape_quotes (drop singleQuotePos s) @ [QUOTE])"

text \<open>
  How a shell reads a word: between single quotes every character stands for itself, a backslash
  quotes the next character, a blank ends the word.  Characters that have another meaning to the
  shell when unquoted are refused.
\<close>

fun sh_word :: "bool \<Rightarrow> string \<Rightarrow> string \<Rightarrow> (string \<times> string) option" where
  "sh_word quoted acc [] = (if quoted then None else Some (acc, []))"
| "sh_word quoted acc (c # cs) =
     (if quoted then (if c = QUOTE then sh_word False acc cs else sh_word True (acc @ [c]) cs)
      else if c = QUOTE then sh_word True acc cs
      else if c = SPACE then Some (acc, cs)
      else if c = BSLASH then (if cs = [] then None else sh_word False (acc @ [hd cs]) (tl cs))
      else if c \<in> set shell_whitelist then sh_word False (acc @ [c]) cs
      else None)"

lemma sh_word_length: "sh_word q acc cs = Some (w, rest) \<Longrightarrow> length rest \<le> length cs"
proof (induction q acc cs rule: sh_word.induct)
  case (2 quoted acc c cs)
  then show ?case by (auto split: if_splits intro: le_SucI order_trans)
qed (simp split: if_splits)

lemma sh_word_shorter: "sh_word False acc (c # cs) = Some (w, rest) \<Longrightarrow> length rest < Suc (length cs)"
  by (auto split: if_splits dest!: sh_word_length)

text \<open>A word that begins with a number sign begins a comment.\<close>

function sh_words :: "string \<Rightarrow> string list option" where
  "sh_words cs =
     (case cs of
        [] \<Rightarrow> Some []
      | c # cs1 \<Rightarrow>
          if c = SPACE then sh_words cs1
          else if c = CHR ''#'' then Some []
          else do { (w, rest) \<leftarrow> sh_word False [] cs; ws \<leftarrow> sh_words rest; Some (w # ws) })"
  by pat_completeness auto
termination
  by (relation "measure length") (auto dest: sh_word_shorter simp del: sh_word.simps)

declare sh_words.simps [simp del]

text \<open>Arguments with a blank between them.\<close>

fun join_args :: "string list \<Rightarrow> string" where
  "join_args [] = []"
| "join_args [a] = a"
| "join_args (a # as) = a @ SPACE # join_args as"

lemma QUOTE_not_listed: "QUOTE \<notin> set shell_whitelist" "SPACE \<notin> set shell_whitelist" "BSLASH \<notin> set shell_whitelist"
  by (simp_all add: shell_whitelist_def)

lemma escape_quotes_none: "QUOTE \<notin> set s \<Longrightarrow> escape_quotes s = s"
  by (induction s) (auto simp: escape_quotes_def)

lemma escape_quotes_append: "escape_quotes (s @ t) = escape_quotes s @ escape_quotes t"
  by (simp add: escape_quotes_def)

text \<open>The three cases of the code come to two: nothing to quote, or everything in quotes.\<close>

lemma shellEscaped_alt:
  "shellEscaped s = (if set s \<subseteq> set shell_whitelist then s else QUOTE # escape_quotes s @ [QUOTE])"
proof (cases "set s \<subseteq> set shell_whitelist")
  case True
  then have "takeWhile (\<lambda>c. c \<in> set shell_whitelist) s = s" by (intro takeWhile_eq_all_conv [THEN iffD2]) auto
  then have "length (takeWhile (\<lambda>c. c \<in> set shell_whitelist) s) = length s" by (rule arg_cong)
  then show ?thesis using True by (simp add: shellEscaped_def Let_def)
next
  case False
  let ?a = "takeWhile (\<lambda>c. c \<in> set shell_whitelist) s"
  let ?pos = "length ?a"
  let ?b = "takeWhile (\<lambda>c. c \<noteq> QUOTE) (drop ?pos s)"
  let ?q = "?pos + length ?b"
  have "?a \<noteq> s" using False by (auto simp: takeWhile_eq_all_conv)
  then have pos: "?pos \<noteq> length s" by (metis takeWhile_eq_take take_all order_refl)
  have take: "take ?q s = ?a @ ?b"
    by (simp add: take_add takeWhile_eq_take [symmetric])
  have "QUOTE \<notin> set (take ?q s)" using QUOTE_not_listed(1) by (auto simp: take dest: set_takeWhileD)
  then have "escape_quotes s = take ?q s @ escape_quotes (drop ?q s)"
    using escape_quotes_append [of "take ?q s" "drop ?q s"] escape_quotes_none by simp
  then show ?thesis using False pos by (simp add: shellEscaped_def Let_def escape_quotes_def)
qed

lemma sh_word_quoted: "sh_word True acc (escape_quotes s @ QUOTE # rest) = sh_word False (acc @ s) rest"
  by (induction s arbitrary: acc) (simp_all add: escape_quotes_def)

lemma sh_word_listed: "set s \<subseteq> set shell_whitelist \<Longrightarrow> sh_word False acc (s @ rest) = sh_word False (acc @ s) rest"
  using QUOTE_not_listed by (induction s arbitrary: acc) auto

lemma sh_word_escaped: "sh_word False acc (shellEscaped s @ rest) = sh_word False (acc @ s) rest"
  by (simp add: shellEscaped_alt sh_word_listed sh_word_quoted)

lemma shellEscaped_start:
  assumes "a \<noteq> []" "hd a \<noteq> CHR ''#''"
  shows "\<exists>c cs. shellEscaped a = c # cs \<and> c \<noteq> SPACE \<and> c \<noteq> CHR ''#''"
  using assms QUOTE_not_listed by (cases a) (auto simp: shellEscaped_alt)

text \<open>
  A command line of quoted arguments is split by a shell into exactly these arguments, whatever
  characters they contain, if no argument is empty or begins with a number sign.
\<close>

theorem shellEscaped_roundtrip:
  assumes "\<forall>a \<in> set args. a \<noteq> [] \<and> hd a \<noteq> CHR ''#''"
  shows "sh_words (join_args (map shellEscaped args)) = Some args"
  using assms
proof (induction args rule: join_args.induct)
  case 1
  show ?case by (simp add: sh_words.simps)
next
  case (2 a)
  then obtain c cs where c: "shellEscaped a = c # cs" "c \<noteq> SPACE" "c \<noteq> CHR ''#''" using shellEscaped_start by force
  have "sh_word False [] (c # cs) = Some (a, [])" using sh_word_escaped [of "[]" a "[]"] c(1) by simp
  then show ?case using c by (simp add: sh_words.simps [of "c # cs"] sh_words.simps [of "[]"] del: sh_word.simps)
next
  case (3 a b as)
  then obtain c cs where c: "shellEscaped a = c # cs" "c \<noteq> SPACE" "c \<noteq> CHR ''#''" using shellEscaped_start [of a] by auto
  let ?rest = "join_args (map shellEscaped (b # as))"
  have "sh_word False [] (c # cs @ SPACE # ?rest) = Some (a, ?rest)"
    using sh_word_escaped [of "[]" a "SPACE # ?rest"] c(1) by simp
  then show ?case using c 3 by (simp add: sh_words.simps [of "c # _"] del: sh_word.simps)
qed

theorem shellEscaped_roundtrip_witness:
  "sh_words (join_args (map shellEscaped [''echo'', ''it'' @ [QUOTE] @ ''s'', ''a b''])) = Some [''echo'', ''it'' @ [QUOTE] @ ''s'', ''a b'']"
  using shellEscaped_roundtrip [of "[''echo'', ''it'' @ [QUOTE] @ ''s'', ''a b'']"] by simp

text \<open>
  The two exceptions are real: an empty argument is quoted to nothing, so that it is lost, and an
  argument that begins with a number sign is passed unquoted, so that it and all that follow are
  taken for a comment.
\<close>

theorem shellEscaped_loses_arguments:
  "sh_words (join_args (map shellEscaped [''cc'', [], ''x.c''])) = Some [''cc'', ''x.c''] \<and>
   sh_words (join_args (map shellEscaped [''cc'', ''#1.c'', ''x.c''])) = Some [''cc'']"
  by code_simp

section \<open>Windows\<close>

definition needsQuote :: "char \<Rightarrow> bool" where
  "needsQuote c = (c \<in> {SPACE, CHR 0x09, CHR 0x0A, CHR 0x0B, DQUOTE})"

text \<open>The loop; a run of backslashes is doubled where a quote follows it.\<close>

function escape_windows :: "string \<Rightarrow> string \<Rightarrow> string" where
  "escape_windows escaped i =
     (let numBackslashes = length (takeWhile (\<lambda>c. c = BSLASH) i);
          i1 = dropWhile (\<lambda>c. c = BSLASH) i in
      case i1 of
        [] \<Rightarrow> escaped @ replicate (numBackslashes * 2) BSLASH
      | c # i2 \<Rightarrow>
          if c = DQUOTE then escape_windows (escaped @ replicate (numBackslashes * 2 + 1) BSLASH @ [c]) i2
          else escape_windows (escaped @ replicate numBackslashes BSLASH @ [c]) i2)"
  by pat_completeness auto
termination
proof (relation "measure (\<lambda>(escaped, i). length i)", goal_cases)
  case (2 escaped i x xa c i2)
  then have "length (c # i2) \<le> length i" using length_dropWhile_le [of "\<lambda>c. c = BSLASH" i] by metis
  then show ?case by simp
next
  case (3 escaped i x xa c i2)
  then have "length (c # i2) \<le> length i" using length_dropWhile_le [of "\<lambda>c. c = BSLASH" i] by metis
  then show ?case by simp
qed simp

declare escape_windows.simps [simp del]

definition formatWindowsCommandArg :: "string \<Rightarrow> string" where
  "formatWindowsCommandArg s =
     (if \<not> list_ex needsQuote s then s else escape_windows [DQUOTE] s @ [DQUOTE])"

definition formatWindowsCommandString :: "string list \<Rightarrow> string" where
  "formatWindowsCommandString args = butlast (concat (map (\<lambda>a. formatWindowsCommandArg a @ [SPACE]) args))"

text \<open>
  How a Windows program splits its command line, as the comment in the code describes it: \<open>2n\<close>
  backslashes and a quote are \<open>n\<close> backslashes and a quote that opens or closes, \<open>2n + 1\<close> are \<open>n\<close>
  backslashes and a literal quote, and other backslashes stand for themselves.  \<open>n\<close> counts the
  backslashes just read.
\<close>

fun win_arg :: "bool \<Rightarrow> nat \<Rightarrow> string \<Rightarrow> string \<Rightarrow> string \<times> string" where
  "win_arg quoted n acc [] = (acc @ replicate n BSLASH, [])"
| "win_arg quoted n acc (c # cs) =
     (if c = BSLASH then win_arg quoted (Suc n) acc cs
      else if c = DQUOTE then
        (if even n then win_arg (\<not> quoted) 0 (acc @ replicate (n div 2) BSLASH) cs
         else win_arg quoted 0 (acc @ replicate (n div 2) BSLASH @ [DQUOTE]) cs)
      else if \<not> quoted \<and> (c = SPACE \<or> c = CHR 0x09) then (acc @ replicate n BSLASH, cs)
      else win_arg quoted 0 (acc @ replicate n BSLASH @ [c]) cs)"

lemma win_arg_length: "length (snd (win_arg q n acc cs)) \<le> length cs"
proof (induction q n acc cs rule: win_arg.induct)
  case (2 quoted n acc c cs)
  then show ?case
    by (cases "c = BSLASH"; cases "c = DQUOTE"; cases "even n"; cases "\<not> quoted \<and> (c = SPACE \<or> c = CHR 0x09)")
      (simp_all add: le_SucI)
qed simp

lemma win_arg_shorter: "length (snd (win_arg q n acc (c # cs))) < Suc (length cs)"
  by (simp add: le_imp_less_Suc win_arg_length)

function win_args :: "string \<Rightarrow> string list" where
  "win_args cs =
     (case cs of
        [] \<Rightarrow> []
      | c # cs1 \<Rightarrow>
          if c = SPACE \<or> c = CHR 0x09 then win_args cs1
          else (case win_arg False 0 [] cs of (w, rest) \<Rightarrow> w # win_args rest))"
  by pat_completeness auto
termination
proof (relation "measure length", goal_cases)
  case (3 cs c cs1 w rest)
  have "rest = snd (win_arg False 0 [] (c # cs1))" using 3(1,3) by (metis snd_conv)
  then show ?case using win_arg_shorter [of False 0 "[]" c cs1] 3(1) by (simp del: win_arg.simps)
qed simp_all

declare win_args.simps [simp del]

lemma escape_windows_cases:
  "dropWhile (\<lambda>c. c = BSLASH) i = [] \<Longrightarrow>
   escape_windows e i = e @ replicate (length (takeWhile (\<lambda>c. c = BSLASH) i) * 2) BSLASH"
  "dropWhile (\<lambda>c. c = BSLASH) i = c # i2 \<Longrightarrow>
   escape_windows e i = escape_windows (e @ replicate (if c = DQUOTE then length (takeWhile (\<lambda>c. c = BSLASH) i) * 2 + 1
     else length (takeWhile (\<lambda>c. c = BSLASH) i)) BSLASH @ [c]) i2"
  by (subst escape_windows.simps, simp only: Let_def list.case if_distrib cong: if_cong, simp)+

lemma escape_windows_acc: "escape_windows (a @ b) i = a @ escape_windows b i"
proof (induction "length i" arbitrary: b i rule: less_induct)
  case less
  show ?case
  proof (cases "dropWhile (\<lambda>c. c = BSLASH) i")
    case Nil
    then show ?thesis by (simp only: escape_windows_cases(1) append_assoc)
  next
    case (Cons c i2)
    have "length i2 < length i" using length_dropWhile_le [of "\<lambda>c. c = BSLASH" i] Cons by simp
    then show ?thesis using less [of i2] by (simp only: escape_windows_cases(2) [OF Cons] append_assoc)
  qed
qed

lemma win_arg_slashes: "win_arg q m acc (replicate n BSLASH @ cs) = win_arg q (m + n) acc cs"
  by (induction n arbitrary: m) simp_all

lemma slash_run: "i = replicate (length (takeWhile (\<lambda>c. c = BSLASH) i)) BSLASH @ dropWhile (\<lambda>c. c = BSLASH) i"
  by (induction i) auto

lemma win_arg_escaped: "win_arg True 0 acc (escape_windows [] s @ DQUOTE # rest) = win_arg False 0 (acc @ s) rest"
proof (induction "length s" arbitrary: acc s rule: less_induct)
  case less
  let ?n = "length (takeWhile (\<lambda>c. c = BSLASH) s)"
  note s = slash_run [of s]
  show ?case
  proof (cases "dropWhile (\<lambda>c. c = BSLASH) s")
    case Nil
    then have "escape_windows [] s = replicate (?n * 2) BSLASH" by (simp only: escape_windows_cases(1) append.simps)
    moreover have "s = replicate ?n BSLASH" using s Nil by simp
    ultimately show ?thesis by (simp add: win_arg_slashes)
  next
    case (Cons c i2)
    let ?m = "if c = DQUOTE then ?n * 2 + 1 else ?n"
    have "length i2 < length s" using length_dropWhile_le [of "\<lambda>c. c = BSLASH" s] Cons by simp
    note IH = less [OF this]
    have c: "c \<noteq> BSLASH" using Cons hd_dropWhile [of "\<lambda>c. c = BSLASH" s] by auto
    have "escape_windows [] s = (replicate ?m BSLASH @ [c]) @ escape_windows [] i2"
      using escape_windows_acc [of "replicate ?m BSLASH @ [c]" "[]" i2] by (simp only: escape_windows_cases(2) [OF Cons] append.simps append_Nil2)
    moreover have "s = replicate ?n BSLASH @ c # i2" using s Cons by simp
    ultimately show ?thesis using IH [of "acc @ replicate ?n BSLASH @ [c]"] c
      by (cases "c = DQUOTE") (simp_all add: win_arg_slashes)
  qed
qed

text \<open>Where an argument ends.\<close>

definition at_end :: "string \<Rightarrow> bool" where
  "at_end rest = (rest = [] \<or> hd rest = SPACE)"

lemma win_arg_unquoted:
  "\<forall>c \<in> set s. \<not> needsQuote c \<Longrightarrow> at_end rest \<Longrightarrow>
   win_arg False n acc (s @ rest) = (acc @ replicate n BSLASH @ s, drop 1 rest)"
proof (induction s arbitrary: n acc)
  case Nil
  then show ?case by (cases rest) (simp_all add: at_end_def)
next
  case (Cons c s)
  then show ?case using Cons.IH [of "Suc n" acc] Cons.IH [of 0 "acc @ replicate n BSLASH @ [c]"]
    by (auto simp: needsQuote_def replicate_append_same [symmetric])
qed

lemma win_arg_formatted: "at_end rest \<Longrightarrow> win_arg False 0 [] (formatWindowsCommandArg s @ rest) = (s, drop 1 rest)"
proof (cases "list_ex needsQuote s")
  case False
  assume "at_end rest"
  then show ?thesis using win_arg_unquoted [of s rest 0 "[]"] False by (simp add: formatWindowsCommandArg_def list_ex_iff)
next
  case True
  assume e: "at_end rest"
  have "win_arg False 0 [] (formatWindowsCommandArg s @ rest) = win_arg True 0 [] (escape_windows [] s @ DQUOTE # rest)"
    using True escape_windows_acc [of "[DQUOTE]" "[]" s] by (simp add: formatWindowsCommandArg_def)
  also have "\<dots> = win_arg False 0 s rest" by (simp add: win_arg_escaped)
  also have "\<dots> = (s, drop 1 rest)" using win_arg_unquoted [of "[]" rest 0 s] e by simp
  finally show ?thesis .
qed

lemma formatted_start: "s \<noteq> [] \<Longrightarrow> \<exists>c cs. formatWindowsCommandArg s = c # cs \<and> c \<noteq> SPACE \<and> c \<noteq> CHR 0x09"
proof (cases "list_ex needsQuote s")
  case False
  assume "s \<noteq> []"
  then show ?thesis using False by (cases s) (auto simp: formatWindowsCommandArg_def needsQuote_def)
next
  case True
  then show ?thesis using escape_windows_acc [of "[DQUOTE]" "[]" s] by (simp add: formatWindowsCommandArg_def)
qed

lemma formatWindowsCommandString_join: "formatWindowsCommandString args = join_args (map formatWindowsCommandArg args)"
proof -
  have "butlast (concat (map (\<lambda>a. f a @ [SPACE]) args)) = join_args (map f args)" for f :: "string \<Rightarrow> string"
  proof (induction args rule: join_args.induct)
    case (3 a b as)
    have "concat (map (\<lambda>a. f a @ [SPACE]) (b # as)) \<noteq> []" by simp
    then have "butlast ((f a @ [SPACE]) @ concat (map (\<lambda>a. f a @ [SPACE]) (b # as))) =
        f a @ SPACE # butlast (concat (map (\<lambda>a. f a @ [SPACE]) (b # as)))"
      by (simp only: butlast_append append_assoc append.simps butlast.simps if_False list.distinct)
    then show ?case using 3 by simp
  qed simp_all
  then show ?thesis by (simp add: formatWindowsCommandString_def)
qed

text \<open>
  On Windows, too, a formatted command line is split into the arguments it was made from, with any
  mixture of quotes, blanks and backslashes, if no argument is empty.
\<close>

theorem formatWindowsCommandString_roundtrip:
  assumes "\<forall>a \<in> set args. a \<noteq> []"
  shows "win_args (formatWindowsCommandString args) = args"
  unfolding formatWindowsCommandString_join using assms
proof (induction args rule: join_args.induct)
  case 1
  show ?case by (simp add: win_args.simps)
next
  case (2 a)
  then obtain c cs where c: "formatWindowsCommandArg a = c # cs" "c \<noteq> SPACE" "c \<noteq> CHR 0x09" using formatted_start by force
  have "win_arg False 0 [] (c # cs) = (a, [])" using win_arg_formatted [of "[]" a] c(1) by (simp add: at_end_def del: win_arg.simps)
  then show ?case using c by (simp add: win_args.simps [of "c # cs"] win_args.simps [of "[]"] del: win_arg.simps)
next
  case (3 a b as)
  then obtain c cs where c: "formatWindowsCommandArg a = c # cs" "c \<noteq> SPACE" "c \<noteq> CHR 0x09" using formatted_start [of a] by auto
  let ?rest = "join_args (map formatWindowsCommandArg (b # as))"
  have "win_arg False 0 [] (c # cs @ SPACE # ?rest) = (a, ?rest)"
    using win_arg_formatted [of "SPACE # ?rest" a] c(1) by (simp add: at_end_def del: win_arg.simps)
  then show ?case using c 3 by (simp add: win_args.simps [of "c # _"] del: win_arg.simps)
qed

theorem formatWindowsCommandString_roundtrip_witness:
  "win_args (formatWindowsCommandString [''a b'' @ [BSLASH], [DQUOTE, BSLASH, BSLASH, DQUOTE], ''c'']) =
     [''a b'' @ [BSLASH], [DQUOTE, BSLASH, BSLASH, DQUOTE], ''c'']"
  using formatWindowsCommandString_roundtrip [of "[''a b'' @ [BSLASH], [DQUOTE, BSLASH, BSLASH, DQUOTE], ''c'']"] by simp

end
