(* ===== verification/Ninja_Eval.thy ===== *)
theory Ninja_Eval
  imports Ninja_Parser Ninja_Manifest Shell_Utility
begin

text \<open>
  Evaluation of the string templates of a Ninja manifest, the first half of
  \<^verbatim>\<open>lib/Ninja/ManifestLoader.cpp\<close>: escapes and variable references, and the parameters of a
  build statement, whose templates refer to each other.  An evaluation gives the text written to the
  result and the messages passed to the error callback, in order; it is \<open>None\<close> where the code
  dereferences a null pointer or does not return.
\<close>

type_synonym evaluation = "(string \<times> string list) option"

definition andthen :: "evaluation \<Rightarrow> evaluation \<Rightarrow> evaluation" where
  "andthen m n = do { (text, errs) \<leftarrow> m; (text', errs') \<leftarrow> n; Some (text @ text', errs @ errs') }"

abbreviation DOLLAR :: char where "DOLLAR \<equiv> CHR ''$''"

section \<open>Templates\<close>

lemma template_shorter: "dropWhile P s = x # y # ys \<Longrightarrow> length ys + 2 \<le> length s"
  using length_dropWhile_le [of P s] by simp

text \<open>
  The loop of \<^verbatim>\<open>evalString\<close>: copy up to the next dollar sign, then handle the escape or
  reference that it starts.
\<close>

function evalString :: "(string \<Rightarrow> evaluation) \<Rightarrow> (string \<Rightarrow> string) \<Rightarrow> string \<Rightarrow> evaluation" where
  "evalString lookup err s =
     andthen (Some (takeWhile (\<lambda>c. c \<noteq> DOLLAR) s, []))
       (case dropWhile (\<lambda>c. c \<noteq> DOLLAR) s of
          [] \<Rightarrow> Some ([], [])
        | [_] \<Rightarrow> Some ([], [err ''invalid '$'-escape at end of string''])
        | _ # c # cs \<Rightarrow>
            if c = LF then evalString lookup err (dropWhile isspace cs)
            else if c = CHR '' '' \<or> c = CHR '':'' \<or> c = DOLLAR then
              andthen (Some ([c], [])) (evalString lookup err cs)
            else if c = CHR ''{'' then
              let name = takeWhile (\<lambda>c. c \<noteq> CHR ''}'') cs; after = dropWhile (\<lambda>c. c \<noteq> CHR ''}'') cs in
              if after = [] then Some ([], [err ''invalid variable reference in string (missing trailing '}')''])
              else
                andthen (if list_all isIdentifierChar name then lookup name
                         else Some ([], [err ''invalid variable name in reference'']))
                  (evalString lookup err (tl after))
            else if isSimpleIdentifierChar c then
              andthen (lookup (c # takeWhile isSimpleIdentifierChar cs))
                (evalString lookup err (dropWhile isSimpleIdentifierChar cs))
            else Some ([], [err ''invalid '$'-escape (literal '$' should be written as '$$')'']))"
  by pat_completeness auto
termination
proof (relation "measure (\<lambda>(lookup, err, s). length s)")
qed (auto dest!: template_shorter simp: le_less_trans [OF length_dropWhile_le] less_Suc_eq_le
  intro: le_trans [OF length_dropWhile_le] diff_le_mono [OF length_dropWhile_le, THEN le_less_trans])

declare evalString.simps [simp del]

section \<open>Build parameters\<close>

fun join_paths :: "(string \<Rightarrow> string option) \<Rightarrow> char \<Rightarrow> string option list \<Rightarrow> string option" where
  "join_paths path sep [] = Some []"
| "join_paths path sep (node # nodes) =
     do { k \<leftarrow> node; p \<leftarrow> path k; rest \<leftarrow> join_paths path sep nodes;
          Some (p @ (if nodes = [] then [] else sep # rest)) }"

definition node_text :: "bool \<Rightarrow> Manifest \<Rightarrow> string \<Rightarrow> string option" where
  "node_text shellEscape m k =
     map_option (\<lambda>node. if shellEscape then shellEscaped (screenPath node) else screenPath node) (mf_nodes m k)"

text \<open>
  The recursion over the rule's templates need not end.  A lookup takes one unit of fuel for every
  template that is being evaluated; there are nine parameter names, so that nine units are enough,
  as is shown below.
\<close>

fun lookupBuildParameterImpl :: "nat \<Rightarrow> bool \<Rightarrow> Manifest \<Rightarrow> Scope \<Rightarrow> Command \<Rightarrow> string \<Rightarrow> evaluation" where
  "lookupBuildParameterImpl fuel shellEscapeInAndOut m scope decl name =
     (if name = ''in'' \<or> name = ''in_newline'' then
        do { text \<leftarrow> join_paths (node_text shellEscapeInAndOut m) (if name = ''in'' then CHR '' '' else LF) (explicitInputs decl);
             Some (text, []) }
      else if name = ''out'' then
        do { text \<leftarrow> join_paths (node_text shellEscapeInAndOut m) (CHR '' '') (cmd_outputs decl); Some (text, []) }
      else
        (case cmd_parameters decl name of
           Some v \<Rightarrow> Some (v, [])
         | None \<Rightarrow>
             (case rule_parameters (rule_heap m ! cmd_rule decl) name of
                Some template \<Rightarrow>
                  (case fuel of
                     0 \<Rightarrow> None
                   | Suc n \<Rightarrow>
                       evalString (lookupBuildParameterImpl n shellEscapeInAndOut m scope decl)
                         (\<lambda>msg. msg @ '' during evaluation of '' @ [CHR 0x27] @ name @ [CHR 0x27]) template)
              | None \<Rightarrow> Some (lookupBinding scope name, []))))"

declare lookupBuildParameterImpl.simps [simp del]

definition parameter_fuel :: nat where "parameter_fuel = 9"

definition lookupNamedBuildParameter :: "Manifest \<Rightarrow> Scope \<Rightarrow> Command \<Rightarrow> string \<Rightarrow> evaluation" where
  "lookupNamedBuildParameter m scope decl name =
     lookupBuildParameterImpl parameter_fuel (name = ''command'') m scope decl name"

section \<open>Templates as sequences of pieces\<close>

text \<open>
  The reference for \<open>evalString\<close>: a template is a sequence of texts, references and errors, which does
  not depend on what the references mean.
\<close>

datatype piece = Text string | Ref string | Bad string

function pieces :: "string \<Rightarrow> piece list" where
  "pieces [] = []"
| "pieces (c # cs) =
     (if c \<noteq> DOLLAR then Text [c] # pieces cs
      else
        (case cs of
           [] \<Rightarrow> [Bad ''invalid '$'-escape at end of string'']
         | d # ds \<Rightarrow>
             if d = LF then pieces (dropWhile isspace ds)
             else if d \<in> {CHR '' '', CHR '':'', DOLLAR} then Text [d] # pieces ds
             else if d = CHR ''{'' then
               (let name = takeWhile (\<lambda>c. c \<noteq> CHR ''}'') ds in
                if CHR ''}'' \<notin> set ds then [Bad ''invalid variable reference in string (missing trailing '}')'']
                else (if list_all isIdentifierChar name then Ref name else Bad ''invalid variable name in reference'')
                  # pieces (drop (Suc (length name)) ds))
             else if isSimpleIdentifierChar d then
               Ref (d # takeWhile isSimpleIdentifierChar ds) # pieces (dropWhile isSimpleIdentifierChar ds)
             else [Bad ''invalid '$'-escape (literal '$' should be written as '$$')'']))"
  by pat_completeness auto
termination
  by (relation "measure length") (auto simp: less_Suc_eq_le intro: le_trans [OF length_dropWhile_le])

declare pieces.simps(2) [simp del]

fun render_pieces :: "(string \<Rightarrow> evaluation) \<Rightarrow> (string \<Rightarrow> string) \<Rightarrow> piece list \<Rightarrow> evaluation" where
  "render_pieces lookup err [] = Some ([], [])"
| "render_pieces lookup err (Text t # ps) = andthen (Some (t, [])) (render_pieces lookup err ps)"
| "render_pieces lookup err (Ref r # ps) = andthen (lookup r) (render_pieces lookup err ps)"
| "render_pieces lookup err (Bad e # ps) = andthen (Some ([], [err e])) (render_pieces lookup err ps)"

fun refs :: "piece list \<Rightarrow> string list" where
  "refs [] = []"
| "refs (Ref r # ps) = r # refs ps"
| "refs (_ # ps) = refs ps"

definition references :: "string \<Rightarrow> string list" where
  "references s = refs (pieces s)"

lemma andthen_assoc: "andthen (andthen a b) c = andthen a (andthen b c)"
  by (auto simp: andthen_def split: option.splits bind_splits)

lemma andthen_Nil [simp]: "andthen (Some ([], [])) m = m"
  by (cases m) (auto simp: andthen_def)

lemma andthen_None_iff [simp]: "andthen m n = None \<longleftrightarrow> m = None \<or> n = None"
  by (cases m; cases n) (auto simp: andthen_def)

lemma evalString_copy: "c \<noteq> DOLLAR \<Longrightarrow> evalString lookup err (c # cs) = andthen (Some ([c], [])) (evalString lookup err cs)"
  by (subst (1 2) evalString.simps) (simp add: andthen_assoc [symmetric], simp add: andthen_def)

lemma dropWhile_brace: "CHR ''}'' \<in> set ds \<Longrightarrow> tl (dropWhile (\<lambda>c. c \<noteq> CHR ''}'') ds) = drop (Suc (length (takeWhile (\<lambda>c. c \<noteq> CHR ''}'') ds))) ds"
  by (simp add: dropWhile_eq_drop tl_drop drop_Suc)

text \<open>
  The evaluation of a template is the rendering of its pieces.
\<close>

lemma evalString_pieces: "evalString lookup err s = render_pieces lookup err (pieces s)"
proof (induction s rule: pieces.induct)
  case 1
  show ?case by (simp add: evalString.simps)
next
  case (2 c cs)
  show ?case
  proof (cases "c = DOLLAR")
    case False
    then show ?thesis using 2(1) by (simp add: evalString_copy pieces.simps(2))
  next
    case True
    show ?thesis
    proof (cases cs)
      case Nil
      then show ?thesis using True by (simp add: evalString.simps [of _ _ "[DOLLAR]"] pieces.simps(2) andthen_def)
    next
      case (Cons d ds)
      note ih = 2(2-) [OF _ Cons]
      note e = evalString.simps [of lookup err "DOLLAR # d1 # ds" for d1] pieces.simps(2) [of DOLLAR "d1 # ds" for d1]
      consider "d = LF" | "d \<in> {CHR '' '', CHR '':'', DOLLAR}" | "d = CHR ''{''" | "isSimpleIdentifierChar d" "d \<noteq> LF" "d \<notin> {CHR '' '', CHR '':'', DOLLAR}" "d \<noteq> CHR ''{''"
        | "\<not> isSimpleIdentifierChar d" "d \<noteq> LF" "d \<notin> {CHR '' '', CHR '':'', DOLLAR}" "d \<noteq> CHR ''{''" by blast
      then show ?thesis
      proof cases
        case 3
        show ?thesis using ih True Cons 3 dropWhile_brace [of ds] by (auto simp: e Let_def dropWhile_eq_Nil_conv andthen_def)
      qed (use ih True Cons in \<open>auto simp: e andthen_def\<close>)
    qed
  qed
qed

lemma render_pieces_cong:
  "(\<And>r. r \<in> set (refs ps) \<Longrightarrow> lookup r = lookup' r) \<Longrightarrow> render_pieces lookup err ps = render_pieces lookup' err ps"
  by (induction ps rule: refs.induct) auto

lemma render_pieces_None: "render_pieces lookup err ps = None \<longleftrightarrow> (\<exists>r\<in>set (refs ps). lookup r = None)"
  by (induction ps rule: refs.induct) auto

lemma evalString_cong:
  "(\<And>r. r \<in> set (references s) \<Longrightarrow> lookup r = lookup' r) \<Longrightarrow> evalString lookup err s = evalString lookup' err s"
  unfolding evalString_pieces references_def by (rule render_pieces_cong)

lemma evalString_None: "evalString lookup err s = None \<longleftrightarrow> (\<exists>r\<in>set (references s). lookup r = None)"
  by (simp add: evalString_pieces references_def render_pieces_None)

lemma evalString_total: "(\<And>r. lookup r \<noteq> None) \<Longrightarrow> \<exists>text errs. evalString lookup err s = Some (text, errs)"
  using evalString_None [of lookup err s] by (cases "evalString lookup err s") (metis, auto)

text \<open>A text in which every dollar sign is doubled stands for itself.\<close>

fun escape_text :: "string \<Rightarrow> string" where
  "escape_text [] = []"
| "escape_text (c # cs) = (if c \<in> {DOLLAR, CHR '' '', CHR '':''} then DOLLAR # c # escape_text cs else c # escape_text cs)"

lemma pieces_escape: "pieces (escape_text s) = map (\<lambda>c. Text [c]) s"
  by (induction s rule: escape_text.induct) (auto simp: pieces.simps(2))

lemma render_texts: "render_pieces lookup err (map (\<lambda>c. Text [c]) s) = Some (s, [])"
  by (induction s) (auto simp: andthen_def)

text \<open>
  A template made from a text by escaping every dollar sign, blank and colon evaluates to the text,
  without an error and whatever the variables are bound to.
\<close>

theorem evalString_escape: "evalString lookup err (escape_text s) = Some (s, [])"
  by (simp add: evalString_pieces pieces_escape render_texts)

section \<open>The fuel of parameter lookups\<close>

text \<open>The template that a lookup evaluates, if it evaluates one.\<close>

definition template_of :: "Manifest \<Rightarrow> Command \<Rightarrow> string \<Rightarrow> string option" where
  "template_of m decl name =
     (if name \<in> {''in'', ''in_newline'', ''out''} \<or> cmd_parameters decl name \<noteq> None then None
      else rule_parameters (rule_heap m ! cmd_rule decl) name)"

lemma lookup_direct:
  "template_of m decl name = None \<Longrightarrow>
   lookupBuildParameterImpl n esc m scope decl name = lookupBuildParameterImpl k esc m scope decl name"
  by (auto simp: lookupBuildParameterImpl.simps template_of_def split: if_splits option.splits)

lemma lookup_template:
  assumes "template_of m decl name = Some t"
  shows "lookupBuildParameterImpl 0 esc m scope decl name = None"
    "\<exists>err. \<forall>n. lookupBuildParameterImpl (Suc n) esc m scope decl name = evalString (lookupBuildParameterImpl n esc m scope decl) err t"
  using assms by (auto simp: lookupBuildParameterImpl.simps template_of_def split: if_splits)

lemma lookup_None_Suc:
  "template_of m decl name = Some t \<Longrightarrow> lookupBuildParameterImpl (Suc n) esc m scope decl name = None \<longleftrightarrow>
     (\<exists>r\<in>set (references t). lookupBuildParameterImpl n esc m scope decl r = None)"
  using lookup_template(2) [of m decl name t esc scope] evalString_None by metis

lemma lookup_mono:
  "lookupBuildParameterImpl n esc m scope decl name = Some r \<Longrightarrow> n \<le> k \<Longrightarrow> lookupBuildParameterImpl k esc m scope decl name = Some r"
proof (induction n arbitrary: name r k)
  case 0
  then have "template_of m decl name = None" using lookup_template(1) by (cases "template_of m decl name") auto
  then show ?case using 0 lookup_direct by metis
next
  case (Suc n)
  from Suc(3) obtain j where k: "k = Suc j" "n \<le> j" by (cases k) auto
  show ?case
  proof (cases "template_of m decl name")
    case None
    then show ?thesis using Suc(2) lookup_direct by metis
  next
    case (Some t)
    obtain err where e: "\<And>n. lookupBuildParameterImpl (Suc n) esc m scope decl name = evalString (lookupBuildParameterImpl n esc m scope decl) err t"
      using lookup_template(2) [OF Some] by blast
    have "lookupBuildParameterImpl n esc m scope decl x = lookupBuildParameterImpl j esc m scope decl x" if "x \<in> set (references t)" for x
    proof -
      have "lookupBuildParameterImpl n esc m scope decl x \<noteq> None"
        using lookup_None_Suc [OF Some, of n esc scope] that Suc(2) by auto
      then obtain y where "lookupBuildParameterImpl n esc m scope decl x = Some y" by blast
      then show ?thesis using Suc(1) [OF _ k(2)] by simp
    qed
    then show ?thesis using Suc(2) evalString_cong [of t] unfolding k e by metis
  qed
qed

definition parameter_names :: "string set" where
  "parameter_names = {name. isValidParameterName name}"

lemma parameter_names: "finite parameter_names" "card parameter_names = parameter_fuel"
  by (simp_all add: parameter_names_def isValidParameterName_def parameter_fuel_def Collect_disj_eq insert_def [symmetric])

text \<open>The templates whose evaluation ends grow with the fuel, until there is none left that could.\<close>

lemma lookup_fixpoint:
  fixes esc :: bool and scope :: Scope
  assumes valid: "dom (rule_parameters (rule_heap m ! cmd_rule decl)) \<subseteq> parameter_names"
  defines "A \<equiv> \<lambda>n. {name. template_of m decl name \<noteq> None \<and> lookupBuildParameterImpl n esc m scope decl name \<noteq> None}"
  shows "A parameter_fuel = (\<Union>n. A n)"
  unfolding parameter_names(2) [symmetric]
proof (rule finite_mono_strict_prefix_implies_finite_fixpoint)
  show sub: "A i \<subseteq> parameter_names" for i
    using valid by (auto simp: A_def template_of_def split: if_splits)
  show "finite parameter_names" by (rule parameter_names(1))
  have step: "A (Suc (Suc n)) = A (Suc n)" if "A n = A (Suc n)" for n
  proof -
    have eq: "lookupBuildParameterImpl (Suc n) esc m scope decl r = None \<longleftrightarrow> lookupBuildParameterImpl n esc m scope decl r = None" for r
    proof -
      have "r \<in> A n \<longleftrightarrow> r \<in> A (Suc n)" using that by simp
      then show ?thesis
        using lookup_direct [of m decl r "Suc n" esc scope n] unfolding A_def mem_Collect_eq by argo
    qed
    have "lookupBuildParameterImpl (Suc (Suc n)) esc m scope decl r = None \<longleftrightarrow> lookupBuildParameterImpl (Suc n) esc m scope decl r = None" for r
    proof (cases "template_of m decl r")
      case None
      then show ?thesis using lookup_direct by metis
    next
      case (Some t)
      show ?thesis unfolding lookup_None_Suc [OF Some] eq ..
    qed
    then show ?thesis by (simp add: A_def del: not_None_eq split_paired_Ex)
  qed
  have "A n \<subseteq> A k" if "n \<le> k" for n k
  proof
    fix x
    assume x: "x \<in> A n"
    then obtain y where "lookupBuildParameterImpl n esc m scope decl x = Some y" unfolding A_def by blast
    then show "x \<in> A k" using lookup_mono [OF _ that] x unfolding A_def by simp
  qed
  then have "mono A" by (rule monoI)
  moreover have "finite (range A)"
    by (rule finite_subset [of _ "Pow parameter_names"]) (use sub parameter_names(1) in auto)
  ultimately show "\<exists>N. (\<forall>n\<le>N. \<forall>m\<le>N. m < n \<longrightarrow> A m \<subset> A n) \<and> (\<forall>n\<ge>N. A N = A n)"
    using step by (intro finite_mono_remains_stable_implies_strict_prefix) auto
qed

lemma lookup_fuel_bound:
  assumes "dom (rule_parameters (rule_heap m ! cmd_rule decl)) \<subseteq> parameter_names"
  shows "(\<exists>n. lookupBuildParameterImpl n esc m scope decl name = Some r) \<longleftrightarrow>
    lookupBuildParameterImpl parameter_fuel esc m scope decl name = Some r"
proof
  assume "\<exists>n. lookupBuildParameterImpl n esc m scope decl name = Some r"
  then obtain n where n: "lookupBuildParameterImpl n esc m scope decl name = Some r" by blast
  obtain r' where r': "lookupBuildParameterImpl parameter_fuel esc m scope decl name = Some r'"
  proof (cases "template_of m decl name")
    case None
    then show thesis using that n lookup_direct by metis
  next
    case (Some t)
    then show thesis using that n lookup_fixpoint [OF assms, of esc scope] by blast
  qed
  have "lookupBuildParameterImpl (max n parameter_fuel) esc m scope decl name = Some r"
    "lookupBuildParameterImpl (max n parameter_fuel) esc m scope decl name = Some r'"
    by (rule lookup_mono [OF n], simp) (rule lookup_mono [OF r'], simp)
  then show "lookupBuildParameterImpl parameter_fuel esc m scope decl name = Some r" using r' by simp
qed blast


text \<open>
  The fuel of parameter lookups is exact: as a rule has at most nine parameters, a lookup that ends
  at all ends with nine nested evaluations, and more fuel does not change its result.
\<close>

theorem lookup_fuel_exact:
  assumes "dom (rule_parameters (rule_heap m ! cmd_rule decl)) \<subseteq> parameter_names"
  shows "(\<exists>n. lookupBuildParameterImpl n esc m scope decl name = Some r) \<longleftrightarrow>
    lookupBuildParameterImpl parameter_fuel esc m scope decl name = Some r"
  using assms by (rule lookup_fuel_bound)

theorem lookup_fuel_exact_witness:
  "lookupBuildParameterImpl parameter_fuel False
     (new_manifest\<lparr>rule_heap := [\<lparr>rule_name = ''r'', rule_parameters = [''command'' \<mapsto> ''cc $description'', ''description'' \<mapsto> ''x'']\<rparr>]\<rparr>)
     new_rootScope (the (new_command 0 [None] [] 0 0)) ''command'' = Some (''cc x'', [])"
  (is "lookupBuildParameterImpl _ _ ?m _ ?decl _ = _")
proof -
  have "lookupBuildParameterImpl 2 False ?m new_rootScope ?decl ''command'' = Some (''cc x'', [])" by code_simp
  moreover have "dom (rule_parameters (rule_heap ?m ! cmd_rule ?decl)) \<subseteq> parameter_names"
    by (simp add: new_command_def parameter_names_def isValidParameterName_def)
  ultimately show ?thesis using lookup_fuel_exact [of ?m ?decl] by blast
qed

text \<open>If the templates can be ranked so that each refers to lower ones only, every lookup ends.\<close>

lemma lookup_ranked:
  assumes "dom (rule_parameters (rule_heap m ! cmd_rule decl)) \<subseteq> parameter_names"
    and rank: "\<And>name t r. rule_parameters (rule_heap m ! cmd_rule decl) name = Some t \<Longrightarrow> r \<in> set (references t) \<Longrightarrow>
      isValidParameterName r \<Longrightarrow> rank r < (rank name :: nat)"
    and nodes: "\<And>name. template_of m decl name = None \<Longrightarrow> lookupBuildParameterImpl 0 esc m scope decl name \<noteq> None"
  shows "lookupBuildParameterImpl parameter_fuel esc m scope decl name \<noteq> None"
proof -
  have "lookupBuildParameterImpl (Suc (rank name)) esc m scope decl name \<noteq> None" for name
  proof (induction "rank name" arbitrary: name rule: less_induct)
    case less
    show ?case
    proof (cases "template_of m decl name")
      case None
      then show ?thesis using nodes [OF None] lookup_direct [OF None, of "Suc (rank name)" esc scope 0] by simp
    next
      case (Some t)
      have "lookupBuildParameterImpl (rank name) esc m scope decl r \<noteq> None" if "r \<in> set (references t)" for r
      proof (cases "template_of m decl r")
        case None
        then show ?thesis using nodes [OF None] lookup_direct [OF None, of "rank name" esc scope 0] by simp
      next
        case r: (Some t')
        then have "isValidParameterName r" using assms(1) by (auto simp: template_of_def parameter_names_def split: if_splits)
        then have "rank r < rank name" using Some that by (intro rank [of name t]) (auto simp: template_of_def split: if_splits)
        then obtain y where "lookupBuildParameterImpl (Suc (rank r)) esc m scope decl r = Some y" "Suc (rank r) \<le> rank name"
          using less [of r] by (auto simp del: split_paired_Ex)
        from lookup_mono [OF this] show ?thesis by simp
      qed
      then show ?thesis unfolding lookup_None_Suc [OF Some] by blast
    qed
  qed
  then obtain r where "lookupBuildParameterImpl (Suc (rank name)) esc m scope decl name = Some r" by blast
  then show ?thesis using lookup_fuel_bound [OF assms(1)] by blast
qed

end
