(* ===== verification/String_Integers.thy ===== *)
theory String_Integers
  imports Builra_Prelude
begin

text \<open>
  Numbers in strings, as the support library reads them
  (\<^verbatim>\<open>lib/toolchain/Support/StringRef.cpp\<close>), and what they are for the radix ten.
\<close>

text \<open>
  \<^verbatim>\<open>StringRef::getAsInteger\<close> for a radix that is given and a 64 bit result: the digits are
  accumulated in an unsigned word, and an overflow shows in that dividing does not lead back.
\<close>

definition digit_value :: "char \<Rightarrow> nat option" where
  "digit_value c =
     (let n = of_char c :: nat in
      if 48 \<le> n \<and> n \<le> 57 then Some (n - 48)
      else if 97 \<le> n \<and> n \<le> 122 then Some (n - 97 + 10)
      else if 65 \<le> n \<and> n \<le> 90 then Some (n - 65 + 10)
      else None)"

fun consume_digits :: "nat \<Rightarrow> 64 word \<Rightarrow> string \<Rightarrow> (64 word \<times> string) option" where
  "consume_digits radix prev [] = Some (prev, [])"
| "consume_digits radix prev (c # cs) =
     (case digit_value c of
        None \<Rightarrow> Some (prev, c # cs)
      | Some d \<Rightarrow>
          if d \<ge> radix then Some (prev, c # cs)
          else
            let res = prev * of_nat radix + of_nat d in
            if res div of_nat radix < prev then None else consume_digits radix res cs)"

definition consumeUnsignedInteger :: "nat \<Rightarrow> string \<Rightarrow> (64 word \<times> string) option" where
  "consumeUnsignedInteger radix s =
     (if s = [] then None
      else do { (v, rest) \<leftarrow> consume_digits radix 0 s; if length rest = length s then None else Some (v, rest) })"

definition consumeSignedInteger :: "nat \<Rightarrow> string \<Rightarrow> (64 word \<times> string) option" where
  "consumeSignedInteger radix s =
     (if s = [] \<or> hd s \<noteq> CHR ''-'' then
        do { (v, rest) \<leftarrow> consumeUnsignedInteger radix s; if v <s 0 then None else Some (v, rest) }
      else
        do { (v, rest) \<leftarrow> consumeUnsignedInteger radix (tl s); if 0 <s - v then None else Some (- v, rest) })"

definition getAsInteger :: "nat \<Rightarrow> string \<Rightarrow> 64 word option" where
  "getAsInteger radix s =
     do { (v, rest) \<leftarrow> consumeSignedInteger radix s; if rest = [] then Some v else None }"

section \<open>Decimal numbers\<close>

definition decimal_digit :: "char \<Rightarrow> bool" where
  "decimal_digit c \<longleftrightarrow> (of_char c :: nat) \<in> {48..57}"

definition decimal :: "nat \<Rightarrow> string \<Rightarrow> nat" where
  "decimal start s = foldl (\<lambda>n c. 10 * n + (of_char c - 48)) start s"

lemma decimal_simps [simp]: "decimal n [] = n" "decimal n (c # cs) = decimal (10 * n + (of_char c - 48)) cs"
  by (simp_all add: decimal_def)

lemma decimal_mono: "n \<le> decimal n s"
proof (induction s arbitrary: n)
  case (Cons c cs)
  have "n \<le> 10 * n + (of_char c - 48)" by simp
  also have "\<dots> \<le> decimal \<dots> cs" by (rule Cons)
  finally show ?case by simp
qed simp

lemma digit_value_decimal: "(case digit_value c of None \<Rightarrow> False | Some d \<Rightarrow> d < 10) \<longleftrightarrow> decimal_digit c"
  "decimal_digit c \<Longrightarrow> digit_value c = Some (of_char c - 48)"
  by (auto simp: digit_value_def decimal_digit_def Let_def)

lemma overflow_test:
  fixes p :: "64 word"
  assumes "d < 10"
  shows "(p * of_nat 10 + of_nat d) div of_nat 10 < p \<longleftrightarrow> 2 ^ 64 \<le> 10 * unat p + d"
    "10 * unat p + d < 2 ^ 64 \<Longrightarrow> unat (p * of_nat 10 + of_nat d) = 10 * unat p + d"
proof -
  have u: "unat (p * of_nat 10 + of_nat d) = (10 * unat p + d) mod 2 ^ 64"
    using assms by (simp add: unat_word_ariths unat_of_nat mod_simps mult.commute)
  then show "10 * unat p + d < 2 ^ 64 \<Longrightarrow> unat (p * of_nat 10 + of_nat d) = 10 * unat p + d" by simp
  have "(p * of_nat 10 + of_nat d) div of_nat 10 < p \<longleftrightarrow> (10 * unat p + d) mod 2 ^ 64 div 10 < unat p"
    using u by (simp add: word_less_nat_alt unat_div)
  also have "\<dots> \<longleftrightarrow> 2 ^ 64 \<le> 10 * unat p + d"
  proof (cases "10 * unat p + d < 2 ^ 64")
    case False
    have "(10 * unat p + d) mod 2 ^ 64 = (10 * unat p + d - 2 ^ 64) mod 2 ^ 64" using False by (simp add: le_mod_geq)
    also have "\<dots> \<le> 10 * unat p + d - 2 ^ 64" by (rule mod_less_eq_dividend)
    finally have "(10 * unat p + d) mod 2 ^ 64 < 10 * unat p" using False assms by simp
    then show ?thesis using False by (simp add: div_less_iff_less_mult mult.commute)
  qed (use assms in simp)
  finally show "(p * of_nat 10 + of_nat d) div of_nat 10 < p \<longleftrightarrow> 2 ^ 64 \<le> 10 * unat p + d" .
qed

lemma unat_64: "unat (p :: 64 word) < 2 ^ 64"
  using unsigned_less [of p] by simp

lemma consume_digits_decimal:
  "consume_digits 10 p s =
     (let n = decimal (unat p) (takeWhile decimal_digit s) in
      if n < 2 ^ 64 then Some (of_nat n, dropWhile decimal_digit s) else None)"
proof (induction s arbitrary: p)
  case Nil
  then show ?case using unat_64 [of p] by simp
next
  case (Cons c cs)
  show ?case
  proof (cases "decimal_digit c")
    case False
    then show ?thesis using digit_value_decimal(1) [of c] unat_64 [of p] by (auto simp: Let_def split: option.splits)
  next
    case True
    let ?d = "of_char c - 48 :: nat" and ?n = "10 * unat p + (of_char c - 48)"
    have d: "?d < 10" "digit_value c = Some ?d" using True digit_value_decimal(2) by (auto simp: decimal_digit_def)
    show ?thesis
    proof (cases "?n < 2 ^ 64")
      case small: True
      then show ?thesis using Cons [of "p * of_nat 10 + of_nat ?d"] overflow_test [OF d(1), of p] d True by (simp add: Let_def)
    next
      case False
      then have "\<not> decimal ?n (takeWhile decimal_digit cs) < 2 ^ 64" using decimal_mono [of ?n] by (meson le_less_trans)
      then show ?thesis using False overflow_test(1) [OF d(1), of p] d True by (simp add: Let_def)
    qed
  qed
qed

lemma sless_zero_64: "(w :: 64 word) <s 0 \<longleftrightarrow> 2 ^ 63 \<le> unat w"
proof -
  have r: "sint w < 2 ^ 63" "- (2 ^ 63) \<le> sint w" using sint_lt [of w] sint_ge [of w] by simp_all
  define n where "n = unat w"
  then have u: "int n = sint w mod 2 ^ 64" using uint_sint [of w] by (simp add: take_bit_eq_mod)
  have "sint w < 0 \<longleftrightarrow> 2 ^ 63 \<le> n"
  proof (cases "sint w < 0")
    case True
    have "sint w mod 2 ^ 64 = (sint w + 2 ^ 64) mod 2 ^ 64" by simp
    also have "\<dots> = sint w + 2 ^ 64" using True r by (intro mod_pos_pos_trivial) simp_all
    finally show ?thesis using u True r by simp
  next
    case False
    then show ?thesis using u r by simp
  qed
  then show ?thesis by (simp add: word_sless_alt n_def)
qed

lemma sle_zero_64: "(w :: 64 word) \<le>s 0 \<longleftrightarrow> w = 0 \<or> 2 ^ 63 \<le> unat w"
  unfolding sless_zero_64 [symmetric] using signed.le_less by blast

lemma getAsInteger_positive:
  "getAsInteger 10 s = Some v \<and> \<not> v \<le>s 0 \<longleftrightarrow>
     list_all decimal_digit s \<and> decimal 0 s \<in> {0<..<2 ^ 63} \<and> v = of_nat (decimal 0 s)"
proof (cases "s = [] \<or> hd s \<noteq> CHR ''-''")
  case False
  then obtain cs where s: "s = CHR ''-'' # cs" by (cases s) auto
  have "v \<le>s 0" if "getAsInteger 10 s = Some v"
    using that s by (auto simp: getAsInteger_def consumeSignedInteger_def split: if_splits)
  moreover have "\<not> list_all decimal_digit s" using s by (simp add: decimal_digit_def)
  ultimately show ?thesis by blast
next
  case True
  let ?n = "decimal 0 (takeWhile decimal_digit s)"
  have w: "(\<not> of_nat n \<le>s (0 :: 64 word)) \<longleftrightarrow> n \<in> {0<..<2 ^ 63}" if "n < 2 ^ 64" for n
  proof -
    have "unat (of_nat n :: 64 word) = n" using that by (simp add: unat_of_nat)
    then show ?thesis unfolding sle_zero_64 unat_eq_0 [symmetric] by (simp add: not_le)
  qed
  have all: "dropWhile decimal_digit s = [] \<longleftrightarrow> list_all decimal_digit s" by (simp add: dropWhile_eq_Nil_conv list_all_iff)
  have t: "list_all decimal_digit s \<Longrightarrow> takeWhile decimal_digit s = s" by (simp add: takeWhile_eq_all_conv list_all_iff)
  show ?thesis
  proof (cases "s \<noteq> [] \<and> list_all decimal_digit s")
    case digits: True
    have "getAsInteger 10 s =
        (if decimal 0 s < 2 ^ 64 then if of_nat (decimal 0 s) <s (0 :: 64 word) then None else Some (of_nat (decimal 0 s)) else None)"
      using True digits
      by (simp add: t [OF conjunct2 [OF digits]] all [THEN iffD2, OF conjunct2 [OF digits]] getAsInteger_def consumeSignedInteger_def consumeUnsignedInteger_def consume_digits_decimal Let_def)
    then show ?thesis using digits w [of "decimal 0 s"] signed.less_imp_le by (auto split: if_splits)
  next
    case False
    then have "getAsInteger 10 s = None"
      using True all by (auto simp: getAsInteger_def consumeSignedInteger_def consumeUnsignedInteger_def consume_digits_decimal
          Let_def bind_eq_None_conv)
    then show ?thesis using False by (cases s) auto
  qed
qed

end
