(* ===== verification/Ninja_Loader.thy ===== *)
theory Ninja_Loader
  imports Ninja_Eval String_Integers
begin

text \<open>
  The manifest loader (\<^verbatim>\<open>lib/Ninja/ManifestLoader.cpp\<close>), the delegate of the Ninja parser.
  As the parser's calls do not depend on the delegate, a file is loaded by parsing it and performing
  the calls in order.  The handles that the calls for a declaration pass around are those of the
  command, pool or rule allocated last.  The include stack keeps the identifiers of the files; the
  scopes of its entries share their frames, so that one list of frames is enough: an included file
  works on the frames of its includer, and a subninja on one frame more.  Reading a file is the
  parameter \<open>readFile\<close>.  A function is \<open>None\<close> where an assertion fails, a null pointer is read or the
  code does not return.
\<close>

section \<open>The loader and its errors\<close>

record Loader =
  ld_manifest :: Manifest
  ld_scope :: Scope
  ld_files :: "string list"
  ld_errors :: "(string \<times> string \<times> Token) list"

type_synonym readFile = "string \<Rightarrow> string \<Rightarrow> Token option \<Rightarrow> (string \<times> string) option"

definition getCurrentFilename :: "Loader \<Rightarrow> string option" where
  "getCurrentFilename ld = (case ld_files ld of [] \<Rightarrow> None | f # _ \<Rightarrow> Some f)"

definition getCurrentScope :: "Loader \<Rightarrow> Scope option" where
  "getCurrentScope ld = (if ld_files ld = [] then None else Some (ld_scope ld))"

definition loader_error :: "string \<Rightarrow> Token \<Rightarrow> Loader \<Rightarrow> Loader option" where
  "loader_error message at ld =
     do { f \<leftarrow> getCurrentFilename ld; Some (ld\<lparr>ld_errors := ld_errors ld @ [(f, message, at)]\<rparr>) }"

fun report_errors :: "string list \<Rightarrow> Token \<Rightarrow> Loader \<Rightarrow> Loader option" where
  "report_errors [] at ld = Some ld"
| "report_errors (message # messages) at ld =
     do { ld \<leftarrow> loader_error message at ld; report_errors messages at ld }"

definition evalToken :: "Token \<Rightarrow> Loader \<Rightarrow> (string \<times> Loader) option" where
  "evalToken tok ld =
     (if tok_kind tok \<noteq> TString then None
      else
        do { scope \<leftarrow> getCurrentScope ld;
             (text, messages) \<leftarrow> evalString (\<lambda>name. Some (lookupBinding scope name, [])) id (tok_text tok);
             ld \<leftarrow> report_errors messages tok ld;
             Some (text, ld) })"

section \<open>Files\<close>

definition enterFile :: "readFile \<Rightarrow> string \<Rightarrow> string \<Rightarrow> Token option \<Rightarrow> Loader \<Rightarrow> string option \<times> Loader" where
  "enterFile readFile workingDirectory filename forToken ld =
     (let path = make_absolute workingDirectory filename;
          forFilename = (case ld_files ld of [] \<Rightarrow> filename | f # _ \<Rightarrow> f)
      in case readFile path forFilename forToken of
           None \<Rightarrow> (None, ld)
         | Some (identifier, data) \<Rightarrow> (Some data, ld\<lparr>ld_files := identifier # ld_files ld\<rparr>))"

definition exitCurrentFile :: "Loader \<Rightarrow> Loader option" where
  "exitCurrentFile ld = (if ld_files ld = [] then None else Some (ld\<lparr>ld_files := tl (ld_files ld)\<rparr>))"

section \<open>Bindings and defaults\<close>

definition actOnBindingDecl :: "Token \<Rightarrow> Token \<Rightarrow> Loader \<Rightarrow> Loader option" where
  "actOnBindingDecl nameTok valueTok ld =
     do { (value, ld) \<leftarrow> evalToken valueTok ld;
          Some (ld\<lparr>ld_scope := insertBinding (tok_text nameTok) value (ld_scope ld)\<rparr>) }"

fun actOnDefaultDecl :: "string \<Rightarrow> Token list \<Rightarrow> Loader \<Rightarrow> Loader option" where
  "actOnDefaultDecl workingDirectory [] ld = Some ld"
| "actOnDefaultDecl workingDirectory (nameTok # nameToks) ld =
     do { ld \<leftarrow> (case findNode workingDirectory (tok_text nameTok) (ld_manifest ld) of
                    None \<Rightarrow> loader_error ''unknown target name'' nameTok ld
                  | Some node \<Rightarrow>
                      Some (ld\<lparr>ld_manifest := (ld_manifest ld)\<lparr>mf_defaultTargets := mf_defaultTargets (ld_manifest ld) @ [node]\<rparr>\<rparr>));
          actOnDefaultDecl workingDirectory nameToks ld }"

section \<open>Build declarations\<close>

definition update_last :: "('a \<Rightarrow> 'a) \<Rightarrow> 'a list \<Rightarrow> 'a list" where
  "update_last f xs = (if xs = [] then [] else butlast xs @ [f (last xs)])"

definition set_command :: "(Command \<Rightarrow> Command) \<Rightarrow> Loader \<Rightarrow> Loader" where
  "set_command f ld = ld\<lparr>ld_manifest := (ld_manifest ld)\<lparr>mf_commands := update_last f (mf_commands (ld_manifest ld))\<rparr>\<rparr>"

fun resolve_nodes :: "string \<Rightarrow> string \<Rightarrow> Token list \<Rightarrow> Loader \<Rightarrow> (string option list \<times> Loader) option" where
  "resolve_nodes workingDirectory message [] ld = Some ([], ld)"
| "resolve_nodes workingDirectory message (tok # toks) ld =
     do { (path, ld) \<leftarrow> evalToken tok ld;
          ld \<leftarrow> (if path = [] then loader_error message tok ld else Some ld);
          let (node, m) = findOrCreateNode workingDirectory path (ld_manifest ld);
          (nodes, ld) \<leftarrow> resolve_nodes workingDirectory message toks (ld\<lparr>ld_manifest := m\<rparr>);
          Some (node # nodes, ld) }"

definition actOnBeginBuildDecl :: "string \<Rightarrow> Token \<Rightarrow> Token list \<Rightarrow> Token list \<Rightarrow> nat \<Rightarrow> nat \<Rightarrow> Loader \<Rightarrow> Loader option" where
  "actOnBeginBuildDecl workingDirectory nameTok outputTokens inputTokens n m ld =
     do { scope \<leftarrow> getCurrentScope ld;
          (rule, ld) \<leftarrow> (case fr_rules (hd scope) (tok_text nameTok) of
                            None \<Rightarrow> do { ld \<leftarrow> loader_error ''unknown rule'' nameTok ld; Some (mf_phonyRule (ld_manifest ld), ld) }
                          | Some rule \<Rightarrow> Some (rule, ld));
          (outputs, ld) \<leftarrow> resolve_nodes workingDirectory ''empty output path'' outputTokens ld;
          (inputs, ld) \<leftarrow> resolve_nodes workingDirectory ''empty input path'' inputTokens ld;
          decl \<leftarrow> new_command rule outputs inputs n m;
          Some (ld\<lparr>ld_manifest := (ld_manifest ld)\<lparr>mf_commands := mf_commands (ld_manifest ld) @ [decl]\<rparr>\<rparr>) }"

definition actOnBuildBindingDecl :: "Token \<Rightarrow> Token \<Rightarrow> Loader \<Rightarrow> Loader option" where
  "actOnBuildBindingDecl nameTok valueTok ld =
     do { (value, ld) \<leftarrow> evalToken valueTok ld;
          Some (set_command (\<lambda>decl. decl\<lparr>cmd_parameters := (cmd_parameters decl)(tok_text nameTok \<mapsto> value)\<rparr>) ld) }"

text \<open>A parameter of the command that is being declared.\<close>

definition build_parameter :: "Token \<Rightarrow> string \<Rightarrow> Loader \<Rightarrow> (string \<times> Loader) option" where
  "build_parameter startTok name ld =
     do { scope \<leftarrow> getCurrentScope ld;
          (text, messages) \<leftarrow> lookupNamedBuildParameter (ld_manifest ld) scope (last (mf_commands (ld_manifest ld))) name;
          ld \<leftarrow> report_errors messages startTok ld;
          Some (text, ld) }"

definition deps_style :: "string \<Rightarrow> string \<Rightarrow> DepsStyleKind option" where
  "deps_style deps depfile =
     (if deps = [] then Some (if depfile \<noteq> [] then DepsGCC else DepsNone)
      else if deps = ''gcc'' then Some DepsGCC
      else if deps = ''msvc'' then Some DepsMSVC
      else None)"

definition set_deps :: "Token \<Rightarrow> Loader \<Rightarrow> Loader option" where
  "set_deps startTok ld =
     do { (deps, ld) \<leftarrow> build_parameter startTok ''deps'' ld;
          (depfile, ld) \<leftarrow> build_parameter startTok ''depfile'' ld;
          (style, ld) \<leftarrow> (case deps_style deps depfile of
                             Some style \<Rightarrow> Some (style, ld)
                           | None \<Rightarrow>
                               do { ld \<leftarrow> loader_error (''invalid 'deps' style '' @ [CHR 0x27] @ deps @ [CHR 0x27]) startTok ld;
                                    Some (DepsNone, ld) });
          let ld = set_command (\<lambda>decl. decl\<lparr>depsStyle := style\<rparr>) ld;
          if depfile \<noteq> [] then
            (if style \<noteq> DepsGCC
             then loader_error ''invalid 'depfile' attribute with selected 'deps' style'' startTok ld
             else Some (set_command (\<lambda>decl. decl\<lparr>depsFile := depfile\<rparr>) ld))
          else if style = DepsGCC
          then loader_error ''missing 'depfile' attribute with selected 'deps' style'' startTok ld
          else Some ld }"

definition set_pool :: "Token \<Rightarrow> Loader \<Rightarrow> Loader option" where
  "set_pool startTok ld =
     do { (poolName, ld) \<leftarrow> build_parameter startTok ''pool'' ld;
          if poolName = [] then Some ld
          else
            (case mf_pools (ld_manifest ld) poolName of
               None \<Rightarrow> loader_error (''unknown pool '' @ [CHR 0x27] @ poolName @ [CHR 0x27]) startTok ld
             | Some pool \<Rightarrow> Some (set_command (\<lambda>decl. decl\<lparr>executionPool := Some pool\<rparr>) ld)) }"

definition set_rspfile :: "string \<Rightarrow> Token \<Rightarrow> Loader \<Rightarrow> Loader option" where
  "set_rspfile workingDirectory startTok ld =
     do { (rspfile, ld) \<leftarrow> build_parameter startTok ''rspfile'' ld;
          if rspfile = [] then Some ld
          else
            (case normalize_path workingDirectory rspfile of
               None \<Rightarrow> Some ld
             | Some rspfile \<Rightarrow>
                 (let ld = set_command (\<lambda>decl. decl\<lparr>rspFile := rspfile\<rparr>) ld in
                  do { (rspfileContent, ld) \<leftarrow> build_parameter startTok ''rspfile_content'' ld;
                       Some (set_command (\<lambda>decl. decl\<lparr>rspFileContent := rspfileContent\<rparr>) ld) })) }"

definition actOnEndBuildDecl :: "string \<Rightarrow> Token \<Rightarrow> Loader \<Rightarrow> Loader option" where
  "actOnEndBuildDecl workingDirectory startTok ld =
     do { (command, ld) \<leftarrow> build_parameter startTok ''command'' ld;
          let ld = set_command (\<lambda>decl. decl\<lparr>commandString := command\<rparr>) ld;
          (description, ld) \<leftarrow> build_parameter startTok ''description'' ld;
          let ld = set_command (\<lambda>decl. decl\<lparr>cmd_description := description\<rparr>) ld;
          ld \<leftarrow> set_deps startTok ld;
          ld \<leftarrow> set_pool startTok ld;
          (generator, ld) \<leftarrow> build_parameter startTok ''generator'' ld;
          let ld = set_command (\<lambda>decl. decl\<lparr>isGenerator := (generator \<noteq> [])\<rparr>) ld;
          (restat, ld) \<leftarrow> build_parameter startTok ''restat'' ld;
          let ld = set_command (\<lambda>decl. decl\<lparr>shouldRestat := (restat \<noteq> [])\<rparr>) ld;
          set_rspfile workingDirectory startTok ld }"

section \<open>Pools and rules\<close>

definition actOnBeginPoolDecl :: "Token \<Rightarrow> Loader \<Rightarrow> Loader option" where
  "actOnBeginPoolDecl nameTok ld =
     (let name = tok_text nameTok in
      do { ld \<leftarrow> (if mf_pools (ld_manifest ld) name \<noteq> None then loader_error ''duplicate pool'' nameTok ld else Some ld);
           let m = ld_manifest ld;
           Some (ld\<lparr>ld_manifest := m\<lparr>mf_pools := (mf_pools m)(name \<mapsto> length (pool_heap m)),
                                     pool_heap := pool_heap m @ [\<lparr>pool_name = name, pool_depth = 0\<rparr>]\<rparr>\<rparr>) })"

definition actOnPoolBindingDecl :: "Token \<Rightarrow> Token \<Rightarrow> Loader \<Rightarrow> Loader option" where
  "actOnPoolBindingDecl nameTok valueTok ld =
     do { (value, ld) \<leftarrow> evalToken valueTok ld;
          if tok_text nameTok = ''depth'' then
            (case getAsInteger 10 value of
               None \<Rightarrow> loader_error ''invalid depth'' valueTok ld
             | Some intValue \<Rightarrow>
                 if intValue \<le>s 0 then loader_error ''invalid depth'' valueTok ld
                 else
                   (let m = ld_manifest ld in
                    Some (ld\<lparr>ld_manifest := m\<lparr>pool_heap := update_last (\<lambda>decl. decl\<lparr>pool_depth := ucast intValue\<rparr>) (pool_heap m)\<rparr>\<rparr>)))
          else loader_error ''unexpected variable'' nameTok ld }"

definition actOnEndPoolDecl :: "Token \<Rightarrow> Loader \<Rightarrow> Loader option" where
  "actOnEndPoolDecl startTok ld =
     (if pool_depth (last (pool_heap (ld_manifest ld))) = 0
      then loader_error ''missing 'depth' variable assignment'' startTok ld else Some ld)"

definition actOnBeginRuleDecl :: "Token \<Rightarrow> Loader \<Rightarrow> Loader option" where
  "actOnBeginRuleDecl nameTok ld =
     (let name = tok_text nameTok in
      do { scope \<leftarrow> getCurrentScope ld;
           ld \<leftarrow> (if fr_rules (hd scope) name \<noteq> None then loader_error ''duplicate rule'' nameTok ld else Some ld);
           let m = ld_manifest ld;
           let frame = (hd scope)\<lparr>fr_rules := (fr_rules (hd scope))(name \<mapsto> length (rule_heap m))\<rparr>;
           Some (ld\<lparr>ld_scope := frame # tl scope,
                    ld_manifest := m\<lparr>rule_heap := rule_heap m @ [\<lparr>rule_name = name, rule_parameters = Map.empty\<rparr>]\<rparr>\<rparr>) })"

definition actOnRuleBindingDecl :: "Token \<Rightarrow> Token \<Rightarrow> Loader \<Rightarrow> Loader option" where
  "actOnRuleBindingDecl nameTok valueTok ld =
     (let name = tok_text nameTok; m = ld_manifest ld in
      if isValidParameterName name then
        Some (ld\<lparr>ld_manifest := m\<lparr>rule_heap :=
                update_last (\<lambda>decl. decl\<lparr>rule_parameters := (rule_parameters decl)(name \<mapsto> tok_text valueTok)\<rparr>) (rule_heap m)\<rparr>\<rparr>)
      else loader_error ''unexpected variable'' nameTok ld)"

definition actOnEndRuleDecl :: "Token \<Rightarrow> Loader \<Rightarrow> Loader option" where
  "actOnEndRuleDecl startTok ld =
     (if rule_parameters (last (rule_heap (ld_manifest ld))) ''command'' = None
      then loader_error ''missing 'command' variable assignment'' startTok ld else Some ld)"

section \<open>Includes and the whole load\<close>

text \<open>\<open>parse\<close> parses a file that has just been entered and performs its calls.\<close>

definition enter_and_parse :: "readFile \<Rightarrow> string \<Rightarrow> (string \<Rightarrow> Loader \<Rightarrow> Loader option) \<Rightarrow> string \<Rightarrow> Token \<Rightarrow> Loader \<Rightarrow> Loader option" where
  "enter_and_parse readFile workingDirectory parse path pathTok ld =
     (case enterFile readFile workingDirectory path (Some pathTok) ld of
        (Some data, ld) \<Rightarrow> parse data ld
      | (None, ld) \<Rightarrow> Some ld)"

definition actOnIncludeDecl :: "readFile \<Rightarrow> string \<Rightarrow> (string \<Rightarrow> Loader \<Rightarrow> Loader option) \<Rightarrow> bool \<Rightarrow> Token \<Rightarrow> Loader \<Rightarrow> Loader option" where
  "actOnIncludeDecl readFile workingDirectory parse isInclude pathTok ld =
     do { (path, ld) \<leftarrow> evalToken pathTok ld;
          if isInclude then enter_and_parse readFile workingDirectory parse path pathTok ld
          else
            do { ld \<leftarrow> enter_and_parse readFile workingDirectory parse path pathTok (ld\<lparr>ld_scope := empty_frame # ld_scope ld\<rparr>);
                 Some (ld\<lparr>ld_scope := tl (ld_scope ld)\<rparr>) } }"

definition act :: "readFile \<Rightarrow> string \<Rightarrow> (string \<Rightarrow> Loader \<Rightarrow> Loader option) \<Rightarrow> Token ParseAction \<Rightarrow> Loader \<Rightarrow> Loader option" where
  "act readFile workingDirectory parse a ld =
     (case a of
        OnError message at \<Rightarrow> loader_error message at ld
      | OnBeginManifest _ \<Rightarrow> Some ld
      | OnEndManifest \<Rightarrow> exitCurrentFile ld
      | OnBindingDecl nameTok valueTok \<Rightarrow> actOnBindingDecl nameTok valueTok ld
      | OnDefaultDecl nameToks \<Rightarrow> actOnDefaultDecl workingDirectory nameToks ld
      | OnIncludeDecl isInclude pathTok \<Rightarrow> actOnIncludeDecl readFile workingDirectory parse isInclude pathTok ld
      | OnBeginBuildDecl nameTok outputs inputs n m \<Rightarrow> actOnBeginBuildDecl workingDirectory nameTok outputs inputs n m ld
      | OnBuildBindingDecl nameTok valueTok \<Rightarrow> actOnBuildBindingDecl nameTok valueTok ld
      | OnEndBuildDecl startTok \<Rightarrow> actOnEndBuildDecl workingDirectory startTok ld
      | OnBeginPoolDecl nameTok \<Rightarrow> actOnBeginPoolDecl nameTok ld
      | OnPoolBindingDecl nameTok valueTok \<Rightarrow> actOnPoolBindingDecl nameTok valueTok ld
      | OnEndPoolDecl startTok \<Rightarrow> actOnEndPoolDecl startTok ld
      | OnBeginRuleDecl nameTok \<Rightarrow> actOnBeginRuleDecl nameTok ld
      | OnRuleBindingDecl nameTok valueTok \<Rightarrow> actOnRuleBindingDecl nameTok valueTok ld
      | OnEndRuleDecl startTok \<Rightarrow> actOnEndRuleDecl startTok ld)"

fun perform :: "readFile \<Rightarrow> string \<Rightarrow> (string \<Rightarrow> Loader \<Rightarrow> Loader option) \<Rightarrow> Token ParseAction list \<Rightarrow> Loader \<Rightarrow> Loader option" where
  "perform readFile workingDirectory parse [] ld = Some ld"
| "perform readFile workingDirectory parse (a # as) ld =
     do { ld \<leftarrow> act readFile workingDirectory parse a ld; perform readFile workingDirectory parse as ld }"

text \<open>The fuel is the depth to which files include each other.\<close>

primrec parse_file :: "readFile \<Rightarrow> string \<Rightarrow> nat \<Rightarrow> string \<Rightarrow> Loader \<Rightarrow> Loader option" where
  "parse_file readFile workingDirectory 0 = (\<lambda>data ld. None)"
| "parse_file readFile workingDirectory (Suc depth) =
     (\<lambda>data ld. do { calls \<leftarrow> parse_ninja data;
                     perform readFile workingDirectory (parse_file readFile workingDirectory depth) calls ld })"

definition new_loader :: Loader where
  "new_loader = \<lparr>ld_manifest = new_manifest, ld_scope = new_rootScope, ld_files = [], ld_errors = []\<rparr>"

text \<open>The result is the manifest with its root scope, or a null pointer; and the errors.\<close>

definition load_manifest ::
    "readFile \<Rightarrow> string \<Rightarrow> string \<Rightarrow> nat \<Rightarrow> ((Manifest \<times> Scope) option \<times> (string \<times> string \<times> Token) list) option" where
  "load_manifest readFile workingDirectory mainFilename depth =
     (case enterFile readFile workingDirectory mainFilename None new_loader of
        (None, ld) \<Rightarrow> Some (None, ld_errors ld)
      | (Some data, ld) \<Rightarrow>
          do { ld \<leftarrow> parse_file readFile workingDirectory depth data ld;
               if ld_files ld = [] then Some (Some (ld_manifest ld, ld_scope ld), ld_errors ld) else None })"

end
