(* ===== verification/Ninja_Load_Inv.thy ===== *)
theory Ninja_Load_Inv
  imports Ninja_Loader
begin

text \<open>
  The invariant of the manifest loader and its proof, action by action, for calls in the order that the
  parser promises.  The same rules show that the loader does not fail (\<open>ok\<close> is true) and, without the
  conditions that this needs, that its result is well-formed (\<open>ok\<close> is false).
\<close>

section \<open>What a loaded manifest promises\<close>

text \<open>
  The nodes are filed under their canonical paths; the pointers of commands, pools, scopes and default
  targets lead to objects of the manifest; the counts of a command fit its inputs; only valid
  parameters are bound in a rule; and a command has a dependency file only with GCC style dependencies.
\<close>

definition nodes_ok :: "string \<Rightarrow> (string \<rightharpoonup> Node) \<Rightarrow> bool" where
  "nodes_ok wd nodes \<longleftrightarrow> (\<forall>k node. nodes k = Some node \<longrightarrow> canonicalPath node = k \<and> normalize_path wd (screenPath node) = Some k)"

definition pointers_ok :: "(string \<rightharpoonup> Node) \<Rightarrow> string option list \<Rightarrow> bool" where
  "pointers_ok nodes ps \<longleftrightarrow> (\<forall>p\<in>set ps. \<exists>k. p = Some k \<and> nodes k \<noteq> None)"

definition command_ok :: "Manifest \<Rightarrow> Command \<Rightarrow> bool" where
  "command_ok m c \<longleftrightarrow>
     cmd_outputs c \<noteq> [] \<and> numExplicitInputs c + numImplicitInputs c \<le> length (cmd_inputs c) \<and>
     pointers_ok (mf_nodes m) (cmd_outputs c) \<and> pointers_ok (mf_nodes m) (cmd_inputs c) \<and>
     cmd_rule c < length (rule_heap m) \<and>
     (\<forall>p. executionPool c = Some p \<longrightarrow> p < length (pool_heap m)) \<and>
     (depsFile c \<noteq> [] \<longrightarrow> depsStyle c = DepsGCC)"

definition manifest_ok :: "string \<Rightarrow> Manifest \<Rightarrow> bool" where
  "manifest_ok wd m \<longleftrightarrow>
     nodes_ok wd (mf_nodes m) \<and> (\<forall>c\<in>set (mf_commands m). command_ok m c) \<and>
     (\<forall>name p. mf_pools m name = Some p \<longrightarrow> p < length (pool_heap m) \<and> pool_name (pool_heap m ! p) = name) \<and>
     (\<forall>k\<in>set (mf_defaultTargets m). mf_nodes m k \<noteq> None) \<and>
     (\<forall>r\<in>set (rule_heap m). dom (rule_parameters r) \<subseteq> parameter_names) \<and>
     mf_phonyRule m < length (rule_heap m) \<and> mf_consolePool m < length (pool_heap m)"

definition frame_ok :: "NinjaRule list \<Rightarrow> Frame \<Rightarrow> bool" where
  "frame_ok heap f \<longleftrightarrow> (\<forall>name r. fr_rules f name = Some r \<longrightarrow> r < length heap \<and> rule_name (heap ! r) = name)"

text \<open>
  What holds besides as long as no error was reported.  The pool or rule whose declaration is still
  open, as the protocol state \<open>s\<close> tells, is exempt; the phony rule, which comes first, has no command.
\<close>

definition complete_so_far :: "TokenKind option \<Rightarrow> Manifest \<Rightarrow> bool" where
  "complete_so_far s m \<longleftrightarrow>
     (\<forall>c\<in>set (mf_commands m). depsStyle c = DepsGCC \<longrightarrow> depsFile c \<noteq> []) \<and>
     (\<forall>p\<in>set (if s = Some TKWPool then butlast (pool_heap m) else pool_heap m). pool_depth p \<noteq> 0) \<and>
     (\<forall>r\<in>set (tl (if s = Some TKWRule then butlast (rule_heap m) else rule_heap m)). rule_parameters r ''command'' \<noteq> None)"

text \<open>
  No parameter of a rule refers to itself, directly or through other parameters of the rule.  Between the
  references of a finite relation without a cycle, the number of predecessors is a ranking.
\<close>

definition refers :: "(string \<rightharpoonup> string) \<Rightarrow> (string \<times> string) set" where
  "refers ps = {(r, name). \<exists>t. ps name = Some t \<and> r \<in> set (references t) \<and> isValidParameterName r}"

definition no_self_reference :: "(string \<rightharpoonup> string) \<Rightarrow> bool" where
  "no_self_reference ps \<longleftrightarrow> acyclic (refers ps)"

definition acyclic_rules :: "NinjaRule list \<Rightarrow> bool" where
  "acyclic_rules heap \<longleftrightarrow> (\<forall>r\<in>set heap. no_self_reference (rule_parameters r))"

lemma acyclic_ranked:
  assumes "finite R" "acyclic R"
  obtains rank :: "'a \<Rightarrow> nat" where "\<And>x y. (x, y) \<in> R \<Longrightarrow> rank x < rank y"
proof
  fix x y
  assume xy: "(x, y) \<in> R"
  have "{z. (z, x) \<in> R\<^sup>+} \<subseteq> {z. (z, y) \<in> R\<^sup>+}" using xy by (auto intro: trancl_into_trancl)
  moreover have "x \<in> {z. (z, y) \<in> R\<^sup>+}" "x \<notin> {z. (z, x) \<in> R\<^sup>+}" using xy assms(2) by (auto simp: acyclic_def)
  ultimately have "{z. (z, x) \<in> R\<^sup>+} \<subset> {z. (z, y) \<in> R\<^sup>+}" by blast
  moreover have "{z. (z, y) \<in> R\<^sup>+} \<subseteq> Domain R" by (auto dest: tranclD)
  then have "finite {z. (z, y) \<in> R\<^sup>+}" using assms(1) finite_Domain finite_subset by blast
  ultimately show "card {z. (z, x) \<in> R\<^sup>+} < card {z. (z, y) \<in> R\<^sup>+}" by (rule psubset_card_mono [rotated])
qed

lemma refers_ranked:
  assumes "dom ps \<subseteq> parameter_names" "no_self_reference ps"
  obtains rank :: "string \<Rightarrow> nat" where "\<And>name t r. ps name = Some t \<Longrightarrow> r \<in> set (references t) \<Longrightarrow> isValidParameterName r \<Longrightarrow> rank r < rank name"
proof -
  have "refers ps \<subseteq> parameter_names \<times> parameter_names" using assms(1) by (auto simp: refers_def parameter_names_def)
  then have "finite (refers ps)" by (rule finite_subset) (simp add: parameter_names(1))
  from acyclic_ranked [OF this] assms(2) obtain rank :: "string \<Rightarrow> nat" where "\<And>x y. (x, y) \<in> refers ps \<Longrightarrow> rank x < rank y"
    unfolding no_self_reference_def by blast
  then show ?thesis using that unfolding refers_def by blast
qed

text \<open>The rules whose declarations are not open.\<close>

definition closed_rules :: "TokenKind option \<Rightarrow> NinjaRule list \<Rightarrow> NinjaRule list" where
  "closed_rules s heap = (if s = Some TKWRule then butlast heap else heap)"

lemma closed_rules_simps [simp]:
  "closed_rules None heap = heap" "closed_rules (Some TKWBuild) heap = heap" "closed_rules (Some TKWPool) heap = heap"
  "closed_rules (Some TKWRule) heap = butlast heap"
  by (simp_all add: closed_rules_def)

text \<open>The invariant, with the include stack \<open>files\<close> and the frames \<open>outer\<close> behind the current one.\<close>

definition loader_inv :: "bool \<Rightarrow> string \<Rightarrow> string list \<Rightarrow> Frame list \<Rightarrow> TokenKind option \<Rightarrow> Loader \<Rightarrow> bool" where
  "loader_inv ok wd files outer s ld \<longleftrightarrow>
     files \<noteq> [] \<and> ld_files ld = files \<and> (\<exists>f. ld_scope ld = f # outer) \<and>
     manifest_ok wd (ld_manifest ld) \<and> (\<forall>f\<in>set (ld_scope ld). frame_ok (rule_heap (ld_manifest ld)) f) \<and>
     (s = Some TKWBuild \<longrightarrow> mf_commands (ld_manifest ld) \<noteq> []) \<and>
     (ok \<longrightarrow> acyclic_rules (closed_rules s (rule_heap (ld_manifest ld)))) \<and>
     (ld_errors ld = [] \<longrightarrow> complete_so_far s (ld_manifest ld))"

section \<open>Reporting and evaluating\<close>

definition emit :: "(string \<times> string \<times> Token) list \<Rightarrow> Loader \<Rightarrow> Loader" where
  "emit es ld = ld\<lparr>ld_errors := ld_errors ld @ es\<rparr>"

lemma emit_simps [simp]:
  "ld_manifest (emit es ld) = ld_manifest ld" "ld_scope (emit es ld) = ld_scope ld" "ld_files (emit es ld) = ld_files ld"
  "ld_errors (emit es ld) = ld_errors ld @ es" "emit es (emit es' ld) = emit (es' @ es) ld" "emit [] ld = ld"
  by (simp_all add: emit_def)

lemma loader_error_eq: "ld_files ld = f # fs \<Longrightarrow> loader_error msg at ld = Some (emit [(f, msg, at)] ld)"
  by (simp add: loader_error_def getCurrentFilename_def emit_def)

lemma report_errors_eq: "ld_files ld = f # fs \<Longrightarrow> report_errors msgs at ld = Some (emit (map (\<lambda>m. (f, m, at)) msgs) ld)"
  by (induction msgs arbitrary: ld) (auto simp: loader_error_eq)

lemma wp_error:
  assumes "ld_files ld \<noteq> []" "\<And>es. es \<noteq> [] \<Longrightarrow> Q (emit es ld)"
  shows "wp ok (loader_error msg at ld) Q"
  using assms by (cases "ld_files ld") (auto simp: loader_error_eq)

definition expands :: "string \<Rightarrow> string \<Rightarrow> bool" where
  "expands template text \<longleftrightarrow> (\<exists>env errs. evalString (\<lambda>name. Some (env name, [])) id template = Some (text, errs))"

lemma wp_evalToken:
  assumes "ld_files ld \<noteq> []" "tok_kind tok = TString" "\<And>text es. expands (tok_text tok) text \<Longrightarrow> Q (text, emit es ld)"
  shows "wp ok (evalToken tok ld) Q"
proof -
  obtain f fs where f: "ld_files ld = f # fs" using assms(1) by (cases "ld_files ld") auto
  obtain t errs where "evalString (\<lambda>name. Some (lookupBinding (ld_scope ld) name, [])) id (tok_text tok) = Some (t, errs)"
    using evalString_total [of "\<lambda>name. Some (lookupBinding (ld_scope ld) name, [])"] by blast
  then have "expands (tok_text tok) t" "evalString (\<lambda>name. Some (lookupBinding (ld_scope ld) name, [])) id (tok_text tok) = Some (t, errs)"
    unfolding expands_def by blast+
  then show ?thesis using assms f by (simp add: evalToken_def getCurrentScope_def report_errors_eq)
qed

lemma join_nodes: "pointers_ok (mf_nodes m) ps \<Longrightarrow> \<exists>t. join_paths (node_text esc m) sep ps = Some t"
proof (induction ps)
  case (Cons p ps)
  then obtain k t where "p = Some k" "join_paths (node_text esc m) sep ps = Some t" "mf_nodes m k \<noteq> None"
    by (auto simp: pointers_ok_def)
  moreover from this obtain u where "node_text esc m k = Some u" by (auto simp: node_text_def)
  ultimately show ?case by simp
qed simp

lemma pointers_ok_take: "pointers_ok nodes ps \<Longrightarrow> pointers_ok nodes (take n ps)"
  by (auto simp: pointers_ok_def dest: in_set_takeD)

lemma lookup_command_total:
  assumes "manifest_ok wd m" "c \<in> set (mf_commands m)" "acyclic_rules (rule_heap m)"
  shows "\<exists>text errs. lookupNamedBuildParameter m scope c name = Some (text, errs)"
proof -
  have c: "command_ok m c" "rule_heap m ! cmd_rule c \<in> set (rule_heap m)"
    using assms(1,2) by (auto simp: manifest_ok_def command_ok_def)
  have "lookupBuildParameterImpl 0 esc m scope c name \<noteq> None" if "template_of m c name = None" for esc name
    using that c(1) join_nodes [of m "cmd_outputs c"] join_nodes [of m "explicitInputs c"]
    by (auto simp: lookupBuildParameterImpl.simps template_of_def command_ok_def explicitInputs_def pointers_ok_take split: if_splits option.splits)
  note builtin = this
  obtain rank :: "string \<Rightarrow> nat" where rank: "\<And>name t r. rule_parameters (rule_heap m ! cmd_rule c) name = Some t \<Longrightarrow>
      r \<in> set (references t) \<Longrightarrow> isValidParameterName r \<Longrightarrow> rank r < rank name"
    using refers_ranked [of "rule_parameters (rule_heap m ! cmd_rule c)"] assms(1,3) c(2) unfolding manifest_ok_def acyclic_rules_def by metis
  have "lookupNamedBuildParameter m scope c name \<noteq> None"
    unfolding lookupNamedBuildParameter_def
  proof (rule lookup_ranked [where rank = rank])
    show "dom (rule_parameters (rule_heap m ! cmd_rule c)) \<subseteq> parameter_names" using assms(1) c(2) unfolding manifest_ok_def by blast
  qed (use builtin rank in blast)+
  then show ?thesis by auto
qed

lemma wp_build_parameter:
  assumes "loader_inv ok wd files outer (Some TKWBuild) ld" "\<And>text es. Q (text, emit es ld)"
  shows "wp ok (build_parameter startTok name ld) Q"
proof -
  have i: "manifest_ok wd (ld_manifest ld)" "mf_commands (ld_manifest ld) \<noteq> []" "ok \<longrightarrow> acyclic_rules (rule_heap (ld_manifest ld))"
    using assms(1) by (auto simp: loader_inv_def)
  obtain f fs where f: "ld_files ld = f # fs" using assms(1) by (cases "ld_files ld") (auto simp: loader_inv_def)
  let ?l = "lookupNamedBuildParameter (ld_manifest ld) (ld_scope ld) (last (mf_commands (ld_manifest ld))) name"
  have "ok \<longrightarrow> ?l \<noteq> None" using i lookup_command_total [OF i(1) last_in_set] by (metis option.distinct(1))
  then show ?thesis using assms(2) f by (cases ?l) (auto simp: build_parameter_def getCurrentScope_def report_errors_eq)
qed

section \<open>Every action keeps the invariant\<close>

lemma inv_emit: "loader_inv ok wd files outer s ld \<Longrightarrow> loader_inv ok wd files outer s (emit es ld)"
  by (auto simp: loader_inv_def)

lemma inv_files: "loader_inv ok wd files outer s ld \<Longrightarrow> ld_files ld = files \<and> files \<noteq> []"
  by (simp add: loader_inv_def)

lemma inv_evalToken:
  "loader_inv ok wd files outer s ld \<Longrightarrow> tok_kind tok = TString \<Longrightarrow>
   (\<And>t ld1. loader_inv ok wd files outer s ld1 \<Longrightarrow> ld_manifest ld1 = ld_manifest ld \<Longrightarrow> ld_scope ld1 = ld_scope ld \<Longrightarrow>
      expands (tok_text tok) t \<Longrightarrow> Q (t, ld1)) \<Longrightarrow>
   wp ok (evalToken tok ld) Q"
  using inv_files inv_emit by (intro wp_evalToken) fastforce+

lemma inv_error:
  "loader_inv ok wd files outer s ld \<Longrightarrow>
   (\<And>ld1. loader_inv ok wd files outer s ld1 \<Longrightarrow> ld_manifest ld1 = ld_manifest ld \<Longrightarrow> ld_scope ld1 = ld_scope ld \<Longrightarrow> ld_errors ld1 \<noteq> [] \<Longrightarrow> Q ld1) \<Longrightarrow>
   wp ok (loader_error msg tok ld) Q"
  using inv_files inv_emit by (intro wp_error) fastforce+

lemma command_ok_mono:
  "command_ok m c \<Longrightarrow> mf_nodes m \<subseteq>\<^sub>m mf_nodes m' \<Longrightarrow> length (rule_heap m) \<le> length (rule_heap m') \<Longrightarrow>
   length (pool_heap m) \<le> length (pool_heap m') \<Longrightarrow> command_ok m' c"
  by (fastforce simp: command_ok_def pointers_ok_def map_le_def dom_def)

lemma wp_actOnBindingDecl:
  assumes "loader_inv ok wd files outer None ld" "tok_kind v = TString"
  shows "wp ok (actOnBindingDecl n v ld) (loader_inv ok wd files outer None)"
  unfolding actOnBindingDecl_def wp_bind
proof (rule inv_evalToken [OF assms])
  fix t ld1
  assume "loader_inv ok wd files outer None ld1"
  then show "wp ok (case (t, ld1) of (value, ld) \<Rightarrow> Some (ld\<lparr>ld_scope := insertBinding (tok_text n) value (ld_scope ld)\<rparr>))
      (loader_inv ok wd files outer None)"
    by (auto simp: loader_inv_def frame_ok_def)
qed

lemma wp_actOnDefaultDecl:
  "loader_inv ok wd files outer None ld \<Longrightarrow> wp ok (actOnDefaultDecl wd toks ld) (loader_inv ok wd files outer None)"
proof (induction toks arbitrary: ld)
  case (Cons t toks)
  show ?case
  proof (cases "findNode wd (tok_text t) (ld_manifest ld)")
    case None
    then show ?thesis using Cons by (auto intro!: inv_error [OF Cons(2)])
  next
    case (Some k)
    then have "mf_nodes (ld_manifest ld) k \<noteq> None" by (auto simp: findNode_def split: option.splits if_splits)
    then have "loader_inv ok wd files outer None
        (ld\<lparr>ld_manifest := (ld_manifest ld)\<lparr>mf_defaultTargets := mf_defaultTargets (ld_manifest ld) @ [k]\<rparr>\<rparr>)"
      using Cons(2) by (auto simp: loader_inv_def manifest_ok_def complete_so_far_def command_ok_def)
    then show ?thesis using Some Cons(1) by simp
  qed
qed simp

section \<open>Build declarations\<close>

lemma inv_nodes:
  assumes "loader_inv ok wd files outer s ld" "nodes_ok wd nodes" "mf_nodes (ld_manifest ld) \<subseteq>\<^sub>m nodes"
  shows "loader_inv ok wd files outer s (ld\<lparr>ld_manifest := (ld_manifest ld)\<lparr>mf_nodes := nodes\<rparr>\<rparr>)"
proof -
  have "manifest_ok wd ((ld_manifest ld)\<lparr>mf_nodes := nodes\<rparr>)"
  proof -
    have m: "manifest_ok wd (ld_manifest ld)" using assms(1) by (simp add: loader_inv_def)
    have "command_ok ((ld_manifest ld)\<lparr>mf_nodes := nodes\<rparr>) c" if "c \<in> set (mf_commands (ld_manifest ld))" for c
    proof (rule command_ok_mono)
      show "command_ok (ld_manifest ld) c" using m that unfolding manifest_ok_def by blast
    qed (use assms(3) in simp_all)
    moreover have "nodes k \<noteq> None" if "mf_nodes (ld_manifest ld) k \<noteq> None" for k
      using that map_le_implies_dom_le [OF assms(3)] by (auto simp: dom_def)
    ultimately show ?thesis using m assms(2) unfolding manifest_ok_def by simp
  qed
  then show ?thesis using assms(1) unfolding loader_inv_def complete_so_far_def by simp
qed

lemma wp_resolve_nodes:
  assumes "is_absolute wd"
  shows "loader_inv ok wd files outer s ld \<Longrightarrow> all_strings toks \<Longrightarrow>
    (\<And>ps ld1. loader_inv ok wd files outer s ld1 \<Longrightarrow> mf_nodes (ld_manifest ld) \<subseteq>\<^sub>m mf_nodes (ld_manifest ld1) \<Longrightarrow>
      rule_heap (ld_manifest ld1) = rule_heap (ld_manifest ld) \<Longrightarrow> ld_scope ld1 = ld_scope ld \<Longrightarrow>
      pointers_ok (mf_nodes (ld_manifest ld1)) ps \<Longrightarrow> length ps = length toks \<Longrightarrow> Q (ps, ld1)) \<Longrightarrow>
    wp ok (resolve_nodes wd msg toks ld) Q"
proof (induction toks arbitrary: ld Q)
  case Nil
  then show ?case by (simp add: pointers_ok_def)
next
  case (Cons t toks)
  let ?rest = "\<lambda>path ld. case findOrCreateNode wd path (ld_manifest ld) of (node, m) \<Rightarrow>
    do { (nodes, ld) \<leftarrow> resolve_nodes wd msg toks (ld\<lparr>ld_manifest := m\<rparr>); Some (node # nodes, ld) }"
  have rest: "wp ok (?rest path ld1) Q"
    if l: "loader_inv ok wd files outer s ld1" "ld_manifest ld1 = ld_manifest ld" "ld_scope ld1 = ld_scope ld" for path ld1
  proof -
    obtain k where k: "normalize_path wd path = Some k" using normalize_path_total [OF assms] by blast
    let ?nodes = "if mf_nodes (ld_manifest ld) k = None then (mf_nodes (ld_manifest ld))(k \<mapsto> \<lparr>canonicalPath = k, screenPath = path\<rparr>) else mf_nodes (ld_manifest ld)"
    have f: "findOrCreateNode wd path (ld_manifest ld) = (Some k, (ld_manifest ld)\<lparr>mf_nodes := ?nodes\<rparr>)"
      using k by (simp add: findOrCreateNode_def)
    have n: "nodes_ok wd ?nodes" "mf_nodes (ld_manifest ld) \<subseteq>\<^sub>m ?nodes" "?nodes k \<noteq> None"
      using l k by (auto simp: loader_inv_def manifest_ok_def nodes_ok_def map_le_def)
    have i: "loader_inv ok wd files outer s (ld1\<lparr>ld_manifest := (ld_manifest ld)\<lparr>mf_nodes := ?nodes\<rparr>\<rparr>)"
      using inv_nodes [OF l(1) n(1)] n(2) l(2) by simp
    show ?thesis unfolding l(2) f prod.case wp_bind
    proof (rule Cons(1) [OF i], goal_cases)
      case (2 ps ld2)
      have "mf_nodes (ld_manifest ld) \<subseteq>\<^sub>m mf_nodes (ld_manifest ld2)" using 2(2) n(2) map_le_trans by fastforce
      moreover have "mf_nodes (ld_manifest ld2) k \<noteq> None" using 2(2) n(3) by (force simp: map_le_def dom_def)
      ultimately show ?case using 2 l(3) by (auto simp: pointers_ok_def intro!: Cons(4))
    qed (use Cons(3) in simp)
  qed
  show ?case unfolding resolve_nodes.simps wp_bind Let_def
  proof (rule inv_evalToken [OF Cons(2)], goal_cases)
    case (2 path ld1)
    then show ?case using rest [of _ path] by (auto intro!: inv_error [OF 2(1)])
  qed (use Cons(3) in simp)
qed

lemma wp_actOnBeginBuildDecl:
  assumes "loader_inv ok wd files outer None ld" "is_absolute wd" "outs \<noteq> []" "all_strings outs" "all_strings ins" "n + m \<le> length ins"
  shows "wp ok (actOnBeginBuildDecl wd name outs ins n m ld)
    (\<lambda>ld1. loader_inv ok wd files outer (Some TKWBuild) ld1 \<and> depsFile (last (mf_commands (ld_manifest ld1))) = [])"
proof -
  let ?cont = "\<lambda>(rule, ld). do { (outputs, ld) \<leftarrow> resolve_nodes wd ''empty output path'' outs ld;
      (inputs, ld) \<leftarrow> resolve_nodes wd ''empty input path'' ins ld; decl \<leftarrow> new_command rule outputs inputs n m;
      Some (ld\<lparr>ld_manifest := (ld_manifest ld)\<lparr>mf_commands := mf_commands (ld_manifest ld) @ [decl]\<rparr>\<rparr>) }"
  have cont: "wp ok (?cont (r, ld1)) (\<lambda>ld1. loader_inv ok wd files outer (Some TKWBuild) ld1 \<and> depsFile (last (mf_commands (ld_manifest ld1))) = [])"
    if l: "loader_inv ok wd files outer None ld1" and r: "r < length (rule_heap (ld_manifest ld1))" for r ld1
    unfolding prod.case wp_bind
  proof (rule wp_resolve_nodes [OF assms(2) l assms(4)], goal_cases)
    case (1 ps ld2)
    show ?case unfolding prod.case wp_bind
    proof (rule wp_resolve_nodes [OF assms(2) 1(1) assms(5)], goal_cases)
      case (1 qs ld3)
      then have "pointers_ok (mf_nodes (ld_manifest ld3)) ps"
        using \<open>pointers_ok (mf_nodes (ld_manifest ld2)) ps\<close> by (fastforce simp: pointers_ok_def map_le_def dom_def)
      then show ?case using 1 r assms(3,6) \<open>length ps = length outs\<close> \<open>rule_heap (ld_manifest ld2) = rule_heap (ld_manifest ld1)\<close>
        by (auto simp: new_command_def loader_inv_def manifest_ok_def complete_so_far_def command_ok_def)
    qed
  qed
  have f: "frame_ok (rule_heap (ld_manifest ld)) (hd (ld_scope ld))" "mf_phonyRule (ld_manifest ld) < length (rule_heap (ld_manifest ld))"
    using assms(1) by (auto simp: loader_inv_def manifest_ok_def)
  show ?thesis
  proof (cases "fr_rules (hd (ld_scope ld)) (tok_text name)")
    case None
    have "wp ok (loader_error ''unknown rule'' name ld) (\<lambda>ld. wp ok (?cont (mf_phonyRule (ld_manifest ld), ld))
        (\<lambda>ld1. loader_inv ok wd files outer (Some TKWBuild) ld1 \<and> depsFile (last (mf_commands (ld_manifest ld1))) = []))"
      using f(2) by (intro inv_error [OF assms(1)] cont) simp_all
    then show ?thesis using None inv_files [OF assms(1)] by (simp add: actOnBeginBuildDecl_def getCurrentScope_def)
  next
    case (Some r)
    then have "r < length (rule_heap (ld_manifest ld))" using f(1) by (auto simp: frame_ok_def)
    from cont [OF assms(1) this] Some show ?thesis using inv_files [OF assms(1)]
      by (simp add: actOnBeginBuildDecl_def getCurrentScope_def)
  qed
qed

abbreviation last_command :: "Loader \<Rightarrow> Command" where
  "last_command ld \<equiv> last (mf_commands (ld_manifest ld))"

lemma update_last_simps [simp]:
  "update_last f xs = [] \<longleftrightarrow> xs = []" "xs \<noteq> [] \<Longrightarrow> last (update_last f xs) = f (last xs)"
  "length (update_last f xs) = length xs" "butlast (update_last f xs) = butlast xs"
  "update_last f (update_last g xs) = update_last (\<lambda>x. f (g x)) xs"
  by (auto simp: update_last_def)

lemma update_last_set: "x \<in> set (update_last f xs) \<Longrightarrow> (xs \<noteq> [] \<and> x = f (last xs)) \<or> x \<in> set (butlast xs)"
  by (auto simp: update_last_def split: if_splits)

lemma set_command_simps [simp]:
  "ld_scope (set_command f ld) = ld_scope ld" "ld_files (set_command f ld) = ld_files ld" "ld_errors (set_command f ld) = ld_errors ld"
  "mf_nodes (ld_manifest (set_command f ld)) = mf_nodes (ld_manifest ld)"
  "mf_pools (ld_manifest (set_command f ld)) = mf_pools (ld_manifest ld)"
  "mf_commands (ld_manifest (set_command f ld)) = update_last f (mf_commands (ld_manifest ld))"
  "emit es (set_command f ld) = set_command f (emit es ld)"
  "set_command f (set_command g ld) = set_command (\<lambda>c. f (g c)) ld"
  by (simp_all add: set_command_def emit_def)

lemma inv_set_command:
  assumes i: "loader_inv ok wd files outer (Some TKWBuild) ld"
    and c: "command_ok (ld_manifest ld) (last_command ld) \<Longrightarrow> command_ok (ld_manifest ld) (f (last_command ld))"
    and e: "ld_errors ld = [] \<Longrightarrow> (depsStyle (last_command ld) = DepsGCC \<longrightarrow> depsFile (last_command ld) \<noteq> []) \<Longrightarrow>
      depsStyle (f (last_command ld)) = DepsGCC \<longrightarrow> depsFile (f (last_command ld)) \<noteq> []"
  shows "loader_inv ok wd files outer (Some TKWBuild) (set_command f ld)"
proof -
  let ?m = "ld_manifest ld" and ?m' = "ld_manifest (set_command f ld)"
  have m: "manifest_ok wd ?m" "mf_commands ?m \<noteq> []" using i by (auto simp: loader_inv_def)
  have "\<forall>c\<in>set (mf_commands ?m). command_ok ?m c" using m(1) unfolding manifest_ok_def by blast
  then have "command_ok ?m x" if "x \<in> set (update_last f (mf_commands ?m))" for x
    using update_last_set [OF that] m(2) c last_in_set in_set_butlastD by metis
  moreover have "command_ok ?m' x = command_ok ?m x" for x by (simp add: command_ok_def set_command_def)
  ultimately have 1: "manifest_ok wd ?m'" using m(1) unfolding manifest_ok_def by (simp add: set_command_def)
  have 2: "complete_so_far (Some TKWBuild) ?m'" if "ld_errors ld = []" "complete_so_far (Some TKWBuild) ?m"
  proof -
    have "\<forall>c\<in>set (mf_commands ?m). depsStyle c = DepsGCC \<longrightarrow> depsFile c \<noteq> []" using that(2) unfolding complete_so_far_def by blast
    then have "depsStyle x = DepsGCC \<longrightarrow> depsFile x \<noteq> []" if "x \<in> set (update_last f (mf_commands ?m))" for x
      using update_last_set [OF that] m(2) e [OF \<open>ld_errors ld = []\<close>] last_in_set in_set_butlastD by metis
    then show ?thesis using that(2) unfolding complete_so_far_def by (simp add: set_command_def)
  qed
  from 1 2 i show ?thesis unfolding loader_inv_def by (auto simp: set_command_def)
qed

lemma wp_actOnBuildBindingDecl:
  assumes "loader_inv ok wd files outer (Some TKWBuild) ld" "tok_kind v = TString" "depsFile (last_command ld) = []"
  shows "wp ok (actOnBuildBindingDecl n v ld)
    (\<lambda>ld1. loader_inv ok wd files outer (Some TKWBuild) ld1 \<and> depsFile (last_command ld1) = [])"
  unfolding actOnBuildBindingDecl_def wp_bind
proof (rule inv_evalToken [OF assms(1,2)], goal_cases)
  case (1 t ld1)
  have "mf_commands (ld_manifest ld1) \<noteq> []" using 1(1) by (simp add: loader_inv_def)
  then show ?case using 1 assms(3) by (auto intro!: inv_set_command simp: command_ok_def)
qed

text \<open>Setting an attribute that the invariant does not speak about.\<close>

lemma wp_attribute:
  assumes i: "loader_inv ok wd files outer (Some TKWBuild) ld"
    and "\<And>t c. cmd_outputs (f t c) = cmd_outputs c \<and> cmd_inputs (f t c) = cmd_inputs c \<and> numExplicitInputs (f t c) = numExplicitInputs c \<and>
      numImplicitInputs (f t c) = numImplicitInputs c \<and> cmd_rule (f t c) = cmd_rule c \<and> executionPool (f t c) = executionPool c \<and>
      depsFile (f t c) = depsFile c \<and> depsStyle (f t c) = depsStyle c"
    and q: "\<And>t ld1. loader_inv ok wd files outer (Some TKWBuild) (set_command (f t) ld1) \<Longrightarrow>
      depsFile (last_command (set_command (f t) ld1)) = depsFile (last_command ld) \<Longrightarrow> Q (t, ld1)"
  shows "wp ok (build_parameter startTok name ld) Q"
proof (rule wp_build_parameter [OF i])
  fix t es
  have "mf_commands (ld_manifest ld) \<noteq> []" using i by (simp add: loader_inv_def)
  moreover have "loader_inv ok wd files outer (Some TKWBuild) (set_command (f t) (emit es ld))"
    using assms(2) by (intro inv_set_command inv_emit i) (simp_all add: command_ok_def)
  ultimately show "Q (t, emit es ld)" using assms(2) by (intro q) simp_all
qed

lemma wp_set_deps:
  assumes i: "loader_inv ok wd files outer (Some TKWBuild) ld" and d: "depsFile (last_command ld) = []"
  shows "wp ok (set_deps startTok ld) (loader_inv ok wd files outer (Some TKWBuild))"
proof -
  have i': "loader_inv ok wd files outer (Some TKWBuild) (emit es ld)" for es using i by (rule inv_emit)
  have f: "ld_files ld \<noteq> []" using inv_files [OF i] by simp
  have fail: "loader_inv ok wd files outer (Some TKWBuild) (set_command (\<lambda>c. c\<lparr>depsStyle := st\<rparr>) (emit es ld))" if "es \<noteq> []" for st es
    using that d by (intro inv_set_command i') (simp_all add: command_ok_def)
  have none: "loader_inv ok wd files outer (Some TKWBuild) (set_command (\<lambda>c. c\<lparr>depsStyle := st\<rparr>) (emit es ld))" if "st \<noteq> DepsGCC" for st es
    using that d by (intro inv_set_command i') (simp_all add: command_ok_def)
  have gcc: "loader_inv ok wd files outer (Some TKWBuild) (set_command (\<lambda>c. c\<lparr>depsStyle := DepsGCC, depsFile := t\<rparr>) (emit es ld))" if "t \<noteq> []" for t es
    using that by (intro inv_set_command i') (simp_all add: command_ok_def)
  show ?thesis unfolding set_deps_def wp_bind wp_prod
    by (rule wp_build_parameter [OF i], unfold prod.case wp_bind wp_prod, rule wp_build_parameter [OF i'])
      (auto simp: Let_def f fail none gcc split: option.split intro!: wp_error)
qed

lemma wp_set_pool:
  assumes i: "loader_inv ok wd files outer (Some TKWBuild) ld"
  shows "wp ok (set_pool startTok ld) (loader_inv ok wd files outer (Some TKWBuild))"
proof -
  have i': "loader_inv ok wd files outer (Some TKWBuild) (emit es ld)" for es using i by (rule inv_emit)
  have f: "ld_files ld \<noteq> []" using inv_files [OF i] by simp
  have p: "p < length (pool_heap (ld_manifest ld))" if "mf_pools (ld_manifest ld) name = Some p" for name p
    using i that by (auto simp: loader_inv_def manifest_ok_def)
  have "loader_inv ok wd files outer (Some TKWBuild) (set_command (\<lambda>c. c\<lparr>executionPool := Some p\<rparr>) (emit es ld))"
    if "p < length (pool_heap (ld_manifest ld))" for p es
    using that by (intro inv_set_command i') (simp_all add: command_ok_def)
  then show ?thesis unfolding set_pool_def wp_bind wp_prod
    by (intro wp_build_parameter [OF i]) (auto simp: f i' p split: option.split intro!: wp_error)
qed

lemma wp_set_rspfile:
  assumes i: "loader_inv ok wd files outer (Some TKWBuild) ld"
  shows "wp ok (set_rspfile wd startTok ld) (loader_inv ok wd files outer (Some TKWBuild))"
proof -
  have i': "loader_inv ok wd files outer (Some TKWBuild) (emit es ld)" for es using i by (rule inv_emit)
  have s: "loader_inv ok wd files outer (Some TKWBuild) (set_command (\<lambda>c. c\<lparr>rspFile := t\<rparr>) (emit es ld))" for t es
    by (intro inv_set_command i') (simp_all add: command_ok_def)
  have u: "loader_inv ok wd files outer (Some TKWBuild) (set_command (\<lambda>c. c\<lparr>rspFile := t, rspFileContent := u\<rparr>) (emit es ld))" for t u es
    by (intro inv_set_command i') (simp_all add: command_ok_def)
  show ?thesis unfolding set_rspfile_def wp_bind wp_prod
    by (intro wp_build_parameter [OF i]) (auto simp: i' u Let_def split: option.split intro!: wp_build_parameter [OF s])
qed

lemma wp_actOnEndBuildDecl:
  assumes i: "loader_inv ok wd files outer (Some TKWBuild) ld" and d: "depsFile (last_command ld) = []"
  shows "wp ok (actOnEndBuildDecl wd startTok ld) (loader_inv ok wd files outer None)"
proof -
  have weaken: "loader_inv ok wd files outer (Some TKWBuild) ld1 \<Longrightarrow> loader_inv ok wd files outer None ld1" for ld1
    by (simp add: loader_inv_def complete_so_far_def)
  show ?thesis unfolding actOnEndBuildDecl_def Let_def wp_bind wp_prod
    apply (rule wp_attribute [where f = "\<lambda>t c. c\<lparr>commandString := t\<rparr>", OF i], simp, unfold prod.case wp_bind wp_prod)
    apply (rule wp_attribute [where f = "\<lambda>t c. c\<lparr>cmd_description := t\<rparr>"], assumption, simp, unfold prod.case wp_bind wp_prod)
    apply (rule wp_mono [OF wp_set_deps], assumption, simp only: d)
    apply (rule wp_mono [OF wp_set_pool], assumption)
    apply (rule wp_attribute [where f = "\<lambda>t c. c\<lparr>isGenerator := (t \<noteq> [])\<rparr>"], assumption, simp, unfold prod.case wp_bind wp_prod)
    apply (rule wp_attribute [where f = "\<lambda>t c. c\<lparr>shouldRestat := (t \<noteq> [])\<rparr>"], assumption, simp, unfold prod.case wp_bind wp_prod)
    apply (rule wp_mono [OF wp_set_rspfile weaken], assumption, assumption)
    done
qed

section \<open>Pools and rules\<close>

lemma update_last_nth: "i < length xs \<Longrightarrow> update_last f xs ! i = (if Suc i = length xs then f (xs ! i) else xs ! i)"
  by (cases xs rule: rev_cases) (auto simp: update_last_def nth_append less_Suc_eq)

lemma inv_manifest:
  assumes i: "loader_inv ok wd files outer s ld"
    and m: "m' = (ld_manifest ld)\<lparr>pool_heap := ph, mf_pools := mp, rule_heap := rh\<rparr>"
    and l: "length (pool_heap (ld_manifest ld)) \<le> length ph" "length (rule_heap (ld_manifest ld)) \<le> length rh"
    and p: "\<And>name p. mp name = Some p \<Longrightarrow> p < length ph \<and> pool_name (ph ! p) = name"
    and r: "\<And>r. r \<in> set rh \<Longrightarrow> dom (rule_parameters r) \<subseteq> parameter_names"
    and f: "\<And>f. f \<in> set (ld_scope ld') \<Longrightarrow> frame_ok rh f"
    and k: "ok \<Longrightarrow> acyclic_rules (closed_rules t rh)"
    and c: "ld_errors ld' = [] \<Longrightarrow> complete_so_far t m'"
    and ld': "ld_manifest ld' = m'" "ld_files ld' = ld_files ld" "tl (ld_scope ld') = tl (ld_scope ld)" "ld_scope ld' \<noteq> []"
    and s: "t \<noteq> Some TKWBuild"
  shows "loader_inv ok wd files outer t ld'"
proof -
  let ?m = "ld_manifest ld"
  have m0: "manifest_ok wd ?m" using i by (simp add: loader_inv_def)
  have "command_ok m' c" if "c \<in> set (mf_commands ?m)" for c
  proof (rule command_ok_mono)
    show "command_ok ?m c" using m0 that unfolding manifest_ok_def by blast
  qed (use l m in simp_all)
  then have "manifest_ok wd m'" using m0 p r l unfolding manifest_ok_def m by simp
  moreover have "\<exists>f. ld_scope ld' = f # outer" using i ld'(3,4) by (cases "ld_scope ld'") (auto simp: loader_inv_def)
  ultimately show ?thesis using i f k c ld' s m unfolding loader_inv_def by simp
qed

lemma inv_parts:
  assumes "loader_inv ok wd files outer s ld"
  shows "ld_files ld \<noteq> []" "ld_scope ld \<noteq> []"
    "mf_pools (ld_manifest ld) name = Some p \<Longrightarrow> p < length (pool_heap (ld_manifest ld)) \<and> pool_name (pool_heap (ld_manifest ld) ! p) = name"
    "r \<in> set (rule_heap (ld_manifest ld)) \<Longrightarrow> dom (rule_parameters r) \<subseteq> parameter_names"
    "f \<in> set (ld_scope ld) \<Longrightarrow> frame_ok (rule_heap (ld_manifest ld)) f"
    "ok \<Longrightarrow> acyclic_rules (closed_rules s (rule_heap (ld_manifest ld)))"
    "ld_errors ld = [] \<Longrightarrow> complete_so_far s (ld_manifest ld)"
    "rule_heap (ld_manifest ld) \<noteq> []" "pool_heap (ld_manifest ld) \<noteq> []"
  using assms by (auto simp: loader_inv_def manifest_ok_def)

lemma wp_actOnBeginPoolDecl:
  assumes i: "loader_inv ok wd files outer None ld"
  shows "wp ok (actOnBeginPoolDecl n ld) (loader_inv ok wd files outer (Some TKWPool))"
proof -
  have "loader_inv ok wd files outer (Some TKWPool)
      (ld1\<lparr>ld_manifest := (ld_manifest ld1)\<lparr>mf_pools := (mf_pools (ld_manifest ld1))(name \<mapsto> length (pool_heap (ld_manifest ld1))),
         pool_heap := pool_heap (ld_manifest ld1) @ [\<lparr>pool_name = name, pool_depth = 0\<rparr>]\<rparr>\<rparr>)"
    if j: "loader_inv ok wd files outer None ld1" for ld1 name
  proof (rule inv_manifest [OF j, where mp = "(mf_pools (ld_manifest ld1))(name \<mapsto> length (pool_heap (ld_manifest ld1)))"
        and ph = "pool_heap (ld_manifest ld1) @ [\<lparr>pool_name = name, pool_depth = 0\<rparr>]" and rh = "rule_heap (ld_manifest ld1)"])
    fix x p
    assume "((mf_pools (ld_manifest ld1))(name \<mapsto> length (pool_heap (ld_manifest ld1)))) x = Some p"
    then show "p < length (pool_heap (ld_manifest ld1) @ [\<lparr>pool_name = name, pool_depth = 0\<rparr>]) \<and>
        pool_name ((pool_heap (ld_manifest ld1) @ [\<lparr>pool_name = name, pool_depth = 0\<rparr>]) ! p) = x"
      using inv_parts(3) [OF j, of x p] by (auto simp: nth_append split: if_splits)
  qed (use inv_parts [OF j] in \<open>simp_all add: complete_so_far_def\<close>)
  then show ?thesis using i by (auto simp: actOnBeginPoolDecl_def Let_def intro!: inv_error [OF i])
qed

lemma wp_actOnPoolBindingDecl:
  assumes i: "loader_inv ok wd files outer (Some TKWPool) ld" and v: "tok_kind v = TString"
  shows "wp ok (actOnPoolBindingDecl n v ld) (loader_inv ok wd files outer (Some TKWPool))"
proof -
  have set: "loader_inv ok wd files outer (Some TKWPool)
      (ld1\<lparr>ld_manifest := (ld_manifest ld1)\<lparr>pool_heap := update_last (\<lambda>p. p\<lparr>pool_depth := d\<rparr>) (pool_heap (ld_manifest ld1))\<rparr>\<rparr>)"
    if j: "loader_inv ok wd files outer (Some TKWPool) ld1" for ld1 d
  proof (rule inv_manifest [OF j, where mp = "mf_pools (ld_manifest ld1)" and rh = "rule_heap (ld_manifest ld1)"
        and ph = "update_last (\<lambda>p. p\<lparr>pool_depth := d\<rparr>) (pool_heap (ld_manifest ld1))"])
    fix x p
    assume "mf_pools (ld_manifest ld1) x = Some p"
    then show "p < length (update_last (\<lambda>p. p\<lparr>pool_depth := d\<rparr>) (pool_heap (ld_manifest ld1))) \<and>
        pool_name (update_last (\<lambda>p. p\<lparr>pool_depth := d\<rparr>) (pool_heap (ld_manifest ld1)) ! p) = x"
      using inv_parts(3) [OF j, of x p] by (simp add: update_last_nth)
  qed (use inv_parts [OF j] in \<open>simp_all add: complete_so_far_def\<close>)
  show ?thesis unfolding actOnPoolBindingDecl_def wp_bind wp_prod
  proof (rule inv_evalToken [OF i v], goal_cases)
    case (1 t ld1)
    show ?case using set [OF 1(1)] 1(1) by (auto simp: Let_def split: option.split intro!: inv_error [OF 1(1)])
  qed
qed

lemma wp_actOnEndPoolDecl:
  assumes i: "loader_inv ok wd files outer (Some TKWPool) ld"
  shows "wp ok (actOnEndPoolDecl n ld) (loader_inv ok wd files outer None)"
proof -
  have close: "loader_inv ok wd files outer None ld1"
    if j: "loader_inv ok wd files outer (Some TKWPool) ld1" "ld_errors ld1 \<noteq> [] \<or> pool_depth (last (pool_heap (ld_manifest ld1))) \<noteq> 0" for ld1
  proof -
    have "set (pool_heap (ld_manifest ld1)) = insert (last (pool_heap (ld_manifest ld1))) (set (butlast (pool_heap (ld_manifest ld1))))"
      using inv_parts(9) [OF j(1)] append_butlast_last_id [of "pool_heap (ld_manifest ld1)"]
      by (metis list.simps(15) rotate1.simps(2) set_rotate1)
    then show ?thesis using j by (auto simp: loader_inv_def complete_so_far_def)
  qed
  show ?thesis using i by (auto simp: actOnEndPoolDecl_def intro!: inv_error [OF i] close)
qed

lemma wp_actOnBeginRuleDecl:
  assumes i: "loader_inv ok wd files outer None ld"
  shows "wp ok (actOnBeginRuleDecl n ld) (\<lambda>ld1. loader_inv ok wd files outer (Some TKWRule) ld1 \<and> rule_parameters (last (rule_heap (ld_manifest ld1))) = Map.empty)"
proof -
  let ?heap = "\<lambda>ld name. rule_heap (ld_manifest ld) @ [\<lparr>rule_name = name, rule_parameters = Map.empty\<rparr>]"
  let ?frame = "\<lambda>ld name. (hd (ld_scope ld))\<lparr>fr_rules := (fr_rules (hd (ld_scope ld)))(name \<mapsto> length (rule_heap (ld_manifest ld)))\<rparr>"
  have new: "loader_inv ok wd files outer (Some TKWRule)
      (ld1\<lparr>ld_scope := ?frame ld1 name # tl (ld_scope ld1), ld_manifest := (ld_manifest ld1)\<lparr>rule_heap := ?heap ld1 name\<rparr>\<rparr>)"
    if j: "loader_inv ok wd files outer None ld1" for ld1 name
  proof (rule inv_manifest [OF j, where mp = "mf_pools (ld_manifest ld1)" and rh = "?heap ld1 name" and ph = "pool_heap (ld_manifest ld1)"])
    fix f
    assume f: "f \<in> set (ld_scope (ld1\<lparr>ld_scope := ?frame ld1 name # tl (ld_scope ld1), ld_manifest := (ld_manifest ld1)\<lparr>rule_heap := ?heap ld1 name\<rparr>\<rparr>))"
    have "frame_ok (rule_heap (ld_manifest ld1)) (hd (ld_scope ld1))" "\<forall>f\<in>set (tl (ld_scope ld1)). frame_ok (rule_heap (ld_manifest ld1)) f"
      using inv_parts(2,5) [OF j] by (cases "ld_scope ld1", auto)+
    then show "frame_ok (?heap ld1 name) f" using f by (fastforce simp: frame_ok_def nth_append split: if_splits)
  next
    fix r
    assume "r \<in> set (?heap ld1 name)"
    then show "dom (rule_parameters r) \<subseteq> parameter_names" using inv_parts(4) [OF j, of r] by (cases "r \<in> set (rule_heap (ld_manifest ld1))") simp_all
  qed (use inv_parts [OF j] in \<open>simp_all add: complete_so_far_def\<close>)
  have "hd (ld_scope ld1) = hd (ld_scope ld) \<and> tl (ld_scope ld1) = tl (ld_scope ld)" if "ld_scope ld1 = ld_scope ld" for ld1 :: Loader
    using that by simp
  then show ?thesis using i new inv_parts(1) [OF i]
    by (auto simp: actOnBeginRuleDecl_def getCurrentScope_def Let_def intro!: inv_error [OF i]) (metis new)
qed

abbreviation last_rule :: "Loader \<Rightarrow> NinjaRule" where
  "last_rule ld \<equiv> last (rule_heap (ld_manifest ld))"

lemma wp_actOnRuleBindingDecl:
  assumes i: "loader_inv ok wd files outer (Some TKWRule) ld"
  shows "wp ok (actOnRuleBindingDecl n v ld) (\<lambda>ld1. loader_inv ok wd files outer (Some TKWRule) ld1 \<and>
     rule_parameters (last_rule ld1) =
       (if isValidParameterName (tok_text n) then (rule_parameters (last_rule ld))(tok_text n \<mapsto> tok_text v) else rule_parameters (last_rule ld)))"
proof (cases "isValidParameterName (tok_text n)")
  case True
  let ?heap = "update_last (\<lambda>r. r\<lparr>rule_parameters := (rule_parameters r)(tok_text n \<mapsto> tok_text v)\<rparr>) (rule_heap (ld_manifest ld))"
  have l: "rule_heap (ld_manifest ld) \<noteq> []" using inv_parts(8) [OF i] .
  have "loader_inv ok wd files outer (Some TKWRule) (ld\<lparr>ld_manifest := (ld_manifest ld)\<lparr>rule_heap := ?heap\<rparr>\<rparr>)"
  proof (rule inv_manifest [OF i, where mp = "mf_pools (ld_manifest ld)" and rh = ?heap and ph = "pool_heap (ld_manifest ld)"])
    fix x
    assume "x \<in> set ?heap"
    then show "dom (rule_parameters x) \<subseteq> parameter_names"
      using update_last_set [OF \<open>x \<in> set ?heap\<close>] inv_parts(4) [OF i last_in_set [OF l]] inv_parts(4) [OF i in_set_butlastD, of x] True
      by (elim disjE) (simp_all add: parameter_names_def)
  next
    fix f
    assume "f \<in> set (ld_scope (ld\<lparr>ld_manifest := (ld_manifest ld)\<lparr>rule_heap := ?heap\<rparr>\<rparr>))"
    then show "frame_ok ?heap f" using inv_parts(5) [OF i, of f] by (simp add: frame_ok_def update_last_nth)
  qed (use inv_parts [OF i] in \<open>simp_all add: complete_so_far_def\<close>)
  then show ?thesis using True l by (simp add: actOnRuleBindingDecl_def Let_def)
next
  case False
  then show ?thesis using i by (auto simp: actOnRuleBindingDecl_def Let_def intro!: inv_error [OF i])
qed

lemma wp_actOnEndRuleDecl:
  assumes i: "loader_inv ok wd files outer (Some TKWRule) ld" and k: "ok \<Longrightarrow> no_self_reference (rule_parameters (last_rule ld))"
  shows "wp ok (actOnEndRuleDecl n ld) (loader_inv ok wd files outer None)"
proof -
  have close: "loader_inv ok wd files outer None ld1"
    if j: "loader_inv ok wd files outer (Some TKWRule) ld1" "ld_errors ld1 \<noteq> [] \<or> rule_parameters (last_rule ld1) ''command'' \<noteq> None"
      "ld_manifest ld1 = ld_manifest ld" for ld1
  proof -
    have "set (tl (rule_heap (ld_manifest ld1))) \<subseteq> insert (last_rule ld1) (set (tl (butlast (rule_heap (ld_manifest ld1)))))"
      "set (rule_heap (ld_manifest ld1)) \<subseteq> insert (last_rule ld1) (set (butlast (rule_heap (ld_manifest ld1))))"
      by (cases "rule_heap (ld_manifest ld1)" rule: rev_cases; cases "butlast (rule_heap (ld_manifest ld1))"; auto)+
    moreover from this(2) have "ok \<Longrightarrow> acyclic_rules (rule_heap (ld_manifest ld1))"
      using k inv_parts(6) [OF j(1)] j(3) by (fastforce simp: acyclic_rules_def)
    ultimately show ?thesis using j by (auto simp: loader_inv_def complete_so_far_def)
  qed
  show ?thesis using i by (auto simp: actOnEndRuleDecl_def intro!: inv_error [OF i] close)
qed

section \<open>Includes and the whole load\<close>

text \<open>
  The parameters of the rule that is being declared, as the calls of the parser give them; a later
  binding of a parameter replaces an earlier one.
\<close>

definition rule_so_far :: "(string \<rightharpoonup> string) \<Rightarrow> Token ParseAction \<Rightarrow> string \<rightharpoonup> string" where
  "rule_so_far ps a =
     (case a of
        OnBeginRuleDecl n \<Rightarrow> Map.empty
      | OnRuleBindingDecl n v \<Rightarrow> if isValidParameterName (tok_text n) then ps(tok_text n \<mapsto> tok_text v) else ps
      | _ \<Rightarrow> ps)"

definition closes_well :: "(string \<rightharpoonup> string) \<Rightarrow> Token ParseAction \<Rightarrow> bool" where
  "closes_well ps a \<longleftrightarrow> (case a of OnEndRuleDecl tok \<Rightarrow> no_self_reference ps | _ \<Rightarrow> True)"

fun good_rules :: "(string \<rightharpoonup> string) \<Rightarrow> Token ParseAction list \<Rightarrow> bool" where
  "good_rules ps [] \<longleftrightarrow> True"
| "good_rules ps (a # as) \<longleftrightarrow> closes_well ps a \<and> good_rules (rule_so_far ps a) as"

lemma good_rules_append: "good_rules ps (as @ bs) \<longleftrightarrow> good_rules ps as \<and> good_rules (foldl rule_so_far ps as) bs"
  by (induction as arbitrary: ps) auto

text \<open>
  The files of a load: the main file, and what a loaded file includes, for any value of the variables in
  the path.  A load ends if no file ends in a dollar sign, which the lexer cannot handle; no parameter of
  a rule refers, directly or through other parameters of the same rule, to itself; and no file includes
  itself, directly or through others.
\<close>

definition good_data :: "string \<Rightarrow> bool" where
  "good_data data \<longleftrightarrow> \<not> suffix ''$'' data \<and> (\<forall>calls. parse_ninja data = Some calls \<longrightarrow> good_rules Map.empty calls)"

definition included :: "readFile \<Rightarrow> string \<Rightarrow> string \<Rightarrow> string \<Rightarrow> string \<Rightarrow> string \<Rightarrow> bool" where
  "included readFile wd f data g data1 \<longleftrightarrow>
     (\<exists>calls isInclude tok path. parse_ninja data = Some calls \<and> OnIncludeDecl isInclude tok \<in> set calls \<and>
        expands (tok_text tok) path \<and> readFile (make_absolute wd path) f (Some tok) = Some (g, data1))"

inductive loaded :: "readFile \<Rightarrow> string \<Rightarrow> string \<Rightarrow> string \<Rightarrow> string \<Rightarrow> bool" for readFile wd main where
  main: "readFile (make_absolute wd main) main None = Some (f, data) \<Longrightarrow> loaded readFile wd main f data"
| nested: "loaded readFile wd main f data \<Longrightarrow> included readFile wd f data g data1 \<Longrightarrow> loaded readFile wd main g data1"

definition include_graph :: "readFile \<Rightarrow> string \<Rightarrow> string \<Rightarrow> (string \<times> string) set" where
  "include_graph readFile wd main =
     {(g, f). \<exists>data data1. loaded readFile wd main f data \<and> included readFile wd f data g data1}"

definition good_files :: "readFile \<Rightarrow> string \<Rightarrow> string \<Rightarrow> bool" where
  "good_files readFile wd main \<longleftrightarrow>
     (\<forall>f data. loaded readFile wd main f data \<longrightarrow> good_data data) \<and>
     finite (include_graph readFile wd main) \<and> acyclic (include_graph readFile wd main)"

definition include_depth :: "readFile \<Rightarrow> string \<Rightarrow> string \<Rightarrow> (string \<Rightarrow> nat) \<Rightarrow> bool" where
  "include_depth readFile wd main depth \<longleftrightarrow>
     (\<forall>f data. loaded readFile wd main f data \<longrightarrow> good_data data) \<and>
     (\<forall>f data g data1. loaded readFile wd main f data \<longrightarrow> included readFile wd f data g data1 \<longrightarrow> depth g < depth f)"

lemma good_files_depth:
  assumes "good_files rf wd main"
  obtains depth where "include_depth rf wd main depth"
proof -
  obtain depth :: "string \<Rightarrow> nat" where "\<And>g f. (g, f) \<in> include_graph rf wd main \<Longrightarrow> depth g < depth f"
    using acyclic_ranked [of "include_graph rf wd main"] assms unfolding good_files_def by blast
  then show ?thesis using that assms unfolding include_depth_def good_files_def include_graph_def by blast
qed

text \<open>What an include relies on: parsing a file that was entered keeps the invariant and leaves the file.\<close>

definition parses :: "bool \<Rightarrow> string \<Rightarrow> readFile \<Rightarrow> string \<Rightarrow> (string \<Rightarrow> nat) \<Rightarrow> nat \<Rightarrow> (string \<Rightarrow> Loader \<Rightarrow> Loader option) \<Rightarrow> bool" where
  "parses ok wd rf main depth n parse \<longleftrightarrow>
     (\<forall>data ld f fs outer. loader_inv ok wd (f # fs) outer None ld \<longrightarrow> (ok \<longrightarrow> depth f < n \<and> loaded rf wd main f data) \<longrightarrow>
        wp ok (parse data ld) (\<lambda>ld1. \<exists>ld2. loader_inv ok wd (f # fs) outer None ld2 \<and> ld1 = ld2\<lparr>ld_files := fs\<rparr>))"

lemma inv_change_files: "loader_inv ok wd files outer s ld \<Longrightarrow> fs \<noteq> [] \<Longrightarrow> loader_inv ok wd fs outer s (ld\<lparr>ld_files := fs\<rparr>)"
  by (simp add: loader_inv_def)

lemma wp_enter:
  assumes p: "parses ok wd rf main depth n parse" and g: "ok \<Longrightarrow> include_depth rf wd main depth"
    and i: "loader_inv ok wd files outer None ld" and d: "ok \<Longrightarrow> depth (hd files) < Suc n"
    and e: "ok \<Longrightarrow> loaded rf wd main (hd files) here \<and> parse_ninja here = Some calls \<and> OnIncludeDecl b tok \<in> set calls \<and> expands (tok_text tok) path"
    and q: "\<And>ld1. loader_inv ok wd files outer None ld1 \<Longrightarrow> Q ld1"
  shows "wp ok (enter_and_parse rf wd parse path tok ld) Q"
proof (cases "rf (make_absolute wd path) (hd files) (Some tok)")
  case None
  then show ?thesis using i q by (auto simp: enter_and_parse_def enterFile_def Let_def loader_inv_def split: list.splits)
next
  case (Some x)
  obtain f fs where f: "files = f # fs" "ld_files ld = f # fs" using i by (cases files) (auto simp: loader_inv_def)
  obtain ident data where x: "x = (ident, data)" by (cases x)
  have "loader_inv ok wd (ident # files) outer None (ld\<lparr>ld_files := ident # files\<rparr>)"
    using inv_change_files [OF i] by blast
  moreover have "depth ident < n \<and> loaded rf wd main ident data" if ok
  proof -
    have "included rf wd f here ident data" using e [OF that] Some x f(1) unfolding included_def by auto
    then show ?thesis using e [OF that] g [OF that] d [OF that] f(1) loaded.nested unfolding include_depth_def by fastforce
  qed
  ultimately have "wp ok (parse data (ld\<lparr>ld_files := ident # files\<rparr>))
      (\<lambda>ld1. \<exists>ld2. loader_inv ok wd (ident # files) outer None ld2 \<and> ld1 = ld2\<lparr>ld_files := files\<rparr>)"
    using p unfolding parses_def by blast
  then have "wp ok (parse data (ld\<lparr>ld_files := ident # files\<rparr>)) Q"
    by (rule wp_mono) (use q inv_change_files f(1) in blast)
  then show ?thesis using Some x f by (simp add: enter_and_parse_def enterFile_def)
qed

lemma wp_actOnIncludeDecl:
  assumes p: "parses ok wd rf main depth n parse" and g: "ok \<Longrightarrow> include_depth rf wd main depth"
    and i: "loader_inv ok wd files outer None ld" and d: "ok \<Longrightarrow> depth (hd files) < Suc n" and t: "tok_kind tok = TString"
    and e: "ok \<Longrightarrow> loaded rf wd main (hd files) here \<and> parse_ninja here = Some calls \<and> OnIncludeDecl b tok \<in> set calls"
  shows "wp ok (actOnIncludeDecl rf wd parse b tok ld) (loader_inv ok wd files outer None)"
  unfolding actOnIncludeDecl_def wp_bind
proof (rule inv_evalToken [OF i t], goal_cases)
  case (1 path ld1)
  have sub: "loader_inv ok wd files (ld_scope ld1) None (ld1\<lparr>ld_scope := empty_frame # ld_scope ld1\<rparr>)"
    using 1(1) by (auto simp: loader_inv_def frame_ok_def empty_frame_def)
  have leave: "loader_inv ok wd files outer None (ld2\<lparr>ld_scope := tl (ld_scope ld2)\<rparr>)"
    if "loader_inv ok wd files (ld_scope ld1) None ld2" for ld2
    using that 1(1) by (auto simp: loader_inv_def)
  have e1: "loaded rf wd main (hd files) here \<and> parse_ninja here = Some calls \<and> OnIncludeDecl b tok \<in> set calls \<and> expands (tok_text tok) path" if ok
    using e [OF that] 1(4) by simp
  show ?case
  proof (cases b)
    case True
    then show ?thesis using wp_enter [OF p g 1(1) d e1, of "loader_inv ok wd files outer None"] by simp
  next
    case False
    have "wp ok (enter_and_parse rf wd parse path tok (ld1\<lparr>ld_scope := empty_frame # ld_scope ld1\<rparr>))
        (\<lambda>ld2. loader_inv ok wd files outer None (ld2\<lparr>ld_scope := tl (ld_scope ld2)\<rparr>))"
      by (rule wp_enter [OF p g sub d e1]) (use leave in blast)+
    then show ?thesis using False by (simp only: prod.case if_False wp_bind wp_simps)
  qed
qed

definition act_inv :: "bool \<Rightarrow> string \<Rightarrow> string list \<Rightarrow> Frame list \<Rightarrow> (string \<rightharpoonup> string) \<Rightarrow> TokenKind option \<Rightarrow> Loader \<Rightarrow> bool" where
  "act_inv ok wd files outer ps s ld \<longleftrightarrow>
     loader_inv ok wd files outer s ld \<and> (s = Some TKWBuild \<longrightarrow> depsFile (last_command ld) = []) \<and>
     (s = Some TKWRule \<longrightarrow> rule_parameters (last_rule ld) = ps)"

lemma act_inv_simps [simp]:
  "act_inv ok wd files outer ps None = loader_inv ok wd files outer None"
  "act_inv ok wd files outer ps (Some TKWPool) = loader_inv ok wd files outer (Some TKWPool)"
  "act_inv ok wd files outer ps (Some TKWRule) =
     (\<lambda>ld. loader_inv ok wd files outer (Some TKWRule) ld \<and> rule_parameters (last_rule ld) = ps)"
  "act_inv ok wd files outer ps (Some TKWBuild) =
     (\<lambda>ld. loader_inv ok wd files outer (Some TKWBuild) ld \<and> depsFile (last_command ld) = [])"
  by (simp_all add: fun_eq_iff act_inv_def)

lemma wp_act:
  assumes "is_absolute wd" "parses ok wd rf main depth n parse" "ok \<Longrightarrow> include_depth rf wd main depth" "ok \<Longrightarrow> depth (hd files) < Suc n"
    and e: "ok \<Longrightarrow> loaded rf wd main (hd files) here \<and> parse_ninja here = Some calls \<and> a \<in> set calls"
    and i: "act_inv ok wd files outer ps s ld" and s: "protocol_step s a = Some t" and r: "ok \<Longrightarrow> closes_well ps a"
  shows "wp ok (act rf wd parse a ld) (act_inv ok wd files outer (rule_so_far ps a) t)"
proof -
  have j: "loader_inv ok wd files outer s ld" "s = Some TKWBuild \<Longrightarrow> depsFile (last_command ld) = []"
      "s = Some TKWRule \<Longrightarrow> rule_parameters (last_rule ld) = ps"
    using i by (auto simp: act_inv_def)
  show ?thesis
  proof (cases a)
    case (OnError m tok)
    then show ?thesis using s i by (auto simp: act_def act_inv_def rule_so_far_def intro!: inv_error [OF j(1)] j(2,3))
  next
    case (OnBindingDecl n v)
    then show ?thesis using s j wp_actOnBindingDecl by (auto simp: act_def split: if_splits)
  next
    case (OnDefaultDecl ts)
    then show ?thesis using s j wp_actOnDefaultDecl by (auto simp: act_def split: if_splits)
  next
    case (OnIncludeDecl b tok)
    then show ?thesis using s j e wp_actOnIncludeDecl [OF assms(2,3) _ assms(4), of outer ld tok here calls b] by (auto simp: act_def split: if_splits)
  next
    case (OnBeginBuildDecl n outs ins k l)
    then show ?thesis using s j wp_actOnBeginBuildDecl assms(1) by (auto simp: act_def split: if_splits)
  next
    case (OnBuildBindingDecl n v)
    then show ?thesis using s j wp_actOnBuildBindingDecl by (auto simp: act_def split: if_splits)
  next
    case (OnEndBuildDecl tok)
    then show ?thesis using s j wp_actOnEndBuildDecl by (auto simp: act_def split: if_splits)
  next
    case (OnBeginPoolDecl n)
    then show ?thesis using s j wp_actOnBeginPoolDecl by (auto simp: act_def split: if_splits)
  next
    case (OnPoolBindingDecl n v)
    then show ?thesis using s j wp_actOnPoolBindingDecl by (auto simp: act_def split: if_splits)
  next
    case (OnEndPoolDecl tok)
    then show ?thesis using s j wp_actOnEndPoolDecl by (auto simp: act_def split: if_splits)
  next
    case (OnBeginRuleDecl n)
    then show ?thesis using s j wp_actOnBeginRuleDecl by (auto simp: act_def rule_so_far_def split: if_splits)
  next
    case (OnRuleBindingDecl n v)
    then show ?thesis using s j wp_actOnRuleBindingDecl [of ok wd files outer ld n v] by (auto simp: act_def rule_so_far_def split: if_splits)
  next
    case (OnEndRuleDecl tok)
    then show ?thesis using s j r wp_actOnEndRuleDecl by (auto simp: act_def closes_well_def split: if_splits)
  qed (use s in simp_all)
qed

lemma wp_perform:
  assumes "is_absolute wd" "parses ok wd rf main depth n parse" "ok \<Longrightarrow> include_depth rf wd main depth" "ok \<Longrightarrow> depth (hd files) < Suc n"
  shows "act_inv ok wd files outer ps s ld \<Longrightarrow> protocol s as = Some t \<Longrightarrow> (ok \<Longrightarrow> good_rules ps as) \<Longrightarrow>
    (ok \<Longrightarrow> loaded rf wd main (hd files) here \<and> parse_ninja here = Some calls \<and> set as \<subseteq> set calls) \<Longrightarrow>
    wp ok (perform rf wd parse as ld) (act_inv ok wd files outer (foldl rule_so_far ps as) t)"
proof (induction as arbitrary: s ld ps)
  case (Cons a as)
  then obtain s1 where s1: "protocol_step s a = Some s1" "protocol s1 as = Some t" by auto
  have "wp ok (act rf wd parse a ld) (act_inv ok wd files outer (rule_so_far ps a) s1)"
    by (rule wp_act [OF assms _ Cons(2) s1(1)]) (use Cons(4,5) in auto)
  then show ?case unfolding perform.simps wp_bind by (rule wp_mono) (use Cons s1 in auto)
qed simp

lemma perform_append: "perform rf wd parse (as @ bs) ld = do { ld \<leftarrow> perform rf wd parse as ld; perform rf wd parse bs ld }"
  by (induction as arbitrary: ld) (auto split: bind_splits)

lemma parse_file_parses:
  assumes "is_absolute wd" "ok \<Longrightarrow> include_depth rf wd main depth"
  shows "parses ok wd rf main depth n (parse_file rf wd n)"
proof (induction n)
  case 0
  then show ?case by (simp add: parses_def)
next
  case (Suc n)
  show ?case unfolding parses_def
  proof (intro allI impI)
    fix data ld f fs outer
    assume i: "loader_inv ok wd (f # fs) outer None ld" and d: "ok \<longrightarrow> depth f < Suc n \<and> loaded rf wd main f data"
    have good: "ok \<Longrightarrow> good_data data" using assms(2) d unfolding include_depth_def by blast
    show "wp ok (parse_file rf wd (Suc n) data ld) (\<lambda>ld1. \<exists>ld2. loader_inv ok wd (f # fs) outer None ld2 \<and> ld1 = ld2\<lparr>ld_files := fs\<rparr>)"
      unfolding parse_file.simps wp_bind
    proof (rule wp_known, rule wp_mono [OF wp_parse_ninja], use good in \<open>simp add: good_data_def\<close>, intro impI, elim exE conjE)
      fix calls mid
      assume c: "parse_ninja data = Some calls" "calls = OnBeginManifest ''<main>'' # mid @ [OnEndManifest]" "protocol None mid = Some None"
      have "good_rules (rule_so_far Map.empty (OnBeginManifest ''<main>'')) (mid @ [OnEndManifest])" if ok
        using good [OF that] c(1,2) by (auto simp: good_data_def)
      then have r: "good_rules Map.empty mid" if ok
        using that by (simp add: good_rules_append rule_so_far_def)
      have "wp ok (perform rf wd (parse_file rf wd n) mid ld) (act_inv ok wd (f # fs) outer (foldl rule_so_far Map.empty mid) None)"
        by (rule wp_perform [OF assms(1) Suc assms(2) _ _ c(3) r, where here = data and calls = calls]) (use i d c in auto)
      then have "wp ok (perform rf wd (parse_file rf wd n) mid ld)
          (\<lambda>ld1. wp ok (exitCurrentFile ld1) (\<lambda>ld1. \<exists>ld2. loader_inv ok wd (f # fs) outer None ld2 \<and> ld1 = ld2\<lparr>ld_files := fs\<rparr>))"
        by (rule wp_mono) (auto simp: exitCurrentFile_def act_inv_def loader_inv_def)
      then show "wp ok (perform rf wd (parse_file rf wd n) calls ld) (\<lambda>ld1. \<exists>ld2. loader_inv ok wd (f # fs) outer None ld2 \<and> ld1 = ld2\<lparr>ld_files := fs\<rparr>)"
        by (simp add: c(2) act_def perform_append)
    qed
  qed
qed

end
