(* ===== verification/Ninja_Load_Properties.thy ===== *)
theory Ninja_Load_Properties
  imports Ninja_Load_Inv
begin

text \<open>
  The properties of the manifest loader as a whole: a load ends, its result is well-formed, and the
  scopes of subninjas are kept apart.
\<close>

lemma enter_more:
  assumes "\<And>data ld r. parse data ld = Some r \<Longrightarrow> parse' data ld = Some r" "enter_and_parse rf wd parse path tok ld = Some r"
  shows "enter_and_parse rf wd parse' path tok ld = Some r"
  using assms by (cases "enterFile rf wd path (Some tok) ld") (auto simp: enter_and_parse_def split: option.splits)

lemma act_more:
  assumes "\<And>data ld r. parse data ld = Some r \<Longrightarrow> parse' data ld = Some r" "act rf wd parse a ld = Some r"
  shows "act rf wd parse' a ld = Some r"
proof (cases a)
  case (OnIncludeDecl b tok)
  show ?thesis
  proof (cases b)
    case True
    then show ?thesis using OnIncludeDecl assms(2) enter_more [OF assms(1)] by (auto simp: act_def actOnIncludeDecl_def)
  next
    case False
    then show ?thesis using OnIncludeDecl assms(2) enter_more [OF assms(1)] by (fastforce simp: act_def actOnIncludeDecl_def)
  qed
qed (use assms(2) in \<open>simp_all add: act_def\<close>)

lemma perform_more:
  assumes "\<And>data ld r. parse data ld = Some r \<Longrightarrow> parse' data ld = Some r"
  shows "perform rf wd parse as ld = Some r \<Longrightarrow> perform rf wd parse' as ld = Some r"
proof (induction as arbitrary: ld)
  case (Cons a as)
  then show ?case using act_more [OF assms] by auto
qed simp

lemma parse_file_more: "parse_file rf wd n data ld = Some r \<Longrightarrow> n \<le> k \<Longrightarrow> parse_file rf wd k data ld = Some r"
proof (induction n arbitrary: data ld r k)
  case (Suc n)
  then obtain j where k: "k = Suc j" "n \<le> j" by (cases k) auto
  show ?case using Suc(2) perform_more [of "parse_file rf wd n" "parse_file rf wd j"] Suc(1) [OF _ k(2)] unfolding k(1) by auto
qed simp

lemma no_parameters [simp]: "no_self_reference Map.empty"
  by (simp add: no_self_reference_def refers_def acyclic_def)

lemma new_loader_inv: "loader_inv ok wd [f] [] None (new_loader\<lparr>ld_files := [f]\<rparr>)"
  by (auto simp: loader_inv_def new_loader_def new_manifest_def new_rootScope_def manifest_ok_def nodes_ok_def frame_ok_def
      complete_so_far_def acyclic_rules_def split: if_splits)

lemma wp_load:
  assumes "is_absolute wd" "ok \<Longrightarrow> include_depth rf wd main depth"
    and "\<And>identifier data. ok \<Longrightarrow> rf (make_absolute wd main) main None = Some (identifier, data) \<Longrightarrow> depth identifier < n"
  shows "wp ok (load_manifest rf wd main n) (\<lambda>(r, errors). \<forall>m scope. r = Some (m, scope) \<longrightarrow>
    manifest_ok wd m \<and> (\<exists>f. scope = [f] \<and> frame_ok (rule_heap m) f) \<and> (errors = [] \<longrightarrow> complete_so_far None m))"
proof (cases "rf (make_absolute wd main) main None")
  case None
  then show ?thesis by (simp add: load_manifest_def enterFile_def new_loader_def)
next
  case (Some x)
  obtain f data where x: "x = (f, data)" by (cases x)
  have p: "parses ok wd rf main depth n (parse_file rf wd n)" by (rule parse_file_parses [OF assms(1,2)])
  have "ok \<longrightarrow> depth f < n \<and> loaded rf wd main f data" using assms(3) Some x loaded.main by blast
  then have "wp ok (parse_file rf wd n data (new_loader\<lparr>ld_files := [f]\<rparr>))
      (\<lambda>ld1. \<exists>ld2. loader_inv ok wd [f] [] None ld2 \<and> ld1 = ld2\<lparr>ld_files := []\<rparr>)"
    using p new_loader_inv [of ok wd f] unfolding parses_def by blast
  then have "wp ok (parse_file rf wd n data (new_loader\<lparr>ld_files := [f]\<rparr>))
      (\<lambda>ld. wp ok (if ld_files ld = [] then Some (Some (ld_manifest ld, ld_scope ld), ld_errors ld) else None)
        (\<lambda>(r, errors). \<forall>m scope. r = Some (m, scope) \<longrightarrow> manifest_ok wd m \<and> (\<exists>f. scope = [f] \<and> frame_ok (rule_heap m) f) \<and>
          (errors = [] \<longrightarrow> complete_so_far None m)))"
    by (rule wp_mono) (auto simp: loader_inv_def)
  then show ?thesis using Some x by (simp add: load_manifest_def enterFile_def new_loader_def)
qed


text \<open>
  C30.  A loaded manifest is well-formed, whatever the files hold: its nodes are filed under their
  normalised paths, every pointer of a command, pool or default target leads to an object of the
  manifest, the counts of a command fit its inputs, rules bind valid parameters only and a command with
  a dependency file has GCC style dependencies.  If no error was reported, every command with GCC style
  dependencies has a dependency file, every pool a depth and every declared rule a command.
\<close>

theorem load_well_formed:
  assumes "is_absolute wd" "load_manifest rf wd main n = Some (Some (m, scope), errors)"
  shows "manifest_ok wd m \<and> (\<exists>f. scope = [f] \<and> frame_ok (rule_heap m) f) \<and> (errors = [] \<longrightarrow> complete_so_far None m)"
  using wpD [OF wp_load [of wd False] assms(2)] assms(1) by simp

section \<open>Scopes\<close>

text \<open>No action but the end of a file touches the include stack or an outer frame.\<close>

abbreviation same_outside :: "Loader \<Rightarrow> Loader \<Rightarrow> bool" where
  "same_outside ld ld1 \<equiv> ld_files ld1 = ld_files ld \<and> tl (ld_scope ld1) = tl (ld_scope ld)"

lemma error_outside: "loader_error msg at ld = Some ld1 \<Longrightarrow> ld_scope ld1 = ld_scope ld \<and> ld_files ld1 = ld_files ld"
  by (auto simp: loader_error_def)

lemma report_outside: "report_errors msgs at ld = Some ld1 \<Longrightarrow> ld_scope ld1 = ld_scope ld \<and> ld_files ld1 = ld_files ld"
  by (induction msgs arbitrary: ld) (auto dest!: error_outside)

lemma eval_outside: "evalToken tok ld = Some (t, ld1) \<Longrightarrow> ld_scope ld1 = ld_scope ld \<and> ld_files ld1 = ld_files ld"
  by (auto simp: evalToken_def dest!: report_outside split: if_splits)

lemma parameter_outside: "build_parameter tok name ld = Some (t, ld1) \<Longrightarrow> ld_scope ld1 = ld_scope ld \<and> ld_files ld1 = ld_files ld"
  by (auto simp: build_parameter_def dest!: report_outside)

lemma default_outside: "actOnDefaultDecl wd toks ld = Some ld1 \<Longrightarrow> ld_scope ld1 = ld_scope ld \<and> ld_files ld1 = ld_files ld"
  by (induction toks arbitrary: ld) (fastforce dest!: error_outside split: option.splits)+

lemma resolve_outside: "resolve_nodes wd msg toks ld = Some (ps, ld1) \<Longrightarrow> ld_scope ld1 = ld_scope ld \<and> ld_files ld1 = ld_files ld"
proof (induction toks arbitrary: ld ps)
  case (Cons t toks)
  from Cons(2) obtain path ld2 ld3 qs where "evalToken t ld = Some (path, ld2)"
    "(if path = [] then loader_error msg t ld2 else Some ld2) = Some ld3"
    "resolve_nodes wd msg toks (ld3\<lparr>ld_manifest := snd (findOrCreateNode wd path (ld_manifest ld3))\<rparr>) = Some (qs, ld1)"
    by (auto simp: Let_def case_prod_beta split: if_splits)
  then show ?case using Cons(1) by (fastforce dest!: error_outside eval_outside split: if_splits)
qed simp

lemmas outside = error_outside eval_outside parameter_outside default_outside resolve_outside

lemma set_outside:
  "set_deps tok ld = Some ld1 \<Longrightarrow> ld_scope ld1 = ld_scope ld \<and> ld_files ld1 = ld_files ld"
  "set_pool tok ld = Some ld1 \<Longrightarrow> ld_scope ld1 = ld_scope ld \<and> ld_files ld1 = ld_files ld"
  "set_rspfile wd tok ld = Some ld1 \<Longrightarrow> ld_scope ld1 = ld_scope ld \<and> ld_files ld1 = ld_files ld"
  by (auto simp: set_deps_def set_pool_def set_rspfile_def Let_def dest!: outside split: if_splits option.splits)

lemma end_build_outside: "actOnEndBuildDecl wd tok ld = Some ld1 \<Longrightarrow> ld_scope ld1 = ld_scope ld \<and> ld_files ld1 = ld_files ld"
  by (auto simp: actOnEndBuildDecl_def Let_def dest!: outside set_outside)

lemma insertBinding_tl [simp]: "tl (insertBinding n v scope) = tl scope"
  by (cases scope) auto


lemma act_outside:
  assumes "\<And>data ld ld1 f fs. parse data ld = Some ld1 \<Longrightarrow> ld_files ld = f # fs \<Longrightarrow> ld_files ld1 = fs \<and> tl (ld_scope ld1) = tl (ld_scope ld)"
    and "act rf wd parse a ld = Some ld1" "a \<noteq> OnEndManifest"
  shows "same_outside ld ld1"
proof -
  have enter: "same_outside ld ld1" if "enter_and_parse rf wd parse path tok ld = Some ld1" for path tok ld ld1
    using that assms(1) by (auto simp: enter_and_parse_def enterFile_def Let_def split: option.splits prod.splits list.splits)
  show ?thesis
  proof (cases a)
    case (OnIncludeDecl b tok)
    then show ?thesis using assms(2)
      by (auto simp: act_def actOnIncludeDecl_def dest!: enter eval_outside split: if_splits)
  next
    case (OnBeginBuildDecl n outs ins k l)
    then show ?thesis using assms(2)
      by (auto simp: act_def actOnBeginBuildDecl_def dest!: outside split: option.splits)
  next
    case (OnEndBuildDecl tok)
    then show ?thesis using assms(2) by (auto simp: act_def dest!: end_build_outside)
  next
    case (OnBeginRuleDecl n)
    then show ?thesis using assms(2)
      by (auto simp: act_def actOnBeginRuleDecl_def getCurrentScope_def Let_def dest!: outside split: if_splits)
  qed (use assms(2,3) in \<open>auto simp: act_def actOnBindingDecl_def actOnBuildBindingDecl_def actOnBeginPoolDecl_def actOnPoolBindingDecl_def
      actOnEndPoolDecl_def actOnRuleBindingDecl_def actOnEndRuleDecl_def Let_def dest!: outside split: if_splits option.splits\<close>)
qed

lemma perform_outside:
  assumes "\<And>data ld ld1 f fs. parse data ld = Some ld1 \<Longrightarrow> ld_files ld = f # fs \<Longrightarrow> ld_files ld1 = fs \<and> tl (ld_scope ld1) = tl (ld_scope ld)"
  shows "perform rf wd parse as ld = Some ld1 \<Longrightarrow> OnEndManifest \<notin> set as \<Longrightarrow> same_outside ld ld1"
proof (induction as arbitrary: ld)
  case (Cons a as)
  then obtain ld2 where l: "act rf wd parse a ld = Some ld2" "perform rf wd parse as ld2 = Some ld1" by auto
  have "same_outside ld ld2" by (rule act_outside [OF assms l(1)]) (use Cons(3) in auto)
  then show ?case using Cons l by auto
qed simp

lemma protocol_no_end: "protocol s as = Some t \<Longrightarrow> OnEndManifest \<notin> set as"
  by (induction s as rule: protocol.induct) auto

lemma parse_file_outside:
  "parse_file rf wd n data ld = Some ld1 \<Longrightarrow> ld_files ld = f # fs \<Longrightarrow> ld_files ld1 = fs \<and> tl (ld_scope ld1) = tl (ld_scope ld)"
proof (induction n arbitrary: data ld ld1 f fs)
  case (Suc n)
  then obtain calls where c: "parse_ninja data = Some calls" "perform rf wd (parse_file rf wd n) calls ld = Some ld1" by auto
  obtain mid where mid: "calls = OnBeginManifest ''<main>'' # mid @ [OnEndManifest]" "protocol None mid = Some None"
    using wpD [OF wp_parse_ninja [of False] c(1)] by blast
  obtain ld2 where l: "perform rf wd (parse_file rf wd n) mid ld = Some ld2" "exitCurrentFile ld2 = Some ld1"
    using c(2) unfolding mid(1) by (auto simp: perform_append act_def)
  have "same_outside ld ld2" using perform_outside [OF Suc(1) l(1) protocol_no_end [OF mid(2)]] by simp
  then show ?case using l(2) Suc(3) by (auto simp: exitCurrentFile_def split: if_splits)
qed simp

text \<open>
  C31.  What a subninja declares stays in the subninja: after it, the scope is what it was before.
  An included file works on the scope of its includer, but on no frame behind it.
\<close>

theorem subninja_isolated:
  assumes "act rf wd (parse_file rf wd n) (OnIncludeDecl isInclude tok) ld = Some ld1"
  shows "ld_files ld1 = ld_files ld \<and> tl (ld_scope ld1) = tl (ld_scope ld) \<and> (\<not> isInclude \<longrightarrow> ld_scope ld1 = ld_scope ld)"
proof -
  have s: "same_outside ld ld1" by (rule act_outside [OF parse_file_outside assms]) simp_all
  moreover have "ld_scope ld1 = ld_scope ld" if sub: "\<not> isInclude"
  proof -
    obtain path ld2 ld3 where e: "evalToken tok ld = Some (path, ld2)" "ld1 = ld3\<lparr>ld_scope := tl (ld_scope ld3)\<rparr>"
      "enter_and_parse rf wd (parse_file rf wd n) path tok (ld2\<lparr>ld_scope := empty_frame # ld_scope ld2\<rparr>) = Some ld3"
      using assms sub by (auto simp: act_def actOnIncludeDecl_def)
    have "tl (ld_scope ld3) = ld_scope ld2"
      using e(3) by (auto simp: enter_and_parse_def enterFile_def Let_def dest!: parse_file_outside split: option.splits prod.splits list.splits)
    then show ?thesis using e eval_outside by auto
  qed
  ultimately show ?thesis by simp
qed

section \<open>A load\<close>

text \<open>
  The second rule of the sample turns the references of the first one round, which is no self-reference.
\<close>

definition sample_main :: string where
  "sample_main = ''rule cc'' @ [LF] @ ''  command = $description -o $out'' @ [LF] @ ''  description = cc $in'' @ [LF] @
     ''rule ld'' @ [LF] @ ''  command = ld $in'' @ [LF] @ ''  description = $command'' @ [LF] @
     ''build a.o: cc a.c'' @ [LF] @ ''subninja s'' @ [LF]"

definition sample_sub :: string where
  "sample_sub = ''build b: phony a.o'' @ [LF]"

definition sample_read :: readFile where
  "sample_read path forFilename tok =
     (if path = ''/w/m'' then Some (''m'', sample_main)
      else if path = ''/w/s'' then Some (''s'', sample_sub)
      else None)"

text \<open>The bindings of the rules and the paths of the includes that a list of calls declares.\<close>

fun closed_bindings :: "(string \<times> string) list \<Rightarrow> Token ParseAction list \<Rightarrow> (string \<times> string) list list" where
  "closed_bindings bs [] = []"
| "closed_bindings bs (OnBeginRuleDecl n # as) = closed_bindings [] as"
| "closed_bindings bs (OnRuleBindingDecl n v # as) = closed_bindings ((tok_text n, tok_text v) # bs) as"
| "closed_bindings bs (OnEndRuleDecl tok # as) = bs # closed_bindings bs as"
| "closed_bindings bs (a # as) = closed_bindings bs as"

fun include_tokens :: "Token ParseAction list \<Rightarrow> Token list" where
  "include_tokens [] = []"
| "include_tokens (OnIncludeDecl b tok # as) = tok # include_tokens as"
| "include_tokens (a # as) = include_tokens as"

lemma include_tokens: "OnIncludeDecl b tok \<in> set as \<Longrightarrow> tok \<in> set (include_tokens as)"
  by (induction as rule: include_tokens.induct) auto

lemma good_rules_bindings:
  assumes "\<forall>bs \<in> set (closed_bindings bs0 as). no_self_reference (map_of (filter (\<lambda>b. isValidParameterName (fst b)) bs))"
    "ps = map_of (filter (\<lambda>b. isValidParameterName (fst b)) bs0)"
  shows "good_rules ps as"
  using assms by (induction bs0 as arbitrary: ps rule: closed_bindings.induct) (auto simp: closes_well_def rule_so_far_def)

lemma sample_parse:
  "closed_bindings [] (the (parse_ninja sample_main)) =
     [[(''description'', ''cc $in''), (''command'', ''$description -o $out'')], [(''description'', ''$command''), (''command'', ''ld $in'')]]"
  "closed_bindings [] (the (parse_ninja sample_sub)) = []"
  "map tok_text (include_tokens (the (parse_ninja sample_main))) = [''s'']" "include_tokens (the (parse_ninja sample_sub)) = []"
  "references ''cc $in'' = [''in'']" "references ''$description -o $out'' = [''description'', ''out'']"
  "references ''$command'' = [''command'']" "references ''ld $in'' = [''in'']"
  "pieces ''s'' = [Text ''s'']" "make_absolute ''/w'' ''m'' = ''/w/m''" "make_absolute ''/w'' ''s'' = ''/w/s''"
  "\<not> suffix ''$'' sample_main" "\<not> suffix ''$'' sample_sub"
  by code_simp+

lemma sample_included: "included sample_read ''/w'' f data g data1 \<Longrightarrow> data = sample_main \<or> data = sample_sub \<Longrightarrow>
    data = sample_main \<and> g = ''s'' \<and> data1 = sample_sub"
proof -
  assume "included sample_read ''/w'' f data g data1" and d: "data = sample_main \<or> data = sample_sub"
  then obtain calls b tok path where i: "parse_ninja data = Some calls" "OnIncludeDecl b tok \<in> set calls"
    "expands (tok_text tok) path" "sample_read (make_absolute ''/w'' path) f (Some tok) = Some (g, data1)"
    unfolding included_def by blast
  then have "tok \<in> set (include_tokens (the (parse_ninja data)))" using include_tokens by simp
  then have m: "data = sample_main" "tok_text tok \<in> set (map tok_text (include_tokens (the (parse_ninja sample_main))))"
    using d by (auto simp: sample_parse(4))
  then have "path = ''s''" using i(3) by (auto simp: sample_parse(3,9) expands_def evalString_pieces andthen_def)
  then show ?thesis using m(1) i(4) by (simp add: sample_parse(11) sample_read_def)
qed

lemma acyclic_pair: "a \<noteq> b \<Longrightarrow> acyclic {(a, b)}"
  by (auto simp: acyclic_def dest: trancl_insert [THEN equalityD1, THEN subsetD])

lemma one_reference_acyclic: "refers ps \<subseteq> {(a, b)} \<Longrightarrow> a \<noteq> b \<Longrightarrow> no_self_reference ps"
  unfolding no_self_reference_def by (rule acyclic_subset [OF acyclic_pair])

lemma sample_good: "good_data sample_main" "good_data sample_sub"
proof -
  let ?v = "\<lambda>bs. map_of (filter (\<lambda>b. isValidParameterName (fst b)) bs) :: string \<rightharpoonup> string"
  have "refers (?v [(''description'', ''cc $in''), (''command'', ''$description -o $out'')]) \<subseteq> {(''description'', ''command'')}"
    "refers (?v [(''description'', ''$command''), (''command'', ''ld $in'')]) \<subseteq> {(''command'', ''description'')}"
    by (auto simp: refers_def isValidParameterName_def sample_parse split: if_splits)
  from this [THEN one_reference_acyclic] have
    "no_self_reference (?v [(''description'', ''cc $in''), (''command'', ''$description -o $out'')])"
    "no_self_reference (?v [(''description'', ''$command''), (''command'', ''ld $in'')])"
    by simp_all
  then have "good_rules Map.empty (the (parse_ninja sample_main))" "good_rules Map.empty (the (parse_ninja sample_sub))"
    using good_rules_bindings [of "[]"] sample_parse(1,2) by auto
  then show "good_data sample_main" "good_data sample_sub" by (auto simp: good_data_def sample_parse)
qed

lemma sample_files: "good_files sample_read ''/w'' ''m''"
proof -
  have l: "data = sample_main \<and> f = ''m'' \<or> data = sample_sub \<and> f = ''s''" if "loaded sample_read ''/w'' ''m'' f data" for f data
    using that by induction (auto simp: sample_read_def sample_parse(10) dest: sample_included)
  have "sample_main \<noteq> sample_sub" by code_simp
  then have "g = ''s'' \<and> f = ''m''" if "loaded sample_read ''/w'' ''m'' f data" "included sample_read ''/w'' f data g data1" for f g data data1
    using l [OF that(1)] sample_included [OF that(2)] by metis
  then have g: "include_graph sample_read ''/w'' ''m'' \<subseteq> {(''s'', ''m'')}" unfolding include_graph_def by blast
  have "acyclic {(''s'', ''m'')}" by (rule acyclic_pair) simp
  then have "acyclic (include_graph sample_read ''/w'' ''m'')" using g by (rule acyclic_subset)
  moreover have "finite (include_graph sample_read ''/w'' ''m'')" using g by (rule finite_subset) simp
  moreover have "good_data data" if "loaded sample_read ''/w'' ''m'' f data" for f data using l [OF that] sample_good by metis
  ultimately show ?thesis unfolding good_files_def by blast
qed


theorem load_well_formed_witness:
  "\<exists>m scope errors. load_manifest sample_read ''/w'' ''m'' 2 = Some (Some (m, scope), errors) \<and> manifest_ok ''/w'' m \<and> length (mf_commands m) = 2"
proof -
  have "map_option (\<lambda>(r, es). map_option (\<lambda>(m, scope). length (mf_commands m)) r) (load_manifest sample_read ''/w'' ''m'' 2) = Some (Some 2)"
    by code_simp
  then obtain m scope errors where l: "load_manifest sample_read ''/w'' ''m'' 2 = Some (Some (m, scope), errors)" "length (mf_commands m) = 2"
    by auto
  have "is_absolute ''/w''" by code_simp
  from load_well_formed [OF this l(1)] l show ?thesis by blast
qed

theorem subninja_isolated_witness:
  "\<exists>ld ld1 tok. act sample_read ''/w'' (parse_file sample_read ''/w'' 1) (OnIncludeDecl False tok) ld = Some ld1 \<and>
     ld_scope ld1 = ld_scope ld \<and> mf_commands (ld_manifest ld1) \<noteq> mf_commands (ld_manifest ld)"
proof -
  let ?ld = "new_loader\<lparr>ld_files := [''m'']\<rparr>" and ?tok = "\<lparr>tok_kind = TString, tok_text = ''s'', tok_line = 4, tok_column = 9\<rparr>"
  have "map_option (\<lambda>ld. length (mf_commands (ld_manifest ld)))
      (act sample_read ''/w'' (parse_file sample_read ''/w'' 1) (OnIncludeDecl False ?tok) ?ld) = Some 1"
    by code_simp
  then obtain ld1 where "act sample_read ''/w'' (parse_file sample_read ''/w'' 1) (OnIncludeDecl False ?tok) ?ld = Some ld1"
    "length (mf_commands (ld_manifest ld1)) = 1" by auto
  moreover from subninja_isolated [OF this(1)] have "ld_scope ld1 = ld_scope ?ld" by simp
  moreover have "mf_commands (ld_manifest ?ld) = []" by (simp add: new_loader_def new_manifest_def)
  ultimately show ?thesis by (metis list.size(3) zero_neq_one)
qed

section \<open>Departures\<close>

text \<open>A template that refers to its own parameter is never evaluated to an end.\<close>

lemma self_reference_diverges:
  assumes "template_of m decl name = Some t" "name \<in> set (references t)"
  shows "lookupBuildParameterImpl n esc m scope decl name = None"
proof (induction n)
  case 0
  then show ?case using lookup_template(1) [OF assms(1)] by simp
next
  case (Suc n)
  then show ?case using lookup_None_Suc [OF assms(1)] assms(2) by blast
qed

definition errors_of :: "string \<Rightarrow> (string \<times> string) list option" where
  "errors_of data =
     map_option (\<lambda>(r, es). map (\<lambda>(f, message, tok). (message, tok_text tok)) es)
       (load_manifest (\<lambda>path forFilename tok. if tok = None then Some (''m'', data) else None) ''/w'' ''m'' 1)"

text \<open>
  Four manifests that the loader reports an error for although nothing in them is wrong: a subninja that uses the
  built-in phony rule, as rules are only searched in the scope itself; a pool of a depth whose lower 32
  bits are zero; a binding continued on the next line behind a carriage return, which the lexer takes
  for a line end and the evaluation does not; and a default target with an escape in its name, as the
  names of default targets are not evaluated.
\<close>

theorem loader_departures:
  "map_option (\<lambda>(r, es). map (\<lambda>(f, message, tok). (f, message, tok_text tok)) es) (load_manifest sample_read ''/w'' ''m'' 2) =
     Some [(''s'', ''unknown rule'', ''phony'')] \<and>
   errors_of (''pool p'' @ [LF] @ ''  depth = 4294967296'' @ [LF]) =
     Some [(''missing 'depth' variable assignment'', ''pool'')] \<and>
   errors_of (''x = a'' @ [DOLLAR, CRET, LF] @ '' b'' @ [LF]) =
     Some [(''invalid '$'-escape (literal '$' should be written as '$$')'', ''a'' @ [DOLLAR, CRET, LF] @ '' b'')] \<and>
   errors_of (''build $$x: phony'' @ [LF] @ ''default $$x'' @ [LF]) =
     Some [(''unknown target name'', ''$$x'')]"
  by (intro conjI; code_simp)

end
