(* ===== verification/Execution_Queue.thy ===== *)
theory Execution_Queue
  imports String_Integers "HOL-Library.Multiset" "HOL-Library.List_Lexorder" "HOL-Library.Char_ord"
begin

text \<open>
  The execution queue that runs the jobs of a build on a number of lanes
  (\<^verbatim>\<open>lib/Basic/LaneBasedExecutionQueue.cpp\<close>).  A lane is a thread; the queue's mutex makes
  what a thread does while it holds it one step, so that a run of the queue is a sequence of actions of
  the lanes and of the queue's users.  Waiting on the condition variable is a state of a lane; a
  notification moves one or all lanes out of it, and so does a spurious wake-up.
\<close>

section \<open>Jobs and schedulers\<close>

text \<open>A job has a descriptor, of which the name is used, or a null pointer; its work is an identity.\<close>

record QueueJob =
  job_desc :: "string option"
  job_work :: nat

datatype QueueJobPriority = PriorityNormal | PriorityHigh

datatype SchedulerAlgorithm = NamePriority | FIFO

definition QueueJobLess :: "QueueJob \<Rightarrow> QueueJob \<Rightarrow> bool" where
  "QueueJobLess x y \<longleftrightarrow> the (job_desc x) < the (job_desc y)"

text \<open>
  The jobs are listed in the order in which they were added.  Which of several greatest elements a
  priority queue has on top is not specified: \<open>can_take\<close> says what \<^verbatim>\<open>getNextJob\<close> may
  return.  A push compares the descriptors if there is something to compare with.
\<close>

datatype Scheduler = PriorityQueueScheduler "QueueJob list" | FifoScheduler "QueueJob list"

definition make_scheduler :: "SchedulerAlgorithm \<Rightarrow> Scheduler" where
  "make_scheduler alg = (case alg of NamePriority \<Rightarrow> PriorityQueueScheduler [] | FIFO \<Rightarrow> FifoScheduler [])"

fun scheduler_jobs :: "Scheduler \<Rightarrow> QueueJob list" where
  "scheduler_jobs (PriorityQueueScheduler jobs) = jobs"
| "scheduler_jobs (FifoScheduler jobs) = jobs"

fun scheduler_add :: "Scheduler \<Rightarrow> QueueJob \<Rightarrow> Scheduler option" where
  "scheduler_add (PriorityQueueScheduler jobs) job =
     (if jobs \<noteq> [] \<and> list_ex (\<lambda>j. job_desc j = None) (job # jobs) then None
      else Some (PriorityQueueScheduler (jobs @ [job])))"
| "scheduler_add (FifoScheduler jobs) job = Some (FifoScheduler (jobs @ [job]))"

fun can_take :: "Scheduler \<Rightarrow> QueueJob \<Rightarrow> bool" where
  "can_take (PriorityQueueScheduler jobs) job \<longleftrightarrow> job \<in> set jobs \<and> list_all (\<lambda>j. \<not> QueueJobLess job j) jobs"
| "can_take (FifoScheduler jobs) job \<longleftrightarrow> jobs \<noteq> [] \<and> hd jobs = job"

fun scheduler_take :: "Scheduler \<Rightarrow> QueueJob \<Rightarrow> Scheduler" where
  "scheduler_take (PriorityQueueScheduler jobs) job = PriorityQueueScheduler (remove1 job jobs)"
| "scheduler_take (FifoScheduler jobs) job = FifoScheduler (tl jobs)"

definition scheduler_empty :: "Scheduler \<Rightarrow> bool" where
  "scheduler_empty s \<longleftrightarrow> scheduler_jobs s = []"

definition scheduler_size :: "Scheduler \<Rightarrow> nat" where
  "scheduler_size s = length (scheduler_jobs s)"

text \<open>What the queue relies on: a scheduler is a bag of jobs that hands one out as long as it has one.\<close>

locale scheduler =
  fixes bag :: "'s \<Rightarrow> 'j multiset"
    and add :: "'s \<Rightarrow> 'j \<Rightarrow> 's option"
    and takes :: "'s \<Rightarrow> 'j \<Rightarrow> bool"
    and rest :: "'s \<Rightarrow> 'j \<Rightarrow> 's"
    and empty :: "'s \<Rightarrow> bool"
    and amount :: "'s \<Rightarrow> nat"
  assumes bag_add: "add s j = Some s' \<Longrightarrow> bag s' = add_mset j (bag s)"
    and bag_take: "takes s j \<Longrightarrow> bag s = add_mset j (bag (rest s j))"
    and hands_out: "bag s \<noteq> {#} \<Longrightarrow> \<exists>j. takes s j"
    and empty_bag: "empty s \<longleftrightarrow> bag s = {#}"
    and amount_bag: "amount s = size (bag s)"
begin

lemma amount_add: "add s j = Some s' \<Longrightarrow> amount s' = Suc (amount s)"
  by (simp add: amount_bag bag_add)

lemma amount_take: "takes s j \<Longrightarrow> amount s = Suc (amount (rest s j))"
  by (simp add: amount_bag bag_take)

lemma takes_or_empty: "empty s \<or> (\<exists>j. takes s j)"
  using hands_out empty_bag by blast

end

lemma greatest_job: "jobs \<noteq> [] \<Longrightarrow> \<exists>j\<in>set jobs. \<forall>k\<in>set jobs. \<not> QueueJobLess j k"
proof (induction jobs)
  case (Cons x xs)
  show ?case
  proof (cases xs)
    case Nil
    then show ?thesis by (simp add: QueueJobLess_def)
  next
    case (Cons y ys)
    then obtain j where j: "j \<in> set xs" "\<forall>k\<in>set xs. \<not> QueueJobLess j k" using Cons.IH by auto
    show ?thesis
    proof (cases "QueueJobLess j x")
      case True
      then have "\<forall>k\<in>set (x # xs). \<not> QueueJobLess x k" using j(2) by (auto simp: QueueJobLess_def not_less)
      then show ?thesis by auto
    next
      case False
      then show ?thesis using j by auto
    qed
  qed
qed simp

interpretation sched: scheduler "\<lambda>s. mset (scheduler_jobs s)" scheduler_add can_take scheduler_take scheduler_empty scheduler_size
proof
  fix s j s'
  show "scheduler_add s j = Some s' \<Longrightarrow> mset (scheduler_jobs s') = add_mset j (mset (scheduler_jobs s))"
    by (cases s) (auto split: if_splits)
  show "can_take s j \<Longrightarrow> mset (scheduler_jobs s) = add_mset j (mset (scheduler_jobs (scheduler_take s j)))"
  proof (cases s)
    case (FifoScheduler jobs)
    then show "can_take s j \<Longrightarrow> ?thesis" by (cases jobs) auto
  qed auto
  show "mset (scheduler_jobs s) \<noteq> {#} \<Longrightarrow> \<exists>j. can_take s j"
    by (cases s) (auto simp: list_all_iff dest: greatest_job)
qed (simp_all add: scheduler_empty_def scheduler_size_def)

section \<open>Lanes and the queue\<close>

datatype LaneState = LaneReady | LaneWaiting | LaneHolding QueueJob | LaneRunning QueueJob | LaneExited

record Lane =
  ln_state :: LaneState
  ln_jobCount :: "32 word"

datatype QueueEvent = JobStarted QueueJob "64 word" | JobFinished QueueJob

record LaneQueue =
  lq_buildID :: "32 word"
  lq_lanes :: "Lane list"
  lq_readyJobs :: Scheduler
  lq_readyPriorityJobs :: Scheduler
  lq_cancelled :: bool
  lq_shutdown :: bool
  lq_events :: "QueueEvent list"

definition new_queue :: "SchedulerAlgorithm \<Rightarrow> nat \<Rightarrow> 32 word \<Rightarrow> LaneQueue" where
  "new_queue alg numLanes buildID =
     \<lparr>lq_buildID = buildID, lq_lanes = replicate numLanes \<lparr>ln_state = LaneReady, ln_jobCount = 0\<rparr>,
      lq_readyJobs = make_scheduler alg, lq_readyPriorityJobs = FifoScheduler [], lq_cancelled = False,
      lq_shutdown = False, lq_events = []\<rparr>"

definition set_lane :: "nat \<Rightarrow> LaneState \<Rightarrow> LaneQueue \<Rightarrow> LaneQueue" where
  "set_lane i st q = q\<lparr>lq_lanes := (lq_lanes q)[i := (lq_lanes q ! i)\<lparr>ln_state := st\<rparr>]\<rparr>"

definition lane_is :: "nat \<Rightarrow> LaneState \<Rightarrow> LaneQueue \<Rightarrow> bool" where
  "lane_is i st q \<longleftrightarrow> i < length (lq_lanes q) \<and> ln_state (lq_lanes q ! i) = st"

definition no_jobs :: "LaneQueue \<Rightarrow> bool" where
  "no_jobs q \<longleftrightarrow> scheduler_empty (lq_readyJobs q) \<and> scheduler_empty (lq_readyPriorityJobs q)"

definition wake_lane :: "Lane \<Rightarrow> Lane" where
  "wake_lane l = (if ln_state l = LaneWaiting then l\<lparr>ln_state := LaneReady\<rparr> else l)"

definition notify_all :: "LaneQueue \<Rightarrow> LaneQueue" where
  "notify_all q = q\<lparr>lq_lanes := map wake_lane (lq_lanes q)\<rparr>"

text \<open>A notification wakes one of the waiting lanes, if there is one.\<close>

definition notify_one :: "nat option \<Rightarrow> LaneQueue \<Rightarrow> LaneQueue option" where
  "notify_one w q =
     (case w of
        None \<Rightarrow> if list_ex (\<lambda>l. ln_state l = LaneWaiting) (lq_lanes q) then None else Some q
      | Some i \<Rightarrow> if lane_is i LaneWaiting q then Some (set_lane i LaneReady q) else None)"

definition addJob :: "QueueJob \<Rightarrow> QueueJobPriority \<Rightarrow> nat option \<Rightarrow> LaneQueue \<Rightarrow> LaneQueue option" where
  "addJob job priority w q =
     (if priority = PriorityHigh
      then do { s \<leftarrow> scheduler_add (lq_readyPriorityJobs q) job; notify_one w (q\<lparr>lq_readyPriorityJobs := s\<rparr>) }
      else do { s \<leftarrow> scheduler_add (lq_readyJobs q) job; notify_one w (q\<lparr>lq_readyJobs := s\<rparr>) })"

definition shutdown_queue :: "LaneQueue \<Rightarrow> LaneQueue" where
  "shutdown_queue q = notify_all (q\<lparr>lq_shutdown := True\<rparr>)"

definition cancelAllJobs :: "LaneQueue \<Rightarrow> LaneQueue" where
  "cancelAllJobs q = (if lq_cancelled q then q else notify_all (q\<lparr>lq_cancelled := True\<rparr>))"

section \<open>The loop of a lane\<close>

text \<open>The lane waits, leaves, or takes a job, high priority first; all under the mutex.\<close>

definition lane_wait :: "nat \<Rightarrow> LaneQueue \<Rightarrow> LaneQueue option" where
  "lane_wait i q =
     (if lane_is i LaneReady q \<and> \<not> lq_shutdown q \<and> no_jobs q then Some (set_lane i LaneWaiting q) else None)"

definition lane_wake :: "nat \<Rightarrow> LaneQueue \<Rightarrow> LaneQueue option" where
  "lane_wake i q = (if lane_is i LaneWaiting q then Some (set_lane i LaneReady q) else None)"

definition lane_exit :: "nat \<Rightarrow> LaneQueue \<Rightarrow> LaneQueue option" where
  "lane_exit i q =
     (if lane_is i LaneReady q \<and> lq_shutdown q \<and> no_jobs q then Some (set_lane i LaneExited q) else None)"

definition lane_take :: "nat \<Rightarrow> QueueJob \<Rightarrow> LaneQueue \<Rightarrow> LaneQueue option" where
  "lane_take i job q =
     (if \<not> lane_is i LaneReady q then None
      else if \<not> scheduler_empty (lq_readyPriorityJobs q) then
        (if can_take (lq_readyPriorityJobs q) job
         then Some (set_lane i (LaneHolding job) (q\<lparr>lq_readyPriorityJobs := scheduler_take (lq_readyPriorityJobs q) job\<rparr>))
         else None)
      else if can_take (lq_readyJobs q) job
      then Some (set_lane i (LaneHolding job) (q\<lparr>lq_readyJobs := scheduler_take (lq_readyJobs q) job\<rparr>))
      else None)"

text \<open>The identity of a job: the build, the lane and the number of the job on the lane.\<close>

definition jobID :: "32 word \<Rightarrow> nat \<Rightarrow> 32 word \<Rightarrow> 64 word" where
  "jobID buildID laneNumber jobCount =
     push_bit 32 (and (ucast buildID) 0xFFFF) + push_bit 16 (and (of_nat laneNumber) 0xFFFF) + ucast jobCount"

text \<open>A job without a descriptor ends the lane.\<close>

definition lane_start :: "nat \<Rightarrow> LaneQueue \<Rightarrow> LaneQueue option" where
  "lane_start i q =
     (if i < length (lq_lanes q) then
        (case ln_state (lq_lanes q ! i) of
           LaneHolding job \<Rightarrow>
             if job_desc job = None then Some (set_lane i LaneExited q)
             else
               (let count = ln_jobCount (lq_lanes q ! i) + 1 in
                Some (q\<lparr>lq_lanes := (lq_lanes q)[i := \<lparr>ln_state = LaneRunning job, ln_jobCount = count\<rparr>],
                        lq_events := lq_events q @ [JobStarted job (jobID (lq_buildID q) i count)]\<rparr>))
         | _ \<Rightarrow> None)
      else None)"

definition lane_finish :: "nat \<Rightarrow> LaneQueue \<Rightarrow> LaneQueue option" where
  "lane_finish i q =
     (if i < length (lq_lanes q) then
        (case ln_state (lq_lanes q ! i) of
           LaneRunning job \<Rightarrow> Some (set_lane i LaneReady (q\<lparr>lq_events := lq_events q @ [JobFinished job]\<rparr>))
         | _ \<Rightarrow> None)
      else None)"

section \<open>Runs\<close>

datatype QueueAction =
    AddJob QueueJob QueueJobPriority "nat option"
  | LaneWait nat
  | LaneWake nat
  | LaneTake nat QueueJob
  | LaneStart nat
  | LaneFinish nat
  | LaneExit nat
  | ShutdownQueue
  | CancelAllJobs

fun queue_step :: "QueueAction \<Rightarrow> LaneQueue \<Rightarrow> LaneQueue option" where
  "queue_step (AddJob job priority w) q = addJob job priority w q"
| "queue_step (LaneWait i) q = lane_wait i q"
| "queue_step (LaneWake i) q = lane_wake i q"
| "queue_step (LaneTake i job) q = lane_take i job q"
| "queue_step (LaneStart i) q = lane_start i q"
| "queue_step (LaneFinish i) q = lane_finish i q"
| "queue_step (LaneExit i) q = lane_exit i q"
| "queue_step ShutdownQueue q = Some (shutdown_queue q)"
| "queue_step CancelAllJobs q = Some (cancelAllJobs q)"

fun run_queue :: "QueueAction list \<Rightarrow> LaneQueue \<Rightarrow> LaneQueue option" where
  "run_queue [] q = Some q"
| "run_queue (a # as) q = do { q1 \<leftarrow> queue_step a q; run_queue as q1 }"

end
