(* ===== verification/Execution_Queue_Properties.thy ===== *)
theory Execution_Queue_Properties
  imports Execution_Queue
begin

text \<open>
  What the lane based execution queue promises: no job is lost or run twice, every job is run, and the
  jobs of a build have different identities.
\<close>

section \<open>Where the jobs are\<close>

definition queued :: "LaneQueue \<Rightarrow> QueueJob multiset" where
  "queued q = mset (scheduler_jobs (lq_readyJobs q)) + mset (scheduler_jobs (lq_readyPriorityJobs q))"

fun held_by :: "LaneState \<Rightarrow> QueueJob multiset" where
  "held_by (LaneHolding j) = {#j#}"
| "held_by _ = {#}"

fun run_by :: "LaneState \<Rightarrow> QueueJob multiset" where
  "run_by (LaneRunning j) = {#j#}"
| "run_by _ = {#}"

definition over_lanes :: "(LaneState \<Rightarrow> 'a) \<Rightarrow> LaneQueue \<Rightarrow> 'a :: cancel_comm_monoid_add" where
  "over_lanes f q = sum_list (map (\<lambda>l. f (ln_state l)) (lq_lanes q))"

fun started_job :: "QueueEvent \<Rightarrow> QueueJob multiset" where
  "started_job (JobStarted j i) = {#j#}"
| "started_job (JobFinished j) = {#}"

fun finished_job :: "QueueEvent \<Rightarrow> QueueJob multiset" where
  "finished_job (JobStarted j i) = {#}"
| "finished_job (JobFinished j) = {#j#}"

definition started :: "LaneQueue \<Rightarrow> QueueJob multiset" where
  "started q = sum_list (map started_job (lq_events q))"

definition finished :: "LaneQueue \<Rightarrow> QueueJob multiset" where
  "finished q = sum_list (map finished_job (lq_events q))"

fun added :: "QueueAction list \<Rightarrow> QueueJob multiset" where
  "added [] = {#}"
| "added (AddJob j p w # as) = add_mset j (added as)"
| "added (_ # as) = added as"

text \<open>Jobs have descriptors, and none is added once the queue is being destroyed.\<close>

fun orderly :: "bool \<Rightarrow> QueueAction list \<Rightarrow> bool" where
  "orderly down [] = True"
| "orderly down (AddJob j p w # as) = (\<not> down \<and> job_desc j \<noteq> None \<and> orderly down as)"
| "orderly down (ShutdownQueue # as) = orderly True as"
| "orderly down (_ # as) = orderly down as"

lemma no_jobs_queued: "no_jobs q \<longleftrightarrow> queued q = {#}"
  by (simp add: no_jobs_def queued_def sched.empty_bag)

lemma sum_list_update_split:
  "i < length xs \<Longrightarrow> sum_list (map f (xs[i := x])) + f (xs ! i) = sum_list (map f xs) + (f x :: 'a :: comm_monoid_add)"
proof (induction xs arbitrary: i)
  case (Cons y ys)
  then show ?case by (cases i) (auto simp: ac_simps)
qed simp

lemma over_lanes_set:
  "lane_is i old q \<Longrightarrow> over_lanes f (set_lane i st q) + f old = over_lanes f q + f st"
  using sum_list_update_split [of i "lq_lanes q" "\<lambda>l. f (ln_state l)" "(lq_lanes q ! i)\<lparr>ln_state := st\<rparr>"]
  by (auto simp: over_lanes_def set_lane_def lane_is_def)

lemma over_lanes_wake: "f LaneWaiting = f LaneReady \<Longrightarrow> over_lanes f (notify_all q) = over_lanes f q"
proof -
  assume "f LaneWaiting = f LaneReady"
  then have "f (ln_state (wake_lane l)) = f (ln_state l)" for l by (simp add: wake_lane_def)
  then show ?thesis by (simp add: over_lanes_def notify_all_def o_def)
qed

lemma lanes_frame [simp]:
  "queued (set_lane i st q) = queued q" "started (set_lane i st q) = started q" "finished (set_lane i st q) = finished q"
  "queued (notify_all q) = queued q" "started (notify_all q) = started q" "finished (notify_all q) = finished q"
  "lq_shutdown (set_lane i st q) = lq_shutdown q" "lq_shutdown (notify_all q) = lq_shutdown q"
  "length (lq_lanes (set_lane i st q)) = length (lq_lanes q)" "length (lq_lanes (notify_all q)) = length (lq_lanes q)"
  by (simp_all add: queued_def started_def finished_def set_lane_def notify_all_def)

lemma over_lanes_frame [simp]:
  "over_lanes f (q\<lparr>lq_readyJobs := s\<rparr>) = over_lanes f q" "over_lanes f (q\<lparr>lq_readyPriorityJobs := s\<rparr>) = over_lanes f q"
  "over_lanes f (q\<lparr>lq_shutdown := b\<rparr>) = over_lanes f q" "over_lanes f (q\<lparr>lq_cancelled := b\<rparr>) = over_lanes f q"
  "over_lanes f (q\<lparr>lq_events := es\<rparr>) = over_lanes f q"
  "started (q\<lparr>lq_readyJobs := s\<rparr>) = started q" "started (q\<lparr>lq_readyPriorityJobs := s\<rparr>) = started q"
  "finished (q\<lparr>lq_readyJobs := s\<rparr>) = finished q" "finished (q\<lparr>lq_readyPriorityJobs := s\<rparr>) = finished q"
  "queued (q\<lparr>lq_shutdown := b\<rparr>) = queued q" "queued (q\<lparr>lq_cancelled := b\<rparr>) = queued q" "queued (q\<lparr>lq_events := es\<rparr>) = queued q"
  "started (q\<lparr>lq_shutdown := b\<rparr>) = started q" "started (q\<lparr>lq_cancelled := b\<rparr>) = started q"
  "finished (q\<lparr>lq_shutdown := b\<rparr>) = finished q" "finished (q\<lparr>lq_cancelled := b\<rparr>) = finished q"
  "lane_is i st (q\<lparr>lq_readyJobs := s\<rparr>) = lane_is i st q" "lane_is i st (q\<lparr>lq_readyPriorityJobs := s\<rparr>) = lane_is i st q"
  "lane_is i st (q\<lparr>lq_events := es\<rparr>) = lane_is i st q"
  by (simp_all add: over_lanes_def queued_def started_def finished_def lane_is_def)

definition jobs_inv :: "QueueJob multiset \<Rightarrow> LaneQueue \<Rightarrow> bool" where
  "jobs_inv js q \<longleftrightarrow>
     js = queued q + over_lanes held_by q + over_lanes run_by q + finished q \<and>
     started q = over_lanes run_by q + finished q \<and> (\<forall>j\<in>#js. job_desc j \<noteq> None)"

text \<open>How each kind of action moves a job on.\<close>

lemma addJob_queued:
  assumes "addJob j p w q = Some q1"
  shows "queued q1 = add_mset j (queued q) \<and> (f LaneWaiting = f LaneReady \<longrightarrow> over_lanes f q1 = over_lanes f q) \<and>
    started q1 = started q \<and> finished q1 = finished q \<and> lq_shutdown q1 = lq_shutdown q \<and> length (lq_lanes q1) = length (lq_lanes q)"
proof -
  obtain q0 where q0: "notify_one w q0 = Some q1" "queued q0 = add_mset j (queued q)" "lq_lanes q0 = lq_lanes q"
      "lq_events q0 = lq_events q" "lq_shutdown q0 = lq_shutdown q"
    using assms by (auto simp: addJob_def queued_def sched.bag_add split: if_splits)
  have "over_lanes f q0 = over_lanes f q" "started q0 = started q" "finished q0 = finished q"
    using q0 by (simp_all add: over_lanes_def started_def finished_def)
  then show ?thesis using q0 over_lanes_set [of _ LaneWaiting q0 f LaneReady]
    by (auto simp: notify_one_def split: option.splits if_splits)
qed

lemma lane_take_moves:
  assumes "lane_take i j q = Some q1"
  obtains q0 where "lane_is i LaneReady q0" "q1 = set_lane i (LaneHolding j) q0" "queued q = add_mset j (queued q0)"
    "\<And>f. over_lanes f q0 = over_lanes f q" "started q0 = started q" "finished q0 = finished q" "lq_shutdown q0 = lq_shutdown q"
    "lq_lanes q0 = lq_lanes q"
proof (cases "scheduler_empty (lq_readyPriorityJobs q)")
  case True
  then have "can_take (lq_readyJobs q) j" "lane_is i LaneReady q"
    "q1 = set_lane i (LaneHolding j) (q\<lparr>lq_readyJobs := scheduler_take (lq_readyJobs q) j\<rparr>)"
    using assms by (auto simp: lane_take_def split: if_splits)
  then show thesis using sched.bag_take by (intro that [of "q\<lparr>lq_readyJobs := scheduler_take (lq_readyJobs q) j\<rparr>"]) (simp_all add: queued_def)
next
  case False
  then have "can_take (lq_readyPriorityJobs q) j" "lane_is i LaneReady q"
    "q1 = set_lane i (LaneHolding j) (q\<lparr>lq_readyPriorityJobs := scheduler_take (lq_readyPriorityJobs q) j\<rparr>)"
    using assms by (auto simp: lane_take_def split: if_splits)
  then show thesis using sched.bag_take
    by (intro that [of "q\<lparr>lq_readyPriorityJobs := scheduler_take (lq_readyPriorityJobs q) j\<rparr>"]) (simp_all add: queued_def)
qed

lemma lane_start_moves:
  assumes "lane_start i q = Some q1"
  obtains (quit) j where "lane_is i (LaneHolding j) q" "job_desc j = None" "q1 = set_lane i LaneExited q"
  | (run) j k where "lane_is i (LaneHolding j) q" "job_desc j \<noteq> None" "ln_state (lq_lanes q1 ! i) = LaneRunning j"
      "lq_lanes q1 = (lq_lanes q)[i := lq_lanes q1 ! i]" "lq_events q1 = lq_events q @ [JobStarted j k]" "queued q1 = queued q"
      "lq_shutdown q1 = lq_shutdown q"
proof (cases "\<exists>j. lane_is i (LaneHolding j) q \<and> job_desc j = None")
  case True
  then show thesis using assms quit by (auto simp: lane_start_def lane_is_def)
next
  case False
  then obtain j where "lane_is i (LaneHolding j) q" "job_desc j \<noteq> None"
    "q1 = q\<lparr>lq_lanes := (lq_lanes q)[i := \<lparr>ln_state = LaneRunning j, ln_jobCount = ln_jobCount (lq_lanes q ! i) + 1\<rparr>],
       lq_events := lq_events q @ [JobStarted j (jobID (lq_buildID q) i (ln_jobCount (lq_lanes q ! i) + 1))]\<rparr>"
    using assms by (auto simp: lane_start_def lane_is_def Let_def split: LaneState.splits if_splits)
  then show thesis by (intro run [of j]) (simp_all add: lane_is_def queued_def)
qed

lemma lane_finish_moves:
  assumes "lane_finish i q = Some q1"
  obtains j where "lane_is i (LaneRunning j) q" "q1 = set_lane i LaneReady (q\<lparr>lq_events := lq_events q @ [JobFinished j]\<rparr>)"
  using assms by (auto simp: lane_finish_def lane_is_def split: LaneState.splits if_splits)

lemma run_lane:
  assumes "lane_is i (LaneHolding j) q" "ln_state (lq_lanes q1 ! i) = LaneRunning j" "lq_lanes q1 = (lq_lanes q)[i := lq_lanes q1 ! i]"
  shows "over_lanes f q1 + f (LaneHolding j) = over_lanes f q + f (LaneRunning j)"
  using sum_list_update_split [of i "lq_lanes q" "\<lambda>l. f (ln_state l)" "lq_lanes q1 ! i"] assms
  by (simp add: over_lanes_def lane_is_def)

lemma held_has_desc:
  assumes "jobs_inv js q" "lane_is i (LaneHolding j) q"
  shows "job_desc j \<noteq> None"
proof -
  have "over_lanes held_by q = over_lanes held_by (set_lane i LaneExited q) + {#j#}"
    using over_lanes_set [OF assms(2), of held_by LaneExited] by simp
  then have "j \<in># over_lanes held_by q" by simp
  then show ?thesis using assms(1) by (auto simp: jobs_inv_def)
qed

lemma jobs_inv_step:
  assumes inv: "jobs_inv js q" and s: "queue_step a q = Some q1" and a: "orderly down [a]"
  shows "jobs_inv (added [a] + js) q1"
proof -
  note i = inv [unfolded jobs_inv_def]
  show ?thesis
  proof (cases a)
    case (AddJob j p w)
    then show ?thesis using s a i addJob_queued [of j p w q q1 held_by] addJob_queued [of j p w q q1 run_by]
      by (auto simp: jobs_inv_def)
  next
    case (LaneWait k)
    then show ?thesis using s i over_lanes_set [of k LaneReady q held_by LaneWaiting] over_lanes_set [of k LaneReady q run_by LaneWaiting]
      by (auto simp: jobs_inv_def lane_wait_def split: if_splits)
  next
    case (LaneWake k)
    then show ?thesis using s i over_lanes_set [of k LaneWaiting q held_by LaneReady] over_lanes_set [of k LaneWaiting q run_by LaneReady]
      by (auto simp: jobs_inv_def lane_wake_def split: if_splits)
  next
    case (LaneExit k)
    then show ?thesis using s i over_lanes_set [of k LaneReady q held_by LaneExited] over_lanes_set [of k LaneReady q run_by LaneExited]
      by (auto simp: jobs_inv_def lane_exit_def split: if_splits)
  next
    case (LaneTake k j)
    then obtain q0 where q0: "lane_is k LaneReady q0" "q1 = set_lane k (LaneHolding j) q0" "queued q = add_mset j (queued q0)"
      "\<And>f :: LaneState \<Rightarrow> QueueJob multiset. over_lanes f q0 = over_lanes f q" "started q0 = started q" "finished q0 = finished q"
      using s by (auto elim: lane_take_moves)
    then show ?thesis using i LaneTake over_lanes_set [OF q0(1), of held_by "LaneHolding j"] over_lanes_set [OF q0(1), of run_by "LaneHolding j"]
      by (simp add: jobs_inv_def)
  next
    case (LaneStart k)
    then have "lane_start k q = Some q1" using s by simp
    then show ?thesis
    proof (cases rule: lane_start_moves)
      case (quit j)
      then show ?thesis using held_has_desc [OF inv] by blast
    next
      case (run j n)
      then show ?thesis using i LaneStart run_lane [OF run(1,3,4), of held_by] run_lane [OF run(1,3,4), of run_by]
        by (simp add: jobs_inv_def started_def finished_def)
    qed
  next
    case (LaneFinish k)
    then obtain j where j: "lane_is k (LaneRunning j) q" "q1 = set_lane k LaneReady (q\<lparr>lq_events := lq_events q @ [JobFinished j]\<rparr>)"
      using s by (auto elim: lane_finish_moves)
    have "lane_is k (LaneRunning j) (q\<lparr>lq_events := lq_events q @ [JobFinished j]\<rparr>)" using j(1) by simp
    from over_lanes_set [OF this, of held_by LaneReady] over_lanes_set [OF this, of run_by LaneReady]
    have "over_lanes held_by q = over_lanes held_by q1" "over_lanes run_by q = add_mset j (over_lanes run_by q1)"
      using j(2) by simp_all
    moreover have "lq_events q1 = lq_events q @ [JobFinished j]" "queued q1 = queued q" using j(2) by (simp_all add: set_lane_def queued_def)
    ultimately show ?thesis using i LaneFinish by (simp add: jobs_inv_def started_def finished_def)
  qed (use s i in \<open>auto simp: jobs_inv_def shutdown_queue_def cancelAllJobs_def over_lanes_wake\<close>)
qed

lemma orderly_Cons: "orderly down (a # as) \<longleftrightarrow> orderly down [a] \<and> orderly (down \<or> a = ShutdownQueue) as"
  by (cases a) auto

lemma added_Cons: "added (a # as) = added [a] + added as"
  by (cases a) auto

lemma jobs_inv_run:
  "jobs_inv js q \<Longrightarrow> run_queue as q = Some q1 \<Longrightarrow> orderly down as \<Longrightarrow> jobs_inv (added as + js) q1"
proof (induction as arbitrary: q js down)
  case (Cons a as)
  then obtain q2 where q2: "queue_step a q = Some q2" "run_queue as q2 = Some q1" by auto
  have o: "orderly down [a]" "orderly (down \<or> a = ShutdownQueue) as" using Cons(4) orderly_Cons by blast+
  have "jobs_inv (added as + (added [a] + js)) q1" by (rule Cons(1) [OF jobs_inv_step [OF Cons(2) q2(1) o(1)] q2(2) o(2)])
  then show ?case using added_Cons [of a as] by (simp add: ac_simps)
qed simp

lemma jobs_inv_new: "jobs_inv {#} (new_queue alg n b)"
proof -
  have "over_lanes f (new_queue alg n b) = {#}" if "f LaneReady = {#}" for f :: "LaneState \<Rightarrow> QueueJob multiset"
    using that by (induction n) (auto simp: over_lanes_def new_queue_def)
  then show ?thesis
    by (auto simp: jobs_inv_def queued_def started_def finished_def new_queue_def make_scheduler_def split: SchedulerAlgorithm.split)
qed

text \<open>
  C33.  No job is lost or run twice: at every moment of every run, the jobs that were added are exactly
  those that wait in the queue, are held or run by a lane, or have finished, and the delegate has been
  told of the start of exactly the running and the finished ones.
\<close>

theorem queue_conserves_jobs:
  assumes "run_queue as (new_queue alg numLanes buildID) = Some q" "orderly False as"
  shows "added as = queued q + over_lanes held_by q + over_lanes run_by q + finished q \<and>
    started q = over_lanes run_by q + finished q"
  using jobs_inv_run [OF jobs_inv_new assms] by (simp add: jobs_inv_def)

section \<open>No job waits forever\<close>

definition live_inv :: "LaneQueue \<Rightarrow> bool" where
  "live_inv q \<longleftrightarrow> lq_lanes q \<noteq> [] \<and>
     (\<forall>l\<in>set (lq_lanes q). ln_state l = LaneWaiting \<longrightarrow> \<not> lq_shutdown q) \<and>
     (\<forall>l\<in>set (lq_lanes q). ln_state l = LaneExited \<longrightarrow> lq_shutdown q) \<and>
     (queued q \<noteq> {#} \<longrightarrow> (\<exists>l\<in>set (lq_lanes q). ln_state l \<noteq> LaneWaiting \<and> ln_state l \<noteq> LaneExited))"

lemma set_lane_set: "l \<in> set (lq_lanes (set_lane i st q)) \<Longrightarrow> ln_state l = st \<or> l \<in> set (lq_lanes q)"
  using set_update_subset_insert [of "lq_lanes q" i "(lq_lanes q ! i)\<lparr>ln_state := st\<rparr>"] by (auto simp: set_lane_def)

lemma set_lane_member: "lane_is i old q \<Longrightarrow> \<exists>l\<in>set (lq_lanes (set_lane i st q)). ln_state l = st"
  unfolding set_lane_def lane_is_def
  by (rule bexI [of _ "(lq_lanes q ! i)\<lparr>ln_state := st\<rparr>"]) (auto simp: set_update_memI)

lemma live_set_lane:
  assumes "live_inv q" "lane_is i old q" "queued q1 = queued q \<or> queued q1 = {#} \<or> (st \<noteq> LaneWaiting \<and> st \<noteq> LaneExited)"
    and "q1 = set_lane i st q0" "lq_lanes q0 = lq_lanes q" "lq_shutdown q0 = lq_shutdown q"
    and "st = LaneWaiting \<Longrightarrow> \<not> lq_shutdown q \<and> queued q1 = {#}" "st = LaneExited \<Longrightarrow> lq_shutdown q \<and> queued q1 = {#}"
  shows "live_inv q1"
proof -
  have o: "lane_is i old q0" using assms(2,5) by (simp add: lane_is_def)
  have m: "ln_state l = st \<or> l \<in> set (lq_lanes q)" if "l \<in> set (lq_lanes q1)" for l
    using set_lane_set [of l i st q0] that assms(4,5) by auto
  have "\<exists>l\<in>set (lq_lanes q1). ln_state l = st" using set_lane_member [OF o] assms(4) by blast
  moreover have "lq_shutdown q1 = lq_shutdown q" "lq_lanes q1 \<noteq> []" using assms(1,4-6) by (auto simp: live_inv_def set_lane_def)
  ultimately show ?thesis using assms(1,7,8) m unfolding live_inv_def by metis
qed

lemma wake_states: "l \<in> set (lq_lanes (notify_all q)) \<Longrightarrow> ln_state l \<noteq> LaneWaiting \<and> (\<exists>k\<in>set (lq_lanes q). ln_state k = ln_state l \<or> ln_state k = LaneWaiting \<and> ln_state l = LaneReady)"
  by (auto simp: notify_all_def wake_lane_def)

lemma live_notify_all:
  assumes "live_inv q" "lq_lanes q0 = lq_lanes q" "queued q0 = queued q" "lq_shutdown q0 \<or> \<not> lq_shutdown q"
  shows "live_inv (notify_all q0)"
proof -
  have "\<exists>l\<in>set (lq_lanes (notify_all q0)). ln_state l \<noteq> LaneWaiting \<and> ln_state l \<noteq> LaneExited" if ne: "queued q \<noteq> {#}"
  proof -
    obtain l where "l \<in> set (lq_lanes q)" "ln_state l \<noteq> LaneWaiting" "ln_state l \<noteq> LaneExited" using assms(1) ne by (auto simp: live_inv_def)
    then show ?thesis using assms(2) by (intro bexI [of _ "wake_lane l"]) (auto simp: notify_all_def wake_lane_def)
  qed
  moreover have "ln_state l \<noteq> LaneWaiting" "ln_state l = LaneExited \<Longrightarrow> lq_shutdown q0" if "l \<in> set (lq_lanes (notify_all q0))" for l
    using wake_states [OF that] assms by (fastforce simp: live_inv_def)+
  moreover have "lq_lanes (notify_all q0) \<noteq> []" using assms(1,2) by (simp add: live_inv_def notify_all_def)
  ultimately show ?thesis using assms(3) unfolding live_inv_def lanes_frame by metis
qed

lemma live_add:
  assumes "live_inv q" "addJob j p w q = Some q1" "\<not> lq_shutdown q"
  shows "live_inv q1"
proof -
  obtain q0 where q0: "notify_one w q0 = Some q1" "lq_lanes q0 = lq_lanes q" "lq_shutdown q0 = lq_shutdown q"
    using assms(2) by (auto simp: addJob_def split: if_splits)
  show ?thesis
  proof (cases w)
    case None
    then have n: "\<forall>l\<in>set (lq_lanes q). ln_state l \<noteq> LaneWaiting" "q1 = q0" using q0 by (auto simp: notify_one_def list_ex_iff split: if_splits)
    moreover obtain l where "l \<in> set (lq_lanes q)" using assms(1) by (cases "lq_lanes q") (auto simp: live_inv_def)
    ultimately show ?thesis using assms(1,3) q0(2,3) unfolding live_inv_def by auto
  next
    case (Some i)
    then have "lane_is i LaneWaiting q0" "q1 = set_lane i LaneReady q0" using q0 by (auto simp: notify_one_def split: if_splits)
    then show ?thesis using assms(1) q0 by (intro live_set_lane [of q i LaneWaiting q1 LaneReady q0]) (auto simp: lane_is_def)
  qed
qed

lemma live_step:
  assumes l: "live_inv q" and i: "jobs_inv js q" and s: "queue_step a q = Some q1" and a: "orderly (lq_shutdown q) [a]"
  shows "live_inv q1 \<and> lq_shutdown q1 = (lq_shutdown q \<or> a = ShutdownQueue)"
proof (cases a)
  case (AddJob j p w)
  then show ?thesis using s a live_add [OF l] addJob_queued [of j p w q q1] by auto
next
  case (LaneWait k)
  then show ?thesis using s by (auto simp: lane_wait_def no_jobs_queued split: if_splits intro: live_set_lane [OF l])
next
  case (LaneWake k)
  then show ?thesis using s by (auto simp: lane_wake_def split: if_splits intro: live_set_lane [OF l])
next
  case (LaneExit k)
  then show ?thesis using s by (auto simp: lane_exit_def no_jobs_queued split: if_splits intro: live_set_lane [OF l])
next
  case (LaneTake k j)
  then have "lane_take k j q = Some q1" using s by simp
  then obtain q0 where q0: "lane_is k LaneReady q0" "q1 = set_lane k (LaneHolding j) q0" "lq_shutdown q0 = lq_shutdown q" "lq_lanes q0 = lq_lanes q"
    by (rule lane_take_moves) blast
  then have "live_inv q1" by (intro live_set_lane [OF l, of k LaneReady q1 "LaneHolding j" q0]) (auto simp: lane_is_def)
  then show ?thesis using q0 LaneTake by simp
next
  case (LaneStart k)
  then have "lane_start k q = Some q1" using s by simp
  then show ?thesis
  proof (cases rule: lane_start_moves)
    case (quit j)
    then show ?thesis using held_has_desc [OF i] by blast
  next
    case (run j n)
    have k: "k < length (lq_lanes q)" using run(1) by (simp add: lane_is_def)
    have m: "ln_state x = LaneRunning j \<or> x \<in> set (lq_lanes q)" if "x \<in> set (lq_lanes q1)" for x
      using that run(3,4) set_update_subset_insert [of "lq_lanes q" k "lq_lanes q1 ! k"] by auto
    have "lq_lanes q1 ! k \<in> set (lq_lanes q1)" using k run(4) by (metis length_list_update nth_mem)
    then have "\<exists>x\<in>set (lq_lanes q1). ln_state x = LaneRunning j" using run(3) by blast
    moreover have "lq_lanes q1 \<noteq> []" using \<open>lq_lanes q1 ! k \<in> set (lq_lanes q1)\<close> by auto
    moreover have "x \<in> set (lq_lanes q1) \<Longrightarrow> ln_state x = LaneWaiting \<Longrightarrow> \<not> lq_shutdown q1"
      "x \<in> set (lq_lanes q1) \<Longrightarrow> ln_state x = LaneExited \<Longrightarrow> lq_shutdown q1" for x
      using m [of x] l run(7) by (auto simp: live_inv_def)
    ultimately have "live_inv q1" unfolding live_inv_def by fastforce
    then show ?thesis using run(7) LaneStart by simp
  qed
next
  case (LaneFinish k)
  then have "lane_finish k q = Some q1" using s by simp
  then obtain j where j: "lane_is k (LaneRunning j) q" "q1 = set_lane k LaneReady (q\<lparr>lq_events := lq_events q @ [JobFinished j]\<rparr>)"
    by (rule lane_finish_moves)
  then have "live_inv q1" by (intro live_set_lane [OF l j(1) _ j(2)]) simp_all
  then show ?thesis using j(2) LaneFinish by simp
next
  case ShutdownQueue
  then show ?thesis using s l by (auto simp: shutdown_queue_def intro!: live_notify_all)
next
  case CancelAllJobs
  then show ?thesis using s l by (auto simp: cancelAllJobs_def split: if_splits intro!: live_notify_all)
qed

lemma live_run:
  "live_inv q \<Longrightarrow> jobs_inv js q \<Longrightarrow> run_queue as q = Some q1 \<Longrightarrow> orderly (lq_shutdown q) as \<Longrightarrow> live_inv q1"
proof (induction as arbitrary: q js)
  case (Cons a as)
  then obtain q2 where q2: "queue_step a q = Some q2" "run_queue as q2 = Some q1" by auto
  have o: "orderly (lq_shutdown q) [a]" "orderly (lq_shutdown q \<or> a = ShutdownQueue) as" using Cons(5) orderly_Cons by blast+
  note s = live_step [OF Cons(2,3) q2(1) o(1)]
  show ?case by (rule Cons(1) [OF conjunct1 [OF s] jobs_inv_step [OF Cons(3) q2(1) o(1)] q2(2)]) (use s o(2) in simp)
qed simp

text \<open>The actions by which lanes make progress; a spurious wake-up is none.\<close>

fun lane_action :: "QueueAction \<Rightarrow> bool" where
  "lane_action (LaneWait i) = True"
| "lane_action (LaneTake i j) = True"
| "lane_action (LaneStart i) = True"
| "lane_action (LaneFinish i) = True"
| "lane_action (LaneExit i) = True"
| "lane_action _ = False"

fun lane_weight :: "LaneState \<Rightarrow> nat" where
  "lane_weight LaneReady = 1"
| "lane_weight LaneWaiting = 0"
| "lane_weight (LaneHolding j) = 3"
| "lane_weight (LaneRunning j) = 2"
| "lane_weight LaneExited = 0"

definition queue_work :: "LaneQueue \<Rightarrow> nat" where
  "queue_work q = 4 * size (queued q) + over_lanes lane_weight q"

lemma lane_action_works:
  assumes "lane_action a" "queue_step a q = Some q1"
  shows "queue_work q1 < queue_work q"
proof (cases a)
  case (LaneWait k)
  then show ?thesis using assms over_lanes_set [of k LaneReady q lane_weight LaneWaiting]
    by (auto simp: queue_work_def lane_wait_def split: if_splits)
next
  case (LaneExit k)
  then show ?thesis using assms over_lanes_set [of k LaneReady q lane_weight LaneExited]
    by (auto simp: queue_work_def lane_exit_def split: if_splits)
next
  case (LaneTake k j)
  then have "lane_take k j q = Some q1" using assms by simp
  then obtain q0 where q0: "lane_is k LaneReady q0" "q1 = set_lane k (LaneHolding j) q0" "queued q = add_mset j (queued q0)"
    "\<And>f :: LaneState \<Rightarrow> nat. over_lanes f q0 = over_lanes f q"
    by (rule lane_take_moves) blast
  then show ?thesis using over_lanes_set [OF q0(1), of lane_weight "LaneHolding j"] by (simp add: queue_work_def)
next
  case (LaneStart k)
  then have "lane_start k q = Some q1" using assms by simp
  then show ?thesis
  proof (cases rule: lane_start_moves)
    case (quit j)
    then show ?thesis using over_lanes_set [OF quit(1), of lane_weight LaneExited] by (simp add: queue_work_def)
  next
    case (run j n)
    then show ?thesis using run_lane [OF run(1,3,4), of lane_weight] by (simp add: queue_work_def)
  qed
next
  case (LaneFinish k)
  then have "lane_finish k q = Some q1" using assms by simp
  then obtain j where j: "lane_is k (LaneRunning j) q" "q1 = set_lane k LaneReady (q\<lparr>lq_events := lq_events q @ [JobFinished j]\<rparr>)"
    by (rule lane_finish_moves)
  have "lane_is k (LaneRunning j) (q\<lparr>lq_events := lq_events q @ [JobFinished j]\<rparr>)" using j(1) by simp
  from over_lanes_set [OF this, of lane_weight LaneReady] show ?thesis using j(2) by (simp add: queue_work_def)
qed (use assms in auto)

lemma lane_run_bounded: "list_all lane_action as \<Longrightarrow> run_queue as q = Some q1 \<Longrightarrow> length as + queue_work q1 \<le> queue_work q"
proof (induction as arbitrary: q)
  case (Cons a as)
  then obtain q2 where "queue_step a q = Some q2" "run_queue as q2 = Some q1" by auto
  then show ?case using Cons lane_action_works [of a q q2] by fastforce
qed simp

lemma sum_list_zero: "(\<And>x. x \<in> set xs \<Longrightarrow> f x = 0) \<Longrightarrow> sum_list (map f xs) = (0 :: 'a :: comm_monoid_add)"
  by (induction xs) auto

lemma stuck_lane:
  assumes "\<And>a. lane_action a \<Longrightarrow> queue_step a q = None" "l \<in> set (lq_lanes q)"
  shows "ln_state l = LaneWaiting \<or> ln_state l = LaneExited"
proof (rule ccontr)
  assume n: "\<not> ?thesis"
  obtain i where i: "i < length (lq_lanes q)" "lq_lanes q ! i = l" using assms(2) by (auto simp: in_set_conv_nth)
  show False
  proof (cases "ln_state l")
    case LaneReady
    then have r: "lane_is i LaneReady q" using i by (simp add: lane_is_def)
    have n: "lane_wait i q = None" "lane_exit i q = None" "lane_take i j q = None" for j
      using assms(1) [of "LaneWait i"] assms(1) [of "LaneExit i"] assms(1) [of "LaneTake i j"] by simp_all
    have "no_jobs q"
    proof (rule ccontr)
      assume "\<not> no_jobs q"
      then consider j where "can_take (lq_readyPriorityJobs q) j" "\<not> scheduler_empty (lq_readyPriorityJobs q)"
        | j where "scheduler_empty (lq_readyPriorityJobs q)" "can_take (lq_readyJobs q) j"
        using sched.takes_or_empty [of "lq_readyJobs q"] sched.takes_or_empty [of "lq_readyPriorityJobs q"] unfolding no_jobs_def by blast
      then show False
      proof cases
        case (1 j)
        then show False using n(3) [of j] r by (simp add: lane_take_def)
      next
        case (2 j)
        then show False using n(3) [of j] r by (simp add: lane_take_def)
      qed
    qed
    then show False using n(1,2) r by (auto simp: lane_wait_def lane_exit_def split: if_splits)
  next
    case (LaneHolding j)
    then show False using assms(1) [of "LaneStart i"] i by (auto simp: lane_start_def Let_def split: if_splits)
  next
    case (LaneRunning j)
    then show False using assms(1) [of "LaneFinish i"] i by (auto simp: lane_finish_def)
  qed (use n in auto)
qed

text \<open>
  C34.  Every job is run: if nobody adds jobs, the lanes come to rest after a bounded number of actions,
  however they are interleaved, and when they rest, no job is left in the queue or in a lane, and all
  jobs that were added have finished.  A lane at rest waits for jobs or, if the queue is being
  destroyed, has ended.
\<close>

theorem queue_drains:
  assumes "run_queue as (new_queue alg numLanes buildID) = Some q" "orderly False as" "0 < numLanes"
    and "list_all lane_action bs" "run_queue bs q = Some q1"
  shows "length bs \<le> queue_work q \<and>
    ((\<forall>a. lane_action a \<longrightarrow> queue_step a q1 = None) \<longrightarrow>
       finished q1 = added as \<and> queued q1 = {#} \<and>
       (\<forall>l\<in>set (lq_lanes q1). ln_state l = (if lq_shutdown q1 then LaneExited else LaneWaiting)))"
proof -
  have j: "jobs_inv (added as) q" using jobs_inv_run [OF jobs_inv_new assms(1,2)] by simp
  have "live_inv (new_queue alg numLanes buildID)"
    using assms(3) by (auto simp: live_inv_def new_queue_def queued_def)
  then have l: "live_inv q" using live_run [OF _ jobs_inv_new assms(1)] assms(2) by (simp add: new_queue_def)
  have b: "orderly down bs" "added bs = {#}" for down
    using assms(4) by (induction down bs rule: orderly.induct) auto
  have j1: "jobs_inv (added as) q1" using jobs_inv_run [OF j assms(5)] b by fastforce
  have l1: "live_inv q1" by (rule live_run [OF l j assms(5) b(1)])
  have "finished q1 = added as \<and> queued q1 = {#} \<and>
      (\<forall>l\<in>set (lq_lanes q1). ln_state l = (if lq_shutdown q1 then LaneExited else LaneWaiting))"
    if "\<forall>a. lane_action a \<longrightarrow> queue_step a q1 = None"
  proof -
    have s: "ln_state l = LaneWaiting \<or> ln_state l = LaneExited" if "l \<in> set (lq_lanes q1)" for l
      using stuck_lane [of q1 l] \<open>\<forall>a. _\<close> that by blast
    then have e: "queued q1 = {#}" using l1 by (auto simp: live_inv_def)
    have "over_lanes f q1 = 0" if "f LaneWaiting = 0" "f LaneExited = 0" for f :: "LaneState \<Rightarrow> QueueJob multiset"
    proof -
      have "f (ln_state l) = 0" if "l \<in> set (lq_lanes q1)" for l using s [OF that] \<open>f LaneWaiting = 0\<close> \<open>f LaneExited = 0\<close> by auto
      then show ?thesis unfolding over_lanes_def by (rule sum_list_zero)
    qed
    then have "over_lanes held_by q1 = {#}" "over_lanes run_by q1 = {#}" by simp_all
    then have "finished q1 = added as" using j1 e by (simp add: jobs_inv_def)
    then show ?thesis using e s l1 by (auto simp: live_inv_def)
  qed
  then show ?thesis using lane_run_bounded [OF assms(4,5)] by simp
qed

text \<open>A run with two lanes: the lanes wait, two jobs are added, and the queue is shut down.\<close>

definition sample_jobs :: "QueueAction list" where
  "sample_jobs =
     [LaneWait 0, LaneWait 1, AddJob \<lparr>job_desc = Some ''a'', job_work = 1\<rparr> PriorityNormal (Some 1),
      AddJob \<lparr>job_desc = Some ''b'', job_work = 2\<rparr> PriorityHigh (Some 0),
      LaneTake 1 \<lparr>job_desc = Some ''b'', job_work = 2\<rparr>, ShutdownQueue, LaneStart 1]"

definition sample_rest :: "QueueAction list" where
  "sample_rest =
     [LaneTake 0 \<lparr>job_desc = Some ''a'', job_work = 1\<rparr>, LaneStart 0, LaneFinish 0, LaneFinish 1, LaneExit 1, LaneExit 0]"

theorem queue_conserves_jobs_witness:
  "\<exists>q. run_queue sample_jobs (new_queue NamePriority 2 7) = Some q \<and>
     added sample_jobs = queued q + over_lanes held_by q + over_lanes run_by q + finished q"
proof -
  have "run_queue sample_jobs (new_queue NamePriority 2 7) \<noteq> None" "orderly False sample_jobs" by code_simp+
  then show ?thesis using queue_conserves_jobs [of sample_jobs NamePriority 2 7] by blast
qed

theorem queue_drains_witness:
  "\<exists>q q1. run_queue sample_jobs (new_queue NamePriority 2 7) = Some q \<and> run_queue sample_rest q = Some q1 \<and>
     6 \<le> queue_work q \<and> finished q1 = added sample_jobs"
proof -
  have "Option.bind (run_queue sample_jobs (new_queue NamePriority 2 7)) (run_queue sample_rest) \<noteq> None" by code_simp
  then obtain q q1 where q: "run_queue sample_jobs (new_queue NamePriority 2 7) = Some q" "run_queue sample_rest q = Some q1"
    by (cases "run_queue sample_jobs (new_queue NamePriority 2 7)") auto
  have o: "orderly False sample_jobs" "list_all lane_action sample_rest" "(0 :: nat) < 2" by code_simp+
  have "Option.bind (run_queue sample_jobs (new_queue NamePriority 2 7))
      (\<lambda>q. Option.bind (run_queue sample_rest q) (\<lambda>q1. Some (lq_lanes q1))) =
    Some [\<lparr>ln_state = LaneExited, ln_jobCount = 1\<rparr>, \<lparr>ln_state = LaneExited, ln_jobCount = 1\<rparr>]" by code_simp
  then have l: "lq_lanes q1 = [\<lparr>ln_state = LaneExited, ln_jobCount = 1\<rparr>, \<lparr>ln_state = LaneExited, ln_jobCount = 1\<rparr>]" using q by simp
  have "i < 2 \<Longrightarrow> ln_state (lq_lanes q1 ! i) = LaneExited" for i by (cases "i = 0") (simp_all add: l)
  then have "queue_step a q1 = None" if "lane_action a" for a
    using that l by (cases a) (auto simp: lane_wait_def lane_exit_def lane_take_def lane_start_def lane_finish_def lane_is_def)
  then show ?thesis using queue_drains [OF q(1) o(1,3,2) q(2)] q by (auto simp: sample_rest_def)
qed

section \<open>The identities of jobs\<close>

lemma jobID_value:
  assumes "i < 2 ^ 16" "unat c < 2 ^ 16"
  shows "unat (jobID b i c) = (unat b mod 2 ^ 16) * 2 ^ 32 + i * 2 ^ 16 + unat c"
proof -
  have m: "and x 0xFFFF = take_bit 16 x" for x :: "64 word" by (simp add: take_bit_eq_mask mask_eq_exp_minus_1)
  have t: "unat (take_bit 16 x) = unat x mod 2 ^ 16" for x :: "64 word" by (simp only: unsigned_take_bit_eq) (simp add: take_bit_eq_mod)
  let ?b = "push_bit 32 (take_bit 16 (ucast b)) :: 64 word" and ?l = "push_bit 16 (take_bit 16 (of_nat i)) :: 64 word"
  have ub: "unat (ucast b :: 64 word) = unat b" "unat (ucast c :: 64 word) = unat c"
    using unsigned_less [of b, where 'a = nat] unsigned_less [of c, where 'a = nat]
    by (simp_all add: unsigned_ucast_eq take_bit_nat_eq_self)
  have ui: "unat (of_nat i :: 64 word) = i" using assms by (simp add: unat_of_nat)
  have b: "unat ?b = (unat b mod 2 ^ 16) * 2 ^ 32"
    unfolding unsigned_push_bit_eq t ub by (simp add: take_bit_eq_mod push_bit_eq_mult)
  have l: "unat ?l = i * 2 ^ 16"
    unfolding unsigned_push_bit_eq t ui using assms by (simp add: take_bit_eq_mod push_bit_eq_mult)
  have "unat b mod 2 ^ 16 < 2 ^ 16" by simp
  then have s: "unat ?b + unat ?l < 2 ^ 64" "unat ?b + unat ?l + unat c < 2 ^ 64" using b l assms by simp_all
  have "unat (?b + ?l) = unat ?b + unat ?l" using s(1) unat_add_lem [of ?b ?l] by simp
  moreover have "unat (?b + ?l + ucast c) = unat (?b + ?l) + unat (ucast c :: 64 word)"
    using s ub calculation unat_add_lem [of "?b + ?l" "ucast c"] by simp
  ultimately show ?thesis using b l ub by (simp add: jobID_def m)
qed

lemma jobID_inj:
  assumes "i < 2 ^ 16" "unat c < 2 ^ 16" "i' < 2 ^ 16" "unat c' < 2 ^ 16" "jobID b i c = jobID b i' c'"
  shows "i = i' \<and> c = c'"
proof -
  have e: "i * 2 ^ 16 + unat c = i' * 2 ^ 16 + unat c'"
    using jobID_value [OF assms(1,2), of b] jobID_value [OF assms(3,4), of b] assms(5) by simp
  have "(i * 2 ^ 16 + unat c) div 2 ^ 16 = i" "(i' * 2 ^ 16 + unat c') div 2 ^ 16 = i'" using assms(2,4) by simp_all
  then have "i = i'" using e by simp
  then show ?thesis using e by (simp add: word_unat_eq_iff)
qed

fun started_id :: "QueueEvent \<Rightarrow> 64 word list" where
  "started_id (JobStarted j k) = [k]"
| "started_id (JobFinished j) = []"

definition job_ids :: "LaneQueue \<Rightarrow> 64 word list" where
  "job_ids q = concat (map started_id (lq_events q))"

definition ids_inv :: "LaneQueue \<Rightarrow> bool" where
  "ids_inv q \<longleftrightarrow>
     (\<forall>l\<in>set (lq_lanes q). unat (ln_jobCount l) \<le> length (lq_events q)) \<and>
     (\<forall>k\<in>set (job_ids q). \<exists>i c. i < length (lq_lanes q) \<and> k = jobID (lq_buildID q) i c \<and> c \<le> ln_jobCount (lq_lanes q ! i)) \<and>
     distinct (job_ids q)"

lemma ids_inv_counts:
  assumes "ids_inv q" "map ln_jobCount (lq_lanes q1) = map ln_jobCount (lq_lanes q)" "lq_buildID q1 = lq_buildID q"
    "lq_events q1 = lq_events q @ es" "concat (map started_id es) = []"
  shows "ids_inv q1"
proof -
  have n: "length (lq_lanes q1) = length (lq_lanes q)" using assms(2) map_eq_imp_length_eq by blast
  have c: "ln_jobCount (lq_lanes q1 ! i) = ln_jobCount (lq_lanes q ! i)" if "i < length (lq_lanes q)" for i
    using arg_cong [OF assms(2), of "\<lambda>xs. xs ! i"] that n by simp
  have "ln_jobCount ` set (lq_lanes q1) = ln_jobCount ` set (lq_lanes q)" using arg_cong [OF assms(2), of set] by simp
  then have s: "\<forall>l\<in>set (lq_lanes q1). \<exists>l'\<in>set (lq_lanes q). ln_jobCount l = ln_jobCount l'" by (metis image_iff)
  have "job_ids q1 = job_ids q" using assms(4,5) by (simp add: job_ids_def)
  then show ?thesis using assms(1,3) n c s assms(4) unfolding ids_inv_def by (fastforce intro: le_trans)
qed

lemma set_lane_counts: "map ln_jobCount (lq_lanes (set_lane i st q)) = map ln_jobCount (lq_lanes q)"
  by (cases "i < length (lq_lanes q)") (simp_all add: set_lane_def map_update list_update_same_conv list_update_beyond)

lemma set_lane_other [simp]: "lq_events (set_lane i st q) = lq_events q" "lq_buildID (set_lane i st q) = lq_buildID q"
  by (simp_all add: set_lane_def)

lemma notify_all_counts: "map ln_jobCount (lq_lanes (notify_all q)) = map ln_jobCount (lq_lanes q)"
  by (auto simp: notify_all_def wake_lane_def)

lemma ids_inv_start:
  assumes inv: "ids_inv q" and s: "lane_start k q = Some q1"
    and b: "length (lq_lanes q) \<le> 2 ^ 16" "length (lq_events q1) < 2 ^ 16"
  shows "ids_inv q1"
proof (cases "lq_events q1 = lq_events q")
  case True
  then have "q1 = set_lane k LaneExited q"
    using s by (auto simp: lane_start_def Let_def split: if_splits LaneState.splits)
  then show ?thesis by (intro ids_inv_counts [OF inv, of q1 "[]"]) (simp_all add: set_lane_counts)
next
  case False
  let ?c = "ln_jobCount (lq_lanes q ! k) + 1"
  obtain j where k: "k < length (lq_lanes q)" and
    q1: "q1 = q\<lparr>lq_lanes := (lq_lanes q)[k := \<lparr>ln_state = LaneRunning j, ln_jobCount = ?c\<rparr>],
                lq_events := lq_events q @ [JobStarted j (jobID (lq_buildID q) k ?c)]\<rparr>"
    using s False by (auto simp: lane_start_def Let_def set_lane_def split: if_splits LaneState.splits)
  have small: "unat (ln_jobCount l) < 2 ^ 16 - 1" if "l \<in> set (lq_lanes q)" for l
    using inv b(2) that q1 by (fastforce simp: ids_inv_def)
  have c: "unat ?c = Suc (unat (ln_jobCount (lq_lanes q ! k)))"
    using small [OF nth_mem [OF k]] unat_add_lem [of "ln_jobCount (lq_lanes q ! k)" 1] by simp
  have new: "jobID (lq_buildID q) k ?c \<notin> set (job_ids q)"
  proof
    assume "jobID (lq_buildID q) k ?c \<in> set (job_ids q)"
    then obtain i d where d: "i < length (lq_lanes q)" "jobID (lq_buildID q) k ?c = jobID (lq_buildID q) i d" "d \<le> ln_jobCount (lq_lanes q ! i)"
      using inv by (auto simp: ids_inv_def)
    have "unat d < 2 ^ 16 - 1" using d(3) small [OF nth_mem [OF d(1)]] by (simp add: word_le_nat_alt)
    then have "k = i \<and> ?c = d" using d(1,2) k b(1) c small [OF nth_mem [OF k]] by (intro jobID_inj) simp_all
    then show False using d(3) c by (auto simp: word_le_nat_alt)
  qed
  have ids: "job_ids q1 = job_ids q @ [jobID (lq_buildID q) k ?c]" by (simp add: q1 job_ids_def)
  have "\<forall>l\<in>set (lq_lanes q1). unat (ln_jobCount l) \<le> length (lq_events q1)"
  proof
    fix l assume "l \<in> set (lq_lanes q1)"
    then have "l \<in> insert \<lparr>ln_state = LaneRunning j, ln_jobCount = ?c\<rparr> (set (lq_lanes q))"
      using set_update_subset_insert [of "lq_lanes q" k] by (simp add: q1) blast
    then have "l \<in> set (lq_lanes q) \<or> ln_jobCount l = ?c" by auto
    moreover have "unat ?c \<le> Suc (length (lq_events q))" using inv c nth_mem [OF k] by (simp add: ids_inv_def)
    ultimately show "unat (ln_jobCount l) \<le> length (lq_events q1)" using inv by (auto simp: q1 ids_inv_def le_SucI)
  qed
  moreover have "\<exists>i d. i < length (lq_lanes q1) \<and> x = jobID (lq_buildID q1) i d \<and> d \<le> ln_jobCount (lq_lanes q1 ! i)"
    if x: "x \<in> set (job_ids q1)" for x
  proof (cases "x = jobID (lq_buildID q) k ?c")
    case True
    then show ?thesis using k by (intro exI [of _ k] exI [of _ ?c]) (simp add: q1)
  next
    case old: False
    then obtain i d where d: "i < length (lq_lanes q)" "x = jobID (lq_buildID q) i d" "d \<le> ln_jobCount (lq_lanes q ! i)"
      using x ids inv by (auto simp: ids_inv_def)
    have "d \<le> ln_jobCount (lq_lanes q1 ! i)"
      using d(1,3) c k by (cases "i = k") (simp_all add: q1 word_le_nat_alt)
    then show ?thesis using d by (intro exI [of _ i] exI [of _ d]) (simp add: q1)
  qed
  ultimately show ?thesis using new ids inv unfolding ids_inv_def by simp
qed

lemma ids_inv_step:
  assumes inv: "ids_inv q" and s: "queue_step a q = Some q1" and b: "length (lq_lanes q) \<le> 2 ^ 16" "length (lq_events q1) < 2 ^ 16"
  shows "ids_inv q1 \<and> length (lq_lanes q1) = length (lq_lanes q) \<and> (\<exists>es. lq_events q1 = lq_events q @ es)"
proof (cases "\<exists>k. a = LaneStart k")
  case True
  then obtain k where k: "lane_start k q = Some q1" using s by auto
  then have "length (lq_lanes q1) = length (lq_lanes q) \<and> (\<exists>es. lq_events q1 = lq_events q @ es)"
    by (auto simp: lane_start_def Let_def set_lane_def split: if_splits LaneState.splits)
  then show ?thesis using ids_inv_start [OF inv k b] by blast
next
  case False
  have "\<exists>es. map ln_jobCount (lq_lanes q1) = map ln_jobCount (lq_lanes q) \<and> lq_buildID q1 = lq_buildID q \<and>
      lq_events q1 = lq_events q @ es \<and> concat (map started_id es) = []"
    using s False
  proof (cases a)
    case (AddJob j p w)
    then show ?thesis using s
      by (auto simp: addJob_def notify_one_def set_lane_def map_update list_update_same_conv split: if_splits option.splits)
        (simp_all add: list_update_same_conv lane_is_def)
  next
    case (LaneFinish k)
    then show ?thesis using s
      by (auto simp: lane_finish_def set_lane_counts split: if_splits LaneState.splits)
  qed (auto simp: lane_wait_def lane_wake_def lane_take_def lane_exit_def shutdown_queue_def cancelAllJobs_def set_lane_counts notify_all_counts
      set_lane_def notify_all_def wake_lane_def map_update list_update_same_conv lane_is_def split: if_splits)
  then obtain es where es: "map ln_jobCount (lq_lanes q1) = map ln_jobCount (lq_lanes q)" "lq_buildID q1 = lq_buildID q"
    "lq_events q1 = lq_events q @ es" "concat (map started_id es) = []" by blast
  show ?thesis using ids_inv_counts [OF inv es] es map_eq_imp_length_eq [OF es(1)] by blast
qed

lemma queue_step_events: "queue_step a q = Some q1 \<Longrightarrow> length (lq_events q) \<le> length (lq_events q1)"
  by (cases a)
    (auto simp: addJob_def notify_one_def lane_wait_def lane_wake_def lane_take_def lane_exit_def lane_start_def lane_finish_def
      shutdown_queue_def cancelAllJobs_def notify_all_def Let_def split: if_splits option.splits LaneState.splits)

lemma run_queue_events: "run_queue as q = Some q1 \<Longrightarrow> length (lq_events q) \<le> length (lq_events q1)"
proof (induction as arbitrary: q)
  case (Cons a as)
  then obtain q2 where "queue_step a q = Some q2" "run_queue as q2 = Some q1" by auto
  then show ?case using Cons.IH [of q2] queue_step_events [of a q q2] by linarith
qed simp

lemma ids_inv_run:
  "ids_inv q \<Longrightarrow> run_queue as q = Some q1 \<Longrightarrow> length (lq_lanes q) \<le> 2 ^ 16 \<Longrightarrow> length (lq_events q1) < 2 ^ 16 \<Longrightarrow> ids_inv q1"
proof (induction as arbitrary: q)
  case (Cons a as)
  then obtain q2 where q2: "queue_step a q = Some q2" "run_queue as q2 = Some q1" by auto
  have "length (lq_events q2) < 2 ^ 16" using run_queue_events [OF q2(2)] Cons.prems(4) by linarith
  then show ?case using ids_inv_step [OF Cons.prems(1) q2(1) Cons.prems(3)] Cons q2 by auto
qed simp

text \<open>
  The identities under which the jobs of a build are started, which are also the handles of their
  processes and the task identities in their environment, are all different, as long as there are at
  most 65536 lanes and fewer than 65536 jobs have started and finished.
\<close>

theorem job_ids_unique:
  assumes "run_queue as (new_queue alg numLanes buildID) = Some q" "numLanes \<le> 2 ^ 16" "length (lq_events q) < 2 ^ 16"
  shows "distinct (job_ids q)"
proof -
  have "ids_inv (new_queue alg numLanes buildID)" by (auto simp: ids_inv_def new_queue_def job_ids_def)
  then show ?thesis using ids_inv_run [OF _ assms(1)] assms(2,3) by (simp add: new_queue_def ids_inv_def)
qed

theorem job_ids_unique_witness:
  "\<exists>q. run_queue (sample_jobs @ sample_rest) (new_queue FIFO 2 0x12345678) = Some q \<and> job_ids q = [0x567800010001, 0x567800000001] \<and> distinct (job_ids q)"
proof -
  have e: "map_option (\<lambda>q. (job_ids q, length (lq_events q))) (run_queue (sample_jobs @ sample_rest) (new_queue FIFO 2 0x12345678)) =
      Some ([0x567800010001, 0x567800000001], 4)" by code_simp
  then obtain q where "run_queue (sample_jobs @ sample_rest) (new_queue FIFO 2 0x12345678) = Some q" "job_ids q = [0x567800010001, 0x567800000001]"
    "length (lq_events q) = 4" by auto
  then show ?thesis using job_ids_unique [of "sample_jobs @ sample_rest" FIFO 2 "0x12345678" q] by simp
qed

text \<open>
  The number of a job runs over into the bits of the lane: the 65537th job of lane 0 has the identity of
  the first job of lane 1.  And only half of the bits of the build's identity are used.
\<close>

lemma jobID_overflow:
  "jobID b 0 (2 ^ 16 + 1) = jobID b 1 1" "jobID 0x10000 i c = jobID 0 i c"
  by (simp_all add: jobID_def)

end
