(* ===== verification/Task_Limits.thy ===== *)
theory Task_Limits
  imports String_Integers
begin

text \<open>
  How many tasks the lane based queue runs at a time
  (\<^verbatim>\<open>lib/Basic/LaneBasedExecutionQueue.cpp\<close>): the number of lanes and of background tasks
  that the limit of open files allows, and the counter with which a lane asks to leave a task to the
  background.
\<close>

section \<open>The limits\<close>

text \<open>
  \<^verbatim>\<open>getAsInteger\<close> of the support library for an unsigned result of 32 bits: the 64 bit
  number must survive the conversion.
\<close>

definition getAsUnsigned :: "nat \<Rightarrow> string \<Rightarrow> 32 word option" where
  "getAsUnsigned radix s =
     do { (v, rest) \<leftarrow> consumeUnsignedInteger radix s;
          if rest = [] \<and> ucast (ucast v :: 32 word) = v then Some (ucast v) else None }"

definition reservedFileCount :: "32 word" where
  "reservedFileCount = 3 + 2 + 1 + 2 + 2"

definition estimateTaskLimits :: "64 word \<Rightarrow> string option \<Rightarrow> 32 word \<Rightarrow> 32 word \<times> 32 word" where
  "estimateTaskLimits curOpenFileLimit env_override numLanes =
     (if curOpenFileLimit < ucast reservedFileCount then (1, 0)
      else
        let allowedFilesForTasks = ucast (min curOpenFileLimit 0x7FFFFFFF) - reservedFileCount;
            maxConcurrentTasks = allowedFilesForTasks div 2
        in if numLanes > maxConcurrentTasks then (max 1 maxConcurrentTasks, 0)
           else
             let extraTasksMax = maxConcurrentTasks - numLanes;
                 backgroundTaskMax =
                   (case env_override of
                      Some p \<Rightarrow> (case getAsUnsigned 10 p of Some n \<Rightarrow> n | None \<Rightarrow> min 1024 (numLanes * 64))
                    | None \<Rightarrow> min 1024 (numLanes * 64))
             in (numLanes, min backgroundTaskMax extraTasksMax))"

section \<open>Background tasks\<close>

text \<open>
  A lane asks for its process to be waited for in the background by incrementing the counter; the old
  value decides.  A lane that is turned down decrements the counter in a second step, and so does a
  background task at its end.  \<open>bt_turned_down\<close> says which lanes are between the two steps.
\<close>

record BackgroundTasks =
  bt_max :: "32 word"
  bt_count :: "32 word"
  bt_running :: nat
  bt_turned_down :: "bool list"

definition new_background :: "32 word \<Rightarrow> 32 word \<Rightarrow> BackgroundTasks" where
  "new_background numLanes taskMax =
     \<lparr>bt_max = taskMax, bt_count = 0, bt_running = 0, bt_turned_down = replicate (unat numLanes) False\<rparr>"

datatype BackgroundAction = ReleaseLane nat | GiveBack nat | BackgroundDone

fun background_step :: "BackgroundAction \<Rightarrow> BackgroundTasks \<Rightarrow> BackgroundTasks option" where
  "background_step (ReleaseLane i) b =
     (if i < length (bt_turned_down b) \<and> \<not> bt_turned_down b ! i then
        (let previousTaskCount = bt_count b in
         if previousTaskCount < bt_max b then Some (b\<lparr>bt_count := bt_count b + 1, bt_running := Suc (bt_running b)\<rparr>)
         else Some (b\<lparr>bt_count := bt_count b + 1, bt_turned_down := (bt_turned_down b)[i := True]\<rparr>))
      else None)"
| "background_step (GiveBack i) b =
     (if i < length (bt_turned_down b) \<and> bt_turned_down b ! i
      then Some (b\<lparr>bt_count := bt_count b - 1, bt_turned_down := (bt_turned_down b)[i := False]\<rparr>)
      else None)"
| "background_step BackgroundDone b =
     (case bt_running b of 0 \<Rightarrow> None | Suc n \<Rightarrow> Some (b\<lparr>bt_count := bt_count b - 1, bt_running := n\<rparr>))"

fun run_background :: "BackgroundAction list \<Rightarrow> BackgroundTasks \<Rightarrow> BackgroundTasks option" where
  "run_background [] b = Some b"
| "run_background (a # as) b = do { b1 \<leftarrow> background_step a b; run_background as b1 }"

section \<open>The limits are respected\<close>

lemma unat_min: "unat (min a b) = min (unat a) (unat b)"
  by (simp add: min_def word_le_nat_alt)

lemma estimate_cases:
  assumes "estimateTaskLimits limit ov n = (lanes, bg)"
  obtains (tiny) "unat limit < 10" "lanes = 1" "bg = 0"
  | (few) "10 \<le> unat limit" "unat n > (min (unat limit) 0x7FFFFFFF - 10) div 2"
      "unat lanes = max 1 ((min (unat limit) 0x7FFFFFFF - 10) div 2)" "bg = 0"
  | (enough) "10 \<le> unat limit" "lanes = n" "unat lanes + unat bg \<le> (min (unat limit) 0x7FFFFFFF - 10) div 2"
proof -
  let ?m = "(min (unat limit) 0x7FFFFFFF - 10) div 2"
  let ?allowed = "ucast (min limit 0x7FFFFFFF) - reservedFileCount :: 32 word"
  have r: "unat (ucast reservedFileCount :: 64 word) = 10" by (simp add: reservedFileCount_def)
  have lim: "limit < ucast reservedFileCount \<longleftrightarrow> unat limit < 10" unfolding word_less_nat_alt r ..
  have mn: "unat (min limit 0x7FFFFFFF) = min (unat limit) 0x7FFFFFFF" by (simp add: unat_min)
  have c: "unat (ucast (min limit 0x7FFFFFFF) :: 32 word) = min (unat limit) 0x7FFFFFFF"
    using mn by (simp add: unsigned_ucast_eq take_bit_eq_mod)
  have a: "unat (?allowed div 2) = ?m" if "10 \<le> unat limit"
    using that c by (simp add: unat_div reservedFileCount_def unat_sub word_le_nat_alt)
  show thesis
  proof (cases "unat limit < 10")
    case True
    then show thesis using assms lim tiny by (simp add: estimateTaskLimits_def)
  next
    case False
    then have a: "unat (?allowed div 2) = ?m" using a by simp
    show thesis
    proof (cases "n > ?allowed div 2")
      case True
      then have "lanes = max 1 (?allowed div 2)" "bg = 0" using assms lim False by (simp_all add: estimateTaskLimits_def Let_def)
      moreover have "unat (max 1 w) = max 1 (unat w)" for w :: "32 word" by (simp add: max_def word_le_nat_alt)
      ultimately show thesis using few True False a by (simp add: word_less_nat_alt)
    next
      case en: False
      then have "lanes = n" "\<exists>x. bg = min x (?allowed div 2 - n)" using assms lim False by (auto simp: estimateTaskLimits_def Let_def)
      then have "lanes = n" "unat bg \<le> unat (?allowed div 2 - n)" by (auto simp: unat_min)
      moreover have "unat (?allowed div 2 - n) = ?m - unat n" "unat n \<le> ?m"
        using en a by (simp_all add: not_less unat_sub word_le_nat_alt)
      ultimately have "unat lanes + unat bg \<le> ?m" by (simp only: le_diff_conv2 add.commute)
      then show thesis using enough False \<open>lanes = n\<close> by simp
    qed
  qed
qed

definition background_inv :: "BackgroundTasks \<Rightarrow> bool" where
  "background_inv b \<longleftrightarrow>
     unat (bt_count b) = bt_running b + length (filter id (bt_turned_down b)) \<and> bt_running b \<le> unat (bt_max b) \<and>
     unat (bt_max b) + length (bt_turned_down b) < 2 ^ 32"

lemma filter_update:
  "i < length xs \<Longrightarrow> length (filter id (xs[i := b])) + (if xs ! i then 1 else 0) = length (filter id xs) + (if b then 1 else 0)"
proof (induction xs arbitrary: i)
  case (Cons x xs)
  show ?case
  proof (cases i)
    case (Suc k)
    then show ?thesis using Cons.IH [of k] Cons.prems by (cases x) auto
  qed auto
qed simp

lemma background_step_inv:
  assumes "background_inv b" "background_step a b = Some b1"
  shows "background_inv b1 \<and> bt_max b1 = bt_max b \<and> length (bt_turned_down b1) = length (bt_turned_down b)"
proof -
  let ?f = "length (filter id (bt_turned_down b))"
  have f: "?f \<le> length (bt_turned_down b)" by simp
  have less: "?f < length (bt_turned_down b)" if "i < length (bt_turned_down b)" "\<not> bt_turned_down b ! i" for i
    using filter_update [OF that(1), of True] that length_filter_le [of id "(bt_turned_down b)[i := True]"] by simp
  have inc: "unat (bt_count b + 1) = unat (bt_count b) + 1" if "unat (bt_count b) < 2 ^ 32 - 1"
    using that unat_add_lem [of "bt_count b" 1] by simp
  have dec: "unat (bt_count b - 1) = unat (bt_count b) - 1" if "0 < unat (bt_count b)"
    using that by (simp add: unat_gt_0 unat_minus_one)
  show ?thesis
  proof (cases a)
    case (ReleaseLane i)
    then have i: "i < length (bt_turned_down b)" "\<not> bt_turned_down b ! i" using assms(2) by (auto split: if_splits)
    have "unat (bt_count b) < 2 ^ 32 - 1" using assms(1) less [OF i] by (simp add: background_inv_def)
    then show ?thesis
      using assms ReleaseLane i inc filter_update [OF i(1), of True] by (auto simp: background_inv_def Let_def word_less_nat_alt split: if_splits)
  next
    case (GiveBack i)
    then have i: "i < length (bt_turned_down b)" "bt_turned_down b ! i" using assms(2) by (auto split: if_splits)
    have n: "Suc (length (filter id ((bt_turned_down b)[i := False]))) = ?f" using filter_update [OF i(1), of False] i(2) by simp
    then have "0 < unat (bt_count b)" using assms(1) unfolding background_inv_def by linarith
    then show ?thesis using assms GiveBack dec n i by (auto simp: background_inv_def)
  next
    case BackgroundDone
    then show ?thesis using assms dec by (auto simp: background_inv_def split: nat.splits)
  qed
qed

lemma run_background_inv:
  "background_inv b \<Longrightarrow> run_background as b = Some b1 \<Longrightarrow>
   background_inv b1 \<and> bt_max b1 = bt_max b \<and> length (bt_turned_down b1) = length (bt_turned_down b)"
proof (induction as arbitrary: b)
  case (Cons a as)
  then obtain b2 where "background_step a b = Some b2" "run_background as b2 = Some b1" by auto
  then show ?case using Cons background_step_inv [of b a b2] by metis
qed simp

text \<open>
  C36.  The queue keeps to the limit of open files: with the limits it computes, whatever the override
  in the environment says, and however the lanes' requests interleave, there are never more background
  tasks than allowed; and if the process may have 12 files open, then two files for each lane and each
  background task and the reserved ones do not exceed the limit.  Lanes are only given up for this, and
  at least one is left.
\<close>

theorem task_limits_respected:
  assumes "estimateTaskLimits limit ov n = (lanes, bg)" "run_background as (new_background lanes bg) = Some b"
  shows "bt_running b \<le> unat bg \<and> lanes \<le> max 1 n \<and> (0 < n \<longrightarrow> 0 < lanes) \<and>
    (12 \<le> limit \<longrightarrow> 2 * (unat lanes + bt_running b) + 10 \<le> unat limit)"
proof -
  have sum: "unat bg + unat lanes < 2 ^ 32"
  proof -
    have "(min x 0x7FFFFFFF - 10) div 2 < 2 ^ 31" for x :: nat by (auto simp: min_def)
    from assms(1) this [of "unat limit"] show ?thesis by (cases rule: estimate_cases) simp_all
  qed
  then have "background_inv (new_background lanes bg)" by (simp add: background_inv_def new_background_def filter_False)
  from run_background_inv [OF this assms(2)] have r: "bt_running b \<le> unat bg" by (auto simp: background_inv_def new_background_def)
  from assms(1) have "lanes \<le> max 1 n \<and> (0 < n \<longrightarrow> 0 < lanes) \<and> (12 \<le> limit \<longrightarrow> 2 * (unat lanes + unat bg) + 10 \<le> unat limit)"
  proof (cases rule: estimate_cases)
    case tiny
    then show ?thesis by (simp add: word_le_nat_alt [of 12])
  next
    case few
    then have "lanes \<le> n" "0 < lanes" by (simp_all add: less_max_iff_disj word_le_nat_alt word_less_nat_alt)
    moreover have "2 * unat lanes + 10 \<le> unat limit" if "12 \<le> unat limit"
    proof -
      have "1 \<le> (min (unat limit) 0x7FFFFFFF - 10) div 2" using that by (auto simp: min_def)
      then have "unat lanes = (min (unat limit) 0x7FFFFFFF - 10) div 2" using few(3) by simp
      moreover have "min (unat limit) 0x7FFFFFFF \<le> unat limit" by simp
      ultimately show ?thesis using few(1) by linarith
    qed
    ultimately show ?thesis using few(4) by (simp add: le_max_iff_disj word_le_nat_alt [of 12])
  next
    case enough
    then show ?thesis by (auto simp: le_max_iff_disj)
  qed
  then show ?thesis using r by auto
qed

theorem task_limits_respected_witness:
  "estimateTaskLimits 100 (Some ''7'') 40 = (40, 5) \<and>
   (\<exists>b. run_background [ReleaseLane 0, ReleaseLane 1, BackgroundDone] (new_background 40 5) = Some b \<and> bt_running b \<le> 5)"
proof -
  have e: "estimateTaskLimits 100 (Some ''7'') 40 = (40, 5)" by code_simp
  have "run_background [ReleaseLane 0, ReleaseLane 1, BackgroundDone] (new_background 40 5) \<noteq> None" by code_simp
  then obtain b where b: "run_background [ReleaseLane 0, ReleaseLane 1, BackgroundDone] (new_background 40 5) = Some b" by blast
  have "bt_running b \<le> 5" using task_limits_respected [OF e b] by simp
  with e b show ?thesis by blast
qed

end
