(* ===== verification/Process_Environment.thy ===== *)
theory Process_Environment
  imports String_Integers
begin

text \<open>
  The environment of a process (\<^verbatim>\<open>include/builra/Basic/POSIXEnvironment.h\<close>) and the way the
  execution queues form it, and the limits of concurrency that the lane based queue works with
  (\<^verbatim>\<open>lib/Basic/LaneBasedExecutionQueue.cpp\<close>).
\<close>

section \<open>Numbers as text\<close>

text \<open>\<^verbatim>\<open>Twine(n).str()\<close> and \<^verbatim>\<open>Twine::utohexstr(n)\<close>\<close>

definition digit_char :: "nat \<Rightarrow> char" where
  "digit_char d = char_of (if d < 10 then 48 + d else 87 + d)"

fun print_radix :: "nat \<Rightarrow> nat \<Rightarrow> string" where
  "print_radix r n = (if r < 2 \<or> n < r then [digit_char n] else print_radix r (n div r) @ [digit_char (n mod r)])"

declare print_radix.simps [simp del]

definition print_decimal :: "nat \<Rightarrow> string" where
  "print_decimal n = print_radix 10 n"

definition utohexstr :: "64 word \<Rightarrow> string" where
  "utohexstr w = print_radix 16 (unat w)"

lemma print_radix_small: "n < r \<Longrightarrow> print_radix r n = [digit_char n]"
  by (subst print_radix.simps) simp

lemma print_radix_step: "2 \<le> r \<Longrightarrow> r \<le> n \<Longrightarrow> print_radix r n = print_radix r (n div r) @ [digit_char (n mod r)]"
  by (subst print_radix.simps) simp

lemma digit_char_value: "d < 36 \<Longrightarrow> digit_value (digit_char d) = Some d"
  by (auto simp: digit_char_def digit_value_def Let_def of_char_of)

lemma print_radix_digits:
  assumes "2 \<le> r" "r \<le> 36"
  shows "list_all (\<lambda>c. \<exists>d<r. c = digit_char d) (print_radix r n) \<and> print_radix r n \<noteq> []"
  using assms
proof (induction r n rule: print_radix.induct)
  case (1 r n)
  show ?case
  proof (cases "n < r")
    case True
    then show ?thesis by (auto simp: print_radix_small)
  next
    case False
    moreover have "\<exists>d<r. digit_char (n mod r) = digit_char d" using 1(2) by (intro exI [of _ "n mod r"]) simp
    ultimately show ?thesis using 1 by (simp add: print_radix_step)
  qed
qed

text \<open>A number is read back from its text.\<close>

definition radix_value :: "nat \<Rightarrow> string \<Rightarrow> nat" where
  "radix_value r s = foldl (\<lambda>n c. r * n + the (digit_value c)) 0 s"

lemma radix_value_print: "2 \<le> r \<Longrightarrow> r \<le> 36 \<Longrightarrow> radix_value r (print_radix r n) = n"
proof (induction r n rule: print_radix.induct)
  case (1 r n)
  show ?case
  proof (cases "n < r")
    case True
    then show ?thesis using 1 by (simp add: print_radix_small radix_value_def digit_char_value)
  next
    case False
    have "n mod r < 36" using 1(2,3) by (meson mod_less_divisor less_le_trans order_less_le_trans zero_less_numeral)
    moreover have "radix_value r (print_radix r (n div r)) = n div r" using 1 False by simp
    ultimately show ?thesis using 1(2) False by (simp add: print_radix_step radix_value_def digit_char_value)
  qed
qed

lemma print_radix_inj: "2 \<le> r \<Longrightarrow> r \<le> 36 \<Longrightarrow> print_radix r m = print_radix r n \<Longrightarrow> m = n"
  using radix_value_print by metis

lemma digit_char_plain: "d < 36 \<Longrightarrow> digit_char d \<notin> {CHR ''='', CHR 0x00, CHR 0x0A}"
  by (auto simp: digit_char_def dest!: arg_cong [of "char_of _" _ "of_char :: char \<Rightarrow> nat"])

lemma print_radix_plain:
  assumes "2 \<le> r" "r \<le> 36" "c \<in> set (print_radix r n)"
  shows "c \<notin> {CHR ''='', CHR 0x00, CHR 0x0A}"
proof -
  obtain d where d: "d < r" "c = digit_char d" using print_radix_digits [OF assms(1,2), of n] assms(3) by (auto simp: list_all_iff)
  then show ?thesis using digit_char_plain [of d] assms(2) by auto
qed

lemma print_radix_length: "2 \<le> r \<Longrightarrow> n < r ^ k \<Longrightarrow> 0 < k \<Longrightarrow> length (print_radix r n) \<le> k"
proof (induction k arbitrary: n)
  case (Suc k)
  show ?case
  proof (cases "n < r")
    case True
    then show ?thesis by (simp add: print_radix_small)
  next
    case False
    then have "0 < k" using Suc.prems by (cases k) auto
    moreover have "n div r < r ^ k" using Suc.prems by (simp add: div_less_iff_less_mult mult.commute)
    ultimately show ?thesis using Suc.IH [of "n div r"] Suc.prems False by (simp add: print_radix_step)
  qed
qed simp

lemma utohexstr_length: "length (utohexstr w) \<le> 16"
  using print_radix_length [of 16 "unat w" 16] unat_64 [of w] by (simp add: utohexstr_def)

section \<open>The environment\<close>

record POSIXEnvironment =
  pe_envStorage :: "string list"
  pe_keys :: "string list"
  pe_isFrozen :: bool

definition new_environment :: POSIXEnvironment where
  "new_environment = \<lparr>pe_envStorage = [], pe_keys = [], pe_isFrozen = False\<rparr>"

text \<open>\<^verbatim>\<open>setIfMissing\<close>; \<open>None\<close> is the assertion that the environment is not frozen.\<close>

definition setIfMissing :: "string \<Rightarrow> string \<Rightarrow> POSIXEnvironment \<Rightarrow> POSIXEnvironment option" where
  "setIfMissing key val env =
     (if pe_isFrozen env then None
      else if key \<in> set (pe_keys env) then Some env
      else Some (env\<lparr>pe_keys := pe_keys env @ [key],
                     pe_envStorage := pe_envStorage env @ [key @ ''='' @ val @ [CHR 0x00]]\<rparr>))"

text \<open>What a C string function sees of a string: the part before the first null character.\<close>

definition c_str :: "string \<Rightarrow> string" where
  "c_str s = takeWhile (\<lambda>c. c \<noteq> CHR 0x00) s"

definition getEnvp :: "POSIXEnvironment \<Rightarrow> POSIXEnvironment \<times> string list" where
  "getEnvp env = (env\<lparr>pe_isFrozen := True\<rparr>, map c_str (pe_envStorage env))"

fun set_all_missing :: "(string \<times> string) list \<Rightarrow> POSIXEnvironment \<Rightarrow> POSIXEnvironment option" where
  "set_all_missing [] env = Some env"
| "set_all_missing ((k, v) # kvs) env = do { env1 \<leftarrow> setIfMissing k v env; set_all_missing kvs env1 }"

text \<open>\<^verbatim>\<open>StringRef::split('=')\<close>\<close>

definition split_assignment :: "string \<Rightarrow> string \<times> string" where
  "split_assignment s = (takeWhile (\<lambda>c. c \<noteq> CHR ''='') s, tl (dropWhile (\<lambda>c. c \<noteq> CHR ''='') s))"

text \<open>
  The environment of a process: the build and the lane, the requested variables, and, if the process
  inherits it, the environment of the queue.
\<close>

definition form_environment ::
  "32 word \<Rightarrow> 64 word \<Rightarrow> (string \<times> string) list \<Rightarrow> bool \<Rightarrow> string list \<Rightarrow> POSIXEnvironment option" where
  "form_environment buildID laneNumber environment inheritEnvironment base =
     do {
       env \<leftarrow> setIfMissing ''BUILRA_BUILD_ID'' (print_decimal (unat buildID)) new_environment;
       env \<leftarrow> setIfMissing ''BUILRA_LANE_ID'' (print_decimal (unat laneNumber)) env;
       env \<leftarrow> set_all_missing environment env;
       if inheritEnvironment then set_all_missing (map split_assignment base) env else Some env
     }"


lemma in_set_tl: "x \<in> set (tl xs) \<Longrightarrow> x \<in> set xs"
  by (cases xs) auto

section \<open>What a process finds in its environment\<close>

definition env_bindings ::
  "32 word \<Rightarrow> 64 word \<Rightarrow> (string \<times> string) list \<Rightarrow> bool \<Rightarrow> string list \<Rightarrow> (string \<times> string) list" where
  "env_bindings buildID laneNumber environment inheritEnvironment base =
     (''BUILRA_BUILD_ID'', print_decimal (unat buildID)) # (''BUILRA_LANE_ID'', print_decimal (unat laneNumber)) #
     environment @ (if inheritEnvironment then map split_assignment base else [])"

text \<open>The C function \<^verbatim>\<open>getenv\<close>.\<close>

definition getenv :: "string list \<Rightarrow> string \<Rightarrow> string option" where
  "getenv envp k =
     map_option (drop (Suc (length k))) (List.find (\<lambda>e. take (Suc (length k)) e = k @ ''='') envp)"

definition assignment :: "string \<times> string \<Rightarrow> string" where
  "assignment kv = fst kv @ ''='' @ snd kv @ [CHR 0x00]"

fun first_bindings :: "string list \<Rightarrow> (string \<times> string) list \<Rightarrow> (string \<times> string) list" where
  "first_bindings ks [] = []"
| "first_bindings ks (kv # kvs) =
     (if fst kv \<in> set ks then first_bindings ks kvs else kv # first_bindings (ks @ [fst kv]) kvs)"

lemma set_all_missing_first:
  "\<not> pe_isFrozen env \<Longrightarrow>
   set_all_missing kvs env =
     Some (env\<lparr>pe_keys := pe_keys env @ map fst (first_bindings (pe_keys env) kvs),
               pe_envStorage := pe_envStorage env @ map assignment (first_bindings (pe_keys env) kvs)\<rparr>)"
proof (induction kvs arbitrary: env)
  case (Cons kv kvs)
  then show ?case by (cases kv) (auto simp: setIfMissing_def assignment_def)
qed simp

lemma first_bindings_append:
  "first_bindings ks (as @ bs) = first_bindings ks as @ first_bindings (ks @ map fst (first_bindings ks as)) bs"
  by (induction ks as rule: first_bindings.induct) auto

lemma set_all_missing_append: "set_all_missing (as @ bs) env = do { env1 \<leftarrow> set_all_missing as env; set_all_missing bs env1 }"
proof (induction as arbitrary: env)
  case (Cons a as)
  then show ?case by (cases a; cases "setIfMissing (fst a) (snd a) env") simp_all
qed simp

lemma form_environment_bindings:
  "form_environment b l environment inh base = set_all_missing (env_bindings b l environment inh base) new_environment"
proof -
  have "do { env1 \<leftarrow> set_all_missing environment env; if inh then set_all_missing (map split_assignment base) env1 else Some env1 } =
      set_all_missing (environment @ (if inh then map split_assignment base else [])) env" for env
    by (cases inh) (simp_all add: set_all_missing_append bind_rzero)
  then show ?thesis
    by (cases "setIfMissing ''BUILRA_BUILD_ID'' (print_decimal (unat b)) new_environment")
      (simp_all only: form_environment_def env_bindings_def set_all_missing.simps bind.simps)
qed

lemma form_environment_first:
  "form_environment b l environment inh base =
     Some \<lparr>pe_envStorage = map assignment (first_bindings [] (env_bindings b l environment inh base)),
           pe_keys = map fst (first_bindings [] (env_bindings b l environment inh base)), pe_isFrozen = False\<rparr>"
  unfolding form_environment_bindings by (simp add: set_all_missing_first new_environment_def)

lemma first_bindings_keys: "distinct (map fst (first_bindings ks kvs)) \<and> set (map fst (first_bindings ks kvs)) \<inter> set ks = {}"
  by (induction ks kvs rule: first_bindings.induct) auto

lemma first_bindings_lookup:
  "map_of (first_bindings ks kvs) k = (if k \<in> set ks then None else map_of kvs k)"
  by (induction ks kvs rule: first_bindings.induct) auto

lemma c_str_assignment:
  "CHR 0x00 \<notin> set k \<Longrightarrow> c_str (assignment (k, v)) = k @ ''='' @ c_str v"
proof -
  assume k: "CHR 0x00 \<notin> set k"
  have v: "takeWhile (\<lambda>c. c \<noteq> CHR 0x00) (v @ [CHR 0x00]) = takeWhile (\<lambda>c. c \<noteq> CHR 0x00) v" by (induction v) auto
  have "takeWhile (\<lambda>c. c \<noteq> CHR 0x00) (k @ xs) = k @ takeWhile (\<lambda>c. c \<noteq> CHR 0x00) xs" for xs
    using k by (intro takeWhile_append2) auto
  then show ?thesis by (simp add: c_str_def assignment_def v)
qed

lemma takes_key:
  assumes "CHR ''='' \<notin> set k" "CHR ''='' \<notin> set k'"
  shows "take (Suc (length k)) (k' @ CHR ''='' # v) = k @ ''='' \<longleftrightarrow> k' = k"
proof
  assume a: "take (Suc (length k)) (k' @ CHR ''='' # v) = k @ ''=''"
  let ?w = "takeWhile (\<lambda>c. c \<noteq> CHR ''='')"
  have "k' @ CHR ''='' # v = k @ CHR ''='' # drop (Suc (length k)) (k' @ CHR ''='' # v)"
    using a append_take_drop_id [of "Suc (length k)" "k' @ CHR ''='' # v"] by simp
  then have "?w (k' @ CHR ''='' # v) = ?w (k @ CHR ''='' # drop (Suc (length k)) (k' @ CHR ''='' # v))" by (rule arg_cong)
  moreover have "?w (x @ CHR ''='' # y) = x" if "CHR ''='' \<notin> set x" for x y
    using that by (induction x) auto
  ultimately show "k' = k" using assms by metis
qed simp

lemma getenv_assignments:
  assumes "CHR ''='' \<notin> set k" "\<forall>kv\<in>set kvs. CHR ''='' \<notin> set (fst kv) \<and> CHR 0x00 \<notin> set (fst kv)"
  shows "getenv (map c_str (map assignment kvs)) k = map_option c_str (map_of kvs k)"
  using assms(2)
proof (induction kvs)
  case (Cons kv kvs)
  obtain k' v where kv: "kv = (k', v)" by (cases kv)
  have e: "c_str (assignment kv) = k' @ CHR ''='' # c_str v" using kv Cons.prems by (simp add: c_str_assignment)
  show ?case
  proof (cases "k' = k")
    case True
    then show ?thesis using e kv by (simp add: getenv_def)
  next
    case False
    have "getenv (map c_str (map assignment (kv # kvs))) k = getenv (map c_str (map assignment kvs)) k"
      using takes_key [of k k' "c_str v"] assms(1) Cons.prems kv False e by (simp add: getenv_def)
    then show ?thesis using Cons kv False by auto
  qed
qed (simp add: getenv_def)

lemma first_bindings_subset: "set (first_bindings ks kvs) \<subseteq> set kvs"
  by (induction ks kvs rule: first_bindings.induct) auto

text \<open>
  C35.  Forming the environment of a process never fails an assertion, and a process that looks up a
  variable finds, in this order of precedence, the identity of the build and of the lane, the first of
  the requested values, and the value in the queue's own environment if that is inherited.  No variable
  is defined twice.
\<close>

theorem environment_precedence:
  assumes "\<And>key val. (key, val) \<in> set environment \<Longrightarrow> CHR ''='' \<notin> set key \<and> CHR 0x00 \<notin> set key"
    and "\<And>s. s \<in> set base \<Longrightarrow> CHR 0x00 \<notin> set s" and "CHR ''='' \<notin> set k"
  shows "\<exists>env. form_environment buildID laneNumber environment inheritEnvironment base = Some env \<and>
    distinct (pe_keys env) \<and>
    getenv (snd (getEnvp env)) k =
      (if k = ''BUILRA_BUILD_ID'' then Some (print_decimal (unat buildID))
       else if k = ''BUILRA_LANE_ID'' then Some (print_decimal (unat laneNumber))
       else case map_of environment k of
         Some v \<Rightarrow> Some (c_str v)
       | None \<Rightarrow> if inheritEnvironment then map_of (map split_assignment base) k else None)"
proof -
  let ?b = "env_bindings buildID laneNumber environment inheritEnvironment base"
  have sp: "CHR ''='' \<notin> set (fst (split_assignment s)) \<and> CHR 0x00 \<notin> set (fst (split_assignment s)) \<and>
      CHR 0x00 \<notin> set (snd (split_assignment s))" if "s \<in> set base" for s
    using assms(2) [OF that] set_dropWhileD [of _ "\<lambda>c. c \<noteq> CHR ''=''" s]
    by (auto simp: split_assignment_def dest: set_takeWhileD in_set_tl)
  have plain: "\<forall>kv\<in>set ?b. CHR ''='' \<notin> set (fst kv) \<and> CHR 0x00 \<notin> set (fst kv)"
    using assms(1) sp by (auto simp: env_bindings_def)
  have "getenv (map c_str (map assignment (first_bindings [] ?b))) k = map_option c_str (map_of (first_bindings [] ?b) k)"
    using plain first_bindings_subset [of "[]" ?b] by (intro getenv_assignments assms(3)) blast
  also have "map_of (first_bindings [] ?b) k = map_of ?b k" by (simp add: first_bindings_lookup)
  finally have g: "getenv (map c_str (map assignment (first_bindings [] ?b))) k = map_option c_str (map_of ?b k)" .
  have num: "c_str (print_decimal n) = print_decimal n" for n
    using print_radix_plain [of 10 _ n] by (auto simp: c_str_def print_decimal_def takeWhile_eq_all_conv)
  have inh: "map_option c_str (map_of (map split_assignment base) k) = map_of (map split_assignment base) k"
  proof (cases "map_of (map split_assignment base) k")
    case (Some v)
    then have "(k, v) \<in> split_assignment ` set base" using map_of_SomeD [OF Some] by simp
    then obtain s where "s \<in> set base" "split_assignment s = (k, v)" by force
    then have "CHR 0x00 \<notin> set v" using sp [of s] by simp
    then have "c_str v = v" by (auto simp: c_str_def takeWhile_eq_all_conv)
    then show ?thesis using Some by simp
  qed simp
  show ?thesis
    using g num inh first_bindings_keys [of "[]" ?b]
    by (auto simp: form_environment_first getEnvp_def env_bindings_def map_add_def split: option.splits)
qed

theorem environment_precedence_witness:
  "\<exists>env. form_environment 7 1 [(''CC'', ''clang''), (''BUILRA_LANE_ID'', ''9'')] True [''CC=gcc'', ''HOME=/'', ''X''] = Some env \<and>
    getenv (snd (getEnvp env)) ''CC'' = Some ''clang''"
  using environment_precedence [of "[(''CC'', ''clang''), (''BUILRA_LANE_ID'', ''9'')]" "[''CC=gcc'', ''HOME=/'', ''X'']" "''CC''" 7 1 True]
  by (fastforce simp: c_str_def)

end
