(* ===== verification/Serial_Queue.thy ===== *)
theory Serial_Queue
  imports Process_Environment
begin

text \<open>
  The serial queue (\<^verbatim>\<open>lib/Basic/SerialQueue.cpp\<close>): one thread that runs the operations in
  the order in which they were added, and the execution queue that is built on it.
\<close>

section \<open>The queue and its thread\<close>

text \<open>
  An operation is an identity or, as the signal to shut down, the empty function.  A caller of
  \<^verbatim>\<open>sync\<close> waits until its operation has been executed.
\<close>

datatype WorkerState = WorkerReady | WorkerWaiting | WorkerHolding "nat option" | WorkerExited

record SerialQueueImpl =
  sq_operations :: "nat option list"
  sq_worker :: WorkerState
  sq_executed :: "nat list"

definition new_serial_queue :: SerialQueueImpl where
  "new_serial_queue = \<lparr>sq_operations = [], sq_worker = WorkerReady, sq_executed = []\<rparr>"

definition addOperation :: "nat option \<Rightarrow> SerialQueueImpl \<Rightarrow> SerialQueueImpl" where
  "addOperation fn q =
     q\<lparr>sq_operations := sq_operations q @ [fn],
       sq_worker := (if sq_worker q = WorkerWaiting then WorkerReady else sq_worker q)\<rparr>"

definition worker_wait :: "SerialQueueImpl \<Rightarrow> SerialQueueImpl option" where
  "worker_wait q =
     (if sq_worker q = WorkerReady \<and> sq_operations q = [] then Some (q\<lparr>sq_worker := WorkerWaiting\<rparr>) else None)"

definition worker_wake :: "SerialQueueImpl \<Rightarrow> SerialQueueImpl option" where
  "worker_wake q = (if sq_worker q = WorkerWaiting then Some (q\<lparr>sq_worker := WorkerReady\<rparr>) else None)"

definition worker_take :: "SerialQueueImpl \<Rightarrow> SerialQueueImpl option" where
  "worker_take q =
     (case sq_operations q of
        [] \<Rightarrow> None
      | fn # fns \<Rightarrow>
          if sq_worker q = WorkerReady then Some (q\<lparr>sq_operations := fns, sq_worker := WorkerHolding fn\<rparr>) else None)"

definition worker_execute :: "SerialQueueImpl \<Rightarrow> SerialQueueImpl option" where
  "worker_execute q =
     (case sq_worker q of
        WorkerHolding None \<Rightarrow> Some (q\<lparr>sq_worker := WorkerExited\<rparr>)
      | WorkerHolding (Some op) \<Rightarrow> Some (q\<lparr>sq_worker := WorkerReady, sq_executed := sq_executed q @ [op]\<rparr>)
      | _ \<Rightarrow> None)"

datatype SerialAction =
    SerialAdd nat
  | SerialDestroy
  | WorkerWait
  | WorkerWake
  | WorkerTake
  | WorkerExecute

fun serial_step :: "SerialAction \<Rightarrow> SerialQueueImpl \<Rightarrow> SerialQueueImpl option" where
  "serial_step (SerialAdd op) q = Some (addOperation (Some op) q)"
| "serial_step SerialDestroy q = Some (addOperation None q)"
| "serial_step WorkerWait q = worker_wait q"
| "serial_step WorkerWake q = worker_wake q"
| "serial_step WorkerTake q = worker_take q"
| "serial_step WorkerExecute q = worker_execute q"

fun run_serial :: "SerialAction list \<Rightarrow> SerialQueueImpl \<Rightarrow> SerialQueueImpl option" where
  "run_serial [] q = Some q"
| "run_serial (a # as) q = do { q1 \<leftarrow> serial_step a q; run_serial as q1 }"

text \<open>\<^verbatim>\<open>sync\<close> has returned when its operation has been executed.\<close>

definition sync_complete :: "nat \<Rightarrow> SerialQueueImpl \<Rightarrow> bool" where
  "sync_complete op q \<longleftrightarrow> op \<in> set (sq_executed q)"

section \<open>First in, first out\<close>

fun submitted :: "SerialAction list \<Rightarrow> nat option list" where
  "submitted [] = []"
| "submitted (SerialAdd op # as) = Some op # submitted as"
| "submitted (SerialDestroy # as) = None # submitted as"
| "submitted (_ # as) = submitted as"

text \<open>The queue is destroyed at most once, and nothing is added afterwards.\<close>

fun serial_orderly :: "bool \<Rightarrow> SerialAction list \<Rightarrow> bool" where
  "serial_orderly down [] = True"
| "serial_orderly down (SerialAdd op # as) = (\<not> down \<and> serial_orderly down as)"
| "serial_orderly down (SerialDestroy # as) = (\<not> down \<and> serial_orderly True as)"
| "serial_orderly down (_ # as) = serial_orderly down as"

fun held_operation :: "WorkerState \<Rightarrow> nat option list" where
  "held_operation (WorkerHolding fn) = [fn]"
| "held_operation WorkerExited = [None]"
| "held_operation _ = []"

definition serial_history :: "SerialQueueImpl \<Rightarrow> nat option list" where
  "serial_history q = map Some (sq_executed q) @ held_operation (sq_worker q) @ sq_operations q"

lemma serial_step_history: "serial_step a q = Some q1 \<Longrightarrow> serial_history q1 = serial_history q @ submitted [a]"
  by (cases a)
    (auto simp: serial_history_def addOperation_def worker_wait_def worker_wake_def worker_take_def worker_execute_def
      split: if_splits list.splits WorkerState.splits option.splits)

lemma submitted_Cons: "submitted (a # as) = submitted [a] @ submitted as"
  by (cases a) auto

lemma serial_run_history: "run_serial as q = Some q1 \<Longrightarrow> serial_history q1 = serial_history q @ submitted as"
proof (induction as arbitrary: q)
  case (Cons a as)
  then obtain q2 where "serial_step a q = Some q2" "run_serial as q2 = Some q1" by auto
  then show ?case using Cons.IH serial_step_history submitted_Cons [of a as] by simp
qed simp

text \<open>A waiting worker has nothing to do: no notification is lost.\<close>

lemma serial_waiting:
  "run_serial as q = Some q1 \<Longrightarrow> (sq_worker q = WorkerWaiting \<longrightarrow> sq_operations q = []) \<Longrightarrow>
   sq_worker q1 = WorkerWaiting \<Longrightarrow> sq_operations q1 = []"
proof (induction as arbitrary: q)
  case (Cons a as)
  then obtain q2 where s: "serial_step a q = Some q2" "run_serial as q2 = Some q1" by auto
  have "sq_worker q2 = WorkerWaiting \<longrightarrow> sq_operations q2 = []" using s(1) Cons.prems(2)
    by (cases a) (auto simp: addOperation_def worker_wait_def worker_wake_def worker_take_def worker_execute_def
        split: if_splits list.splits WorkerState.splits option.splits)
  then show ?case using Cons s by blast
qed simp

lemma serial_orderly_down: "serial_orderly True as \<Longrightarrow> submitted as = []"
  by (induction True as rule: serial_orderly.induct) auto

lemma serial_orderly_submitted:
  "serial_orderly False as \<Longrightarrow> \<exists>ops. submitted as = map Some ops \<or> submitted as = map Some ops @ [None]"
proof (induction False as rule: serial_orderly.induct)
  case (2 op as)
  then obtain ops where "submitted as = map Some ops \<or> submitted as = map Some ops @ [None]" by auto
  then show ?case by (intro exI [of _ "op # ops"]) auto
next
  case (3 as)
  then show ?case using serial_orderly_down [of as] by (intro exI [of _ "[]"]) simp
qed auto

fun worker_action :: "SerialAction \<Rightarrow> bool" where
  "worker_action WorkerWait = True"
| "worker_action WorkerTake = True"
| "worker_action WorkerExecute = True"
| "worker_action _ = False"

fun worker_weight :: "WorkerState \<Rightarrow> nat" where
  "worker_weight WorkerReady = 1"
| "worker_weight (WorkerHolding fn) = 2"
| "worker_weight _ = 0"

definition serial_work :: "SerialQueueImpl \<Rightarrow> nat" where
  "serial_work q = 2 * length (sq_operations q) + worker_weight (sq_worker q)"

lemma worker_action_works: "worker_action a \<Longrightarrow> serial_step a q = Some q1 \<Longrightarrow> serial_work q1 < serial_work q"
  by (cases a)
    (auto simp: serial_work_def worker_wait_def worker_take_def worker_execute_def
      split: if_splits list.splits WorkerState.splits option.splits)

lemma worker_run_bounded: "list_all worker_action as \<Longrightarrow> run_serial as q = Some q1 \<Longrightarrow> length as + serial_work q1 \<le> serial_work q"
proof (induction as arbitrary: q)
  case (Cons a as)
  then obtain q2 where "serial_step a q = Some q2" "run_serial as q2 = Some q1" by auto
  then show ?case using Cons worker_action_works [of a q q2] by fastforce
qed simp

lemma worker_run_submits: "list_all worker_action as \<Longrightarrow> submitted as = []"
proof (induction as)
  case (Cons a as)
  then show ?case by (cases a) auto
qed simp

lemma stuck_worker:
  assumes "\<And>a. worker_action a \<Longrightarrow> serial_step a q = None"
  shows "sq_worker q = WorkerWaiting \<or> sq_worker q = WorkerExited"
  using assms [of WorkerWait] assms [of WorkerTake] assms [of WorkerExecute]
  by (cases "sq_worker q")
    (auto simp: worker_wait_def worker_take_def worker_execute_def split: if_splits list.splits option.splits)

lemma run_serial_append: "run_serial (as @ bs) q = do { q1 \<leftarrow> run_serial as q; run_serial bs q1 }"
proof (induction as arbitrary: q)
  case (Cons a as)
  then show ?case by (cases "serial_step a q") auto
qed simp



end
