(* ===== verification/Control_Protocol.thy ===== *)
theory Control_Protocol
  imports Process_Environment
begin

text \<open>
  The channel on which a process may ask to be waited for in the background
  (\<^verbatim>\<open>ControlProtocolState\<close> of \<^verbatim>\<open>lib/Basic/Subprocess.cpp\<close>): a line that names the
  protocol, then a line with the identity of the task.
\<close>

section \<open>The reader\<close>

record ControlProtocolState =
  cps_controlID :: string
  cps_negotiated :: bool
  cps_partialMsg :: string
  cps_releaseSeen :: bool

definition maxLength :: nat where
  "maxLength = 16"

definition protocol_name :: string where
  "protocol_name = ''builra.1''"

definition new_control :: "string \<Rightarrow> ControlProtocolState" where
  "new_control controlID = \<lparr>cps_controlID = controlID, cps_negotiated = False, cps_partialMsg = [], cps_releaseSeen = False\<rparr>"

text \<open>The result is 0 to go on, 1 for completion and -1 for an error with a message.\<close>

datatype ControlResult = ControlContinue | ControlComplete | ControlError string

function control_read :: "string \<Rightarrow> ControlProtocolState \<Rightarrow> ControlResult \<times> ControlProtocolState" where
  "control_read buf st =
     (if buf = [] then (ControlContinue, st)
      else if CHR 0x0A \<notin> set buf then
        if length (cps_partialMsg st) + length buf > maxLength
        then (ControlError ''excessive message length'', st\<lparr>cps_partialMsg := []\<rparr>)
        else (ControlContinue, st\<lparr>cps_partialMsg := cps_partialMsg st @ buf\<rparr>)
      else
        let msg = cps_partialMsg st @ takeWhile (\<lambda>c. c \<noteq> CHR 0x0A) buf;
            rest = tl (dropWhile (\<lambda>c. c \<noteq> CHR 0x0A) buf)
        in if \<not> cps_negotiated st then
             if msg \<noteq> protocol_name
             then (ControlError (''unsupported protocol: '' @ msg), st\<lparr>cps_partialMsg := []\<rparr>)
             else control_read rest (st\<lparr>cps_negotiated := True, cps_partialMsg := []\<rparr>)
           else (ControlComplete, st\<lparr>cps_releaseSeen := cps_releaseSeen st \<or> msg = cps_controlID st, cps_partialMsg := []\<rparr>))"
  by pat_completeness auto

lemma rest_shorter: "CHR 0x0A \<in> set buf \<Longrightarrow> length (tl (dropWhile (\<lambda>c. c \<noteq> CHR 0x0A) buf)) < length buf"
proof (induction buf)
  case (Cons c cs)
  then show ?case by (auto intro: less_SucI)
qed simp

termination control_read
  by (relation "measure (\<lambda>(buf, st). length buf)") (use rest_shorter in auto)

declare control_read.simps [simp del]

definition shouldRelease :: "ControlProtocolState \<Rightarrow> bool" where
  "shouldRelease st = cps_releaseSeen st"

text \<open>The bytes arrive in parts, and the reader is asked until it is done.\<close>

fun control_feed :: "string list \<Rightarrow> ControlProtocolState \<Rightarrow> ControlResult \<times> ControlProtocolState" where
  "control_feed [] st = (ControlContinue, st)"
| "control_feed (buf # bufs) st =
     (case control_read buf st of
        (ControlContinue, st1) \<Rightarrow> control_feed bufs st1
      | r \<Rightarrow> r)"

section \<open>The handshake\<close>

lemma first_line:
  "CHR 0x0A \<notin> set l \<Longrightarrow> takeWhile (\<lambda>c. c \<noteq> CHR 0x0A) (l @ CHR 0x0A # rest) = l"
  "CHR 0x0A \<notin> set l \<Longrightarrow> dropWhile (\<lambda>c. c \<noteq> CHR 0x0A) (l @ CHR 0x0A # rest) = CHR 0x0A # rest"
  by (induction l) auto

lemma control_read_nil: "control_read [] st = (ControlContinue, st)"
  by (simp add: control_read.simps)

lemma control_read_partial:
  "CHR 0x0A \<notin> set buf \<Longrightarrow> buf \<noteq> [] \<Longrightarrow>
   control_read buf st =
     (if length (cps_partialMsg st) + length buf > maxLength
      then (ControlError ''excessive message length'', st\<lparr>cps_partialMsg := []\<rparr>)
      else (ControlContinue, st\<lparr>cps_partialMsg := cps_partialMsg st @ buf\<rparr>))"
  by (subst control_read.simps) simp

lemma control_read_line:
  assumes "CHR 0x0A \<notin> set l"
  shows "control_read (l @ CHR 0x0A # rest) st =
    (let msg = cps_partialMsg st @ l in
     if \<not> cps_negotiated st then
       if msg \<noteq> protocol_name then (ControlError (''unsupported protocol: '' @ msg), st\<lparr>cps_partialMsg := []\<rparr>)
       else control_read rest (st\<lparr>cps_negotiated := True, cps_partialMsg := []\<rparr>)
     else (ControlComplete, st\<lparr>cps_releaseSeen := cps_releaseSeen st \<or> msg = cps_controlID st, cps_partialMsg := []\<rparr>))"
  using assms by (subst control_read.simps) (simp add: Let_def first_line)

text \<open>
  What the reader knows of the stream so far, and when the rest of the stream is the release of the
  task.
\<close>

definition release_stream :: "string \<Rightarrow> string \<Rightarrow> bool" where
  "release_stream controlID s \<longleftrightarrow> (\<exists>rest. s = protocol_name @ CHR 0x0A # controlID @ CHR 0x0A # rest)"

definition release_rest :: "ControlProtocolState \<Rightarrow> string \<Rightarrow> bool" where
  "release_rest st s \<longleftrightarrow>
     (if cps_negotiated st then \<exists>rest. cps_partialMsg st @ s = cps_controlID st @ CHR 0x0A # rest
      else release_stream (cps_controlID st) (cps_partialMsg st @ s))"

definition control_ok :: "ControlProtocolState \<Rightarrow> bool" where
  "control_ok st \<longleftrightarrow> CHR 0x0A \<notin> set (cps_partialMsg st) \<and> CHR 0x0A \<notin> set (cps_controlID st) \<and>
     length (cps_controlID st) \<le> maxLength \<and> \<not> cps_releaseSeen st"

lemma line_split:
  assumes "CHR 0x0A \<notin> set a" "CHR 0x0A \<notin> set b"
  shows "a @ CHR 0x0A # s = b @ CHR 0x0A # t \<longleftrightarrow> a = b \<and> s = t"
proof
  assume e: "a @ CHR 0x0A # s = b @ CHR 0x0A # t"
  have "a = b" using first_line(1) [OF assms(1), of s] first_line(1) [OF assms(2), of t] e by simp
  then show "a = b \<and> s = t" using e by simp
qed simp

lemma long_line:
  assumes "CHR 0x0A \<notin> set a" "length b < length a"
  shows "a @ s \<noteq> b @ CHR 0x0A # t"
proof
  assume "a @ s = b @ CHR 0x0A # t"
  then have "take (length a) (b @ CHR 0x0A # t) = a" by (metis append_eq_conv_conj)
  then show False using assms by (auto simp: take_Cons split: nat.splits)
qed

lemma control_read_release:
  assumes "control_ok st"
  shows "case control_read buf st of
      (ControlContinue, st1) \<Rightarrow> control_ok st1 \<and> cps_controlID st1 = cps_controlID st \<and> (\<forall>s. release_rest st (buf @ s) = release_rest st1 s)
    | (r, st1) \<Rightarrow> (\<forall>s. release_rest st (buf @ s) = cps_releaseSeen st1) \<and> (cps_releaseSeen st1 \<longrightarrow> r = ControlComplete)"
  using assms
proof (induction buf st rule: control_read.induct)
  case (1 buf st)
  consider (nil) "buf = []" | (partial) "buf \<noteq> []" "CHR 0x0A \<notin> set buf" | (line) l rest where "buf = l @ CHR 0x0A # rest" "CHR 0x0A \<notin> set l"
    using split_list_first [of "CHR 0x0A" buf] by blast
  then show ?case
  proof cases
    case nil
    then show ?thesis using 1 by (simp add: control_read_nil)
  next
    case partial
    let ?m = "cps_partialMsg st @ buf"
    have nl: "CHR 0x0A \<notin> set ?m" using 1(2) partial by (simp add: control_ok_def)
    show ?thesis
    proof (cases "length ?m > maxLength")
      case True
      then have "length (cps_controlID st) < length ?m" "length protocol_name < length ?m"
        using 1(2) by (simp_all add: control_ok_def maxLength_def protocol_name_def)
      then have "\<not> release_rest st (buf @ s)" for s
        using long_line [OF nl, of "cps_controlID st" s] long_line [OF nl, of protocol_name s]
        by (auto simp: release_rest_def release_stream_def)
      then show ?thesis using True partial 1(2) by (simp add: control_read_partial control_ok_def)
    next
      case False
      then show ?thesis using partial 1(2) nl by (simp add: control_read_partial control_ok_def release_rest_def)
    qed
  next
    case line
    let ?m = "cps_partialMsg st @ l"
    have nl: "CHR 0x0A \<notin> set ?m" "CHR 0x0A \<notin> set (cps_controlID st)" "CHR 0x0A \<notin> set protocol_name"
      using 1(2) line by (simp_all add: control_ok_def protocol_name_def)
    have ms: "cps_partialMsg st @ buf @ s = ?m @ CHR 0x0A # rest @ s" for s using line by simp
    show ?thesis
    proof (cases "cps_negotiated st")
      case True
      then have "release_rest st (buf @ s) \<longleftrightarrow> ?m = cps_controlID st" for s
        using line_split [OF nl(1,2)] unfolding release_rest_def ms by auto
      then show ?thesis using True line 1(2) by (simp add: control_read_line control_ok_def Let_def)
    next
      case neg: False
      have r: "release_rest st (buf @ s) \<longleftrightarrow> ?m = protocol_name \<and> (\<exists>t. rest @ s = cps_controlID st @ CHR 0x0A # t)" for s
        using neg line_split [OF nl(1,3)] unfolding release_rest_def release_stream_def ms by auto
      show ?thesis
      proof (cases "?m = protocol_name")
        case False
        then show ?thesis using r neg line 1(2) by (simp add: control_read_line control_ok_def Let_def)
      next
        case True
        let ?st = "st\<lparr>cps_negotiated := True, cps_partialMsg := []\<rparr>"
        have t: "takeWhile (\<lambda>c. c \<noteq> CHR 0x0A) buf = l" "tl (dropWhile (\<lambda>c. c \<noteq> CHR 0x0A) buf) = rest" "buf \<noteq> []" "CHR 0x0A \<in> set buf"
          using line by (simp_all add: first_line)
        have "release_rest st (buf @ s) = release_rest ?st (rest @ s)" for s using r True by (simp add: release_rest_def)
        moreover have "control_read buf st = control_read rest ?st" using neg True line by (simp add: control_read_line Let_def)
        moreover have "control_ok ?st" using 1(2) by (simp add: control_ok_def)
        ultimately show ?thesis using 1(1) [OF t(3) _ refl refl] t neg True by (simp add: split_def split: ControlResult.splits)
      qed
    qed
  qed
qed

lemma control_feed_release:
  "control_ok st \<Longrightarrow>
   cps_releaseSeen (snd (control_feed bufs st)) = release_rest st (concat bufs) \<and>
   (cps_releaseSeen (snd (control_feed bufs st)) \<longrightarrow> fst (control_feed bufs st) = ControlComplete)"
proof (induction bufs arbitrary: st)
  case Nil
  then show ?case by (auto simp: control_ok_def release_rest_def release_stream_def dest: arg_cong [of _ _ set])
next
  case (Cons buf bufs)
  obtain r st1 where r: "control_read buf st = (r, st1)" by force
  show ?case using control_read_release [OF Cons.prems, of buf] Cons.IH [of st1] r by (cases r) auto
qed

text \<open>
  C38.  A process is released exactly if what it writes on its channel begins with the line of the
  protocol and the line with its identity, no matter in which parts the bytes arrive; and then the
  reader reports completion, not an error.
\<close>

theorem control_handshake:
  "shouldRelease (snd (control_feed bufs (new_control (utohexstr taskID)))) = release_stream (utohexstr taskID) (concat bufs) \<and>
   (shouldRelease (snd (control_feed bufs (new_control (utohexstr taskID)))) \<longrightarrow>
      fst (control_feed bufs (new_control (utohexstr taskID))) = ControlComplete)"
proof -
  have "control_ok (new_control (utohexstr taskID))"
    using utohexstr_length [of taskID] print_radix_plain [of 16 "CHR 0x0A" "unat taskID"]
    by (auto simp: control_ok_def new_control_def maxLength_def utohexstr_def)
  from control_feed_release [OF this] show ?thesis by (simp add: shouldRelease_def release_rest_def new_control_def)
qed

theorem control_handshake_witness:
  "shouldRelease (snd (control_feed [''bui'', ''lra.1'' @ [CHR 0x0A] @ ''1'', ''f'' @ [CHR 0x0A] @ ''x''] (new_control (utohexstr 0x1F)))) \<and>
   fst (control_feed [''bui'', ''lra.1'' @ [CHR 0x0A] @ ''1'', ''f'' @ [CHR 0x0A] @ ''x''] (new_control (utohexstr 0x1F))) = ControlComplete"
proof -
  have "utohexstr 0x1F = ''1f''" by code_simp
  then have "release_stream (utohexstr 0x1F) (concat [''bui'', ''lra.1'' @ [CHR 0x0A] @ ''1'', ''f'' @ [CHR 0x0A] @ ''x''])"
    by (simp add: release_stream_def protocol_name_def)
  then show ?thesis using control_handshake [of "[''bui'', ''lra.1'' @ [CHR 0x0A] @ ''1'', ''f'' @ [CHR 0x0A] @ ''x'']" "0x1F"] by metis
qed

text \<open>
  The length of a line is only checked while its end has not arrived: the same bytes may be an error or
  not, depending on how they are split.
\<close>

lemma overlong_line_depends_on_parts:
  "fst (control_feed [protocol_name @ [CHR 0x0A] @ replicate 17 (CHR ''x'') @ [CHR 0x0A]] (new_control ''1'')) = ControlComplete"
  "fst (control_feed [protocol_name @ [CHR 0x0A] @ replicate 17 (CHR ''x''), [CHR 0x0A]] (new_control ''1'')) =
     ControlError ''excessive message length''"
  by code_simp+

end
