(* ===== verification/Subprocess.thy ===== *)
theory Subprocess
  imports Control_Protocol Support_Path
begin

text \<open>
  Running a process (\<^verbatim>\<open>lib/Basic/Subprocess.cpp\<close>): the group of running processes, and
  \<^verbatim>\<open>spawnProcess\<close>, which starts a process, hands its output to a delegate, and reports its end.

  What the operating system does is an argument: the results of opening pipes and of spawning, what each
  call of \<^verbatim>\<open>poll\<close> and \<^verbatim>\<open>read\<close> delivers, and the results of
  \<^verbatim>\<open>wait4\<close>, as lists of the answers to successive calls.  When a list is used up, the call
  blocks.  Windows is not modelled.
\<close>

section \<open>Results\<close>

datatype ProcessStatus = StatusUnknown | StatusSucceeded | StatusFailed | StatusCancelled | StatusSkipped

record ProcessResult =
  pr_status :: ProcessStatus
  pr_exitCode :: "32 word"
  pr_pid :: int
  pr_utime :: "64 word"
  pr_stime :: "64 word"
  pr_maxrss :: "64 word"

definition process_result :: "ProcessStatus \<Rightarrow> 32 word \<Rightarrow> ProcessResult" where
  "process_result status exitCode =
     \<lparr>pr_status = status, pr_exitCode = exitCode, pr_pid = -1, pr_utime = 0, pr_stime = 0, pr_maxrss = 0\<rparr>"

definition makeFailed :: "32 word \<Rightarrow> ProcessResult" where
  "makeFailed exitCode = process_result StatusFailed exitCode"

definition makeCancelled :: "32 word \<Rightarrow> ProcessResult" where
  "makeCancelled exitCode = process_result StatusCancelled exitCode"

section \<open>The group of processes\<close>

text \<open>The processes by identity; the flag says whether a process may be interrupted.\<close>

record ProcessGroup =
  pg_processes :: "(int \<times> bool) list"
  pg_closed :: bool

definition pg_close :: "ProcessGroup \<Rightarrow> ProcessGroup" where
  "pg_close g = g\<lparr>pg_closed := True\<rparr>"

definition pg_add :: "int \<Rightarrow> bool \<Rightarrow> ProcessGroup \<Rightarrow> ProcessGroup" where
  "pg_add pid info g = (if pid \<in> fst ` set (pg_processes g) then g else g\<lparr>pg_processes := pg_processes g @ [(pid, info)]\<rparr>)"

definition pg_remove :: "int \<Rightarrow> ProcessGroup \<Rightarrow> ProcessGroup" where
  "pg_remove pid g = g\<lparr>pg_processes := filter (\<lambda>p. fst p \<noteq> pid) (pg_processes g)\<rparr>"

definition SIGINT :: nat where "SIGINT = 2"
definition SIGKILL :: nat where "SIGKILL = 9"

text \<open>
  The calls of \<^verbatim>\<open>kill\<close>, each to the group whose number is that of the process.  Only a process
  that was started with a group of its own is in that group.
\<close>

definition signalAll :: "nat \<Rightarrow> ProcessGroup \<Rightarrow> (int \<times> nat) list" where
  "signalAll signal g =
     map (\<lambda>p. (- fst p, signal)) (filter (\<lambda>p. \<not> (signal = SIGINT \<and> \<not> snd p)) (pg_processes g))"

section \<open>Descriptors\<close>

text \<open>
  A \<^verbatim>\<open>ManagedDescriptor\<close>, which must have been closed when it goes out of scope.
  \<^verbatim>\<open>childMayInherit\<close> calls the system only for a descriptor that is not valid.
\<close>

record ManagedDescriptor =
  md_descriptor :: "int option"
  md_closedProperly :: bool

definition new_descriptor :: ManagedDescriptor where
  "new_descriptor = \<lparr>md_descriptor = None, md_closedProperly = True\<rparr>"

definition md_isValid :: "ManagedDescriptor \<Rightarrow> bool" where
  "md_isValid d \<longleftrightarrow> md_descriptor d \<noteq> None"

text \<open>Closing yields the descriptor that is handed to the system to be closed.\<close>

definition md_close :: "ManagedDescriptor \<Rightarrow> ManagedDescriptor \<times> int list" where
  "md_close d =
     (case md_descriptor d of
        None \<Rightarrow> (d, [])
      | Some fd \<Rightarrow> (\<lparr>md_descriptor = None, md_closedProperly = True\<rparr>, [fd]))"

definition md_reset :: "int \<Rightarrow> ManagedDescriptor \<Rightarrow> ManagedDescriptor \<times> int list" where
  "md_reset fd d = (\<lparr>md_descriptor = Some fd, md_closedProperly = False\<rparr>, snd (md_close d))"

definition md_move :: "ManagedDescriptor \<Rightarrow> ManagedDescriptor \<times> ManagedDescriptor" where
  "md_move other =
     (\<lparr>md_descriptor = md_descriptor other,
       md_closedProperly = (if md_isValid other then False else md_closedProperly other)\<rparr>,
      new_descriptor)"

text \<open>The destructor: \<open>None\<close> is its assertion.\<close>

definition md_destroy :: "ManagedDescriptor \<Rightarrow> (int list) option" where
  "md_destroy d = (if \<not> md_isValid d \<and> md_closedProperly d then Some (snd (md_close d)) else None)"

datatype FdFlagCall = SetCloexec "int option" | ClearCloexec "int option"

definition childMayInherit :: "bool \<Rightarrow> ManagedDescriptor \<Rightarrow> FdFlagCall list" where
  "childMayInherit yes d =
     (if md_isValid d then []
      else if yes then [SetCloexec (md_descriptor d)] else [ClearCloexec (md_descriptor d)])"

section \<open>The system\<close>

record ProcessAttributes =
  pa_canSafelyInterrupt :: bool
  pa_connectToConsole :: bool
  pa_workingDir :: string
  pa_inheritEnvironment :: bool
  pa_controlEnabled :: bool

text \<open>The actions on the files of the child, as far as they are used on Linux.\<close>

datatype FileAction = ActOpenNull int | ActDup2 int int | ActClose int | ActChdir string

text \<open>
  A request to start a process: the program, its arguments and environment, the file actions, whether it
  gets a process group of its own, the signals with default behaviour, and the directory to change to in
  the child when the file actions cannot do it.
\<close>

record SpawnRequest =
  rq_path :: string
  rq_args :: "string list"
  rq_envp :: "string list"
  rq_fileActions :: "FileAction list"
  rq_setpgroup :: bool
  rq_sigdefault :: "nat list"
  rq_forkDirectory :: "string option"

datatype PollResult = PollFailed int | PollReady "(int + string) option" "(int + string) option"

record Rusage =
  ru_utime_sec :: "64 word"
  ru_utime_usec :: "64 word"
  ru_stime_sec :: "64 word"
  ru_stime_usec :: "64 word"
  ru_maxrss :: "64 word"

text \<open>A failed wait leaves what happens to be in the variable for the status.\<close>

datatype WaitResult = WaitFailed int "32 word" | WaitDone "32 word" Rusage

record SpawnOS =
  os_addchdir_supported :: bool
  os_addchdir_ok :: bool
  os_outputPipe :: "int + int \<times> int"
  os_controlPipe :: "int + int \<times> int"
  os_findProgram :: "string \<Rightarrow> string option"
  os_spawn :: "SpawnRequest \<Rightarrow> int + int"
  os_polls :: "PollResult list"
  os_reads :: "(int + string) list"
  os_waits :: "WaitResult list"
  os_strerror :: "int \<Rightarrow> string"

definition EINTR :: int where "EINTR = 4"
definition EAGAIN :: int where "EAGAIN = 11"

section \<open>What the delegate is told\<close>

datatype ProcessEvent =
    ProcessStarted int
  | ProcessHadError string
  | ProcessHadOutput string
  | ProcessFinished ProcessResult
  | LaneReleased
  | ProcessCompleted ProcessResult

text \<open>
  How a call ends: it returns; it blocks in a system call; or it fails an assertion, of
  \<^verbatim>\<open>findProgramByName\<close>, of the environment, or of a descriptor that is still open.
\<close>

datatype SpawnOutcome = SpawnReturned | SpawnBlocked | SpawnAsserted

record SpawnRun =
  sr_outcome :: SpawnOutcome
  sr_events :: "ProcessEvent list"
  sr_group :: ProcessGroup
  sr_opened :: "int list"
  sr_closed :: "int list"

section \<open>After the process has ended\<close>

text \<open>\<^verbatim>\<open>captureExecutedProcessOutput\<close>: reads until the end or an error.\<close>

fun captureExecutedProcessOutput :: "(int \<Rightarrow> string) \<Rightarrow> (int + string) list \<Rightarrow> ProcessEvent list \<times> bool" where
  "captureExecutedProcessOutput strerr [] = ([], False)"
| "captureExecutedProcessOutput strerr (Inl err # rs) =
     ([ProcessHadError (''unable to read process output ('' @ strerr err @ '')'')], True)"
| "captureExecutedProcessOutput strerr (Inr buf # rs) =
     (if buf = [] then ([], True)
      else (let (evs, ended) = captureExecutedProcessOutput strerr rs in (ProcessHadOutput buf # evs, ended)))"

fun wait4_retry :: "WaitResult list \<Rightarrow> WaitResult option" where
  "wait4_retry [] = None"
| "wait4_retry (WaitFailed err v # ws) = (if err = EINTR then wait4_retry ws else Some (WaitFailed err v))"
| "wait4_retry (WaitDone st ru # ws) = Some (WaitDone st ru)"

definition WTERMSIG :: "32 word \<Rightarrow> nat" where
  "WTERMSIG st = unat (and st 0x7F)"

definition WIFSIGNALED :: "32 word \<Rightarrow> bool" where
  "WIFSIGNALED st \<longleftrightarrow> WTERMSIG st \<noteq> 0 \<and> WTERMSIG st \<noteq> 0x7F"

definition exit_status :: "32 word \<Rightarrow> ProcessStatus" where
  "exit_status exitCode =
     (if WIFSIGNALED exitCode \<and> (WTERMSIG exitCode = SIGINT \<or> WTERMSIG exitCode = SIGKILL) then StatusCancelled
      else if exitCode = 0 then StatusSucceeded else StatusFailed)"

text \<open>The events, whether the wait ended, and the group without the process.\<close>

definition cleanUpExecutedProcess ::
  "SpawnOS \<Rightarrow> int \<Rightarrow> ProcessGroup \<Rightarrow> ProcessEvent list \<times> bool \<times> ProcessGroup" where
  "cleanUpExecutedProcess os pid g =
     (case wait4_retry (os_waits os) of
        None \<Rightarrow> ([], False, g)
      | Some (WaitFailed err v) \<Rightarrow>
          ([ProcessHadError (''unable to wait for process ('' @ os_strerror os err @ '')''),
            ProcessFinished (makeFailed v), ProcessCompleted (makeFailed v)], True, pg_remove pid g)
      | Some (WaitDone exitCode usage) \<Rightarrow>
          let result =
            \<lparr>pr_status = exit_status exitCode, pr_exitCode = exitCode, pr_pid = pid,
             pr_utime = ru_utime_sec usage * 1000000 + ru_utime_usec usage,
             pr_stime = ru_stime_sec usage * 1000000 + ru_stime_usec usage,
             pr_maxrss = ru_maxrss usage\<rparr>
          in ([ProcessFinished result, ProcessCompleted result], True, pg_remove pid g))"

section \<open>Starting a process\<close>

datatype CommunicationPipesCreationError = ERROR_NONE | OUTPUT_PIPE_FAILED | CONTROL_PIPE_FAILED

record Pipes =
  pi_outputParent :: ManagedDescriptor
  pi_outputChild :: ManagedDescriptor
  pi_controlParent :: ManagedDescriptor
  pi_controlChild :: ManagedDescriptor
  pi_actions :: "FileAction list"
  pi_opened :: "int list"
  pi_closed :: "int list"

definition no_pipes :: "FileAction list \<Rightarrow> Pipes" where
  "no_pipes actions =
     \<lparr>pi_outputParent = new_descriptor, pi_outputChild = new_descriptor, pi_controlParent = new_descriptor,
      pi_controlChild = new_descriptor, pi_actions = actions, pi_opened = [], pi_closed = []\<rparr>"

definition STDIN :: int where "STDIN = 0"
definition STDOUT :: int where "STDOUT = 1"
definition STDERR :: int where "STDERR = 2"

definition open_output :: "SpawnOS \<Rightarrow> ProcessAttributes \<Rightarrow> Pipes \<Rightarrow> (int, Pipes) sum" where
  "open_output os attr p =
     (if pa_connectToConsole attr then
        Inr (p\<lparr>pi_actions := pi_actions p @ [ActDup2 STDIN STDIN, ActDup2 STDOUT STDOUT, ActDup2 STDERR STDERR]\<rparr>)
      else
        (case os_outputPipe os of
           Inl err \<Rightarrow> Inl err
         | Inr (r, w) \<Rightarrow>
             Inr (p\<lparr>pi_outputParent := fst (md_reset r (pi_outputParent p)), pi_outputChild := fst (md_reset w (pi_outputChild p)),
                    pi_actions := pi_actions p @ [ActOpenNull STDIN, ActDup2 w STDOUT, ActDup2 w STDERR, ActClose w],
                    pi_opened := pi_opened p @ [r, w]\<rparr>)))"

definition createCommunicationPipes ::
  "SpawnOS \<Rightarrow> ProcessAttributes \<Rightarrow> Pipes \<Rightarrow> (CommunicationPipesCreationError \<times> int) \<times> Pipes" where
  "createCommunicationPipes os attr p0 =
     (case open_output os attr p0 of
        Inl err \<Rightarrow> ((OUTPUT_PIPE_FAILED, err), p0)
      | Inr p \<Rightarrow>
          if pa_controlEnabled attr then
            (case os_controlPipe os of
               Inl err \<Rightarrow>
                 let (op, c1) = md_close (pi_outputParent p); (oc, c2) = md_close (pi_outputChild p)
                 in ((CONTROL_PIPE_FAILED, err), p\<lparr>pi_outputParent := op, pi_outputChild := oc, pi_closed := pi_closed p @ c1 @ c2\<rparr>)
             | Inr (r, w) \<Rightarrow>
                 ((ERROR_NONE, 0),
                  p\<lparr>pi_controlParent := fst (md_reset r (pi_controlParent p)), pi_controlChild := fst (md_reset w (pi_controlChild p)),
                    pi_actions := pi_actions p @ [ActDup2 w w], pi_opened := pi_opened p @ [r, w]\<rparr>))
          else ((ERROR_NONE, 0), p))"

text \<open>The program that is run, looked up unless the path is absolute; no name is an assertion failure.\<close>

definition resolve_program :: "SpawnOS \<Rightarrow> string \<Rightarrow> string option" where
  "resolve_program os arg =
     (if is_absolute arg then Some arg
      else if arg = [] then None
      else case os_findProgram os arg of Some path \<Rightarrow> Some path | None \<Rightarrow> Some arg)"

definition default_signals :: "nat list" where
  "default_signals = filter (\<lambda>i. i \<noteq> SIGKILL \<and> i \<noteq> 19) [1..<31]"

definition spawn_request ::
  "SpawnOS \<Rightarrow> ProcessAttributes \<Rightarrow> string \<Rightarrow> string list \<Rightarrow> string list \<Rightarrow> FileAction list \<Rightarrow> SpawnRequest" where
  "spawn_request os attr program args envp actions =
     \<lparr>rq_path = c_str program, rq_args = map c_str (program # args), rq_envp = envp, rq_fileActions = actions,
      rq_setpgroup = (\<not> pa_connectToConsole attr), rq_sigdefault = default_signals,
      rq_forkDirectory = (if pa_workingDir attr \<noteq> [] \<and> \<not> os_addchdir_supported os then Some (pa_workingDir attr) else None)\<rparr>"

text \<open>A process that could not be started: the delegate sees it start, fail and finish.\<close>

definition failed_start :: "string \<Rightarrow> ProcessEvent list" where
  "failed_start msg =
     [ProcessStarted (-1), ProcessHadError msg, ProcessFinished (makeFailed (-1)), ProcessCompleted (makeFailed (-1))]"

section \<open>The loop over the pipes\<close>

text \<open>One descriptor of the two that are polled: a read that yields nothing or an error switches it off.\<close>

definition read_output :: "(int \<Rightarrow> string) \<Rightarrow> (int + string) option \<Rightarrow> bool \<Rightarrow> bool \<times> ProcessEvent list" where
  "read_output strerr r active =
     (case r of
        None \<Rightarrow> (active, [])
      | Some (Inl err) \<Rightarrow> (False, [ProcessHadError (''unable to read process output ('' @ strerr err @ '')'')])
      | Some (Inr buf) \<Rightarrow> if buf = [] then (False, []) else (active, [ProcessHadOutput buf]))"

definition read_control ::
  "(int \<Rightarrow> string) \<Rightarrow> (int + string) option \<Rightarrow> bool \<Rightarrow> ControlProtocolState \<Rightarrow> bool \<times> ControlProtocolState \<times> ProcessEvent list" where
  "read_control strerr r active ctl =
     (case r of
        None \<Rightarrow> (active, ctl, [])
      | Some (Inl err) \<Rightarrow> (False, ctl, [ProcessHadError (''unable to read process output ('' @ strerr err @ '')'')])
      | Some (Inr buf) \<Rightarrow>
          if buf = [] then (False, ctl, [])
          else
            (case control_read buf ctl of
               (ControlContinue, ctl1) \<Rightarrow> (active, ctl1, [])
             | (ControlComplete, ctl1) \<Rightarrow> (False, ctl1, [])
             | (ControlError msg, ctl1) \<Rightarrow> (False, ctl1, [ProcessHadError (''control protocol error'' @ msg)])))"

datatype PollEnd = PollDrained | PollReleased | PollBroken | PollBlocked

fun poll_loop ::
  "SpawnOS \<Rightarrow> bool \<Rightarrow> bool \<Rightarrow> PollResult list \<Rightarrow> bool \<Rightarrow> bool \<Rightarrow> ControlProtocolState \<Rightarrow> PollEnd \<times> ProcessEvent list" where
  "poll_loop os outFd ctlFd [] out ctl st = (if out \<or> ctl then (PollBlocked, []) else (PollDrained, []))"
| "poll_loop os outFd ctlFd (r # rs) out ctl st =
     (if \<not> out \<and> \<not> ctl then (PollDrained, [])
      else
        (case r of
           PollFailed err \<Rightarrow>
             if err = EAGAIN \<or> err = EINTR then poll_loop os outFd ctlFd rs out ctl st
             else (PollBroken, [ProcessHadError (''failed to poll ('' @ os_strerror os err @ '')'')])
         | PollReady r0 r1 \<Rightarrow>
             let (out1, ev0) = read_output (os_strerror os) (if outFd then r0 else None) out;
                 (ctl1, st1, ev1) = read_control (os_strerror os) (if ctlFd then r1 else None) ctl st
             in if shouldRelease st1 then (PollReleased, ev0 @ ev1)
                else (let (e, evs) = poll_loop os outFd ctlFd rs out1 ctl1 st1 in (e, ev0 @ ev1 @ evs))))"

section \<open>\<^verbatim>\<open>spawnProcess\<close>\<close>

text \<open>
  The parent's part once the process runs: it drains the pipes, and waits for the end, itself or, if the
  lane was released, in the function that it hands to \<^verbatim>\<open>releaseFn\<close>.  When
  \<^verbatim>\<open>poll\<close> fails the call returns with the descriptors open.
\<close>

definition parent_part :: "SpawnOS \<Rightarrow> ProcessAttributes \<Rightarrow> ProcessGroup \<Rightarrow> int \<Rightarrow> string \<Rightarrow> Pipes \<Rightarrow> SpawnRun" where
  "parent_part os attr g pid taskID p =
     (let outFd = md_isValid (pi_outputParent p);
          ctlFd = md_isValid (pi_controlParent p);
          closeOut = snd (md_close (pi_outputParent p));
          closeCtl = snd (md_close (pi_controlParent p))
      in case poll_loop os outFd ctlFd (os_polls os) (\<not> pa_connectToConsole attr) (pa_controlEnabled attr) (new_control taskID) of
           (PollBlocked, evs) \<Rightarrow>
             \<lparr>sr_outcome = SpawnBlocked, sr_events = evs, sr_group = g, sr_opened = pi_opened p, sr_closed = pi_closed p\<rparr>
         | (PollBroken, evs) \<Rightarrow>
             \<lparr>sr_outcome = (if md_destroy (pi_outputParent p) = None \<or> md_destroy (pi_controlParent p) = None then SpawnAsserted else SpawnReturned),
              sr_events = evs, sr_group = g, sr_opened = pi_opened p, sr_closed = pi_closed p\<rparr>
         | (PollReleased, evs) \<Rightarrow>
             let (evs1, ended) = (if outFd then captureExecutedProcessOutput (os_strerror os) (os_reads os) else ([], True));
                 (evs2, waited, g1) = cleanUpExecutedProcess os pid g
             in if \<not> ended then
                  \<lparr>sr_outcome = SpawnBlocked, sr_events = evs @ LaneReleased # evs1, sr_group = g, sr_opened = pi_opened p,
                   sr_closed = pi_closed p\<rparr>
                else if \<not> waited then
                  \<lparr>sr_outcome = SpawnBlocked, sr_events = evs @ LaneReleased # evs1, sr_group = g, sr_opened = pi_opened p,
                   sr_closed = pi_closed p @ closeOut\<rparr>
                else
                  \<lparr>sr_outcome = SpawnReturned, sr_events = evs @ LaneReleased # evs1 @ evs2, sr_group = g1, sr_opened = pi_opened p,
                   sr_closed = pi_closed p @ closeOut @ closeCtl\<rparr>
         | (PollDrained, evs) \<Rightarrow>
             let (evs2, waited, g1) = cleanUpExecutedProcess os pid g
             in if \<not> waited then
                  \<lparr>sr_outcome = SpawnBlocked, sr_events = evs, sr_group = g, sr_opened = pi_opened p, sr_closed = pi_closed p @ closeOut\<rparr>
                else
                  \<lparr>sr_outcome = SpawnReturned, sr_events = evs @ evs2, sr_group = g1, sr_opened = pi_opened p,
                   sr_closed = pi_closed p @ closeOut @ closeCtl\<rparr>)"

definition run_events :: "ProcessEvent list \<Rightarrow> SpawnRun \<Rightarrow> SpawnRun" where
  "run_events evs r = r\<lparr>sr_events := evs @ sr_events r\<rparr>"

definition no_process :: "SpawnOutcome \<Rightarrow> ProcessEvent list \<Rightarrow> ProcessGroup \<Rightarrow> SpawnRun" where
  "no_process outcome evs g =
     \<lparr>sr_outcome = outcome, sr_events = evs, sr_group = g, sr_opened = [], sr_closed = []\<rparr>"

definition no_pipe :: "SpawnOutcome \<Rightarrow> ProcessEvent list \<Rightarrow> ProcessGroup \<Rightarrow> Pipes \<Rightarrow> SpawnRun" where
  "no_pipe outcome evs g p =
     \<lparr>sr_outcome = outcome, sr_events = evs, sr_group = g, sr_opened = pi_opened p, sr_closed = pi_closed p\<rparr>"

text \<open>The part under the lock of the group.\<close>

definition start_process ::
  "SpawnOS \<Rightarrow> ProcessGroup \<Rightarrow> string \<Rightarrow> string list \<Rightarrow> POSIXEnvironment \<Rightarrow> ProcessAttributes \<Rightarrow> string \<Rightarrow> SpawnRun" where
  "start_process os g program args env attr taskID =
     (if pg_closed g then no_process SpawnReturned [ProcessCompleted (makeCancelled (-1))] g
      else
        let chdir = (if pa_workingDir attr \<noteq> [] \<and> os_addchdir_supported os then [ActChdir (pa_workingDir attr)] else []);
            ((err, code), p) = createCommunicationPipes os attr (no_pipes chdir)
        in if err \<noteq> ERROR_NONE then
             no_pipe SpawnReturned
               (failed_start (''unable to open '' @ (if err = OUTPUT_PIPE_FAILED then ''output pipe'' else ''control pipe'') @
                              '' ('' @ os_strerror os code @ '')'')) g p
           else
             (case (case md_descriptor (pi_controlChild p) of
                      Some fd \<Rightarrow> setIfMissing ''BUILRA_CONTROL_FD'' (print_decimal (nat fd)) env
                    | None \<Rightarrow> Some env) of
                None \<Rightarrow> no_pipe SpawnAsserted [] g p
              | Some env1 \<Rightarrow>
                  let closeChild = snd (md_close (pi_controlChild p)) @ snd (md_close (pi_outputChild p));
                      p1 = p\<lparr>pi_closed := pi_closed p @ closeChild\<rparr>
                  in (case os_spawn os (spawn_request os attr program args (snd (getEnvp env1)) (pi_actions p)) of
                       Inl errno \<Rightarrow>
                         \<lparr>sr_outcome = SpawnReturned,
                          sr_events =
                            [ProcessStarted (-1),
                             ProcessHadError (''unable to spawn process '' @ [CHR 0x27] @ program @ [CHR 0x27] @ '' ('' @ os_strerror os errno @ '')''),
                             ProcessFinished (makeFailed (-1)), ProcessCompleted (makeFailed (-1))],
                          sr_group = g, sr_opened = pi_opened p1,
                          sr_closed = pi_closed p1 @ snd (md_close (pi_outputParent p)) @ snd (md_close (pi_controlParent p))\<rparr>
                     | Inr pid \<Rightarrow>
                         run_events [ProcessStarted pid]
                           (parent_part os attr (pg_add pid (pa_canSafelyInterrupt attr) g) pid taskID p1))))"

definition spawnProcess ::
  "SpawnOS \<Rightarrow> ProcessGroup \<Rightarrow> 64 word \<Rightarrow> string list \<Rightarrow> POSIXEnvironment \<Rightarrow> ProcessAttributes \<Rightarrow> SpawnRun" where
  "spawnProcess os g handle commandLine environment attr0 =
     (let attr = attr0\<lparr>pa_controlEnabled := pa_controlEnabled attr0 \<and> \<not> pa_connectToConsole attr0\<rparr>;
          taskID = utohexstr handle
      in case commandLine of
           [] \<Rightarrow> no_process SpawnReturned (failed_start ''no arguments for command'') g
         | arg # args \<Rightarrow>
             if pa_workingDir attr \<noteq> [] \<and> os_addchdir_supported os \<and> \<not> os_addchdir_ok os
             then no_process SpawnReturned (failed_start ''failed to set the working directory'') g
             else
               (case setIfMissing ''BUILRA_TASK_ID'' taskID environment of
                  None \<Rightarrow> no_process SpawnAsserted [] g
                | Some env \<Rightarrow>
                    (case resolve_program os arg of
                       None \<Rightarrow> no_process SpawnAsserted [] g
                     | Some program \<Rightarrow> start_process os g program args env attr taskID)))"

end
