(* ===== verification/Subprocess_Properties.thy ===== *)
theory Subprocess_Properties
  imports Subprocess "HOL-Library.Multiset"
begin

text \<open>What a delegate may rely on when a process is run.\<close>

section \<open>The protocol of the delegate\<close>

fun process_report :: "ProcessEvent \<Rightarrow> bool" where
  "process_report (ProcessHadError msg) = True"
| "process_report (ProcessHadOutput data) = True"
| "process_report LaneReleased = True"
| "process_report _ = False"

definition complete_run :: "ProcessEvent list \<Rightarrow> bool" where
  "complete_run evs \<longleftrightarrow>
     (\<exists>r. evs = [ProcessCompleted r] \<and> pr_status r = StatusCancelled) \<or>
     (\<exists>pid mid r. evs = ProcessStarted pid # mid @ [ProcessFinished r, ProcessCompleted r] \<and> list_all process_report mid)"

lemma read_output_reports: "list_all process_report (snd (read_output strerr r active))"
  by (auto simp: read_output_def split: option.splits sum.splits)

lemma read_control_reports: "list_all process_report (snd (snd (read_control strerr r active st)))"
  by (auto simp: read_control_def split: option.splits sum.splits prod.splits ControlResult.splits)

lemma poll_loop_reports: "list_all process_report (snd (poll_loop os outFd ctlFd rs out ctl st))"
proof (induction os outFd ctlFd rs out ctl st rule: poll_loop.induct)
  case (2 os outFd ctlFd r rs out ctl st)
  show ?case
  proof (cases r)
    case (PollFailed err)
    then show ?thesis using 2(1) [OF _ PollFailed] by auto
  next
    case (PollReady r0 r1)
    obtain out1 ev0 where o: "read_output (os_strerror os) (if outFd then r0 else None) out = (out1, ev0)" by force
    obtain ctl1 st1 ev1 where c: "read_control (os_strerror os) (if ctlFd then r1 else None) ctl st = (ctl1, st1, ev1)"
      by (metis prod_cases3)
    have "list_all process_report ev0" "list_all process_report ev1"
      using read_output_reports [of "os_strerror os" "if outFd then r0 else None" out] o
        read_control_reports [of "os_strerror os" "if ctlFd then r1 else None" ctl st] c by simp_all
    then show ?thesis using 2(2) [OF _ PollReady o [symmetric] refl c [symmetric] refl] PollReady o c
      by (auto simp: split_def Let_def)
  qed
qed simp

lemma poll_loop_active: "fst (poll_loop os outFd ctlFd rs out ctl st) = PollBroken \<Longrightarrow> out \<or> ctl"
  by (cases rs; cases "out \<or> ctl") simp_all

lemma capture_reports: "list_all process_report (fst (captureExecutedProcessOutput strerr rs))"
  by (induction strerr rs rule: captureExecutedProcessOutput.induct) (auto simp: split_def Let_def)

lemma cleanUp_cases:
  assumes "cleanUpExecutedProcess os pid g = (evs, waited, g1)"
  obtains (blocked) "\<not> waited" "evs = []" "g1 = g"
  | (ended) mid r where "waited" "evs = mid @ [ProcessFinished r, ProcessCompleted r]" "list_all process_report mid" "g1 = pg_remove pid g"
proof (cases "wait4_retry (os_waits os)")
  case None
  then show thesis using assms blocked by (simp add: cleanUpExecutedProcess_def)
next
  case (Some w)
  show thesis
  proof (cases w)
    case (WaitFailed err v)
    then show thesis using assms Some
      by (intro ended [of "[ProcessHadError (''unable to wait for process ('' @ os_strerror os err @ '')'')]" "makeFailed v"])
        (auto simp: cleanUpExecutedProcess_def)
  next
    case (WaitDone st ru)
    then show thesis using assms Some ended [of "[]"] by (auto simp: cleanUpExecutedProcess_def Let_def)
  qed
qed

lemma remove_added: "pid \<notin> fst ` set (pg_processes g) \<Longrightarrow> pg_remove pid (pg_add pid info g) = g"
  by (auto simp: pg_remove_def pg_add_def filter_id_conv intro!: ProcessGroup.equality filter_True)

definition descriptors_of :: "Pipes \<Rightarrow> int multiset" where
  "descriptors_of p = mset (snd (md_close (pi_outputParent p)) @ snd (md_close (pi_controlParent p)))"

lemma parent_part_complete:
  assumes "sr_outcome (parent_part os attr g pid taskID p) = SpawnReturned"
    and "\<not> pa_connectToConsole attr \<longrightarrow> md_isValid (pi_outputParent p)" "pa_controlEnabled attr \<longrightarrow> md_isValid (pi_controlParent p)"
  shows "\<exists>mid r. sr_events (parent_part os attr g pid taskID p) = mid @ [ProcessFinished r, ProcessCompleted r] \<and> list_all process_report mid"
    and "sr_group (parent_part os attr g pid taskID p) = pg_remove pid g"
    and "sr_opened (parent_part os attr g pid taskID p) = pi_opened p"
    and "mset (sr_closed (parent_part os attr g pid taskID p)) = mset (pi_closed p) + descriptors_of p"
proof -
  let ?out = "md_isValid (pi_outputParent p)" and ?ctl = "md_isValid (pi_controlParent p)"
  obtain e evs where l: "poll_loop os ?out ?ctl (os_polls os) (\<not> pa_connectToConsole attr) (pa_controlEnabled attr) (new_control taskID) = (e, evs)"
    by force
  have evs: "list_all process_report evs"
    using poll_loop_reports [of os ?out ?ctl "os_polls os" "\<not> pa_connectToConsole attr" "pa_controlEnabled attr" "new_control taskID"] l by simp
  obtain evs1 ended where c: "(if ?out then captureExecutedProcessOutput (os_strerror os) (os_reads os) else ([], True)) = (evs1, ended)" by force
  have evs1: "list_all process_report evs1"
    using capture_reports [of "os_strerror os" "os_reads os"] c by (auto split: if_splits)
  obtain evs2 waited g1 where w: "cleanUpExecutedProcess os pid g = (evs2, waited, g1)" by (metis prod_cases3)
  note run = l c w
  have "\<exists>mid r. sr_events (parent_part os attr g pid taskID p) = mid @ [ProcessFinished r, ProcessCompleted r] \<and> list_all process_report mid \<and>
      sr_group (parent_part os attr g pid taskID p) = pg_remove pid g \<and> sr_opened (parent_part os attr g pid taskID p) = pi_opened p \<and>
      mset (sr_closed (parent_part os attr g pid taskID p)) = mset (pi_closed p) + descriptors_of p"
  proof (cases e)
    case PollBlocked
    then show ?thesis using assms(1) l by (simp add: parent_part_def Let_def)
  next
    case PollBroken
    then have "\<not> pa_connectToConsole attr \<or> pa_controlEnabled attr" using poll_loop_active [of os ?out ?ctl "os_polls os"] l by (metis fst_conv)
    then show ?thesis using assms PollBroken l by (auto simp: parent_part_def Let_def md_destroy_def split: if_splits)
  next
    case PollDrained
    from w show ?thesis
    proof (cases rule: cleanUp_cases)
      case blocked
      then show ?thesis using assms(1) PollDrained l w by (simp add: parent_part_def Let_def)
    next
      case (ended mid r)
      then show ?thesis using PollDrained l w evs
        by (intro exI [of _ "evs @ mid"] exI [of _ r]) (simp add: parent_part_def Let_def descriptors_of_def)
    qed
  next
    case PollReleased
    from w show ?thesis
    proof (cases rule: cleanUp_cases)
      case blocked
      then show ?thesis using assms(1) PollReleased run by (simp add: parent_part_def Let_def split: if_splits)
    next
      case fin: (ended mid r)
      then have ended using assms(1) PollReleased run by (simp add: parent_part_def Let_def split: if_splits)
      then show ?thesis using PollReleased run fin evs evs1
        by (intro exI [of _ "evs @ LaneReleased # evs1 @ mid"] exI [of _ r]) (simp add: parent_part_def Let_def descriptors_of_def)
    qed
  qed
  then show "\<exists>mid r. sr_events (parent_part os attr g pid taskID p) = mid @ [ProcessFinished r, ProcessCompleted r] \<and> list_all process_report mid"
    "sr_group (parent_part os attr g pid taskID p) = pg_remove pid g" "sr_opened (parent_part os attr g pid taskID p) = pi_opened p"
    "mset (sr_closed (parent_part os attr g pid taskID p)) = mset (pi_closed p) + descriptors_of p" by blast+
qed


lemma createPipes_ok:
  assumes "createCommunicationPipes os attr (no_pipes actions) = ((err, code), p)"
  shows "(err = ERROR_NONE \<longrightarrow>
      (\<not> pa_connectToConsole attr \<longrightarrow> md_isValid (pi_outputParent p)) \<and> (pa_controlEnabled attr \<longrightarrow> md_isValid (pi_controlParent p)) \<and>
      mset (pi_opened p) = mset (pi_closed p) + mset (snd (md_close (pi_controlChild p)) @ snd (md_close (pi_outputChild p))) + descriptors_of p) \<and>
    (err \<noteq> ERROR_NONE \<longrightarrow> mset (pi_opened p) = mset (pi_closed p))"
  using assms
  by (auto simp: createCommunicationPipes_def open_output_def no_pipes_def new_descriptor_def md_reset_def md_close_def md_isValid_def
      descriptors_of_def split: sum.splits if_splits prod.splits)

lemma failed_start_complete: "complete_run (failed_start msg)"
  unfolding complete_run_def failed_start_def
  by (intro disjI2 exI [of _ "- 1"] exI [of _ "[ProcessHadError msg]"] exI [of _ "makeFailed (- 1)"]) simp

lemma start_process_complete:
  assumes "sr_outcome (start_process os g program args env attr taskID) = SpawnReturned"
  shows "complete_run (sr_events (start_process os g program args env attr taskID)) \<and>
    mset (sr_opened (start_process os g program args env attr taskID)) = mset (sr_closed (start_process os g program args env attr taskID)) \<and>
    ((\<forall>rq pid. os_spawn os rq = Inr pid \<longrightarrow> pid \<notin> fst ` set (pg_processes g)) \<longrightarrow>
       sr_group (start_process os g program args env attr taskID) = g)"
proof (cases "pg_closed g")
  case True
  then show ?thesis by (simp add: start_process_def no_process_def complete_run_def makeCancelled_def process_result_def)
next
  case open_group: False
  let ?chdir = "if pa_workingDir attr \<noteq> [] \<and> os_addchdir_supported os then [ActChdir (pa_workingDir attr)] else []"
  obtain err code p where cp: "createCommunicationPipes os attr (no_pipes ?chdir) = ((err, code), p)" by (metis prod.collapse)
  note ok = createPipes_ok [OF cp]
  let ?env = "case md_descriptor (pi_controlChild p) of Some fd \<Rightarrow> setIfMissing ''BUILRA_CONTROL_FD'' (print_decimal (nat fd)) env | None \<Rightarrow> Some env"
  show ?thesis
  proof (cases "err = ERROR_NONE")
    case False
    then show ?thesis using open_group cp ok failed_start_complete by (simp add: start_process_def no_pipe_def Let_def)
  next
    case True
    then obtain env1 where env: "?env = Some env1"
      using assms open_group cp by (cases ?env) (auto simp: start_process_def no_pipe_def Let_def)
    let ?rq = "spawn_request os attr program args (snd (getEnvp env1)) (pi_actions p)"
    let ?close = "snd (md_close (pi_controlChild p)) @ snd (md_close (pi_outputChild p))"
    let ?p = "p\<lparr>pi_closed := pi_closed p @ ?close\<rparr>"
    show ?thesis
    proof (cases "os_spawn os ?rq")
      case (Inl e)
      let ?msg = "''unable to spawn process '' @ [CHR 0x27] @ program @ [CHR 0x27] @ '' ('' @ os_strerror os e @ '')''"
      have "complete_run [ProcessStarted (-1), ProcessHadError ?msg, ProcessFinished (makeFailed (-1)), ProcessCompleted (makeFailed (-1))]"
        using failed_start_complete [of ?msg] by (simp add: failed_start_def)
      then show ?thesis using Inl True open_group cp env ok by (simp add: start_process_def Let_def descriptors_of_def)
    next
      case (Inr pid)
      let ?g = "pg_add pid (pa_canSafelyInterrupt attr) g"
      have run: "start_process os g program args env attr taskID = run_events [ProcessStarted pid] (parent_part os attr ?g pid taskID ?p)"
        using Inr True open_group cp env by (simp add: start_process_def Let_def)
      then have r: "sr_outcome (parent_part os attr ?g pid taskID ?p) = SpawnReturned" using assms by (simp add: run_events_def)
      have v: "\<not> pa_connectToConsole attr \<longrightarrow> md_isValid (pi_outputParent ?p)" "pa_controlEnabled attr \<longrightarrow> md_isValid (pi_controlParent ?p)"
        using ok True by simp_all
      note part = parent_part_complete [OF r v]
      have "complete_run (sr_events (start_process os g program args env attr taskID))"
        using part(1) unfolding run complete_run_def by (auto simp: run_events_def)
      moreover have "descriptors_of ?p = descriptors_of p" by (simp add: descriptors_of_def)
      then have "mset (sr_opened (start_process os g program args env attr taskID)) = mset (sr_closed (start_process os g program args env attr taskID))"
        using part(3,4) ok True unfolding run by (simp add: run_events_def)
      ultimately show ?thesis using part(2) remove_added [of pid g] Inr unfolding run by (auto simp: run_events_def)
    qed
  qed
qed

text \<open>
  C39.  A call of \<^verbatim>\<open>spawnProcess\<close> that returns tells the delegate of the start of a process
  and of its end exactly once, in this order, with only reports of output and errors in between, and then
  calls the completion function once, with the same result; if the queue was cancelled before, nothing is
  reported but the completion, as cancelled.  All descriptors that it opened are closed again, and the
  process is no longer in the group.
\<close>

theorem spawn_delegate_protocol:
  assumes "sr_outcome (spawnProcess os g handle commandLine environment attr) = SpawnReturned"
  shows "complete_run (sr_events (spawnProcess os g handle commandLine environment attr)) \<and>
    mset (sr_opened (spawnProcess os g handle commandLine environment attr)) = mset (sr_closed (spawnProcess os g handle commandLine environment attr)) \<and>
    ((\<forall>rq pid. os_spawn os rq = Inr pid \<longrightarrow> pid \<notin> fst ` set (pg_processes g)) \<longrightarrow>
       sr_group (spawnProcess os g handle commandLine environment attr) = g)"
  using assms failed_start_complete start_process_complete [of os g]
  by (auto simp: spawnProcess_def no_process_def Let_def split: list.splits option.splits if_splits)

text \<open>A system on which a program prints something and asks for its lane to be released.\<close>

definition sample_os :: "PollResult list \<Rightarrow> SpawnOS" where
  "sample_os polls =
     \<lparr>os_addchdir_supported = True, os_addchdir_ok = True, os_outputPipe = Inr (5, 6), os_controlPipe = Inr (7, 8),
      os_findProgram = (\<lambda>p. None), os_spawn = (\<lambda>rq. Inr 42), os_polls = polls, os_reads = [Inr ''bye'', Inr []],
      os_waits = [WaitFailed 4 0, WaitDone 0 \<lparr>ru_utime_sec = 1, ru_utime_usec = 2, ru_stime_sec = 0, ru_stime_usec = 0, ru_maxrss = 9\<rparr>],
      os_strerror = (\<lambda>e. ''?'')\<rparr>"

definition sample_attr :: ProcessAttributes where
  "sample_attr = \<lparr>pa_canSafelyInterrupt = True, pa_connectToConsole = False, pa_workingDir = [], pa_inheritEnvironment = True, pa_controlEnabled = True\<rparr>"

definition sample_run :: "PollResult list \<Rightarrow> SpawnRun" where
  "sample_run polls = spawnProcess (sample_os polls) \<lparr>pg_processes = [], pg_closed = False\<rparr> 0x1F [''/bin/ls''] new_environment sample_attr"

theorem spawn_delegate_protocol_witness:
  "\<exists>evs. sr_events (sample_run [PollReady (Some (Inr ''hi'')) (Some (Inr (''builra.1'' @ [CHR 0x0A]))), PollReady None (Some (Inr (''1f'' @ [CHR 0x0A])))]) =
     [ProcessStarted 42, ProcessHadOutput ''hi'', LaneReleased, ProcessHadOutput ''bye''] @ evs \<and> length evs = 2 \<and>
     complete_run ([ProcessStarted 42, ProcessHadOutput ''hi'', LaneReleased, ProcessHadOutput ''bye''] @ evs)"
proof -
  let ?polls = "[PollReady (Some (Inr ''hi'')) (Some (Inr (''builra.1'' @ [CHR 0x0A]))), PollReady None (Some (Inr (''1f'' @ [CHR 0x0A])))]"
  have "sr_outcome (sample_run ?polls) = SpawnReturned" by code_simp
  from spawn_delegate_protocol [OF this [unfolded sample_run_def]] have c: "complete_run (sr_events (sample_run ?polls))"
    unfolding sample_run_def by blast
  have "take 4 (sr_events (sample_run ?polls)) = [ProcessStarted 42, ProcessHadOutput ''hi'', LaneReleased, ProcessHadOutput ''bye'']"
    "length (drop 4 (sr_events (sample_run ?polls))) = 2" by code_simp+
  then show ?thesis using c by (metis append_take_drop_id)
qed

text \<open>
  When \<^verbatim>\<open>poll\<close> fails, the protocol is broken: the delegate never hears of the end of the
  process, the completion function is not called, the process stays in the group, whose destruction
  waits for it to be removed, and the descriptors are left open, which their destructors assert not to be.
\<close>

lemma poll_failure_unpaired:
  "sr_events (sample_run [PollFailed 12]) = [ProcessStarted 42, ProcessHadError ''failed to poll (?)''] \<and>
   sr_outcome (sample_run [PollFailed 12]) = SpawnAsserted \<and>
   pg_processes (sr_group (sample_run [PollFailed 12])) = [(42, True)] \<and>
   sr_opened (sample_run [PollFailed 12]) = [5, 6, 7, 8] \<and> sr_closed (sample_run [PollFailed 12]) = [8, 6]"
  by code_simp

text \<open>
  \<^verbatim>\<open>childMayInherit\<close> does nothing for a descriptor that is open; it would touch the flag only of
  one that is not, and then the wrong way round.
\<close>

lemma childMayInherit_open: "md_isValid d \<Longrightarrow> childMayInherit yes d = []"
  by (simp add: childMayInherit_def)

section \<open>Cancellation\<close>

definition no_child :: "ProcessEvent list \<Rightarrow> bool" where
  "no_child evs \<longleftrightarrow> (\<forall>pid. ProcessStarted pid \<in> set evs \<longrightarrow> pid = -1)"

text \<open>
  Once the group is closed no process is started: a call that passed all earlier checks completes
  as cancelled, and any other reports a process that failed to start.  Signalling the group reaches each
  process in it once, with the exception that only the processes that are marked as safe to interrupt
  are interrupted.
\<close>

theorem closed_group_starts_nothing:
  assumes "pg_closed g"
  shows "no_child (sr_events (spawnProcess os g handle commandLine environment attr)) \<and>
    sr_group (spawnProcess os g handle commandLine environment attr) = g \<and>
    sr_opened (spawnProcess os g handle commandLine environment attr) = [] \<and>
    sr_outcome (spawnProcess os g handle commandLine environment attr) \<noteq> SpawnBlocked \<and>
    signalAll SIGKILL g = map (\<lambda>p. (- fst p, SIGKILL)) (pg_processes g) \<and>
    signalAll SIGINT g = map (\<lambda>p. (- fst p, SIGINT)) (filter snd (pg_processes g))"
  using assms
  by (auto simp: spawnProcess_def start_process_def no_process_def failed_start_def no_child_def signalAll_def SIGINT_def SIGKILL_def Let_def
      split: list.splits option.splits)

theorem closed_group_starts_nothing_witness:
  "no_child (sr_events (spawnProcess (sample_os []) \<lparr>pg_processes = [(7, False), (8, True)], pg_closed = True\<rparr> 1 [''ls''] new_environment sample_attr)) \<and>
   signalAll SIGINT \<lparr>pg_processes = [(7, False), (8, True)], pg_closed = True\<rparr> = [(-8, 2)]"
  using closed_group_starts_nothing [of "\<lparr>pg_processes = [(7, False), (8, True)], pg_closed = True\<rparr>" "sample_os []" 1 "[''ls'']" new_environment sample_attr]
  by (simp add: SIGINT_def)

section \<open>Output and status\<close>

lemma poll_loop_output:
  "list_all (\<lambda>b. b \<noteq> []) bufs \<Longrightarrow>
   poll_loop os True ctlFd (map (\<lambda>b. PollReady (Some (Inr b)) None) bufs @ PollReady (Some (Inr [])) None # rs) True False (new_control taskID) =
     (PollDrained, map ProcessHadOutput bufs)"
proof (induction bufs)
  case Nil
  then show ?case by (cases rs) (auto simp: read_output_def read_control_def shouldRelease_def new_control_def)
next
  case (Cons b bufs)
  then show ?case by (auto simp: read_output_def read_control_def shouldRelease_def new_control_def)
qed

text \<open>
  The output of a process that has no control channel reaches the delegate unchanged and in order,
  however it is cut into reads; the wait is repeated while it is interrupted, and the result carries the
  exit status: cancelled if the process died of an interrupt or a kill, successful if it is zero.
\<close>

theorem spawn_reports_output:
  assumes "list_all (\<lambda>b. b \<noteq> []) bufs" "list_all (\<lambda>w. \<exists>v. w = WaitFailed EINTR v) ws"
    and "os_polls os = map (\<lambda>b. PollReady (Some (Inr b)) None) bufs @ PollReady (Some (Inr [])) None # rs"
    and "os_waits os = ws @ WaitDone status usage # later" "\<And>rq. os_spawn os rq = Inr pid" "os_outputPipe os = Inr (r, w)"
    and "\<not> pg_closed g" "\<not> pe_isFrozen environment" "is_absolute program"
    and "attr = \<lparr>pa_canSafelyInterrupt = b, pa_connectToConsole = False, pa_workingDir = [], pa_inheritEnvironment = i, pa_controlEnabled = False\<rparr>"
  shows "\<exists>result. pr_status result = exit_status status \<and> pr_exitCode result = status \<and> pr_pid result = pid \<and>
    sr_outcome (spawnProcess os g handle (program # args) environment attr) = SpawnReturned \<and>
    sr_events (spawnProcess os g handle (program # args) environment attr) =
      ProcessStarted pid # map ProcessHadOutput bufs @ [ProcessFinished result, ProcessCompleted result]"
proof -
  have wait: "wait4_retry (os_waits os) = Some (WaitDone status usage)"
    using assms(2) unfolding assms(4) by (induction ws) (auto simp: EINTR_def)
  obtain env where env: "setIfMissing ''BUILRA_TASK_ID'' (utohexstr handle) environment = Some env"
    using assms(8) by (cases "''BUILRA_TASK_ID'' \<in> set (pe_keys environment)") (simp_all add: setIfMissing_def)
  let ?p = "\<lparr>pi_outputParent = \<lparr>md_descriptor = Some r, md_closedProperly = False\<rparr>,
             pi_outputChild = \<lparr>md_descriptor = Some w, md_closedProperly = False\<rparr>, pi_controlParent = new_descriptor,
             pi_controlChild = new_descriptor, pi_actions = [ActOpenNull STDIN, ActDup2 w STDOUT, ActDup2 w STDERR, ActClose w],
             pi_opened = [r, w], pi_closed = []\<rparr>"
  have pipes: "createCommunicationPipes os attr (no_pipes []) = ((ERROR_NONE, 0), ?p)"
    using assms(6,10) by (simp add: createCommunicationPipes_def open_output_def no_pipes_def md_reset_def new_descriptor_def)
  have loop: "poll_loop os True False (os_polls os) True False (new_control (utohexstr handle)) = (PollDrained, map ProcessHadOutput bufs)"
    unfolding assms(3) by (rule poll_loop_output [OF assms(1)])
  show ?thesis
    using assms(5,7,9,10) env pipes loop wait
    by (simp add: spawnProcess_def resolve_program_def start_process_def parent_part_def run_events_def Let_def md_isValid_def
        new_descriptor_def cleanUpExecutedProcess_def)
qed

theorem spawn_reports_output_witness:
  "\<exists>result. pr_status result = StatusCancelled \<and>
     sr_events (spawnProcess
       \<lparr>os_addchdir_supported = True, os_addchdir_ok = True, os_outputPipe = Inr (5, 6), os_controlPipe = Inr (7, 8),
        os_findProgram = (\<lambda>p. None), os_spawn = (\<lambda>rq. Inr 42),
        os_polls = [PollReady (Some (Inr ''a'')) None, PollReady (Some (Inr ''b'')) None, PollReady (Some (Inr [])) None], os_reads = [],
        os_waits = [WaitFailed EINTR 0, WaitDone 9 \<lparr>ru_utime_sec = 0, ru_utime_usec = 0, ru_stime_sec = 0, ru_stime_usec = 0, ru_maxrss = 0\<rparr>],
        os_strerror = (\<lambda>e. [])\<rparr>
       \<lparr>pg_processes = [], pg_closed = False\<rparr> 1 [''/bin/ls''] new_environment
       \<lparr>pa_canSafelyInterrupt = True, pa_connectToConsole = False, pa_workingDir = [], pa_inheritEnvironment = True, pa_controlEnabled = False\<rparr>) =
     [ProcessStarted 42, ProcessHadOutput ''a'', ProcessHadOutput ''b'', ProcessFinished result, ProcessCompleted result]"
proof -
  let ?os = "\<lparr>os_addchdir_supported = True, os_addchdir_ok = True, os_outputPipe = Inr (5, 6), os_controlPipe = Inr (7, 8),
        os_findProgram = (\<lambda>p. None), os_spawn = (\<lambda>rq. Inr 42),
        os_polls = [PollReady (Some (Inr ''a'')) None, PollReady (Some (Inr ''b'')) None, PollReady (Some (Inr [])) None], os_reads = [],
        os_waits = [WaitFailed EINTR 0, WaitDone 9 \<lparr>ru_utime_sec = 0, ru_utime_usec = 0, ru_stime_sec = 0, ru_stime_usec = 0, ru_maxrss = 0\<rparr>],
        os_strerror = (\<lambda>e. [])\<rparr>"
  have "exit_status 9 = StatusCancelled" by code_simp
  moreover have "is_absolute ''/bin/ls''" by code_simp
  ultimately show ?thesis
    using spawn_reports_output [of "[''a'', ''b'']" "[WaitFailed EINTR 0]" ?os "[]" 9 _ "[]" 42 5 6
        "\<lparr>pg_processes = [], pg_closed = False\<rparr>" new_environment "''/bin/ls''" _ True True 1 "[]", OF _ _ _ _ _ _ _ _ _ refl]
    by (auto simp: new_environment_def)
qed

end
