(* ===== verification/Process_Execution.thy ===== *)
theory Process_Execution
  imports Execution_Queue_Properties Task_Limits Serial_Queue Subprocess_Properties
begin

text \<open>
  The execution queues as their jobs see them: running a process from a lane, and cancelling
  (\<^verbatim>\<open>executeProcess\<close>, \<^verbatim>\<open>cancelAllJobs\<close> and \<^verbatim>\<open>killAfterTimeout\<close>
  in \<^verbatim>\<open>lib/Basic/LaneBasedExecutionQueue.cpp\<close> and \<^verbatim>\<open>lib/Basic/SerialQueue.cpp\<close>, and the
  helpers of \<^verbatim>\<open>lib/Basic/ExecutionQueue.cpp\<close>).
\<close>

section \<open>Running a process\<close>

text \<open>The completion function is optional.\<close>

fun is_completion :: "ProcessEvent \<Rightarrow> bool" where
  "is_completion (ProcessCompleted r) = True"
| "is_completion _ = False"

definition complete_if :: "bool \<Rightarrow> ProcessEvent list \<Rightarrow> ProcessEvent list" where
  "complete_if hasCompletion evs = (if hasCompletion then evs else filter (\<lambda>e. \<not> is_completion e) evs)"

definition execute_request ::
  "SpawnOS \<Rightarrow> bool \<Rightarrow> ProcessGroup \<Rightarrow> 32 word \<Rightarrow> 64 word \<Rightarrow> 64 word \<Rightarrow> string list \<Rightarrow> string list \<Rightarrow>
   (string \<times> string) list \<Rightarrow> ProcessAttributes \<Rightarrow> bool \<Rightarrow> SpawnRun" where
  "execute_request os cancelled g buildID lane handle base commandLine environment attr hasCompletion =
     (if cancelled then no_process SpawnReturned (complete_if hasCompletion [ProcessCompleted (makeCancelled (-1))]) g
      else
        (case form_environment buildID lane environment (pa_inheritEnvironment attr) base of
           None \<Rightarrow> no_process SpawnAsserted [] g
         | Some env \<Rightarrow>
             let run = spawnProcess os g handle commandLine env attr
             in run\<lparr>sr_events := complete_if hasCompletion (sr_events run)\<rparr>))"

text \<open>From a lane of the lane based queue; the handle is the identity of the job that runs on the lane.\<close>

definition lane_executeProcess ::
  "SpawnOS \<Rightarrow> LaneQueue \<Rightarrow> ProcessGroup \<Rightarrow> nat \<Rightarrow> string list \<Rightarrow> string list \<Rightarrow> (string \<times> string) list \<Rightarrow>
   ProcessAttributes \<Rightarrow> bool \<Rightarrow> SpawnRun" where
  "lane_executeProcess os q g lane base commandLine environment attr hasCompletion =
     execute_request os (lq_cancelled q) g (lq_buildID q) (of_nat lane) (jobID (lq_buildID q) lane (ln_jobCount (lq_lanes q ! lane)))
       base commandLine environment attr hasCompletion"

section \<open>The serial execution queue\<close>

text \<open>
  A job gets its identity when it is added; the operation of the serial queue is the place of the job in
  the list of jobs.
\<close>

record SerialExecutionQueue =
  seq_buildID :: "32 word"
  seq_jobCount :: "64 word"
  seq_jobs :: "(64 word \<times> QueueJob) list"
  seq_queue :: SerialQueueImpl
  seq_cancelled :: bool

definition new_serial_execution_queue :: "32 word \<Rightarrow> SerialExecutionQueue" where
  "new_serial_execution_queue buildID =
     \<lparr>seq_buildID = buildID, seq_jobCount = 0, seq_jobs = [], seq_queue = new_serial_queue, seq_cancelled = False\<rparr>"

definition serial_addJob :: "QueueJob \<Rightarrow> QueueJobPriority \<Rightarrow> SerialExecutionQueue \<Rightarrow> SerialExecutionQueue" where
  "serial_addJob job priority q =
     (let newID = seq_jobCount q + 1 in
      q\<lparr>seq_jobCount := newID, seq_jobs := seq_jobs q @ [(newID, job)],
        seq_queue := addOperation (Some (length (seq_jobs q))) (seq_queue q)\<rparr>)"

definition serial_executeProcess ::
  "SpawnOS \<Rightarrow> SerialExecutionQueue \<Rightarrow> ProcessGroup \<Rightarrow> 64 word \<Rightarrow> string list \<Rightarrow> string list \<Rightarrow> (string \<times> string) list \<Rightarrow>
   ProcessAttributes \<Rightarrow> bool \<Rightarrow> SpawnRun" where
  "serial_executeProcess os q g handle base commandLine environment attr hasCompletion =
     execute_request os (seq_cancelled q) g (seq_buildID q) 0 handle base commandLine environment attr hasCompletion"

section \<open>Waiting for a process\<close>

text \<open>
  \<^verbatim>\<open>ExecutionQueue::executeProcess\<close> with a default environment: the status of the result, if the
  call and the completion come back.
\<close>

definition completed_status :: "SpawnRun \<Rightarrow> ProcessStatus option" where
  "completed_status run =
     (if sr_outcome run = SpawnReturned
      then case List.find is_completion (sr_events run) of Some (ProcessCompleted r) \<Rightarrow> Some (pr_status r) | _ \<Rightarrow> None
      else None)"

definition default_attributes :: ProcessAttributes where
  "default_attributes =
     \<lparr>pa_canSafelyInterrupt = True, pa_connectToConsole = False, pa_workingDir = [], pa_inheritEnvironment = True, pa_controlEnabled = True\<rparr>"

definition executeProcess_status ::
  "SpawnOS \<Rightarrow> LaneQueue \<Rightarrow> ProcessGroup \<Rightarrow> nat \<Rightarrow> string list \<Rightarrow> string list \<Rightarrow> ProcessStatus option" where
  "executeProcess_status os q g lane base commandLine =
     completed_status (lane_executeProcess os q g lane base commandLine [] default_attributes True)"

definition executeShellCommand ::
  "SpawnOS \<Rightarrow> LaneQueue \<Rightarrow> ProcessGroup \<Rightarrow> nat \<Rightarrow> string list \<Rightarrow> string \<Rightarrow> bool option" where
  "executeShellCommand os q g lane base command =
     map_option (\<lambda>st. st = StatusSucceeded) (executeProcess_status os q g lane base [''/bin/sh'', ''-c'', c_str command])"

section \<open>Cancelling\<close>

text \<open>
  Cancelling marks the queue and closes the group in one step, interrupts what may be interrupted, and
  starts the thread that kills what is left.  The result also says which signals are sent.
\<close>

definition cancel_lane_queue :: "LaneQueue \<Rightarrow> ProcessGroup \<Rightarrow> LaneQueue \<times> ProcessGroup \<times> (int \<times> nat) list \<times> bool" where
  "cancel_lane_queue q g =
     (if lq_cancelled q then (q, g, [], False)
      else let g1 = pg_close g in (cancelAllJobs q, g1, signalAll SIGINT g1, True))"

definition cancel_serial_queue ::
  "SerialExecutionQueue \<Rightarrow> ProcessGroup \<Rightarrow> SerialExecutionQueue \<times> ProcessGroup \<times> (int \<times> nat) list \<times> bool" where
  "cancel_serial_queue q g =
     (if seq_cancelled q then (q, g, [], False)
      else let g1 = pg_close g in (q\<lparr>seq_cancelled := True\<rparr>, g1, signalAll SIGINT g1, True))"

definition killAfterTimeout :: "bool \<Rightarrow> ProcessGroup \<Rightarrow> (int \<times> nat) list" where
  "killAfterTimeout queueComplete g = (if queueComplete then [] else signalAll SIGKILL g)"

section \<open>Cancellation stops the processes\<close>

text \<open>
  The system's side of a signal: a process that is started with \<^verbatim>\<open>POSIX_SPAWN_SETPGROUP\<close> and
  group 0 leads a group with its own number, any other one stays in the group of its parent (\<^verbatim>\<open>parent\<close> is the number of that group), and a call of
  \<^verbatim>\<open>kill\<close> with a negative number reaches the members of that group.
\<close>

definition group_of :: "int \<Rightarrow> SpawnRequest \<Rightarrow> int \<Rightarrow> int" where
  "group_of parent rq pid = (if rq_setpgroup rq then pid else parent)"

definition delivered :: "(int \<times> nat) list \<Rightarrow> int \<Rightarrow> nat list" where
  "delivered signals grp = map snd (filter (\<lambda>(target, sig). target = - grp) signals)"

lemma delivered_one:
  assumes "distinct (map fst ps)" "(p, i) \<in> set ps"
  shows "delivered (map (\<lambda>p. (- fst p, sig)) (filter P ps)) p = (if P (p, i) then [sig] else [])"
proof -
  have "delivered (map (\<lambda>p. (- fst p, sig)) (filter P ps)) p = map (\<lambda>_. sig) (filter (\<lambda>x. fst x = p \<and> P x) ps)"
    by (simp add: delivered_def filter_map o_def) (simp add: conj_commute filter_map o_def)
  moreover have "filter (\<lambda>x. fst x = p \<and> P x) ps = (if P (p, i) then [(p, i)] else [])"
    using assms by (induction ps) (auto simp: filter_empty_conv rev_image_eqI)
  ultimately show ?thesis by simp
qed

lemma delivered_none:
  assumes "parent \<notin> fst ` set ps"
  shows "delivered (map (\<lambda>p. (- fst p, sig)) (filter P ps)) parent = []"
  using assms by (force simp: delivered_def filter_empty_conv)

text \<open>
  C40.  Cancelling is effective once and for all.  When it returns, a job that asks for a process, on
  whatever lane and whatever the system does, gets the cancelled result at once and no process is
  started, nor by a call that was past the check before the cancellation.  Of the running processes,
  exactly those that may be interrupted and are not connected to the console get an interrupt, once, and
  the thread that has been started to kill what is left later reaches exactly those that are not connected
  to the console: a process that is connected to the console stays in the group of the build tool, which
  the signals do not address.  A second cancellation does nothing.  To the lanes, the cancellation is one
  of the actions after which all jobs still run.
\<close>

theorem cancel_stops_processes:
  assumes "cancel_lane_queue q g = (q1, g1, signals, killer)" "lq_cancelled q \<longrightarrow> pg_closed g"
    and "distinct (map fst (pg_processes g))" "parent \<notin> fst ` set (pg_processes g)"
  shows "lane_executeProcess os q1 g1 lane base commandLine environment attr hasCompletion =
      no_process SpawnReturned (if hasCompletion then [ProcessCompleted (makeCancelled (-1))] else []) g1 \<and>
    no_child (sr_events (spawnProcess os g1 handle commandLine env attr)) \<and>
    (\<not> lq_cancelled q \<longrightarrow>
       killer \<and>
       (\<forall>(p, interruptible) \<in> set (pg_processes g). \<forall>os attr program args envp actions.
          let grp = group_of parent (spawn_request os attr program args envp actions) p in
          delivered signals grp = (if interruptible \<and> \<not> pa_connectToConsole attr then [SIGINT] else []) \<and>
          delivered (killAfterTimeout False g1) grp = (if \<not> pa_connectToConsole attr then [SIGKILL] else []))) \<and>
    queue_step CancelAllJobs q = Some q1 \<and> cancel_lane_queue q1 g1 = (q1, g1, [], False)"
proof -
  have c: "pg_closed g1" "lq_cancelled q1" "pg_processes g1 = pg_processes g"
    using assms by (auto simp: cancel_lane_queue_def pg_close_def cancelAllJobs_def notify_all_def Let_def split: if_splits)
  have s: "signalAll SIGINT (pg_close g) = map (\<lambda>p. (- fst p, SIGINT)) (filter snd (pg_processes g))"
    "killAfterTimeout False g1 = map (\<lambda>p. (- fst p, SIGKILL)) (filter (\<lambda>_. True) (pg_processes g))"
    using c(3) by (simp_all add: killAfterTimeout_def signalAll_def SIGINT_def SIGKILL_def pg_close_def)
  have reach: "delivered signals (group_of parent (spawn_request os attr program args envp actions) p) =
        (if i \<and> \<not> pa_connectToConsole attr then [SIGINT] else []) \<and>
      delivered (killAfterTimeout False g1) (group_of parent (spawn_request os attr program args envp actions) p) =
        (if \<not> pa_connectToConsole attr then [SIGKILL] else [])"
    if "\<not> lq_cancelled q" "(p, i) \<in> set (pg_processes g)" for p i os attr program args envp actions
  proof -
    have "signals = signalAll SIGINT (pg_close g)" using assms(1) that(1) by (auto simp: cancel_lane_queue_def Let_def)
    then have "delivered signals p = (if i then [SIGINT] else [])" "delivered signals parent = []"
      "delivered (killAfterTimeout False g1) p = [SIGKILL]" "delivered (killAfterTimeout False g1) parent = []"
      unfolding s using delivered_one [OF assms(3) that(2), where P = snd and sig = SIGINT]
        delivered_one [OF assms(3) that(2), where P = "\<lambda>_. True" and sig = SIGKILL]
        delivered_none [OF assms(4), where P = snd] delivered_none [OF assms(4), where P = "\<lambda>_. True"]
      by (simp_all only: snd_conv if_True)
    then show ?thesis by (simp add: group_of_def spawn_request_def)
  qed
  have "no_child (sr_events (spawnProcess os g1 handle commandLine env attr))"
    using c(1)
    by (auto simp: spawnProcess_def start_process_def no_process_def failed_start_def no_child_def Let_def split: list.splits option.splits)
  moreover have "lane_executeProcess os q1 g1 lane base commandLine environment attr hasCompletion =
      no_process SpawnReturned (if hasCompletion then [ProcessCompleted (makeCancelled (-1))] else []) g1"
    using c(2) by (simp add: lane_executeProcess_def execute_request_def complete_if_def)
  moreover have "\<not> lq_cancelled q \<longrightarrow> killer" "queue_step CancelAllJobs q = Some q1" "cancel_lane_queue q1 g1 = (q1, g1, [], False)"
    using assms(1) c(2) by (auto simp: cancel_lane_queue_def cancelAllJobs_def Let_def split: if_splits)
  ultimately show ?thesis using reach unfolding Let_def by blast
qed

theorem cancel_stops_processes_witness:
  "\<exists>q1 g1 signals. cancel_lane_queue (new_queue FIFO 1 3) \<lparr>pg_processes = [(7, True), (8, True)], pg_closed = False\<rparr> = (q1, g1, signals, True) \<and>
     lane_executeProcess (sample_os []) q1 g1 0 [] [''/bin/ls''] [] sample_attr True =
       no_process SpawnReturned [ProcessCompleted (makeCancelled (-1))] g1 \<and>
     delivered signals (group_of 3 (spawn_request (sample_os []) (sample_attr\<lparr>pa_connectToConsole := False\<rparr>) [] [] [] []) 8) = [SIGINT] \<and>
     delivered signals (group_of 3 (spawn_request (sample_os []) (sample_attr\<lparr>pa_connectToConsole := True\<rparr>) [] [] [] []) 7) = []"
proof -
  let ?g = "\<lparr>pg_processes = [(7, True), (8, True)], pg_closed = False\<rparr>"
  obtain q1 g1 signals where c: "cancel_lane_queue (new_queue FIFO 1 3) ?g = (q1, g1, signals, True)"
    by (simp add: cancel_lane_queue_def new_queue_def Let_def)
  have "lq_cancelled (new_queue FIFO 1 3) \<longrightarrow> pg_closed ?g" "distinct (map fst (pg_processes ?g))" "3 \<notin> fst ` set (pg_processes ?g)"
    "\<not> lq_cancelled (new_queue FIFO 1 3)"
    by (simp_all add: new_queue_def)
  note this(4) and cancel_stops_processes [OF c this(1-3), of "sample_os []" 0 "[]" "[''/bin/ls'']" "[]" sample_attr True]
  then show ?thesis using c by (auto simp: Let_def)
qed

end
