(* ===== verification/Binary_Coding.thy ===== *)
theory Binary_Coding
  imports Builra_Prelude
begin

unbundle bit_operations_syntax

text \<open>
  The binary encoder and decoder of \<^verbatim>\<open>include/builra/Basic/BinaryCoding.h\<close> and the
  packed string list of \<^verbatim>\<open>include/builra/Basic/StringList.h\<close>.  The encoder is the
  vector of bytes written so far, the decoder its data and a position.  The interface that the
  clients of the coder rely on is the locale \<open>codec\<close>: what a writer appends and that the reader
  gets it back.
\<close>

section \<open>Bytes and characters\<close>

type_synonym byte = "8 word"

definition byte_of_char :: "char \<Rightarrow> byte" where
  "byte_of_char c = word_of_nat (of_char c)"

definition char_of_byte :: "byte \<Rightarrow> char" where
  "char_of_byte b = char_of (unat b)"

definition bytes_of_string :: "string \<Rightarrow> byte list" where
  "bytes_of_string s = map byte_of_char s"

definition string_of_bytes :: "byte list \<Rightarrow> string" where
  "string_of_bytes bs = map char_of_byte bs"

lemma char_of_byte_of_char [simp]: "char_of_byte (byte_of_char c) = c"
proof -
  have "(of_char c :: nat) mod 256 = of_char c" by (rule of_char_mod_256)
  then show ?thesis by (simp add: char_of_byte_def byte_of_char_def unat_of_nat take_bit_nat_def)
qed

lemma string_of_bytes_of_string [simp]: "string_of_bytes (bytes_of_string s) = s"
  by (induction s) (simp_all add: string_of_bytes_def bytes_of_string_def)

lemma length_bytes_of_string [simp]: "length (bytes_of_string s) = length s"
  by (simp add: bytes_of_string_def)

lemma length_string_of_bytes [simp]: "length (string_of_bytes bs) = length bs"
  by (simp add: string_of_bytes_def)

lemma bytes_of_string_append [simp]: "bytes_of_string (s @ t) = bytes_of_string s @ bytes_of_string t"
  by (simp add: bytes_of_string_def)

lemma bytes_of_string_Nil [simp]: "bytes_of_string [] = []"
  by (simp add: bytes_of_string_def)

lemma bytes_of_string_inj [simp]: "bytes_of_string s = bytes_of_string t \<longleftrightarrow> s = t"
  by (metis string_of_bytes_of_string)

section \<open>The encoder\<close>

type_synonym BinaryEncoder = "byte list"

definition write_bool :: "bool \<Rightarrow> BinaryEncoder \<Rightarrow> BinaryEncoder" where
  "write_bool v e = e @ [if v then 1 else 0]"

definition write8 :: "8 word \<Rightarrow> BinaryEncoder \<Rightarrow> BinaryEncoder" where
  "write8 v e = e @ [v]"

definition write16 :: "16 word \<Rightarrow> BinaryEncoder \<Rightarrow> BinaryEncoder" where
  "write16 v e = write8 (ucast (drop_bit 8 v)) (write8 (ucast (drop_bit 0 v)) e)"

definition write32 :: "32 word \<Rightarrow> BinaryEncoder \<Rightarrow> BinaryEncoder" where
  "write32 v e = write16 (ucast (drop_bit 16 v)) (write16 (ucast (drop_bit 0 v)) e)"

definition write64 :: "64 word \<Rightarrow> BinaryEncoder \<Rightarrow> BinaryEncoder" where
  "write64 v e = write32 (ucast (drop_bit 32 v)) (write32 (ucast (drop_bit 0 v)) e)"

definition writeBytes :: "string \<Rightarrow> BinaryEncoder \<Rightarrow> BinaryEncoder" where
  "writeBytes s e = e @ bytes_of_string s"

text \<open>Writing a \<^verbatim>\<open>std::string\<close> asserts that its size fits 32 bits.\<close>

definition write_string :: "string \<Rightarrow> BinaryEncoder \<Rightarrow> BinaryEncoder option" where
  "write_string s e =
     (let sz = (word_of_nat (length s) :: 32 word) in
      if unat sz = length s then Some (writeBytes s (write32 sz e)) else None)"

section \<open>The decoder\<close>

record BinaryDecoder =
  dec_data :: "byte list"
  dec_pos :: nat

definition new_decoder :: "byte list \<Rightarrow> BinaryDecoder" where
  "new_decoder bs = \<lparr>dec_data = bs, dec_pos = 0\<rparr>"

definition isEmpty_decoder :: "BinaryDecoder \<Rightarrow> bool" where
  "isEmpty_decoder d = (dec_pos d = length (dec_data d))"

text \<open>\<^verbatim>\<open>StringRef\<close>'s subscript asserts that the index is in range.\<close>

definition read8 :: "BinaryDecoder \<Rightarrow> (8 word \<times> BinaryDecoder) option" where
  "read8 d =
     (if dec_pos d < length (dec_data d)
      then Some (dec_data d ! dec_pos d, d\<lparr>dec_pos := Suc (dec_pos d)\<rparr>) else None)"

definition read16 :: "BinaryDecoder \<Rightarrow> (16 word \<times> BinaryDecoder) option" where
  "read16 d = do { (lo, d1) \<leftarrow> read8 d; (hi, d2) \<leftarrow> read8 d1; Some (ucast lo OR push_bit 8 (ucast hi), d2) }"

definition read32 :: "BinaryDecoder \<Rightarrow> (32 word \<times> BinaryDecoder) option" where
  "read32 d = do { (lo, d1) \<leftarrow> read16 d; (hi, d2) \<leftarrow> read16 d1; Some (ucast lo OR push_bit 16 (ucast hi), d2) }"

definition read64 :: "BinaryDecoder \<Rightarrow> (64 word \<times> BinaryDecoder) option" where
  "read64 d = do { (lo, d1) \<leftarrow> read32 d; (hi, d2) \<leftarrow> read32 d1; Some (ucast lo OR push_bit 32 (ucast hi), d2) }"

definition read_bool :: "BinaryDecoder \<Rightarrow> (bool \<times> BinaryDecoder) option" where
  "read_bool d = do { (b, d1) \<leftarrow> read8 d; Some (b \<noteq> 0, d1) }"

definition readBytes :: "nat \<Rightarrow> BinaryDecoder \<Rightarrow> (string \<times> BinaryDecoder) option" where
  "readBytes n d =
     (if dec_pos d + n \<le> length (dec_data d)
      then Some (string_of_bytes (take n (drop (dec_pos d) (dec_data d))), d\<lparr>dec_pos := dec_pos d + n\<rparr>)
      else None)"

definition read_string :: "BinaryDecoder \<Rightarrow> (string \<times> BinaryDecoder) option" where
  "read_string d = do { (sz, d1) \<leftarrow> read32 d; readBytes (unat sz) d1 }"

definition finish :: "BinaryDecoder \<Rightarrow> unit option" where
  "finish d = (if isEmpty_decoder d then Some () else None)"

section \<open>The contract of a coder\<close>

text \<open>What is left to read, and moving on.\<close>

definition remaining :: "BinaryDecoder \<Rightarrow> byte list" where
  "remaining d = drop (dec_pos d) (dec_data d)"

definition advance :: "nat \<Rightarrow> BinaryDecoder \<Rightarrow> BinaryDecoder" where
  "advance n d = d\<lparr>dec_pos := dec_pos d + n\<rparr>"

lemma remaining_new [simp]: "remaining (new_decoder bs) = bs"
  by (simp add: remaining_def new_decoder_def)

lemma remaining_advance: "remaining (advance n d) = drop n (remaining d)"
  by (simp add: remaining_def advance_def add.commute)

lemma remaining_advance_append: "remaining d = bs @ rest \<Longrightarrow> n = length bs \<Longrightarrow> remaining (advance n d) = rest"
  by (simp add: remaining_advance)

lemma advance_advance [simp]: "advance m (advance n d) = advance (n + m) d"
  by (simp add: advance_def add.assoc)

lemma advance_0 [simp]: "advance 0 d = d"
  by (simp add: advance_def)

lemma isEmpty_advance_new:
  "isEmpty_decoder (advance n (new_decoder bs)) \<longleftrightarrow> n = length bs"
  by (simp add: isEmpty_decoder_def advance_def new_decoder_def)

lemma read8_Cons:
  assumes "remaining d = b # rest"
  shows "read8 d = Some (b, advance 1 d)"
proof -
  have lt: "dec_pos d < length (dec_data d)" using assms by (cases "dec_pos d < length (dec_data d)") (simp_all add: remaining_def)
  then have "dec_data d ! dec_pos d = b" using assms by (simp add: remaining_def Cons_nth_drop_Suc [symmetric])
  with lt show ?thesis by (simp add: read8_def advance_def)
qed

lemma read8_Nil: "remaining d = [] \<Longrightarrow> read8 d = None"
  by (simp add: read8_def remaining_def)

text \<open>A decoder that stands inside its data.\<close>

definition inside :: "BinaryDecoder \<Rightarrow> bool" where
  "inside d = (dec_pos d \<le> length (dec_data d))"

lemma inside_new [simp]: "inside (new_decoder bs)"
  by (simp add: inside_def new_decoder_def)

lemma inside_advance: "inside d \<Longrightarrow> remaining d = bs @ rest \<Longrightarrow> n = length bs \<Longrightarrow> inside (advance n d)"
proof -
  assume "inside d" "remaining d = bs @ rest" "n = length bs"
  then have "length (remaining d) = n + length rest" "dec_pos d \<le> length (dec_data d)"
    by (simp_all add: inside_def)
  then have "length (dec_data d) - dec_pos d = n + length rest" "dec_pos d \<le> length (dec_data d)"
    by (simp_all add: remaining_def)
  then show ?thesis by (simp add: inside_def advance_def)
qed

lemma readBytes_append:
  assumes "remaining d = bs @ rest" "n = length bs" "inside d"
  shows "readBytes n d = Some (string_of_bytes bs, advance n d)"
proof -
  have "length (remaining d) = n + length rest" using assms by simp
  then have "dec_pos d + n \<le> length (dec_data d)"
    using assms(3) by (simp add: remaining_def inside_def)
  then show ?thesis using assms by (simp add: readBytes_def remaining_def advance_def)
qed

text \<open>
  The contract: on a value in \<open>ok\<close>, the writer appends the value's bytes, given by \<open>code\<close>, and
  the reader takes them off again and returns the value.
\<close>

locale codec =
  fixes put :: "'a \<Rightarrow> BinaryEncoder \<Rightarrow> BinaryEncoder option"
    and get :: "BinaryDecoder \<Rightarrow> ('a \<times> BinaryDecoder) option"
    and ok :: "'a \<Rightarrow> bool"
    and code :: "'a \<Rightarrow> byte list"
  assumes put_code: "ok v \<Longrightarrow> put v e = Some (e @ code v)"
    and get_code: "ok v \<Longrightarrow> inside d \<Longrightarrow> remaining d = code v @ rest \<Longrightarrow>
      get d = Some (v, advance (length (code v)) d)"
begin

text \<open>No code word is a prefix of another one.\<close>

lemma code_prefix_free: "ok v \<Longrightarrow> ok w \<Longrightarrow> code v @ xs = code w @ ys \<Longrightarrow> v = w \<and> xs = ys"
proof -
  assume a: "ok v" "ok w" "code v @ xs = code w @ ys"
  have "get (new_decoder (code v @ xs)) = Some (v, advance (length (code v)) (new_decoder (code v @ xs)))"
    using a(1) by (rule get_code) simp_all
  moreover have "get (new_decoder (code v @ xs)) = Some (w, advance (length (code w)) (new_decoder (code v @ xs)))"
    using a(2) by (rule get_code) (simp_all add: a(3))
  ultimately show ?thesis using a(3) by simp
qed

text \<open>One step of a reader: the decoder moves on by the code word.\<close>

lemma get_step:
  assumes "ok v" "inside d" "remaining d = code v @ rest"
  shows "\<exists>d'. get d = Some (v, d') \<and> inside d' \<and> remaining d' = rest \<and> d' = advance (length (code v)) d"
  using get_code [OF assms] inside_advance [OF assms(2,3)] remaining_advance_append [OF assms(3)] by simp

lemma code_inj: "ok v \<Longrightarrow> ok w \<Longrightarrow> code v = code w \<Longrightarrow> v = w"
  using code_prefix_free [of v w "[]" "[]"] by simp

lemma put_get: "ok v \<Longrightarrow> \<exists>bs. put v [] = Some bs \<and> get (new_decoder bs) = Some (v, advance (length bs) (new_decoder bs))"
  using put_code [of v "[]"] get_code [of v "new_decoder (code v)" "[]"] by simp

end

text \<open>Writing the elements of a vector in order, and reading a known number of them.\<close>

fun write_each :: "('a \<Rightarrow> BinaryEncoder \<Rightarrow> BinaryEncoder option) \<Rightarrow> 'a list \<Rightarrow> BinaryEncoder \<Rightarrow> BinaryEncoder option" where
  "write_each w [] e = Some e"
| "write_each w (v # vs) e = do { e1 \<leftarrow> w v e; write_each w vs e1 }"

fun read_each :: "(BinaryDecoder \<Rightarrow> ('a \<times> BinaryDecoder) option) \<Rightarrow> nat \<Rightarrow> BinaryDecoder \<Rightarrow> ('a list \<times> BinaryDecoder) option" where
  "read_each r 0 d = Some ([], d)"
| "read_each r (Suc n) d = do { (v, d1) \<leftarrow> r d; (vs, d2) \<leftarrow> read_each r n d1; Some (v # vs, d2) }"

context codec
begin

lemma put_each_code: "\<forall>v \<in> set vs. ok v \<Longrightarrow> write_each put vs e = Some (e @ concat (map code vs))"
  by (induction vs arbitrary: e) (simp_all add: put_code)

lemma get_each_code:
  "\<forall>v \<in> set vs. ok v \<Longrightarrow> inside d \<Longrightarrow> remaining d = concat (map code vs) @ rest \<Longrightarrow>
   read_each get (length vs) d = Some (vs, advance (length (concat (map code vs))) d)"
proof (induction vs arbitrary: d)
  case (Cons v vs)
  let ?d = "advance (length (code v)) d"
  have r: "remaining d = code v @ (concat (map code vs) @ rest)" using Cons.prems(3) by simp
  have "get d = Some (v, ?d)" using Cons.prems r by (intro get_code) auto
  moreover have "inside ?d" using Cons.prems(2) r by (rule inside_advance) simp
  moreover have "remaining ?d = concat (map code vs) @ rest" using r by (rule remaining_advance_append) simp
  ultimately show ?case using Cons.IH [of ?d] Cons.prems(1) by simp
qed simp

end

section \<open>The scalar coders\<close>

definition code16 :: "16 word \<Rightarrow> byte list" where
  "code16 v = [ucast v, ucast (drop_bit 8 v)]"

definition code32 :: "32 word \<Rightarrow> byte list" where
  "code32 v = code16 (ucast v) @ code16 (ucast (drop_bit 16 v))"

definition code64 :: "64 word \<Rightarrow> byte list" where
  "code64 v = code32 (ucast v) @ code32 (ucast (drop_bit 32 v))"

lemma length_codes [simp]: "length (code16 v) = 2" "length (code32 w) = 4" "length (code64 x) = 8"
  by (simp_all add: code16_def code32_def code64_def)

lemma join16: "ucast (ucast v :: 8 word) OR push_bit 8 (ucast (ucast (drop_bit 8 v) :: 8 word)) = (v :: 16 word)"
  by (rule bit_word_eqI) (auto simp: bit_simps)

lemma join32: "ucast (ucast v :: 16 word) OR push_bit 16 (ucast (ucast (drop_bit 16 v) :: 16 word)) = (v :: 32 word)"
  by (rule bit_word_eqI) (auto simp: bit_simps)

lemma join64: "ucast (ucast v :: 32 word) OR push_bit 32 (ucast (ucast (drop_bit 32 v) :: 32 word)) = (v :: 64 word)"
  by (rule bit_word_eqI) (auto simp: bit_simps)

interpretation c8: codec "\<lambda>v e. Some (write8 v e)" read8 "\<lambda>_. True" "\<lambda>v. [v]"
  by unfold_locales (simp_all add: write8_def read8_Cons)

interpretation cbool: codec "\<lambda>v e. Some (write_bool v e)" read_bool "\<lambda>_. True" "\<lambda>v. [if v then 1 else 0]"
  by unfold_locales (auto simp: write_bool_def read_bool_def read8_Cons)

text \<open>Two values in a row.\<close>

context codec
begin

lemma get_two:
  assumes "ok a" "ok b" "inside d" "remaining d = code a @ code b @ rest"
  shows "do { (x, d1) \<leftarrow> get d; (y, d2) \<leftarrow> get d1; Some (f x y, d2) } =
    Some (f a b, advance (length (code a) + length (code b)) d)"
proof -
  let ?d = "advance (length (code a)) d"
  have "get d = Some (a, ?d)" using assms(1,3,4) by (rule get_code)
  moreover have "get ?d = Some (b, advance (length (code b)) ?d)"
    using assms(2) inside_advance [OF assms(3,4)] remaining_advance_append [OF assms(4)] by (intro get_code) simp_all
  ultimately show ?thesis by simp
qed

end

interpretation c16: codec "\<lambda>v e. Some (write16 v e)" read16 "\<lambda>_. True" code16
proof unfold_locales
  show "read16 d = Some (v, advance (length (code16 v)) d)" if "inside d" "remaining d = code16 v @ rest" for v d rest
    using c8.get_two [OF TrueI TrueI that(1), of "ucast v" "ucast (drop_bit 8 v)" rest "\<lambda>lo hi. ucast lo OR push_bit 8 (ucast hi) :: 16 word"] that(2)
    by (simp add: read16_def code16_def join16 numeral_2_eq_2 del: bind_eq_Some_iff)
qed (simp add: write16_def write8_def code16_def)

interpretation c32: codec "\<lambda>v e. Some (write32 v e)" read32 "\<lambda>_. True" code32
proof unfold_locales
  show "read32 d = Some (v, advance (length (code32 v)) d)" if "inside d" "remaining d = code32 v @ rest" for v d rest
    using c16.get_two [OF TrueI TrueI that(1), of "ucast v" "ucast (drop_bit 16 v)" rest "\<lambda>lo hi. ucast lo OR push_bit 16 (ucast hi) :: 32 word"] that(2)
    by (simp add: read32_def code32_def join32 del: bind_eq_Some_iff)
  show "Some (write32 v e) = Some (e @ code32 v)" for v e
    using c16.put_code by (simp add: write32_def code32_def)
qed

interpretation c64: codec "\<lambda>v e. Some (write64 v e)" read64 "\<lambda>_. True" code64
proof unfold_locales
  show "read64 d = Some (v, advance (length (code64 v)) d)" if "inside d" "remaining d = code64 v @ rest" for v d rest
    using c32.get_two [OF TrueI TrueI that(1), of "ucast v" "ucast (drop_bit 32 v)" rest "\<lambda>lo hi. ucast lo OR push_bit 32 (ucast hi) :: 64 word"] that(2)
    by (simp add: read64_def code64_def join64 del: bind_eq_Some_iff)
  show "Some (write64 v e) = Some (e @ code64 v)" for v e
    using c32.put_code by (simp add: write64_def code64_def)
qed

section \<open>Strings\<close>

lemma readBytes_code:
  assumes "inside d" "remaining d = bytes_of_string s @ rest" "n = length s"
  shows "readBytes n d = Some (s, advance n d)"
  using readBytes_append [OF assms(2)] assms(1,3) by simp

lemma unat_word_of_nat: "n < 2 ^ LENGTH('w) \<Longrightarrow> unat (word_of_nat n :: 'w :: len word) = n"
  by (simp add: unat_of_nat take_bit_nat_eq_self)

text \<open>A string of less than 4 GB: its size in 32 bits and then its bytes.\<close>

definition short_string :: "string \<Rightarrow> bool" where
  "short_string s = (length s < 2 ^ 32)"

definition code_string :: "string \<Rightarrow> byte list" where
  "code_string s = code32 (word_of_nat (length s)) @ bytes_of_string s"

interpretation cstring: codec write_string read_string short_string code_string
proof unfold_locales
  fix s e d rest assume s: "short_string s"
  then have sz: "unat (word_of_nat (length s) :: 32 word) = length s"
    by (intro unat_word_of_nat) (simp add: short_string_def)
  show "write_string s e = Some (e @ code_string s)"
    using c32.put_code by (simp add: write_string_def Let_def sz writeBytes_def code_string_def)
  assume d: "inside d" "remaining d = code_string s @ rest"
  let ?c = "code32 (word_of_nat (length s))"
  have r: "remaining d = ?c @ (bytes_of_string s @ rest)" using d(2) by (simp add: code_string_def)
  have "read32 d = Some (word_of_nat (length s), advance (length ?c) d)" using d(1) r by (intro c32.get_code) simp_all
  moreover have "readBytes (length s) (advance (length ?c) d) = Some (s, advance (length s) (advance (length ?c) d))"
    using inside_advance [OF d(1) r] remaining_advance_append [OF r] by (intro readBytes_code) simp_all
  ultimately show "read_string d = Some (s, advance (length (code_string s)) d)"
    by (simp add: read_string_def sz code_string_def)
qed

end
