(* ===== verification/File_Info.thy ===== *)
theory File_Info
  imports Binary_Coding
begin

unbundle bit_operations_syntax

text \<open>
  The file information record of \<^verbatim>\<open>Basic/FileInfo.h\<close> and
  \<^verbatim>\<open>Basic/FileInfo.cpp\<close>, with its coders, and the command signature of
  \<^verbatim>\<open>Basic/Hashing.h\<close>.  The file system (\<^verbatim>\<open>stat\<close>,
  \<^verbatim>\<open>fopen\<close>, \<^verbatim>\<open>fread\<close>) and the digest functions are parameters.
\<close>

section \<open>Time stamps\<close>

datatype FileTimestamp = FileTimestamp (seconds: "64 word") (nanoseconds: "64 word")

definition timestamp_less :: "FileTimestamp \<Rightarrow> FileTimestamp \<Rightarrow> bool" where
  "timestamp_less a b =
     (seconds a < seconds b \<or> (seconds a = seconds b \<and> nanoseconds a < nanoseconds b))"

definition timestamp_le :: "FileTimestamp \<Rightarrow> FileTimestamp \<Rightarrow> bool" where
  "timestamp_le a b =
     (seconds a < seconds b \<or> (seconds a = seconds b \<and> nanoseconds a \<le> nanoseconds b))"

text \<open>The comparison operators are a linear order.\<close>

instantiation FileTimestamp :: linorder
begin

definition less_FileTimestamp :: "FileTimestamp \<Rightarrow> FileTimestamp \<Rightarrow> bool" where
  "less_FileTimestamp = timestamp_less"

definition less_eq_FileTimestamp :: "FileTimestamp \<Rightarrow> FileTimestamp \<Rightarrow> bool" where
  "less_eq_FileTimestamp = timestamp_le"

instance
  by standard (auto simp: less_FileTimestamp_def less_eq_FileTimestamp_def timestamp_less_def timestamp_le_def
      intro: FileTimestamp.expand)

end

section \<open>File information\<close>

text \<open>The 32 bytes of a checksum.\<close>

type_synonym FileChecksum = "byte list"

definition zero_checksum :: FileChecksum where
  "zero_checksum = replicate 32 0"

record FileInfo =
  fi_device :: "64 word"
  fi_inode :: "64 word"
  fi_mode :: "64 word"
  fi_size :: "64 word"
  fi_modTime :: FileTimestamp
  fi_checksum :: FileChecksum

definition zero_info :: FileInfo where
  "zero_info = \<lparr>fi_device = 0, fi_inode = 0, fi_mode = 0, fi_size = 0,
     fi_modTime = FileTimestamp 0 0, fi_checksum = zero_checksum\<rparr>"

definition isMissing :: "FileInfo \<Rightarrow> bool" where
  "isMissing i = (fi_device i = 0 \<and> fi_inode i = 0 \<and> fi_mode i = 0 \<and> fi_size i = 0 \<and>
     seconds (fi_modTime i) = 0 \<and> nanoseconds (fi_modTime i) = 0)"

text \<open>The file type bits of \<^verbatim>\<open>sys/stat.h\<close>.\<close>

definition S_IFDIR :: "64 word" where "S_IFDIR = 0x4000"
definition S_IFBLK :: "64 word" where "S_IFBLK = 0x6000"
definition S_IFMT :: "64 word" where "S_IFMT = 0xF000"

definition isDirectory :: "FileInfo \<Rightarrow> bool" where
  "isDirectory i = ((fi_mode i AND S_IFDIR) \<noteq> 0)"

text \<open>The comparison operator of the code; it does not look at the mode.\<close>

definition FileInfo_eq :: "FileInfo \<Rightarrow> FileInfo \<Rightarrow> bool" where
  "FileInfo_eq a b = (fi_device a = fi_device b \<and> fi_inode a = fi_inode b \<and> fi_size a = fi_size b \<and>
     fi_modTime a = fi_modTime b \<and> fi_checksum a = fi_checksum b)"

text \<open>What \<^verbatim>\<open>stat\<close> and \<^verbatim>\<open>lstat\<close> deliver.\<close>

record stat_buf =
  st_dev :: "64 word"
  st_ino :: "64 word"
  st_mode :: "64 word"
  st_size :: "64 word"
  st_mtim :: "64 word \<times> 64 word"

definition info_of_stat :: "stat_buf \<Rightarrow> FileInfo" where
  "info_of_stat b =
     (let r = \<lparr>fi_device = st_dev b, fi_inode = st_ino b, fi_mode = st_mode b, fi_size = st_size b,
               fi_modTime = FileTimestamp (fst (st_mtim b)) (snd (st_mtim b)), fi_checksum = zero_checksum\<rparr>
      in if isMissing r then r\<lparr>fi_modTime := FileTimestamp (seconds (fi_modTime r)) 1\<rparr> else r)"

definition getInfoForPath :: "(bool \<Rightarrow> string \<Rightarrow> stat_buf option) \<Rightarrow> string \<Rightarrow> bool \<Rightarrow> FileInfo" where
  "getInfoForPath stat path asLink =
     (case stat asLink path of None \<Rightarrow> zero_info | Some b \<Rightarrow> info_of_stat b)"

section \<open>Checksums\<close>

text \<open>
  The hasher that the code uses off Apple platforms.  The digest is a parameter: its state, how it
  takes a block and its final result.  The member \<^verbatim>\<open>output\<close> is not initialised.
\<close>

record 'm digest =
  dg_init :: 'm
  dg_update :: "byte list \<Rightarrow> 'm \<Rightarrow> 'm"
  dg_final :: "'m \<Rightarrow> 'm \<times> byte list"

record 'm FileChecksumHasherMD5 =
  h_hasher :: 'm
  h_output :: "byte list"

definition new_hasher :: "'m digest \<Rightarrow> byte list \<Rightarrow> 'm FileChecksumHasherMD5" where
  "new_hasher D uninit = \<lparr>h_hasher = dg_init D, h_output = uninit\<rparr>"

text \<open>\<^verbatim>\<open>finalize\<close> stores the digest in a local variable that hides the member.\<close>

definition hasher_finalize :: "'m digest \<Rightarrow> 'm FileChecksumHasherMD5 \<Rightarrow> 'm FileChecksumHasherMD5" where
  "hasher_finalize D h = (case dg_final D (h_hasher h) of (m, local_output) \<Rightarrow> h\<lparr>h_hasher := m\<rparr>)"

definition hasher_update :: "'m digest \<Rightarrow> byte list \<Rightarrow> 'm FileChecksumHasherMD5 \<Rightarrow> 'm FileChecksumHasherMD5" where
  "hasher_update D bs h = h\<lparr>h_hasher := dg_update D bs (h_hasher h)\<rparr>"

definition hasher_copy :: "'m FileChecksumHasherMD5 \<Rightarrow> byte list \<Rightarrow> byte list" where
  "hasher_copy h buffer = h_output h @ drop (length (h_output h)) buffer"

text \<open>The file is read in blocks of \<^verbatim>\<open>4*4096\<close> bytes.\<close>

function digest_blocks :: "'m digest \<Rightarrow> byte list \<Rightarrow> 'm FileChecksumHasherMD5 \<Rightarrow> 'm FileChecksumHasherMD5" where
  "digest_blocks D contents h =
     (if contents = [] then h
      else digest_blocks D (drop 16384 contents) (hasher_update D (take 16384 contents) h))"
  by pat_completeness auto
termination
  by (relation "measure (\<lambda>(D, contents, h). length contents)") auto

declare digest_blocks.simps [simp del]

definition readAndDigest ::
  "'m digest \<Rightarrow> (string \<Rightarrow> byte list option) \<Rightarrow> string \<Rightarrow> 'm FileChecksumHasherMD5 \<Rightarrow> bool \<times> 'm FileChecksumHasherMD5" where
  "readAndDigest D file path h =
     (case file path of
        None \<Rightarrow> (False, h)
      | Some contents \<Rightarrow> (True, hasher_finalize D (digest_blocks D contents h)))"

definition readPathStringAndDigest ::
  "'m digest \<Rightarrow> string \<Rightarrow> byte list \<Rightarrow> 'm FileChecksumHasherMD5 \<Rightarrow> byte list" where
  "readPathStringAndDigest D path result h =
     hasher_copy (hasher_finalize D (hasher_update D (bytes_of_string path) h)) result"

definition getChecksumForPath ::
  "'m digest \<Rightarrow> byte list \<Rightarrow> (bool \<Rightarrow> string \<Rightarrow> stat_buf option) \<Rightarrow> (string \<Rightarrow> byte list option) \<Rightarrow> string \<Rightarrow> FileChecksum" where
  "getChecksumForPath D uninit stat file path =
     (let result = zero_checksum; fileInfo = getInfoForPath stat path False in
      if isMissing fileInfo then zero_checksum
      else if isDirectory fileInfo then result[0 := 1]
      else case readAndDigest D file path (new_hasher D uninit) of
             (True, h) \<Rightarrow> hasher_copy h result
           | (False, h) \<Rightarrow> zero_checksum)"

section \<open>Coders\<close>

definition write_FileTimestamp :: "FileTimestamp \<Rightarrow> BinaryEncoder \<Rightarrow> BinaryEncoder" where
  "write_FileTimestamp t e = write64 (nanoseconds t) (write64 (seconds t) e)"

definition read_FileTimestamp :: "BinaryDecoder \<Rightarrow> (FileTimestamp \<times> BinaryDecoder) option" where
  "read_FileTimestamp d = do { (s, d1) \<leftarrow> read64 d; (n, d2) \<leftarrow> read64 d1; Some (FileTimestamp s n, d2) }"

definition write_FileChecksum :: "FileChecksum \<Rightarrow> BinaryEncoder \<Rightarrow> BinaryEncoder option" where
  "write_FileChecksum c e = (if length c = 32 then write_each (\<lambda>b e. Some (write8 b e)) c e else None)"

definition read_FileChecksum :: "BinaryDecoder \<Rightarrow> (FileChecksum \<times> BinaryDecoder) option" where
  "read_FileChecksum d = read_each read8 32 d"

definition write_FileInfo :: "FileInfo \<Rightarrow> BinaryEncoder \<Rightarrow> BinaryEncoder option" where
  "write_FileInfo i e =
     write_FileChecksum (fi_checksum i)
       (write_FileTimestamp (fi_modTime i)
         (write64 (fi_size i) (write64 (fi_mode i) (write64 (fi_inode i) (write64 (fi_device i) e)))))"

definition read_FileInfo :: "BinaryDecoder \<Rightarrow> (FileInfo \<times> BinaryDecoder) option" where
  "read_FileInfo d =
     do { (dev, d1) \<leftarrow> read64 d;
          (ino, d2) \<leftarrow> read64 d1;
          (mode, d3) \<leftarrow> read64 d2;
          (sz, d4) \<leftarrow> read64 d3;
          (time, d5) \<leftarrow> read_FileTimestamp d4;
          (check, d6) \<leftarrow> read_FileChecksum d5;
          Some (\<lparr>fi_device = dev, fi_inode = ino, fi_mode = mode, fi_size = sz,
                 fi_modTime = time, fi_checksum = check\<rparr>, d6) }"

section \<open>Command signatures\<close>

text \<open>A signature is a 64-bit hash; the hash function is a parameter where it is used.\<close>

type_synonym CommandSignature = "64 word"

definition write_CommandSignature :: "CommandSignature \<Rightarrow> BinaryEncoder \<Rightarrow> BinaryEncoder" where
  "write_CommandSignature s e = write64 s e"

definition read_CommandSignature :: "BinaryDecoder \<Rightarrow> (CommandSignature \<times> BinaryDecoder) option" where
  "read_CommandSignature d = read64 d"

section \<open>The coders meet their contract\<close>

definition code_FileTimestamp :: "FileTimestamp \<Rightarrow> byte list" where
  "code_FileTimestamp t = code64 (seconds t) @ code64 (nanoseconds t)"

interpretation ctime: codec "\<lambda>t e. Some (write_FileTimestamp t e)" read_FileTimestamp "\<lambda>_. True" code_FileTimestamp
proof unfold_locales
  show "read_FileTimestamp d = Some (t, advance (length (code_FileTimestamp t)) d)"
    if "inside d" "remaining d = code_FileTimestamp t @ rest" for t d rest
    using c64.get_two [OF TrueI TrueI that(1), of "seconds t" "nanoseconds t" rest FileTimestamp] that(2)
    by (simp add: read_FileTimestamp_def code_FileTimestamp_def del: bind_eq_Some_iff)
  show "Some (write_FileTimestamp t e) = Some (e @ code_FileTimestamp t)" for t e
    using c64.put_code by (simp add: write_FileTimestamp_def code_FileTimestamp_def)
qed

definition is_checksum :: "FileChecksum \<Rightarrow> bool" where
  "is_checksum c = (length c = 32)"

interpretation cchecksum: codec write_FileChecksum read_FileChecksum is_checksum "\<lambda>c. c"
proof unfold_locales
  have bytes: "concat (map (\<lambda>b. [b]) c) = (c :: byte list)" for c by (induction c) simp_all
  fix c e d rest assume c: "is_checksum c"
  show "write_FileChecksum c e = Some (e @ c)"
    using c c8.put_each_code [of c e] by (simp add: write_FileChecksum_def is_checksum_def bytes)
  assume "inside d" "remaining d = c @ rest"
  with c show "read_FileChecksum d = Some (c, advance (length c) d)"
    using c8.get_each_code [of c d rest] by (simp add: read_FileChecksum_def is_checksum_def bytes)
qed

definition code_FileInfo :: "FileInfo \<Rightarrow> byte list" where
  "code_FileInfo i = code64 (fi_device i) @ code64 (fi_inode i) @ code64 (fi_mode i) @ code64 (fi_size i) @
     code_FileTimestamp (fi_modTime i) @ fi_checksum i"

definition info_ok :: "FileInfo \<Rightarrow> bool" where
  "info_ok i = is_checksum (fi_checksum i)"

interpretation cinfo: codec write_FileInfo read_FileInfo info_ok code_FileInfo
proof unfold_locales
  fix i e d rest assume ok: "info_ok i"
  show "write_FileInfo i e = Some (e @ code_FileInfo i)"
    using ok c64.put_code ctime.put_code cchecksum.put_code by (simp add: write_FileInfo_def code_FileInfo_def info_ok_def)
  assume "inside d" "remaining d = code_FileInfo i @ rest"
  then have d: "inside d" "remaining d = code64 (fi_device i) @ code64 (fi_inode i) @ code64 (fi_mode i) @
      code64 (fi_size i) @ code_FileTimestamp (fi_modTime i) @ fi_checksum i @ rest" by (simp_all add: code_FileInfo_def)
  note s1 = c64.get_step [OF TrueI d]
  then obtain d1 where d1: "read64 d = Some (fi_device i, d1)" "inside d1" "d1 = advance 8 d"
    "remaining d1 = code64 (fi_inode i) @ code64 (fi_mode i) @
      code64 (fi_size i) @ code_FileTimestamp (fi_modTime i) @ fi_checksum i @ rest" by auto
  from c64.get_step [OF TrueI d1(2,4)] obtain d2 where d2: "read64 d1 = Some (fi_inode i, d2)" "inside d2"
    "d2 = advance 8 d1" "remaining d2 = code64 (fi_mode i) @
      code64 (fi_size i) @ code_FileTimestamp (fi_modTime i) @ fi_checksum i @ rest" by auto
  from c64.get_step [OF TrueI d2(2,4)] obtain d3 where d3: "read64 d2 = Some (fi_mode i, d3)" "inside d3"
    "d3 = advance 8 d2" "remaining d3 = code64 (fi_size i) @ code_FileTimestamp (fi_modTime i) @ fi_checksum i @ rest" by auto
  from c64.get_step [OF TrueI d3(2,4)] obtain d4 where d4: "read64 d3 = Some (fi_size i, d4)" "inside d4"
    "d4 = advance 8 d3" "remaining d4 = code_FileTimestamp (fi_modTime i) @ fi_checksum i @ rest" by auto
  from ctime.get_step [OF TrueI d4(2,4)] obtain d5 where d5: "read_FileTimestamp d4 = Some (fi_modTime i, d5)" "inside d5"
    "d5 = advance 16 d4" "remaining d5 = fi_checksum i @ rest" by (auto simp: code_FileTimestamp_def)
  have "read_FileChecksum d5 = Some (fi_checksum i, advance 32 d5)"
    using ok cchecksum.get_code [OF _ d5(2,4)] by (simp add: info_ok_def is_checksum_def)
  then show "read_FileInfo d = Some (i, advance (length (code_FileInfo i)) d)"
    using ok d1(1,3) d2(1,3) d3(1,3) d4(1,3) d5(1,3)
    by (simp add: read_FileInfo_def code_FileInfo_def code_FileTimestamp_def info_ok_def is_checksum_def)
qed

lemma length_code_FileInfo: "info_ok i \<Longrightarrow> length (code_FileInfo i) = 80"
  by (simp add: code_FileInfo_def code_FileTimestamp_def info_ok_def is_checksum_def)

section \<open>Properties\<close>

text \<open>
  The missing-file sentinel.  A path gives a missing file information exactly when
  \<^verbatim>\<open>stat\<close> fails on it: a file whose every field is zero is told from a missing one by
  its time stamp.
\<close>

theorem getInfoForPath_missing: "isMissing (getInfoForPath stat path asLink) \<longleftrightarrow> stat asLink path = None"
  by (simp add: getInfoForPath_def zero_info_def info_of_stat_def isMissing_def Let_def split: option.splits)

text \<open>
  The checksum of a regular file does not depend on what is in the file.  The digest is computed
  into a local variable of \<^verbatim>\<open>finalize\<close> that hides the member that
  \<^verbatim>\<open>copy\<close> reads, so the checksum is the uninitialised member, whatever the digest
  and the contents are.
\<close>

theorem checksum_ignores_contents:
  assumes "\<not> isMissing (getInfoForPath stat path False)" "\<not> isDirectory (getInfoForPath stat path False)"
    and "file path = Some contents" "length uninit = 16"
  shows "getChecksumForPath D uninit stat file path = uninit @ replicate 16 0"
proof -
  have "h_output (digest_blocks D contents h) = h_output h" for h
    by (induction D contents h rule: digest_blocks.induct) (subst digest_blocks.simps, simp add: hasher_update_def)
  then show ?thesis using assms
    by (simp add: getChecksumForPath_def readAndDigest_def new_hasher_def hasher_copy_def hasher_finalize_def
        split_def Let_def zero_checksum_def)
qed

text \<open>A file with two contents, under a digest that adds up the bytes.\<close>

definition sum_digest :: "nat digest" where
  "sum_digest = \<lparr>dg_init = 0, dg_update = (\<lambda>bs m. m + sum_list (map unat bs)),
     dg_final = (\<lambda>m. (m, replicate 16 (word_of_nat m)))\<rparr>"

definition sample_stat :: "64 word \<Rightarrow> bool \<Rightarrow> string \<Rightarrow> stat_buf option" where
  "sample_stat mode asLink path = Some \<lparr>st_dev = 1, st_ino = 2, st_mode = mode, st_size = 1, st_mtim = (3, 4)\<rparr>"

theorem checksum_ignores_contents_witness:
  "getChecksumForPath sum_digest (replicate 16 7) (sample_stat 0x81A4) (\<lambda>_. Some [1]) ''f'' =
   getChecksumForPath sum_digest (replicate 16 7) (sample_stat 0x81A4) (\<lambda>_. Some [2]) ''f''"
proof -
  have i: "\<not> isMissing (getInfoForPath (sample_stat 0x81A4) ''f'' False)"
    "\<not> isDirectory (getInfoForPath (sample_stat 0x81A4) ''f'' False)" by code_simp+
  show ?thesis
    using checksum_ignores_contents [OF i, of "\<lambda>_. Some [1]" "[1]" "replicate 16 7" sum_digest]
      checksum_ignores_contents [OF i, of "\<lambda>_. Some [2]" "[2]" "replicate 16 7" sum_digest] by simp
qed

text \<open>
  The directory test looks at one bit of the file type, and that bit is also set in the type of
  a block device: a block device is taken for a directory, and its checksum is the constant one.
\<close>

theorem block_device_is_directory:
  "isDirectory (getInfoForPath (sample_stat (S_IFBLK OR 0x1B0)) ''disk'' False) \<and>
   (S_IFBLK OR 0x1B0) AND S_IFMT \<noteq> S_IFDIR \<and>
   getChecksumForPath D uninit (sample_stat (S_IFBLK OR 0x1B0)) file ''disk'' = zero_checksum[0 := 1]"
proof -
  have i: "isDirectory (getInfoForPath (sample_stat (S_IFBLK OR 0x1B0)) ''disk'' False)"
    "\<not> isMissing (getInfoForPath (sample_stat (S_IFBLK OR 0x1B0)) ''disk'' False)"
    "(S_IFBLK OR 0x1B0) AND S_IFMT \<noteq> S_IFDIR" by code_simp+
  then show ?thesis by (simp add: getChecksumForPath_def Let_def)
qed

end
