(* ===== verification/String_List.thy ===== *)
theory String_List
  imports Binary_Coding
begin

text \<open>
  The packed list of C strings of \<^verbatim>\<open>include/builra/Basic/StringList.h\<close>: a heap
  buffer and the length of its used part.  It represents a list of strings without null
  characters, and its encoding meets the contract of a coder for such lists.
\<close>

section \<open>The packed list\<close>

abbreviation NUL :: char where "NUL \<equiv> CHR 0x00"

text \<open>\<open>sl_contents\<close> is the whole allocated buffer, or the null pointer.\<close>

record StringList =
  sl_contents :: "string option"
  sl_size :: nat

definition empty_StringList :: StringList where
  "empty_StringList = \<lparr>sl_contents = None, sl_size = 0\<rparr>"

definition StringList_decode :: "BinaryDecoder \<Rightarrow> (StringList \<times> BinaryDecoder) option" where
  "StringList_decode d =
     do { (sz, d1) \<leftarrow> read64 d;
          (bytes, d2) \<leftarrow> readBytes (unat sz) d1;
          Some (\<lparr>sl_contents = Some bytes, sl_size = unat sz\<rparr>, d2) }"

definition StringList_string :: "string \<Rightarrow> StringList option" where
  "StringList_string val =
     (if NUL \<in> set val then None
      else Some \<lparr>sl_contents = Some (val @ [NUL]), sl_size = length val + 1\<rparr>)"

text \<open>The first loop sums the sizes, the second copies; one more byte is allocated.\<close>

fun values_size :: "string list \<Rightarrow> nat \<Rightarrow> nat" where
  "values_size [] n = n"
| "values_size (v # vs) n = values_size vs (n + length v + 1)"

fun copy_values :: "string list \<Rightarrow> string \<Rightarrow> string option" where
  "copy_values [] p = Some (p @ [NUL])"
| "copy_values (v # vs) p = (if NUL \<in> set v then None else copy_values vs (p @ v @ [NUL]))"

definition StringList_values :: "string list \<Rightarrow> StringList option" where
  "StringList_values vs =
     do { buffer \<leftarrow> copy_values vs [];
          Some \<lparr>sl_contents = Some buffer, sl_size = values_size vs 0\<rparr> }"

text \<open>The move operations return the new object and what is left of the source.\<close>

definition StringList_move :: "StringList \<Rightarrow> StringList \<times> StringList" where
  "StringList_move rhs = (rhs, rhs\<lparr>sl_size := 0, sl_contents := None\<rparr>)"

definition StringList_move_assign :: "StringList \<Rightarrow> StringList \<Rightarrow> StringList \<times> StringList" where
  "StringList_move_assign self rhs =
     (self\<lparr>sl_size := sl_size rhs, sl_contents := sl_contents rhs\<rparr>, rhs\<lparr>sl_contents := None\<rparr>)"

text \<open>The C string that starts at an index; running off the buffer is a fault.\<close>

definition c_string_at :: "string \<Rightarrow> nat \<Rightarrow> string option" where
  "c_string_at buffer i =
     (let rest = drop i buffer; val = takeWhile (\<lambda>c. c \<noteq> NUL) rest in
      if length val < length rest then Some val else None)"

function getValues_loop :: "string \<Rightarrow> nat \<Rightarrow> nat \<Rightarrow> string list option" where
  "getValues_loop buffer sz i =
     (if i < sz
      then do { val \<leftarrow> c_string_at buffer i;
                if i + length val \<le> sz
                then do { vals \<leftarrow> getValues_loop buffer sz (i + length val + 1); Some (val # vals) }
                else None }
      else Some [])"
  by pat_completeness auto
termination
  by (relation "measure (\<lambda>(buffer, sz, i). sz - i)") auto

declare getValues_loop.simps [simp del]

definition getValues :: "StringList \<Rightarrow> string list option" where
  "getValues l =
     (case sl_contents l of
        None \<Rightarrow> (if sl_size l = 0 then Some [] else None)
      | Some buffer \<Rightarrow> getValues_loop buffer (sl_size l) 0)"

definition isEmpty_StringList :: "StringList \<Rightarrow> bool" where
  "isEmpty_StringList l = (sl_size l = 0)"

definition StringList_encode :: "StringList \<Rightarrow> BinaryEncoder \<Rightarrow> BinaryEncoder option" where
  "StringList_encode l e =
     (case sl_contents l of
        None \<Rightarrow> (if sl_size l = 0 then Some (write64 0 e) else None)
      | Some buffer \<Rightarrow>
          if sl_size l \<le> length buffer
          then Some (writeBytes (take (sl_size l) buffer) (write64 (word_of_nat (sl_size l)) e))
          else None)"

section \<open>The strings it holds\<close>

definition pack :: "string list \<Rightarrow> string" where
  "pack vs = concat (map (\<lambda>v. v @ [NUL]) vs)"

definition no_nul :: "string list \<Rightarrow> bool" where
  "no_nul vs = (\<forall>v \<in> set vs. NUL \<notin> set v)"

lemma pack_simps [simp]: "pack [] = []" "pack (v # vs) = v @ NUL # pack vs"
  by (simp_all add: pack_def)

lemma no_nul_simps [simp]: "no_nul []" "no_nul (v # vs) \<longleftrightarrow> NUL \<notin> set v \<and> no_nul vs"
  by (auto simp: no_nul_def)

lemma values_size_pack: "values_size vs n = n + length (pack vs)"
  by (induction vs arbitrary: n) simp_all

lemma copy_values_pack: "copy_values vs p = (if no_nul vs then Some (p @ pack vs @ [NUL]) else None)"
  by (induction vs arbitrary: p) auto

lemma StringList_values_pack:
  "StringList_values vs =
     (if no_nul vs then Some \<lparr>sl_contents = Some (pack vs @ [NUL]), sl_size = length (pack vs)\<rparr> else None)"
  by (simp add: StringList_values_def copy_values_pack values_size_pack)

lemma c_string_at_pack:
  assumes "NUL \<notin> set v"
  shows "c_string_at (xs @ v @ NUL # ys) (length xs) = Some v"
proof -
  have "takeWhile (\<lambda>c. c \<noteq> NUL) (v @ NUL # ys) = v" using assms by (subst takeWhile_append2) auto
  then show ?thesis by (simp add: c_string_at_def)
qed

lemma getValues_loop_pack:
  "no_nul vs \<Longrightarrow> getValues_loop (xs @ pack vs @ ys) (length xs + length (pack vs)) (length xs) = Some vs"
proof (induction vs arbitrary: xs)
  case Nil
  show ?case by (subst getValues_loop.simps) simp
next
  case (Cons v vs)
  have "c_string_at (xs @ v @ NUL # (pack vs @ ys)) (length xs) = Some v"
    using Cons.prems by (intro c_string_at_pack) simp
  moreover have "getValues_loop ((xs @ v @ [NUL]) @ pack vs @ ys) (length (xs @ v @ [NUL]) + length (pack vs)) (length (xs @ v @ [NUL])) = Some vs"
    using Cons.prems by (intro Cons.IH) simp
  ultimately show ?case by (subst getValues_loop.simps) (simp add: add.assoc)
qed

text \<open>The buffers that hold the packed strings: what the code builds and what it decodes.\<close>

definition holds :: "StringList \<Rightarrow> string list \<Rightarrow> bool" where
  "holds l vs = (no_nul vs \<and> sl_size l = length (pack vs) \<and>
     (case sl_contents l of None \<Rightarrow> vs = [] | Some buffer \<Rightarrow> \<exists>ys. buffer = pack vs @ ys))"

lemma holds_getValues: "holds l vs \<Longrightarrow> getValues l = Some vs"
  using getValues_loop_pack [of vs "[]"] by (auto simp: holds_def getValues_def split: option.splits)

lemma holds_values: "StringList_values vs = Some l \<Longrightarrow> holds l vs"
  by (auto simp: StringList_values_pack holds_def split: if_splits)

lemma holds_string: "StringList_string v = Some l \<Longrightarrow> holds l [v]"
  by (auto simp: StringList_string_def holds_def split: if_splits)

lemma holds_empty: "holds empty_StringList []"
  by (simp add: holds_def empty_StringList_def)

lemma holds_move: "holds l vs \<Longrightarrow> holds (fst (StringList_move l)) vs \<and> holds (snd (StringList_move l)) []"
  by (simp add: holds_def StringList_move_def)

lemma holds_move_assign: "holds l vs \<Longrightarrow> holds (fst (StringList_move_assign self l)) vs"
  by (simp add: holds_def StringList_move_assign_def)

text \<open>The encoding: the size in 64 bits, and the packed strings.\<close>

definition code_values :: "string list \<Rightarrow> byte list" where
  "code_values vs = code64 (word_of_nat (length (pack vs))) @ bytes_of_string (pack vs)"

definition fits :: "string list \<Rightarrow> bool" where
  "fits vs = (no_nul vs \<and> length (pack vs) < 2 ^ 64)"

lemma write64_code: "write64 v e = e @ code64 v"
  using c64.put_code by simp

lemma StringList_encode_code: "holds l vs \<Longrightarrow> StringList_encode l e = Some (e @ code_values vs)"
  by (auto simp: holds_def StringList_encode_def code_values_def write64_code writeBytes_def split: option.splits)

lemma StringList_decode_code:
  assumes "fits vs" "inside d" "remaining d = code_values vs @ rest"
  shows "StringList_decode d =
    Some (\<lparr>sl_contents = Some (pack vs), sl_size = length (pack vs)\<rparr>, advance (length (code_values vs)) d)"
proof -
  let ?n = "length (pack vs)" and ?c = "code64 (word_of_nat (length (pack vs)))"
  have sz: "unat (word_of_nat ?n :: 64 word) = ?n" using assms(1) by (intro unat_word_of_nat) (simp add: fits_def)
  have r: "remaining d = ?c @ (bytes_of_string (pack vs) @ rest)" using assms(3) by (simp add: code_values_def)
  have "read64 d = Some (word_of_nat ?n, advance (length ?c) d)" using assms(2) r by (intro c64.get_code) simp_all
  moreover have "readBytes ?n (advance (length ?c) d) = Some (pack vs, advance ?n (advance (length ?c) d))"
    using inside_advance [OF assms(2) r] remaining_advance_append [OF r] by (intro readBytes_code) simp_all
  ultimately show ?thesis by (simp add: StringList_decode_def sz code_values_def)
qed

lemma holds_decoded: "no_nul vs \<Longrightarrow> holds \<lparr>sl_contents = Some (pack vs), sl_size = length (pack vs)\<rparr> vs"
  by (simp add: holds_def)

definition put_values :: "string list \<Rightarrow> BinaryEncoder \<Rightarrow> BinaryEncoder option" where
  "put_values vs e = do { l \<leftarrow> StringList_values vs; StringList_encode l e }"

definition get_values :: "BinaryDecoder \<Rightarrow> (string list \<times> BinaryDecoder) option" where
  "get_values d = do { (l, d1) \<leftarrow> StringList_decode d; vs \<leftarrow> getValues l; Some (vs, d1) }"

interpretation cvalues: codec put_values get_values fits code_values
proof unfold_locales
  fix vs e d rest assume f: "fits vs"
  then obtain l where l: "StringList_values vs = Some l" by (auto simp: StringList_values_pack fits_def)
  then show "put_values vs e = Some (e @ code_values vs)"
    using StringList_encode_code [OF holds_values [OF l]] by (simp add: put_values_def)
  assume "inside d" "remaining d = code_values vs @ rest"
  with f show "get_values d = Some (vs, advance (length (code_values vs)) d)"
    using holds_getValues [OF holds_decoded] by (simp add: get_values_def StringList_decode_code fits_def)
qed

section \<open>Properties\<close>

text \<open>
  A packed list gives back the strings it was built from, and so does a copy that went through
  the encoder and the decoder; building it faults exactly when a string contains a null character.
\<close>

theorem StringList_roundtrip:
  assumes "length (pack vs) < 2 ^ 64"
  shows "(StringList_values vs = None \<longleftrightarrow> \<not> no_nul vs) \<and>
    (\<forall>l. StringList_values vs = Some l \<longrightarrow> getValues l = Some vs \<and>
      (\<exists>bytes l' d'. StringList_encode l [] = Some bytes \<and>
         StringList_decode (new_decoder bytes) = Some (l', d') \<and> isEmpty_decoder d' \<and> getValues l' = Some vs))"
proof (intro conjI allI impI)
  show "StringList_values vs = None \<longleftrightarrow> \<not> no_nul vs" by (simp add: StringList_values_pack)
  fix l assume l: "StringList_values vs = Some l"
  show "getValues l = Some vs" using l by (intro holds_getValues holds_values)
  from l assms have f: "fits vs" by (simp add: fits_def StringList_values_pack split: if_splits)
  have "StringList_encode l [] = Some (code_values vs)" using StringList_encode_code [OF holds_values [OF l], of "[]"] by simp
  moreover have "StringList_decode (new_decoder (code_values vs)) =
      Some (\<lparr>sl_contents = Some (pack vs), sl_size = length (pack vs)\<rparr>, advance (length (code_values vs)) (new_decoder (code_values vs)))"
    using f by (rule StringList_decode_code) simp_all
  moreover have "getValues \<lparr>sl_contents = Some (pack vs), sl_size = length (pack vs)\<rparr> = Some vs"
    using f by (intro holds_getValues holds_decoded) (simp add: fits_def)
  ultimately show "\<exists>bytes l' d'. StringList_encode l [] = Some bytes \<and>
      StringList_decode (new_decoder bytes) = Some (l', d') \<and> isEmpty_decoder d' \<and> getValues l' = Some vs"
    by (simp add: isEmpty_advance_new)
qed

theorem StringList_roundtrip_witness:
  "\<exists>l. StringList_values [''a'', '''', ''bc''] = Some l \<and> getValues l = Some [''a'', '''', ''bc'']"
  using StringList_roundtrip [of "[''a'', '''', ''bc'']"] by (auto simp: StringList_values_pack)

text \<open>
  A list that was moved from by assignment keeps its size but loses its buffer: it does not
  count as empty, and reading its strings follows a null pointer.  The move constructor resets both.
\<close>

theorem StringList_moved_from:
  assumes "sl_size rhs \<noteq> 0"
  shows "\<not> isEmpty_StringList (snd (StringList_move_assign self rhs)) \<and>
    getValues (snd (StringList_move_assign self rhs)) = None \<and>
    getValues (snd (StringList_move rhs)) = Some []"
  using assms by (simp add: StringList_move_assign_def StringList_move_def isEmpty_StringList_def getValues_def)

theorem StringList_moved_from_witness:
  "\<exists>l. StringList_values [''a''] = Some l \<and> getValues l = Some [''a''] \<and>
     getValues (snd (StringList_move_assign empty_StringList l)) = None"
proof -
  obtain l where l: "StringList_values [''a''] = Some l" by (auto simp: StringList_values_pack)
  then have "sl_size l \<noteq> 0" by (auto simp: StringList_values_pack)
  from StringList_moved_from [OF this, of empty_StringList] l holds_getValues [OF holds_values [OF l]] show ?thesis by blast
qed

end
