(* ===== verification/Build_Value.thy ===== *)
theory Build_Value
  imports File_Info String_List
begin

text \<open>
  The value space of the build system, \<^verbatim>\<open>include/builra/BuildSystem/BuildValue.h\<close>:
  the kinds, the tagged storage, the factory functions, and the conversion to and from the
  engine's byte vectors.  An operation returns \<open>None\<close> where the code fails an assertion.
\<close>

section \<open>Kinds\<close>

text \<open>
  The enumeration has a fixed underlying type, so that a decoded byte may be none of its
  enumerators: \<open>OtherKind\<close>.
\<close>

datatype ValueKind =
    Invalid | VirtualInput | ExistingInput | MissingInput | DirectoryContents
  | DirectoryTreeSignature | DirectoryTreeStructureSignature | StaleFileRemoval | MissingOutput
  | FailedInput | SuccessfulCommand | FailedCommand | PropagatedFailureCommand | CancelledCommand
  | SkippedCommand | Target | FilteredDirectoryContents | SuccessfulCommandWithOutputSignature
  | OtherKind "32 word"

definition enumerators :: "ValueKind list" where
  "enumerators = [Invalid, VirtualInput, ExistingInput, MissingInput, DirectoryContents,
     DirectoryTreeSignature, DirectoryTreeStructureSignature, StaleFileRemoval, MissingOutput,
     FailedInput, SuccessfulCommand, FailedCommand, PropagatedFailureCommand, CancelledCommand,
     SkippedCommand, Target, FilteredDirectoryContents, SuccessfulCommandWithOutputSignature]"

fun kind_number :: "ValueKind \<Rightarrow> 32 word" where
  "kind_number Invalid = 0"
| "kind_number VirtualInput = 1"
| "kind_number ExistingInput = 2"
| "kind_number MissingInput = 3"
| "kind_number DirectoryContents = 4"
| "kind_number DirectoryTreeSignature = 5"
| "kind_number DirectoryTreeStructureSignature = 6"
| "kind_number StaleFileRemoval = 7"
| "kind_number MissingOutput = 8"
| "kind_number FailedInput = 9"
| "kind_number SuccessfulCommand = 10"
| "kind_number FailedCommand = 11"
| "kind_number PropagatedFailureCommand = 12"
| "kind_number CancelledCommand = 13"
| "kind_number SkippedCommand = 14"
| "kind_number Target = 15"
| "kind_number FilteredDirectoryContents = 16"
| "kind_number SuccessfulCommandWithOutputSignature = 17"
| "kind_number (OtherKind n) = n"

definition kind_of_number :: "32 word \<Rightarrow> ValueKind" where
  "kind_of_number n = (if unat n < length enumerators then enumerators ! unat n else OtherKind n)"

definition write_Kind :: "ValueKind \<Rightarrow> BinaryEncoder \<Rightarrow> BinaryEncoder option" where
  "write_Kind k e =
     (let tmp = (ucast (kind_number k) :: 8 word) in
      if kind_number k = ucast tmp then Some (write8 tmp e) else None)"

definition read_Kind :: "BinaryDecoder \<Rightarrow> (ValueKind \<times> BinaryDecoder) option" where
  "read_Kind d = do { (tmp, d1) \<leftarrow> read8 d; Some (kind_of_number (ucast tmp), d1) }"

section \<open>The storage\<close>

text \<open>The union: one file information in place, or a pointer to an array.\<close>

datatype ValueData = AsOutputInfo FileInfo | AsOutputInfos "FileInfo list option"

record BuildValue =
  bv_kind :: ValueKind
  bv_numOutputInfos :: "32 word"
  bv_signature :: CommandSignature
  bv_valueData :: ValueData
  bv_stringValues :: StringList

definition kindHasSignature :: "BuildValue \<Rightarrow> bool" where
  "kindHasSignature v = (bv_kind v = DirectoryTreeSignature \<or> bv_kind v = DirectoryTreeStructureSignature \<or>
     bv_kind v = SuccessfulCommandWithOutputSignature)"

definition kindHasStringList :: "BuildValue \<Rightarrow> bool" where
  "kindHasStringList v = (bv_kind v = DirectoryContents \<or> bv_kind v = FilteredDirectoryContents \<or>
     bv_kind v = StaleFileRemoval)"

definition isSuccessfulCommand :: "BuildValue \<Rightarrow> bool" where
  "isSuccessfulCommand v = (bv_kind v = SuccessfulCommand \<or> bv_kind v = SuccessfulCommandWithOutputSignature)"

definition kindHasOutputInfo :: "BuildValue \<Rightarrow> bool" where
  "kindHasOutputInfo v = (bv_kind v = ExistingInput \<or> isSuccessfulCommand v \<or> bv_kind v = DirectoryContents)"

definition hasMultipleOutputs :: "BuildValue \<Rightarrow> bool" where
  "hasMultipleOutputs v = (bv_numOutputInfos v > 1)"

text \<open>The private constructors.\<close>

definition value_plain :: "ValueKind \<Rightarrow> CommandSignature \<Rightarrow> BuildValue" where
  "value_plain kind sig = \<lparr>bv_kind = kind, bv_numOutputInfos = 0, bv_signature = sig,
     bv_valueData = AsOutputInfo zero_info, bv_stringValues = empty_StringList\<rparr>"

definition value_outputs :: "ValueKind \<Rightarrow> FileInfo list \<Rightarrow> CommandSignature \<Rightarrow> BuildValue option" where
  "value_outputs kind infos sig =
     (let n = (word_of_nat (length infos) :: 32 word) in
      if n \<ge> 1
      then Some ((value_plain kind sig)\<lparr>bv_numOutputInfos := n,
             bv_valueData := (if n = 1 then AsOutputInfo (infos ! 0)
                              else AsOutputInfos (Some (take (unat n) infos)))\<rparr>)
      else None)"

definition value_directory :: "ValueKind \<Rightarrow> FileInfo \<Rightarrow> string list \<Rightarrow> BuildValue option" where
  "value_directory kind directoryInfo vals =
     do { v \<leftarrow> value_outputs kind [directoryInfo] 0;
          if kindHasStringList v
          then do { l \<leftarrow> StringList_values vals;
                    Some (v\<lparr>bv_stringValues := fst (StringList_move_assign (bv_stringValues v) l)\<rparr>) }
          else None }"

definition value_strings :: "ValueKind \<Rightarrow> string list \<Rightarrow> BuildValue option" where
  "value_strings kind vals =
     do { l \<leftarrow> StringList_values vals;
          let v = (value_plain kind 0)\<lparr>bv_stringValues := l\<rparr>;
          if kindHasStringList v then Some v else None }"

definition getStringListValues :: "BuildValue \<Rightarrow> string list option" where
  "getStringListValues v = (if kindHasStringList v then getValues (bv_stringValues v) else None)"

definition getNumOutputs :: "BuildValue \<Rightarrow> 32 word option" where
  "getNumOutputs v = (if kindHasOutputInfo v then Some (bv_numOutputInfos v) else None)"

definition getNthOutputInfo :: "BuildValue \<Rightarrow> nat \<Rightarrow> FileInfo option" where
  "getNthOutputInfo v n =
     do { num \<leftarrow> getNumOutputs v;
          if n < unat num
          then (if hasMultipleOutputs v
                then (case bv_valueData v of
                        AsOutputInfos (Some infos) \<Rightarrow> if n < length infos then Some (infos ! n) else None
                      | _ \<Rightarrow> None)
                else if n = 0 then (case bv_valueData v of AsOutputInfo i \<Rightarrow> Some i | _ \<Rightarrow> None) else None)
          else None }"

definition getOutputInfo :: "BuildValue \<Rightarrow> FileInfo option" where
  "getOutputInfo v =
     (if kindHasOutputInfo v \<and> \<not> hasMultipleOutputs v
      then (case bv_valueData v of AsOutputInfo i \<Rightarrow> Some i | _ \<Rightarrow> None) else None)"

text \<open>Moving and copying; a move returns what is left of the source as well.\<close>

definition move_valueData :: "BuildValue \<Rightarrow> ValueData" where
  "move_valueData rhs = (if hasMultipleOutputs rhs then AsOutputInfos None else bv_valueData rhs)"

definition value_move_assign :: "BuildValue \<Rightarrow> BuildValue \<Rightarrow> BuildValue \<times> BuildValue" where
  "value_move_assign self rhs =
     (let ss = (if kindHasStringList rhs then StringList_move_assign (bv_stringValues self) (bv_stringValues rhs)
                else (bv_stringValues self, bv_stringValues rhs)) in
      (self\<lparr>bv_kind := bv_kind rhs, bv_numOutputInfos := bv_numOutputInfos rhs, bv_signature := bv_signature rhs,
            bv_valueData := bv_valueData rhs, bv_stringValues := fst ss\<rparr>,
       rhs\<lparr>bv_valueData := move_valueData rhs, bv_stringValues := snd ss\<rparr>))"

definition value_move :: "BuildValue \<Rightarrow> BuildValue \<times> BuildValue" where
  "value_move rhs = value_move_assign (value_plain Invalid 0) rhs"

definition value_copy :: "BuildValue \<Rightarrow> BuildValue option" where
  "value_copy rhs =
     do { l \<leftarrow> (if kindHasStringList rhs
                then do { vs \<leftarrow> getValues (bv_stringValues rhs); StringList_values vs }
                else Some empty_StringList);
          data \<leftarrow> (if hasMultipleOutputs rhs
                   then (case bv_valueData rhs of AsOutputInfos (Some infos) \<Rightarrow> Some (AsOutputInfos (Some infos)) | _ \<Rightarrow> None)
                   else Some (bv_valueData rhs));
          Some \<lparr>bv_kind = bv_kind rhs, bv_numOutputInfos = bv_numOutputInfos rhs,
                bv_signature = bv_signature rhs, bv_valueData = data, bv_stringValues = l\<rparr> }"

section \<open>The factory functions\<close>

definition makeInvalid :: BuildValue where "makeInvalid = value_plain Invalid 0"
definition makeVirtualInput :: BuildValue where "makeVirtualInput = value_plain VirtualInput 0"
definition makeExistingInput :: "FileInfo \<Rightarrow> BuildValue option" where
  "makeExistingInput outputInfo = (if isMissing outputInfo then None else value_outputs ExistingInput [outputInfo] 0)"
definition makeMissingInput :: BuildValue where "makeMissingInput = value_plain MissingInput 0"
definition makeDirectoryContents :: "FileInfo \<Rightarrow> string list \<Rightarrow> BuildValue option" where
  "makeDirectoryContents directoryInfo vals = value_directory DirectoryContents directoryInfo vals"
definition makeDirectoryTreeSignature :: "CommandSignature \<Rightarrow> BuildValue" where
  "makeDirectoryTreeSignature sig = value_plain DirectoryTreeSignature sig"
definition makeDirectoryTreeStructureSignature :: "CommandSignature \<Rightarrow> BuildValue" where
  "makeDirectoryTreeStructureSignature sig = value_plain DirectoryTreeStructureSignature sig"
definition makeMissingOutput :: BuildValue where "makeMissingOutput = value_plain MissingOutput 0"
definition makeFailedInput :: BuildValue where "makeFailedInput = value_plain FailedInput 0"
definition makeSuccessfulCommand :: "FileInfo list \<Rightarrow> BuildValue option" where
  "makeSuccessfulCommand infos = value_outputs SuccessfulCommand infos 0"
definition makeFailedCommand :: BuildValue where "makeFailedCommand = value_plain FailedCommand 0"
definition makePropagatedFailureCommand :: BuildValue where
  "makePropagatedFailureCommand = value_plain PropagatedFailureCommand 0"
definition makeCancelledCommand :: BuildValue where "makeCancelledCommand = value_plain CancelledCommand 0"
definition makeSkippedCommand :: BuildValue where "makeSkippedCommand = value_plain SkippedCommand 0"
definition makeTarget :: BuildValue where "makeTarget = value_plain Target 0"
definition makeStaleFileRemoval :: "string list \<Rightarrow> BuildValue option" where
  "makeStaleFileRemoval vals = value_strings StaleFileRemoval vals"
definition makeFilteredDirectoryContents :: "string list \<Rightarrow> BuildValue option" where
  "makeFilteredDirectoryContents vals = value_strings FilteredDirectoryContents vals"
definition makeSuccessfulCommandWithOutputSignature ::
  "FileInfo list \<Rightarrow> CommandSignature \<Rightarrow> BuildValue option" where
  "makeSuccessfulCommandWithOutputSignature infos sig =
     value_outputs SuccessfulCommandWithOutputSignature infos sig"

lemmas make_defs = makeInvalid_def makeVirtualInput_def makeExistingInput_def makeMissingInput_def
  makeDirectoryContents_def makeDirectoryTreeSignature_def makeDirectoryTreeStructureSignature_def
  makeMissingOutput_def makeFailedInput_def makeSuccessfulCommand_def makeFailedCommand_def
  makePropagatedFailureCommand_def makeCancelledCommand_def makeSkippedCommand_def makeTarget_def
  makeStaleFileRemoval_def makeFilteredDirectoryContents_def makeSuccessfulCommandWithOutputSignature_def

section \<open>Conversion to bytes and back\<close>

text \<open>The loop that writes the output infos reads each of them through the accessor.\<close>

fun write_outputs :: "BuildValue \<Rightarrow> nat list \<Rightarrow> BinaryEncoder \<Rightarrow> BinaryEncoder option" where
  "write_outputs v [] e = Some e"
| "write_outputs v (i # is) e =
     do { info \<leftarrow> getNthOutputInfo v i; e1 \<leftarrow> write_FileInfo info e; write_outputs v is e1 }"

definition toData :: "BuildValue \<Rightarrow> ValueType option" where
  "toData v =
     do { e1 \<leftarrow> write_Kind (bv_kind v) [];
          let e2 = (if kindHasSignature v then write_CommandSignature (bv_signature v) e1 else e1);
          e3 \<leftarrow> (if kindHasOutputInfo v
                 then write_outputs v [0..<unat (bv_numOutputInfos v)] (write32 (bv_numOutputInfos v) e2)
                 else Some e2);
          (if kindHasStringList v then StringList_encode (bv_stringValues v) e3 else Some e3) }"

definition decoded_data :: "32 word \<Rightarrow> FileInfo list \<Rightarrow> ValueData" where
  "decoded_data n infos =
     (if n > 1 then AsOutputInfos (Some infos) else if n = 1 then AsOutputInfo (infos ! 0) else AsOutputInfo zero_info)"

text \<open>The three optional parts of a value of the given kind.\<close>

definition decode_signature :: "ValueKind \<Rightarrow> BinaryDecoder \<Rightarrow> (CommandSignature \<times> BinaryDecoder) option" where
  "decode_signature kind d = (if kindHasSignature (value_plain kind 0) then read_CommandSignature d else Some (0, d))"

definition decode_outputs :: "ValueKind \<Rightarrow> BinaryDecoder \<Rightarrow> (32 word \<times> FileInfo list \<times> BinaryDecoder) option" where
  "decode_outputs kind d =
     (if kindHasOutputInfo (value_plain kind 0)
      then do { (n, d1) \<leftarrow> read32 d; (infos, d2) \<leftarrow> read_each read_FileInfo (unat n) d1; Some (n, infos, d2) }
      else Some (0, [], d))"

definition decode_strings :: "ValueKind \<Rightarrow> BinaryDecoder \<Rightarrow> (StringList \<times> BinaryDecoder) option" where
  "decode_strings kind d = (if kindHasStringList (value_plain kind 0) then StringList_decode d else Some (empty_StringList, d))"

definition decode_BuildValue :: "BinaryDecoder \<Rightarrow> BuildValue option" where
  "decode_BuildValue d =
     (if isEmpty_decoder d then Some (value_plain Invalid 0)
      else do {
        (kind, d1) \<leftarrow> read_Kind d;
        (sig, d2) \<leftarrow> decode_signature kind d1;
        (n, infos, d3) \<leftarrow> decode_outputs kind d2;
        (strings, d4) \<leftarrow> decode_strings kind d3;
        _ \<leftarrow> finish d4;
        Some \<lparr>bv_kind = kind, bv_numOutputInfos = n, bv_signature = sig,
              bv_valueData = decoded_data n infos, bv_stringValues = strings\<rparr> })"

definition fromData :: "ValueType \<Rightarrow> BuildValue option" where
  "fromData bytes = decode_BuildValue (new_decoder bytes)"

section \<open>What a value stands for\<close>

text \<open>A kind that one byte can hold.\<close>

definition kind_ok :: "ValueKind \<Rightarrow> bool" where
  "kind_ok k = (case k of OtherKind n \<Rightarrow> 18 \<le> unat n \<and> unat n < 256 | _ \<Rightarrow> True)"

lemma kind_of_kind_number:
  assumes "kind_ok k"
  shows "kind_of_number (kind_number k) = k" "ucast (ucast (kind_number k) :: 8 word) = kind_number k"
proof -
  have small: "unat (kind_number k) < 256" using assms by (cases k) (simp_all add: kind_ok_def)
  show "kind_of_number (kind_number k) = k"
    using assms by (cases k) (simp_all add: kind_of_number_def enumerators_def kind_ok_def)
  show "ucast (ucast (kind_number k) :: 8 word) = kind_number k"
    using small by (intro word_unat_eq_iff [THEN iffD2]) (simp add: unsigned_ucast_eq unsigned_take_bit_eq take_bit_nat_eq_self)
qed

interpretation ckind: codec write_Kind read_Kind kind_ok "\<lambda>k. [ucast (kind_number k)]"
  by unfold_locales
    (auto simp: write_Kind_def Let_def write8_def read_Kind_def read8_Cons kind_of_kind_number)

text \<open>
  \<open>rep v infos vs\<close>: the value holds these output infos and these strings, and what its kind does not
  use is at its default.
\<close>

definition rep :: "BuildValue \<Rightarrow> FileInfo list \<Rightarrow> string list \<Rightarrow> bool" where
  "rep v infos vs = (kind_ok (bv_kind v) \<and>
     (kindHasSignature v \<or> bv_signature v = 0) \<and>
     length infos < 2 ^ 32 \<and> bv_numOutputInfos v = word_of_nat (length infos) \<and>
     bv_valueData v = decoded_data (word_of_nat (length infos)) infos \<and>
     (\<forall>i \<in> set infos. info_ok i) \<and> (kindHasOutputInfo v \<or> infos = []) \<and>
     holds (bv_stringValues v) vs \<and> fits vs \<and>
     (kindHasStringList v \<or> bv_stringValues v = empty_StringList \<and> vs = []))"

definition wf_value :: "BuildValue \<Rightarrow> bool" where
  "wf_value v = (\<exists>infos vs. rep v infos vs)"

text \<open>Values that differ at most in how their strings are stored.\<close>

definition same_value :: "BuildValue \<Rightarrow> BuildValue \<Rightarrow> bool" where
  "same_value v w = (bv_kind v = bv_kind w \<and> bv_signature v = bv_signature w \<and>
     bv_numOutputInfos v = bv_numOutputInfos w \<and> bv_valueData v = bv_valueData w \<and>
     getValues (bv_stringValues v) = getValues (bv_stringValues w))"

lemma unat_number: "length infos < 2 ^ 32 \<Longrightarrow> unat (word_of_nat (length infos) :: 32 word) = length infos"
  by (rule unat_word_of_nat) simp

lemma number_eq:
  assumes "length infos < 2 ^ 32"
  shows "(word_of_nat (length infos) :: 32 word) = 1 \<longleftrightarrow> length infos = 1"
    and "(word_of_nat (length infos) :: 32 word) > 1 \<longleftrightarrow> length infos > 1"
    and "(word_of_nat (length infos) :: 32 word) \<ge> 1 \<longleftrightarrow> length infos \<ge> 1"
  using unat_number [OF assms] by (simp_all add: word_unat_eq_iff word_less_nat_alt word_le_nat_alt)

lemma rep_number: "rep v infos vs \<Longrightarrow> unat (bv_numOutputInfos v) = length infos"
  using unat_number [of infos] by (simp add: rep_def)

lemma rep_nth:
  assumes "rep v infos vs" "kindHasOutputInfo v" "i < length infos"
  shows "getNthOutputInfo v i = Some (infos ! i)"
  using assms number_eq [of infos] unat_number [of infos]
  by (auto simp: rep_def getNthOutputInfo_def getNumOutputs_def hasMultipleOutputs_def decoded_data_def less_Suc_eq)

lemma rep_write_outputs:
  assumes "rep v infos vs" "kindHasOutputInfo v" "\<forall>i \<in> set is. i < length infos"
  shows "write_outputs v is e = Some (e @ concat (map (\<lambda>i. code_FileInfo (infos ! i)) is))"
  using assms(3)
proof (induction "is" arbitrary: e)
  case (Cons i "is")
  then have "info_ok (infos ! i)" using assms(1) by (simp add: rep_def)
  then show ?case using Cons rep_nth [OF assms(1,2)] by (simp add: cinfo.put_code)
qed simp

text \<open>The bytes of a value.\<close>

definition code_value :: "BuildValue \<Rightarrow> FileInfo list \<Rightarrow> string list \<Rightarrow> byte list" where
  "code_value v infos vs = ucast (kind_number (bv_kind v)) #
     (if kindHasSignature v then code64 (bv_signature v) else []) @
     (if kindHasOutputInfo v then code32 (bv_numOutputInfos v) @ concat (map code_FileInfo infos) else []) @
     (if kindHasStringList v then code_values vs else [])"

lemma write32_code: "write32 v e = e @ code32 v"
  using c32.put_code by simp

lemma toData_code:
  assumes "rep v infos vs"
  shows "toData v = Some (code_value v infos vs)"
proof -
  have k: "write_Kind (bv_kind v) [] = Some [ucast (kind_number (bv_kind v))]"
    using assms ckind.put_code by (simp add: rep_def)
  have n: "unat (bv_numOutputInfos v) = length infos" using assms by (rule rep_number)
  have "write_outputs v [0..<length infos] e = Some (e @ concat (map code_FileInfo infos))" if "kindHasOutputInfo v" for e
    using rep_write_outputs [OF assms that, of "[0..<length infos]" e]
    by (simp add: map_nth [symmetric] map_map [symmetric, unfolded comp_def] del: map_map)
      (metis map_map comp_def map_nth)
  moreover have "StringList_encode (bv_stringValues v) e = Some (e @ code_values vs)" for e
    using assms by (intro StringList_encode_code) (simp add: rep_def)
  ultimately show ?thesis using k n
    by (simp add: toData_def code_value_def Let_def write_CommandSignature_def write64_code write32_code)
qed

lemma kind_flags: "bv_kind v = bv_kind w \<Longrightarrow> kindHasSignature v = kindHasSignature w \<and>
  kindHasOutputInfo v = kindHasOutputInfo w \<and> kindHasStringList v = kindHasStringList w"
  by (simp add: kindHasSignature_def kindHasOutputInfo_def kindHasStringList_def isSuccessfulCommand_def)

text \<open>Decoding: the strings come back in a buffer of their own.\<close>

definition decoded_value :: "BuildValue \<Rightarrow> string list \<Rightarrow> BuildValue" where
  "decoded_value v vs = v\<lparr>bv_stringValues := (if kindHasStringList v
     then \<lparr>sl_contents = Some (pack vs), sl_size = length (pack vs)\<rparr> else empty_StringList)\<rparr>"

lemma fromData_code:
  assumes r: "rep v infos vs"
  shows "fromData (code_value v infos vs) = Some (decoded_value v vs)"
proof -
  let ?bs = "code_value v infos vs"
  let ?d = "new_decoder ?bs"
  let ?sig = "if kindHasSignature v then code64 (bv_signature v) else []"
  let ?out = "if kindHasOutputInfo v then code32 (bv_numOutputInfos v) @ concat (map code_FileInfo infos) else []"
  let ?str = "if kindHasStringList v then code_values vs else []"
  have n: "unat (bv_numOutputInfos v) = length infos" using r by (rule rep_number)
  have flags: "kindHasSignature (value_plain (bv_kind v) 0) = kindHasSignature v"
    "kindHasOutputInfo (value_plain (bv_kind v) 0) = kindHasOutputInfo v"
    "kindHasStringList (value_plain (bv_kind v) 0) = kindHasStringList v"
    using kind_flags [of "value_plain (bv_kind v) 0" v] by (simp_all add: value_plain_def)
  have ne: "\<not> isEmpty_decoder ?d" by (simp add: isEmpty_decoder_def new_decoder_def code_value_def)
  have "inside ?d" "remaining ?d = [ucast (kind_number (bv_kind v))] @ (?sig @ ?out @ ?str)" by (simp_all add: code_value_def)
  moreover have "kind_ok (bv_kind v)" using r by (simp add: rep_def)
  ultimately obtain d1 where d1: "read_Kind ?d = Some (bv_kind v, d1)" "inside d1" "remaining d1 = ?sig @ ?out @ ?str"
      "d1 = advance 1 ?d" using ckind.get_step [of "bv_kind v" ?d "?sig @ ?out @ ?str"] by auto
  obtain d2 where d2: "decode_signature (bv_kind v) d1 = Some (bv_signature v, d2)"
      "inside d2" "remaining d2 = ?out @ ?str" "d2 = advance (length ?sig) d1"
    using r d1 c64.get_step [of d1 "bv_signature v" "?out @ ?str"]
    by (cases "kindHasSignature v") (auto simp: decode_signature_def flags read_CommandSignature_def rep_def)
  obtain d3 where d3: "decode_outputs (bv_kind v) d2 = Some (bv_numOutputInfos v, infos, d3)"
      "inside d3" "remaining d3 = ?str" "d3 = advance (length ?out) d2"
  proof (cases "kindHasOutputInfo v")
    case True
    then have rd: "remaining d2 = code32 (bv_numOutputInfos v) @ (concat (map code_FileInfo infos) @ ?str)" using d2(3) by simp
    from c32.get_step [OF TrueI d2(2) rd] obtain d' where d': "read32 d2 = Some (bv_numOutputInfos v, d')" "inside d'"
      "remaining d' = concat (map code_FileInfo infos) @ ?str" "d' = advance 4 d2" by auto
    have "read_each read_FileInfo (length infos) d' = Some (infos, advance (length (concat (map code_FileInfo infos))) d')"
      using r d'(2,3) by (intro cinfo.get_each_code) (auto simp: rep_def)
    then show thesis using that [of "advance (length ?out) d2"] True d' n
        inside_advance [OF d'(2,3)] remaining_advance_append [OF d'(3)] by (simp add: decode_outputs_def flags)
  next
    case False
    then show thesis using that [of d2] r d2 by (simp add: decode_outputs_def flags rep_def)
  qed
  obtain d4 where d4: "decode_strings (bv_kind v) d3 = Some (bv_stringValues (decoded_value v vs), d4)" "d4 = advance (length ?str) d3"
    using r d3 StringList_decode_code [of vs d3 "[]"] by (cases "kindHasStringList v") (auto simp: decode_strings_def flags decoded_value_def rep_def)
  have "d4 = advance (length ?bs) ?d" unfolding d4(2) d3(4) d2(4) d1(4) by (simp add: code_value_def)
  then have fin: "finish d4 = Some ()" by (simp add: finish_def isEmpty_advance_new)
  have data: "decoded_data (bv_numOutputInfos v) infos = bv_valueData v" using r by (simp add: rep_def)
  show ?thesis
    unfolding fromData_def decode_BuildValue_def
    using ne d1(1) d2(1) d3(1) d4(1) fin data by (simp add: decoded_value_def)
qed

lemma decoded_same:
  assumes "rep v infos vs"
  shows "rep (decoded_value v vs) infos vs" "same_value v (decoded_value v vs)"
proof -
  let ?l = "\<lparr>sl_contents = Some (pack vs), sl_size = length (pack vs)\<rparr>"
  have h: "holds (bv_stringValues v) vs" "no_nul vs" using assms by (simp_all add: rep_def fits_def)
  then have l: "holds ?l vs" "getValues ?l = Some vs" using holds_decoded holds_getValues by blast+
  show "rep (decoded_value v vs) infos vs"
    using assms l(1) h(1) kind_flags [of "decoded_value v vs" v]
    by (cases "kindHasStringList v") (auto simp: rep_def decoded_value_def)
  show "same_value v (decoded_value v vs)"
    using assms l(2) holds_getValues [OF h(1)] by (auto simp: same_value_def decoded_value_def rep_def)
qed

section \<open>The factory functions make well-formed values\<close>

lemma rep_plain:
  "kind_ok k \<Longrightarrow> kindHasSignature (value_plain k 0) \<or> sig = 0 \<Longrightarrow> rep (value_plain k sig) [] []"
  using holds_empty by (auto simp: rep_def value_plain_def decoded_data_def fits_def kindHasSignature_def)

lemma rep_outputs:
  assumes "value_outputs k infos sig = Some v" "length infos < 2 ^ 32" "\<forall>i \<in> set infos. info_ok i"
    and "kind_ok k" "kindHasOutputInfo (value_plain k 0)" "kindHasSignature (value_plain k 0) \<or> sig = 0"
  shows "rep v infos []"
proof -
  note n = number_eq [OF assms(2)] unat_number [OF assms(2)]
  from assms(1) n have v: "v = (value_plain k sig)\<lparr>bv_numOutputInfos := word_of_nat (length infos),
      bv_valueData := decoded_data (word_of_nat (length infos)) infos\<rparr>"
    by (auto simp: value_outputs_def Let_def decoded_data_def split: if_splits)
  then have "bv_kind v = k" by (simp add: value_plain_def)
  then have "kindHasSignature v = kindHasSignature (value_plain k 0)" "kindHasOutputInfo v = kindHasOutputInfo (value_plain k 0)"
    using kind_flags [of v "value_plain k 0"] by (simp_all add: value_plain_def)
  then show ?thesis using assms(2-6) holds_empty by (auto simp: rep_def v value_plain_def fits_def)
qed

lemma rep_strings:
  assumes "value_strings k vs = Some v" "length (pack vs) < 2 ^ 64" "kind_ok k"
  shows "rep v [] vs"
proof -
  from assms(1) obtain l where l: "StringList_values vs = Some l" "v = (value_plain k 0)\<lparr>bv_stringValues := l\<rparr>" "kindHasStringList v"
    by (auto simp: value_strings_def Let_def split: if_splits)
  then have "holds l vs" "fits vs" using holds_values assms(2) by (auto simp: fits_def holds_def)
  then show ?thesis using assms(3) l by (simp add: rep_def value_plain_def decoded_data_def)
qed

lemma rep_directory:
  assumes "value_directory k i vs = Some v" "length (pack vs) < 2 ^ 64" "kind_ok k" "info_ok i" "kindHasOutputInfo (value_plain k 0)"
  shows "rep v [i] vs"
proof -
  from assms(1) obtain v0 l where v: "value_outputs k [i] 0 = Some v0" "kindHasStringList v0" "StringList_values vs = Some l"
      "v = v0\<lparr>bv_stringValues := fst (StringList_move_assign (bv_stringValues v0) l)\<rparr>"
    by (auto simp: value_directory_def split: if_splits)
  have "rep v0 [i] []" using assms(3-5) by (intro rep_outputs [OF v(1)]) simp_all
  moreover have "holds (bv_stringValues v) vs" "fits vs"
    using holds_values [OF v(3)] assms(2) holds_move_assign by (auto simp: v(4) fits_def holds_def)
  ultimately show ?thesis using v(2) kind_flags [of v v0] by (simp add: rep_def v(4))
qed

lemma rep_copy:
  assumes "rep v infos vs"
  shows "\<exists>w. value_copy v = Some w \<and> rep w infos vs \<and> same_value v w"
proof -
  have h: "holds (bv_stringValues v) vs" "no_nul vs" using assms by (auto simp: rep_def holds_def)
  then obtain l where l: "StringList_values vs = Some l" by (auto simp: StringList_values_pack)
  let ?l = "if kindHasStringList v then l else empty_StringList"
  have "(if hasMultipleOutputs v
      then (case bv_valueData v of AsOutputInfos (Some infos) \<Rightarrow> Some (AsOutputInfos (Some infos)) | _ \<Rightarrow> None)
      else Some (bv_valueData v)) = Some (bv_valueData v)"
    using assms by (auto simp: rep_def hasMultipleOutputs_def decoded_data_def)
  then have c: "value_copy v = Some (v\<lparr>bv_stringValues := ?l\<rparr>)"
    using l holds_getValues [OF h(1)] by (simp add: value_copy_def del: bind_eq_Some_iff)
  have hl: "holds ?l (if kindHasStringList v then vs else [])" using holds_values [OF l] holds_empty by simp
  moreover have "kindHasStringList v \<or> vs = []" using assms by (auto simp: rep_def)
  ultimately have "holds ?l vs" by (cases "kindHasStringList v") simp_all
  then have "rep (v\<lparr>bv_stringValues := ?l\<rparr>) infos vs" "getValues ?l = Some vs"
    using assms kind_flags [of "v\<lparr>bv_stringValues := ?l\<rparr>" v] holds_getValues by (auto simp: rep_def)
  with c show ?thesis using holds_getValues [OF h(1)] by (simp add: same_value_def)
qed

lemma rep_move:
  assumes "rep v infos vs"
  shows "rep (fst (value_move v)) infos vs" "same_value v (fst (value_move v))"
proof -
  let ?w = "fst (value_move v)"
  have w: "?w = v\<lparr>bv_stringValues := (if kindHasStringList v then bv_stringValues v else empty_StringList)\<rparr>"
    by (simp add: value_move_def value_move_assign_def Let_def value_plain_def StringList_move_assign_def)
  have "bv_stringValues v = bv_stringValues ?w" using assms by (auto simp: w rep_def)
  then have "?w = v" by (simp add: w)
  then show "rep ?w infos vs" "same_value v ?w" using assms by (simp_all add: same_value_def)
qed

section \<open>Properties\<close>

text \<open>
  C11. Every value the factory functions make is well formed: it stores as many output infos as it
  counts, its strings are packed without null characters, and what its kind does not use is at its
  default.  The sizes must fit the counters of the encoding.
\<close>

theorem make_well_formed:
  assumes "length infos < 2 ^ 32" "\<forall>i \<in> set infos. info_ok i" "info_ok i" "length (pack vs) < 2 ^ 64"
    and "v \<in> {makeInvalid, makeVirtualInput, makeMissingInput, makeDirectoryTreeSignature sig,
      makeDirectoryTreeStructureSignature sig, makeMissingOutput, makeFailedInput, makeFailedCommand,
      makePropagatedFailureCommand, makeCancelledCommand, makeSkippedCommand, makeTarget} \<or>
    Some v \<in> {makeExistingInput i, makeDirectoryContents i vs, makeSuccessfulCommand infos,
      makeStaleFileRemoval vs, makeFilteredDirectoryContents vs,
      makeSuccessfulCommandWithOutputSignature infos sig}"
  shows "wf_value v"
proof -
  have k: "kind_ok k" if "k \<in> set enumerators" for k using that by (auto simp: enumerators_def kind_ok_def)
  note flags = kindHasSignature_def kindHasOutputInfo_def isSuccessfulCommand_def value_plain_def enumerators_def
  from assms(5) show ?thesis
  proof
    assume "v \<in> {makeInvalid, makeVirtualInput, makeMissingInput, makeDirectoryTreeSignature sig,
      makeDirectoryTreeStructureSignature sig, makeMissingOutput, makeFailedInput, makeFailedCommand,
      makePropagatedFailureCommand, makeCancelledCommand, makeSkippedCommand, makeTarget}"
    then have "rep v [] []"
      by (auto simp: make_defs intro!: rep_plain k) (simp_all add: flags)
    then show ?thesis by (auto simp: wf_value_def)
  next
    assume "Some v \<in> {makeExistingInput i, makeDirectoryContents i vs, makeSuccessfulCommand infos,
      makeStaleFileRemoval vs, makeFilteredDirectoryContents vs, makeSuccessfulCommandWithOutputSignature infos sig}"
    then consider "value_outputs ExistingInput [i] 0 = Some v" | "value_directory DirectoryContents i vs = Some v"
      | "value_outputs SuccessfulCommand infos 0 = Some v" | "value_strings StaleFileRemoval vs = Some v"
      | "value_strings FilteredDirectoryContents vs = Some v" | "value_outputs SuccessfulCommandWithOutputSignature infos sig = Some v"
      by (auto simp: make_defs split: if_splits)
    then show ?thesis
    proof cases
      case 1
      have "rep v [i] []" using assms(3) by (intro rep_outputs [OF 1] k) (simp_all add: flags)
      then show ?thesis by (auto simp: wf_value_def)
    next
      case 2
      have "rep v [i] vs" using assms(3,4) by (intro rep_directory [OF 2] k) (simp_all add: flags)
      then show ?thesis by (auto simp: wf_value_def)
    next
      case 3
      have "rep v infos []" using assms(1,2) by (intro rep_outputs [OF 3] k) (simp_all add: flags)
      then show ?thesis by (auto simp: wf_value_def)
    next
      case 4
      have "rep v [] vs" using assms(4) by (intro rep_strings [OF 4] k) (simp_all add: flags)
      then show ?thesis by (auto simp: wf_value_def)
    next
      case 5
      have "rep v [] vs" using assms(4) by (intro rep_strings [OF 5] k) (simp_all add: flags)
      then show ?thesis by (auto simp: wf_value_def)
    next
      case 6
      have "rep v infos []" using assms(1,2) by (intro rep_outputs [OF 6] k) (simp_all add: flags)
      then show ?thesis by (auto simp: wf_value_def)
    qed
  qed
qed

theorem make_well_formed_witness:
  "\<exists>v. makeSuccessfulCommand [zero_info, zero_info] = Some v \<and> wf_value v"
proof -
  have z: "info_ok zero_info" by (simp add: info_ok_def zero_info_def zero_checksum_def is_checksum_def)
  obtain v where "makeSuccessfulCommand [zero_info, zero_info] = Some v"
    by (auto simp: makeSuccessfulCommand_def value_outputs_def Let_def)
  with make_well_formed [of "[zero_info, zero_info]" zero_info "[]" v 0] z show ?thesis by simp
qed

text \<open>
  C9.  The conversion to the engine's byte vectors is faithful: a well-formed value is encoded without
  a fault, and decoding gives it back, with its strings repacked; two values have the same bytes only
  if they are the same value, so that the engine's comparison of bytes compares values.
\<close>

theorem BuildValue_roundtrip:
  assumes "wf_value v" "wf_value w"
  shows "\<exists>bytes v'. toData v = Some bytes \<and> bytes \<noteq> [] \<and> fromData bytes = Some v' \<and> same_value v v' \<and> wf_value v' \<and>
    (toData w = Some bytes \<longrightarrow> same_value v w)"
proof -
  from assms obtain infos vs infos2 vs2 where r: "rep v infos vs" "rep w infos2 vs2" by (auto simp: wf_value_def)
  note d = decoded_same [OF r(1)] and e = decoded_same [OF r(2)]
  have "same_value v w" if "toData w = Some (code_value v infos vs)"
  proof -
    have "code_value w infos2 vs2 = code_value v infos vs" using that toData_code [OF r(2)] by simp
    then have "decoded_value w vs2 = decoded_value v vs" using fromData_code [OF r(1)] fromData_code [OF r(2)] by simp
    then show ?thesis using d(2) e(2) by (simp add: same_value_def)
  qed
  moreover have "code_value v infos vs \<noteq> []" by (simp add: code_value_def)
  ultimately show ?thesis using toData_code [OF r(1)] fromData_code [OF r(1)] d by (auto simp: wf_value_def)
qed

theorem BuildValue_roundtrip_witness:
  "\<exists>v bytes v'. makeStaleFileRemoval [''a.o'', ''b.o''] = Some v \<and> toData v = Some bytes \<and> fromData bytes = Some v' \<and>
     getStringListValues v' = Some [''a.o'', ''b.o'']"
proof -
  obtain v where v: "makeStaleFileRemoval [''a.o'', ''b.o''] = Some v"
    by (auto simp: makeStaleFileRemoval_def value_strings_def StringList_values_pack kindHasStringList_def value_plain_def)
  then have r: "rep v [] [''a.o'', ''b.o'']"
    by (intro rep_strings [of StaleFileRemoval]) (simp_all add: makeStaleFileRemoval_def kind_ok_def)
  then have "wf_value v" by (auto simp: wf_value_def)
  from BuildValue_roundtrip [OF this this] obtain bytes v' where
    b: "toData v = Some bytes" "fromData bytes = Some v'" "same_value v v'" by blast
  have "getValues (bv_stringValues v') = Some [''a.o'', ''b.o'']" "bv_kind v' = StaleFileRemoval"
    using b(3) r holds_getValues v
    by (auto simp: same_value_def rep_def makeStaleFileRemoval_def value_strings_def value_plain_def Let_def split: if_splits)
  then show ?thesis using v b by (auto simp: getStringListValues_def kindHasStringList_def)
qed

text \<open>
  Copying and moving keep the value: the copy constructor and the move constructor succeed on a
  well-formed value and deliver a well-formed value that is the same.
\<close>

theorem BuildValue_copy_move:
  assumes "wf_value v"
  shows "(\<exists>w. value_copy v = Some w \<and> wf_value w \<and> same_value v w) \<and>
    wf_value (fst (value_move v)) \<and> same_value v (fst (value_move v))"
  using assms rep_copy rep_move unfolding wf_value_def by metis

theorem BuildValue_copy_move_witness:
  "\<exists>w. value_copy (makeDirectoryTreeSignature 5) = Some w \<and> same_value (makeDirectoryTreeSignature 5) w"
proof -
  have "wf_value (makeDirectoryTreeSignature 5)"
    unfolding wf_value_def makeDirectoryTreeSignature_def
    by (rule exI [of _ "[]"], rule exI [of _ "[]"], rule rep_plain) (simp_all add: kind_ok_def kindHasSignature_def value_plain_def)
  from BuildValue_copy_move [OF this] show ?thesis by blast
qed

end
