(* ===== verification/Build_Key.thy ===== *)
theory Build_Key
  imports String_List
begin

text \<open>
  The key space of the build system (\<^verbatim>\<open>include/builra/BuildSystem/BuildKey.h\<close>,
  \<^verbatim>\<open>lib/BuildSystem/BuildKey.cpp\<close>).  A key is a string whose first character is its
  kind; the kinds with two parts store the size of the first part in the byte order of the host,
  which is a parameter.  An operation returns \<open>None\<close> where the code fails an assertion or reads
  outside the key.
\<close>

section \<open>Kinds\<close>

datatype KeyKind =
    KCommand | KCustomTask | KDirectoryContents | KFilteredDirectoryContents
  | KDirectoryTreeSignature | KDirectoryTreeStructureSignature | KNode | KStat | KTarget | KUnknown

definition kindForIdentifier :: "char \<Rightarrow> KeyKind" where
  "kindForIdentifier c =
     (if c = CHR ''C'' then KCommand
      else if c = CHR ''D'' then KDirectoryContents
      else if c = CHR ''d'' then KFilteredDirectoryContents
      else if c = CHR ''N'' then KNode
      else if c = CHR ''I'' then KStat
      else if c = CHR ''S'' then KDirectoryTreeSignature
      else if c = CHR ''s'' then KDirectoryTreeStructureSignature
      else if c = CHR ''T'' then KTarget
      else if c = CHR ''X'' then KCustomTask
      else KUnknown)"

fun identifierForKind :: "KeyKind \<Rightarrow> char" where
  "identifierForKind KCommand = CHR ''C''"
| "identifierForKind KDirectoryContents = CHR ''D''"
| "identifierForKind KFilteredDirectoryContents = CHR ''d''"
| "identifierForKind KNode = CHR ''N''"
| "identifierForKind KStat = CHR ''I''"
| "identifierForKind KDirectoryTreeSignature = CHR ''S''"
| "identifierForKind KDirectoryTreeStructureSignature = CHR ''s''"
| "identifierForKind KTarget = CHR ''T''"
| "identifierForKind KCustomTask = CHR ''X''"
| "identifierForKind KUnknown = CHR '' ''"

fun stringForKind :: "KeyKind \<Rightarrow> string" where
  "stringForKind KCommand = ''Command''"
| "stringForKind KCustomTask = ''CustomTask''"
| "stringForKind KDirectoryContents = ''DirectoryContents''"
| "stringForKind KFilteredDirectoryContents = ''FilteredDirectoryContents''"
| "stringForKind KDirectoryTreeSignature = ''DirectoryTreeSignature''"
| "stringForKind KDirectoryTreeStructureSignature = ''DirectoryTreeStructureSignature''"
| "stringForKind KNode = ''Node''"
| "stringForKind KStat = ''Stat''"
| "stringForKind KTarget = ''Target''"
| "stringForKind KUnknown = ''Unknown''"

section \<open>Making keys\<close>

datatype endian = Little | Big

text \<open>The bytes of a 32-bit integer in memory, and \<^verbatim>\<open>memcpy\<close> back into one.\<close>

definition host_bytes :: "endian \<Rightarrow> 32 word \<Rightarrow> byte list" where
  "host_bytes en w = (case en of Little \<Rightarrow> code32 w | Big \<Rightarrow> rev (code32 w))"

definition host_word :: "endian \<Rightarrow> byte list \<Rightarrow> 32 word option" where
  "host_word en bs =
     map_option fst (read32 (new_decoder (case en of Little \<Rightarrow> bs | Big \<Rightarrow> rev bs)))"

definition key_simple :: "char \<Rightarrow> string \<Rightarrow> KeyType" where
  "key_simple kindCode str = kindCode # str"

text \<open>\<open>data\<close> is what the encoder holds after writing the second part.\<close>

definition key_with_data :: "endian \<Rightarrow> char \<Rightarrow> string \<Rightarrow> byte list \<Rightarrow> KeyType option" where
  "key_with_data en kindCode name data =
     (let nameSize = (word_of_nat (length name) :: 32 word);
          dataSize = (word_of_nat (length data) :: 32 word) in
      if 1 + 4 + unat nameSize + unat dataSize < 2 ^ 32
      then Some (kindCode # string_of_bytes (host_bytes en nameSize) @ take (unat nameSize) name @
                 string_of_bytes (take (unat dataSize) data))
      else None)"

definition makeCommand :: "string \<Rightarrow> KeyType" where
  "makeCommand name = key_simple (identifierForKind KCommand) name"
definition makeCustomTask :: "endian \<Rightarrow> string \<Rightarrow> string \<Rightarrow> KeyType option" where
  "makeCustomTask en name taskData =
     key_with_data en (identifierForKind KCustomTask) name (writeBytes taskData [])"
definition makeDirectoryContentsKey :: "string \<Rightarrow> KeyType" where
  "makeDirectoryContentsKey path = key_simple (identifierForKind KDirectoryContents) path"
definition makeFilteredDirectoryContentsKey :: "endian \<Rightarrow> string \<Rightarrow> StringList \<Rightarrow> KeyType option" where
  "makeFilteredDirectoryContentsKey en path filters =
     do { e \<leftarrow> StringList_encode filters []; key_with_data en (identifierForKind KFilteredDirectoryContents) path e }"
definition makeDirectoryTreeSignatureKey :: "endian \<Rightarrow> string \<Rightarrow> StringList \<Rightarrow> KeyType option" where
  "makeDirectoryTreeSignatureKey en path filters =
     do { e \<leftarrow> StringList_encode filters []; key_with_data en (identifierForKind KDirectoryTreeSignature) path e }"
definition makeDirectoryTreeStructureSignatureKey :: "endian \<Rightarrow> string \<Rightarrow> StringList \<Rightarrow> KeyType option" where
  "makeDirectoryTreeStructureSignatureKey en path filters =
     do { e \<leftarrow> StringList_encode filters []; key_with_data en (identifierForKind KDirectoryTreeStructureSignature) path e }"
definition makeNode :: "string \<Rightarrow> KeyType" where
  "makeNode path = key_simple (identifierForKind KNode) path"
definition makeStat :: "string \<Rightarrow> KeyType" where
  "makeStat path = key_simple (identifierForKind KStat) path"
definition makeTargetKey :: "string \<Rightarrow> KeyType" where
  "makeTargetKey name = key_simple (identifierForKind KTarget) name"

section \<open>Reading keys\<close>

text \<open>The character behind the end of a \<^verbatim>\<open>std::string\<close> is the null character.\<close>

definition getKeyKind :: "KeyType \<Rightarrow> KeyKind" where
  "getKeyKind key = kindForIdentifier (case key of [] \<Rightarrow> NUL | c # _ \<Rightarrow> c)"

definition simple_part :: "KeyKind \<Rightarrow> KeyType \<Rightarrow> string option" where
  "simple_part k key = (if getKeyKind key = k then Some (drop 1 key) else None)"

definition getCommandName :: "KeyType \<Rightarrow> string option" where "getCommandName = simple_part KCommand"
definition getDirectoryPath :: "KeyType \<Rightarrow> string option" where "getDirectoryPath = simple_part KDirectoryContents"
definition getNodeName :: "KeyType \<Rightarrow> string option" where "getNodeName = simple_part KNode"
definition getStatName :: "KeyType \<Rightarrow> string option" where "getStatName = simple_part KStat"
definition getTargetName :: "KeyType \<Rightarrow> string option" where "getTargetName = simple_part KTarget"

definition key_name_size :: "endian \<Rightarrow> KeyType \<Rightarrow> 32 word option" where
  "key_name_size en key =
     (if 5 \<le> length key then host_word en (bytes_of_string (take 4 (drop 1 key))) else None)"

definition name_part :: "endian \<Rightarrow> KeyType \<Rightarrow> string option" where
  "name_part en key =
     do { nameSize \<leftarrow> key_name_size en key;
          if 5 + unat nameSize \<le> length key then Some (take (unat nameSize) (drop 5 key)) else None }"

definition data_part :: "endian \<Rightarrow> KeyType \<Rightarrow> string option" where
  "data_part en key =
     do { nameSize \<leftarrow> key_name_size en key;
          let dataSize = (word_of_nat (length key) - 1 - 4 - nameSize :: 32 word);
          if 5 + unat nameSize + unat dataSize \<le> length key
          then Some (take (unat dataSize) (drop (5 + unat nameSize) key)) else None }"

definition getCustomTaskName :: "endian \<Rightarrow> KeyType \<Rightarrow> string option" where
  "getCustomTaskName en key = (if getKeyKind key = KCustomTask then name_part en key else None)"
definition getCustomTaskData :: "endian \<Rightarrow> KeyType \<Rightarrow> string option" where
  "getCustomTaskData en key = (if getKeyKind key = KCustomTask then data_part en key else None)"
definition getDirectoryTreeSignaturePath :: "endian \<Rightarrow> KeyType \<Rightarrow> string option" where
  "getDirectoryTreeSignaturePath en key = (if getKeyKind key = KDirectoryTreeSignature then name_part en key else None)"
definition getFilteredDirectoryPath :: "endian \<Rightarrow> KeyType \<Rightarrow> string option" where
  "getFilteredDirectoryPath en key =
     (if getKeyKind key = KFilteredDirectoryContents \<or> getKeyKind key = KDirectoryTreeStructureSignature
      then name_part en key else None)"
definition getContentExclusionPatterns :: "endian \<Rightarrow> KeyType \<Rightarrow> string option" where
  "getContentExclusionPatterns en key =
     (if getKeyKind key = KDirectoryTreeSignature \<or> getKeyKind key = KDirectoryTreeStructureSignature \<or>
         getKeyKind key = KFilteredDirectoryContents
      then data_part en key else None)"
definition getContentExclusionPatternsAsStringList :: "endian \<Rightarrow> KeyType \<Rightarrow> StringList option" where
  "getContentExclusionPatternsAsStringList en key =
     do { s \<leftarrow> getContentExclusionPatterns en key;
          (l, _) \<leftarrow> StringList_decode (new_decoder (bytes_of_string s));
          Some l }"

definition key_fromData :: "KeyType \<Rightarrow> KeyType option" where
  "key_fromData key = (if getKeyKind key \<noteq> KUnknown then Some key else None)"

section \<open>Printing keys\<close>

fun show_nat :: "nat \<Rightarrow> string" where
  "show_nat n = (if n < 10 then [char_of (48 + n)] else show_nat (n div 10) @ [char_of (48 + n mod 10)])"

declare show_nat.simps [simp del]

definition dump_field :: "string \<Rightarrow> string option \<Rightarrow> string option" where
  "dump_field label part = map_option (\<lambda>s. '', '' @ label @ [CHR ''='', CHR 0x27] @ s @ [CHR 0x27]) part"

definition dump_key :: "endian \<Rightarrow> KeyType \<Rightarrow> string option" where
  "dump_key en key =
     do { body \<leftarrow> (case getKeyKind key of
              KCommand \<Rightarrow> dump_field ''name'' (getCommandName key)
            | KCustomTask \<Rightarrow>
                do { a \<leftarrow> dump_field ''name'' (getCustomTaskName en key);
                     b \<leftarrow> dump_field ''dataSize'' (map_option (\<lambda>s. show_nat (length s)) (getCustomTaskData en key));
                     Some (a @ b) }
            | KDirectoryContents \<Rightarrow> dump_field ''path'' (getDirectoryPath key)
            | KDirectoryTreeSignature \<Rightarrow> dump_field ''path'' (getDirectoryPath key)
            | KDirectoryTreeStructureSignature \<Rightarrow> dump_field ''path'' (getFilteredDirectoryPath en key)
            | KFilteredDirectoryContents \<Rightarrow> dump_field ''path'' (getFilteredDirectoryPath en key)
            | KNode \<Rightarrow> dump_field ''name'' (getNodeName key)
            | KStat \<Rightarrow> dump_field ''name'' (getStatName key)
            | KTarget \<Rightarrow> dump_field ''name'' (getTargetName key)
            | KUnknown \<Rightarrow> Some []);
          Some (''BuildKey('' @ stringForKind (getKeyKind key) @ body @ '')'') }"

section \<open>The keys are a faithful image of what they name\<close>

text \<open>What a key stands for.\<close>

datatype key_spec =
    SCommand string | SCustomTask string string | SDirectoryContents string
  | SFilteredDirectoryContents string "string list" | SDirectoryTreeSignature string "string list"
  | SDirectoryTreeStructureSignature string "string list" | SNode string | SStat string | STarget string

fun make_key :: "endian \<Rightarrow> key_spec \<Rightarrow> KeyType option" where
  "make_key en (SCommand n) = Some (makeCommand n)"
| "make_key en (SCustomTask n d) = makeCustomTask en n d"
| "make_key en (SDirectoryContents p) = Some (makeDirectoryContentsKey p)"
| "make_key en (SFilteredDirectoryContents p fs) =
     do { l \<leftarrow> StringList_values fs; makeFilteredDirectoryContentsKey en p l }"
| "make_key en (SDirectoryTreeSignature p fs) =
     do { l \<leftarrow> StringList_values fs; makeDirectoryTreeSignatureKey en p l }"
| "make_key en (SDirectoryTreeStructureSignature p fs) =
     do { l \<leftarrow> StringList_values fs; makeDirectoryTreeStructureSignatureKey en p l }"
| "make_key en (SNode p) = Some (makeNode p)"
| "make_key en (SStat p) = Some (makeStat p)"
| "make_key en (STarget n) = Some (makeTargetKey n)"

text \<open>What the accessors read from a key.\<close>

definition key_filters :: "endian \<Rightarrow> KeyType \<Rightarrow> string list option" where
  "key_filters en key = do { l \<leftarrow> getContentExclusionPatternsAsStringList en key; getValues l }"

definition read_key :: "endian \<Rightarrow> KeyType \<Rightarrow> key_spec option" where
  "read_key en key =
     (case getKeyKind key of
        KCommand \<Rightarrow> map_option SCommand (getCommandName key)
      | KCustomTask \<Rightarrow> do { n \<leftarrow> getCustomTaskName en key; d \<leftarrow> getCustomTaskData en key; Some (SCustomTask n d) }
      | KDirectoryContents \<Rightarrow> map_option SDirectoryContents (getDirectoryPath key)
      | KFilteredDirectoryContents \<Rightarrow>
          do { p \<leftarrow> getFilteredDirectoryPath en key; fs \<leftarrow> key_filters en key; Some (SFilteredDirectoryContents p fs) }
      | KDirectoryTreeSignature \<Rightarrow>
          do { p \<leftarrow> getDirectoryTreeSignaturePath en key; fs \<leftarrow> key_filters en key; Some (SDirectoryTreeSignature p fs) }
      | KDirectoryTreeStructureSignature \<Rightarrow>
          do { p \<leftarrow> getFilteredDirectoryPath en key; fs \<leftarrow> key_filters en key; Some (SDirectoryTreeStructureSignature p fs) }
      | KNode \<Rightarrow> map_option SNode (getNodeName key)
      | KStat \<Rightarrow> map_option SStat (getStatName key)
      | KTarget \<Rightarrow> map_option STarget (getTargetName key)
      | KUnknown \<Rightarrow> None)"

fun spec_fits :: "key_spec \<Rightarrow> bool" where
  "spec_fits (SCustomTask n d) = (5 + length n + length d < 2 ^ 32)"
| "spec_fits (SFilteredDirectoryContents p fs) = (13 + length p + length (pack fs) < 2 ^ 32)"
| "spec_fits (SDirectoryTreeSignature p fs) = (13 + length p + length (pack fs) < 2 ^ 32)"
| "spec_fits (SDirectoryTreeStructureSignature p fs) = (13 + length p + length (pack fs) < 2 ^ 32)"
| "spec_fits _ = True"

lemma kind_identifier: "k \<noteq> KUnknown \<Longrightarrow> kindForIdentifier (identifierForKind k) = k"
  by (cases k) (simp_all add: kindForIdentifier_def)

lemma host_roundtrip: "host_word en (host_bytes en w) = Some w"
  using c32.get_code [of "new_decoder (code32 w)" w "[]"] by (cases en) (simp_all add: host_word_def host_bytes_def)

lemma length_host_bytes [simp]: "length (host_bytes en w) = 4"
  by (cases en) (simp_all add: host_bytes_def)

lemma byte_of_char_of_byte [simp]: "byte_of_char (char_of_byte b) = b"
proof -
  have "unat b < 2 ^ 8" using unsigned_less [of b] by simp
  then show ?thesis by (simp add: byte_of_char_def char_of_byte_def)
qed

lemma bytes_of_string_of_bytes [simp]: "bytes_of_string (string_of_bytes bs) = bs"
  by (induction bs) (simp_all add: string_of_bytes_def bytes_of_string_def)

lemma key_parts:
  assumes "key_with_data en c name data = Some key" "5 + length name + length data < 2 ^ 32"
  shows "hd key = c" "key \<noteq> []" "name_part en key = Some name" "data_part en key = Some (string_of_bytes data)"
proof -
  have n: "unat (word_of_nat (length name) :: 32 word) = length name" "unat (word_of_nat (length data) :: 32 word) = length data"
    using assms(2) by (simp_all add: unat_word_of_nat)
  then have key: "key = c # string_of_bytes (host_bytes en (word_of_nat (length name))) @ name @ string_of_bytes data"
    using assms by (simp add: key_with_data_def Let_def)
  then show "hd key = c" "key \<noteq> []" by simp_all
  have sz: "key_name_size en key = Some (word_of_nat (length name))"
    by (simp add: key key_name_size_def host_roundtrip)
  show "name_part en key = Some name" unfolding name_part_def sz by (simp add: n) (simp add: key)
  have "(word_of_nat (length key) - 1 - 4 - word_of_nat (length name) :: 32 word) = word_of_nat (length data)"
    by (simp add: key)
  then show "data_part en key = Some (string_of_bytes data)"
    unfolding data_part_def sz Let_def by (simp add: n) (simp add: key drop_Cons')
qed

lemma getKeyKind_hd: "key \<noteq> [] \<Longrightarrow> getKeyKind key = kindForIdentifier (hd key)"
  by (cases key) (simp_all add: getKeyKind_def)

lemma simple_key: "k \<noteq> KUnknown \<Longrightarrow> getKeyKind (key_simple (identifierForKind k) s) = k \<and>
  simple_part k (key_simple (identifierForKind k) s) = Some s"
  by (simp add: simple_part_def getKeyKind_def key_simple_def kind_identifier)

text \<open>A key with filters, whatever its kind.\<close>

lemma filtered_key:
  assumes "StringList_values fs = Some l" "StringList_encode l [] = Some data"
    "key_with_data en (identifierForKind k) p data = Some key" "13 + length p + length (pack fs) < 2 ^ 32" "k \<noteq> KUnknown"
  shows "getKeyKind key = k" "name_part en key = Some p" "data_part en key = Some (string_of_bytes (code_values fs))"
    "StringList_decode (new_decoder (code_values fs)) \<bind> (\<lambda>(l, _). getValues l) = Some fs"
proof -
  have data: "data = code_values fs" using assms(2) StringList_encode_code [OF holds_values [OF assms(1)], of "[]"] by simp
  then have len: "5 + length p + length data < 2 ^ 32" using assms(4) by (simp add: code_values_def)
  note parts = key_parts [OF assms(3) len]
  show "getKeyKind key = k" using parts(1,2) assms(5) by (simp add: getKeyKind_hd kind_identifier)
  show "name_part en key = Some p" by (rule parts(3))
  show "data_part en key = Some (string_of_bytes (code_values fs))" using parts(4) by (simp add: data)
  have "no_nul fs" using assms(1) by (simp add: StringList_values_pack split: if_splits)
  then have f: "fits fs" using assms(4) by (simp add: fits_def)
  then show "StringList_decode (new_decoder (code_values fs)) \<bind> (\<lambda>(l, _). getValues l) = Some fs"
    using StringList_decode_code [OF f, of "new_decoder (code_values fs)" "[]"] holds_getValues [OF holds_decoded [OF \<open>no_nul fs\<close>]]
    by simp
qed

lemma make_key_read:
  assumes "make_key en sp = Some key" "spec_fits sp"
  shows "read_key en key = Some sp \<and> key_fromData key = Some key"
proof (cases sp)
  case (SCustomTask n d)
  then have k: "key_with_data en (identifierForKind KCustomTask) n (bytes_of_string d) = Some key"
    using assms(1) by (simp add: makeCustomTask_def writeBytes_def)
  have "5 + length n + length (bytes_of_string d) < 2 ^ 32" using assms(2) SCustomTask by simp
  note parts = key_parts [OF k this]
  have "getKeyKind key = KCustomTask" using parts(1,2) kind_identifier [of KCustomTask] by (simp add: getKeyKind_hd)
  then show ?thesis using parts SCustomTask
    by (simp add: read_key_def getCustomTaskName_def getCustomTaskData_def key_fromData_def)
next
  case (SFilteredDirectoryContents p fs)
  with assms obtain l data where "StringList_values fs = Some l" "StringList_encode l [] = Some data"
      "key_with_data en (identifierForKind KFilteredDirectoryContents) p data = Some key"
    by (auto simp: makeFilteredDirectoryContentsKey_def)
  note parts = filtered_key [OF this]
  then show ?thesis using assms(2) SFilteredDirectoryContents
    by (simp add: read_key_def getFilteredDirectoryPath_def key_filters_def getContentExclusionPatternsAsStringList_def
        getContentExclusionPatterns_def key_fromData_def split_def del: identifierForKind.simps)
next
  case (SDirectoryTreeSignature p fs)
  with assms obtain l data where "StringList_values fs = Some l" "StringList_encode l [] = Some data"
      "key_with_data en (identifierForKind KDirectoryTreeSignature) p data = Some key"
    by (auto simp: makeDirectoryTreeSignatureKey_def)
  note parts = filtered_key [OF this]
  then show ?thesis using assms(2) SDirectoryTreeSignature
    by (simp add: read_key_def getDirectoryTreeSignaturePath_def key_filters_def getContentExclusionPatternsAsStringList_def
        getContentExclusionPatterns_def key_fromData_def split_def del: identifierForKind.simps)
next
  case (SDirectoryTreeStructureSignature p fs)
  with assms obtain l data where "StringList_values fs = Some l" "StringList_encode l [] = Some data"
      "key_with_data en (identifierForKind KDirectoryTreeStructureSignature) p data = Some key"
    by (auto simp: makeDirectoryTreeStructureSignatureKey_def)
  note parts = filtered_key [OF this]
  then show ?thesis using assms(2) SDirectoryTreeStructureSignature
    by (simp add: read_key_def getFilteredDirectoryPath_def key_filters_def getContentExclusionPatternsAsStringList_def
        getContentExclusionPatterns_def key_fromData_def split_def del: identifierForKind.simps)
qed (use assms simple_key in \<open>auto simp: makeCommand_def makeDirectoryContentsKey_def makeNode_def makeStat_def
    makeTargetKey_def read_key_def getCommandName_def getDirectoryPath_def getNodeName_def getStatName_def
    getTargetName_def key_fromData_def simp del: identifierForKind.simps\<close>)

lemma tree_signature_made:
  assumes "no_nul fs" "13 + length p + length (pack fs) < 2 ^ 32"
  shows "\<exists>key. make_key en (SDirectoryTreeSignature p fs) = Some key"
proof -
  obtain l where l: "StringList_values fs = Some l" using assms(1) by (auto simp: StringList_values_pack)
  have e: "StringList_encode l [] = Some (code_values fs)" using StringList_encode_code [OF holds_values [OF l], of "[]"] by simp
  have "length (code_values fs) = 8 + length (pack fs)" by (simp add: code_values_def)
  with assms(2) have "unat (word_of_nat (length p) :: 32 word) = length p"
    "unat (word_of_nat (length (code_values fs)) :: 32 word) = 8 + length (pack fs)"
    using unat_word_of_nat [of "length p", where 'w = 32] unat_word_of_nat [of "length (code_values fs)", where 'w = 32] by simp_all
  with assms(2) l e show ?thesis by (simp add: makeDirectoryTreeSignatureKey_def key_with_data_def Let_def del: of_nat_add)
qed

section \<open>Properties\<close>

text \<open>
  C10.  Keys are a faithful image of what they name, on hosts of either byte order: the accessors read
  back the kind and the parts a key was made from, and two different requests never have the same
  key, so that the engine, which knows rules only by their keys, never takes one for the other.
\<close>

theorem BuildKey_roundtrip:
  assumes "make_key en sp = Some key" "spec_fits sp"
  shows "read_key en key = Some sp \<and> key_fromData key = Some key \<and>
    (\<forall>sp2. make_key en sp2 = Some key \<and> spec_fits sp2 \<longrightarrow> sp2 = sp)"
  using make_key_read [OF assms] make_key_read [of en _ key] by auto

theorem BuildKey_roundtrip_witness:
  "\<exists>key. make_key Big (SDirectoryTreeSignature ''/src'' [''*.o'']) = Some key \<and>
     read_key Big key = Some (SDirectoryTreeSignature ''/src'' [''*.o''])"
proof -
  obtain key where k: "make_key Big (SDirectoryTreeSignature ''/src'' [''*.o'']) = Some key"
    using tree_signature_made [of "[''*.o'']" "''/src''" Big] by auto
  have "spec_fits (SDirectoryTreeSignature ''/src'' [''*.o''])" by simp
  from BuildKey_roundtrip [OF k this] k show ?thesis by blast
qed

text \<open>
  Printing the key of a directory tree signature runs into an assertion: \<^verbatim>\<open>dump\<close>
  asks it for its path with the accessor of directory contents, which accepts no other kind.
\<close>

theorem dump_tree_signature_asserts:
  assumes "make_key en (SDirectoryTreeSignature path filters) = Some key"
  shows "dump_key en key = None"
proof -
  from assms have "\<exists>rest. key = CHR ''S'' # rest"
    by (auto simp: makeDirectoryTreeSignatureKey_def key_with_data_def Let_def split: if_splits)
  then show ?thesis by (auto simp: dump_key_def getKeyKind_def kindForIdentifier_def getDirectoryPath_def simple_part_def dump_field_def)
qed

theorem dump_tree_signature_asserts_witness:
  "\<exists>key. make_key Little (SDirectoryTreeSignature ''/src'' []) = Some key \<and> dump_key Little key = None \<and>
     dump_key Little (makeNode ''a'') = Some (''BuildKey(Node, name='' @ [CHR 0x27] @ ''a'' @ [CHR 0x27] @ '')'')"
proof -
  obtain key where k: "make_key Little (SDirectoryTreeSignature ''/src'' []) = Some key"
    using tree_signature_made [of "[]" "''/src''" Little] by auto
  moreover have "dump_key Little (makeNode ''a'') = Some (''BuildKey(Node, name='' @ [CHR 0x27] @ ''a'' @ [CHR 0x27] @ '')'')"
    by (simp add: dump_key_def makeNode_def key_simple_def getKeyKind_def kindForIdentifier_def getNodeName_def
        simple_part_def dump_field_def)
  ultimately show ?thesis using dump_tree_signature_asserts [OF k] by blast
qed

end
