(* ===== verification/Build_Nodes.thy ===== *)
theory Build_Nodes
  imports Build_Value Build_Key Support_Path
begin

text \<open>
  The nodes of a build description (\<^verbatim>\<open>include/builra/BuildSystem/BuildNode.h\<close>,
  \<^verbatim>\<open>lib/BuildSystem/BuildNode.cpp\<close>) and command signatures
  (\<^verbatim>\<open>include/builra/Basic/Hashing.h\<close>).

  The hash functions of the support library and the file system are arguments.
\<close>

section \<open>Signatures\<close>

record Hash =
  hs_string :: "string \<Rightarrow> 64 word"
  hs_with_string :: "64 word \<Rightarrow> string \<Rightarrow> 64 word"
  hs_with_bool :: "64 word \<Rightarrow> bool \<Rightarrow> 64 word"
  hs_with_code :: "64 word \<Rightarrow> 64 word \<Rightarrow> 64 word"
  hs_with_word :: "64 word \<Rightarrow> 64 word \<Rightarrow> 64 word"
  hs_bytes :: "8 word list \<Rightarrow> 64 word"

text \<open>
  \<^verbatim>\<open>CommandSignature::combine\<close>.  There is an overload for strings and one for truth values; an
  integer is converted to a truth value.
\<close>

definition combine_string :: "Hash \<Rightarrow> string \<Rightarrow> CommandSignature \<Rightarrow> CommandSignature" where
  "combine_string H s sig = hs_with_string H sig s"

definition combine_bool :: "Hash \<Rightarrow> bool \<Rightarrow> CommandSignature \<Rightarrow> CommandSignature" where
  "combine_bool H b sig = hs_with_bool H sig b"

definition combine_int :: "Hash \<Rightarrow> nat \<Rightarrow> CommandSignature \<Rightarrow> CommandSignature" where
  "combine_int H n sig = combine_bool H (n \<noteq> 0) sig"

definition combine_strings :: "Hash \<Rightarrow> string list \<Rightarrow> CommandSignature \<Rightarrow> CommandSignature" where
  "combine_strings H ss sig = foldl (\<lambda>c s. combine_string H s c) sig ss"

section \<open>Nodes\<close>

datatype NodeType = NodePlain | NodeDirectory | NodeDirectoryStructure | NodeVirtual

fun node_type_number :: "NodeType \<Rightarrow> nat" where
  "node_type_number NodePlain = 0"
| "node_type_number NodeDirectory = 1"
| "node_type_number NodeDirectoryStructure = 2"
| "node_type_number NodeVirtual = 3"

text \<open>
  The commands that produce a node are referred to by name.  The paths in \<^verbatim>\<open>mustScanAfterPaths\<close>
  are references into memory; \<open>None\<close> stands for references that dangle.
\<close>

record BuildNode =
  bn_name :: string
  bn_producers :: "string list"
  bn_type :: NodeType
  bn_commandTimestamp :: bool
  bn_mutated :: bool
  bn_exclusionPatterns :: StringList
  bn_mustScanAfterPaths :: "string list option"

definition new_node :: "string \<Rightarrow> NodeType \<Rightarrow> BuildNode" where
  "new_node name type =
     \<lparr>bn_name = name, bn_producers = [], bn_type = type, bn_commandTimestamp = False, bn_mutated = False,
      bn_exclusionPatterns = empty_StringList, bn_mustScanAfterPaths = Some []\<rparr>"

definition isVirtual :: "BuildNode \<Rightarrow> bool" where "isVirtual n \<longleftrightarrow> bn_type n = NodeVirtual"
definition isDirectoryNode :: "BuildNode \<Rightarrow> bool" where "isDirectoryNode n \<longleftrightarrow> bn_type n = NodeDirectory"
definition isDirectoryStructure :: "BuildNode \<Rightarrow> bool" where "isDirectoryStructure n \<longleftrightarrow> bn_type n = NodeDirectoryStructure"

text \<open>\<^verbatim>\<open>BuildSystemImpl::createNode\<close>: the spelling of the name decides on the type.\<close>

definition createNode :: "string \<Rightarrow> BuildNode" where
  "createNode name =
     (if name \<noteq> [] \<and> last name = SLASH then new_node name NodeDirectory
      else if name \<noteq> [] \<and> hd name = CHR ''<'' \<and> last name = CHR ''>'' then new_node name NodeVirtual
      else new_node name NodePlain)"

section \<open>Attributes\<close>

text \<open>An attribute is accepted, or refused with a message; \<open>None\<close> is a failed assertion.\<close>

datatype 'a Configured = Accepted 'a | Refused string 'a

definition quoted :: "string \<Rightarrow> string" where
  "quoted s = [CHR 0x27] @ s @ [CHR 0x27]"

definition invalid_value :: "string \<Rightarrow> string \<Rightarrow> string" where
  "invalid_value name val = ''invalid value: '' @ quoted val @ '' for attribute '' @ quoted name"

definition unexpected_attribute :: "string \<Rightarrow> string" where
  "unexpected_attribute name = ''unexpected attribute: '' @ quoted name"

definition set_bool :: "string \<Rightarrow> string \<Rightarrow> 'a \<Rightarrow> 'a \<Rightarrow> 'a \<Rightarrow> 'a Configured" where
  "set_bool name val x yes no =
     (if val = ''true'' then Accepted yes else if val = ''false'' then Accepted no else Refused (invalid_value name val) x)"

definition unless_type :: "NodeType \<Rightarrow> BuildNode \<Rightarrow> BuildNode" where
  "unless_type t n = (if bn_type n = t then n\<lparr>bn_type := NodePlain\<rparr> else n)"

definition node_attribute :: "string \<Rightarrow> string \<Rightarrow> BuildNode \<Rightarrow> BuildNode Configured option" where
  "node_attribute name val n =
     (if name = ''type'' then
        Some (if val = ''plain'' then Accepted (n\<lparr>bn_type := NodePlain\<rparr>)
              else if val = ''directory'' then Accepted (n\<lparr>bn_type := NodePlain\<rparr>)
              else if val = ''directory-structure'' then Accepted (n\<lparr>bn_type := NodeDirectoryStructure\<rparr>)
              else if val = ''virtual'' then Accepted (n\<lparr>bn_type := NodeVirtual\<rparr>)
              else Refused (invalid_value name val) n)
      else if name = ''is-directory'' then
        Some (set_bool name val n (n\<lparr>bn_type := NodeDirectory\<rparr>) (unless_type NodeDirectory n))
      else if name = ''is-directory-structure'' then
        Some (set_bool name val n (n\<lparr>bn_type := NodeDirectoryStructure\<rparr>) (unless_type NodeDirectoryStructure n))
      else if name = ''is-virtual'' then
        Some (set_bool name val n (n\<lparr>bn_type := NodeVirtual\<rparr>) ((unless_type NodeVirtual n)\<lparr>bn_commandTimestamp := False\<rparr>))
      else if name = ''is-command-timestamp'' then
        Some (set_bool name val n (n\<lparr>bn_commandTimestamp := True, bn_type := NodeVirtual\<rparr>) (n\<lparr>bn_commandTimestamp := False\<rparr>))
      else if name = ''is-mutated'' then
        Some (set_bool name val n (n\<lparr>bn_mutated := True\<rparr>) (n\<lparr>bn_mutated := False\<rparr>))
      else if name = ''content-exclusion-patterns'' then
        do { l \<leftarrow> StringList_string val; Some (Accepted (n\<lparr>bn_exclusionPatterns := l\<rparr>)) }
      else Some (Refused (unexpected_attribute name) n))"

definition node_attribute_list :: "string \<Rightarrow> string list \<Rightarrow> BuildNode \<Rightarrow> BuildNode Configured option" where
  "node_attribute_list name vals n =
     (if name = ''content-exclusion-patterns'' then
        do { l \<leftarrow> StringList_values vals; Some (Accepted (n\<lparr>bn_exclusionPatterns := l\<rparr>)) }
      else if name = ''must-scan-after-paths'' then
        do { l \<leftarrow> StringList_values vals; paths \<leftarrow> getValues l;
             Some (Accepted (n\<lparr>bn_mustScanAfterPaths := (if paths = [] then Some [] else None)\<rparr>)) }
      else Some (Refused (unexpected_attribute name) n))"

definition node_attribute_map :: "string \<Rightarrow> (string \<times> string) list \<Rightarrow> BuildNode \<Rightarrow> BuildNode Configured" where
  "node_attribute_map name vals n = Refused (unexpected_attribute name) n"

section \<open>File information and signature\<close>

text \<open>A trailing slash is dropped, except for the root.\<close>

definition without_slash :: "string \<Rightarrow> string" where
  "without_slash path = (if path \<noteq> [] \<and> last path = SLASH \<and> path \<noteq> ''/'' then butlast path else path)"

definition node_getFileInfo :: "(string \<Rightarrow> FileInfo) \<Rightarrow> BuildNode \<Rightarrow> FileInfo option" where
  "node_getFileInfo stat n = (if isVirtual n then None else Some (stat (without_slash (bn_name n))))"

definition node_getLinkInfo :: "(string \<Rightarrow> FileInfo) \<Rightarrow> BuildNode \<Rightarrow> FileInfo option" where
  "node_getLinkInfo lstat n = (if isVirtual n then None else Some (lstat (bn_name n)))"

definition node_getSignature :: "Hash \<Rightarrow> BuildNode \<Rightarrow> CommandSignature" where
  "node_getSignature H n = combine_strings H (bn_producers n) (combine_int H (node_type_number (bn_type n)) 0)"

section \<open>What the attributes guarantee\<close>

text \<open>A node that stands for the time of a command is virtual.\<close>

definition node_ok :: "BuildNode \<Rightarrow> bool" where
  "node_ok n \<longleftrightarrow> (bn_commandTimestamp n \<longrightarrow> isVirtual n)"

fun configured :: "'a Configured \<Rightarrow> 'a" where
  "configured (Accepted x) = x"
| "configured (Refused msg x) = x"

lemma createNode_ok: "node_ok (createNode name)"
  by (simp add: node_ok_def createNode_def new_node_def)

end
