(* ===== verification/External_Command.thy ===== *)
theory External_Command
  imports Build_Nodes Subprocess
begin

text \<open>
  Commands that are run outside the build system
  (\<^verbatim>\<open>include/builra/BuildSystem/ExternalCommand.h\<close>, \<^verbatim>\<open>lib/BuildSystem/ExternalCommand.cpp\<close>):
  when a stored result is still valid, which inputs keep a command from running, and what it results in.

  What a command does to the outside, in the engine, the delegate and the file system, is a list of
  effects.  The hooks of the subclasses are arguments or later theories.  \<open>None\<close> is a failed assertion.
\<close>

section \<open>The command\<close>

record ExternalCommand =
  ec_name :: string
  ec_description :: string
  ec_inputs :: "BuildNode list"
  ec_outputs :: "BuildNode list"
  ec_allowMissingInputs :: bool
  ec_allowModifiedOutputs :: bool
  ec_alwaysOutOfDate :: bool
  ec_repairViaOwnershipAnalysis :: bool
  ec_skipValue :: "BuildValue option"
  ec_missingInputKeys :: "KeyType list"
  ec_canUpdateIfNewer :: bool
  ec_hasPriorResult :: bool

definition new_external_command :: "string \<Rightarrow> ExternalCommand" where
  "new_external_command name =
     \<lparr>ec_name = name, ec_description = [], ec_inputs = [], ec_outputs = [], ec_allowMissingInputs = False,
      ec_allowModifiedOutputs = False, ec_alwaysOutOfDate = False, ec_repairViaOwnershipAnalysis = False, ec_skipValue = None,
      ec_missingInputKeys = [], ec_canUpdateIfNewer = True, ec_hasPriorResult = False\<rparr>"

text \<open>
  What the tasks and commands of the build system do to the engine, the delegate and the file system.
\<close>

datatype DiscoveredDependencyKind = DependencyInput | DependencyMissing | DependencyOutput

datatype BuildEffect =
    RequestInput KeyType nat
  | MustFollow KeyType
  | DiscoveredDependency KeyType
  | CompleteTask ValueType bool
  | SpawnJob
  | CannotBuildDueToMissingInputs "string option" "KeyType list"
  | CannotBuildDueToMultipleProducers string "string list"
  | HadCommandFailure
  | SystemError string
  | CreateDirectories string
  | CommandPreparing
  | CommandStarted
  | CommandFinished ProcessStatus
  | CommandHadError string
  | CommandHadWarning string
  | CommandHadNote string
  | FoundDependency string DiscoveredDependencyKind
  | RunExternalCommand
  | RunHandler
  | RunProcess "string list" "(string \<times> string) list" ProcessAttributes
  | RemoveFile string
  | CreateSymlink string string
  | WriteFile string string
  | CommandResult BuildValue

section \<open>Configuration and signature\<close>

definition external_getSignature :: "Hash \<Rightarrow> ExternalCommand \<Rightarrow> CommandSignature" where
  "external_getSignature H c =
     combine_bool H (ec_alwaysOutOfDate c)
       (combine_bool H (ec_allowModifiedOutputs c)
         (combine_bool H (ec_allowMissingInputs c)
           (combine_strings H (map bn_name (ec_outputs c)) (combine_strings H (map bn_name (ec_inputs c)) (hs_string H (ec_name c))))))"

definition configureDescription :: "string \<Rightarrow> ExternalCommand \<Rightarrow> ExternalCommand" where
  "configureDescription val c = c\<lparr>ec_description := val\<rparr>"

definition configureInputs :: "BuildNode list \<Rightarrow> ExternalCommand \<Rightarrow> ExternalCommand" where
  "configureInputs nodes c = c\<lparr>ec_inputs := ec_inputs c @ nodes\<rparr>"

definition configureOutputs :: "BuildNode list \<Rightarrow> ExternalCommand \<Rightarrow> ExternalCommand" where
  "configureOutputs nodes c = c\<lparr>ec_outputs := ec_outputs c @ nodes\<rparr>"

definition external_attribute :: "string \<Rightarrow> string \<Rightarrow> ExternalCommand \<Rightarrow> ExternalCommand Configured" where
  "external_attribute name val c =
     (if name = ''allow-missing-inputs'' then
        set_bool name val c (c\<lparr>ec_allowMissingInputs := True\<rparr>) (c\<lparr>ec_allowMissingInputs := False\<rparr>)
      else if name = ''allow-modified-outputs'' then
        set_bool name val c (c\<lparr>ec_allowModifiedOutputs := True\<rparr>) (c\<lparr>ec_allowModifiedOutputs := False\<rparr>)
      else if name = ''always-out-of-date'' then
        set_bool name val c (c\<lparr>ec_alwaysOutOfDate := True\<rparr>) (c\<lparr>ec_alwaysOutOfDate := False\<rparr>)
      else if name = ''repair-via-ownership-analysis'' then
        (if val = ''true'' then Accepted (c\<lparr>ec_repairViaOwnershipAnalysis := True\<rparr>)
         else if val = ''false'' then Accepted (c\<lparr>ec_repairViaOwnershipAnalysis := False\<rparr>)
         else Refused (''invalid value for attribute: '' @ quoted name) c)
      else Refused (unexpected_attribute name) c)"

section \<open>The result of a command for one of its outputs\<close>

fun index_of :: "string \<Rightarrow> BuildNode list \<Rightarrow> nat option" where
  "index_of name [] = None"
| "index_of name (n # ns) = (if bn_name n = name then Some 0 else map_option Suc (index_of name ns))"

definition external_getResultForOutput :: "ExternalCommand \<Rightarrow> BuildNode \<Rightarrow> BuildValue \<Rightarrow> BuildValue option" where
  "external_getResultForOutput c node v =
     (if bv_kind v = FailedCommand \<or> bv_kind v = PropagatedFailureCommand \<or> bv_kind v = CancelledCommand then Some makeFailedInput
      else if bv_kind v = SkippedCommand then Some makeSkippedCommand
      else if \<not> isSuccessfulCommand v then None
      else if isVirtual node \<and> \<not> bn_commandTimestamp node then Some makeVirtualInput
      else do {
        idx \<leftarrow> index_of (bn_name node) (ec_outputs c);
        info \<leftarrow> getNthOutputInfo v idx;
        if isMissing info then Some makeMissingOutput else makeExistingInput info
      })"

section \<open>Is a stored result still valid?\<close>

fun outputs_unchanged :: "(string \<Rightarrow> FileInfo) \<Rightarrow> BuildValue \<Rightarrow> nat \<Rightarrow> BuildNode list \<Rightarrow> bool option" where
  "outputs_unchanged stat v i [] = Some True"
| "outputs_unchanged stat v i (node # nodes) =
     (if isVirtual node then outputs_unchanged stat v (Suc i) nodes
      else do {
        info \<leftarrow> node_getFileInfo stat node;
        old \<leftarrow> getNthOutputInfo v i;
        if bn_mutated node then
          (if isMissing old \<noteq> isMissing info then Some False else outputs_unchanged stat v (Suc i) nodes)
        else if \<not> FileInfo_eq old info then Some False
        else outputs_unchanged stat v (Suc i) nodes
      })"

definition external_isResultValid :: "(string \<Rightarrow> FileInfo) \<Rightarrow> ExternalCommand \<Rightarrow> BuildValue \<Rightarrow> bool option" where
  "external_isResultValid stat c v =
     (if ec_alwaysOutOfDate c then Some False
      else if \<not> isSuccessfulCommand v then Some False
      else outputs_unchanged stat v 0 (ec_outputs c))"

section \<open>Inputs\<close>

fun request_inputs :: "nat \<Rightarrow> BuildNode list \<Rightarrow> BuildEffect list" where
  "request_inputs k [] = []"
| "request_inputs k (n # ns) = RequestInput (makeNode (bn_name n)) k # request_inputs (Suc k) ns"

definition external_start :: "ExternalCommand \<Rightarrow> ExternalCommand \<times> BuildEffect list" where
  "external_start c = (c\<lparr>ec_skipValue := None, ec_missingInputKeys := []\<rparr>, request_inputs 0 (ec_inputs c))"

definition external_providePriorValue :: "BuildValue \<Rightarrow> ExternalCommand \<Rightarrow> ExternalCommand" where
  "external_providePriorValue v c = (if isSuccessfulCommand v then c\<lparr>ec_hasPriorResult := True\<rparr> else c)"

text \<open>The value to skip with, if the input keeps the command from running; the outer \<open>None\<close> is unreachable.\<close>

definition skip_value_for_input :: "bool \<Rightarrow> BuildValue \<Rightarrow> BuildValue option option" where
  "skip_value_for_input allowMissing v =
     (if bv_kind v = DirectoryTreeSignature \<or> bv_kind v = DirectoryTreeStructureSignature \<or> bv_kind v = ExistingInput \<or>
         bv_kind v = VirtualInput \<or> bv_kind v = StaleFileRemoval then Some None
      else if bv_kind v = MissingOutput then Some None
      else if bv_kind v = MissingInput then Some (if allowMissing then None else Some makePropagatedFailureCommand)
      else if bv_kind v = FailedInput then Some (Some makePropagatedFailureCommand)
      else if bv_kind v = SkippedCommand then Some None
      else None)"

definition external_provideValue :: "nat \<Rightarrow> KeyType \<Rightarrow> BuildValue \<Rightarrow> ExternalCommand \<Rightarrow> ExternalCommand option" where
  "external_provideValue inputID key v c =
     (if isSuccessfulCommand v \<or> bv_kind v = FailedCommand \<or> bv_kind v = PropagatedFailureCommand \<or> bv_kind v = CancelledCommand
      then Some c
      else if hasMultipleOutputs v then None
      else do {
        skip \<leftarrow> skip_value_for_input (ec_allowMissingInputs c) v;
        case skip of
          Some s \<Rightarrow>
            (let c1 = c\<lparr>ec_skipValue := Some s\<rparr> in
             if bv_kind v = MissingInput then
               (if length (ec_inputs c) > inputID
                then Some (c1\<lparr>ec_missingInputKeys := ec_missingInputKeys c1 @ [makeNode (bn_name (ec_inputs c ! inputID))]\<rparr>)
                else do { k \<leftarrow> key_fromData key; Some (c1\<lparr>ec_missingInputKeys := ec_missingInputKeys c1 @ [k]\<rparr>) })
             else Some c1)
        | None \<Rightarrow> Some (if bv_kind v = MissingOutput then c\<lparr>ec_canUpdateIfNewer := False\<rparr> else c)
      })"

section \<open>Running\<close>

definition all_outputs_exist :: "BuildValue \<Rightarrow> bool option" where
  "all_outputs_exist v =
     do { num \<leftarrow> getNumOutputs v;
          foldr (\<lambda>i acc. do { info \<leftarrow> getNthOutputInfo v i; if isMissing info then Some False else acc }) [0..<unat num] (Some True) }"

definition canUpdateIfNewerWithResult :: "ExternalCommand \<Rightarrow> BuildValue \<Rightarrow> bool option" where
  "canUpdateIfNewerWithResult c v = (if \<not> ec_allowModifiedOutputs c then Some False else all_outputs_exist v)"

definition epoch_info :: "64 word \<Rightarrow> FileInfo" where
  "epoch_info epoch = zero_info\<lparr>fi_size := epoch\<rparr>"

definition output_info :: "(string \<Rightarrow> FileInfo) \<Rightarrow> 64 word \<Rightarrow> BuildNode \<Rightarrow> FileInfo option" where
  "output_info stat epoch node =
     (if bn_commandTimestamp node then Some (epoch_info epoch)
      else if isVirtual node then Some zero_info
      else node_getFileInfo stat node)"

definition computeCommandResult :: "(string \<Rightarrow> FileInfo) \<Rightarrow> 64 word \<Rightarrow> ExternalCommand \<Rightarrow> BuildValue option" where
  "computeCommandResult stat epoch c =
     do { infos \<leftarrow> those (map (output_info stat epoch) (ec_outputs c));
          makeSuccessfulCommand (if ec_outputs c = [] then [epoch_info epoch] else infos) }"

definition parent_directories :: "BuildNode list \<Rightarrow> BuildEffect list" where
  "parent_directories nodes =
     concat (map (\<lambda>n.
       (let parent = parent_path (bn_name n);
            parent1 = (if bn_name n \<noteq> [] \<and> last (bn_name n) = SLASH then parent_path parent else parent)
        in if isVirtual n \<or> parent1 = [] then [] else [CreateDirectories parent1])) nodes)"

text \<open>
  \<^verbatim>\<open>execute\<close> up to the call of the subclass, and what happens when that completes.  A command that
  need not run has its result at once.
\<close>

definition external_execute :: "(string \<Rightarrow> FileInfo) \<Rightarrow> 64 word \<Rightarrow> ExternalCommand \<Rightarrow> BuildEffect list option" where
  "external_execute stat epoch c =
     (case ec_skipValue c of
        Some s \<Rightarrow>
          Some ((if ec_missingInputKeys c \<noteq> []
                 then [CannotBuildDueToMissingInputs (if ec_outputs c = [] then None else Some (bn_name (hd (ec_outputs c)))) (ec_missingInputKeys c),
                       HadCommandFailure]
                 else []) @ [CommandResult s])
      | None \<Rightarrow>
          if ec_missingInputKeys c \<noteq> [] then None
          else do {
            update \<leftarrow> (if ec_canUpdateIfNewer c \<and> ec_hasPriorResult c
                       then do { v \<leftarrow> computeCommandResult stat epoch c;
                                 ok \<leftarrow> canUpdateIfNewerWithResult c v;
                                 Some (if ok then Some v else None) }
                       else Some None);
            case update of
              Some v \<Rightarrow> Some [CommandResult v]
            | None \<Rightarrow> Some (parent_directories (ec_outputs c) @ [CommandStarted, RunExternalCommand])
          })"

definition external_complete :: "(string \<Rightarrow> FileInfo) \<Rightarrow> 64 word \<Rightarrow> ProcessStatus \<Rightarrow> ExternalCommand \<Rightarrow> BuildEffect list option" where
  "external_complete stat epoch status c =
     (case status of
        StatusFailed \<Rightarrow> Some [CommandFinished status, CommandResult makeFailedCommand]
      | StatusCancelled \<Rightarrow> Some [CommandFinished status, CommandResult makeCancelledCommand]
      | StatusSucceeded \<Rightarrow>
          do { v \<leftarrow> computeCommandResult stat epoch c; Some [CommandFinished status, CommandResult v] }
      | _ \<Rightarrow> None)"

end
