(* ===== verification/Node_Tasks.thy ===== *)
theory Node_Tasks
  imports External_Command
begin

text \<open>
  The tasks that build the nodes and targets of a build description
  (\<^verbatim>\<open>lib/BuildSystem/BuildSystem.cpp\<close>): each has a start, a reaction to the values of its
  inputs and a completion, and most have a test whether a stored value is still valid.

  The file system is a function from paths to file information.  What a task does is a list of effects;
  \<open>None\<close> is a failed assertion.
\<close>

definition complete :: "BuildValue \<Rightarrow> BuildEffect list option" where
  "complete v = do { d \<leftarrow> toData v; Some [CompleteTask d False] }"

section \<open>Targets\<close>

text \<open>
  The missing nodes are kept in a set of pointers; the order in which such a set is iterated is an
  argument.
\<close>

record TargetTask =
  tt_name :: string
  tt_nodes :: "string list"
  tt_missing :: "string list"

definition new_target_task :: "string \<Rightarrow> string list \<Rightarrow> TargetTask" where
  "new_target_task name nodes = \<lparr>tt_name = name, tt_nodes = nodes, tt_missing = []\<rparr>"

fun request_nodes :: "nat \<Rightarrow> string list \<Rightarrow> BuildEffect list" where
  "request_nodes k [] = []"
| "request_nodes k (n # ns) = RequestInput (makeNode n) k # request_nodes (Suc k) ns"

definition target_start :: "TargetTask \<Rightarrow> BuildEffect list" where
  "target_start t = request_nodes 0 (tt_nodes t)"

definition target_provideValue :: "nat \<Rightarrow> ValueType \<Rightarrow> TargetTask \<Rightarrow> TargetTask option" where
  "target_provideValue inputID valueData t =
     do { v \<leftarrow> fromData valueData;
          if bv_kind v = MissingInput
          then (if inputID < length (tt_nodes t)
                then Some (t\<lparr>tt_missing := List.insert (tt_nodes t ! inputID) (tt_missing t)\<rparr>) else None)
          else Some t }"

fun joined_names :: "string list \<Rightarrow> string" where
  "joined_names [] = []"
| "joined_names [n] = quoted n"
| "joined_names (n # ns) = quoted n @ '', '' @ joined_names ns"

definition target_inputsAvailable :: "(string list \<Rightarrow> string list) \<Rightarrow> bool \<Rightarrow> TargetTask \<Rightarrow> BuildEffect list option" where
  "target_inputsAvailable order cancelled t =
     (if cancelled then complete makeSkippedCommand
      else do {
        done_target \<leftarrow> complete makeTarget;
        Some ((if tt_missing t \<noteq> []
               then [SystemError (''cannot build target '' @ quoted (tt_name t) @ '' due to missing inputs: '' @
                       joined_names (order (tt_missing t))),
                     HadCommandFailure]
               else []) @ done_target) })"

definition target_isResultValid :: "BuildValue \<Rightarrow> bool" where
  "target_isResultValid v = False"

section \<open>Input nodes\<close>

definition value_of_info :: "FileInfo \<Rightarrow> BuildValue option" where
  "value_of_info info = (if isMissing info then Some makeMissingInput else makeExistingInput info)"

definition fileInput_start :: "BuildNode \<Rightarrow> BuildEffect list option" where
  "fileInput_start node = (if bn_producers node = [] then Some [] else None)"

definition fileInput_inputsAvailable :: "(string \<Rightarrow> FileInfo) \<Rightarrow> BuildNode \<Rightarrow> BuildEffect list option" where
  "fileInput_inputsAvailable stat node =
     do { info \<leftarrow> node_getFileInfo stat node; v \<leftarrow> value_of_info info; complete v }"

definition fileInput_isResultValid :: "(string \<Rightarrow> FileInfo) \<Rightarrow> BuildNode \<Rightarrow> BuildValue \<Rightarrow> bool option" where
  "fileInput_isResultValid stat node v =
     do { info \<leftarrow> node_getFileInfo stat node;
          if isMissing info then Some (bv_kind v = MissingInput)
          else if bv_kind v \<noteq> ExistingInput then Some False
          else do { old \<leftarrow> getOutputInfo v; Some (FileInfo_eq old info) } }"

definition stat_start :: "string \<Rightarrow> BuildEffect list" where
  "stat_start name = [MustFollow (makeNode name)]"

definition stat_inputsAvailable :: "(string \<Rightarrow> FileInfo) \<Rightarrow> string \<Rightarrow> BuildEffect list option" where
  "stat_inputsAvailable stat name = do { v \<leftarrow> value_of_info (stat name); complete v }"

definition stat_isResultValid :: "BuildValue \<Rightarrow> bool" where
  "stat_isResultValid v = False"

definition virtual_inputsAvailable :: "BuildEffect list option" where
  "virtual_inputsAvailable = complete makeVirtualInput"

definition virtual_isResultValid :: "BuildValue \<Rightarrow> bool" where
  "virtual_isResultValid v \<longleftrightarrow> bv_kind v = VirtualInput"

section \<open>Directory nodes\<close>

text \<open>The signature of the tree is requested once the paths to scan first are done.\<close>

record DirectoryInputNodeTask =
  di_node :: BuildNode
  di_directorySignature :: ValueType
  di_totalBlockingDeps :: nat
  di_finishedBlockingDeps :: nat

definition new_directory_input :: "BuildNode \<Rightarrow> DirectoryInputNodeTask option" where
  "new_directory_input node =
     (if isVirtual node then None
      else Some \<lparr>di_node = node, di_directorySignature = [], di_totalBlockingDeps = 0, di_finishedBlockingDeps = 0\<rparr>)"

definition performUnblockedRequest :: "endian \<Rightarrow> DirectoryInputNodeTask \<Rightarrow> BuildEffect list option" where
  "performUnblockedRequest en t =
     do { key \<leftarrow> makeDirectoryTreeSignatureKey en (without_slash (bn_name (di_node t))) (bn_exclusionPatterns (di_node t));
          Some [RequestInput key 0] }"

definition directoryInput_start ::
  "endian \<Rightarrow> DirectoryInputNodeTask \<Rightarrow> (DirectoryInputNodeTask \<times> BuildEffect list) option" where
  "directoryInput_start en t =
     do { paths \<leftarrow> bn_mustScanAfterPaths (di_node t);
          let t1 = t\<lparr>di_totalBlockingDeps := di_totalBlockingDeps t + length paths\<rparr>;
          unblocked \<leftarrow> (if di_totalBlockingDeps t1 = 0 then performUnblockedRequest en t1 else Some []);
          Some (t1, request_nodes (Suc (di_totalBlockingDeps t)) paths @ unblocked) }"

definition directoryInput_provideValue ::
  "endian \<Rightarrow> nat \<Rightarrow> ValueType \<Rightarrow> DirectoryInputNodeTask \<Rightarrow> (DirectoryInputNodeTask \<times> BuildEffect list) option" where
  "directoryInput_provideValue en inputID valueData t =
     (if inputID = 0 then Some (t\<lparr>di_directorySignature := valueData\<rparr>, [])
      else do {
        _ \<leftarrow> fromData valueData;
        let t1 = t\<lparr>di_finishedBlockingDeps := di_finishedBlockingDeps t + 1\<rparr>;
        unblocked \<leftarrow> (if di_finishedBlockingDeps t1 = di_totalBlockingDeps t1 then performUnblockedRequest en t1 else Some []);
        Some (t1, unblocked) })"

definition directoryInput_inputsAvailable :: "DirectoryInputNodeTask \<Rightarrow> BuildEffect list" where
  "directoryInput_inputsAvailable t = [CompleteTask (di_directorySignature t) False]"

definition directoryStructure_start :: "endian \<Rightarrow> BuildNode \<Rightarrow> BuildEffect list option" where
  "directoryStructure_start en node =
     do { key \<leftarrow> makeDirectoryTreeStructureSignatureKey en (without_slash (bn_name node)) (bn_exclusionPatterns node);
          Some [RequestInput key 0] }"

definition directoryStructure_inputsAvailable :: "ValueType \<Rightarrow> BuildEffect list" where
  "directoryStructure_inputsAvailable directorySignature = [CompleteTask directorySignature False]"

section \<open>Produced nodes\<close>

text \<open>
  The delegate may choose among several producers; a chosen command delivers the value for the node.
  Both are arguments.
\<close>

definition getCommand :: "(BuildNode \<Rightarrow> string option) \<Rightarrow> BuildNode \<Rightarrow> string option" where
  "getCommand chosen node = (if length (bn_producers node) = 1 then Some (bn_producers node ! 0) else chosen node)"

record ProducedNodeTask =
  pn_node :: BuildNode
  pn_nodeResult :: BuildValue
  pn_producingCommand :: "string option"
  pn_isInvalid :: bool

definition new_produced_node :: "BuildNode \<Rightarrow> ProducedNodeTask" where
  "new_produced_node node = \<lparr>pn_node = node, pn_nodeResult = makeInvalid, pn_producingCommand = None, pn_isInvalid = False\<rparr>"

definition produced_start :: "(BuildNode \<Rightarrow> string option) \<Rightarrow> ProducedNodeTask \<Rightarrow> ProducedNodeTask \<times> BuildEffect list" where
  "produced_start chosen t =
     (case getCommand chosen (pn_node t) of
        Some c \<Rightarrow> (t\<lparr>pn_producingCommand := Some c\<rparr>, [RequestInput (makeCommand c) 0])
      | None \<Rightarrow> (t\<lparr>pn_isInvalid := True\<rparr>, [CannotBuildDueToMultipleProducers (bn_name (pn_node t)) (bn_producers (pn_node t))]))"

definition produced_provideValue ::
  "(string \<Rightarrow> BuildNode \<Rightarrow> BuildValue \<Rightarrow> BuildValue option) \<Rightarrow> ValueType \<Rightarrow> ProducedNodeTask \<Rightarrow> ProducedNodeTask option" where
  "produced_provideValue result_for valueData t =
     do { v \<leftarrow> fromData valueData;
          c \<leftarrow> pn_producingCommand t;
          r \<leftarrow> result_for c (pn_node t) v;
          Some (t\<lparr>pn_nodeResult := r\<rparr>) }"

definition produced_inputsAvailable :: "ProducedNodeTask \<Rightarrow> BuildEffect list option" where
  "produced_inputsAvailable t =
     (if pn_isInvalid t then do { e \<leftarrow> complete makeFailedInput; Some (HadCommandFailure # e) }
      else if bv_kind (pn_nodeResult t) = Invalid then None
      else complete (pn_nodeResult t))"

definition produced_isResultValid :: "BuildValue \<Rightarrow> bool" where
  "produced_isResultValid v = (if bv_kind v = FailedInput then False else if bv_kind v = MissingInput then False else True)"

text \<open>A produced directory that exists has the signature of its tree as its value.\<close>

record ProducedDirectoryNodeTask = ProducedNodeTask +
  pd_directorySignature :: ValueType
  pd_returnDirectorySignature :: bool

definition new_produced_directory :: "BuildNode \<Rightarrow> ProducedDirectoryNodeTask" where
  "new_produced_directory node =
     ProducedNodeTask.extend (new_produced_node node) \<lparr>pd_directorySignature = [], pd_returnDirectorySignature = False\<rparr>"

definition producedDirectory_start ::
  "(BuildNode \<Rightarrow> string option) \<Rightarrow> ProducedDirectoryNodeTask \<Rightarrow> ProducedDirectoryNodeTask \<times> BuildEffect list" where
  "producedDirectory_start chosen t =
     (case getCommand chosen (pn_node t) of
        Some c \<Rightarrow> (t\<lparr>pn_producingCommand := Some c\<rparr>, [RequestInput (makeCommand c) 0])
      | None \<Rightarrow> (t\<lparr>pn_isInvalid := True\<rparr>, [CannotBuildDueToMultipleProducers (bn_name (pn_node t)) (bn_producers (pn_node t))]))"

definition producedDirectory_provideValue ::
  "endian \<Rightarrow> (string \<Rightarrow> BuildNode \<Rightarrow> BuildValue \<Rightarrow> BuildValue option) \<Rightarrow> nat \<Rightarrow> ValueType \<Rightarrow> ProducedDirectoryNodeTask \<Rightarrow>
   (ProducedDirectoryNodeTask \<times> BuildEffect list) option" where
  "producedDirectory_provideValue en result_for inputID valueData t =
     (if inputID = 0 then do {
        v \<leftarrow> fromData valueData;
        c \<leftarrow> pn_producingCommand t;
        r \<leftarrow> result_for c (pn_node t) v;
        let t1 = t\<lparr>pn_nodeResult := r\<rparr>;
        if bv_kind r = ExistingInput
        then do { key \<leftarrow> makeDirectoryTreeSignatureKey en (without_slash (bn_name (pn_node t))) empty_StringList;
                  Some (t1\<lparr>pd_returnDirectorySignature := True\<rparr>, [RequestInput key 1]) }
        else Some (t1, []) }
      else if inputID = 1 then Some (t\<lparr>pd_directorySignature := valueData\<rparr>, [])
      else Some (t, []))"

definition producedDirectory_inputsAvailable :: "ProducedDirectoryNodeTask \<Rightarrow> BuildEffect list option" where
  "producedDirectory_inputsAvailable t =
     (if pd_returnDirectorySignature t then Some [CompleteTask (pd_directorySignature t) False]
      else if pn_isInvalid t then do { e \<leftarrow> complete makeFailedInput; Some (HadCommandFailure # e) }
      else if bv_kind (pn_nodeResult t) = Invalid then None
      else complete (pn_nodeResult t))"

definition producedDirectory_isResultValid :: "BuildValue \<Rightarrow> bool" where
  "producedDirectory_isResultValid v =
     (if bv_kind v = FailedInput then False else if bv_kind v = MissingInput then False else True)"

section \<open>Commands that are not in the description any more\<close>

definition missingCommand_inputsAvailable :: "BuildEffect list option" where
  "missingCommand_inputsAvailable = do { d \<leftarrow> toData makeInvalid; Some [CompleteTask d True] }"

end
