(* ===== verification/Directory_Tasks.thy ===== *)
theory Directory_Tasks
  imports Node_Tasks "HOL-Library.Char_ord" "HOL-Library.List_Lexorder"
begin

text \<open>
  The tasks that list directories and compute the signatures of directory trees
  (\<^verbatim>\<open>lib/BuildSystem/BuildSystem.cpp\<close>).  What the operating system reports of a directory is an
  argument, and so is the matching of file names with exclusion patterns.
\<close>

section \<open>Listing a directory\<close>

text \<open>
  One entry of a directory: its name, whether it is a symbolic link, and the resolved path where
  resolution succeeds.  The listing ends at the first error, which the code ignores.
\<close>

record DirectoryEntry =
  de_name :: string
  de_isSymlink :: bool
  de_realPath :: "string option"

definition isPrefix :: "string \<Rightarrow> string \<Rightarrow> bool" where
  "isPrefix p s \<longleftrightarrow> take (length p) s = p"

text \<open>A link to the directory itself or to one above is left out.\<close>

definition isParentLink :: "string \<Rightarrow> DirectoryEntry \<Rightarrow> bool" where
  "isParentLink path e \<longleftrightarrow> de_isSymlink e \<and> (case de_realPath e of None \<Rightarrow> False | Some r \<Rightarrow> isPrefix r path)"

definition getContents :: "(string \<Rightarrow> DirectoryEntry list) \<Rightarrow> string \<Rightarrow> string list" where
  "getContents entries path = sort (map de_name (filter (\<lambda>e. \<not> isParentLink path e) (entries path)))"

definition getFilteredContents ::
  "(string \<Rightarrow> string \<Rightarrow> bool) \<Rightarrow> (string \<Rightarrow> DirectoryEntry list) \<Rightarrow> string \<Rightarrow> StringList \<Rightarrow> string list option" where
  "getFilteredContents matches entries path filters =
     do { patterns \<leftarrow> getValues filters;
          Some (sort (filter (\<lambda>name. \<not> list_ex (\<lambda>pattern. matches pattern name) patterns) (map de_name (entries path)))) }"

definition getDirectoryContents :: "BuildValue \<Rightarrow> string list option" where
  "getDirectoryContents v =
     (if bv_kind v = DirectoryContents \<or> bv_kind v = FilteredDirectoryContents then getStringListValues v else None)"

section \<open>Directory contents\<close>

record DirectoryContentsTask =
  dc_path :: string
  dc_directoryValue :: BuildValue

definition new_directory_contents :: "string \<Rightarrow> DirectoryContentsTask" where
  "new_directory_contents path = \<lparr>dc_path = path, dc_directoryValue = makeInvalid\<rparr>"

definition contents_start :: "DirectoryContentsTask \<Rightarrow> BuildEffect list" where
  "contents_start t = [RequestInput (makeNode (dc_path t)) 0]"

definition contents_provideValue :: "nat \<Rightarrow> ValueType \<Rightarrow> DirectoryContentsTask \<Rightarrow> DirectoryContentsTask option" where
  "contents_provideValue inputID valueData t =
     (if inputID = 0 then do { v \<leftarrow> fromData valueData; Some (t\<lparr>dc_directoryValue := v\<rparr>) } else Some t)"

definition contents_inputsAvailable :: "(string \<Rightarrow> DirectoryEntry list) \<Rightarrow> DirectoryContentsTask \<Rightarrow> BuildEffect list option" where
  "contents_inputsAvailable entries t =
     (let v = dc_directoryValue t in
      if bv_kind v = MissingInput then complete makeMissingInput
      else if bv_kind v = MissingOutput then complete makeMissingInput
      else if bv_kind v = FailedInput then complete makeFailedInput
      else if bv_kind v = SkippedCommand then complete makeSkippedCommand
      else do {
        info \<leftarrow> getOutputInfo v;
        r \<leftarrow> makeDirectoryContents info (getContents entries (dc_path t));
        complete r })"

definition contents_isResultValid ::
  "(string \<Rightarrow> FileInfo) \<Rightarrow> (string \<Rightarrow> DirectoryEntry list) \<Rightarrow> string \<Rightarrow> BuildValue \<Rightarrow> bool option" where
  "contents_isResultValid stat entries path v =
     (let info = stat path in
      if isMissing info then Some (bv_kind v = MissingInput)
      else if bv_kind v \<noteq> DirectoryContents then Some False
      else do {
        old \<leftarrow> getOutputInfo v;
        if isDirectory info \<noteq> isDirectory old then Some False
        else if \<not> isDirectory info then Some (FileInfo_eq old info)
        else do {
          prev \<leftarrow> getDirectoryContents v;
          let cur = getContents entries path;
          Some (length cur = length prev \<and> list_all2 (=) cur prev) } })"

section \<open>Filtered directory contents\<close>

record FilteredDirectoryContentsTask =
  fd_path :: string
  fd_filters :: StringList
  fd_directoryValue :: BuildValue

definition new_filtered_contents :: "string \<Rightarrow> StringList \<Rightarrow> FilteredDirectoryContentsTask" where
  "new_filtered_contents path filters = \<lparr>fd_path = path, fd_filters = filters, fd_directoryValue = makeInvalid\<rparr>"

definition filtered_start :: "FilteredDirectoryContentsTask \<Rightarrow> BuildEffect list" where
  "filtered_start t = [RequestInput (makeNode (fd_path t)) 0, RequestInput (makeStat (fd_path t)) 1]"

definition filtered_provideValue :: "nat \<Rightarrow> ValueType \<Rightarrow> FilteredDirectoryContentsTask \<Rightarrow> FilteredDirectoryContentsTask option" where
  "filtered_provideValue inputID valueData t =
     (if inputID = 1 then do { v \<leftarrow> fromData valueData; Some (t\<lparr>fd_directoryValue := v\<rparr>) } else Some t)"

definition filtered_inputsAvailable ::
  "(string \<Rightarrow> string \<Rightarrow> bool) \<Rightarrow> (string \<Rightarrow> DirectoryEntry list) \<Rightarrow> FilteredDirectoryContentsTask \<Rightarrow> BuildEffect list option" where
  "filtered_inputsAvailable matches entries t =
     (let v = fd_directoryValue t in
      if bv_kind v = MissingInput then complete makeMissingInput
      else if bv_kind v \<noteq> ExistingInput then complete makeFailedInput
      else do {
        info \<leftarrow> getOutputInfo v;
        if \<not> isDirectory info then do { r \<leftarrow> makeExistingInput info; complete r }
        else do {
          names \<leftarrow> getFilteredContents matches entries (fd_path t) (fd_filters t);
          r \<leftarrow> makeFilteredDirectoryContents names;
          complete r } })"

section \<open>Signatures of directory trees\<close>

text \<open>
  The tasks for the signature of the contents and for that of the structure have the same state.  They
  request the listing, then each child as a node, then the signature of each child that is a directory.
\<close>

record SubpathInfo =
  sp_filename :: string
  sp_value :: ValueType
  sp_signatureValue :: "ValueType option"

record DirectoryTreeTask =
  dt_path :: string
  dt_filters :: StringList
  dt_directoryValue :: ValueType
  dt_childResults :: "SubpathInfo list"

definition new_tree_task :: "string \<Rightarrow> StringList \<Rightarrow> DirectoryTreeTask" where
  "new_tree_task path filters = \<lparr>dt_path = path, dt_filters = filters, dt_directoryValue = [], dt_childResults = []\<rparr>"

definition tree_start :: "endian \<Rightarrow> DirectoryTreeTask \<Rightarrow> BuildEffect list option" where
  "tree_start en t =
     (if isEmpty_StringList (dt_filters t) then Some [RequestInput (makeDirectoryContentsKey (dt_path t)) 0]
      else do { key \<leftarrow> makeFilteredDirectoryContentsKey en (dt_path t) (dt_filters t); Some [RequestInput key 0] })"

text \<open>The request for the children; the identities of the inputs start at one.\<close>

definition tree_children :: "string list \<Rightarrow> DirectoryTreeTask \<Rightarrow> DirectoryTreeTask \<times> BuildEffect list" where
  "tree_children names t =
     (t\<lparr>dt_childResults := dt_childResults t @ map (\<lambda>n. \<lparr>sp_filename = n, sp_value = [], sp_signatureValue = None\<rparr>) names\<rparr>,
      request_nodes 1 (map (append_component (dt_path t)) names))"

text \<open>The reaction to a child and to the signature of a child; only the key of the nested request differs.\<close>

definition tree_provide_child ::
  "(string \<Rightarrow> StringList \<Rightarrow> KeyType option) \<Rightarrow> nat \<Rightarrow> ValueType \<Rightarrow> DirectoryTreeTask \<Rightarrow> (DirectoryTreeTask \<times> BuildEffect list) option" where
  "tree_provide_child signature_key inputID valueData t =
     (let n = length (dt_childResults t) in
      if 1 \<le> inputID \<and> inputID < 1 + n then do {
        let index = inputID - 1;
        let t1 = t\<lparr>dt_childResults := (dt_childResults t)[index := (dt_childResults t ! index)\<lparr>sp_value := valueData\<rparr>]\<rparr>;
        v \<leftarrow> fromData valueData;
        if bv_kind v = ExistingInput then do {
          info \<leftarrow> getOutputInfo v;
          if isDirectory info then do {
            key \<leftarrow> signature_key (append_component (dt_path t) (sp_filename (dt_childResults t ! index))) (dt_filters t);
            Some (t1, [RequestInput key (1 + n + index)]) }
          else Some (t1, []) }
        else Some (t1, []) }
      else (let index = inputID - 1 - n in
        if index < n
        then Some (t\<lparr>dt_childResults := (dt_childResults t)[index := (dt_childResults t ! index)\<lparr>sp_signatureValue := Some valueData\<rparr>]\<rparr>, [])
        else None))"

definition treeSignature_provideValue ::
  "endian \<Rightarrow> nat \<Rightarrow> ValueType \<Rightarrow> DirectoryTreeTask \<Rightarrow> (DirectoryTreeTask \<times> BuildEffect list) option" where
  "treeSignature_provideValue en inputID valueData t =
     (if inputID = 0 then do {
        let t1 = t\<lparr>dt_directoryValue := valueData\<rparr>;
        v \<leftarrow> fromData valueData;
        if (isEmpty_StringList (dt_filters t) \<and> bv_kind v \<noteq> DirectoryContents) \<or>
           (\<not> isEmpty_StringList (dt_filters t) \<and> bv_kind v \<noteq> FilteredDirectoryContents)
        then Some (t1, [])
        else do { names \<leftarrow> getDirectoryContents v; Some (tree_children names t1) } }
      else tree_provide_child (makeDirectoryTreeSignatureKey en) inputID valueData t)"

definition structureSignature_provideValue ::
  "endian \<Rightarrow> nat \<Rightarrow> ValueType \<Rightarrow> DirectoryTreeTask \<Rightarrow> (DirectoryTreeTask \<times> BuildEffect list) option" where
  "structureSignature_provideValue en inputID valueData t =
     (if inputID = 0 then do {
        let t1 = t\<lparr>dt_directoryValue := valueData\<rparr>;
        v \<leftarrow> fromData valueData;
        if bv_kind v = MissingInput \<or> bv_kind v = SkippedCommand then Some (t1, [])
        else do { names \<leftarrow> getDirectoryContents v; Some (tree_children names t1) } }
      else tree_provide_child (makeDirectoryTreeStructureSignatureKey en) inputID valueData t)"

text \<open>The constant that stands for the absence of a nested signature.\<close>

definition NOTHING :: "64 word" where "NOTHING = 0xC183979C3E98722E"

definition combine_nested :: "Hash \<Rightarrow> ValueType option \<Rightarrow> 64 word \<Rightarrow> 64 word" where
  "combine_nested H nested code =
     (case nested of Some d \<Rightarrow> hs_with_code H code (hs_bytes H d) | None \<Rightarrow> hs_with_word H code NOTHING)"

definition combine_child :: "Hash \<Rightarrow> 64 word \<Rightarrow> SubpathInfo \<Rightarrow> 64 word" where
  "combine_child H code info = combine_nested H (sp_signatureValue info) (hs_with_code H code (hs_bytes H (sp_value info)))"

definition treeSignature_inputsAvailable :: "Hash \<Rightarrow> DirectoryTreeTask \<Rightarrow> BuildEffect list option" where
  "treeSignature_inputsAvailable H t =
     complete (makeDirectoryTreeSignature
       (foldl (combine_child H) (hs_with_code H (hs_string H (dt_path t)) (hs_bytes H (dt_directoryValue t))) (dt_childResults t)))"

definition combine_structure :: "Hash \<Rightarrow> ValueType \<Rightarrow> ValueKind \<Rightarrow> 64 word \<Rightarrow> 64 word option" where
  "combine_structure H valueData kind code =
     do { v \<leftarrow> fromData valueData;
          if bv_kind v = kind then do { info \<leftarrow> getOutputInfo v; Some (hs_with_word H code (fi_mode info)) }
          else Some (hs_with_code H code (hs_bytes H valueData)) }"

fun combine_structures :: "Hash \<Rightarrow> 64 word \<Rightarrow> SubpathInfo list \<Rightarrow> 64 word option" where
  "combine_structures H code [] = Some code"
| "combine_structures H code (info # infos) =
     do { code1 \<leftarrow> combine_structure H (sp_value info) ExistingInput (hs_with_string H code (sp_filename info));
          combine_structures H (combine_nested H (sp_signatureValue info) code1) infos }"

definition structureSignature_inputsAvailable :: "Hash \<Rightarrow> DirectoryTreeTask \<Rightarrow> BuildEffect list option" where
  "structureSignature_inputsAvailable H t =
     do { code \<leftarrow> combine_structure H (dt_directoryValue t) DirectoryContents (hs_string H (dt_path t));
          code1 \<leftarrow> combine_structures H code (dt_childResults t);
          complete (makeDirectoryTreeStructureSignature code1) }"

end
