(* ===== verification/External_Command_Properties.thy ===== *)
theory External_Command_Properties
  imports External_Command
begin

text \<open>
  What an external command guarantees: its stored result is reused exactly as long as the file system
  shows its outputs unchanged, it runs exactly when its inputs allow it, and a failure reaches all that
  depend on it.
\<close>

section \<open>The stored result\<close>

definition info_of :: "(string \<Rightarrow> FileInfo) \<Rightarrow> 64 word \<Rightarrow> BuildNode \<Rightarrow> FileInfo" where
  "info_of stat epoch n =
     (if bn_commandTimestamp n then epoch_info epoch else if isVirtual n then zero_info else stat (without_slash (bn_name n)))"

definition result_infos :: "(string \<Rightarrow> FileInfo) \<Rightarrow> 64 word \<Rightarrow> ExternalCommand \<Rightarrow> FileInfo list" where
  "result_infos stat epoch c =
     (if ec_outputs c = [] then [epoch_info epoch] else map (info_of stat epoch) (ec_outputs c))"

lemma result_infos_nth:
  assumes "i < length (ec_outputs c)"
  shows "i < length (result_infos stat epoch c)" "result_infos stat epoch c ! i = info_of stat epoch (ec_outputs c ! i)"
  using assms by (auto simp: result_infos_def)

lemma output_info_eq: "output_info stat epoch = (\<lambda>n. Some (info_of stat epoch n))"
  by (auto simp: fun_eq_iff output_info_def info_of_def node_getFileInfo_def)

lemma those_map_Some: "those (map (\<lambda>x. Some (f x)) xs) = Some (map f xs)"
  by (induction xs) simp_all

lemma computeCommandResult_eq: "computeCommandResult stat epoch c = makeSuccessfulCommand (result_infos stat epoch c)"
  by (simp add: computeCommandResult_def output_info_eq those_map_Some result_infos_def)

lemma value_outputs_Some:
  assumes "infos \<noteq> []" "length infos < 2 ^ 32"
  obtains v where "value_outputs kind infos sig = Some v" "bv_kind v = kind" "bv_numOutputInfos v = word_of_nat (length infos)"
    "bv_valueData v = decoded_data (word_of_nat (length infos)) infos"
proof -
  have "length infos \<ge> 1" using assms(1) by (cases infos) simp_all
  then show ?thesis
    using that assms number_eq [OF assms(2)] unat_number [OF assms(2)]
    by (cases "length infos = 1") (auto simp: value_outputs_def Let_def decoded_data_def value_plain_def)
qed

lemma value_outputs_nth:
  assumes "infos \<noteq> []" "length infos < 2 ^ 32" "kindHasOutputInfo (value_plain kind 0)"
  obtains v where "value_outputs kind infos sig = Some v" "bv_kind v = kind" "getNumOutputs v = Some (word_of_nat (length infos))"
    "\<And>i. i < length infos \<Longrightarrow> getNthOutputInfo v i = Some (infos ! i)"
proof -
  obtain v where v: "value_outputs kind infos sig = Some v" "bv_kind v = kind" "bv_numOutputInfos v = word_of_nat (length infos)"
    "bv_valueData v = decoded_data (word_of_nat (length infos)) infos"
    using value_outputs_Some [OF assms(1,2)] by blast
  have has: "kindHasOutputInfo v" using assms(3) v(2) by (simp add: kindHasOutputInfo_def isSuccessfulCommand_def value_plain_def)
  have "getNthOutputInfo v i = Some (infos ! i)" if "i < length infos" for i
    using that v has number_eq [OF assms(2)] unat_number [OF assms(2)]
    by (auto simp: getNthOutputInfo_def getNumOutputs_def hasMultipleOutputs_def decoded_data_def less_Suc_eq)
  then show ?thesis using that v has by (simp add: getNumOutputs_def)
qed

lemma computeCommandResult_nth:
  assumes "length (ec_outputs c) < 2 ^ 32"
  obtains v where "computeCommandResult stat epoch c = Some v" "bv_kind v = SuccessfulCommand"
    "getNumOutputs v = Some (word_of_nat (length (result_infos stat epoch c)))"
    "\<And>i. i < length (result_infos stat epoch c) \<Longrightarrow> getNthOutputInfo v i = Some (result_infos stat epoch c ! i)"
proof -
  have "result_infos stat epoch c \<noteq> []" "length (result_infos stat epoch c) < 2 ^ 32"
    using assms by (simp_all add: result_infos_def)
  moreover have "kindHasOutputInfo (value_plain SuccessfulCommand 0)" 
    by (simp add: kindHasOutputInfo_def isSuccessfulCommand_def value_plain_def)
  ultimately show ?thesis
    using that value_outputs_nth [where kind = SuccessfulCommand and sig = 0 and infos = "result_infos stat epoch c"]
    unfolding computeCommandResult_eq makeSuccessfulCommand_def by blast
qed

text \<open>What must hold of one output for the result to stay valid.\<close>

definition output_unchanged :: "(string \<Rightarrow> FileInfo) \<Rightarrow> (string \<Rightarrow> FileInfo) \<Rightarrow> BuildNode \<Rightarrow> bool" where
  "output_unchanged before now n =
     (let old = before (without_slash (bn_name n)); new = now (without_slash (bn_name n)) in
      isVirtual n \<or> (if bn_mutated n then isMissing old = isMissing new else FileInfo_eq old new))"

lemma outputs_unchanged_iff:
  assumes "\<And>i. i < length nodes \<Longrightarrow> getNthOutputInfo v (k + i) = Some (info_of before epoch (nodes ! i))"
    and "\<forall>n \<in> set nodes. node_ok n"
  shows "outputs_unchanged now v k nodes = Some (\<forall>n \<in> set nodes. output_unchanged before now n)"
  using assms
proof (induction nodes arbitrary: k)
  case (Cons n nodes)
  have rest: "outputs_unchanged now v (Suc k) nodes = Some (\<forall>n \<in> set nodes. output_unchanged before now n)"
    by (rule Cons.IH) (use Cons.prems(1) [of "Suc _"] Cons.prems(2) in simp_all)
  have "getNthOutputInfo v k = Some (info_of before epoch n)" using Cons.prems(1) [of 0] by simp
  moreover have "\<not> isVirtual n \<Longrightarrow> \<not> bn_commandTimestamp n" using Cons.prems(2) by (simp add: node_ok_def)
  ultimately show ?case
    using rest by (auto simp: node_getFileInfo_def output_unchanged_def info_of_def Let_def)
qed simp

text \<open>
  C12. the result a command computes when it has run is found valid in a later build exactly if the
  command is not declared always out of date and each of its outputs that is a file is unchanged:
  present if and only if it was, for a file that later commands mutate, and of equal file information
  for all others.  The question always has an answer.
\<close>

theorem result_reused_iff_unchanged:
  assumes "length (ec_outputs c) < 2 ^ 32" "\<forall>n \<in> set (ec_outputs c). node_ok n"
  shows "\<exists>v. computeCommandResult before epoch c = Some v \<and>
     external_isResultValid now c v =
       Some (\<not> ec_alwaysOutOfDate c \<and> (\<forall>n \<in> set (ec_outputs c). output_unchanged before now n))"
proof -
  obtain v where v: "computeCommandResult before epoch c = Some v" "bv_kind v = SuccessfulCommand"
    and nth: "\<And>i. i < length (result_infos before epoch c) \<Longrightarrow> getNthOutputInfo v i = Some (result_infos before epoch c ! i)"
    using computeCommandResult_nth [OF assms(1)] by metis
  have "getNthOutputInfo v (0 + i) = Some (info_of before epoch (ec_outputs c ! i))" if "i < length (ec_outputs c)" for i
    using nth [of i] result_infos_nth [OF that, of before epoch] by simp
  from outputs_unchanged_iff [OF this assms(2)] show ?thesis
    using v by (auto simp: external_isResultValid_def isSuccessfulCommand_def)
qed

definition sample_command :: ExternalCommand where
  "sample_command = (new_external_command ''C'')\<lparr>ec_inputs := [createNode ''a'', createNode ''b''],
     ec_outputs := [createNode ''out/x'', createNode ''<v>'', (createNode ''y'')\<lparr>bn_mutated := True\<rparr>]\<rparr>"

lemma sample_command_ok: "\<forall>n \<in> set (ec_outputs sample_command). node_ok n" "length (ec_outputs sample_command) < 2 ^ 32"
  by (simp_all add: sample_command_def node_ok_def createNode_def new_node_def)

theorem result_reused_iff_unchanged_witness:
  "\<exists>v. computeCommandResult (\<lambda>p. zero_info\<lparr>fi_size := 1\<rparr>) 5 sample_command = Some v \<and>
     external_isResultValid (\<lambda>p. zero_info\<lparr>fi_size := (if p = ''y'' then 2 else 1)\<rparr>) sample_command v = Some True \<and>
     external_isResultValid (\<lambda>p. zero_info\<lparr>fi_size := 2\<rparr>) sample_command v = Some False"
proof -
  note here = result_reused_iff_unchanged [OF sample_command_ok(2,1)]
  show ?thesis
    using here [of "\<lambda>p. zero_info\<lparr>fi_size := 1\<rparr>" 5 "\<lambda>p. zero_info\<lparr>fi_size := (if p = ''y'' then 2 else 1)\<rparr>"]
      here [of "\<lambda>p. zero_info\<lparr>fi_size := 1\<rparr>" 5 "\<lambda>p. zero_info\<lparr>fi_size := 2\<rparr>"]
    by (auto simp: sample_command_def new_external_command_def output_unchanged_def isVirtual_def createNode_def new_node_def
        without_slash_def isMissing_def FileInfo_eq_def zero_info_def zero_checksum_def)
qed

section \<open>Inputs decide whether the command runs\<close>

fun provide_all :: "(nat \<times> KeyType \<times> BuildValue) list \<Rightarrow> ExternalCommand \<Rightarrow> ExternalCommand option" where
  "provide_all [] c = Some c"
| "provide_all ((inputID, key, v) # rest) c = do { c1 \<leftarrow> external_provideValue inputID key v c; provide_all rest c1 }"

text \<open>The values a node or a custom task can have, as seen by a command that depends on it.\<close>

definition command_value :: "BuildValue \<Rightarrow> bool" where
  "command_value v \<longleftrightarrow>
     isSuccessfulCommand v \<or> bv_kind v = FailedCommand \<or> bv_kind v = PropagatedFailureCommand \<or> bv_kind v = CancelledCommand"

definition input_value :: "BuildValue \<Rightarrow> bool" where
  "input_value v \<longleftrightarrow> command_value v \<or> \<not> hasMultipleOutputs v \<and>
     bv_kind v \<in> {ExistingInput, MissingInput, MissingOutput, FailedInput, VirtualInput, SkippedCommand,
                 DirectoryTreeSignature, DirectoryTreeStructureSignature, StaleFileRemoval}"

text \<open>An input that keeps a command from running.\<close>

definition blocking :: "ExternalCommand \<Rightarrow> BuildValue \<Rightarrow> bool" where
  "blocking c v \<longleftrightarrow> bv_kind v = FailedInput \<or> bv_kind v = MissingInput \<and> \<not> ec_allowMissingInputs c"

definition reported_missing :: "ExternalCommand \<Rightarrow> (nat \<times> KeyType \<times> BuildValue) list \<Rightarrow> KeyType list" where
  "reported_missing c ps =
     map (\<lambda>(i, key, v). makeNode (bn_name (ec_inputs c ! i)))
       (filter (\<lambda>(i, key, v). bv_kind v = MissingInput \<and> \<not> ec_allowMissingInputs c) ps)"

definition after_inputs :: "(nat \<times> KeyType \<times> BuildValue) list \<Rightarrow> ExternalCommand \<Rightarrow> ExternalCommand" where
  "after_inputs ps c =
     c\<lparr>ec_skipValue := (if \<exists>(i, key, v) \<in> set ps. blocking c v then Some makePropagatedFailureCommand else ec_skipValue c),
       ec_missingInputKeys := ec_missingInputKeys c @ reported_missing c ps,
       ec_canUpdateIfNewer := (ec_canUpdateIfNewer c \<and> (\<forall>(i, key, v) \<in> set ps. bv_kind v \<noteq> MissingOutput))\<rparr>"

lemma provideValue_step:
  assumes "input_value v" "i < length (ec_inputs c)"
  shows "external_provideValue i key v c = Some (after_inputs [(i, key, v)] c)"
proof (cases "command_value v")
  case True
  then have "bv_kind v \<noteq> FailedInput" "bv_kind v \<noteq> MissingInput" "bv_kind v \<noteq> MissingOutput"
    by (auto simp: command_value_def isSuccessfulCommand_def)
  then have "after_inputs [(i, key, v)] c = c" by (simp add: after_inputs_def blocking_def reported_missing_def)
  with True show ?thesis by (simp add: external_provideValue_def command_value_def)
next
  case False
  then have one: "\<not> hasMultipleOutputs v" and kind: "bv_kind v \<in> {ExistingInput, MissingInput, MissingOutput, FailedInput,
      VirtualInput, SkippedCommand, DirectoryTreeSignature, DirectoryTreeStructureSignature, StaleFileRemoval}"
    using assms(1) by (auto simp: input_value_def)
  have "external_provideValue i key v c =
     do { skip \<leftarrow> skip_value_for_input (ec_allowMissingInputs c) v;
        case skip of
          Some s \<Rightarrow> Some (if bv_kind v = MissingInput
            then c\<lparr>ec_skipValue := Some s, ec_missingInputKeys := ec_missingInputKeys c @ [makeNode (bn_name (ec_inputs c ! i))]\<rparr>
            else c\<lparr>ec_skipValue := Some s\<rparr>)
        | None \<Rightarrow> Some (if bv_kind v = MissingOutput then c\<lparr>ec_canUpdateIfNewer := False\<rparr> else c) }"
    using False one assms(2) unfolding external_provideValue_def command_value_def
    by (cases "skip_value_for_input (ec_allowMissingInputs c) v") (auto simp: Let_def split: option.splits)
  also have "\<dots> = Some (after_inputs [(i, key, v)] c)"
    using kind by (elim insertE emptyE) (simp_all add: skip_value_for_input_def after_inputs_def blocking_def reported_missing_def)
  finally show ?thesis .
qed

lemma reported_missing_Cons: "reported_missing c (p # ps) = reported_missing c [p] @ reported_missing c ps"
  by (simp add: reported_missing_def)

lemma after_inputs_same:
  "blocking (after_inputs ps c) = blocking c" "reported_missing (after_inputs ps c) = reported_missing c"
  "ec_inputs (after_inputs ps c) = ec_inputs c"
  by (simp_all add: after_inputs_def blocking_def reported_missing_def fun_eq_iff)

lemma after_inputs_append: "after_inputs ps (after_inputs [p] c) = after_inputs (p # ps) c"
  unfolding after_inputs_def [of ps] after_inputs_def [of "p # ps"] after_inputs_same reported_missing_Cons [of c p ps]
  by (cases p) (simp add: after_inputs_def conj_assoc)

lemma provide_all_after_inputs:
  assumes "\<forall>(i, key, v) \<in> set ps. input_value v \<and> i < length (ec_inputs c)"
  shows "provide_all ps c = Some (after_inputs ps c)"
  using assms
proof (induction ps arbitrary: c)
  case Nil
  then show ?case by (simp add: after_inputs_def reported_missing_def)
next
  case (Cons p ps)
  obtain i key v where p: "p = (i, key, v)" using prod_cases3 by blast
  have "provide_all ps (after_inputs [p] c) = Some (after_inputs ps (after_inputs [p] c))"
    by (rule Cons.IH) (use Cons.prems in \<open>simp add: after_inputs_same\<close>)
  then show ?case using Cons.prems by (simp add: p provideValue_step after_inputs_append)
qed

definition fresh_command :: "ExternalCommand \<Rightarrow> ExternalCommand" where
  "fresh_command c = fst (external_start c)"

definition missing_report :: "ExternalCommand \<Rightarrow> KeyType list \<Rightarrow> BuildEffect list" where
  "missing_report c keys =
     (if keys = [] then []
      else [CannotBuildDueToMissingInputs (if ec_outputs c = [] then None else Some (bn_name (hd (ec_outputs c)))) keys,
            HadCommandFailure])"

text \<open>The condition for keeping modified outputs instead of running the command once more.\<close>

definition may_keep_outputs :: "(string \<Rightarrow> FileInfo) \<Rightarrow> 64 word \<Rightarrow> ExternalCommand \<Rightarrow> bool" where
  "may_keep_outputs stat epoch c \<longleftrightarrow> ec_canUpdateIfNewer c \<and> ec_hasPriorResult c \<and> ec_allowModifiedOutputs c \<and>
     (\<forall>info \<in> set (result_infos stat epoch c). \<not> isMissing info)"

lemma foldr_all_exist:
  assumes "\<And>i. i \<in> set is \<Longrightarrow> f i = Some (g i)"
  shows "foldr (\<lambda>i acc. do { info \<leftarrow> f i; if P info then Some False else acc }) is (Some True) = Some (\<forall>i \<in> set is. \<not> P (g i))"
  using assms by (induction "is") auto

lemma all_outputs_exist_result:
  assumes "length infos < 2 ^ 32" "getNumOutputs v = Some (word_of_nat (length infos))"
    and "\<And>i. i < length infos \<Longrightarrow> getNthOutputInfo v i = Some (infos ! i)"
  shows "all_outputs_exist v = Some (\<forall>info \<in> set infos. \<not> isMissing info)"
proof -
  have "all_outputs_exist v = Some (\<forall>i \<in> set [0..<length infos]. \<not> isMissing (infos ! i))"
    using assms foldr_all_exist [of "[0..<length infos]" "getNthOutputInfo v" "(!) infos" isMissing]
    by (simp add: all_outputs_exist_def unat_number)
  then show ?thesis by (auto simp: all_set_conv_all_nth)
qed

lemma execute_unblocked:
  assumes "length (ec_outputs c) < 2 ^ 32" "ec_skipValue c = None" "ec_missingInputKeys c = []"
  shows "external_execute stat epoch c =
     (if may_keep_outputs stat epoch c then map_option (\<lambda>v. [CommandResult v]) (computeCommandResult stat epoch c)
      else Some (parent_directories (ec_outputs c) @ [CommandStarted, RunExternalCommand]))"
proof -
  have len: "length (result_infos stat epoch c) < 2 ^ 32" using assms(1) by (simp add: result_infos_def)
  obtain v where v: "computeCommandResult stat epoch c = Some v"
    "all_outputs_exist v = Some (\<forall>info \<in> set (result_infos stat epoch c). \<not> isMissing info)"
    using computeCommandResult_nth [OF assms(1)] all_outputs_exist_result [OF len] by metis
  show ?thesis
    using v assms(2,3) by (auto simp: external_execute_def canUpdateIfNewerWithResult_def may_keep_outputs_def)
qed

lemma execute_blocked:
  assumes "\<exists>(i, key, v) \<in> set ps. blocking c v"
  shows "external_execute stat epoch (after_inputs ps (fresh_command c)) =
     Some (missing_report c (reported_missing c ps) @ [CommandResult makePropagatedFailureCommand])"
proof -
  have same: "blocking (fresh_command c) = blocking c" "reported_missing (fresh_command c) = reported_missing c"
    by (simp_all add: fresh_command_def external_start_def reported_missing_def blocking_def fun_eq_iff)
  have "ec_skipValue (after_inputs ps (fresh_command c)) = Some makePropagatedFailureCommand"
    using assms by (simp add: after_inputs_def same)
  moreover have "ec_missingInputKeys (after_inputs ps (fresh_command c)) = reported_missing c ps"
    "ec_outputs (after_inputs ps (fresh_command c)) = ec_outputs c"
    by (simp_all add: after_inputs_def same) (simp_all add: fresh_command_def external_start_def)
  ultimately show ?thesis by (auto simp: external_execute_def missing_report_def)
qed

text \<open>
  C13. a command is started, receives a value for each input it requested, and is executed.  If one of
  the inputs failed, or is missing where missing inputs are not allowed, the command does not run: its
  missing inputs are reported, in the order of their arrival, and it results in a propagated failure.
  Otherwise it runs, after the directories of its outputs have been created, unless it may keep
  outputs that were modified since it last ran; then it results in their present state.
\<close>

theorem command_runs_iff_inputs_usable:
  assumes "length (ec_outputs c) < 2 ^ 32"
    and "\<forall>(i, key, v) \<in> set ps. input_value v \<and> i < length (ec_inputs c)"
  shows "\<exists>c1. provide_all ps (fresh_command c) = Some c1 \<and>
     external_execute stat epoch c1 =
       (if \<exists>(i, key, v) \<in> set ps. blocking c v
        then Some (missing_report c (reported_missing c ps) @ [CommandResult makePropagatedFailureCommand])
        else if may_keep_outputs stat epoch c1 then map_option (\<lambda>v. [CommandResult v]) (computeCommandResult stat epoch c)
        else Some (parent_directories (ec_outputs c) @ [CommandStarted, RunExternalCommand]))"
proof -
  let ?c1 = "after_inputs ps (fresh_command c)"
  have run: "provide_all ps (fresh_command c) = Some ?c1"
    by (rule provide_all_after_inputs) (use assms(2) in \<open>simp add: fresh_command_def external_start_def\<close>)
  have same: "ec_outputs ?c1 = ec_outputs c" "reported_missing (fresh_command c) = reported_missing c"
    "blocking (fresh_command c) = blocking c" "computeCommandResult stat epoch ?c1 = computeCommandResult stat epoch c"
    by (simp_all add: after_inputs_def fresh_command_def external_start_def reported_missing_def blocking_def
        fun_eq_iff computeCommandResult_def)
  show ?thesis
  proof (cases "\<exists>(i, key, v) \<in> set ps. blocking c v")
    case True
    then show ?thesis using run execute_blocked [OF True, of stat epoch] by auto
  next
    case False
    then have "ec_skipValue ?c1 = None" "ec_missingInputKeys ?c1 = []"
      by (auto simp: after_inputs_def same reported_missing_def filter_empty_conv blocking_def)
        (simp_all add: fresh_command_def external_start_def)
    from execute_unblocked [OF _ this, of stat epoch] show ?thesis using assms(1) run False by (auto simp: same)
  qed
qed

theorem command_runs_iff_inputs_usable_witness:
  "(\<exists>c1. provide_all [(0, [], makeVirtualInput), (1, [], makeMissingInput)] (fresh_command sample_command) = Some c1 \<and>
     external_execute (\<lambda>p. zero_info) 5 c1 =
       Some [CannotBuildDueToMissingInputs (Some ''out/x'') [makeNode ''b''], HadCommandFailure,
             CommandResult makePropagatedFailureCommand])"
  using command_runs_iff_inputs_usable [of sample_command "[(0, [], makeVirtualInput), (1, [], makeMissingInput)]" "\<lambda>p. zero_info" 5]
  by (simp add: sample_command_def new_external_command_def input_value_def command_value_def isSuccessfulCommand_def make_defs
      value_plain_def hasMultipleOutputs_def blocking_def reported_missing_def missing_report_def createNode_def new_node_def)

end
