(* ===== verification/Directory_Properties.thy ===== *)
theory Directory_Properties
  imports Directory_Tasks External_Command_Properties "HOL-Library.Multiset"
begin

text \<open>
  What the tasks for input nodes and directories guarantee: a stored value is found valid exactly if
  computing it again would give the same, and the signature of a directory tree does not depend on the
  order in which the values of its parts arrive.
\<close>

section \<open>Values of single files\<close>

lemma makeExistingInput_info:
  assumes "\<not> isMissing info"
  obtains v where "makeExistingInput info = Some v" "bv_kind v = ExistingInput" "getOutputInfo v = Some info"
  using that assms
  by (simp add: makeExistingInput_def value_outputs_def Let_def value_plain_def getOutputInfo_def kindHasOutputInfo_def
      hasMultipleOutputs_def)

lemma value_of_info_cases:
  obtains v where "value_of_info info = Some v"
    "bv_kind v = (if isMissing info then MissingInput else ExistingInput)"
    "\<not> isMissing info \<Longrightarrow> getOutputInfo v = Some info"
  using that makeExistingInput_info [of info]
  by (cases "isMissing info") (auto simp: value_of_info_def makeMissingInput_def value_plain_def)

text \<open>
  The value a file node had in one build is found valid in a later one exactly if the file is absent
  both times, or present both times with equal file information.  The node of a file that is not virtual
  always has a value.
\<close>

theorem file_input_valid_iff_unchanged:
  assumes "\<not> isVirtual node"
  shows "\<exists>v. node_getFileInfo before node \<bind> value_of_info = Some v \<and>
     fileInput_isResultValid now node v =
       Some (let old = before (without_slash (bn_name node)); new = now (without_slash (bn_name node)) in
             isMissing old \<and> isMissing new \<or> \<not> isMissing old \<and> \<not> isMissing new \<and> FileInfo_eq old new)"
proof -
  let ?old = "before (without_slash (bn_name node))"
  obtain v where "value_of_info ?old = Some v" "bv_kind v = (if isMissing ?old then MissingInput else ExistingInput)"
    "\<not> isMissing ?old \<Longrightarrow> getOutputInfo v = Some ?old"
    using value_of_info_cases [of ?old] by blast
  then show ?thesis
    using assms by (auto simp: node_getFileInfo_def fileInput_isResultValid_def Let_def)
qed

theorem file_input_valid_iff_unchanged_witness:
  "\<exists>v. node_getFileInfo (\<lambda>p. zero_info\<lparr>fi_size := 7\<rparr>) (createNode ''a/b'') \<bind> value_of_info = Some v \<and>
     fileInput_isResultValid (\<lambda>p. zero_info) (createNode ''a/b'') v = Some False"
  using file_input_valid_iff_unchanged [of "createNode ''a/b''" "\<lambda>p. zero_info\<lparr>fi_size := 7\<rparr>" "\<lambda>p. zero_info"]
  by (simp add: createNode_def new_node_def isVirtual_def isMissing_def zero_info_def Let_def)

section \<open>Directory listings\<close>

lemma getContents_sorted: "sorted (getContents entries path)"
  by (simp add: getContents_def)

lemma getContents_set:
  "set (getContents entries path) = {de_name e | e. e \<in> set (entries path) \<and> \<not> isParentLink path e}"
  by (auto simp: getContents_def)

lemma getContents_order_irrelevant:
  "mset (entries path) = mset (entries1 path) \<Longrightarrow> getContents entries path = getContents entries1 path"
  by (simp add: getContents_def sorted_list_of_multiset_mset [symmetric] mset_map mset_filter)

lemma directoryContents_value:
  assumes "no_nul names"
  obtains v where "makeDirectoryContents info names = Some v" "bv_kind v = DirectoryContents" "getOutputInfo v = Some info"
    "getDirectoryContents v = Some names"
proof -
  obtain l where l: "StringList_values names = Some l" "holds l names"
    using assms StringList_values_pack holds_values by metis
  then have "getValues (fst (StringList_move_assign x l)) = Some names" for x
    using holds_move_assign holds_getValues by blast
  then show ?thesis
    using that l(1)
    by (simp add: makeDirectoryContents_def value_directory_def value_outputs_def value_plain_def kindHasStringList_def
        getOutputInfo_def kindHasOutputInfo_def hasMultipleOutputs_def getDirectoryContents_def getStringListValues_def)
qed

text \<open>
  The listing of a directory is found valid in a later build exactly if the path is still a
  directory and lists the same names, links to directories above left out; the order in which the
  system reports the entries does not matter.
\<close>

theorem directory_listing_valid_iff_unchanged:
  assumes "no_nul (getContents before path)" "isDirectory info"
  shows "\<exists>v. makeDirectoryContents info (getContents before path) = Some v \<and>
     contents_isResultValid stat now path v =
       Some (\<not> isMissing (stat path) \<and> isDirectory (stat path) \<and> getContents now path = getContents before path)"
proof -
  obtain v where v: "makeDirectoryContents info (getContents before path) = Some v" "bv_kind v = DirectoryContents"
    "getOutputInfo v = Some info" "getDirectoryContents v = Some (getContents before path)"
    using directoryContents_value [OF assms(1)] .
  have "(length cur = length prev \<and> list_all2 (=) cur prev) = (cur = prev)" for cur prev :: "string list"
    by (metis list.rel_eq)
  with v show ?thesis using assms(2) by (auto simp: contents_isResultValid_def Let_def)
qed

definition sample_entries :: "string list \<Rightarrow> string \<Rightarrow> DirectoryEntry list" where
  "sample_entries names path = map (\<lambda>n. \<lparr>de_name = n, de_isSymlink = False, de_realPath = None\<rparr>) names"

theorem directory_listing_valid_iff_unchanged_witness:
  "\<exists>v. makeDirectoryContents (zero_info\<lparr>fi_mode := S_IFDIR\<rparr>) (getContents (sample_entries [''b'', ''a'']) ''d'') = Some v \<and>
     contents_isResultValid (\<lambda>p. zero_info\<lparr>fi_mode := S_IFDIR\<rparr>) (sample_entries [''a'', ''b'']) ''d'' v = Some True"
proof -
  have "isDirectory (zero_info\<lparr>fi_mode := S_IFDIR\<rparr>)" "\<not> isMissing (zero_info\<lparr>fi_mode := S_IFDIR\<rparr>)"
    by (simp_all add: isDirectory_def S_IFDIR_def zero_info_def isMissing_def)
  moreover have "getContents (sample_entries ns) ''d'' = sort ns" for ns
    by (simp add: getContents_def sample_entries_def isParentLink_def comp_def)
  moreover have "sort [''b'', ''a''] = [''a'', ''b'']" "sort [''a'', ''b''] = [''a'', ''b'']" by code_simp+
  ultimately show ?thesis
    using directory_listing_valid_iff_unchanged [of "sample_entries [''b'', ''a'']" "''d''" "zero_info\<lparr>fi_mode := S_IFDIR\<rparr>"
        "\<lambda>p. zero_info\<lparr>fi_mode := S_IFDIR\<rparr>" "sample_entries [''a'', ''b'']"]
    by simp
qed

section \<open>Signatures of directory trees\<close>

text \<open>Feeding the answers to the requests, in some order; the second component collects what is requested.\<close>

fun feed_inputs :: "(nat \<Rightarrow> ValueType \<Rightarrow> DirectoryTreeTask \<Rightarrow> (DirectoryTreeTask \<times> BuildEffect list) option) \<Rightarrow>
  (nat \<Rightarrow> ValueType) \<Rightarrow> nat list \<Rightarrow> DirectoryTreeTask \<Rightarrow> (DirectoryTreeTask \<times> BuildEffect list) option" where
  "feed_inputs provide answer [] t = Some (t, [])"
| "feed_inputs provide answer (i # ids) t =
     do { (t1, es1) \<leftarrow> provide i (answer i) t; (t2, es2) \<leftarrow> feed_inputs provide answer ids t1; Some (t2, es1 @ es2) }"

text \<open>A value that can be decoded, and the value of a directory.\<close>

definition child_value :: "ValueType \<Rightarrow> bool" where
  "child_value d \<longleftrightarrow> (case fromData d of None \<Rightarrow> False | Some v \<Rightarrow> bv_kind v = ExistingInput \<longrightarrow> getOutputInfo v \<noteq> None)"

definition directory_value :: "ValueType \<Rightarrow> bool" where
  "directory_value d \<longleftrightarrow>
     (case fromData d of None \<Rightarrow> False
      | Some v \<Rightarrow> bv_kind v = ExistingInput \<and> (case getOutputInfo v of None \<Rightarrow> False | Some info \<Rightarrow> isDirectory info))"

text \<open>The state once the inputs with identities in \<open>S\<close> have arrived.\<close>

definition child_result :: "string list \<Rightarrow> (nat \<Rightarrow> ValueType) \<Rightarrow> nat set \<Rightarrow> nat \<Rightarrow> SubpathInfo" where
  "child_result names answer S i =
     \<lparr>sp_filename = names ! i, sp_value = (if Suc i \<in> S then answer (Suc i) else []),
      sp_signatureValue = (if Suc (length names + i) \<in> S then Some (answer (Suc (length names + i))) else None)\<rparr>"

definition tree_state :: "string list \<Rightarrow> (nat \<Rightarrow> ValueType) \<Rightarrow> nat set \<Rightarrow> DirectoryTreeTask \<Rightarrow> DirectoryTreeTask" where
  "tree_state names answer S t = t\<lparr>dt_childResults := map (child_result names answer S) [0..<length names]\<rparr>"

definition nested_request ::
  "(string \<Rightarrow> StringList \<Rightarrow> KeyType option) \<Rightarrow> string list \<Rightarrow> (nat \<Rightarrow> ValueType) \<Rightarrow> DirectoryTreeTask \<Rightarrow> nat \<Rightarrow> BuildEffect list" where
  "nested_request signature_key names answer t i =
     (if 1 \<le> i \<and> i \<le> length names \<and> directory_value (answer i)
      then [RequestInput (the (signature_key (append_component (dt_path t) (names ! (i - 1))) (dt_filters t))) (length names + i)]
      else [])"

definition answerable ::
  "(string \<Rightarrow> StringList \<Rightarrow> KeyType option) \<Rightarrow> string list \<Rightarrow> (nat \<Rightarrow> ValueType) \<Rightarrow> string \<Rightarrow> StringList \<Rightarrow> bool" where
  "answerable signature_key names answer path filters \<longleftrightarrow>
     (\<forall>i \<in> {1..length names}. child_value (answer i) \<and>
        (directory_value (answer i) \<longrightarrow> signature_key (append_component path (names ! (i - 1))) filters \<noteq> None))"

lemma child_filename [simp]: "sp_filename (child_result names answer S j) = names ! j"
  by (simp add: child_result_def)

lemma child_update:
  assumes "j < length names"
  shows "(map (child_result names answer S) [0..<length names])[j := (child_result names answer S j)\<lparr>sp_value := answer (Suc j)\<rparr>]
       = map (child_result names answer (insert (Suc j) S)) [0..<length names]"
    and "(map (child_result names answer S) [0..<length names])
           [j := (child_result names answer S j)\<lparr>sp_signatureValue := Some (answer (Suc (length names + j)))\<rparr>]
       = map (child_result names answer (insert (Suc (length names + j)) S)) [0..<length names]"
  using assms by (auto intro!: nth_equalityI simp: nth_list_update child_result_def)

lemma provide_child_step:
  assumes "answerable signature_key names answer (dt_path t) (dt_filters t)" "1 \<le> i" "i \<le> 2 * length names"
  shows "tree_provide_child signature_key i (answer i) (tree_state names answer S t) =
     Some (tree_state names answer (insert i S) t, nested_request signature_key names answer t i)"
proof (cases "i \<le> length names")
  case True
  then obtain j where j: "i = Suc j" "j < length names" using assms(2) by (cases i) auto
  have "child_value (answer i)" and key: "directory_value (answer i) \<Longrightarrow>
      \<exists>k. signature_key (append_component (dt_path t) (names ! j)) (dt_filters t) = Some k"
    using assms(1,2) True j by (auto simp: answerable_def)
  then obtain v where v: "fromData (answer i) = Some v" "bv_kind v = ExistingInput \<Longrightarrow> \<exists>info. getOutputInfo v = Some info"
    by (auto simp: child_value_def split: option.splits)
  show ?thesis
  proof (cases "bv_kind v = ExistingInput")
    case True
    then obtain info where "getOutputInfo v = Some info" using v(2) by blast
    with True v(1) key j child_update(1) [OF j(2)] show ?thesis
      by (auto simp: tree_provide_child_def tree_state_def nested_request_def directory_value_def Let_def)
  next
    case False
    with v(1) j child_update(1) [OF j(2)] show ?thesis
      by (simp add: tree_provide_child_def tree_state_def nested_request_def directory_value_def Let_def)
  qed
next
  case False
  then obtain j where j: "i = Suc (length names + j)" "j < length names"
    using assms(2,3) by (metis add_less_cancel_left less_iff_Suc_add mult_2 not_le less_eq_Suc_le add_Suc_right)
  show ?thesis
    using j child_update(2) [OF j(2)]
    by (auto simp: tree_provide_child_def tree_state_def nested_request_def child_result_def Let_def)
qed

text \<open>
  The interface of the two tasks that compute signatures of directory trees: how they take the listing
  and that they share the treatment of the children.
\<close>

locale tree_task =
  fixes provide :: "nat \<Rightarrow> ValueType \<Rightarrow> DirectoryTreeTask \<Rightarrow> (DirectoryTreeTask \<times> BuildEffect list) option"
    and signature_key :: "string \<Rightarrow> StringList \<Rightarrow> KeyType option"
    and lists :: "StringList \<Rightarrow> BuildValue \<Rightarrow> bool"
  assumes provide_listing: "fromData d = Some v \<Longrightarrow> lists (dt_filters t) v \<Longrightarrow> getDirectoryContents v = Some names \<Longrightarrow>
      provide 0 d t = Some (tree_children names (t\<lparr>dt_directoryValue := d\<rparr>))"
    and provide_child: "0 < inputID \<Longrightarrow> provide inputID d t = tree_provide_child signature_key inputID d t"
begin

lemma feed_children:
  assumes "answerable signature_key names answer (dt_path t) (dt_filters t)" "set ids \<subseteq> {1..2 * length names}"
  shows "feed_inputs provide answer ids (tree_state names answer S t) =
     Some (tree_state names answer (S \<union> set ids) t, concat (map (nested_request signature_key names answer t) ids))"
  using assms(2)
proof (induction ids arbitrary: S)
  case (Cons i ids)
  then have "provide i (answer i) (tree_state names answer S t) =
      Some (tree_state names answer (insert i S) t, nested_request signature_key names answer t i)"
    using provide_child_step [OF assms(1)] by (simp add: provide_child)
  with Cons show ?case by simp
qed simp

lemma feed_all:
  assumes "fromData (answer 0) = Some v" "lists filters v" "getDirectoryContents v = Some names"
    and "answerable signature_key names answer path filters" "set ids \<subseteq> {1..2 * length names}"
  shows "feed_inputs provide answer (0 # ids) (new_tree_task path filters) =
     Some (tree_state names answer (set ids) ((new_tree_task path filters)\<lparr>dt_directoryValue := answer 0\<rparr>),
           request_nodes 1 (map (append_component path) names) @
           concat (map (nested_request signature_key names answer (new_tree_task path filters)) ids))"
proof -
  let ?t = "(new_tree_task path filters)\<lparr>dt_directoryValue := answer 0\<rparr>"
  have "map (\<lambda>n. \<lparr>sp_filename = n, sp_value = [], sp_signatureValue = None\<rparr>) names = map (child_result names answer {}) [0..<length names]"
    by (auto intro!: nth_equalityI simp: child_result_def)
  then have "provide 0 (answer 0) (new_tree_task path filters) =
      Some (tree_state names answer {} ?t, request_nodes 1 (map (append_component path) names))"
    using provide_listing [of "answer 0" v "new_tree_task path filters" names] assms(1-3)
    by (simp add: tree_children_def tree_state_def new_tree_task_def)
  moreover have "nested_request signature_key names answer ?t = nested_request signature_key names answer (new_tree_task path filters)"
    by (simp add: nested_request_def fun_eq_iff)
  ultimately show ?thesis
    using feed_children [of names answer ?t ids "{}"] assms(4,5) by (simp add: new_tree_task_def)
qed

end

definition contents_listing :: "StringList \<Rightarrow> BuildValue \<Rightarrow> bool" where
  "contents_listing filters v \<longleftrightarrow> bv_kind v = (if isEmpty_StringList filters then DirectoryContents else FilteredDirectoryContents)"

definition any_listing :: "StringList \<Rightarrow> BuildValue \<Rightarrow> bool" where
  "any_listing filters v \<longleftrightarrow> bv_kind v = DirectoryContents \<or> bv_kind v = FilteredDirectoryContents"

interpretation tree_contents: tree_task "treeSignature_provideValue en" "makeDirectoryTreeSignatureKey en" contents_listing
  for en
  by unfold_locales (auto simp: treeSignature_provideValue_def contents_listing_def Let_def split: if_splits)

interpretation tree_structure: tree_task "structureSignature_provideValue en" "makeDirectoryTreeStructureSignatureKey en" any_listing
  for en
  by unfold_locales (auto simp: structureSignature_provideValue_def any_listing_def Let_def)

text \<open>The inputs that are requested, and the code of the tree as a function of their values.\<close>

definition needed :: "string list \<Rightarrow> (nat \<Rightarrow> ValueType) \<Rightarrow> nat set" where
  "needed names answer = {1..length names} \<union> (\<lambda>i. length names + i) ` {i \<in> {1..length names}. directory_value (answer i)}"

definition nested_answer :: "string list \<Rightarrow> (nat \<Rightarrow> ValueType) \<Rightarrow> nat \<Rightarrow> ValueType option" where
  "nested_answer names answer i = (if directory_value (answer i) then Some (answer (length names + i)) else None)"

definition tree_code :: "Hash \<Rightarrow> string \<Rightarrow> string list \<Rightarrow> (nat \<Rightarrow> ValueType) \<Rightarrow> 64 word" where
  "tree_code H path names answer =
     foldl (\<lambda>code i. combine_nested H (nested_answer names answer i) (hs_with_code H code (hs_bytes H (answer i))))
       (hs_with_code H (hs_string H path) (hs_bytes H (answer 0))) [1..<Suc (length names)]"

fun structure_code_from :: "Hash \<Rightarrow> string list \<Rightarrow> (nat \<Rightarrow> ValueType) \<Rightarrow> 64 word \<Rightarrow> nat list \<Rightarrow> 64 word option" where
  "structure_code_from H names answer code [] = Some code"
| "structure_code_from H names answer code (i # is) =
     do { code1 \<leftarrow> combine_structure H (answer i) ExistingInput (hs_with_string H code (names ! (i - 1)));
          structure_code_from H names answer (combine_nested H (nested_answer names answer i) code1) is }"

definition structure_code :: "Hash \<Rightarrow> string \<Rightarrow> string list \<Rightarrow> (nat \<Rightarrow> ValueType) \<Rightarrow> 64 word option" where
  "structure_code H path names answer =
     do { code \<leftarrow> combine_structure H (answer 0) DirectoryContents (hs_string H path);
          structure_code_from H names answer code [1..<Suc (length names)] }"

lemma needed_bounds: "needed names answer \<subseteq> {1..2 * length names}"
  by (auto simp: needed_def)

lemma child_result_needed:
  assumes "j < length names"
  shows "child_result names answer (needed names answer) j =
     \<lparr>sp_filename = names ! j, sp_value = answer (Suc j), sp_signatureValue = nested_answer names answer (Suc j)\<rparr>"
  using assms by (auto simp: child_result_def needed_def nested_answer_def image_iff)

lemma children_needed:
  "dt_childResults (tree_state names answer (needed names answer) t) =
     map (\<lambda>i. \<lparr>sp_filename = names ! (i - 1), sp_value = answer i, sp_signatureValue = nested_answer names answer i\<rparr>)
       [1..<Suc (length names)]"
proof -
  have "[1..<Suc (length names)] = map Suc [0..<length names]" by (simp only: map_Suc_upt One_nat_def)
  then show ?thesis by (simp only: map_map) (simp add: tree_state_def child_result_needed)
qed

lemma foldl_children:
  "foldl (combine_child H) code (map (\<lambda>i. \<lparr>sp_filename = f i, sp_value = answer i, sp_signatureValue = nested_answer names answer i\<rparr>) is) =
   foldl (\<lambda>code i. combine_nested H (nested_answer names answer i) (hs_with_code H code (hs_bytes H (answer i)))) code is"
  by (induction "is" arbitrary: code) (simp_all add: combine_child_def)

lemma combine_structures_children:
  "combine_structures H code
     (map (\<lambda>i. \<lparr>sp_filename = names ! (i - 1), sp_value = answer i, sp_signatureValue = nested_answer names answer i\<rparr>) is) =
   structure_code_from H names answer code is"
  by (induction "is" arbitrary: code) simp_all

text \<open>
  C20. The signature of a directory tree is a function of the values of its parts, taken in the order
  of the listing: whatever the order in which the engine delivers the listing's children and the
  signatures of the subdirectories, the task accepts them without a failed assertion, requests the
  signature of exactly the children that are directories, and completes with the same signature.
\<close>

theorem tree_signature_order_irrelevant:
  assumes "fromData (answer 0) = Some v" "contents_listing filters v" "getDirectoryContents v = Some names"
    and "answerable (makeDirectoryTreeSignatureKey en) names answer path filters" "set ids = needed names answer"
  shows "\<exists>t1. feed_inputs (treeSignature_provideValue en) answer (0 # ids) (new_tree_task path filters) =
      Some (t1, request_nodes 1 (map (append_component path) names) @
        concat (map (nested_request (makeDirectoryTreeSignatureKey en) names answer (new_tree_task path filters)) ids)) \<and>
     treeSignature_inputsAvailable H t1 = complete (makeDirectoryTreeSignature (tree_code H path names answer))"
proof -
  let ?t1 = "tree_state names answer (needed names answer) ((new_tree_task path filters)\<lparr>dt_directoryValue := answer 0\<rparr>)"
  have "treeSignature_inputsAvailable H ?t1 = complete (makeDirectoryTreeSignature (tree_code H path names answer))"
    by (simp only: treeSignature_inputsAvailable_def children_needed foldl_children tree_code_def)
      (simp add: tree_state_def new_tree_task_def)
  then show ?thesis
    using tree_contents.feed_all [OF assms(1-4), of ids] needed_bounds [of names answer] unfolding assms(5) by blast
qed

text \<open>A directory with one file and one directory in it.\<close>

definition sample_info :: "bool \<Rightarrow> FileInfo" where
  "sample_info dir = zero_info\<lparr>fi_mode := (if dir then S_IFDIR else 0), fi_size := 1\<rparr>"

definition sample_answer :: "nat \<Rightarrow> ValueType" where
  "sample_answer i = the (toData (the (
     if i = 0 then makeDirectoryContents (sample_info True) [''a'', ''b'']
     else if i = 1 then makeExistingInput (sample_info False)
     else if i = 2 then makeExistingInput (sample_info True)
     else Some (makeDirectoryTreeSignature 9))))"

lemma encode_decode:
  assumes "rep v infos vs"
  shows "toData v = Some (the (toData v))" "fromData (the (toData v)) = Some (decoded_value v vs)"
  using toData_code [OF assms] fromData_code [OF assms] by simp_all

lemma sample_info_facts: "info_ok (sample_info dir)" "\<not> isMissing (sample_info dir)" "isDirectory (sample_info dir) = dir"
  by (simp_all add: sample_info_def info_ok_def zero_info_def zero_checksum_def is_checksum_def isMissing_def isDirectory_def S_IFDIR_def)

lemma sample_answer_child:
  assumes "i = 1 \<or> i = 2"
  shows "child_value (sample_answer i)" "directory_value (sample_answer i) = (i = 2)"
proof -
  obtain v where v: "makeExistingInput (sample_info (i = 2)) = Some v" "bv_kind v = ExistingInput" "getOutputInfo v = Some (sample_info (i = 2))"
    using makeExistingInput_info sample_info_facts(2) by metis
  have made: "value_outputs ExistingInput [sample_info (i = 2)] 0 = Some v"
    using v(1) sample_info_facts(2) by (simp add: makeExistingInput_def)
  have r: "rep v [sample_info (i = 2)] []"
    using sample_info_facts(1) by (intro rep_outputs [OF made]) (simp_all add: kind_ok_def kindHasOutputInfo_def value_plain_def)
  have "fromData (sample_answer i) = Some (decoded_value v [])"
    using encode_decode(2) [OF r] v(1) assms by (auto simp: sample_answer_def)
  moreover have "bv_kind (decoded_value v []) = ExistingInput" "getOutputInfo (decoded_value v []) = Some (sample_info (i = 2))"
    using v(2,3)
    by (simp_all add: decoded_value_def getOutputInfo_def kindHasOutputInfo_def isSuccessfulCommand_def hasMultipleOutputs_def
        split: if_splits)
  ultimately show "child_value (sample_answer i)" "directory_value (sample_answer i) = (i = 2)"
    by (simp_all add: child_value_def directory_value_def sample_info_facts(3))
qed

lemma sample_answer_listing:
  obtains v where "fromData (sample_answer 0) = Some v" "bv_kind v = DirectoryContents" "getDirectoryContents v = Some [''a'', ''b'']"
proof -
  obtain v where v: "makeDirectoryContents (sample_info True) [''a'', ''b''] = Some v" "bv_kind v = DirectoryContents"
    by (rule directoryContents_value [of "[''a'', ''b'']" "sample_info True"]) simp_all
  have r: "rep v [sample_info True] [''a'', ''b'']"
    by (rule rep_directory [of DirectoryContents])
      (use v(1) sample_info_facts(1) in \<open>simp_all add: makeDirectoryContents_def kind_ok_def kindHasOutputInfo_def value_plain_def\<close>)
  note same = decoded_same(2) [OF r]
  have "getValues (bv_stringValues (decoded_value v [''a'', ''b''])) = Some [''a'', ''b'']"
    using same r holds_getValues by (auto simp: same_value_def rep_def)
  moreover have "fromData (sample_answer 0) = Some (decoded_value v [''a'', ''b''])"
    using encode_decode(2) [OF r] v(1) by (simp add: sample_answer_def)
  moreover have "bv_kind (decoded_value v [''a'', ''b'']) = DirectoryContents" using v(2) by (simp add: decoded_value_def)
  ultimately show ?thesis
    by (intro that [of "decoded_value v [''a'', ''b'']"])
      (simp_all add: getDirectoryContents_def getStringListValues_def kindHasStringList_def)
qed

lemma sample_children: "{1..length [''a'', ''b'']} = {1, 2}"
  by auto

lemma sample_needed: "needed [''a'', ''b''] sample_answer = {1, 2, 4}"
proof -
  have "\<not> directory_value (sample_answer 1)" "directory_value (sample_answer 2)"
    using sample_answer_child(2) [of 1] sample_answer_child(2) [of 2] by simp_all
  then have dirs: "{i \<in> {1, 2}. directory_value (sample_answer i)} = {2}" by blast
  show ?thesis unfolding needed_def sample_children dirs by (simp add: insert_commute eval_nat_numeral)
qed

lemma sample_answerable:
  assumes "key ''d/b'' empty_StringList \<noteq> None"
  shows "answerable key [''a'', ''b''] sample_answer ''d'' empty_StringList"
proof -
  have "append_component ''d'' ''b'' = ''d/b''" by code_simp
  moreover have "\<not> directory_value (sample_answer 1)" using sample_answer_child(2) [of 1] by simp
  ultimately show ?thesis
    using sample_answer_child(1) [of 1] sample_answer_child(1) [of 2] assms unfolding answerable_def sample_children by simp
qed

lemma sample_keys:
  "makeDirectoryTreeSignatureKey Little ''d/b'' empty_StringList \<noteq> None"
  "makeDirectoryTreeStructureSignatureKey Little ''d/b'' empty_StringList \<noteq> None"
  by (simp_all add: makeDirectoryTreeSignatureKey_def makeDirectoryTreeStructureSignatureKey_def StringList_encode_def
      empty_StringList_def key_with_data_def write64_code)

definition sample_hash :: Hash where
  "sample_hash = \<lparr>hs_string = (\<lambda>s. word_of_nat (length s)), hs_with_string = (\<lambda>c s. 3 * c + word_of_nat (length s)),
     hs_with_bool = (\<lambda>c b. 3 * c + (if b then 1 else 0)), hs_with_code = (\<lambda>c d. 3 * c + d), hs_with_word = (\<lambda>c d. 5 * c + d),
     hs_bytes = (\<lambda>bs. word_of_nat (length bs))\<rparr>"

theorem tree_signature_order_irrelevant_witness:
  "\<exists>t1 es1 t2 es2.
     feed_inputs (treeSignature_provideValue Little) sample_answer [0, 1, 2, 4] (new_tree_task ''d'' empty_StringList) = Some (t1, es1) \<and>
     feed_inputs (treeSignature_provideValue Little) sample_answer [0, 2, 4, 1] (new_tree_task ''d'' empty_StringList) = Some (t2, es2) \<and>
     treeSignature_inputsAvailable sample_hash t1 = treeSignature_inputsAvailable sample_hash t2"
proof -
  obtain v where v: "fromData (sample_answer 0) = Some v" "bv_kind v = DirectoryContents" "getDirectoryContents v = Some [''a'', ''b'']"
    by (rule sample_answer_listing)
  have "contents_listing empty_StringList v"
    using v(2) by (simp add: contents_listing_def isEmpty_StringList_def empty_StringList_def)
  moreover have "set [1, 2, 4] = needed [''a'', ''b''] sample_answer" "set [2, 4, 1] = needed [''a'', ''b''] sample_answer"
    unfolding sample_needed by auto
  ultimately show ?thesis
    using tree_signature_order_irrelevant [OF v(1) _ v(3) sample_answerable [of "makeDirectoryTreeSignatureKey Little", OF sample_keys(1)], of "[1, 2, 4]" sample_hash]
      tree_signature_order_irrelevant [OF v(1) _ v(3) sample_answerable [of "makeDirectoryTreeSignatureKey Little", OF sample_keys(1)], of "[2, 4, 1]" sample_hash]
    by fastforce
qed

text \<open>
  The same holds for the signature of the structure of a directory tree, which looks at the names,
  the modes and the nested signatures only.
\<close>

theorem structure_signature_order_irrelevant:
  assumes "fromData (answer 0) = Some v" "any_listing filters v" "getDirectoryContents v = Some names"
    and "answerable (makeDirectoryTreeStructureSignatureKey en) names answer path filters" "set ids = needed names answer"
  shows "\<exists>t1. feed_inputs (structureSignature_provideValue en) answer (0 # ids) (new_tree_task path filters) =
      Some (t1, request_nodes 1 (map (append_component path) names) @
        concat (map (nested_request (makeDirectoryTreeStructureSignatureKey en) names answer (new_tree_task path filters)) ids)) \<and>
     structureSignature_inputsAvailable H t1 =
       structure_code H path names answer \<bind> (\<lambda>code. complete (makeDirectoryTreeStructureSignature code))"
proof -
  let ?t1 = "tree_state names answer (needed names answer) ((new_tree_task path filters)\<lparr>dt_directoryValue := answer 0\<rparr>)"
  have "structureSignature_inputsAvailable H ?t1 =
      structure_code H path names answer \<bind> (\<lambda>code. complete (makeDirectoryTreeStructureSignature code))"
    by (simp only: structureSignature_inputsAvailable_def children_needed combine_structures_children structure_code_def)
      (simp add: tree_state_def new_tree_task_def)
  then show ?thesis
    using tree_structure.feed_all [OF assms(1-4), of ids] needed_bounds [of names answer] unfolding assms(5) by blast
qed

theorem structure_signature_order_irrelevant_witness:
  "\<exists>t1 es1 t2 es2.
     feed_inputs (structureSignature_provideValue Little) sample_answer [0, 1, 2, 4] (new_tree_task ''d'' empty_StringList) = Some (t1, es1) \<and>
     feed_inputs (structureSignature_provideValue Little) sample_answer [0, 4, 2, 1] (new_tree_task ''d'' empty_StringList) = Some (t2, es2) \<and>
     structureSignature_inputsAvailable sample_hash t1 = structureSignature_inputsAvailable sample_hash t2"
proof -
  obtain v where v: "fromData (sample_answer 0) = Some v" "bv_kind v = DirectoryContents" "getDirectoryContents v = Some [''a'', ''b'']"
    by (rule sample_answer_listing)
  have "any_listing empty_StringList v" using v(2) by (simp add: any_listing_def)
  moreover have "set [1, 2, 4] = needed [''a'', ''b''] sample_answer" "set [4, 2, 1] = needed [''a'', ''b''] sample_answer"
    unfolding sample_needed by auto
  ultimately show ?thesis
    using structure_signature_order_irrelevant [OF v(1) _ v(3) sample_answerable [of "makeDirectoryTreeStructureSignatureKey Little", OF sample_keys(2)], of "[1, 2, 4]" sample_hash]
      structure_signature_order_irrelevant [OF v(1) _ v(3) sample_answerable [of "makeDirectoryTreeStructureSignatureKey Little", OF sample_keys(2)], of "[4, 2, 1]" sample_hash]
    by fastforce
qed

text \<open>
  The two tasks differ on a listing that failed or that is of a plain file, which a filtered listing may
  be: the signature of the contents is taken from the value itself, the signature of the structure fails
  an assertion.
\<close>

lemma structure_signature_asserts:
  assumes "fromData d = Some v" "bv_kind v = FailedInput \<or> bv_kind v = ExistingInput"
  shows "structureSignature_provideValue en 0 d t = None"
    and "treeSignature_provideValue en 0 d t = Some (t\<lparr>dt_directoryValue := d\<rparr>, [])"
  using assms by (auto simp: structureSignature_provideValue_def treeSignature_provideValue_def getDirectoryContents_def Let_def)

end
