(* ===== verification/Makefile_Deps.thy ===== *)
theory Makefile_Deps
  imports Builra_Prelude "HOL-Library.Sublist"
begin

text \<open>
  The parser for the dependency files that compilers write in Makefile syntax
  (\<^verbatim>\<open>lib/Core/MakefileDepsParser.cpp\<close>).  A pointer into the buffer is the rest of the
  input from there on.  The callbacks of \<^verbatim>\<open>ParseActions\<close> are the events of the
  result.  The code for Windows drive letters is left out.  \<open>None\<close> is a read behind the end of the
  buffer.
\<close>

abbreviation TAB :: char where "TAB \<equiv> CHR 0x09"
abbreviation NEWLINE :: char where "NEWLINE \<equiv> CHR 0x0A"
abbreviation CR :: char where "CR \<equiv> CHR 0x0D"
abbreviation BLANK :: char where "BLANK \<equiv> CHR 0x20"
abbreviation BACKSLASH :: char where "BACKSLASH \<equiv> CHR 0x5C"
abbreviation COLON :: char where "COLON \<equiv> CHR '':''"
abbreviation DOLLAR :: char where "DOLLAR \<equiv> CHR ''$''"
abbreviation HASH :: char where "HASH \<equiv> CHR ''#''"

section \<open>The scanner\<close>

definition isWordChar :: "char \<Rightarrow> bool" where
  "isWordChar c = (c \<notin> {CHR 0x00, TAB, CR, NEWLINE, BLANK, DOLLAR, COLON})"

lemma dropWhile_shorter [termination_simp]: "length (dropWhile P cs) < Suc (length cs)"
  using length_dropWhile_le [of P cs] by simp

text \<open>The inner loop skips while the next character \<^emph>\<open>is\<close> a newline, as in the code.\<close>

fun skipWhitespaceAndComments :: "string \<Rightarrow> string" where
  "skipWhitespaceAndComments [] = []"
| "skipWhitespaceAndComments (c # cs) =
     (if c = HASH then skipWhitespaceAndComments (dropWhile (\<lambda>d. d = NEWLINE) cs)
      else if c = BLANK \<or> c = TAB \<or> c = NEWLINE \<or> c = CR then skipWhitespaceAndComments cs
      else c # cs)"

fun skipNonNewlineWhitespace :: "string \<Rightarrow> string" where
  "skipNonNewlineWhitespace [] = []"
| "skipNonNewlineWhitespace (c # cs) =
     (if c = BLANK \<or> c = TAB \<or> c = CR then skipNonNewlineWhitespace cs
      else if c = BACKSLASH \<and> cs \<noteq> [] \<and> hd cs = NEWLINE then skipNonNewlineWhitespace (tl cs)
      else if c = BACKSLASH \<and> 2 \<le> length cs \<and> cs ! 0 = CR \<and> cs ! 1 = NEWLINE
      then skipNonNewlineWhitespace (drop 2 cs)
      else c # cs)"

fun skipToEndOfLine :: "string \<Rightarrow> string" where
  "skipToEndOfLine [] = []"
| "skipToEndOfLine (c # cs) = (if c = NEWLINE then cs else skipToEndOfLine cs)"

text \<open>The rest of the input and the unescaped word.\<close>

fun lexWord :: "string \<Rightarrow> string \<Rightarrow> (string \<times> string) option" where
  "lexWord [] word = Some ([], word)"
| "lexWord (c # cs) word =
     (if c = BACKSLASH then
        (if cs \<noteq> [] \<and> hd cs = NEWLINE then Some (c # cs, word)
         else if cs = [] then None
         else if hd cs = BLANK \<or> hd cs = HASH \<or> hd cs = BACKSLASH
         then lexWord (tl cs) (word @ [hd cs])
         else lexWord (tl cs) (word @ [BACKSLASH, hd cs]))
      else if c = DOLLAR \<and> cs \<noteq> [] \<and> hd cs = DOLLAR then lexWord (tl cs) (word @ [c])
      else if \<not> isWordChar c then Some (c # cs, word)
      else lexWord cs (word @ [c]))"

section \<open>The parser\<close>

datatype parse_event =
    ParseError string nat
  | RuleStart string string
  | RuleDependency string string
  | RuleEnd

lemma skipWhitespaceAndComments_length: "length (skipWhitespaceAndComments cs) \<le> length cs"
proof (induction cs rule: skipWhitespaceAndComments.induct)
  case (2 c cs)
  have "length (dropWhile (\<lambda>d. d = NEWLINE) cs) \<le> length cs" by (rule length_dropWhile_le)
  with 2 show ?case by auto
qed simp

lemma skipNonNewlineWhitespace_length: "length (skipNonNewlineWhitespace cs) \<le> length cs"
  by (induction cs rule: skipNonNewlineWhitespace.induct) auto

lemma skipToEndOfLine_length: "length (skipToEndOfLine cs) \<le> length cs"
  by (induction cs) auto

lemmas skip_length = skipWhitespaceAndComments_length skipNonNewlineWhitespace_length skipToEndOfLine_length

lemma skipToEndOfLine_shorter: "cs \<noteq> [] \<Longrightarrow> length (skipToEndOfLine cs) < length cs"
  using skip_length(3) by (cases cs) (auto simp: less_Suc_eq_le)

lemma lexWord_length: "lexWord cs w = Some (cs', w') \<Longrightarrow> length cs' \<le> length cs"
proof (induction cs w rule: lexWord.induct)
  case (2 c cs word)
  have "length (tl cs) \<le> length cs" by simp
  with 2 show ?case by (auto split: if_splits)
qed simp

text \<open>A word that goes on behind a colon.\<close>

function lex_colons :: "string \<Rightarrow> string \<Rightarrow> (string \<times> string) option" where
  "lex_colons cs word =
     (case cs of
        [] \<Rightarrow> Some (cs, word)
      | c # rest \<Rightarrow>
          if c = COLON then do { (cs1, word1) \<leftarrow> lexWord rest (word @ [c]); lex_colons cs1 word1 }
          else Some (cs, word))"
  by pat_completeness auto
termination
  by (relation "measure (\<lambda>(cs, word). length cs)") (auto dest: lexWord_length)

declare lex_colons.simps [simp del]

lemma lex_colons_length: "lex_colons cs w = Some (cs', w') \<Longrightarrow> length cs' \<le> length cs"
proof (induction cs w rule: lex_colons.induct)
  case (1 cs word)
  show ?case
  proof (cases cs)
    case Nil
    then show ?thesis using 1(2) by (simp add: lex_colons.simps)
  next
    case (Cons c rest)
    show ?thesis
    proof (cases "c = COLON")
      case True
      with 1(2) Cons obtain cs1 word1 where l: "lexWord rest (word @ [c]) = Some (cs1, word1)" "lex_colons cs1 word1 = Some (cs', w')"
        by (auto simp: lex_colons.simps [of "COLON # rest"])
      have "length cs' \<le> length cs1" using 1(1) [OF Cons True l(1) refl l(2)] .
      then show ?thesis using lexWord_length [OF l(1)] Cons by simp
    qed (use 1(2) Cons in \<open>simp add: lex_colons.simps\<close>)
  qed
qed

text \<open>The text between two pointers, the second one given by the rest behind it.\<close>

definition text_between :: "string \<Rightarrow> string \<Rightarrow> string" where
  "text_between from until = take (length from - length until) from"

text \<open>The prerequisites up to the end of the line; \<open>data\<close> is the whole buffer.\<close>

function parse_dependencies :: "string \<Rightarrow> string \<Rightarrow> parse_event list \<Rightarrow> (string \<times> parse_event list) option" where
  "parse_dependencies data cs evs =
     (if cs = [] then Some (cs, evs)
      else
        let start = skipNonNewlineWhitespace cs in
        if start = [] \<or> hd start = NEWLINE then Some (start, evs)
        else do {
          (cs1, word) \<leftarrow> lexWord start [];
          if length cs1 = length start
          then parse_dependencies data (skipToEndOfLine cs1)
                 (evs @ [ParseError ''unexpected character in prerequisites'' (length data - length cs1)])
          else do {
            (cs2, word2) \<leftarrow> lex_colons cs1 word;
            parse_dependencies data cs2 (evs @ [RuleDependency (text_between start cs2) word2]) } })"
  by pat_completeness auto
termination
proof (relation "measure (\<lambda>(data, cs, evs). length cs)", goal_cases)
  case (2 data cs evs start x cs1 word)
  then have "length cs1 = length start" "length start \<le> length cs" "start \<noteq> []" by (auto simp: skip_length)
  then show ?case using skipToEndOfLine_shorter [of cs1] by (cases cs1) auto
next
  case (3 data cs evs start x cs1 word y cs2 word2)
  then have "length cs1 \<le> length start" "length start \<le> length cs" "length cs2 \<le> length cs1"
    by (auto simp: skip_length dest: lexWord_length lex_colons_length)
  then show ?case using 3 by auto
qed simp

declare parse_dependencies.simps [simp del]

text \<open>What one round of the loop does, as an induction principle for its results.\<close>

lemma parse_dependencies_invariant:
  assumes "parse_dependencies data cs evs = Some (cs', evs')" "I cs evs"
    and skip: "\<And>cs evs. I cs evs \<Longrightarrow> I (skipNonNewlineWhitespace cs) evs"
    and bad: "\<And>cs evs n. I cs evs \<Longrightarrow> I (skipToEndOfLine cs)
      (evs @ [ParseError ''unexpected character in prerequisites'' n])"
    and dep: "\<And>cs evs cs1 w cs2 w2. I cs evs \<Longrightarrow> lexWord cs [] = Some (cs1, w) \<Longrightarrow> lex_colons cs1 w = Some (cs2, w2) \<Longrightarrow>
      length cs1 < length cs \<Longrightarrow> I cs2 (evs @ [RuleDependency (text_between cs cs2) w2])"
    and same: "\<And>cs evs cs1 w. I cs evs \<Longrightarrow> lexWord cs [] = Some (cs1, w) \<Longrightarrow> length cs1 = length cs \<Longrightarrow> I cs1 evs"
  shows "I cs' evs' \<and> (cs' = [] \<or> hd cs' = NEWLINE)"
  using assms(1,2)
proof (induction data cs evs rule: parse_dependencies.induct)
  case (1 data cs evs)
  let ?start = "skipNonNewlineWhitespace cs"
  show ?case
  proof (cases "cs = [] \<or> ?start = [] \<or> hd ?start = NEWLINE")
    case True
    then show ?thesis using 1(3,4) skip by (auto simp: parse_dependencies.simps [of data cs] Let_def split: if_splits)
  next
    case False
    then obtain cs1 w where l: "lexWord ?start [] = Some (cs1, w)"
      using 1(3) by (auto simp: parse_dependencies.simps [of data cs] Let_def)
    show ?thesis
    proof (cases "length cs1 = length ?start")
      case True
      then have "parse_dependencies data (skipToEndOfLine cs1) (evs @ [ParseError ''unexpected character in prerequisites'' (length data - length cs1)]) = Some (cs', evs')"
        using 1(3) False l by (simp add: parse_dependencies.simps [of data cs] Let_def)
      moreover have "I (skipToEndOfLine cs1) (evs @ [ParseError ''unexpected character in prerequisites'' (length data - length cs1)])"
        by (rule bad [OF same [OF skip [OF 1(4)] l True]])
      ultimately show ?thesis using 1(1) [OF _ refl _ l refl True] False by blast
    next
      case neq: False
      then obtain cs2 w2 where c: "lex_colons cs1 w = Some (cs2, w2)"
        "parse_dependencies data cs2 (evs @ [RuleDependency (text_between ?start cs2) w2]) = Some (cs', evs')"
        using 1(3) False l by (auto simp: parse_dependencies.simps [of data cs] Let_def)
      moreover have "length cs1 < length ?start" using neq lexWord_length [OF l] by simp
      then have "I cs2 (evs @ [RuleDependency (text_between ?start cs2) w2])"
        by (rule dep [OF skip [OF 1(4)] l c(1)])
      ultimately show ?thesis using 1(2) [OF _ refl _ l refl neq c(1) refl] False by blast
    qed
  qed
qed

lemma parse_dependencies_length: "parse_dependencies data cs evs = Some (cs', evs') \<Longrightarrow> length cs' \<le> length cs"
proof -
  assume "parse_dependencies data cs evs = Some (cs', evs')"
  then have "length cs' \<le> length cs \<and> (cs' = [] \<or> hd cs' = NEWLINE)"
    by (rule parse_dependencies_invariant [where I = "\<lambda>ds es. length ds \<le> length cs"])
      (use skip_length in \<open>auto intro: order_trans dest: lexWord_length lex_colons_length\<close>)
  then show ?thesis by simp
qed

text \<open>The loop over the rules.\<close>

function parse_loop :: "bool \<Rightarrow> string \<Rightarrow> string \<Rightarrow> parse_event list \<Rightarrow> parse_event list option" where
  "parse_loop ignoreSubsequentOutputs data cs evs =
     (let start = skipWhitespaceAndComments cs in
      if cs = [] \<or> start = [] then Some evs
      else do {
        (cs1, word) \<leftarrow> lexWord start [];
        if length cs1 = length start
        then parse_loop ignoreSubsequentOutputs data (skipToEndOfLine cs1)
               (evs @ [ParseError ''unexpected character in file'' (length data - length cs1)])
        else
          let evs1 = evs @ [RuleStart (text_between start cs1) word];
              cs2 = skipNonNewlineWhitespace cs1 in
          if cs2 = [] \<or> hd cs2 \<noteq> COLON
          then parse_loop ignoreSubsequentOutputs data (skipToEndOfLine cs2)
                 (evs1 @ [ParseError (''missing '' @ [CHR 0x27] @ '':'' @ [CHR 0x27] @ '' following rule'') (length data - length cs2), RuleEnd])
          else do {
            (cs3, evs2) \<leftarrow> parse_dependencies data (tl cs2) evs1;
            if ignoreSubsequentOutputs then Some (evs2 @ [RuleEnd])
            else parse_loop ignoreSubsequentOutputs data cs3 (evs2 @ [RuleEnd]) } })"
  by pat_completeness auto
termination
proof (relation "measure (\<lambda>(i, data, cs, evs). length cs)", goal_cases)
  case (2 i data cs evs start x cs1 word)
  then have "length cs1 = length start" "length start \<le> length cs" "start \<noteq> []" by (auto simp: skip_length)
  then show ?case using skipToEndOfLine_shorter [of cs1] by (cases cs1) auto
next
  case (3 i data cs evs start x cs1 word evs1 cs2)
  then have "length cs1 \<le> length start" "length start \<le> length cs" "length cs2 \<le> length cs1"
    by (auto simp: skip_length dest: lexWord_length)
  then show ?case using 3 skipToEndOfLine_length [of cs2] by auto
next
  case (4 i data cs evs start x cs1 word evs1 cs2 y cs3 evs2)
  then have "length cs1 \<le> length start" "length start \<le> length cs" "length cs2 \<le> length cs1" "length cs3 \<le> length (tl cs2)"
    by (auto simp: skip_length dest: lexWord_length parse_dependencies_length)
  then show ?case using 4 by auto
qed simp

declare parse_loop.simps [simp del]

definition parse_makefile :: "bool \<Rightarrow> string \<Rightarrow> parse_event list option" where
  "parse_makefile ignoreSubsequentOutputs data = parse_loop ignoreSubsequentOutputs data data []"

lemma parse_loop_cases:
  assumes "cs \<noteq> []" "skipWhitespaceAndComments cs = start" "start \<noteq> []" "lexWord start [] = Some (cs1, word)"
  shows "length cs1 = length start \<Longrightarrow> parse_loop ign data cs evs =
      parse_loop ign data (skipToEndOfLine cs1) (evs @ [ParseError ''unexpected character in file'' (length data - length cs1)])"
    and "length cs1 \<noteq> length start \<Longrightarrow> skipNonNewlineWhitespace cs1 = cs2 \<Longrightarrow> cs2 = [] \<or> hd cs2 \<noteq> COLON \<Longrightarrow> parse_loop ign data cs evs =
      parse_loop ign data (skipToEndOfLine cs2) (evs @ [RuleStart (text_between start cs1) word,
        ParseError (''missing '' @ [CHR 0x27] @ '':'' @ [CHR 0x27] @ '' following rule'') (length data - length cs2), RuleEnd])"
    and "length cs1 \<noteq> length start \<Longrightarrow> skipNonNewlineWhitespace cs1 = COLON # cs3 \<Longrightarrow> parse_loop ign data cs evs =
      do { (cs4, evs2) \<leftarrow> parse_dependencies data cs3 (evs @ [RuleStart (text_between start cs1) word]);
           if ign then Some (evs2 @ [RuleEnd]) else parse_loop ign data cs4 (evs2 @ [RuleEnd]) }"
  using assms by (subst parse_loop.simps; simp add: Let_def del: bind_eq_Some_iff; fail)+

text \<open>An invariant of the rest of the input and the events holds at the end if every round keeps it.\<close>

lemma parse_loop_invariant:
  assumes "parse_loop ign data cs evs = Some evs'" "I cs evs"
    and skip: "\<And>cs evs. I cs evs \<Longrightarrow> I (skipWhitespaceAndComments cs) evs"
    and bad: "\<And>cs evs cs1 w n. I cs evs \<Longrightarrow> lexWord cs [] = Some (cs1, w) \<Longrightarrow>
      I (skipToEndOfLine cs1) (evs @ [ParseError ''unexpected character in file'' n])"
    and missing: "\<And>cs evs cs1 w m n. I cs evs \<Longrightarrow> lexWord cs [] = Some (cs1, w) \<Longrightarrow>
      I (skipToEndOfLine (skipNonNewlineWhitespace cs1)) (evs @ [RuleStart (text_between cs cs1) w, ParseError m n, RuleEnd])"
    and rule: "\<And>cs evs cs1 w cs3 cs4 evs2. I cs evs \<Longrightarrow> lexWord cs [] = Some (cs1, w) \<Longrightarrow> skipNonNewlineWhitespace cs1 = COLON # cs3 \<Longrightarrow>
      parse_dependencies data cs3 (evs @ [RuleStart (text_between cs cs1) w]) = Some (cs4, evs2) \<Longrightarrow> I cs4 (evs2 @ [RuleEnd])"
  shows "\<exists>cs'. I cs' evs'"
  using assms(1,2)
proof (induction "length cs" arbitrary: cs evs rule: less_induct)
  case less
  let ?start = "skipWhitespaceAndComments cs"
  show ?case
  proof (cases "cs = [] \<or> ?start = []")
    case True
    then show ?thesis using less.prems by (auto simp: parse_loop.simps [of ign data cs] Let_def split: if_splits)
  next
    case False
    then obtain cs1 w where l: "lexWord ?start [] = Some (cs1, w)"
      using less.prems(1) by (subst (asm) parse_loop.simps) (auto simp: Let_def)
    have ne: "cs \<noteq> []" "?start \<noteq> []" using False by auto
    note round = parse_loop_cases [OF ne(1) refl ne(2) l]
    have Is: "I ?start evs" using less.prems(2) by (rule skip)
    have le: "length cs1 \<le> length ?start" "length ?start \<le> length cs" using lexWord_length [OF l] skip_length(1) by auto
    show ?thesis
    proof (cases "length cs1 = length ?start")
      case True
      then have "cs1 \<noteq> []" using ne(2) by auto
      then have "length (skipToEndOfLine cs1) < length cs" using skipToEndOfLine_shorter [of cs1] le by simp
      then show ?thesis using less.hyps round(1) [OF True] less.prems(1) bad [OF Is l] by simp
    next
      case neq: False
      let ?cs2 = "skipNonNewlineWhitespace cs1"
      have l2: "length ?cs2 < length cs" using neq le skip_length(2) [of cs1] by simp
      show ?thesis
      proof (cases "?cs2 = [] \<or> hd ?cs2 \<noteq> COLON")
        case True
        have "length (skipToEndOfLine ?cs2) < length cs" using l2 skipToEndOfLine_length [of ?cs2] by simp
        then show ?thesis using less.hyps round(2) [OF neq refl True] less.prems(1) missing [OF Is l] by simp
      next
        case False
        then obtain cs3 where c: "?cs2 = COLON # cs3" by (cases ?cs2) auto
        from round(3) [OF neq c] less.prems(1) obtain cs4 evs2 where
          p: "parse_dependencies data cs3 (evs @ [RuleStart (text_between ?start cs1) w]) = Some (cs4, evs2)"
          "(if ign then Some (evs2 @ [RuleEnd]) else parse_loop ign data cs4 (evs2 @ [RuleEnd])) = Some evs'"
          by auto
        have I4: "I cs4 (evs2 @ [RuleEnd])" using rule [OF Is l c p(1)] .
        have "length cs4 < length cs" using parse_dependencies_length [OF p(1)] l2 c by simp
        then show ?thesis using less.hyps I4 p(2) by (cases ign) auto
      qed
    qed
  qed
qed

section \<open>The order of the callbacks\<close>

text \<open>Inside a rule or not; \<open>None\<close> when a callback comes at the wrong place.\<close>

fun rule_state_step :: "bool option \<Rightarrow> parse_event \<Rightarrow> bool option" where
  "rule_state_step None e = None"
| "rule_state_step (Some inr) (ParseError m n) = Some inr"
| "rule_state_step (Some inr) (RuleStart r w) = (if inr then None else Some True)"
| "rule_state_step (Some inr) (RuleDependency r w) = (if inr then Some True else None)"
| "rule_state_step (Some inr) RuleEnd = (if inr then Some False else None)"

definition rule_state :: "parse_event list \<Rightarrow> bool option" where
  "rule_state evs = foldl rule_state_step (Some False) evs"

lemma rule_state_append: "rule_state (evs @ [e]) = rule_state_step (rule_state evs) e"
  by (simp add: rule_state_def)

lemma rule_state_append2: "rule_state (evs @ e # es) = foldl rule_state_step (rule_state_step (rule_state evs) e) es"
  by (simp add: rule_state_def)

lemma parse_dependencies_inside:
  assumes "parse_dependencies data cs evs = Some (cs', evs')" "rule_state evs = Some True"
  shows "rule_state evs' = Some True"
proof -
  have "rule_state evs' = Some True \<and> (cs' = [] \<or> hd cs' = NEWLINE)"
    by (rule parse_dependencies_invariant [where I = "\<lambda>ds es. rule_state es = Some True", OF assms])
      (simp_all add: rule_state_append)
  then show ?thesis by simp
qed

text \<open>
  The callbacks come in the documented order: a dependency is only reported between the start and
  the end of a rule, starts and ends alternate, and every rule that was started is ended, on every
  input on which the parser does not read out of bounds.
\<close>

theorem parse_makefile_bracketed:
  assumes "parse_makefile ign data = Some evs"
  shows "rule_state evs = Some False"
proof -
  have p: "parse_loop ign data data [] = Some evs" using assms by (simp add: parse_makefile_def)
  have start: "rule_state [] = Some False" by (simp add: rule_state_def)
  have "\<exists>cs' :: string. rule_state evs = Some False"
  proof (rule parse_loop_invariant [where I = "\<lambda>cs es. rule_state es = Some False", OF p start])
    fix cs es cs1 w cs3 cs4 evs2
    assume "rule_state es = Some False"
      and "parse_dependencies data cs3 (es @ [RuleStart (text_between cs cs1) w]) = Some (cs4, evs2)"
    then have "rule_state evs2 = Some True" using parse_dependencies_inside by (simp add: rule_state_append)
    then show "rule_state (evs2 @ [RuleEnd]) = Some False" by (simp add: rule_state_append)
  qed (simp_all add: rule_state_append rule_state_append2)
  then show ?thesis by simp
qed

theorem parse_makefile_bracketed_witness:
  "\<exists>evs. parse_makefile False ''a: b'' = Some evs \<and> rule_state evs = Some False"
proof -
  have "parse_makefile False ''a: b'' \<noteq> None" by code_simp
  then obtain evs where e: "parse_makefile False ''a: b'' = Some evs" by blast
  from parse_makefile_bracketed [OF this] e show ?thesis by blast
qed

section \<open>Reading out of bounds\<close>

lemma suffix_Cons_trans: "suffix xs ys \<Longrightarrow> suffix ys zs \<Longrightarrow> suffix xs (z # zs)"
  using suffix_order.trans suffix_ConsI by metis

lemmas suffix_steps = suffix_ConsI suffix_Cons_trans [OF _ suffix_tl] suffix_Cons_trans [OF _ suffix_drop]
  suffix_Cons_trans [OF _ suffix_dropWhile]

lemma skipWhitespaceAndComments_suffix: "suffix (skipWhitespaceAndComments cs) cs"
  by (induction cs rule: skipWhitespaceAndComments.induct) (auto intro: suffix_steps)

lemma skipNonNewlineWhitespace_suffix: "suffix (skipNonNewlineWhitespace cs) cs"
  by (induction cs rule: skipNonNewlineWhitespace.induct) (auto intro: suffix_steps)

lemma skipToEndOfLine_suffix: "suffix (skipToEndOfLine cs) cs"
  by (induction cs) (simp_all add: suffix_ConsI)

lemma lexWord_suffix: "lexWord cs w = Some (cs', w') \<Longrightarrow> suffix cs' cs"
proof (induction cs w rule: lexWord.induct)
  case (2 c cs word)
  then show ?case by (auto intro: suffix_steps split: if_splits)
qed simp

text \<open>An input that does not end in a backslash, and so does every rest of it.\<close>

definition ends_ok :: "string \<Rightarrow> bool" where
  "ends_ok cs = (cs = [] \<or> last cs \<noteq> BACKSLASH)"

lemma ends_ok_suffix: "suffix cs' cs \<Longrightarrow> ends_ok cs \<Longrightarrow> ends_ok cs'"
  by (auto simp: ends_ok_def suffix_def)

lemma lexWord_total: "ends_ok cs \<Longrightarrow> \<exists>cs' w'. lexWord cs w = Some (cs', w')"
proof (induction cs w rule: lexWord.induct)
  case (2 c cs word)
  have "ends_ok cs" "ends_ok (tl cs)"
    using 2(5) by (auto intro: ends_ok_suffix [of _ "c # cs"] suffix_ConsI suffix_Cons_trans [OF suffix_tl] simp: suffix_order.refl)
  moreover have "c = BACKSLASH \<Longrightarrow> cs \<noteq> []" using 2(5) by (auto simp: ends_ok_def)
  ultimately show ?case using 2(1-4) by (simp split: if_splits)
qed simp

lemma lexWord_ends_ok: "ends_ok cs \<Longrightarrow> \<exists>cs' w'. lexWord cs w = Some (cs', w') \<and> ends_ok cs'"
  using lexWord_total lexWord_suffix ends_ok_suffix by blast

lemma lex_colons_ends_ok: "ends_ok cs \<Longrightarrow> \<exists>cs' w'. lex_colons cs w = Some (cs', w') \<and> ends_ok cs'"
proof (induction cs w rule: lex_colons.induct)
  case (1 cs w)
  show ?case
  proof (cases "\<exists>rest. cs = COLON # rest")
    case True
    then obtain rest where cs: "cs = COLON # rest" by blast
    then have "ends_ok rest" using 1(2) by (simp add: ends_ok_def split: if_splits)
    then obtain cs1 w1 where l: "lexWord rest (w @ [COLON]) = Some (cs1, w1)" "ends_ok cs1" using lexWord_ends_ok by blast
    with 1(1) [OF cs refl l(1) refl l(2)] show ?thesis by (simp add: cs lex_colons.simps [of "COLON # rest"])
  qed (use 1(2) in \<open>cases cs; simp add: lex_colons.simps\<close>)
qed

lemma parse_dependencies_ends_ok:
  "ends_ok cs \<Longrightarrow> \<exists>cs' evs'. parse_dependencies data cs evs = Some (cs', evs') \<and> ends_ok cs'"
proof (induction data cs evs rule: parse_dependencies.induct)
  case (1 data cs evs)
  let ?start = "skipNonNewlineWhitespace cs"
  have s: "ends_ok ?start" using 1(3) ends_ok_suffix skipNonNewlineWhitespace_suffix by blast
  show ?case
  proof (cases "cs = [] \<or> ?start = [] \<or> hd ?start = NEWLINE")
    case True
    then show ?thesis using s 1(3) by (subst parse_dependencies.simps) (auto simp: Let_def)
  next
    case False
    obtain cs1 w where l: "lexWord ?start [] = Some (cs1, w)" "ends_ok cs1" using lexWord_ends_ok [OF s] by blast
    show ?thesis
    proof (cases "length cs1 = length ?start")
      case True
      have "ends_ok (skipToEndOfLine cs1)" using l(2) ends_ok_suffix skipToEndOfLine_suffix by blast
      then show ?thesis using 1(1) [OF _ refl _ l(1) refl True] False l True
        by (subst parse_dependencies.simps) (simp add: Let_def del: bind_eq_Some_iff)
    next
      case neq: False
      obtain cs2 w2 where c: "lex_colons cs1 w = Some (cs2, w2)" "ends_ok cs2" using lex_colons_ends_ok [OF l(2)] by blast
      then show ?thesis using 1(2) [OF _ refl _ l(1) refl neq c(1) refl c(2)] False l neq
        by (subst parse_dependencies.simps) (simp add: Let_def del: bind_eq_Some_iff)
    qed
  qed
qed

lemma parse_loop_ends_ok: "ends_ok cs \<Longrightarrow> \<exists>evs'. parse_loop ign data cs evs = Some evs'"
proof (induction "length cs" arbitrary: cs evs rule: less_induct)
  case less
  let ?start = "skipWhitespaceAndComments cs"
  have s: "ends_ok ?start" using less.prems ends_ok_suffix skipWhitespaceAndComments_suffix by blast
  show ?case
  proof (cases "cs = [] \<or> ?start = []")
    case True
    then show ?thesis by (subst parse_loop.simps) (auto simp: Let_def)
  next
    case False
    obtain cs1 w where l: "lexWord ?start [] = Some (cs1, w)" "ends_ok cs1" using lexWord_ends_ok [OF s] by blast
    have ne: "cs \<noteq> []" "?start \<noteq> []" using False by auto
    note round = parse_loop_cases [OF ne(1) refl ne(2) l(1)]
    have le: "length cs1 \<le> length ?start" "length ?start \<le> length cs" using lexWord_length [OF l(1)] skip_length(1) by auto
    let ?cs2 = "skipNonNewlineWhitespace cs1"
    have e2: "ends_ok ?cs2" using l(2) ends_ok_suffix skipNonNewlineWhitespace_suffix by blast
    have skip: "ends_ok (skipToEndOfLine ds)" if "ends_ok ds" for ds
      using that ends_ok_suffix skipToEndOfLine_suffix by blast
    show ?thesis
    proof (cases "length cs1 = length ?start")
      case True
      then have "cs1 \<noteq> []" using ne(2) by auto
      then have "length (skipToEndOfLine cs1) < length cs" using skipToEndOfLine_shorter [of cs1] le by simp
      then show ?thesis using less.hyps round(1) [OF True] skip [OF l(2)] by simp
    next
      case neq: False
      have l2: "length ?cs2 < length cs" using neq le skip_length(2) [of cs1] by simp
      show ?thesis
      proof (cases "?cs2 = [] \<or> hd ?cs2 \<noteq> COLON")
        case True
        have "length (skipToEndOfLine ?cs2) < length cs" using l2 skipToEndOfLine_length [of ?cs2] by simp
        then show ?thesis using less.hyps round(2) [OF neq refl True] skip [OF e2] by simp
      next
        case False
        then obtain cs3 where c: "?cs2 = COLON # cs3" by (cases ?cs2) auto
        then have "ends_ok cs3" using e2 by (simp add: ends_ok_def split: if_splits)
        then obtain cs4 evs2 where p: "parse_dependencies data cs3 (evs @ [RuleStart (text_between ?start cs1) w]) = Some (cs4, evs2)" "ends_ok cs4"
          using parse_dependencies_ends_ok by blast
        have "length cs4 < length cs" using parse_dependencies_length [OF p(1)] l2 c by simp
        then show ?thesis using less.hyps p round(3) [OF neq c] by (cases ign) simp_all
      qed
    qed
  qed
qed

text \<open>
  The parser ends on every input, and it reads out of bounds only if the input ends in a
  backslash: the scanner of words then takes the character behind the end for the escaped one.
\<close>

theorem parse_makefile_total:
  "(data = [] \<or> last data \<noteq> BACKSLASH \<longrightarrow> (\<exists>evs. parse_makefile ign data = Some evs)) \<and>
   parse_makefile ign (''x'' @ [BACKSLASH]) = None"
proof
  show "data = [] \<or> last data \<noteq> BACKSLASH \<longrightarrow> (\<exists>evs. parse_makefile ign data = Some evs)"
    using parse_loop_ends_ok by (simp add: parse_makefile_def ends_ok_def)
  show "parse_makefile ign (''x'' @ [BACKSLASH]) = None"
    by (simp add: parse_makefile_def parse_loop.simps isWordChar_def Let_def)
qed

theorem parse_makefile_total_witness: "\<exists>evs. parse_makefile False ''a: b'' = Some evs"
  using parse_makefile_total [of "''a: b''" False] by simp

section \<open>Printing and parsing\<close>

text \<open>
  A reference printer: a path is escaped as the parser understands it, and a rule is its target, a
  colon, and its dependencies, each behind a blank.
\<close>

definition escape_char :: "char \<Rightarrow> string" where
  "escape_char c = (if c = BLANK \<or> c = HASH \<or> c = BACKSLASH then [BACKSLASH, c]
     else if c = DOLLAR then [DOLLAR, DOLLAR] else [c])"

definition escape :: "string \<Rightarrow> string" where
  "escape s = concat (map escape_char s)"

definition print_rule :: "string \<times> string list \<Rightarrow> string" where
  "print_rule r = escape (fst r) @ COLON # concat (map (\<lambda>d. BLANK # escape d) (snd r)) @ [NEWLINE]"

definition rule_events :: "string \<times> string list \<Rightarrow> parse_event list" where
  "rule_events r = RuleStart (escape (fst r)) (fst r) # map (\<lambda>d. RuleDependency (escape d) d) (snd r) @ [RuleEnd]"

text \<open>The paths that can be printed.\<close>

definition path_char :: "char \<Rightarrow> bool" where
  "path_char c = (c \<notin> {CHR 0x00, TAB, CR, NEWLINE})"

definition target_ok :: "string \<Rightarrow> bool" where
  "target_ok s = (s \<noteq> [] \<and> (\<forall>c \<in> set s. path_char c \<and> c \<noteq> COLON))"

definition dependency_ok :: "string \<Rightarrow> bool" where
  "dependency_ok s = (s \<noteq> [] \<and> hd s \<noteq> COLON \<and> (\<forall>c \<in> set s. path_char c))"

lemma escape_simps [simp]: "escape [] = []" "escape (c # s) = escape_char c @ escape s" "escape (s @ t) = escape s @ escape t"
  by (simp_all add: escape_def)

text \<open>A rest at which a word ends.\<close>

definition stops :: "string \<Rightarrow> bool" where
  "stops rest = (rest = [] \<or> hd rest \<in> {COLON, BLANK, NEWLINE})"

lemma lexWord_stops: "stops rest \<Longrightarrow> lexWord rest w = Some (rest, w)"
  by (cases rest) (auto simp: stops_def isWordChar_def)

lemma lexWord_char:
  "path_char c \<Longrightarrow> c \<noteq> COLON \<Longrightarrow> lexWord (escape_char c @ cs) w = lexWord cs (w @ [c])"
  by (auto simp: escape_char_def isWordChar_def path_char_def)

lemma lexWord_escape:
  "\<forall>c \<in> set s. path_char c \<and> c \<noteq> COLON \<Longrightarrow> stops rest \<Longrightarrow> lexWord (escape s @ rest) w = Some (rest, w @ s)"
  by (induction s arbitrary: w) (simp_all add: lexWord_stops lexWord_char)

lemma lex_dependency:
  assumes "\<forall>c \<in> set s. path_char c" "stops rest" "rest = [] \<or> hd rest \<noteq> COLON"
  shows "\<exists>cs1 w1. lexWord (escape s @ rest) w = Some (cs1, w1) \<and> lex_colons cs1 w1 = Some (rest, w @ s)"
  using assms(1)
proof (induction "length s" arbitrary: s w rule: less_induct)
  case less
  show ?case
  proof (cases "COLON \<in> set s")
    case True
    then obtain a b where s: "s = a @ COLON # b" "COLON \<notin> set a" by (meson split_list_first)
    have "\<forall>c \<in> set a. path_char c \<and> c \<noteq> COLON" using less.prems s by auto
    then have l: "lexWord (escape s @ rest) w = Some (COLON # escape b @ rest, w @ a)"
      using lexWord_escape [of a "COLON # escape b @ rest" w] by (simp add: s stops_def escape_char_def)
    obtain cs1 w1 where "lexWord (escape b @ rest) (w @ a @ [COLON]) = Some (cs1, w1)" "lex_colons cs1 w1 = Some (rest, w @ s)"
      using less.hyps [of b "w @ a @ [COLON]"] less.prems s by auto
    then show ?thesis using l by (simp add: lex_colons.simps [of "COLON # escape b @ rest"])
  next
    case False
    then have "lexWord (escape s @ rest) w = Some (rest, w @ s)"
      using lexWord_escape less.prems assms(2) by (metis)
    moreover have "lex_colons rest (w @ s) = Some (rest, w @ s)"
      using assms(3) by (cases rest) (simp_all add: lex_colons.simps)
    ultimately show ?thesis by simp
  qed
qed

lemma escape_not_empty: "s \<noteq> [] \<Longrightarrow> escape s \<noteq> []"
  by (cases s) (simp_all add: escape_char_def)

lemma skip_escape:
  assumes "s \<noteq> []" "path_char (hd s)"
  shows "skipNonNewlineWhitespace (escape s @ rest) = escape s @ rest"
    and "skipWhitespaceAndComments (escape s @ rest) = escape s @ rest"
    and "hd (escape s @ rest) \<noteq> NEWLINE"
  using assms by (cases s; auto simp: escape_char_def path_char_def)+

lemma text_between_append: "text_between (a @ b) b = a"
  by (simp add: text_between_def)

lemma parse_dependencies_print:
  "\<forall>d \<in> set ds. dependency_ok d \<Longrightarrow>
   parse_dependencies data (concat (map (\<lambda>d. BLANK # escape d) ds) @ NEWLINE # rest) evs =
     Some (NEWLINE # rest, evs @ map (\<lambda>d. RuleDependency (escape d) d) ds)"
proof (induction ds arbitrary: evs)
  case Nil
  show ?case by (subst parse_dependencies.simps) (simp add: Let_def)
next
  case (Cons d ds)
  let ?rest = "concat (map (\<lambda>d. BLANK # escape d) ds) @ NEWLINE # rest"
  have d: "d \<noteq> []" "hd d \<noteq> COLON" "\<forall>c \<in> set d. path_char c" "path_char (hd d)"
    using Cons.prems by (auto simp: dependency_ok_def)
  have stop: "stops ?rest" "?rest = [] \<or> hd ?rest \<noteq> COLON" by (cases ds; simp add: stops_def)+
  obtain cs1 w1 where l: "lexWord (escape d @ ?rest) [] = Some (cs1, w1)" "lex_colons cs1 w1 = Some (?rest, d)"
    using lex_dependency [OF d(3) stop, of "[]"] by auto
  have "length cs1 \<noteq> length (escape d @ ?rest)"
  proof -
    obtain c s where cs: "d = c # s" using d(1) by (cases d) auto
    have "lexWord (escape d @ ?rest) [] = lexWord (escape s @ ?rest) [c]"
      using lexWord_char [of c "escape s @ ?rest" "[]"] d cs by simp
    then have "length cs1 \<le> length (escape s @ ?rest)" using l(1) lexWord_length by metis
    then show ?thesis using cs by (simp add: escape_char_def)
  qed
  then show ?case
    using Cons l skip_escape [OF d(1) d(4), of ?rest]  escape_not_empty [OF d(1)]
    by (subst parse_dependencies.simps) (simp add: Let_def text_between_append del: bind_eq_Some_iff)
qed

lemma parse_loop_print:
  "\<forall>r \<in> set rs. target_ok (fst r) \<and> (\<forall>d \<in> set (snd r). dependency_ok d) \<Longrightarrow>
   parse_loop False data (concat (map print_rule rs)) evs = Some (evs @ concat (map rule_events rs)) \<and>
   parse_loop False data (NEWLINE # concat (map print_rule rs)) evs = Some (evs @ concat (map rule_events rs))"
proof (induction rs arbitrary: evs)
  case Nil
  show ?case by (simp add: parse_loop.simps Let_def)
next
  case (Cons r rs)
  let ?deps = "concat (map (\<lambda>d. BLANK # escape d) (snd r)) @ NEWLINE # concat (map print_rule rs)"
  let ?start = "escape (fst r) @ COLON # ?deps"
  have t: "fst r \<noteq> []" "\<forall>c \<in> set (fst r). path_char c \<and> c \<noteq> COLON" "path_char (hd (fst r))"
    using Cons.prems by (auto simp: target_ok_def)
  have all: "concat (map print_rule (r # rs)) = ?start" by (simp add: print_rule_def)
  have skip: "skipWhitespaceAndComments ?start = ?start" "skipWhitespaceAndComments (NEWLINE # ?start) = ?start"
    using skip_escape(2) [OF t(1) t(3), of "COLON # ?deps"] by simp_all
  have l: "lexWord ?start [] = Some (COLON # ?deps, fst r)"
    using lexWord_escape [OF t(2), of "COLON # ?deps" "[]"] by (simp add: stops_def)
  have ne: "?start \<noteq> []" "length (COLON # ?deps) \<noteq> length ?start" using escape_not_empty [OF t(1)] by simp_all
  have c: "skipNonNewlineWhitespace (COLON # ?deps) = COLON # ?deps" by simp
  have "\<forall>d \<in> set (snd r). dependency_ok d" using Cons.prems by simp
  note deps = parse_dependencies_print [OF this, of data "concat (map print_rule rs)" "evs @ [RuleStart (escape (fst r)) (fst r)]"]
  have rest: "parse_loop False data (NEWLINE # concat (map print_rule rs)) es = Some (es @ concat (map rule_events rs))" for es
    using Cons by simp
  have "parse_loop False data cs evs = Some (evs @ concat (map rule_events (r # rs)))"
    if "cs \<noteq> []" "skipWhitespaceAndComments cs = ?start" for cs
    unfolding parse_loop_cases(3) [OF that ne(1) l ne(2) c] text_between_append deps
    by (simp add: rest rule_events_def del: bind_eq_Some_iff)
  then show ?case using skip ne(1) unfolding all by blast
qed

text \<open>
  C32.  Printing rules and parsing them gives them back: every target and every dependency is reported
  with its unescaped name, in order, between the start and the end of its rule, and there are no
  errors.  Blanks, number signs, backslashes and dollar signs are escaped, and a colon may stand in a
  dependency but not at its start.
\<close>

theorem parse_makefile_roundtrip:
  assumes "\<forall>r \<in> set rs. target_ok (fst r) \<and> (\<forall>d \<in> set (snd r). dependency_ok d)"
  shows "parse_makefile False (concat (map print_rule rs)) = Some (concat (map rule_events rs))"
  using parse_loop_print [OF assms, of _ "[]"] by (simp add: parse_makefile_def)

theorem parse_makefile_roundtrip_witness:
  "parse_makefile False (print_rule (''a b.o'', [''C:/x#y'', ''$z'']) @ print_rule (''t'', [])) =
     Some (rule_events (''a b.o'', [''C:/x#y'', ''$z'']) @ rule_events (''t'', []))"
  using parse_makefile_roundtrip [of "[(''a b.o'', [''C:/x#y'', ''$z'']), (''t'', [])]"]
  by (simp add: target_ok_def dependency_ok_def path_char_def)

text \<open>
  Comments are not skipped.  The loop that should run to the end of the line runs over newlines
  instead, so that only the number sign is dropped and the text of the comment is taken for a rule.
\<close>

theorem comment_taken_for_rule:
  "parse_makefile False (''# by cc'' @ [NEWLINE] @ ''a: b'') =
     Some [RuleStart ''by'' ''by'', ParseError (''missing '' @ [CHR 0x27] @ '':'' @ [CHR 0x27] @ '' following rule'') 5, RuleEnd,
           RuleStart ''a'' ''a'', RuleDependency ''b'' ''b'', RuleEnd]"
  by code_simp

end
