(* ===== verification/Dependency_Info.thy ===== *)
theory Dependency_Info
  imports Builra_Prelude
begin

text \<open>
  The parser for the \<open>dependency info\<close> files of the Darwin tools
  (\<^verbatim>\<open>lib/Core/DependencyInfoParser.cpp\<close>): a sequence of opcodes, each with an operand
  that ends in a null character.  The callbacks are the events of the result; \<open>None\<close> is a failed
  assertion or a read behind the end.
\<close>

datatype Opcode = OpVersion | OpInput | OpMissing | OpOutput | OpUnknown char

definition opcode_of :: "char \<Rightarrow> Opcode" where
  "opcode_of c = (if c = CHR 0x00 then OpVersion else if c = CHR 0x10 then OpInput
     else if c = CHR 0x11 then OpMissing else if c = CHR 0x40 then OpOutput else OpUnknown c)"

datatype info_event =
    InfoError string nat
  | ActOnVersion string
  | ActOnInput string
  | ActOnMissing string
  | ActOnOutput string

text \<open>The scan of an operand: the operand and the rest behind its null character.\<close>

fun scan_operand :: "string \<Rightarrow> string \<Rightarrow> (string \<times> string) option" where
  "scan_operand [] acc = None"
| "scan_operand (c # cs) acc = (if c = CHR 0x00 then Some (acc, cs) else scan_operand cs (acc @ [c]))"

lemma scan_operand_length: "scan_operand cs acc = Some (op, rest) \<Longrightarrow> length rest < length cs"
  by (induction cs acc rule: scan_operand.induct) (auto split: if_splits)

text \<open>What is done with one record; \<open>pos\<close> is the offset of the opcode.\<close>

definition handle_opcode :: "Opcode \<Rightarrow> nat \<Rightarrow> string \<Rightarrow> info_event" where
  "handle_opcode opcode pos operand =
     (case opcode of
        OpVersion \<Rightarrow> if pos \<noteq> 0 then InfoError ''invalid duplicate version'' pos else ActOnVersion operand
      | OpInput \<Rightarrow> ActOnInput operand
      | OpMissing \<Rightarrow> ActOnMissing operand
      | OpOutput \<Rightarrow> ActOnOutput operand
      | OpUnknown _ \<Rightarrow> InfoError ''unknown opcode in file'' pos)"

function parse_records :: "nat \<Rightarrow> string \<Rightarrow> info_event list \<Rightarrow> info_event list option" where
  "parse_records len cs evs =
     (case cs of
        [] \<Rightarrow> Some evs
      | c # cs1 \<Rightarrow>
          do { (operand, rest) \<leftarrow> scan_operand cs1 [];
               let pos = len - length cs;
               if operand = [] then Some (evs @ [InfoError ''empty operand'' pos])
               else parse_records len rest (evs @ [handle_opcode (opcode_of c) pos operand]) })"
  by pat_completeness auto
termination
  by (relation "measure (\<lambda>(len, cs, evs). length cs)") (auto dest: scan_operand_length)

declare parse_records.simps [simp del]

definition parse_dependency_info :: "string \<Rightarrow> info_event list option" where
  "parse_dependency_info data =
     (if data = [] \<or> last data \<noteq> CHR 0x00 then Some [InfoError ''missing null terminator'' (length data)]
      else if opcode_of (hd data) \<noteq> OpVersion then Some [InfoError ''missing version record'' 0]
      else parse_records (length data) data [])"

section \<open>Properties\<close>

lemma scan_operand_append: "CHR 0x00 \<notin> set op \<Longrightarrow> scan_operand (op @ CHR 0x00 # rest) acc = Some (acc @ op, rest)"
  by (induction op arbitrary: acc) auto

text \<open>An input that ends in a null character with another character before it.\<close>

definition terminated :: "string \<Rightarrow> bool" where
  "terminated cs = (\<exists>pre x. cs = pre @ [x, CHR 0x00] \<and> x \<noteq> CHR 0x00)"

lemma terminated_scan:
  "terminated cs \<or> cs = [CHR 0x00] \<Longrightarrow> \<exists>op rest. scan_operand cs acc = Some (op, rest) \<and> (rest = [] \<or> terminated rest)"
proof (induction cs acc rule: scan_operand.induct)
  case (2 c cs acc)
  show ?case
  proof (cases "c = CHR 0x00")
    case True
    then have "cs = [] \<or> terminated cs" using 2(2) by (auto simp: terminated_def Cons_eq_append_conv)
    then show ?thesis using True by simp
  next
    case False
    then have "terminated cs \<or> cs = [CHR 0x00]" using 2(2) by (auto simp: terminated_def Cons_eq_append_conv)
    then show ?thesis using 2(1) False by simp
  qed
qed (simp add: terminated_def)

lemma parse_records_total: "cs = [] \<or> terminated cs \<Longrightarrow> \<exists>evs'. parse_records len cs evs = Some evs'"
proof (induction "length cs" arbitrary: cs evs rule: less_induct)
  case less
  show ?case
  proof (cases cs)
    case Nil
    then show ?thesis by (simp add: parse_records.simps)
  next
    case (Cons c cs1)
    then have "terminated cs1 \<or> cs1 = [CHR 0x00]" using less.prems by (auto simp: terminated_def Cons_eq_append_conv)
    then obtain op rest where sc: "scan_operand cs1 [] = Some (op, rest)" "rest = [] \<or> terminated rest"
      using terminated_scan by blast
    have "length rest < length cs" using scan_operand_length [OF sc(1)] Cons by simp
    then show ?thesis using less.hyps sc Cons by (subst parse_records.simps) (simp add: Let_def)
  qed
qed

text \<open>A record and its encoding.\<close>

datatype info_record = RInput string | RMissing string | ROutput string

fun record_bytes :: "info_record \<Rightarrow> string" where
  "record_bytes (RInput p) = CHR 0x10 # p @ [CHR 0x00]"
| "record_bytes (RMissing p) = CHR 0x11 # p @ [CHR 0x00]"
| "record_bytes (ROutput p) = CHR 0x40 # p @ [CHR 0x00]"

fun record_path :: "info_record \<Rightarrow> string" where
  "record_path (RInput p) = p" | "record_path (RMissing p) = p" | "record_path (ROutput p) = p"

fun record_event :: "info_record \<Rightarrow> info_event" where
  "record_event (RInput p) = ActOnInput p"
| "record_event (RMissing p) = ActOnMissing p"
| "record_event (ROutput p) = ActOnOutput p"

definition info_file :: "string \<Rightarrow> info_record list \<Rightarrow> string" where
  "info_file version rs = CHR 0x00 # version @ CHR 0x00 # concat (map record_bytes rs)"

definition operand_ok :: "string \<Rightarrow> bool" where
  "operand_ok p = (p \<noteq> [] \<and> CHR 0x00 \<notin> set p)"

lemma parse_records_print:
  "\<forall>r \<in> set rs. operand_ok (record_path r) \<Longrightarrow>
   parse_records len (concat (map record_bytes rs)) evs = Some (evs @ map record_event rs)"
proof (induction rs arbitrary: evs)
  case Nil
  show ?case by (simp add: parse_records.simps)
next
  case (Cons r rs)
  obtain c where c: "record_bytes r = c # record_path r @ [CHR 0x00]"
    "handle_opcode (opcode_of c) pos (record_path r) = record_event r" for pos
    by (cases r) (auto simp: opcode_of_def handle_opcode_def intro: that)
  have "scan_operand (record_path r @ CHR 0x00 # concat (map record_bytes rs)) [] = Some (record_path r, concat (map record_bytes rs))"
    using Cons.prems scan_operand_append by (simp add: operand_ok_def)
  then show ?case using Cons c by (simp add: parse_records.simps [of len "c # _"] operand_ok_def Let_def)
qed

lemma last_info_file: "info_file version rs \<noteq> [] \<and> last (info_file version rs) = CHR 0x00"
proof -
  have "last (CHR 0x00 # concat (map record_bytes rs)) = CHR 0x00"
  proof (induction rs)
    case (Cons r rs)
    then show ?case by (cases r) (auto split: if_splits)
  qed simp
  then show ?thesis by (simp add: info_file_def last_append)
qed

text \<open>
  A well-formed file, a version record followed by input, missing and output records, is
  reported record by record, in order and without an error.
\<close>

theorem dependency_info_roundtrip:
  assumes "operand_ok version" "\<forall>r \<in> set rs. operand_ok (record_path r)"
  shows "parse_dependency_info (info_file version rs) = Some (ActOnVersion version # map record_event rs)"
proof -
  let ?d = "info_file version rs"
  have "scan_operand (version @ CHR 0x00 # concat (map record_bytes rs)) [] = Some (version, concat (map record_bytes rs))"
    using assms(1) scan_operand_append by (simp add: operand_ok_def)
  then have "parse_records (length ?d) ?d [] = Some (ActOnVersion version # map record_event rs)"
    using assms(1) parse_records_print [OF assms(2)]
    by (simp add: info_file_def parse_records.simps [of _ "CHR 0x00 # _"] operand_ok_def Let_def handle_opcode_def opcode_of_def)
  moreover have "opcode_of (hd ?d) = OpVersion" by (simp add: info_file_def opcode_of_def)
  ultimately show ?thesis using last_info_file by (simp add: parse_dependency_info_def)
qed

theorem dependency_info_roundtrip_witness:
  "parse_dependency_info (info_file ''ld'' [RInput ''a.o'', ROutput ''a.out'']) =
     Some [ActOnVersion ''ld'', ActOnInput ''a.o'', ActOnOutput ''a.out'']"
  using dependency_info_roundtrip [of "''ld''" "[RInput ''a.o'', ROutput ''a.out'']"] by (simp add: operand_ok_def)

text \<open>
  The scan for the end of an operand stays inside the file if the character before the final null
  is not a null itself.  The comment in the loop says that the final null always stops it; it does
  not when that null is itself an opcode: any well-formed file with one more null at its end is
  read out of bounds.
\<close>

theorem dependency_info_overrun:
  assumes "operand_ok version" "\<forall>r \<in> set rs. operand_ok (record_path r)"
  shows "(terminated data \<longrightarrow> (\<exists>evs. parse_dependency_info data = Some evs)) \<and>
    parse_dependency_info (info_file version rs @ [CHR 0x00]) = None"
proof
  show "terminated data \<longrightarrow> (\<exists>evs. parse_dependency_info data = Some evs)"
    using parse_records_total by (simp add: parse_dependency_info_def)
  have records: "parse_records len (concat (map record_bytes rs) @ [CHR 0x00]) evs = None" for len evs
    using assms(2)
  proof (induction rs arbitrary: evs)
    case Nil
    show ?case by (subst parse_records.simps) simp
  next
    case (Cons r rs)
    obtain c where c: "record_bytes r = c # record_path r @ [CHR 0x00]" by (cases r) auto
    have "scan_operand (record_path r @ CHR 0x00 # (concat (map record_bytes rs) @ [CHR 0x00])) [] =
        Some (record_path r, concat (map record_bytes rs) @ [CHR 0x00])"
      using Cons.prems scan_operand_append by (simp add: operand_ok_def)
    then show ?case using Cons c by (subst parse_records.simps) (simp add: operand_ok_def Let_def)
  qed
  have "scan_operand (version @ CHR 0x00 # (concat (map record_bytes rs) @ [CHR 0x00])) [] =
      Some (version, concat (map record_bytes rs) @ [CHR 0x00])"
    using assms(1) scan_operand_append by (simp add: operand_ok_def)
  then show "parse_dependency_info (info_file version rs @ [CHR 0x00]) = None"
    using assms(1) records
    by (simp add: parse_dependency_info_def info_file_def opcode_of_def parse_records.simps [of _ "CHR 0x00 # _"] operand_ok_def Let_def)
qed

theorem dependency_info_overrun_witness:
  "parse_dependency_info (info_file ''ld'' [RInput ''a.o''] @ [CHR 0x00]) = None \<and>
   (\<exists>evs. parse_dependency_info (info_file ''ld'' []) = Some evs)"
proof -
  have "terminated (info_file ''ld'' [])" by (simp add: terminated_def info_file_def)
  then show ?thesis
    using dependency_info_overrun [of "''ld''" "[RInput ''a.o'']" "info_file ''ld'' []"] by (simp add: operand_ok_def)
qed

end
