(* ===== verification/Shell_Command.thy ===== *)
theory Shell_Command
  imports External_Command Makefile_Deps Dependency_Info Shell_Utility
begin

text \<open>
  Commands that run a process and may report the files they read
  (\<^verbatim>\<open>lib/BuildSystem/ShellCommand.cpp\<close>, and the clang tool of
  \<^verbatim>\<open>lib/BuildSystem/BuildSystem.cpp\<close>).  Reading a file and the current directory are
  arguments; \<open>None\<close> is a failed assertion or a read behind the end of the data.
\<close>

section \<open>Shell commands\<close>

datatype DepsStyle = DepsUnused | DepsMakefile | DepsDependencyInfo | DepsMakefileIgnoringSubsequentOutputs

fun deps_style_number :: "DepsStyle \<Rightarrow> nat" where
  "deps_style_number DepsUnused = 0"
| "deps_style_number DepsMakefile = 1"
| "deps_style_number DepsDependencyInfo = 2"
| "deps_style_number DepsMakefileIgnoringSubsequentOutputs = 3"

record ShellCommand = ExternalCommand +
  sc_args :: "string list"
  sc_signatureData :: string
  sc_env :: "(string \<times> string) list"
  sc_depsPaths :: "string list"
  sc_depsStyle :: DepsStyle
  sc_inheritEnv :: bool
  sc_canSafelyInterrupt :: bool
  sc_workingDirectory :: string
  sc_controlEnabled :: bool
  sc_cachedSignature :: CommandSignature

definition new_shell_command :: "string \<Rightarrow> bool \<Rightarrow> ShellCommand" where
  "new_shell_command name controlEnabled =
     ExternalCommand.extend (new_external_command name)
       \<lparr>sc_args = [], sc_signatureData = [], sc_env = [], sc_depsPaths = [], sc_depsStyle = DepsUnused, sc_inheritEnv = True,
        sc_canSafelyInterrupt = True, sc_workingDirectory = [], sc_controlEnabled = controlEnabled, sc_cachedSignature = 0\<rparr>"

text \<open>The signature is computed once; zero stands for not computed.\<close>

definition shell_signature :: "Hash \<Rightarrow> ShellCommand \<Rightarrow> CommandSignature" where
  "shell_signature H c =
     (let code = external_getSignature H (ExternalCommand.truncate c) in
      if sc_signatureData c \<noteq> [] then combine_string H (sc_signatureData c) code
      else
        combine_int H (if sc_canSafelyInterrupt c then 1 else 0)
          (combine_int H (if sc_inheritEnv c then 1 else 0)
            (combine_int H (deps_style_number (sc_depsStyle c))
              (combine_strings H (sc_depsPaths c)
                (combine_strings H (concat (map (\<lambda>(k, v). [k, v]) (sc_env c)))
                  (combine_strings H (sc_args c) code))))))"

definition shell_getSignature :: "Hash \<Rightarrow> ShellCommand \<Rightarrow> CommandSignature \<times> ShellCommand" where
  "shell_getSignature H c =
     (if sc_cachedSignature c \<noteq> 0 then (sc_cachedSignature c, c)
      else (let sig = (if shell_signature H c = 0 then 1 else shell_signature H c) in (sig, c\<lparr>sc_cachedSignature := sig\<rparr>)))"

section \<open>Attributes\<close>

definition DefaultShellPath :: string where "DefaultShellPath = ''/bin/sh''"

definition shell_attribute ::
  "(string \<Rightarrow> string) \<Rightarrow> string \<Rightarrow> string \<Rightarrow> ShellCommand \<Rightarrow> ShellCommand Configured" where
  "shell_attribute absolute name val c =
     (if name = ''args'' then Accepted (c\<lparr>sc_args := [DefaultShellPath, ''-c'', val]\<rparr>)
      else if name = ''signature'' then Accepted (c\<lparr>sc_signatureData := val\<rparr>)
      else if name = ''deps'' then Accepted (c\<lparr>sc_depsPaths := [val]\<rparr>)
      else if name = ''deps-style'' then
        (if val = ''makefile'' then Accepted (c\<lparr>sc_depsStyle := DepsMakefile\<rparr>)
         else if val = ''dependency-info'' then Accepted (c\<lparr>sc_depsStyle := DepsDependencyInfo\<rparr>)
         else if val = ''makefile-ignoring-subsequent-outputs'' then Accepted (c\<lparr>sc_depsStyle := DepsMakefileIgnoringSubsequentOutputs\<rparr>)
         else Refused (''unknown '' @ quoted ''deps-style'' @ '': '' @ quoted val) c)
      else if name = ''can-safely-interrupt'' then
        set_bool name val c (c\<lparr>sc_canSafelyInterrupt := True\<rparr>) (c\<lparr>sc_canSafelyInterrupt := False\<rparr>)
      else if name = ''inherit-env'' then set_bool name val c (c\<lparr>sc_inheritEnv := True\<rparr>) (c\<lparr>sc_inheritEnv := False\<rparr>)
      else if name = ''working-directory'' then Accepted (c\<lparr>sc_workingDirectory := absolute val\<rparr>)
      else if name = ''control-enabled'' then
        set_bool name val c (c\<lparr>sc_controlEnabled := True\<rparr>) (c\<lparr>sc_controlEnabled := False\<rparr>)
      else case external_attribute name val (ExternalCommand.truncate c) of
        Accepted e \<Rightarrow> Accepted (ExternalCommand.extend e (ShellCommand.fields (sc_args c) (sc_signatureData c) (sc_env c) (sc_depsPaths c)
            (sc_depsStyle c) (sc_inheritEnv c) (sc_canSafelyInterrupt c) (sc_workingDirectory c) (sc_controlEnabled c) (sc_cachedSignature c)))
      | Refused msg e \<Rightarrow> Refused msg c)"

definition shell_attribute_list :: "string \<Rightarrow> string list \<Rightarrow> ShellCommand \<Rightarrow> ShellCommand Configured" where
  "shell_attribute_list name vals c =
     (if name = ''args'' then
        (if vals = [] then Refused (''invalid arguments for command '' @ quoted (ec_name c)) c else Accepted (c\<lparr>sc_args := vals\<rparr>))
      else if name = ''deps'' then Accepted (c\<lparr>sc_depsPaths := vals\<rparr>)
      else Refused (unexpected_attribute name) c)"

definition shell_attribute_map :: "string \<Rightarrow> (string \<times> string) list \<Rightarrow> ShellCommand \<Rightarrow> ShellCommand Configured" where
  "shell_attribute_map name vals c =
     (if name = ''env'' then Accepted (c\<lparr>sc_env := vals\<rparr>) else Refused (unexpected_attribute name) c)"

section \<open>Discovered dependencies\<close>

definition absolute_path :: "string \<Rightarrow> string \<Rightarrow> string \<Rightarrow> string" where
  "absolute_path current_directory workingDirectory p =
     (if is_absolute p then p else make_absolute current_directory (append_component workingDirectory p))"

definition reading_error :: "string \<Rightarrow> string \<Rightarrow> string" where
  "reading_error depsPath message = ''error reading dependency file '' @ quoted depsPath @ '': '' @ message"

definition found_input :: "string \<Rightarrow> BuildEffect list" where
  "found_input path = [DiscoveredDependency (makeNode path), FoundDependency path DependencyInput]"

fun makefile_action :: "(string \<Rightarrow> string) \<Rightarrow> string \<Rightarrow> parse_event \<Rightarrow> BuildEffect list" where
  "makefile_action absolute depsPath (ParseError message position) =
     [CommandHadError (reading_error depsPath message @ '' at position '' @ show_nat position)]"
| "makefile_action absolute depsPath (RuleDependency word unescaped) = found_input (absolute unescaped)"
| "makefile_action absolute depsPath (RuleStart name unescaped) = []"
| "makefile_action absolute depsPath RuleEnd = []"

fun is_parse_error :: "parse_event \<Rightarrow> bool" where
  "is_parse_error (ParseError message position) = True"
| "is_parse_error _ = False"

definition processMakefileDiscoveredDependencies ::
  "(string \<Rightarrow> string) \<Rightarrow> string \<Rightarrow> string \<Rightarrow> bool \<Rightarrow> (bool \<times> BuildEffect list) option" where
  "processMakefileDiscoveredDependencies absolute depsPath input ignoreSubsequentOutputs =
     do { events \<leftarrow> parse_makefile ignoreSubsequentOutputs input;
          Some (\<not> list_ex is_parse_error events, concat (map (makefile_action absolute depsPath) events)) }"

fun info_action :: "string \<Rightarrow> info_event \<Rightarrow> BuildEffect list" where
  "info_action depsPath (InfoError message position) = [CommandHadError (reading_error depsPath message)]"
| "info_action depsPath (ActOnVersion v) = []"
| "info_action depsPath (ActOnMissing p) = [FoundDependency p DependencyMissing]"
| "info_action depsPath (ActOnOutput p) = [FoundDependency p DependencyOutput]"
| "info_action depsPath (ActOnInput p) = found_input p"

fun is_info_error :: "info_event \<Rightarrow> bool" where
  "is_info_error (InfoError message position) = True"
| "is_info_error _ = False"

definition processDependencyInfoDiscoveredDependencies :: "string \<Rightarrow> string \<Rightarrow> (bool \<times> BuildEffect list) option" where
  "processDependencyInfoDiscoveredDependencies depsPath input =
     do { events \<leftarrow> parse_dependency_info input;
          Some (\<not> list_ex is_info_error events, concat (map (info_action depsPath) events)) }"

definition process_deps_input :: "(string \<Rightarrow> string) \<Rightarrow> DepsStyle \<Rightarrow> string \<Rightarrow> string \<Rightarrow> (bool \<times> BuildEffect list) option" where
  "process_deps_input absolute style depsPath input =
     (case style of
        DepsUnused \<Rightarrow> None
      | DepsMakefile \<Rightarrow> processMakefileDiscoveredDependencies absolute depsPath input False
      | DepsDependencyInfo \<Rightarrow> processDependencyInfoDiscoveredDependencies depsPath input
      | DepsMakefileIgnoringSubsequentOutputs \<Rightarrow> processMakefileDiscoveredDependencies absolute depsPath input True)"

fun process_deps_files ::
  "(string \<Rightarrow> string option) \<Rightarrow> (string \<Rightarrow> string) \<Rightarrow> DepsStyle \<Rightarrow> string list \<Rightarrow> (bool \<times> BuildEffect list) option" where
  "process_deps_files read absolute style [] = Some (True, [])"
| "process_deps_files read absolute style (depsPath # rest) =
     (case read (absolute depsPath) of
        None \<Rightarrow> Some (False, [CommandHadError (''unable to open dependencies file ('' @ depsPath @ '')'')])
      | Some input \<Rightarrow>
          do { (ok, es) \<leftarrow> process_deps_input absolute style depsPath input;
               if \<not> ok then Some (False, es)
               else do { (ok1, es1) \<leftarrow> process_deps_files read absolute style rest; Some (ok1, es @ es1) } })"

definition processDiscoveredDependencies ::
  "(string \<Rightarrow> string option) \<Rightarrow> string \<Rightarrow> ShellCommand \<Rightarrow> (bool \<times> BuildEffect list) option" where
  "processDiscoveredDependencies read current_directory c =
     (if sc_depsStyle c = DepsUnused then Some (False, [CommandHadError (''missing required '' @ quoted ''deps-style'' @ '' specifier'')])
      else process_deps_files read (absolute_path current_directory (sc_workingDirectory c)) (sc_depsStyle c) (sc_depsPaths c))"

section \<open>Running\<close>

text \<open>A handler of the client runs the command instead of a process, if there is one.\<close>

definition shell_executeExternalCommand :: "bool \<Rightarrow> ShellCommand \<Rightarrow> BuildEffect list" where
  "shell_executeExternalCommand has_handler c =
     (if has_handler then [RunHandler]
      else [RunProcess (sc_args c) (sc_env c)
              \<lparr>pa_canSafelyInterrupt = sc_canSafelyInterrupt c, pa_connectToConsole = False, pa_workingDir = sc_workingDirectory c,
               pa_inheritEnvironment = sc_inheritEnv c, pa_controlEnabled = sc_controlEnabled c\<rparr>])"

text \<open>
  The process has ended with the given status: the dependencies are collected in a job of their own,
  and the command ends with the status this leaves.
\<close>

definition shell_commandCompleted ::
  "(string \<Rightarrow> string option) \<Rightarrow> string \<Rightarrow> ProcessStatus \<Rightarrow> ShellCommand \<Rightarrow> (ProcessStatus \<times> BuildEffect list) option" where
  "shell_commandCompleted read current_directory status c =
     (if status \<noteq> StatusSucceeded then Some (status, [])
      else if sc_depsPaths c \<noteq> [] then
        do { (ok, es) \<leftarrow> processDiscoveredDependencies read current_directory c;
             Some (if ok then status else StatusFailed, SpawnJob # es) }
      else Some (status, []))"

text \<open>The whole completion, down to the result of the command.\<close>

definition shell_complete ::
  "(string \<Rightarrow> FileInfo) \<Rightarrow> 64 word \<Rightarrow> (string \<Rightarrow> string option) \<Rightarrow> string \<Rightarrow> ProcessStatus \<Rightarrow> ShellCommand \<Rightarrow> BuildEffect list option" where
  "shell_complete stat epoch read current_directory status c =
     do { (final, es) \<leftarrow> shell_commandCompleted read current_directory status c;
          es1 \<leftarrow> external_complete stat epoch final (ExternalCommand.truncate c);
          Some (es @ es1) }"

text \<open>\<^verbatim>\<open>getVerboseDescription\<close>.\<close>

definition shell_getVerboseDescription :: "ShellCommand \<Rightarrow> string" where
  "shell_getVerboseDescription c =
     concat (map (\<lambda>(i, a). (if i = 0 then [] else '' '') @ shellEscaped a) (zip [0..<length (sc_args c)] (sc_args c)))"

section \<open>Clang commands\<close>

record ClangShellCommand = ExternalCommand +
  cc_args :: "string list"
  cc_depsPath :: string

definition new_clang_command :: "string \<Rightarrow> ClangShellCommand" where
  "new_clang_command name = ExternalCommand.extend (new_external_command name) \<lparr>cc_args = [], cc_depsPath = []\<rparr>"

definition clang_getSignature :: "Hash \<Rightarrow> ClangShellCommand \<Rightarrow> CommandSignature" where
  "clang_getSignature H c = combine_strings H (cc_args c) (external_getSignature H (ExternalCommand.truncate c))"

definition clang_attribute :: "string \<Rightarrow> string \<Rightarrow> ClangShellCommand \<Rightarrow> ClangShellCommand Configured" where
  "clang_attribute name val c =
     (if name = ''args'' then Accepted (c\<lparr>cc_args := [DefaultShellPath, ''-c'', val]\<rparr>)
      else if name = ''deps'' then Accepted (c\<lparr>cc_depsPath := val\<rparr>)
      else case external_attribute name val (ExternalCommand.truncate c) of
        Accepted e \<Rightarrow> Accepted (ExternalCommand.extend e (ClangShellCommand.fields (cc_args c) (cc_depsPath c)))
      | Refused msg e \<Rightarrow> Refused msg c)"

definition clang_attribute_list :: "string \<Rightarrow> string list \<Rightarrow> ClangShellCommand \<Rightarrow> ClangShellCommand Configured" where
  "clang_attribute_list name vals c =
     (if name = ''args'' then Accepted (c\<lparr>cc_args := vals\<rparr>) else Refused (unexpected_attribute name) c)"

text \<open>Here the paths are taken as they are, and the message has no position.\<close>

fun clang_action :: "string \<Rightarrow> parse_event \<Rightarrow> BuildEffect list" where
  "clang_action depsPath (ParseError message position) = [CommandHadError (reading_error depsPath message)]"
| "clang_action depsPath (RuleDependency word unescaped) = found_input unescaped"
| "clang_action depsPath (RuleStart name unescaped) = []"
| "clang_action depsPath RuleEnd = []"

definition clang_processDiscoveredDependencies ::
  "(string \<Rightarrow> string option) \<Rightarrow> ClangShellCommand \<Rightarrow> (bool \<times> BuildEffect list) option" where
  "clang_processDiscoveredDependencies read c =
     (case read (cc_depsPath c) of
        None \<Rightarrow> Some (False, [CommandHadError (''unable to open dependencies file ('' @ cc_depsPath c @ '')'')])
      | Some input \<Rightarrow>
          do { events \<leftarrow> parse_makefile False input;
               Some (\<not> list_ex is_parse_error events, concat (map (clang_action (cc_depsPath c)) events)) })"

text \<open>The attributes but the first take their defaults.\<close>

definition interruptible_attributes :: ProcessAttributes where
  "interruptible_attributes =
     \<lparr>pa_canSafelyInterrupt = True, pa_connectToConsole = False, pa_workingDir = [], pa_inheritEnvironment = True,
      pa_controlEnabled = True\<rparr>"

definition clang_executeExternalCommand :: "ClangShellCommand \<Rightarrow> BuildEffect list" where
  "clang_executeExternalCommand c = [RunProcess (cc_args c) [] interruptible_attributes]"

definition clang_commandCompleted ::
  "(string \<Rightarrow> string option) \<Rightarrow> ProcessStatus \<Rightarrow> ClangShellCommand \<Rightarrow> (ProcessStatus \<times> BuildEffect list) option" where
  "clang_commandCompleted read status c =
     (if status \<noteq> StatusSucceeded then Some (status, [])
      else if cc_depsPath c \<noteq> [] then
        do { (ok, es) \<leftarrow> clang_processDiscoveredDependencies read c;
             Some (if ok then status else StatusFailed, SpawnJob # es) }
      else Some (status, []))"

end
