(* ===== verification/Shell_Properties.thy ===== *)
theory Shell_Properties
  imports Shell_Command External_Command_Properties
begin

text \<open>
  What shell commands guarantee about the dependencies a process reports, when such a command counts as
  successful, and what its signature misses.
\<close>

section \<open>Discovered dependencies\<close>

lemma parse_printed_makefile:
  assumes "\<forall>r \<in> set rs. target_ok (fst r) \<and> (\<forall>d \<in> set (snd r). dependency_ok d)"
  shows "parse_makefile False (concat (map print_rule rs)) = Some (concat (map rule_events rs))"
  using parse_loop_print [OF assms, of _ "[]"] by (simp add: parse_makefile_def)

definition rule_effects :: "(string \<Rightarrow> string) \<Rightarrow> string \<times> string list \<Rightarrow> BuildEffect list" where
  "rule_effects absolute r = concat (map (\<lambda>d. found_input (absolute d)) (snd r))"

lemma rule_actions: "concat (map (makefile_action absolute depsPath) (rule_events r)) = rule_effects absolute r"
proof -
  have "concat (map (makefile_action absolute depsPath) (map (\<lambda>d. RuleDependency (escape d) d) ds)) =
      concat (map (\<lambda>d. found_input (absolute d)) ds)" for ds
    by (induction ds) simp_all
  then show ?thesis by (simp add: rule_events_def rule_effects_def comp_def)
qed

lemma no_rule_errors: "\<not> list_ex is_parse_error (concat (map rule_events rs))"
  by (induction rs) (auto simp: rule_events_def list_ex_iff)

lemma process_printed_makefile:
  assumes "\<forall>r \<in> set rs. target_ok (fst r) \<and> (\<forall>d \<in> set (snd r). dependency_ok d)"
  shows "processMakefileDiscoveredDependencies absolute depsPath (concat (map print_rule rs)) False =
     Some (True, concat (map (rule_effects absolute) rs))"
proof -
  have "concat (map (makefile_action absolute depsPath) (concat (map rule_events rs))) = concat (map (rule_effects absolute) rs)"
    by (induction rs) (simp_all add: rule_actions)
  with parse_printed_makefile [OF assms] no_rule_errors show ?thesis
    by (simp add: processMakefileDiscoveredDependencies_def)
qed

lemma process_printed_makefiles:
  assumes "\<forall>p \<in> set paths. read (absolute p) = Some (concat (map print_rule (rules p))) \<and>
     (\<forall>r \<in> set (rules p). target_ok (fst r) \<and> (\<forall>d \<in> set (snd r). dependency_ok d))"
  shows "process_deps_files read absolute DepsMakefile paths =
     Some (True, concat (map (\<lambda>p. concat (map (rule_effects absolute) (rules p))) paths))"
  using assms by (induction paths) (simp_all add: process_deps_input_def process_printed_makefile)

lemma rule_effects_keys:
  "DiscoveredDependency k \<in> set (rule_effects absolute r) \<longleftrightarrow> (\<exists>d \<in> set (snd r). k = makeNode (absolute d))"
  by (auto simp: rule_effects_def found_input_def)

lemma absolute_path_absolute: "is_absolute cwd \<Longrightarrow> is_absolute (absolute_path cwd wd p)"
  by (simp add: absolute_path_def make_absolute_absolute)

text \<open>
  C21. When a process succeeds and has left its dependencies in makefile style, in any number of files,
  the command succeeds and the engine is told of exactly the listed dependencies, each as the node of
  an absolute path: relative paths are taken to be relative to the working directory of the command.
\<close>

theorem discovered_dependencies_exact:
  assumes "sc_depsStyle c = DepsMakefile" "sc_depsPaths c \<noteq> []" "is_absolute cwd"
    and "\<forall>p \<in> set (sc_depsPaths c). read (absolute_path cwd (sc_workingDirectory c) p) = Some (concat (map print_rule (rules p))) \<and>
      (\<forall>r \<in> set (rules p). target_ok (fst r) \<and> (\<forall>d \<in> set (snd r). dependency_ok d))"
  shows "\<exists>es. shell_commandCompleted read cwd StatusSucceeded c = Some (StatusSucceeded, es) \<and>
     (\<forall>k. DiscoveredDependency k \<in> set es \<longleftrightarrow>
        (\<exists>p \<in> set (sc_depsPaths c). \<exists>r \<in> set (rules p). \<exists>d \<in> set (snd r).
           k = makeNode (absolute_path cwd (sc_workingDirectory c) d))) \<and>
     (\<forall>k. DiscoveredDependency k \<in> set es \<longrightarrow> (\<exists>path. is_absolute path \<and> k = makeNode path))"
proof -
  let ?abs = "absolute_path cwd (sc_workingDirectory c)"
  let ?es = "concat (map (\<lambda>p. concat (map (rule_effects ?abs) (rules p))) (sc_depsPaths c))"
  have "shell_commandCompleted read cwd StatusSucceeded c = Some (StatusSucceeded, SpawnJob # ?es)"
    using process_printed_makefiles [where absolute = ?abs, OF assms(4)] assms(1,2)
    by (simp add: shell_commandCompleted_def processDiscoveredDependencies_def)
  moreover have "DiscoveredDependency k \<in> set (SpawnJob # ?es) \<longleftrightarrow>
      (\<exists>p \<in> set (sc_depsPaths c). \<exists>r \<in> set (rules p). \<exists>d \<in> set (snd r). k = makeNode (?abs d))" for k
    by (auto simp: rule_effects_keys)
  ultimately show ?thesis using absolute_path_absolute [OF assms(3)] by blast
qed

definition sample_shell :: ShellCommand where
  "sample_shell = (new_shell_command ''C'' True)\<lparr>sc_args := [''cc''], sc_depsPaths := [''x.d''], sc_depsStyle := DepsMakefile,
     sc_workingDirectory := ''/w''\<rparr>"

theorem discovered_dependencies_exact_witness:
  "\<exists>es. shell_commandCompleted (\<lambda>p. if p = ''/w/x.d'' then Some (print_rule (''x'', [''a b'', ''/c''])) else None) ''/''
       StatusSucceeded sample_shell = Some (StatusSucceeded, es) \<and>
     DiscoveredDependency (makeNode ''/w/a b'') \<in> set es \<and> DiscoveredDependency (makeNode ''/c'') \<in> set es \<and>
     DiscoveredDependency (makeNode ''a b'') \<notin> set es"
proof -
  have paths: "absolute_path ''/'' ''/w'' ''x.d'' = ''/w/x.d''" "absolute_path ''/'' ''/w'' ''a b'' = ''/w/a b''"
    "absolute_path ''/'' ''/w'' ''/c'' = ''/c''" "is_absolute ''/''" by code_simp+
  have "makeNode ''a b'' \<noteq> makeNode ''/w/a b''" "makeNode ''a b'' \<noteq> makeNode ''/c''" by (simp_all add: makeNode_def key_simple_def)
  then show ?thesis
    using discovered_dependencies_exact [of sample_shell "''/''"
        "\<lambda>p. if p = ''/w/x.d'' then Some (print_rule (''x'', [''a b'', ''/c''])) else None" "\<lambda>p. [(''x'', [''a b'', ''/c''])]"] paths
    by (auto simp: sample_shell_def target_ok_def dependency_ok_def path_char_def)
qed

section \<open>Success\<close>

definition deps_input_ok :: "DepsStyle \<Rightarrow> string \<Rightarrow> bool" where
  "deps_input_ok style input =
     (case style of
        DepsUnused \<Rightarrow> False
      | DepsMakefile \<Rightarrow> (case parse_makefile False input of None \<Rightarrow> False | Some es \<Rightarrow> \<not> list_ex is_parse_error es)
      | DepsDependencyInfo \<Rightarrow> (case parse_dependency_info input of None \<Rightarrow> False | Some es \<Rightarrow> \<not> list_ex is_info_error es)
      | DepsMakefileIgnoringSubsequentOutputs \<Rightarrow>
          (case parse_makefile True input of None \<Rightarrow> False | Some es \<Rightarrow> \<not> list_ex is_parse_error es))"

definition dependencies_ok :: "(string \<Rightarrow> string option) \<Rightarrow> string \<Rightarrow> ShellCommand \<Rightarrow> bool" where
  "dependencies_ok read cwd c \<longleftrightarrow> sc_depsPaths c = [] \<or> sc_depsStyle c \<noteq> DepsUnused \<and>
     (\<forall>p \<in> set (sc_depsPaths c). \<exists>input. read (absolute_path cwd (sc_workingDirectory c) p) = Some input \<and> deps_input_ok (sc_depsStyle c) input)"

lemma process_deps_input_ok:
  assumes "process_deps_input absolute style depsPath input = Some (ok, es)"
  shows "ok = deps_input_ok style input"
  using assms
  by (auto simp: process_deps_input_def deps_input_ok_def processMakefileDiscoveredDependencies_def
      processDependencyInfoDiscoveredDependencies_def split: DepsStyle.splits option.splits)

lemma process_deps_files_ok:
  assumes "process_deps_files read absolute style paths = Some (ok, es)"
  shows "ok \<longleftrightarrow> (\<forall>p \<in> set paths. \<exists>input. read (absolute p) = Some input \<and> deps_input_ok style input)"
  using assms
proof (induction paths arbitrary: ok es)
  case (Cons p paths)
  show ?case
  proof (cases "read (absolute p)")
    case (Some input)
    then obtain ok1 es1 where one: "process_deps_input absolute style p input = Some (ok1, es1)" using Cons.prems by auto
    note here = process_deps_input_ok [OF one]
    show ?thesis
    proof (cases ok1)
      case True
      then obtain es2 where "process_deps_files read absolute style paths = Some (ok, es2)" using Cons.prems Some one by auto
      from Cons.IH [OF this] show ?thesis using Some here True by simp
    next
      case False
      then show ?thesis using Cons.prems Some one here by auto
    qed
  qed (use Cons.prems in auto)
qed simp

lemma no_result_in_deps: "process_deps_input absolute style p input = Some (ok, es) \<Longrightarrow> CommandResult v \<notin> set es"
proof -
  have "CommandResult v \<notin> set (makefile_action absolute p e)" "CommandResult v \<notin> set (info_action p e1)" for e e1
    by (cases e; simp add: found_input_def) (cases e1; simp add: found_input_def)
  then show "process_deps_input absolute style p input = Some (ok, es) \<Longrightarrow> CommandResult v \<notin> set es"
    by (auto simp: process_deps_input_def processMakefileDiscoveredDependencies_def processDependencyInfoDiscoveredDependencies_def
        split: DepsStyle.splits)
qed

lemma no_result_in_deps_files: "process_deps_files read absolute style paths = Some (ok, es) \<Longrightarrow> CommandResult v \<notin> set es"
  by (induction paths arbitrary: ok es) (auto split: option.splits if_splits dest: no_result_in_deps)

lemma commandCompleted_status:
  assumes "shell_commandCompleted read cwd status c = Some (final, es)"
  shows "final = (if status = StatusSucceeded \<and> \<not> dependencies_ok read cwd c then StatusFailed else status)"
    and "CommandResult v \<notin> set es"
  using assms
  by (auto simp: shell_commandCompleted_def processDiscoveredDependencies_def dependencies_ok_def
      dest: process_deps_files_ok no_result_in_deps_files split: if_splits)

text \<open>
  C22. A shell command whose process has ended has exactly one result.  It is the result of a successful
  command exactly if the process succeeded and every dependency file the command declares could be read
  and was free of errors, under a declared style; a failed process or dependency file makes it a failed
  command, a cancelled process a cancelled one.
\<close>

theorem shell_success_iff:
  assumes "status = StatusSucceeded \<or> status = StatusFailed \<or> status = StatusCancelled" "length (ec_outputs c) < 2 ^ 32"
    and "shell_commandCompleted read cwd status c \<noteq> None"
  shows "\<exists>es v. shell_complete stat epoch read cwd status c = Some es \<and> filter (\<lambda>e. \<exists>w. e = CommandResult w) es = [CommandResult v] \<and>
     (isSuccessfulCommand v \<longleftrightarrow> status = StatusSucceeded \<and> dependencies_ok read cwd c) \<and>
     (bv_kind v = FailedCommand \<longleftrightarrow> status = StatusFailed \<or> status = StatusSucceeded \<and> \<not> dependencies_ok read cwd c) \<and>
     (bv_kind v = CancelledCommand \<longleftrightarrow> status = StatusCancelled)"
proof -
  obtain final es where d: "shell_commandCompleted read cwd status c = Some (final, es)" using assms(3) by auto
  note st = commandCompleted_status [OF d]
  have none: "filter (\<lambda>e. \<exists>w. e = CommandResult w) es = []" using st(2) by (auto simp: filter_empty_conv)
  obtain v where v: "computeCommandResult stat epoch (ExternalCommand.truncate c) = Some v" "bv_kind v = SuccessfulCommand"
    using computeCommandResult_nth [of "ExternalCommand.truncate c" stat epoch] assms(2) by (auto simp: ExternalCommand.truncate_def)
  show ?thesis
    using assms(1) d st(1) none v
    by (auto simp: shell_complete_def external_complete_def isSuccessfulCommand_def makeFailedCommand_def makeCancelledCommand_def
        value_plain_def)
qed

theorem shell_success_iff_witness:
  "\<exists>es v. shell_complete (\<lambda>p. zero_info) 1 (\<lambda>p. None) ''/'' StatusSucceeded sample_shell = Some es \<and>
     filter (\<lambda>e. \<exists>w. e = CommandResult w) es = [CommandResult v] \<and> bv_kind v = FailedCommand"
proof -
  have "shell_commandCompleted (\<lambda>p. None) ''/'' StatusSucceeded sample_shell \<noteq> None"
    by (simp add: shell_commandCompleted_def sample_shell_def processDiscoveredDependencies_def)
  moreover have "\<not> dependencies_ok (\<lambda>p. None) ''/'' sample_shell" by (simp add: dependencies_ok_def sample_shell_def)
  moreover have "length (ec_outputs sample_shell) < 2 ^ 32"
    by (simp add: sample_shell_def new_shell_command_def new_external_command_def ExternalCommand.extend_def)
  ultimately show ?thesis
    using shell_success_iff [of StatusSucceeded sample_shell "\<lambda>p. None" "''/''" "\<lambda>p. zero_info" 1] by auto
qed

section \<open>What the signature misses\<close>

lemma shell_signature_cached:
  "fst (shell_getSignature H c) \<noteq> 0"
  "shell_getSignature H (snd (shell_getSignature H c)) = shell_getSignature H c"
  by (auto simp: shell_getSignature_def Let_def)

text \<open>
  A change of the working directory, of the control channel, or from one style of dependencies to
  another leaves the signature as it is, so that the command is not run again on account of it.
\<close>

lemma shell_signature_misses:
  "shell_signature H (c\<lparr>sc_workingDirectory := dir\<rparr>) = shell_signature H c"
  "shell_signature H (c\<lparr>sc_controlEnabled := b\<rparr>) = shell_signature H c"
  "s1 \<noteq> DepsUnused \<Longrightarrow> s2 \<noteq> DepsUnused \<Longrightarrow> shell_signature H (c\<lparr>sc_depsStyle := s1\<rparr>) = shell_signature H (c\<lparr>sc_depsStyle := s2\<rparr>)"
  by (simp_all add: shell_signature_def Let_def ExternalCommand.truncate_def combine_int_def)
    (cases s1; cases s2; simp)

end
