(* ===== verification/Stale_Files.thy ===== *)
theory Stale_Files
  imports External_Command "HOL-Library.Char_ord" "HOL-Library.List_Lexorder"
begin

text \<open>
  The removal of files that an earlier build produced and the present one does not expect any more
  (\<^verbatim>\<open>StaleFileRemovalCommand\<close> and \<^verbatim>\<open>pathIsPrefixedByPath\<close> in
  \<^verbatim>\<open>lib/BuildSystem/BuildSystem.cpp\<close>), with the POSIX separator.
\<close>

section \<open>Paths below a root\<close>

text \<open>The position of the first difference, \<^verbatim>\<open>std::mismatch\<close>.\<close>

fun mismatch :: "string \<Rightarrow> string \<Rightarrow> nat" where
  "mismatch (x # xs) (y # ys) = (if x = y then Suc (mismatch xs ys) else 0)"
| "mismatch _ _ = 0"

definition pathIsPrefixedByPath :: "string \<Rightarrow> string \<Rightarrow> bool" where
  "pathIsPrefixedByPath path prefixPath =
     (if length prefixPath > length path
      then take (length prefixPath - 1) prefixPath = path \<and> prefixPath ! (length prefixPath - 1) = SLASH
      else (let n = mismatch prefixPath path in
            (n = length prefixPath \<or> prefixPath ! n = SLASH) \<and> (n = length path \<or> path ! n = SLASH)))"

section \<open>The command\<close>

record StaleFileRemovalCommand =
  sf_name :: string
  sf_description :: string
  sf_expectedOutputs :: "string list"
  sf_filesToDelete :: "string list"
  sf_roots :: "string list"
  sf_computedFilesToDelete :: bool
  sf_priorValue :: BuildValue
  sf_hasPriorResult :: bool

definition new_stale_file_removal :: "string \<Rightarrow> StaleFileRemovalCommand" where
  "new_stale_file_removal name =
     \<lparr>sf_name = name, sf_description = [], sf_expectedOutputs = [], sf_filesToDelete = [], sf_roots = [],
      sf_computedFilesToDelete = False, sf_priorValue = makeInvalid, sf_hasPriorResult = False\<rparr>"

definition stale_attribute_list ::
  "string \<Rightarrow> string list \<Rightarrow> StaleFileRemovalCommand \<Rightarrow> StaleFileRemovalCommand Configured" where
  "stale_attribute_list name vals c =
     (if name = ''expectedOutputs'' then Accepted (c\<lparr>sf_expectedOutputs := sf_expectedOutputs c @ vals\<rparr>)
      else if name = ''roots'' then Accepted (c\<lparr>sf_roots := sf_roots c @ vals\<rparr>)
      else Refused (unexpected_attribute name) c)"

definition stale_getResultForOutput :: "BuildValue \<Rightarrow> BuildValue option" where
  "stale_getResultForOutput v =
     (if bv_kind v = FailedCommand \<or> bv_kind v = PropagatedFailureCommand \<or> bv_kind v = CancelledCommand then Some makeFailedInput
      else if bv_kind v = SkippedCommand then Some makeSkippedCommand
      else do { d \<leftarrow> toData v; fromData d })"

definition stale_isResultValid :: "BuildValue \<Rightarrow> bool" where
  "stale_isResultValid v = False"

definition stale_providePriorValue :: "BuildValue \<Rightarrow> StaleFileRemovalCommand \<Rightarrow> StaleFileRemovalCommand option" where
  "stale_providePriorValue v c =
     do { d \<leftarrow> toData v; w \<leftarrow> fromData d; Some (c\<lparr>sf_hasPriorResult := True, sf_priorValue := w\<rparr>) }"

definition getStaleFileList :: "BuildValue \<Rightarrow> string list option" where
  "getStaleFileList v = (if bv_kind v = StaleFileRemoval then getStringListValues v else None)"

text \<open>The difference of two ordered sets is appended to the files to delete.\<close>

definition computeFilesToDelete :: "StaleFileRemovalCommand \<Rightarrow> StaleFileRemovalCommand option" where
  "computeFilesToDelete c =
     (if sf_computedFilesToDelete c then Some c
      else do {
        prior \<leftarrow> getStaleFileList (sf_priorValue c);
        let stale = filter (\<lambda>f. f \<notin> set (sf_expectedOutputs c)) (sort (remdups prior));
        Some (c\<lparr>sf_filesToDelete := sf_filesToDelete c @ stale, sf_computedFilesToDelete := True\<rparr>) })"

text \<open>\<^verbatim>\<open>getVerboseDescription\<close>; an element that equals the last one is not followed by a comma.\<close>

definition listed :: "string list \<Rightarrow> string" where
  "listed xs = concat (map (\<lambda>x. x @ (if x \<noteq> last xs then '', '' else [])) xs)"

definition stale_getShortDescription :: "StaleFileRemovalCommand \<Rightarrow> string" where
  "stale_getShortDescription c = (if sf_description c = [] then ''Stale file removal'' else sf_description c)"

definition stale_getVerboseDescription :: "StaleFileRemovalCommand \<Rightarrow> (StaleFileRemovalCommand \<times> string) option" where
  "stale_getVerboseDescription c =
     do { c1 \<leftarrow> computeFilesToDelete c;
          Some (c1, stale_getShortDescription c1 @ '', stale files: ['' @ listed (sf_filesToDelete c1) @ ''], roots: ['' @
                    listed (sf_roots c1) @ '']'') }"

section \<open>Execution\<close>

text \<open>The outcome of removing a file: removed, not there, or an error with its message.\<close>

datatype RemoveResult = Removed | NotThere | CannotRemove string

definition delete_file :: "(string \<Rightarrow> RemoveResult) \<Rightarrow> string list \<Rightarrow> string \<Rightarrow> BuildEffect list" where
  "delete_file remove roots f =
     (if roots \<noteq> [] \<and> (f = [] \<or> hd f \<noteq> SLASH)
      then [CommandHadWarning (''Stale file '' @ quoted f @
              '' has a relative path. This is invalid in combination with the root path attribute.'' @ [CHR 0x0A])]
      else if roots \<noteq> [] \<and> \<not> list_ex (pathIsPrefixedByPath f) roots
      then [CommandHadWarning (''Stale file '' @ quoted f @ '' is located outside of the allowed root paths.'' @ [CHR 0x0A])]
      else RemoveFile f #
        (case remove f of
           Removed \<Rightarrow> [CommandHadNote (''Removed stale file '' @ quoted f @ [CHR 0x0A])]
         | NotThere \<Rightarrow> []
         | CannotRemove msg \<Rightarrow> [CommandHadWarning (''cannot remove stale file '' @ quoted f @ '': '' @ msg @ [CHR 0x0A])]))"

definition stale_execute ::
  "(string \<Rightarrow> RemoveResult) \<Rightarrow> StaleFileRemovalCommand \<Rightarrow> (StaleFileRemovalCommand \<times> BuildEffect list) option" where
  "stale_execute remove c =
     do { result \<leftarrow> makeStaleFileRemoval (sf_expectedOutputs c);
          if \<not> sf_hasPriorResult c \<or> bv_kind (sf_priorValue c) \<noteq> StaleFileRemoval
          then Some (c, [CommandStarted, CommandFinished StatusSucceeded, CommandResult result])
          else do {
            c1 \<leftarrow> computeFilesToDelete c;
            Some (c1, [CommandStarted] @ concat (map (delete_file remove (sf_roots c1)) (sf_filesToDelete c1)) @
                      [CommandFinished StatusSucceeded, CommandResult result]) } }"

end
