(* ===== verification/Stale_Properties.thy ===== *)
theory Stale_Properties
  imports Stale_Files
begin

text \<open>
  The removal of stale files deletes exactly the files that are no longer expected and lie under the
  declared roots, and over a sequence of builds it leaves behind exactly the files that could not be removed
  by the first build that dropped them.
\<close>

section \<open>Paths below a root\<close>

lemma mismatch_prefix:
  "length p \<le> length q \<Longrightarrow> mismatch p q \<le> length p \<and> (mismatch p q = length p \<longleftrightarrow> take (length p) q = p) \<and>
   (mismatch p q < length p \<longrightarrow> p ! mismatch p q \<noteq> q ! mismatch p q)"
  by (induction p q rule: mismatch.induct) auto

text \<open>A path is below a root exactly if it is the root, with or without a slash at its end, or continues it at a slash.\<close>

definition below :: "string \<Rightarrow> string \<Rightarrow> bool" where
  "below root f \<longleftrightarrow> f = root \<or> root = f @ ''/'' \<or> (\<exists>rest. f = root @ ''/'' @ rest)"

lemma pathIsPrefixedByPath_below: "pathIsPrefixedByPath f root \<longleftrightarrow> below root f"
proof (cases "length root > length f")
  case True
  then have "root \<noteq> []" by auto
  then have "pathIsPrefixedByPath f root \<longleftrightarrow> butlast root = f \<and> root \<noteq> [] \<and> last root = SLASH"
    using True by (simp add: pathIsPrefixedByPath_def butlast_conv_take last_conv_nth)
  also have "\<dots> \<longleftrightarrow> root = f @ ''/''" by (metis append_butlast_last_id butlast_snoc last_snoc snoc_eq_iff_butlast)
  finally show ?thesis using True by (auto simp: below_def)
next
  case False
  then have len: "length root \<le> length f" by simp
  note m = mismatch_prefix [OF len]
  have "pathIsPrefixedByPath f root \<longleftrightarrow> take (length root) f = root \<and> (length root = length f \<or> f ! length root = SLASH)"
  proof (cases "mismatch root f = length root")
    case True
    then show ?thesis using m len by (simp add: pathIsPrefixedByPath_def Let_def)
  next
    case False
    then have "mismatch root f < length root" "root ! mismatch root f \<noteq> f ! mismatch root f" using m by auto
    then have "\<not> pathIsPrefixedByPath f root" using len by (auto simp: pathIsPrefixedByPath_def Let_def)
    then show ?thesis using False m by blast
  qed
  also have "\<dots> \<longleftrightarrow> f = root \<or> (\<exists>rest. f = root @ ''/'' @ rest)"
  proof
    assume a: "take (length root) f = root \<and> (length root = length f \<or> f ! length root = SLASH)"
    show "f = root \<or> (\<exists>rest. f = root @ ''/'' @ rest)"
    proof (cases "length root = length f")
      case False
      then have "drop (length root) f = SLASH # drop (Suc (length root)) f" using a len by (metis Cons_nth_drop_Suc le_neq_implies_less)
      then have "f = root @ ''/'' @ drop (Suc (length root)) f" using a by (metis append_Cons append_Nil append_take_drop_id)
      then show ?thesis by blast
    qed (use a in auto)
  qed (auto simp: nth_append)
  finally show ?thesis using len by (auto simp: below_def)
qed

text \<open>
  A root that is written with a slash at its end has nothing below it but itself, and a path may leave
  its root by way of its parent.
\<close>

lemma root_with_slash: "\<not> pathIsPrefixedByPath ''/out/a.o'' ''/out/''" "\<not> pathIsPrefixedByPath ''/a.o'' ''/''"
  by (simp_all add: pathIsPrefixedByPath_def)

lemma root_left_by_parent: "pathIsPrefixedByPath ''/out/../etc/x'' ''/out''"
  by (simp add: pathIsPrefixedByPath_def)

section \<open>One build\<close>

definition removable :: "string list \<Rightarrow> string \<Rightarrow> bool" where
  "removable roots f \<longleftrightarrow> roots = [] \<or> f \<noteq> [] \<and> hd f = SLASH \<and> (\<exists>root \<in> set roots. below root f)"

lemma delete_file_removes: "RemoveFile f \<in> set (delete_file remove roots g) \<longleftrightarrow> f = g \<and> removable roots f"
  by (auto simp: delete_file_def removable_def list_ex_iff pathIsPrefixedByPath_below split: RemoveResult.splits)

lemma removals: 
  "filter (\<lambda>e. \<exists>f. e = RemoveFile f) (concat (map (delete_file remove roots) fs)) = map RemoveFile (filter (removable roots) fs)"
proof -
  have "filter (\<lambda>e. \<exists>f. e = RemoveFile f) (delete_file remove roots g) = (if removable roots g then [RemoveFile g] else [])" for g
    by (auto simp: delete_file_def removable_def list_ex_iff pathIsPrefixedByPath_below split: RemoveResult.splits)
  then show ?thesis by (induction fs) (simp_all add: filter_concat)
qed

lemma makeStaleFileRemoval_total:
  assumes "no_nul expected" "length (pack expected) < 2 ^ 64"
  obtains v d w where "makeStaleFileRemoval expected = Some v" "toData v = Some d" "fromData d = Some w"
    "bv_kind v = StaleFileRemoval" "bv_kind w = StaleFileRemoval" "getStaleFileList w = Some expected" "toData w = Some d"
proof -
  obtain v where v: "makeStaleFileRemoval expected = Some v"
    using assms by (auto simp: makeStaleFileRemoval_def value_strings_def StringList_values_pack kindHasStringList_def value_plain_def)
  then have kind: "bv_kind v = StaleFileRemoval"
    by (auto simp: makeStaleFileRemoval_def value_strings_def value_plain_def Let_def split: if_splits)
  have r: "rep v [] expected"
    by (rule rep_strings [of StaleFileRemoval]) (use v assms(2) in \<open>simp_all add: makeStaleFileRemoval_def kind_ok_def\<close>)
  note d = toData_code [OF r] fromData_code [OF r] decoded_same [OF r]
  have "getValues (bv_stringValues (decoded_value v expected)) = Some expected" using d(3) holds_getValues by (auto simp: rep_def)
  moreover have "toData (decoded_value v expected) = Some (code_value v [] expected)"
    using toData_code [OF d(3)] kind_flags [of "decoded_value v expected" v] by (simp add: code_value_def decoded_value_def)
  ultimately show ?thesis
    using that [OF v d(1,2) kind] kind
    by (simp add: getStaleFileList_def getStringListValues_def kindHasStringList_def decoded_value_def)
qed

definition configured_removal :: "string list \<Rightarrow> string list \<Rightarrow> StaleFileRemovalCommand" where
  "configured_removal expected roots = (new_stale_file_removal ''S'')\<lparr>sf_expectedOutputs := expected, sf_roots := roots\<rparr>"

definition stale :: "string list \<Rightarrow> string list \<Rightarrow> string list" where
  "stale prior expected = filter (\<lambda>f. f \<notin> set expected) (sort (remdups prior))"

lemma execute_with_prior:
  assumes "makeStaleFileRemoval expected = Some r" "bv_kind w = StaleFileRemoval" "getStaleFileList w = Some prior"
  shows "\<exists>c1. stale_execute remove ((configured_removal expected roots)\<lparr>sf_hasPriorResult := True, sf_priorValue := w\<rparr>) =
     Some (c1, [CommandStarted] @ concat (map (delete_file remove roots) (stale prior expected)) @
               [CommandFinished StatusSucceeded, CommandResult r])"
  using assms
  by (simp add: stale_execute_def configured_removal_def new_stale_file_removal_def computeFilesToDelete_def stale_def Let_def)

text \<open>
  C23. With the list of an earlier build as its prior value, the command tries to remove exactly the
  files of that list that are not expected any more and that lie below one of the roots, if there are
  roots; each of them once, in order, and no file that is still expected.  It succeeds and leaves the
  files expected now as the list for the next build.
\<close>

theorem stale_removal_exact:
  assumes "no_nul expected" "length (pack expected) < 2 ^ 64" "no_nul prior" "length (pack prior) < 2 ^ 64"
  shows "\<exists>p r c c1 es. makeStaleFileRemoval prior = Some p \<and> makeStaleFileRemoval expected = Some r \<and>
     stale_providePriorValue p (configured_removal expected roots) = Some c \<and> stale_execute remove c = Some (c1, es) \<and>
     filter (\<lambda>e. \<exists>f. e = RemoveFile f) es = map RemoveFile (filter (removable roots) (stale prior expected)) \<and>
     (\<forall>f. RemoveFile f \<in> set es \<longleftrightarrow> f \<in> set prior \<and> f \<notin> set expected \<and> removable roots f) \<and>
     distinct (stale prior expected) \<and> last es = CommandResult r"
proof -
  obtain p d w where p: "makeStaleFileRemoval prior = Some p" "toData p = Some d" "fromData d = Some w"
    "bv_kind w = StaleFileRemoval" "getStaleFileList w = Some prior"
    using makeStaleFileRemoval_total [OF assms(3,4)] by metis
  obtain r where r: "makeStaleFileRemoval expected = Some r" using makeStaleFileRemoval_total [OF assms(1,2)] by metis
  let ?c = "(configured_removal expected roots)\<lparr>sf_hasPriorResult := True, sf_priorValue := w\<rparr>"
  let ?es = "[CommandStarted] @ concat (map (delete_file remove roots) (stale prior expected)) @
     [CommandFinished StatusSucceeded, CommandResult r]"
  obtain c1 where run: "stale_execute remove ?c = Some (c1, ?es)" using execute_with_prior [OF r p(4,5)] by blast
  have prior: "stale_providePriorValue p (configured_removal expected roots) = Some ?c"
    using p(2,3) by (simp add: stale_providePriorValue_def)
  have removed: "filter (\<lambda>e. \<exists>f. e = RemoveFile f) ?es = map RemoveFile (filter (removable roots) (stale prior expected))"
    by (simp add: removals)
  have "RemoveFile f \<in> set ?es \<longleftrightarrow> RemoveFile f \<in> set (filter (\<lambda>e. \<exists>f. e = RemoveFile f) ?es)" for f by auto
  then have exact: "RemoveFile f \<in> set ?es \<longleftrightarrow> f \<in> set prior \<and> f \<notin> set expected \<and> removable roots f" for f
    unfolding removed by (auto simp: stale_def)
  have "distinct (stale prior expected)" by (simp add: stale_def)
  moreover have "last ?es = CommandResult r" by simp
  ultimately show ?thesis using p(1) r prior run removed exact by blast
qed

theorem stale_removal_exact_witness:
  "\<exists>p c c1 es. makeStaleFileRemoval [''/o/b'', ''/o/a'', ''/x''] = Some p \<and>
     stale_providePriorValue p (configured_removal [''/o/b''] [''/o'']) = Some c \<and> stale_execute (\<lambda>f. Removed) c = Some (c1, es) \<and>
     RemoveFile ''/o/a'' \<in> set es \<and> RemoveFile ''/o/b'' \<notin> set es \<and> RemoveFile ''/x'' \<notin> set es"
proof -
  have "removable [''/o''] ''/o/a''" "\<not> removable [''/o''] ''/x''" by (auto simp: removable_def below_def)
  note removable = this
  have "no_nul [''/o/b'']" "length (pack [''/o/b'']) < 2 ^ 64" "no_nul [''/o/b'', ''/o/a'', ''/x'']"
    "length (pack [''/o/b'', ''/o/a'', ''/x'']) < 2 ^ 64" by simp_all
  from stale_removal_exact [OF this, of "[''/o'']" "\<lambda>f. Removed"] obtain p c c1 es where
    run: "makeStaleFileRemoval [''/o/b'', ''/o/a'', ''/x''] = Some p"
      "stale_providePriorValue p (configured_removal [''/o/b''] [''/o'']) = Some c" "stale_execute (\<lambda>f. Removed) c = Some (c1, es)"
    and exact: "\<forall>f. RemoveFile f \<in> set es \<longleftrightarrow> f \<in> set [''/o/b'', ''/o/a'', ''/x''] \<and> f \<notin> set [''/o/b''] \<and> removable [''/o''] f"
    by blast
  have "RemoveFile ''/o/a'' \<in> set es" "RemoveFile ''/o/b'' \<notin> set es" "RemoveFile ''/x'' \<notin> set es"
    unfolding exact [rule_format] using removable by simp_all
  with run show ?thesis by blast
qed

section \<open>A sequence of builds\<close>

text \<open>
  Each build is a run of the program of its own: the command is made anew from the description, which says
  what is expected and what the roots are, receives the value that was stored by the build before, and the
  new value is stored.  Files are paths that exist.  A build produces what it expects.  The system may
  refuse a removal; one that succeeds takes away the path and, if it is a directory, all that is inside.
\<close>

record StaleRun =
  run_expected :: "string list"
  run_roots :: "string list"
  run_refused :: "string \<Rightarrow> string option"

definition inside_dir :: "string \<Rightarrow> string \<Rightarrow> bool" where
  "inside_dir dir f \<longleftrightarrow> (\<exists>rest. f = dir @ ''/'' @ rest)"

lemma inside_dir_take: "inside_dir dir f \<longleftrightarrow> take (Suc (length dir)) f = dir @ ''/''"
proof
  assume "take (Suc (length dir)) f = dir @ ''/''"
  then have "f = (dir @ ''/'') @ drop (Suc (length dir)) f" by (metis append_take_drop_id)
  then show "inside_dir dir f" unfolding inside_dir_def by auto
qed (auto simp: inside_dir_def)

definition remove_outcome :: "StaleRun \<Rightarrow> string set \<Rightarrow> string \<Rightarrow> RemoveResult" where
  "remove_outcome run files f =
     (case run_refused run f of Some msg \<Rightarrow> CannotRemove msg | None \<Rightarrow> if f \<in> files then Removed else NotThere)"

definition taken_away :: "StaleRun \<Rightarrow> string \<Rightarrow> string set" where
  "taken_away run f = (if run_refused run f = None then {g. g = f \<or> inside_dir f g} else {})"

fun removed_files :: "BuildEffect list \<Rightarrow> string list" where
  "removed_files [] = []"
| "removed_files (RemoveFile f # es) = f # removed_files es"
| "removed_files (e # es) = removed_files es"

fun result_of :: "BuildEffect list \<Rightarrow> BuildValue option" where
  "result_of [] = None"
| "result_of (CommandResult v # es) = Some v"
| "result_of (e # es) = result_of es"

definition stale_build :: "StaleRun \<Rightarrow> ValueType option \<times> string set \<Rightarrow> (ValueType option \<times> string set) option" where
  "stale_build run = (\<lambda>(stored, files).
     do { let c0 = configured_removal (run_expected run) (run_roots run);
          c \<leftarrow> (case stored of
                 None \<Rightarrow> Some c0
               | Some d \<Rightarrow> do { v \<leftarrow> fromData d; stale_providePriorValue v c0 });
          (c1, es) \<leftarrow> stale_execute (remove_outcome run files) c;
          r \<leftarrow> result_of es;
          d1 \<leftarrow> toData r;
          Some (Some d1, (files \<union> set (run_expected run)) - \<Union> (taken_away run ` set (removed_files es))) })"

fun stale_builds :: "StaleRun list \<Rightarrow> ValueType option \<times> string set \<Rightarrow> (ValueType option \<times> string set) option" where
  "stale_builds [] s = Some s"
| "stale_builds (run # rest) s = do { s1 \<leftarrow> stale_build run s; stale_builds rest s1 }"

lemma removed_files_iff: "f \<in> set (removed_files es) \<longleftrightarrow> RemoveFile f \<in> set es"
  by (induction es rule: removed_files.induct) auto

lemma result_of_skip: "(\<And>v. CommandResult v \<notin> set es) \<Longrightarrow> result_of (es @ es1) = result_of es1"
  by (induction es rule: result_of.induct) auto

lemma delete_file_no_result: "CommandResult v \<notin> set (concat (map (delete_file remove roots) fs))"
  by (auto simp: delete_file_def split: RemoveResult.splits if_splits)

definition holds_list :: "ValueType \<Rightarrow> string list \<Rightarrow> bool" where
  "holds_list d prior \<longleftrightarrow> (\<exists>w. fromData d = Some w \<and> toData w = Some d \<and> bv_kind w = StaleFileRemoval \<and> getStaleFileList w = Some prior)"

lemma made_holds_list:
  assumes "no_nul expected" "length (pack expected) < 2 ^ 64"
  shows "\<exists>r d. makeStaleFileRemoval expected = Some r \<and> toData r = Some d \<and> holds_list d expected"
  using makeStaleFileRemoval_total [OF assms] unfolding holds_list_def by metis

lemma stale_build_first:
  assumes "no_nul (run_expected run)" "length (pack (run_expected run)) < 2 ^ 64"
  shows "\<exists>d. stale_build run (None, files) = Some (Some d, files \<union> set (run_expected run)) \<and> holds_list d (run_expected run)"
proof -
  obtain r d where r: "makeStaleFileRemoval (run_expected run) = Some r" "toData r = Some d" "holds_list d (run_expected run)"
    using made_holds_list [OF assms] by blast
  let ?c = "configured_removal (run_expected run) (run_roots run)"
  from r have "stale_execute remove ?c = Some (?c, [CommandStarted, CommandFinished StatusSucceeded, CommandResult r])" for remove
    by (simp add: stale_execute_def configured_removal_def new_stale_file_removal_def)
  with r show ?thesis by (simp add: stale_build_def)
qed

text \<open>The files that a build wants gone, and those it gets rid of.\<close>

definition dropped :: "StaleRun \<Rightarrow> string list \<Rightarrow> string set" where
  "dropped run prior = {f \<in> set prior. f \<notin> set (run_expected run) \<and> removable (run_roots run) f}"

lemma stale_build_next:
  assumes "no_nul (run_expected run)" "length (pack (run_expected run)) < 2 ^ 64" "holds_list d0 prior"
  shows "\<exists>d. stale_build run (Some d0, files) = Some (Some d, (files \<union> set (run_expected run)) - \<Union> (taken_away run ` dropped run prior)) \<and>
     holds_list d (run_expected run)"
proof -
  let ?expected = "run_expected run" and ?roots = "run_roots run" and ?remove = "remove_outcome run files"
  obtain r d where r: "makeStaleFileRemoval ?expected = Some r" "toData r = Some d" "holds_list d ?expected"
    using made_holds_list [OF assms(1,2)] by blast
  obtain w where w: "fromData d0 = Some w" "toData w = Some d0" "bv_kind w = StaleFileRemoval" "getStaleFileList w = Some prior"
    using assms(3) by (auto simp: holds_list_def)
  let ?deletions = "concat (map (delete_file ?remove ?roots) (stale prior ?expected))"
  obtain c1 where run: "stale_execute ?remove ((configured_removal ?expected ?roots)\<lparr>sf_hasPriorResult := True, sf_priorValue := w\<rparr>) =
      Some (c1, [CommandStarted] @ ?deletions @ [CommandFinished StatusSucceeded, CommandResult r])"
    using execute_with_prior [OF r(1) w(3,4)] by blast
  have "set (removed_files ([CommandStarted] @ ?deletions @ [CommandFinished StatusSucceeded, CommandResult r])) = dropped run prior"
    by (auto simp: removed_files_iff delete_file_removes dropped_def stale_def)
  moreover have "result_of ([CommandStarted] @ ?deletions @ [CommandFinished StatusSucceeded, CommandResult r]) = Some r"
    by (simp add: result_of_skip delete_file_no_result del: set_concat)
  ultimately show ?thesis using r w(1,2) run by (simp add: stale_build_def stale_providePriorValue_def)
qed

lemma stale_builds_snoc: "stale_builds (rs @ [run]) s = do { s1 \<leftarrow> stale_builds rs s; stale_build run s1 }"
  by (induction rs arbitrary: s) (auto split: bind_splits)

text \<open>
  What is left after a sequence of builds: the outputs that the last build expects, what was there and was
  never an output, and an output that the first build without it could not remove, because it lies outside
  of that build's roots or the system refuses.
\<close>

definition survives :: "StaleRun \<Rightarrow> string \<Rightarrow> bool" where
  "survives run f \<longleftrightarrow> \<not> removable (run_roots run) f \<or> run_refused run f \<noteq> None"

definition left_over :: "StaleRun list \<Rightarrow> string \<Rightarrow> bool" where
  "left_over rs f \<longleftrightarrow>
     (\<exists>earlier run dropping later. rs = earlier @ [run, dropping] @ later \<and> f \<in> set (run_expected run) \<and>
        (\<forall>r \<in> set (dropping # later). f \<notin> set (run_expected r)) \<and> survives dropping f)"

definition remains :: "StaleRun list \<Rightarrow> string set \<Rightarrow> string \<Rightarrow> bool" where
  "remains rs files f \<longleftrightarrow>
     f \<in> set (run_expected (last rs)) \<or>
     f \<in> files \<and> (\<forall>run \<in> set rs. f \<notin> set (run_expected run)) \<or>
     left_over rs f"

lemma left_over_single [simp]: "\<not> left_over [r] f"
  by (simp add: left_over_def Cons_eq_append_conv)

lemma left_over_dropped: "left_over rs f \<Longrightarrow> f \<notin> set (run_expected (last rs))"
  unfolding left_over_def by (auto split: if_splits)

lemma left_over_snoc:
  assumes "rs \<noteq> []"
  shows "left_over (rs @ [r]) f \<longleftrightarrow>
     f \<notin> set (run_expected r) \<and> (f \<in> set (run_expected (last rs)) \<and> survives r f \<or> left_over rs f)" (is "_ \<longleftrightarrow> ?new")
proof
  assume "left_over (rs @ [r]) f"
  then obtain earlier a b later where s: "rs @ [r] = earlier @ [a, b] @ later" "f \<in> set (run_expected a)"
    "\<forall>x \<in> set (b # later). f \<notin> set (run_expected x)" "survives b f"
    unfolding left_over_def by blast
  show ?new
  proof (cases later rule: rev_cases)
    case Nil
    then have "rs = earlier @ [a]" "b = r" using s(1) by simp_all
    then show ?thesis using s by simp
  next
    case (snoc l x)
    then have "rs = earlier @ [a, b] @ l" "x = r" using s(1) by simp_all
    then show ?thesis using s snoc unfolding left_over_def by auto
  qed
next
  assume n: ?new
  show "left_over (rs @ [r]) f"
  proof (cases "left_over rs f")
    case True
    then obtain earlier a b later where s: "rs = earlier @ [a, b] @ later" "f \<in> set (run_expected a)"
      "\<forall>x \<in> set (b # later). f \<notin> set (run_expected x)" "survives b f"
      unfolding left_over_def by blast
    then have "rs @ [r] = earlier @ [a, b] @ (later @ [r])" "\<forall>x \<in> set (b # later @ [r]). f \<notin> set (run_expected x)" using n by auto
    then show ?thesis using s(2,4) unfolding left_over_def by blast
  next
    case False
    have "rs @ [r] = butlast rs @ [last rs, r] @ []" using assms by simp
    then show ?thesis using n False unfolding left_over_def by (metis empty_iff empty_set set_ConsD)
  qed
qed

lemma remains_snoc:
  assumes "rs \<noteq> []"
  shows "remains (rs @ [r]) files f \<longleftrightarrow>
     f \<in> set (run_expected r) \<or> remains rs files f \<and> (f \<in> set (run_expected (last rs)) \<longrightarrow> survives r f)"
  using assms left_over_dropped [of rs f] last_in_set [OF assms] unfolding remains_def left_over_snoc [OF assms] by auto

text \<open>No output is a directory that holds another output or a file that was there before.\<close>

definition outputs_apart :: "StaleRun list \<Rightarrow> string set \<Rightarrow> bool" where
  "outputs_apart rs files \<longleftrightarrow>
     (\<forall>f \<in> \<Union> (set ` run_expected ` set rs). \<forall>g \<in> files \<union> \<Union> (set ` run_expected ` set rs). \<not> inside_dir f g)"

lemma remains_known: "rs \<noteq> [] \<Longrightarrow> remains rs files f \<Longrightarrow> f \<in> files \<union> \<Union> (set ` run_expected ` set rs)"
  unfolding remains_def left_over_def by fastforce

lemma stale_builds_remains:
  assumes "rs \<noteq> []" "\<forall>run \<in> set rs. no_nul (run_expected run) \<and> length (pack (run_expected run)) < 2 ^ 64" "outputs_apart rs files"
  shows "\<exists>d. stale_builds rs (None, files) = Some (Some d, {f. remains rs files f}) \<and> holds_list d (run_expected (last rs))"
  using assms
proof (induction rs rule: rev_nonempty_induct)
  case (single run)
  have "{f. remains [run] files f} = files \<union> set (run_expected run)" by (auto simp: remains_def)
  then show ?case using stale_build_first [of run files] single.prems by simp
next
  case (snoc run rs)
  have "outputs_apart rs files" using snoc.prems(2) unfolding outputs_apart_def set_append by blast
  then obtain d where d: "stale_builds rs (None, files) = Some (Some d, {f. remains rs files f})" "holds_list d (run_expected (last rs))"
    using snoc.IH snoc.prems by auto
  let ?prior = "run_expected (last rs)" and ?files = "{f. remains rs files f}"
  have apart: "\<not> inside_dir g f" if "f \<in> files \<union> \<Union> (set ` run_expected ` set (rs @ [run]))" "g \<in> set ?prior" for f g
    using that snoc.prems(2) last_in_set [OF snoc.hyps] unfolding outputs_apart_def set_append by blast
  have gone: "f \<in> \<Union> (taken_away run ` dropped run ?prior) \<longleftrightarrow> f \<in> set ?prior \<and> f \<notin> set (run_expected run) \<and> \<not> survives run f"
    if "f \<in> files \<union> \<Union> (set ` run_expected ` set (rs @ [run]))" for f
    using apart [OF that] unfolding taken_away_def dropped_def survives_def by (auto split: if_splits)
  have "(?files \<union> set (run_expected run)) - \<Union> (taken_away run ` dropped run ?prior) = {f. remains (rs @ [run]) files f}"
    (is "?a = ?b")
  proof (rule set_eqI)
    fix f show "f \<in> ?a \<longleftrightarrow> f \<in> ?b"
      using gone [of f] remains_known [OF snoc.hyps, of files f] remains_snoc [OF snoc.hyps, of run files f] by auto
  qed
  then show ?case using stale_build_next [of run d ?prior ?files] snoc.prems d by (simp add: stale_builds_snoc)
qed

text \<open>
  C24. Over any sequence of builds with any expected outputs, roots and refused removals, the files at the
  end are exactly these: the outputs that the last build expects; the files that were there before and
  never were outputs; and the outputs that were dropped and could not be removed by the first build that
  dropped them, because they lie outside of its roots or the system refused.  Such a file is never tried
  again, since that build stores only the list of what it expects itself.  Without roots and refusals no
  stale file remains.  Each build makes its command anew, runs it and produces what it expects, and no
  output is a directory with other files or outputs in it.
\<close>

theorem no_stale_file_remains:
  assumes "rs \<noteq> []" "\<forall>run \<in> set rs. no_nul (run_expected run) \<and> length (pack (run_expected run)) < 2 ^ 64" "outputs_apart rs files"
  shows "\<exists>d left. stale_builds rs (None, files) = Some (Some d, left) \<and> (\<forall>f. f \<in> left \<longleftrightarrow> remains rs files f) \<and>
     ((\<forall>run \<in> set rs. run_roots run = [] \<and> run_refused run = (\<lambda>f. None)) \<longrightarrow>
        left = (files - \<Union> (set ` run_expected ` set rs)) \<union> set (run_expected (last rs)))"
proof -
  obtain d where "stale_builds rs (None, files) = Some (Some d, {f. remains rs files f})" using stale_builds_remains [OF assms] by blast
  moreover have "{f. remains rs files f} = (files - \<Union> (set ` run_expected ` set rs)) \<union> set (run_expected (last rs))"
    if "\<forall>run \<in> set rs. run_roots run = [] \<and> run_refused run = (\<lambda>f. None)"
    using that by (auto simp: remains_def left_over_def survives_def removable_def)
  ultimately show ?thesis by blast
qed

definition sample_run :: "string list \<Rightarrow> string list \<Rightarrow> string list \<Rightarrow> StaleRun" where
  "sample_run expected roots refused =
     \<lparr>run_expected = expected, run_roots = roots, run_refused = (\<lambda>f. if f \<in> set refused then Some ''busy'' else None)\<rparr>"

lemma sample_run_simps [simp]:
  "run_expected (sample_run es rs ns) = es" "run_roots (sample_run es rs ns) = rs"
  "run_refused (sample_run es rs ns) f = (if f \<in> set ns then Some ''busy'' else None)"
  by (simp_all add: sample_run_def)

theorem no_stale_file_remains_witness:
  "\<exists>d left. stale_builds [sample_run [''/o/a'', ''/o/b'', ''/x''] [] [], sample_run [''/o/b''] [''/o''] [], sample_run [] [] [''/o/b'']]
     (None, {''/src''}) = Some (Some d, left) \<and> ''/src'' \<in> left \<and> ''/o/a'' \<notin> left \<and> ''/o/b'' \<in> left \<and> ''/x'' \<in> left"
proof -
  let ?a = "sample_run [''/o/a'', ''/o/b'', ''/x''] [] []" and ?b = "sample_run [''/o/b''] [''/o''] []"
    and ?c = "sample_run [] [] [''/o/b'']"
  let ?rs = "[?a, ?b, ?c]"
  have r: "removable [''/o''] ''/o/a''" "\<not> removable [''/o''] ''/x''" "removable [] f" for f by (auto simp: removable_def below_def)
  have first: "remains [?a] {''/src''} f \<longleftrightarrow> f \<in> {''/src'', ''/o/a'', ''/o/b'', ''/x''}" for f
    by (auto simp: remains_def)
  have left: "remains ?rs {''/src''} ''/src''" "\<not> remains ?rs {''/src''} ''/o/a''" "remains ?rs {''/src''} ''/o/b''" "remains ?rs {''/src''} ''/x''"
    using remains_snoc [of "[?a, ?b]" ?c "{''/src''}" "''/src''"] remains_snoc [of "[?a]" ?b "{''/src''}" "''/src''"]
      remains_snoc [of "[?a, ?b]" ?c "{''/src''}" "''/o/a''"] remains_snoc [of "[?a]" ?b "{''/src''}" "''/o/a''"]
      remains_snoc [of "[?a, ?b]" ?c "{''/src''}" "''/o/b''"] remains_snoc [of "[?a]" ?b "{''/src''}" "''/o/b''"]
      remains_snoc [of "[?a, ?b]" ?c "{''/src''}" "''/x''"] remains_snoc [of "[?a]" ?b "{''/src''}" "''/x''"]
    by (simp_all add: first r survives_def)
  have "\<Union> (set ` run_expected ` set ?rs) = {''/o/b'', ''/o/a'', ''/x''}" by (simp add: insert_commute)
  moreover have "\<forall>f \<in> {''/o/b'', ''/o/a'', ''/x''}. \<forall>g \<in> {''/src''} \<union> {''/o/b'', ''/o/a'', ''/x''}. \<not> inside_dir f g"
    by (simp add: inside_dir_take)
  ultimately have "outputs_apart ?rs {''/src''}" unfolding outputs_apart_def by (simp only:)
  note apart = this
  have "?rs \<noteq> []" "\<forall>run \<in> set ?rs. no_nul (run_expected run) \<and> length (pack (run_expected run)) < 2 ^ 64" by simp_all
  from no_stale_file_remains [OF this apart] obtain d final where
    run: "stale_builds ?rs (None, {''/src''}) = Some (Some d, final)" and final: "\<forall>f. f \<in> final \<longleftrightarrow> remains ?rs {''/src''} f"
    by (elim exE conjE)
  show ?thesis by (intro exI conjI, rule run) (use left in \<open>simp_all only: final [rule_format] not_False_eq_True\<close>)
qed

text \<open>
  When one and the same command object takes part in two builds, the list computed for the first is used
  for the second.  Here a file that the first build dropped is removed by the second build, although the
  list stored in between does not name it.
\<close>

lemma second_build_reuses_list:
  assumes "sf_hasPriorResult c" "bv_kind (sf_priorValue c) = StaleFileRemoval" "sf_computedFilesToDelete c" "no_nul (sf_expectedOutputs c)"
  shows "\<exists>es. stale_execute remove c = Some (c, es) \<and>
     (\<forall>f. RemoveFile f \<in> set es \<longleftrightarrow> f \<in> set (sf_filesToDelete c) \<and> removable (sf_roots c) f)"
proof -
  obtain r where "makeStaleFileRemoval (sf_expectedOutputs c) = Some r"
    using assms(4) by (auto simp: makeStaleFileRemoval_def value_strings_def StringList_values_pack kindHasStringList_def value_plain_def)
  with assms show ?thesis by (auto simp: stale_execute_def computeFilesToDelete_def delete_file_removes)
qed

text \<open>The verbose description of a command without a prior list fails an assertion.\<close>

lemma verbose_description_asserts: "stale_getVerboseDescription (configured_removal expected roots) = None"
  by (simp add: stale_getVerboseDescription_def computeFilesToDelete_def configured_removal_def new_stale_file_removal_def
      getStaleFileList_def makeInvalid_def value_plain_def)

end
