(* ===== verification/Tool_Commands.thy ===== *)
theory Tool_Commands
  imports Shell_Command
begin

text \<open>
  The commands of the built-in tools that are not shell commands: phony, mkdir, symlink, archive and
  shared library (\<^verbatim>\<open>lib/BuildSystem/BuildSystem.cpp\<close>).  Answers of the file system are
  arguments.
\<close>

section \<open>Phony commands\<close>

definition phony_executeExternalCommand :: ProcessStatus where
  "phony_executeExternalCommand = StatusSucceeded"

definition phony_getResultForOutput :: "ExternalCommand \<Rightarrow> BuildNode \<Rightarrow> BuildValue \<Rightarrow> BuildValue option" where
  "phony_getResultForOutput c node v =
     (if isVirtual node \<and> \<not> bn_commandTimestamp node then Some makeVirtualInput else external_getResultForOutput c node v)"

section \<open>Directories\<close>

definition first_output :: "ExternalCommand \<Rightarrow> BuildNode option" where
  "first_output c = (case ec_outputs c of [] \<Rightarrow> None | n # ns \<Rightarrow> Some n)"

definition mkdir_isResultValid :: "(string \<Rightarrow> FileInfo) \<Rightarrow> ExternalCommand \<Rightarrow> BuildValue \<Rightarrow> bool option" where
  "mkdir_isResultValid stat c v =
     (if \<not> isSuccessfulCommand v then Some False
      else do {
        node \<leftarrow> first_output c;
        info \<leftarrow> node_getFileInfo stat node;
        if isMissing info then Some False else if \<not> isDirectory info then Some False else Some True })"

definition mkdir_executeExternalCommand :: "(string \<Rightarrow> bool) \<Rightarrow> ExternalCommand \<Rightarrow> (ProcessStatus \<times> BuildEffect list) option" where
  "mkdir_executeExternalCommand created c =
     do { node \<leftarrow> first_output c;
          Some (if created (bn_name node) then (StatusSucceeded, [CreateDirectories (bn_name node)])
                else (StatusFailed, [CreateDirectories (bn_name node),
                        CommandHadError (''unable to create directory '' @ quoted (bn_name node))])) }"

section \<open>Symbolic links\<close>

record SymlinkCommand =
  sl_name :: string
  sl_linkOutputPath :: string
  sl_description :: string
  sl_inputs :: "BuildNode list"
  sl_outputs :: "BuildNode list"
  sl_linkContents :: string
  sl_repairViaOwnershipAnalysis :: bool

definition new_symlink_command :: "string \<Rightarrow> bool \<Rightarrow> SymlinkCommand" where
  "new_symlink_command name repair =
     \<lparr>sl_name = name, sl_linkOutputPath = [], sl_description = [], sl_inputs = [], sl_outputs = [], sl_linkContents = [],
      sl_repairViaOwnershipAnalysis = repair\<rparr>"

text \<open>Reading the first of no outputs is undefined.\<close>

definition getActualOutputPath :: "SymlinkCommand \<Rightarrow> string option" where
  "getActualOutputPath c =
     (if sl_linkOutputPath c = [] then (case sl_outputs c of [] \<Rightarrow> None | n # ns \<Rightarrow> Some (bn_name n)) else Some (sl_linkOutputPath c))"

definition symlink_getSignature :: "Hash \<Rightarrow> SymlinkCommand \<Rightarrow> CommandSignature option" where
  "symlink_getSignature H c =
     (case sl_outputs c of
        [] \<Rightarrow> None
      | n # ns \<Rightarrow> Some (combine_strings H (map bn_name (sl_inputs c)) (combine_string H (sl_linkContents c) (hs_string H (bn_name n)))))"

definition symlink_configureInputs :: "BuildNode list \<Rightarrow> SymlinkCommand \<Rightarrow> SymlinkCommand" where
  "symlink_configureInputs nodes c = c\<lparr>sl_inputs := sl_inputs c @ nodes\<rparr>"

definition symlink_configureOutputs :: "BuildNode list \<Rightarrow> SymlinkCommand \<Rightarrow> SymlinkCommand Configured" where
  "symlink_configureOutputs nodes c =
     (case nodes of
        [n] \<Rightarrow> Accepted (c\<lparr>sl_outputs := sl_outputs c @ [n]\<rparr>)
      | [] \<Rightarrow> Refused ''missing declared output'' c
      | n # n1 # ns \<Rightarrow> Refused (''unexpected explicit output: '' @ quoted (bn_name n1)) c)"

definition symlink_attribute :: "string \<Rightarrow> string \<Rightarrow> SymlinkCommand \<Rightarrow> SymlinkCommand Configured" where
  "symlink_attribute name val c =
     (if name = ''contents'' then Accepted (c\<lparr>sl_linkContents := val\<rparr>)
      else if name = ''link-output-path'' then Accepted (c\<lparr>sl_linkOutputPath := val\<rparr>)
      else if name = ''repair-via-ownership-analysis'' then
        (if val = ''true'' then Accepted (c\<lparr>sl_repairViaOwnershipAnalysis := True\<rparr>)
         else if val = ''false'' then Accepted (c\<lparr>sl_repairViaOwnershipAnalysis := False\<rparr>)
         else Refused (''invalid value for attribute: '' @ quoted name) c)
      else Refused (unexpected_attribute name) c)"

definition symlink_getResultForOutput :: "BuildValue \<Rightarrow> BuildValue option" where
  "symlink_getResultForOutput v =
     (if bv_kind v = FailedCommand \<or> bv_kind v = PropagatedFailureCommand \<or> bv_kind v = CancelledCommand then Some makeFailedInput
      else if bv_kind v = SkippedCommand then Some makeSkippedCommand
      else if \<not> isSuccessfulCommand v then None
      else do { info \<leftarrow> getOutputInfo v; if isMissing info then Some makeMissingOutput else makeExistingInput info })"

definition symlink_isResultValid :: "(string \<Rightarrow> FileInfo) \<Rightarrow> SymlinkCommand \<Rightarrow> BuildValue \<Rightarrow> bool option" where
  "symlink_isResultValid lstat c v =
     do { outputPath \<leftarrow> getActualOutputPath c;
          if sl_outputs c = [] \<or> outputPath = [] then Some False
          else if \<not> isSuccessfulCommand v then Some False
          else do {
            n \<leftarrow> getNumOutputs v;
            if n \<noteq> 1 then Some False
            else if isMissing (lstat outputPath) then Some False
            else do { old \<leftarrow> getOutputInfo v; Some (FileInfo_eq (lstat outputPath) old) } } }"

definition symlink_start :: "SymlinkCommand \<Rightarrow> BuildEffect list" where
  "symlink_start c = map (\<lambda>n. MustFollow (makeNode (bn_name n))) (sl_inputs c)"

text \<open>
  The link is created, after removing what is in its place if that fails at first; \<open>first\<close> and
  \<open>second\<close> are the outcomes of the two attempts, \<open>lstat\<close> is the state afterwards.
\<close>

definition symlink_execute ::
  "bool \<Rightarrow> bool \<Rightarrow> (string \<Rightarrow> FileInfo) \<Rightarrow> SymlinkCommand \<Rightarrow> BuildEffect list option" where
  "symlink_execute first second lstat c =
     do { outputPath \<leftarrow> getActualOutputPath c;
          if sl_outputs c = [] \<or> outputPath = [] then Some [CommandResult makeFailedCommand]
          else do {
            let parent = parent_path outputPath;
            let link = CreateSymlink (sl_linkContents c) outputPath;
            let success = (first \<or> second);
            r \<leftarrow> (if success then makeSuccessfulCommand [lstat outputPath] else Some makeFailedCommand);
            Some ((if parent \<noteq> [] then [CreateDirectories parent] else []) @ [CommandStarted, link] @
                  (if first then []
                   else [RemoveFile outputPath, link] @
                     (if second then [] else [CommandHadError (''unable to create symlink at '' @ quoted outputPath)])) @
                  [CommandFinished (if success then StatusSucceeded else StatusFailed), CommandResult r]) } }"

section \<open>Archives\<close>

record ArchiveShellCommand = ExternalCommand +
  ar_archiveName :: string
  ar_archiveInputs :: "string list"

definition new_archive_command :: "string \<Rightarrow> ArchiveShellCommand" where
  "new_archive_command name = ExternalCommand.extend (new_external_command name) \<lparr>ar_archiveName = [], ar_archiveInputs = []\<rparr>"

definition archive_configureInputs :: "BuildNode list \<Rightarrow> ArchiveShellCommand \<Rightarrow> ArchiveShellCommand Configured" where
  "archive_configureInputs nodes c =
     (let c1 = c\<lparr>ec_inputs := ec_inputs c @ nodes\<rparr>;
          c2 = c1\<lparr>ar_archiveInputs := ar_archiveInputs c1 @ map bn_name (filter (\<lambda>n. \<not> isVirtual n) (ec_inputs c1))\<rparr>
      in if ar_archiveInputs c2 = [] then Refused ''missing expected input'' c2 else Accepted c2)"

text \<open>The first output that is not virtual names the product; any other is an error.\<close>

fun name_product :: "string \<Rightarrow> BuildNode list \<Rightarrow> string \<times> string list" where
  "name_product current [] = (current, [])"
| "name_product current (n # ns) =
     (if isVirtual n then name_product current ns
      else if current = [] then name_product (bn_name n) ns
      else (let (result, errors) = name_product current ns in (result, (''unexpected explicit output: '' @ bn_name n) # errors)))"

definition archive_configureOutputs :: "BuildNode list \<Rightarrow> ArchiveShellCommand \<Rightarrow> ArchiveShellCommand \<times> string list" where
  "archive_configureOutputs nodes c =
     (let c1 = c\<lparr>ec_outputs := ec_outputs c @ nodes\<rparr>;
          (name, errors) = name_product (ar_archiveName c1) (ec_outputs c1)
      in (c1\<lparr>ar_archiveName := name\<rparr>, errors @ (if name = [] then [''missing expected output''] else [])))"

definition archive_getArgs :: "string option \<Rightarrow> ArchiveShellCommand \<Rightarrow> string list" where
  "archive_getArgs AR c = (case AR of Some ar \<Rightarrow> ar | None \<Rightarrow> ''ar'') # ''cr'' # ar_archiveName c # ar_archiveInputs c"

text \<open>The present archive is removed first; if that fails, so does the command.\<close>

definition archive_executeExternalCommand :: "string option \<Rightarrow> bool \<Rightarrow> ArchiveShellCommand \<Rightarrow> ProcessStatus option \<times> BuildEffect list" where
  "archive_executeExternalCommand AR removed c =
     (if \<not> removed then (Some StatusFailed, [RemoveFile (ar_archiveName c)])
      else (None, [RemoveFile (ar_archiveName c), RunProcess (archive_getArgs AR c) [] interruptible_attributes]))"

section \<open>Shared libraries\<close>

record SharedLibraryShellCommand = ExternalCommand +
  so_executable :: string
  so_sharedLibName :: string
  so_compilerStyle :: string
  so_sharedLibInputs :: "string list"
  so_otherArgs :: "string list"

definition new_shared_library_command :: "string \<Rightarrow> SharedLibraryShellCommand" where
  "new_shared_library_command name =
     ExternalCommand.extend (new_external_command name)
       \<lparr>so_executable = [], so_sharedLibName = [], so_compilerStyle = [], so_sharedLibInputs = [], so_otherArgs = []\<rparr>"

definition shared_configureInputs :: "BuildNode list \<Rightarrow> SharedLibraryShellCommand \<Rightarrow> SharedLibraryShellCommand Configured" where
  "shared_configureInputs nodes c =
     (let c1 = c\<lparr>ec_inputs := ec_inputs c @ nodes\<rparr>;
          c2 = c1\<lparr>so_sharedLibInputs := so_sharedLibInputs c1 @ map bn_name (filter (\<lambda>n. \<not> isVirtual n) (ec_inputs c1))\<rparr>
      in if so_sharedLibInputs c2 = [] then Refused ''SharedLibraryTool requires inputs to be specified'' c2 else Accepted c2)"

definition shared_configureOutputs :: "BuildNode list \<Rightarrow> SharedLibraryShellCommand \<Rightarrow> SharedLibraryShellCommand \<times> string list" where
  "shared_configureOutputs nodes c =
     (let c1 = c\<lparr>ec_outputs := ec_outputs c @ nodes\<rparr>;
          (name, errors) = name_product (so_sharedLibName c1) (ec_outputs c1)
      in (c1\<lparr>so_sharedLibName := name\<rparr>,
          errors @ (if name = [] then [''SharedLibraryTool requires the resulting shared library name to be specified''] else [])))"

text \<open>Splitting at blanks, without empty parts.\<close>

fun split_blanks :: "string \<Rightarrow> string \<Rightarrow> string list" where
  "split_blanks [] acc = (if acc = [] then [] else [acc])"
| "split_blanks (ch # s) acc =
     (if ch = CHR '' '' then (if acc = [] then split_blanks s [] else acc # split_blanks s []) else split_blanks s (acc @ [ch]))"

text \<open>An attribute of an unknown name is accepted; an unsupported style is reported and accepted.\<close>

definition shared_attribute :: "string \<Rightarrow> string \<Rightarrow> SharedLibraryShellCommand \<Rightarrow> SharedLibraryShellCommand \<times> string list" where
  "shared_attribute name val c =
     (if name = ''executable'' then (c\<lparr>so_executable := val\<rparr>, [])
      else if name = ''other-args'' then (c\<lparr>so_otherArgs := split_blanks val []\<rparr>, [])
      else if name = ''compiler-style'' then
        (c\<lparr>so_compilerStyle := val\<rparr>,
         if val \<noteq> ''cl'' \<and> val \<noteq> ''clang'' \<and> val \<noteq> ''swiftc''
         then [''Unsupported : compiler-style'' @ [CHR 0x27] @ val @ [CHR 0x27] @ '' for shared libraries'' @ [CHR 0x27] @
               ''.  Supported styles are cl, clang, and swiftc'']
         else [])
      else (c, []))"

definition shared_attribute_list :: "string \<Rightarrow> string list \<Rightarrow> SharedLibraryShellCommand \<Rightarrow> SharedLibraryShellCommand Configured" where
  "shared_attribute_list name vals c =
     (if name = ''other-args'' then Accepted (c\<lparr>so_otherArgs := vals\<rparr>) else Refused (unexpected_attribute name) c)"

definition shared_getArgs :: "SharedLibraryShellCommand \<Rightarrow> string list" where
  "shared_getArgs c =
     (if so_compilerStyle c = ''swiftc'' then
        [so_executable c, ''-emit-library''] @ so_sharedLibInputs c @ [''-o'', so_sharedLibName c] @ so_otherArgs c
      else if so_compilerStyle c = ''clang'' then
        [so_executable c] @ so_sharedLibInputs c @ [''-o'', so_sharedLibName c] @ so_otherArgs c @ [''-shared'']
      else if so_compilerStyle c = ''cl'' then
        [so_executable c] @ so_sharedLibInputs c @ [''/o'', so_sharedLibName c, ''/LD'', ''/MD'', ''/link'', ''MSVCRT.lib'']
      else [])"

definition shared_executeExternalCommand :: "SharedLibraryShellCommand \<Rightarrow> BuildEffect list" where
  "shared_executeExternalCommand c = [RunProcess (shared_getArgs c) [] interruptible_attributes]"

section \<open>Tools\<close>

datatype ToolKind =
    ShellTool | PhonyTool | ClangTool | MkdirTool | SymlinkTool | ArchiveTool | SharedLibraryTool | StaleFileRemovalTool
  | SwiftCompilerTool

definition lookupTool :: "string \<Rightarrow> ToolKind option" where
  "lookupTool name =
     (if name = ''shell'' then Some ShellTool
      else if name = ''phony'' then Some PhonyTool
      else if name = ''clang'' then Some ClangTool
      else if name = ''mkdir'' then Some MkdirTool
      else if name = ''symlink'' then Some SymlinkTool
      else if name = ''archive'' then Some ArchiveTool
      else if name = ''shared-library'' then Some SharedLibraryTool
      else if name = ''stale-file-removal'' then Some StaleFileRemovalTool
      else if name = ''swift-compiler'' then Some SwiftCompilerTool
      else None)"

text \<open>The attributes of the tools themselves.\<close>

record ToolState =
  tool_kind :: ToolKind
  tool_controlEnabled :: bool
  tool_repairViaOwnershipAnalysis :: bool

definition new_tool :: "ToolKind \<Rightarrow> ToolState" where
  "new_tool kind = \<lparr>tool_kind = kind, tool_controlEnabled = True, tool_repairViaOwnershipAnalysis = False\<rparr>"

definition tool_attribute :: "string \<Rightarrow> string \<Rightarrow> ToolState \<Rightarrow> ToolState Configured" where
  "tool_attribute name val t =
     (case tool_kind t of
        ShellTool \<Rightarrow>
          if name = ''control-enabled'' then set_bool name val t (t\<lparr>tool_controlEnabled := True\<rparr>) (t\<lparr>tool_controlEnabled := False\<rparr>)
          else Refused (unexpected_attribute name) t
      | SymlinkTool \<Rightarrow>
          if name = ''repair-via-ownership-analysis'' then
            (if val = ''true'' then Accepted (t\<lparr>tool_repairViaOwnershipAnalysis := True\<rparr>)
             else if val = ''false'' then Accepted (t\<lparr>tool_repairViaOwnershipAnalysis := False\<rparr>)
             else Refused (''invalid value for attribute: '' @ quoted name) t)
          else Refused (unexpected_attribute name) t
      | _ \<Rightarrow> Refused (unexpected_attribute name) t)"

end
