(* ===== verification/JSON_Escape.thy ===== *)
theory JSON_Escape
  imports Builra_Prelude
begin

text \<open>
  Escaping of strings for JSON (\<^verbatim>\<open>include/builra/Basic/JSON.h\<close>).  The reference is a reader of
  JSON strings, for the escapes that stand for one byte.
\<close>

definition hex_digit :: "nat \<Rightarrow> char" where
  "hex_digit n = (if n < 10 then char_of (48 + n) else char_of (87 + n))"

definition escape_json_char :: "char \<Rightarrow> string" where
  "escape_json_char c =
     (if c = CHR 0x5C then [CHR 0x5C, CHR 0x5C]
      else if c = CHR 0x22 then [CHR 0x5C, CHR 0x22]
      else if c = CHR 0x08 then [CHR 0x5C, CHR ''b'']
      else if c = CHR 0x0A then [CHR 0x5C, CHR ''n'']
      else if c = CHR 0x0C then [CHR 0x5C, CHR ''f'']
      else if c = CHR 0x0D then [CHR 0x5C, CHR ''r'']
      else if c = CHR 0x09 then [CHR 0x5C, CHR ''t'']
      else if of_char c < (0x20 :: nat) then [CHR 0x5C, CHR ''u'', CHR ''0'', CHR ''0'', hex_digit (of_char c div 16), hex_digit (of_char c mod 16)]
      else [c])"

definition escapeForJSON :: "string \<Rightarrow> string" where
  "escapeForJSON s = concat (map escape_json_char s)"

section \<open>Reading a string back\<close>

definition hex_value :: "char \<Rightarrow> nat option" where
  "hex_value c =
     (let n = (of_char c :: nat) in
      if 48 \<le> n \<and> n < 58 then Some (n - 48) else if 97 \<le> n \<and> n < 103 then Some (n - 87) else None)"

fun read_hex :: "nat \<Rightarrow> nat \<Rightarrow> string \<Rightarrow> (nat \<times> string) option" where
  "read_hex 0 acc s = Some (acc, s)"
| "read_hex (Suc k) acc [] = None"
| "read_hex (Suc k) acc (c # s) = (case hex_value c of None \<Rightarrow> None | Some d \<Rightarrow> read_hex k (16 * acc + d) s)"

lemma read_hex_length: "read_hex k acc s = Some (n, rest) \<Longrightarrow> length rest \<le> length s"
  by (induction k acc s rule: read_hex.induct) (auto split: option.splits)

text \<open>Up to the closing quote; the rest behind it is returned.\<close>

function read_json :: "string \<Rightarrow> string \<Rightarrow> (string \<times> string) option" where
  "read_json [] acc = None"
| "read_json (c # s) acc =
     (if c = CHR 0x22 then Some (acc, s)
      else if of_char c < (0x20 :: nat) then None
      else if c \<noteq> CHR 0x5C then read_json s (acc @ [c])
      else case s of
        [] \<Rightarrow> None
      | e # s1 \<Rightarrow>
          if e = CHR 0x5C \<or> e = CHR 0x22 \<or> e = CHR ''/'' then read_json s1 (acc @ [e])
          else if e = CHR ''b'' then read_json s1 (acc @ [CHR 0x08])
          else if e = CHR ''n'' then read_json s1 (acc @ [CHR 0x0A])
          else if e = CHR ''f'' then read_json s1 (acc @ [CHR 0x0C])
          else if e = CHR ''r'' then read_json s1 (acc @ [CHR 0x0D])
          else if e = CHR ''t'' then read_json s1 (acc @ [CHR 0x09])
          else if e = CHR ''u'' then
            (case read_hex 4 0 s1 of
               None \<Rightarrow> None
             | Some (n, s2) \<Rightarrow> if n < 128 then read_json s2 (acc @ [char_of n]) else None)
          else None)"
  by pat_completeness auto
termination
  by (relation "measure (\<lambda>(s, acc). length s)") (auto dest: read_hex_length simp: eval_nat_numeral split: option.splits)

lemma hex_value_digit: "n < 16 \<Longrightarrow> hex_value (hex_digit n) = Some n"
  by (auto simp: hex_value_def hex_digit_def Let_def)

lemma read_hex_escaped:
  assumes "n < 256"
  shows "read_hex 4 0 (CHR ''0'' # CHR ''0'' # hex_digit (n div 16) # hex_digit (n mod 16) # rest) = Some (n, rest)"
proof -
  have "hex_value (hex_digit (n div 16)) = Some (n div 16)" "hex_value (hex_digit (n mod 16)) = Some (n mod 16)"
    using assms by (simp_all add: hex_value_digit)
  moreover have "hex_value (CHR ''0'') = Some 0" by (simp add: hex_value_def)
  moreover have four: "(4 :: nat) = Suc (Suc (Suc (Suc 0)))" by simp
  ultimately show ?thesis unfolding four by simp
qed

lemma read_json_char: "read_json (escape_json_char c @ rest) acc = read_json rest (acc @ [c])"
proof (cases "c = CHR 0x5C \<or> c = CHR 0x22 \<or> c = CHR 0x08 \<or> c = CHR 0x0A \<or> c = CHR 0x0C \<or> c = CHR 0x0D \<or> c = CHR 0x09")
  case True
  then show ?thesis by (elim disjE) (simp_all add: escape_json_char_def)
next
  case False
  show ?thesis
  proof (cases "of_char c < (0x20 :: nat)")
    case True
    then show ?thesis
      using False read_hex_escaped [of "of_char c" rest] by (simp add: escape_json_char_def)
  qed (use False in \<open>simp add: escape_json_char_def\<close>)
qed

text \<open>
  A string that is escaped for JSON and put into quotes is read back by a reader of JSON strings as
  the same string, with whatever follows left over.
\<close>

theorem escapeForJSON_roundtrip: "read_json (escapeForJSON s @ CHR 0x22 # rest) [] = Some (s, rest)"
proof -
  have "read_json (escapeForJSON s @ CHR 0x22 # rest) acc = Some (acc @ s, rest)" for acc
    by (induction s arbitrary: acc) (simp_all add: escapeForJSON_def read_json_char)
  from this [of "[]"] show ?thesis by simp
qed

end
