(* ===== verification/Swift_Command.thy ===== *)
theory Swift_Command
  imports Tool_Commands JSON_Escape String_Integers
begin

text \<open>
  The commands of the Swift compiler tool (\<^verbatim>\<open>SwiftGetVersionCommand\<close> and
  \<^verbatim>\<open>SwiftCompilerShellCommand\<close> in \<^verbatim>\<open>lib/BuildSystem/BuildSystem.cpp\<close>).
\<close>

section \<open>The version of the compiler\<close>

definition getVersion_commandLine :: "string \<Rightarrow> string" where
  "getVersion_commandLine executable = shellEscaped executable @ '' --version 2>/dev/null''"

text \<open>The text the process prints, empty if it cannot be started, enters the result as a signature.\<close>

definition getVersion_execute :: "Hash \<Rightarrow> string \<Rightarrow> BuildEffect list option" where
  "getVersion_execute H printed =
     do { v \<leftarrow> makeSuccessfulCommandWithOutputSignature [zero_info] (hs_string H printed); Some [CommandResult v] }"

definition getVersion_isResultValid :: "BuildValue \<Rightarrow> bool" where
  "getVersion_isResultValid v = False"

section \<open>The compiler\<close>

record SwiftCompilerShellCommand = ExternalCommand +
  sw_executable :: string
  sw_moduleName :: string
  sw_moduleAliases :: "string list"
  sw_moduleOutputPath :: string
  sw_sourcesList :: "string list"
  sw_objectsList :: "string list"
  sw_importPaths :: "string list"
  sw_tempsPath :: string
  sw_otherArgs :: "string list"
  sw_isLibrary :: bool
  sw_enableWholeModuleOptimization :: bool
  sw_numThreads :: string

definition new_swift_command :: "string \<Rightarrow> SwiftCompilerShellCommand" where
  "new_swift_command name =
     ExternalCommand.extend (new_external_command name)
       \<lparr>sw_executable = ''swiftc'', sw_moduleName = [], sw_moduleAliases = [], sw_moduleOutputPath = [], sw_sourcesList = [],
        sw_objectsList = [], sw_importPaths = [], sw_tempsPath = [], sw_otherArgs = [], sw_isLibrary = False,
        sw_enableWholeModuleOptimization = False, sw_numThreads = ''0''\<rparr>"

definition swift_getSignature :: "Hash \<Rightarrow> SwiftCompilerShellCommand \<Rightarrow> CommandSignature" where
  "swift_getSignature H c =
     combine_bool H (sw_isLibrary c)
       (combine_strings H
         ([sw_executable c, sw_moduleName c] @ sw_moduleAliases c @ [sw_moduleOutputPath c] @ sw_sourcesList c @ sw_objectsList c @
          sw_importPaths c @ [sw_tempsPath c] @ sw_otherArgs c)
         (external_getSignature H (ExternalCommand.truncate c)))"

definition getOutputFileMapPath :: "SwiftCompilerShellCommand \<Rightarrow> string" where
  "getOutputFileMapPath c = append_component (append_component [] (sw_tempsPath c)) ''output-file-map.json''"

definition constructCommandLineArgs :: "string \<Rightarrow> SwiftCompilerShellCommand \<Rightarrow> string list" where
  "constructCommandLineArgs outputFileMapPath c =
     [sw_executable c, ''-module-name'', sw_moduleName c] @
     concat (map (\<lambda>a. [''-module-alias'', a]) (sw_moduleAliases c)) @
     [''-emit-dependencies''] @
     (if sw_moduleOutputPath c \<noteq> [] then [''-emit-module'', ''-emit-module-path'', sw_moduleOutputPath c] else []) @
     [''-output-file-map'', outputFileMapPath] @
     (if sw_isLibrary c then [''-parse-as-library''] else []) @
     (if sw_enableWholeModuleOptimization c then [''-whole-module-optimization'', ''-num-threads'', sw_numThreads c]
      else [''-incremental'']) @
     [''-c''] @ sw_sourcesList c @ concat (map (\<lambda>i. [''-I'', i]) (sw_importPaths c)) @ sw_otherArgs c"

section \<open>Attributes\<close>

text \<open>An integer of 32 bits: the number must survive the conversion.\<close>

definition getAsInt :: "nat \<Rightarrow> string \<Rightarrow> 32 word option" where
  "getAsInt radix s = do { v \<leftarrow> getAsInteger radix s; if scast (ucast v :: 32 word) = v then Some (ucast v) else None }"

definition swift_attribute :: "string \<Rightarrow> string \<Rightarrow> SwiftCompilerShellCommand \<Rightarrow> SwiftCompilerShellCommand Configured" where
  "swift_attribute name val c =
     (if name = ''executable'' then Accepted (c\<lparr>sw_executable := val\<rparr>)
      else if name = ''module-name'' then Accepted (c\<lparr>sw_moduleName := val\<rparr>)
      else if name = ''module-output-path'' then Accepted (c\<lparr>sw_moduleOutputPath := val\<rparr>)
      else if name = ''sources'' then Accepted (c\<lparr>sw_sourcesList := split_blanks val []\<rparr>)
      else if name = ''objects'' then Accepted (c\<lparr>sw_objectsList := split_blanks val []\<rparr>)
      else if name = ''import-paths'' then Accepted (c\<lparr>sw_importPaths := split_blanks val []\<rparr>)
      else if name = ''temps-path'' then Accepted (c\<lparr>sw_tempsPath := val\<rparr>)
      else if name = ''is-library'' then set_bool name val c (c\<lparr>sw_isLibrary := True\<rparr>) (c\<lparr>sw_isLibrary := False\<rparr>)
      else if name = ''enable-whole-module-optimization'' then
        set_bool name val c (c\<lparr>sw_enableWholeModuleOptimization := True\<rparr>) (c\<lparr>sw_enableWholeModuleOptimization := False\<rparr>)
      else if name = ''num-threads'' then
        (case getAsInt 10 val of
           None \<Rightarrow> Refused (quoted name @ '' should be an int.'') c
         | Some n \<Rightarrow> if n <s 0 then Refused (quoted name @ '' should be greater than or equal to zero.'') c
                    else Accepted (c\<lparr>sw_numThreads := val\<rparr>))
      else if name = ''other-args'' then Accepted (c\<lparr>sw_otherArgs := split_blanks val []\<rparr>)
      else case external_attribute name val (ExternalCommand.truncate c) of
        Accepted e \<Rightarrow>
          Accepted (ExternalCommand.extend e (SwiftCompilerShellCommand.fields (sw_executable c) (sw_moduleName c) (sw_moduleAliases c)
            (sw_moduleOutputPath c) (sw_sourcesList c) (sw_objectsList c) (sw_importPaths c) (sw_tempsPath c) (sw_otherArgs c)
            (sw_isLibrary c) (sw_enableWholeModuleOptimization c) (sw_numThreads c)))
      | Refused msg e \<Rightarrow> Refused msg c)"

definition swift_attribute_list :: "string \<Rightarrow> string list \<Rightarrow> SwiftCompilerShellCommand \<Rightarrow> SwiftCompilerShellCommand Configured" where
  "swift_attribute_list name vals c =
     (if name = ''sources'' then Accepted (c\<lparr>sw_sourcesList := vals\<rparr>)
      else if name = ''objects'' then Accepted (c\<lparr>sw_objectsList := vals\<rparr>)
      else if name = ''import-paths'' then Accepted (c\<lparr>sw_importPaths := vals\<rparr>)
      else if name = ''other-args'' then Accepted (c\<lparr>sw_otherArgs := vals\<rparr>)
      else if name = ''module-aliases'' then Accepted (c\<lparr>sw_moduleAliases := vals\<rparr>)
      else Refused (unexpected_attribute name) c)"

section \<open>The output file map\<close>

definition NL :: string where "NL = [CHR 0x0A]"

definition json_string :: "string \<Rightarrow> string" where
  "json_string s = [CHR 0x22] @ escapeForJSON s @ [CHR 0x22]"

definition json_entry :: "string \<Rightarrow> string \<Rightarrow> string" where
  "json_entry key val = ''    '' @ [CHR 0x22] @ key @ [CHR 0x22] @ '': '' @ json_string val"

text \<open>One source file; the second component is the dependency file it adds.\<close>

definition source_entry :: "bool \<Rightarrow> bool \<Rightarrow> string \<Rightarrow> string \<Rightarrow> string \<times> string list" where
  "source_entry wholeModule isLast source object =
     (let objectDir = append_component [] (parent_path object);
          sourceStem = stem source;
          depsPath = append_component objectDir (sourceStem @ ''.d'')
      in (''  '' @ json_string source @ '': {'' @ NL @
          (if wholeModule then [] else json_entry ''dependencies'' depsPath @ '','' @ NL) @
          json_entry ''object'' object @ '','' @ NL @
          json_entry ''swiftmodule'' (append_component objectDir (sourceStem @ ''~partial.codemodule'')) @ '','' @ NL @
          json_entry ''swift-dependencies'' (append_component objectDir (sourceStem @ ''.codedeps'')) @ NL @
          ''  }'' @ (if isLast then [] else '','') @ NL,
          if wholeModule then [] else [depsPath]))"

fun source_entries :: "bool \<Rightarrow> (string \<times> string) list \<Rightarrow> string \<times> string list" where
  "source_entries wholeModule [] = ([], [])"
| "source_entries wholeModule ((source, object) # rest) =
     (let (out, deps) = source_entry wholeModule (rest = []) source object; (out1, deps1) = source_entries wholeModule rest
      in (out @ out1, deps @ deps1))"

text \<open>\<^verbatim>\<open>writeOutputFileMap\<close>: the text of the file and the dependency files it announces.\<close>

definition outputFileMap :: "SwiftCompilerShellCommand \<Rightarrow> (string \<times> string list) option" where
  "outputFileMap c =
     (if length (sw_sourcesList c) \<noteq> length (sw_objectsList c) then None
      else
        (let temps = append_component [] (sw_tempsPath c);
             depsPath = append_component temps (sw_moduleName c @ ''.d'');
             object = append_component temps (sw_moduleName c @ ''.o'');
             (entries, deps) = source_entries (sw_enableWholeModuleOptimization c) (zip (sw_sourcesList c) (sw_objectsList c))
         in Some (''{'' @ NL @ ''  '' @ json_string [] @ '': {'' @ NL @
               (if sw_enableWholeModuleOptimization c
                then json_entry ''dependencies'' depsPath @ '','' @ NL @ json_entry ''object'' object @ '','' @ NL else []) @
               json_entry ''swift-dependencies'' (append_component temps ''master.codedeps'') @ NL @ ''  },'' @ NL @
               entries @ ''}'' @ NL,
             (if sw_enableWholeModuleOptimization c then [depsPath] else []) @ deps)))"

section \<open>Running\<close>

text \<open>
  Only the dependencies of the first rule of a file count.  The errors and the dependencies are
  reported to the delegate for a command whose pointer was never set; that part of the calls is left
  open.
\<close>

fun swift_actions :: "string \<Rightarrow> nat \<Rightarrow> parse_event list \<Rightarrow> BuildEffect list" where
  "swift_actions depsPath n [] = []"
| "swift_actions depsPath n (ParseError message position # es) =
     CommandHadError (reading_error depsPath message) # swift_actions depsPath n es"
| "swift_actions depsPath n (RuleDependency word unescaped # es) =
     (if n = 0 then found_input unescaped else []) @ swift_actions depsPath n es"
| "swift_actions depsPath n (RuleStart name unescaped # es) = swift_actions depsPath n es"
| "swift_actions depsPath n (RuleEnd # es) = swift_actions depsPath (Suc n) es"

definition swift_processDiscoveredDependencies :: "(string \<Rightarrow> string option) \<Rightarrow> string \<Rightarrow> (bool \<times> BuildEffect list) option" where
  "swift_processDiscoveredDependencies read depsPath =
     (case read depsPath of
        None \<Rightarrow> Some (False, [CommandHadError (''unable to open dependencies file ('' @ depsPath @ '')'')])
      | Some input \<Rightarrow>
          do { events \<leftarrow> parse_makefile False input;
               Some (\<not> list_ex is_parse_error events, swift_actions depsPath 0 events) })"

fun swift_load_dependencies :: "(string \<Rightarrow> string option) \<Rightarrow> string list \<Rightarrow> (bool \<times> BuildEffect list) option" where
  "swift_load_dependencies read [] = Some (True, [])"
| "swift_load_dependencies read (p # ps) =
     do { (ok, es) \<leftarrow> swift_processDiscoveredDependencies read p;
          if \<not> ok then Some (False, es)
          else do { (ok1, es1) \<leftarrow> swift_load_dependencies read ps; Some (ok1, es @ es1) } }"

definition swift_configuration_error :: "SwiftCompilerShellCommand \<Rightarrow> string option" where
  "swift_configuration_error c =
     (if sw_sourcesList c = [] then Some (''no configured '' @ quoted ''sources'')
      else if sw_objectsList c = [] then Some (''no configured '' @ quoted ''objects'')
      else if sw_moduleName c = [] then Some (''no configured '' @ quoted ''module-name'')
      else if sw_tempsPath c = [] then Some (''no configured '' @ quoted ''temps-path'')
      else if length (sw_sourcesList c) \<noteq> length (sw_objectsList c) then
        Some (quoted ''sources'' @ '' and '' @ quoted ''objects'' @ '' are not the same size'')
      else None)"

text \<open>
  \<open>opened\<close> tells whether the output file map can be written, \<open>status\<close> is how the process ends and
  \<open>read\<close> reads the dependency files it leaves.
\<close>

definition swift_executeExternalCommand ::
  "bool \<Rightarrow> ProcessStatus \<Rightarrow> (string \<Rightarrow> string option) \<Rightarrow> SwiftCompilerShellCommand \<Rightarrow> (ProcessStatus \<times> BuildEffect list) option" where
  "swift_executeExternalCommand opened status read c =
     (case swift_configuration_error c of
        Some msg \<Rightarrow> Some (StatusFailed, [SystemError msg])
      | None \<Rightarrow>
          (let path = getOutputFileMapPath c in
           if \<not> opened
           then Some (StatusFailed, [CreateDirectories (sw_tempsPath c),
                   CommandHadError (''unable to create output file map: '' @ quoted path)])
           else do {
             (text, depsFiles) \<leftarrow> outputFileMap c;
             let es = [CreateDirectories (sw_tempsPath c), WriteFile path text,
                       RunProcess (constructCommandLineArgs path c) [] interruptible_attributes];
             if status \<noteq> StatusSucceeded then Some (status, es)
             else do {
               (ok, es1) \<leftarrow> swift_load_dependencies read depsFiles;
               Some (if ok then status else StatusFailed, es @ [SpawnJob] @ es1) } }))"

text \<open>The version of the compiler is one more input, of an identity that no other input has.\<close>

definition swift_version_input :: nat where "swift_version_input = 2 ^ 64 - 257"

definition swift_start :: "endian \<Rightarrow> SwiftCompilerShellCommand \<Rightarrow> (ExternalCommand \<times> BuildEffect list) option" where
  "swift_start en c =
     (let (c1, es) = external_start (ExternalCommand.truncate c) in
      do { key \<leftarrow> makeCustomTask en ''swift-get-version'' (sw_executable c);
           Some (c1, es @ [RequestInput key swift_version_input]) })"

definition swift_provideValue :: "nat \<Rightarrow> KeyType \<Rightarrow> BuildValue \<Rightarrow> SwiftCompilerShellCommand \<Rightarrow> ExternalCommand option" where
  "swift_provideValue inputID key v c =
     (if inputID = swift_version_input then Some (ExternalCommand.truncate c)
      else external_provideValue inputID key v (ExternalCommand.truncate c))"

section \<open>Properties\<close>

text \<open>
  The signature of the compiler's command does not cover whole module optimization and the number of
  threads, although both change the command line.
\<close>

lemma swift_signature_misses:
  "swift_getSignature H (c\<lparr>sw_enableWholeModuleOptimization := b, sw_numThreads := n\<rparr>) = swift_getSignature H c"
  by (simp add: swift_getSignature_def ExternalCommand.truncate_def)

lemma swift_command_line_depends:
  "constructCommandLineArgs p (c\<lparr>sw_enableWholeModuleOptimization := True\<rparr>) \<noteq>
   constructCommandLineArgs p (c\<lparr>sw_enableWholeModuleOptimization := False\<rparr>)"
  by (simp add: constructCommandLineArgs_def)

text \<open>A command that is configured completely never fails the assertion on its lists.\<close>

lemma swift_execute_total:
  assumes "swift_configuration_error c = None" "status \<noteq> StatusSucceeded"
  shows "\<exists>es. swift_executeExternalCommand True status read c = Some (status, es)"
  using assms
  by (auto simp: swift_executeExternalCommand_def swift_configuration_error_def outputFileMap_def Let_def split: if_splits prod.splits)

end
