(* ===== verification/Build_Rules.thy ===== *)
theory Build_Rules
  imports Directory_Tasks Stale_Files Swift_Command
begin

text \<open>
  How the build system answers the engine (\<^verbatim>\<open>BuildSystemEngineDelegate\<close>,
  \<^verbatim>\<open>CommandTask\<close>, \<^verbatim>\<open>BuildSystemRule\<close> and the entry points of
  \<^verbatim>\<open>BuildSystemImpl\<close> in \<^verbatim>\<open>lib/BuildSystem/BuildSystem.cpp\<close>): which rule belongs to a
  key, what the task of the rule starts with, and when a stored value is valid.
\<close>

section \<open>Commands\<close>

text \<open>The built-in classes of commands; a call of a virtual function is a case distinction.\<close>

datatype BuildCommand =
    PhonyCommand ExternalCommand
  | MkdirCommand ExternalCommand
  | ShellCommandC ShellCommand
  | ClangCommand ClangShellCommand
  | ArchiveCommand ArchiveShellCommand
  | SharedLibraryCommand SharedLibraryShellCommand
  | SwiftCompilerCommand SwiftCompilerShellCommand
  | SwiftGetVersionCommand string
  | SymlinkCommandC SymlinkCommand
  | StaleFileRemovalCommandC StaleFileRemovalCommand

fun external_part :: "BuildCommand \<Rightarrow> ExternalCommand option" where
  "external_part (PhonyCommand c) = Some c"
| "external_part (MkdirCommand c) = Some c"
| "external_part (ShellCommandC c) = Some (ExternalCommand.truncate c)"
| "external_part (ClangCommand c) = Some (ExternalCommand.truncate c)"
| "external_part (ArchiveCommand c) = Some (ExternalCommand.truncate c)"
| "external_part (SharedLibraryCommand c) = Some (ExternalCommand.truncate c)"
| "external_part (SwiftCompilerCommand c) = Some (ExternalCommand.truncate c)"
| "external_part (SwiftGetVersionCommand e) = None"
| "external_part (SymlinkCommandC c) = None"
| "external_part (StaleFileRemovalCommandC c) = None"

text \<open>The signature of a command that does not override it is made of its name.\<close>

definition base_getSignature :: "Hash \<Rightarrow> string \<Rightarrow> CommandSignature" where
  "base_getSignature H name = combine_string H name 0"

definition command_getSignature :: "Hash \<Rightarrow> BuildCommand \<Rightarrow> CommandSignature option" where
  "command_getSignature H c =
     (case c of
        ShellCommandC s \<Rightarrow> Some (fst (shell_getSignature H s))
      | ClangCommand s \<Rightarrow> Some (clang_getSignature H s)
      | SwiftCompilerCommand s \<Rightarrow> Some (swift_getSignature H s)
      | SymlinkCommandC s \<Rightarrow> symlink_getSignature H s
      | StaleFileRemovalCommandC s \<Rightarrow> Some (base_getSignature H (sf_name s))
      | SwiftGetVersionCommand e \<Rightarrow> Some (base_getSignature H ''swift-get-version'')
      | _ \<Rightarrow> map_option (external_getSignature H) (external_part c))"

definition command_getResultForOutput :: "BuildCommand \<Rightarrow> BuildNode \<Rightarrow> BuildValue \<Rightarrow> BuildValue option" where
  "command_getResultForOutput c node v =
     (case c of
        PhonyCommand e \<Rightarrow> phony_getResultForOutput e node v
      | SymlinkCommandC s \<Rightarrow> symlink_getResultForOutput v
      | StaleFileRemovalCommandC s \<Rightarrow> stale_getResultForOutput v
      | SwiftGetVersionCommand e \<Rightarrow> None
      | _ \<Rightarrow> (case external_part c of None \<Rightarrow> None | Some e \<Rightarrow> external_getResultForOutput e node v))"

text \<open>The file system, as seen by \<^verbatim>\<open>stat\<close>, \<^verbatim>\<open>lstat\<close> and a listing.\<close>

record World =
  w_stat :: "string \<Rightarrow> FileInfo"
  w_lstat :: "string \<Rightarrow> FileInfo"
  w_entries :: "string \<Rightarrow> DirectoryEntry list"

definition command_isResultValid :: "World \<Rightarrow> BuildCommand \<Rightarrow> BuildValue \<Rightarrow> bool option" where
  "command_isResultValid w c v =
     (case c of
        MkdirCommand e \<Rightarrow> mkdir_isResultValid (w_stat w) e v
      | SymlinkCommandC s \<Rightarrow> symlink_isResultValid (w_lstat w) s v
      | StaleFileRemovalCommandC s \<Rightarrow> Some (stale_isResultValid v)
      | SwiftGetVersionCommand e \<Rightarrow> Some (getVersion_isResultValid v)
      | _ \<Rightarrow> (case external_part c of None \<Rightarrow> None | Some e \<Rightarrow> external_isResultValid (w_stat w) e v))"

definition command_start :: "endian \<Rightarrow> BuildCommand \<Rightarrow> BuildEffect list option" where
  "command_start en c =
     (case c of
        SwiftCompilerCommand s \<Rightarrow> map_option snd (swift_start en s)
      | SymlinkCommandC s \<Rightarrow> Some (symlink_start s)
      | StaleFileRemovalCommandC s \<Rightarrow> Some []
      | SwiftGetVersionCommand e \<Rightarrow> Some []
      | _ \<Rightarrow> map_option (\<lambda>e. snd (external_start e)) (external_part c))"

section \<open>The task of a command\<close>

definition commandTask_start :: "endian \<Rightarrow> BuildCommand \<Rightarrow> BuildEffect list option" where
  "commandTask_start en c = do { es \<leftarrow> command_start en c; Some (CommandPreparing # es) }"

text \<open>
  The job: a cancelled build and a delegate that declines keep the command from being executed;
  \<open>execute\<close> stands for the execution, which may complete later.
\<close>

definition commandTask_inputsAvailable :: "bool \<Rightarrow> bool \<Rightarrow> BuildEffect list option \<Rightarrow> BuildEffect list option" where
  "commandTask_inputsAvailable cancelled shouldStart execute =
     (if cancelled then complete makeCancelledCommand
      else if \<not> shouldStart then do { es \<leftarrow> complete makeSkippedCommand; Some (CommandFinished StatusSkipped # es) }
      else execute)"

definition commandTask_result :: "BuildValue \<Rightarrow> BuildEffect list option" where
  "commandTask_result v =
     do { es \<leftarrow> complete v; Some ((if bv_kind v = FailedCommand then [HadCommandFailure] else []) @ es) }"

section \<open>Looking up rules\<close>

record BuildDescription =
  bd_nodes :: "string \<rightharpoonup> BuildNode"
  bd_commands :: "string \<rightharpoonup> BuildCommand"
  bd_targets :: "string \<rightharpoonup> string list"
  bd_tools :: "ToolState list"
  bd_defaultTarget :: string

text \<open>An entry of the same name is replaced; the tools are listed in the order of their map.\<close>

definition addNode :: "BuildNode \<Rightarrow> BuildDescription \<Rightarrow> BuildDescription" where
  "addNode node bd = bd\<lparr>bd_nodes := (bd_nodes bd)(bn_name node \<mapsto> node)\<rparr>"

definition addTarget :: "string \<Rightarrow> string list \<Rightarrow> BuildDescription \<Rightarrow> BuildDescription" where
  "addTarget name nodes bd = bd\<lparr>bd_targets := (bd_targets bd)(name \<mapsto> nodes)\<rparr>"

definition addCommand :: "string \<Rightarrow> BuildCommand \<Rightarrow> BuildDescription \<Rightarrow> BuildDescription" where
  "addCommand name c bd = bd\<lparr>bd_commands := (bd_commands bd)(name \<mapsto> c)\<rparr>"

record EngineDelegate =
  ed_dynamicNodes :: "string \<rightharpoonup> BuildNode"
  ed_dynamicStatNodes :: "string set"
  ed_customTasks :: "BuildCommand list"

definition new_engine_delegate :: EngineDelegate where
  "new_engine_delegate = \<lparr>ed_dynamicNodes = Map.empty, ed_dynamicStatNodes = {}, ed_customTasks = []\<rparr>"

definition lookupNode :: "BuildDescription \<Rightarrow> string \<Rightarrow> EngineDelegate \<Rightarrow> BuildNode \<times> EngineDelegate" where
  "lookupNode bd name ed =
     (case bd_nodes bd name of
        Some node \<Rightarrow> (node, ed)
      | None \<Rightarrow>
          (case ed_dynamicNodes ed name of
             Some node \<Rightarrow> (node, ed)
           | None \<Rightarrow> (let node = createNode name in (node, ed\<lparr>ed_dynamicNodes := (ed_dynamicNodes ed)(name \<mapsto> node)\<rparr>))))"

datatype RuleAction =
    MissingCommandAction
  | CommandAction BuildCommand
  | DirectoryContentsAction string
  | FilteredDirectoryContentsAction string string
  | DirectoryTreeSignatureAction string string
  | DirectoryTreeStructureSignatureAction string string
  | VirtualInputAction BuildNode
  | DirectoryInputAction BuildNode
  | DirectoryStructureInputAction BuildNode
  | FileInputAction BuildNode
  | ProducedDirectoryAction BuildNode
  | ProducedAction BuildNode
  | StatAction string
  | TargetAction string "string list"

record BuildSystemRule =
  br_key :: KeyType
  br_signature :: CommandSignature
  br_action :: RuleAction

definition plain_rule :: "KeyType \<Rightarrow> RuleAction \<Rightarrow> BuildSystemRule" where
  "plain_rule key action = \<lparr>br_key = key, br_signature = 0, br_action = action\<rparr>"

definition createCustomCommand :: "endian \<Rightarrow> KeyType \<Rightarrow> ToolState \<Rightarrow> BuildCommand option option" where
  "createCustomCommand en key tool =
     (if tool_kind tool = SwiftCompilerTool
      then do { name \<leftarrow> getCustomTaskName en key;
                if name = ''swift-get-version'' then map_option (\<lambda>d. Some (SwiftGetVersionCommand d)) (getCustomTaskData en key)
                else Some None }
      else Some None)"

fun find_custom_command :: "endian \<Rightarrow> KeyType \<Rightarrow> ToolState list \<Rightarrow> BuildCommand option option" where
  "find_custom_command en key [] = Some None"
| "find_custom_command en key (tool # tools) =
     do { r \<leftarrow> createCustomCommand en key tool;
          case r of Some c \<Rightarrow> Some (Some c) | None \<Rightarrow> find_custom_command en key tools }"

definition node_action :: "BuildNode \<Rightarrow> RuleAction" where
  "node_action node =
     (if bn_producers node = [] then
        (if isVirtual node then VirtualInputAction node
         else if isDirectoryNode node then DirectoryInputAction node
         else if isDirectoryStructure node then DirectoryStructureInputAction node
         else FileInputAction node)
      else if isDirectoryNode node then ProducedDirectoryAction node
      else ProducedAction node)"

text \<open>\<open>None\<close> is the end of the program: an invalid key, an unknown target, or a failed assertion.\<close>

definition lookupRule ::
  "endian \<Rightarrow> Hash \<Rightarrow> BuildDescription \<Rightarrow> KeyType \<Rightarrow> EngineDelegate \<Rightarrow> (BuildSystemRule \<times> EngineDelegate) option" where
  "lookupRule en H bd keyData ed =
     do { key \<leftarrow> key_fromData keyData;
     (case getKeyKind key of
        KUnknown \<Rightarrow> None
      | KCommand \<Rightarrow>
          do { name \<leftarrow> getCommandName key;
               case bd_commands bd name of
                 None \<Rightarrow> Some (plain_rule keyData MissingCommandAction, ed)
               | Some c \<Rightarrow> do { sig \<leftarrow> command_getSignature H c; Some (\<lparr>br_key = keyData, br_signature = sig, br_action = CommandAction c\<rparr>, ed) } }
      | KCustomTask \<Rightarrow>
          do { r \<leftarrow> find_custom_command en key (bd_tools bd);
               case r of
                 None \<Rightarrow> Some (plain_rule keyData MissingCommandAction, ed)
               | Some c \<Rightarrow>
                   do { sig \<leftarrow> command_getSignature H c;
                        Some (\<lparr>br_key = keyData, br_signature = sig, br_action = CommandAction c\<rparr>,
                              ed\<lparr>ed_customTasks := ed_customTasks ed @ [c]\<rparr>) } }
      | KDirectoryContents \<Rightarrow>
          do { path \<leftarrow> getDirectoryPath key; Some (plain_rule keyData (DirectoryContentsAction path), ed) }
      | KFilteredDirectoryContents \<Rightarrow>
          do { path \<leftarrow> getFilteredDirectoryPath en key; patterns \<leftarrow> getContentExclusionPatterns en key;
               Some (plain_rule keyData (FilteredDirectoryContentsAction path patterns), ed) }
      | KDirectoryTreeSignature \<Rightarrow>
          do { path \<leftarrow> getDirectoryTreeSignaturePath en key; filters \<leftarrow> getContentExclusionPatterns en key;
               Some (plain_rule keyData (DirectoryTreeSignatureAction path filters), ed) }
      | KDirectoryTreeStructureSignature \<Rightarrow>
          do { path \<leftarrow> getFilteredDirectoryPath en key; filters \<leftarrow> getContentExclusionPatterns en key;
               Some (plain_rule keyData (DirectoryTreeStructureSignatureAction path filters), ed) }
      | KNode \<Rightarrow>
          do { name \<leftarrow> getNodeName key;
               let (node, ed1) = lookupNode bd name ed;
               Some (\<lparr>br_key = keyData, br_signature = node_getSignature H node, br_action = node_action node\<rparr>, ed1) }
      | KStat \<Rightarrow>
          do { name \<leftarrow> getStatName key;
               Some (plain_rule keyData (StatAction name), ed\<lparr>ed_dynamicStatNodes := insert name (ed_dynamicStatNodes ed)\<rparr>) }
      | KTarget \<Rightarrow>
          do { name \<leftarrow> getTargetName key;
               nodes \<leftarrow> bd_targets bd name;
               Some (plain_rule keyData (TargetAction name nodes), ed) }) }"

section \<open>What the rules do\<close>

definition decode_filters :: "string \<Rightarrow> StringList option" where
  "decode_filters s = map_option fst (StringList_decode (new_decoder (bytes_of_string s)))"

text \<open>The task is created and started; the result are the effects of the start.\<close>

definition rule_start :: "endian \<Rightarrow> (BuildNode \<Rightarrow> string option) \<Rightarrow> RuleAction \<Rightarrow> BuildEffect list option" where
  "rule_start en chosen action =
     (case action of
        MissingCommandAction \<Rightarrow> Some []
      | CommandAction c \<Rightarrow> commandTask_start en c
      | DirectoryContentsAction path \<Rightarrow> Some (contents_start (new_directory_contents path))
      | FilteredDirectoryContentsAction path patterns \<Rightarrow>
          do { l \<leftarrow> decode_filters patterns; Some (filtered_start (new_filtered_contents path l)) }
      | DirectoryTreeSignatureAction path filters \<Rightarrow> do { l \<leftarrow> decode_filters filters; tree_start en (new_tree_task path l) }
      | DirectoryTreeStructureSignatureAction path filters \<Rightarrow> do { l \<leftarrow> decode_filters filters; tree_start en (new_tree_task path l) }
      | VirtualInputAction node \<Rightarrow> Some []
      | DirectoryInputAction node \<Rightarrow> do { t \<leftarrow> new_directory_input node; map_option snd (directoryInput_start en t) }
      | DirectoryStructureInputAction node \<Rightarrow> if isVirtual node then None else directoryStructure_start en node
      | FileInputAction node \<Rightarrow> if isVirtual node then None else fileInput_start node
      | ProducedDirectoryAction node \<Rightarrow> Some (snd (producedDirectory_start chosen (new_produced_directory node)))
      | ProducedAction node \<Rightarrow> Some (snd (produced_start chosen (new_produced_node node)))
      | StatAction name \<Rightarrow> Some (stat_start name)
      | TargetAction name nodes \<Rightarrow> Some (target_start (new_target_task name nodes)))"

text \<open>A rule without a test of its own takes every stored value to be valid.\<close>

definition rule_isResultValid :: "World \<Rightarrow> RuleAction \<Rightarrow> ValueType \<Rightarrow> bool option" where
  "rule_isResultValid w action valueData =
     (case action of
        MissingCommandAction \<Rightarrow> Some False
      | FilteredDirectoryContentsAction path patterns \<Rightarrow> Some True
      | DirectoryTreeSignatureAction path filters \<Rightarrow> Some True
      | DirectoryTreeStructureSignatureAction path filters \<Rightarrow> Some True
      | DirectoryInputAction node \<Rightarrow> Some True
      | DirectoryStructureInputAction node \<Rightarrow> Some True
      | CommandAction c \<Rightarrow> do { v \<leftarrow> fromData valueData; command_isResultValid w c v }
      | DirectoryContentsAction path \<Rightarrow> do { v \<leftarrow> fromData valueData; contents_isResultValid (w_stat w) (w_entries w) path v }
      | VirtualInputAction node \<Rightarrow> do { v \<leftarrow> fromData valueData; Some (virtual_isResultValid v) }
      | FileInputAction node \<Rightarrow> do { v \<leftarrow> fromData valueData; fileInput_isResultValid (w_stat w) node v }
      | ProducedDirectoryAction node \<Rightarrow> do { v \<leftarrow> fromData valueData; Some (producedDirectory_isResultValid v) }
      | ProducedAction node \<Rightarrow> do { v \<leftarrow> fromData valueData; Some (produced_isResultValid v) }
      | StatAction name \<Rightarrow> do { v \<leftarrow> fromData valueData; Some (stat_isResultValid v) }
      | TargetAction name nodes \<Rightarrow> do { v \<leftarrow> fromData valueData; Some (target_isResultValid v) })"

section \<open>Entry points\<close>

definition internalSchemaVersion :: "32 word" where "internalSchemaVersion = 9"

definition getMergedSchemaVersion :: "32 word \<Rightarrow> 32 word option" where
  "getMergedSchemaVersion clientVersion =
     (if clientVersion \<le> push_bit 16 1 then Some (internalSchemaVersion + push_bit 16 clientVersion) else None)"

text \<open>
  \<^verbatim>\<open>resolveShellCommandHandler\<close>: the handlers that were found are kept, also that none was found;
  \<open>provide\<close> is what an extension offers for the path of a tool.
\<close>

definition resolveShellCommandHandler ::
  "(string \<Rightarrow> 'h option) \<Rightarrow> string list \<Rightarrow> (string \<rightharpoonup> 'h option) \<Rightarrow> 'h option \<times> (string \<rightharpoonup> 'h option)" where
  "resolveShellCommandHandler provide args cache =
     (case args of
        [] \<Rightarrow> (None, cache)
      | toolPath # rest \<Rightarrow>
          (case cache toolPath of
             Some h \<Rightarrow> (h, cache)
           | None \<Rightarrow> (provide toolPath, cache(toolPath \<mapsto> provide toolPath))))"

text \<open>
  \<^verbatim>\<open>build\<close>: the engine delivers the bytes of a value, and whether a cycle has aborted the build.
  The inner \<open>None\<close> is an empty optional.
\<close>

definition build_key :: "bool \<Rightarrow> (KeyType \<Rightarrow> ValueType \<times> bool) \<Rightarrow> KeyType \<Rightarrow> (BuildValue option \<times> string list) option" where
  "build_key limit_raised engine key =
     (if \<not> limit_raised then Some (None, [''failed to raise open file limit''])
      else (let (result, aborted) = engine key in
            if aborted then Some (None, []) else do { v \<leftarrow> fromData result; Some (Some v, []) }))"

definition build_target ::
  "bool \<Rightarrow> (KeyType \<Rightarrow> ValueType \<times> bool) \<Rightarrow> BuildDescription option \<Rightarrow> string \<Rightarrow> (bool \<times> string list) option" where
  "build_target limit_raised engine description target =
     (case description of
        None \<Rightarrow> Some (False, [''no build description loaded''])
      | Some bd \<Rightarrow>
          (let name = (if target = [] then bd_defaultTarget bd else target) in
           if bd_targets bd name = None then Some (False, [''No target named '' @ quoted name @ '' in build description''])
           else map_option (\<lambda>(v, errors). (v \<noteq> None, errors)) (build_key limit_raised engine (makeTargetKey name))))"

end
