(* ===== verification/Build_File.thy ===== *)
theory Build_File
  imports Build_Rules Task_Limits
begin

text \<open>
  Loading a build file (\<^verbatim>\<open>lib/BuildSystem/BuildFile.cpp\<close> with the file delegate of
  \<^verbatim>\<open>lib/BuildSystem/BuildSystem.cpp\<close>).  The tree that the YAML parser delivers is an argument.

  The commands refer to nodes by pointers.  A node is found by its name; the copies that a command keeps
  while it is configured are replaced at the end by the nodes as they are then.  Messages carry no
  position.  The client brings no tools of its own.  \<open>None\<close> is a failed assertion.
\<close>

section \<open>Configuration of commands\<close>

text \<open>The value of an attribute.\<close>

datatype AttributeValue = ScalarValue string | ListValue "string list" | MapValue "(string \<times> string) list"

fun outcome :: "'a Configured \<Rightarrow> 'a \<times> string list \<times> bool" where
  "outcome (Accepted x) = (x, [], True)"
| "outcome (Refused msg x) = (x, [msg], False)"

definition with_command :: "('a \<Rightarrow> BuildCommand) \<Rightarrow> 'a \<times> string list \<times> bool \<Rightarrow> BuildCommand \<times> string list \<times> bool" where
  "with_command f r = (f (fst r), snd r)"

definition archive_attribute :: "string \<Rightarrow> string \<Rightarrow> ArchiveShellCommand \<Rightarrow> ArchiveShellCommand Configured" where
  "archive_attribute name val c =
     (case external_attribute name val (ExternalCommand.truncate c) of
        Accepted e \<Rightarrow> Accepted (ExternalCommand.extend e (ArchiveShellCommand.fields (ar_archiveName c) (ar_archiveInputs c)))
      | Refused msg e \<Rightarrow> Refused msg c)"

definition command_configureAttribute ::
  "(string \<Rightarrow> string) \<Rightarrow> string \<Rightarrow> AttributeValue \<Rightarrow> BuildCommand \<Rightarrow> BuildCommand \<times> string list \<times> bool" where
  "command_configureAttribute absolute name val c =
     (let refused = (c, [unexpected_attribute name], False) in
      case c of
        PhonyCommand e \<Rightarrow> (case val of ScalarValue s \<Rightarrow> with_command PhonyCommand (outcome (external_attribute name s e)) | _ \<Rightarrow> refused)
      | MkdirCommand e \<Rightarrow> (case val of ScalarValue s \<Rightarrow> with_command MkdirCommand (outcome (external_attribute name s e)) | _ \<Rightarrow> refused)
      | ShellCommandC x \<Rightarrow>
          with_command ShellCommandC (outcome (case val of
             ScalarValue s \<Rightarrow> shell_attribute absolute name s x
           | ListValue l \<Rightarrow> shell_attribute_list name l x
           | MapValue m \<Rightarrow> shell_attribute_map name m x))
      | ClangCommand x \<Rightarrow>
          (case val of
             ScalarValue s \<Rightarrow> with_command ClangCommand (outcome (clang_attribute name s x))
           | ListValue l \<Rightarrow> with_command ClangCommand (outcome (clang_attribute_list name l x))
           | MapValue m \<Rightarrow> refused)
      | ArchiveCommand x \<Rightarrow> (case val of ScalarValue s \<Rightarrow> with_command ArchiveCommand (outcome (archive_attribute name s x)) | _ \<Rightarrow> refused)
      | SharedLibraryCommand x \<Rightarrow>
          (case val of
             ScalarValue s \<Rightarrow> (let (y, msgs) = shared_attribute name s x in (SharedLibraryCommand y, msgs, True))
           | ListValue l \<Rightarrow> with_command SharedLibraryCommand (outcome (shared_attribute_list name l x))
           | MapValue m \<Rightarrow> refused)
      | SwiftCompilerCommand x \<Rightarrow>
          (case val of
             ScalarValue s \<Rightarrow> with_command SwiftCompilerCommand (outcome (swift_attribute name s x))
           | ListValue l \<Rightarrow> with_command SwiftCompilerCommand (outcome (swift_attribute_list name l x))
           | MapValue m \<Rightarrow> refused)
      | SymlinkCommandC x \<Rightarrow> (case val of ScalarValue s \<Rightarrow> with_command SymlinkCommandC (outcome (symlink_attribute name s x)) | _ \<Rightarrow> refused)
      | StaleFileRemovalCommandC x \<Rightarrow>
          (case val of ListValue l \<Rightarrow> with_command StaleFileRemovalCommandC (outcome (stale_attribute_list name l x)) | _ \<Rightarrow> refused)
      | SwiftGetVersionCommand e \<Rightarrow> refused)"

text \<open>Inputs, outputs and the description: what is wrong with them is reported, but does not fail.\<close>

fun command_configureDescription :: "string \<Rightarrow> BuildCommand \<Rightarrow> BuildCommand" where
  "command_configureDescription d (PhonyCommand c) = PhonyCommand (c\<lparr>ec_description := d\<rparr>)"
| "command_configureDescription d (MkdirCommand c) = MkdirCommand (c\<lparr>ec_description := d\<rparr>)"
| "command_configureDescription d (ShellCommandC c) = ShellCommandC (c\<lparr>ec_description := d\<rparr>)"
| "command_configureDescription d (ClangCommand c) = ClangCommand (c\<lparr>ec_description := d\<rparr>)"
| "command_configureDescription d (ArchiveCommand c) = ArchiveCommand (c\<lparr>ec_description := d\<rparr>)"
| "command_configureDescription d (SharedLibraryCommand c) = SharedLibraryCommand (c\<lparr>ec_description := d\<rparr>)"
| "command_configureDescription d (SwiftCompilerCommand c) = SwiftCompilerCommand (c\<lparr>ec_description := d\<rparr>)"
| "command_configureDescription d (SwiftGetVersionCommand e) = SwiftGetVersionCommand e"
| "command_configureDescription d (SymlinkCommandC c) = SymlinkCommandC (c\<lparr>sl_description := d\<rparr>)"
| "command_configureDescription d (StaleFileRemovalCommandC c) = StaleFileRemovalCommandC (c\<lparr>sf_description := d\<rparr>)"

definition reported :: "('a \<Rightarrow> BuildCommand) \<Rightarrow> 'a Configured \<Rightarrow> BuildCommand \<times> string list" where
  "reported f r = (case r of Accepted x \<Rightarrow> (f x, []) | Refused msg x \<Rightarrow> (f x, [msg]))"

fun command_configureInputs :: "BuildNode list \<Rightarrow> BuildCommand \<Rightarrow> BuildCommand \<times> string list" where
  "command_configureInputs ns (PhonyCommand c) = (PhonyCommand (c\<lparr>ec_inputs := ec_inputs c @ ns\<rparr>), [])"
| "command_configureInputs ns (MkdirCommand c) = (MkdirCommand (c\<lparr>ec_inputs := ec_inputs c @ ns\<rparr>), [])"
| "command_configureInputs ns (ShellCommandC c) = (ShellCommandC (c\<lparr>ec_inputs := ec_inputs c @ ns\<rparr>), [])"
| "command_configureInputs ns (ClangCommand c) = (ClangCommand (c\<lparr>ec_inputs := ec_inputs c @ ns\<rparr>), [])"
| "command_configureInputs ns (ArchiveCommand c) = reported ArchiveCommand (archive_configureInputs ns c)"
| "command_configureInputs ns (SharedLibraryCommand c) = reported SharedLibraryCommand (shared_configureInputs ns c)"
| "command_configureInputs ns (SwiftCompilerCommand c) = (SwiftCompilerCommand (c\<lparr>ec_inputs := ec_inputs c @ ns\<rparr>), [])"
| "command_configureInputs ns (SwiftGetVersionCommand e) = (SwiftGetVersionCommand e, [])"
| "command_configureInputs ns (SymlinkCommandC c) = (SymlinkCommandC (symlink_configureInputs ns c), [])"
| "command_configureInputs ns (StaleFileRemovalCommandC c) = (StaleFileRemovalCommandC c, [])"

fun command_configureOutputs :: "BuildNode list \<Rightarrow> BuildCommand \<Rightarrow> BuildCommand \<times> string list" where
  "command_configureOutputs ns (PhonyCommand c) = (PhonyCommand (c\<lparr>ec_outputs := ec_outputs c @ ns\<rparr>), [])"
| "command_configureOutputs ns (MkdirCommand c) = (MkdirCommand (c\<lparr>ec_outputs := ec_outputs c @ ns\<rparr>), [])"
| "command_configureOutputs ns (ShellCommandC c) = (ShellCommandC (c\<lparr>ec_outputs := ec_outputs c @ ns\<rparr>), [])"
| "command_configureOutputs ns (ClangCommand c) = (ClangCommand (c\<lparr>ec_outputs := ec_outputs c @ ns\<rparr>), [])"
| "command_configureOutputs ns (ArchiveCommand c) = (let (d, msgs) = archive_configureOutputs ns c in (ArchiveCommand d, msgs))"
| "command_configureOutputs ns (SharedLibraryCommand c) = (let (d, msgs) = shared_configureOutputs ns c in (SharedLibraryCommand d, msgs))"
| "command_configureOutputs ns (SwiftCompilerCommand c) = (SwiftCompilerCommand (c\<lparr>ec_outputs := ec_outputs c @ ns\<rparr>), [])"
| "command_configureOutputs ns (SwiftGetVersionCommand e) = (SwiftGetVersionCommand e, [])"
| "command_configureOutputs ns (SymlinkCommandC c) = reported SymlinkCommandC (symlink_configureOutputs ns c)"
| "command_configureOutputs ns (StaleFileRemovalCommandC c) = (StaleFileRemovalCommandC c, [])"

fun command_getInputs :: "BuildCommand \<Rightarrow> BuildNode list" where
  "command_getInputs (SymlinkCommandC c) = sl_inputs c"
| "command_getInputs c = (case external_part c of Some e \<Rightarrow> ec_inputs e | None \<Rightarrow> [])"

fun command_getOutputs :: "BuildCommand \<Rightarrow> BuildNode list" where
  "command_getOutputs (SymlinkCommandC c) = sl_outputs c"
| "command_getOutputs c = (case external_part c of Some e \<Rightarrow> ec_outputs e | None \<Rightarrow> [])"

definition isExternalCommand :: "BuildCommand \<Rightarrow> bool" where
  "isExternalCommand c \<longleftrightarrow> external_part c \<noteq> None"

fun repairViaOwnershipAnalysis :: "BuildCommand \<Rightarrow> bool" where
  "repairViaOwnershipAnalysis (SymlinkCommandC c) = sl_repairViaOwnershipAnalysis c"
| "repairViaOwnershipAnalysis c = (case external_part c of Some e \<Rightarrow> ec_repairViaOwnershipAnalysis e | None \<Rightarrow> False)"

text \<open>Replacing the nodes a command refers to.\<close>

fun update_nodes :: "(BuildNode list \<Rightarrow> BuildNode list) \<Rightarrow> (BuildNode list \<Rightarrow> BuildNode list) \<Rightarrow> BuildCommand \<Rightarrow> BuildCommand" where
  "update_nodes f g (PhonyCommand c) = PhonyCommand (c\<lparr>ec_inputs := f (ec_inputs c), ec_outputs := g (ec_outputs c)\<rparr>)"
| "update_nodes f g (MkdirCommand c) = MkdirCommand (c\<lparr>ec_inputs := f (ec_inputs c), ec_outputs := g (ec_outputs c)\<rparr>)"
| "update_nodes f g (ShellCommandC c) = ShellCommandC (c\<lparr>ec_inputs := f (ec_inputs c), ec_outputs := g (ec_outputs c)\<rparr>)"
| "update_nodes f g (ClangCommand c) = ClangCommand (c\<lparr>ec_inputs := f (ec_inputs c), ec_outputs := g (ec_outputs c)\<rparr>)"
| "update_nodes f g (ArchiveCommand c) = ArchiveCommand (c\<lparr>ec_inputs := f (ec_inputs c), ec_outputs := g (ec_outputs c)\<rparr>)"
| "update_nodes f g (SharedLibraryCommand c) = SharedLibraryCommand (c\<lparr>ec_inputs := f (ec_inputs c), ec_outputs := g (ec_outputs c)\<rparr>)"
| "update_nodes f g (SwiftCompilerCommand c) = SwiftCompilerCommand (c\<lparr>ec_inputs := f (ec_inputs c), ec_outputs := g (ec_outputs c)\<rparr>)"
| "update_nodes f g (SwiftGetVersionCommand e) = SwiftGetVersionCommand e"
| "update_nodes f g (SymlinkCommandC c) = SymlinkCommandC (c\<lparr>sl_inputs := f (sl_inputs c), sl_outputs := g (sl_outputs c)\<rparr>)"
| "update_nodes f g (StaleFileRemovalCommandC c) = StaleFileRemovalCommandC c"

definition createCommand :: "ToolState \<Rightarrow> string \<Rightarrow> BuildCommand" where
  "createCommand tool name =
     (case tool_kind tool of
        ShellTool \<Rightarrow> ShellCommandC (new_shell_command name (tool_controlEnabled tool))
      | PhonyTool \<Rightarrow> PhonyCommand (new_external_command name)
      | ClangTool \<Rightarrow> ClangCommand (new_clang_command name)
      | MkdirTool \<Rightarrow> MkdirCommand (new_external_command name)
      | SymlinkTool \<Rightarrow> SymlinkCommandC (new_symlink_command name (tool_repairViaOwnershipAnalysis tool))
      | ArchiveTool \<Rightarrow> ArchiveCommand (new_archive_command name)
      | SharedLibraryTool \<Rightarrow> SharedLibraryCommand (new_shared_library_command name)
      | StaleFileRemovalTool \<Rightarrow> StaleFileRemovalCommandC (new_stale_file_removal name)
      | SwiftCompilerTool \<Rightarrow> SwiftCompilerCommand (new_swift_command name))"

section \<open>The state of the loader\<close>

datatype yaml = YScalar string | YSequence "yaml list" | YMapping "(yaml \<times> yaml) list" | YOther

text \<open>The maps are in the order of insertion; the order of a \<^verbatim>\<open>StringMap\<close> is an argument where it matters.\<close>

record BuildFileImpl =
  bf_tools :: "(string \<times> ToolState) list"
  bf_targets :: "string \<rightharpoonup> string list"
  bf_defaultTarget :: string
  bf_nodes :: "string \<rightharpoonup> BuildNode"
  bf_commands :: "(string \<times> BuildCommand) list"
  bf_performOwnershipAnalysis :: bool
  bf_fileSystemModes :: "nat list"
  bf_messages :: "string list"
  bf_numErrors :: nat

definition new_build_file :: BuildFileImpl where
  "new_build_file =
     \<lparr>bf_tools = [], bf_targets = Map.empty, bf_defaultTarget = [], bf_nodes = Map.empty, bf_commands = [],
      bf_performOwnershipAnalysis = False, bf_fileSystemModes = [], bf_messages = [], bf_numErrors = 0\<rparr>"

definition complain :: "string list \<Rightarrow> BuildFileImpl \<Rightarrow> BuildFileImpl" where
  "complain msgs bf = bf\<lparr>bf_messages := bf_messages bf @ msgs\<rparr>"

definition report :: "string \<Rightarrow> BuildFileImpl \<Rightarrow> BuildFileImpl" where
  "report msg bf = (complain [msg] bf)\<lparr>bf_numErrors := bf_numErrors bf + 1\<rparr>"

definition in_map :: "string \<Rightarrow> string \<Rightarrow> string" where
  "in_map what section = what @ '' in '' @ quoted section @ '' map''"

definition getOrCreateTool :: "string \<Rightarrow> BuildFileImpl \<Rightarrow> ToolState option \<times> BuildFileImpl" where
  "getOrCreateTool name bf =
     (case map_of (bf_tools bf) name of
        Some t \<Rightarrow> (Some t, bf)
      | None \<Rightarrow>
          (case lookupTool name of
             None \<Rightarrow> (None, report (in_map (''invalid tool ('' @ name @ '') type'') ''tools'') bf)
           | Some kind \<Rightarrow> (Some (new_tool kind), bf\<lparr>bf_tools := bf_tools bf @ [(name, new_tool kind)]\<rparr>)))"

definition getOrCreateNode :: "string \<Rightarrow> BuildFileImpl \<Rightarrow> BuildNode \<times> BuildFileImpl" where
  "getOrCreateNode name bf =
     (case bf_nodes bf name of
        Some n \<Rightarrow> (n, bf)
      | None \<Rightarrow> (createNode name, bf\<lparr>bf_nodes := (bf_nodes bf)(name \<mapsto> createNode name)\<rparr>))"

section \<open>Attribute values\<close>

fun scalar_pairs :: "string \<Rightarrow> string \<Rightarrow> (yaml \<times> yaml) list \<Rightarrow> BuildFileImpl \<Rightarrow> (string \<times> string) list \<times> BuildFileImpl" where
  "scalar_pairs attribute section [] bf = ([], bf)"
| "scalar_pairs attribute section ((k, v) # rest) bf =
     (case k of
        YScalar key \<Rightarrow>
          (case v of
             YScalar val \<Rightarrow> (let (vals, bf1) = scalar_pairs attribute section rest bf in ((key, val) # vals, bf1))
           | _ \<Rightarrow> scalar_pairs attribute section rest (report (in_map (''invalid value type for '' @ quoted attribute) section) bf))
      | _ \<Rightarrow> scalar_pairs attribute section rest (report (in_map (''invalid key type for '' @ quoted attribute) section) bf))"

fun scalars :: "string \<Rightarrow> yaml list \<Rightarrow> BuildFileImpl \<Rightarrow> string list \<times> BuildFileImpl" where
  "scalars msg [] bf = ([], bf)"
| "scalars msg (x # xs) bf =
     (case x of
        YScalar s \<Rightarrow> (let (ss, bf1) = scalars msg xs bf in (s # ss, bf1))
      | _ \<Rightarrow> scalars msg xs (report msg bf))"

definition attribute_value :: "string \<Rightarrow> string \<Rightarrow> string \<Rightarrow> yaml \<Rightarrow> BuildFileImpl \<Rightarrow> AttributeValue option \<times> BuildFileImpl" where
  "attribute_value thing section attribute v bf =
     (let msg = in_map (''invalid value type for '' @ thing) section in
      case v of
        YMapping ps \<Rightarrow> (let (vals, bf1) = scalar_pairs attribute section ps bf in (Some (MapValue vals), bf1))
      | YSequence xs \<Rightarrow> (let (vals, bf1) = scalars msg xs bf in (Some (ListValue vals), bf1))
      | YScalar s \<Rightarrow> (Some (ScalarValue s), bf)
      | YOther \<Rightarrow> (None, report msg bf))"

text \<open>
  The attributes of a tool, a node or a command: \<open>configure\<close> is the attribute function of the object.
  The result says whether the load goes on.
\<close>

fun configure_all ::
  "(string \<Rightarrow> AttributeValue \<Rightarrow> 'a \<Rightarrow> ('a \<times> string list \<times> bool) option) \<Rightarrow> string \<Rightarrow> string \<Rightarrow> (yaml \<times> yaml) list \<Rightarrow>
   'a \<Rightarrow> BuildFileImpl \<Rightarrow> ('a \<times> bool \<times> BuildFileImpl) option" where
  "configure_all configure thing section [] x bf = Some (x, True, bf)"
| "configure_all configure thing section ((k, v) # rest) x bf =
     (case k of
        YScalar attribute \<Rightarrow>
          (let (value, bf1) = attribute_value thing section attribute v bf in
           case value of
             None \<Rightarrow> configure_all configure thing section rest x bf1
           | Some a \<Rightarrow>
               do { (y, msgs, ok) \<leftarrow> configure attribute a x;
                    if ok then configure_all configure thing section rest y (complain msgs bf1)
                    else Some (y, False, complain msgs bf1) })
      | _ \<Rightarrow> configure_all configure thing section rest x (report (in_map (''invalid key type for '' @ thing) section) bf))"

fun tool_configure :: "string \<Rightarrow> AttributeValue \<Rightarrow> ToolState \<Rightarrow> (ToolState \<times> string list \<times> bool) option" where
  "tool_configure name (ScalarValue s) t = Some (outcome (tool_attribute name s t))"
| "tool_configure name _ t = Some (t, [unexpected_attribute name], False)"

fun node_configure :: "string \<Rightarrow> AttributeValue \<Rightarrow> BuildNode \<Rightarrow> (BuildNode \<times> string list \<times> bool) option" where
  "node_configure name (ScalarValue s) n = map_option outcome (node_attribute name s n)"
| "node_configure name (ListValue l) n = map_option outcome (node_attribute_list name l n)"
| "node_configure name (MapValue m) n = Some (outcome (node_attribute_map name m n))"

section \<open>The sections of the file\<close>

text \<open>The client; \<open>client\<close> is the name and the version the system was configured with.\<close>

fun configure_file_system :: "(string \<times> string) list \<Rightarrow> BuildFileImpl \<Rightarrow> bool \<times> BuildFileImpl" where
  "configure_file_system [] bf = (True, bf)"
| "configure_file_system ((key, val) # ps) bf =
     (if key \<noteq> ''file-system'' then configure_file_system ps bf
      else if val = ''device-agnostic'' then configure_file_system ps (bf\<lparr>bf_fileSystemModes := bf_fileSystemModes bf @ [1]\<rparr>)
      else if val = ''checksum-only'' then configure_file_system ps (bf\<lparr>bf_fileSystemModes := bf_fileSystemModes bf @ [2]\<rparr>)
      else if val \<noteq> ''default'' then (False, complain [''unsupported client file-system: '' @ quoted val] bf)
      else configure_file_system ps bf)"

definition configureClient :: "string \<times> 32 word \<Rightarrow> string \<Rightarrow> 32 word \<Rightarrow> (string \<times> string) list \<Rightarrow> BuildFileImpl \<Rightarrow> bool \<times> BuildFileImpl" where
  "configureClient client name version properties bf =
     (if name \<noteq> fst client then (False, bf)
      else if version \<noteq> snd client then (False, bf)
      else configure_file_system properties bf)"

fun client_entries ::
  "(yaml \<times> yaml) list \<Rightarrow> string \<Rightarrow> 32 word \<Rightarrow> (string \<times> string) list \<Rightarrow> BuildFileImpl \<Rightarrow>
   (string \<times> 32 word \<times> (string \<times> string) list) option \<times> BuildFileImpl" where
  "client_entries [] name version properties bf = (Some (name, version, properties), bf)"
| "client_entries ((k, v) # rest) name version properties bf =
     (case k of
        YScalar key \<Rightarrow>
          (case v of
             YScalar val \<Rightarrow>
               (let name1 = (if key = ''name'' then val else name);
                    (version1, bf1) =
                      (if key = ''version'' then
                         (case getAsUnsigned 10 val of
                            Some n \<Rightarrow> (n, bf)
                          | None \<Rightarrow> (version, report (in_map ''invalid version number'' ''client'') bf))
                       else (version, bf))
                in if key = ''perform-ownership-analysis''
                   then client_entries rest name1 version1 properties
                          (if val = ''yes'' then bf1\<lparr>bf_performOwnershipAnalysis := True\<rparr> else bf1)
                   else client_entries rest name1 version1 (properties @ [(key, val)]) bf1)
           | _ \<Rightarrow> (None, report (in_map ''invalid value type'' ''client'') bf))
      | _ \<Rightarrow> (None, report (in_map ''invalid key type'' ''client'') bf))"

definition parseClientMapping :: "string \<times> 32 word \<Rightarrow> (yaml \<times> yaml) list \<Rightarrow> BuildFileImpl \<Rightarrow> bool \<times> BuildFileImpl" where
  "parseClientMapping client m bf =
     (let (r, bf1) = client_entries m [] 0 [] bf in
      case r of
        None \<Rightarrow> (False, bf1)
      | Some (name, version, properties) \<Rightarrow>
          (let (ok, bf2) = configureClient client name version properties bf1 in
           if ok then (True, bf2) else (False, report ''unable to configure client'' bf2)))"

fun parseToolsMapping :: "(yaml \<times> yaml) list \<Rightarrow> BuildFileImpl \<Rightarrow> (bool \<times> BuildFileImpl) option" where
  "parseToolsMapping [] bf = Some (True, bf)"
| "parseToolsMapping ((k, v) # rest) bf =
     (case k of
        YScalar name \<Rightarrow>
          (case v of
             YMapping attrs \<Rightarrow>
               (let (tool, bf1) = getOrCreateTool name bf in
                case tool of
                  None \<Rightarrow> Some (False, bf1)
                | Some t \<Rightarrow>
                    do { (t1, ok, bf2) \<leftarrow> configure_all tool_configure ''tool'' ''tools'' attrs t bf1;
                         let bf3 = bf2\<lparr>bf_tools := map (\<lambda>(n, x). (n, if n = name then t1 else x)) (bf_tools bf2)\<rparr>;
                         if ok then parseToolsMapping rest bf3 else Some (False, bf3) })
           | _ \<Rightarrow> parseToolsMapping rest (report (in_map ''invalid value type'' ''tools'') bf))
      | _ \<Rightarrow> parseToolsMapping rest (report (in_map ''invalid key type'' ''tools'') bf))"

fun node_names :: "string \<Rightarrow> yaml list \<Rightarrow> BuildFileImpl \<Rightarrow> string list \<times> BuildFileImpl" where
  "node_names msg [] bf = ([], bf)"
| "node_names msg (x # xs) bf =
     (case x of
        YScalar s \<Rightarrow> (let (ss, bf1) = node_names msg xs (snd (getOrCreateNode s bf)) in (s # ss, bf1))
      | _ \<Rightarrow> node_names msg xs (report msg bf))"

fun parseTargetsMapping :: "(yaml \<times> yaml) list \<Rightarrow> BuildFileImpl \<Rightarrow> bool \<times> BuildFileImpl" where
  "parseTargetsMapping [] bf = (True, bf)"
| "parseTargetsMapping ((k, v) # rest) bf =
     (case k of
        YScalar name \<Rightarrow>
          (case v of
             YSequence xs \<Rightarrow>
               (let (names, bf1) = node_names (in_map ''invalid node type'' ''targets'') xs bf in
                parseTargetsMapping rest (bf1\<lparr>bf_targets := (bf_targets bf1)(name \<mapsto> names)\<rparr>))
           | _ \<Rightarrow> parseTargetsMapping rest (report (in_map ''invalid value type'' ''targets'') bf))
      | _ \<Rightarrow> parseTargetsMapping rest (report (in_map ''invalid key type'' ''targets'') bf))"

definition parseDefaultTarget :: "string \<Rightarrow> BuildFileImpl \<Rightarrow> bool \<times> BuildFileImpl" where
  "parseDefaultTarget target bf =
     (if bf_targets bf target = None
      then (False, report ''invalid default target, a default target should be in targets'' bf)
      else (True, bf\<lparr>bf_defaultTarget := target\<rparr>))"

fun parseNodesMapping :: "(yaml \<times> yaml) list \<Rightarrow> BuildFileImpl \<Rightarrow> (bool \<times> BuildFileImpl) option" where
  "parseNodesMapping [] bf = Some (True, bf)"
| "parseNodesMapping ((k, v) # rest) bf =
     (case k of
        YScalar name \<Rightarrow>
          (case v of
             YMapping attrs \<Rightarrow>
               (let (node, bf1) = getOrCreateNode name bf in
                do { (node1, ok, bf2) \<leftarrow> configure_all node_configure ''node'' ''nodes'' attrs node bf1;
                     let bf3 = bf2\<lparr>bf_nodes := (bf_nodes bf2)(name \<mapsto> node1)\<rparr>;
                     if ok then parseNodesMapping rest bf3 else Some (False, bf3) })
           | _ \<Rightarrow> parseNodesMapping rest (report (in_map ''invalid value type'' ''nodes'') bf))
      | _ \<Rightarrow> parseNodesMapping rest (report (in_map ''invalid key type'' ''nodes'') bf))"

section \<open>Commands\<close>

definition the_nodes :: "BuildFileImpl \<Rightarrow> string list \<Rightarrow> BuildNode list" where
  "the_nodes bf names = List.map_filter (bf_nodes bf) names"

definition add_producer :: "string \<Rightarrow> string \<Rightarrow> (string \<rightharpoonup> BuildNode) \<Rightarrow> string \<rightharpoonup> BuildNode" where
  "add_producer command name nodes =
     (case nodes name of None \<Rightarrow> nodes | Some n \<Rightarrow> nodes(name \<mapsto> n\<lparr>bn_producers := bn_producers n @ [command]\<rparr>))"

definition add_producers :: "string \<Rightarrow> string list \<Rightarrow> BuildFileImpl \<Rightarrow> BuildFileImpl" where
  "add_producers command names bf = bf\<lparr>bf_nodes := fold (add_producer command) names (bf_nodes bf)\<rparr>"

text \<open>One key of a command; the known keys come first.\<close>

definition command_key ::
  "(string \<Rightarrow> string) \<Rightarrow> string \<Rightarrow> yaml \<Rightarrow> yaml \<Rightarrow> BuildCommand \<Rightarrow> BuildFileImpl \<Rightarrow> BuildCommand \<times> bool \<times> BuildFileImpl" where
  "command_key absolute name k v c bf =
     (case k of
        YScalar key \<Rightarrow>
          (if key = ''inputs'' then
             (case v of
                YSequence xs \<Rightarrow>
                  (let (names, bf1) = node_names (''invalid node type in '' @ quoted ''inputs'' @ '' command key'') xs bf;
                       (c1, msgs) = command_configureInputs (the_nodes bf1 names) c
                   in (c1, True, complain msgs bf1))
              | _ \<Rightarrow> (c, True, report (''invalid value type for '' @ quoted ''inputs'' @ '' command key'') bf))
           else if key = ''outputs'' then
             (case v of
                YSequence xs \<Rightarrow>
                  (let (names, bf1) = node_names (''invalid node type in '' @ quoted ''outputs'' @ '' command key'') xs bf;
                       bf2 = add_producers name names bf1;
                       (c1, msgs) = command_configureOutputs (the_nodes bf2 names) c
                   in (c1, True, complain msgs bf2))
              | _ \<Rightarrow> (c, True, report (''invalid value type for '' @ quoted ''outputs'' @ '' command key'') bf))
           else if key = ''description'' then
             (case v of
                YScalar d \<Rightarrow> (command_configureDescription d c, True, bf)
              | _ \<Rightarrow> (c, True, report (''invalid value type for '' @ quoted ''description'' @ '' command key'') bf))
           else
             (let (value, bf1) = attribute_value ''command'' ''commands'' key v bf in
              case value of
                None \<Rightarrow> (c, True, bf1)
              | Some a \<Rightarrow> (let (c1, msgs, ok) = command_configureAttribute absolute key a c in (c1, ok, complain msgs bf1))))
      | _ \<Rightarrow> (c, True, report (in_map ''invalid key type'' ''commands'') bf))"

fun command_keys ::
  "(string \<Rightarrow> string) \<Rightarrow> string \<Rightarrow> (yaml \<times> yaml) list \<Rightarrow> BuildCommand \<Rightarrow> BuildFileImpl \<Rightarrow> BuildCommand \<times> bool \<times> BuildFileImpl" where
  "command_keys absolute name [] c bf = (c, True, bf)"
| "command_keys absolute name ((k, v) # rest) c bf =
     (let (c1, ok, bf1) = command_key absolute name k v c bf in
      if ok then command_keys absolute name rest c1 bf1 else (c1, False, bf1))"

definition parse_command ::
  "(string \<Rightarrow> string) \<Rightarrow> string \<Rightarrow> (yaml \<times> yaml) list \<Rightarrow> BuildFileImpl \<Rightarrow> bool \<times> BuildFileImpl" where
  "parse_command absolute name attrs bf =
     (if name \<in> fst ` set (bf_commands bf) then (True, report (in_map ''duplicate command'' ''commands'') bf)
      else case attrs of
        [] \<Rightarrow> (True, report (in_map (''missing '' @ quoted ''tool'' @ '' key for command'') ''command'') bf)
      | (k, v) # rest \<Rightarrow>
          if k \<noteq> YScalar ''tool''
          then (True, report (in_map (''expected '' @ quoted ''tool'' @ '' initial key for command'') ''commands'') bf)
          else (case v of
             YScalar toolName \<Rightarrow>
               (let (tool, bf1) = getOrCreateTool toolName bf in
                case tool of
                  None \<Rightarrow> (False, bf1)
                | Some t \<Rightarrow>
                    (let (c, ok, bf2) = command_keys absolute name rest (createCommand t name) bf1 in
                     if ok then (True, bf2\<lparr>bf_commands := bf_commands bf2 @ [(name, c)]\<rparr>) else (False, bf2)))
           | _ \<Rightarrow> (True, report (in_map (''invalid '' @ quoted ''tool'' @ '' value type for command'') ''commands'') bf)))"

fun parseCommandsMapping :: "(string \<Rightarrow> string) \<Rightarrow> (yaml \<times> yaml) list \<Rightarrow> BuildFileImpl \<Rightarrow> bool \<times> BuildFileImpl" where
  "parseCommandsMapping absolute [] bf = (True, bf)"
| "parseCommandsMapping absolute ((k, v) # rest) bf =
     (case k of
        YScalar name \<Rightarrow>
          (case v of
             YMapping attrs \<Rightarrow>
               (let (ok, bf1) = parse_command absolute name attrs bf in
                if ok then parseCommandsMapping absolute rest bf1 else (False, bf1))
           | _ \<Rightarrow> parseCommandsMapping absolute rest (report (in_map ''invalid value type'' ''commands'') bf))
      | _ \<Rightarrow> parseCommandsMapping absolute rest (report (in_map ''invalid key type'' ''commands'') bf))"

section \<open>The whole file\<close>

text \<open>A section that is present is parsed; the sections come in a fixed order.\<close>

definition file_section ::
  "string \<Rightarrow> string \<Rightarrow> (yaml \<Rightarrow> BuildFileImpl \<Rightarrow> (bool \<times> BuildFileImpl) option option) \<Rightarrow>
   (yaml \<times> yaml) list \<times> bool \<times> BuildFileImpl \<Rightarrow> ((yaml \<times> yaml) list \<times> bool \<times> BuildFileImpl) option" where
  "file_section name expected parse s =
     (case s of
        ((k, v) # rest, True, bf) \<Rightarrow>
          if k \<noteq> YScalar name then Some s
          else (case parse v bf of
             None \<Rightarrow> Some (rest, False, report (''unexpected '' @ quoted name @ expected) bf)
           | Some r \<Rightarrow> do { (ok, bf1) \<leftarrow> r; Some (rest, ok, bf1) })
      | _ \<Rightarrow> Some s)"

definition on_mapping ::
  "((yaml \<times> yaml) list \<Rightarrow> BuildFileImpl \<Rightarrow> (bool \<times> BuildFileImpl) option) \<Rightarrow> yaml \<Rightarrow> BuildFileImpl \<Rightarrow> (bool \<times> BuildFileImpl) option option" where
  "on_mapping parse v bf = (case v of YMapping m \<Rightarrow> Some (parse m bf) | _ \<Rightarrow> None)"

definition on_scalar ::
  "(string \<Rightarrow> BuildFileImpl \<Rightarrow> (bool \<times> BuildFileImpl) option) \<Rightarrow> yaml \<Rightarrow> BuildFileImpl \<Rightarrow> (bool \<times> BuildFileImpl) option option" where
  "on_scalar parse v bf = (case v of YScalar s \<Rightarrow> Some (parse s bf) | _ \<Rightarrow> None)"

definition parseRootNode ::
  "string \<times> 32 word \<Rightarrow> (string \<Rightarrow> string) \<Rightarrow> yaml \<Rightarrow> BuildFileImpl \<Rightarrow> (bool \<times> BuildFileImpl) option" where
  "parseRootNode client absolute root bf =
     (case root of
        YMapping [] \<Rightarrow> None
      | YMapping ((k, v) # rest) \<Rightarrow>
          if k \<noteq> YScalar ''client''
          then Some (False, report (''expected initial mapping key '' @ quoted ''client'') bf)
          else (case v of
             YMapping m \<Rightarrow>
               (let (ok, bf1) = parseClientMapping client m bf in
                if \<not> ok then Some (False, bf1)
                else do {
                  s1 \<leftarrow> file_section ''tools'' '' value (expected map)'' (on_mapping parseToolsMapping) (rest, True, bf1);
                  s2 \<leftarrow> file_section ''targets'' '' value (expected map)'' (on_mapping (\<lambda>m bf. Some (parseTargetsMapping m bf))) s1;
                  s3 \<leftarrow> file_section ''default'' '' target value (expected scalar)'' (on_scalar (\<lambda>t bf. Some (parseDefaultTarget t bf))) s2;
                  s4 \<leftarrow> file_section ''nodes'' '' value (expected map)'' (on_mapping parseNodesMapping) s3;
                  s5 \<leftarrow> file_section ''commands'' '' value (expected map)''
                          (on_mapping (\<lambda>m bf. Some (parseCommandsMapping absolute m bf))) s4;
                  let (trailing, ok, bf2) = s5;
                  Some (if \<not> ok then (False, bf2)
                        else if trailing \<noteq> [] then (False, report ''unexpected trailing top-level section'' bf2)
                        else (True, bf2)) })
           | _ \<Rightarrow> Some (False, report (''unexpected '' @ quoted ''client'' @ '' value (expected map)'') bf))
      | _ \<Rightarrow> Some (False, report ''unexpected top-level node'' bf))"

section \<open>Ownership analysis\<close>

text \<open>
  Three orders are not determined by the file: that in which the map of commands is iterated, that in
  which \<^verbatim>\<open>std::sort\<close> leaves paths of equal length, and that of the addresses of the nodes.
\<close>

record Orders =
  or_commands :: "(string \<times> BuildCommand) list \<Rightarrow> (string \<times> BuildCommand) list"
  or_sort :: "(string \<times> string) list \<Rightarrow> (string \<times> string) list"
  or_addresses :: "string list"

record OwnershipAnalysis =
  ow_includedPaths :: "string \<rightharpoonup> string"
  ow_excludedPaths :: "string \<rightharpoonup> string"

definition outputNodesAndCommands :: "(string \<times> BuildCommand) list \<Rightarrow> (string \<times> string) list" where
  "outputNodesAndCommands cs =
     concat (map (\<lambda>(name, c). map (\<lambda>n. (bn_name n, name)) (filter (\<lambda>n. \<not> isVirtual n) (command_getOutputs c))) cs)"

definition directoryInputNodesAndCommands :: "(string \<times> BuildCommand) list \<Rightarrow> (string \<times> string) list" where
  "directoryInputNodesAndCommands cs =
     concat (map (\<lambda>(name, c). map (\<lambda>n. (bn_name n, name)) (filter isDirectoryNode (command_getInputs c))) cs)"

definition owns :: "string \<Rightarrow> string \<Rightarrow> bool" where
  "owns n path \<longleftrightarrow> (if n \<noteq> [] \<and> last n = SLASH then isPrefix n path else isPrefix (n @ [SLASH]) path)"

definition includedOwnerOf :: "string list \<Rightarrow> OwnershipAnalysis \<Rightarrow> string \<Rightarrow> string option" where
  "includedOwnerOf addresses ow path =
     (case find (\<lambda>n. ow_includedPaths ow n \<noteq> None \<and> owns n path) addresses of
        None \<Rightarrow> None
      | Some n \<Rightarrow> ow_includedPaths ow n)"

definition excludedOwnerOf :: "OwnershipAnalysis \<Rightarrow> string \<Rightarrow> string option" where
  "excludedOwnerOf ow path = ow_excludedPaths ow path"

definition repairs :: "(string \<times> BuildCommand) list \<Rightarrow> string \<Rightarrow> bool" where
  "repairs cs name = (case map_of cs name of None \<Rightarrow> False | Some c \<Rightarrow> repairViaOwnershipAnalysis c)"

definition included :: "(string \<times> BuildCommand) list \<Rightarrow> string \<Rightarrow> bool" where
  "included cs name = (case map_of cs name of None \<Rightarrow> False | Some c \<Rightarrow> isExternalCommand c \<and> repairViaOwnershipAnalysis c)"

text \<open>A conflict is the path and the two commands.\<close>

fun establishOwnerships ::
  "string list \<Rightarrow> (string \<Rightarrow> bool) \<Rightarrow> (string \<times> string) list \<Rightarrow> OwnershipAnalysis \<Rightarrow> (string \<times> string \<times> string) + OwnershipAnalysis" where
  "establishOwnerships addresses inc [] ow = Inr ow"
| "establishOwnerships addresses inc ((node, command) # rest) ow =
     (if inc command then
        (case includedOwnerOf addresses ow node of
           None \<Rightarrow> establishOwnerships addresses inc rest (ow\<lparr>ow_includedPaths := (ow_includedPaths ow)(node \<mapsto> command)\<rparr>)
         | Some owner \<Rightarrow>
             if owner = command then establishOwnerships addresses inc rest ow
             else Inl (node, command, owner))
      else establishOwnerships addresses inc rest (ow\<lparr>ow_excludedPaths := (ow_excludedPaths ow)(node \<mapsto> command)\<rparr>))"

definition addOutput :: "string \<Rightarrow> string \<Rightarrow> BuildFileImpl \<Rightarrow> BuildFileImpl" where
  "addOutput command node bf =
     (case bf_nodes bf node of
        None \<Rightarrow> bf
      | Some n \<Rightarrow>
          bf\<lparr>bf_commands := map (\<lambda>(name, c). (name, if name = command then update_nodes id (\<lambda>ns. ns @ [n]) c else c)) (bf_commands bf),
             bf_nodes := add_producer command node (bf_nodes bf)\<rparr>)"

definition is_output :: "(string \<times> BuildCommand) list \<Rightarrow> string \<Rightarrow> string \<Rightarrow> bool" where
  "is_output cs command node =
     (case map_of cs command of None \<Rightarrow> False | Some c \<Rightarrow> node \<in> bn_name ` set (command_getOutputs c))"

fun amendOutputOfOwnersWithConsumedSubpaths ::
  "string list \<Rightarrow> OwnershipAnalysis \<Rightarrow> (string \<times> string) list \<Rightarrow> BuildFileImpl \<Rightarrow> BuildFileImpl" where
  "amendOutputOfOwnersWithConsumedSubpaths addresses ow [] bf = bf"
| "amendOutputOfOwnersWithConsumedSubpaths addresses ow ((node, consumer) # rest) bf =
     amendOutputOfOwnersWithConsumedSubpaths addresses ow rest
       (case includedOwnerOf addresses ow node of
          None \<Rightarrow> bf
        | Some owner \<Rightarrow>
            if \<not> is_output (bf_commands bf) owner node \<and> repairs (bf_commands bf) owner then addOutput owner node bf else bf)"

definition isIncludedUnownedNode :: "string list \<Rightarrow> OwnershipAnalysis \<Rightarrow> string \<Rightarrow> bool" where
  "isIncludedUnownedNode addresses ow node \<longleftrightarrow> includedOwnerOf addresses ow node = None \<and> excludedOwnerOf ow node = None"

definition must_scan_after :: "string \<Rightarrow> string \<Rightarrow> (string \<rightharpoonup> BuildNode) \<Rightarrow> string \<rightharpoonup> BuildNode" where
  "must_scan_after directory path nodes =
     (case nodes directory of
        None \<Rightarrow> nodes
      | Some n \<Rightarrow> nodes(directory \<mapsto> n\<lparr>bn_mustScanAfterPaths := map_option (\<lambda>ps. ps @ [path]) (bn_mustScanAfterPaths n)\<rparr>))"

definition deferScanningUnownedInputsUntilSubpathsAvailable ::
  "(string \<Rightarrow> bool) \<Rightarrow> string list \<Rightarrow> (string \<times> string) list \<Rightarrow> (string \<rightharpoonup> BuildNode) \<Rightarrow> string \<rightharpoonup> BuildNode" where
  "deferScanningUnownedInputsUntilSubpathsAvailable repairing unowned outputs nodes =
     fold (\<lambda>(output, command) nodes.
       case find (\<lambda>directory. isPrefix directory output \<and> repairing command) unowned of
         None \<Rightarrow> nodes
       | Some directory \<Rightarrow> must_scan_after directory output nodes) outputs nodes"

definition performOwnershipAnalysis :: "Orders \<Rightarrow> BuildFileImpl \<Rightarrow> bool \<times> BuildFileImpl" where
  "performOwnershipAnalysis ord bf =
     (let cs = or_commands ord (bf_commands bf);
          outputs = or_sort ord (outputNodesAndCommands cs);
          directories = directoryInputNodesAndCommands cs;
          addresses = or_addresses ord
      in case establishOwnerships addresses (included cs) outputs \<lparr>ow_includedPaths = Map.empty, ow_excludedPaths = Map.empty\<rparr> of
           Inl conflict \<Rightarrow> (False, bf)
         | Inr ow \<Rightarrow>
             (let bf1 = amendOutputOfOwnersWithConsumedSubpaths addresses ow directories bf;
                  unowned = map fst (filter (\<lambda>(d, consumer). isIncludedUnownedNode addresses ow d \<and> repairs cs consumer) directories)
              in (True, bf1\<lparr>bf_nodes := deferScanningUnownedInputsUntilSubpathsAvailable (repairs cs) unowned outputs (bf_nodes bf1)\<rparr>)))"

section \<open>Loading\<close>

definition current :: "(string \<rightharpoonup> BuildNode) \<Rightarrow> BuildNode \<Rightarrow> BuildNode" where
  "current nodes n = (case nodes (bn_name n) of None \<Rightarrow> n | Some m \<Rightarrow> m)"

definition build_description :: "BuildFileImpl \<Rightarrow> BuildDescription" where
  "build_description bf =
     \<lparr>bd_nodes = bf_nodes bf,
      bd_commands = (\<lambda>name. map_option (update_nodes (map (current (bf_nodes bf))) (map (current (bf_nodes bf)))) (map_of (bf_commands bf) name)),
      bd_targets = bf_targets bf, bd_tools = map snd (bf_tools bf), bd_defaultTarget = bf_defaultTarget bf\<rparr>"

text \<open>
  \<open>documents\<close> is what the YAML parser makes of the file: \<open>None\<close> if it cannot be read, otherwise the
  root of each document, which may be missing.
\<close>

definition load ::
  "Orders \<Rightarrow> string \<times> 32 word \<Rightarrow> (string \<Rightarrow> string) \<Rightarrow> string \<Rightarrow> yaml option list option \<Rightarrow>
   (BuildDescription option \<times> BuildFileImpl) option" where
  "load ord client absolute filename documents =
     (let bf = new_build_file in
      case documents of
        None \<Rightarrow> Some (None, report (''unable to open '' @ quoted filename) bf)
      | Some [] \<Rightarrow> Some (None, report ''missing document in stream'' bf)
      | Some (None # rest) \<Rightarrow> Some (None, report ''missing document in stream'' bf)
      | Some (Some root # rest) \<Rightarrow>
          do { (ok, bf1) \<leftarrow> parseRootNode client absolute root bf;
               if \<not> ok then Some (None, bf1)
               else if rest \<noteq> [] then Some (None, report ''unexpected additional document in stream'' bf1)
               else if bf_performOwnershipAnalysis bf1 then
                 (let (ok, bf2) = performOwnershipAnalysis ord bf1 in
                  Some (if ok then (Some (build_description bf2), bf2) else (None, bf2)))
               else Some (Some (build_description bf1), bf1) })"

definition loadDescription ::
  "Orders \<Rightarrow> string \<times> 32 word \<Rightarrow> (string \<Rightarrow> string) \<Rightarrow> string \<Rightarrow> yaml option list option \<Rightarrow> BuildDescription option \<Rightarrow>
   (bool \<times> BuildDescription option \<times> string list) option" where
  "loadDescription ord client absolute filename documents old =
     do { (description, bf) \<leftarrow> load ord client absolute filename documents;
          Some (case description of
            None \<Rightarrow> (False, old, bf_messages bf @ [''unable to load build file''])
          | Some bd \<Rightarrow> (True, Some bd, bf_messages bf)) }"

end
