(* ===== verification/Build_Properties.thy ===== *)
theory Build_Properties
  imports Build_Rules Directory_Properties
begin

text \<open>
  Properties that span the rules, tasks and commands of the build system: every key is answered by the
  rule it stands for, the value of a produced node is what the command left, a failure reaches all
  consumers, and a directory node that is not written with a slash depends on itself.
\<close>

section \<open>Keys and rules\<close>

text \<open>The node of a name, whether it is declared, known already or yet to be made.\<close>

definition the_node :: "BuildDescription \<Rightarrow> EngineDelegate \<Rightarrow> string \<Rightarrow> BuildNode" where
  "the_node bd ed name =
     (case bd_nodes bd name of
        Some n \<Rightarrow> n
      | None \<Rightarrow> (case ed_dynamicNodes ed name of Some n \<Rightarrow> n | None \<Rightarrow> createNode name))"

definition filters_of :: "string \<Rightarrow> string list \<Rightarrow> bool" where
  "filters_of s fs \<longleftrightarrow> (\<exists>l. decode_filters s = Some l \<and> getValues l = Some fs)"

text \<open>
  The task for a node, by its type and whether a command produces it, and what that task asks for when
  it is started: the producing command, the signature of the tree, or nothing.
\<close>

fun node_task :: "bool \<Rightarrow> NodeType \<Rightarrow> BuildNode \<Rightarrow> RuleAction" where
  "node_task False NodePlain = FileInputAction"
| "node_task False NodeDirectory = DirectoryInputAction"
| "node_task False NodeDirectoryStructure = DirectoryStructureInputAction"
| "node_task False NodeVirtual = VirtualInputAction"
| "node_task True NodeDirectory = ProducedDirectoryAction"
| "node_task True NodePlain = ProducedAction"
| "node_task True NodeDirectoryStructure = ProducedAction"
| "node_task True NodeVirtual = ProducedAction"

fun node_first_asks :: "endian \<Rightarrow> (BuildNode \<Rightarrow> string option) \<Rightarrow> BuildNode \<Rightarrow> bool \<Rightarrow> NodeType \<Rightarrow> BuildEffect list option" where
  "node_first_asks en chosen n True ty =
     Some (case getCommand chosen n of
             Some c \<Rightarrow> [RequestInput (makeCommand c) 0]
           | None \<Rightarrow> [CannotBuildDueToMultipleProducers (bn_name n) (bn_producers n)])"
| "node_first_asks en chosen n False NodeDirectory =
     (case bn_mustScanAfterPaths n of
        None \<Rightarrow> None
      | Some [] \<Rightarrow> map_option (\<lambda>k. [RequestInput k 0]) (makeDirectoryTreeSignatureKey en (without_slash (bn_name n)) (bn_exclusionPatterns n))
      | Some paths \<Rightarrow> Some (request_nodes 1 paths))"
| "node_first_asks en chosen n False NodeDirectoryStructure =
     map_option (\<lambda>k. [RequestInput k 0]) (makeDirectoryTreeStructureSignatureKey en (without_slash (bn_name n)) (bn_exclusionPatterns n))"
| "node_first_asks en chosen n False NodePlain = Some []"
| "node_first_asks en chosen n False NodeVirtual = Some []"

fun answers :: "BuildDescription \<Rightarrow> EngineDelegate \<Rightarrow> key_spec \<Rightarrow> RuleAction \<Rightarrow> bool" where
  "answers bd ed (SCommand n) a \<longleftrightarrow> a = (case bd_commands bd n of None \<Rightarrow> MissingCommandAction | Some c \<Rightarrow> CommandAction c)"
| "answers bd ed (SCustomTask n d) a \<longleftrightarrow>
     a = (if n = ''swift-get-version'' \<and> (\<exists>t \<in> set (bd_tools bd). tool_kind t = SwiftCompilerTool)
          then CommandAction (SwiftGetVersionCommand d) else MissingCommandAction)"
| "answers bd ed (SDirectoryContents p) a \<longleftrightarrow> a = DirectoryContentsAction p"
| "answers bd ed (SFilteredDirectoryContents p fs) a \<longleftrightarrow> (\<exists>s. a = FilteredDirectoryContentsAction p s \<and> filters_of s fs)"
| "answers bd ed (SDirectoryTreeSignature p fs) a \<longleftrightarrow> (\<exists>s. a = DirectoryTreeSignatureAction p s \<and> filters_of s fs)"
| "answers bd ed (SDirectoryTreeStructureSignature p fs) a \<longleftrightarrow>
     (\<exists>s. a = DirectoryTreeStructureSignatureAction p s \<and> filters_of s fs)"
| "answers bd ed (SNode n) a \<longleftrightarrow> 
     (let node = the_node bd ed n; produced = (bn_producers node \<noteq> []) in
      a = node_task produced (bn_type node) node \<and>
      (\<forall>en chosen. rule_start en chosen a = node_first_asks en chosen node produced (bn_type node)))"
| "answers bd ed (SStat n) a \<longleftrightarrow> a = StatAction n"
| "answers bd ed (STarget n) a \<longleftrightarrow> (\<exists>nodes. bd_targets bd n = Some nodes \<and> a = TargetAction n nodes)"

text \<open>
  The signature of the rule, which tells a stored result that was made by another definition of the rule:
  that of the command, that of the node's type and producers, and none for what the key itself describes.
\<close>

fun signed :: "Hash \<Rightarrow> BuildDescription \<Rightarrow> EngineDelegate \<Rightarrow> key_spec \<Rightarrow> CommandSignature \<Rightarrow> bool" where
  "signed H bd ed (SCommand n) sig \<longleftrightarrow>
     (case bd_commands bd n of None \<Rightarrow> sig = 0 | Some c \<Rightarrow> command_getSignature H c = Some sig)"
| "signed H bd ed (SCustomTask n d) sig \<longleftrightarrow>
     sig = (if n = ''swift-get-version'' \<and> (\<exists>t \<in> set (bd_tools bd). tool_kind t = SwiftCompilerTool)
            then combine_string H ''swift-get-version'' 0 else 0)"
| "signed H bd ed (SNode n) sig \<longleftrightarrow>
     (let node = the_node bd ed n in
      sig = combine_strings H (bn_producers node) (combine_int H (node_type_number (bn_type node)) 0))"
| "signed H bd ed _ sig \<longleftrightarrow> sig = 0"

text \<open>What can be asked: a declared target, a command whose signature is defined.\<close>

fun askable :: "Hash \<Rightarrow> BuildDescription \<Rightarrow> key_spec \<Rightarrow> bool" where
  "askable H bd (STarget n) \<longleftrightarrow> bd_targets bd n \<noteq> None"
| "askable H bd (SCommand n) \<longleftrightarrow> (case bd_commands bd n of None \<Rightarrow> True | Some c \<Rightarrow> command_getSignature H c \<noteq> None)"
| "askable H bd _ \<longleftrightarrow> True"

lemma lookupNode_the_node: "lookupNode bd name ed = (the_node bd ed name, snd (lookupNode bd name ed))"
  by (simp add: lookupNode_def the_node_def Let_def split: option.splits)

lemma lookupNode_stable: "the_node bd (snd (lookupNode bd name ed)) = the_node bd ed"
  by (auto simp: lookupNode_def the_node_def Let_def fun_eq_iff split: option.splits)

lemma the_node_unchanged [simp]:
  fixes ed :: EngineDelegate
  shows "the_node bd (ed\<lparr>ed_customTasks := cs\<rparr>) = the_node bd ed"
    and "the_node bd (ed\<lparr>ed_dynamicStatNodes := ss\<rparr>) = the_node bd ed"
  by (auto simp: the_node_def fun_eq_iff split: option.splits)

lemma find_custom_command_eq:
  assumes "getCustomTaskName en key = Some n" "getCustomTaskData en key = Some d"
  shows "find_custom_command en key tools =
     Some (if n = ''swift-get-version'' \<and> (\<exists>t \<in> set tools. tool_kind t = SwiftCompilerTool) then Some (SwiftGetVersionCommand d) else None)"
  using assms by (induction tools) (auto simp: createCustomCommand_def)

lemma key_filters_decode:
  assumes "key_filters en key = Some fs"
  obtains s where "getContentExclusionPatterns en key = Some s" "filters_of s fs"
  using assms that
  by (auto simp: key_filters_def getContentExclusionPatternsAsStringList_def filters_of_def decode_filters_def)

lemma node_action_task: "node_action node = node_task (bn_producers node \<noteq> []) (bn_type node) node"
  by (cases "bn_type node") (auto simp: node_action_def isVirtual_def isDirectoryNode_def isDirectoryStructure_def)

lemma node_task_starts:
  "rule_start en chosen (node_action node) = node_first_asks en chosen node (bn_producers node \<noteq> []) (bn_type node)"
proof (cases "bn_producers node = []")
  case True
  then show ?thesis
    by (cases "bn_type node")
       (auto simp: node_action_task rule_start_def isVirtual_def fileInput_start_def directoryStructure_start_def new_directory_input_def
          directoryInput_start_def performUnblockedRequest_def Let_def map_option_case split: option.splits list.splits bind_splits)
next
  case False
  then show ?thesis
    by (cases "bn_type node")
       (auto simp: node_action_task rule_start_def produced_start_def producedDirectory_start_def new_produced_node_def
          new_produced_directory_def ProducedNodeTask.extend_def split: option.splits)
qed

lemma lookup_answered:
  assumes "make_key en sp = Some key" "spec_fits sp" "askable H bd sp"
  shows "\<exists>rule ed1. lookupRule en H bd key ed = Some (rule, ed1) \<and> br_key rule = key \<and> answers bd ed sp (br_action rule) \<and>
     signed H bd ed sp (br_signature rule) \<and> the_node bd ed1 = the_node bd ed"
proof -
  have k: "read_key en key = Some sp" "key_fromData key = Some key" using make_key_read [OF assms(1,2)] by simp_all
  show ?thesis
  proof (cases "getKeyKind key")
    case KCommand
    then obtain n where "sp = SCommand n" "getCommandName key = Some n" using k(1) by (auto simp: read_key_def)
    then show ?thesis using KCommand k(2) assms(3)
      by (cases "bd_commands bd n") (auto simp: lookupRule_def plain_rule_def)
  next
    case KCustomTask
    then obtain n d where sp: "sp = SCustomTask n d" "getCustomTaskName en key = Some n" "getCustomTaskData en key = Some d"
      using k(1) by (auto simp: read_key_def)
    then show ?thesis
      using KCustomTask k(2) find_custom_command_eq [OF sp(2,3), of "bd_tools bd"]
      by (auto simp: lookupRule_def plain_rule_def command_getSignature_def base_getSignature_def)
  next
    case KDirectoryContents
    then show ?thesis using k by (auto simp: lookupRule_def plain_rule_def read_key_def)
  next
    case KFilteredDirectoryContents
    then obtain p fs where "sp = SFilteredDirectoryContents p fs" "getFilteredDirectoryPath en key = Some p" "key_filters en key = Some fs"
      using k(1) by (auto simp: read_key_def)
    then show ?thesis using KFilteredDirectoryContents k(2) by (auto simp: lookupRule_def plain_rule_def elim!: key_filters_decode)
  next
    case KDirectoryTreeSignature
    then obtain p fs where "sp = SDirectoryTreeSignature p fs" "getDirectoryTreeSignaturePath en key = Some p" "key_filters en key = Some fs"
      using k(1) by (auto simp: read_key_def)
    then show ?thesis using KDirectoryTreeSignature k(2) by (auto simp: lookupRule_def plain_rule_def elim!: key_filters_decode)
  next
    case KDirectoryTreeStructureSignature
    then obtain p fs where "sp = SDirectoryTreeStructureSignature p fs" "getFilteredDirectoryPath en key = Some p" "key_filters en key = Some fs"
      using k(1) by (auto simp: read_key_def)
    then show ?thesis using KDirectoryTreeStructureSignature k(2) by (auto simp: lookupRule_def plain_rule_def elim!: key_filters_decode)
  next
    case KNode
    then obtain n where "sp = SNode n" "getNodeName key = Some n" using k(1) by (auto simp: read_key_def)
    then show ?thesis using KNode k(2) lookupNode_the_node [of bd n ed] lookupNode_stable [of bd n ed]
      by (auto simp: lookupRule_def node_action_task [symmetric] node_task_starts node_getSignature_def Let_def split: prod.splits)
  next
    case KStat
    then show ?thesis using k by (auto simp: lookupRule_def plain_rule_def read_key_def)
  next
    case KTarget
    then show ?thesis using k assms(3) by (auto simp: lookupRule_def plain_rule_def read_key_def)
  qed (use k in \<open>simp add: read_key_def\<close>)
qed

text \<open>
  C19. Every key that stands for something that can be asked is answered by a rule with that very key,
  whose task is the one for what the key names: the command, the directory, the target, or the node by
  its type and producers, where the task of a produced node starts by asking for the command that makes
  it and that of a directory for the signature of its tree.  The signature of the rule is that of the
  command or of the node's type and producers, and zero for all other keys.  Looking up a rule may make
  a node, but it never changes which node a name stands for.
\<close>

theorem lookupRule_answers:
  assumes "make_key en sp = Some key" "spec_fits sp" "askable H bd sp"
  shows "\<exists>rule ed1. lookupRule en H bd key ed = Some (rule, ed1) \<and> br_key rule = key \<and> answers bd ed sp (br_action rule) \<and>
     signed H bd ed sp (br_signature rule) \<and> the_node bd ed1 = the_node bd ed"
  by (rule lookup_answered [OF assms])

definition empty_description :: BuildDescription where
  "empty_description = \<lparr>bd_nodes = Map.empty, bd_commands = Map.empty, bd_targets = [''all'' \<mapsto> [''a'']], bd_tools = [], bd_defaultTarget = ''all''\<rparr>"

theorem lookupRule_answers_witness:
  "\<exists>rule ed1. lookupRule Little sample_hash empty_description (makeNode ''dir/'') new_engine_delegate = Some (rule, ed1) \<and>
     br_action rule = DirectoryInputAction (createNode ''dir/'') \<and>
     rule_start Little (\<lambda>n. None) (br_action rule) =
       map_option (\<lambda>k. [RequestInput k 0]) (makeDirectoryTreeSignatureKey Little ''dir'' empty_StringList)"
proof -
  have "the_node empty_description new_engine_delegate ''dir/'' = createNode ''dir/''"
    "createNode ''dir/'' = new_node ''dir/'' NodeDirectory" "without_slash ''dir/'' = ''dir''"
    by (simp_all add: the_node_def empty_description_def new_engine_delegate_def createNode_def new_node_def without_slash_def)
  then show ?thesis
    using lookupRule_answers [of Little "SNode ''dir/''" "makeNode ''dir/''" sample_hash empty_description new_engine_delegate]
    by (auto simp: Let_def new_node_def)
qed

section \<open>From a command to its consumers\<close>

lemma complete_delivers:
  assumes "rep v infos vs"
  obtains d where "complete v = Some [CompleteTask d False]" "fromData d = Some (decoded_value v vs)"
  using that toData_code [OF assms] fromData_code [OF assms] by (simp add: complete_def)

lemma plain_delivers:
  assumes "kind_ok k" "\<not> kindHasStringList (value_plain k 0)"
  obtains d where "toData (value_plain k 0) = Some d" "complete (value_plain k 0) = Some [CompleteTask d False]"
    "fromData d = Some (value_plain k 0)"
proof -
  have r: "rep (value_plain k 0) [] []" using assms(1) by (rule rep_plain) simp
  have "decoded_value (value_plain k 0) [] = value_plain k 0" using assms(2) by (simp add: decoded_value_def value_plain_def)
  then show ?thesis using that toData_code [OF r] fromData_code [OF r] by (simp add: complete_def)
qed

text \<open>The task of a produced node from its start to its completion.\<close>

definition produced_run ::
  "(BuildNode \<Rightarrow> string option) \<Rightarrow> (string \<Rightarrow> BuildCommand) \<Rightarrow> BuildNode \<Rightarrow> ValueType \<Rightarrow> BuildEffect list option" where
  "produced_run chosen command node d =
     do { t \<leftarrow> produced_provideValue (\<lambda>name. command_getResultForOutput (command name)) d (fst (produced_start chosen (new_produced_node node)));
          produced_inputsAvailable t }"

fun phony :: "BuildCommand \<Rightarrow> bool" where
  "phony (PhonyCommand c) \<longleftrightarrow> True"
| "phony _ \<longleftrightarrow> False"

definition stands_for_no_file :: "BuildNode \<Rightarrow> bool" where
  "stands_for_no_file node \<longleftrightarrow> isVirtual node \<and> \<not> bn_commandTimestamp node"

lemma command_getResultForOutput_external:
  assumes "external_part b = Some c"
  shows "command_getResultForOutput b node v =
     (if phony b \<and> stands_for_no_file node then Some makeVirtualInput else external_getResultForOutput c node v)"
  using assms by (cases b) (auto simp: command_getResultForOutput_def phony_getResultForOutput_def stands_for_no_file_def)

lemma produced_run_result:
  assumes "getCommand chosen node = Some name" "fromData d = Some v" "command_getResultForOutput (command name) node v = Some r"
    and "bv_kind r \<noteq> Invalid"
  shows "produced_run chosen command node d = complete r"
  using assms by (simp add: produced_run_def produced_start_def new_produced_node_def produced_provideValue_def produced_inputsAvailable_def)

definition failure_value :: "BuildValue \<Rightarrow> bool" where
  "failure_value v \<longleftrightarrow> v = makeFailedCommand \<or> v = makePropagatedFailureCommand \<or> v = makeCancelledCommand"

lemma failure_delivers:
  assumes "failure_value v"
  obtains d where "toData v = Some d" "fromData d = Some v"
proof -
  have "kind_ok (bv_kind v)" "\<not> kindHasStringList (value_plain (bv_kind v) 0)" "value_plain (bv_kind v) 0 = v"
    using assms by (auto simp: failure_value_def make_defs value_plain_def kind_ok_def kindHasStringList_def)
  then show ?thesis using plain_delivers [of "bv_kind v"] that by metis
qed

lemma failed_input_delivers:
  obtains d where "complete makeFailedInput = Some [CompleteTask d False]" "fromData d = Some makeFailedInput"
  using plain_delivers [of FailedInput] that
  by (auto simp: makeFailedInput_def kind_ok_def kindHasStringList_def value_plain_def)

lemma failed_input_stops:
  assumes "(i, key, makeFailedInput) \<in> set ps" "\<forall>(j, key1, u) \<in> set ps. input_value u \<and> j < length (ec_inputs k)"
  shows "\<exists>k1 es. provide_all ps (fresh_command k) = Some k1 \<and> external_execute stat epoch k1 = Some es \<and>
     RunExternalCommand \<notin> set es \<and> CommandResult makePropagatedFailureCommand \<in> set es"
proof -
  have "blocking k makeFailedInput" by (simp add: blocking_def makeFailedInput_def value_plain_def)
  then have "\<exists>(i, key, v) \<in> set ps. blocking k v" using assms(1) by blast
  note blocked = execute_blocked [OF this, of stat epoch]
  have "provide_all ps (fresh_command k) = Some (after_inputs ps (fresh_command k))"
    by (rule provide_all_after_inputs) (use assms(2) in \<open>simp add: fresh_command_def external_start_def\<close>)
  then show ?thesis using blocked by (auto simp: missing_report_def)
qed

text \<open>
  C14. A failure is not lost on its way.  A command that failed, was cancelled, or could not run stores
  a value that, read back by the task of a node it produces, makes that node a failed input; the one
  exception is the node without a file that a phony command produces.  The value of the node is not
  valid in a later build.  A consumer that receives it among its inputs never runs, whatever else it
  receives and in whatever order, and results in a propagated failure, to which the same applies.
\<close>

theorem failure_reaches_consumers:
  assumes "failure_value v" "getCommand chosen node = Some name" "external_part (command name) = Some c"
    and "\<not> (phony (command name) \<and> stands_for_no_file node)"
  shows "\<exists>d e w. toData v = Some d \<and> produced_run chosen command node d = Some [CompleteTask e False] \<and>
     fromData e = Some w \<and> \<not> produced_isResultValid w \<and>
     (\<forall>k ps i key stat epoch.
        (i, key, w) \<in> set ps \<and> (\<forall>(j, key1, u) \<in> set ps. input_value u \<and> j < length (ec_inputs k)) \<longrightarrow>
        (\<exists>k1 es. provide_all ps (fresh_command k) = Some k1 \<and> external_execute stat epoch k1 = Some es \<and>
           RunExternalCommand \<notin> set es \<and> CommandResult makePropagatedFailureCommand \<in> set es))"
proof -
  obtain d where d: "toData v = Some d" "fromData d = Some v" using failure_delivers [OF assms(1)] .
  have "command_getResultForOutput (command name) node v = Some makeFailedInput"
    using assms(1,4) unfolding command_getResultForOutput_external [OF assms(3)]
    by (auto simp: failure_value_def external_getResultForOutput_def make_defs value_plain_def)
  then have run: "produced_run chosen command node d = complete makeFailedInput"
    using produced_run_result [OF assms(2) d(2)] by (simp add: makeFailedInput_def value_plain_def)
  obtain e where e: "complete makeFailedInput = Some [CompleteTask e False]" "fromData e = Some makeFailedInput"
    using failed_input_delivers .
  have "\<not> produced_isResultValid makeFailedInput" by (simp add: produced_isResultValid_def makeFailedInput_def value_plain_def)
  moreover have "produced_run chosen command node d = Some [CompleteTask e False]" using run e(1) by simp
  ultimately show ?thesis using d(1) e(2) failed_input_stops by blast
qed

definition sample_output :: BuildNode where
  "sample_output = (createNode ''y'')\<lparr>bn_producers := [''C'']\<rparr>"

theorem failure_reaches_consumers_witness:
  "\<exists>d e w. toData makeCancelledCommand = Some d \<and>
     produced_run (\<lambda>n. None) (\<lambda>n. MkdirCommand sample_command) sample_output d = Some [CompleteTask e False] \<and> fromData e = Some w \<and>
     \<not> produced_isResultValid w"
proof -
  have "failure_value makeCancelledCommand" "getCommand (\<lambda>n. None) sample_output = Some ''C''"
    by (simp_all add: failure_value_def getCommand_def sample_output_def)
  from failure_reaches_consumers [OF this, of "\<lambda>n. MkdirCommand sample_command" sample_command] show ?thesis by auto
qed

text \<open>
  The value a produced node has after its command succeeded.
\<close>

lemma index_of_node:
  assumes "node \<in> set nodes" "\<forall>n \<in> set nodes. bn_name n = bn_name node \<longrightarrow> n = node"
  obtains i where "index_of (bn_name node) nodes = Some i" "i < length nodes" "nodes ! i = node"
proof -
  have "\<exists>i. index_of (bn_name node) nodes = Some i \<and> i < length nodes \<and> nodes ! i = node"
    using assms by (induction nodes) auto
  then show ?thesis using that by blast
qed

lemma info_of_ok: "\<forall>p. info_ok (stat p) \<Longrightarrow> info_ok (info_of stat epoch n)"
  by (simp add: info_of_def epoch_info_def info_ok_def zero_info_def zero_checksum_def is_checksum_def)

lemma result_rep:
  assumes "length (ec_outputs c) < 2 ^ 32" "\<forall>p. info_ok (stat p)" "computeCommandResult stat epoch c = Some v"
  shows "rep v (result_infos stat epoch c) []"
proof (rule rep_outputs)
  show "value_outputs SuccessfulCommand (result_infos stat epoch c) 0 = Some v"
    using assms(3) by (simp add: computeCommandResult_eq makeSuccessfulCommand_def)
  show "\<forall>i \<in> set (result_infos stat epoch c). info_ok i"
    using assms(2) info_of_ok [OF assms(2)]
    by (auto simp: result_infos_def epoch_info_def info_ok_def zero_info_def zero_checksum_def is_checksum_def)
qed (use assms(1) in \<open>simp_all add: result_infos_def kind_ok_def kindHasOutputInfo_def isSuccessfulCommand_def value_plain_def\<close>)

lemma existing_delivers:
  assumes "info_ok info" "\<not> isMissing info" "makeExistingInput info = Some v"
  obtains d where "complete v = Some [CompleteTask d False]" "fromData d = Some v"
proof -
  have made: "value_outputs ExistingInput [info] 0 = Some v" using assms(2,3) by (simp add: makeExistingInput_def)
  have r: "rep v [info] []"
    by (rule rep_outputs [OF made])
      (use assms(1) in \<open>simp_all add: kind_ok_def kindHasOutputInfo_def isSuccessfulCommand_def value_plain_def\<close>)
  have "v = (value_plain ExistingInput 0)\<lparr>bv_numOutputInfos := 1, bv_valueData := decoded_data 1 [info]\<rparr>"
    using made by (auto simp: value_outputs_def Let_def decoded_data_def)
  then have "decoded_value v [] = v" by (simp add: decoded_value_def kindHasStringList_def value_plain_def)
  then show ?thesis using that complete_delivers [OF r] by metis
qed

definition node_value_after :: "(string \<Rightarrow> FileInfo) \<Rightarrow> 64 word \<Rightarrow> BuildNode \<Rightarrow> BuildValue option" where
  "node_value_after stat epoch node =
     (if stands_for_no_file node then Some makeVirtualInput
      else if isMissing (info_of stat epoch node) then Some makeMissingOutput
      else makeExistingInput (info_of stat epoch node))"

lemma node_value_delivers:
  assumes "\<forall>p. info_ok (stat p)"
  obtains w d where "node_value_after stat epoch node = Some w" "complete w = Some [CompleteTask d False]" "fromData d = Some w"
    "bv_kind w \<noteq> Invalid"
proof -
  have plain: "\<exists>d. complete (value_plain k 0) = Some [CompleteTask d False] \<and> fromData d = Some (value_plain k 0)"
    if "k = VirtualInput \<or> k = MissingOutput" for k
  proof -
    have "kind_ok k" "\<not> kindHasStringList (value_plain k 0)" using that by (auto simp: kind_ok_def kindHasStringList_def value_plain_def)
    then show ?thesis using plain_delivers [of k] by metis
  qed
  consider "stands_for_no_file node" | "\<not> stands_for_no_file node" "isMissing (info_of stat epoch node)"
    | "\<not> stands_for_no_file node" "\<not> isMissing (info_of stat epoch node)" by blast
  then show ?thesis
  proof cases
    case 1
    then show ?thesis using that plain [of VirtualInput] by (auto simp: node_value_after_def makeVirtualInput_def value_plain_def)
  next
    case 2
    then show ?thesis using that plain [of MissingOutput] by (auto simp: node_value_after_def makeMissingOutput_def value_plain_def)
  next
    case 3
    obtain w where w: "makeExistingInput (info_of stat epoch node) = Some w" "bv_kind w = ExistingInput"
      using makeExistingInput_info [OF 3(2)] by metis
    obtain d where "complete w = Some [CompleteTask d False]" "fromData d = Some w"
      using existing_delivers [OF info_of_ok [OF assms] 3(2) w(1)] .
    then show ?thesis using that [of w d] 3 w by (simp add: node_value_after_def)
  qed
qed

lemma getResultForOutput_after:
  assumes "length (ec_outputs c) < 2 ^ 32" "node \<in> set (ec_outputs c)" "\<forall>n \<in> set (ec_outputs c). bn_name n = bn_name node \<longrightarrow> n = node"
    and "rep v (result_infos stat epoch c) []" "bv_kind v = SuccessfulCommand" "external_part b = Some c"
  shows "command_getResultForOutput b node v = node_value_after stat epoch node"
proof -
  obtain i where i: "index_of (bn_name node) (ec_outputs c) = Some i" "i < length (ec_outputs c)" "ec_outputs c ! i = node"
    using index_of_node [OF assms(2,3)] .
  have "getNthOutputInfo v i = Some (info_of stat epoch node)"
    using rep_nth [OF assms(4), of i] result_infos_nth [OF i(2), of stat epoch] i(3) assms(5)
    by (simp add: kindHasOutputInfo_def isSuccessfulCommand_def)
  then show ?thesis
    using i(1) assms(5) unfolding command_getResultForOutput_external [OF assms(6)]
    by (auto simp: external_getResultForOutput_def node_value_after_def stands_for_no_file_def isSuccessfulCommand_def)
qed

text \<open>
  The result a command computes survives being stored, and the task of each of its outputs reads it back
  and completes with a value that is read back in turn.
\<close>

lemma produced_value:
  assumes "length (ec_outputs c) < 2 ^ 32" "\<forall>n \<in> set (ec_outputs c). bn_name n = bn_name node \<longrightarrow> n = node" "\<forall>p. info_ok (stat p)"
    and "node \<in> set (ec_outputs c)" "getCommand chosen node = Some name" "external_part (command name) = Some c"
  shows "\<exists>v d e w. computeCommandResult stat epoch c = Some v \<and> toData v = Some d \<and>
     produced_run chosen command node d = Some [CompleteTask e False] \<and>
     fromData e = Some w \<and> node_value_after stat epoch node = Some w"
proof -
  obtain v where v: "computeCommandResult stat epoch c = Some v" "bv_kind v = SuccessfulCommand"
    using computeCommandResult_nth [OF assms(1), of stat epoch] by metis
  have r: "rep v (result_infos stat epoch c) []" using result_rep [OF assms(1,3) v(1)] .
  let ?v = "decoded_value v []"
  have "bv_kind ?v = SuccessfulCommand" using v(2) by (simp add: decoded_value_def)
  then have after: "command_getResultForOutput (command name) node ?v = node_value_after stat epoch node"
    using getResultForOutput_after [OF assms(1,4,2) decoded_same(1) [OF r] _ assms(6)] by simp
  obtain w e where w: "node_value_after stat epoch node = Some w" "complete w = Some [CompleteTask e False]" "fromData e = Some w"
    "bv_kind w \<noteq> Invalid"
    using node_value_delivers [OF assms(3), of epoch node] .
  have "produced_run chosen command node (code_value v (result_infos stat epoch c) []) = Some [CompleteTask e False]"
    using produced_run_result [OF assms(5) fromData_code [OF r]] after w by simp
  then show ?thesis using v(1) toData_code [OF r] w by blast
qed

section \<open>Directory nodes\<close>

text \<open>One rule asks for another while its task starts.\<close>

definition asks :: "endian \<Rightarrow> Hash \<Rightarrow> BuildDescription \<Rightarrow> EngineDelegate \<Rightarrow> KeyType \<Rightarrow> KeyType \<Rightarrow> bool" where
  "asks en H bd ed key key1 \<longleftrightarrow>
     (\<exists>rule ed1 es k. lookupRule en H bd key ed = Some (rule, ed1) \<and> rule_start en (\<lambda>n. None) (br_action rule) = Some es \<and>
        RequestInput key1 k \<in> set es)"

lemma signature_key_no_patterns: "makeDirectoryTreeSignatureKey en p empty_StringList = make_key en (SDirectoryTreeSignature p [])"
proof -
  obtain l where l: "StringList_values [] = Some l" by (simp add: StringList_values_def)
  have "StringList_encode l [] = StringList_encode empty_StringList []"
    using StringList_encode_code [OF holds_values [OF l], of "[]"] StringList_encode_code [OF holds_empty, of "[]"] by simp
  then show ?thesis using l by (simp add: makeDirectoryTreeSignatureKey_def)
qed

lemma getValues_Nil: "getValues l = Some [] \<Longrightarrow> isEmpty_StringList l"
  by (auto simp: getValues_def isEmpty_StringList_def getValues_loop.simps [of _ _ 0] split: option.splits if_splits bind_splits)

lemma directory_node_asks:
  assumes "bd_nodes bd p = Some ((new_node p NodeDirectory))" "make_key en (SDirectoryTreeSignature (without_slash p) []) = Some sig"
  shows "asks en H bd ed (makeNode p) sig"
proof -
  have "the_node bd ed p = new_node p NodeDirectory" using assms(1) by (simp add: the_node_def)
  then obtain rule ed1 where "lookupRule en H bd (makeNode p) ed = Some (rule, ed1)"
    "br_action rule = node_action (new_node p NodeDirectory)"
    using lookup_answered [of en "SNode p" "makeNode p" H bd ed] by (auto simp: Let_def node_action_task)
  moreover have "rule_start en (\<lambda>n. None) (node_action (new_node p NodeDirectory)) = Some [RequestInput sig 0]"
    using assms(2) signature_key_no_patterns [of en "without_slash p"]
    by (simp add: node_action_def new_node_def isVirtual_def isDirectoryNode_def rule_start_def new_directory_input_def
        directoryInput_start_def performUnblockedRequest_def)
  ultimately show ?thesis by (auto simp: asks_def)
qed

lemma signature_asks:
  assumes "make_key en (SDirectoryTreeSignature q []) = Some sig" "13 + length q < 2 ^ 32"
  shows "asks en H bd ed sig (makeDirectoryContentsKey q)"
proof -
  obtain rule ed1 s where r: "lookupRule en H bd sig ed = Some (rule, ed1)" "br_action rule = DirectoryTreeSignatureAction q s" "filters_of s []"
    using lookup_answered [OF assms(1), of H bd ed] assms(2) by (auto simp: pack_def)
  then obtain l where "decode_filters s = Some l" "isEmpty_StringList l" using getValues_Nil by (auto simp: filters_of_def)
  then show ?thesis using r by (auto simp: asks_def rule_start_def tree_start_def new_tree_task_def)
qed

lemma contents_asks: "asks en H bd ed (makeDirectoryContentsKey q) (makeNode q)"
  using lookup_answered [of en "SDirectoryContents q" "makeDirectoryContentsKey q" H bd ed]
  by (auto simp: asks_def rule_start_def contents_start_def new_directory_contents_def)

text \<open>
  C25. A declared directory node asks for the signature of its tree, that for the contents of the
  directory, and that for the node of the directory's path, which is the name of the node without its
  last slash.  So a node of directory type whose name has no slash at the end, or is the root, waits
  for itself: the build runs into a cycle.
\<close>

theorem directory_node_cycle:
  assumes "bd_nodes bd p = Some (new_node p NodeDirectory)" "13 + length p < 2 ^ 32"
  shows "\<exists>sig. asks en H bd ed (makeNode p) sig \<and> asks en H bd ed sig (makeDirectoryContentsKey (without_slash p)) \<and>
     asks en H bd ed (makeDirectoryContentsKey (without_slash p)) (makeNode (without_slash p)) \<and>
     (makeNode (without_slash p) = makeNode p \<longleftrightarrow> p = [] \<or> last p \<noteq> SLASH \<or> p = ''/'')"
proof -
  have short: "13 + length (without_slash p) < 2 ^ 32" using assms(2) by (auto simp: without_slash_def)
  then obtain sig where sig: "make_key en (SDirectoryTreeSignature (without_slash p) []) = Some sig"
    using tree_signature_made [of "[]" "without_slash p" en] by (auto simp: pack_def)
  have "makeNode (without_slash p) = makeNode p \<longleftrightarrow> without_slash p = p" by (simp add: makeNode_def key_simple_def)
  moreover have "butlast p \<noteq> p" if "p \<noteq> []" using that by (metis append_butlast_last_id not_Cons_self2 self_append_conv)
  ultimately have "makeNode (without_slash p) = makeNode p \<longleftrightarrow> p = [] \<or> last p \<noteq> SLASH \<or> p = ''/''"
    by (auto simp: without_slash_def)
  then show ?thesis
    using directory_node_asks [OF assms(1) sig] signature_asks [OF sig short] contents_asks by blast
qed

theorem directory_node_cycle_witness:
  "\<exists>sig. asks Little sample_hash (addNode (new_node ''src'' NodeDirectory) empty_description) new_engine_delegate (makeNode ''src'') sig \<and>
     asks Little sample_hash (addNode (new_node ''src'' NodeDirectory) empty_description) new_engine_delegate
       (makeDirectoryContentsKey ''src'') (makeNode ''src'')"
proof -
  have bd: "bd_nodes (addNode (new_node ''src'' NodeDirectory) empty_description) ''src'' = Some (new_node ''src'' NodeDirectory)"
    by (simp add: addNode_def new_node_def)
  moreover have "without_slash ''src'' = ''src''" by (simp add: without_slash_def)
  ultimately show ?thesis
    using directory_node_cycle [OF bd, of Little sample_hash new_engine_delegate] by auto
qed

section \<open>Entry points\<close>

text \<open>The version of the database schema repeats when the version of the client reaches its bound.\<close>

lemma schema_version_repeats: "getMergedSchemaVersion 65536 = getMergedSchemaVersion 0" "getMergedSchemaVersion 0 = Some 9"
  by code_simp+

text \<open>A cancelled build delivers an empty value, which counts as success.\<close>

lemma cancelled_build_succeeds:
  assumes "bd_targets bd target \<noteq> None" "target \<noteq> []"
  shows "build_target True (\<lambda>key. ([], False)) (Some bd) target = Some (True, [])"
  using assms by (auto simp: build_target_def build_key_def fromData_def Let_def decode_BuildValue_def isEmpty_decoder_def new_decoder_def)

text \<open>The result of a lookup for the handler of a tool is kept, also that there is none.\<close>

lemma handler_kept:
  "resolveShellCommandHandler provide1 args (snd (resolveShellCommandHandler provide args cache)) =
     (fst (resolveShellCommandHandler provide args cache), snd (resolveShellCommandHandler provide args cache))"
  by (cases args) (auto simp: resolveShellCommandHandler_def split: option.splits)

end
