(* ===== verification/Build_File_Properties.thy ===== *)
theory Build_File_Properties
  imports Build_File Build_Properties
begin

text \<open>
  What loading a build file guarantees: the description is closed, commands and nodes agree on who
  produces what, and the ownership analysis finds every conflict.
\<close>

section \<open>Attributes do not touch the nodes of a command\<close>

definition same_nodes :: "BuildCommand \<Rightarrow> BuildCommand \<Rightarrow> bool" where
  "same_nodes c d \<longleftrightarrow> command_getInputs c = command_getInputs d \<and> command_getOutputs c = command_getOutputs d \<and>
     isExternalCommand c = isExternalCommand d"

lemma truncate_nodes [simp]:
  "ec_inputs (ExternalCommand.truncate c) = ec_inputs c" "ec_outputs (ExternalCommand.truncate c) = ec_outputs c"
  by (simp_all add: ExternalCommand.truncate_def)

lemma extend_nodes [simp]:
  "ec_inputs (ExternalCommand.extend e m) = ec_inputs e" "ec_outputs (ExternalCommand.extend e m) = ec_outputs e"
  by (simp_all add: ExternalCommand.extend_def)

lemma set_bool_keeps: "f yes = f x \<Longrightarrow> f no = f x \<Longrightarrow> f (fst (outcome (set_bool name val x yes no))) = f x"
  by (simp add: set_bool_def)

lemma external_attribute_nodes:
  "ec_inputs (fst (outcome (external_attribute name val c))) = ec_inputs c"
  "ec_outputs (fst (outcome (external_attribute name val c))) = ec_outputs c"
  by (auto simp: external_attribute_def set_bool_def)

lemma accepted_nodes:
  "external_attribute name val e = Accepted e1 \<Longrightarrow> ec_inputs e1 = ec_inputs e \<and> ec_outputs e1 = ec_outputs e"
  using external_attribute_nodes [of name val e] by simp

lemma shell_attribute_nodes:
  "ec_inputs (fst (outcome (shell_attribute absolute name val c))) = ec_inputs c"
  "ec_outputs (fst (outcome (shell_attribute absolute name val c))) = ec_outputs c"
  by (auto simp: shell_attribute_def set_bool_def dest!: accepted_nodes split: Configured.splits)

lemma clang_attribute_nodes:
  "ec_inputs (fst (outcome (clang_attribute name val c))) = ec_inputs c"
  "ec_outputs (fst (outcome (clang_attribute name val c))) = ec_outputs c"
  by (auto simp: clang_attribute_def dest!: accepted_nodes split: Configured.splits)

lemma archive_attribute_nodes:
  "ec_inputs (fst (outcome (archive_attribute name val c))) = ec_inputs c"
  "ec_outputs (fst (outcome (archive_attribute name val c))) = ec_outputs c"
  by (auto simp: archive_attribute_def dest!: accepted_nodes split: Configured.splits)

lemma swift_attribute_nodes:
  "ec_inputs (fst (outcome (swift_attribute name val c))) = ec_inputs c"
  "ec_outputs (fst (outcome (swift_attribute name val c))) = ec_outputs c"
  by (auto simp: swift_attribute_def set_bool_def dest!: accepted_nodes split: Configured.splits option.splits)

lemma list_attribute_nodes:
  "ec_inputs (fst (outcome (shell_attribute_list name vals s))) = ec_inputs s"
  "ec_outputs (fst (outcome (shell_attribute_list name vals s))) = ec_outputs s"
  "ec_inputs (fst (outcome (shell_attribute_map name pairs s))) = ec_inputs s"
  "ec_outputs (fst (outcome (shell_attribute_map name pairs s))) = ec_outputs s"
  "ec_inputs (fst (outcome (clang_attribute_list name vals c))) = ec_inputs c"
  "ec_outputs (fst (outcome (clang_attribute_list name vals c))) = ec_outputs c"
  "ec_inputs (fst (outcome (shared_attribute_list name vals h))) = ec_inputs h"
  "ec_outputs (fst (outcome (shared_attribute_list name vals h))) = ec_outputs h"
  "ec_inputs (fst (outcome (swift_attribute_list name vals w))) = ec_inputs w"
  "ec_outputs (fst (outcome (swift_attribute_list name vals w))) = ec_outputs w"
  "ec_inputs (fst (shared_attribute name val h)) = ec_inputs h"
  "ec_outputs (fst (shared_attribute name val h)) = ec_outputs h"
  "sl_inputs (fst (outcome (symlink_attribute name val l))) = sl_inputs l"
  "sl_outputs (fst (outcome (symlink_attribute name val l))) = sl_outputs l"
  by (simp_all add: shell_attribute_list_def shell_attribute_map_def clang_attribute_list_def shared_attribute_list_def
      swift_attribute_list_def shared_attribute_def symlink_attribute_def)

lemmas attribute_nodes = external_attribute_nodes shell_attribute_nodes clang_attribute_nodes archive_attribute_nodes
  swift_attribute_nodes list_attribute_nodes

lemma command_configureAttribute_nodes: "same_nodes (fst (command_configureAttribute absolute name val c)) c"
  by (cases c; cases val)
    (simp_all add: same_nodes_def command_configureAttribute_def with_command_def isExternalCommand_def attribute_nodes
      case_prod_beta)

lemma command_configureDescription_nodes: "same_nodes (command_configureDescription d c) c"
  by (cases c) (simp_all add: same_nodes_def isExternalCommand_def)

lemma command_configureInputs_nodes:
  "command_getOutputs (fst (command_configureInputs ns c)) = command_getOutputs c"
  "isExternalCommand (fst (command_configureInputs ns c)) = isExternalCommand c"
  "set (command_getInputs (fst (command_configureInputs ns c))) \<subseteq> set (command_getInputs c) \<union> set ns"
  by (cases c; simp add: isExternalCommand_def reported_def archive_configureInputs_def shared_configureInputs_def
      symlink_configureInputs_def Let_def)+

lemma symlink_outputs:
  "sl_inputs (case symlink_configureOutputs ns c of Accepted x \<Rightarrow> x | Refused msg x \<Rightarrow> x) = sl_inputs c"
  "set (sl_outputs (case symlink_configureOutputs ns c of Accepted x \<Rightarrow> x | Refused msg x \<Rightarrow> x)) \<subseteq> set (sl_outputs c) \<union> set ns"
  by (auto simp: symlink_configureOutputs_def split: list.split)

lemma reported_eq: "fst (reported f r) = f (case r of Accepted x \<Rightarrow> x | Refused msg x \<Rightarrow> x)"
  by (simp add: reported_def split: Configured.split)

lemmas outputs_defs = isExternalCommand_def reported_eq symlink_outputs archive_configureOutputs_def shared_configureOutputs_def
  Let_def case_prod_beta

lemma command_configureOutputs_nodes:
  "command_getInputs (fst (command_configureOutputs ns c)) = command_getInputs c"
  "isExternalCommand (fst (command_configureOutputs ns c)) = isExternalCommand c"
  "isExternalCommand c \<Longrightarrow> command_getOutputs (fst (command_configureOutputs ns c)) = command_getOutputs c @ ns"
  "set (command_getOutputs (fst (command_configureOutputs ns c))) \<subseteq> set (command_getOutputs c) \<union> set ns"
  subgoal by (cases c) (simp_all add: outputs_defs)
  subgoal by (cases c) (simp_all add: outputs_defs)
  subgoal by (cases c) (simp_all add: outputs_defs)
  subgoal by (cases c) (simp_all add: outputs_defs)
  done

lemma createCommand_nodes: "command_getInputs (createCommand t name) = []" "command_getOutputs (createCommand t name) = []"
  by (cases "tool_kind t"; simp add: createCommand_def new_external_command_def new_shell_command_def new_clang_command_def
      new_symlink_command_def new_archive_command_def new_shared_library_command_def new_swift_command_def
      ExternalCommand.defs)+

section \<open>The invariant of the loader\<close>

definition nodes_ok :: "(string \<rightharpoonup> BuildNode) \<Rightarrow> string set \<Rightarrow> bool" where
  "nodes_ok nodes commands \<longleftrightarrow> (\<forall>name n. nodes name = Some n \<longrightarrow> bn_name n = name \<and> set (bn_producers n) \<subseteq> commands)"

definition targets_ok :: "(string \<rightharpoonup> BuildNode) \<Rightarrow> (string \<rightharpoonup> string list) \<Rightarrow> string \<Rightarrow> bool" where
  "targets_ok nodes targets dflt \<longleftrightarrow>
     (\<forall>t names. targets t = Some names \<longrightarrow> set names \<subseteq> dom nodes) \<and> (dflt = [] \<or> targets dflt \<noteq> None)"

text \<open>The producers recorded in the nodes are the commands that have them as outputs.\<close>

definition command_ok :: "(string \<rightharpoonup> BuildNode) \<Rightarrow> string \<Rightarrow> BuildCommand \<Rightarrow> bool" where
  "command_ok nodes name c \<longleftrightarrow>
     bn_name ` set (command_getInputs c) \<subseteq> dom nodes \<and> bn_name ` set (command_getOutputs c) \<subseteq> dom nodes \<and>
     (isExternalCommand c \<longrightarrow>
       (\<forall>m n. nodes m = Some n \<longrightarrow> (name \<in> set (bn_producers n) \<longleftrightarrow> m \<in> bn_name ` set (command_getOutputs c))))"

definition loader_ok :: "(string \<rightharpoonup> BuildNode) \<Rightarrow> (string \<rightharpoonup> string list) \<Rightarrow> string \<Rightarrow> (string \<times> BuildCommand) list \<Rightarrow> bool" where
  "loader_ok nodes targets dflt cs \<longleftrightarrow>
     nodes_ok nodes (fst ` set cs) \<and> targets_ok nodes targets dflt \<and> distinct (map fst cs) \<and>
     (\<forall>(name, c) \<in> set cs. command_ok nodes name c)"

abbreviation file_ok :: "BuildFileImpl \<Rightarrow> (string \<times> BuildCommand) list \<Rightarrow> bool" where
  "file_ok bf cs \<equiv> loader_ok (bf_nodes bf) (bf_targets bf) (bf_defaultTarget bf) cs"

lemma loader_okD:
  assumes "loader_ok nodes targets dflt cs"
  shows "nodes_ok nodes (fst ` set cs)" "targets_ok nodes targets dflt" "distinct (map fst cs)"
    "\<And>name c. (name, c) \<in> set cs \<Longrightarrow> command_ok nodes name c"
  using assms by (auto simp: loader_ok_def)

lemma command_okD:
  assumes "command_ok nodes name c"
  shows "bn_name ` set (command_getInputs c) \<subseteq> dom nodes" "bn_name ` set (command_getOutputs c) \<subseteq> dom nodes"
    "\<And>m n. isExternalCommand c \<Longrightarrow> nodes m = Some n \<Longrightarrow>
       (name \<in> set (bn_producers n)) = (m \<in> bn_name ` set (command_getOutputs c))"
  using assms unfolding command_ok_def by simp_all

lemma nodes_okD:
  assumes "nodes_ok nodes commands" "nodes m = Some n"
  shows "bn_name n = m" "set (bn_producers n) \<subseteq> commands"
  using assms unfolding nodes_ok_def by simp_all

lemma loader_ok_replace:
  assumes "loader_ok nodes targets dflt (cs @ [(name, c)])" "command_ok nodes name c1"
  shows "loader_ok nodes targets dflt (cs @ [(name, c1)])"
  using assms by (auto simp: loader_ok_def)

lemma command_ok_same: "same_nodes c1 c \<Longrightarrow> command_ok nodes name c1 = command_ok nodes name c"
  by (simp add: same_nodes_def command_ok_def)

text \<open>Nodes are added as they are mentioned.\<close>

definition extends :: "(string \<rightharpoonup> BuildNode) \<Rightarrow> (string \<rightharpoonup> BuildNode) \<Rightarrow> bool" where
  "extends nodes nodes1 \<longleftrightarrow> (\<forall>m. nodes1 m = nodes m \<or> nodes m = None \<and> nodes1 m = Some (createNode m))"

lemma createNode_fields [simp]: "bn_name (createNode m) = m" "bn_producers (createNode m) = []"
  by (simp_all add: createNode_def new_node_def)

lemma extends_dom: "extends nodes nodes1 \<Longrightarrow> dom nodes \<subseteq> dom nodes1"
  unfolding extends_def by (metis domIff subsetI)

lemma extends_trans: "extends a b \<Longrightarrow> extends b c \<Longrightarrow> extends a c"
  unfolding extends_def by metis

lemma extends_command_ok:
  assumes "extends nodes nodes1" "command_ok nodes name c"
  shows "command_ok nodes1 name c"
proof -
  have "(name \<in> set (bn_producers n)) = (m \<in> bn_name ` set (command_getOutputs c))" if "nodes1 m = Some n" "isExternalCommand c" for m n
  proof (cases "nodes m")
    case None
    then have "n = createNode m" using assms(1) that(1) unfolding extends_def by (metis option.inject option.distinct(1))
    moreover have "m \<notin> bn_name ` set (command_getOutputs c)" using assms(2) None unfolding command_ok_def by blast
    ultimately show ?thesis by simp
  next
    case (Some n1)
    then have "nodes m = Some n" using assms(1) that(1) unfolding extends_def by (metis option.distinct(1))
    then show ?thesis using assms(2) that(2) unfolding command_ok_def by blast
  qed
  moreover have "bn_name ` set (command_getInputs c) \<subseteq> dom nodes1" "bn_name ` set (command_getOutputs c) \<subseteq> dom nodes1"
    using assms(2) extends_dom [OF assms(1)] unfolding command_ok_def by (meson subset_trans)+
  ultimately show ?thesis by (simp add: command_ok_def)
qed

lemma extends_ok:
  assumes "extends nodes nodes1" "loader_ok nodes targets dflt cs"
  shows "loader_ok nodes1 targets dflt cs"
proof -
  note ok = loader_okD [OF assms(2)]
  have "bn_name n = m \<and> set (bn_producers n) \<subseteq> fst ` set cs" if "nodes1 m = Some n" for m n
    using ok(1) assms(1) that unfolding extends_def nodes_ok_def
    by (metis createNode_fields empty_subsetI list.set(1) option.inject)
  moreover have "targets_ok nodes1 targets dflt" using ok(2) extends_dom [OF assms(1)] unfolding targets_ok_def by blast
  ultimately show ?thesis using ok(3,4) extends_command_ok [OF assms(1)] by (auto simp: loader_ok_def nodes_ok_def)
qed

lemma report_fields [simp]:
  "bf_nodes (report msg bf) = bf_nodes bf" "bf_targets (report msg bf) = bf_targets bf"
  "bf_defaultTarget (report msg bf) = bf_defaultTarget bf" "bf_commands (report msg bf) = bf_commands bf"
  "bf_nodes (complain msgs bf) = bf_nodes bf" "bf_targets (complain msgs bf) = bf_targets bf"
  "bf_defaultTarget (complain msgs bf) = bf_defaultTarget bf" "bf_commands (complain msgs bf) = bf_commands bf"
  by (simp_all add: report_def complain_def)

text \<open>What stays as it is while names and attribute values are read.\<close>

definition frame :: "BuildFileImpl \<Rightarrow> BuildFileImpl \<Rightarrow> bool" where
  "frame bf bf1 \<longleftrightarrow> bf_targets bf1 = bf_targets bf \<and> bf_defaultTarget bf1 = bf_defaultTarget bf \<and> bf_commands bf1 = bf_commands bf"

definition still :: "BuildFileImpl \<Rightarrow> BuildFileImpl \<Rightarrow> bool" where
  "still bf bf1 \<longleftrightarrow> frame bf bf1 \<and> bf_nodes bf1 = bf_nodes bf"

lemma still_refl [simp]: "still bf bf" by (simp add: still_def frame_def)

lemma still_report [simp]: "still bf (report msg bf1) = still bf bf1" "still bf (complain msgs bf1) = still bf bf1"
  by (simp_all add: still_def frame_def)

lemma still_report_left [simp]: "still (report msg bf) bf1 = still bf bf1" "still (complain msgs bf) bf1 = still bf bf1"
  by (simp_all add: still_def frame_def)

lemma still_trans: "still a b \<Longrightarrow> still b c \<Longrightarrow> still a c"
  by (simp add: still_def frame_def)

lemma still_ok: "still bf bf1 \<Longrightarrow> file_ok bf1 cs = file_ok bf cs"
  by (simp add: still_def frame_def)

lemma getOrCreateNode_state:
  "extends (bf_nodes bf) (bf_nodes (snd (getOrCreateNode s bf)))" "frame bf (snd (getOrCreateNode s bf))"
  "s \<in> dom (bf_nodes (snd (getOrCreateNode s bf)))" "bf_nodes (snd (getOrCreateNode s bf)) s = Some (fst (getOrCreateNode s bf))"
  by (auto simp: getOrCreateNode_def extends_def frame_def split: option.split)

lemma node_names_state:
  assumes "node_names msg xs bf = (names, bf1)"
  shows "extends (bf_nodes bf) (bf_nodes bf1) \<and> frame bf bf1 \<and> set names \<subseteq> dom (bf_nodes bf1)"
  using assms
proof (induction xs arbitrary: bf names)
  case Nil
  then show ?case by (simp add: extends_def frame_def)
next
  case (Cons x xs)
  show ?case
  proof (cases "\<exists>s. x = YScalar s")
    case True
    then obtain s where x: "x = YScalar s" by blast
    let ?bf = "snd (getOrCreateNode s bf)"
    obtain ss where ss: "node_names msg xs ?bf = (ss, bf1)" "names = s # ss"
      using Cons.prems x by (cases "node_names msg xs ?bf") simp
    have "extends (bf_nodes bf) (bf_nodes bf1)" using Cons.IH [OF ss(1)] getOrCreateNode_state(1) extends_trans by blast
    moreover have "frame bf bf1" using Cons.IH [OF ss(1)] getOrCreateNode_state(2) [of bf s] by (simp add: frame_def)
    moreover have "s \<in> dom (bf_nodes bf1)" using Cons.IH [OF ss(1)] getOrCreateNode_state(3) extends_dom by blast
    ultimately show ?thesis using Cons.IH [OF ss(1)] ss(2) by simp
  next
    case False
    then have "node_names msg xs (report msg bf) = (names, bf1)" using Cons.prems by (cases x) auto
    from Cons.IH [OF this] show ?thesis by (simp add: frame_def)
  qed
qed

lemma scalar_pairs_still: "still bf (snd (scalar_pairs attribute what ps bf))"
  by (induction attribute what ps bf rule: scalar_pairs.induct) (auto split: yaml.splits prod.splits)

lemma scalars_still: "still bf (snd (scalars msg xs bf))"
  by (induction msg xs bf rule: scalars.induct) (auto split: yaml.splits prod.splits)

lemma attribute_value_still: "still bf (snd (attribute_value thing what attribute v bf))"
  using scalar_pairs_still [of bf attribute what] scalars_still [of bf]
  by (cases v) (auto simp: attribute_value_def Let_def case_prod_beta)

section \<open>Commands\<close>

lemma add_producers_nodes:
  "fold (add_producer command) names nodes m =
     map_option (\<lambda>n. n\<lparr>bn_producers := bn_producers n @ replicate (count_list names m) command\<rparr>) (nodes m)"
proof (induction names arbitrary: nodes)
  case Nil
  then show ?case by (cases "nodes m") simp_all
next
  case (Cons x names)
  have "add_producer command x nodes m = map_option (\<lambda>n. n\<lparr>bn_producers := bn_producers n @ (if m = x then [command] else [])\<rparr>) (nodes m)"
    by (cases "nodes m") (auto simp: add_producer_def split: option.split)
  then show ?case using Cons.IH [of "add_producer command x nodes"] by (cases "nodes m") simp_all
qed

lemma count_list_replicate: "set (replicate (count_list names m) command) = (if m \<in> set names then {command} else {})"
  by (simp add: count_list_0_iff)

lemma add_producers_Some:
  assumes "fold (add_producer command) names nodes m = Some n1"
  obtains n where "nodes m = Some n" "bn_name n1 = bn_name n"
    "\<And>c. c \<in> set (bn_producers n1) \<longleftrightarrow> c \<in> set (bn_producers n) \<or> c = command \<and> m \<in> set names"
proof -
  obtain n where n: "nodes m = Some n" "n1 = n\<lparr>bn_producers := bn_producers n @ replicate (count_list names m) command\<rparr>"
    using assms by (auto simp: add_producers_nodes)
  then show ?thesis using that [of n] count_list_replicate [of names m command] by (auto simp: count_list_0_iff)
qed

lemma add_producers_dom: "dom (fold (add_producer command) names nodes) = dom nodes"
  by (auto simp: add_producers_nodes dom_def)

lemma add_producer_dom: "dom (add_producer command m nodes) = dom nodes"
  using add_producers_dom [of command "[m]"] by simp

lemma the_nodes_names:
  assumes "nodes_ok (bf_nodes bf) commands" "set names \<subseteq> dom (bf_nodes bf)"
  shows "bn_name ` set (the_nodes bf names) = set names"
proof -
  have "\<exists>n. bf_nodes bf m = Some n \<and> bn_name n = m" if "m \<in> set names" for m
    using assms that unfolding nodes_ok_def by blast
  moreover have "set (the_nodes bf names) = {n. \<exists>m \<in> set names. bf_nodes bf m = Some n}"
    by (force simp: the_nodes_def List.map_filter_def)
  moreover have "bn_name n = m" if "bf_nodes bf m = Some n" for m n using assms(1) that unfolding nodes_ok_def by blast
  ultimately show ?thesis by force
qed

lemma add_producers_other:
  assumes "command_ok nodes other c" "other \<noteq> name"
  shows "command_ok (fold (add_producer name) names nodes) other c"
proof -
  have "(other \<in> set (bn_producers n1)) = (m \<in> bn_name ` set (command_getOutputs c))"
    if "isExternalCommand c" "fold (add_producer name) names nodes m = Some n1" for m n1
    using add_producers_Some [OF that(2)] command_okD(3) [OF assms(1) that(1)] assms(2) by metis
  then show ?thesis using command_okD(1,2) [OF assms(1)] by (simp add: command_ok_def add_producers_dom)
qed

lemma add_producers_self:
  assumes "command_ok nodes name c" "set names \<subseteq> dom nodes" "bn_name ` set ns = set names"
  shows "command_ok (fold (add_producer name) names nodes) name (fst (command_configureOutputs ns c))"
proof -
  let ?c1 = "fst (command_configureOutputs ns c)"
  have "bn_name ` set (command_getOutputs ?c1) \<subseteq> bn_name ` set (command_getOutputs c) \<union> set names"
    using command_configureOutputs_nodes(4) [of ns c] assms(3) by blast
  then have "bn_name ` set (command_getOutputs ?c1) \<subseteq> dom nodes" using command_okD(2) [OF assms(1)] assms(2) by blast
  moreover have "(name \<in> set (bn_producers n)) = (m \<in> bn_name ` set (command_getOutputs ?c1))"
    if ex: "isExternalCommand c" and sm: "fold (add_producer name) names nodes m = Some n" for m n
  proof -
    obtain n0 where n0: "nodes m = Some n0" "(name \<in> set (bn_producers n)) = (name \<in> set (bn_producers n0) \<or> m \<in> set names)"
      using add_producers_Some [OF sm] by metis
    moreover have "bn_name ` set (command_getOutputs ?c1) = bn_name ` set (command_getOutputs c) \<union> set names"
      using command_configureOutputs_nodes(3) [OF ex, of ns] assms(3) by (simp add: image_Un)
    ultimately show ?thesis using command_okD(3) [OF assms(1) ex n0(1)] by simp
  qed
  ultimately show ?thesis
    using command_okD(1) [OF assms(1)] by (simp add: command_ok_def command_configureOutputs_nodes(1,2) add_producers_dom)
qed

lemma configure_outputs_ok:
  assumes "file_ok bf (cs @ [(name, c)])" "set names \<subseteq> dom (bf_nodes bf)"
  shows "file_ok (add_producers name names bf)
     (cs @ [(name, fst (command_configureOutputs (the_nodes (add_producers name names bf) names) c))])"
proof -
  note ok = loader_okD [OF assms(1)]
  let ?nodes = "fold (add_producer name) names (bf_nodes bf)"
  let ?c1 = "fst (command_configureOutputs (the_nodes (add_producers name names bf) names) c)"
  have nodes: "nodes_ok ?nodes (fst ` set (cs @ [(name, c)]))"
    unfolding nodes_ok_def
  proof (intro allI impI)
    fix m n1 assume "?nodes m = Some n1"
    from add_producers_Some [OF this] obtain n where n: "bf_nodes bf m = Some n" "bn_name n1 = bn_name n"
      "\<And>c. c \<in> set (bn_producers n1) \<longleftrightarrow> c \<in> set (bn_producers n) \<or> c = name \<and> m \<in> set names" by metis
    then show "bn_name n1 = m \<and> set (bn_producers n1) \<subseteq> fst ` set (cs @ [(name, c)])"
      using nodes_okD [OF ok(1) n(1)] by auto
  qed
  then have "nodes_ok (bf_nodes (add_producers name names bf)) (fst ` set (cs @ [(name, c)]))" by (simp add: add_producers_def)
  then have names: "bn_name ` set (the_nodes (add_producers name names bf) names) = set names"
    using the_nodes_names [of "add_producers name names bf"] assms(2) by (simp add: add_producers_def add_producers_dom)
  have "command_ok ?nodes name ?c1"
    using add_producers_self [OF _ assms(2) names] ok(4) [of name c] by simp
  moreover have "command_ok ?nodes other d" if "(other, d) \<in> set cs" for other d
  proof -
    have "other \<noteq> name" using ok(3) that by force
    then show ?thesis using add_producers_other ok(4) [of other d] that by simp
  qed
  moreover have "targets_ok ?nodes (bf_targets bf) (bf_defaultTarget bf)"
    using ok(2) by (simp add: targets_ok_def add_producers_dom)
  ultimately show ?thesis using nodes ok(3) by (auto simp: loader_ok_def add_producers_def)
qed

lemma frame_extends_ok: "frame bf bf1 \<Longrightarrow> extends (bf_nodes bf) (bf_nodes bf1) \<Longrightarrow> file_ok bf cs \<Longrightarrow> file_ok bf1 cs"
  using extends_ok by (simp add: frame_def)

text \<open>One key of a command, and all of them.\<close>

lemma command_key_ok:
  assumes "command_key absolute name k v c bf = (c1, ok, bf1)" "file_ok bf (bf_commands bf @ [(name, c)])"
  shows "file_ok bf1 (bf_commands bf1 @ [(name, c1)]) \<and> bf_commands bf1 = bf_commands bf"
proof -
  have unchanged: ?thesis if "still bf bf1" "same_nodes c1 c"
  proof -
    have "command_ok (bf_nodes bf) name c1" using loader_okD(4) [OF assms(2), of name c] command_ok_same [OF that(2)] by simp
    then show ?thesis using loader_ok_replace [OF assms(2)] still_ok [OF that(1)] that(1) by (simp add: still_def frame_def)
  qed
  have same: "same_nodes c c" by (simp add: same_nodes_def)
  consider (inputs) xs where "k = YScalar ''inputs''" "v = YSequence xs"
    | (outputs) xs where "k = YScalar ''outputs''" "v = YSequence xs"
    | (other) "\<not> (k = YScalar ''inputs'' \<and> (\<exists>xs. v = YSequence xs))" "\<not> (k = YScalar ''outputs'' \<and> (\<exists>xs. v = YSequence xs))"
    by blast
  then show ?thesis
  proof cases
    case inputs
    then obtain names bf2 where n: "node_names (''invalid node type in '' @ quoted ''inputs'' @ '' command key'') xs bf = (names, bf2)"
      by (cases "node_names (''invalid node type in '' @ quoted ''inputs'' @ '' command key'') xs bf")
    note st = node_names_state [OF n]
    have c1: "c1 = fst (command_configureInputs (the_nodes bf2 names) c)"
      and bf1: "bf1 = complain (snd (command_configureInputs (the_nodes bf2 names) c)) bf2"
      using assms(1) n inputs by (simp_all add: command_key_def case_prod_beta Let_def)
    have ok2: "file_ok bf2 (bf_commands bf2 @ [(name, c)])" using frame_extends_ok [of bf bf2] st assms(2) by (simp add: frame_def)
    have "bn_name ` set (the_nodes bf2 names) = set names" using the_nodes_names loader_okD(1) [OF ok2] st by blast
    then have "bn_name ` set (command_getInputs c1) \<subseteq> bn_name ` set (command_getInputs c) \<union> set names"
      using command_configureInputs_nodes(3) [of "the_nodes bf2 names" c] c1 by blast
    moreover have okc: "command_ok (bf_nodes bf2) name c" using loader_okD(4) [OF ok2, of name c] by simp
    ultimately have "bn_name ` set (command_getInputs c1) \<subseteq> dom (bf_nodes bf2)" using command_okD(1) [OF okc] st by blast
    then have "command_ok (bf_nodes bf2) name c1"
      using okc by (simp add: command_ok_def c1 command_configureInputs_nodes(1,2))
    then show ?thesis using loader_ok_replace [OF ok2] st bf1 by (simp add: frame_def)
  next
    case outputs
    then obtain names bf2 where n: "node_names (''invalid node type in '' @ quoted ''outputs'' @ '' command key'') xs bf = (names, bf2)"
      by (cases "node_names (''invalid node type in '' @ quoted ''outputs'' @ '' command key'') xs bf")
    note st = node_names_state [OF n]
    have ok2: "file_ok bf2 (bf_commands bf2 @ [(name, c)])" using frame_extends_ok [of bf bf2] st assms(2) by (simp add: frame_def)
    have c1: "c1 = fst (command_configureOutputs (the_nodes (add_producers name names bf2) names) c)"
      and bf1: "bf1 = complain (snd (command_configureOutputs (the_nodes (add_producers name names bf2) names) c)) (add_producers name names bf2)"
      using assms(1) n outputs by (simp_all add: command_key_def case_prod_beta Let_def)
    have "bf_commands (add_producers name names bf2) = bf_commands bf" using st by (simp add: add_producers_def frame_def)
    then show ?thesis using configure_outputs_ok [OF ok2, of names] st c1 bf1 by (simp add: frame_def)
  next
    case other
    have "still bf bf1 \<and> same_nodes c1 c"
      using assms(1) other attribute_value_still [of bf "''command''" "''commands''" _ v] command_configureAttribute_nodes same
        command_configureDescription_nodes
      by (cases k; cases v) (auto simp: command_key_def case_prod_beta split: if_splits option.splits)
    then show ?thesis using unchanged by blast
  qed
qed

lemma command_keys_ok:
  assumes "command_keys absolute name attrs c bf = (c1, ok, bf1)" "file_ok bf (bf_commands bf @ [(name, c)])"
  shows "file_ok bf1 (bf_commands bf1 @ [(name, c1)]) \<and> bf_commands bf1 = bf_commands bf"
  using assms
proof (induction attrs arbitrary: c bf)
  case (Cons kv attrs)
  obtain k v where kv: "kv = (k, v)" by (cases kv)
  obtain c2 ok2 bf2 where s: "command_key absolute name k v c bf = (c2, ok2, bf2)" using prod_cases3 by blast
  note st = command_key_ok [OF s Cons.prems(2)]
  show ?case
    using Cons.IH [of c2 bf2] Cons.prems(1) st s kv by (auto split: if_splits)
qed simp

section \<open>Sections\<close>

abbreviation bf_ok :: "BuildFileImpl \<Rightarrow> bool" where "bf_ok bf \<equiv> file_ok bf (bf_commands bf)"

lemma bf_ok_still: "still bf bf1 \<Longrightarrow> bf_ok bf1 = bf_ok bf"
  by (simp add: still_def frame_def)

lemma configure_all_keeps:
  assumes "configure_all f thing what attrs x bf = Some (y, ok, bf1)"
  shows "still bf bf1 \<and> ((\<forall>name a x y msgs ok. f name a x = Some (y, msgs, ok) \<longrightarrow> Q x \<longrightarrow> Q y) \<longrightarrow> Q x \<longrightarrow> Q y)"
  using assms
proof (induction attrs arbitrary: x bf)
  case (Cons kv attrs)
  obtain k v where kv: "kv = (k, v)" by (cases kv)
  show ?case
  proof (cases "\<exists>attribute. k = YScalar attribute")
    case True
    then obtain attribute where k: "k = YScalar attribute" by blast
    obtain value1 bf2 where a: "attribute_value thing what attribute v bf = (value1, bf2)" by (cases "attribute_value thing what attribute v bf")
    have st: "still bf bf2" using attribute_value_still [of bf thing what attribute v] a by simp
    show ?thesis
    proof (cases value1)
      case None
      then have "configure_all f thing what attrs x bf2 = Some (y, ok, bf1)" using Cons.prems kv k a by simp
      then show ?thesis using Cons.IH [of x bf2] still_trans [OF st] by blast
    next
      case (Some val)
      then obtain z msgs good where z: "f attribute val x = Some (z, msgs, good)"
        "(if good then configure_all f thing what attrs z (complain msgs bf2) else Some (z, False, complain msgs bf2)) = Some (y, ok, bf1)"
        using Cons.prems kv k a by (auto split: bind_splits)
      then show ?thesis
      proof (cases good)
        case True
        then have "configure_all f thing what attrs z (complain msgs bf2) = Some (y, ok, bf1)" using z(2) by simp
        note rest = Cons.IH [OF this]
        then have "still bf bf1" using still_trans [OF st] by simp
        then show ?thesis using rest z(1) by blast
      next
        case False
        then have "z = y" "bf1 = complain msgs bf2" using z(2) by simp_all
        then show ?thesis using z(1) st by (metis still_report(2))
      qed
    qed
  next
    case False
    then have "configure_all f thing what attrs x (report (in_map (''invalid key type for '' @ thing) what) bf) = Some (y, ok, bf1)"
      using Cons.prems kv by (cases k) simp_all
    from Cons.IH [OF this] show ?thesis by simp
  qed
qed simp

lemma getOrCreateTool_still: "still bf (snd (getOrCreateTool name bf))"
  by (auto simp: getOrCreateTool_def still_def frame_def split: option.split)

lemma parseToolsMapping_still: "parseToolsMapping m bf = Some (ok, bf1) \<Longrightarrow> still bf bf1"
proof (induction m arbitrary: bf)
  case (Cons kv m)
  obtain k v where kv: "kv = (k, v)" by (cases kv)
  show ?case
  proof (cases "\<exists>name attrs. k = YScalar name \<and> v = YMapping attrs")
    case True
    then obtain name attrs where e: "k = YScalar name" "v = YMapping attrs" by blast
    obtain tool bf2 where g: "getOrCreateTool name bf = (tool, bf2)" by (cases "getOrCreateTool name bf")
    have st: "still bf bf2" using getOrCreateTool_still [of bf name] g by simp
    show ?thesis
    proof (cases tool)
      case None
      then show ?thesis using Cons.prems kv e g st by simp
    next
      case (Some t)
      then obtain t1 good bf3 where c: "configure_all tool_configure ''tool'' ''tools'' attrs t bf2 = Some (t1, good, bf3)"
        using Cons.prems kv e g by (auto split: bind_splits)
      let ?bf4 = "bf3\<lparr>bf_tools := map (\<lambda>(n, x). (n, if n = name then t1 else x)) (bf_tools bf3)\<rparr>"
      have "still bf2 bf3" using configure_all_keeps [OF c] by blast
      then have "still bf ?bf4" using st by (simp add: still_def frame_def)
      moreover have "ok \<and> parseToolsMapping m ?bf4 = Some (ok, bf1) \<or> bf1 = ?bf4 \<or> parseToolsMapping m ?bf4 = Some (ok, bf1)"
        using Cons.prems kv e g Some c by (auto simp: Let_def split: if_splits)
      ultimately show ?thesis using Cons.IH [of ?bf4] still_trans by blast
    qed
  next
    case False
    then obtain msg where "parseToolsMapping m (report msg bf) = Some (ok, bf1)" using Cons.prems kv by (cases k; cases v) auto
    from Cons.IH [OF this] show ?thesis by simp
  qed
qed simp

lemma parseTargetsMapping_ok:
  assumes "bf_ok bf"
  shows "bf_ok (snd (parseTargetsMapping m bf))"
  using assms
proof (induction m arbitrary: bf)
  case (Cons kv m)
  obtain k v where kv: "kv = (k, v)" by (cases kv)
  show ?case
  proof (cases "\<exists>name xs. k = YScalar name \<and> v = YSequence xs")
    case True
    then obtain name xs where e: "k = YScalar name" "v = YSequence xs" by blast
    obtain names bf2 where n: "node_names (in_map ''invalid node type'' ''targets'') xs bf = (names, bf2)"
      by (cases "node_names (in_map ''invalid node type'' ''targets'') xs bf")
    note st = node_names_state [OF n]
    have ok2: "file_ok bf2 (bf_commands bf2)" using frame_extends_ok [of bf bf2] st Cons.prems by (simp add: frame_def)
    have "targets_ok (bf_nodes bf2) ((bf_targets bf2)(name \<mapsto> names)) (bf_defaultTarget bf2)"
      using loader_okD(2) [OF ok2] st by (auto simp: targets_ok_def)
    then have "bf_ok (bf2\<lparr>bf_targets := (bf_targets bf2)(name \<mapsto> names)\<rparr>)" using ok2 by (simp add: loader_ok_def)
    from Cons.IH [OF this] show ?thesis using kv e n by simp
  next
    case False
    then obtain msg where "parseTargetsMapping (kv # m) bf = parseTargetsMapping m (report msg bf)" using kv by (cases k; cases v) auto
    then show ?thesis using Cons.IH [of "report msg bf"] Cons.prems by simp
  qed
qed simp

lemma parseDefaultTarget_ok: "bf_ok bf \<Longrightarrow> bf_ok (snd (parseDefaultTarget t bf))"
  by (auto simp: parseDefaultTarget_def loader_ok_def targets_ok_def)

lemma parse_results_ok:
  "parseTargetsMapping m bf = (ok, bf1) \<Longrightarrow> bf_ok bf \<Longrightarrow> bf_ok bf1" "parseDefaultTarget t bf = (ok, bf1) \<Longrightarrow> bf_ok bf \<Longrightarrow> bf_ok bf1"
  using parseTargetsMapping_ok [of bf m] parseDefaultTarget_ok [of bf t] by simp_all

lemma node_configure_keeps:
  assumes "node_configure name a n = Some (n1, msgs, ok)"
  shows "bn_name n1 = bn_name n \<and> bn_producers n1 = bn_producers n"
proof -
  have *: "outcome r = (n1, msgs, ok) \<Longrightarrow> n1 = (case r of Accepted x \<Rightarrow> x | Refused msg x \<Rightarrow> x)" for r
    by (cases r) auto
  show ?thesis using assms
    by (cases a) (auto simp: node_attribute_def node_attribute_list_def node_attribute_map_def set_bool_def unless_type_def dest!: *
      split: if_splits bind_splits)
qed

lemma update_node_ok:
  assumes "loader_ok nodes targets dflt cs" "nodes m = Some n" "bn_name n1 = bn_name n" "bn_producers n1 = bn_producers n"
  shows "loader_ok (nodes(m \<mapsto> n1)) targets dflt cs"
proof -
  note ok = loader_okD [OF assms(1)]
  have dom: "dom (nodes(m \<mapsto> n1)) = dom nodes" using assms(2) by auto
  have "command_ok (nodes(m \<mapsto> n1)) name c" if c: "(name, c) \<in> set cs" for name c
  proof -
    have "(name \<in> set (bn_producers l)) = (j \<in> bn_name ` set (command_getOutputs c))"
      if "isExternalCommand c" "(nodes(m \<mapsto> n1)) j = Some l" for j l
      using command_okD(3) [OF ok(4) [OF c] that(1), of j] command_okD(3) [OF ok(4) [OF c] that(1) assms(2)] that(2) assms(4)
      by (cases "j = m") simp_all
    then show ?thesis using command_okD(1,2) [OF ok(4) [OF c]] unfolding command_ok_def dom by blast
  qed
  moreover have "nodes_ok (nodes(m \<mapsto> n1)) (fst ` set cs)"
    using ok(1) nodes_okD [OF ok(1) assms(2)] assms(3,4) by (simp add: nodes_ok_def)
  moreover have "targets_ok (nodes(m \<mapsto> n1)) targets dflt" using ok(2) unfolding targets_ok_def dom .
  ultimately show ?thesis using ok(3) by (auto simp: loader_ok_def)
qed

lemma parseNodesMapping_ok: "parseNodesMapping m bf = Some (ok, bf1) \<Longrightarrow> bf_ok bf \<Longrightarrow> bf_ok bf1"
proof (induction m arbitrary: bf)
  case (Cons kv m)
  obtain k v where kv: "kv = (k, v)" by (cases kv)
  show ?case
  proof (cases "\<exists>name attrs. k = YScalar name \<and> v = YMapping attrs")
    case True
    then obtain name attrs where e: "k = YScalar name" "v = YMapping attrs" by blast
    obtain node bf2 where g: "getOrCreateNode name bf = (node, bf2)" by (cases "getOrCreateNode name bf")
    have st: "extends (bf_nodes bf) (bf_nodes bf2)" "frame bf bf2" "bf_nodes bf2 name = Some node"
      using getOrCreateNode_state [where bf = bf and s = name] g by simp_all
    have ok2: "bf_ok bf2" using frame_extends_ok [OF st(2,1)] Cons.prems(2) st(2) by (simp add: frame_def)
    obtain n1 good bf3 where c: "configure_all node_configure ''node'' ''nodes'' attrs node bf2 = Some (n1, good, bf3)"
      using Cons.prems(1) kv e g by (auto split: bind_splits)
    have keeps: "bn_name n1 = bn_name node \<and> bn_producers n1 = bn_producers node"
      using configure_all_keeps [OF c, of "\<lambda>n. bn_name n = bn_name node \<and> bn_producers n = bn_producers node"] node_configure_keeps by metis
    have "still bf2 bf3" using configure_all_keeps [OF c, of "\<lambda>_. True"] by blast
    then have ok3: "bf_ok bf3" "bf_nodes bf3 name = Some node" using bf_ok_still ok2 st(3) by (simp_all add: still_def)
    let ?bf4 = "bf3\<lparr>bf_nodes := (bf_nodes bf3)(name \<mapsto> n1)\<rparr>"
    have ok4: "bf_ok ?bf4" using update_node_ok [OF ok3] keeps by simp
    have "bf1 = ?bf4 \<or> parseNodesMapping m ?bf4 = Some (ok, bf1)"
      using Cons.prems(1) kv e g c by (auto simp: Let_def split: if_splits)
    then show ?thesis using Cons.IH [OF _ ok4] ok4 by blast
  next
    case False
    then obtain msg where "parseNodesMapping m (report msg bf) = Some (ok, bf1)" using Cons.prems(1) kv by (cases k; cases v) auto
    from Cons.IH [OF this] show ?thesis using Cons.prems(2) by simp
  qed
qed simp

lemma parse_command_ok:
  assumes "bf_ok bf"
  shows "bf_ok (snd (parse_command absolute name attrs bf)) \<or> \<not> fst (parse_command absolute name attrs bf)"
proof (cases "\<exists>toolName rest. name \<notin> fst ` set (bf_commands bf) \<and> attrs = (YScalar ''tool'', YScalar toolName) # rest")
  case True
  then obtain toolName rest where e: "name \<notin> fst ` set (bf_commands bf)" "attrs = (YScalar ''tool'', YScalar toolName) # rest" by blast
  obtain tool bf2 where g: "getOrCreateTool toolName bf = (tool, bf2)" by (cases "getOrCreateTool toolName bf")
  have st: "still bf bf2" using getOrCreateTool_still [of bf toolName] g by simp
  show ?thesis
  proof (cases tool)
    case None
    then show ?thesis using e g by (simp add: parse_command_def)
  next
    case (Some t)
    have ok2: "bf_ok bf2" "bf_commands bf2 = bf_commands bf" using bf_ok_still [OF st] assms st by (simp_all add: still_def frame_def)
    note ok = loader_okD [OF ok2(1)]
    have "command_ok (bf_nodes bf2) name (createCommand t name)"
      using nodes_okD(2) [OF ok(1)] e(1) ok2(2) by (fastforce simp: command_ok_def createCommand_nodes)
    moreover have "nodes_ok (bf_nodes bf2) (fst ` set (bf_commands bf2 @ [(name, createCommand t name)]))"
      using ok(1) by (auto simp: nodes_ok_def)
    ultimately have start: "file_ok bf2 (bf_commands bf2 @ [(name, createCommand t name)])"
      using ok e(1) ok2(2) by (auto simp: loader_ok_def)
    obtain c good bf3 where c: "command_keys absolute name rest (createCommand t name) bf2 = (c, good, bf3)" using prod_cases3 by blast
    have "file_ok bf3 (bf_commands bf3 @ [(name, c)])" using command_keys_ok [OF c start] by blast
    then show ?thesis using e g Some c by (auto simp: parse_command_def)
  qed
next
  case False
  then have "\<exists>msg. parse_command absolute name attrs bf = (True, report msg bf)"
    by (cases attrs; cases "snd (hd attrs)") (auto simp: parse_command_def)
  then show ?thesis using assms by auto
qed

lemma parseCommandsMapping_ok:
  assumes "bf_ok bf"
  shows "bf_ok (snd (parseCommandsMapping absolute m bf)) \<or> \<not> fst (parseCommandsMapping absolute m bf)"
  using assms
proof (induction m arbitrary: bf)
  case (Cons kv m)
  obtain k v where kv: "kv = (k, v)" by (cases kv)
  show ?case
  proof (cases "\<exists>name attrs. k = YScalar name \<and> v = YMapping attrs")
    case True
    then obtain name attrs where e: "k = YScalar name" "v = YMapping attrs" by blast
    show ?thesis
      using parse_command_ok [OF Cons.prems, of absolute name attrs] Cons.IH [of "snd (parse_command absolute name attrs bf)"] kv e
      by (cases "fst (parse_command absolute name attrs bf)") (simp_all add: case_prod_beta)
  next
    case False
    then obtain msg where "parseCommandsMapping absolute (kv # m) bf = parseCommandsMapping absolute m (report msg bf)"
      using kv by (cases k; cases v) auto
    then show ?thesis using Cons.IH [of "report msg bf"] Cons.prems by simp
  qed
qed simp

lemma parse_commands_ok: "parseCommandsMapping absolute m bf = (True, bf1) \<Longrightarrow> bf_ok bf \<Longrightarrow> bf_ok bf1"
  using parseCommandsMapping_ok [of bf absolute m] by simp

section \<open>The whole file\<close>

lemma still_other [simp]:
  "still (bf\<lparr>bf_fileSystemModes := ms\<rparr>) bf1 = still bf bf1" "still (bf\<lparr>bf_performOwnershipAnalysis := b\<rparr>) bf1 = still bf bf1"
  by (simp_all add: still_def frame_def)

lemma configure_file_system_still: "still bf (snd (configure_file_system ps bf))"
  by (induction ps bf rule: configure_file_system.induct) simp_all

lemma client_entries_still: "still bf (snd (client_entries m name version properties bf))"
proof (induction m arbitrary: name version properties bf)
  case (Cons kv m)
  obtain k v where kv: "kv = (k, v)" by (cases kv)
  show ?case
  proof (cases "\<exists>key val. k = YScalar key \<and> v = YScalar val")
    case True
    then obtain key val where e: "k = YScalar key" "v = YScalar val" by blast
    obtain name1 version1 properties1 bf1 where
      "client_entries (kv # m) name version properties bf = client_entries m name1 version1 properties1 bf1" "\<And>bf2. still bf1 bf2 = still bf bf2"
      using that kv e by (cases "getAsUnsigned 10 val"; cases "key = ''version''"; cases "key = ''perform-ownership-analysis''") (simp_all add: Let_def)
    then show ?thesis using Cons.IH [of bf1] by simp
  next
    case False
    then show ?thesis using kv by (cases k; cases v) auto
  qed
qed simp

lemma parseClientMapping_still: "still bf (snd (parseClientMapping client m bf))"
proof -
  obtain r bf1 where r: "client_entries m [] 0 [] bf = (r, bf1)" by (cases "client_entries m [] 0 [] bf")
  then have "still bf bf1" using client_entries_still [of bf m "[]" 0 "[]"] by simp
  moreover have "still bf1 (snd (configureClient client name version properties bf1))" for name version properties
    using configure_file_system_still by (simp add: configureClient_def)
  ultimately show ?thesis
    using r still_trans by (auto simp: parseClientMapping_def case_prod_beta split: option.split)
qed

definition good_section :: "(yaml \<times> yaml) list \<times> bool \<times> BuildFileImpl \<Rightarrow> bool" where
  "good_section s \<longleftrightarrow> (case s of (rest, ok, bf) \<Rightarrow> ok \<longrightarrow> bf_ok bf)"

lemma file_section_ok:
  assumes "file_section name expected parse s = Some s1" "good_section s"
    and "\<And>v bf ok bf1. parse v bf = Some (Some (ok, bf1)) \<Longrightarrow> bf_ok bf \<Longrightarrow> ok \<Longrightarrow> bf_ok bf1"
  shows "good_section s1"
proof -
  obtain sections ok bf where s: "s = (sections, ok, bf)" using prod_cases3 by blast
  show ?thesis
  proof (cases "ok \<and> (\<exists>v rest. sections = (YScalar name, v) # rest)")
    case True
    then obtain v rest where e: "ok" "sections = (YScalar name, v) # rest" by blast
    show ?thesis
      using assms s e by (cases "parse v bf") (auto simp: file_section_def good_section_def split: bind_splits)
  next
    case False
    then have "s1 = s" using assms(1) s by (cases sections) (auto simp: file_section_def split: if_splits bool.splits)
    then show ?thesis using assms(2) by simp
  qed
qed

lemma new_build_file_ok: "bf_ok new_build_file"
  by (simp add: new_build_file_def loader_ok_def nodes_ok_def targets_ok_def)

lemma parseRootNode_ok:
  assumes "parseRootNode client absolute root bf = Some (True, bf1)" "bf_ok bf"
  shows "bf_ok bf1"
proof -
  obtain m rest where root: "root = YMapping ((YScalar ''client'', YMapping m) # rest)"
    using assms(1) by (auto simp: parseRootNode_def split: yaml.splits list.splits if_splits prod.splits)
  obtain ok0 bf0 where c: "parseClientMapping client m bf = (ok0, bf0)" by (cases "parseClientMapping client m bf")
  have "still bf bf0" using parseClientMapping_still [of bf client m] c by simp
  then have ok1: "good_section (rest, True, bf0)" using assms(2) by (simp add: bf_ok_still good_section_def)
  obtain s1 s2 s3 s4 s5 where s:
    "file_section ''tools'' '' value (expected map)'' (on_mapping parseToolsMapping) (rest, True, bf0) = Some s1"
    "file_section ''targets'' '' value (expected map)'' (on_mapping (\<lambda>m bf. Some (parseTargetsMapping m bf))) s1 = Some s2"
    "file_section ''default'' '' target value (expected scalar)'' (on_scalar (\<lambda>t bf. Some (parseDefaultTarget t bf))) s2 = Some s3"
    "file_section ''nodes'' '' value (expected map)'' (on_mapping parseNodesMapping) s3 = Some s4"
    "file_section ''commands'' '' value (expected map)'' (on_mapping (\<lambda>m bf. Some (parseCommandsMapping absolute m bf))) s4 = Some s5"
    "fst s5 = []" "fst (snd s5)" "snd (snd s5) = bf1"
    using assms(1) unfolding root parseRootNode_def
    by (auto simp: c case_prod_beta Let_def split: if_splits bind_splits)
  have "good_section s1"
    by (rule file_section_ok [OF s(1) ok1]) (auto simp: on_mapping_def bf_ok_still dest!: parseToolsMapping_still split: yaml.splits)
  then have "good_section s2"
    by (rule file_section_ok [OF s(2)]) (auto simp: on_mapping_def dest: parse_results_ok split: yaml.splits)
  then have "good_section s3"
    by (rule file_section_ok [OF s(3)]) (auto simp: on_scalar_def dest: parse_results_ok split: yaml.splits)
  then have "good_section s4"
    by (rule file_section_ok [OF s(4)]) (auto simp: on_mapping_def dest: parseNodesMapping_ok split: yaml.splits)
  then have "good_section s5"
    by (rule file_section_ok [OF s(5)]) (auto simp: on_mapping_def dest: parse_commands_ok split: yaml.splits)
  then show ?thesis using s(6-8) by (simp add: good_section_def case_prod_beta)
qed

section \<open>Ownership analysis keeps the invariant\<close>

lemma update_nodes_get:
  "command_getInputs (update_nodes id g c) = command_getInputs c"
  "isExternalCommand (update_nodes f g c) = isExternalCommand c"
  "isExternalCommand c \<Longrightarrow> command_getOutputs (update_nodes f g c) = g (command_getOutputs c)"
  "set (command_getOutputs (update_nodes f (\<lambda>ns. ns @ [n]) c)) \<subseteq> set (command_getOutputs c) \<union> {n}"
  by (cases c; simp add: isExternalCommand_def)+

lemma add_output_self:
  assumes "command_ok nodes name c" "nodes m = Some n" "bn_name n = m"
  shows "command_ok (add_producer name m nodes) name (update_nodes id (\<lambda>ns. ns @ [n]) c)"
proof -
  let ?c1 = "update_nodes id (\<lambda>ns. ns @ [n]) c"
  have fold: "fold (add_producer name) [m] nodes = add_producer name m nodes" by simp
  have "bn_name ` set (command_getOutputs ?c1) \<subseteq> dom nodes"
    using update_nodes_get(4) [of id n c] command_okD(2) [OF assms(1)] assms(2,3) by blast
  moreover have "(name \<in> set (bn_producers l)) = (j \<in> bn_name ` set (command_getOutputs ?c1))"
    if ex: "isExternalCommand c" and sm: "fold (add_producer name) [m] nodes j = Some l" for j l
  proof -
    obtain l0 where l0: "nodes j = Some l0" "(name \<in> set (bn_producers l)) = (name \<in> set (bn_producers l0) \<or> j \<in> set [m])"
      using add_producers_Some [OF sm] by metis
    then show ?thesis using command_okD(3) [OF assms(1) ex l0(1)] update_nodes_get(3) [OF ex] assms(3) by auto
  qed
  ultimately show ?thesis
    using command_okD(1) [OF assms(1)] by (simp add: command_ok_def update_nodes_get(1,2) add_producer_dom)
qed

lemma add_producer_nodes_ok:
  assumes "nodes_ok nodes commands" "command \<in> commands"
  shows "nodes_ok (fold (add_producer command) names nodes) commands"
  unfolding nodes_ok_def
proof (intro allI impI)
  fix m n1 assume "fold (add_producer command) names nodes m = Some n1"
  from add_producers_Some [OF this] obtain n where n: "nodes m = Some n" "bn_name n1 = bn_name n"
    "\<And>c. c \<in> set (bn_producers n1) \<longleftrightarrow> c \<in> set (bn_producers n) \<or> c = command \<and> m \<in> set names" by metis
  then show "bn_name n1 = m \<and> set (bn_producers n1) \<subseteq> commands" using nodes_okD [OF assms(1) n(1)] assms(2) by auto
qed

lemma addOutput_ok:
  assumes "bf_ok bf" "repairs (bf_commands bf) command"
  shows "bf_ok (addOutput command node bf)"
proof (cases "bf_nodes bf node")
  case None
  then show ?thesis using assms by (simp add: addOutput_def)
next
  case (Some n)
  note ok = loader_okD [OF assms(1)]
  let ?nodes = "add_producer command node (bf_nodes bf)"
  let ?new = "\<lambda>name c. if name = command then update_nodes id (\<lambda>ns. ns @ [n]) c else c"
  have fold: "fold (add_producer command) [node] (bf_nodes bf) = ?nodes" by simp
  have keys: "map (fst \<circ> (\<lambda>(name, c). (name, ?new name c))) (bf_commands bf) = map fst (bf_commands bf)" by (simp add: case_prod_beta)
  then have set: "fst ` set (map (\<lambda>(name, c). (name, ?new name c)) (bf_commands bf)) = fst ` set (bf_commands bf)"
    by (metis list.map_comp set_map)
  have "command \<in> fst ` set (bf_commands bf)"
    using assms(2) by (auto simp: repairs_def map_of_eq_None_iff split: option.splits dest!: map_of_SomeD intro: rev_image_eqI)
  then have "nodes_ok ?nodes (fst ` set (bf_commands bf))" using add_producer_nodes_ok [OF ok(1), of command "[node]"] by simp
  moreover have "command_ok ?nodes name (?new name c)" if "(name, c) \<in> set (bf_commands bf)" for name c
    using add_output_self [where nodes = "bf_nodes bf", OF _ Some nodes_okD(1) [OF ok(1) Some]] add_producers_other [of _ name c command "[node]", unfolded fold] ok(4) [OF that]
    by (cases "name = command") simp_all
  moreover have "targets_ok ?nodes (bf_targets bf) (bf_defaultTarget bf)"
    using ok(2) by (simp add: targets_ok_def add_producer_dom)
  ultimately show ?thesis using ok(3) set Some by (auto simp: addOutput_def loader_ok_def keys)
qed

lemma amend_ok: "bf_ok bf \<Longrightarrow> bf_ok (amendOutputOfOwnersWithConsumedSubpaths addresses ow ds bf)"
  by (induction addresses ow ds bf rule: amendOutputOfOwnersWithConsumedSubpaths.induct)
    (simp_all add: addOutput_ok split: option.split)

lemma must_scan_after_ok: "loader_ok nodes targets dflt cs \<Longrightarrow> loader_ok (must_scan_after directory path nodes) targets dflt cs"
  by (auto simp: must_scan_after_def intro: update_node_ok split: option.split)

lemma defer_ok:
  "loader_ok nodes targets dflt cs \<Longrightarrow> loader_ok (deferScanningUnownedInputsUntilSubpathsAvailable r unowned outputs nodes) targets dflt cs"
  unfolding deferScanningUnownedInputsUntilSubpathsAvailable_def
  by (induction outputs arbitrary: nodes) (auto simp: must_scan_after_ok split: option.split)

lemma performOwnershipAnalysis_ok: "performOwnershipAnalysis ord bf = (ok, bf1) \<Longrightarrow> bf_ok bf \<Longrightarrow> bf_ok bf1"
  by (auto simp: performOwnershipAnalysis_def Let_def amend_ok defer_ok split: sum.splits)

lemma load_ok:
  assumes "load ord client absolute filename documents = Some (Some bd, bf)"
  shows "bf_ok bf \<and> bd = build_description bf"
proof -
  obtain root bf1 where r: "documents = Some [Some root]" "parseRootNode client absolute root new_build_file = Some (True, bf1)"
    using assms by (auto simp: load_def Let_def split: option.splits list.splits bind_splits if_splits)
  then have ok1: "bf_ok bf1" using parseRootNode_ok new_build_file_ok by blast
  obtain ok bf2 where p: "performOwnershipAnalysis ord bf1 = (ok, bf2)" by (cases "performOwnershipAnalysis ord bf1")
  show ?thesis using assms r ok1 performOwnershipAnalysis_ok [OF p ok1] p by (auto simp: load_def split: if_splits)
qed

section \<open>What is loaded\<close>

text \<open>
  A description that is closed: every node, target and command it mentions is in it, under its own name,
  and the producers of a node are the commands that have it as an output.
\<close>

definition description_ok :: "BuildDescription \<Rightarrow> bool" where
  "description_ok bd \<longleftrightarrow>
     (\<forall>m n. bd_nodes bd m = Some n \<longrightarrow> bn_name n = m \<and> set (bn_producers n) \<subseteq> dom (bd_commands bd)) \<and>
     (\<forall>t names. bd_targets bd t = Some names \<longrightarrow> set names \<subseteq> dom (bd_nodes bd)) \<and>
     (bd_defaultTarget bd = [] \<or> bd_defaultTarget bd \<in> dom (bd_targets bd)) \<and>
     (\<forall>name c. bd_commands bd name = Some c \<longrightarrow>
        (\<forall>n \<in> set (command_getInputs c) \<union> set (command_getOutputs c). bd_nodes bd (bn_name n) = Some n) \<and>
        (isExternalCommand c \<longrightarrow>
          (\<forall>m n. bd_nodes bd m = Some n \<longrightarrow> (name \<in> set (bn_producers n) \<longleftrightarrow> n \<in> set (command_getOutputs c)))))"

lemma description_okD:
  assumes "description_ok bd"
  shows "bd_nodes bd m = Some n \<Longrightarrow> bn_name n = m"
    "bd_commands bd name = Some c \<Longrightarrow> n \<in> set (command_getOutputs c) \<Longrightarrow> bd_nodes bd (bn_name n) = Some n"
    "bd_commands bd name = Some c \<Longrightarrow> isExternalCommand c \<Longrightarrow> bd_nodes bd m = Some n \<Longrightarrow>
       (name \<in> set (bn_producers n)) = (n \<in> set (command_getOutputs c))"
  using assms unfolding description_ok_def by simp_all

lemma update_nodes_map:
  "command_getInputs (update_nodes (map f) (map f) c) = map f (command_getInputs c)"
  "command_getOutputs (update_nodes (map f) (map f) c) = map f (command_getOutputs c)"
  by (cases c; simp)+

lemma current_name: "nodes_ok nodes commands \<Longrightarrow> bn_name (current nodes n) = bn_name n"
  by (simp add: current_def nodes_ok_def split: option.split)

lemma current_found:
  assumes "nodes_ok nodes commands" "bn_name n \<in> dom nodes"
  shows "nodes (bn_name (current nodes n)) = Some (current nodes n)"
  using assms(2) nodes_okD(1) [OF assms(1)] by (auto simp: current_def)

lemma current_iff:
  assumes "nodes_ok nodes commands" "nodes m = Some n" "bn_name ` set ns \<subseteq> dom nodes"
  shows "n \<in> set (map (current nodes) ns) \<longleftrightarrow> m \<in> bn_name ` set ns"
proof
  assume "n \<in> set (map (current nodes) ns)"
  then show "m \<in> bn_name ` set ns" using nodes_okD(1) [OF assms(1,2)] current_name [OF assms(1)] by auto
next
  assume "m \<in> bn_name ` set ns"
  then obtain k where k: "k \<in> set ns" "bn_name k = m" by blast
  then have "current nodes k = n" using assms(2) by (simp add: current_def)
  then show "n \<in> set (map (current nodes) ns)" using k(1) by force
qed

lemma build_description_ok:
  assumes "bf_ok bf"
  shows "description_ok (build_description bf)"
proof -
  note ok = loader_okD [OF assms]
  let ?bd = "build_description bf"
  let ?up = "update_nodes (map (current (bf_nodes bf))) (map (current (bf_nodes bf)))"
  have fields: "bd_nodes ?bd = bf_nodes bf" "bd_targets ?bd = bf_targets bf" "bd_defaultTarget ?bd = bf_defaultTarget bf"
    "dom (bd_commands ?bd) = fst ` set (bf_commands bf)"
    by (simp_all add: build_description_def dom_map_option dom_map_of_conv_image_fst)
  have commands: "\<exists>c0. (name, c0) \<in> set (bf_commands bf) \<and> c = ?up c0" if "bd_commands ?bd name = Some c" for name c
    using that by (auto simp: build_description_def dest: map_of_SomeD)
  have nodes: "bf_nodes bf (bn_name n) = Some n"
    if given: "bd_commands ?bd name = Some c" "n \<in> set (command_getInputs c) \<union> set (command_getOutputs c)" for name c n
  proof -
    obtain c0 where c0: "(name, c0) \<in> set (bf_commands bf)" "c = ?up c0" using commands [OF given(1)] by blast
    then obtain k where k: "k \<in> set (command_getInputs c0) \<union> set (command_getOutputs c0)" "n = current (bf_nodes bf) k"
      using given(2) by (auto simp: update_nodes_map)
    then have "bn_name k \<in> dom (bf_nodes bf)" using command_okD(1,2) [OF ok(4) [OF c0(1)]] by blast
    then show ?thesis using current_found [OF ok(1)] k(2) by simp
  qed
  have producers: "(name \<in> set (bn_producers n)) = (n \<in> set (command_getOutputs c))"
    if given: "bd_commands ?bd name = Some c" "isExternalCommand c" "bf_nodes bf m = Some n" for name c m n
  proof -
    obtain c0 where c0: "(name, c0) \<in> set (bf_commands bf)" "c = ?up c0" using commands [OF given(1)] by blast
    have "isExternalCommand c0" using given(2) c0(2) by (simp add: update_nodes_get(2))
    then show ?thesis
      using command_okD(2,3) [OF ok(4) [OF c0(1)]] current_iff [OF ok(1) given(3)] given(3) c0(2) by (metis update_nodes_map(2))
  qed
  show ?thesis
    using ok(1,2) nodes producers unfolding description_ok_def fields nodes_ok_def targets_ok_def by blast
qed

text \<open>A command that makes a directory, and one that consumes a subdirectory of it.\<close>

definition sample_file :: yaml where
  "sample_file = YMapping [
     (YScalar ''client'', YMapping [(YScalar ''name'', YScalar ''basic''), (YScalar ''version'', YScalar ''2''),
        (YScalar ''perform-ownership-analysis'', YScalar ''yes'')]),
     (YScalar ''targets'', YMapping [(YScalar ''all'', YSequence [YScalar ''log''])]),
     (YScalar ''default'', YScalar ''all''),
     (YScalar ''commands'', YMapping [
        (YScalar ''A'', YMapping [(YScalar ''tool'', YScalar ''mkdir''), (YScalar ''outputs'', YSequence [YScalar ''d'']),
           (YScalar ''repair-via-ownership-analysis'', YScalar ''true'')]),
        (YScalar ''B'', YMapping [(YScalar ''tool'', YScalar ''phony''), (YScalar ''inputs'', YSequence [YScalar ''d/e/'']),
           (YScalar ''outputs'', YSequence [YScalar ''log''])])])]"

definition sample_orders :: Orders where
  "sample_orders = \<lparr>or_commands = id, or_sort = id, or_addresses = [''d'', ''d/e/'', ''log'']\<rparr>"

definition sample_load :: "(BuildDescription option \<times> BuildFileImpl) option" where
  "sample_load = load sample_orders (''basic'', 2) id ''f'' (Some [Some sample_file])"

definition sample_checks :: "(BuildDescription option \<times> BuildFileImpl) option \<Rightarrow> bool" where
  "sample_checks r =
     (case r of
        Some (Some bd, bf) \<Rightarrow>
          (case bd_nodes bd ''d/e/'' of
             Some node \<Rightarrow>
               (case external_part (the (bd_commands bd ''A'')) of
                  Some c \<Rightarrow> bn_producers node = [''A''] \<and> length (ec_outputs c) = 2 \<and> bf_messages bf = []
                | None \<Rightarrow> False)
           | None \<Rightarrow> False)
      | _ \<Rightarrow> False)"

lemma sample_checked: "sample_checks sample_load"
  by code_simp

lemma sample_loaded:
  obtains bd bf node c where "sample_load = Some (Some bd, bf)" "bd_nodes bd ''d/e/'' = Some node" "bn_producers node = [''A'']"
    "external_part (the (bd_commands bd ''A'')) = Some c" "length (ec_outputs c) = 2"
proof -
  obtain bd bf where load: "sample_load = Some (Some bd, bf)"
    using sample_checked by (auto simp: sample_checks_def split: option.splits)
  then have checks: "sample_checks (Some (Some bd, bf))" using sample_checked by metis
  then obtain node where node: "bd_nodes bd ''d/e/'' = Some node" by (cases "bd_nodes bd ''d/e/''") (simp_all add: sample_checks_def)
  then obtain c where "external_part (the (bd_commands bd ''A'')) = Some c" "bn_producers node = [''A'']" "length (ec_outputs c) = 2"
    using checks by (cases "external_part (the (bd_commands bd ''A''))") (simp_all add: sample_checks_def)
  then show ?thesis using that [OF load node] by blast
qed

text \<open>
  C15. What a load delivers is closed and consistent.  Every node, target and command it mentions is in
  the description under its own name, the default target is one of the targets, the inputs and outputs
  of the commands are the nodes of the description, and for the commands that run something the producers
  recorded in a node are exactly the commands that have it as an output.
\<close>

theorem load_description_ok:
  assumes "load ord client absolute filename documents = Some (Some bd, bf)"
  shows "description_ok bd"
  using load_ok [OF assms] build_description_ok by blast

theorem load_description_ok_witness: "\<exists>bd bf. sample_load = Some (Some bd, bf) \<and> description_ok bd"
proof -
  obtain bd bf where "sample_load = Some (Some bd, bf)" using sample_loaded by metis
  then show ?thesis using load_description_ok unfolding sample_load_def by blast
qed

text \<open>
  C16. What a command that succeeded left behind is what its consumers see.  In a description that was
  loaded, take a node with a single producer that is an external command.  The result the command
  computes survives being stored; the task of the node reads it back and completes with a value that is
  read back in turn: a virtual input for a node without a file, a missing output for a file that is not
  there, and otherwise an existing input with the file information that was found right after the
  command ran.
\<close>

theorem loaded_node_value:
  assumes "load ord client absolute filename documents = Some (Some bd, bf)"
    and "bd_nodes bd m = Some node" "bn_producers node = [name]" "external_part (the (bd_commands bd name)) = Some c"
    and "length (ec_outputs c) < 2 ^ 32" "\<forall>p. info_ok (stat p)"
  shows "\<exists>v d e w. computeCommandResult stat epoch c = Some v \<and> toData v = Some d \<and>
     produced_run chosen (\<lambda>n. the (bd_commands bd n)) node d = Some [CompleteTask e False] \<and>
     fromData e = Some w \<and> node_value_after stat epoch node = Some w"
proof -
  have ok: "description_ok bd" using load_ok [OF assms(1)] build_description_ok by blast
  have "name \<in> dom (bd_commands bd)" using ok assms(2,3) unfolding description_ok_def by (metis list.set_intros(1) subsetD)
  then obtain b where b: "bd_commands bd name = Some b" "external_part b = Some c" using assms(4) by auto
  have ex: "isExternalCommand b" "command_getOutputs b = ec_outputs c" using b(2) by (cases b; simp add: isExternalCommand_def)+
  have node: "node \<in> set (ec_outputs c)" using description_okD(3) [OF ok b(1) ex(1) assms(2)] assms(3) ex(2) by simp
  have "n = node" if "n \<in> set (ec_outputs c)" "bn_name n = bn_name node" for n
    using description_okD(2) [OF ok b(1)] that node ex(2) by (metis option.inject)
  moreover have "getCommand chosen node = Some name" using assms(3) by (simp add: getCommand_def)
  ultimately show ?thesis using produced_value [where command = "\<lambda>n. the (bd_commands bd n)" and chosen = chosen, OF assms(5) _ assms(6) node _ assms(4)]
    by blast
qed

theorem loaded_node_value_witness:
  "\<exists>bd bf node c v d e w. sample_load = Some (Some bd, bf) \<and> bd_nodes bd ''d/e/'' = Some node \<and>
     computeCommandResult (\<lambda>p. zero_info\<lparr>fi_size := 1\<rparr>) 5 c = Some v \<and> toData v = Some d \<and>
     produced_run (\<lambda>n. None) (\<lambda>n. the (bd_commands bd n)) node d = Some [CompleteTask e False] \<and> fromData e = Some w"
proof -
  obtain bd bf node c where s: "sample_load = Some (Some bd, bf)" "bd_nodes bd ''d/e/'' = Some node" "bn_producers node = [''A'']"
    "external_part (the (bd_commands bd ''A'')) = Some c" "length (ec_outputs c) = 2" using sample_loaded .
  have "info_ok (zero_info\<lparr>fi_size := 1\<rparr>)" by (simp add: info_ok_def zero_info_def zero_checksum_def is_checksum_def)
  then have "\<exists>v d e w. computeCommandResult (\<lambda>p. zero_info\<lparr>fi_size := 1\<rparr>) 5 c = Some v \<and> toData v = Some d \<and>
     produced_run (\<lambda>n. None) (\<lambda>n. the (bd_commands bd n)) node d = Some [CompleteTask e False] \<and>
     fromData e = Some w \<and> node_value_after (\<lambda>p. zero_info\<lparr>fi_size := 1\<rparr>) 5 node = Some w"
    using s(5) by (intro loaded_node_value [OF s(1) [unfolded sample_load_def] s(2,3,4)]) simp_all
  then show ?thesis using s(1,2) by blast
qed

section \<open>Files that are accepted\<close>

text \<open>
  A reported error does not fail the load: a command that is defined twice is reported and the first one
  stays.  A top level mapping without any key is not caught.  A link command without an output loads, and
  its signature cannot be computed.
\<close>

definition file_with :: "(yaml \<times> yaml) list \<Rightarrow> yaml" where
  "file_with cs = YMapping [
     (YScalar ''client'', YMapping [(YScalar ''name'', YScalar ''basic''), (YScalar ''version'', YScalar ''2'')]),
     (YScalar ''commands'', YMapping cs)]"

lemma duplicate_command_loads:
  "map_option (\<lambda>(bd, bf). (\<not> Option.is_none bd, bf_numErrors bf))
     (load sample_orders (''basic'', 2) id ''f'' (Some [Some (file_with [
        (YScalar ''A'', YMapping [(YScalar ''tool'', YScalar ''mkdir'')]),
        (YScalar ''A'', YMapping [(YScalar ''tool'', YScalar ''phony'')])])])) = Some (True, 1)"
  by code_simp

lemma empty_file_fails: "parseRootNode client absolute (YMapping []) bf = None"
  by (simp add: parseRootNode_def)

lemma link_without_output_loads:
  "(case load sample_orders (''basic'', 2) id ''f'' (Some [Some (file_with [
        (YScalar ''L'', YMapping [(YScalar ''tool'', YScalar ''symlink''), (YScalar ''contents'', YScalar ''x'')])])]) of
      Some (Some bd, bf) \<Rightarrow>
        bf_messages bf = [] \<and> (case bd_commands bd ''L'' of Some (SymlinkCommandC c) \<Rightarrow> sl_outputs c = [] | _ \<Rightarrow> False)
    | _ \<Rightarrow> False)"
  by code_simp

end
