(* ===== verification/Build_File_Ownership.thy ===== *)
theory Build_File_Ownership
  imports Build_File_Properties
begin

text \<open>
  What the ownership analysis of a build file guarantees: it finds every conflict between outputs that lie
  below one another, and a directory that is consumed below an output is produced by its owner.
\<close>

section \<open>Owners and conflicts\<close>

text \<open>Owning a path is containing it as a directory.\<close>

definition directory_of :: "string \<Rightarrow> string" where
  "directory_of n = (if n \<noteq> [] \<and> last n = SLASH then n else n @ [SLASH])"

lemma isPrefix_prefix: "isPrefix a b = prefix a b"
  unfolding isPrefix_def by (metis append_eq_conv_conj prefix_def take_is_prefix)

lemma owns_prefix: "owns n path \<longleftrightarrow> prefix (directory_of n) path"
  by (simp add: owns_def directory_of_def isPrefix_prefix)

lemma directory_of_extends: "prefix n (directory_of n)"
  by (simp add: directory_of_def)

lemma owns_trans: "owns a b \<Longrightarrow> owns b c \<Longrightarrow> owns a c"
  using directory_of_extends [of b] unfolding owns_prefix by (meson prefix_order.trans)

lemma owns_longer:
  assumes "owns a b" "length b \<le> length a"
  shows "a = b"
proof -
  have "prefix a b" using assms(1) directory_of_extends [of a] unfolding owns_prefix by (meson prefix_order.trans)
  then show ?thesis using assms(2) by (auto simp: prefix_def)
qed

lemma owners_comparable:
  assumes "owns a path" "owns b path"
  shows "owns a b \<or> owns b a \<or> a = b"
proof -
  have *: "owns a b \<or> owns b a \<or> a = b" if "prefix (directory_of a) (directory_of b)" for a b
  proof (cases "b \<noteq> [] \<and> last b = SLASH")
    case True
    then show ?thesis using that by (simp add: owns_prefix directory_of_def)
  next
    case False
    then have b: "directory_of b = b @ [SLASH]" by (simp add: directory_of_def)
    then have "prefix (directory_of a) b \<or> directory_of a = b @ [SLASH]" using that by (auto simp: prefix_snoc)
    then show ?thesis using b by (auto simp: owns_prefix directory_of_def split: if_splits)
  qed
  show ?thesis using assms *  prefix_same_cases unfolding owns_prefix by blast
qed

text \<open>
  While ownerships are established: the included paths are outputs of included commands, no one contains
  another, each output so far is below or is an included path of its command, and outputs that contain
  one another belong to the same command.
\<close>

definition ownership_ok :: "(string \<Rightarrow> bool) \<Rightarrow> (string \<times> string) list \<Rightarrow> (string \<rightharpoonup> string) \<Rightarrow> bool" where
  "ownership_ok inc ps I \<longleftrightarrow>
     (\<forall>p c. I p = Some c \<longrightarrow> (p, c) \<in> set ps \<and> inc c) \<and>
     (\<forall>p c. (p, c) \<in> set ps \<longrightarrow> inc c \<longrightarrow> (\<exists>q. I q = Some c \<and> (q = p \<or> owns q p))) \<and>
     (\<forall>p q. I p \<noteq> None \<longrightarrow> I q \<noteq> None \<longrightarrow> owns q p \<longrightarrow> q = p) \<and>
     (\<forall>p c q d. (p, c) \<in> set ps \<longrightarrow> (q, d) \<in> set ps \<longrightarrow> inc c \<longrightarrow> inc d \<longrightarrow> owns q p \<longrightarrow> c = d)"

lemma ownership_okD:
  assumes "ownership_ok inc ps I"
  shows "I p = Some c \<Longrightarrow> (p, c) \<in> set ps \<and> inc c"
    "(p, c) \<in> set ps \<Longrightarrow> inc c \<Longrightarrow> \<exists>q. I q = Some c \<and> (q = p \<or> owns q p)"
    "I p \<noteq> None \<Longrightarrow> I q \<noteq> None \<Longrightarrow> owns q p \<Longrightarrow> q = p"
    "(p, c) \<in> set ps \<Longrightarrow> (q, d) \<in> set ps \<Longrightarrow> inc c \<Longrightarrow> inc d \<Longrightarrow> owns q p \<Longrightarrow> c = d"
  using assms unfolding ownership_ok_def by meson+

definition one_producer :: "(string \<Rightarrow> bool) \<Rightarrow> (string \<times> string) list \<Rightarrow> bool" where
  "one_producer inc ps \<longleftrightarrow> (\<forall>(p, c) \<in> set ps. \<forall>(q, d) \<in> set ps. p = q \<and> inc c \<and> inc d \<longrightarrow> c = d)"

lemma one_producer_subset: "one_producer inc qs \<Longrightarrow> set ps \<subseteq> set qs \<Longrightarrow> one_producer inc ps"
  unfolding one_producer_def by blast

text \<open>The owner of a path is the command of any included path above it.\<close>

lemma owner_below:
  assumes "ownership_ok inc ps I" "(q, d) \<in> set ps" "inc d" "owns q p"
  obtains r where "I r = Some d" "owns r p"
  using ownership_okD(2) [OF assms(1,2,3)] owns_trans assms(4) by blast

lemma owner_unique:
  assumes "ownership_ok inc ps I" "I r = Some c" "I s = Some d" "owns r p" "owns s p"
  shows "c = d"
proof -
  have "r = s" using owners_comparable [OF assms(4,5)] ownership_okD(3) [OF assms(1)] assms(2,3) by (metis option.distinct(1))
  then show ?thesis using assms(2,3) by simp
qed

lemma includedOwnerOf_None:
  assumes "includedOwnerOf addresses ow p = None" "dom (ow_includedPaths ow) \<subseteq> set addresses"
  shows "ow_includedPaths ow q \<noteq> None \<Longrightarrow> \<not> owns q p"
  using assms by (fastforce simp: includedOwnerOf_def find_None_iff find_Some_iff split: option.splits)

lemma includedOwnerOf_Some:
  assumes "includedOwnerOf addresses ow p = Some c"
  obtains q where "ow_includedPaths ow q = Some c" "owns q p"
  using assms by (auto simp: includedOwnerOf_def find_Some_iff split: option.splits)

lemma includedOwnerOf_iff:
  assumes "ownership_ok inc ps (ow_includedPaths ow)" "fst ` set ps \<subseteq> set addresses"
  shows "includedOwnerOf addresses ow path = Some c \<longleftrightarrow> (\<exists>p. (p, c) \<in> set ps \<and> inc c \<and> owns p path)"
proof
  assume "includedOwnerOf addresses ow path = Some c"
  then show "\<exists>p. (p, c) \<in> set ps \<and> inc c \<and> owns p path" using includedOwnerOf_Some ownership_okD(1) [OF assms(1)] by metis
next
  assume "\<exists>p. (p, c) \<in> set ps \<and> inc c \<and> owns p path"
  then obtain r where r: "ow_includedPaths ow r = Some c" "owns r path" using owner_below [OF assms(1)] by metis
  have "dom (ow_includedPaths ow) \<subseteq> set addresses" using ownership_okD(1) [OF assms(1)] assms(2) by force
  then obtain d where d: "includedOwnerOf addresses ow path = Some d" using includedOwnerOf_None r by (metis not_None_eq)
  then show "includedOwnerOf addresses ow path = Some c"
    using includedOwnerOf_Some owner_unique [OF assms(1)] r by metis
qed

lemma own_first:
  assumes "ownership_ok inc seen I" "inc c" "\<And>q. I q \<noteq> None \<Longrightarrow> \<not> owns q p"
    and "\<forall>(q, d) \<in> set seen. length q \<le> length p" "one_producer inc (seen @ [(p, c)])"
  shows "ownership_ok inc (seen @ [(p, c)]) (I(p \<mapsto> c))"
proof -
  have same: "c = d" if "(p, d) \<in> set seen" "inc d" for d using assms(2,5) that by (force simp: one_producer_def)
  have below: "q = p" if "owns p q" "(q, d) \<in> set seen" for q d using owns_longer [OF that(1)] assms(4) that(2) by auto
  have I: "\<exists>d. (q, d) \<in> set seen \<and> inc d" if "I q \<noteq> None" for q using ownership_okD(1) [OF assms(1)] that by blast
  have "\<exists>r. (I(p \<mapsto> c)) r = Some d \<and> (r = q \<or> owns r q)" if given: "(q, d) \<in> set (seen @ [(p, c)])" "inc d" for q d
  proof (cases "(q, d) \<in> set seen")
    case True
    then obtain r where "I r = Some d" "r = q \<or> owns r q" using ownership_okD(2) [OF assms(1) _ given(2)] by blast
    then show ?thesis using same ownership_okD(1) [OF assms(1)] by (intro exI [of _ r]) auto
  qed (use given in auto)
  moreover have "r = q" if "(I(p \<mapsto> c)) q \<noteq> None" "(I(p \<mapsto> c)) r \<noteq> None" "owns r q" for r q
    using that assms(3) below I ownership_okD(3) [OF assms(1)] by (metis fun_upd_apply)
  moreover have "d = e" if "(q, d) \<in> set (seen @ [(p, c)])" "(r, e) \<in> set (seen @ [(p, c)])" "inc d" "inc e" "owns r q" for q d r e
  proof -
    have "(q, d) \<in> set seen \<Longrightarrow> (r, e) \<in> set seen \<Longrightarrow> d = e" using ownership_okD(4) [OF assms(1)] that(3-5) by blast
    moreover have "(q, d) = (p, c) \<Longrightarrow> (r, e) \<in> set seen \<Longrightarrow> d = e"
      using owner_below [OF assms(1)] assms(3) that(4,5) by (metis option.distinct(1) prod.inject)
    moreover have "(q, d) \<in> set seen \<Longrightarrow> (r, e) = (p, c) \<Longrightarrow> d = e" using below same that(3,5) by blast
    ultimately show ?thesis using that(1,2) by auto
  qed
  moreover have "(q, d) \<in> set (seen @ [(p, c)]) \<and> inc d" if "(I(p \<mapsto> c)) q = Some d" for q d
    using ownership_okD(1) [OF assms(1)] that assms(2) by (auto split: if_splits)
  ultimately show ?thesis unfolding ownership_ok_def by meson
qed

lemma own_below:
  assumes "ownership_ok inc seen I" "I s = Some c" "owns s p"
    and "\<forall>(q, d) \<in> set seen. length q \<le> length p" "one_producer inc (seen @ [(p, c)])"
  shows "ownership_ok inc (seen @ [(p, c)]) I"
proof -
  have inc: "inc c" using ownership_okD(1) [OF assms(1,2)] by blast
  have same: "c = d" if "(p, d) \<in> set seen" "inc d" for d using inc assms(5) that by (force simp: one_producer_def)
  have below: "q = p" if "owns p q" "(q, d) \<in> set seen" for q d using owns_longer [OF that(1)] assms(4) that(2) by auto
  have "d = e" if "(q, d) \<in> set (seen @ [(p, c)])" "(r, e) \<in> set (seen @ [(p, c)])" "inc d" "inc e" "owns r q" for q d r e
  proof -
    have "(q, d) \<in> set seen \<Longrightarrow> (r, e) \<in> set seen \<Longrightarrow> d = e" using ownership_okD(4) [OF assms(1)] that(3-5) by blast
    moreover have "(q, d) = (p, c) \<Longrightarrow> (r, e) \<in> set seen \<Longrightarrow> d = e"
      using owner_below [OF assms(1)] owner_unique [OF assms(1,2) _ assms(3)] that(4,5) by (metis prod.inject)
    moreover have "(q, d) \<in> set seen \<Longrightarrow> (r, e) = (p, c) \<Longrightarrow> d = e" using below same that(3,5) by blast
    ultimately show ?thesis using that(1,2) by auto
  qed
  moreover have "\<exists>r. I r = Some d \<and> (r = q \<or> owns r q)" if "(q, d) \<in> set (seen @ [(p, c)])" "inc d" for q d
    using that ownership_okD(2) [OF assms(1)] assms(2,3) by (cases "(q, d) \<in> set seen") auto
  moreover have "(q, d) \<in> set (seen @ [(p, c)]) \<and> inc d" if "I q = Some d" for q d
    using ownership_okD(1) [OF assms(1) that] by simp
  ultimately show ?thesis using ownership_okD(3) [OF assms(1)] unfolding ownership_ok_def by meson
qed

lemma own_excluded:
  assumes "ownership_ok inc seen I" "\<not> inc c"
  shows "ownership_ok inc (seen @ [(p, c)]) I"
proof -
  have "(q, d) \<in> set (seen @ [(p, c)]) \<longleftrightarrow> (q, d) \<in> set seen" if "inc d" for q d using assms(2) that by auto
  then show ?thesis using assms(1) unfolding ownership_ok_def by meson
qed

definition conflict :: "(string \<Rightarrow> bool) \<Rightarrow> (string \<times> string) list \<Rightarrow> string \<times> string \<times> string \<Rightarrow> bool" where
  "conflict inc ps w \<longleftrightarrow>
     (case w of (p, c, d) \<Rightarrow> (p, c) \<in> set ps \<and> inc c \<and> inc d \<and> c \<noteq> d \<and> (\<exists>q. (q, d) \<in> set ps \<and> owns q p))"

definition established :: "(string \<Rightarrow> bool) \<Rightarrow> (string \<times> string) list \<Rightarrow> (string \<times> string \<times> string) + OwnershipAnalysis \<Rightarrow> bool" where
  "established inc ps r \<longleftrightarrow> (case r of Inl w \<Rightarrow> conflict inc ps w | Inr ow \<Rightarrow> ownership_ok inc ps (ow_includedPaths ow))"

lemma establish_ownerships:
  assumes "ownership_ok inc seen (ow_includedPaths ow)" "sorted (map (length \<circ> fst) (seen @ ps))"
    and "one_producer inc (seen @ ps)" "fst ` set (seen @ ps) \<subseteq> set addresses"
  shows "established inc (seen @ ps) (establishOwnerships addresses inc ps ow)"
  using assms
proof (induction ps arbitrary: ow seen)
  case (Cons x ps)
  obtain p c where x: "x = (p, c)" by (cases x)
  have longer: "\<forall>(q, d) \<in> set seen. length q \<le> length p" using Cons.prems(2) x by (auto simp: sorted_append)
  have one: "one_producer inc (seen @ [(p, c)])" using x by (intro one_producer_subset [OF Cons.prems(3)]) auto
  have proceed: ?case if "ownership_ok inc (seen @ [(p, c)]) (ow_includedPaths ow1)"
    "establishOwnerships addresses inc (x # ps) ow = establishOwnerships addresses inc ps ow1" for ow1
    using Cons.IH [OF that(1)] Cons.prems(2-4) x that(2) by simp
  show ?case
  proof (cases "inc c")
    case False
    then show ?thesis using own_excluded [OF Cons.prems(1)] x by (intro proceed) auto
  next
    case inc: True
    show ?thesis
    proof (cases "includedOwnerOf addresses ow p")
      case None
      have "dom (ow_includedPaths ow) \<subseteq> set addresses" using ownership_okD(1) [OF Cons.prems(1)] Cons.prems(4) by force
      then have "ownership_ok inc (seen @ [(p, c)]) ((ow_includedPaths ow)(p \<mapsto> c))"
        using own_first [OF Cons.prems(1) inc _ longer one] includedOwnerOf_None [OF None] by blast
      then show ?thesis using None inc x by (intro proceed) auto
    next
      case (Some d)
      then obtain s where s: "ow_includedPaths ow s = Some d" "owns s p" using includedOwnerOf_Some by metis
      show ?thesis
      proof (cases "d = c")
        case True
        then show ?thesis using own_below [where s = s, OF Cons.prems(1) _ _ longer one] s Some inc x by (intro proceed) auto
      next
        case False
        then show ?thesis using ownership_okD(1) [OF Cons.prems(1) s(1)] s(2) Some inc x by (auto simp: conflict_def established_def)
      qed
    qed
  qed
qed (simp add: established_def)


abbreviation no_owners :: OwnershipAnalysis where
  "no_owners \<equiv> \<lparr>ow_includedPaths = Map.empty, ow_excludedPaths = Map.empty\<rparr>"

lemma ownerships_established:
  assumes "sorted (map (length \<circ> fst) ps)" "one_producer inc ps" "fst ` set ps \<subseteq> set addresses"
  shows "established inc ps (establishOwnerships addresses inc ps no_owners)"
  using establish_ownerships [of inc "[]" no_owners ps addresses] assms by (simp add: ownership_ok_def)

text \<open>
  C17. The ownership analysis decides whether outputs of different commands lie below one another.  For
  outputs sorted by the length of their paths, where no path is the output of two commands that take
  part: if it fails, the two commands it names do conflict; if it succeeds, no two commands conflict, and
  the owner it finds for any path is the command with an output above that path, whatever the order in
  which the paths are searched.
\<close>

theorem ownership_conflicts_found:
  assumes "sorted (map (length \<circ> fst) ps)" "one_producer inc ps" "fst ` set ps \<subseteq> set addresses"
  shows "case establishOwnerships addresses inc ps no_owners of
       Inl w \<Rightarrow> conflict inc ps w
     | Inr ow \<Rightarrow> (\<forall>w. \<not> conflict inc ps w) \<and>
         (\<forall>path c. includedOwnerOf addresses ow path = Some c \<longleftrightarrow> (\<exists>p. (p, c) \<in> set ps \<and> inc c \<and> owns p path))"
proof (cases "establishOwnerships addresses inc ps no_owners")
  case (Inl w)
  then show ?thesis using ownerships_established [OF assms] by (simp add: established_def)
next
  case (Inr ow)
  then have ok: "ownership_ok inc ps (ow_includedPaths ow)" using ownerships_established [OF assms] by (simp add: established_def)
  have "\<not> conflict inc ps w" for w using ownership_okD(4) [OF ok] unfolding conflict_def by (auto split: prod.splits)
  then show ?thesis using Inr includedOwnerOf_iff [OF ok assms(3)] by simp
qed

theorem ownership_conflicts_found_witness:
  "establishOwnerships [''b'', ''a/b'', ''a''] (\<lambda>c. c \<noteq> ''D'') [(''a'', ''A''), (''b'', ''D''), (''a/b'', ''A'')] no_owners =
     Inr \<lparr>ow_includedPaths = [''a'' \<mapsto> ''A''], ow_excludedPaths = [''b'' \<mapsto> ''D'']\<rparr> \<and>
   (\<forall>w. \<not> conflict (\<lambda>c. c \<noteq> ''D'') [(''a'', ''A''), (''b'', ''D''), (''a/b'', ''A'')] w) \<and>
   conflict (\<lambda>c. True) [(''a'', ''A''), (''a/b'', ''B'')] (''a/b'', ''B'', ''A'')"
proof -
  have e: "establishOwnerships [''b'', ''a/b'', ''a''] (\<lambda>c. c \<noteq> ''D'') [(''a'', ''A''), (''b'', ''D''), (''a/b'', ''A'')] no_owners =
     Inr \<lparr>ow_includedPaths = [''a'' \<mapsto> ''A''], ow_excludedPaths = [''b'' \<mapsto> ''D'']\<rparr>"
    "establishOwnerships [''a/b'', ''a''] (\<lambda>c. True) [(''a'', ''A''), (''a/b'', ''B'')] no_owners = Inl (''a/b'', ''B'', ''A'')"
    by (simp_all add: includedOwnerOf_def owns_def isPrefix_def)
  show ?thesis
    using e ownership_conflicts_found [of "[(''a'', ''A''), (''b'', ''D''), (''a/b'', ''A'')]" "\<lambda>c. c \<noteq> ''D''" "[''b'', ''a/b'', ''a'']"]
      ownership_conflicts_found [of "[(''a'', ''A''), (''a/b'', ''B'')]" "\<lambda>c. True" "[''a/b'', ''a'']"]
    by (simp add: one_producer_def)
qed

section \<open>Consumed directories\<close>


lemma update_nodes_repairs: "repairViaOwnershipAnalysis (update_nodes f g c) = repairViaOwnershipAnalysis c"
  by (cases c) (simp_all add: ExternalCommand.truncate_def)

lemma addOutput_included: "included (bf_commands (addOutput command node bf)) owner = included (bf_commands bf) owner"
proof (cases "bf_nodes bf node")
  case (Some n)
  let ?new = "\<lambda>name c. if name = command then update_nodes id (\<lambda>ns. ns @ [n]) c else c"
  have "map_of (map (\<lambda>(name, c). (name, ?new name c)) cs) owner = map_option (?new owner) (map_of cs owner)" for cs
    by (induction cs) auto
  moreover have "repairViaOwnershipAnalysis (?new owner c) = repairViaOwnershipAnalysis c" "isExternalCommand (?new owner c) = isExternalCommand c"
    for c by (simp_all add: update_nodes_repairs update_nodes_get(2))
  ultimately show ?thesis using Some by (simp add: included_def addOutput_def split: option.split)
qed (simp add: addOutput_def)

definition produces :: "string \<Rightarrow> string \<Rightarrow> (string \<rightharpoonup> BuildNode) \<Rightarrow> bool" where
  "produces owner d nodes \<longleftrightarrow> (\<exists>n. nodes d = Some n \<and> owner \<in> set (bn_producers n))"

lemma addOutput_produces: "produces owner d (bf_nodes bf) \<Longrightarrow> produces owner d (bf_nodes (addOutput command node bf))"
  by (auto simp: produces_def addOutput_def add_producer_def split: option.split)

lemma addOutput_produced: "d \<in> dom (bf_nodes bf) \<Longrightarrow> produces owner d (bf_nodes (addOutput owner d bf))"
  by (auto simp: produces_def addOutput_def add_producer_def)

lemma addOutput_dom: "dom (bf_nodes (addOutput command node bf)) = dom (bf_nodes bf)"
  by (simp add: addOutput_def add_producer_dom split: option.split)

lemma output_produced:
  assumes "bf_ok bf" "included (bf_commands bf) owner" "is_output (bf_commands bf) owner d" "d \<in> dom (bf_nodes bf)"
  shows "produces owner d (bf_nodes bf)"
proof -
  obtain c where c: "map_of (bf_commands bf) owner = Some c" "isExternalCommand c" "d \<in> bn_name ` set (command_getOutputs c)"
    using assms(2,3) by (auto simp: included_def is_output_def split: option.splits)
  obtain n where n: "bf_nodes bf d = Some n" using assms(4) by blast
  show ?thesis
    using command_okD(3) [OF loader_okD(4) [OF assms(1) map_of_SomeD [OF c(1)]] c(2) n] c(3) n by (simp add: produces_def)
qed

lemma included_repairs: "included cs owner \<Longrightarrow> repairs cs owner"
  by (simp add: included_def repairs_def split: option.splits)

lemma amend_keeps: "produces owner d (bf_nodes bf) \<Longrightarrow> produces owner d (bf_nodes (amendOutputOfOwnersWithConsumedSubpaths addresses ow ds bf))"
  by (induction addresses ow ds bf rule: amendOutputOfOwnersWithConsumedSubpaths.induct)
    (auto simp: addOutput_produces split: option.split)

lemma amend_produces:
  assumes "(d, consumer) \<in> set ds" "includedOwnerOf addresses ow d = Some owner"
    and "bf_ok bf" "included (bf_commands bf) owner" "d \<in> dom (bf_nodes bf)"
  shows "produces owner d (bf_nodes (amendOutputOfOwnersWithConsumedSubpaths addresses ow ds bf))"
  using assms(1,3-5)
proof (induction ds arbitrary: bf)
  case (Cons x ds)
  obtain node user where x: "x = (node, user)" by (cases x)
  let ?bf1 = "case includedOwnerOf addresses ow node of
          None \<Rightarrow> bf
        | Some owner \<Rightarrow>
            if \<not> is_output (bf_commands bf) owner node \<and> repairs (bf_commands bf) owner then addOutput owner node bf else bf"
  have amend: "amendOutputOfOwnersWithConsumedSubpaths addresses ow (x # ds) bf = amendOutputOfOwnersWithConsumedSubpaths addresses ow ds ?bf1"
    using x by simp
  show ?case
  proof (cases "node = d")
    case True
    then have "produces owner d (bf_nodes ?bf1)"
      using assms(2) output_produced [OF Cons.prems(2,3) _ Cons.prems(4)] addOutput_produced [OF Cons.prems(4)] included_repairs [OF Cons.prems(3)]
      by simp
    then show ?thesis using amend_keeps amend by simp
  next
    case False
    have "bf_ok ?bf1" "included (bf_commands ?bf1) owner" "d \<in> dom (bf_nodes ?bf1)"
      using Cons.prems(2-4) by (simp_all add: addOutput_ok addOutput_included addOutput_dom split: option.split)
    moreover have "(d, consumer) \<in> set ds" using Cons.prems(1) False x by simp
    ultimately show ?thesis using Cons.IH [of ?bf1] amend by simp
  qed
qed simp

lemma must_scan_after_produces: "produces owner d nodes \<Longrightarrow> produces owner d (must_scan_after directory path nodes)"
  by (auto simp: produces_def must_scan_after_def split: option.split)

lemma defer_produces:
  "produces owner d nodes \<Longrightarrow> produces owner d (deferScanningUnownedInputsUntilSubpathsAvailable r unowned outputs nodes)"
  unfolding deferScanningUnownedInputsUntilSubpathsAvailable_def
  by (induction outputs arbitrary: nodes) (auto simp: must_scan_after_produces split: option.split)

text \<open>
  The orders that the standard library leaves open: a map is iterated in some order of its entries, and
  the sort puts shorter paths first.
\<close>

definition orders_ok :: "Orders \<Rightarrow> BuildFileImpl \<Rightarrow> bool" where
  "orders_ok ord bf \<longleftrightarrow>
     (let cs = or_commands ord (bf_commands bf); outputs = or_sort ord (outputNodesAndCommands cs) in
      mset cs = mset (bf_commands bf) \<and>
      mset outputs = mset (outputNodesAndCommands cs) \<and> sorted (map (length \<circ> fst) outputs) \<and>
      fst ` set outputs \<subseteq> set (or_addresses ord))"

lemma included_mset:
  assumes "mset cs = mset ds" "distinct (map fst ds)"
  shows "included cs = included ds"
proof -
  have "distinct (map fst cs)" using assms by (metis mset_map mset_eq_imp_distinct_iff)
  then have "map_of cs = map_of ds" using map_of_inject_set [of cs ds] assms by (metis mset_eq_setD)
  then show ?thesis by (simp add: included_def fun_eq_iff)
qed

lemma outputs_set: "mset cs = mset ds \<Longrightarrow> set (outputNodesAndCommands cs) = set (outputNodesAndCommands ds)"
  by (auto simp: outputNodesAndCommands_def dest: mset_eq_setD)

lemma directories_set: "mset cs = mset ds \<Longrightarrow> set (directoryInputNodesAndCommands cs) = set (directoryInputNodesAndCommands ds)"
  by (auto simp: directoryInputNodesAndCommands_def dest: mset_eq_setD)

lemma analysis_produces:
  assumes "bf_ok bf" "performOwnershipAnalysis ord bf = (True, bf1)" "orders_ok ord bf"
    and "one_producer (included (bf_commands bf)) (outputNodesAndCommands (bf_commands bf))"
    and "(p, owner) \<in> set (outputNodesAndCommands (bf_commands bf))" "included (bf_commands bf) owner"
    and "(d, consumer) \<in> set (directoryInputNodesAndCommands (bf_commands bf))" "owns p d"
  shows "produces owner d (bf_nodes bf1)"
proof -
  let ?cs = "or_commands ord (bf_commands bf)"
  let ?outputs = "or_sort ord (outputNodesAndCommands ?cs)"
  let ?inc = "included (bf_commands bf)"
  let ?addresses = "or_addresses ord"
  have ord: "mset ?cs = mset (bf_commands bf)" "mset ?outputs = mset (outputNodesAndCommands ?cs)"
    "sorted (map (length \<circ> fst) ?outputs)" "fst ` set ?outputs \<subseteq> set ?addresses"
    using assms(3) by (simp_all add: orders_ok_def Let_def)
  have inc: "included ?cs = ?inc" using included_mset [OF ord(1)] loader_okD(3) [OF assms(1)] by simp
  have outs: "set ?outputs = set (outputNodesAndCommands (bf_commands bf))" using ord(2) outputs_set [OF ord(1)] by (metis mset_eq_setD)
  then have "one_producer ?inc ?outputs" using one_producer_subset [OF assms(4)] by simp
  from ownerships_established [OF ord(3) this ord(4)]
  have est: "established ?inc ?outputs (establishOwnerships ?addresses ?inc ?outputs no_owners)" .
  obtain ow where ow: "establishOwnerships ?addresses ?inc ?outputs no_owners = Inr ow"
    using assms(2) by (auto simp: performOwnershipAnalysis_def Let_def inc split: sum.splits)
  then have "ownership_ok ?inc ?outputs (ow_includedPaths ow)" using est by (simp add: established_def)
  then have owner: "includedOwnerOf ?addresses ow d = Some owner"
    using includedOwnerOf_iff [OF _ ord(4)] assms(5,6,8) outs by blast
  have dir: "(d, consumer) \<in> set (directoryInputNodesAndCommands ?cs)" using directories_set [OF ord(1)] assms(7) by simp
  obtain c where c: "(consumer, c) \<in> set (bf_commands bf)" "d \<in> bn_name ` set (command_getInputs c)"
    using assms(7) by (auto simp: directoryInputNodesAndCommands_def)
  then have "d \<in> dom (bf_nodes bf)" using command_okD(1) [OF loader_okD(4) [OF assms(1) c(1)]] by blast
  from amend_produces [OF dir owner assms(1,6) this]
  show ?thesis using assms(2) ow by (auto simp: performOwnershipAnalysis_def Let_def inc defer_produces)
qed

text \<open>
  C18. A command that consumes a directory waits for the command that makes it.  Take a build file that
  asks for ownership analysis and loads, with at most one participating producer for each path.  If a
  participating command has an output above a directory that another command lists as an input, then in
  the description that is loaded that command is among the producers of the directory.
\<close>

theorem owner_produces_consumed:
  assumes "parseRootNode client absolute root new_build_file = Some (True, bf)" "bf_performOwnershipAnalysis bf"
    and "load ord client absolute filename (Some [Some root]) = Some (Some bd, bf1)" "orders_ok ord bf"
    and "one_producer (included (bf_commands bf)) (outputNodesAndCommands (bf_commands bf))"
    and "(p, owner) \<in> set (outputNodesAndCommands (bf_commands bf))" "included (bf_commands bf) owner"
    and "(d, consumer) \<in> set (directoryInputNodesAndCommands (bf_commands bf))" "owns p d"
  shows "produces owner d (bd_nodes bd)"
proof -
  have "performOwnershipAnalysis ord bf = (True, bf1)" "bd = build_description bf1"
    using assms(1-3) by (auto simp: load_def split: prod.splits if_splits)
  moreover have "bf_ok bf" using parseRootNode_ok [OF assms(1) new_build_file_ok] .
  ultimately show ?thesis using analysis_produces [OF _ _ assms(4-9)] by (simp add: build_description_def)
qed

definition sample_parsed :: BuildFileImpl where
  "sample_parsed = snd (the (parseRootNode (''basic'', 2) id sample_file new_build_file))"

lemma sample_parses:
  "map_option fst (parseRootNode (''basic'', 2) id sample_file new_build_file) = Some True"
  "bf_performOwnershipAnalysis sample_parsed"
  "outputNodesAndCommands (bf_commands sample_parsed) = [(''d'', ''A''), (''log'', ''B'')]"
  "directoryInputNodesAndCommands (bf_commands sample_parsed) = [(''d/e/'', ''B'')]"
  "included (bf_commands sample_parsed) ''A''"
  "\<not> included (bf_commands sample_parsed) ''B''"
  by code_simp+

theorem owner_produces_consumed_witness: "produces ''A'' ''d/e/'' (bd_nodes (the (fst (the sample_load))))"
proof -
  have root: "parseRootNode (''basic'', 2) id sample_file new_build_file = Some (True, sample_parsed)"
    using sample_parses(1) by (auto simp: sample_parsed_def)
  have ord: "orders_ok sample_orders sample_parsed" using sample_parses(3) by (simp add: orders_ok_def sample_orders_def)
  have one: "one_producer (included (bf_commands sample_parsed)) (outputNodesAndCommands (bf_commands sample_parsed))"
    using sample_parses(3) by (simp add: one_producer_def)
  obtain bd bf where load: "sample_load = Some (Some bd, bf)"
    using sample_checked by (auto simp: sample_checks_def split: option.splits)
  have "produces ''A'' ''d/e/'' (bd_nodes bd)"
    by (rule owner_produces_consumed [OF root sample_parses(2) load [unfolded sample_load_def] ord one, where p = "''d''" and consumer = "''B''"])
      (use sample_parses in \<open>simp_all add: owns_def isPrefix_def\<close>)
  then show ?thesis unfolding load by simp
qed

section \<open>Limits of the analysis\<close>

text \<open>
  Of two nested directories that nobody owns, only the first waits for an output below both.  A path
  without a trailing slash that two commands produce is not a conflict by itself: the later one owns it,
  and whether an output below it is a conflict depends on the order of the two.
\<close>

lemma only_first_waits:
  "map_option bn_mustScanAfterPaths
     (deferScanningUnownedInputsUntilSubpathsAvailable (\<lambda>c. True) [''u/'', ''u/v/''] [(''u/v/a'', ''A'')]
        [''u/'' \<mapsto> createNode ''u/'', ''u/v/'' \<mapsto> createNode ''u/v/''] ''u/v/'') = Some (bn_mustScanAfterPaths (createNode ''u/v/''))"
  by (simp add: deferScanningUnownedInputsUntilSubpathsAvailable_def must_scan_after_def isPrefix_def)

lemma order_decides_conflict:
  "isl (establishOwnerships [''d'', ''d/e''] (\<lambda>c. True) [(''d'', ''B''), (''d'', ''A''), (''d/e'', ''B'')] no_owners)"
  "\<not> isl (establishOwnerships [''d'', ''d/e''] (\<lambda>c. True) [(''d'', ''A''), (''d'', ''B''), (''d/e'', ''B'')] no_owners)"
  by (simp_all add: includedOwnerOf_def owns_def isPrefix_def)

end
