(* ===== verification/Spec2Isabelle.thy ===== *)
theory Spec2Isabelle
  imports Engine_Properties Ninja_Print Ninja_Load_Properties Process_Execution Directory_Properties Shell_Properties Stale_Properties
    Build_File_Ownership
begin

text \<open>
  A verification development for the build system under \<^verbatim>\<open>src/Core\<close>: its incremental
  build engine, the data it stores, the formats it reads, the queues and processes it runs commands
  with, and the rules, tasks and commands of the build system proper.  This theory collects the components; each
  theory states at its start what it models.

  \<^bold>\<open>The program.\<close>  The engine (\<^verbatim>\<open>lib/Core/BuildEngine.cpp\<close>) computes the value of
  a key by running the task of the key's rule, after the values of the keys that the task requests; it
  keeps the result and the keys that were used (\<^verbatim>\<open>Core/DependencyKeyIDs.h\<close>), so that a
  later build may skip the rule.  Two clients sit on top of the engine.  The build system
  (\<^verbatim>\<open>lib/BuildSystem\<close>) names files, commands and directories by keys
  (\<^verbatim>\<open>BuildKey.h\<close>) and stores their state in values (\<^verbatim>\<open>BuildValue.h\<close>),
  which hold file information (\<^verbatim>\<open>Basic/FileInfo.h\<close>) and string lists
  (\<^verbatim>\<open>Basic/StringList.h\<close>) and are coded in bytes
  (\<^verbatim>\<open>Basic/BinaryCoding.h\<close>).  The Ninja client (\<^verbatim>\<open>lib/Ninja\<close>) lexes,
  parses and loads manifests.  Both read the dependencies that compilers report
  (\<^verbatim>\<open>lib/Core/MakefileDepsParser.cpp\<close>, \<^verbatim>\<open>DependencyInfoParser.cpp\<close>) and
  quote command lines for shells (\<^verbatim>\<open>lib/Basic/ShellUtility.cpp\<close>).  Commands run on an
  execution queue (\<^verbatim>\<open>lib/Basic/LaneBasedExecutionQueue.cpp\<close>,
  \<^verbatim>\<open>SerialQueue.cpp\<close>), which starts processes and waits for them
  (\<^verbatim>\<open>lib/Basic/Subprocess.cpp\<close>).

  \<^bold>\<open>The theories.\<close>

  \<^item> \<^verbatim>\<open>Builra_Prelude\<close>: types, vectors, options.

  \<^item> \<^verbatim>\<open>Dependency_Keys\<close>: \<^verbatim>\<open>DependencyKeyIDs\<close>, two parallel vectors of ids and
  flag bytes; shown to refine a list of triples.  The locale \<^verbatim>\<open>dependency_seq\<close> is what the
  engine relies on.

  \<^item> \<^verbatim>\<open>Engine_Types\<close>, \<^verbatim>\<open>Engine_Ops\<close>, \<^verbatim>\<open>Engine_Cycle\<close>,
  \<^verbatim>\<open>Engine_Loop\<close>: the engine.  The engine object is one record with its tables and queues; a
  rule, task or key is referred to by its index.  The member functions are functions on the record; the
  loop of \<^verbatim>\<open>executeTasks\<close> is a small-step machine, as other threads call
  \<^verbatim>\<open>taskIsComplete\<close>, \<^verbatim>\<open>taskDiscoveredDependency\<close> and
  \<^verbatim>\<open>cancelBuild\<close> between its steps.  The delegate, the tasks and the database are the
  parameter \<^verbatim>\<open>client\<close>, whose callbacks return the calls that they make.

  \<^item> \<^verbatim>\<open>Engine_Skeleton\<close>, \<^verbatim>\<open>Engine_Calls\<close>, \<^verbatim>\<open>Engine_Inv\<close>,
  \<^verbatim>\<open>Engine_Safety\<close>: the invariant that relates wait counts, queues, rule states and the
  count of outstanding tasks, kept by every operation under every interleaving.
  \<^verbatim>\<open>Engine_Progress\<close>: rules only move forward within a build.
  \<^verbatim>\<open>Engine_Scan\<close> and \<^verbatim>\<open>Engine_Skip\<close>: why a rule may be skipped, first for the
  rules that are marked as not needing to run, then for every rule that is complete without having run,
  with the record that the engine or the database had of it.  \<^verbatim>\<open>Cycle_Search\<close>: the depth-first search of \<^verbatim>\<open>findCycle\<close> ends and is correct, over the locale
  \<^verbatim>\<open>finite_graph\<close>.  \<^verbatim>\<open>Engine_Properties\<close>: the theorems, and runs of the engine on
  a sample client.

  \<^item> \<^verbatim>\<open>Binary_Coding\<close>, \<^verbatim>\<open>String_List\<close>, \<^verbatim>\<open>File_Info\<close>,
  \<^verbatim>\<open>Build_Value\<close>, \<^verbatim>\<open>Build_Key\<close>: the stored data.  The locale
  \<^verbatim>\<open>codec\<close> states what a coder promises (what was written is read back, and the codes can be
  told apart); it is interpreted for every coder from bytes to file information, and the round trips
  rest on it.

  \<^item> \<^verbatim>\<open>Makefile_Deps\<close>, \<^verbatim>\<open>Dependency_Info\<close>,
  \<^verbatim>\<open>Shell_Utility\<close>: the text formats, each against a printer or a reference reader.

  \<^item> \<^verbatim>\<open>Support_Path\<close>, \<^verbatim>\<open>String_Integers\<close>: what the program uses of the
  support library for paths and for numbers in strings.

  \<^item> \<^verbatim>\<open>Ninja_Lexer\<close>, \<^verbatim>\<open>Ninja_Parser\<close>, \<^verbatim>\<open>Ninja_Print\<close>: the lexer
  and the parser.  The parser's delegate is the sequence of the calls it gets.  A calculus of weakest
  preconditions shows at once that the parser ends, stays in its buffer and obeys the protocol of its
  delegate; a printer shows that it reads back what was meant.

  \<^item> \<^verbatim>\<open>Ninja_Manifest\<close>: nodes, rules, pools, commands, scopes, and path normalisation,
  which works in place on a buffer and is shown equal to resolving components on a stack.

  \<^item> \<^verbatim>\<open>Ninja_Eval\<close>, \<^verbatim>\<open>Ninja_Loader\<close>,
  \<^verbatim>\<open>Ninja_Load_Inv\<close>, \<^verbatim>\<open>Ninja_Load_Properties\<close>: string templates and the manifest
  loader, the delegate of the parser.  It is composed with the parser: a load parses each file and
  performs the calls, whose order the parser's protocol guarantees.

  \<^item> \<^verbatim>\<open>Execution_Queue\<close>, \<^verbatim>\<open>Execution_Queue_Properties\<close>,
  \<^verbatim>\<open>Serial_Queue\<close>, \<^verbatim>\<open>Task_Limits\<close>: the queues.  Their threads are
  sequences of actions, one for each stretch between two points where another thread may run; the
  theorems hold for every interleaving.

  \<^item> \<^verbatim>\<open>Process_Environment\<close>, \<^verbatim>\<open>Control_Protocol\<close>,
  \<^verbatim>\<open>Subprocess\<close>, \<^verbatim>\<open>Subprocess_Properties\<close>,
  \<^verbatim>\<open>Process_Execution\<close>: the environment of a process, the channel on which it asks for its
  lane to be released, \<^verbatim>\<open>spawnProcess\<close> with its pipes, its polling and its calls of the
  delegate, the execution of a process by the queue, and which processes the signals of a cancellation
  reach, given the groups in which they were spawned.  The answers of the operating system are
  arguments.

  \<^item> \<^verbatim>\<open>Build_Nodes\<close>, \<^verbatim>\<open>External_Command\<close>,
  \<^verbatim>\<open>Shell_Command\<close>, \<^verbatim>\<open>Tool_Commands\<close>,
  \<^verbatim>\<open>Stale_Files\<close>, \<^verbatim>\<open>Swift_Command\<close>,
  \<^verbatim>\<open>JSON_Escape\<close>: nodes and commands (\<^verbatim>\<open>BuildNode.cpp\<close>,
  \<^verbatim>\<open>ExternalCommand.cpp\<close>, \<^verbatim>\<open>ShellCommand.cpp\<close> and the command classes of
  \<^verbatim>\<open>BuildSystem.cpp\<close>).  A command is a record that extends the record of its base class.
  What a call does to the engine, the delegate and the file system is a list of
  \<^verbatim>\<open>BuildEffect\<close>; a hash is a parameter.  \<^verbatim>\<open>External_Command_Properties\<close>,
  \<^verbatim>\<open>Shell_Properties\<close> and \<^verbatim>\<open>Stale_Properties\<close> show when results are reused,
  when commands run, what dependencies they report, which files are removed, and which stale files are
  left after a sequence of builds, with the roots and the refused removals of each.

  \<^item> \<^verbatim>\<open>Node_Tasks\<close>, \<^verbatim>\<open>Directory_Tasks\<close>: the tasks that
  \<^verbatim>\<open>BuildSystem.cpp\<close> gives to the engine for targets, nodes and directories.
  \<^verbatim>\<open>Directory_Properties\<close>: validity of listings, and signatures that do not depend on the
  order of arrival, over the locale \<^verbatim>\<open>tree_task\<close>, which both signature tasks interpret.

  \<^item> \<^verbatim>\<open>Build_Rules\<close>, \<^verbatim>\<open>Build_Properties\<close>: the description, the lookup of rules
  for keys, against a table of the task and the signature of every kind of key and node, the entry points;
  and the theorems that span keys, values, tasks and commands.

  \<^item> \<^verbatim>\<open>Build_File\<close>: the loader of build files (\<^verbatim>\<open>BuildFile.cpp\<close>), which
  walks over the tree of a YAML parser, configures tools, nodes and commands, and may analyse which
  command owns which path.  A pointer to a node is the name of the node.
  \<^verbatim>\<open>Build_File_Properties\<close>: every function of the loader keeps an invariant, which makes the
  loaded description closed and consistent, so that the theorem on the values of produced nodes applies
  to it.  \<^verbatim>\<open>Build_File_Ownership\<close>: the ownership analysis finds the conflicts and makes
  consumers wait for owners, whatever the orders that the standard library leaves open.

  \<^bold>\<open>Faults and loops.\<close>  An assertion, a null pointer or an access out of bounds is the value
  \<open>None\<close>; an error that the code reports is an event, a message or a branch of the result.  The loops are
  functions with termination proofs where they end by themselves.  Fuel is used in three places.
  \<^verbatim>\<open>run_loop\<close> runs the engine without other threads for so many steps and serves the
  definition of \<^verbatim>\<open>build\<close> and the sample runs; the theorems on the loop, and the one on
  what \<^verbatim>\<open>build\<close> leaves behind, are about all reachable configurations, without fuel.  The lookup of Ninja parameters has nine units, one for every parameter
  name, which is shown to be exact.  A load has a depth of includes; it is shown that, in an absolute
  working directory, every load ends, with a result that further depth does not change, if of the files
  that it reaches none includes itself, none ends in a dollar sign and no parameter of a rule refers to
  itself through the other parameters of that rule.  Lines, columns, epochs and wait counts are natural numbers; sizes that the code stores or
  cuts are words of their width.

  \<^bold>\<open>Parameters.\<close>  The file system, the digests and hashes, the engine's client with the
  database, the reading of Ninja files, the YAML parser, the matching of file names with patterns, and the answers of
  the operating system are arguments of the definitions that use them.  From the support library
  (\<^verbatim>\<open>lib/toolchain\<close>) only what these components call is modelled, for POSIX.

  \<^bold>\<open>Not modelled.\<close>  The SQLite database runs its statements outside of the program.  File
  system access and platform wrappers are operating system calls, and so are the Windows variants and
  the substitute for \<^verbatim>\<open>posix_spawn\<close>.  Tracing, dumping and printing have no state.  The
  front end and the command line tools handle options and output.
\<close>

end
